(* ===== verification/Prelude.thy ===== *)
theory Prelude
  imports Main "HOL-Library.Word"
begin

text \<open>
  Shared vocabulary of the development: the names of the C integer types, the
  result type of routines that may run into undefined behaviour, and generic
  lemmas on lists, \<open>fold\<close> and words that several components use.

  C integers are kept at their width.  Where the code works with bits
  (\<open>uint8_t\<close> bitmaps, \<open>uint64_t\<close> page-table entries, the inflate bit buffer)
  the model uses \<open>8 word\<close>, \<open>32 word\<close> and \<open>64 word\<close>; where it only counts and
  compares, the model uses \<open>nat\<close> and writes the wrap-around out with \<open>u32_add\<close>,
  \<open>u32_sub\<close>, \<open>u32_mul\<close> and their 64-bit versions.
\<close>

unbundle bit_operations_syntax

type_synonym u8 = "8 word"
type_synonym u16 = "16 word"
type_synonym u32 = "32 word"
type_synonym u64 = "64 word"

text \<open>Rewriting of wrapped arithmetic that does not wrap is collected here.\<close>

named_theorems no_wrap \<open>unsigned arithmetic that stays below its modulus\<close>

section \<open>Unsigned arithmetic with the wrap-around written out\<close>

definition u32_add :: "nat \<Rightarrow> nat \<Rightarrow> nat" where
  "u32_add a b = (a + b) mod 2 ^ 32"

definition u32_sub :: "nat \<Rightarrow> nat \<Rightarrow> nat" where
  "u32_sub a b = (a + (2 ^ 32 - b mod 2 ^ 32)) mod 2 ^ 32"

definition u32_mul :: "nat \<Rightarrow> nat \<Rightarrow> nat" where
  "u32_mul a b = (a * b) mod 2 ^ 32"

definition u64_add :: "nat \<Rightarrow> nat \<Rightarrow> nat" where
  "u64_add a b = (a + b) mod 2 ^ 64"

definition u64_sub :: "nat \<Rightarrow> nat \<Rightarrow> nat" where
  "u64_sub a b = (a + (2 ^ 64 - b mod 2 ^ 64)) mod 2 ^ 64"

text \<open>\<open>(int)x\<close> of an \<open>unsigned int\<close>.\<close>

definition to_int :: "nat \<Rightarrow> int" where
  "to_int n = (if n < 2 ^ 31 then int n else int n - 2 ^ 32)"

lemma u32_add_small [no_wrap]: "a + b < 2 ^ 32 \<Longrightarrow> u32_add a b = a + b"
  by (simp add: u32_add_def)

lemma u32_mul_small [no_wrap]: "a * b < 2 ^ 32 \<Longrightarrow> u32_mul a b = a * b"
  by (simp add: u32_mul_def)

lemma u64_add_small [no_wrap]: "a + b < 2 ^ 64 \<Longrightarrow> u64_add a b = a + b"
  by (simp add: u64_add_def)

lemma mod_sub_wrap:
  fixes a b m :: nat
  assumes "b \<le> a" and "a < m"
  shows "(a + (m - b mod m)) mod m = a - b"
proof -
  have "a + (m - b mod m) = (a - b) + m"
    using assms by simp
  then have "(a + (m - b mod m)) mod m = (a - b) mod m"
    by (simp only: mod_add_self2)
  then show ?thesis
    using assms by simp
qed

lemma u32_sub_small [no_wrap]: "b \<le> a \<Longrightarrow> a < 2 ^ 32 \<Longrightarrow> u32_sub a b = a - b"
  by (simp only: u32_sub_def mod_sub_wrap)

lemma u64_sub_small [no_wrap]: "b \<le> a \<Longrightarrow> a < 2 ^ 64 \<Longrightarrow> u64_sub a b = a - b"
  by (simp only: u64_sub_def mod_sub_wrap)

lemma u32_bounds: "u32_add a b < 2 ^ 32" "u32_sub a b < 2 ^ 32" "u32_mul a b < 2 ^ 32"
  by (simp_all add: u32_add_def u32_sub_def u32_mul_def)

section \<open>Lists and loops\<close>

text \<open>A \<open>for\<close> loop over an index range is \<open>fold\<close> over the list of indices.\<close>

lemma fold_invariant_set:
  assumes "\<And>x s. x \<in> set xs \<Longrightarrow> P s \<Longrightarrow> P (f x s)"
  shows "P s \<Longrightarrow> P (fold f xs s)"
  using assms by (induction xs arbitrary: s) auto

lemma fold_proj_const:
  assumes "\<And>x s. g (f x s) = g s"
  shows "g (fold f xs s) = g s"
  using assms by (induction xs arbitrary: s) auto

lemma nth_map_upt_Suc: "i < n \<Longrightarrow> map f [0..<n] ! i = f i"
  by simp

section \<open>Words and their values\<close>

lemma uint_inject [simp]: "uint (a :: 'a::len word) = uint b \<longleftrightarrow> a = b"
  by (simp add: word_uint_eq_iff)

lemma uint_zero_iff [simp]: "uint (a :: 'a::len word) = 0 \<longleftrightarrow> a = 0"
  by (simp add: uint_0_iff)

lemma unat_u8_less: "unat (b :: u8) < 256"
proof -
  have "unat b < 2 ^ LENGTH(8)" by (rule unsigned_less)
  then show ?thesis by simp
qed

section \<open>Single bits of words\<close>

lemma and_one_shift_iff_bit:
  fixes w :: "'a::len word"
  shows "(drop_bit n w AND 1 \<noteq> 0) = bit w n"
proof -
  have "drop_bit n w AND 1 = of_bool (odd (drop_bit n w))"
    by (simp add: and_one_eq mod_2_eq_odd)
  then show ?thesis
    by (simp add: bit_iff_odd_drop_bit)
qed

text \<open>The simplifier writes the mask \<open>1 << n\<close> as \<open>2 ^ n\<close>.\<close>

lemma bit_set_mask:
  fixes w :: "'a::len word"
  assumes "m < LENGTH('a)"
  shows "bit (w OR 2 ^ n) m = (bit w m \<or> m = n)"
  using assms by (auto simp: bit_or_iff bit_exp_iff)

lemma bit_clear_mask:
  fixes w :: "'a::len word"
  shows "bit (w AND NOT (2 ^ n)) m = (bit w m \<and> m \<noteq> n)"
  by (auto simp: bit_and_iff bit_not_iff bit_exp_iff dest: bit_imp_le_length)

lemma find_SomeD: "List.find P xs = Some x \<Longrightarrow> x \<in> set xs \<and> P x"
  by (induction xs) (auto split: if_splits)

lemma find_split:
  "List.find P xs = Some x \<Longrightarrow> \<exists>us vs. xs = us @ x # vs \<and> (\<forall>u \<in> set us. \<not> P u) \<and> P x"
proof (induction xs)
  case (Cons a xs)
  show ?case
  proof (cases "P a")
    case True
    then show ?thesis using Cons.prems by (intro exI [of _ "[]"] exI [of _ xs]) auto
  next
    case False
    then obtain us vs where "xs = us @ x # vs" "\<forall>u \<in> set us. \<not> P u" "P x" using Cons by auto
    then show ?thesis using False by (intro exI [of _ "a # us"] exI [of _ vs]) auto
  qed
qed simp

end
