(* ===== verification/CString.thy ===== *)
theory CString
  imports Prelude
begin

text \<open>
  \<open>src/string.c\<close>: the freestanding C string and memory routines.

  A pointer argument is the list of bytes from the pointed-to position to the end
  of the object; reading past that end is undefined behaviour in C and is the
  result \<open>None\<close> here.  The higher components work on HOL strings; \<open>cstr\<close> is the
  memory image of such a string, and the lemmas at the end say what the byte-level
  routines compute on these images.
\<close>

section \<open>The routines\<close>

fun strlen :: "u8 list \<Rightarrow> nat option" where
  "strlen [] = None"
| "strlen (c # cs) = (if c \<noteq> 0 then map_option Suc (strlen cs) else Some 0)"

fun strcmp :: "u8 list \<Rightarrow> u8 list \<Rightarrow> int option" where
  "strcmp (a # as) (b # bs) =
     (if a \<noteq> 0 \<and> a = b then strcmp as bs else Some (uint a - uint b))"
| "strcmp _ _ = None"

fun strncmp :: "u8 list \<Rightarrow> u8 list \<Rightarrow> nat \<Rightarrow> int option" where
  "strncmp as bs 0 = Some 0"
| "strncmp (a # as) (b # bs) (Suc n) =
     (if a \<noteq> 0 \<and> a = b then strncmp as bs n else Some (uint a - uint b))"
| "strncmp _ _ (Suc n) = None"

fun memcmp :: "u8 list \<Rightarrow> u8 list \<Rightarrow> nat \<Rightarrow> int option" where
  "memcmp p q 0 = Some 0"
| "memcmp (x # p) (y # q) (Suc n) =
     (if x \<noteq> y then Some (uint x - uint y) else memcmp p q n)"
| "memcmp _ _ (Suc n) = None"

fun memset :: "u8 list \<Rightarrow> u8 \<Rightarrow> nat \<Rightarrow> u8 list option" where
  "memset d v 0 = Some d"
| "memset (x # d) v (Suc n) = map_option (Cons v) (memset d v n)"
| "memset [] v (Suc n) = None"

text \<open>\<open>memcpy\<close> between two objects that do not overlap.\<close>

fun memcpy :: "u8 list \<Rightarrow> u8 list \<Rightarrow> nat \<Rightarrow> u8 list option" where
  "memcpy d s 0 = Some d"
| "memcpy (x # d) (y # s) (Suc n) = map_option (Cons y) (memcpy d s n)"
| "memcpy _ _ (Suc n) = None"

fun skip_spaces :: "u8 list \<Rightarrow> u8 list" where
  "skip_spaces (c # cs) = (if c = 0x20 then skip_spaces cs else c # cs)"
| "skip_spaces [] = []"

fun atou_digits :: "u8 list \<Rightarrow> nat \<Rightarrow> nat option" where
  "atou_digits [] n = None"
| "atou_digits (c # cs) n =
     (if 0x30 \<le> c \<and> c \<le> 0x39
      then atou_digits cs (u32_add (u32_mul n 10) (unat c - 0x30))
      else Some n)"

definition atou :: "u8 list \<Rightarrow> nat option" where
  "atou s = atou_digits (skip_spaces s) 0"

section \<open>What they compute\<close>

lemma strlen_image: "0 \<notin> set s \<Longrightarrow> strlen (s @ 0 # rest) = Some (length s)"
  by (induction s) auto

lemma strlen_SomeD:
  "strlen s = Some n \<Longrightarrow> n < length s \<and> s ! n = 0 \<and> (\<forall>i < n. s ! i \<noteq> 0)"
proof (induction s arbitrary: n rule: strlen.induct)
  case (2 c cs)
  then show ?case
    by (cases n) (auto simp: nth_Cons split: if_splits nat.splits)
qed simp

lemma memcpy_eq: "n \<le> length d \<Longrightarrow> n \<le> length s \<Longrightarrow> memcpy d s n = Some (take n s @ drop n d)"
  by (induction d s n rule: memcpy.induct) auto

lemma memcpy_None_iff: "memcpy d s n = None \<longleftrightarrow> length d < n \<or> length s < n"
proof (induction n arbitrary: d s)
  case (Suc n)
  then show ?case by (cases d; cases s) auto
qed simp

lemma memset_eq: "n \<le> length d \<Longrightarrow> memset d v n = Some (replicate n v @ drop n d)"
  by (induction d v n rule: memset.induct) auto

lemma memcmp_zero_iff:
  "n \<le> length p \<Longrightarrow> n \<le> length q \<Longrightarrow> memcmp p q n = Some 0 \<longleftrightarrow> take n p = take n q"
  by (induction p q n rule: memcmp.induct) auto

section \<open>C strings and HOL strings\<close>

definition byte_of :: "char \<Rightarrow> u8" where
  "byte_of c = of_nat (of_char c)"

definition bytes_of :: "string \<Rightarrow> u8 list" where
  "bytes_of s = map of_char s"

definition char_at :: "u8 \<Rightarrow> char" where
  "char_at b = char_of (unat b)"

definition cstr :: "string \<Rightarrow> u8 list" where
  "cstr s = map byte_of s @ [0]"

abbreviation nul_free :: "string \<Rightarrow> bool" where
  "nul_free s \<equiv> char_of (0 :: nat) \<notin> set s"

lemma of_char_less_256: "(of_char c :: nat) < 256"
  using range_nat_of_char by fastforce

lemma unat_byte_of [simp]: "unat (byte_of c) = of_char c"
  using of_char_less_256 [of c] by (simp add: byte_of_def unat_of_nat)

lemma char_at_byte_of [simp]: "char_at (byte_of c) = c"
  by (simp add: char_at_def)

lemma byte_of_char_at [simp]: "byte_of (char_at b) = b"
  using unat_u8_less [of b] by (simp add: byte_of_def char_at_def)

lemma byte_of_inject [simp]: "byte_of a = byte_of b \<longleftrightarrow> a = b"
  by (metis char_at_byte_of)

lemma byte_of_zero_iff: "byte_of c = 0 \<longleftrightarrow> c = char_of (0 :: nat)"
  by (metis byte_of_char_at byte_of_inject char_at_def unat_0)

lemma cstr_nul_free: "nul_free s \<Longrightarrow> 0 \<notin> set (map byte_of s)"
  by (auto simp: byte_of_zero_iff image_iff eq_commute [of 0])

lemma strlen_cstr: "nul_free s \<Longrightarrow> strlen (cstr s) = Some (length s)"
  using strlen_image [OF cstr_nul_free] by (simp add: cstr_def)

text \<open>
  \<open>strcmp\<close> is total on C strings, and its result is zero exactly on equal strings;
  otherwise its sign is the byte order at the first difference.
\<close>

lemma strcmp_cstr_zero:
  "nul_free s \<Longrightarrow> nul_free t \<Longrightarrow> strcmp (cstr s) (cstr t) = Some 0 \<longleftrightarrow> s = t"
proof (induction s arbitrary: t)
  case Nil
  then show ?case
    by (cases t) (auto simp: cstr_def byte_of_zero_iff)
next
  case (Cons a s)
  then show ?case
    by (cases t) (auto simp: cstr_def byte_of_zero_iff)
qed

lemma strcmp_cstr_total:
  "nul_free s \<Longrightarrow> nul_free t \<Longrightarrow> \<exists>r. strcmp (cstr s) (cstr t) = Some r"
proof (induction s arbitrary: t)
  case Nil
  then show ?case
    by (cases t) (auto simp: cstr_def)
next
  case (Cons a s)
  then show ?case
    by (cases t) (auto simp: cstr_def byte_of_zero_iff)
qed

lemma strncmp_prefix:
  assumes "nul_free s" and "nul_free t" and "length t \<le> n"
  shows "strncmp (cstr s) (cstr t) (length t) = Some 0 \<longleftrightarrow> take (length t) s = t"
  using assms(1,2)
proof (induction t arbitrary: s)
  case Nil
  then show ?case by (simp add: cstr_def)
next
  case (Cons b t)
  then show ?case
    by (cases s) (auto simp: cstr_def byte_of_zero_iff)
qed

section \<open>Decimal numbers\<close>

text \<open>The decimal representation of a number, as \<open>printf\<close> writes it.\<close>

fun decimal :: "nat \<Rightarrow> string" where
  "decimal n = (if n < 10 then [char_of (48 + n)]
                else decimal (n div 10) @ [char_of (48 + n mod 10)])"

declare decimal.simps [simp del]

lemma unat_digit: "d < 10 \<Longrightarrow> unat (of_nat (48 + d) :: u8) = 48 + d"
  by (subst unat_of_nat) simp

lemma byte_of_digit: "d < 10 \<Longrightarrow> byte_of (char_of (48 + d)) = of_nat (48 + d)"
  by (simp add: byte_of_def)

lemma atou_digit_step:
  assumes "d < 10" and "m * 10 + d < 2 ^ 32"
  shows "atou_digits (byte_of (char_of (48 + d)) # cs) m = atou_digits cs (m * 10 + d)"
proof -
  note u = unat_digit [OF assms(1)]
  have "(0x30 :: u8) \<le> of_nat (48 + d) \<and> (of_nat (48 + d) :: u8) \<le> 0x39"
    using assms(1) by (simp add: word_le_nat_alt u del: of_nat_add)
  moreover have "u32_add (u32_mul m 10) d = m * 10 + d"
    using assms(2) by (simp add: no_wrap)
  ultimately show ?thesis
    using u by (simp only: byte_of_digit [OF assms(1)] atou_digits.simps if_True simp_thms) simp
qed

lemma atou_digits_decimal:
  assumes "m < 2 ^ 32"
  shows "atou_digits (map byte_of (decimal m) @ cs) 0 = atou_digits cs m"
  using assms
proof (induction m arbitrary: cs rule: decimal.induct)
  case (1 n)
  show ?case
  proof (cases "n < 10")
    case True
    then show ?thesis
      using atou_digit_step [of n 0 cs] by (simp add: decimal.simps [of n])
  next
    case False
    have "n div 10 < 2 ^ 32"
      using "1.prems" by simp
    from "1.IH" [OF False this]
    have "atou_digits (map byte_of (decimal n) @ cs) 0 =
          atou_digits (byte_of (char_of (48 + n mod 10)) # cs) (n div 10)"
      using False by (simp add: decimal.simps [of n])
    also have "\<dots> = atou_digits cs n"
      using atou_digit_step [of "n mod 10" "n div 10" cs] "1.prems" by simp
    finally show ?thesis .
  qed
qed

lemma decimal_head: "\<exists>d ds. (d :: nat) < 10 \<and> decimal m = char_of (48 + d) # ds"
proof (induction m rule: decimal.induct)
  case (1 n)
  show ?case
  proof (cases "n < 10")
    case True
    then show ?thesis by (auto simp: decimal.simps [of n])
  next
    case False
    with "1.IH" obtain d :: nat and ds where "d < 10" "decimal (n div 10) = char_of (48 + d) # ds"
      by blast
    with False show ?thesis by (auto simp: decimal.simps [of n])
  qed
qed

lemma decimal_no_space: "skip_spaces (map byte_of (decimal m) @ cs) = map byte_of (decimal m) @ cs"
proof -
  obtain d :: nat and ds where d: "d < 10" "decimal m = char_of (48 + d) # ds"
    using decimal_head by blast
  have "(of_nat (48 + d) :: u8) \<noteq> 0x20"
  proof
    assume "(of_nat (48 + d) :: u8) = 0x20"
    with unat_digit [OF d(1)] have "unat (0x20 :: u8) = 48 + d" by (simp only:)
    then show False by simp
  qed
  then show ?thesis
    using d by (simp add: byte_of_digit del: of_nat_add)
qed

text \<open>\<open>atou\<close> reads back every 32-bit number from its decimal representation, with
  any leading blanks, up to the terminator.\<close>

theorem atou_decimal:
  assumes "m < 2 ^ 32"
  shows "atou (replicate k 0x20 @ cstr (decimal m)) = Some m"
proof -
  have "skip_spaces (replicate k 0x20 @ cstr (decimal m)) = cstr (decimal m)"
    by (induction k) (simp_all add: decimal_no_space cstr_def)
  then show ?thesis
    using assms by (simp add: atou_def cstr_def atou_digits_decimal)
qed

theorem atou_decimal_witness: "atou (replicate 2 0x20 @ cstr (decimal 4096)) = Some 4096"
  by (rule atou_decimal) simp

end
