(* ===== verification/Memmap.thy ===== *)
theory Memmap
  imports Prelude
begin

text \<open>
  \<open>src/memmap.c\<close>: the copy of the boot loader's memory map.  The static array
  \<open>g_entries\<close> with its fill count \<open>g_count\<close> is the list of the entries in use; a
  store past \<open>MAX_ENTRIES\<close> is undefined behaviour and is the result \<open>None\<close>.
\<close>

section \<open>Entries\<close>

record limine_memmap_entry =
  le_base :: u64
  le_length :: u64
  le_type :: u64

record memmap_entry =
  me_base :: u64
  me_length :: u64
  me_type :: u32

definition MEMMAP_TYPE_USABLE :: u32 where "MEMMAP_TYPE_USABLE = 0"
definition MEMMAP_TYPE_BOOTLOADER_RECLAIM :: u32 where "MEMMAP_TYPE_BOOTLOADER_RECLAIM = 5"

definition MAX_ENTRIES :: nat where "MAX_ENTRIES = 128"

section \<open>Operations\<close>

definition memmap_convert :: "limine_memmap_entry \<Rightarrow> memmap_entry" where
  "memmap_convert e =
     \<lparr>me_base = le_base e, me_length = le_length e, me_type = ucast (le_type e)\<rparr>"

fun memmap_fill :: "memmap_entry list \<Rightarrow> limine_memmap_entry list \<Rightarrow> memmap_entry list option" where
  "memmap_fill g [] = Some g"
| "memmap_fill g (e # es) =
     (if length g < MAX_ENTRIES then memmap_fill (g @ [memmap_convert e]) es else None)"

definition memmap_init ::
  "memmap_entry list \<Rightarrow> limine_memmap_entry list option \<Rightarrow> memmap_entry list option" where
  "memmap_init g resp = (case resp of
     None \<Rightarrow> Some g
   | Some entries \<Rightarrow> memmap_fill g (take (min (length entries) MAX_ENTRIES) entries))"

definition memmap_count :: "memmap_entry list \<Rightarrow> int" where
  "memmap_count g = int (length g)"

definition memmap_get :: "memmap_entry list \<Rightarrow> int \<Rightarrow> memmap_entry option" where
  "memmap_get g i = (if i < 0 \<or> i \<ge> memmap_count g then None else Some (g ! nat i))"

definition memmap_total_usable :: "memmap_entry list \<Rightarrow> u64" where
  "memmap_total_usable g =
     fold (\<lambda>e total. if me_type e = MEMMAP_TYPE_USABLE then total + me_length e else total) g 0"

definition type_name :: "u32 \<Rightarrow> string" where
  "type_name t =
    (if t = 0 then ''USABLE'' else if t = 1 then ''RESERVED''
     else if t = 2 then ''ACPI_RECLAIM'' else if t = 3 then ''ACPI_NVS''
     else if t = 4 then ''BAD'' else if t = 5 then ''BOOTLOADER_RECLAIM''
     else if t = 6 then ''KERNEL_AND_MODULES'' else ''UNKNOWN'')"

section \<open>Properties\<close>

lemma memmap_fill_eq:
  "length g + length es \<le> MAX_ENTRIES \<Longrightarrow> memmap_fill g es = Some (g @ map memmap_convert es)"
  by (induction g es rule: memmap_fill.induct) auto

lemma memmap_init_fresh:
  "memmap_init [] (Some es) = Some (map memmap_convert (take MAX_ENTRIES es))"
  by (simp add: memmap_init_def memmap_fill_eq min_def)

lemma memmap_get_Some_iff:
  "memmap_get g i = Some e \<longleftrightarrow> 0 \<le> i \<and> i < memmap_count g \<and> e = g ! nat i"
  by (auto simp: memmap_get_def)

lemma memmap_total_usable_eq:
  "memmap_total_usable g =
     sum_list (map me_length (filter (\<lambda>e. me_type e = MEMMAP_TYPE_USABLE) g))"
proof -
  have "fold (\<lambda>e total. if me_type e = MEMMAP_TYPE_USABLE then total + me_length e else total) g t
    = t + sum_list (map me_length (filter (\<lambda>e. me_type e = MEMMAP_TYPE_USABLE) g))" for t
    by (induction g arbitrary: t) (auto simp: algebra_simps)
  then show ?thesis by (simp add: memmap_total_usable_def)
qed

text \<open>\<open>memmap_init\<close> on the zero-initialised table never stores past the array: it
  keeps the first \<open>MAX_ENTRIES\<close> entries of the boot loader's map, in order, and
  \<open>memmap_get\<close> returns exactly those.\<close>

theorem memmap_init_get:
  "\<exists>g. memmap_init [] (Some es) = Some g \<and> length g = min (length es) MAX_ENTRIES \<and>
     (\<forall>i. memmap_get g i =
        (if 0 \<le> i \<and> nat i < min (length es) MAX_ENTRIES
         then Some (memmap_convert (es ! nat i)) else None))"
  unfolding memmap_init_fresh
  by (rule exI [of _ "map memmap_convert (take MAX_ENTRIES es)"])
    (auto simp: memmap_get_def memmap_count_def)

end
