(* ===== verification/Frame_Alloc.thy ===== *)
theory Frame_Alloc
  imports Prelude
begin

text \<open>
  The contract between the physical memory manager and its clients (the page
  tables of \<open>src/vmm.c\<close>, the kernel heap of \<open>src/kheap.c\<close>): what \<open>pmm_alloc\<close> and
  \<open>pmm_free\<close> promise about the set of frames that are available.  Address 0 is
  the failure value, so it is never an available frame.
\<close>

locale frame_allocator =
  fixes alloc :: "'s \<Rightarrow> nat \<times> 's"
    and release :: "'s \<Rightarrow> nat \<Rightarrow> 's"
    and avail :: "'s \<Rightarrow> nat set"
    and owned :: "'s \<Rightarrow> nat set"
    and inv :: "'s \<Rightarrow> bool"
  assumes avail_finite: "inv s \<Longrightarrow> finite (avail s)"
    and avail_not_owned: "inv s \<Longrightarrow> avail s \<inter> owned s = {}"
    and zero_not_avail: "inv s \<Longrightarrow> 0 \<notin> avail s"
    and alloc_fails: "inv s \<Longrightarrow> fst (alloc s) = 0 \<longleftrightarrow> avail s = {}"
    and alloc_fail_state: "inv s \<Longrightarrow> fst (alloc s) = 0 \<Longrightarrow> snd (alloc s) = s"
    and alloc_mem: "inv s \<Longrightarrow> fst (alloc s) \<noteq> 0 \<Longrightarrow> fst (alloc s) \<in> avail s"
    and alloc_avail: "inv s \<Longrightarrow> fst (alloc s) \<noteq> 0 \<Longrightarrow>
          avail (snd (alloc s)) = avail s - {fst (alloc s)}"
    and alloc_owned: "inv s \<Longrightarrow> fst (alloc s) \<noteq> 0 \<Longrightarrow>
          owned (snd (alloc s)) = insert (fst (alloc s)) (owned s)"
    and alloc_inv: "inv s \<Longrightarrow> inv (snd (alloc s))"
    and release_avail: "inv s \<Longrightarrow> p \<in> owned s \<Longrightarrow> avail (release s p) = insert p (avail s)"
    and release_owned: "inv s \<Longrightarrow> p \<in> owned s \<Longrightarrow> owned (release s p) = owned s - {p}"
    and release_inv: "inv s \<Longrightarrow> p \<in> owned s \<Longrightarrow> inv (release s p)"
begin

lemma alloc_then_release:
  assumes "inv s" and "fst (alloc s) \<noteq> 0"
  shows "avail (release (snd (alloc s)) (fst (alloc s))) = avail s"
    and "owned (release (snd (alloc s)) (fst (alloc s))) = owned s"
proof -
  have own: "fst (alloc s) \<in> owned (snd (alloc s))"
    using assms by (simp add: alloc_owned)
  show "avail (release (snd (alloc s)) (fst (alloc s))) = avail s"
    using assms own by (auto simp: release_avail alloc_inv alloc_avail alloc_mem)
  show "owned (release (snd (alloc s)) (fst (alloc s))) = owned s"
    using assms own alloc_mem avail_not_owned
    by (auto simp: release_owned alloc_inv alloc_owned)
qed

text \<open>A client that calls \<open>alloc\<close> \<open>n\<close> times, stopping at the first failure.\<close>

fun alloc_many :: "nat \<Rightarrow> 's \<Rightarrow> nat list \<times> 's" where
  "alloc_many 0 s = ([], s)"
| "alloc_many (Suc n) s =
     (if fst (alloc s) = 0 then ([], s)
      else (let r = alloc_many n (snd (alloc s)) in (fst (alloc s) # fst r, snd r)))"

lemma alloc_many_inv: "inv s \<Longrightarrow> inv (snd (alloc_many n s))"
  by (induction n arbitrary: s) (auto simp: Let_def alloc_inv)

lemma alloc_many_sub: "inv s \<Longrightarrow> set (fst (alloc_many n s)) \<subseteq> avail s"
proof (induction n arbitrary: s)
  case (Suc n)
  have "set (fst (alloc_many n (snd (alloc s)))) \<subseteq> avail (snd (alloc s))"
    using Suc by (simp add: alloc_inv)
  then show ?case
    using Suc.prems by (auto simp: Let_def alloc_mem alloc_avail)
qed simp

lemma alloc_many_distinct: "inv s \<Longrightarrow> distinct (fst (alloc_many n s))"
proof (induction n arbitrary: s)
  case (Suc n)
  have i: "inv (snd (alloc s))"
    using Suc.prems by (rule alloc_inv)
  show ?case
    using Suc.IH [OF i] alloc_many_sub [OF i, of n] Suc.prems
    by (auto simp: Let_def alloc_avail)
qed simp

lemma alloc_many_avail: "inv s \<Longrightarrow> avail (snd (alloc_many n s)) = avail s - set (fst (alloc_many n s))"
proof (induction n arbitrary: s)
  case (Suc n)
  have "inv (snd (alloc s))"
    using Suc.prems by (rule alloc_inv)
  from Suc.IH [OF this] show ?case
    using Suc.prems by (auto simp: Let_def alloc_avail)
qed simp

lemma alloc_many_length: "inv s \<Longrightarrow> length (fst (alloc_many n s)) = min n (card (avail s))"
proof (induction n arbitrary: s)
  case (Suc n)
  show ?case
  proof (cases "fst (alloc s) = 0")
    case True
    then show ?thesis
      using Suc.prems by (simp add: alloc_fails)
  next
    case False
    have i: "inv (snd (alloc s))"
      using Suc.prems by (rule alloc_inv)
    have "card (avail s) = Suc (card (avail (snd (alloc s))))"
      using Suc.prems False by (metis alloc_avail alloc_mem avail_finite card_Suc_Diff1)
    then show ?thesis
      using Suc.IH [OF i] False by (simp add: Let_def)
  qed
qed simp

end

end
