(* ===== verification/Pmm.thy ===== *)
theory Pmm
  imports Memmap Frame_Alloc
begin

text \<open>
  \<open>src/pmm.c\<close>: the physical page allocator, a bitmap with one bit per 4 KB page
  (set = in use), a count of free pages and a next-fit cursor.  The module's static
  variables are the record \<open>pmm\<close>; the bitmap, which the code keeps in physical memory
  through the higher-half mapping, is the list of its bytes.  Page numbers and
  counts are \<open>uint64_t\<close> in the code; the byte addresses of the memory map are kept as
  \<open>64 word\<close>, so that sums of a base and a length wrap as they do in the code.
\<close>

section \<open>State and bit operations\<close>

record pmm =
  p_hhdm_offset :: u64
  g_bitmap :: "u8 list"
  g_total_pages :: nat
  g_free_pages :: nat
  g_next_scan :: nat

abbreviation (input) PAGE_SIZE :: nat where "PAGE_SIZE \<equiv> 4096"

definition PMM_ADDR_CAP :: u64 where "PMM_ADDR_CAP = 8 * 1024 * 1024 * 1024"

definition pmm_set_hhdm_offset :: "pmm \<Rightarrow> u64 \<Rightarrow> pmm" where
  "pmm_set_hhdm_offset s offset = s\<lparr>p_hhdm_offset := offset\<rparr>"

definition bit_set :: "u8 list \<Rightarrow> nat \<Rightarrow> u8 list" where
  "bit_set bm i = bm[i div 8 := bm ! (i div 8) OR push_bit (i mod 8) 1]"

definition bit_clear :: "u8 list \<Rightarrow> nat \<Rightarrow> u8 list" where
  "bit_clear bm i = bm[i div 8 := bm ! (i div 8) AND NOT (push_bit (i mod 8) 1)]"

definition bit_test :: "u8 list \<Rightarrow> nat \<Rightarrow> bool" where
  "bit_test bm i \<longleftrightarrow> drop_bit (i mod 8) (bm ! (i div 8)) AND 1 \<noteq> 0"

section \<open>Marking\<close>

definition mark_used_page :: "nat \<Rightarrow> pmm \<Rightarrow> pmm" where
  "mark_used_page i s =
     (if \<not> bit_test (g_bitmap s) i
      then s\<lparr>g_bitmap := bit_set (g_bitmap s) i,
             g_free_pages := (if g_free_pages s \<noteq> 0 then g_free_pages s - 1 else 0)\<rparr>
      else s)"

definition mark_used :: "pmm \<Rightarrow> u64 \<Rightarrow> u64 \<Rightarrow> pmm" where
  "mark_used s base sz =
     (let start = unat base div PAGE_SIZE;
          end_page = unat (base + sz + 4096 - 1) div PAGE_SIZE
      in fold mark_used_page [start ..< min end_page (g_total_pages s)] s)"

definition mark_free_page :: "nat \<Rightarrow> pmm \<Rightarrow> pmm" where
  "mark_free_page i s =
     (if i \<ge> g_total_pages s then s
      else if bit_test (g_bitmap s) i
      then s\<lparr>g_bitmap := bit_clear (g_bitmap s) i,
             g_free_pages := u64_add (g_free_pages s) 1\<rparr>
      else s)"

section \<open>Initialisation\<close>

definition usable_type :: "memmap_entry \<Rightarrow> bool" where
  "usable_type e \<longleftrightarrow>
     me_type e = MEMMAP_TYPE_USABLE \<or> me_type e = MEMMAP_TYPE_BOOTLOADER_RECLAIM"

text \<open>Pass 1: the highest usable address, capped.\<close>

definition top_step :: "memmap_entry \<Rightarrow> u64 \<Rightarrow> u64" where
  "top_step e hi =
     (if \<not> usable_type e then hi
      else let end_addr = me_base e + me_length e;
               capped = (if end_addr > PMM_ADDR_CAP then PMM_ADDR_CAP else end_addr)
           in if capped > hi then capped else hi)"

definition pmm_top :: "memmap_entry list \<Rightarrow> u64" where
  "pmm_top es = (let hi = fold top_step es 0 in if hi = 0 then 0x10000000 else hi)"

text \<open>Pass 2: a usable region below 4 GB that can hold the bitmap.\<close>

definition bitmap_base :: "memmap_entry \<Rightarrow> u64" where
  "bitmap_base e = (if me_base e < 0x100000 then 0x100000 else me_base e)"

definition bitmap_region_ok :: "u64 \<Rightarrow> memmap_entry \<Rightarrow> bool" where
  "bitmap_region_ok bitmap_bytes e \<longleftrightarrow>
     me_type e = MEMMAP_TYPE_USABLE \<and> \<not> me_base e \<ge> 0x100000000 \<and>
     \<not> bitmap_base e \<ge> me_base e + me_length e \<and>
     (me_base e + me_length e) - bitmap_base e \<ge> bitmap_bytes"

definition find_bitmap_phys :: "u64 \<Rightarrow> memmap_entry list \<Rightarrow> u64 option" where
  "find_bitmap_phys bitmap_bytes es =
     map_option bitmap_base (find (bitmap_region_ok bitmap_bytes) es)"

text \<open>Passes 3 and 4: free every whole page of the regions of one type.\<close>

definition region_start :: "memmap_entry \<Rightarrow> nat" where
  "region_start e = unat (me_base e + 4096 - 1) div PAGE_SIZE"

definition region_end :: "memmap_entry \<Rightarrow> nat \<Rightarrow> nat" where
  "region_end e npages =
     (let len = (if me_base e + me_length e > PMM_ADDR_CAP
                 then PMM_ADDR_CAP - me_base e else me_length e);
          end_page = unat (me_base e + len) div PAGE_SIZE
      in if end_page > npages then npages else end_page)"

definition free_region :: "u32 \<Rightarrow> memmap_entry \<Rightarrow> pmm \<Rightarrow> pmm" where
  "free_region ty e s =
     (if me_type e \<noteq> ty then s
      else if me_base e \<ge> PMM_ADDR_CAP then s
      else fold mark_free_page [region_start e ..< region_end e (g_total_pages s)] s)"

text \<open>
  The result \<open>None\<close> is the fatal halt when no region can hold the bitmap.  The
  initialised state is returned with the physical address of the bitmap.
\<close>

definition pmm_init :: "pmm \<Rightarrow> memmap_entry list \<Rightarrow> (pmm \<times> u64) option" where
  "pmm_init s es =
     (let npages = unat (pmm_top es) div PAGE_SIZE;
          bitmap_bytes = (npages + 7) div 8
      in case find_bitmap_phys (of_nat bitmap_bytes) es of
           None \<Rightarrow> None
         | Some bitmap_phys \<Rightarrow>
             (let s1 = s\<lparr>g_bitmap := replicate bitmap_bytes 0xFF, g_total_pages := npages,
                         g_free_pages := 0\<rparr>;
                  s3 = fold (free_region MEMMAP_TYPE_USABLE) es s1;
                  s4 = fold (free_region MEMMAP_TYPE_BOOTLOADER_RECLAIM) es s3;
                  s5 = mark_used s4 bitmap_phys (of_nat bitmap_bytes)
              in Some (mark_used s5 0 4096, bitmap_phys)))"

text \<open>The module's static variables before \<open>pmm_init\<close>.\<close>

definition pmm_static :: pmm where
  "pmm_static = \<lparr>p_hhdm_offset = 0, g_bitmap = [], g_total_pages = 0, g_free_pages = 0, g_next_scan = 0\<rparr>"

section \<open>Allocation and release\<close>

definition take_page :: "nat \<Rightarrow> pmm \<Rightarrow> nat \<times> pmm" where
  "take_page i s =
     ((i * PAGE_SIZE) mod 2 ^ 64,
      s\<lparr>g_bitmap := bit_set (g_bitmap s) i, g_free_pages := u64_sub (g_free_pages s) 1,
        g_next_scan := i + 1\<rparr>)"

definition pmm_alloc :: "pmm \<Rightarrow> nat \<times> pmm" where
  "pmm_alloc s =
     (case find (\<lambda>i. \<not> bit_test (g_bitmap s) i) [g_next_scan s ..< g_total_pages s] of
        Some i \<Rightarrow> take_page i s
      | None \<Rightarrow>
          (case find (\<lambda>i. \<not> bit_test (g_bitmap s) i) [1 ..< g_next_scan s] of
             Some i \<Rightarrow> take_page i s
           | None \<Rightarrow> (0, s)))"

definition pmm_free :: "pmm \<Rightarrow> nat \<Rightarrow> pmm" where
  "pmm_free s phys =
     (let i = phys div PAGE_SIZE
      in if i \<ge> g_total_pages s then s
         else if \<not> bit_test (g_bitmap s) i then s
         else s\<lparr>g_bitmap := bit_clear (g_bitmap s) i,
                g_free_pages := u64_add (g_free_pages s) 1,
                g_next_scan := (if i < g_next_scan s then i else g_next_scan s)\<rparr>)"

definition pmm_free_pages :: "pmm \<Rightarrow> nat" where
  "pmm_free_pages s = g_free_pages s"

definition pmm_total_pages :: "pmm \<Rightarrow> nat" where
  "pmm_total_pages s = g_total_pages s"

section \<open>The bitmap as a set of pages\<close>

definition free_set :: "pmm \<Rightarrow> nat set" where
  "free_set s = {i. i < g_total_pages s \<and> \<not> bit_test (g_bitmap s) i}"

text \<open>The invariant that holds from the filling of the bitmap on.\<close>

definition pmm_ok :: "pmm \<Rightarrow> bool" where
  "pmm_ok s \<longleftrightarrow>
     g_total_pages s \<le> 8 * length (g_bitmap s) \<and>
     g_total_pages s \<le> 2 ^ 21 \<and>
     g_free_pages s = card (free_set s) \<and>
     g_next_scan s \<le> g_total_pages s"

text \<open>The invariant after \<open>pmm_init\<close>: page 0, the failure value, is reserved.\<close>

definition pmm_inv :: "pmm \<Rightarrow> bool" where
  "pmm_inv s \<longleftrightarrow> pmm_ok s \<and> 0 \<notin> free_set s"

lemma bit_test_iff: "bit_test bm i \<longleftrightarrow> bit (bm ! (i div 8)) (i mod 8)"
  by (simp add: bit_test_def and_one_shift_iff_bit)

lemma same_bit_iff: "i div 8 = j div 8 \<and> i mod 8 = j mod 8 \<longleftrightarrow> (i :: nat) = j"
  by (metis div_mult_mod_eq)

lemma bit_test_set:
  assumes "i < 8 * length bm"
  shows "bit_test (bit_set bm i) j \<longleftrightarrow> bit_test bm j \<or> j = i"
proof -
  have "i div 8 < length bm" using assms by (simp add: less_mult_imp_div_less mult.commute)
  then show ?thesis
    using same_bit_iff [of j i]
    by (cases "j div 8 = i div 8")
      (auto simp: bit_test_iff bit_set_def bit_set_mask nth_list_update)
qed

lemma bit_test_clear:
  assumes "i < 8 * length bm"
  shows "bit_test (bit_clear bm i) j \<longleftrightarrow> bit_test bm j \<and> j \<noteq> i"
proof -
  have "i div 8 < length bm" using assms by (simp add: less_mult_imp_div_less mult.commute)
  then show ?thesis
    using same_bit_iff [of j i]
    by (cases "j div 8 = i div 8")
      (auto simp: bit_test_iff bit_clear_def bit_clear_mask nth_list_update)
qed

lemma length_bit_ops [simp]:
  "length (bit_set bm i) = length bm" "length (bit_clear bm i) = length bm"
  by (simp_all add: bit_set_def bit_clear_def)

lemma finite_free_set [simp]: "finite (free_set s)"
  by (simp add: free_set_def)


lemma card_free_set_le: "card (free_set s) \<le> g_total_pages s"
proof -
  have "free_set s \<subseteq> {..<g_total_pages s}" by (auto simp: free_set_def)
  then show ?thesis using card_mono [of "{..<g_total_pages s}" "free_set s"] by simp
qed

lemma pmm_ok_index: "pmm_ok s \<Longrightarrow> i < g_total_pages s \<Longrightarrow> i < 8 * length (g_bitmap s)"
  by (simp add: pmm_ok_def)

text \<open>One page goes in or out of the free set; nothing else changes.\<close>

lemma free_set_bit_set:
  assumes "pmm_ok s" and "i < g_total_pages s"
  shows "free_set (s\<lparr>g_bitmap := bit_set (g_bitmap s) i\<rparr>) = free_set s - {i}"
  using bit_test_set [OF pmm_ok_index [OF assms]] by (auto simp: free_set_def)

lemma free_set_bit_clear:
  assumes "pmm_ok s" and "i < g_total_pages s"
  shows "free_set (s\<lparr>g_bitmap := bit_clear (g_bitmap s) i\<rparr>) = insert i (free_set s)"
  using bit_test_clear [OF pmm_ok_index [OF assms]] assms(2) by (auto simp: free_set_def)

lemma free_set_ignores [simp]:
  "free_set (s\<lparr>g_free_pages := n\<rparr>) = free_set s"
  "free_set (s\<lparr>g_next_scan := k\<rparr>) = free_set s"
  "free_set (s\<lparr>g_bitmap := b, g_free_pages := n\<rparr>) = free_set (s\<lparr>g_bitmap := b\<rparr>)"
  "free_set (s\<lparr>g_bitmap := b, g_free_pages := n, g_next_scan := k\<rparr>) = free_set (s\<lparr>g_bitmap := b\<rparr>)"
  by (simp_all add: free_set_def)

lemma pmm_ok_updI:
  assumes "pmm_ok s" and "length b = length (g_bitmap s)"
    and "n = card (free_set (s\<lparr>g_bitmap := b\<rparr>))" and "k \<le> g_total_pages s"
  shows "pmm_ok (s\<lparr>g_bitmap := b, g_free_pages := n, g_next_scan := k\<rparr>)"
  using assms by (simp add: pmm_ok_def)

lemma pmm_ok_updI2:
  assumes "pmm_ok s" and "length b = length (g_bitmap s)"
    and "n = card (free_set (s\<lparr>g_bitmap := b\<rparr>))"
  shows "pmm_ok (s\<lparr>g_bitmap := b, g_free_pages := n\<rparr>)"
  using assms by (simp add: pmm_ok_def)

lemma mark_used_page_ok:
  assumes "pmm_ok s" and "i < g_total_pages s"
  shows "pmm_ok (mark_used_page i s)" and "free_set (mark_used_page i s) = free_set s - {i}"
proof -
  have fs: "\<not> bit_test (g_bitmap s) i \<Longrightarrow> i \<in> free_set s"
    using assms(2) by (simp add: free_set_def)
  have "\<not> bit_test (g_bitmap s) i \<Longrightarrow>
    (if g_free_pages s \<noteq> 0 then g_free_pages s - 1 else 0) = card (free_set s - {i})"
    using assms(1) fs by (simp add: pmm_ok_def)
  then show "pmm_ok (mark_used_page i s)"
    using assms by (simp add: mark_used_page_def pmm_ok_updI2 free_set_bit_set)
  show "free_set (mark_used_page i s) = free_set s - {i}"
    using assms by (auto simp: mark_used_page_def free_set_bit_set) (simp add: free_set_def)
qed

lemma mark_free_page_ok:
  assumes "pmm_ok s"
  shows "pmm_ok (mark_free_page i s)"
    and "free_set (mark_free_page i s) = (if i < g_total_pages s then insert i (free_set s) else free_set s)"
proof -
  have "i < g_total_pages s \<Longrightarrow> bit_test (g_bitmap s) i \<Longrightarrow>
    u64_add (g_free_pages s) 1 = card (insert i (free_set s))"
    using assms card_free_set_le [of s] by (simp add: pmm_ok_def free_set_def no_wrap)
  then show "pmm_ok (mark_free_page i s)"
    using assms by (auto simp: mark_free_page_def free_set_bit_clear intro!: pmm_ok_updI2)
  show "free_set (mark_free_page i s) = (if i < g_total_pages s then insert i (free_set s) else free_set s)"
    using assms by (auto simp: mark_free_page_def free_set_bit_clear) (simp add: free_set_def)
qed

lemma mark_total [simp]:
  "g_total_pages (mark_used_page i s) = g_total_pages s"
  "g_total_pages (mark_free_page i s) = g_total_pages s"
  by (simp_all add: mark_used_page_def mark_free_page_def)

lemma fold_mark_used:
  assumes "pmm_ok s" and "\<And>i. i \<in> set xs \<Longrightarrow> i < g_total_pages s"
  shows "pmm_ok (fold mark_used_page xs s) \<and> free_set (fold mark_used_page xs s) = free_set s - set xs
    \<and> g_total_pages (fold mark_used_page xs s) = g_total_pages s"
  using assms
proof (induction xs arbitrary: s)
  case (Cons x xs)
  have "x < g_total_pages s" using Cons.prems by simp
  with Cons.prems(1) have "pmm_ok (mark_used_page x s)" "free_set (mark_used_page x s) = free_set s - {x}"
    by (simp_all add: mark_used_page_ok)
  with Cons.IH [of "mark_used_page x s"] Cons.prems(2) show ?case by auto
qed simp

lemma fold_mark_free:
  assumes "pmm_ok s"
  shows "pmm_ok (fold mark_free_page xs s)
    \<and> free_set (fold mark_free_page xs s) = free_set s \<union> (set xs \<inter> {..<g_total_pages s})
    \<and> g_total_pages (fold mark_free_page xs s) = g_total_pages s"
  using assms
proof (induction xs arbitrary: s)
  case (Cons x xs)
  from Cons.IH [of "mark_free_page x s"] Cons.prems show ?case
    by (auto simp: mark_free_page_ok)
qed simp

lemma mark_used_ok:
  assumes "pmm_ok s"
  shows "pmm_ok (mark_used s base sz)"
    and "free_set (mark_used s base sz) =
      free_set s - {unat base div PAGE_SIZE ..< unat (base + sz + 4096 - 1) div PAGE_SIZE}"
    and "g_total_pages (mark_used s base sz) = g_total_pages s"
proof -
  define a b where "a = unat base div PAGE_SIZE" and "b = unat (base + sz + 4096 - 1) div PAGE_SIZE"
  have eq: "mark_used s base sz = fold mark_used_page [a ..< min b (g_total_pages s)] s"
    by (simp only: mark_used_def Let_def a_def b_def)
  have *: "pmm_ok (mark_used s base sz) \<and>
    free_set (mark_used s base sz) = free_set s - set [a ..< min b (g_total_pages s)] \<and>
    g_total_pages (mark_used s base sz) = g_total_pages s"
    unfolding eq by (rule fold_mark_used [OF assms]) simp
  have "free_set s - set [a ..< min b (g_total_pages s)] = free_set s - {a ..< b}"
    by (auto simp: free_set_def)
  with * show "pmm_ok (mark_used s base sz)" "g_total_pages (mark_used s base sz) = g_total_pages s"
    "free_set (mark_used s base sz) =
      free_set s - {unat base div PAGE_SIZE ..< unat (base + sz + 4096 - 1) div PAGE_SIZE}"
    by (simp_all only: a_def b_def)
qed

section \<open>Allocation and release implement the frame contract\<close>

lemma take_page_ok:
  assumes "pmm_ok s" and "i \<in> free_set s"
  shows "pmm_ok (snd (take_page i s))"
    and "free_set (snd (take_page i s)) = free_set s - {i}"
    and "fst (take_page i s) = i * PAGE_SIZE"
proof -
  have i: "i < g_total_pages s" "g_total_pages s \<le> 2 ^ 21"
    using assms by (auto simp: free_set_def pmm_ok_def)
  have "1 \<le> card (free_set s)"
    using assms(2) by (auto simp: Suc_le_eq card_gt_0_iff)
  then have "u64_sub (g_free_pages s) 1 = card (free_set s - {i})"
    using assms card_free_set_le [of s] i u64_sub_small [of 1 "card (free_set s)"]
    by (simp add: pmm_ok_def)
  then show "pmm_ok (snd (take_page i s))" "free_set (snd (take_page i s)) = free_set s - {i}"
    using assms i by (auto simp: take_page_def free_set_bit_set intro!: pmm_ok_updI)
  show "fst (take_page i s) = i * PAGE_SIZE"
    using i by (simp add: take_page_def)
qed

text \<open>What \<open>pmm_alloc\<close> does: it takes a free page if there is one besides page 0.\<close>

lemma pmm_alloc_cases:
  assumes "pmm_inv s"
  obtains (found) i where "i \<in> free_set s" "i \<noteq> 0" "pmm_alloc s = take_page i s"
  | (none) "free_set s = {}" "pmm_alloc s = (0, s)"
proof (cases "find (\<lambda>i. \<not> bit_test (g_bitmap s) i) [g_next_scan s ..< g_total_pages s]")
  case (Some i)
  then have "i \<in> free_set s"
    by (auto simp: find_Some_iff free_set_def)
  moreover from this have "i \<noteq> 0"
    using assms by (metis pmm_inv_def)
  ultimately show ?thesis
    using found Some by (simp add: pmm_alloc_def)
next
  case None
  note upper = this
  show ?thesis
  proof (cases "find (\<lambda>i. \<not> bit_test (g_bitmap s) i) [1 ..< g_next_scan s]")
    case (Some i)
    then have "i \<in> set [1 ..< g_next_scan s]" "\<not> bit_test (g_bitmap s) i"
      by (auto simp: find_Some_iff in_set_conv_nth)
    then have "i \<in> free_set s" "i \<noteq> 0"
      using assms by (auto simp: free_set_def pmm_inv_def pmm_ok_def)
    then show ?thesis
      using found upper Some by (simp add: pmm_alloc_def)
  next
    case None
    have "i \<notin> free_set s" for i
      using assms upper None by (cases "i = 0"; cases "i < g_next_scan s")
        (auto simp: find_None_iff free_set_def pmm_inv_def)
    then show ?thesis
      using none upper None by (auto simp: pmm_alloc_def)
  qed
qed

lemma pmm_free_ok:
  assumes "pmm_ok s"
  shows "pmm_ok (pmm_free s p)"
    and "free_set (pmm_free s p) =
      (if p div PAGE_SIZE < g_total_pages s then insert (p div PAGE_SIZE) (free_set s) else free_set s)"
proof -
  have "p div PAGE_SIZE < g_total_pages s \<Longrightarrow> bit_test (g_bitmap s) (p div PAGE_SIZE) \<Longrightarrow>
    u64_add (g_free_pages s) 1 = card (insert (p div PAGE_SIZE) (free_set s))"
    using assms card_free_set_le [of s] by (simp add: pmm_ok_def free_set_def no_wrap)
  moreover have "g_next_scan s \<le> g_total_pages s"
    using assms by (simp add: pmm_ok_def)
  ultimately show "pmm_ok (pmm_free s p)"
    using assms
    by (auto simp: pmm_free_def Let_def free_set_bit_clear intro!: pmm_ok_updI pmm_ok_updI2)
  show "free_set (pmm_free s p) =
      (if p div PAGE_SIZE < g_total_pages s then insert (p div PAGE_SIZE) (free_set s) else free_set s)"
    using assms by (auto simp: pmm_free_def Let_def free_set_bit_clear) (simp_all add: free_set_def)
qed

text \<open>Frames are named by their physical address.\<close>

definition avail_frames :: "pmm \<Rightarrow> nat set" where
  "avail_frames s = (\<lambda>i. i * PAGE_SIZE) ` free_set s"

definition owned_frames :: "pmm \<Rightarrow> nat set" where
  "owned_frames s = (\<lambda>i. i * PAGE_SIZE) ` {i. 0 < i \<and> i < g_total_pages s \<and> i \<notin> free_set s}"

lemma page_addr_inj: "inj (\<lambda>i :: nat. i * PAGE_SIZE)"
  by (simp add: inj_def)

lemma pmm_alloc_total [simp]: "g_total_pages (snd (pmm_alloc s)) = g_total_pages s"
  by (auto simp: pmm_alloc_def take_page_def split: option.splits)

lemma pmm_free_total [simp]: "g_total_pages (pmm_free s p) = g_total_pages s"
  by (auto simp: pmm_free_def Let_def)

lemma pmm_alloc_inv: "pmm_inv s \<Longrightarrow> pmm_inv (snd (pmm_alloc s))"
  by (frule pmm_alloc_cases) (auto simp: pmm_inv_def take_page_ok)

lemma pmm_free_inv: "pmm_inv s \<Longrightarrow> PAGE_SIZE \<le> p \<Longrightarrow> pmm_inv (pmm_free s p)"
  by (auto simp: pmm_inv_def pmm_free_ok)

lemma avail_frames_diff: "(\<lambda>i. i * PAGE_SIZE) ` (free_set s - {i}) = avail_frames s - {i * PAGE_SIZE}"
  by (auto simp: avail_frames_def)

interpretation pmm: frame_allocator pmm_alloc pmm_free avail_frames owned_frames pmm_inv
proof (unfold_locales, goal_cases)
  case (1 s)
  then show ?case by (simp add: avail_frames_def)
next
  case (2 s)
  then show ?case by (auto simp: avail_frames_def owned_frames_def)
next
  case (3 s)
  then show ?case by (auto simp: avail_frames_def pmm_inv_def)
next
  case (4 s)
  from 4 show ?case
    by (rule pmm_alloc_cases) (use 4 in \<open>auto simp: avail_frames_def pmm_inv_def take_page_ok\<close>)
next
  case (5 s)
  from 5(1) show ?case
    by (rule pmm_alloc_cases) (use 5 in \<open>auto simp: pmm_inv_def take_page_ok\<close>)
next
  case (6 s)
  from 6(1) show ?case
    by (rule pmm_alloc_cases) (use 6 in \<open>auto simp: avail_frames_def pmm_inv_def take_page_ok\<close>)
next
  case (7 s)
  from 7(1) show ?case
  proof (rule pmm_alloc_cases)
    fix i assume "i \<in> free_set s" "pmm_alloc s = take_page i s"
    then show ?thesis
      using 7(1) by (simp add: pmm_inv_def take_page_ok avail_frames_diff [symmetric]) (simp add: avail_frames_def take_page_ok)
  qed (use 7 in auto)
next
  case (8 s)
  from 8(1) show ?case
  proof (rule pmm_alloc_cases)
    fix i assume i: "i \<in> free_set s" "i \<noteq> 0" "pmm_alloc s = take_page i s"
    have "g_total_pages (snd (take_page i s)) = g_total_pages s" by (simp add: take_page_def)
    then show ?thesis
      using 8(1) i by (auto simp: pmm_inv_def take_page_ok owned_frames_def) (auto simp: free_set_def)
  qed (use 8 in auto)
next
  case (9 s)
  then show ?case by (rule pmm_alloc_inv)
next
  case (10 s p)
  then show ?case
    by (auto simp: pmm_inv_def pmm_free_ok avail_frames_def owned_frames_def)
next
  case (11 s p)
  then show ?case
    by (auto simp: pmm_inv_def pmm_free_ok owned_frames_def)
next
  case (12 s p)
  then show ?case
    by (intro pmm_free_inv) (auto simp: owned_frames_def)
qed

section \<open>Initialisation establishes the invariant\<close>

lemma unat_PMM_ADDR_CAP: "unat PMM_ADDR_CAP = 2 ^ 33"
  by (simp add: PMM_ADDR_CAP_def)

lemma pmm_top_le: "unat (pmm_top es) \<le> 2 ^ 33"
proof -
  have "top_step e t \<le> PMM_ADDR_CAP" if "t \<le> PMM_ADDR_CAP" for e t
    using that by (auto simp: top_step_def Let_def)
  then have "fold top_step es 0 \<le> PMM_ADDR_CAP"
    by (intro fold_invariant_set [where P = "\<lambda>t. t \<le> PMM_ADDR_CAP"]) auto
  then show ?thesis
    by (auto simp: pmm_top_def Let_def word_le_nat_alt unat_PMM_ADDR_CAP)
qed

lemma unat_add_le: "unat (a + b :: u64) \<le> unat a + unat b"
  by (simp add: unat_word_ariths)

lemma region_pages:
  assumes "me_base e < PMM_ADDR_CAP" and "region_start e \<le> p" and "p < region_end e n"
  shows "unat (me_base e) \<le> p * PAGE_SIZE"
    and "(p + 1) * PAGE_SIZE \<le> unat (me_base e) + unat (me_length e)"
    and "p < n"
proof -
  have b: "unat (me_base e) < 2 ^ 33"
    using assms(1) by (simp add: word_less_nat_alt unat_PMM_ADDR_CAP)
  have "me_base e + 4096 - 1 = me_base e + 4095"
    by simp
  also have "unat \<dots> = unat (me_base e) + 4095"
    using b by (simp add: unat_word_ariths)
  finally have "(unat (me_base e) + 4095) div PAGE_SIZE \<le> p"
    using assms(2) by (simp add: region_start_def)
  then show "unat (me_base e) \<le> p * PAGE_SIZE"
    by simp
  define len where "len = (if me_base e + me_length e > PMM_ADDR_CAP
                 then PMM_ADDR_CAP - me_base e else me_length e)"
  have end_p: "region_end e n = min (unat (me_base e + len) div PAGE_SIZE) n"
    by (simp add: region_end_def Let_def len_def min_def)
  then show "p < n" using assms(3) by simp
  have "p < unat (me_base e + len) div PAGE_SIZE"
    using assms(3) end_p by simp
  then have "(p + 1) * PAGE_SIZE \<le> unat (me_base e + len)"
    by simp
  also have "\<dots> \<le> unat (me_base e + me_length e)"
    by (auto simp: len_def word_less_nat_alt)
  also have "\<dots> \<le> unat (me_base e) + unat (me_length e)"
    by (rule unat_add_le)
  finally show "(p + 1) * PAGE_SIZE \<le> unat (me_base e) + unat (me_length e)" .
qed

lemma free_region_ok:
  assumes "pmm_ok s"
  shows "pmm_ok (free_region ty e s)" and "g_total_pages (free_region ty e s) = g_total_pages s"
    and "free_set (free_region ty e s) \<subseteq> free_set s \<union>
      {p. me_type e = ty \<and> unat (me_base e) \<le> p * PAGE_SIZE \<and>
          (p + 1) * PAGE_SIZE \<le> unat (me_base e) + unat (me_length e)}"
  using fold_mark_free [OF assms, of "[region_start e ..< region_end e (g_total_pages s)]"] assms
    region_pages [of e _ "g_total_pages s"]
  by (auto simp: free_region_def not_le)

lemma fold_free_region:
  assumes "pmm_ok s"
  shows "pmm_ok (fold (free_region ty) es s) \<and>
    g_total_pages (fold (free_region ty) es s) = g_total_pages s \<and>
    free_set (fold (free_region ty) es s) \<subseteq> free_set s \<union>
      {p. \<exists>e \<in> set es. me_type e = ty \<and> unat (me_base e) \<le> p * PAGE_SIZE \<and>
          (p + 1) * PAGE_SIZE \<le> unat (me_base e) + unat (me_length e)}"
  using assms
proof (induction es arbitrary: s)
  case (Cons e es)
  note step = free_region_ok [OF Cons.prems, of ty e]
  from Cons.IH [OF step(1)] step show ?case
    by (simp add: subset_iff) blast
qed simp

lemma find_bitmap_phys_bound: "find_bitmap_phys n es = Some bp \<Longrightarrow> unat bp < 2 ^ 32"
  by (auto simp: find_bitmap_phys_def find_Some_iff bitmap_region_ok_def bitmap_base_def
      word_le_nat_alt not_le)

text \<open>A page the reservation of \<open>[base, base + sz)\<close> leaves free does not overlap it.\<close>

lemma mark_used_disjoint:
  fixes base :: u64
  assumes "p \<notin> {unat base div PAGE_SIZE ..< unat (base + of_nat sz + 4096 - 1) div PAGE_SIZE}"
    and "unat base < 2 ^ 32" and "sz \<le> 2 ^ 20"
  shows "(p + 1) * PAGE_SIZE \<le> unat base \<or> unat base + sz \<le> p * PAGE_SIZE"
proof -
  have "base + of_nat sz + 4096 - 1 = base + of_nat (sz + 4095)"
    by simp
  also have "unat \<dots> = unat base + (sz + 4095)"
    using assms(2,3) by (simp add: unat_word_ariths unat_of_nat)
  finally have "p < unat base div PAGE_SIZE \<or> (unat base + sz + 4095) div PAGE_SIZE \<le> p"
    using assms(1) by (auto simp: not_le add.assoc)
  then show ?thesis by auto
qed

lemma length_bitmap_const [simp]:
  "length (g_bitmap (mark_used_page i s)) = length (g_bitmap s)"
  "length (g_bitmap (mark_free_page i s)) = length (g_bitmap s)"
  by (simp_all add: mark_used_page_def mark_free_page_def)

lemma length_bitmap_fold [simp]:
  "length (g_bitmap (fold mark_used_page xs s)) = length (g_bitmap s)"
  "length (g_bitmap (fold mark_free_page xs s)) = length (g_bitmap s)"
  by (rule fold_proj_const [of "\<lambda>s. length (g_bitmap s)"], simp)+

lemma length_bitmap_passes [simp]:
  "length (g_bitmap (mark_used s b n)) = length (g_bitmap s)"
  "length (g_bitmap (fold (free_region ty) es s)) = length (g_bitmap s)"
  using fold_proj_const [of "\<lambda>s. length (g_bitmap s)" "free_region ty"]
  by (auto simp: mark_used_def Let_def free_region_def)

lemma bit_0xFF: "bit (0xFF :: u8) k \<longleftrightarrow> k < 8"
proof -
  have "(0xFF :: u8) = mask 8" by (simp add: mask_eq_exp_minus_1)
  then show ?thesis by (simp only: bit_mask_iff) simp
qed

lemma fresh_bitmap_ok:
  assumes "n \<le> 2 ^ 21" and "g_next_scan s = 0"
  defines "t \<equiv> s\<lparr>g_bitmap := replicate ((n + 7) div 8) 0xFF, g_total_pages := n, g_free_pages := 0\<rparr>"
  shows "pmm_ok t" and "free_set t = {}"
proof -
  have "bit_test (replicate ((n + 7) div 8) 0xFF) i" if "i < n" for i
  proof -
    have "i div 8 < (n + 7) div 8" using that by linarith
    then have "replicate ((n + 7) div 8) (0xFF :: u8) ! (i div 8) = 0xFF"
      by (rule nth_replicate)
    then show ?thesis
      by (simp only: bit_test_iff bit_0xFF)
  qed
  then show "free_set t = {}" by (auto simp: free_set_def t_def)
  then show "pmm_ok t" using assms(1,2) by (simp add: pmm_ok_def t_def)
qed

lemma pmm_init_spec:
  assumes "pmm_init s0 es = Some (s, bp)" and "g_next_scan s0 = 0"
  shows "pmm_inv s" and "g_total_pages s = unat (pmm_top es) div PAGE_SIZE"
    and "p \<in> free_set s \<Longrightarrow> \<exists>e \<in> set es. usable_type e \<and> unat (me_base e) \<le> p * PAGE_SIZE \<and>
           (p + 1) * PAGE_SIZE \<le> unat (me_base e) + unat (me_length e)"
    and "p \<in> free_set s \<Longrightarrow>
           (p + 1) * PAGE_SIZE \<le> unat bp \<or> unat bp + length (g_bitmap s) \<le> p * PAGE_SIZE"
proof -
  define n where "n = unat (pmm_top es) div PAGE_SIZE"
  define bytes where "bytes = (n + 7) div 8"
  define s1 where "s1 = s0\<lparr>g_bitmap := replicate ((n + 7) div 8) 0xFF, g_total_pages := n, g_free_pages := 0\<rparr>"
  define s3 where "s3 = fold (free_region MEMMAP_TYPE_USABLE) es s1"
  define s4 where "s4 = fold (free_region MEMMAP_TYPE_BOOTLOADER_RECLAIM) es s3"
  define s5 where "s5 = mark_used s4 bp (of_nat bytes)"
  have fnd: "find_bitmap_phys (of_nat bytes) es = Some bp" and s: "s = mark_used s5 0 4096"
    using assms(1) unfolding pmm_init_def Let_def
    by (auto simp: n_def bytes_def s1_def s3_def s4_def s5_def split: option.splits)
  have n: "n \<le> 2 ^ 21"
    using div_le_mono [OF pmm_top_le [of es], of PAGE_SIZE] by (simp add: n_def)
  note ok1 = fresh_bitmap_ok [OF n assms(2), folded s1_def]
  note r3 = fold_free_region [OF ok1(1), of MEMMAP_TYPE_USABLE es, folded s3_def]
  note r4 = fold_free_region [OF conjunct1 [OF r3], of MEMMAP_TYPE_BOOTLOADER_RECLAIM es, folded s4_def]
  note r5 = mark_used_ok [OF conjunct1 [OF r4], of bp "of_nat bytes", folded s5_def]
  note r6 = mark_used_ok [OF r5(1), of 0 4096, folded s]
  have page0: "free_set s = free_set s5 - {0}"
    using r6(2) by simp
  show "pmm_inv s" using r6(1) page0 by (simp add: pmm_inv_def)
  show "g_total_pages s = unat (pmm_top es) div PAGE_SIZE"
    using r3 r4 r5(3) r6(3) by (simp add: s1_def n_def)
  show "p \<in> free_set s \<Longrightarrow> \<exists>e \<in> set es. usable_type e \<and> unat (me_base e) \<le> p * PAGE_SIZE \<and>
           (p + 1) * PAGE_SIZE \<le> unat (me_base e) + unat (me_length e)"
    using r3 r4 r5(2) page0 ok1(2) unfolding usable_type_def by blast
  have "length (g_bitmap s) = bytes"
    by (simp add: s s5_def s4_def s3_def s1_def bytes_def)
  then show "p \<in> free_set s \<Longrightarrow>
           (p + 1) * PAGE_SIZE \<le> unat bp \<or> unat bp + length (g_bitmap s) \<le> p * PAGE_SIZE"
    using mark_used_disjoint [of p bp bytes] find_bitmap_phys_bound [OF fnd] r5(2) page0 n
    by (simp add: bytes_def)
qed

section \<open>Theorems\<close>

text \<open>C7. Whenever \<open>pmm_init\<close> succeeds on a memory map, the allocator invariant holds
  (the counter equals the number of clear bits, the cursor and every page index lie
  inside the bitmap, page 0 is reserved), every page it offers lies wholly inside a
  usable or bootloader-reclaimable region, even for entries whose end wraps around, and
  no offered page overlaps the bitmap's own bytes.\<close>

theorem pmm_init_safe:
  assumes "pmm_init pmm_static es = Some (s, bp)"
  shows "pmm_inv s \<and> (\<forall>p. p \<in> free_set s \<longrightarrow>
     (\<exists>e \<in> set es. usable_type e \<and> unat (me_base e) \<le> p * PAGE_SIZE \<and>
        (p + 1) * PAGE_SIZE \<le> unat (me_base e) + unat (me_length e)) \<and>
     ((p + 1) * PAGE_SIZE \<le> unat bp \<or> unat bp + length (g_bitmap s) \<le> p * PAGE_SIZE))"
  using pmm_init_spec [OF assms] by (simp add: pmm_static_def)

definition sample_map :: "memmap_entry list" where
  "sample_map = [\<lparr>me_base = 0, me_length = 0x9F000, me_type = 0\<rparr>,
     \<lparr>me_base = 0x100000, me_length = 0x40000, me_type = 0\<rparr>,
     \<lparr>me_base = 0x140000, me_length = 0x2000, me_type = 5\<rparr>]"

lemma sample_map_init: "\<exists>s. pmm_init pmm_static sample_map = Some (s, 0x100000)"
  by (simp add: pmm_init_def sample_map_def pmm_top_def top_step_def usable_type_def Let_def
      MEMMAP_TYPE_USABLE_def MEMMAP_TYPE_BOOTLOADER_RECLAIM_def PMM_ADDR_CAP_def
      find_bitmap_phys_def bitmap_region_ok_def bitmap_base_def)

theorem pmm_init_safe_witness:
  "\<exists>s. pmm_init pmm_static sample_map = Some (s, 0x100000) \<and> pmm_inv s \<and>
     (\<forall>p. p \<in> free_set s \<longrightarrow>
       (p + 1) * PAGE_SIZE \<le> 0x100000 \<or> 0x100000 + length (g_bitmap s) \<le> p * PAGE_SIZE)"
proof -
  obtain s where s: "pmm_init pmm_static sample_map = Some (s, 0x100000)"
    using sample_map_init by blast
  from pmm_init_safe [OF s] s show ?thesis by auto
qed

text \<open>C6. \<open>pmm_alloc\<close> fails (returns 0, state unchanged) exactly when no page is free;
  otherwise it returns the page-aligned address of a page that was free, marks that page
  and no other as used, lowers the free count by one, and keeps the invariant.\<close>

theorem pmm_alloc_correct:
  assumes "pmm_inv s" and "pmm_alloc s = (p, s')"
  shows "pmm_inv s' \<and> g_total_pages s' = g_total_pages s \<and>
    (if free_set s = {} then p = 0 \<and> s' = s
     else \<exists>i \<in> free_set s. i \<noteq> 0 \<and> p = i * PAGE_SIZE \<and> free_set s' = free_set s - {i} \<and>
            pmm_free_pages s' + 1 = pmm_free_pages s)"
proof -
  have inv': "pmm_inv s'" "g_total_pages s' = g_total_pages s"
    using pmm_alloc_inv [OF assms(1)] pmm_alloc_total [of s] assms(2) by simp_all
  have cnt: "g_free_pages t = card (free_set t)" if "pmm_inv t" for t
    using that by (simp add: pmm_inv_def pmm_ok_def)
  from assms(1) show ?thesis
  proof (rule pmm_alloc_cases)
    fix i assume i: "i \<in> free_set s" "i \<noteq> 0" "pmm_alloc s = take_page i s"
    have "take_page i s = (p, s')"
      using i(3) assms(2) by simp
    then have tp: "p = i * PAGE_SIZE" "free_set s' = free_set s - {i}"
      using take_page_ok [of s i] i(1) assms(1) by (simp_all add: pmm_inv_def)
    have "card (free_set s') + 1 = card (free_set s)"
      using card_Suc_Diff1 [of "free_set s" i] i tp by simp
    then show ?thesis
      using i tp inv' cnt [OF assms(1)] cnt [OF inv'(1)] by (auto simp: pmm_free_pages_def)
  qed (use assms inv' in auto)
qed

theorem pmm_alloc_correct_witness:
  "\<exists>s p s'. pmm_init pmm_static sample_map = Some (s, 0x100000) \<and> pmm_alloc s = (p, s') \<and>
     pmm_inv s' \<and> g_total_pages s' = g_total_pages s"
proof -
  obtain s where s: "pmm_init pmm_static sample_map = Some (s, 0x100000)"
    using sample_map_init by blast
  have "pmm_inv s"
    using pmm_init_spec(1) [OF s] by (simp add: pmm_static_def)
  moreover obtain p s' where "pmm_alloc s = (p, s')"
    by (cases "pmm_alloc s")
  ultimately show ?thesis
    using pmm_alloc_correct [of s p s'] s by blast
qed

subsection \<open>Clients: no frame is handed out twice\<close>

text \<open>
  A run of clients of the allocator: the state with the set of frames handed out and
  not yet returned.  A client only returns a frame it holds.
\<close>

inductive pmm_step :: "pmm \<times> nat set \<Rightarrow> pmm \<times> nat set \<Rightarrow> bool" where
  alloc: "pmm_alloc s = (p, s') \<Longrightarrow> p \<noteq> 0 \<Longrightarrow> pmm_step (s, H) (s', insert p H)"
| exhausted: "pmm_alloc s = (0, s') \<Longrightarrow> pmm_step (s, H) (s', H)"
| release: "p \<in> H \<Longrightarrow> pmm_step (s, H) (pmm_free s p, H - {p})"

inductive pmm_reachable :: "pmm \<times> nat set \<Rightarrow> bool" where
  boot: "pmm_init pmm_static es = Some (s, bp) \<Longrightarrow> pmm_reachable (s, {})"
| step: "pmm_reachable c \<Longrightarrow> pmm_step c c' \<Longrightarrow> pmm_reachable c'"

lemma pmm_step_held:
  assumes "pmm_step (s, H) (s', H')" and "pmm_inv s" and "H \<subseteq> owned_frames s"
  shows "pmm_inv s' \<and> H' \<subseteq> owned_frames s'"
  using assms(1)
proof (cases rule: pmm_step.cases)
  case (alloc p)
  then show ?thesis
    using assms pmm.alloc_owned [of s] pmm.alloc_inv [of s] by auto
next
  case exhausted
  then show ?thesis
    using assms pmm.alloc_fail_state [of s] by auto
next
  case (release p)
  then show ?thesis
    using assms pmm.release_owned [of s p] pmm.release_inv [of s p] by auto
qed

lemma pmm_reachable_held: "pmm_reachable c \<Longrightarrow> pmm_inv (fst c) \<and> snd c \<subseteq> owned_frames (fst c)"
proof (induction rule: pmm_reachable.induct)
  case (boot es s bp)
  then show ?case using pmm_init_spec(1) [OF boot] by (simp add: pmm_static_def)
next
  case (step c c')
  then show ?case
    using pmm_step_held [of "fst c" "snd c" "fst c'" "snd c'"] by simp
qed

text \<open>C5. In every state that clients can reach from boot by allocating and returning frames
  they hold, the frames held are disjoint from the frames still on offer, so the next
  allocation never hands out a frame that somebody already holds.\<close>

theorem pmm_no_double_allocation:
  assumes "pmm_reachable (s, H)"
  shows "H \<inter> avail_frames s = {} \<and>
    (\<forall>p s'. pmm_alloc s = (p, s') \<and> p \<noteq> 0 \<longrightarrow> p \<notin> H \<and> p mod PAGE_SIZE = 0)"
proof -
  have inv: "pmm_inv s" and own: "H \<subseteq> owned_frames s"
    using pmm_reachable_held [OF assms] by simp_all
  have "H \<inter> avail_frames s = {}"
    using pmm.avail_not_owned [OF inv] own by auto
  moreover have "p \<in> avail_frames s" if "pmm_alloc s = (p, s')" "p \<noteq> 0" for p s'
    using pmm.alloc_mem [OF inv] that by simp
  ultimately show ?thesis
    by (auto simp: avail_frames_def)
qed

theorem pmm_no_double_allocation_witness:
  "\<exists>s p s'. pmm_init pmm_static sample_map = Some (s, 0x100000) \<and> pmm_alloc s = (p, s') \<and>
     {} \<inter> avail_frames s = {} \<and> (p \<noteq> 0 \<longrightarrow> p mod PAGE_SIZE = 0)"
proof -
  obtain s where s: "pmm_init pmm_static sample_map = Some (s, 0x100000)"
    using sample_map_init by blast
  have "pmm_reachable (s, {})"
    using s by (rule pmm_reachable.boot)
  moreover obtain p s' where "pmm_alloc s = (p, s')"
    by (cases "pmm_alloc s")
  ultimately show ?thesis
    using pmm_no_double_allocation [of s "{}"] s by blast
qed

end
