(* ===== verification/Vmm.thy ===== *)
theory Vmm
  imports Pmm
begin

text \<open>
  \<open>src/vmm.c\<close>: four-level page tables.  Page-table memory is a function from physical
  byte addresses to the 64-bit words stored there: the code reaches physical address
  \<open>p\<close> through the pointer \<open>p + g_hhdm_offset\<close>, so an access \<open>phys_to_virt_ptr(p)[i]\<close> is
  the word at \<open>p + 8 * i\<close>.  New tables come from the page allocator of \<open>Pmm\<close>.
  \<open>invlpg\<close> and the loads of \<open>CR3\<close> have no effect on the tables; \<open>cr3\<close> is a field.
\<close>

section \<open>State\<close>

record vmm =
  v_pmm :: pmm
  v_mem :: "nat \<Rightarrow> u64"
  g_kernel_pml4 :: nat
  g_hhdm_offset :: u64
  cr3 :: u64

abbreviation (input) ENTRIES :: nat where "ENTRIES \<equiv> 512"

definition VMM_PRESENT :: u64 where "VMM_PRESENT = 1"
definition VMM_WRITE :: u64 where "VMM_WRITE = 2"
definition VMM_USER :: u64 where "VMM_USER = 4"

text \<open>The page-offset mask \<open>0xFFF\<close>.\<close>

definition LOW12 :: u64 where "LOW12 = 0xFFF"

definition pml4_index :: "u64 \<Rightarrow> nat" where "pml4_index v = unat (drop_bit 39 v AND 0x1FF)"
definition pdpt_index :: "u64 \<Rightarrow> nat" where "pdpt_index v = unat (drop_bit 30 v AND 0x1FF)"
definition pd_index :: "u64 \<Rightarrow> nat" where "pd_index v = unat (drop_bit 21 v AND 0x1FF)"
definition pt_index :: "u64 \<Rightarrow> nat" where "pt_index v = unat (drop_bit 12 v AND 0x1FF)"

section \<open>Tables and walks\<close>

definition alloc_pt_phys :: "vmm \<Rightarrow> nat \<times> vmm" where
  "alloc_pt_phys s =
     (let (phys, pm) = pmm_alloc (v_pmm s); s1 = s\<lparr>v_pmm := pm\<rparr>
      in if phys = 0 then (0, s1)
         else (phys, s1\<lparr>v_mem := fold (\<lambda>i m. m(phys + 8 * i := 0)) [0..<ENTRIES] (v_mem s1)\<rparr>))"

definition table_entry :: "nat \<Rightarrow> u64 \<Rightarrow> u64" where
  "table_entry phys virt =
     of_nat phys OR VMM_PRESENT OR VMM_WRITE OR
     (if virt < 0xFFFF800000000000 then VMM_USER else 0)"

text \<open>One level of \<open>walk_to_pte\<close>: the next table below the entry at index \<open>i\<close> of \<open>tbl\<close>.\<close>

definition walk_level :: "vmm \<Rightarrow> nat \<Rightarrow> nat \<Rightarrow> u64 \<Rightarrow> bool \<Rightarrow> nat option \<times> vmm" where
  "walk_level s tbl i virt alloc =
     (let e = v_mem s (tbl + 8 * i)
      in if e AND VMM_PRESENT = 0
         then if \<not> alloc then (None, s)
              else (let (phys, s1) = alloc_pt_phys s
                    in if phys = 0 then (None, s1)
                       else (Some phys,
                             s1\<lparr>v_mem := (v_mem s1)(tbl + 8 * i := table_entry phys virt)\<rparr>))
         else (Some (unat (e AND NOT LOW12)), s))"

definition walk_to_pte :: "vmm \<Rightarrow> nat \<Rightarrow> u64 \<Rightarrow> bool \<Rightarrow> nat option \<times> vmm" where
  "walk_to_pte s pml4_phys virt alloc =
     (case walk_level s pml4_phys (pml4_index virt) virt alloc of
        (None, s1) \<Rightarrow> (None, s1)
      | (Some pdpt_phys, s1) \<Rightarrow>
          (case walk_level s1 pdpt_phys (pdpt_index virt) virt alloc of
             (None, s2) \<Rightarrow> (None, s2)
           | (Some pd_phys, s2) \<Rightarrow>
               (case walk_level s2 pd_phys (pd_index virt) virt alloc of
                  (None, s3) \<Rightarrow> (None, s3)
                | (Some pt_phys, s3) \<Rightarrow> (Some (pt_phys + 8 * pt_index virt), s3))))"

section \<open>Public operations\<close>

definition vmm_init :: "vmm \<Rightarrow> u64 \<Rightarrow> vmm" where
  "vmm_init s hhdm_offset =
     s\<lparr>g_hhdm_offset := hhdm_offset, g_kernel_pml4 := unat (cr3 s AND NOT LOW12)\<rparr>"

definition pte_value :: "u64 \<Rightarrow> u64 \<Rightarrow> u64" where
  "pte_value phys flags = (phys AND NOT LOW12) OR (flags AND LOW12) OR VMM_PRESENT"

definition vmm_map_in :: "vmm \<Rightarrow> nat \<Rightarrow> u64 \<Rightarrow> u64 \<Rightarrow> u64 \<Rightarrow> int \<times> vmm" where
  "vmm_map_in s pml4_phys virt phys flags =
     (case walk_to_pte s pml4_phys virt True of
        (None, s1) \<Rightarrow> (0, s1)
      | (Some pte, s1) \<Rightarrow> (1, s1\<lparr>v_mem := (v_mem s1)(pte := pte_value phys flags)\<rparr>))"

definition vmm_map :: "vmm \<Rightarrow> u64 \<Rightarrow> u64 \<Rightarrow> u64 \<Rightarrow> int \<times> vmm" where
  "vmm_map s virt phys flags = vmm_map_in s (g_kernel_pml4 s) virt phys flags"

definition vmm_unmap :: "vmm \<Rightarrow> u64 \<Rightarrow> vmm" where
  "vmm_unmap s virt =
     (case walk_to_pte s (g_kernel_pml4 s) virt False of
        (None, s1) \<Rightarrow> s1
      | (Some pte, s1) \<Rightarrow> s1\<lparr>v_mem := (v_mem s1)(pte := 0)\<rparr>)"

definition vmm_resolve_in :: "vmm \<Rightarrow> nat \<Rightarrow> u64 \<Rightarrow> u64" where
  "vmm_resolve_in s pml4_phys virt =
     (case walk_to_pte s pml4_phys virt False of
        (None, s1) \<Rightarrow> 0
      | (Some pte, s1) \<Rightarrow>
          if v_mem s1 pte AND VMM_PRESENT = 0 then 0
          else (v_mem s1 pte AND NOT LOW12) OR (virt AND LOW12))"

definition vmm_resolve :: "vmm \<Rightarrow> u64 \<Rightarrow> u64" where
  "vmm_resolve s virt = vmm_resolve_in s (g_kernel_pml4 s) virt"

definition vmm_phys_to_virt :: "vmm \<Rightarrow> u64 \<Rightarrow> u64" where
  "vmm_phys_to_virt s phys = phys + g_hhdm_offset s"

definition vmm_virt_to_phys :: "vmm \<Rightarrow> u64 \<Rightarrow> u64" where
  "vmm_virt_to_phys s virt =
     (if virt \<ge> g_hhdm_offset s then virt - g_hhdm_offset s else vmm_resolve s virt)"

definition vmm_switch :: "vmm \<Rightarrow> u64 \<Rightarrow> vmm" where
  "vmm_switch s pml4_phys = s\<lparr>cr3 := pml4_phys\<rparr>"

definition vmm_current :: "vmm \<Rightarrow> u64" where
  "vmm_current s = cr3 s AND NOT LOW12"

definition vmm_new_user_pd :: "vmm \<Rightarrow> nat \<times> vmm" where
  "vmm_new_user_pd s =
     (let (new_phys, s1) = alloc_pt_phys s
      in if new_phys = 0 then (0, s1)
         else (let m1 = fold (\<lambda>i m. m(new_phys + 8 * i := 0)) [0..<256] (v_mem s1);
                   m2 = fold (\<lambda>i m. m(new_phys + 8 * i := m (g_kernel_pml4 s1 + 8 * i))) [256..<512] m1
               in (new_phys, s1\<lparr>v_mem := m2\<rparr>)))"

definition free_entry :: "vmm \<Rightarrow> u64 \<Rightarrow> vmm" where
  "free_entry s e = s\<lparr>v_pmm := pmm_free (v_pmm s) (unat (e AND NOT LOW12))\<rparr>"

definition free_pd :: "nat \<Rightarrow> vmm \<Rightarrow> vmm" where
  "free_pd pd s =
     fold (\<lambda>k s. let e = v_mem s (pd + 8 * k)
                 in if e AND VMM_PRESENT \<noteq> 0 then free_entry s e else s) [0..<ENTRIES] s"

definition free_pdpt :: "nat \<Rightarrow> vmm \<Rightarrow> vmm" where
  "free_pdpt pdpt s =
     fold (\<lambda>j s. let e = v_mem s (pdpt + 8 * j)
                 in if e AND VMM_PRESENT = 0 then s
                    else (let s1 = free_pd (unat (e AND NOT LOW12)) s in free_entry s1 e))
       [0..<ENTRIES] s"

definition vmm_free_user_pd :: "vmm \<Rightarrow> nat \<Rightarrow> vmm" where
  "vmm_free_user_pd s pml4_phys =
     (let s1 = fold (\<lambda>i s. let e = v_mem s (pml4_phys + 8 * i)
                           in if e AND VMM_PRESENT = 0 then s
                              else (let s1 = free_pdpt (unat (e AND NOT LOW12)) s
                                    in free_entry s1 e))
                  [0..<256] s
      in s1\<lparr>v_pmm := pmm_free (v_pmm s1) pml4_phys\<rparr>)"

section \<open>Entries and indices\<close>

lemma index_less: "pml4_index v < 512" "pdpt_index v < 512" "pd_index v < 512" "pt_index v < 512"
proof -
  have "unat (w AND 0x1FF :: u64) < 512" for w
  proof -
    have "w AND 0x1FF \<le> (0x1FF :: u64)" by (rule word_and_le1)
    then have "unat (w AND 0x1FF) \<le> 0x1FF" by (simp add: word_le_nat_alt)
    then show ?thesis by simp
  qed
  then show "pml4_index v < 512" "pdpt_index v < 512" "pd_index v < 512" "pt_index v < 512"
    by (simp_all add: pml4_index_def pdpt_index_def pd_index_def pt_index_def)
qed

lemma bit_LOW12: "bit LOW12 k \<longleftrightarrow> k < 12"
proof -
  have *: "LOW12 = mask 12" by (simp add: LOW12_def mask_eq_exp_minus_1)
  show ?thesis unfolding * bit_mask_iff by auto
qed

lemma bit_flags:
  "bit VMM_PRESENT k \<longleftrightarrow> k = 0" "bit VMM_WRITE k \<longleftrightarrow> k = 1" "bit VMM_USER k \<longleftrightarrow> k = 2"
proof -
  have *: "VMM_WRITE = 2 ^ 1" "VMM_USER = 2 ^ 2" by (simp_all add: VMM_WRITE_def VMM_USER_def)
  show "bit VMM_WRITE k \<longleftrightarrow> k = 1" "bit VMM_USER k \<longleftrightarrow> k = 2"
    unfolding * bit_exp_iff by auto
qed (simp add: VMM_PRESENT_def bit_1_iff)

lemmas entry_bits = bit_and_iff bit_or_iff bit_not_iff bit_LOW12 bit_flags

lemma aligned_low_bits:
  assumes "p mod 4096 = 0"
  shows "bit (of_nat p :: u64) k \<Longrightarrow> 12 \<le> k"
proof (rule ccontr)
  assume b: "bit (of_nat p :: u64) k" and k: "\<not> 12 \<le> k"
  have "take_bit 12 (of_nat p :: u64) = of_nat (take_bit 12 p)"
    by (simp add: of_nat_take_bit)
  also have "take_bit 12 p = 0"
    using assms by (simp add: take_bit_eq_mod)
  finally have "\<not> bit (take_bit 12 (of_nat p :: u64)) k" by simp
  with b k show False by (simp add: bit_take_bit_iff)
qed

lemma present_table_entry: "table_entry p v AND VMM_PRESENT \<noteq> 0"
proof -
  have "bit (table_entry p v AND VMM_PRESENT) 0"
    by (simp add: table_entry_def entry_bits)
  then show ?thesis by auto
qed

lemma frame_table_entry:
  assumes "p mod 4096 = 0" and "p < 2 ^ 64"
  shows "unat (table_entry p v AND NOT LOW12) = p"
proof -
  have "table_entry p v AND NOT LOW12 = of_nat p"
    by (rule bit_word_eqI)
      (auto simp: table_entry_def entry_bits dest: aligned_low_bits [OF assms(1)])
  then show ?thesis using assms(2) by (simp add: unat_of_nat)
qed

lemma present_pte_value: "pte_value p f AND VMM_PRESENT \<noteq> 0"
proof -
  have "bit (pte_value p f AND VMM_PRESENT) 0"
    by (simp add: pte_value_def entry_bits)
  then show ?thesis by auto
qed

lemma frame_pte_value: "pte_value p f AND NOT LOW12 = p AND NOT LOW12"
  by (rule bit_word_eqI) (auto simp: pte_value_def entry_bits)

section \<open>Page tables as a tree\<close>

text \<open>The table reached from \<open>t\<close> by a path of indices, if every entry on it is present.\<close>

fun table_at :: "(nat \<Rightarrow> u64) \<Rightarrow> nat \<Rightarrow> nat list \<Rightarrow> nat option" where
  "table_at m t [] = Some t"
| "table_at m t (i # ks) =
     (if m (t + 8 * i) AND VMM_PRESENT = 0 then None
      else table_at m (unat (m (t + 8 * i) AND NOT LOW12)) ks)"

text \<open>The addresses the walk along a path reads.\<close>

fun slots :: "(nat \<Rightarrow> u64) \<Rightarrow> nat \<Rightarrow> nat list \<Rightarrow> nat set" where
  "slots m t [] = {}"
| "slots m t (i # ks) = insert (t + 8 * i)
     (if m (t + 8 * i) AND VMM_PRESENT = 0 then {}
      else slots m (unat (m (t + 8 * i) AND NOT LOW12)) ks)"

definition valid_path :: "nat list \<Rightarrow> bool" where
  "valid_path p \<longleftrightarrow> length p \<le> 3 \<and> (\<forall>i \<in> set p. i < 512)"

text \<open>
  The invariant of one address space: the tables reachable from its root are page
  aligned, each is reached by one path only, and none is on offer by the allocator.
\<close>

definition tree_ok :: "vmm \<Rightarrow> nat \<Rightarrow> bool" where
  "tree_ok s root \<longleftrightarrow> pmm_inv (v_pmm s) \<and> root mod 4096 = 0 \<and>
     (\<forall>p t. valid_path p \<longrightarrow> table_at (v_mem s) root p = Some t \<longrightarrow> t \<notin> avail_frames (v_pmm s)) \<and>
     (\<forall>p q t. valid_path p \<longrightarrow> valid_path q \<longrightarrow> table_at (v_mem s) root p = Some t \<longrightarrow>
        table_at (v_mem s) root q = Some t \<longrightarrow> p = q)"

text \<open>The path and page number of a virtual address, and the entry mapped there.\<close>

definition table_path :: "u64 \<Rightarrow> nat list" where
  "table_path v = [pml4_index v, pdpt_index v, pd_index v]"

definition vpage :: "u64 \<Rightarrow> nat list" where
  "vpage v = table_path v @ [pt_index v]"

definition lookup_pte :: "(nat \<Rightarrow> u64) \<Rightarrow> nat \<Rightarrow> u64 \<Rightarrow> u64 option" where
  "lookup_pte m root v = (case table_at m root (table_path v) of
     None \<Rightarrow> None
   | Some pt \<Rightarrow> let e = m (pt + 8 * pt_index v) in if e AND VMM_PRESENT = 0 then None else Some e)"

lemma valid_table_path [simp]: "valid_path (table_path v)" "length (table_path v) = 3"
  by (simp_all add: valid_path_def table_path_def index_less)

lemma valid_path_append: "valid_path (p @ q) \<Longrightarrow> valid_path p"
  by (auto simp: valid_path_def)

lemma table_at_append:
  "table_at m t (p @ q) = (case table_at m t p of None \<Rightarrow> None | Some t' \<Rightarrow> table_at m t' q)"
  by (induction m t p rule: table_at.induct) auto

lemma table_at_cong:
  "(\<And>a. a \<in> slots m t p \<Longrightarrow> m' a = m a) \<Longrightarrow> table_at m' t p = table_at m t p"
  by (induction m t p rule: table_at.induct) (auto split: if_splits)

lemma slots_split:
  "a \<in> slots m t p \<Longrightarrow> \<exists>q j r t'. p = q @ j # r \<and> table_at m t q = Some t' \<and> a = t' + 8 * j"
proof (induction m t p rule: table_at.induct)
  case (2 m t i ks)
  show ?case
  proof (cases "a = t + 8 * i")
    case True
    then have "i # ks = [] @ i # ks \<and> table_at m t [] = Some t \<and> a = t + 8 * i" by simp
    then show ?thesis by blast
  next
    case False
    then have present: "m (t + 8 * i) AND VMM_PRESENT \<noteq> 0"
      and "a \<in> slots m (unat (m (t + 8 * i) AND NOT LOW12)) ks"
      using "2.prems" by (auto split: if_splits)
    then obtain q j r t' where "ks = q @ j # r"
      "table_at m (unat (m (t + 8 * i) AND NOT LOW12)) q = Some t'" "a = t' + 8 * j"
      using "2.IH" by blast
    then have "i # ks = (i # q) @ j # r \<and> table_at m t (i # q) = Some t' \<and> a = t' + 8 * j"
      using present by simp
    then show ?thesis by blast
  qed
qed simp

lemma frame_aligned: "unat (e AND NOT LOW12 :: u64) mod 4096 = 0"
proof -
  have "take_bit 12 (e AND NOT LOW12) = 0"
    by (rule bit_word_eqI) (auto simp: bit_take_bit_iff entry_bits)
  then have "take_bit 12 (unat (e AND NOT LOW12)) = 0"
    by (metis unat_0 unsigned_take_bit_eq)
  then show ?thesis by (simp add: take_bit_eq_mod)
qed

lemma table_at_aligned: "t mod 4096 = 0 \<Longrightarrow> table_at m t p = Some t' \<Longrightarrow> t' mod 4096 = 0"
  by (induction m t p rule: table_at.induct) (auto simp: frame_aligned split: if_splits)

lemma slot_inj:
  fixes t t' i j :: nat
  assumes "t mod 4096 = 0" "t' mod 4096 = 0" "i < 512" "j < 512" "t + 8 * i = t' + 8 * j"
  shows "t = t' \<and> i = j"
proof -
  obtain a b where ab: "t = 4096 * a" "t' = 4096 * b"
    using assms(1,2) by (auto simp: mod_eq_0_iff_dvd elim!: dvdE)
  then have eq: "i + 512 * a = j + 512 * b" using assms(5) by simp
  have "a = (i + 512 * a) div 512" "b = (j + 512 * b) div 512" using assms(3,4) by simp_all
  then have "a = b" using eq by simp
  then show ?thesis using eq ab by simp
qed

section \<open>Growing the tree\<close>

lemma fold_zero: "fold (\<lambda>i m. m(f + 8 * i := 0)) xs m a = (if \<exists>i \<in> set xs. a = f + 8 * i then 0 else m a)"
  by (induction xs arbitrary: m) auto

text \<open>Memory after a new table \<open>f\<close> is cleared and linked at index \<open>i\<close> of table \<open>t\<close>.\<close>

definition link_table :: "(nat \<Rightarrow> u64) \<Rightarrow> nat \<Rightarrow> nat \<Rightarrow> nat \<Rightarrow> u64 \<Rightarrow> nat \<Rightarrow> u64" where
  "link_table m t i f v =
     (fold (\<lambda>i m. m(f + 8 * i := 0)) [0..<512] m)(t + 8 * i := table_entry f v)"

lemma link_table_other:
  assumes "a \<noteq> t + 8 * i" and "\<And>j. j < 512 \<Longrightarrow> a \<noteq> f + 8 * j"
  shows "link_table m t i f v a = m a"
  using assms by (auto simp: link_table_def fold_zero)

lemma link_table_new:
  assumes "f mod 4096 = 0" "t mod 4096 = 0" "f \<noteq> t" "i < 512" "j < 512"
  shows "link_table m t i f v (f + 8 * j) = 0"
  using slot_inj [OF assms(1,2) assms(5,4)] assms(3,5) by (auto simp: link_table_def fold_zero)

lemma tree_okD:
  assumes "tree_ok s root"
  shows "pmm_inv (v_pmm s)" and "root mod 4096 = 0"
    and "valid_path p \<Longrightarrow> table_at (v_mem s) root p = Some t \<Longrightarrow> t \<notin> avail_frames (v_pmm s)"
    and "valid_path p \<Longrightarrow> valid_path q \<Longrightarrow> table_at (v_mem s) root p = Some t \<Longrightarrow>
        table_at (v_mem s) root q = Some t \<Longrightarrow> p = q"
    and "table_at (v_mem s) root p = Some t \<Longrightarrow> t mod 4096 = 0"
  using assms table_at_aligned [of root "v_mem s"] unfolding tree_ok_def by simp_all

lemma avail_frames_aligned: "f \<in> avail_frames s \<Longrightarrow> f mod 4096 = 0"
  by (auto simp: avail_frames_def)

lemma avail_frames_less: "pmm_inv s \<Longrightarrow> f \<in> avail_frames s \<Longrightarrow> f < 2 ^ 64"
  by (auto simp: avail_frames_def free_set_def pmm_inv_def pmm_ok_def)

text \<open>A write at index \<open>i\<close> of the table at path \<open>p\<close>, or inside a frame that is no
  table, is invisible to every walk that does not go through \<open>p @ [i]\<close>.\<close>

lemma table_at_frame:
  assumes ok: "tree_ok s root" and p: "valid_path p" "table_at (v_mem s) root p = Some t"
    and i: "i < 512" and q: "valid_path q" "\<And>r. q \<noteq> p @ i # r"
    and m': "\<And>a. a \<noteq> t + 8 * i \<Longrightarrow>
      (\<forall>f \<in> avail_frames (v_pmm s). \<forall>j < 512. a \<noteq> f + 8 * j) \<Longrightarrow> m' a = v_mem s a"
  shows "table_at m' root q = table_at (v_mem s) root q"
proof (rule table_at_cong)
  fix a assume "a \<in> slots (v_mem s) root q"
  then obtain q1 j r t' where split: "q = q1 @ j # r" "table_at (v_mem s) root q1 = Some t'"
    and a: "a = t' + 8 * j"
    using slots_split by blast
  have v: "valid_path q1" "j < 512"
    using q(1) split(1) by (auto simp: valid_path_def)
  have al: "t' mod 4096 = 0" "t mod 4096 = 0"
    using tree_okD(5) [OF ok] split(2) p(2) by auto
  have "a \<noteq> t + 8 * i"
    using slot_inj [OF al v(2) i] tree_okD(4) [OF ok v(1) p(1) split(2)] p(2) q(2) [of r] split(1) a
    by auto
  moreover have "a \<noteq> f + 8 * k" if "f \<in> avail_frames (v_pmm s)" "k < 512" for f k
    using slot_inj [OF al(1) avail_frames_aligned [OF that(1)] v(2) that(2)]
      tree_okD(3) [OF ok v(1) split(2)] that(1) a by auto
  ultimately show "m' a = v_mem s a" using m' by blast
qed

lemma link_table_tables:
  assumes ok: "tree_ok s root" and p: "valid_path (p @ [i])" "table_at (v_mem s) root p = Some t"
    and absent: "v_mem s (t + 8 * i) AND VMM_PRESENT = 0"
    and f: "f \<in> avail_frames (v_pmm s)" and q: "valid_path q"
  shows "table_at (link_table (v_mem s) t i f v) root q =
    (if q = p @ [i] then Some f else table_at (v_mem s) root q)"
proof -
  let ?m = "link_table (v_mem s) t i f v"
  have vp: "valid_path p" and i: "i < 512"
    using p(1) by (auto simp: valid_path_def)
  have al: "f mod 4096 = 0" "t mod 4096 = 0" "f < 2 ^ 64"
    using avail_frames_aligned [OF f] tree_okD(5) [OF ok p(2)]
      avail_frames_less [OF tree_okD(1) [OF ok] f] by auto
  have ft: "f \<noteq> t" using tree_okD(3) [OF ok vp p(2)] f by auto
  have same: "table_at ?m root q' = table_at (v_mem s) root q'"
    if "valid_path q'" "\<And>r. q' \<noteq> p @ i # r" for q'
    by (rule table_at_frame [OF ok vp p(2) i that]) (use f in \<open>auto intro: link_table_other\<close>)
  show ?thesis
  proof (cases "\<exists>r. q = p @ i # r")
    case False
    then show ?thesis using same [OF q] by auto
  next
    case True
    then obtain r where r: "q = p @ i # r" by blast
    have "table_at ?m root p = Some t" using same [OF vp] p(2) by simp
    moreover have "?m (t + 8 * i) = table_entry f v" by (simp add: link_table_def)
    ultimately have "table_at ?m root q = table_at ?m f r"
      using r al by (simp add: table_at_append present_table_entry frame_table_entry)
    also have "\<dots> = (if r = [] then Some f else None)"
    proof (cases r)
      case (Cons j r')
      then have "j < 512" using q r by (auto simp: valid_path_def)
      from link_table_new [OF al(1,2) ft i this] Cons show ?thesis by simp
    qed simp
    also have "\<dots> = (if q = p @ [i] then Some f else table_at (v_mem s) root q)"
      using r p(2) absent by (auto simp: table_at_append)
    finally show ?thesis .
  qed
qed

lemma link_table_lookup:
  assumes ok: "tree_ok s root" and p: "valid_path (p @ [i])" "table_at (v_mem s) root p = Some t"
    and absent: "v_mem s (t + 8 * i) AND VMM_PRESENT = 0"
    and f: "f \<in> avail_frames (v_pmm s)"
  shows "lookup_pte (link_table (v_mem s) t i f v) root w = lookup_pte (v_mem s) root w"
proof -
  let ?m = "link_table (v_mem s) t i f v"
  have vp: "valid_path p" and i: "i < 512" and lp: "length p < 3"
    using p(1) by (auto simp: valid_path_def)
  have al: "f mod 4096 = 0" "t mod 4096 = 0"
    using avail_frames_aligned [OF f] tree_okD(5) [OF ok p(2)] by auto
  have ft: "f \<noteq> t" using tree_okD(3) [OF ok vp p(2)] f by auto
  note tab = link_table_tables [OF ok p absent f valid_table_path(1) [of w], of v]
  show ?thesis
  proof (cases "table_path w = p @ [i]")
    case True
    then have "table_at (v_mem s) root (table_path w) = None"
      using p(2) absent by (simp add: table_at_append)
    moreover have "?m (f + 8 * pt_index w) = 0"
      by (rule link_table_new [OF al ft i index_less(4)])
    ultimately show ?thesis using tab True by (simp add: lookup_pte_def)
  next
    case False
    have "?m (pt + 8 * pt_index w) = v_mem s (pt + 8 * pt_index w)"
      if pt: "table_at (v_mem s) root (table_path w) = Some pt" for pt
    proof (rule link_table_other)
      have "pt \<noteq> t" using tree_okD(4) [OF ok vp _ p(2), of "table_path w"] pt lp by auto
      then show "pt + 8 * pt_index w \<noteq> t + 8 * i"
        using slot_inj [OF tree_okD(5) [OF ok pt] al(2) index_less(4) i] by blast
      have "pt \<noteq> f" using tree_okD(3) [OF ok _ pt] f by auto
      then show "pt + 8 * pt_index w \<noteq> f + 8 * j" if "j < 512" for j
        using slot_inj [OF tree_okD(5) [OF ok pt] al(1) index_less(4) that] by blast
    qed
    then show ?thesis using tab False by (auto simp: lookup_pte_def split: option.splits)
  qed
qed

text \<open>Growing the tree: the mappings stay, the tables stay where they are.\<close>

definition grows :: "nat \<Rightarrow> vmm \<Rightarrow> vmm \<Rightarrow> bool" where
  "grows root s s' \<longleftrightarrow> tree_ok s' root \<and> g_kernel_pml4 s' = g_kernel_pml4 s \<and>
     (\<forall>w. lookup_pte (v_mem s') root w = lookup_pte (v_mem s) root w) \<and>
     (\<forall>q t. valid_path q \<longrightarrow> table_at (v_mem s) root q = Some t \<longrightarrow>
        table_at (v_mem s') root q = Some t)"

lemma grows_refl: "tree_ok s root \<Longrightarrow> grows root s s"
  by (simp add: grows_def)

lemma grows_trans: "grows root s s' \<Longrightarrow> grows root s' s'' \<Longrightarrow> grows root s s''"
  by (simp add: grows_def)

lemma grows_link:
  assumes ok: "tree_ok s root" and p: "valid_path (p @ [i])" "table_at (v_mem s) root p = Some t"
    and absent: "v_mem s (t + 8 * i) AND VMM_PRESENT = 0"
    and alloc: "pmm_alloc (v_pmm s) = (f, pm)" "f \<noteq> 0"
    and s'_def: "s' = s\<lparr>v_pmm := pm, v_mem := link_table (v_mem s) t i f v\<rparr>"
  shows "grows root s s'" and "table_at (v_mem s') root (p @ [i]) = Some f"
proof -
  note inv = tree_okD(1) [OF ok]
  have f: "f \<in> avail_frames (v_pmm s)" and av: "avail_frames pm = avail_frames (v_pmm s) - {f}"
    and inv': "pmm_inv pm"
    using pmm.alloc_mem [OF inv] pmm.alloc_avail [OF inv] pmm.alloc_inv [OF inv] alloc by auto
  have tab: "table_at (v_mem s') root q = (if q = p @ [i] then Some f else table_at (v_mem s) root q)"
    if "valid_path q" for q
    using link_table_tables [OF ok p absent f that] by (simp add: s'_def)
  have lk: "lookup_pte (v_mem s') root w = lookup_pte (v_mem s) root w" for w
    using link_table_lookup [OF ok p absent f] by (simp add: s'_def)
  have "tree_ok s' root"
    unfolding tree_ok_def
  proof (intro conjI allI impI)
    show "pmm_inv (v_pmm s')" "root mod PAGE_SIZE = 0"
      using inv' tree_okD(2) [OF ok] by (simp_all add: s'_def)
    show "u \<notin> avail_frames (v_pmm s')" if "valid_path q" "table_at (v_mem s') root q = Some u" for q u
      using that tab [OF that(1)] tree_okD(3) [OF ok that(1)] av
      by (auto simp: s'_def split: if_splits)
    show "q = q'" if "valid_path q" "valid_path q'" "table_at (v_mem s') root q = Some u"
      "table_at (v_mem s') root q' = Some u" for q q' u
      using that tab [OF that(1)] tab [OF that(2)] tree_okD(3) [OF ok] f
        tree_okD(4) [OF ok that(1,2)] by (auto split: if_splits)
  qed
  moreover have "table_at (v_mem s) root (p @ [i]) = None"
    using p(2) absent by (simp add: table_at_append)
  ultimately show "grows root s s'"
    using lk tab by (auto simp: grows_def s'_def)
  show "table_at (v_mem s') root (p @ [i]) = Some f" using tab [OF p(1)] by simp
qed

lemma walk_level_alloc:
  assumes ok: "tree_ok s root" and p: "valid_path (p @ [i])" "table_at (v_mem s) root p = Some t"
    and w: "walk_level s t i v True = (r, s')"
  shows "grows root s s'" and "r = None \<Longrightarrow> avail_frames (v_pmm s') = {}"
    and "r = Some t' \<Longrightarrow> table_at (v_mem s') root (p @ [i]) = Some t'"
proof -
  obtain f pm where al: "pmm_alloc (v_pmm s) = (f, pm)" by (cases "pmm_alloc (v_pmm s)")
  note inv = tree_okD(1) [OF ok]
  have "grows root s s' \<and> (r = None \<longrightarrow> avail_frames (v_pmm s') = {}) \<and>
    (r = Some t' \<longrightarrow> table_at (v_mem s') root (p @ [i]) = Some t')"
  proof (cases "v_mem s (t + 8 * i) AND VMM_PRESENT = 0")
    case absent: True
    show ?thesis
    proof (cases "f = 0")
      case True
      then have "pm = v_pmm s" "avail_frames (v_pmm s) = {}"
        using pmm.alloc_fail_state [OF inv] pmm.alloc_fails [OF inv] al by auto
      moreover have "s' = s\<lparr>v_pmm := pm\<rparr>" "r = None"
        using w absent al True by (auto simp: walk_level_def alloc_pt_phys_def)
      ultimately show ?thesis using grows_refl [OF ok] by simp
    next
      case False
      have eq: "s' = s\<lparr>v_pmm := pm, v_mem := link_table (v_mem s) t i f v\<rparr>" and "r = Some f"
        using w absent al False
        by (auto simp: walk_level_def alloc_pt_phys_def link_table_def Let_def)
      then show ?thesis using grows_link [OF ok p absent al False eq] by auto
    qed
  next
    case False
    then have "s' = s" "r = Some (unat (v_mem s (t + 8 * i) AND NOT LOW12))"
      using w by (auto simp: walk_level_def)
    then show ?thesis using grows_refl [OF ok] False p(2) by (simp add: table_at_append)
  qed
  then show "grows root s s'" "r = None \<Longrightarrow> avail_frames (v_pmm s') = {}"
    "r = Some t' \<Longrightarrow> table_at (v_mem s') root (p @ [i]) = Some t'"
    by blast+
qed

lemma walk_to_pte_alloc:
  assumes ok: "tree_ok s root" and w: "walk_to_pte s root v True = (r, s')"
  shows "grows root s s' \<and> (case r of
      None \<Rightarrow> avail_frames (v_pmm s') = {}
    | Some pte \<Rightarrow> \<exists>pt. table_at (v_mem s') root (table_path v) = Some pt \<and> pte = pt + 8 * pt_index v)"
proof -
  have v1: "valid_path ([] @ [pml4_index v])" and v2: "valid_path ([pml4_index v] @ [pdpt_index v])"
    and v3: "valid_path ([pml4_index v, pdpt_index v] @ [pd_index v])"
    by (simp_all add: valid_path_def index_less)
  obtain r1 s1 where w1: "walk_level s root (pml4_index v) v True = (r1, s1)"
    by (cases "walk_level s root (pml4_index v) v True")
  have t0: "table_at (v_mem s) root [] = Some root" by simp
  note L1 = walk_level_alloc [OF ok v1 t0 w1]
  show ?thesis
  proof (cases r1)
    case None
    then show ?thesis using w w1 L1 by (auto simp: walk_to_pte_def)
  next
    case (Some pdpt)
    have ok1: "tree_ok s1 root" using L1(1) by (simp add: grows_def)
    obtain r2 s2 where w2: "walk_level s1 pdpt (pdpt_index v) v True = (r2, s2)"
      by (cases "walk_level s1 pdpt (pdpt_index v) v True")
    have t1: "table_at (v_mem s1) root [pml4_index v] = Some pdpt" using L1(3) Some by simp
    note L2 = walk_level_alloc [OF ok1 v2 t1 w2]
    show ?thesis
    proof (cases r2)
      case None
      then show ?thesis using w w1 w2 Some L1(1) L2 by (auto simp: walk_to_pte_def intro: grows_trans)
    next
      case (Some pd)
      have ok2: "tree_ok s2 root" using L2(1) by (simp add: grows_def)
      obtain r3 s3 where w3: "walk_level s2 pd (pd_index v) v True = (r3, s3)"
        by (cases "walk_level s2 pd (pd_index v) v True")
      have t2: "table_at (v_mem s2) root [pml4_index v, pdpt_index v] = Some pd"
        using L2(3) Some by simp
      note L3 = walk_level_alloc [OF ok2 v3 t2 w3]
      have g: "grows root s s3" using L1(1) L2(1) L3(1) by (blast intro: grows_trans)
      have "(r, s') = (case r3 of None \<Rightarrow> None | Some pt \<Rightarrow> Some (pt + 8 * pt_index v), s3)"
        using w w1 w2 w3 Some \<open>r1 = Some pdpt\<close> by (auto simp: walk_to_pte_def split: option.splits)
      moreover have "table_at (v_mem s3) root (table_path v) = Some pt" if "r3 = Some pt" for pt
        using L3(3) [OF that] by (simp only: table_path_def append.simps)
      ultimately show ?thesis
        using g L3(2) by (auto split: option.splits)
    qed
  qed
qed

section \<open>Mapping a page\<close>

lemma walk_level_read:
  "walk_level s t i v False =
     (if v_mem s (t + 8 * i) AND VMM_PRESENT = 0 then None
      else Some (unat (v_mem s (t + 8 * i) AND NOT LOW12)), s)"
  by (simp add: walk_level_def)

lemma walk_to_pte_read:
  "walk_to_pte s root v False =
     (map_option (\<lambda>pt. pt + 8 * pt_index v) (table_at (v_mem s) root (table_path v)), s)"
  by (auto simp: walk_to_pte_def walk_level_read table_path_def)

lemma resolve_lookup:
  "vmm_resolve_in s root v = (case lookup_pte (v_mem s) root v of
     None \<Rightarrow> 0 | Some e \<Rightarrow> (e AND NOT LOW12) OR (v AND LOW12))"
  by (auto simp: vmm_resolve_in_def walk_to_pte_read lookup_pte_def Let_def split: option.splits)

text \<open>Writing the leaf entry of one page.\<close>

lemma write_pte:
  assumes ok: "tree_ok s root" and pt: "table_at (v_mem s) root (table_path v) = Some pt"
    and s': "s' = s\<lparr>v_mem := (v_mem s)(pt + 8 * pt_index v := e)\<rparr>"
  shows "tree_ok s' root"
    and "lookup_pte (v_mem s') root w =
      (if vpage w = vpage v then if e AND VMM_PRESENT = 0 then None else Some e
       else lookup_pte (v_mem s) root w)"
proof -
  have tab: "table_at (v_mem s') root q = table_at (v_mem s) root q" if "valid_path q" for q
    by (rule table_at_frame [OF ok valid_table_path(1) pt index_less(4) that])
      (use that in \<open>auto simp: s' valid_path_def\<close>)
  then show "tree_ok s' root"
    using ok unfolding tree_ok_def by (simp add: s')
  have vp: "vpage w = vpage v \<longleftrightarrow> table_path w = table_path v \<and> pt_index w = pt_index v"
    by (simp add: vpage_def)
  show "lookup_pte (v_mem s') root w =
      (if vpage w = vpage v then if e AND VMM_PRESENT = 0 then None else Some e
       else lookup_pte (v_mem s) root w)"
  proof (cases "table_at (v_mem s) root (table_path w)")
    case None
    then show ?thesis using tab [of "table_path w"] pt vp by (auto simp: lookup_pte_def)
  next
    case (Some u)
    have "u = pt \<longleftrightarrow> table_path w = table_path v"
      using tree_okD(4) [OF ok _ _ Some, of "table_path v"] pt Some by auto
    moreover have "u + 8 * pt_index w = pt + 8 * pt_index v \<longleftrightarrow> u = pt \<and> pt_index w = pt_index v"
      using slot_inj [OF tree_okD(5) [OF ok Some] tree_okD(5) [OF ok pt] index_less(4) [of w]
          index_less(4) [of v]] by auto
    ultimately show ?thesis
      using tab [of "table_path w"] Some vp by (auto simp: lookup_pte_def s' Let_def)
  qed
qed

lemma vmm_map_in_lookup:
  assumes ok: "tree_ok s root" and map: "vmm_map_in s root v p f = (r, s')"
  shows "tree_ok s' root \<and> (\<forall>w. lookup_pte (v_mem s') root w =
      (if r = 1 \<and> vpage w = vpage v then Some (pte_value p f) else lookup_pte (v_mem s) root w)) \<and>
    (r = 1 \<or> r = 0 \<and> avail_frames (v_pmm s') = {})"
proof -
  obtain pte s1 where w: "walk_to_pte s root v True = (pte, s1)"
    by (cases "walk_to_pte s root v True")
  note W = walk_to_pte_alloc [OF ok w]
  then have ok1: "tree_ok s1 root" and lk: "lookup_pte (v_mem s1) root x = lookup_pte (v_mem s) root x" for x
    by (auto simp: grows_def)
  show ?thesis
  proof (cases pte)
    case None
    then have "r = 0" "s' = s1" using map w by (auto simp: vmm_map_in_def)
    then show ?thesis using W ok1 lk None by simp
  next
    case (Some a)
    then obtain pt where pt: "table_at (v_mem s1) root (table_path v) = Some pt"
      and a: "a = pt + 8 * pt_index v"
      using W by auto
    have r: "r = 1" and s': "s' = s1\<lparr>v_mem := (v_mem s1)(pt + 8 * pt_index v := pte_value p f)\<rparr>"
      using map w Some a by (auto simp: vmm_map_in_def)
    from write_pte [OF ok1 pt s'] show ?thesis
      using r lk by (simp add: present_pte_value)
  qed
qed

text \<open>Two addresses with the same page number differ in the page offset only.\<close>

lemma bounded_agree:
  "(\<forall>k. (k < N \<and> P k) = (k < N \<and> Q k)) \<longleftrightarrow> (\<forall>k \<in> {0..<N :: nat}. P k = Q k)"
  by (simp add: Ball_def) blast

lemma index_field_eq:
  fixes x y :: u64
  shows "unat (drop_bit n x AND 0x1FF) = unat (drop_bit n y AND 0x1FF) \<longleftrightarrow>
    (\<forall>k \<in> {n ..< n + 9}. bit x k = bit y k)"
proof -
  have *: "(0x1FF :: u64) = mask 9" by (simp add: mask_eq_exp_minus_1)
  have b: "bit (drop_bit n z AND mask 9) k \<longleftrightarrow> k < 9 \<and> bit z (n + k)" for z :: u64 and k
    by (auto simp: bit_and_iff bit_mask_iff bit_drop_bit_eq)
  have "unat (drop_bit n x AND 0x1FF) = unat (drop_bit n y AND 0x1FF) \<longleftrightarrow>
    drop_bit n x AND mask 9 = drop_bit n y AND mask 9"
    unfolding * by (rule word_unat_eq_iff [symmetric])
  also have "\<dots> \<longleftrightarrow> (\<forall>k. bit (drop_bit n x AND mask 9) k = bit (drop_bit n y AND mask 9) k)"
    by (auto intro: bit_eqI)
  also have "\<dots> \<longleftrightarrow> (\<forall>k \<in> {0..<9}. bit x (n + k) = bit y (n + k))"
    unfolding b by (rule bounded_agree)
  also have "\<dots> \<longleftrightarrow> (\<forall>k \<in> (+) n ` {0..<9}. bit x k = bit y k)"
    by blast
  also have "(+) n ` {0..<9} = {n ..< n + 9}"
    by (simp add: add.commute)
  finally show ?thesis .
qed

lemma vpage_eq_iff: "vpage v = vpage w \<longleftrightarrow> (\<forall>k. 12 \<le> k \<and> k < 48 \<longrightarrow> bit v k = bit w k)"
proof -
  have "vpage v = vpage w \<longleftrightarrow> (\<forall>k \<in> {39 ..< 39 + 9} \<union> ({30 ..< 30 + 9} \<union> ({21 ..< 21 + 9} \<union> {12 ..< 12 + 9})).
      bit v k = bit w k)"
    unfolding vpage_def table_path_def pml4_index_def pdpt_index_def pd_index_def pt_index_def
      append.simps list.inject index_field_eq ball_Un by simp
  also have "{39 ..< 39 + 9} \<union> ({30 ..< 30 + 9} \<union> ({21 ..< 21 + 9} \<union> {12 ..< 12 + 9})) = {12 ..< 48 :: nat}"
    by auto
  finally show ?thesis by auto
qed

section \<open>Theorems\<close>

text \<open>C3. \<open>vmm_map_in\<close> on a well-formed address space: it succeeds unless the page allocator is
  exhausted; on success exactly the page of \<open>virt\<close> (the addresses that agree with it on
  bits 12 to 47) resolves to the new frame, with the offset kept, and every other
  address resolves as before; on failure nothing changes; either way the space stays
  well-formed.\<close>

theorem vmm_map_in_correct:
  assumes "tree_ok s root" and "vmm_map_in s root virt phys flags = (r, s')"
  shows "tree_ok s' root \<and> (r = 1 \<or> r = 0 \<and> avail_frames (v_pmm s') = {}) \<and>
    (\<forall>w. vmm_resolve_in s' root w =
       (if r = 1 \<and> (\<forall>k. 12 \<le> k \<and> k < 48 \<longrightarrow> bit w k = bit virt k)
        then (phys AND NOT LOW12) OR (w AND LOW12) else vmm_resolve_in s root w))"
  using vmm_map_in_lookup [OF assms]
  by (auto simp: resolve_lookup frame_pte_value vpage_eq_iff)

text \<open>An address space whose root table is empty, in one free frame besides the root.\<close>

definition sample_pmm :: pmm where
  "sample_pmm = \<lparr>p_hhdm_offset = 0, g_bitmap = [0x03], g_total_pages = 6, g_free_pages = 4, g_next_scan = 2\<rparr>"

definition sample_vmm :: vmm where
  "sample_vmm = \<lparr>v_pmm = sample_pmm, v_mem = (\<lambda>_. 0), g_kernel_pml4 = 4096, g_hhdm_offset = 0, cr3 = 4096\<rparr>"

lemma sample_free_set: "free_set sample_pmm = {2, 3, 4, 5}"
proof -
  have m: "(0x03 :: u8) = mask 2" by (simp add: mask_eq_exp_minus_1)
  have "bit_test [0x03] i \<longleftrightarrow> i < 2" if "i < 6" for i
  proof -
    have "i div 8 = 0" "i mod 8 = i" using that by auto
    then show ?thesis unfolding bit_test_iff m by (simp only: nth_Cons_0 bit_mask_iff) (use that in simp)
  qed
  then have "free_set sample_pmm = {i. i < 6 \<and> \<not> i < 2}"
    unfolding free_set_def sample_pmm_def by (simp cong: conj_cong)
  also have "\<dots> = {2, 3, 4, 5}"
    by auto
  finally show ?thesis .
qed

lemma sample_pmm_inv: "pmm_inv sample_pmm"
  by (simp add: pmm_inv_def pmm_ok_def sample_free_set) (simp add: sample_pmm_def)

lemma sample_tree_ok: "tree_ok sample_vmm 4096"
proof -
  have "table_at (\<lambda>_. 0) 4096 p = Some t \<longleftrightarrow> p = [] \<and> t = 4096" for p t
    by (cases p) auto
  then show ?thesis
    by (auto simp: tree_ok_def sample_vmm_def sample_pmm_inv avail_frames_def sample_free_set)
qed

theorem vmm_map_in_correct_witness:
  "\<exists>r s'. vmm_map_in sample_vmm 4096 0x400000 0x5000 3 = (r, s') \<and> tree_ok s' 4096 \<and>
     vmm_resolve_in s' 4096 0x400123 =
       (if r = 1 \<and> (\<forall>k. 12 \<le> k \<and> k < 48 \<longrightarrow> bit (0x400123 :: u64) k = bit (0x400000 :: u64) k)
        then (0x5000 AND NOT LOW12) OR (0x400123 AND LOW12)
        else vmm_resolve_in sample_vmm 4096 0x400123)"
proof -
  obtain r s' where m: "vmm_map_in sample_vmm 4096 0x400000 0x5000 3 = (r, s')"
    by (cases "vmm_map_in sample_vmm 4096 0x400000 0x5000 3")
  from vmm_map_in_correct [OF sample_tree_ok m] m show ?thesis by blast
qed

end
