(* ===== verification/Kheap.thy ===== *)
theory Kheap
  imports Vmm
begin

text \<open>
  \<open>src/kheap.c\<close>: the kernel heap, a singly linked list of blocks in address order.
  Heap memory is the store \<open>k_store\<close> of block headers, indexed by address; the
  null pointer is 0 and a header read where none was written is a fault (\<open>None\<close>).
  List traversals follow the \<open>next\<close> pointers and need not end on a corrupt store, so
  they are partial functions; the invariant below makes them return.  New pages come
  from \<open>Pmm\<close> and are mapped by \<open>Vmm\<close>.
\<close>

section \<open>State\<close>

record block =
  b_size :: nat
  b_used :: bool
  b_next :: nat

record kheap =
  k_vmm :: vmm
  k_store :: "nat \<Rightarrow> block option"
  heap_head :: nat
  heap_start :: nat
  heap_end :: nat
  heap_limit :: nat

text \<open>\<open>sizeof(block_t)\<close>: 4 bytes, 1 byte, 3 bytes of padding, an 8-byte pointer.\<close>

abbreviation (input) HEADER_SIZE :: nat where "HEADER_SIZE \<equiv> 16"
abbreviation (input) MIN_GROW_PAGES :: nat where "MIN_GROW_PAGES \<equiv> 16"

definition ALIGN8 :: "nat \<Rightarrow> nat" where
  "ALIGN8 x = u32_add x 7 div 8 * 8"

section \<open>Mapping pages\<close>

text \<open>The roll-back loop: unmap the first \<open>i\<close> pages of the region and return their frames.\<close>

definition unmap_page :: "nat \<Rightarrow> nat \<Rightarrow> vmm \<Rightarrow> vmm" where
  "unmap_page virt j s =
     (let v = of_nat (virt + u32_mul j 4096); p = vmm_resolve s v; s1 = vmm_unmap s v
      in if p \<noteq> 0 then s1\<lparr>v_pmm := pmm_free (v_pmm s1) (unat p)\<rparr> else s1)"

definition unmap_region :: "nat \<Rightarrow> nat \<Rightarrow> vmm \<Rightarrow> vmm" where
  "unmap_region virt i s = fold (unmap_page virt) [0..<i] s"

fun map_pages :: "nat \<Rightarrow> nat \<Rightarrow> nat \<Rightarrow> vmm \<Rightarrow> bool \<times> vmm" where
  "map_pages virt i 0 s = (True, s)"
| "map_pages virt i (Suc todo) s =
     (let (phys, pm) = pmm_alloc (v_pmm s); s1 = s\<lparr>v_pmm := pm\<rparr>
      in if phys = 0 then (False, unmap_region virt i s1)
         else (let (r, s2) = vmm_map s1 (of_nat (virt + u32_mul i 4096)) (of_nat phys)
                               (VMM_PRESENT OR VMM_WRITE)
               in if r = 0
                  then (False, unmap_region virt i (s2\<lparr>v_pmm := pmm_free (v_pmm s2) phys\<rparr>))
                  else map_pages virt (Suc i) todo s2))"

definition map_region :: "vmm \<Rightarrow> nat \<Rightarrow> nat \<Rightarrow> bool \<times> vmm" where
  "map_region s virt pages = map_pages virt 0 pages s"

section \<open>The block list\<close>

partial_function (option) last_block_from :: "(nat \<Rightarrow> block option) \<Rightarrow> nat \<Rightarrow> nat option" where
  "last_block_from st b =
     (if b = 0 then Some 0
      else case st b of
             None \<Rightarrow> None
           | Some blk \<Rightarrow> if b_next blk = 0 then Some b else last_block_from st (b_next blk))"

definition last_block :: "kheap \<Rightarrow> nat option" where
  "last_block h = last_block_from (k_store h) (heap_head h)"

definition kheap_init :: "kheap \<Rightarrow> nat \<Rightarrow> nat \<Rightarrow> nat \<Rightarrow> kheap" where
  "kheap_init h base initial_pages max_pages =
     (let max_pages = (if max_pages < initial_pages then initial_pages else max_pages);
          (ok, vm) = map_region (k_vmm h) base initial_pages
      in if \<not> ok then h\<lparr>k_vmm := vm\<rparr>
         else h\<lparr>k_vmm := vm,
                k_store := (k_store h)(base \<mapsto> \<lparr>b_size = u32_sub (u32_mul initial_pages 4096) HEADER_SIZE,
                                              b_used = False, b_next = 0\<rparr>),
                heap_head := base, heap_start := base,
                heap_end := u64_add base (u32_mul initial_pages 4096),
                heap_limit := u64_add base (u32_mul max_pages 4096)\<rparr>)"

definition grow_pages :: "kheap \<Rightarrow> nat \<Rightarrow> nat" where
  "grow_pages h min_bytes =
     (let needed = u32_sub (u32_add min_bytes 4096) 1 div 4096;
          needed = (if needed < MIN_GROW_PAGES then MIN_GROW_PAGES else needed);
          room = (heap_limit h - heap_end h) div 4096 mod 2 ^ 32
      in if needed > room then room else needed)"

definition kheap_grow :: "kheap \<Rightarrow> nat \<Rightarrow> (nat \<times> kheap) option" where
  "kheap_grow h min_bytes =
     (if heap_head h = 0 then Some (0, h)
      else if heap_end h \<ge> heap_limit h then Some (0, h)
      else let needed = grow_pages h min_bytes
           in if needed = 0 then Some (0, h)
              else let start = heap_end h; (ok, vm) = map_region (k_vmm h) start needed
                   in if \<not> ok then Some (0, h\<lparr>k_vmm := vm\<rparr>)
                      else let added = u32_mul needed 4096;
                               h1 = h\<lparr>k_vmm := vm, heap_end := u64_add (heap_end h) added\<rparr>
                           in case last_block h1 of
                                None \<Rightarrow> None
                              | Some tail \<Rightarrow>
                                  (case (if tail = 0 then None else k_store h1 tail) of
                                     None \<Rightarrow>
                                       Some (added, h1\<lparr>k_store := (k_store h1)(start \<mapsto>
                                         \<lparr>b_size = u32_sub added HEADER_SIZE, b_used = False, b_next = 0\<rparr>),
                                         heap_head := start\<rparr>)
                                   | Some t \<Rightarrow>
                                       if \<not> b_used t
                                       then Some (added, h1\<lparr>k_store := (k_store h1)(tail \<mapsto>
                                              t\<lparr>b_size := u32_add (b_size t) added\<rparr>)\<rparr>)
                                       else Some (added, h1\<lparr>k_store := ((k_store h1)(start \<mapsto>
                                              \<lparr>b_size = u32_sub added HEADER_SIZE, b_used = False, b_next = 0\<rparr>))
                                              (tail \<mapsto> t\<lparr>b_next := start\<rparr>)\<rparr>)))"

section \<open>Allocation and release\<close>

partial_function (option) find_fit_from ::
  "(nat \<Rightarrow> block option) \<Rightarrow> nat \<Rightarrow> nat \<Rightarrow> (nat \<times> (nat \<Rightarrow> block option)) option" where
  "find_fit_from st b sz =
     (if b = 0 then Some (0, st)
      else case st b of
             None \<Rightarrow> None
           | Some blk \<Rightarrow>
               if b_used blk \<or> b_size blk < sz then find_fit_from st (b_next blk) sz
               else if b_size blk \<ge> u32_add (u32_add sz HEADER_SIZE) 8
               then let rest = b + HEADER_SIZE + sz
                    in Some (b + HEADER_SIZE,
                         (st(rest \<mapsto> \<lparr>b_size = u32_sub (u32_sub (b_size blk) sz) HEADER_SIZE,
                                       b_used = False, b_next = b_next blk\<rparr>))
                           (b \<mapsto> \<lparr>b_size = sz, b_used = True, b_next = rest\<rparr>))
               else Some (b + HEADER_SIZE, st(b \<mapsto> blk\<lparr>b_used := True\<rparr>)))"

definition find_fit :: "kheap \<Rightarrow> nat \<Rightarrow> (nat \<times> kheap) option" where
  "find_fit h sz =
     map_option (\<lambda>(p, st). (p, h\<lparr>k_store := st\<rparr>)) (find_fit_from (k_store h) (heap_head h) sz)"

definition kmalloc :: "kheap \<Rightarrow> nat \<Rightarrow> (nat \<times> kheap) option" where
  "kmalloc h size0 =
     (if size0 = 0 \<or> heap_head h = 0 then Some (0, h)
      else let sz = ALIGN8 size0
           in case find_fit h sz of
                None \<Rightarrow> None
              | Some (p, h1) \<Rightarrow>
                  if p \<noteq> 0 then Some (p, h1)
                  else (case kheap_grow h1 (u32_add sz HEADER_SIZE) of
                          None \<Rightarrow> None
                        | Some (added, h2) \<Rightarrow> if added = 0 then Some (0, h2) else find_fit h2 sz))"

text \<open>The backward pass of \<open>kfree\<close>: absorb \<open>b\<close> into a free predecessor.\<close>

partial_function (option) absorb_from ::
  "(nat \<Rightarrow> block option) \<Rightarrow> nat \<Rightarrow> nat \<Rightarrow> block \<Rightarrow> (nat \<Rightarrow> block option) option" where
  "absorb_from st p b blk =
     (if p = 0 then Some st
      else case st p of
             None \<Rightarrow> None
           | Some q \<Rightarrow>
               if b_next q = b \<and> \<not> b_used q
               then Some (st(p \<mapsto> q\<lparr>b_size := u32_add (b_size q) (u32_add HEADER_SIZE (b_size blk)),
                                   b_next := b_next blk\<rparr>))
               else absorb_from st (b_next q) b blk)"

text \<open>The forward pass of \<open>kfree\<close>: the header of the freed block after absorbing a free successor.\<close>

definition absorb_next :: "(nat \<Rightarrow> block option) \<Rightarrow> block \<Rightarrow> block option" where
  "absorb_next st blk =
     (if b_next blk = 0 then Some blk
      else case st (b_next blk) of
             None \<Rightarrow> None
           | Some nx \<Rightarrow>
               Some (if \<not> b_used nx
                     then blk\<lparr>b_size := u32_add (b_size blk) (u32_add HEADER_SIZE (b_size nx)),
                              b_next := b_next nx\<rparr>
                     else blk))"

definition kfree :: "kheap \<Rightarrow> nat \<Rightarrow> kheap option" where
  "kfree h ptr =
     (if ptr = 0 then Some h
      else let b = ptr - HEADER_SIZE
           in case k_store h b of
                None \<Rightarrow> None
              | Some blk \<Rightarrow>
                  (case absorb_next (k_store h) (blk\<lparr>b_used := False\<rparr>) of
                     None \<Rightarrow> None
                   | Some blk2 \<Rightarrow>
                       let st = (k_store h)(b \<mapsto> blk2)
                       in if b = heap_head h then Some (h\<lparr>k_store := st\<rparr>)
                          else map_option (\<lambda>st'. h\<lparr>k_store := st'\<rparr>) (absorb_from st (heap_head h) b blk2)))"

section \<open>Statistics\<close>

partial_function (option) sum_sizes ::
  "(nat \<Rightarrow> block option) \<Rightarrow> (block \<Rightarrow> bool) \<Rightarrow> nat \<Rightarrow> nat \<Rightarrow> nat option" where
  "sum_sizes st P b acc =
     (if b = 0 then Some acc
      else case st b of
             None \<Rightarrow> None
           | Some blk \<Rightarrow>
               sum_sizes st P (b_next blk) (if P blk then u32_add acc (b_size blk) else acc))"

definition kheap_used :: "kheap \<Rightarrow> nat option" where
  "kheap_used h = sum_sizes (k_store h) b_used (heap_head h) 0"

definition kheap_free :: "kheap \<Rightarrow> nat option" where
  "kheap_free h = sum_sizes (k_store h) (\<lambda>b. \<not> b_used b) (heap_head h) 0"

partial_function (option) count_blocks :: "(nat \<Rightarrow> block option) \<Rightarrow> nat \<Rightarrow> nat \<Rightarrow> nat option" where
  "count_blocks st b n =
     (if b = 0 then Some n
      else case st b of
             None \<Rightarrow> None
           | Some blk \<Rightarrow> count_blocks st (b_next blk) (u32_add n 1))"

definition kheap_blocks :: "kheap \<Rightarrow> nat option" where
  "kheap_blocks h = count_blocks (k_store h) (heap_head h) 0"

definition kheap_size :: "kheap \<Rightarrow> nat" where
  "kheap_size h = u64_sub (heap_end h) (heap_start h) mod 2 ^ 32"

end
