(* ===== verification/Kheap_Lists.thy ===== *)
theory Kheap_Lists
  imports Kheap
begin

text \<open>
  The abstract heap: the list of blocks in address order, each with its address, the
  size of its user area and whether it is in use.  First-fit allocation and release
  with full coalescing are defined on these lists; \<open>Kheap_Correct\<close> shows that the
  pointer manipulations of \<open>src/kheap.c\<close> implement them.
\<close>

type_synonym ablock = "nat \<times> nat \<times> bool"

section \<open>Specification\<close>

text \<open>The blocks tile the region from \<open>a\<close> to \<open>e\<close> without gap or overlap.\<close>

fun tiles :: "nat \<Rightarrow> ablock list \<Rightarrow> nat \<Rightarrow> bool" where
  "tiles a [] e \<longleftrightarrow> a = e"
| "tiles a ((b, n, u) # bs) e \<longleftrightarrow> b = a \<and> tiles (a + HEADER_SIZE + n) bs e"

text \<open>No two neighbouring blocks are both free.\<close>

fun no_adj :: "ablock list \<Rightarrow> bool" where
  "no_adj ((a, n, u) # (b, m, w) # bs) \<longleftrightarrow> (u \<or> w) \<and> no_adj ((b, m, w) # bs)"
| "no_adj _ \<longleftrightarrow> True"

text \<open>The user areas in use: pointer handed out and length.\<close>

definition live :: "ablock list \<Rightarrow> (nat \<times> nat) set" where
  "live bs = {(a + HEADER_SIZE, n) | a n. (a, n, True) \<in> set bs}"

fun alloc_list :: "nat \<Rightarrow> ablock list \<Rightarrow> (nat \<times> ablock list) option" where
  "alloc_list sz [] = None"
| "alloc_list sz ((a, n, u) # bs) =
     (if u \<or> n < sz then map_option (\<lambda>(p, bs'). (p, (a, n, u) # bs')) (alloc_list sz bs)
      else if n \<ge> sz + HEADER_SIZE + 8
      then Some (a + HEADER_SIZE, (a, sz, True) # (a + HEADER_SIZE + sz, n - sz - HEADER_SIZE, False) # bs)
      else Some (a + HEADER_SIZE, (a, n, True) # bs))"

fun coalesce :: "ablock list \<Rightarrow> ablock list" where
  "coalesce [] = []"
| "coalesce [x] = [x]"
| "coalesce ((a, n, u) # (b, m, w) # bs) =
     (if \<not> u \<and> \<not> w then coalesce ((a, n + HEADER_SIZE + m, False) # bs)
      else (a, n, u) # coalesce ((b, m, w) # bs))"

definition release_list :: "nat \<Rightarrow> ablock list \<Rightarrow> ablock list" where
  "release_list x bs = coalesce (map (\<lambda>(a, n, u). (a, n, u \<and> a \<noteq> x)) bs)"

definition extend_list :: "nat \<Rightarrow> nat \<Rightarrow> ablock list \<Rightarrow> ablock list" where
  "extend_list e added bs = coalesce (bs @ [(e, added - HEADER_SIZE, False)])"

section \<open>Tiling\<close>

lemma tiles_append: "tiles a (bs @ cs) e \<longleftrightarrow> (\<exists>m. tiles a bs m \<and> tiles m cs e)"
  by (induction a bs e rule: tiles.induct) auto

lemma tiles_le: "tiles a bs e \<Longrightarrow> a \<le> e"
  by (induction a bs e rule: tiles.induct) auto

lemma tiles_mem: "tiles a bs e \<Longrightarrow> (x, n, u) \<in> set bs \<Longrightarrow> a \<le> x \<and> x + HEADER_SIZE + n \<le> e"
proof (induction a bs e rule: tiles.induct)
  case (2 a b n u bs e)
  then show ?case using tiles_le [of "a + HEADER_SIZE + n" bs e] by fastforce
qed simp

text \<open>Two different blocks do not overlap, headers included.\<close>

lemma tiles_disjoint:
  "tiles a bs e \<Longrightarrow> (x, n, u) \<in> set bs \<Longrightarrow> (y, m, w) \<in> set bs \<Longrightarrow>
     (x, n, u) = (y, m, w) \<or> x + HEADER_SIZE + n \<le> y \<or> y + HEADER_SIZE + m \<le> x"
proof (induction a bs e rule: tiles.induct)
  case (2 a b k v bs e)
  then show ?case using tiles_mem [of "a + HEADER_SIZE + k" bs e] by fastforce
qed simp

lemma tiles_map_flag: "tiles a (map (\<lambda>(a, n, u). (a, n, f a n u)) bs) e = tiles a bs e"
  by (induction a bs e rule: tiles.induct) auto

lemma tiles_coalesce: "tiles a bs e \<Longrightarrow> tiles a (coalesce bs) e"
proof (induction bs arbitrary: a rule: coalesce.induct)
  case (3 b n u c m w bs)
  then show ?case by (auto simp: ac_simps)
qed auto

section \<open>Allocation\<close>

lemma live_Cons [simp]:
  "live ((a, n, u) # bs) = (if u then insert (a + HEADER_SIZE, n) (live bs) else live bs)"
  by (auto simp: live_def)

lemma live_Nil [simp]: "live [] = {}"
  by (simp add: live_def)

lemma live_append: "live (bs @ cs) = live bs \<union> live cs"
  by (auto simp: live_def)

lemma alloc_list_None: "alloc_list sz bs = None \<longleftrightarrow> (\<forall>(a, n, u) \<in> set bs. u \<or> n < sz)"
  by (induction sz bs rule: alloc_list.induct) auto

lemma alloc_list_tiles: "alloc_list sz bs = Some (p, bs') \<Longrightarrow> tiles a bs e \<Longrightarrow> tiles a bs' e"
proof (induction sz bs arbitrary: a p bs' rule: alloc_list.induct)
  case (2 sz b n u bs)
  then show ?case by (auto simp: ac_simps split: if_splits)
qed simp

lemma alloc_list_live:
  assumes "alloc_list sz bs = Some (p, bs')"
  shows "\<exists>m. sz \<le> m \<and> m < sz + HEADER_SIZE + 8 \<and> live bs' = insert (p, m) (live bs) \<and>
    (\<exists>a n. (a, n, False) \<in> set bs \<and> m \<le> n \<and> p = a + HEADER_SIZE)"
  using assms
proof (induction sz bs arbitrary: p bs' rule: alloc_list.induct)
  case (2 sz a n u bs)
  show ?case
  proof (cases "u \<or> n < sz")
    case True
    then obtain bs1 where rec: "alloc_list sz bs = Some (p, bs1)" "bs' = (a, n, u) # bs1"
      using "2.prems" by auto
    then obtain m b k where "sz \<le> m" "m < sz + HEADER_SIZE + 8" "live bs1 = insert (p, m) (live bs)"
      "(b, k, False) \<in> set bs" "m \<le> k" "p = b + HEADER_SIZE"
      using "2.IH" [OF True] by blast
    then show ?thesis using rec(2) by (intro exI [of _ m]) auto
  next
    case False
    then consider "n \<ge> sz + HEADER_SIZE + 8" "p = a + HEADER_SIZE"
        "live bs' = insert (p, sz) (live ((a, n, u) # bs))"
      | "n < sz + HEADER_SIZE + 8" "p = a + HEADER_SIZE"
        "live bs' = insert (p, n) (live ((a, n, u) # bs))"
      using "2.prems" by (auto split: if_splits)
    then show ?thesis
    proof cases
      case 1
      then show ?thesis using False by (intro exI [of _ sz]) auto
    next
      case 2
      then show ?thesis using False by (intro exI [of _ n]) auto
    qed
  qed
qed simp

lemma no_adj_Cons: "no_adj ((a, n, u) # bs) \<longleftrightarrow> no_adj bs \<and> (u \<or> bs = [] \<or> (\<exists>b m bs'. bs = (b, m, True) # bs'))"
  by (cases bs) auto

lemma alloc_list_no_adj: "alloc_list sz bs = Some (p, bs') \<Longrightarrow> no_adj bs \<Longrightarrow> no_adj bs'"
proof (induction sz bs arbitrary: p bs' rule: alloc_list.induct)
  case (2 sz a n u bs)
  show ?case
  proof (cases "u \<or> n < sz")
    case True
    then obtain bs1 where rec: "alloc_list sz bs = Some (p, bs1)" "bs' = (a, n, u) # bs1"
      using "2.prems" by auto
    moreover have "no_adj bs1"
      using "2.IH" [OF True rec(1)] "2.prems"(2) by (simp add: no_adj_Cons)
    moreover have "\<exists>b m cs. bs1 = (b, m, True) # cs" if "bs = (b, m, True) # cs" for b m cs
      using rec(1) that by auto
    ultimately show ?thesis
      using "2.prems"(2) by (auto simp: no_adj_Cons)
  next
    case False
    then show ?thesis using "2.prems" by (auto simp: no_adj_Cons split: if_splits)
  qed
qed simp

lemma alloc_list_aligned:
  "alloc_list sz bs = Some (p, bs') \<Longrightarrow> 8 dvd sz \<Longrightarrow> (\<forall>(a, n, u) \<in> set bs. 8 dvd n) \<Longrightarrow>
     (\<forall>(a, n, u) \<in> set bs'. 8 dvd n)"
proof (induction sz bs arbitrary: p bs' rule: alloc_list.induct)
  case (2 sz a n u bs)
  show ?case
  proof (cases "u \<or> n < sz")
    case True
    then show ?thesis using "2.prems" "2.IH" [OF True] by auto
  next
    case False
    then show ?thesis using "2.prems" by (auto split: if_splits)
  qed
qed simp

section \<open>Release and coalescing\<close>

lemma live_coalesce: "live (coalesce bs) = live bs"
  by (induction bs rule: coalesce.induct) auto

lemma coalesce_head: "\<exists>n' bs'. coalesce ((a, n, u) # bs) = (a, n', u) # bs'"
proof (induction "(a, n, u) # bs" arbitrary: n bs rule: coalesce.induct)
  case (3 n b m w bs)
  then show ?case by (cases "\<not> u \<and> \<not> w") auto
qed simp

lemma coalesce_eq_Nil [simp]: "coalesce bs = [] \<longleftrightarrow> bs = []"
  using coalesce_head by (cases bs) (auto, metis list.distinct(1))

lemma no_adj_coalesce: "no_adj (coalesce bs)"
proof (induction bs rule: coalesce.induct)
  case (3 a n u b m w bs)
  show ?case
  proof (cases "\<not> u \<and> \<not> w")
    case False
    with 3 show ?thesis
      using coalesce_head [of b m w bs] by (auto simp: no_adj_Cons)
  qed (use 3 in simp)
qed auto

lemma coalesce_aligned:
  "(\<forall>(a, n, u) \<in> set bs. 8 dvd n) \<Longrightarrow> (\<forall>(a, n, u) \<in> set (coalesce bs). 8 dvd n)"
proof (induction bs rule: coalesce.induct)
  case (3 a n u b m w bs)
  show ?case
  proof (cases "\<not> u \<and> \<not> w")
    case True
    have "8 dvd n + HEADER_SIZE + m" using "3.prems" by (auto intro!: dvd_add)
    with 3 True show ?thesis by simp
  qed (use 3 in simp)
qed auto

lemma coalesce_no_adj: "no_adj bs \<Longrightarrow> coalesce bs = bs"
  by (induction bs rule: coalesce.induct) auto

lemma coalesce_prefix:
  "no_adj bs \<Longrightarrow> bs = [] \<or> snd (snd (last bs)) \<Longrightarrow> coalesce (bs @ cs) = bs @ coalesce cs"
proof (induction bs rule: coalesce.induct)
  case (2 x)
  then show ?case by (cases x; cases cs) auto
qed auto

end
