(* ===== verification/Kheap_Correct.thy ===== *)
theory Kheap_Correct
  imports Kheap_Lists
begin

text \<open>
  Correctness of the kernel heap: the linked list in memory represents a list of
  blocks (\<open>block_path\<close>), and \<open>find_fit\<close>, \<open>kheap_grow\<close>, \<open>kmalloc\<close> and \<open>kfree\<close> implement the
  list operations of \<open>Kheap_Lists\<close> on it.
\<close>

section \<open>Linked lists in the store\<close>

fun block_path :: "(nat \<Rightarrow> block option) \<Rightarrow> nat \<Rightarrow> ablock list \<Rightarrow> nat \<Rightarrow> bool" where
  "block_path st p [] q \<longleftrightarrow> p = q"
| "block_path st p ((a, n, u) # bs) q \<longleftrightarrow>
     p = a \<and> a \<noteq> 0 \<and> (\<exists>nx. st a = Some \<lparr>b_size = n, b_used = u, b_next = nx\<rparr> \<and> block_path st nx bs q)"

lemma block_path_append: "block_path st p (bs @ cs) q \<longleftrightarrow> (\<exists>r. block_path st p bs r \<and> block_path st r cs q)"
  by (induction st p bs q rule: block_path.induct) auto

lemma block_path_upd: "(\<And>a n u. (a, n, u) \<in> set bs \<Longrightarrow> st' a = st a) \<Longrightarrow> block_path st' p bs q = block_path st p bs q"
proof (induction st p bs q rule: block_path.induct)
  case (2 st p a n u bs q)
  have "block_path st' nx bs q = block_path st nx bs q" for nx
    using 2 by (cases "st a") fastforce+
  moreover have "st' a = st a" using "2.prems" [of a n u] by simp
  ultimately show ?case by simp
qed simp

lemma block_path_fun_upd:
  "block_path st p bs q \<Longrightarrow> (\<And>a n u. (a, n, u) \<in> set bs \<Longrightarrow> a \<noteq> x) \<Longrightarrow> block_path (st(x := v)) p bs q"
  by (subst block_path_upd) auto

text \<open>The state invariant.\<close>

definition heap_ok :: "kheap \<Rightarrow> ablock list \<Rightarrow> bool" where
  "heap_ok h bs \<longleftrightarrow>
     bs \<noteq> [] \<and> block_path (k_store h) (heap_head h) bs 0 \<and> tiles (heap_start h) bs (heap_end h) \<and>
     no_adj bs \<and> (\<forall>(a, n, u) \<in> set bs. 8 dvd n) \<and>
     0 < heap_start h \<and> 8 dvd heap_start h \<and> heap_end h \<le> heap_limit h \<and>
     heap_limit h < heap_start h + 2 ^ 32 \<and> heap_limit h < 2 ^ 64"

lemma heap_ok_vmm [simp]: "heap_ok (h\<lparr>k_vmm := vm\<rparr>) bs = heap_ok h bs"
  by (simp add: heap_ok_def)

section \<open>First fit\<close>

lemma find_fit_from_simp:
  "find_fit_from st 0 sz = Some (0, st)"
  "b \<noteq> 0 \<Longrightarrow> st b = Some blk \<Longrightarrow> b_used blk \<or> b_size blk < sz \<Longrightarrow>
     find_fit_from st b sz = find_fit_from st (b_next blk) sz"
  by (simp_all add: find_fit_from.simps)

lemma find_fit_from_correct:
  assumes "block_path st b bs 0" and "tiles a bs e" and "e < a + 2 ^ 32" and "sz + 24 < 2 ^ 32"
  shows "case alloc_list sz bs of
      None \<Rightarrow> find_fit_from st b sz = Some (0, st)
    | Some (p, bs') \<Rightarrow> \<exists>st'. find_fit_from st b sz = Some (p, st') \<and> block_path st' b bs' 0 \<and>
        (\<forall>x < a. st' x = st x)"
  using assms(1-3)
proof (induction bs arbitrary: a b)
  case Nil
  then show ?case by (simp add: find_fit_from_simp)
next
  case (Cons x bs)
  obtain y n u where x: "x = (y, n, u)" by (cases x)
  have y: "y = a" "b = a" "a \<noteq> 0" and til: "tiles (a + HEADER_SIZE + n) bs e"
    using Cons.prems x by auto
  obtain nx where st: "st a = Some \<lparr>b_size = n, b_used = u, b_next = nx\<rparr>"
    and ch: "block_path st nx bs 0"
    using Cons.prems(1) x y by auto
  have n: "n < 2 ^ 32" using tiles_le [OF til] Cons.prems(3) by simp
  have tail: "a + HEADER_SIZE + n \<le> z" if "(z, k, w) \<in> set bs" for z k w
    using tiles_mem [OF til that] by simp
  show ?case
  proof (cases "u \<or> n < sz")
    case True
    have "e < a + HEADER_SIZE + n + 2 ^ 32" using Cons.prems(3) by simp
    note IH = Cons.IH [OF ch til this]
    have step: "find_fit_from st b sz = find_fit_from st nx sz"
      using st y True by (simp add: find_fit_from_simp)
    show ?thesis
    proof (cases "alloc_list sz bs")
      case None
      then show ?thesis using IH step x True by simp
    next
      case (Some r)
      obtain p bs' where r: "r = (p, bs')" by (cases r)
      then obtain st' where st': "find_fit_from st nx sz = Some (p, st')" "block_path st' nx bs' 0"
        "\<forall>x < a + HEADER_SIZE + n. st' x = st x"
        using IH Some by auto
      then show ?thesis using step x y True Some r st by auto
    qed
  next
    case False
    show ?thesis
    proof (cases "n \<ge> sz + HEADER_SIZE + 8")
      case split: True
      let ?rest = "a + HEADER_SIZE + sz"
      let ?r = "\<lparr>b_size = n - sz - HEADER_SIZE, b_used = False, b_next = nx\<rparr>"
      let ?st = "(st(?rest \<mapsto> ?r))(a \<mapsto> \<lparr>b_size = sz, b_used = True, b_next = ?rest\<rparr>)"
      have "find_fit_from st b sz = Some (a + HEADER_SIZE, ?st)"
        using st y False split n assms(4)
        by (simp add: find_fit_from.simps [of st a] no_wrap Let_def)
      moreover have "block_path ?st nx bs 0 = block_path st nx bs 0"
        by (rule block_path_upd) (use tail split in fastforce)
      ultimately show ?thesis
        using x y False split ch by auto
    next
      case whole: False
      let ?st = "st(a \<mapsto> \<lparr>b_size = n, b_used = True, b_next = nx\<rparr>)"
      have "find_fit_from st b sz = Some (a + HEADER_SIZE, ?st)"
        using st y False whole assms(4)
        by (simp add: find_fit_from.simps [of st a] no_wrap)
      moreover have "block_path ?st nx bs 0 = block_path st nx bs 0"
        by (rule block_path_upd) (use tail in fastforce)
      ultimately show ?thesis
        using x y False whole ch by auto
    qed
  qed
qed

section \<open>Growing\<close>

lemma last_block_from_correct:
  "block_path st p bs 0 \<Longrightarrow> bs \<noteq> [] \<Longrightarrow> last_block_from st p = Some (fst (last bs))"
proof (induction bs arbitrary: p)
  case (Cons x bs)
  obtain a n u where x: "x = (a, n, u)" by (cases x)
  then obtain nx where st: "p = a" "a \<noteq> 0" "st a = Some \<lparr>b_size = n, b_used = u, b_next = nx\<rparr>"
    and ch: "block_path st nx bs 0"
    using Cons.prems by auto
  show ?case
  proof (cases bs)
    case Nil
    then show ?thesis using st ch x by (simp add: last_block_from.simps)
  next
    case (Cons y cs)
    then have "nx \<noteq> 0" using ch by (cases y) auto
    then show ?thesis
      using st x Cons Cons.IH [OF ch] by (simp add: last_block_from.simps [of st a])
  qed
qed simp

lemma block_path_last:
  assumes "block_path st p (bs @ [(a, n, u)]) 0"
  shows "block_path st p bs a" "a \<noteq> 0" "st a = Some \<lparr>b_size = n, b_used = u, b_next = 0\<rparr>"
  using assms by (auto simp: block_path_append)

text \<open>A block list ends either in a free block, which is extended, or in a used one.\<close>

lemma extend_list_free:
  assumes "no_adj (bs @ [(a, n, False)])" and "HEADER_SIZE \<le> added"
  shows "extend_list e added (bs @ [(a, n, False)]) = bs @ [(a, n + added, False)]"
proof -
  have "no_adj bs \<and> (bs = [] \<or> snd (snd (last bs)))"
    using assms(1) by (induction bs rule: no_adj.induct) auto
  then have "coalesce (bs @ [(a, n, False), (e, added - HEADER_SIZE, False)]) =
    bs @ coalesce [(a, n, False), (e, added - HEADER_SIZE, False)]"
    by (intro coalesce_prefix) auto
  then show ?thesis using assms(2) by (simp add: extend_list_def)
qed

lemma extend_list_used:
  assumes "no_adj (bs @ [(a, n, True)])"
  shows "extend_list e added (bs @ [(a, n, True)]) = bs @ [(a, n, True), (e, added - HEADER_SIZE, False)]"
  using coalesce_prefix [OF assms, of "[(e, added - HEADER_SIZE, False)]"] by (simp add: extend_list_def)

lemma grow_pages_bound:
  assumes "heap_ok h bs"
  shows "heap_end h + grow_pages h m * 4096 \<le> heap_limit h"
proof -
  define room where "room = (heap_limit h - heap_end h) div 4096"
  have "heap_start h \<le> heap_end h" using assms tiles_le by (auto simp: heap_ok_def)
  then have "room < 2 ^ 32" using assms by (auto simp: room_def heap_ok_def)
  then have "grow_pages h m \<le> room" by (simp add: grow_pages_def Let_def room_def)
  then have "grow_pages h m * 4096 \<le> room * 4096" by simp
  also have "\<dots> \<le> heap_limit h - heap_end h" by (simp add: room_def)
  finally show ?thesis using assms by (auto simp: heap_ok_def)
qed

lemma extend_list_tiles:
  "tiles a bs e \<Longrightarrow> HEADER_SIZE \<le> added \<Longrightarrow> tiles a (extend_list e added bs) (e + added)"
  by (auto simp: extend_list_def tiles_append intro!: tiles_coalesce)

lemma extend_list_facts:
  "no_adj (extend_list e added bs)" "live (extend_list e added bs) = live bs"
  "extend_list e added bs \<noteq> []"
  "(\<forall>(a, n, u) \<in> set bs. 8 dvd n) \<Longrightarrow> 8 dvd added \<Longrightarrow>
     (\<forall>(a, n, u) \<in> set (extend_list e added bs). 8 dvd n)"
proof -
  show "extend_list e added bs \<noteq> []" by (simp add: extend_list_def)
  show "(\<forall>(a, n, u) \<in> set bs. 8 dvd n) \<Longrightarrow> 8 dvd added \<Longrightarrow>
     (\<forall>(a, n, u) \<in> set (extend_list e added bs). 8 dvd n)"
    unfolding extend_list_def by (rule coalesce_aligned) (auto intro: dvd_diff_nat)
qed (simp_all add: extend_list_def no_adj_coalesce live_coalesce live_append)

lemma extend_store:
  assumes "heap_ok h bs" and "HEADER_SIZE \<le> added" and "added < 2 ^ 32"
    and "heap_end h + added \<le> heap_limit h"
    and "bs = cs @ [(t, n, u)]" and "k_store h t = Some blk"
  defines "nb \<equiv> \<lparr>b_size = u32_sub added HEADER_SIZE, b_used = False, b_next = 0\<rparr>"
  shows "block_path (if \<not> u then (k_store h)(t \<mapsto> blk\<lparr>b_size := u32_add (b_size blk) added\<rparr>)
      else ((k_store h)(heap_end h \<mapsto> nb))(t \<mapsto> blk\<lparr>b_next := heap_end h\<rparr>))
      (heap_head h) (extend_list (heap_end h) added bs) 0"
proof -
  have ch: "block_path (k_store h) (heap_head h) (cs @ [(t, n, u)]) 0" and nadj: "no_adj (cs @ [(t, n, u)])"
    and til: "tiles (heap_start h) (cs @ [(t, n, u)]) (heap_end h)"
    using assms(1,5) by (auto simp: heap_ok_def)
  note P = block_path_last [OF ch]
  have blk: "blk = \<lparr>b_size = n, b_used = u, b_next = 0\<rparr>" using P(3) assms(6) by simp
  have below: "z + HEADER_SIZE \<le> t" if "(z, k, w) \<in> set cs" for z k w
    using til that tiles_mem [of "heap_start h" cs] by (fastforce simp: tiles_append)
  have t: "t + HEADER_SIZE + n \<le> heap_end h" "heap_start h \<le> t"
    using tiles_mem [OF til, of t n u] by simp_all
  have "n + added < 2 ^ 32"
    using t assms(1,4) by (auto simp: heap_ok_def)
  then have sz: "u32_add n added = n + added" by (simp add: no_wrap)
  show ?thesis
  proof (cases u)
    case False
    have "block_path ((k_store h)(t \<mapsto> blk\<lparr>b_size := n + added\<rparr>)) (heap_head h) cs t"
      using P(1) by (rule block_path_fun_upd) (use below in fastforce)
    then show ?thesis
      using False blk sz extend_list_free [of cs t n added "heap_end h"] nadj assms(2,5) P(2)
      by (auto simp: block_path_append)
  next
    case True
    have "block_path (((k_store h)(heap_end h \<mapsto> nb))(t \<mapsto> blk\<lparr>b_next := heap_end h\<rparr>)) (heap_head h) cs t"
      by (intro block_path_fun_upd P(1)) (use below t in fastforce)+
    moreover have "u32_sub added HEADER_SIZE = added - HEADER_SIZE"
      using assms(2,3) by (simp add: no_wrap)
    ultimately show ?thesis
      using True blk t extend_list_used [of cs t n "heap_end h" added] nadj assms(5) P(2)
      by (auto simp: block_path_append nb_def)
  qed
qed

lemma kheap_grow_correct:
  assumes ok: "heap_ok h bs"
  shows "\<exists>added h'. kheap_grow h m = Some (added, h') \<and>
    (if added = 0 then heap_ok h' bs \<and> k_store h' = k_store h \<and> heap_end h' = heap_end h
     else HEADER_SIZE \<le> added \<and> heap_end h' = heap_end h + added \<and> 8 dvd added \<and>
       heap_ok h' (extend_list (heap_end h) added bs)) \<and> heap_start h' = heap_start h"
proof -
  define needed where "needed = grow_pages h m"
  define added where "added = u32_mul needed 4096"
  obtain good vm where vm: "map_region (k_vmm h) (heap_end h) needed = (good, vm)"
    by (cases "map_region (k_vmm h) (heap_end h) needed")
  have "block_path (k_store h) (heap_head h) bs 0" "bs \<noteq> []" using ok by (auto simp: heap_ok_def)
  then have head: "heap_head h \<noteq> 0" by (cases bs) auto
  show ?thesis
  proof (cases "heap_end h \<ge> heap_limit h \<or> needed = 0 \<or> \<not> good")
    case True
    then have "kheap_grow h m = Some (0, h) \<or> kheap_grow h m = Some (0, h\<lparr>k_vmm := vm\<rparr>)"
      using head vm
      by (elim disjE) (simp_all add: kheap_grow_def needed_def [symmetric] Let_def)
    then show ?thesis using ok by (elim disjE) simp_all
  next
    case False
    have bound: "heap_end h + needed * 4096 \<le> heap_limit h"
      using grow_pages_bound [OF ok] by (simp add: needed_def)
    moreover have "heap_start h \<le> heap_end h" using ok tiles_le by (auto simp: heap_ok_def)
    ultimately have "needed * 4096 < 2 ^ 32" using ok by (auto simp: heap_ok_def)
    then have added: "added = needed * 4096" by (simp add: added_def no_wrap)
    have end': "u64_add (heap_end h) added = heap_end h + added"
      using bound ok added by (intro u64_add_small) (auto simp: heap_ok_def)
    obtain cs t n u where bs: "bs = cs @ [(t, n, u)]"
      using ok by (metis heap_ok_def append_butlast_last_id prod_cases3)
    then have "block_path (k_store h) (heap_head h) (cs @ [(t, n, u)]) 0" using ok by (simp add: heap_ok_def)
    note P = block_path_last [OF this]
    have "last_block_from (k_store h) (heap_head h) = Some t"
      using last_block_from_correct [of "k_store h" "heap_head h" bs] ok bs by (simp add: heap_ok_def)
    then have "\<exists>h'. kheap_grow h m = Some (added, h') \<and> heap_end h' = heap_end h + added \<and>
      heap_start h' = heap_start h \<and> heap_limit h' = heap_limit h \<and> heap_head h' = heap_head h \<and>
      k_store h' = (if \<not> u then (k_store h)(t \<mapsto> \<lparr>b_size = u32_add n added, b_used = u, b_next = 0\<rparr>)
        else ((k_store h)(heap_end h \<mapsto> \<lparr>b_size = u32_sub added HEADER_SIZE, b_used = False, b_next = 0\<rparr>))
          (t \<mapsto> \<lparr>b_size = n, b_used = u, b_next = heap_end h\<rparr>))"
      using False head vm P end'
      by (simp add: kheap_grow_def needed_def [symmetric] added_def [symmetric] Let_def last_block_def)
    then obtain h' where h': "kheap_grow h m = Some (added, h')" "heap_end h' = heap_end h + added"
      "heap_start h' = heap_start h" "heap_limit h' = heap_limit h" "heap_head h' = heap_head h"
      "k_store h' = (if \<not> u then (k_store h)(t \<mapsto> \<lparr>b_size = u32_add n added, b_used = u, b_next = 0\<rparr>)
        else ((k_store h)(heap_end h \<mapsto> \<lparr>b_size = u32_sub added HEADER_SIZE, b_used = False, b_next = 0\<rparr>))
          (t \<mapsto> \<lparr>b_size = n, b_used = u, b_next = heap_end h\<rparr>))"
      by blast
    have "HEADER_SIZE \<le> added" "8 dvd added" "added < 2 ^ 32"
      using False added \<open>needed * 4096 < 2 ^ 32\<close> by auto
    moreover from this have "block_path (k_store h') (heap_head h') (extend_list (heap_end h) added bs) 0"
      using extend_store [OF ok _ _ _ bs P(3), of added] bound added h'(5,6) by (simp split: if_splits)
    ultimately have "heap_ok h' (extend_list (heap_end h) added bs)"
      using ok h'(2-4) bound added extend_list_facts [where e = "heap_end h" and added = added and bs = bs]
        extend_list_tiles [of "heap_start h" bs "heap_end h" added]
      by (auto simp: heap_ok_def)
    then show ?thesis using h' \<open>HEADER_SIZE \<le> added\<close> \<open>8 dvd added\<close> by auto
  qed
qed

section \<open>Allocation\<close>

lemma heap_ok_store:
  assumes "heap_ok h bs" and "block_path st (heap_head h) bs' 0" and "tiles (heap_start h) bs' (heap_end h)"
    and "no_adj bs'" and "\<forall>(a, n, u) \<in> set bs'. 8 dvd n" and "bs' \<noteq> []"
  shows "heap_ok (h\<lparr>k_store := st\<rparr>) bs'"
  using assms by (simp add: heap_ok_def)

lemma find_fit_correct:
  assumes ok: "heap_ok h bs" and sz: "sz + 24 < 2 ^ 32" "8 dvd sz"
  shows "case alloc_list sz bs of
      None \<Rightarrow> find_fit h sz = Some (0, h)
    | Some (p, bs') \<Rightarrow> \<exists>h'. find_fit h sz = Some (p, h') \<and> heap_ok h' bs' \<and> p \<noteq> 0 \<and>
        heap_start h' = heap_start h \<and> heap_end h' = heap_end h"
proof -
  have ch: "block_path (k_store h) (heap_head h) bs 0" and til: "tiles (heap_start h) bs (heap_end h)"
    and lim: "heap_end h < heap_start h + 2 ^ 32"
    using ok by (auto simp: heap_ok_def)
  note F = find_fit_from_correct [OF ch til lim sz(1)]
  show ?thesis
  proof (cases "alloc_list sz bs")
    case None
    then show ?thesis using F by (simp add: find_fit_def)
  next
    case (Some r)
    obtain p bs' where r: "r = (p, bs')" by (cases r)
    then obtain st' where st': "find_fit_from (k_store h) (heap_head h) sz = Some (p, st')"
      "block_path st' (heap_head h) bs' 0"
      using F Some by auto
    have a: "alloc_list sz bs = Some (p, bs')" using Some r by simp
    have "heap_ok (h\<lparr>k_store := st'\<rparr>) bs'"
      using ok st'(2) alloc_list_tiles [OF a til] alloc_list_no_adj [OF a] alloc_list_aligned [OF a sz(2)]
        alloc_list_live [OF a] by (intro heap_ok_store [OF ok]) (auto simp: heap_ok_def)
    moreover have "p \<noteq> 0" using alloc_list_live [OF a] by auto
    ultimately show ?thesis using Some r st'(1) by (simp add: find_fit_def)
  qed
qed

lemma ALIGN8_small: "n + 7 < 2 ^ 32 \<Longrightarrow> n \<le> ALIGN8 n \<and> ALIGN8 n < n + 8 \<and> 8 dvd ALIGN8 n"
  by (simp add: ALIGN8_def no_wrap) linarith

text \<open>A pointer that is handed out: aligned, inside the heap, clear of every other user area.\<close>

definition fresh_area :: "kheap \<Rightarrow> ablock list \<Rightarrow> nat \<Rightarrow> nat \<Rightarrow> bool" where
  "fresh_area h bs p m \<longleftrightarrow>
     8 dvd p \<and> heap_start h + HEADER_SIZE \<le> p \<and> p + m \<le> heap_end h \<and>
     (\<forall>(q, k) \<in> live bs. p + m + HEADER_SIZE \<le> q \<or> q + k + HEADER_SIZE \<le> p)"

lemma heap_ok_aligned:
  assumes "heap_ok h bs" and "(a, n, u) \<in> set bs"
  shows "8 dvd a"
proof -
  have "tiles s bs e \<Longrightarrow> 8 dvd s \<Longrightarrow> (\<forall>(a, n, u) \<in> set bs. 8 dvd n) \<Longrightarrow> 8 dvd a" for s e
    using assms(2)
  proof (induction s bs e rule: tiles.induct)
    case (2 s b k w bs e)
    have "8 dvd s + HEADER_SIZE + k" using "2.prems" by (auto intro!: dvd_add)
    with 2 show ?case by auto
  qed simp
  then show ?thesis using assms(1) by (auto simp: heap_ok_def)
qed

lemma alloc_fresh_area:
  assumes ok: "heap_ok h bs" and a: "alloc_list sz bs = Some (p, bs')"
    and m: "live bs' = insert (p, m) (live bs)" "(b, n, False) \<in> set bs" "m \<le> n" "p = b + HEADER_SIZE"
  shows "fresh_area h bs p m"
proof -
  have til: "tiles (heap_start h) bs (heap_end h)" using ok by (simp add: heap_ok_def)
  have "p + m + HEADER_SIZE \<le> q \<or> q + k + HEADER_SIZE \<le> p" if mem: "(q, k) \<in> live bs" for q k
  proof -
    obtain c where c: "(c, k, True) \<in> set bs" "q = c + HEADER_SIZE" using mem by (auto simp: live_def)
    then show ?thesis using tiles_disjoint [OF til m(2) c(1)] m(3,4) by auto
  qed
  moreover have "8 dvd p" using heap_ok_aligned [OF ok m(2)] m(4) by (auto intro!: dvd_add)
  ultimately show ?thesis
    using tiles_mem [OF til m(2)] m(3,4) by (auto simp: fresh_area_def)
qed

lemma kmalloc_fit:
  assumes ok: "heap_ok h bs" and sz: "sz + 24 < 2 ^ 32" "8 dvd sz"
    and fit: "find_fit h sz = Some (p, h')" "p \<noteq> 0"
  shows "\<exists>bs' m. heap_ok h' bs' \<and> live bs' = insert (p, m) (live bs) \<and> sz \<le> m \<and>
     m < sz + HEADER_SIZE + 8 \<and> fresh_area h bs p m \<and>
     heap_start h' = heap_start h \<and> heap_end h' = heap_end h"
proof (cases "alloc_list sz bs")
  case None
  then show ?thesis using find_fit_correct [OF ok sz] fit by simp
next
  case (Some r)
  obtain q bs' where r: "r = (q, bs')" by (cases r)
  then have h': "q = p" "heap_ok h' bs'" "heap_start h' = heap_start h" "heap_end h' = heap_end h"
    using find_fit_correct [OF ok sz] fit Some by auto
  then have a: "alloc_list sz bs = Some (p, bs')" using Some r by simp
  obtain m b n where "sz \<le> m" "m < sz + HEADER_SIZE + 8" "live bs' = insert (p, m) (live bs)"
    "(b, n, False) \<in> set bs" "m \<le> n" "p = b + HEADER_SIZE"
    using alloc_list_live [OF a] by blast
  then show ?thesis using h' alloc_fresh_area [OF ok a] by blast
qed

lemma kmalloc_correct:
  assumes ok: "heap_ok h bs" and sz: "0 < n" "n + 32 < 2 ^ 32"
  shows "\<exists>p h' bs'. kmalloc h n = Some (p, h') \<and> heap_ok h' bs' \<and> heap_start h' = heap_start h \<and>
    (if p = 0 then live bs' = live bs
     else \<exists>m. n \<le> m \<and> m < n + 32 \<and> live bs' = insert (p, m) (live bs) \<and> fresh_area h' bs p m)"
proof -
  define sz where "sz = ALIGN8 n"
  have s: "n \<le> sz" "sz < n + 8" "8 dvd sz" "sz + 24 < 2 ^ 32"
    using ALIGN8_small [of n] sz by (simp_all add: sz_def)
  have head: "heap_head h \<noteq> 0" using ok by (cases bs) (auto simp: heap_ok_def)
  have fin: ?thesis if k: "kmalloc h n = Some (p, h2)" and f: "find_fit h1 sz = Some (p, h2)" "p \<noteq> 0"
    and ok1: "heap_ok h1 bs1" "live bs1 = live bs" "heap_start h1 = heap_start h" for p h1 h2 bs1
  proof -
    obtain bs2 m where b: "heap_ok h2 bs2" "live bs2 = insert (p, m) (live bs)" "sz \<le> m"
      "m < sz + HEADER_SIZE + 8" "fresh_area h1 bs1 p m"
      "heap_start h2 = heap_start h1" "heap_end h2 = heap_end h1"
      using kmalloc_fit [OF ok1(1) s(4,3) f] ok1(2) by auto
    have "fresh_area h2 bs p m" using b(5-7) ok1(2) by (simp add: fresh_area_def)
    moreover have "n \<le> m" "m < n + 32" using b(3,4) s(1,2) by auto
    ultimately show ?thesis using k f(2) b(1,2,6) ok1(3) by auto
  qed
  have F: "find_fit h sz = Some (0, h) \<or> (\<exists>p h'. find_fit h sz = Some (p, h') \<and> p \<noteq> 0)"
    using find_fit_correct [OF ok s(4,3)] by (auto split: option.splits)
  then show ?thesis
  proof
    assume "\<exists>p h'. find_fit h sz = Some (p, h') \<and> p \<noteq> 0"
    then obtain p h' where f: "find_fit h sz = Some (p, h')" "p \<noteq> 0" by blast
    then have "kmalloc h n = Some (p, h')" using sz head by (simp add: kmalloc_def sz_def)
    then show ?thesis using fin [OF _ f ok] by simp
  next
    assume f: "find_fit h sz = Some (0, h)"
    obtain added h2 where g: "kheap_grow h (u32_add sz HEADER_SIZE) = Some (added, h2)"
      and G: "if added = 0 then heap_ok h2 bs \<and> k_store h2 = k_store h \<and> heap_end h2 = heap_end h
     else HEADER_SIZE \<le> added \<and> heap_end h2 = heap_end h + added \<and> 8 dvd added \<and>
       heap_ok h2 (extend_list (heap_end h) added bs)" "heap_start h2 = heap_start h"
      using kheap_grow_correct [OF ok] by blast
    have k: "kmalloc h n = (if added = 0 then Some (0, h2) else find_fit h2 sz)"
      using sz head f g by (simp add: kmalloc_def sz_def)
    show ?thesis
    proof (cases "added = 0")
      case True
      then show ?thesis using k G by auto
    next
      case False
      then have ok2: "heap_ok h2 (extend_list (heap_end h) added bs)" using G by simp
      obtain p h3 where f2: "find_fit h2 sz = Some (p, h3)" "p = 0 \<Longrightarrow> h3 = h2"
        using find_fit_correct [OF ok2 s(4,3)] by (auto split: option.splits)
      show ?thesis
      proof (cases "p = 0")
        case True
        then show ?thesis using k False f2 ok2 G(2) by (auto simp: extend_list_facts)
      next
        case nz: False
        then show ?thesis using fin [OF _ f2(1) nz ok2] k False f2(1) G(2) by (simp add: extend_list_facts)
      qed
    qed
  qed
qed

section \<open>Release\<close>

text \<open>The backward walk passes over blocks that do not precede \<open>b\<close> or precede it in use.\<close>

lemma absorb_skip:
  assumes "block_path st p bs q" and "\<And>a n u. (a, n, u) \<in> set bs \<Longrightarrow> a \<noteq> b"
    and "q = b \<Longrightarrow> bs \<noteq> [] \<Longrightarrow> snd (snd (last bs))"
  shows "absorb_from st p b blk = absorb_from st q b blk"
  using assms
proof (induction bs arbitrary: p)
  case (Cons x bs)
  obtain a n u where x: "x = (a, n, u)" by (cases x)
  then obtain nx where st: "p = a" "a \<noteq> 0" "st a = Some \<lparr>b_size = n, b_used = u, b_next = nx\<rparr>"
    and ch: "block_path st nx bs q"
    using Cons.prems(1) by auto
  have "nx \<noteq> b \<or> u"
  proof (cases bs)
    case Nil
    then show ?thesis using ch Cons.prems(3) x by simp
  next
    case (Cons y cs)
    then show ?thesis
      using ch Cons.prems(2) [of "fst y" "fst (snd y)" "snd (snd y)"] by (cases y) auto
  qed
  then have "absorb_from st p b blk = absorb_from st nx b blk"
    using st by (auto simp: absorb_from.simps [of st a])
  also have "\<dots> = absorb_from st q b blk"
    using Cons.prems(2,3) by (intro Cons.IH ch) (auto split: if_splits)
  finally show ?case .
qed simp

lemma absorb_last_free:
  assumes "block_path st p (cs @ [(a, n, False)]) b" and "\<And>c k w. (c, k, w) \<in> set cs \<Longrightarrow> c \<noteq> b"
    and "a \<noteq> b" and "\<And>c k w. (c, k, w) \<in> set cs \<Longrightarrow> c \<noteq> a"
  shows "absorb_from st p b blk =
    Some (st(a \<mapsto> \<lparr>b_size = u32_add n (u32_add HEADER_SIZE (b_size blk)), b_used = False,
                   b_next = b_next blk\<rparr>))"
proof -
  obtain nx where "block_path st p cs a" "a \<noteq> 0" "nx = b"
    and st: "st a = Some \<lparr>b_size = n, b_used = False, b_next = nx\<rparr>"
    using assms(1) by (auto simp: block_path_append)
  then have "absorb_from st p b blk = absorb_from st a b blk"
    using assms(2,3) by (intro absorb_skip) auto
  also have "\<dots> = Some (st(a \<mapsto> \<lparr>b_size = u32_add n (u32_add HEADER_SIZE (b_size blk)), b_used = False,
                   b_next = b_next blk\<rparr>))"
    using st \<open>nx = b\<close> \<open>a \<noteq> 0\<close> by (simp add: absorb_from.simps [of st a])
  finally show ?thesis .
qed

text \<open>
  A used block \<open>x\<close> between \<open>pre\<close> and \<open>post\<close>: the list after its release, computed the
  way the code does it, by merging with a free successor and with a free predecessor.
\<close>

definition merge_next :: "nat \<Rightarrow> nat \<Rightarrow> ablock list \<Rightarrow> ablock list" where
  "merge_next x n post = (case post of
     (b, m, False) # post' \<Rightarrow> (x, n + HEADER_SIZE + m, False) # post'
   | _ \<Rightarrow> (x, n, False) # post)"

lemma merge_next_coalesce:
  "no_adj ((x, n, True) # post) \<Longrightarrow> coalesce ((x, n, False) # post) = merge_next x n post"
proof (cases post)
  case (Cons y post')
  obtain b m w where y: "y = (b, m, w)" by (cases y)
  assume "no_adj ((x, n, True) # post)"
  then have "no_adj post'" "no_adj post" "\<not> w \<Longrightarrow> post' = [] \<or> (\<exists>c k cs. post' = (c, k, True) # cs)"
    using Cons y by (auto simp: no_adj_Cons)
  then show ?thesis
    using Cons y by (cases w) (auto simp: merge_next_def coalesce_no_adj no_adj_Cons)
qed (simp add: merge_next_def)

lemma no_adj_append: "no_adj (bs @ cs) \<Longrightarrow> no_adj bs \<and> no_adj cs"
proof (induction bs)
  case (Cons b bs)
  obtain a n u where "b = (a, n, u)" by (cases b)
  then show ?case using Cons by (cases bs) (auto simp: no_adj_Cons)
qed simp

lemma release_list_split:
  assumes "no_adj (pre @ (x, n, True) # post)"
    and "\<And>a k u. (a, k, u) \<in> set (pre @ post) \<Longrightarrow> a \<noteq> x"
  shows "pre = [] \<or> snd (snd (last pre)) \<Longrightarrow>
      release_list x (pre @ (x, n, True) # post) = pre @ merge_next x n post"
    and "pre = cs @ [(a, k, False)] \<Longrightarrow>
      release_list x (pre @ (x, n, True) # post) = cs @ merge_next a (k + HEADER_SIZE + n) post \<and>
      (cs = [] \<or> snd (snd (last cs)))"
proof -
  have same: "map (\<lambda>(a, k, u). (a, k, u \<and> a \<noteq> x)) zs = zs" if "set zs \<subseteq> set (pre @ post)" for zs
    using that assms(2) by (induction zs) fastforce+
  have eq: "release_list x (pre @ (x, n, True) # post) = coalesce (pre @ (x, n, False) # post)"
    by (simp add: release_list_def same)
  have N: "no_adj pre" "no_adj ((x, n, True) # post)" using no_adj_append [OF assms(1)] by simp_all
  show "release_list x (pre @ (x, n, True) # post) = pre @ merge_next x n post"
    if "pre = [] \<or> snd (snd (last pre))"
    using coalesce_prefix [OF N(1) that, of "(x, n, False) # post"] merge_next_coalesce [OF N(2)] eq by simp
  show "release_list x (pre @ (x, n, True) # post) = cs @ merge_next a (k + HEADER_SIZE + n) post \<and>
      (cs = [] \<or> snd (snd (last cs)))" if pre: "pre = cs @ [(a, k, False)]"
  proof -
    have cs: "no_adj cs \<and> (cs = [] \<or> snd (snd (last cs)))"
      using N(1) unfolding pre by (induction cs rule: no_adj.induct) auto
    then have "coalesce (cs @ (a, k, False) # (x, n, False) # post) =
      cs @ coalesce ((a, k, False) # (x, n, False) # post)"
      by (intro coalesce_prefix) auto
    moreover have "no_adj ((a, k + HEADER_SIZE + n, True) # post)" using N(2) by (simp add: no_adj_Cons)
    ultimately show ?thesis
      using merge_next_coalesce [of a "k + HEADER_SIZE + n" post] eq pre cs by simp
  qed
qed

text \<open>The header of \<open>x\<close> after the forward pass.\<close>

lemma merge_next_store:
  assumes "block_path st nx post 0" and "\<And>a k u. (a, k, u) \<in> set post \<Longrightarrow> x + HEADER_SIZE + n \<le> a"
    and "x \<noteq> 0" and "tiles (x + HEADER_SIZE + n) post e" and "e < x + 2 ^ 32"
    and b1: "blk1 = \<lparr>b_size = n, b_used = False, b_next = nx\<rparr>"
  obtains blk2 where "absorb_next st blk1 = Some blk2"
    "\<not> b_used blk2" "x + b_size blk2 + HEADER_SIZE \<le> e"
    "\<exists>post'. block_path st (b_next blk2) post' 0 \<and> set post' \<subseteq> set post \<and>
       (\<forall>y m. merge_next y m post = (y, m + (b_size blk2 - n), False) # post') \<and> n \<le> b_size blk2"
proof (cases post)
  case Nil
  then have "nx = 0" using assms(1) by simp
  then show ?thesis
    using that [of blk1] Nil assms(1,4) b1 by (auto simp: merge_next_def absorb_next_def)
next
  case (Cons y post')
  obtain b m w where y: "y = (b, m, w)" by (cases y)
  then obtain nx2 where st: "nx = b" "b \<noteq> 0" "st b = Some \<lparr>b_size = m, b_used = w, b_next = nx2\<rparr>"
    and ch: "block_path st nx2 post' 0"
    using assms(1) Cons by auto
  have t: "tiles (b + HEADER_SIZE + m) post' e" "b = x + HEADER_SIZE + n" using assms(4) Cons y by auto
  note le = tiles_le [OF t(1)]
  show ?thesis
  proof (cases w)
    case True
    then show ?thesis
      using that [of blk1] Cons y st assms(1) b1 t le by (auto simp: merge_next_def absorb_next_def)
  next
    case False
    let ?b = "\<lparr>b_size = n + HEADER_SIZE + m, b_used = False, b_next = nx2\<rparr>"
    have "u32_add n (u32_add HEADER_SIZE m) = n + HEADER_SIZE + m"
      using le t(2) assms(5) by (simp add: no_wrap)
    then show ?thesis
      using that [of ?b] False Cons y st ch b1 t(2) le by (auto simp: merge_next_def absorb_next_def)
  qed
qed

lemma absorb_none:
  assumes "block_path st p pre x" and "pre \<noteq> [] \<Longrightarrow> snd (snd (last pre))"
    and "\<And>a k u. (a, k, u) \<in> set (pre @ post) \<Longrightarrow> a \<noteq> x"
    and "st x = Some blk" "x \<noteq> 0" and "block_path st (b_next blk) post 0"
  shows "absorb_from st p x blk = Some st"
proof -
  have "absorb_from st p x blk = absorb_from st x x blk"
    by (rule absorb_skip [OF assms(1)]) (use assms in auto)
  also have "\<dots> = absorb_from st (b_next blk) x blk"
  proof -
    have "b_next blk \<noteq> x"
      using assms(3) [of "fst (hd post)" "fst (snd (hd post))" "snd (snd (hd post))"] assms(5,6)
      by (cases post; cases "hd post") auto
    then show ?thesis using assms(4,5) by (simp add: absorb_from.simps [of st x])
  qed
  also have "\<dots> = absorb_from st 0 x blk"
    by (rule absorb_skip [OF assms(6)]) (use assms(3,5) in auto)
  finally show ?thesis by (simp add: absorb_from.simps)
qed

lemma release_list_facts:
  assumes "heap_ok h bs"
  shows "tiles (heap_start h) (release_list x bs) (heap_end h)" "no_adj (release_list x bs)"
    "\<forall>(a, n, u) \<in> set (release_list x bs). 8 dvd n" "release_list x bs \<noteq> []"
proof -
  show "\<forall>(a, n, u) \<in> set (release_list x bs). 8 dvd n"
    unfolding release_list_def by (rule coalesce_aligned) (use assms in \<open>auto simp: heap_ok_def\<close>)
  show "tiles (heap_start h) (release_list x bs) (heap_end h)"
    unfolding release_list_def by (rule tiles_coalesce)
      (use assms tiles_map_flag [of _ "\<lambda>a n u. u \<and> a \<noteq> x" bs] in \<open>auto simp: heap_ok_def\<close>)
qed (use assms in \<open>auto simp: release_list_def no_adj_coalesce heap_ok_def\<close>)

lemma live_release_list:
  assumes "heap_ok h bs" and "(x, n, True) \<in> set bs"
  shows "live (release_list x bs) = live bs - {(x + HEADER_SIZE, n)}"
proof -
  have til: "tiles (heap_start h) bs (heap_end h)" using assms(1) by (simp add: heap_ok_def)
  have "m = n" if "(x, m, True) \<in> set bs" for m
    using tiles_disjoint [OF til assms(2) that] by auto
  then show ?thesis
    unfolding release_list_def live_coalesce by (auto simp: live_def image_iff) fastforce+
qed

lemma kfree_correct:
  assumes ok: "heap_ok h bs" and x: "(x, n, True) \<in> set bs"
  shows "\<exists>h'. kfree h (x + HEADER_SIZE) = Some h' \<and> heap_ok h' (release_list x bs) \<and>
    heap_start h' = heap_start h \<and> heap_end h' = heap_end h"
proof -
  obtain pre post where bs: "bs = pre @ (x, n, True) # post" using x by (meson split_list)
  have til: "tiles (heap_start h) bs (heap_end h)" and nadj: "no_adj bs"
    using ok by (auto simp: heap_ok_def)
  obtain nx where ch: "block_path (k_store h) (heap_head h) pre x" "block_path (k_store h) nx post 0"
    and x0: "x \<noteq> 0" and st: "k_store h x = Some \<lparr>b_size = n, b_used = True, b_next = nx\<rparr>"
    using ok by (auto simp: heap_ok_def bs block_path_append)
  have tpost: "tiles (x + HEADER_SIZE + n) post (heap_end h)" and tpre: "tiles (heap_start h) pre x"
    using til by (auto simp: bs tiles_append)
  have post: "x + HEADER_SIZE + n \<le> a" if "(a, k, u) \<in> set post" for a k u
    using tiles_mem [OF tpost that] by simp
  have pre: "a + HEADER_SIZE \<le> x" if "(a, k, u) \<in> set pre" for a k u
    using tiles_mem [OF tpre that] by simp
  have ne: "a \<noteq> x" if "(a, k, u) \<in> set (pre @ post)" for a k u
    using that pre [of a k u] post [of a k u] by auto
  have lim: "heap_end h < x + 2 ^ 32" using ok tiles_le [OF tpre] by (auto simp: heap_ok_def)
  obtain blk2 where fwd: "absorb_next (k_store h) \<lparr>b_size = n, b_used = False, b_next = nx\<rparr> = Some blk2"
    and b2: "\<not> b_used blk2" "x + b_size blk2 + HEADER_SIZE \<le> heap_end h"
    and ex: "\<exists>post'. block_path (k_store h) (b_next blk2) post' 0 \<and> set post' \<subseteq> set post \<and>
       (\<forall>y m. merge_next y m post = (y, m + (b_size blk2 - n), False) # post') \<and> n \<le> b_size blk2"
    by (rule merge_next_store [OF ch(2) post x0 tpost lim refl])
  then obtain post' where p': "block_path (k_store h) (b_next blk2) post' 0" "set post' \<subseteq> set post"
      "\<And>y m. merge_next y m post = (y, m + (b_size blk2 - n), False) # post'"
    and b2n: "n \<le> b_size blk2"
    by blast
  define st' where "st' = (k_store h)(x \<mapsto> blk2)"
  have k: "kfree h (x + HEADER_SIZE) = (if x = heap_head h then Some (h\<lparr>k_store := st'\<rparr>)
      else map_option (\<lambda>st. h\<lparr>k_store := st\<rparr>) (absorb_from st' (heap_head h) x blk2))"
    using st fwd by (simp add: kfree_def Let_def st'_def)
  have blk2: "blk2 = \<lparr>b_size = b_size blk2, b_used = False, b_next = b_next blk2\<rparr>" using b2(1) by simp
  have tail: "block_path st' (b_next blk2) post' 0"
    unfolding st'_def by (rule block_path_fun_upd [OF p'(1)]) (use p'(2) ne in auto)
  have front: "block_path st' (heap_head h) pre x"
    unfolding st'_def by (rule block_path_fun_upd [OF ch(1)]) (use ne in auto)
  have rel1: "release_list x bs = pre @ merge_next x n post" if "pre = [] \<or> snd (snd (last pre))"
    unfolding bs by (rule release_list_split(1) [OF nadj [unfolded bs] _ that]) (use ne in auto)
  have rel2: "release_list x bs = cs @ merge_next a (m + HEADER_SIZE + n) post"
    if "pre = cs @ [(a, m, False)]" for cs a m
    unfolding bs by (rule release_list_split(2) [OF nadj [unfolded bs] _ that, THEN conjunct1]) (use ne in auto)
  have done_if: ?thesis if "kfree h (x + HEADER_SIZE) = Some (h\<lparr>k_store := st2\<rparr>)"
    "block_path st2 (heap_head h) (release_list x bs) 0" for st2
    using that heap_ok_store [OF ok that(2) release_list_facts [OF ok, of x]] by auto
  show ?thesis
  proof (cases "pre = [] \<or> snd (snd (last pre))")
    case True
    have "absorb_from st' (heap_head h) x blk2 = Some st'"
      by (rule absorb_none [OF front _ _ _ x0 tail]) (use True ne p'(2) in \<open>auto simp: st'_def\<close>)
    then have "kfree h (x + HEADER_SIZE) = Some (h\<lparr>k_store := st'\<rparr>)" using k by simp
    moreover have "block_path st' x ((x, b_size blk2, False) # post') 0"
      using tail x0 blk2 by (auto simp: st'_def intro!: exI [of _ "b_next blk2"])
    then have "block_path st' (heap_head h) (release_list x bs) 0"
      using rel1 [OF True] front p'(3) [of x n] b2n by (auto simp: block_path_append)
    ultimately show ?thesis by (rule done_if)
  next
    case False
    then obtain cs a m where pr: "pre = cs @ [(a, m, False)]"
      by (metis (full_types) append_butlast_last_id prod.collapse)
    have a: "a \<noteq> x" "a \<noteq> 0" "block_path st' (heap_head h) cs a" "a + HEADER_SIZE + m = x"
      using front tpre by (auto simp: pr block_path_append tiles_append)
    have cs: "c + HEADER_SIZE \<le> a" if "(c, j, w) \<in> set cs" for c j w
      using tpre that tiles_mem [of "heap_start h" cs a c j w] by (auto simp: pr tiles_append)
    have sum: "u32_add m (u32_add HEADER_SIZE (b_size blk2)) = m + HEADER_SIZE + b_size blk2"
      using b2(2) a(4) ok tiles_le [of "heap_start h" pre x] tpre lim
        tiles_mem [OF tpre, of a m False] by (auto simp: heap_ok_def no_wrap pr)
    define st2 where "st2 = st'(a \<mapsto> \<lparr>b_size = m + HEADER_SIZE + b_size blk2, b_used = False,
                                    b_next = b_next blk2\<rparr>)"
    have "absorb_from st' (heap_head h) x blk2 = Some st2"
      unfolding st2_def sum [symmetric]
      by (rule absorb_last_free [OF front [unfolded pr]]) (use ne a(1) cs in \<open>fastforce simp: pr\<close>)+
    moreover have "x \<noteq> heap_head h"
      using a(3) ne [of "fst (hd pre)" "fst (snd (hd pre))" "snd (snd (hd pre))"] ch(1)
      by (cases pre; cases "hd pre") (auto simp: pr)
    ultimately have kf: "kfree h (x + HEADER_SIZE) = Some (h\<lparr>k_store := st2\<rparr>)" using k by simp
    have "block_path st2 (heap_head h) cs a"
      unfolding st2_def by (rule block_path_fun_upd [OF a(3)]) (use cs in fastforce)
    moreover have "block_path st2 (b_next blk2) post' 0"
      unfolding st2_def by (rule block_path_fun_upd [OF tail]) (use p'(2) post a(4) in fastforce)
    ultimately have "block_path st2 (heap_head h) (cs @ (a, m + HEADER_SIZE + b_size blk2, False) # post') 0"
      using a(2) by (auto simp: block_path_append st2_def)
    then have "block_path st2 (heap_head h) (release_list x bs) 0"
      using rel2 [OF pr] p'(3) [of a "m + HEADER_SIZE + n"] b2n by (simp add: add.assoc)
    with kf show ?thesis by (rule done_if)
  qed
qed

end
