(* ===== verification/Heap_Alloc.thy ===== *)
theory Heap_Alloc
  imports Prelude
begin

text \<open>
  The contract of a byte-granular allocator (\<open>kmalloc\<close>/\<open>kfree\<close> of \<open>src/kheap.c\<close>) with
  its clients.  \<open>areas s\<close> is the set of areas handed out and not yet returned, as
  (pointer, length); 0 is the failure value.
\<close>

definition apart :: "nat \<times> nat \<Rightarrow> nat \<times> nat \<Rightarrow> bool" where
  "apart a b \<longleftrightarrow> fst a + snd a \<le> fst b \<or> fst b + snd b \<le> fst a"

definition separate :: "(nat \<times> nat) set \<Rightarrow> bool" where
  "separate A \<longleftrightarrow> (\<forall>a \<in> A. \<forall>b \<in> A. a \<noteq> b \<longrightarrow> apart a b)"

lemma apart_commute: "apart a b = apart b a"
  by (auto simp: apart_def)

lemma separate_insert: "separate A \<Longrightarrow> (\<And>b. b \<in> A \<Longrightarrow> apart a b) \<Longrightarrow> separate (insert a A)"
  unfolding separate_def using apart_commute by blast

lemma separate_mono: "separate A \<Longrightarrow> B \<subseteq> A \<Longrightarrow> separate B"
  unfolding separate_def by blast

datatype heap_request = Alloc nat | Release nat

locale heap_allocator =
  fixes malloc :: "'s \<Rightarrow> nat \<Rightarrow> (nat \<times> 's) option"
    and free :: "'s \<Rightarrow> nat \<Rightarrow> 's option"
    and areas :: "'s \<Rightarrow> (nat \<times> nat) set"
    and inv :: "'s \<Rightarrow> bool"
    and fits :: "nat \<Rightarrow> bool"
  assumes malloc_returns: "inv s \<Longrightarrow> fits n \<Longrightarrow> \<exists>p s'. malloc s n = Some (p, s') \<and> inv s'"
    and malloc_null: "inv s \<Longrightarrow> fits n \<Longrightarrow> malloc s n = Some (0, s') \<Longrightarrow> areas s' = areas s"
    and malloc_area: "inv s \<Longrightarrow> fits n \<Longrightarrow> malloc s n = Some (p, s') \<Longrightarrow> p \<noteq> 0 \<Longrightarrow>
          \<exists>m \<ge> n. areas s' = insert (p, m) (areas s) \<and> (\<forall>b \<in> areas s. apart (p, m) b)"
    and free_area: "inv s \<Longrightarrow> (p, m) \<in> areas s \<Longrightarrow>
          \<exists>s'. free s p = Some s' \<and> inv s' \<and> areas s' = areas s - {(p, m)}"
begin

text \<open>A client that only releases what it holds and only asks for sizes that fit.\<close>

inductive serves :: "'s \<Rightarrow> heap_request list \<Rightarrow> 's \<Rightarrow> bool" where
  serves_Nil: "serves s [] s"
| serves_Alloc: "fits n \<Longrightarrow> malloc s n = Some (p, s1) \<Longrightarrow> serves s1 rs s2 \<Longrightarrow> serves s (Alloc n # rs) s2"
| serves_Release: "(p, m) \<in> areas s \<Longrightarrow> free s p = Some s1 \<Longrightarrow> serves s1 rs s2 \<Longrightarrow>
    serves s (Release p # rs) s2"

lemma alloc_keeps:
  assumes "inv s" "separate (areas s)" "fits n" "malloc s n = Some (p, s1)"
  shows "inv s1 \<and> separate (areas s1)"
proof -
  have "inv s1" using malloc_returns [OF assms(1,3)] assms(4) by auto
  moreover have "separate (areas s1)"
  proof (cases "p = 0")
    case True
    then show ?thesis using malloc_null assms by simp
  next
    case False
    then obtain m where "areas s1 = insert (p, m) (areas s)" "\<forall>b \<in> areas s. apart (p, m) b"
      using malloc_area [OF assms(1,3,4)] by blast
    then show ?thesis using separate_insert [OF assms(2), of "(p, m)"] by simp
  qed
  ultimately show ?thesis ..
qed

lemma release_keeps:
  assumes "inv s" "separate (areas s)" "(p, m) \<in> areas s" "free s p = Some s1"
  shows "inv s1 \<and> separate (areas s1)"
  using free_area [OF assms(1,3)] assms(2,4) by (auto intro: separate_mono)

lemma serves_separate:
  "serves s rs s' \<Longrightarrow> inv s \<Longrightarrow> separate (areas s) \<Longrightarrow> inv s' \<and> separate (areas s')"
proof (induction rule: serves.induct)
  case (serves_Alloc n s p s1 rs s2)
  then show ?case using alloc_keeps by blast
next
  case (serves_Release p m s s1 rs s2)
  then show ?case using release_keeps by blast
qed simp

lemma alloc_release_areas:
  assumes "inv s" "fits n" "malloc s n = Some (p, s1)" "p \<noteq> 0" "0 < n"
  shows "\<exists>s2. free s1 p = Some s2 \<and> inv s2 \<and> areas s2 = areas s"
proof -
  obtain m where m: "n \<le> m" "areas s1 = insert (p, m) (areas s)" "\<forall>b \<in> areas s. apart (p, m) b"
    using malloc_area [OF assms(1-4)] by blast
  then have "(p, m) \<notin> areas s" using assms(5) by (force simp: apart_def)
  moreover have "inv s1" using malloc_returns [OF assms(1,2)] assms(3) by auto
  ultimately show ?thesis using free_area [of s1 p m] m(2) by auto
qed

end

end
