(* ===== verification/Kernel_Heap.thy ===== *)
theory Kernel_Heap
  imports Kheap_Correct Heap_Alloc
begin

text \<open>
  The kernel heap as its clients see it: the state invariant and the set of areas in
  use, \<open>src/kheap.c\<close> as an instance of the allocator contract \<open>Heap_Alloc\<close>, the
  initial state, the statistics, and what happens to requests near 4 GB.
\<close>

section \<open>The client's view\<close>

definition heap_inv :: "kheap \<Rightarrow> bool" where
  "heap_inv h \<longleftrightarrow> (\<exists>bs. heap_ok h bs)"

definition heap_areas :: "kheap \<Rightarrow> (nat \<times> nat) set" where
  "heap_areas h = {a. \<exists>bs. heap_ok h bs \<and> a \<in> live bs}"

text \<open>Requests whose rounding and header do not wrap around \<open>unsigned int\<close>.\<close>

definition fits_u32 :: "nat \<Rightarrow> bool" where
  "fits_u32 n \<longleftrightarrow> 0 < n \<and> n + 32 < 2 ^ 32"

lemma block_path_unique: "block_path st p bs 0 \<Longrightarrow> block_path st p cs 0 \<Longrightarrow> bs = cs"
proof (induction bs arbitrary: p cs)
  case Nil
  then show ?case by (cases cs) auto
next
  case (Cons b bs)
  obtain a n u where b: "b = (a, n, u)" by (cases b)
  then obtain c cs' where cs: "cs = c # cs'" using Cons.prems by (cases cs) auto
  obtain a' n' u' where "c = (a', n', u')" by (cases c)
  then show ?case using Cons b cs by auto
qed

lemma heap_ok_unique: "heap_ok h bs \<Longrightarrow> heap_ok h cs \<Longrightarrow> bs = cs"
  unfolding heap_ok_def by (meson block_path_unique)

lemma heap_areas_eq: "heap_ok h bs \<Longrightarrow> heap_areas h = live bs"
  unfolding heap_areas_def using heap_ok_unique by blast

lemma live_separate:
  assumes "heap_ok h bs"
  shows "separate (live bs)"
proof -
  have til: "tiles (heap_start h) bs (heap_end h)" using assms by (simp add: heap_ok_def)
  show ?thesis
    unfolding separate_def apart_def live_def using tiles_disjoint [OF til] by fastforce
qed

lemma fresh_area_apart: "fresh_area h bs p m \<Longrightarrow> b \<in> live bs \<Longrightarrow> apart (p, m) b"
  by (cases b) (auto simp: fresh_area_def apart_def)

lemma kmalloc_client:
  assumes "heap_inv h" "fits_u32 n"
  shows "\<exists>p h'. kmalloc h n = Some (p, h') \<and> heap_inv h' \<and>
    (if p = 0 then heap_areas h' = heap_areas h
     else 8 dvd p \<and> (\<exists>m \<ge> n. heap_areas h' = insert (p, m) (heap_areas h) \<and>
       heap_start h' + HEADER_SIZE \<le> p \<and> p + m \<le> heap_end h' \<and>
       (\<forall>b \<in> heap_areas h. apart (p, m) b)))"
proof -
  obtain bs where ok: "heap_ok h bs" using assms(1) by (auto simp: heap_inv_def)
  have sz: "0 < n" "n + 32 < 2 ^ 32" using assms(2) by (simp_all add: fits_u32_def)
  obtain p h' bs' where k: "kmalloc h n = Some (p, h')" "heap_ok h' bs'"
    and r: "if p = 0 then live bs' = live bs
      else \<exists>m. n \<le> m \<and> m < n + 32 \<and> live bs' = insert (p, m) (live bs) \<and> fresh_area h' bs p m"
    using kmalloc_correct [OF ok sz] by blast
  have "heap_inv h'" using k(2) by (auto simp: heap_inv_def)
  moreover have "8 dvd p \<and> (\<exists>m \<ge> n. heap_areas h' = insert (p, m) (heap_areas h) \<and>
      heap_start h' + HEADER_SIZE \<le> p \<and> p + m \<le> heap_end h' \<and>
      (\<forall>b \<in> heap_areas h. apart (p, m) b))" if nz: "p \<noteq> 0"
  proof -
    obtain m where m: "n \<le> m" "live bs' = insert (p, m) (live bs)" "fresh_area h' bs p m"
      using r nz by auto
    then show ?thesis
      using heap_areas_eq [OF ok] heap_areas_eq [OF k(2)] fresh_area_apart [OF m(3)]
      by (auto simp: fresh_area_def intro!: exI [of _ m])
  qed
  moreover have "heap_areas h' = heap_areas h" if "p = 0"
    using r that heap_areas_eq [OF ok] heap_areas_eq [OF k(2)] by simp
  ultimately show ?thesis using k(1) by auto
qed

lemma kfree_client:
  assumes "heap_inv h" "(p, m) \<in> heap_areas h"
  shows "\<exists>h'. kfree h p = Some h' \<and> heap_inv h' \<and> heap_areas h' = heap_areas h - {(p, m)}"
proof -
  obtain bs where ok: "heap_ok h bs" using assms(1) by (auto simp: heap_inv_def)
  then obtain x where x: "p = x + HEADER_SIZE" "(x, m, True) \<in> set bs"
    using assms(2) heap_areas_eq [OF ok] by (auto simp: live_def)
  obtain h' where h': "kfree h p = Some h'" "heap_ok h' (release_list x bs)"
    using kfree_correct [OF ok x(2)] x(1) by auto
  then show ?thesis
    using heap_areas_eq [OF h'(2)] heap_areas_eq [OF ok] live_release_list [OF ok x(2)] x(1)
    by (auto simp: heap_inv_def)
qed

interpretation kheap: heap_allocator kmalloc kfree heap_areas heap_inv fits_u32
proof unfold_locales
  fix h n p h'
  assume "heap_inv h" "fits_u32 n"
  note k = kmalloc_client [OF this]
  show "\<exists>p s'. kmalloc h n = Some (p, s') \<and> heap_inv s'" using k by blast
  show "heap_areas h' = heap_areas h" if "kmalloc h n = Some (0, h')" using k that by auto
  show "\<exists>m \<ge> n. heap_areas h' = insert (p, m) (heap_areas h) \<and> (\<forall>b \<in> heap_areas h. apart (p, m) b)"
    if "kmalloc h n = Some (p, h')" "p \<noteq> 0"
    using k that by auto
qed (rule kfree_client)

section \<open>Statistics\<close>

definition sum_of :: "(bool \<Rightarrow> bool) \<Rightarrow> ablock list \<Rightarrow> nat" where
  "sum_of P bs = sum_list (map (\<lambda>(a, n, u). if P u then n else 0) bs)"

lemma sum_of_simps [simp]:
  "sum_of P [] = 0" "sum_of P ((a, n, u) # bs) = (if P u then n else 0) + sum_of P bs"
  by (simp_all add: sum_of_def)

lemma sum_sizes_path:
  assumes "block_path st p bs 0" and "acc + sum_of P bs < 2 ^ 32"
  shows "sum_sizes st (\<lambda>b. P (b_used b)) p acc = Some (acc + sum_of P bs)"
  using assms
proof (induction bs arbitrary: p acc)
  case Nil
  then show ?case by (simp add: sum_sizes.simps)
next
  case (Cons b bs)
  obtain a n u where b: "b = (a, n, u)" by (cases b)
  then obtain nx where st: "p = a" "a \<noteq> 0" "st a = Some \<lparr>b_size = n, b_used = u, b_next = nx\<rparr>"
    "block_path st nx bs 0"
    using Cons.prems(1) by auto
  then have "sum_sizes st (\<lambda>b. P (b_used b)) p acc =
      sum_sizes st (\<lambda>b. P (b_used b)) nx (if P u then u32_add acc n else acc)"
    by (simp add: sum_sizes.simps [of st _ a])
  also have "\<dots> = Some (acc + sum_of P (b # bs))"
    using Cons.IH [OF st(4), of "if P u then acc + n else acc"] Cons.prems(2) b
    by (cases "P u") (simp_all add: no_wrap)
  finally show ?case .
qed

lemma count_blocks_path:
  assumes "block_path st p bs 0" and "k + length bs < 2 ^ 32"
  shows "count_blocks st p k = Some (k + length bs)"
  using assms
proof (induction bs arbitrary: p k)
  case Nil
  then show ?case by (simp add: count_blocks.simps)
next
  case (Cons b bs)
  obtain a n u where b: "b = (a, n, u)" by (cases b)
  then obtain nx where st: "p = a" "a \<noteq> 0" "st a = Some \<lparr>b_size = n, b_used = u, b_next = nx\<rparr>"
    "block_path st nx bs 0"
    using Cons.prems(1) by auto
  then have "count_blocks st p k = count_blocks st nx (u32_add k 1)"
    by (simp add: count_blocks.simps [of st a])
  then show ?case
    using Cons.IH [OF st(4), of "k + 1"] Cons.prems(2) by (simp add: no_wrap)
qed

lemma tiles_total:
  "tiles s bs e \<Longrightarrow> e = s + sum_of (\<lambda>u. u) bs + sum_of Not bs + HEADER_SIZE * length bs"
  by (induction s bs e rule: tiles.induct) auto

section \<open>Sample heap\<close>

text \<open>One page at 1 MB: a used block of 64 bytes between two free ones.\<close>

definition sample_store :: "nat \<Rightarrow> block option" where
  "sample_store =
     [1048576 \<mapsto> \<lparr>b_size = 112, b_used = False, b_next = 1048704\<rparr>,
      1048704 \<mapsto> \<lparr>b_size = 64, b_used = True, b_next = 1048784\<rparr>,
      1048784 \<mapsto> \<lparr>b_size = 3872, b_used = False, b_next = 0\<rparr>]"

definition sample_heap :: kheap where
  "sample_heap = \<lparr>k_vmm = sample_vmm, k_store = sample_store, heap_head = 1048576,
     heap_start = 1048576, heap_end = 1052672, heap_limit = 1114112\<rparr>"

abbreviation (input) sample_blocks :: "ablock list" where
  "sample_blocks \<equiv> [(1048576, 112, False), (1048704, 64, True), (1048784, 3872, False)]"

lemma sample_heap_ok: "heap_ok sample_heap sample_blocks"
  by (simp add: heap_ok_def sample_heap_def sample_store_def)

lemma sample_heap_inv: "heap_inv sample_heap"
  using sample_heap_ok by (auto simp: heap_inv_def)

lemma sample_kmalloc: "\<exists>h1. kmalloc sample_heap 200 = Some (1048800, h1)"
  using find_fit_correct [OF sample_heap_ok, of 200]
  by (auto simp: kmalloc_def ALIGN8_def u32_add_def sample_heap_def)

section \<open>Properties\<close>

text \<open>C1. On a well-formed heap, \<open>kmalloc\<close> of a size that does not wrap returns, keeps the
  heap well formed, and either reports failure and leaves the areas in use as they
  were, or hands out an 8-byte aligned area of at least the requested size that lies
  inside the heap and does not overlap any area in use.\<close>

theorem kmalloc_fresh:
  assumes "heap_inv h" and "fits_u32 n"
  shows "\<exists>p h'. kmalloc h n = Some (p, h') \<and> heap_inv h' \<and>
    (if p = 0 then heap_areas h' = heap_areas h
     else 8 dvd p \<and> (\<exists>m \<ge> n. heap_areas h' = insert (p, m) (heap_areas h) \<and>
       heap_start h' + HEADER_SIZE \<le> p \<and> p + m \<le> heap_end h' \<and>
       (\<forall>b \<in> heap_areas h. apart (p, m) b)))"
  using assms by (rule kmalloc_client)

theorem kmalloc_fresh_witness:
  "\<exists>p h'. kmalloc sample_heap 200 = Some (p, h') \<and> heap_inv h' \<and>
    (if p = 0 then heap_areas h' = heap_areas sample_heap
     else 8 dvd p \<and> (\<exists>m \<ge> 200. heap_areas h' = insert (p, m) (heap_areas sample_heap) \<and>
       heap_start h' + HEADER_SIZE \<le> p \<and> p + m \<le> heap_end h' \<and>
       (\<forall>b \<in> heap_areas sample_heap. apart (p, m) b)))"
  by (rule kmalloc_fresh [OF sample_heap_inv]) (simp add: fits_u32_def)

text \<open>C8. Refinement of first fit: when the abstract block list has a free block that is
  large enough, \<open>kmalloc\<close> takes the first such block, splits it when at least a header
  and 8 bytes remain, and changes nothing else (no page is mapped).\<close>

theorem kmalloc_first_fit:
  assumes "heap_ok h bs" and "fits_u32 n" and "alloc_list (ALIGN8 n) bs = Some (p, bs')"
  shows "\<exists>st. kmalloc h n = Some (p, h\<lparr>k_store := st\<rparr>) \<and> heap_ok (h\<lparr>k_store := st\<rparr>) bs'"
proof -
  have s: "ALIGN8 n + 24 < 2 ^ 32" "8 dvd ALIGN8 n" "0 < n"
    using assms(2) ALIGN8_small [of n] by (simp_all add: fits_u32_def)
  obtain h1 where f: "find_fit h (ALIGN8 n) = Some (p, h1)" "heap_ok h1 bs'" "p \<noteq> 0"
    using find_fit_correct [OF assms(1) s(1,2)] assms(3) by auto
  have "heap_head h \<noteq> 0" using assms(1) by (cases bs) (auto simp: heap_ok_def)
  then have "kmalloc h n = Some (p, h1)" using f s(3) by (simp add: kmalloc_def)
  moreover obtain st where "h1 = h\<lparr>k_store := st\<rparr>" using f(1) by (auto simp: find_fit_def)
  ultimately show ?thesis using f(2) by auto
qed

theorem kmalloc_first_fit_witness:
  "\<exists>st. kmalloc sample_heap 200 = Some (1048800, sample_heap\<lparr>k_store := st\<rparr>) \<and>
     heap_ok (sample_heap\<lparr>k_store := st\<rparr>)
       [(1048576, 112, False), (1048704, 64, True), (1048784, 200, True), (1049000, 3656, False)]"
  by (rule kmalloc_first_fit [OF sample_heap_ok])
    (simp_all add: fits_u32_def ALIGN8_def u32_add_def)

text \<open>C2. \<open>kfree\<close> of an area in use returns, makes exactly that area available again and
  merges it with its free neighbours: the block list afterwards is the one with that
  block marked free and every run of free blocks joined.\<close>

theorem kfree_exact:
  assumes "heap_ok h bs" and "(x, m, True) \<in> set bs"
  shows "\<exists>h'. kfree h (x + HEADER_SIZE) = Some h' \<and> heap_ok h' (release_list x bs) \<and>
    heap_areas h' = heap_areas h - {(x + HEADER_SIZE, m)}"
proof -
  obtain h' where h': "kfree h (x + HEADER_SIZE) = Some h'" "heap_ok h' (release_list x bs)"
    using kfree_correct [OF assms] by blast
  then show ?thesis
    using heap_areas_eq [OF h'(2)] heap_areas_eq [OF assms(1)] live_release_list [OF assms] by simp
qed

theorem kfree_exact_witness:
  "\<exists>h'. kfree sample_heap 1048720 = Some h' \<and> heap_ok h' [(1048576, 4080, False)] \<and> heap_areas h' = {}"
  using kfree_exact [OF sample_heap_ok, of 1048704 64] heap_areas_eq [OF sample_heap_ok]
  by (simp add: release_list_def live_def)

text \<open>Allocating and releasing again gives back the areas in use as they were.\<close>

theorem kmalloc_kfree_areas:
  assumes "heap_inv h" and "fits_u32 n" and "kmalloc h n = Some (p, h1)" and "p \<noteq> 0"
  shows "\<exists>h2. kfree h1 p = Some h2 \<and> heap_inv h2 \<and> heap_areas h2 = heap_areas h"
  using kheap.alloc_release_areas [OF assms] assms(2) by (simp add: fits_u32_def)

theorem kmalloc_kfree_areas_witness:
  "\<exists>p h1 h2. kmalloc sample_heap 200 = Some (p, h1) \<and> kfree h1 p = Some h2 \<and>
     heap_areas h2 = heap_areas sample_heap"
proof -
  have "fits_u32 200" by (simp add: fits_u32_def)
  then show ?thesis
    using kmalloc_kfree_areas [OF sample_heap_inv, of 200 1048800] sample_kmalloc by fastforce
qed

text \<open>The statistics routines return, and account for every byte of the heap: the used
  sizes, the free sizes and one header per block add up to the size of the heap.\<close>

theorem kheap_accounting:
  assumes "heap_inv h"
  shows "\<exists>u f b. kheap_used h = Some u \<and> kheap_free h = Some f \<and> kheap_blocks h = Some b \<and>
    u + f + HEADER_SIZE * b = kheap_size h"
proof -
  obtain bs where ok: "block_path (k_store h) (heap_head h) bs 0" "tiles (heap_start h) bs (heap_end h)"
      "heap_end h < heap_start h + 2 ^ 32" "heap_end h < 2 ^ 64"
    using assms by (auto simp: heap_inv_def heap_ok_def)
  note t = tiles_total [OF ok(2)]
  have "kheap_used h = Some (sum_of (\<lambda>u. u) bs)"
    unfolding kheap_used_def using sum_sizes_path [OF ok(1), of 0 "\<lambda>u. u"] t ok(3) by simp
  moreover have "kheap_free h = Some (sum_of Not bs)"
    unfolding kheap_free_def using sum_sizes_path [OF ok(1), of 0 Not] t ok(3) by simp
  moreover have "kheap_blocks h = Some (length bs)"
    unfolding kheap_blocks_def using count_blocks_path [OF ok(1), of 0] t ok(3) by simp
  moreover have "kheap_size h = sum_of (\<lambda>u. u) bs + sum_of Not bs + HEADER_SIZE * length bs"
    using t ok(3,4) by (simp add: kheap_size_def no_wrap)
  ultimately show ?thesis by simp
qed

theorem kheap_accounting_witness:
  "\<exists>u f b. kheap_used sample_heap = Some u \<and> kheap_free sample_heap = Some f \<and>
     kheap_blocks sample_heap = Some b \<and> u + f + HEADER_SIZE * b = 4096"
  using kheap_accounting [OF sample_heap_inv]
  by (simp add: kheap_size_def sample_heap_def u64_sub_def)

text \<open>\<open>kheap_init\<close> on a region below 4 GB either leaves the heap state alone (the pages
  could not be mapped) or sets up a well-formed heap with one free block and nothing in use.\<close>

theorem kheap_init_correct:
  assumes "0 < base" "8 dvd base" "0 < n" "n \<le> m" "m * 4096 < 2 ^ 32" "base + m * 4096 < 2 ^ 64"
  shows "(\<exists>vm. kheap_init h base n m = h\<lparr>k_vmm := vm\<rparr>) \<or>
    heap_ok (kheap_init h base n m) [(base, n * 4096 - HEADER_SIZE, False)] \<and>
    heap_areas (kheap_init h base n m) = {}"
proof (cases "map_region (k_vmm h) base n")
  case (Pair ok vm)
  show ?thesis
  proof (cases ok)
    case True
    have "n * 4096 < 2 ^ 32" "8 dvd n * 4096 - HEADER_SIZE"
      using assms by (auto intro!: dvd_diff_nat dvd_mult)
    then have "heap_ok (kheap_init h base n m) [(base, n * 4096 - HEADER_SIZE, False)]"
      using True Pair assms by (simp add: kheap_init_def heap_ok_def no_wrap)
    then show ?thesis using heap_areas_eq by fastforce
  qed (use Pair assms in \<open>auto simp: kheap_init_def\<close>)
qed

theorem kheap_init_correct_witness:
  "(\<exists>vm. kheap_init sample_heap 2097152 1 16 = sample_heap\<lparr>k_vmm := vm\<rparr>) \<or>
    heap_ok (kheap_init sample_heap 2097152 1 16) [(2097152, 4080, False)] \<and>
    heap_areas (kheap_init sample_heap 2097152 1 16) = {}"
  using kheap_init_correct [of 2097152 1 16 sample_heap] by simp

text \<open>C17. Requests of at least \<open>2 ^ 32 - 7\<close> bytes are rounded to size 0: \<open>kmalloc\<close> then
  succeeds with an area of fewer than 24 bytes instead of failing.\<close>

theorem kmalloc_wraps:
  assumes "heap_ok h bs" and "2 ^ 32 - 7 \<le> n" "n < 2 ^ 32" and "(a, k, False) \<in> set bs"
  shows "\<exists>p m h'. kmalloc h n = Some (p, h') \<and> p \<noteq> 0 \<and> m < 24 \<and>
    heap_areas h' = insert (p, m) (heap_areas h)"
proof -
  have z: "ALIGN8 n = 0"
  proof -
    have "(n + 7) mod 2 ^ 32 = n + 7 - 2 ^ 32"
      using assms(2,3) by (simp add: le_mod_geq)
    then show ?thesis using assms(3) by (simp add: ALIGN8_def u32_add_def)
  qed
  have "\<not> (\<forall>(a, n, u) \<in> set bs. u \<or> n < 0)" using assms(4) by fastforce
  then have "alloc_list 0 bs \<noteq> None" using alloc_list_None by blast
  then obtain p bs' where al: "alloc_list 0 bs = Some (p, bs')" by auto
  then obtain h1 where f: "find_fit h 0 = Some (p, h1)" "heap_ok h1 bs'" "p \<noteq> 0"
    using find_fit_correct [OF assms(1), of 0] by auto
  have "heap_head h \<noteq> 0" using assms(1) by (cases bs) (auto simp: heap_ok_def)
  then have "kmalloc h n = Some (p, h1)" using f z assms(2) by (simp add: kmalloc_def)
  moreover obtain m where "m < 24" "live bs' = insert (p, m) (live bs)"
    using alloc_list_live [OF al] by auto
  ultimately show ?thesis using f heap_areas_eq [OF assms(1)] heap_areas_eq [OF f(2)] by auto
qed

theorem kmalloc_wraps_witness:
  "\<exists>p m h'. kmalloc sample_heap 4294967295 = Some (p, h') \<and> p \<noteq> 0 \<and> m < 24 \<and>
    heap_areas h' = insert (p, m) (heap_areas sample_heap)"
  by (rule kmalloc_wraps [OF sample_heap_ok]) auto

end
