(* ===== verification/Vfs.thy ===== *)
theory Vfs
  imports CString Kernel_Heap
begin

text \<open>
  \<open>src/vfs.c\<close>: the mount table, path normalization, routing by longest prefix and the
  dispatched operations.

  C strings are HOL strings.  The operations a filesystem provides act on a state of
  type \<open>'w\<close>, the memory of the mounted filesystems; it extends \<open>kmem\<close>, the kernel heap
  and the bytes stored in it, because both the VFS and the filesystems allocate.  A
  buffer filled by a callee is returned as a list.  \<open>None\<close> as the result of an
  operation is a memory fault.
\<close>

section \<open>State\<close>

record kmem =
  km_heap :: kheap
  km_bytes :: "nat \<Rightarrow> u8"

record vfs_dirent =
  de_name :: string
  de_size :: nat
  de_first_cluster :: nat
  de_attr :: nat

text \<open>What a symbolic link reads as starts with this.\<close>

definition VFS_SYMLINK_MAGIC :: "u8 list" where
  "VFS_SYMLINK_MAGIC = bytes_of ''!<symlink>''"

type_synonym ('r, 'w) fsop = "'w \<Rightarrow> ('r \<times> 'w) option"

record 'w vfs_ops =
  op_list :: "(string \<Rightarrow> int \<Rightarrow> (int \<times> vfs_dirent list, 'w) fsop) option"
  op_is_dir :: "(string \<Rightarrow> (int, 'w) fsop) option"
  op_read_file :: "(string \<Rightarrow> nat \<Rightarrow> (int \<times> u8 list, 'w) fsop) option"
  op_read_file_at :: "(string \<Rightarrow> nat \<Rightarrow> nat \<Rightarrow> (int \<times> u8 list, 'w) fsop) option"
  op_write_file :: "(string \<Rightarrow> u8 list \<Rightarrow> (int, 'w) fsop) option"
  op_delete_file :: "(string \<Rightarrow> (int, 'w) fsop) option"
  op_mkdir :: "(string \<Rightarrow> (int, 'w) fsop) option"
  op_rmdir :: "(string \<Rightarrow> (int, 'w) fsop) option"
  op_cp :: "(string \<Rightarrow> string \<Rightarrow> (int, 'w) fsop) option"
  op_mv :: "(string \<Rightarrow> string \<Rightarrow> (int, 'w) fsop) option"
  op_link :: "(string \<Rightarrow> string \<Rightarrow> (int, 'w) fsop) option"
  op_chmod :: "(string \<Rightarrow> nat \<Rightarrow> (int, 'w) fsop) option"
  op_chown :: "(string \<Rightarrow> nat \<Rightarrow> nat \<Rightarrow> (int, 'w) fsop) option"

record 'w vfs_mount =
  mt_prefix :: string
  mt_ops :: "'w vfs_ops"
  mt_name :: string

text \<open>A slot that is not \<open>in_use\<close> is \<open>None\<close>; \<open>world\<close> is the filesystems' memory.\<close>

record 'w vfs =
  mounts :: "'w vfs_mount option list"
  cwd :: string
  world :: 'w

abbreviation (input) VFS_MAX_MOUNTS :: nat where "VFS_MAX_MOUNTS \<equiv> 12"

section \<open>The mount table\<close>

definition vfs_init :: "'w vfs \<Rightarrow> 'w vfs" where
  "vfs_init s = s\<lparr>mounts := replicate VFS_MAX_MOUNTS None, cwd := ''/''\<rparr>"

fun mount_first :: "'w vfs_mount \<Rightarrow> 'w vfs_mount option list \<Rightarrow> 'w vfs_mount option list option" where
  "mount_first m [] = None"
| "mount_first m (None # ms) = Some (Some m # ms)"
| "mount_first m (Some m' # ms) = map_option (Cons (Some m')) (mount_first m ms)"

definition vfs_mount :: "'w vfs \<Rightarrow> string \<Rightarrow> 'w vfs_ops \<Rightarrow> string \<Rightarrow> int \<times> 'w vfs" where
  "vfs_mount s prefix ops name =
     (case mount_first \<lparr>mt_prefix = prefix, mt_ops = ops, mt_name = name\<rparr> (mounts s) of
        None \<Rightarrow> (-1, s)
      | Some ms \<Rightarrow> (0, s\<lparr>mounts := ms\<rparr>))"

definition vfs_mount_count :: "'w vfs \<Rightarrow> nat" where
  "vfs_mount_count s = length (filter (\<lambda>m. m \<noteq> None) (mounts s))"

definition vfs_mount_at :: "'w vfs \<Rightarrow> int \<Rightarrow> 'w vfs_mount option" where
  "vfs_mount_at s i = (if i < 0 \<or> i \<ge> int (length (mounts s)) then None else mounts s ! nat i)"

section \<open>Path normalization\<close>

abbreviation (input) slash :: char where "slash \<equiv> CHR ''/''"

text \<open>Appending to \<open>buf[256]\<close>, which keeps room for the terminator.\<close>

fun append_buf :: "string \<Rightarrow> string \<Rightarrow> string option" where
  "append_buf buf [] = Some buf"
| "append_buf buf (c # cs) = (if length buf + 1 \<ge> 256 then None else append_buf (buf @ [c]) cs)"

definition resolve_buf :: "string \<Rightarrow> string \<Rightarrow> string option" where
  "resolve_buf cur path =
     (case (if path = [] \<or> hd path \<noteq> slash then append_buf [] cur else Some []) of
        None \<Rightarrow> None
      | Some buf \<Rightarrow>
          (case append_buf buf ''/'' of None \<Rightarrow> None | Some buf' \<Rightarrow> append_buf buf' path))"

text \<open>The component loop: what is left of \<open>buf\<close>, the output so far and the stack \<open>starts\<close>
  of output lengths (its length is \<open>depth\<close>, the most recent first).\<close>

function resolve_loop :: "nat \<Rightarrow> string \<Rightarrow> string \<Rightarrow> nat list \<Rightarrow> string option" where
  "resolve_loop outsz [] out starts = Some out"
| "resolve_loop outsz (c # cs) out starts =
     (if c = slash then resolve_loop outsz cs out starts
      else let comp = c # takeWhile (\<lambda>x. x \<noteq> slash) cs;
               rest = drop 1 (dropWhile (\<lambda>x. x \<noteq> slash) cs)
           in if comp = ''.'' then resolve_loop outsz rest out starts
              else if comp = ''..''
              then (case starts of
                      [] \<Rightarrow> resolve_loop outsz rest out starts
                    | op # starts' \<Rightarrow> resolve_loop outsz rest (take op out) starts')
              else if length starts \<ge> 64 then None
              else if length out + 1 + length comp + 1 \<ge> outsz then None
              else resolve_loop outsz rest (out @ slash # comp) (length out # starts))"
  by pat_completeness auto

termination
  by (relation "measure (\<lambda>(_, s, _, _). length s)")
    (auto simp: less_Suc_eq_le le_diff_conv intro: le_trans [OF length_dropWhile_le] le_SucI)

definition resolve_from :: "string \<Rightarrow> string \<Rightarrow> nat \<Rightarrow> string option" where
  "resolve_from cur path outsz =
     (case resolve_buf cur path of
        None \<Rightarrow> None
      | Some buf \<Rightarrow>
          (case resolve_loop outsz buf [] [] of
             None \<Rightarrow> None
           | Some out \<Rightarrow> if out = [] then (if outsz < 2 then None else Some ''/'') else Some out))"

definition vfs_resolve :: "'w vfs \<Rightarrow> string \<Rightarrow> nat \<Rightarrow> string option" where
  "vfs_resolve s path outsz = resolve_from (cwd s) path outsz"

section \<open>Routing\<close>

definition under :: "string \<Rightarrow> string \<Rightarrow> bool" where
  "under prefix path =
     (if prefix = ''/'' then True
      else if take (length prefix) path \<noteq> prefix then False
      else length path = length prefix \<or> path ! length prefix = slash)"

definition better :: "'w vfs \<Rightarrow> string \<Rightarrow> nat \<Rightarrow> (nat \<times> nat) option \<Rightarrow> (nat \<times> nat) option" where
  "better s abspath i best =
     (case mounts s ! i of
        None \<Rightarrow> best
      | Some m \<Rightarrow>
          if under (mt_prefix m) abspath
          then (case best of
                  None \<Rightarrow> Some (i, length (mt_prefix m))
                | Some (j, bl) \<Rightarrow> if length (mt_prefix m) > bl then Some (i, length (mt_prefix m)) else best)
          else best)"

definition sub_path :: "string \<Rightarrow> nat \<Rightarrow> string option" where
  "sub_path rest subsz =
     (if rest = [] then Some ''/''
      else if hd rest \<noteq> slash
      then (if subsz < 2 then None
            else if length rest + 1 < subsz then Some (slash # rest) else None)
      else if length rest < subsz then Some rest else None)"

text \<open>The index of the mount and the path inside it.\<close>

definition route :: "'w vfs \<Rightarrow> string \<Rightarrow> nat \<Rightarrow> (nat \<times> string) option" where
  "route s abspath subsz =
     (case fold (better s abspath) [0..<length (mounts s)] None of
        None \<Rightarrow> None
      | Some (best, _) \<Rightarrow>
          (case mounts s ! best of
             None \<Rightarrow> None
           | Some m \<Rightarrow>
               map_option (Pair best)
                 (sub_path (if mt_prefix m = ''/'' then abspath else drop (length (mt_prefix m)) abspath) subsz)))"

definition resolve_route :: "'w vfs \<Rightarrow> string \<Rightarrow> (nat \<times> string) option" where
  "resolve_route s path =
     (case vfs_resolve s path 256 of None \<Rightarrow> None | Some abspath \<Rightarrow> route s abspath 256)"

definition ops_at :: "'w vfs \<Rightarrow> nat \<Rightarrow> 'w vfs_ops" where
  "ops_at s i = mt_ops (the (mounts s ! i))"

section \<open>Dispatched operations\<close>

text \<open>What the one-path operations share: route, check that the operation is provided,
  call it.  \<open>err\<close> is the result \<open>-1\<close> of the early return.\<close>

definition dispatch ::
  "'w vfs \<Rightarrow> string \<Rightarrow> ('w vfs_ops \<Rightarrow> (string \<Rightarrow> ('r, 'w) fsop) option) \<Rightarrow> 'r \<Rightarrow> ('r \<times> 'w vfs) option" where
  "dispatch s path sel err =
     (case resolve_route s path of
        None \<Rightarrow> Some (err, s)
      | Some (i, sub) \<Rightarrow>
          (case sel (ops_at s i) of
             None \<Rightarrow> Some (err, s)
           | Some f \<Rightarrow> map_option (\<lambda>(r, w). (r, s\<lparr>world := w\<rparr>)) (f sub (world s))))"

definition vfs_list :: "'w vfs \<Rightarrow> string \<Rightarrow> int \<Rightarrow> ((int \<times> vfs_dirent list) \<times> 'w vfs) option" where
  "vfs_list s path max_n =
     dispatch s (if path \<noteq> [] then path else cwd s)
       (\<lambda>ops. map_option (\<lambda>f sub. f sub max_n) (op_list ops)) (-1, [])"

definition vfs_read_file :: "'w vfs \<Rightarrow> string \<Rightarrow> nat \<Rightarrow> ((int \<times> u8 list) \<times> 'w vfs) option" where
  "vfs_read_file s path max_n =
     dispatch s path (\<lambda>ops. map_option (\<lambda>f sub. f sub max_n) (op_read_file ops)) (-1, [])"

text \<open>The bytes \<open>tmp[offset + i]\<close>; those \<open>read_file\<close> did not store are not defined.\<close>

fun tmp_slice :: "u8 list \<Rightarrow> nat \<Rightarrow> nat list \<Rightarrow> u8 list option" where
  "tmp_slice tmp offset [] = Some []"
| "tmp_slice tmp offset (i # is') =
     (if u32_add offset i < length tmp
      then map_option (Cons (tmp ! u32_add offset i)) (tmp_slice tmp offset is')
      else None)"

definition slice_len :: "int \<Rightarrow> nat \<Rightarrow> nat \<Rightarrow> nat" where
  "slice_len nr offset len =
     (if nr > to_int offset then (let got = nat (nr - to_int offset) in if got > len then len else got) else 0)"

definition read_window ::
  "(string \<Rightarrow> nat \<Rightarrow> (int \<times> u8 list, 'a kmem_scheme) fsop) \<Rightarrow> string \<Rightarrow> nat \<Rightarrow> nat \<Rightarrow>
     (int \<times> u8 list, 'a kmem_scheme) fsop" where
  "read_window rd sub offset len w =
     (let total = u32_add offset len
      in case kmalloc (km_heap w) total of
           None \<Rightarrow> None
         | Some (tmp, h1) \<Rightarrow>
             if tmp = 0 then Some ((-1, []), w\<lparr>km_heap := h1\<rparr>)
             else (case rd sub total (w\<lparr>km_heap := h1\<rparr>) of
                     None \<Rightarrow> None
                   | Some ((nr, bytes), w2) \<Rightarrow>
                       (let got = slice_len nr offset len
                        in case tmp_slice bytes offset [0..<got] of
                             None \<Rightarrow> None
                           | Some out \<Rightarrow>
                               (case kfree (km_heap w2) tmp of
                                  None \<Rightarrow> None
                                | Some h2 \<Rightarrow> Some ((int got, out), w2\<lparr>km_heap := h2\<rparr>)))))"

definition vfs_read_at ::
  "'a kmem_scheme vfs \<Rightarrow> string \<Rightarrow> nat \<Rightarrow> nat \<Rightarrow> ((int \<times> u8 list) \<times> 'a kmem_scheme vfs) option" where
  "vfs_read_at s path offset len =
     (if len = 0 then Some ((0, []), s)
      else dispatch s path
             (\<lambda>ops. case op_read_file_at ops of
                      Some f \<Rightarrow> Some (\<lambda>sub. f sub offset len)
                    | None \<Rightarrow> map_option (\<lambda>rd sub. read_window rd sub offset len) (op_read_file ops))
             (-1, []))"

definition vfs_write_file :: "'w vfs \<Rightarrow> string \<Rightarrow> u8 list \<Rightarrow> (int \<times> 'w vfs) option" where
  "vfs_write_file s path data =
     dispatch s path (\<lambda>ops. map_option (\<lambda>f sub. f sub data) (op_write_file ops)) (-1)"

definition vfs_delete_file :: "'w vfs \<Rightarrow> string \<Rightarrow> (int \<times> 'w vfs) option" where
  "vfs_delete_file s path = dispatch s path op_delete_file (-1)"

definition vfs_mkdir :: "'w vfs \<Rightarrow> string \<Rightarrow> (int \<times> 'w vfs) option" where
  "vfs_mkdir s path = dispatch s path op_mkdir (-1)"

definition vfs_rmdir :: "'w vfs \<Rightarrow> string \<Rightarrow> (int \<times> 'w vfs) option" where
  "vfs_rmdir s path = dispatch s path op_rmdir (-1)"

definition vfs_chmod :: "'w vfs \<Rightarrow> string \<Rightarrow> nat \<Rightarrow> (int \<times> 'w vfs) option" where
  "vfs_chmod s path mode =
     dispatch s path (\<lambda>ops. map_option (\<lambda>f sub. f sub mode) (op_chmod ops)) (-1)"

definition vfs_chown :: "'w vfs \<Rightarrow> string \<Rightarrow> nat \<Rightarrow> nat \<Rightarrow> (int \<times> 'w vfs) option" where
  "vfs_chown s path uid gid =
     dispatch s path (\<lambda>ops. map_option (\<lambda>f sub. f sub uid gid) (op_chown ops)) (-1)"

abbreviation (input) XBUF_SIZE :: nat where "XBUF_SIZE \<equiv> 65536"

definition lift_world :: "'w vfs \<Rightarrow> ('r \<times> 'w) option \<Rightarrow> ('r \<times> 'w vfs) option" where
  "lift_world s r = map_option (\<lambda>(r, w). (r, s\<lparr>world := w\<rparr>)) r"

definition cross_copy :: "'w vfs_ops \<Rightarrow> string \<Rightarrow> 'w vfs_ops \<Rightarrow> string \<Rightarrow> (int, 'w) fsop" where
  "cross_copy sops ssub dops dsub w =
     (case (op_read_file sops, op_write_file dops) of
        (Some rd, Some wr) \<Rightarrow>
          (case rd ssub XBUF_SIZE w of
             None \<Rightarrow> None
           | Some ((n, xbuf), w1) \<Rightarrow> if n < 0 then Some (-1, w1) else wr dsub (take (nat n) xbuf) w1)
      | _ \<Rightarrow> Some (-1, w))"

definition vfs_cp :: "'w vfs \<Rightarrow> string \<Rightarrow> string \<Rightarrow> (int \<times> 'w vfs) option" where
  "vfs_cp s src dst =
     (case (resolve_route s src, resolve_route s dst) of
        (Some (sm, ssub), Some (dm, dsub)) \<Rightarrow>
          if sm = dm
          then (case op_cp (ops_at s sm) of
                  None \<Rightarrow> Some (-1, s)
                | Some f \<Rightarrow> lift_world s (f ssub dsub (world s)))
          else lift_world s (cross_copy (ops_at s sm) ssub (ops_at s dm) dsub (world s))
      | _ \<Rightarrow> Some (-1, s))"

definition vfs_mv :: "'w vfs \<Rightarrow> string \<Rightarrow> string \<Rightarrow> (int \<times> 'w vfs) option" where
  "vfs_mv s src dst =
     (case (resolve_route s src, resolve_route s dst) of
        (Some (sm, ssub), Some (dm, dsub)) \<Rightarrow>
          if sm = dm
          then (case op_mv (ops_at s sm) of
                  None \<Rightarrow> Some (-1, s)
                | Some f \<Rightarrow> lift_world s (f ssub dsub (world s)))
          else (case vfs_cp s src dst of
                  None \<Rightarrow> None
                | Some (r, s1) \<Rightarrow>
                    if r < 0 then Some (-1, s1)
                    else (case op_delete_file (ops_at s sm) of
                            None \<Rightarrow> Some (-1, s1)
                          | Some del \<Rightarrow> lift_world s1 (del ssub (world s1))))
      | _ \<Rightarrow> Some (-1, s))"

definition vfs_link :: "'w vfs \<Rightarrow> string \<Rightarrow> string \<Rightarrow> (int \<times> 'w vfs) option" where
  "vfs_link s old new =
     (case (resolve_route s old, resolve_route s new) of
        (Some (om, osub), Some (nm, nsub)) \<Rightarrow>
          if om \<noteq> nm then Some (-1, s)
          else (case op_link (ops_at s om) of
                  None \<Rightarrow> Some (-1, s)
                | Some f \<Rightarrow> lift_world s (f osub nsub (world s)))
      | _ \<Rightarrow> Some (-1, s))"

section \<open>The working directory\<close>

definition vfs_chdir :: "'w vfs \<Rightarrow> string \<Rightarrow> (int \<times> 'w vfs) option" where
  "vfs_chdir s path =
     (case vfs_resolve s path 256 of
        None \<Rightarrow> Some (-1, s)
      | Some abspath \<Rightarrow>
          (case route s abspath 256 of
             None \<Rightarrow> Some (-1, s)
           | Some (i, sub) \<Rightarrow>
               (case op_is_dir (ops_at s i) of
                  None \<Rightarrow> Some (-1, s)
                | Some f \<Rightarrow>
                    (case f sub (world s) of
                       None \<Rightarrow> None
                     | Some (r, w) \<Rightarrow>
                         if r = 0 then Some (-1, s\<lparr>world := w\<rparr>)
                         else Some (0, s\<lparr>world := w, cwd := take 255 abspath\<rparr>)))))"

text \<open>Result and the bytes stored to \<open>out\<close>.\<close>

definition vfs_getcwd :: "'w vfs \<Rightarrow> nat \<Rightarrow> int \<times> u8 list" where
  "vfs_getcwd s max_n =
     (let i = min (length (cwd s)) (u32_sub max_n 1)
      in if i \<ge> max_n then (-1, map byte_of (take i (cwd s)))
         else (int i, map byte_of (take i (cwd s)) @ [0]))"

end
