(* ===== verification/Ramfs.thy ===== *)
theory Ramfs
  imports Vfs
begin

text \<open>
  \<open>src/ramfs.c\<close>: the flat in-memory filesystem mounted at \<open>/tmp\<close>.  File data lives in
  the kernel heap: a file holds the pointer \<open>kmalloc\<close> gave out, and the bytes are in
  \<open>km_bytes\<close>.  Copying from a heap pointer checks the block header in front of it, so
  that a copy out of an area that is no longer in use is a memory fault (\<open>None\<close>).
\<close>

section \<open>State\<close>

record ramfs_file =
  rf_used :: bool
  rf_name :: string
  rf_size :: nat
  rf_data :: nat

record ramfs = kmem +
  rf_files :: "ramfs_file list"

abbreviation (input) RAMFS_MAX_FILES :: nat where "RAMFS_MAX_FILES \<equiv> 64"
abbreviation (input) RAMFS_MAX_SIZE :: nat where "RAMFS_MAX_SIZE \<equiv> 4 * 1024 * 1024"
abbreviation (input) RAMFS_NAME_MAX :: nat where "RAMFS_NAME_MAX \<equiv> 256"

definition ramfs_init :: "'a ramfs_scheme \<Rightarrow> 'a ramfs_scheme" where
  "ramfs_init w = w\<lparr>rf_files := map (\<lambda>f. f\<lparr>rf_used := False, rf_data := 0\<rparr>) (rf_files w)\<rparr>"

definition bare :: "string \<Rightarrow> string" where
  "bare p = (if p \<noteq> [] \<and> hd p = slash then tl p else p)"

definition is_root :: "string \<Rightarrow> bool" where
  "is_root p \<longleftrightarrow> bare p = []"

definition ramfs_find :: "'a ramfs_scheme \<Rightarrow> string \<Rightarrow> nat option" where
  "ramfs_find w name =
     find (\<lambda>i. rf_used (rf_files w ! i) \<and> rf_name (rf_files w ! i) = name) [0..<length (rf_files w)]"

definition upd_file :: "nat \<Rightarrow> (ramfs_file \<Rightarrow> ramfs_file) \<Rightarrow> 'a ramfs_scheme \<Rightarrow> 'a ramfs_scheme" where
  "upd_file i g w = w\<lparr>rf_files := (rf_files w)[i := g (rf_files w ! i)]\<rparr>"

section \<open>Heap buffers\<close>

definition area_ok :: "kheap \<Rightarrow> nat \<Rightarrow> nat \<Rightarrow> bool" where
  "area_ok h p n \<longleftrightarrow>
     (case k_store h (p - HEADER_SIZE) of None \<Rightarrow> False | Some b \<Rightarrow> b_used b \<and> n \<le> b_size b)"

definition heap_bytes :: "nat \<Rightarrow> nat \<Rightarrow> 'a kmem_scheme \<Rightarrow> u8 list option" where
  "heap_bytes p n w = (if area_ok (km_heap w) p n then Some (map (km_bytes w) [p..<p + n]) else None)"

definition store_bytes :: "nat \<Rightarrow> u8 list \<Rightarrow> 'a kmem_scheme \<Rightarrow> 'a kmem_scheme" where
  "store_bytes p bs w =
     w\<lparr>km_bytes := (\<lambda>a. if p \<le> a \<and> a < p + length bs then bs ! (a - p) else km_bytes w a)\<rparr>"

section \<open>Operations\<close>

definition dirent_of :: "ramfs_file \<Rightarrow> vfs_dirent" where
  "dirent_of f = \<lparr>de_name = take 255 (rf_name f), de_size = rf_size f, de_first_cluster = 0, de_attr = 0\<rparr>"

definition ramfs_list :: "string \<Rightarrow> int \<Rightarrow> (int \<times> vfs_dirent list, 'a ramfs_scheme) fsop" where
  "ramfs_list p max_n w =
     (if \<not> is_root p then Some ((-1, []), w)
      else let es = take (nat max_n) (map dirent_of (filter rf_used (rf_files w)))
           in Some ((int (length es), es), w))"

definition ramfs_is_dir :: "string \<Rightarrow> (int, 'a ramfs_scheme) fsop" where
  "ramfs_is_dir p w = Some (if is_root p then 1 else 0, w)"

definition ramfs_read_file :: "string \<Rightarrow> nat \<Rightarrow> (int \<times> u8 list, 'a ramfs_scheme) fsop" where
  "ramfs_read_file p max_n w =
     (if is_root p then Some ((-1, []), w)
      else case ramfs_find w (bare p) of
             None \<Rightarrow> Some ((-1, []), w)
           | Some i \<Rightarrow>
               let f = rf_files w ! i
               in if rf_data f = 0 then Some ((-1, []), w)
                  else let n = (if rf_size f < max_n then rf_size f else max_n)
                       in map_option (\<lambda>bs. ((to_int n, bs), w)) (heap_bytes (rf_data f) n w))"

text \<open>The slot \<open>ramfs_write_file\<close> works on: the file of that name, or the first free slot,
  set up with the name.\<close>

definition take_slot :: "string \<Rightarrow> 'a ramfs_scheme \<Rightarrow> (nat \<times> 'a ramfs_scheme) option" where
  "take_slot name w =
     (case ramfs_find w name of
        Some i \<Rightarrow> Some (i, w)
      | None \<Rightarrow>
          (case find (\<lambda>i. \<not> rf_used (rf_files w ! i)) [0..<length (rf_files w)] of
             None \<Rightarrow> None
           | Some i \<Rightarrow>
               Some (i, upd_file i (\<lambda>f. f\<lparr>rf_used := True, rf_data := 0, rf_size := 0, rf_name := name\<rparr>) w)))"

definition drop_data :: "nat \<Rightarrow> 'a ramfs_scheme \<Rightarrow> 'a ramfs_scheme option" where
  "drop_data i w =
     (let p = rf_data (rf_files w ! i)
      in if p \<noteq> 0
         then map_option (\<lambda>h. upd_file i (\<lambda>f. f\<lparr>rf_data := 0\<rparr>) (w\<lparr>km_heap := h\<rparr>)) (kfree (km_heap w) p)
         else Some w)"

text \<open>\<open>src\<close> is the source buffer: it is read when the copy happens, after the old data was freed.\<close>

definition fill_slot ::
  "nat \<Rightarrow> nat \<Rightarrow> ('a ramfs_scheme \<Rightarrow> u8 list option) \<Rightarrow> (int, 'a ramfs_scheme) fsop" where
  "fill_slot i sz src w =
     (case kmalloc (km_heap w) (if sz \<noteq> 0 then sz else 1) of
        None \<Rightarrow> None
      | Some (p, h) \<Rightarrow>
          let w1 = upd_file i (\<lambda>f. f\<lparr>rf_data := p\<rparr>) (w\<lparr>km_heap := h\<rparr>)
          in if p = 0 then Some (-1, upd_file i (\<lambda>f. f\<lparr>rf_used := False\<rparr>) w1)
             else (case src w1 of
                     None \<Rightarrow> None
                   | Some bs \<Rightarrow>
                       Some (to_int sz, upd_file i (\<lambda>f. f\<lparr>rf_size := sz\<rparr>) (store_bytes p bs w1))))"

definition ramfs_write_from ::
  "string \<Rightarrow> nat \<Rightarrow> ('a ramfs_scheme \<Rightarrow> u8 list option) \<Rightarrow> (int, 'a ramfs_scheme) fsop" where
  "ramfs_write_from p sz src w =
     (if is_root p then Some (-1, w)
      else if sz > RAMFS_MAX_SIZE then Some (-1, w)
      else let name = bare p
           in if length name \<ge> RAMFS_NAME_MAX then Some (-1, w)
              else case take_slot name w of
                     None \<Rightarrow> Some (-1, w)
                   | Some (i, w1) \<Rightarrow>
                       (case drop_data i w1 of None \<Rightarrow> None | Some w2 \<Rightarrow> fill_slot i sz src w2))"

definition ramfs_write_file :: "string \<Rightarrow> u8 list \<Rightarrow> (int, 'a ramfs_scheme) fsop" where
  "ramfs_write_file p data w = ramfs_write_from p (length data) (\<lambda>_. Some data) w"

definition ramfs_delete_file :: "string \<Rightarrow> (int, 'a ramfs_scheme) fsop" where
  "ramfs_delete_file p w =
     (if is_root p then Some (-1, w)
      else case ramfs_find w (bare p) of
             None \<Rightarrow> Some (-1, w)
           | Some i \<Rightarrow>
               map_option (\<lambda>w1. (0, upd_file i (\<lambda>f. f\<lparr>rf_used := False\<rparr>) w1)) (drop_data i w))"

definition ramfs_mkdir :: "string \<Rightarrow> (int, 'a ramfs_scheme) fsop" where
  "ramfs_mkdir p w = Some (-1, w)"

definition ramfs_rmdir :: "string \<Rightarrow> (int, 'a ramfs_scheme) fsop" where
  "ramfs_rmdir p w = Some (-1, w)"

definition ramfs_cp :: "string \<Rightarrow> string \<Rightarrow> (int, 'a ramfs_scheme) fsop" where
  "ramfs_cp src dst w =
     (case ramfs_find w (bare src) of
        None \<Rightarrow> Some (-1, w)
      | Some i \<Rightarrow>
          let f = rf_files w ! i
          in if rf_data f = 0 then Some (-1, w)
             else ramfs_write_from dst (rf_size f) (heap_bytes (rf_data f) (rf_size f)) w)"

definition ramfs_mv :: "string \<Rightarrow> string \<Rightarrow> (int, 'a ramfs_scheme) fsop" where
  "ramfs_mv src dst w =
     (case ramfs_cp src dst w of
        None \<Rightarrow> None
      | Some (r, w1) \<Rightarrow> if r < 0 then Some (-1, w1) else ramfs_delete_file src w1)"

definition ramfs_vfs_ops :: "'a ramfs_scheme vfs_ops" where
  "ramfs_vfs_ops = \<lparr>op_list = Some ramfs_list, op_is_dir = Some ramfs_is_dir,
     op_read_file = Some ramfs_read_file, op_read_file_at = None,
     op_write_file = Some ramfs_write_file, op_delete_file = Some ramfs_delete_file,
     op_mkdir = Some ramfs_mkdir, op_rmdir = Some ramfs_rmdir, op_cp = Some ramfs_cp,
     op_mv = Some ramfs_mv, op_link = None, op_chmod = None, op_chown = None\<rparr>"

section \<open>Contents and invariant\<close>

definition fbytes :: "'a ramfs_scheme \<Rightarrow> nat \<Rightarrow> u8 list" where
  "fbytes w i =
     map (km_bytes w) [rf_data (rf_files w ! i)..<rf_data (rf_files w ! i) + rf_size (rf_files w ! i)]"

definition contents :: "'a ramfs_scheme \<Rightarrow> string \<Rightarrow> u8 list option" where
  "contents w name = map_option (fbytes w) (ramfs_find w name)"

definition file_ok :: "kheap \<Rightarrow> ramfs_file \<Rightarrow> bool" where
  "file_ok h f \<longleftrightarrow>
     rf_name f \<noteq> [] \<and> length (rf_name f) < RAMFS_NAME_MAX \<and> rf_size f \<le> RAMFS_MAX_SIZE \<and>
     (\<exists>m. (rf_data f, m) \<in> heap_areas h \<and> rf_size f \<le> m \<and> 0 < m)"

text \<open>The invariant with the slots of \<open>X\<close> left out: these are being worked on.\<close>

definition ramfs_inv_but :: "nat set \<Rightarrow> 'a ramfs_scheme \<Rightarrow> bool" where
  "ramfs_inv_but X w \<longleftrightarrow>
     length (rf_files w) = RAMFS_MAX_FILES \<and> heap_inv (km_heap w) \<and>
     (\<forall>i < RAMFS_MAX_FILES. i \<notin> X \<longrightarrow>
        (if rf_used (rf_files w ! i) then file_ok (km_heap w) (rf_files w ! i) else rf_data (rf_files w ! i) = 0)) \<and>
     (\<forall>i < RAMFS_MAX_FILES. \<forall>j < RAMFS_MAX_FILES. rf_used (rf_files w ! i) \<and> rf_used (rf_files w ! j) \<and>
        rf_name (rf_files w ! i) = rf_name (rf_files w ! j) \<longrightarrow> i = j) \<and>
     (\<forall>i < RAMFS_MAX_FILES. \<forall>j < RAMFS_MAX_FILES. i \<notin> X \<and> j \<notin> X \<and> rf_used (rf_files w ! i) \<and>
        rf_used (rf_files w ! j) \<and> rf_data (rf_files w ! i) = rf_data (rf_files w ! j) \<longrightarrow> i = j)"

abbreviation ramfs_inv :: "'a ramfs_scheme \<Rightarrow> bool" where
  "ramfs_inv w \<equiv> ramfs_inv_but {} w"

end
