(* ===== verification/Ramfs_Correct.thy ===== *)
theory Ramfs_Correct
  imports Ramfs
begin

text \<open>
  \<open>src/ramfs.c\<close> implements a finite map from names to contents.  Each step of
  \<open>ramfs_write_file\<close> (take a slot, free its data, allocate and fill) works on one slot
  and leaves the other files alone (\<open>others\<close>); the heap enters only through its
  contract (\<open>kmalloc_client\<close>, \<open>kfree_client\<close>).
\<close>

section \<open>Areas of the heap\<close>

lemma heap_area_header:
  assumes "heap_inv h" "(p, m) \<in> heap_areas h"
  shows "p \<noteq> 0" "area_ok h p n \<longleftrightarrow> n \<le> m"
proof -
  obtain bs where ok: "heap_ok h bs" using assms(1) by (auto simp: heap_inv_def)
  then obtain x where x: "p = x + HEADER_SIZE" "(x, m, True) \<in> set bs"
    using assms(2) heap_areas_eq [OF ok] by (auto simp: live_def)
  then show "p \<noteq> 0" by simp
  obtain pre post where "bs = pre @ (x, m, True) # post" using x(2) by (meson split_list)
  then have "\<exists>nx. k_store h x = Some \<lparr>b_size = m, b_used = True, b_next = nx\<rparr>"
    using ok by (auto simp: heap_ok_def block_path_append)
  then show "area_ok h p n \<longleftrightarrow> n \<le> m" using x(1) by (auto simp: area_ok_def)
qed

lemma heap_area_unique:
  assumes "heap_inv h" "(p, m) \<in> heap_areas h" "(p, k) \<in> heap_areas h"
  shows "m = k"
proof -
  obtain bs where ok: "heap_ok h bs" using assms(1) by (auto simp: heap_inv_def)
  then obtain x where x: "(x, m, True) \<in> set bs" "(x, k, True) \<in> set bs"
    using assms(2,3) heap_areas_eq [OF ok] by (auto simp: live_def)
  have "tiles (heap_start h) bs (heap_end h)" using ok by (simp add: heap_ok_def)
  from tiles_disjoint [OF this x] show ?thesis by auto
qed

section \<open>Looking up files\<close>

lemma ramfs_find_None:
  "ramfs_find w n = None \<longleftrightarrow>
     (\<forall>i < length (rf_files w). \<not> (rf_used (rf_files w ! i) \<and> rf_name (rf_files w ! i) = n))"
  by (auto simp: ramfs_find_def find_None_iff)

lemma ramfs_find_SomeD:
  "ramfs_find w n = Some i \<Longrightarrow>
     i < length (rf_files w) \<and> rf_used (rf_files w ! i) \<and> rf_name (rf_files w ! i) = n"
  by (auto simp: ramfs_find_def find_Some_iff)

lemma ramfs_find_iff:
  assumes "ramfs_inv_but X w"
  shows "ramfs_find w n = Some i \<longleftrightarrow>
    i < RAMFS_MAX_FILES \<and> rf_used (rf_files w ! i) \<and> rf_name (rf_files w ! i) = n"
proof
  assume "ramfs_find w n = Some i"
  then show "i < RAMFS_MAX_FILES \<and> rf_used (rf_files w ! i) \<and> rf_name (rf_files w ! i) = n"
    using ramfs_find_SomeD [of w n i] assms by (simp add: ramfs_inv_but_def)
next
  assume i: "i < RAMFS_MAX_FILES \<and> rf_used (rf_files w ! i) \<and> rf_name (rf_files w ! i) = n"
  then obtain j where j: "ramfs_find w n = Some j"
    using assms by (cases "ramfs_find w n") (auto simp: ramfs_find_None ramfs_inv_but_def)
  then show "ramfs_find w n = Some i"
    using ramfs_find_SomeD [OF j] i assms by (auto simp: ramfs_inv_but_def)
qed

section \<open>Working on one slot\<close>

definition others :: "nat \<Rightarrow> 'a ramfs_scheme \<Rightarrow> 'a ramfs_scheme \<Rightarrow> bool" where
  "others i w w' \<longleftrightarrow> length (rf_files w') = length (rf_files w) \<and>
     (\<forall>j < RAMFS_MAX_FILES. j \<noteq> i \<longrightarrow> rf_files w' ! j = rf_files w ! j \<and>
        (rf_used (rf_files w ! j) \<longrightarrow> fbytes w' j = fbytes w j))"

lemma others_trans: "others i w1 w2 \<Longrightarrow> others i w2 w3 \<Longrightarrow> others i w1 w3"
  unfolding others_def by auto

text \<open>Slot \<open>i\<close> may be used for the name \<open>nm\<close>.\<close>

definition slot_for :: "string \<Rightarrow> nat \<Rightarrow> 'a ramfs_scheme \<Rightarrow> bool" where
  "slot_for nm i w \<longleftrightarrow> i < RAMFS_MAX_FILES \<and> (rf_used (rf_files w ! i) \<longrightarrow> rf_name (rf_files w ! i) = nm) \<and>
     (\<forall>j < RAMFS_MAX_FILES. j \<noteq> i \<and> rf_used (rf_files w ! j) \<longrightarrow> rf_name (rf_files w ! j) \<noteq> nm)"

lemma contents_others:
  assumes inv: "ramfs_inv w" "ramfs_inv w'" and o: "others i w w'" and s: "slot_for nm i w"
    and nm: "rf_used (rf_files w' ! i) \<Longrightarrow> rf_name (rf_files w' ! i) = nm"
  shows "contents w' = (contents w)(nm := if rf_used (rf_files w' ! i) then Some (fbytes w' i) else None)"
proof
  fix n
  have same: "rf_files w' ! j = rf_files w ! j" "rf_used (rf_files w ! j) \<Longrightarrow> fbytes w' j = fbytes w j"
    if "j < RAMFS_MAX_FILES" "j \<noteq> i" for j
    using o that by (auto simp: others_def)
  show "contents w' n = ((contents w)(nm := if rf_used (rf_files w' ! i) then Some (fbytes w' i) else None)) n"
  proof (cases "n = nm")
    case True
    have "ramfs_find w' nm = (if rf_used (rf_files w' ! i) then Some i else None)"
    proof (cases "rf_used (rf_files w' ! i)")
      case used: True
      then show ?thesis using ramfs_find_iff [OF inv(2)] nm s by (auto simp: slot_for_def)
    next
      case False
      have "ramfs_find w' nm \<noteq> Some j" for j
        using ramfs_find_iff [OF inv(2), of nm j] same [of j] s False
        by (cases "j = i") (auto simp: slot_for_def)
      then show ?thesis using False by (cases "ramfs_find w' nm") auto
    qed
    then show ?thesis using True by (simp add: contents_def)
  next
    case False
    have eq: "ramfs_find w' n = Some j \<longleftrightarrow> ramfs_find w n = Some j" for j
      using ramfs_find_iff [OF inv(1), of n j] ramfs_find_iff [OF inv(2), of n j] same [of j] s nm False
      by (cases "j = i") (auto simp: slot_for_def)
    show ?thesis
    proof (cases "ramfs_find w n")
      case None
      then show ?thesis using eq False by (cases "ramfs_find w' n") (auto simp: contents_def)
    next
      case (Some j)
      then have "j < RAMFS_MAX_FILES" "rf_used (rf_files w ! j)" "j \<noteq> i"
        using ramfs_find_iff [OF inv(1), of n j] s False by (auto simp: slot_for_def)
      then show ?thesis using Some eq [of j] same(2) [of j] False by (simp add: contents_def)
    qed
  qed
qed

text \<open>Slot \<open>i\<close> has no data, or data of its own.\<close>

definition own_data :: "nat \<Rightarrow> 'a ramfs_scheme \<Rightarrow> bool" where
  "own_data i w \<longleftrightarrow> rf_data (rf_files w ! i) = 0 \<or>
     (\<exists>m. (rf_data (rf_files w ! i), m) \<in> heap_areas (km_heap w)) \<and>
     (\<forall>j < RAMFS_MAX_FILES. j \<noteq> i \<and> rf_used (rf_files w ! j) \<longrightarrow>
        rf_data (rf_files w ! j) \<noteq> rf_data (rf_files w ! i))"

lemma inv_own_data:
  assumes "ramfs_inv w" "i < RAMFS_MAX_FILES"
  shows "ramfs_inv_but {i} w \<and> own_data i w"
proof -
  have "own_data i w"
    using assms unfolding ramfs_inv_but_def own_data_def file_ok_def by (metis empty_iff)
  then show ?thesis using assms by (auto simp: ramfs_inv_but_def)
qed

lemma upd_file_nth:
  "i < length (rf_files w) \<Longrightarrow> rf_files (upd_file i g w) ! j = (if j = i then g (rf_files w ! i) else rf_files w ! j)"
  by (simp add: upd_file_def)

lemma upd_file_simps [simp]:
  "length (rf_files (upd_file i g w)) = length (rf_files w)"
  "km_heap (upd_file i g w) = km_heap w" "km_bytes (upd_file i g w) = km_bytes w"
  by (simp_all add: upd_file_def)

lemma fbytes_upd_file: "i < length (rf_files w) \<Longrightarrow> j \<noteq> i \<Longrightarrow> fbytes (upd_file i g w) j = fbytes w j"
  by (simp add: fbytes_def upd_file_nth)

lemma ramfs_inv_but_cong:
  assumes "ramfs_inv_but {i} w" "others i w w'" "heap_inv (km_heap w')"
    and "\<And>j m. j < RAMFS_MAX_FILES \<Longrightarrow> j \<noteq> i \<Longrightarrow> rf_used (rf_files w ! j) \<Longrightarrow>
      (rf_data (rf_files w ! j), m) \<in> heap_areas (km_heap w) \<Longrightarrow>
      (rf_data (rf_files w ! j), m) \<in> heap_areas (km_heap w')"
    and "i < RAMFS_MAX_FILES"
    and "rf_used (rf_files w' ! i) \<Longrightarrow>
      \<forall>j < RAMFS_MAX_FILES. j \<noteq> i \<and> rf_used (rf_files w ! j) \<longrightarrow> rf_name (rf_files w ! j) \<noteq> rf_name (rf_files w' ! i)"
  shows "ramfs_inv_but {i} w'"
proof -
  have same: "rf_files w' ! j = rf_files w ! j" if "j < RAMFS_MAX_FILES" "j \<noteq> i" for j
    using assms(2) that by (simp add: others_def)
  have "file_ok (km_heap w') (rf_files w ! j)"
    if "j < RAMFS_MAX_FILES" "j \<noteq> i" "rf_used (rf_files w ! j)" for j
    using assms(1,4) that unfolding ramfs_inv_but_def file_ok_def by (metis singletonD)
  then have fo: "\<forall>j < RAMFS_MAX_FILES. j \<notin> {i} \<longrightarrow>
      (if rf_used (rf_files w' ! j) then file_ok (km_heap w') (rf_files w' ! j) else rf_data (rf_files w' ! j) = 0)"
    using assms(1) same by (auto simp: ramfs_inv_but_def)
  have names: "\<forall>j < RAMFS_MAX_FILES. \<forall>k < RAMFS_MAX_FILES. rf_used (rf_files w' ! j) \<and> rf_used (rf_files w' ! k) \<and>
      rf_name (rf_files w' ! j) = rf_name (rf_files w' ! k) \<longrightarrow> j = k"
  proof (intro allI impI)
    fix j k
    assume j: "j < RAMFS_MAX_FILES" and k: "k < RAMFS_MAX_FILES" and u: "rf_used (rf_files w' ! j) \<and>
      rf_used (rf_files w' ! k) \<and> rf_name (rf_files w' ! j) = rf_name (rf_files w' ! k)"
    have "rf_used (rf_files w ! j) \<and> rf_used (rf_files w ! k) \<and> rf_name (rf_files w ! j) = rf_name (rf_files w ! k) \<longrightarrow> j = k"
      using assms(1) j k unfolding ramfs_inv_but_def by blast
    then show "j = k"
      using u j k same [of j] same [of k] assms(6) by (cases "j = i"; cases "k = i") auto
  qed
  have data: "\<forall>j < RAMFS_MAX_FILES. \<forall>k < RAMFS_MAX_FILES. j \<notin> {i} \<and> k \<notin> {i} \<and> rf_used (rf_files w' ! j) \<and>
      rf_used (rf_files w' ! k) \<and> rf_data (rf_files w' ! j) = rf_data (rf_files w' ! k) \<longrightarrow> j = k"
    using assms(1) same unfolding ramfs_inv_but_def by (metis singletonI)
  have len: "length (rf_files w') = RAMFS_MAX_FILES"
    using assms(1,2) by (simp add: ramfs_inv_but_def others_def)
  show ?thesis unfolding ramfs_inv_but_def by (intro conjI len assms(3) fo names data)
qed

lemma take_slot_correct:
  assumes inv: "ramfs_inv w" and t: "take_slot nm w = Some (i, w1)"
  shows "slot_for nm i w" "ramfs_inv_but {i} w1" "others i w w1" "own_data i w1"
    "rf_used (rf_files w1 ! i)" "rf_name (rf_files w1 ! i) = nm" "km_heap w1 = km_heap w"
proof -
  have "slot_for nm i w \<and> ramfs_inv_but {i} w1 \<and> others i w w1 \<and> own_data i w1 \<and>
    rf_used (rf_files w1 ! i) \<and> rf_name (rf_files w1 ! i) = nm \<and> km_heap w1 = km_heap w"
  proof (cases "ramfs_find w nm")
    case (Some j)
    then have j: "j = i" "w1 = w" using t by (auto simp: take_slot_def)
    then have i: "i < RAMFS_MAX_FILES" "rf_used (rf_files w ! i)" "rf_name (rf_files w ! i) = nm"
      using ramfs_find_iff [OF inv, of nm i] Some by auto
    have "slot_for nm i w" using i inv unfolding slot_for_def ramfs_inv_but_def by metis
    then show ?thesis using i j inv_own_data [OF inv i(1)] by (auto simp: others_def)
  next
    case None
    let ?g = "\<lambda>f. f\<lparr>rf_used := True, rf_data := 0, rf_size := 0, rf_name := nm\<rparr>"
    have w1: "w1 = upd_file i ?g w" and i: "i < length (rf_files w)" "\<not> rf_used (rf_files w ! i)"
      using t None by (auto simp: take_slot_def find_Some_iff split: option.splits)
    have len: "length (rf_files w) = RAMFS_MAX_FILES" and hi: "heap_inv (km_heap w)"
      using inv by (simp_all add: ramfs_inv_but_def)
    have fresh: "\<forall>j < RAMFS_MAX_FILES. rf_used (rf_files w ! j) \<longrightarrow> rf_name (rf_files w ! j) \<noteq> nm"
      using None len by (auto simp: ramfs_find_None)
    have o: "others i w w1" using i by (simp add: w1 others_def upd_file_nth fbytes_upd_file)
    have "ramfs_inv_but {i} w1"
      by (rule ramfs_inv_but_cong [OF inv_own_data [OF inv, THEN conjunct1] o])
        (use i len fresh hi in \<open>simp_all add: w1 upd_file_nth\<close>)
    then show ?thesis
      using o i len fresh by (auto simp: slot_for_def own_data_def w1 upd_file_nth)
  qed
  then show "slot_for nm i w" "ramfs_inv_but {i} w1" "others i w w1" "own_data i w1"
    "rf_used (rf_files w1 ! i)" "rf_name (rf_files w1 ! i) = nm" "km_heap w1 = km_heap w" by auto
qed

lemma drop_data_correct:
  assumes inv: "ramfs_inv_but {i} w" and i: "i < RAMFS_MAX_FILES" and own: "own_data i w"
    and nm: "rf_used (rf_files w ! i)"
  shows "\<exists>w'. drop_data i w = Some w' \<and> ramfs_inv_but {i} w' \<and> others i w w' \<and>
    rf_files w' ! i = (rf_files w ! i)\<lparr>rf_data := 0\<rparr> \<and> km_bytes w' = km_bytes w \<and>
    (\<forall>q k. (q, k) \<in> heap_areas (km_heap w) \<and> q \<noteq> rf_data (rf_files w ! i) \<longrightarrow> (q, k) \<in> heap_areas (km_heap w'))"
proof (cases "rf_data (rf_files w ! i) = 0")
  case True
  then show ?thesis using inv by (auto simp: drop_data_def others_def)
next
  case False
  let ?p = "rf_data (rf_files w ! i)"
  have len: "length (rf_files w) = RAMFS_MAX_FILES" and hi: "heap_inv (km_heap w)"
    using inv by (auto simp: ramfs_inv_but_def)
  obtain m where m: "(?p, m) \<in> heap_areas (km_heap w)" using own False by (auto simp: own_data_def)
  obtain h where h: "kfree (km_heap w) ?p = Some h" "heap_inv h"
    "heap_areas h = heap_areas (km_heap w) - {(?p, m)}"
    using kfree_client [OF hi m] by auto
  let ?w = "upd_file i (\<lambda>f. f\<lparr>rf_data := 0\<rparr>) (w\<lparr>km_heap := h\<rparr>)"
  have d: "drop_data i w = Some ?w" using False h(1) by (simp add: drop_data_def)
  have o: "others i w ?w"
    using i len by (auto simp: others_def upd_file_nth fbytes_upd_file fbytes_def)
  have keep: "rf_name (rf_files w ! j) \<noteq> rf_name (rf_files w ! i)"
    if "j < RAMFS_MAX_FILES" "j \<noteq> i" "rf_used (rf_files w ! j)" for j
    using inv nm that i unfolding ramfs_inv_but_def by metis
  have "ramfs_inv_but {i} ?w"
    by (rule ramfs_inv_but_cong [OF inv o])
      (use h i len own False keep in \<open>auto simp: own_data_def upd_file_nth\<close>)
  then show ?thesis using d o i len h(3) by (auto simp: upd_file_nth)
qed

lemma inv_close:
  assumes "ramfs_inv_but {i} w" "i < RAMFS_MAX_FILES"
    and "if rf_used (rf_files w ! i)
         then file_ok (km_heap w) (rf_files w ! i) \<and>
           (\<forall>j < RAMFS_MAX_FILES. j \<noteq> i \<and> rf_used (rf_files w ! j) \<longrightarrow>
              rf_data (rf_files w ! j) \<noteq> rf_data (rf_files w ! i))
         else rf_data (rf_files w ! i) = 0"
  shows "ramfs_inv w"
  using assms unfolding ramfs_inv_but_def by (smt (verit) empty_iff singleton_iff)

lemma store_bytes_simps [simp]:
  "rf_files (store_bytes p bs w) = rf_files w" "km_heap (store_bytes p bs w) = km_heap w"
  by (simp_all add: store_bytes_def)

lemma fbytes_store_apart:
  assumes "apart (rf_data (rf_files w ! j), k) (p, m)" "rf_size (rf_files w ! j) \<le> k" "length bs \<le> m"
  shows "fbytes (store_bytes p bs w) j = fbytes w j"
  using assms by (auto simp: fbytes_def store_bytes_def apart_def)

lemma map_store_bytes: "map (km_bytes (store_bytes p bs w)) [p..<p + length bs] = bs"
  by (rule nth_equalityI) (simp_all add: store_bytes_def)

lemma fill_slot_correct:
  assumes inv: "ramfs_inv_but {i} w" and i: "i < RAMFS_MAX_FILES" and sz: "sz \<le> RAMFS_MAX_SIZE"
    and f: "rf_used (rf_files w ! i)" "rf_name (rf_files w ! i) \<noteq> []" "length (rf_name (rf_files w ! i)) < RAMFS_NAME_MAX"
    and src: "\<And>w3. heap_inv (km_heap w3) \<Longrightarrow> heap_areas (km_heap w) \<subseteq> heap_areas (km_heap w3) \<Longrightarrow>
      km_bytes w3 = km_bytes w \<Longrightarrow> src w3 = Some bs"
    and bs: "length bs = sz"
  shows "\<exists>r w'. fill_slot i sz src w = Some (r, w') \<and> ramfs_inv w' \<and> others i w w' \<and>
    (if rf_used (rf_files w' ! i)
     then r = int sz \<and> rf_name (rf_files w' ! i) = rf_name (rf_files w ! i) \<and> fbytes w' i = bs
     else r = -1)"
proof -
  have len: "length (rf_files w) = RAMFS_MAX_FILES" and hi: "heap_inv (km_heap w)"
    using inv by (auto simp: ramfs_inv_but_def)
  let ?n = "if sz \<noteq> 0 then sz else 1"
  have n: "fits_u32 ?n" "0 < ?n" using sz by (auto simp: fits_u32_def)
  obtain p h where k: "kmalloc (km_heap w) ?n = Some (p, h)" "heap_inv h"
    and r: "if p = 0 then heap_areas h = heap_areas (km_heap w)
     else 8 dvd p \<and> (\<exists>m \<ge> ?n. heap_areas h = insert (p, m) (heap_areas (km_heap w)) \<and>
       heap_start h + HEADER_SIZE \<le> p \<and> p + m \<le> heap_end h \<and>
       (\<forall>b \<in> heap_areas (km_heap w). apart (p, m) b))"
    using kmalloc_client [OF hi n(1)] by blast
  have names: "\<forall>j < RAMFS_MAX_FILES. j \<noteq> i \<and> rf_used (rf_files w ! j) \<longrightarrow>
      rf_name (rf_files w ! j) \<noteq> rf_name (rf_files w ! i)"
    using inv f(1) i unfolding ramfs_inv_but_def by metis
  define w1 where "w1 = upd_file i (\<lambda>f. f\<lparr>rf_data := p\<rparr>) (w\<lparr>km_heap := h\<rparr>)"
  have w1: "km_heap w1 = h" "km_bytes w1 = km_bytes w" "length (rf_files w1) = RAMFS_MAX_FILES"
    "\<And>j. rf_files w1 ! j = (if j = i then (rf_files w ! i)\<lparr>rf_data := p\<rparr> else rf_files w ! j)"
    using i len by (simp_all add: w1_def upd_file_nth)
  have sub: "heap_areas (km_heap w) \<subseteq> heap_areas h" using r by (auto split: if_splits)
  show ?thesis
  proof (cases "p = 0")
    case True
    define w' where "w' = upd_file i (\<lambda>f. f\<lparr>rf_used := False\<rparr>) w1"
    have w': "km_heap w' = h" "rf_files w' ! i = (rf_files w ! i)\<lparr>rf_data := 0, rf_used := False\<rparr>"
      using w1 i True by (simp_all add: w'_def upd_file_nth)
    have o: "others i w w'" using w1 i len by (auto simp: w'_def others_def upd_file_nth fbytes_def)
    have "ramfs_inv_but {i} w'"
      by (rule ramfs_inv_but_cong [OF inv o]) (use w' sub k(2) i in auto)
    then have "ramfs_inv w'" by (rule inv_close [OF _ i]) (use w' in simp)
    moreover have "fill_slot i sz src w = Some (-1, w')"
      using k(1) True by (simp add: fill_slot_def w'_def w1_def)
    ultimately show ?thesis using o w' by auto
  next
    case False
    then obtain m where m: "?n \<le> m" "heap_areas h = insert (p, m) (heap_areas (km_heap w))"
      "\<forall>b \<in> heap_areas (km_heap w). apart (p, m) b"
      using r by auto
    define w' where "w' = upd_file i (\<lambda>f. f\<lparr>rf_size := sz\<rparr>) (store_bytes p bs w1)"
    have w': "km_heap w' = h" "rf_files w' ! i = (rf_files w ! i)\<lparr>rf_data := p, rf_size := sz\<rparr>"
      "length (rf_files w') = RAMFS_MAX_FILES" "\<And>j. j \<noteq> i \<Longrightarrow> rf_files w' ! j = rf_files w ! j"
      using w1 i by (simp_all add: w'_def upd_file_nth)
    have other: "fbytes w' j = fbytes w j \<and> rf_data (rf_files w ! j) \<noteq> p"
      if j: "j < RAMFS_MAX_FILES" "j \<noteq> i" "rf_used (rf_files w ! j)" for j
    proof -
      obtain k where k: "(rf_data (rf_files w ! j), k) \<in> heap_areas (km_heap w)" "rf_size (rf_files w ! j) \<le> k" "0 < k"
        using inv j unfolding ramfs_inv_but_def file_ok_def by (metis singletonD)
      then have a: "apart (rf_data (rf_files w1 ! j), k) (p, m)"
        using m(3) w1(4) [of j] j(2) apart_commute by auto
      have "fbytes (store_bytes p bs w1) j = fbytes w1 j"
        by (rule fbytes_store_apart [OF a]) (use k w1(4) j m(1) bs in \<open>auto split: if_splits\<close>)
      moreover have "fbytes w1 j = fbytes w j" using w1 j by (simp add: fbytes_def)
      moreover have "rf_data (rf_files w ! j) \<noteq> p"
        using a w1(4) j(2) k(3) m(1) n(2) by (auto simp: apart_def)
      ultimately show ?thesis using j(2) i w1(3) by (simp add: w'_def fbytes_upd_file)
    qed
    have o: "others i w w'" using w' other len by (auto simp: others_def)
    have "ramfs_inv_but {i} w'"
      by (rule ramfs_inv_but_cong [OF inv o]) (use w' sub k(2) i names in auto)
    moreover have "file_ok h (rf_files w' ! i)"
    proof -
      have "sz \<le> m \<and> 0 < m" using m(1) n(2) by (cases "sz = 0") simp_all
      then show ?thesis using w'(2) m(2) f sz by (auto simp: file_ok_def)
    qed
    moreover have "\<forall>j < RAMFS_MAX_FILES. j \<noteq> i \<and> rf_used (rf_files w' ! j) \<longrightarrow> rf_data (rf_files w' ! j) \<noteq> p"
      using other w'(4) by metis
    ultimately have inv': "ramfs_inv w'"
      by (intro inv_close [OF _ i]) (use w' f(1) in simp_all)
    have "src w1 = Some bs" by (rule src) (use w1 k(2) sub in auto)
    then have "fill_slot i sz src w = Some (int sz, w')"
      using k(1) False sz by (simp add: fill_slot_def w'_def w1_def [symmetric] to_int_def)
    moreover have "fbytes w' i = bs"
      using w'(2) map_store_bytes [of p bs w1] bs by (simp add: fbytes_def) (simp add: w'_def)
    ultimately show ?thesis using inv' o w' f(1) by auto
  qed
qed

section \<open>The operations\<close>

lemma write_from_correct:
  assumes inv: "ramfs_inv w" and p: "\<not> is_root p" "length (bare p) < RAMFS_NAME_MAX"
    and sz: "sz \<le> RAMFS_MAX_SIZE" "length bs = sz"
    and src: "\<And>i w3. slot_for (bare p) i w \<Longrightarrow> heap_inv (km_heap w3) \<Longrightarrow>
      \<forall>q k. (q, k) \<in> heap_areas (km_heap w) \<and> (q \<noteq> rf_data (rf_files w ! i) \<or> \<not> rf_used (rf_files w ! i)) \<longrightarrow>
        (q, k) \<in> heap_areas (km_heap w3) \<Longrightarrow>
      km_bytes w3 = km_bytes w \<Longrightarrow> src w3 = Some bs"
  shows "\<exists>r w'. ramfs_write_from p sz src w = Some (r, w') \<and> ramfs_inv w' \<and>
    (r = int sz \<and> contents w' = (contents w)(bare p \<mapsto> bs) \<or>
     r = -1 \<and> (contents w' = contents w \<or> contents w' = (contents w)(bare p := None)))"
proof (cases "take_slot (bare p) w")
  case None
  then show ?thesis using inv p sz by (simp add: ramfs_write_from_def)
next
  case (Some s1)
  obtain i w1 where s1: "s1 = (i, w1)" by (cases s1)
  note t = take_slot_correct [OF inv Some [unfolded s1]]
  have i: "i < RAMFS_MAX_FILES" using t(1) by (simp add: slot_for_def)
  have b1: "km_bytes w1 = km_bytes w" using Some s1 by (auto simp: take_slot_def split: option.splits)
  have d1: "rf_data (rf_files w1 ! i) = (if rf_used (rf_files w ! i) then rf_data (rf_files w ! i) else 0)"
  proof (cases "ramfs_find w (bare p)")
    case None
    then have "\<not> rf_used (rf_files w ! i)" "rf_data (rf_files w1 ! i) = 0"
      using Some s1 by (auto simp: take_slot_def find_Some_iff upd_file_nth split: option.splits)
    then show ?thesis by simp
  next
    case f: (Some j)
    then have "w1 = w" "j = i" using Some s1 by (auto simp: take_slot_def)
    then show ?thesis using t(5) by simp
  qed
  obtain w2 where w2: "drop_data i w1 = Some w2" "ramfs_inv_but {i} w2" "others i w1 w2"
    "rf_files w2 ! i = (rf_files w1 ! i)\<lparr>rf_data := 0\<rparr>" "km_bytes w2 = km_bytes w1"
    "\<forall>q k. (q, k) \<in> heap_areas (km_heap w1) \<and> q \<noteq> rf_data (rf_files w1 ! i) \<longrightarrow> (q, k) \<in> heap_areas (km_heap w2)"
    using drop_data_correct [OF t(2) i t(4,5)] by auto
  have src2: "src w3 = Some bs" if a: "heap_inv (km_heap w3)" "heap_areas (km_heap w2) \<subseteq> heap_areas (km_heap w3)"
    "km_bytes w3 = km_bytes w2" for w3
  proof (rule src [OF t(1) a(1)])
    show "km_bytes w3 = km_bytes w" using a(3) w2(5) b1 by simp
    have "q \<noteq> 0" if "(q, k) \<in> heap_areas (km_heap w)" for q k
      using heap_area_header [OF _ that] inv by (simp add: ramfs_inv_but_def)
    then show "\<forall>q k. (q, k) \<in> heap_areas (km_heap w) \<and> (q \<noteq> rf_data (rf_files w ! i) \<or> \<not> rf_used (rf_files w ! i)) \<longrightarrow>
        (q, k) \<in> heap_areas (km_heap w3)"
      using a(2) w2(6) d1 t(7) by (auto split: if_splits)
  qed
  have nm: "rf_used (rf_files w2 ! i)" "rf_name (rf_files w2 ! i) = bare p" using w2(4) t(5,6) by auto
  have "rf_name (rf_files w2 ! i) \<noteq> []" "length (rf_name (rf_files w2 ! i)) < RAMFS_NAME_MAX"
    using nm p by (auto simp: is_root_def)
  then have "\<exists>r w'. fill_slot i sz src w2 = Some (r, w') \<and> ramfs_inv w' \<and> others i w2 w' \<and>
    (if rf_used (rf_files w' ! i)
     then r = int sz \<and> rf_name (rf_files w' ! i) = rf_name (rf_files w2 ! i) \<and> fbytes w' i = bs else r = -1)"
    by (rule fill_slot_correct [OF w2(2) i sz(1) nm(1)]) (use src2 sz(2) in auto)
  then obtain r w' where w': "fill_slot i sz src w2 = Some (r, w')" "ramfs_inv w'" "others i w2 w'"
    and c: "if rf_used (rf_files w' ! i)
     then r = int sz \<and> rf_name (rf_files w' ! i) = rf_name (rf_files w2 ! i) \<and> fbytes w' i = bs else r = -1"
    by blast
  have "others i w w'" using others_trans [OF others_trans [OF t(3) w2(3)] w'(3)] .
  from contents_others [OF inv w'(2) this t(1)]
  have "contents w' = (contents w)(bare p := if rf_used (rf_files w' ! i) then Some (fbytes w' i) else None)"
    using c nm by (auto split: if_splits)
  moreover have "ramfs_write_from p sz src w = Some (r, w')"
    using p sz Some s1 w2(1) w'(1) by (simp add: ramfs_write_from_def Let_def)
  ultimately show ?thesis using w'(2) c by (auto split: if_splits)
qed

lemma write_file_correct:
  assumes "ramfs_inv w" "\<not> is_root p" "length (bare p) < RAMFS_NAME_MAX" "length data \<le> RAMFS_MAX_SIZE"
  shows "\<exists>r w'. ramfs_write_file p data w = Some (r, w') \<and> ramfs_inv w' \<and>
    (r = int (length data) \<and> contents w' = (contents w)(bare p \<mapsto> data) \<or>
     r = -1 \<and> (contents w' = contents w \<or> contents w' = (contents w)(bare p := None)))"
  unfolding ramfs_write_file_def by (rule write_from_correct [OF assms(1-4)]) simp_all

lemma find_file_ok:
  assumes "ramfs_inv w" "ramfs_find w n = Some i"
  obtains m where "i < RAMFS_MAX_FILES" "rf_size (rf_files w ! i) \<le> RAMFS_MAX_SIZE" "rf_data (rf_files w ! i) \<noteq> 0"
    "(rf_data (rf_files w ! i), m) \<in> heap_areas (km_heap w)" "rf_size (rf_files w ! i) \<le> m"
    "rf_used (rf_files w ! i)" "rf_name (rf_files w ! i) = n"
proof -
  have i: "i < RAMFS_MAX_FILES" "rf_used (rf_files w ! i)" "rf_name (rf_files w ! i) = n"
    using ramfs_find_iff [OF assms(1)] assms(2) by auto
  then have "file_ok (km_heap w) (rf_files w ! i)" using assms(1) by (auto simp: ramfs_inv_but_def)
  then obtain m where m: "(rf_data (rf_files w ! i), m) \<in> heap_areas (km_heap w)" "rf_size (rf_files w ! i) \<le> m"
    "rf_size (rf_files w ! i) \<le> RAMFS_MAX_SIZE"
    by (auto simp: file_ok_def)
  moreover have "rf_data (rf_files w ! i) \<noteq> 0"
    using heap_area_header(1) [OF _ m(1)] assms(1) by (simp add: ramfs_inv_but_def)
  ultimately show thesis using that i by blast
qed

lemma read_file_correct:
  assumes "ramfs_inv w"
  shows "ramfs_read_file p n w =
    Some (case (if is_root p then None else contents w (bare p)) of
            None \<Rightarrow> (-1, []) | Some data \<Rightarrow> (int (length (take n data)), take n data), w)"
proof (cases "is_root p")
  case False
  show ?thesis
  proof (cases "ramfs_find w (bare p)")
    case None
    then show ?thesis using False by (simp add: ramfs_read_file_def contents_def)
  next
    case (Some i)
    obtain m where f: "rf_size (rf_files w ! i) \<le> RAMFS_MAX_SIZE" "rf_data (rf_files w ! i) \<noteq> 0"
      "(rf_data (rf_files w ! i), m) \<in> heap_areas (km_heap w)" "rf_size (rf_files w ! i) \<le> m"
      using find_file_ok [OF assms Some] by metis
    let ?k = "if rf_size (rf_files w ! i) < n then rf_size (rf_files w ! i) else n"
    have k: "?k = length (take n (fbytes w i))" "?k \<le> rf_size (rf_files w ! i)"
      by (auto simp: fbytes_def min_def)
    have "area_ok (km_heap w) (rf_data (rf_files w ! i)) ?k"
      using heap_area_header(2) [OF _ f(3)] assms f(4) k(2) by (auto simp: ramfs_inv_but_def)
    then have "heap_bytes (rf_data (rf_files w ! i)) ?k w = Some (take n (fbytes w i))"
      by (auto simp: heap_bytes_def fbytes_def take_map min_def)
    then show ?thesis
      using False Some f k by (auto simp: ramfs_read_file_def contents_def to_int_def Let_def)
  qed
qed (simp add: ramfs_read_file_def)

lemma delete_file_correct:
  assumes inv: "ramfs_inv w"
  shows "\<exists>w'. ramfs_delete_file p w =
      Some (if is_root p \<or> contents w (bare p) = None then -1 else 0, w') \<and> ramfs_inv w' \<and>
      contents w' = (if is_root p then contents w else (contents w)(bare p := None))"
proof (cases "is_root p \<or> ramfs_find w (bare p) = None")
  case True
  then show ?thesis using inv by (auto simp: ramfs_delete_file_def contents_def fun_eq_iff)
next
  case False
  then obtain i where fi: "ramfs_find w (bare p) = Some i" and root: "\<not> is_root p" by auto
  have i: "i < RAMFS_MAX_FILES" "rf_used (rf_files w ! i)" "rf_name (rf_files w ! i) = bare p"
    using ramfs_find_iff [OF inv] fi by auto
  have slot: "slot_for (bare p) i w" using i inv unfolding slot_for_def ramfs_inv_but_def by metis
  obtain w1 where w1: "drop_data i w = Some w1" "ramfs_inv_but {i} w1" "others i w w1"
    "rf_files w1 ! i = (rf_files w ! i)\<lparr>rf_data := 0\<rparr>"
    using drop_data_correct [of i w] inv_own_data [OF inv i(1)] i by auto
  define w' where "w' = upd_file i (\<lambda>f. f\<lparr>rf_used := False\<rparr>) w1"
  have len: "i < length (rf_files w1)" using w1(2) i by (simp add: ramfs_inv_but_def)
  have o1: "others i w1 w'" using len by (simp add: w'_def others_def upd_file_nth fbytes_upd_file)
  have hi: "heap_inv (km_heap w1)" using w1(2) by (simp add: ramfs_inv_but_def)
  have "ramfs_inv_but {i} w'"
    by (rule ramfs_inv_but_cong [OF w1(2) o1]) (use len hi i in \<open>simp_all add: w'_def upd_file_nth\<close>)
  then have inv': "ramfs_inv w'"
    by (rule inv_close [OF _ i(1)]) (use len w1(4) in \<open>simp add: w'_def upd_file_nth\<close>)
  have "contents w' = (contents w)(bare p := None)"
    using contents_others [OF inv inv' others_trans [OF w1(3) o1] slot] len by (simp add: w'_def upd_file_nth)
  moreover have "ramfs_delete_file p w = Some (0, w')"
    using root fi w1(1) by (simp add: ramfs_delete_file_def w'_def)
  ultimately show ?thesis using inv' root fi by (auto simp: contents_def)
qed

lemma cp_correct:
  assumes inv: "ramfs_inv w" and c: "contents w (bare src) = Some data"
    and d: "\<not> is_root dst" "length (bare dst) < RAMFS_NAME_MAX" "bare dst \<noteq> bare src"
  shows "\<exists>r w'. ramfs_cp src dst w = Some (r, w') \<and> ramfs_inv w' \<and>
    (r = int (length data) \<and> contents w' = (contents w)(bare dst \<mapsto> data) \<or>
     r = -1 \<and> (contents w' = contents w \<or> contents w' = (contents w)(bare dst := None)))"
proof -
  obtain i where fi: "ramfs_find w (bare src) = Some i" and data: "data = fbytes w i"
    using c by (auto simp: contents_def)
  obtain m where f: "i < RAMFS_MAX_FILES" "rf_size (rf_files w ! i) \<le> RAMFS_MAX_SIZE" "rf_data (rf_files w ! i) \<noteq> 0"
    "(rf_data (rf_files w ! i), m) \<in> heap_areas (km_heap w)" "rf_size (rf_files w ! i) \<le> m"
    "rf_used (rf_files w ! i)" "rf_name (rf_files w ! i) = bare src"
    using find_file_ok [OF inv fi] by metis
  have len: "length data = rf_size (rf_files w ! i)" by (simp add: data fbytes_def)
  have eq: "ramfs_cp src dst w = ramfs_write_from dst (length data) (heap_bytes (rf_data (rf_files w ! i)) (length data)) w"
    using fi f(3) by (simp add: ramfs_cp_def len Let_def)
  show ?thesis
    unfolding eq
  proof (rule write_from_correct [OF inv d(1,2)])
    fix j w3
    assume s: "slot_for (bare dst) j w" and hi: "heap_inv (km_heap w3)"
      and keep: "\<forall>q k. (q, k) \<in> heap_areas (km_heap w) \<and>
        (q \<noteq> rf_data (rf_files w ! j) \<or> \<not> rf_used (rf_files w ! j)) \<longrightarrow> (q, k) \<in> heap_areas (km_heap w3)"
      and b: "km_bytes w3 = km_bytes w"
    have "rf_data (rf_files w ! i) \<noteq> rf_data (rf_files w ! j) \<or> \<not> rf_used (rf_files w ! j)"
      using s inv f(1,6,7) d(3) unfolding slot_for_def ramfs_inv_but_def by (metis empty_iff)
    then have "(rf_data (rf_files w ! i), m) \<in> heap_areas (km_heap w3)" using keep f(4) by blast
    then have "area_ok (km_heap w3) (rf_data (rf_files w ! i)) (length data)"
      using heap_area_header(2) [OF hi] f(5) len by simp
    then show "heap_bytes (rf_data (rf_files w ! i)) (length data) w3 = Some data"
      using b by (simp add: heap_bytes_def data fbytes_def)
  qed (use len f(2) in auto)
qed

end
