(* ===== verification/File_Store.thy ===== *)
theory File_Store
  imports Vfs
begin

text \<open>
  The contract between the VFS and a filesystem that stores whole files: what
  \<open>read_file\<close>, \<open>write_file\<close> and \<open>delete_file\<close> promise about the contents of the paths a
  mount serves, and what the VFS operations then do for a path routed to that mount.
\<close>

lemma better_world [simp]: "better (s\<lparr>world := w\<rparr>) = better s"
  by (simp add: better_def fun_eq_iff)

lemma route_world [simp]: "route (s\<lparr>world := w\<rparr>) p n = route s p n"
  by (simp add: route_def split: option.split)

lemma resolve_route_world [simp]: "resolve_route (s\<lparr>world := w\<rparr>) p = resolve_route s p"
  by (simp add: resolve_route_def vfs_resolve_def split: option.split)

lemma ops_at_world [simp]: "ops_at (s\<lparr>world := w\<rparr>) i = ops_at s i"
  by (simp add: ops_at_def)

locale file_store =
  fixes ops :: "'w vfs_ops"
    and rd :: "string \<Rightarrow> nat \<Rightarrow> (int \<times> u8 list, 'w) fsop"
    and wr :: "string \<Rightarrow> u8 list \<Rightarrow> (int, 'w) fsop"
    and del :: "string \<Rightarrow> (int, 'w) fsop"
    and stored :: "'w \<Rightarrow> string \<Rightarrow> u8 list option"
    and inv :: "'w \<Rightarrow> bool"
    and serves :: "string \<Rightarrow> bool"
    and limit :: nat
  assumes provides: "op_read_file ops = Some rd" "op_write_file ops = Some wr" "op_delete_file ops = Some del"
    and read_law: "inv w \<Longrightarrow> serves p \<Longrightarrow>
      \<exists>w'. rd p n w = Some (case stored w p of None \<Rightarrow> (-1, [])
                            | Some d \<Rightarrow> (int (length (take n d)), take n d), w') \<and>
        inv w' \<and> stored w' = stored w"
    and write_law: "inv w \<Longrightarrow> serves p \<Longrightarrow> length d \<le> limit \<Longrightarrow>
      \<exists>r w'. wr p d w = Some (r, w') \<and> inv w' \<and> (\<forall>q. serves q \<longrightarrow> q \<noteq> p \<longrightarrow> stored w' q = stored w q) \<and>
        (r = int (length d) \<and> stored w' p = Some d \<or> r = -1 \<and> (stored w' p = stored w p \<or> stored w' p = None))"
    and delete_law: "inv w \<Longrightarrow> serves p \<Longrightarrow>
      \<exists>w'. del p w = Some (if stored w p = None then -1 else 0, w') \<and> inv w' \<and> stored w' p = None \<and>
        (\<forall>q. serves q \<longrightarrow> q \<noteq> p \<longrightarrow> stored w' q = stored w q)"
begin

text \<open>A path that the VFS routes to this filesystem.\<close>

definition routed :: "'w vfs \<Rightarrow> string \<Rightarrow> nat \<Rightarrow> string \<Rightarrow> bool" where
  "routed s path i sub \<longleftrightarrow> resolve_route s path = Some (i, sub) \<and> ops_at s i = ops \<and> serves sub"

lemma routed_world [simp]: "routed (s\<lparr>world := w\<rparr>) path i sub = routed s path i sub"
  by (simp add: routed_def)

lemma vfs_read:
  assumes "routed s path i sub" "inv (world s)"
  shows "\<exists>w'. vfs_read_file s path n = Some (case stored (world s) sub of None \<Rightarrow> (-1, [])
      | Some d \<Rightarrow> (int (length (take n d)), take n d), s\<lparr>world := w'\<rparr>) \<and>
    inv w' \<and> stored w' = stored (world s)"
proof -
  have "serves sub" using assms(1) by (simp add: routed_def)
  then obtain w' where w': "rd sub n (world s) = Some (case stored (world s) sub of None \<Rightarrow> (-1, [])
      | Some d \<Rightarrow> (int (length (take n d)), take n d), w')" "inv w'" "stored w' = stored (world s)"
    using read_law [OF assms(2)] by blast
  then show ?thesis
    using assms by (intro exI [of _ w']) (simp add: vfs_read_file_def dispatch_def routed_def provides)
qed

lemma vfs_write:
  assumes "routed s path i sub" "inv (world s)" "length d \<le> limit"
  shows "\<exists>r w'. vfs_write_file s path d = Some (r, s\<lparr>world := w'\<rparr>) \<and> inv w' \<and>
    (\<forall>q. serves q \<longrightarrow> q \<noteq> sub \<longrightarrow> stored w' q = stored (world s) q) \<and>
    (r = int (length d) \<and> stored w' sub = Some d \<or>
     r = -1 \<and> (stored w' sub = stored (world s) sub \<or> stored w' sub = None))"
  using write_law [of "world s" sub d] assms
  by (auto simp: vfs_write_file_def dispatch_def routed_def provides)

lemma vfs_delete:
  assumes "routed s path i sub" "inv (world s)"
  shows "\<exists>w'. vfs_delete_file s path = Some (if stored (world s) sub = None then -1 else 0, s\<lparr>world := w'\<rparr>) \<and>
    inv w' \<and> stored w' sub = None \<and> (\<forall>q. serves q \<longrightarrow> q \<noteq> sub \<longrightarrow> stored w' q = stored (world s) q)"
  using delete_law [of "world s" sub] assms
  by (auto simp: vfs_delete_file_def dispatch_def routed_def provides)

text \<open>What was written is read back, through any path that routes to the same place.\<close>

lemma write_read:
  assumes r: "routed s path i sub" "routed s path' i sub'" and inv: "inv (world s)" and l: "length d \<le> limit"
    and w: "vfs_write_file s path d = Some (r, s')" "0 \<le> r"
  shows "\<exists>s''. vfs_read_file s' path' n = Some (
    if sub' = sub then (int (length (take n d)), take n d)
    else (case stored (world s) sub' of None \<Rightarrow> (-1, []) | Some e \<Rightarrow> (int (length (take n e)), take n e)), s'')"
proof -
  obtain w' where w': "s' = s\<lparr>world := w'\<rparr>" "inv w'" "stored w' sub = Some d"
    "\<forall>q. serves q \<longrightarrow> q \<noteq> sub \<longrightarrow> stored w' q = stored (world s) q"
    using vfs_write [OF r(1) inv l] w by auto
  have "routed s' path' i sub'" using r(2) w'(1) by simp
  moreover have "serves sub'" using r(2) by (simp add: routed_def)
  ultimately show ?thesis using vfs_read [of s' path' i sub' n] w' by (cases "sub' = sub") auto
qed

end

end
