(* ===== verification/Vfs_Paths.thy ===== *)
theory Vfs_Paths
  imports Vfs
begin

text \<open>
  What \<open>vfs_resolve\<close> computes: the path is cut into components, \<open>.\<close> is dropped and
  \<open>..\<close> removes the component before it; the result is the component stack written
  with one slash before each component.
\<close>

section \<open>Components\<close>

fun segs :: "string \<Rightarrow> string \<Rightarrow> string list" where
  "segs acc [] = (if acc = [] then [] else [acc])"
| "segs acc (c # cs) =
     (if c = slash then (if acc = [] then segs [] cs else acc # segs [] cs) else segs (acc @ [c]) cs)"

definition comps :: "string \<Rightarrow> string list" where
  "comps s = segs [] s"

definition join :: "string list \<Rightarrow> string" where
  "join cs = concat (map (\<lambda>c. slash # c) cs)"

definition render :: "string list \<Rightarrow> string" where
  "render cs = (if cs = [] then ''/'' else join cs)"

fun norm_step :: "string \<Rightarrow> string list \<Rightarrow> string list" where
  "norm_step c st = (if c = ''.'' then st else if c = ''..'' then drop 1 st else c # st)"

definition normalize :: "string list \<Rightarrow> string list" where
  "normalize cs = rev (fold norm_step cs [])"

definition clean :: "string \<Rightarrow> bool" where
  "clean c \<longleftrightarrow> c \<noteq> [] \<and> slash \<notin> set c \<and> c \<noteq> ''.'' \<and> c \<noteq> ''..''"

definition normal_path :: "string \<Rightarrow> bool" where
  "normal_path p \<longleftrightarrow>
     p = render (comps p) \<and> list_all clean (comps p) \<and> length p \<le> 254 \<and> length (comps p) \<le> 64"

lemma segs_acc:
  "acc \<noteq> [] \<Longrightarrow> segs acc cs =
     (acc @ takeWhile (\<lambda>x. x \<noteq> slash) cs) # segs [] (drop 1 (dropWhile (\<lambda>x. x \<noteq> slash) cs))"
  by (induction acc cs rule: segs.induct) auto

lemma comps_simps:
  "comps [] = []" "comps (slash # cs) = comps cs"
  "c \<noteq> slash \<Longrightarrow> comps (c # cs) =
     (c # takeWhile (\<lambda>x. x \<noteq> slash) cs) # comps (drop 1 (dropWhile (\<lambda>x. x \<noteq> slash) cs))"
  by (simp_all add: comps_def segs_acc)

lemma segs_append: "segs acc (a @ slash # b) = segs acc a @ segs [] b"
  by (induction acc a rule: segs.induct) auto

lemma comps_append: "comps (a @ slash # b) = comps a @ comps b"
  by (simp add: comps_def segs_append)

lemma segs_plain: "slash \<notin> set c \<Longrightarrow> segs acc c = (if acc @ c = [] then [] else [acc @ c])"
  by (induction c arbitrary: acc) auto

lemma segs_sound: "slash \<notin> set acc \<Longrightarrow> x \<in> set (segs acc s) \<Longrightarrow> x \<noteq> [] \<and> slash \<notin> set x"
  by (induction acc s rule: segs.induct) (auto split: if_splits)

lemma comps_sound: "x \<in> set (comps s) \<Longrightarrow> x \<noteq> [] \<and> slash \<notin> set x"
  unfolding comps_def by (rule segs_sound) auto

lemma join_simps [simp]: "join [] = []" "join (c # cs) = slash # c @ join cs"
  "join (cs @ ds) = join cs @ join ds"
  by (simp_all add: join_def)

lemma join_eq_Nil [simp]: "join cs = [] \<longleftrightarrow> cs = []"
  by (cases cs) simp_all

lemma comps_join: "\<forall>c \<in> set cs. c \<noteq> [] \<and> slash \<notin> set c \<Longrightarrow> comps (join cs) = cs"
proof (induction cs)
  case (Cons c cs)
  have "segs [] (c @ join cs) = c # comps (join cs)"
  proof (cases cs)
    case Nil
    then show ?thesis using Cons.prems by (simp add: segs_plain comps_def)
  next
    case (Cons d ds)
    then have "segs [] (c @ join cs) = segs [] c @ comps (d @ join ds)"
      by (simp add: segs_append comps_def)
    then show ?thesis using Cons.prems Cons by (simp add: segs_plain comps_simps)
  qed
  then show ?case using Cons by (simp add: comps_simps(2) comps_def)
qed (simp add: comps_simps)

lemma fold_norm_clean:
  "\<forall>c \<in> set cs. c \<noteq> [] \<and> slash \<notin> set c \<Longrightarrow> list_all clean st \<Longrightarrow> list_all clean (fold norm_step cs st)"
proof (induction cs arbitrary: st)
  case (Cons c cs)
  have "list_all clean (norm_step c st)"
    using Cons.prems by (cases st) (auto simp: clean_def [of c])
  then show ?case using Cons by simp
qed simp

lemma fold_norm_id: "list_all clean cs \<Longrightarrow> fold norm_step cs st = rev cs @ st"
  by (induction cs arbitrary: st) (auto simp: clean_def)

lemma normalize_id: "list_all clean cs \<Longrightarrow> normalize cs = cs"
  by (simp add: normalize_def fold_norm_id)

section \<open>The loop\<close>

lemma append_buf_eq:
  "append_buf buf s = (if length buf + length s \<le> 255 \<or> s = [] then Some (buf @ s) else None)"
  by (induction buf s rule: append_buf.induct) auto

text \<open>The bounds the loop checks: at most 64 components deep and room in \<open>out\<close>.\<close>

fun room :: "nat \<Rightarrow> string list \<Rightarrow> string list \<Rightarrow> bool" where
  "room outsz [] st = True"
| "room outsz (c # cs) st =
     (if c = ''.'' \<or> c = ''..'' then room outsz cs (norm_step c st)
      else length st < 64 \<and> length (join (rev (c # st))) + 1 < outsz \<and> room outsz cs (c # st))"

fun starts_of :: "string list \<Rightarrow> nat list" where
  "starts_of [] = []"
| "starts_of (c # st) = length (join (rev st)) # starts_of st"

lemma length_starts_of [simp]: "length (starts_of st) = length st"
  by (induction st) auto

lemma resolve_loop_stack:
  "resolve_loop outsz s (join (rev st)) (starts_of st) =
     (if room outsz (comps s) st then Some (join (rev (fold norm_step (comps s) st))) else None)"
proof (induction "length s" arbitrary: s st rule: less_induct)
  case less
  show ?case
  proof (cases s)
    case Nil
    then show ?thesis by (simp add: comps_simps)
  next
    case (Cons c cs)
    let ?rest = "drop 1 (dropWhile (\<lambda>x. x \<noteq> slash) cs)"
    let ?comp = "c # takeWhile (\<lambda>x. x \<noteq> slash) cs"
    have "length ?rest < length s" 
      using Cons length_dropWhile_le [of "\<lambda>x. x \<noteq> slash" cs] by simp
    note IH = less.hyps [OF this]
    show ?thesis
    proof (cases "c = slash")
      case True
      then show ?thesis using less.hyps [of cs st] Cons by (simp add: comps_simps)
    next
      case False
      note cs = comps_simps(3) [OF False, of cs]
      consider "?comp = ''.''" | "?comp = ''..''" | "?comp \<noteq> ''.''" "?comp \<noteq> ''..''" by blast
      then show ?thesis
      proof cases
        case 1
        then show ?thesis using IH [of st] False Cons cs by simp
      next
        case 2
        then show ?thesis using IH [of "drop 1 st"] False Cons cs by (cases st) simp_all
      next
        case 3
        have len: "length (join (rev st)) + 1 + length ?comp + 1 \<ge> outsz \<longleftrightarrow>
            \<not> length (join (rev (?comp # st))) + 1 < outsz"
          by auto
        have "resolve_loop outsz s (join (rev st)) (starts_of st) =
            (if length st \<ge> 64 then None
             else if \<not> length (join (rev (?comp # st))) + 1 < outsz then None
             else resolve_loop outsz ?rest (join (rev (?comp # st))) (starts_of (?comp # st)))"
          unfolding len [symmetric] using False Cons 3
          by (simp only: resolve_loop.simps Let_def if_False starts_of.simps length_starts_of join_simps
              rev.simps append.simps append_Nil2)
        then show ?thesis using IH [of "?comp # st"] Cons 3 unfolding cs Cons by auto
      qed
    qed
  qed
qed

lemma resolve_buf_eq:
  "resolve_buf cur path =
     (let pre = (if path = [] \<or> hd path \<noteq> slash then cur else []); buf = pre @ slash # path
      in if length buf \<le> 255 then Some buf else None)"
  by (auto simp: resolve_buf_def append_buf_eq Let_def)

text \<open>The components a path stands for, before \<open>.\<close> and \<open>..\<close> are resolved.\<close>

definition start_dir :: "string \<Rightarrow> string \<Rightarrow> string" where
  "start_dir cur path = (if path = [] \<or> hd path \<noteq> slash then cur else [])"

definition path_comps :: "string \<Rightarrow> string \<Rightarrow> string list" where
  "path_comps cur path = comps (start_dir cur path) @ comps path"

lemma resolve_from_eq:
  "resolve_from cur path outsz =
     (if length (start_dir cur path) + length path < 255 \<and>
         room outsz (path_comps cur path) [] \<and> (normalize (path_comps cur path) = [] \<longrightarrow> 2 \<le> outsz)
      then Some (render (normalize (path_comps cur path))) else None)"
proof -
  have c: "comps (start_dir cur path @ slash # path) = path_comps cur path"
    by (simp add: path_comps_def comps_append)
  show ?thesis
    using resolve_loop_stack [of outsz "start_dir cur path @ slash # path" "[]"]
    unfolding resolve_from_def resolve_buf_eq start_dir_def [symmetric] c
    by (auto simp: Let_def normalize_def render_def)
qed

lemma room_bounds:
  "room outsz cs st \<Longrightarrow> st = [] \<or> length (join (rev st)) + 1 < outsz \<Longrightarrow> length st \<le> 64 \<Longrightarrow>
     fold norm_step cs st = [] \<or> length (join (rev (fold norm_step cs st))) + 1 < outsz \<and>
       length (fold norm_step cs st) \<le> 64"
proof (induction cs arbitrary: st)
  case (Cons c cs)
  have "norm_step c st = [] \<or> length (join (rev (norm_step c st))) + 1 < outsz"
    using Cons.prems by (cases st) auto
  moreover have "length (norm_step c st) \<le> 64" using Cons.prems by auto
  ultimately show ?case using Cons by (auto split: if_splits)
qed auto

lemma clean_room:
  "list_all clean cs \<Longrightarrow> length (join (rev st @ cs)) + 1 < outsz \<Longrightarrow> length st + length cs \<le> 64 \<Longrightarrow>
     room outsz cs st"
  by (induction cs arbitrary: st) (auto simp: clean_def)

lemma path_comps_sound: "c \<in> set (path_comps cur path) \<Longrightarrow> c \<noteq> [] \<and> slash \<notin> set c"
  using comps_sound by (auto simp: path_comps_def)

lemma normalize_clean: "list_all clean (normalize (path_comps cur path))"
  using fold_norm_clean [of "path_comps cur path" "[]"] path_comps_sound
  by (simp add: normalize_def list_all_iff)

lemma comps_render: "list_all clean cs \<Longrightarrow> comps (render cs) = cs"
  by (auto simp: render_def comps_simps list_all_iff clean_def intro!: comps_join)

lemma resolve_normal:
  assumes "resolve_from cur path 256 = Some out"
  shows "normal_path out \<and> out = render (normalize (path_comps cur path))"
proof -
  let ?n = "normalize (path_comps cur path)"
  have o: "out = render ?n" and r: "room 256 (path_comps cur path) []"
    using assms by (auto simp: resolve_from_eq split: if_splits)
  have "?n = [] \<or> length (join ?n) + 1 < 256 \<and> length ?n \<le> 64"
    using room_bounds [OF r] by (simp add: normalize_def)
  then have "length (render ?n) \<le> 254" "length ?n \<le> 64" by (auto simp: render_def)
  then show ?thesis
    using o comps_render [OF normalize_clean] normalize_clean by (simp add: normal_path_def)
qed

lemma normal_path_head: "normal_path p \<Longrightarrow> p \<noteq> [] \<and> hd p = slash"
  by (cases "comps p") (auto simp: normal_path_def render_def)

lemma resolve_fixpoint:
  assumes "normal_path p"
  shows "resolve_from cur p 256 = Some p"
proof -
  have h: "p \<noteq> []" "hd p = slash" using normal_path_head [OF assms] by auto
  then have d: "start_dir cur p = []" by (simp add: start_dir_def)
  then have pc: "path_comps cur p = comps p" by (simp add: path_comps_def comps_simps)
  have cl: "list_all clean (comps p)" and p: "render (comps p) = p" "length p \<le> 254" "length (comps p) \<le> 64"
    using assms by (auto simp: normal_path_def)
  have "length (join (comps p)) + 1 < 256" using p(1,2) by (cases "comps p") (auto simp: render_def)
  then have "room 256 (comps p) []" using clean_room [OF cl, of "[]" 256] p(3) by simp
  then show ?thesis using h d pc p normalize_id [OF cl] by (auto simp: resolve_from_eq)
qed

end
