(* ===== verification/Vfs_Routing.thy ===== *)
theory Vfs_Routing
  imports Vfs_Paths "HOL-Library.Sublist"
begin

text \<open>
  Routing by longest prefix, in terms of path components, and the invariant of the
  mount table and the working directory.
\<close>

section \<open>Prefixes\<close>

lemma under_comps:
  assumes "normal_path q" "normal_path p"
  shows "under q p \<longleftrightarrow> prefix (comps q) (comps p)"
proof (cases "q = ''/''")
  case True
  then show ?thesis by (simp add: under_def comps_simps)
next
  case False
  have q: "q = join (comps q)" "comps q \<noteq> []" and p: "p = render (comps p)"
    using assms False by (auto simp: normal_path_def render_def split: if_splits)
  show ?thesis
  proof
    assume "under q p"
    then have t: "take (length q) p = q" "length p = length q \<or> p ! length q = slash"
      using False by (auto simp: under_def split: if_splits)
    then consider "p = q" | x where "p = q @ slash # x"
      by (metis append_take_drop_id id_take_nth_drop linorder_neqE_nat nth_append_length
          take_all take_all_iff append.right_neutral Cons_nth_drop_Suc linorder_not_le le_eq_less_or_eq)
    then show "prefix (comps q) (comps p)" by cases (auto simp: comps_append)
  next
    assume "prefix (comps q) (comps p)"
    then obtain cs where cs: "comps p = comps q @ cs" by (auto elim: prefixE)
    then have "p = q @ join cs" using p q by (simp add: render_def)
    then show "under q p" by (cases cs) (auto simp: under_def)
  qed
qed

section \<open>The best mount\<close>

definition candidate :: "'w vfs \<Rightarrow> string \<Rightarrow> nat \<Rightarrow> 'w vfs_mount \<Rightarrow> bool" where
  "candidate s p i m \<longleftrightarrow> mounts s ! i = Some m \<and> under (mt_prefix m) p"

lemma better_fold:
  "case fold (better s p) [0..<n] None of
     None \<Rightarrow> (\<forall>i < n. \<forall>m. \<not> candidate s p i m)
   | Some (b, l) \<Rightarrow> b < n \<and> (\<exists>m. candidate s p b m \<and> l = length (mt_prefix m)) \<and>
       (\<forall>i < n. \<forall>m. candidate s p i m \<longrightarrow> length (mt_prefix m) \<le> l)"
proof (induction n)
  case (Suc n)
  have step: "fold (better s p) [0..<Suc n] None = better s p n (fold (better s p) [0..<n] None)"
    by simp
  show ?case
  proof (cases "\<exists>m. candidate s p n m")
    case False
    then have "better s p n best = best" for best
      by (auto simp: better_def candidate_def split: option.splits)
    then show ?thesis
      using Suc False unfolding step by (auto simp: less_Suc_eq split: option.splits)
  next
    case True
    then obtain m where m: "mounts s ! n = Some m" "under (mt_prefix m) p" by (auto simp: candidate_def)
    have only: "candidate s p n m' \<longleftrightarrow> m' = m" for m' using m by (auto simp: candidate_def)
    show ?thesis
    proof (cases "fold (better s p) [0..<n] None")
      case None
      then show ?thesis
        using Suc m only unfolding step by (auto simp: better_def [of s p n] less_Suc_eq)
    next
      case (Some bl)
      obtain b l where bl: "bl = (b, l)" by (cases bl)
      then show ?thesis
        using Suc m only Some unfolding step
        by (cases "length (mt_prefix m) > l") (fastforce simp: better_def [of s p n] less_Suc_eq)+
    qed
  qed
qed simp

lemma sub_path_rest:
  assumes "rest = [] \<or> hd rest = slash" "length rest < subsz"
  shows "sub_path rest subsz = Some (if rest = [] then ''/'' else rest)"
  using assms by (auto simp: sub_path_def)

text \<open>Below a prefix, what remains is empty or starts with a slash.\<close>

lemma under_split:
  assumes "under q p" "normal_path p" "q \<noteq> ''/''"
  shows "p = q @ drop (length q) p" "drop (length q) p = [] \<or> hd (drop (length q) p) = slash"
proof -
  have t: "take (length q) p = q" "length p = length q \<or> p ! length q = slash"
    using assms by (auto simp: under_def split: if_splits)
  then show "p = q @ drop (length q) p" by (metis append_take_drop_id)
  show "drop (length q) p = [] \<or> hd (drop (length q) p) = slash"
  proof (cases "length q < length p")
    case True
    then show ?thesis using t(2) by (simp add: hd_drop_conv_nth)
  qed simp
qed

definition mounts_ok :: "'w vfs \<Rightarrow> bool" where
  "mounts_ok s \<longleftrightarrow> length (mounts s) = VFS_MAX_MOUNTS \<and>
     (\<forall>m \<in> set (mounts s). case m of None \<Rightarrow> True | Some m \<Rightarrow> normal_path (mt_prefix m))"

definition vfs_ok :: "'w vfs \<Rightarrow> bool" where
  "vfs_ok s \<longleftrightarrow> mounts_ok s \<and> normal_path (cwd s)"

lemma mounts_ok_prefix: "mounts_ok s \<Longrightarrow> i < length (mounts s) \<Longrightarrow> mounts s ! i = Some m \<Longrightarrow> normal_path (mt_prefix m)"
  by (fastforce simp: mounts_ok_def dest: nth_mem [of i])

lemma route_None:
  assumes "normal_path p"
  shows "route s p 256 = None \<longleftrightarrow> (\<forall>i < length (mounts s). \<forall>m. \<not> candidate s p i m)"
proof (cases "fold (better s p) [0..<length (mounts s)] None")
  case None
  then show ?thesis using better_fold [where s = s and p = p and n = "length (mounts s)"] by (simp add: route_def)
next
  case (Some bl)
  obtain b l where bl: "bl = (b, l)" by (cases bl)
  then obtain m where m: "b < length (mounts s)" "candidate s p b m"
    using better_fold [where s = s and p = p and n = "length (mounts s)"] Some by auto
  let ?rest = "if mt_prefix m = ''/'' then p else drop (length (mt_prefix m)) p"
  have "?rest = [] \<or> hd ?rest = slash"
    using m(2) under_split [OF _ assms, of "mt_prefix m"] normal_path_head [OF assms]
    by (auto simp: candidate_def)
  moreover have "length ?rest < 256" using assms by (auto simp: normal_path_def)
  ultimately have "sub_path ?rest 256 \<noteq> None" using sub_path_rest by blast
  then have "route s p 256 \<noteq> None"
    using Some bl m by (simp add: route_def candidate_def)
  then show ?thesis using m by blast
qed

lemma route_SomeD:
  assumes "normal_path p" "route s p 256 = Some (i, sub)"
  shows "i < length (mounts s)" "\<exists>m. candidate s p i m \<and> comps p = comps (mt_prefix m) @ comps sub \<and>
      sub \<noteq> [] \<and> hd sub = slash \<and> length sub < 256 \<and>
      (\<forall>j < length (mounts s). \<forall>m'. candidate s p j m' \<longrightarrow> length (mt_prefix m') \<le> length (mt_prefix m))"
proof -
  obtain l where f: "fold (better s p) [0..<length (mounts s)] None = Some (i, l)"
    using assms(2) by (auto simp: route_def split: option.splits prod.splits)
  then obtain m where m: "i < length (mounts s)" "candidate s p i m" "l = length (mt_prefix m)"
    and best: "\<forall>j < length (mounts s). \<forall>m'. candidate s p j m' \<longrightarrow> length (mt_prefix m') \<le> l"
    using better_fold [where s = s and p = p and n = "length (mounts s)"] by auto
  then show "i < length (mounts s)" by simp
  let ?rest = "if mt_prefix m = ''/'' then p else drop (length (mt_prefix m)) p"
  have r: "?rest = [] \<or> hd ?rest = slash" "mt_prefix m \<noteq> ''/'' \<Longrightarrow> p = mt_prefix m @ ?rest"
    using m(2) under_split [OF _ assms(1), of "mt_prefix m"] normal_path_head [OF assms(1)]
    by (auto simp: candidate_def)
  have len: "length ?rest < 256" using assms by (auto simp: normal_path_def)
  have sub: "sub = (if ?rest = [] then ''/'' else ?rest)"
    using assms(2) f m(2) sub_path_rest [OF r(1) len] by (simp add: route_def candidate_def)
  have "comps p = comps (mt_prefix m) @ comps sub"
  proof (cases "mt_prefix m = ''/''")
    case True
    then show ?thesis using sub normal_path_head [OF assms(1)] by (simp add: comps_simps)
  next
    case False
    then show ?thesis
      using sub r(1) comps_append [of "mt_prefix m" "tl ?rest"] r(2) [OF False]
      by (cases ?rest) (auto simp: comps_simps)
  qed
  moreover have "sub \<noteq> []" "hd sub = slash" "length sub < 256" using sub r(1) len by auto
  ultimately show "\<exists>m. candidate s p i m \<and> comps p = comps (mt_prefix m) @ comps sub \<and>
      sub \<noteq> [] \<and> hd sub = slash \<and> length sub < 256 \<and>
      (\<forall>j < length (mounts s). \<forall>m'. candidate s p j m' \<longrightarrow> length (mt_prefix m') \<le> length (mt_prefix m))"
    using m best by blast
qed

section \<open>Invariant of the mount table and the working directory\<close>

lemma mount_first_facts:
  "mount_first m ms = Some ms' \<Longrightarrow> length ms' = length ms \<and> set ms' \<subseteq> insert (Some m) (set ms)"
  by (induction m ms arbitrary: ms' rule: mount_first.induct) auto

lemma vfs_init_ok: "vfs_ok (vfs_init s)"
  by (simp add: vfs_ok_def mounts_ok_def vfs_init_def normal_path_def comps_simps render_def)

lemma vfs_mount_ok:
  assumes "vfs_ok s" "normal_path pre"
  shows "vfs_ok (snd (vfs_mount s pre ops name))"
proof (cases "mount_first \<lparr>mt_prefix = pre, mt_ops = ops, mt_name = name\<rparr> (mounts s)")
  case (Some ms)
  from mount_first_facts [OF Some] show ?thesis
    using assms Some by (fastforce simp: vfs_ok_def mounts_ok_def vfs_mount_def)
qed (use assms in \<open>simp add: vfs_mount_def\<close>)

lemma normal_path_take: "normal_path p \<Longrightarrow> take 255 p = p"
  by (simp add: normal_path_def)

lemma vfs_world_ok [simp]: "vfs_ok (s\<lparr>world := w\<rparr>) = vfs_ok s"
  by (simp add: vfs_ok_def mounts_ok_def)

lemma vfs_chdir_ok:
  assumes "vfs_ok s" "vfs_chdir s p = Some (r, s')"
  shows "vfs_ok s' \<and> (r = 0 \<longrightarrow> cwd s' = render (normalize (path_comps (cwd s) p))) \<and> (r \<noteq> 0 \<longrightarrow> cwd s' = cwd s)"
proof (cases "vfs_resolve s p 256")
  case (Some a)
  have a: "normal_path a" "a = render (normalize (path_comps (cwd s) p))"
    using resolve_normal Some by (auto simp: vfs_resolve_def)
  have ok: "vfs_ok (s\<lparr>world := w, cwd := take 255 a\<rparr>)" for w
    using assms(1) a normal_path_take by (simp add: vfs_ok_def mounts_ok_def)
  show ?thesis
    using assms Some ok a normal_path_take [OF a(1)]
    by (auto simp: vfs_chdir_def split: option.splits if_splits prod.splits)
qed (use assms in \<open>auto simp: vfs_chdir_def\<close>)

section \<open>Properties\<close>

text \<open>C11. \<open>vfs_resolve\<close> (with the 256-byte buffer every caller passes) either fails or
  returns the normal form of the path: relative paths start at the working directory,
  \<open>.\<close> is dropped, \<open>..\<close> removes the component before it and stays at the root, and the
  result is absolute, has no empty, \<open>.\<close> or \<open>..\<close> component and fits its buffer.  It succeeds
  whenever the path with the working directory has at most 254 characters and fits.\<close>

theorem vfs_resolve_correct:
  "vfs_resolve s p 256 =
     (if length (start_dir (cwd s) p) + length p < 255 \<and>
         room 256 (path_comps (cwd s) p) []
      then Some (render (normalize (path_comps (cwd s) p))) else None)"
  by (simp add: vfs_resolve_def resolve_from_eq)

text \<open>Normalization is idempotent: a path returned by \<open>vfs_resolve\<close> is a normal path, and
  resolving it again, from whatever working directory, gives it back.\<close>

theorem vfs_resolve_idempotent:
  assumes "vfs_resolve s p 256 = Some out"
  shows "normal_path out \<and> vfs_resolve s' out 256 = Some out"
proof -
  have "normal_path out" using assms resolve_normal by (auto simp: vfs_resolve_def)
  then show ?thesis using resolve_fixpoint by (simp add: vfs_resolve_def)
qed

definition sample_vfs :: "nat vfs" where
  "sample_vfs = \<lparr>mounts = replicate 12 None, cwd = ''/home/user'', world = 0\<rparr>"

theorem vfs_resolve_idempotent_witness:
  "normal_path ''/home/x'' \<and> vfs_resolve sample_vfs ''/home/x'' 256 = Some ''/home/x''"
proof -
  have "vfs_resolve sample_vfs ''.././/x'' 256 = Some ''/home/x''"
    by (simp add: vfs_resolve_def resolve_from_def resolve_buf_def sample_vfs_def Let_def)
  then show ?thesis using vfs_resolve_idempotent [of sample_vfs "''.././/x''"] by blast
qed

text \<open>C13. Routing finds the longest mount: with normal mount points, \<open>route\<close> fails exactly
  when no mount point is a component-wise prefix of the path; otherwise it returns a
  mount whose point is such a prefix and at least as long as every other one, and the
  path it hands to the filesystem is the remaining components, rooted at the mount.\<close>

theorem route_longest:
  assumes "mounts_ok s" "normal_path p"
  shows "case route s p 256 of
      None \<Rightarrow> (\<forall>i < 12. \<forall>m. mounts s ! i = Some m \<longrightarrow> \<not> prefix (comps (mt_prefix m)) (comps p))
    | Some (i, sub) \<Rightarrow> i < 12 \<and> (\<exists>m. mounts s ! i = Some m \<and> comps p = comps (mt_prefix m) @ comps sub \<and>
        hd sub = slash \<and> length sub < 256 \<and>
        (\<forall>j < 12. \<forall>m'. mounts s ! j = Some m' \<and> prefix (comps (mt_prefix m')) (comps p) \<longrightarrow>
           length (mt_prefix m') \<le> length (mt_prefix m)))"
proof -
  have len: "length (mounts s) = 12" using assms(1) by (simp add: mounts_ok_def)
  have c: "candidate s p i m \<longleftrightarrow> mounts s ! i = Some m \<and> prefix (comps (mt_prefix m)) (comps p)"
    if "i < 12" for i m
    using that under_comps [OF mounts_ok_prefix [OF assms(1)] assms(2)] len
    by (auto simp: candidate_def)
  show ?thesis
  proof (cases "route s p 256")
    case None
    then show ?thesis using route_None [OF assms(2), of s] len c by auto
  next
    case (Some r)
    obtain i sub where r: "r = (i, sub)" by (cases r)
    note d = route_SomeD [OF assms(2) Some [unfolded r], unfolded len]
    then obtain m where m: "candidate s p i m" "comps p = comps (mt_prefix m) @ comps sub" "hd sub = slash"
      "length sub < 256"
      "\<forall>j < 12. \<forall>m'. candidate s p j m' \<longrightarrow> length (mt_prefix m') \<le> length (mt_prefix m)"
      by blast
    then show ?thesis using Some r d(1) c by auto
  qed
qed

definition sample_ops :: "nat vfs_ops" where
  "sample_ops = \<lparr>op_list = None, op_is_dir = Some (\<lambda>p w. Some (1, w)), op_read_file = None,
     op_read_file_at = None, op_write_file = None, op_delete_file = None, op_mkdir = None,
     op_rmdir = None, op_cp = None, op_mv = None, op_link = None, op_chmod = None, op_chown = None\<rparr>"

definition sample_mounted :: "nat vfs" where
  "sample_mounted = snd (vfs_mount (snd (vfs_mount sample_vfs ''/'' sample_ops ''fat32'')) ''/tmp'' sample_ops ''ramfs'')"

lemma sample_mounted_eq:
  "mounts sample_mounted = [Some \<lparr>mt_prefix = ''/'', mt_ops = sample_ops, mt_name = ''fat32''\<rparr>,
     Some \<lparr>mt_prefix = ''/tmp'', mt_ops = sample_ops, mt_name = ''ramfs''\<rparr>] @ replicate 10 None"
  "cwd sample_mounted = ''/home/user''"
  by (simp_all add: sample_mounted_def vfs_mount_def sample_vfs_def numeral_eq_Suc)

lemma sample_mounted_ok: "mounts_ok sample_mounted" "normal_path ''/tmp/x''" "normal_path ''/home/user''"
  by (simp_all add: mounts_ok_def sample_mounted_eq normal_path_def comps_def join_def render_def clean_def)

theorem route_longest_witness:
  "case route sample_mounted ''/tmp/x'' 256 of
      None \<Rightarrow> False
    | Some (i, sub) \<Rightarrow> (\<exists>m. mounts sample_mounted ! i = Some m \<and> comps ''/tmp/x'' = comps (mt_prefix m) @ comps sub \<and>
        4 \<le> length (mt_prefix m))"
proof -
  have p: "prefix (comps ''/tmp'') (comps ''/tmp/x'')" by (simp add: comps_def)
  have m: "mounts sample_mounted ! 1 = Some \<lparr>mt_prefix = ''/tmp'', mt_ops = sample_ops, mt_name = ''ramfs''\<rparr>"
    by (simp add: sample_mounted_eq)
  note r = route_longest [OF sample_mounted_ok(1,2)]
  show ?thesis
  proof (cases "route sample_mounted ''/tmp/x'' 256")
    case None
    then have "\<not> prefix (comps ''/tmp'') (comps ''/tmp/x'')" using r m by (auto dest!: spec [of _ 1])
    then show ?thesis using p by blast
  next
    case (Some q)
    obtain i sub where q: "q = (i, sub)" by (cases q)
    obtain m' where m': "mounts sample_mounted ! i = Some m'" "comps ''/tmp/x'' = comps (mt_prefix m') @ comps sub"
      "\<forall>j < 12. \<forall>k. mounts sample_mounted ! j = Some k \<and> prefix (comps (mt_prefix k)) (comps ''/tmp/x'') \<longrightarrow>
         length (mt_prefix k) \<le> length (mt_prefix m')"
      using r unfolding Some q option.case prod.case by blast
    have "length ''/tmp'' \<le> length (mt_prefix m')"
      using m'(3) [rule_format, of 1, OF _ conjI, OF _ m] p by simp
    then have "4 \<le> length (mt_prefix m')" by simp
    then show ?thesis using Some q m'(1,2) by auto
  qed
qed

text \<open>C14. The working directory stays a normal absolute path: \<open>vfs_chdir\<close> keeps the invariant
  of the mount table and working directory; on success the directory is the normal form
  of its argument, on failure it is unchanged.\<close>

theorem vfs_chdir_keeps:
  assumes "vfs_ok s" "vfs_chdir s p = Some (r, s')"
  shows "vfs_ok s' \<and> (if r = 0 then cwd s' = render (normalize (path_comps (cwd s) p)) else cwd s' = cwd s)"
  using vfs_chdir_ok [OF assms] by simp

theorem vfs_chdir_keeps_witness:
  "\<exists>r s'. vfs_chdir sample_mounted ''../../tmp'' = Some (r, s') \<and> vfs_ok s' \<and>
     (if r = 0 then cwd s' = ''/tmp'' else cwd s' = ''/home/user'')"
proof -
  have ok: "vfs_ok sample_mounted"
    using sample_mounted_ok by (simp add: vfs_ok_def sample_mounted_eq)
  have n: "render (normalize (path_comps ''/home/user'' ''../../tmp'')) = ''/tmp''"
    by (simp add: render_def normalize_def path_comps_def start_dir_def comps_def)
  have is_dir: "op_is_dir (ops_at sample_mounted i) = Some (\<lambda>p w. Some (1, w))" if "i < 2" for i
    using that by (auto simp: ops_at_def sample_mounted_eq sample_ops_def less_2_cases_iff)
  have "\<exists>r s'. vfs_chdir sample_mounted ''../../tmp'' = Some (r, s')"
  proof (cases "vfs_resolve sample_mounted ''../../tmp'' 256")
    case (Some a)
    show ?thesis
    proof (cases "route sample_mounted a 256")
      case r: (Some q)
      have "normal_path a" using Some resolve_normal by (auto simp: vfs_resolve_def)
      then have "i < 2" if "q = (i, sub)" for i sub
        using route_SomeD [of a sample_mounted i sub] r that
        by (auto simp: sample_mounted_eq candidate_def nth_append nth_Cons split: if_splits nat.splits)
      then show ?thesis using Some r is_dir by (cases q) (auto simp: vfs_chdir_def)
    qed (use Some in \<open>simp add: vfs_chdir_def\<close>)
  qed (simp add: vfs_chdir_def)
  then obtain r s' where k: "vfs_chdir sample_mounted ''../../tmp'' = Some (r, s')" by blast
  then show ?thesis using vfs_chdir_keeps [OF ok k] n unfolding sample_mounted_eq(2) by auto
qed

end
