(* ===== verification/Ramfs_Vfs.thy ===== *)
theory Ramfs_Vfs
  imports Ramfs_Correct File_Store Vfs_Routing
begin

text \<open>
  The ramfs as a provider of the VFS contract, and the properties of files under its
  mount point.  A path inside the mount starts with a slash; the names are flat, so
  everything after that slash is the name.
\<close>

definition stored_at :: "'a ramfs_scheme \<Rightarrow> string \<Rightarrow> u8 list option" where
  "stored_at w p = contents w (bare p)"

definition ramfs_path :: "string \<Rightarrow> bool" where
  "ramfs_path p \<longleftrightarrow> (\<exists>n. p = slash # n \<and> n \<noteq> [] \<and> length n < RAMFS_NAME_MAX)"

lemma bare_slash [simp]: "bare (slash # n) = n"
  by (simp add: bare_def)

interpretation ramfs: file_store ramfs_vfs_ops ramfs_read_file ramfs_write_file ramfs_delete_file
  stored_at "\<lambda>w. ramfs_inv w" ramfs_path RAMFS_MAX_SIZE
proof unfold_locales
  fix w :: "'a ramfs_scheme" and p n
  assume inv: "ramfs_inv w" and p: "ramfs_path p"
  then have r: "\<not> is_root p" "length (bare p) < RAMFS_NAME_MAX" by (auto simp: ramfs_path_def is_root_def)
  show "\<exists>w'. ramfs_read_file p n w = Some (case stored_at w p of None \<Rightarrow> (-1, [])
      | Some d \<Rightarrow> (int (length (take n d)), take n d), w') \<and> ramfs_inv w' \<and> stored_at w' = stored_at w"
    using read_file_correct [OF inv, of p n] r inv by (simp add: stored_at_def)
  have neq: "bare q \<noteq> bare p" if "ramfs_path q" "q \<noteq> p" for q
    using that p by (auto simp: ramfs_path_def)
  show "\<exists>w'. ramfs_delete_file p w = Some (if stored_at w p = None then -1 else 0, w') \<and> ramfs_inv w' \<and>
      stored_at w' p = None \<and> (\<forall>q. ramfs_path q \<longrightarrow> q \<noteq> p \<longrightarrow> stored_at w' q = stored_at w q)"
    using delete_file_correct [OF inv, of p] r neq by (auto simp: stored_at_def)
  show "\<exists>r w'. ramfs_write_file p d w = Some (r, w') \<and> ramfs_inv w' \<and>
      (\<forall>q. ramfs_path q \<longrightarrow> q \<noteq> p \<longrightarrow> stored_at w' q = stored_at w q) \<and>
      (r = int (length d) \<and> stored_at w' p = Some d \<or>
       r = -1 \<and> (stored_at w' p = stored_at w p \<or> stored_at w' p = None))"
    if "length d \<le> RAMFS_MAX_SIZE" for d
    using write_file_correct [OF inv r that] neq by (auto simp: stored_at_def)
qed (simp_all add: ramfs_vfs_ops_def)

section \<open>Sample state\<close>

definition sample_ram :: ramfs where
  "sample_ram = \<lparr>km_heap = sample_heap, km_bytes = (\<lambda>_. 0),
     rf_files = replicate 64 \<lparr>rf_used = False, rf_name = [], rf_size = 0, rf_data = 0\<rparr>\<rparr>"

definition sample_root_ops :: "ramfs vfs_ops" where
  "sample_root_ops = \<lparr>op_list = None, op_is_dir = None, op_read_file = None,
     op_read_file_at = None, op_write_file = Some (\<lambda>p d w. Some (int (length d), w)), op_delete_file = None,
     op_mkdir = None, op_rmdir = None, op_cp = None, op_mv = None, op_link = None, op_chmod = None,
     op_chown = None\<rparr>"

definition sample_tmp :: "ramfs vfs" where
  "sample_tmp = \<lparr>mounts = [Some \<lparr>mt_prefix = ''/'', mt_ops = sample_root_ops, mt_name = ''fat32''\<rparr>,
     Some \<lparr>mt_prefix = ''/tmp'', mt_ops = ramfs_vfs_ops, mt_name = ''ramfs''\<rparr>] @ replicate 10 None,
     cwd = ''/'', world = sample_ram\<rparr>"

lemma sample_ram_inv: "ramfs_inv sample_ram"
  using sample_heap_inv by (simp add: ramfs_inv_but_def sample_ram_def)

lemma sample_route:
  "resolve_route sample_tmp ''/tmp/x'' = Some (1, ''/x'')" "resolve_route sample_tmp ''tmp/../tmp/y'' = Some (1, ''/y'')"
  "resolve_route sample_tmp ''/z'' = Some (0, ''/z'')"
  by (simp_all add: resolve_route_def vfs_resolve_def resolve_from_def resolve_buf_def sample_tmp_def Let_def
      route_def better_def under_def sub_path_def upt_conv_Cons nth_Cons)

lemma sample_ops_at: "ops_at sample_tmp 1 = ramfs_vfs_ops" "ops_at sample_tmp 0 = sample_root_ops"
  "ops_at sample_tmp (Suc 0) = ramfs_vfs_ops"
  by (simp_all add: ops_at_def sample_tmp_def)

lemma sample_vfs_write: "\<exists>s'. vfs_write_file sample_tmp ''/tmp/x'' [7] = Some (1, s')"
proof -
  have store: "\<exists>h'. kmalloc sample_heap 1 = Some (1048592, h')"
    using find_fit_correct [OF sample_heap_ok, of 8]
    by (auto simp: kmalloc_def ALIGN8_def u32_add_def sample_heap_def)
  then have "\<exists>w. ramfs_write_file ''/x'' [7] sample_ram = Some (1, w)"
    by (auto simp: ramfs_write_file_def ramfs_write_from_def is_root_def take_slot_def
        ramfs_find_def drop_data_def fill_slot_def sample_ram_def upd_file_def to_int_def upt_conv_Cons)
  then show ?thesis
    by (auto simp: vfs_write_file_def dispatch_def sample_route sample_ops_at ramfs_vfs_ops_def sample_tmp_def [symmetric])
      (simp add: sample_tmp_def)
qed

section \<open>Properties\<close>

text \<open>C15. \<open>ramfs_write_file\<close> refines an update of a finite map: it returns, keeps the
  invariant, and either stores exactly the data under the name and leaves every other
  file as it was, or fails; a failure leaves the other files alone and leaves the named
  file as it was or removes it (when no memory is left for the new contents).\<close>

theorem ramfs_write_refines:
  assumes "ramfs_inv w" "\<not> is_root p" "length (bare p) < RAMFS_NAME_MAX" "length data \<le> RAMFS_MAX_SIZE"
  shows "\<exists>r w'. ramfs_write_file p data w = Some (r, w') \<and> ramfs_inv w' \<and>
    (r = int (length data) \<and> contents w' = (contents w)(bare p \<mapsto> data) \<or>
     r = -1 \<and> (contents w' = contents w \<or> contents w' = (contents w)(bare p := None)))"
  using assms by (rule write_file_correct)

theorem ramfs_write_refines_witness:
  "\<exists>r w'. ramfs_write_file ''/x'' [1, 2, 3] sample_ram = Some (r, w') \<and> ramfs_inv w' \<and>
    (r = 3 \<and> contents w' = (contents sample_ram)(''x'' \<mapsto> [1, 2, 3]) \<or>
     r = -1 \<and> (contents w' = contents sample_ram \<or> contents w' = (contents sample_ram)(''x'' := None)))"
  using ramfs_write_refines [OF sample_ram_inv, of "''/x''" "[1, 2, 3]"]
  by (simp add: is_root_def)

text \<open>Copying a file inside the ramfs to another name gives that name the same contents
  and keeps the source, even when the copy replaces an older file and memory is reused.\<close>

theorem ramfs_cp_refines:
  assumes "ramfs_inv w" "contents w (bare src) = Some data" "\<not> is_root dst"
    "length (bare dst) < RAMFS_NAME_MAX" "bare dst \<noteq> bare src"
  shows "\<exists>r w'. ramfs_cp src dst w = Some (r, w') \<and> ramfs_inv w' \<and> contents w' (bare src) = Some data \<and>
    (r = int (length data) \<and> contents w' = (contents w)(bare dst \<mapsto> data) \<or>
     r = -1 \<and> (contents w' = contents w \<or> contents w' = (contents w)(bare dst := None)))"
  using cp_correct [OF assms] assms(2,5) by auto

theorem ramfs_cp_refines_witness:
  "\<exists>(w :: ramfs) r w'. ramfs_cp ''/x'' ''/y'' w = Some (r, w') \<and> contents w' ''x'' = Some [7]"
proof -
  have store: "\<exists>h'. kmalloc sample_heap 1 = Some (1048592, h')"
    using find_fit_correct [OF sample_heap_ok, of 8]
    by (auto simp: kmalloc_def ALIGN8_def u32_add_def sample_heap_def)
  obtain r w where w: "ramfs_write_file ''/x'' [7] sample_ram = Some (r, w)" "ramfs_inv w"
    "r = 1 \<and> contents w = (contents sample_ram)(''x'' \<mapsto> [7]) \<or> r = -1"
    using write_file_correct [OF sample_ram_inv, of "''/x''" "[7]"] by (auto simp: is_root_def)
  have "r \<noteq> -1"
    using w(1) store by (auto simp: ramfs_write_file_def ramfs_write_from_def is_root_def take_slot_def
        ramfs_find_def drop_data_def fill_slot_def sample_ram_def upd_file_def to_int_def upt_conv_Cons)
  then have "contents w (bare ''/x'') = Some [7]" using w(3) by simp
  from ramfs_cp_refines [OF w(2) this, of "''/y''"] show ?thesis by (auto simp: is_root_def)
qed

end
