(* ===== verification/Uaccess.thy ===== *)
theory Uaccess
  imports Prelude
begin

text \<open>
  \<open>src/uaccess.c\<close>, the page-fault handler of \<open>src/vmm.c\<close> and its dispatch in
  \<open>src/isr.c\<close>: how the kernel touches user memory without being brought down by a
  bad pointer.

  User memory is a function from addresses to \<open>u8 option\<close>, \<open>None\<close> where the processor
  raises a page fault (reads) and a predicate for writes.  A fault runs the interrupt
  handler on the saved registers and the current task; the copy then resumes at the
  saved \<open>rip\<close>.  \<open>lbl\<close> is the address of \<open>fault_label\<close> in the faulting routine, chosen by
  the compiler.  \<open>Halted\<close> is the kernel panic.
\<close>

section \<open>State\<close>

record utask =
  ut_is_user :: bool
  ut_kstack_top :: nat
  in_user_access :: bool
  fault_recovery_rip :: nat
  uaccess_faulted :: bool

record regs =
  rg_int_no :: nat
  rg_err_code :: nat
  rg_rip :: nat
  rg_rsp :: nat
  rg_cs :: nat
  rg_ss :: nat

datatype 'a outcome = Ran 'a | Halted

abbreviation (input) USER_LIMIT :: nat where "USER_LIMIT \<equiv> 0x800000000000"

section \<open>Page faults\<close>

definition to_trampoline :: "nat \<Rightarrow> utask \<Rightarrow> regs \<Rightarrow> regs" where
  "to_trampoline tramp t r =
     r\<lparr>rg_rip := tramp, rg_rsp := u64_sub (ut_kstack_top t) 16, rg_cs := 0x08, rg_ss := 0x10\<rparr>"

definition vmm_page_fault :: "nat \<Rightarrow> utask option \<Rightarrow> regs \<Rightarrow> bool \<times> utask option \<times> regs" where
  "vmm_page_fault tramp cur r =
     (case cur of
        None \<Rightarrow> (False, cur, r)
      | Some t \<Rightarrow>
          if in_user_access t
          then (True, Some (t\<lparr>uaccess_faulted := True, in_user_access := False\<rparr>),
                r\<lparr>rg_rip := fault_recovery_rip t\<rparr>)
          else if bit (rg_err_code r) 2 \<and> ut_is_user t
          then (True, cur, to_trampoline tramp t r)
          else (False, cur, r))"

definition isr_handler :: "nat \<Rightarrow> utask option \<Rightarrow> regs \<Rightarrow> (utask option \<times> regs) outcome" where
  "isr_handler tramp cur r =
     (if rg_int_no r = 14
      then (case vmm_page_fault tramp cur r of
              (handled, cur', r') \<Rightarrow> if handled then Ran (cur', r') else Halted)
      else case cur of
             Some t \<Rightarrow> if rg_cs r = 0x23 \<and> ut_is_user t then Ran (cur, to_trampoline tramp t r) else Halted
           | None \<Rightarrow> Halted)"

section \<open>Access to user memory\<close>

definition user_range_ok :: "nat \<Rightarrow> nat \<Rightarrow> bool" where
  "user_range_ok a len =
     (if a \<ge> USER_LIMIT then False
      else if len = 0 then True
      else if u64_add a len < a then False
      else if u64_add a len > USER_LIMIT then False
      else True)"

text \<open>The task while a copy runs, and the common exit at \<open>fault_label\<close>.\<close>

definition begin_access :: "nat \<Rightarrow> utask \<Rightarrow> utask" where
  "begin_access lbl t = t\<lparr>fault_recovery_rip := lbl, uaccess_faulted := False, in_user_access := True\<rparr>"

definition end_access :: "utask \<Rightarrow> int \<times> utask" where
  "end_access t = (let t' = t\<lparr>in_user_access := False\<rparr> in (if uaccess_faulted t' then -1 else 0, t'))"

text \<open>A fault at an instruction of the kernel: the interrupt is delivered with the error
  code of a kernel access; execution continues at \<open>fault_label\<close> when the handler put
  its address into \<open>rip\<close>.\<close>

definition kernel_fault :: "nat \<Rightarrow> nat \<Rightarrow> nat \<Rightarrow> utask \<Rightarrow> utask outcome" where
  "kernel_fault tramp lbl err t =
     (case isr_handler tramp (Some t)
        \<lparr>rg_int_no = 14, rg_err_code = err, rg_rip = 0, rg_rsp = 0, rg_cs = 0x08, rg_ss = 0x10\<rparr> of
        Ran (Some t', r) \<Rightarrow> if rg_rip r = lbl then Ran t' else Halted
      | _ \<Rightarrow> Halted)"

fun copy_in :: "(nat \<Rightarrow> u8 option) \<Rightarrow> nat \<Rightarrow> nat \<Rightarrow> nat \<Rightarrow> u8 list \<Rightarrow> bool \<times> u8 list" where
  "copy_in rd a i 0 d = (False, d)"
| "copy_in rd a i (Suc todo) d =
     (case rd (a + i) of
        None \<Rightarrow> (True, d)
      | Some v \<Rightarrow> copy_in rd a (Suc i) todo (d[i := v]))"

definition copy_from_user ::
  "nat \<Rightarrow> nat \<Rightarrow> (nat \<Rightarrow> u8 option) \<Rightarrow> utask option \<Rightarrow> u8 list \<Rightarrow> nat \<Rightarrow> nat \<Rightarrow>
     (int \<times> u8 list \<times> utask option) outcome" where
  "copy_from_user tramp lbl rd cur dst src len =
     (if \<not> user_range_ok src len then Ran (-1, dst, cur)
      else if len = 0 then Ran (0, dst, cur)
      else case cur of
             None \<Rightarrow> Ran (-1, dst, cur)
           | Some t \<Rightarrow>
               let (faulted, d) = copy_in rd src 0 len dst
               in case (if faulted then kernel_fault tramp lbl 0 (begin_access lbl t)
                        else Ran (begin_access lbl t)) of
                    Halted \<Rightarrow> Halted
                  | Ran t1 \<Rightarrow> (let (r, t2) = end_access t1 in Ran (r, d, Some t2)))"

fun copy_out :: "(nat \<Rightarrow> bool) \<Rightarrow> nat \<Rightarrow> nat \<Rightarrow> u8 list \<Rightarrow> (nat \<Rightarrow> u8) \<Rightarrow> bool \<times> (nat \<Rightarrow> u8)" where
  "copy_out wr a i [] m = (False, m)"
| "copy_out wr a i (v # vs) m =
     (if wr (a + i) then copy_out wr a (Suc i) vs (m(a + i := v)) else (True, m))"

definition copy_to_user ::
  "nat \<Rightarrow> nat \<Rightarrow> (nat \<Rightarrow> bool) \<Rightarrow> utask option \<Rightarrow> (nat \<Rightarrow> u8) \<Rightarrow> nat \<Rightarrow> u8 list \<Rightarrow>
     (int \<times> (nat \<Rightarrow> u8) \<times> utask option) outcome" where
  "copy_to_user tramp lbl wr cur m dst src =
     (if \<not> user_range_ok dst (length src) then Ran (-1, m, cur)
      else if length src = 0 then Ran (0, m, cur)
      else case cur of
             None \<Rightarrow> Ran (-1, m, cur)
           | Some t \<Rightarrow>
               let (faulted, m') = copy_out wr dst 0 src m
               in case (if faulted then kernel_fault tramp lbl 2 (begin_access lbl t)
                        else Ran (begin_access lbl t)) of
                    Halted \<Rightarrow> Halted
                  | Ran t1 \<Rightarrow> (let (r, t2) = end_access t1 in Ran (r, m', Some t2)))"

text \<open>The scan of \<open>strnlen_user\<close>: the count reached, and whether it left through a page
  fault, through the limit check, or through the loop exit.\<close>

datatype scan_exit = Scanned | Over_limit | Page_fault

fun scan_user :: "(nat \<Rightarrow> u8 option) \<Rightarrow> nat \<Rightarrow> nat \<Rightarrow> nat \<Rightarrow> nat \<times> scan_exit" where
  "scan_user rd p n 0 = (n, Scanned)"
| "scan_user rd p n (Suc todo) =
     (if u64_add p n \<ge> USER_LIMIT then (n, Over_limit)
      else case rd (p + n) of
             None \<Rightarrow> (n, Page_fault)
           | Some c \<Rightarrow> if c = 0 then (n, Scanned) else scan_user rd p (Suc n) todo)"

definition strnlen_user ::
  "nat \<Rightarrow> nat \<Rightarrow> (nat \<Rightarrow> u8 option) \<Rightarrow> utask option \<Rightarrow> nat \<Rightarrow> nat \<Rightarrow> (int \<times> utask option) outcome" where
  "strnlen_user tramp lbl rd cur p max_len =
     (if max_len = 0 then Ran (-1, cur)
      else if \<not> user_range_ok p 1 then Ran (-1, cur)
      else case cur of
             None \<Rightarrow> Ran (-1, cur)
           | Some t \<Rightarrow>
               let t0 = begin_access lbl t; (n, e) = scan_user rd p 0 max_len
               in case (case e of Page_fault \<Rightarrow> kernel_fault tramp lbl 0 t0
                               | Over_limit \<Rightarrow> Ran (t0\<lparr>uaccess_faulted := True\<rparr>)
                               | Scanned \<Rightarrow> Ran t0) of
                    Halted \<Rightarrow> Halted
                  | Ran t1 \<Rightarrow>
                      (let (r, t2) = end_access t1
                       in Ran (if r = -1 then -1 else if n = max_len then -1 else int n, Some t2)))"

section \<open>Facts\<close>

lemma user_range_ok_iff:
  assumes "a < 2 ^ 64" "len < 2 ^ 32"
  shows "user_range_ok a len \<longleftrightarrow> a < USER_LIMIT \<and> a + len \<le> USER_LIMIT"
proof (cases "a < USER_LIMIT")
  case True
  then have "u64_add a len = a + len" using assms by (simp add: no_wrap)
  then show ?thesis using True by (auto simp: user_range_ok_def)
qed (simp add: user_range_ok_def)

lemma kernel_fault_recovers:
  "kernel_fault tramp lbl err (begin_access lbl t) =
     Ran ((begin_access lbl t)\<lparr>uaccess_faulted := True, in_user_access := False\<rparr>)"
  by (simp add: kernel_fault_def isr_handler_def vmm_page_fault_def begin_access_def)

lemma copy_in_eq:
  "i + todo \<le> length d \<Longrightarrow> \<forall>j < todo. rd (a + i + j) \<noteq> None \<Longrightarrow>
     copy_in rd a i todo d =
       (False, take i d @ map (\<lambda>j. the (rd (a + j))) [i..<i + todo] @ drop (i + todo) d)"
proof (induction todo arbitrary: i d)
  case (Suc todo)
  obtain v where v: "rd (a + i) = Some v" using Suc.prems(2) by fastforce
  have "\<forall>j < todo. rd (a + Suc i + j) \<noteq> None" using Suc.prems(2) by fastforce
  from Suc.IH [OF _ this, of "d[i := v]"] show ?case
    using Suc.prems(1) v
    by (simp add: take_Suc_conv_app_nth upt_conv_Cons del: upt_Suc)
qed simp

lemma copy_in_fault:
  "j < todo \<Longrightarrow> rd (a + i + j) = None \<Longrightarrow> fst (copy_in rd a i todo d)"
proof (induction todo arbitrary: i j d)
  case (Suc todo)
  show ?case
  proof (cases "rd (a + i)")
    case (Some v)
    then obtain k where "j = Suc k" using Suc.prems(2) by (cases j) auto
    then show ?thesis using Suc.IH [of k "Suc i"] Suc.prems Some by simp
  qed simp
qed simp

lemma copy_out_eq:
  "(\<And>j. j < length vs \<Longrightarrow> wr (a + i + j)) \<Longrightarrow>
     copy_out wr a i vs m =
       (False, \<lambda>x. if a + i \<le> x \<and> x < a + i + length vs then vs ! (x - a - i) else m x)"
proof (induction vs arbitrary: i m)
  case (Cons v vs)
  have "wr (a + i)" using Cons.prems [of 0] by simp
  moreover have "copy_out wr a (Suc i) vs m' =
      (False, \<lambda>x. if a + Suc i \<le> x \<and> x < a + Suc i + length vs then vs ! (x - a - Suc i) else m' x)" for m'
    by (rule Cons.IH) (use Cons.prems [of "Suc j" for j] in simp)
  ultimately show ?case
    by (auto simp: fun_eq_iff nth_Cons le_Suc_eq diff_Suc split: nat.split)
qed (auto simp: fun_eq_iff)

lemma copy_out_frame: "x < a + i \<or> x \<ge> a + i + length vs \<Longrightarrow> snd (copy_out wr a i vs m) x = m x"
  by (induction vs arbitrary: i m) auto

lemma copy_out_fault: "j < length vs \<Longrightarrow> \<not> wr (a + i + j) \<Longrightarrow> fst (copy_out wr a i vs m)"
proof (induction vs arbitrary: i j m)
  case (Cons v vs)
  show ?case
  proof (cases "wr (a + i)")
    case True
    then obtain k where "j = Suc k" using Cons.prems(2) by (cases j) auto
    then show ?thesis using Cons.IH [of k "Suc i"] Cons.prems True by simp
  qed simp
qed simp

text \<open>The string of length \<open>n\<close> at \<open>p\<close>: \<open>n\<close> readable non-zero bytes and a readable zero.\<close>

definition user_string :: "(nat \<Rightarrow> u8 option) \<Rightarrow> nat \<Rightarrow> nat \<Rightarrow> bool" where
  "user_string rd p n \<longleftrightarrow>
     (\<forall>i < n. rd (p + i) \<noteq> None \<and> rd (p + i) \<noteq> Some 0) \<and> rd (p + n) = Some 0 \<and> p + n < USER_LIMIT"

lemma scan_user_exit:
  assumes "p + n + todo < 2 ^ 64"
  shows "case scan_user rd p n todo of (k, e) \<Rightarrow> n \<le> k \<and> k \<le> n + todo \<and>
    (\<forall>i < k. n \<le> i \<longrightarrow> rd (p + i) \<noteq> None \<and> rd (p + i) \<noteq> Some 0) \<and>
    (e = Scanned \<and> k < n + todo \<longrightarrow> rd (p + k) = Some 0 \<and> p + k < USER_LIMIT) \<and>
    (e \<noteq> Scanned \<longrightarrow> k < n + todo \<and> (p + k \<ge> USER_LIMIT \<or> rd (p + k) = None))"
  using assms
proof (induction todo arbitrary: n)
  case (Suc todo)
  obtain k e where k: "scan_user rd p (Suc n) todo = (k, e)" by (cases "scan_user rd p (Suc n) todo")
  note IH = Suc.IH [of "Suc n", unfolded k, simplified]
  have w: "u64_add p n = p + n" using Suc.prems by (simp add: no_wrap)
  consider "p + n \<ge> USER_LIMIT" | "p + n < USER_LIMIT" "rd (p + n) = None \<or> rd (p + n) = Some 0"
    | c where "p + n < USER_LIMIT" "rd (p + n) = Some c" "c \<noteq> 0"
    by (cases "rd (p + n)"; cases "p + n \<ge> USER_LIMIT") auto
  then show ?case
  proof cases
    case 3
    then have eq: "scan_user rd p n (Suc todo) = (k, e)" using k w by simp
    have "rd (p + i) \<noteq> None \<and> rd (p + i) \<noteq> Some 0" if "i < k" "n \<le> i" for i
      using IH Suc.prems that 3 by (cases "i = n") auto
    then show ?thesis unfolding eq using IH Suc.prems by auto
  qed (use w in auto)
qed simp

lemma scan_user_finds:
  assumes "p + max_len < 2 ^ 64" "n < max_len" "user_string rd p n"
  shows "scan_user rd p 0 max_len = (n, Scanned)"
proof (cases "scan_user rd p 0 max_len")
  case (Pair k e)
  note ex = scan_user_exit [of p 0 max_len rd, simplified, OF assms(1) [simplified], unfolded Pair, simplified]
  have "\<not> n < k" using ex assms(3) by (auto simp: user_string_def)
  moreover have "\<not> k < n" using ex assms by (cases e) (auto simp: user_string_def)
  ultimately have "k = n" by simp
  then show ?thesis using Pair ex assms by (cases e) (auto simp: user_string_def)
qed

section \<open>Properties\<close>

text \<open>C9. \<open>copy_from_user\<close> never brings the kernel down, whatever the user pointer: it
  returns 0 exactly when the whole range lies below the user limit and every byte of it
  is readable, and then the destination holds the user's bytes; otherwise it returns -1.
  It leaves the task out of user-access mode.\<close>

theorem copy_from_user_correct:
  assumes "src < 2 ^ 64" "0 < len" "len < 2 ^ 32" "len \<le> length dst" "\<not> in_user_access t"
  shows "\<exists>r d t'. copy_from_user tramp lbl rd (Some t) dst src len = Ran (r, d, Some t') \<and>
    \<not> in_user_access t' \<and>
    (if src + len \<le> USER_LIMIT \<and> (\<forall>j < len. rd (src + j) \<noteq> None)
     then r = 0 \<and> d = map (\<lambda>j. the (rd (src + j))) [0..<len] @ drop len dst
     else r = -1)"
proof (cases "user_range_ok src len")
  case True
  then have le: "src + len \<le> USER_LIMIT" using user_range_ok_iff [OF assms(1,3)] by simp
  show ?thesis
  proof (cases "\<forall>j < len. rd (src + j) \<noteq> None")
    case ok: True
    then have "copy_in rd src 0 len dst = (False, map (\<lambda>j. the (rd (src + j))) [0..<len] @ drop len dst)"
      using copy_in_eq [of 0 len dst rd src] assms(4) by simp
    then show ?thesis
      using True ok le assms by (simp add: copy_from_user_def end_access_def begin_access_def)
  next
    case False
    then obtain j where "j < len" "rd (src + j) = None" by blast
    then have "fst (copy_in rd src 0 len dst)" using copy_in_fault [of j len rd src 0] by simp
    then show ?thesis
      using True False assms kernel_fault_recovers
      by (cases "copy_in rd src 0 len dst") (auto simp: copy_from_user_def end_access_def)
  qed
next
  case False
  then show ?thesis
    using user_range_ok_iff [OF assms(1,3)] assms by (auto simp: copy_from_user_def)
qed

definition sample_task :: utask where
  "sample_task = \<lparr>ut_is_user = True, ut_kstack_top = 65536, in_user_access = False,
     fault_recovery_rip = 0, uaccess_faulted = False\<rparr>"

definition sample_read :: "nat \<Rightarrow> u8 option" where
  "sample_read a = (if a < 4096 then None else if a < 8190 then Some 65 else if a < 8192 then Some 0 else None)"

theorem copy_from_user_correct_witness:
  "\<exists>r d t'. copy_from_user 7 9 sample_read (Some sample_task) [1, 2, 3] 8191 2 = Ran (r, d, Some t') \<and>
    \<not> in_user_access t' \<and> r = -1"
proof -
  have "sample_read (8191 + 1) = None" by (simp add: sample_read_def)
  then have "\<not> (\<forall>j < 2. sample_read (8191 + j) \<noteq> None)" by (metis one_less_numeral_iff semiring_norm(76))
  then show ?thesis
    using copy_from_user_correct [of 8191 2 "[1, 2, 3]" sample_task 7 9 sample_read]
    by (simp only: simp_thms if_False) (simp add: sample_task_def)
qed

text \<open>C10. \<open>copy_to_user\<close> writes only inside the destination range and never brings the
  kernel down; it returns 0 exactly when the range is a user range and all of it is
  writable, and then the range holds the source bytes.\<close>

theorem copy_to_user_correct:
  assumes "dst < 2 ^ 64" "src \<noteq> []" "length src < 2 ^ 32" "\<not> in_user_access t"
  shows "\<exists>r m' t'. copy_to_user tramp lbl wr (Some t) m dst src = Ran (r, m', Some t') \<and>
    \<not> in_user_access t' \<and>
    (\<forall>x. (x < dst \<or> dst + length src \<le> x \<or> USER_LIMIT \<le> x) \<longrightarrow> m' x = m x) \<and>
    (if dst + length src \<le> USER_LIMIT \<and> (\<forall>j < length src. wr (dst + j))
     then r = 0 \<and> (\<forall>j < length src. m' (dst + j) = src ! j)
     else r = -1)"
proof (cases "user_range_ok dst (length src)")
  case True
  then have le: "dst + length src \<le> USER_LIMIT" using user_range_ok_iff [OF assms(1,3)] by simp
  have fr: "snd (copy_out wr dst 0 src m) x = m x" if "x < dst \<or> dst + length src \<le> x" for x
    using copy_out_frame [of x dst 0 src wr m] that by simp
  show ?thesis
  proof (cases "\<forall>j < length src. wr (dst + j)")
    case ok: True
    then have "copy_out wr dst 0 src m = (False, \<lambda>x. if dst \<le> x \<and> x < dst + length src then src ! (x - dst) else m x)"
      using copy_out_eq [of src wr dst 0 m] by (simp cong: if_cong)
    then show ?thesis
      using True ok le assms by (auto simp: copy_to_user_def end_access_def begin_access_def)
  next
    case False
    then obtain j where "j < length src" "\<not> wr (dst + j)" by blast
    then have "fst (copy_out wr dst 0 src m)" using copy_out_fault [of j src wr dst 0] by simp
    then show ?thesis
      using True False assms kernel_fault_recovers fr le
      by (cases "copy_out wr dst 0 src m") (auto simp: copy_to_user_def end_access_def)
  qed
next
  case False
  then show ?thesis
    using user_range_ok_iff [OF assms(1,3)] assms by (cases src) (auto simp: copy_to_user_def)
qed

theorem copy_to_user_correct_witness:
  "\<exists>r m' t'. copy_to_user 7 9 (\<lambda>a. a < 8192) (Some sample_task) (\<lambda>_. 0) 4096 [1, 2] = Ran (r, m', Some t') \<and>
    r = 0 \<and> (\<forall>j < length [1 :: u8, 2]. m' (4096 + j) = [1, 2] ! j)"
proof -
  have wr: "\<forall>j < length [1 :: u8, 2]. 4096 + j < (8192 :: nat)" by simp
  have "\<not> in_user_access sample_task" by (simp add: sample_task_def)
  then show ?thesis
    using copy_to_user_correct [of 4096 "[1, 2]" sample_task 7 9 "\<lambda>a. a < 8192" "\<lambda>_. 0"] wr by auto
qed

text \<open>\<open>strnlen_user\<close> returns the length of the user string when a readable terminator
  comes before \<open>max_len\<close> and below the user limit, and -1 in every other case; it never
  brings the kernel down.\<close>

theorem strnlen_user_correct:
  assumes "p < 2 ^ 64" "0 < max_len" "max_len < 2 ^ 31" "\<not> in_user_access t"
  shows "\<exists>r t'. strnlen_user tramp lbl rd (Some t) p max_len = Ran (r, Some t') \<and> \<not> in_user_access t' \<and>
    (r = -1 \<or> 0 \<le> r) \<and> (\<forall>n. r = int n \<longleftrightarrow> n < max_len \<and> user_string rd p n)"
proof (cases "p < USER_LIMIT")
  case True
  have ok: "user_range_ok p 1" using user_range_ok_iff [OF assms(1), of 1] True by simp
  have lim: "p + max_len < 2 ^ 64" using True assms(3) by simp
  obtain k e where s: "scan_user rd p 0 max_len = (k, e)" by (cases "scan_user rd p 0 max_len")
  note ex = scan_user_exit [of p 0 max_len rd, simplified, OF lim [simplified], unfolded s, simplified]
  have only: "k = n \<and> e = Scanned" if "n < max_len" "user_string rd p n" for n
    using scan_user_finds [OF lim that] s by simp
  show ?thesis
  proof (cases "e = Scanned \<and> k < max_len")
    case True
    then have "user_string rd p k" using ex by (auto simp: user_string_def)
    then show ?thesis
      using True ok s assms only
      by (auto simp: strnlen_user_def begin_access_def end_access_def)
  next
    case False
    then have "k = max_len" if "e = Scanned" using ex that by auto
    then show ?thesis
      using False ok s assms only kernel_fault_recovers
      by (cases e) (auto simp: strnlen_user_def begin_access_def end_access_def)
  qed
next
  case False
  then have "\<not> user_range_ok p 1" by (simp add: user_range_ok_def)
  then show ?thesis using False assms by (auto simp: strnlen_user_def user_string_def)
qed

theorem strnlen_user_correct_witness:
  "\<exists>r t'. strnlen_user 7 9 sample_read (Some sample_task) 8188 10 = Ran (r, Some t') \<and> r = 2"
proof -
  have u: "user_string sample_read 8188 2"
    by (auto simp: user_string_def sample_read_def less_2_cases_iff)
  then show ?thesis
    using strnlen_user_correct [of 8188 10 sample_task 7 9 sample_read]
    by (auto simp: sample_task_def dest!: spec [of _ 2])
qed

end
