(* ===== verification/Cred.thy ===== *)
theory Cred
  imports CString
begin

text \<open>
  \<open>src/cred.c\<close>: the credentials the system runs as (one global pair, set by \<open>su\<close>) and
  the fixed user table.  \<open>strcmp(name, "root") == 0\<close> is string equality
  (\<open>strcmp_cstr_zero\<close>).
\<close>

record cred =
  g_uid :: nat
  g_gid :: nat

definition cred_boot :: cred where "cred_boot = \<lparr>g_uid = 0, g_gid = 0\<rparr>"

definition cred_uid :: "cred \<Rightarrow> nat" where "cred_uid c = g_uid c"
definition cred_gid :: "cred \<Rightarrow> nat" where "cred_gid c = g_gid c"

definition cred_set :: "cred \<Rightarrow> nat \<Rightarrow> nat \<Rightarrow> cred" where
  "cred_set c uid gid = c\<lparr>g_uid := uid, g_gid := gid\<rparr>"

definition cred_name :: "nat \<Rightarrow> string option" where
  "cred_name uid = (if uid = 0 then Some ''root'' else if uid = 1000 then Some ''user'' else None)"

definition cred_lookup :: "string \<Rightarrow> (nat \<times> nat) option" where
  "cred_lookup name =
     (if name = ''root'' then Some (0, 0)
      else if name = ''user'' then Some (1000, 1000)
      else None)"

lemma cred_lookup_name: "cred_lookup name = Some (uid, gid) \<Longrightarrow> cred_name uid = Some name"
  by (auto simp: cred_lookup_def cred_name_def split: if_splits)

lemma cred_name_lookup: "cred_name uid = Some name \<Longrightarrow> cred_lookup name = Some (uid, uid)"
  by (auto simp: cred_lookup_def cred_name_def split: if_splits)

end
