(* ===== verification/Bitstream.thy ===== *)
theory Bitstream
  imports Prelude
begin

text \<open>
  \<open>src/inflate.c\<close>, the bit-stream reader: the input bytes, a 32-bit buffer of bits that
  were fetched and not yet consumed, and its fill level.  The abstract view is the
  function \<open>stream\<close>: the upcoming bits, least significant bit of each byte first, zeros
  after the end of the input.
\<close>

section \<open>The reader\<close>

record bitstream =
  bs_src :: "u8 list"
  src_pos :: nat
  bs_bits :: u32
  nbits :: nat

definition bs_init :: "u8 list \<Rightarrow> bitstream" where
  "bs_init src = \<lparr>bs_src = src, src_pos = 0, bs_bits = 0, nbits = 0\<rparr>"

text \<open>The body of the loop of \<open>bs_fill\<close>.\<close>

definition fetch_byte :: "bitstream \<Rightarrow> bitstream" where
  "fetch_byte bs =
     (if src_pos bs < length (bs_src bs)
      then bs\<lparr>bs_bits := bs_bits bs OR push_bit (nbits bs) (ucast (bs_src bs ! src_pos bs)),
              src_pos := src_pos bs + 1, nbits := nbits bs + 8\<rparr>
      else bs\<lparr>nbits := nbits bs + 8\<rparr>)"

function bs_fill :: "bitstream \<Rightarrow> nat \<Rightarrow> bitstream" where
  "bs_fill bs n = (if nbits bs < n then bs_fill (fetch_byte bs) n else bs)"
  by pat_completeness auto

termination
  by (relation "measure (\<lambda>(bs, n). n - nbits bs)") (auto simp: fetch_byte_def)

declare bs_fill.simps [simp del]

definition bs_peek :: "bitstream \<Rightarrow> nat \<Rightarrow> nat \<times> bitstream" where
  "bs_peek bs n = (let bs1 = bs_fill bs n in (unat (bs_bits bs1 AND (push_bit n 1 - 1)), bs1))"

definition bs_drop :: "bitstream \<Rightarrow> nat \<Rightarrow> bitstream" where
  "bs_drop bs n = bs\<lparr>bs_bits := drop_bit n (bs_bits bs), nbits := u32_sub (nbits bs) n\<rparr>"

definition bs_read :: "bitstream \<Rightarrow> nat \<Rightarrow> nat \<times> bitstream" where
  "bs_read bs n = (let (v, bs1) = bs_peek bs n in (v, bs_drop bs1 n))"

definition bs_align :: "bitstream \<Rightarrow> bitstream" where
  "bs_align bs =
     (let discard = nbits bs mod 8
      in bs\<lparr>bs_bits := drop_bit discard (bs_bits bs), nbits := nbits bs - discard\<rparr>)"

definition bs_read_u16_le :: "bitstream \<Rightarrow> nat \<times> bitstream" where
  "bs_read_u16_le bs =
     (let (lo, bs1) = bs_read (bs_align bs) 8; (hi, bs2) = bs_read bs1 8 in (lo + 256 * hi, bs2))"

section \<open>The stream of bits\<close>

definition src_bit :: "u8 list \<Rightarrow> nat \<Rightarrow> bool" where
  "src_bit src i \<longleftrightarrow> i div 8 < length src \<and> bit (src ! (i div 8)) (i mod 8)"

definition stream :: "bitstream \<Rightarrow> nat \<Rightarrow> bool" where
  "stream bs i \<longleftrightarrow>
     (if i < nbits bs then bit (bs_bits bs) i else src_bit (bs_src bs) (8 * src_pos bs + (i - nbits bs)))"

text \<open>The value of \<open>n\<close> bits, the first one least significant.\<close>

definition bits_value :: "(nat \<Rightarrow> bool) \<Rightarrow> nat \<Rightarrow> nat" where
  "bits_value f n = (\<Sum>i < n. if f i then 2 ^ i else 0)"

definition bs_ok :: "bitstream \<Rightarrow> bool" where
  "bs_ok bs \<longleftrightarrow> (\<forall>i \<ge> nbits bs. \<not> bit (bs_bits bs) i) \<and> nbits bs < 32"

lemma bit_buffer_fill:
  fixes b :: u8
  assumes "nbits bs + 8 \<le> 32"
  shows "bit (bs_bits bs OR push_bit (nbits bs) (ucast b)) i \<longleftrightarrow>
    bit (bs_bits bs) i \<or> nbits bs \<le> i \<and> i < nbits bs + 8 \<and> bit b (i - nbits bs)"
proof -
  have "bit b (i - nbits bs) \<Longrightarrow> i - nbits bs < 8" by (auto dest: bit_imp_le_length)
  then show ?thesis using assms by (auto simp: bit_or_iff bit_push_bit_iff bit_ucast_iff)
qed

lemma fill_step:
  assumes ok: "bs_ok bs" and n: "nbits bs < n" "n \<le> 24"
    and bs': "bs' = fetch_byte bs"
  shows "bs_ok bs'" "stream bs' = stream bs"
proof -
  have le: "nbits bs + 8 < 32" using n by simp
  note b = bit_buffer_fill [OF less_imp_le [OF le]]
  show "bs_ok bs'" using ok le unfolding bs_ok_def bs' fetch_byte_def by (auto simp: b)
  show "stream bs' = stream bs"
  proof
    fix i
    have sub: "8 * src_pos bs + (i - nbits bs) = 8 * (src_pos bs + 1) + (i - (nbits bs + 8))"
      if "nbits bs + 8 \<le> i" using that by simp
    have mid: "(8 * src_pos bs + (i - nbits bs)) div 8 = src_pos bs \<and>
        (8 * src_pos bs + (i - nbits bs)) mod 8 = i - nbits bs"
      if i: "nbits bs \<le> i" "i < nbits bs + 8"
    proof -
      obtain d where "i = nbits bs + d" "d < 8" using i by (metis add_less_cancel_left le_Suc_ex)
      then show ?thesis by simp
    qed
    have past: "\<not> src_bit (bs_src bs) k" if "\<not> src_pos bs < length (bs_src bs)" "8 * src_pos bs \<le> k" for k
    proof -
      have "src_pos bs \<le> k div 8" using that(2) by simp
      then show ?thesis using that(1) by (simp add: src_bit_def)
    qed
    consider "i < nbits bs" | "nbits bs \<le> i" "i < nbits bs + 8" | "nbits bs + 8 \<le> i" by linarith
    then show "stream bs' i = stream bs i"
    proof cases
      case 1
      then show ?thesis unfolding stream_def bs' fetch_byte_def by (auto simp: b)
    next
      case 2
      then have "\<not> bit (bs_bits bs) i" using ok by (simp add: bs_ok_def)
      then show ?thesis
        using 2 mid past [of "8 * src_pos bs + (i - nbits bs)"]
        unfolding stream_def bs' fetch_byte_def by (auto simp: b src_bit_def)
    next
      case 3
      then show ?thesis
        using sub past [of "8 * src_pos bs + (i - (nbits bs + 8))"] past [of "8 * src_pos bs + (i - nbits bs)"]
        unfolding stream_def bs' fetch_byte_def by auto
    qed
  qed
qed

lemma bs_fill_correct:
  assumes "bs_ok bs" "n \<le> 24"
  shows "bs_ok (bs_fill bs n) \<and> stream (bs_fill bs n) = stream bs \<and> n \<le> nbits (bs_fill bs n)"
  using assms
proof (induction bs n rule: bs_fill.induct)
  case (1 bs n)
  show ?case
  proof (cases "nbits bs < n")
    case True
    note s = fill_step [OF "1.prems"(1) True "1.prems"(2) refl]
    have "bs_fill bs n = bs_fill (fetch_byte bs) n" using True by (simp add: bs_fill.simps [of bs n])
    then show ?thesis using "1.IH" [OF True s(1) "1.prems"(2)] s(2) by simp
  next
    case False
    then show ?thesis using 1 by (simp add: bs_fill.simps [of bs n])
  qed
qed

lemma bits_value_unat:
  fixes w :: u32
  assumes "n < 32"
  shows "unat (w AND (2 ^ n - 1)) = bits_value (bit w) n"
proof -
  have "2 ^ n - 1 = (mask n :: u32)" by (simp add: mask_eq_exp_minus_1)
  then have "unat (w AND (2 ^ n - 1)) = take_bit n (unat w)"
    by (simp only: take_bit_eq_mask [symmetric] unsigned_take_bit_eq)
  also have "\<dots> = (\<Sum>k = 0..<n. push_bit k (of_bool (bit (unat w) k)))" by (rule take_bit_sum)
  also have "\<dots> = (\<Sum>k < n. if bit w k then 2 ^ k else 0)"
    by (rule sum.cong) (auto simp: push_bit_eq_mult bit_unsigned_iff dest: bit_imp_le_length)
  finally show ?thesis by (simp add: bits_value_def)
qed

lemma bits_value_cong: "(\<And>i. i < n \<Longrightarrow> f i = g i) \<Longrightarrow> bits_value f n = bits_value g n"
  by (simp add: bits_value_def)

lemma bits_value_less: "bits_value f n < 2 ^ n"
  by (induction n) (auto simp: bits_value_def)

lemma bits_value_eq_0: "bits_value f n = 0 \<longleftrightarrow> (\<forall>i < n. \<not> f i)"
  by (auto simp: bits_value_def)

lemma bs_read_stream:
  assumes "bs_ok bs" "n \<le> 24"
  shows "fst (bs_read bs n) = bits_value (stream bs) n \<and> bs_ok (snd (bs_read bs n)) \<and>
    stream (snd (bs_read bs n)) = (\<lambda>i. stream bs (n + i))"
proof -
  let ?b = "bs_fill bs n"
  have f: "bs_ok ?b" "stream ?b = stream bs" "n \<le> nbits ?b" using bs_fill_correct [OF assms] by auto
  have "bits_value (bit (bs_bits ?b)) n = bits_value (stream ?b) n"
    by (rule bits_value_cong) (use f(3) in \<open>simp add: stream_def\<close>)
  then have "fst (bs_read bs n) = bits_value (stream bs) n"
    using f(2) assms(2) by (simp add: bs_read_def bs_peek_def Let_def bits_value_unat)
  moreover have d: "nbits (bs_drop ?b n) = nbits ?b - n"
    using f(1,3) by (simp add: bs_drop_def bs_ok_def no_wrap)
  have "bs_ok (bs_drop ?b n)"
    using f(1,3) d by (auto simp: bs_ok_def bit_drop_bit_eq) (simp_all add: bs_drop_def bit_drop_bit_eq)
  moreover have "stream (bs_drop ?b n) i = stream ?b (n + i)" for i
    using f(3) d by (auto simp: stream_def) (simp_all add: bs_drop_def bit_drop_bit_eq add.commute)
  ultimately show ?thesis using f(2) by (simp add: bs_read_def bs_peek_def Let_def fun_eq_iff)
qed

section \<open>Set bits that remain\<close>

text \<open>The number of set bits still to come.  No operation increases it, and a read of a
  non-zero value decreases it: this bounds the number of blocks of a compressed stream.
  The lemmas hold for every state of the reader.\<close>

definition pop :: "'a::len word \<Rightarrow> nat" where
  "pop w = card {i. bit w i}"

definition ones :: "bitstream \<Rightarrow> nat" where
  "ones bs = pop (bs_bits bs) + sum_list (map pop (drop (src_pos bs) (bs_src bs)))"

lemma finite_bits [simp]: "finite {i. bit (w :: 'a::len word) i}"
  by (rule finite_subset [of _ "{..<LENGTH('a)}"]) (auto dest: bit_imp_le_length)

lemma pop_or_le: "pop (v OR w) \<le> pop v + pop w"
proof -
  have "{i. bit (v OR w) i} = {i. bit v i} \<union> {i. bit w i}" by (auto simp: bit_or_iff)
  then show ?thesis by (simp add: pop_def card_Un_le)
qed

lemma pop_push_ucast_le: "pop (push_bit k (ucast (b :: u8)) :: u32) \<le> pop b"
proof -
  have "{i. bit (push_bit k (ucast b) :: u32) i} \<subseteq> (\<lambda>i. i + k) ` {i. bit b i}"
    by (auto simp: bit_push_bit_iff bit_ucast_iff image_iff) (metis le_add_diff_inverse2)
  then have "pop (push_bit k (ucast b) :: u32) \<le> card ((\<lambda>i. i + k) ` {i. bit b i})"
    unfolding pop_def by (rule card_mono [OF finite_imageI [OF finite_bits]])
  then show ?thesis using card_image_le [OF finite_bits, of "\<lambda>i. i + k" b] by (simp add: pop_def)
qed

lemma pop_drop: "pop (drop_bit n w) + card {i. bit w i \<and> i < n} = pop w"
proof -
  have eq: "{i. bit w i} = (\<lambda>i. n + i) ` {i. bit (drop_bit n w) i} \<union> {i. bit w i \<and> i < n}"
    by (auto simp: bit_drop_bit_eq image_iff) (metis le_add_diff_inverse linorder_not_less)
  have fin: "finite {i. bit w i \<and> i < n}" by (rule finite_subset [OF _ finite_bits [of w]]) auto
  have "card ((\<lambda>i. n + i) ` {i. bit (drop_bit n w) i}) = pop (drop_bit n w)"
    unfolding pop_def by (rule card_image) (auto intro: inj_onI)
  moreover have "card ((\<lambda>i. n + i) ` {i. bit (drop_bit n w) i} \<union> {i. bit w i \<and> i < n}) =
      card ((\<lambda>i. n + i) ` {i. bit (drop_bit n w) i}) + card {i. bit w i \<and> i < n}"
    by (rule card_Un_disjoint) (use fin in auto)
  ultimately show ?thesis using eq by (simp add: pop_def)
qed

lemma ones_fill: "ones (bs_fill bs n) \<le> ones bs"
proof (induction bs n rule: bs_fill.induct)
  case (1 bs n)
  have "ones (fetch_byte bs) \<le> ones bs"
  proof (cases "src_pos bs < length (bs_src bs)")
    case True
    then have "sum_list (map pop (drop (src_pos bs) (bs_src bs))) =
        pop (bs_src bs ! src_pos bs) + sum_list (map pop (drop (src_pos bs + 1) (bs_src bs)))"
      by (simp add: Cons_nth_drop_Suc [symmetric])
    then show ?thesis
      using True pop_or_le [of "bs_bits bs" "push_bit (nbits bs) (ucast (bs_src bs ! src_pos bs))"]
        pop_push_ucast_le [of "nbits bs" "bs_src bs ! src_pos bs"]
      by (simp add: ones_def fetch_byte_def)
  qed (simp add: ones_def fetch_byte_def)
  then show ?case
    using "1.IH" by (cases "nbits bs < n") (simp_all add: bs_fill.simps [of bs n])
qed

lemma ones_drop: "ones (bs_drop bs n) + card {i. bit (bs_bits bs) i \<and> i < n} = ones bs"
  using pop_drop [of n "bs_bits bs"] by (simp add: ones_def bs_drop_def)

lemma ones_read: "ones (snd (bs_read bs n)) \<le> ones bs"
  using ones_drop [of "bs_fill bs n" n] ones_fill [of bs n]
  by (simp add: bs_read_def bs_peek_def Let_def)

lemma ones_read_less:
  assumes "fst (bs_read bs n) \<noteq> 0"
  shows "ones (snd (bs_read bs n)) < ones bs"
proof -
  let ?w = "bs_bits (bs_fill bs n)"
  have "?w AND (push_bit n 1 - 1) \<noteq> 0" using assms by (auto simp: bs_read_def bs_peek_def Let_def)
  moreover have m: "push_bit n 1 - 1 = (mask n :: u32)" by (simp add: mask_eq_exp_minus_1)
  ultimately obtain i where "bit (?w AND mask n) i" by (metis bit_eqI bit_0_eq bot_apply bot_bool_def)
  then have i: "i \<in> {i. bit ?w i \<and> i < n}" by (auto simp: bit_and_iff bit_mask_iff)
  moreover have "finite {i. bit ?w i \<and> i < n}" by simp
  ultimately have "0 < card {i. bit ?w i \<and> i < n}" by (auto simp: card_gt_0_iff)
  then show ?thesis
    using ones_drop [of "bs_fill bs n" n] ones_fill [of bs n]
    by (simp add: bs_read_def bs_peek_def Let_def)
qed

lemma ones_align: "ones (bs_align bs) \<le> ones bs"
  using pop_drop [of "nbits bs mod 8" "bs_bits bs"] by (simp add: ones_def bs_align_def Let_def)

lemma ones_u16: "ones (snd (bs_read_u16_le bs)) \<le> ones bs"
  "fst (bs_read_u16_le bs) \<noteq> 0 \<Longrightarrow> ones (snd (bs_read_u16_le bs)) < ones bs"
proof -
  obtain lo b1 where r1: "bs_read (bs_align bs) 8 = (lo, b1)" by (cases "bs_read (bs_align bs) 8")
  obtain hi b2 where r2: "bs_read b1 8 = (hi, b2)" by (cases "bs_read b1 8")
  have eq: "bs_read_u16_le bs = (lo + 256 * hi, b2)" using r1 r2 by (simp add: bs_read_u16_le_def)
  have le: "ones b1 \<le> ones bs" "ones b2 \<le> ones b1"
    using ones_align [of bs] ones_read [of "bs_align bs" 8] ones_read [of b1 8] r1 r2 by auto
  then show "ones (snd (bs_read_u16_le bs)) \<le> ones bs" using eq by simp
  show "ones (snd (bs_read_u16_le bs)) < ones bs" if "fst (bs_read_u16_le bs) \<noteq> 0"
    using that eq le ones_align [of bs] ones_read_less [of "bs_align bs" 8] ones_read_less [of b1 8] r1 r2
    by (cases "lo = 0") auto
qed

end
