(* ===== verification/Huffman.thy ===== *)
theory Huffman
  imports Bitstream
begin

text \<open>
  \<open>src/inflate.c\<close>, the canonical Huffman decoder: the tables built from a list of code
  lengths and the bit-by-bit decoder, and the theorem that the decoder inverts the
  canonical code.  Array entries the code leaves uninitialised are 0 here; no entry is
  read before it was written.
\<close>

section \<open>Tables and decoder\<close>

abbreviation (input) HUFF_MAX_BITS :: nat where "HUFF_MAX_BITS \<equiv> 15"
abbreviation (input) HUFF_MAX_SYMS :: nat where "HUFF_MAX_SYMS \<equiv> 288"

record huffman =
  hf_count :: "nat list"
  base_code :: "nat list"
  base_sym :: "nat list"
  symbols :: "nat list"
  hf_nsyms :: nat

fun count_lengths :: "nat list \<Rightarrow> nat list \<Rightarrow> nat list option" where
  "count_lengths [] c = Some c"
| "count_lengths (l # ls) c =
     (if l > HUFF_MAX_BITS then None else count_lengths ls (c[l := c ! l + 1]))"

fun codes_from :: "nat list \<Rightarrow> nat \<Rightarrow> nat list \<Rightarrow> nat list" where
  "codes_from count code [] = []"
| "codes_from count code (i # is') = code # codes_from count (u32_mul (u32_add code (count ! i)) 2) is'"

fun syms_from :: "nat list \<Rightarrow> nat \<Rightarrow> nat list \<Rightarrow> nat list" where
  "syms_from count idx [] = []"
| "syms_from count idx (i # is') = idx # syms_from count (u32_add idx (count ! i)) is'"

definition place_symbol :: "nat list \<Rightarrow> nat \<Rightarrow> nat list \<times> nat list \<Rightarrow> nat list \<times> nat list" where
  "place_symbol lengths i so =
     (let (syms, offsets) = so; l = lengths ! i
      in if l > 0 then (syms[offsets ! l := i], offsets[l := offsets ! l + 1]) else (syms, offsets))"

definition huff_build :: "nat list \<Rightarrow> nat \<Rightarrow> huffman option" where
  "huff_build lengths nsyms =
     (case count_lengths (take nsyms lengths) (replicate 16 0) of
        None \<Rightarrow> None
      | Some c \<Rightarrow>
          let count = c[0 := 0];
              codes = 0 # codes_from count 0 [1..<16];
              bases = 0 # syms_from count 0 [1..<16];
              (syms, _) = fold (place_symbol lengths) [0..<nsyms] (replicate HUFF_MAX_SYMS 0, bases)
          in Some \<lparr>hf_count = count, base_code = codes, base_sym = bases, symbols = syms, hf_nsyms = nsyms\<rparr>)"

fun decode_from :: "huffman \<Rightarrow> nat \<Rightarrow> nat list \<Rightarrow> bitstream \<Rightarrow> nat option \<times> bitstream" where
  "decode_from h code [] bs = (None, bs)"
| "decode_from h code (len # lens) bs =
     (let (b, bs1) = bs_read bs 1; code1 = u32_mul code 2 + b
      in if hf_count h ! len = 0 then decode_from h code1 lens bs1
         else if code1 \<ge> base_code h ! len \<and> code1 < u32_add (base_code h ! len) (hf_count h ! len)
         then (let idx = u32_add (base_sym h ! len) (code1 - base_code h ! len)
               in (if idx \<ge> hf_nsyms h then None else Some (symbols h ! idx), bs1))
         else decode_from h code1 lens bs1)"

definition huff_decode :: "huffman \<Rightarrow> bitstream \<Rightarrow> nat option \<times> bitstream" where
  "huff_decode h bs = decode_from h 0 [1..<16] bs"

section \<open>Canonical codes\<close>

text \<open>The number of symbols of a length, the first code and the first table position of a
  length, and the rank of a symbol among those of its length.\<close>

definition cnt :: "nat list \<Rightarrow> nat \<Rightarrow> nat" where
  "cnt ls l = (if l = 0 then 0 else length (filter (\<lambda>x. x = l) ls))"

fun first_code :: "nat list \<Rightarrow> nat \<Rightarrow> nat" where
  "first_code ls 0 = 0"
| "first_code ls (Suc l) = 2 * (first_code ls l + cnt ls l)"

fun first_pos :: "nat list \<Rightarrow> nat \<Rightarrow> nat" where
  "first_pos ls 0 = 0"
| "first_pos ls (Suc l) = first_pos ls l + cnt ls l"

definition rank :: "nat list \<Rightarrow> nat \<Rightarrow> nat" where
  "rank ls s = length (filter (\<lambda>x. x = ls ! s) (take s ls))"

definition huff_code :: "nat list \<Rightarrow> nat \<Rightarrow> nat" where
  "huff_code ls s = first_code ls (ls ! s) + rank ls s"

text \<open>The lengths are those of a prefix code: at every length the codes fit into its bits.\<close>

definition lengths_ok :: "nat list \<Rightarrow> bool" where
  "lengths_ok ls \<longleftrightarrow> (\<forall>l \<in> set ls. l \<le> 15) \<and> length ls \<le> HUFF_MAX_SYMS \<and>
     (\<forall>l \<le> 15. first_code ls l + cnt ls l \<le> 2 ^ l)"

lemma rank_less_cnt: "s < length ls \<Longrightarrow> ls ! s \<noteq> 0 \<Longrightarrow> rank ls s < cnt ls (ls ! s)"
proof -
  assume s: "s < length ls" "ls ! s \<noteq> 0"
  have "length (filter (\<lambda>x. x = ls ! s) ls) =
      length (filter (\<lambda>x. x = ls ! s) (take s ls)) + length (filter (\<lambda>x. x = ls ! s) (drop s ls))"
    by (metis append_take_drop_id filter_append length_append)
  moreover have "drop s ls = ls ! s # drop (Suc s) ls" using s by (simp add: Cons_nth_drop_Suc)
  ultimately show ?thesis using s by (simp add: rank_def cnt_def)
qed

lemma first_code_mono: "k < l \<Longrightarrow> 2 ^ (l - k) * (first_code ls k + cnt ls k) \<le> first_code ls l"
proof (induction l)
  case (Suc l)
  show ?case
  proof (cases "k = l")
    case False
    then have "2 ^ (l - k) * (first_code ls k + cnt ls k) \<le> first_code ls l" using Suc by simp
    moreover have "Suc l - k = Suc (l - k)" using Suc.prems by simp
    ultimately show ?thesis by simp
  qed simp
qed simp

lemma first_pos_mono: "k < l \<Longrightarrow> first_pos ls k + cnt ls k \<le> first_pos ls l"
  by (induction l) (auto simp: less_Suc_eq)

lemma cnt_take_Suc:
  "i < length ls \<Longrightarrow> length (filter (\<lambda>x. x = l) (take (Suc i) ls)) =
     length (filter (\<lambda>x. x = l) (take i ls)) + (if ls ! i = l then 1 else 0)"
  by (simp add: take_Suc_conv_app_nth)

lemma sum_cnt_le: "first_pos ls (Suc n) \<le> length (filter (\<lambda>x. x \<le> n) ls)"
proof (induction n)
  case (Suc n)
  have "length (filter (\<lambda>x. x \<le> Suc n) ls) =
      length (filter (\<lambda>x. x \<le> n) ls) + length (filter (\<lambda>x. x = Suc n) ls)"
    by (induction ls) auto
  then show ?case using Suc by (simp add: cnt_def)
qed (simp add: cnt_def)

lemma first_pos_le: "first_pos ls l \<le> length ls"
proof (cases l)
  case (Suc n)
  then show ?thesis using le_trans [OF sum_cnt_le length_filter_le] by blast
qed simp

section \<open>What the tables hold\<close>

lemma count_lengths_eq:
  assumes "\<forall>l \<in> set ls. l \<le> 15" "length c = 16"
  shows "\<exists>c'. count_lengths ls c = Some c' \<and> length c' = 16 \<and>
    (\<forall>l < 16. c' ! l = c ! l + length (filter (\<lambda>x. x = l) ls))"
  using assms
proof (induction ls arbitrary: c)
  case (Cons x ls)
  have "\<exists>c'. count_lengths ls (c[x := c ! x + 1]) = Some c' \<and> length c' = 16 \<and>
      (\<forall>l < 16. c' ! l = c[x := c ! x + 1] ! l + length (filter (\<lambda>x. x = l) ls))"
    by (rule Cons.IH) (use Cons.prems in auto)
  then show ?case using Cons.prems by (fastforce simp: nth_list_update)
qed simp

lemma codes_from_nth:
  assumes "\<And>l. l \<le> 15 \<Longrightarrow> count ! l = cnt ls l" "\<And>l. l \<le> 15 \<Longrightarrow> first_code ls l + cnt ls l \<le> 2 ^ l"
    and "a + i \<le> 15" "b = 16"
  shows "codes_from count (first_code ls a) [a..<b] ! i = first_code ls (a + i)"
  using assms(3)
proof (induction i arbitrary: a)
  case 0
  then show ?case using assms(4) by (simp add: upt_conv_Cons)
next
  case (Suc i)
  have "first_code ls a + cnt ls a \<le> 2 ^ a" "(2 :: nat) ^ a \<le> 2 ^ 15"
    using assms(2) [of a] Suc.prems by (simp, intro power_increasing) auto
  then have "u32_mul (u32_add (first_code ls a) (count ! a)) 2 = first_code ls (Suc a)"
    using assms(1) [of a] Suc.prems by (simp add: no_wrap)
  then show ?case using Suc.IH [of "Suc a"] Suc.prems assms(4) by (simp add: upt_conv_Cons)
qed

lemma syms_from_nth:
  assumes "\<And>l. l \<le> 15 \<Longrightarrow> count ! l = cnt ls l" "length ls \<le> HUFF_MAX_SYMS" "a + i \<le> 15" "b = 16"
  shows "syms_from count (first_pos ls a) [a..<b] ! i = first_pos ls (a + i)"
  using assms(3)
proof (induction i arbitrary: a)
  case 0
  then show ?case using assms(4) by (simp add: upt_conv_Cons)
next
  case (Suc i)
  have "first_pos ls (Suc a) \<le> 288" using first_pos_le [of ls "Suc a"] assms(2) by linarith
  then have "u32_add (first_pos ls a) (count ! a) = first_pos ls (Suc a)"
    using assms(1) [of a] Suc.prems by (simp add: no_wrap)
  then show ?case using Suc.IH [of "Suc a"] Suc.prems assms(4) by (simp add: upt_conv_Cons)
qed

lemma syms_from_length [simp]: "length (syms_from count idx is') = length is'"
  by (induction count idx is' rule: syms_from.induct) auto

text \<open>The position of a symbol in the sorted table; different symbols have different positions.\<close>

definition sym_pos :: "nat list \<Rightarrow> nat \<Rightarrow> nat" where
  "sym_pos ls s = first_pos ls (ls ! s) + rank ls s"

lemma rank_mono: "s < t \<Longrightarrow> t < length ls \<Longrightarrow> ls ! s = ls ! t \<Longrightarrow> rank ls s < rank ls t"
proof -
  assume a: "s < t" "t < length ls" "ls ! s = ls ! t"
  have "take t ls = take s ls @ ls ! s # take (t - Suc s) (drop (Suc s) ls)"
    using a take_add [of "Suc s" "t - Suc s" ls] by (simp add: take_Suc_conv_app_nth)
  then have "rank ls t = rank ls s + Suc (length (filter (\<lambda>x. x = ls ! t) (take (t - Suc s) (drop (Suc s) ls))))"
    using a(3) unfolding rank_def by simp
  then show ?thesis by simp
qed

lemma sym_pos_neq:
  assumes "s < t" "t < length ls" "ls ! s \<noteq> 0" "ls ! t \<noteq> 0"
  shows "sym_pos ls s \<noteq> sym_pos ls t"
proof (cases "ls ! s = ls ! t")
  case True
  then show ?thesis using rank_mono [OF assms(1,2) True] by (simp add: sym_pos_def)
next
  case False
  have r: "rank ls s < cnt ls (ls ! s)" "rank ls t < cnt ls (ls ! t)"
    using rank_less_cnt assms by auto
  have "first_pos ls (ls ! s) + cnt ls (ls ! s) \<le> first_pos ls (ls ! t) \<or>
      first_pos ls (ls ! t) + cnt ls (ls ! t) \<le> first_pos ls (ls ! s)"
    using first_pos_mono False by (metis linorder_neqE_nat)
  then show ?thesis using r by (auto simp: sym_pos_def)
qed

lemma sym_pos_less: "s < length ls \<Longrightarrow> ls ! s \<noteq> 0 \<Longrightarrow> sym_pos ls s < length ls"
  using rank_less_cnt [of s ls] first_pos_le [of ls "Suc (ls ! s)"] by (simp add: sym_pos_def)

lemma place_fold:
  assumes ok: "\<forall>l \<in> set ls. l \<le> 15" "length ls \<le> HUFF_MAX_SYMS"
    and b: "length bases = 16" "\<And>l. 1 \<le> l \<Longrightarrow> l \<le> 15 \<Longrightarrow> bases ! l = first_pos ls l" and n: "n \<le> length ls"
  shows "case fold (place_symbol ls) [0..<n] (replicate HUFF_MAX_SYMS 0, bases) of (syms, offs) \<Rightarrow>
    length syms = HUFF_MAX_SYMS \<and> length offs = 16 \<and>
    (\<forall>l. 1 \<le> l \<and> l \<le> 15 \<longrightarrow> offs ! l = first_pos ls l + length (filter (\<lambda>x. x = l) (take n ls))) \<and>
    (\<forall>s < n. ls ! s \<noteq> 0 \<longrightarrow> syms ! sym_pos ls s = s)"
  using n
proof (induction n)
  case 0
  then show ?case using b by simp
next
  case (Suc n)
  obtain syms offs where so: "fold (place_symbol ls) [0..<n] (replicate HUFF_MAX_SYMS 0, bases) = (syms, offs)"
    by (cases "fold (place_symbol ls) [0..<n] (replicate HUFF_MAX_SYMS 0, bases)")
  have n: "n < length ls" using Suc.prems by simp
  have IH: "length syms = HUFF_MAX_SYMS" "length offs = 16"
    "\<And>l. 1 \<le> l \<Longrightarrow> l \<le> 15 \<Longrightarrow> offs ! l = first_pos ls l + length (filter (\<lambda>x. x = l) (take n ls))"
    "\<And>s. s < n \<Longrightarrow> ls ! s \<noteq> 0 \<Longrightarrow> syms ! sym_pos ls s = s"
    using Suc.IH n so by auto
  have le: "ls ! n \<le> 15" using ok(1) n by auto
  have f: "fold (place_symbol ls) [0..<Suc n] (replicate HUFF_MAX_SYMS 0, bases) = place_symbol ls n (syms, offs)"
    using so by simp
  show ?case
  proof (cases "ls ! n = 0")
    case True
    then show ?thesis
      using IH n unfolding f by (auto simp: place_symbol_def cnt_take_Suc less_Suc_eq)
  next
    case False
    have pos: "offs ! (ls ! n) = sym_pos ls n" using IH(3) [of "ls ! n"] False le by (simp add: sym_pos_def rank_def)
    have lt: "sym_pos ls n < HUFF_MAX_SYMS" using sym_pos_less [OF n False] ok(2) by simp
    have "syms[sym_pos ls n := n] ! sym_pos ls s = s" if "s < Suc n" "ls ! s \<noteq> 0" for s
      using that IH(1,4) lt sym_pos_neq [of s n ls] n False by (auto simp: less_Suc_eq)
    moreover have "offs[ls ! n := offs ! (ls ! n) + 1] ! l =
        first_pos ls l + length (filter (\<lambda>x. x = l) (take (Suc n) ls))" if "1 \<le> l" "l \<le> 15" for l
      using IH(2,3) that le n by (auto simp: nth_list_update cnt_take_Suc)
    ultimately show ?thesis
      using IH False pos unfolding f by (simp add: place_symbol_def)
  qed
qed

text \<open>The tables of a decoder for the lengths \<open>ls\<close>.\<close>

definition tables_for :: "nat list \<Rightarrow> huffman \<Rightarrow> bool" where
  "tables_for ls h \<longleftrightarrow> hf_nsyms h = length ls \<and>
     (\<forall>l. 1 \<le> l \<and> l \<le> 15 \<longrightarrow> hf_count h ! l = cnt ls l \<and> base_code h ! l = first_code ls l \<and>
        base_sym h ! l = first_pos ls l) \<and>
     (\<forall>s < length ls. ls ! s \<noteq> 0 \<longrightarrow> symbols h ! sym_pos ls s = s)"

lemma huff_build_correct:
  assumes ls: "ls = take n lengths" "n \<le> length lengths" and ok: "lengths_ok ls"
  shows "\<exists>h. huff_build lengths n = Some h \<and> tables_for ls h"
proof -
  have len: "length ls = n" using ls by simp
  have le: "\<forall>l \<in> set ls. l \<le> 15" "length ls \<le> HUFF_MAX_SYMS" and
    kraft: "\<And>l. l \<le> 15 \<Longrightarrow> first_code ls l + cnt ls l \<le> 2 ^ l" using ok by (auto simp: lengths_ok_def)
  obtain c where c: "count_lengths ls (replicate 16 0) = Some c" "length c = 16"
    "\<forall>l < 16. c ! l = length (filter (\<lambda>x. x = l) ls)"
    using count_lengths_eq [OF le(1), of "replicate 16 0"] by auto
  let ?count = "c[0 := 0]"
  let ?bases = "0 # syms_from ?count 0 [1..<16]"
  have count: "?count ! l = cnt ls l" if "l \<le> 15" for l
    using c(2,3) that by (auto simp: cnt_def nth_list_update)
  have count1: "c ! l = cnt ls l" if "1 \<le> l" "l \<le> 15" for l
    using c(3) that by (simp add: cnt_def)
  have codes: "(0 # codes_from ?count 0 [1..<16]) ! l = first_code ls l" if "1 \<le> l" "l \<le> 15" for l
    using codes_from_nth [OF count kraft, of 1 "l - 1" 16] that by (cases l) (simp_all add: cnt_def)
  have bases: "?bases ! l = first_pos ls l" if "1 \<le> l" "l \<le> 15" for l
    using syms_from_nth [OF count le(2), of 1 "l - 1" 16] that by (cases l) (simp_all add: cnt_def)
  have blen: "length ?bases = 16" by simp
  have cong: "fold (place_symbol lengths) [0..<n] x = fold (place_symbol ls) [0..<n] x" for x
    by (rule fold_cong) (auto simp: place_symbol_def ls)
  obtain syms offs where so: "fold (place_symbol ls) [0..<n] (replicate HUFF_MAX_SYMS 0, ?bases) = (syms, offs)"
    by (cases "fold (place_symbol ls) [0..<n] (replicate HUFF_MAX_SYMS 0, ?bases)")
  have syms: "\<forall>s < n. ls ! s \<noteq> 0 \<longrightarrow> syms ! sym_pos ls s = s"
    using place_fold [OF le blen bases, of n] len so by simp
  have "huff_build lengths n = Some \<lparr>hf_count = ?count, base_code = 0 # codes_from ?count 0 [1..<16],
      base_sym = ?bases, symbols = syms, hf_nsyms = n\<rparr>"
    using c(1) so cong by (simp add: huff_build_def ls(1) [symmetric] Let_def)
  then show ?thesis
    using count1 codes bases syms len by (auto simp: tables_for_def)
qed

section \<open>Decoding\<close>

lemma div_pow_step: "(c :: nat) div 2 ^ Suc m * 2 + (if bit c m then 1 else 0) = c div 2 ^ m"
proof -
  have "c div 2 ^ Suc m = c div 2 ^ m div 2" by (simp only: power_Suc2 div_mult2_eq)
  moreover have "bit c m \<longleftrightarrow> odd (c div 2 ^ m)" by (simp add: bit_iff_odd)
  ultimately show ?thesis by (cases "even (c div 2 ^ m)") (auto elim!: oddE)
qed

lemma bs_read_1:
  assumes "bs_ok bs"
  shows "\<exists>bs1. bs_read bs 1 = (if stream bs 0 then 1 else 0, bs1) \<and> bs_ok bs1 \<and>
    stream bs1 = (\<lambda>i. stream bs (Suc i))"
  using bs_read_stream [OF assms, of 1] by (cases "bs_read bs 1") (simp add: bits_value_def)

lemma decode_from_correct:
  assumes t: "tables_for ls h" and ok: "lengths_ok ls" and s: "s < length ls" "ls ! s = l" "l \<noteq> 0"
    and c: "c = huff_code ls s"
  shows "j < l \<Longrightarrow> bs_ok bs \<Longrightarrow> (\<And>i. i < l - j \<Longrightarrow> stream bs i = bit c (l - j - 1 - i)) \<Longrightarrow>
    \<exists>bs'. decode_from h (c div 2 ^ (l - j)) [Suc j..<16] bs = (Some s, bs') \<and> bs_ok bs' \<and>
      stream bs' = (\<lambda>i. stream bs (l - j + i))"
proof (induction "l - j" arbitrary: j bs)
  case (Suc m)
  have l: "l \<le> 15" using ok s nth_mem by (fastforce simp: lengths_ok_def)
  have m: "l - j = Suc m" "l - j - 1 = m" "l - Suc j = m" using Suc.hyps(2) by auto
  obtain bs1 where r: "bs_read bs 1 = (if stream bs 0 then 1 else 0, bs1)" "bs_ok bs1"
    "stream bs1 = (\<lambda>i. stream bs (Suc i))"
    using bs_read_1 [OF Suc.prems(2)] by blast
  have rk: "rank ls s < cnt ls l" using rank_less_cnt [of s ls] s by simp
  have c_less: "c < 2 ^ l"
    using c rk ok l s by (auto simp: huff_code_def lengths_ok_def intro: less_le_trans)
  have "c div 2 ^ (l - j) * 2 < 2 ^ 32"
  proof -
    have "c div 2 ^ (l - j) \<le> c" by (rule div_le_dividend)
    moreover have "(2 :: nat) ^ l \<le> 2 ^ 15" using l by (intro power_increasing) auto
    ultimately have "c div 2 ^ (l - j) < 2 ^ 15" using c_less by linarith
    then show ?thesis by simp
  qed
  then have code: "u32_mul (c div 2 ^ (l - j)) 2 + fst (bs_read bs 1) = c div 2 ^ m"
    using r(1) Suc.prems(3) [of 0] m div_pow_step [of c m] by (simp add: no_wrap)
  have len: "[Suc j..<16] = Suc j # [Suc (Suc j)..<16]" using Suc.prems(1) l by (simp add: upt_conv_Cons)
  have tab: "hf_count h ! Suc j = cnt ls (Suc j)" "base_code h ! Suc j = first_code ls (Suc j)"
    "base_sym h ! Suc j = first_pos ls (Suc j)" "hf_nsyms h = length ls"
    using t Suc.prems(1) l by (auto simp: tables_for_def)
  have small: "first_code ls (Suc j) + cnt ls (Suc j) < 2 ^ 32"
  proof -
    have "first_code ls (Suc j) + cnt ls (Suc j) \<le> 2 ^ Suc j"
      using ok Suc.prems(1) l unfolding lengths_ok_def by (metis Suc_leI le_trans)
    moreover have "(2 :: nat) ^ Suc j \<le> 2 ^ 15" using Suc.prems(1) l by (intro power_increasing) auto
    ultimately show ?thesis by simp
  qed
  show ?case
  proof (cases "Suc j = l")
    case True
    then have m0: "m = 0" using Suc.hyps(2) by simp
    have pos: "sym_pos ls s < length ls" using sym_pos_less s by simp
    have "u32_add (first_pos ls l) (c - first_code ls l) = sym_pos ls s"
      using pos ok c s by (simp add: sym_pos_def huff_code_def lengths_ok_def no_wrap)
    then have "decode_from h (c div 2 ^ (l - j)) [Suc j..<16] bs = (Some s, bs1)"
      using code r(1) m0 True tab small c rk s pos t unfolding len
      by (simp add: no_wrap huff_code_def tables_for_def Let_def split: if_splits)
    then show ?thesis using r(2,3) m m0 by simp
  next
    case False
    then have lt: "Suc j < l" using Suc.prems(1) by simp
    have "2 ^ m * (first_code ls (Suc j) + cnt ls (Suc j)) \<le> c"
      using first_code_mono [OF lt, of ls] c s m by (simp add: huff_code_def)
    then have "first_code ls (Suc j) + cnt ls (Suc j) \<le> c div 2 ^ m"
      by (simp add: less_eq_div_iff_mult_less_eq mult.commute)
    then have "decode_from h (c div 2 ^ (l - j)) [Suc j..<16] bs =
        decode_from h (c div 2 ^ (l - Suc j)) [Suc (Suc j)..<16] bs1"
      using code r(1) tab small m unfolding len by (simp add: no_wrap Let_def split: prod.splits)
    moreover have "\<exists>bs'. decode_from h (c div 2 ^ (l - Suc j)) [Suc (Suc j)..<16] bs1 = (Some s, bs') \<and> bs_ok bs' \<and>
        stream bs' = (\<lambda>i. stream bs1 (l - Suc j + i))"
      by (rule Suc.hyps(1)) (use m lt r Suc.prems(3) in auto)
    ultimately show ?thesis using r(3) m by auto
  qed
qed simp

lemma huff_decode_code:
  assumes t: "tables_for ls h" and ok: "lengths_ok ls" and s: "s < length ls" "ls ! s \<noteq> 0" and bs: "bs_ok bs"
    and code: "\<forall>i < ls ! s. stream bs i = bit (huff_code ls s) (ls ! s - 1 - i)"
  shows "\<exists>bs'. huff_decode h bs = (Some s, bs') \<and> bs_ok bs' \<and> stream bs' = (\<lambda>i. stream bs (ls ! s + i))"
proof -
  have l: "ls ! s \<le> 15" using ok s nth_mem by (fastforce simp: lengths_ok_def)
  have rk: "rank ls s < cnt ls (ls ! s)" using rank_less_cnt s by simp
  have "huff_code ls s < 2 ^ (ls ! s)"
    using rk ok l by (auto simp: huff_code_def lengths_ok_def intro: less_le_trans)
  then show ?thesis
    using decode_from_correct [OF t ok s(1) refl s(2) refl, of 0 bs] s(2) bs code
    by (simp add: huff_decode_def)
qed

end
