(* ===== verification/Inflate.thy ===== *)
theory Inflate
  imports Huffman
begin

text \<open>
  \<open>src/inflate.c\<close>: output buffer, block decoders, CRC-32 and the gzip container.  The
  output buffer is the list of the bytes written so far (\<open>pos\<close> is its length) with its
  capacity; \<open>Inl ob\<close> is the error return \<open>-1\<close> with the buffer as it is then, so that what a
  failing run has written is part of the result.  One pass through each of the two loops is
  a definition of its own (\<open>block_step\<close>, \<open>gzip_step\<close>); the loops end because every pass
  of the first writes to the bounded output and every pass of the second consumes a
  set bit of the input.
\<close>

section \<open>Output buffer\<close>

record outbuf =
  ob_bytes :: "u8 list"
  ob_cap :: nat

definition out_byte :: "outbuf \<Rightarrow> u8 \<Rightarrow> outbuf + outbuf" where
  "out_byte ob b =
     (if length (ob_bytes ob) \<ge> ob_cap ob then Inl ob else Inr (ob\<lparr>ob_bytes := ob_bytes ob @ [b]\<rparr>))"

text \<open>A distance of 0 would read a byte that was not written yet; the tables have none.\<close>

fun copy_loop :: "outbuf \<Rightarrow> nat \<Rightarrow> nat \<Rightarrow> outbuf + outbuf" where
  "copy_loop ob dist 0 = Inr ob"
| "copy_loop ob dist (Suc len) =
     (if dist = 0 then Inl ob
      else case out_byte ob (ob_bytes ob ! (length (ob_bytes ob) - dist)) of
             Inl ob1 \<Rightarrow> Inl ob1
           | Inr ob1 \<Rightarrow> copy_loop ob1 dist len)"

definition out_copy :: "outbuf \<Rightarrow> nat \<Rightarrow> nat \<Rightarrow> outbuf + outbuf" where
  "out_copy ob dist len = (if dist > length (ob_bytes ob) then Inl ob else copy_loop ob dist len)"

lemma out_byte_SomeD:
  "out_byte ob b = Inr ob1 \<Longrightarrow> ob_cap ob1 = ob_cap ob \<and> ob_bytes ob1 = ob_bytes ob @ [b] \<and>
     length (ob_bytes ob1) \<le> ob_cap ob"
  by (auto simp: out_byte_def split: if_splits)

lemma copy_loop_SomeD:
  "copy_loop ob dist len = Inr ob1 \<Longrightarrow> ob_cap ob1 = ob_cap ob \<and> length (ob_bytes ob1) = length (ob_bytes ob) + len \<and>
     (0 < len \<longrightarrow> length (ob_bytes ob1) \<le> ob_cap ob)"
  by (induction ob dist len rule: copy_loop.induct) (auto split: if_splits sum.splits dest!: out_byte_SomeD)

lemma out_copy_SomeD:
  "out_copy ob dist len = Inr ob1 \<Longrightarrow> ob_cap ob1 = ob_cap ob \<and> length (ob_bytes ob1) = length (ob_bytes ob) + len \<and>
     (0 < len \<longrightarrow> length (ob_bytes ob1) \<le> ob_cap ob)"
  by (auto simp: out_copy_def split: if_splits dest: copy_loop_SomeD)

section \<open>Tables\<close>

definition len_extra :: "nat list" where
  "len_extra = [0,0,0,0, 0,0,0,0, 1,1,1,1, 2,2,2,2, 3,3,3,3, 4,4,4,4, 5,5,5,5, 0]"

definition len_base :: "nat list" where
  "len_base = [3,4,5,6, 7,8,9,10, 11,13,15,17, 19,23,27,31,
    35,43,51,59, 67,83,99,115, 131,163,195,227, 258]"

definition dist_extra :: "nat list" where
  "dist_extra = [0,0,0,0, 1,1,2,2, 3,3,4,4, 5,5,6,6, 7,7,8,8,
    9,9,10,10, 11,11,12,12, 13,13]"

definition dist_base :: "nat list" where
  "dist_base = [1,2,3,4, 5,7,9,13, 17,25,33,49, 65,97,129,193,
    257,385,513,769, 1025,1537,2049,3073,
    4097,6145,8193,12289, 16385,24577]"

definition codelen_order :: "nat list" where
  "codelen_order = [16,17,18, 0, 8,7, 9,6, 10,5, 11,4, 12,3, 13,2, 14,1, 15]"

definition fixed_lengths :: "nat list" where
  "fixed_lengths = replicate 144 8 @ replicate 112 9 @ replicate 24 7 @ replicate 8 8"

definition fixed_dist_lengths :: "nat list" where
  "fixed_dist_lengths = replicate 30 5"

definition fixed_litlen :: huffman where "fixed_litlen = the (huff_build fixed_lengths 288)"
definition fixed_dist :: huffman where "fixed_dist = the (huff_build fixed_dist_lengths 30)"

section \<open>Compressed blocks\<close>

datatype step_result = Fail outbuf | Finished bitstream outbuf | Again bitstream outbuf

definition copy_match :: "huffman \<Rightarrow> nat \<Rightarrow> bitstream \<Rightarrow> outbuf \<Rightarrow> step_result" where
  "copy_match dist_h sy bs ob =
     (let lcode = sy - 257
      in if lcode \<ge> 29 then Fail ob
         else let (le, bs1) = bs_read bs (len_extra ! lcode)
              in case huff_decode dist_h bs1 of
                   (None, _) \<Rightarrow> Fail ob
                 | (Some dcode, bs2) \<Rightarrow>
                     if dcode \<ge> 30 then Fail ob
                     else let (de, bs3) = bs_read bs2 (dist_extra ! dcode)
                          in case out_copy ob (dist_base ! dcode + de) (len_base ! lcode + le) of
                               Inl ob1 \<Rightarrow> Fail ob1
                             | Inr ob1 \<Rightarrow> Again bs3 ob1)"

definition block_step :: "huffman \<Rightarrow> huffman \<Rightarrow> bitstream \<Rightarrow> outbuf \<Rightarrow> step_result" where
  "block_step litlen dist_h bs ob =
     (case huff_decode litlen bs of
        (None, _) \<Rightarrow> Fail ob
      | (Some sy, bs1) \<Rightarrow>
          if sy < 256
          then (case out_byte ob (of_nat sy) of Inl ob1 \<Rightarrow> Fail ob1 | Inr ob1 \<Rightarrow> Again bs1 ob1)
          else if sy = 256 then Finished bs1 ob
          else copy_match dist_h sy bs1 ob)"

lemma len_base_ge: "i < 29 \<Longrightarrow> 3 \<le> len_base ! i"
proof -
  have "\<forall>i \<in> set [0..<29]. 3 \<le> len_base ! i" by code_simp
  then show "i < 29 \<Longrightarrow> 3 \<le> len_base ! i" by simp
qed

lemma copy_match_Again:
  assumes "copy_match dh sy bs ob = Again bs' ob'"
  shows "ob_cap ob' = ob_cap ob \<and> length (ob_bytes ob) < length (ob_bytes ob') \<and> length (ob_bytes ob') \<le> ob_cap ob"
proof -
  obtain d l where "sy - 257 < 29" "out_copy ob d (len_base ! (sy - 257) + l) = Inr ob'"
    using assms by (auto simp: copy_match_def Let_def split: if_splits prod.splits option.splits sum.splits)
  then show ?thesis using out_copy_SomeD len_base_ge [of "sy - 257"] by fastforce
qed

lemma block_step_Again:
  assumes "block_step lit dh bs ob = Again bs' ob'"
  shows "ob_cap ob' = ob_cap ob \<and> length (ob_bytes ob) < length (ob_bytes ob') \<and> length (ob_bytes ob') \<le> ob_cap ob"
  using assms copy_match_Again [of dh _ _ ob bs' ob']
  by (auto simp: block_step_def split: if_splits prod.splits option.splits sum.splits dest: out_byte_SomeD)

function inflate_block :: "huffman \<Rightarrow> huffman \<Rightarrow> bitstream \<Rightarrow> outbuf \<Rightarrow> outbuf + bitstream \<times> outbuf" where
  "inflate_block litlen dist_h bs ob =
     (case block_step litlen dist_h bs ob of
        Fail ob1 \<Rightarrow> Inl ob1
      | Finished bs1 ob1 \<Rightarrow> Inr (bs1, ob1)
      | Again bs1 ob1 \<Rightarrow> inflate_block litlen dist_h bs1 ob1)"
  by pat_completeness auto

termination
proof (relation "measure (\<lambda>(_, _, _, ob). ob_cap ob - length (ob_bytes ob))")
  fix litlen dist_h bs ob bs1 ob1
  assume "block_step litlen dist_h bs ob = Again bs1 ob1"
  from block_step_Again [OF this]
  show "((litlen, dist_h, bs1, ob1), litlen, dist_h, bs, ob) \<in> measure (\<lambda>(_, _, _, ob). ob_cap ob - length (ob_bytes ob))"
    by auto
qed simp

declare inflate_block.simps [simp del]

section \<open>Dynamic Huffman blocks\<close>

fun read_cl :: "nat list \<Rightarrow> nat list \<Rightarrow> bitstream \<Rightarrow> nat list \<times> bitstream" where
  "read_cl [] cl bs = (cl, bs)"
| "read_cl (i # is') cl bs = (let (v, bs1) = bs_read bs 3 in read_cl is' (cl[i := v]) bs1)"

text \<open>What one code of the code-length alphabet appends: a value and how often, before the
  cut at \<open>total\<close>.\<close>

definition length_run :: "huffman \<Rightarrow> nat list \<Rightarrow> bitstream \<Rightarrow> ((nat \<times> nat) \<times> bitstream) option" where
  "length_run cl_tree acc bs =
     (case huff_decode cl_tree bs of
        (None, _) \<Rightarrow> None
      | (Some sy, bs1) \<Rightarrow>
          if sy < 16 then Some ((sy, 1), bs1)
          else if sy = 16
          then (if acc = [] then None
                else let (rep, bs2) = bs_read bs1 2 in Some ((last acc, rep + 3), bs2))
          else if sy = 17 then (let (rep, bs2) = bs_read bs1 3 in Some ((0, rep + 3), bs2))
          else if sy = 18 then (let (rep, bs2) = bs_read bs1 7 in Some ((0, rep + 11), bs2))
          else None)"

lemma length_run_pos: "length_run t acc bs = Some ((v, rep), bs1) \<Longrightarrow> 0 < rep"
  by (auto simp: length_run_def Let_def split: if_splits prod.splits option.splits)

function read_lengths :: "huffman \<Rightarrow> nat \<Rightarrow> nat list \<Rightarrow> bitstream \<Rightarrow> (nat list \<times> bitstream) option" where
  "read_lengths cl_tree tot acc bs =
     (if length acc < tot
      then (case length_run cl_tree acc bs of
              None \<Rightarrow> None
            | Some ((v, rep), bs1) \<Rightarrow>
                read_lengths cl_tree tot (acc @ replicate (min rep (tot - length acc)) v) bs1)
      else Some (acc, bs))"
  by pat_completeness auto

termination
  by (relation "measure (\<lambda>(_, tot, acc, _). tot - length acc)") (auto dest: length_run_pos)

declare read_lengths.simps [simp del]

definition inflate_dynamic :: "bitstream \<Rightarrow> outbuf \<Rightarrow> outbuf + bitstream \<times> outbuf" where
  "inflate_dynamic bs ob =
     (let (a, bs1) = bs_read bs 5; (b, bs2) = bs_read bs1 5; (c, bs3) = bs_read bs2 4;
          hlit = a + 257; hdist = b + 1; hclen = c + 4
      in if hlit > 286 \<or> hdist > 30 \<or> hclen > 19 then Inl ob
         else let (cl_lengths, bs4) = read_cl (take hclen codelen_order) (replicate 19 0) bs3
              in case huff_build cl_lengths 19 of
                   None \<Rightarrow> Inl ob
                 | Some cl_tree \<Rightarrow>
                     (case read_lengths cl_tree (hlit + hdist) [] bs4 of
                        None \<Rightarrow> Inl ob
                      | Some (all_lengths, bs5) \<Rightarrow>
                          (case huff_build all_lengths hlit of
                             None \<Rightarrow> Inl ob
                           | Some litlen_tree \<Rightarrow>
                               (case huff_build (drop hlit all_lengths) hdist of
                                  None \<Rightarrow> Inl ob
                                | Some dist_tree \<Rightarrow> inflate_block litlen_tree dist_tree bs5 ob))))"

section \<open>CRC-32\<close>

definition crc_bit :: "u32 \<Rightarrow> u32" where
  "crc_bit crc = drop_bit 1 crc XOR (if crc AND 1 \<noteq> 0 then 0xEDB88320 else 0)"

definition crc_byte :: "u8 \<Rightarrow> u32 \<Rightarrow> u32" where
  "crc_byte b crc = (crc_bit ^^ 8) (crc XOR ucast b)"

definition crc32 :: "u8 list \<Rightarrow> u32" where
  "crc32 data = fold crc_byte data 0xFFFFFFFF XOR 0xFFFFFFFF"

section \<open>The gzip container\<close>

definition byte_at :: "u8 list \<Rightarrow> nat \<Rightarrow> nat" where
  "byte_at inp i = unat (inp ! i)"

definition le32 :: "u8 list \<Rightarrow> nat \<Rightarrow> nat" where
  "le32 inp off =
     byte_at inp off + 256 * byte_at inp (off + 1) + 65536 * byte_at inp (off + 2) +
     16777216 * byte_at inp (off + 3)"

text \<open>The position after a zero-terminated string.\<close>

definition skip_string :: "u8 list \<Rightarrow> nat \<Rightarrow> nat" where
  "skip_string inp pos = u32_add (pos + length (takeWhile (\<lambda>b. b \<noteq> 0) (drop pos inp))) 1"

definition gzip_header :: "u8 list \<Rightarrow> nat option" where
  "gzip_header inp =
     (if length inp < 18 then None
      else if inp ! 0 \<noteq> 0x1F \<or> inp ! 1 \<noteq> 0x8B then None
      else if inp ! 2 \<noteq> 8 then None
      else let flags = inp ! 3; pos = 10
           in case (if bit flags 2
                    then (if pos + 2 > length inp then None
                          else Some (u32_add pos (2 + (byte_at inp pos + 256 * byte_at inp (pos + 1)))))
                    else Some pos) of
                None \<Rightarrow> None
              | Some pos1 \<Rightarrow>
                  let pos2 = (if bit flags 3 then skip_string inp pos1 else pos1);
                      pos3 = (if bit flags 4 then skip_string inp pos2 else pos2);
                      pos4 = (if bit flags 1 then u32_add pos3 2 else pos3)
                  in if pos4 \<ge> length inp then None else Some pos4)"

fun copy_stored :: "nat \<Rightarrow> bitstream \<Rightarrow> outbuf \<Rightarrow> outbuf + bitstream \<times> outbuf" where
  "copy_stored 0 bs ob = Inr (bs, ob)"
| "copy_stored (Suc n) bs ob =
     (let (v, bs1) = bs_read bs 8
      in case out_byte ob (of_nat v) of Inl ob1 \<Rightarrow> Inl ob1 | Inr ob1 \<Rightarrow> copy_stored n bs1 ob1)"

definition stored_block :: "bitstream \<Rightarrow> outbuf \<Rightarrow> outbuf + bitstream \<times> outbuf" where
  "stored_block bs ob =
     (let (blen, bs1) = bs_read_u16_le (bs_align bs); (bnlen, bs2) = bs_read_u16_le bs1
      in if blen XOR bnlen \<noteq> 0xFFFF then Inl ob else copy_stored blen bs2 ob)"

definition gzip_step :: "bitstream \<Rightarrow> outbuf \<Rightarrow> step_result" where
  "gzip_step bs ob =
     (let (final_block, bs1) = bs_read bs 1; (btype, bs2) = bs_read bs1 2
      in case (if btype = 0 then stored_block bs2 ob
               else if btype = 1 then inflate_block fixed_litlen fixed_dist bs2 ob
               else if btype = 2 then inflate_dynamic bs2 ob
               else Inl ob) of
           Inl ob1 \<Rightarrow> Fail ob1
         | Inr (bs3, ob1) \<Rightarrow> if final_block \<noteq> 0 then Finished bs3 ob1 else Again bs3 ob1)"

section \<open>Set bits consumed by a block\<close>

lemma ones_decode_from: "ones (snd (decode_from h code lens bs)) \<le> ones bs"
proof (induction h code lens bs rule: decode_from.induct)
  case (2 h code len lens bs)
  obtain b bs1 where r: "bs_read bs 1 = (b, bs1)" by (cases "bs_read bs 1")
  then have "ones bs1 \<le> ones bs" using ones_read [of bs 1] by simp
  then show ?case
    using "2.IH"(1) [OF r [symmetric] refl] "2.IH"(2) [OF r [symmetric] refl] r
    by (auto simp: Let_def intro: le_trans)
qed simp

lemma ones_decode: "huff_decode h bs = (s, bs1) \<Longrightarrow> ones bs1 \<le> ones bs"
  unfolding huff_decode_def by (metis ones_decode_from snd_conv)

lemma ones_read': "bs_read bs n = (v, bs1) \<Longrightarrow> ones bs1 \<le> ones bs"
  by (metis ones_read snd_conv)

lemma ones_copy_match: "copy_match dh sy bs ob = Again bs' ob' \<Longrightarrow> ones bs' \<le> ones bs"
  by (auto simp: copy_match_def Let_def split: if_splits prod.splits option.splits sum.splits
      dest!: ones_read' ones_decode intro: le_trans)

lemma ones_block_step:
  "block_step lit dh bs ob = Again bs' ob' \<or> block_step lit dh bs ob = Finished bs' ob' \<Longrightarrow> ones bs' \<le> ones bs"
  by (auto simp: block_step_def split: if_splits prod.splits option.splits sum.splits
      dest!: ones_decode ones_copy_match intro: le_trans)
    (auto simp: copy_match_def Let_def split: if_splits prod.splits option.splits sum.splits)

lemma ones_inflate_block: "inflate_block lit dh bs ob = Inr (bs', ob') \<Longrightarrow> ones bs' \<le> ones bs"
proof (induction lit dh bs ob rule: inflate_block.induct)
  case (1 lit dh bs ob)
  show ?case
  proof (cases "block_step lit dh bs ob")
    case (Again bs1 ob1)
    then have "ones bs' \<le> ones bs1" using 1 by (simp add: inflate_block.simps [of lit dh bs ob])
    then show ?thesis using ones_block_step [of lit dh bs ob bs1 ob1] Again by simp
  qed (use 1 ones_block_step [of lit dh bs ob bs' ob'] in \<open>simp_all add: inflate_block.simps [of lit dh bs ob]\<close>)
qed

lemma ones_read_cl: "read_cl is' cl bs = (cl', bs') \<Longrightarrow> ones bs' \<le> ones bs"
proof (induction is' cl bs rule: read_cl.induct)
  case (2 i is' cl bs)
  obtain v bs1 where r: "bs_read bs 3 = (v, bs1)" by (cases "bs_read bs 3")
  then show ?case using 2 ones_read' [OF r] by (auto intro: le_trans)
qed simp

lemma ones_length_run: "length_run t acc bs = Some (v, bs1) \<Longrightarrow> ones bs1 \<le> ones bs"
  by (auto simp: length_run_def Let_def split: if_splits prod.splits option.splits sum.splits
      dest!: ones_decode ones_read' intro: le_trans)

lemma ones_read_lengths: "read_lengths t tot acc bs = Some (ls, bs') \<Longrightarrow> ones bs' \<le> ones bs"
proof (induction t tot acc bs rule: read_lengths.induct)
  case (1 t tot acc bs)
  show ?case
  proof (cases "length acc < tot")
    case True
    then obtain v rep bs1 where r: "length_run t acc bs = Some ((v, rep), bs1)"
      using "1.prems" by (auto simp: read_lengths.simps [of t tot acc bs] split: option.splits)
    then have "ones bs' \<le> ones bs1"
      using 1 True by (auto simp: read_lengths.simps [of t tot acc bs])
    then show ?thesis using ones_length_run [OF r] by simp
  qed (use 1 in \<open>simp add: read_lengths.simps [of t tot acc bs]\<close>)
qed

lemma ones_dynamic: "inflate_dynamic bs ob = Inr (bs', ob') \<Longrightarrow> ones bs' \<le> ones bs"
  by (auto simp: inflate_dynamic_def Let_def split: if_splits prod.splits option.splits sum.splits
      dest!: ones_read' ones_read_cl ones_read_lengths ones_inflate_block)

lemma ones_copy_stored: "copy_stored n bs ob = Inr (bs', ob') \<Longrightarrow> ones bs' \<le> ones bs"
proof (induction n bs ob rule: copy_stored.induct)
  case (2 n bs ob)
  obtain v bs1 where r: "bs_read bs 8 = (v, bs1)" by (cases "bs_read bs 8")
  obtain ob1 where o: "out_byte ob (of_nat v) = Inr ob1" "copy_stored n bs1 ob1 = Inr (bs', ob')"
    using "2.prems" r by (auto split: option.splits sum.splits)
  from "2.IH" [OF r [symmetric] refl o(1) o(2)] show ?case using ones_read' [OF r] by simp
qed simp

text \<open>The length check of a stored block fails on zeros.\<close>

lemma ones_stored:
  assumes "stored_block bs ob = Inr (bs', ob')"
  shows "ones bs' < ones bs"
proof -
  obtain a bs1 where r1: "bs_read_u16_le (bs_align bs) = (a, bs1)" by (cases "bs_read_u16_le (bs_align bs)")
  obtain b bs2 where r2: "bs_read_u16_le bs1 = (b, bs2)" by (cases "bs_read_u16_le bs1")
  have x: "a XOR b = 0xFFFF" and c: "copy_stored a bs2 ob = Inr (bs', ob')"
    using assms r1 r2 by (auto simp: stored_block_def split: if_splits)
  have nz: "a \<noteq> 0 \<or> b \<noteq> 0" using x by auto
  have l: "ones bs1 \<le> ones (bs_align bs)" "ones bs2 \<le> ones bs1" "ones bs' \<le> ones bs2" "ones (bs_align bs) \<le> ones bs"
    using ones_u16(1) [of "bs_align bs"] ones_u16(1) [of bs1] r1 r2 ones_copy_stored [OF c] ones_align by auto
  show ?thesis
  proof (cases "a = 0")
    case True
    then have "ones bs2 < ones bs1" using nz ones_u16(2) [of bs1] r2 by simp
    then show ?thesis using l by linarith
  next
    case False
    then have "ones bs1 < ones (bs_align bs)" using ones_u16(2) [of "bs_align bs"] r1 by simp
    then show ?thesis using l by linarith
  qed
qed

lemma gzip_step_Again:
  assumes "gzip_step bs ob = Again bs' ob'"
  shows "ones bs' < ones bs"
proof -
  obtain f bs1 where r1: "bs_read bs 1 = (f, bs1)" by (cases "bs_read bs 1")
  obtain t bs2 where r2: "bs_read bs1 2 = (t, bs2)" by (cases "bs_read bs1 2")
  have l: "ones bs1 \<le> ones bs" "ones bs2 \<le> ones bs1" using ones_read' r1 r2 by blast+
  consider "t = 0" "stored_block bs2 ob = Inr (bs', ob')"
    | "t \<noteq> 0" "inflate_block fixed_litlen fixed_dist bs2 ob = Inr (bs', ob') \<or> inflate_dynamic bs2 ob = Inr (bs', ob')"
    using assms r1 r2 by (auto simp: gzip_step_def Let_def split: if_splits option.splits sum.splits)
  then show ?thesis
  proof cases
    case 1
    then show ?thesis using ones_stored l by fastforce
  next
    case 2
    then have "ones bs' \<le> ones bs2" using ones_inflate_block ones_dynamic by blast
    moreover have "ones bs2 < ones bs1" using ones_read_less [of bs1 2] r2 2(1) by simp
    ultimately show ?thesis using l by linarith
  qed
qed

section \<open>Decompression\<close>

function gzip_blocks :: "bitstream \<Rightarrow> outbuf \<Rightarrow> outbuf + bitstream \<times> outbuf" where
  "gzip_blocks bs ob =
     (case gzip_step bs ob of
        Fail ob1 \<Rightarrow> Inl ob1
      | Finished bs1 ob1 \<Rightarrow> Inr (bs1, ob1)
      | Again bs1 ob1 \<Rightarrow> gzip_blocks bs1 ob1)"
  by pat_completeness auto

termination
  by (relation "measure (\<lambda>(bs, _). ones bs)") (auto dest: gzip_step_Again)

declare gzip_blocks.simps [simp del]

definition inflate_gzip :: "u8 list \<Rightarrow> nat \<Rightarrow> int \<times> u8 list" where
  "inflate_gzip inp out_cap =
     (case gzip_header inp of
        None \<Rightarrow> (-1, [])
      | Some pos \<Rightarrow>
          (case gzip_blocks (bs_init (drop pos inp)) \<lparr>ob_bytes = [], ob_cap = out_cap\<rparr> of
             Inl ob \<Rightarrow> (-1, ob_bytes ob)
           | Inr (bs, ob) \<Rightarrow>
               let bs1 = bs_align bs;
                   trailer_pos = u32_add pos (u32_sub (src_pos bs1) (nbits bs1 div 8))
               in if u32_add trailer_pos 8 > length inp then (-1, ob_bytes ob)
                  else if le32 inp (trailer_pos + 4) \<noteq> length (ob_bytes ob) then (-1, ob_bytes ob)
                  else if unat (crc32 (ob_bytes ob)) \<noteq> le32 inp trailer_pos then (-1, ob_bytes ob)
                  else (to_int (length (ob_bytes ob)), ob_bytes ob)))"

definition inflate_gzip_size :: "u8 list \<Rightarrow> nat" where
  "inflate_gzip_size inp = (if length inp < 4 then 0 else le32 inp (length inp - 4))"

end
