(* ===== verification/Inflate_Correct.thy ===== *)
theory Inflate_Correct
  imports Inflate
begin

text \<open>
  Correctness of \<open>src/inflate.c\<close>: a block decodes to the expansion of the tokens that
  were encoded into it, a match copies what the LZ77 window defines, the gzip loop ends
  and accepts only data that agrees with the trailer, and stored data is returned as it
  is.
\<close>

section \<open>Bits that lie ahead\<close>

definition starts_with :: "bitstream \<Rightarrow> bool list \<Rightarrow> bool" where
  "starts_with bs xs \<longleftrightarrow> (\<forall>i < length xs. stream bs i = xs ! i)"

definition advanced :: "bitstream \<Rightarrow> nat \<Rightarrow> bitstream \<Rightarrow> bool" where
  "advanced bs n bs' \<longleftrightarrow> bs_ok bs' \<and> stream bs' = (\<lambda>i. stream bs (n + i))"

definition code_bits :: "nat list \<Rightarrow> nat \<Rightarrow> bool list" where
  "code_bits ls s = map (\<lambda>i. bit (huff_code ls s) (ls ! s - 1 - i)) [0..<ls ! s]"

definition extra_bits :: "nat \<Rightarrow> nat \<Rightarrow> bool list" where
  "extra_bits v n = map (bit v) [0..<n]"

lemma bits_length [simp]: "length (code_bits ls s) = ls ! s" "length (extra_bits v n) = n"
  by (simp_all add: code_bits_def extra_bits_def)

lemma starts_with_append:
  assumes "starts_with bs (xs @ ys)"
  shows "starts_with bs xs" "advanced bs (length xs) bs' \<Longrightarrow> starts_with bs' ys"
proof -
  have "stream bs i = xs ! i" if "i < length xs" for i
    using assms that unfolding starts_with_def by (metis length_append nth_append trans_less_add1)
  then show "starts_with bs xs" by (simp add: starts_with_def)
  have "stream bs (length xs + i) = ys ! i" if "i < length ys" for i
    using assms that unfolding starts_with_def by (metis length_append nat_add_left_cancel_less nth_append_length_plus)
  then show "starts_with bs' ys" if "advanced bs (length xs) bs'" using that by (simp add: starts_with_def advanced_def)
qed

lemma advanced_trans: "advanced bs m bs1 \<Longrightarrow> advanced bs1 n bs2 \<Longrightarrow> advanced bs (m + n) bs2"
  by (simp add: advanced_def add.assoc)

lemma advancedD: "advanced bs n bs' \<Longrightarrow> bs_ok bs'"
  by (simp add: advanced_def)

lemma bits_value_bit: "v < 2 ^ n \<Longrightarrow> bits_value (bit v) n = v"
proof -
  assume v: "v < 2 ^ n"
  have "take_bit n v = (\<Sum>k = 0..<n. push_bit k (of_bool (bit v k)))" by (rule take_bit_sum)
  also have "\<dots> = bits_value (bit v) n"
    unfolding bits_value_def by (rule sum.cong) (auto simp: push_bit_eq_mult)
  finally show ?thesis using v by (simp add: take_bit_nat_eq_self)
qed

lemma read_extra:
  assumes "bs_ok bs" "n \<le> 24" "v < 2 ^ n" "starts_with bs (extra_bits v n)"
  obtains bs' where "bs_read bs n = (v, bs')" "advanced bs n bs'"
proof -
  have "bits_value (stream bs) n = bits_value (bit v) n"
    by (rule bits_value_cong) (use assms(4) in \<open>simp add: starts_with_def extra_bits_def\<close>)
  then show thesis
    using that bs_read_stream [OF assms(1,2)] bits_value_bit [OF assms(3)]
    by (cases "bs_read bs n") (simp add: advanced_def)
qed

lemma decode_code:
  assumes "tables_for ls h" "lengths_ok ls" "s < length ls" "ls ! s \<noteq> 0" "bs_ok bs" "starts_with bs (code_bits ls s)"
  obtains bs' where "huff_decode h bs = (Some s, bs')" "advanced bs (ls ! s) bs'"
proof -
  have "\<forall>i < ls ! s. stream bs i = bit (huff_code ls s) (ls ! s - 1 - i)"
    using assms(6) by (simp add: starts_with_def code_bits_def)
  from huff_decode_code [OF assms(1-5) this] show thesis using that by (auto simp: advanced_def)
qed

section \<open>Matches\<close>

text \<open>What a match of a distance and a length stands for: the last \<open>dist\<close> bytes, over
  and over.\<close>

definition lz_copy :: "u8 list \<Rightarrow> nat \<Rightarrow> nat \<Rightarrow> u8 list" where
  "lz_copy out dist len = out @ map (\<lambda>i. out ! (length out - dist + i mod dist)) [0..<len]"

lemma copy_loop_lz:
  assumes "0 < dist" "dist \<le> length out" "length out + k + len \<le> cap"
  shows "copy_loop \<lparr>ob_bytes = lz_copy out dist k, ob_cap = cap\<rparr> dist len =
    Inr \<lparr>ob_bytes = lz_copy out dist (k + len), ob_cap = cap\<rparr>"
  using assms(3)
proof (induction len arbitrary: k)
  case (Suc len)
  let ?w = "lz_copy out dist k"
  have len: "length ?w = length out + k" by (simp add: lz_copy_def)
  have "?w ! (length ?w - dist) = out ! (length out - dist + k mod dist)"
  proof (cases "k < dist")
    case True
    then have "length ?w - dist = length out - dist + k" "length out - dist + k < length out"
      using assms(2) len by auto
    then show ?thesis using True by (simp add: lz_copy_def nth_append)
  next
    case False
    then have "length ?w - dist = length out + (k - dist)" "k - dist < k" using len assms(1) by auto
    moreover have "(k - dist) mod dist = k mod dist" using False by (simp add: le_mod_geq)
    ultimately show ?thesis by (simp add: lz_copy_def nth_append)
  qed
  then have "?w @ [?w ! (length ?w - dist)] = lz_copy out dist (Suc k)" by (simp add: lz_copy_def)
  then show ?case using Suc assms(1) len by (simp add: out_byte_def)
qed simp

lemma out_copy_lz:
  assumes "0 < dist" "dist \<le> length (ob_bytes ob)" "length (ob_bytes ob) + len \<le> ob_cap ob"
  shows "out_copy ob dist len = Inr (ob\<lparr>ob_bytes := lz_copy (ob_bytes ob) dist len\<rparr>)"
proof -
  have "ob = \<lparr>ob_bytes = lz_copy (ob_bytes ob) dist 0, ob_cap = ob_cap ob\<rparr>" by (simp add: lz_copy_def)
  then have "copy_loop ob dist len = Inr \<lparr>ob_bytes = lz_copy (ob_bytes ob) dist (0 + len), ob_cap = ob_cap ob\<rparr>"
    using copy_loop_lz [OF assms(1,2), of 0 len "ob_cap ob"] assms(3) by simp
  then show ?thesis using assms(2) by (simp add: out_copy_def)
qed

section \<open>Blocks of tokens\<close>

text \<open>The elements of a compressed block: a literal byte, or a match given by the length
  and distance codes with their extra bits.\<close>

datatype token = Lit u8 | Match nat nat nat nat

fun token_bits :: "nat list \<Rightarrow> nat list \<Rightarrow> token \<Rightarrow> bool list" where
  "token_bits ll dl (Lit b) = code_bits ll (unat b)"
| "token_bits ll dl (Match lc le dc de) =
     code_bits ll (257 + lc) @ extra_bits le (len_extra ! lc) @ code_bits dl dc @ extra_bits de (dist_extra ! dc)"

fun expand :: "u8 list \<Rightarrow> token \<Rightarrow> u8 list" where
  "expand out (Lit b) = out @ [b]"
| "expand out (Match lc le dc de) = lz_copy out (dist_base ! dc + de) (len_base ! lc + le)"

text \<open>A symbol has a code, and the token can be expressed: extra bits in range, distance
  within what was written.\<close>

definition coded :: "nat list \<Rightarrow> nat \<Rightarrow> bool" where
  "coded ls s \<longleftrightarrow> s < length ls \<and> ls ! s \<noteq> 0"

fun token_ok :: "nat list \<Rightarrow> nat list \<Rightarrow> u8 list \<Rightarrow> token \<Rightarrow> bool" where
  "token_ok ll dl out (Lit b) \<longleftrightarrow> coded ll (unat b)"
| "token_ok ll dl out (Match lc le dc de) \<longleftrightarrow>
     lc < 29 \<and> le < 2 ^ (len_extra ! lc) \<and> coded ll (257 + lc) \<and>
     dc < 30 \<and> de < 2 ^ (dist_extra ! dc) \<and> coded dl dc \<and> dist_base ! dc + de \<le> length out"

fun tokens_ok :: "nat list \<Rightarrow> nat list \<Rightarrow> u8 list \<Rightarrow> token list \<Rightarrow> bool" where
  "tokens_ok ll dl out [] \<longleftrightarrow> coded ll 256"
| "tokens_ok ll dl out (t # ts) \<longleftrightarrow> token_ok ll dl out t \<and> tokens_ok ll dl (expand out t) ts"

definition block_bits :: "nat list \<Rightarrow> nat list \<Rightarrow> token list \<Rightarrow> bool list" where
  "block_bits ll dl ts = concat (map (token_bits ll dl) ts) @ code_bits ll 256"

lemma extra_small: "i < 29 \<Longrightarrow> len_extra ! i \<le> 24" "i < 30 \<Longrightarrow> dist_extra ! i \<le> 24 \<and> 0 < dist_base ! i"
proof -
  have "\<forall>x \<in> set len_extra. x \<le> 24" "length len_extra = 29" by (simp_all add: len_extra_def)
  then show "i < 29 \<Longrightarrow> len_extra ! i \<le> 24" by (metis nth_mem)
  have "\<forall>x \<in> set dist_extra. x \<le> 24" "length dist_extra = 30" "\<forall>x \<in> set dist_base. 0 < x" "length dist_base = 30"
    by (simp_all add: dist_extra_def dist_base_def)
  then show "i < 30 \<Longrightarrow> dist_extra ! i \<le> 24 \<and> 0 < dist_base ! i" by (metis nth_mem)
qed

lemma expand_length: "length (expand out (Lit b)) = Suc (length out)"
  "length (expand out (Match lc le dc de)) = length out + len_base ! lc + le"
  by (simp_all add: lz_copy_def)

lemma expand_fold_length: "length out \<le> length (fold (\<lambda>t out. expand out t) ts out)"
proof (induction ts arbitrary: out)
  case (Cons t ts)
  have "length out \<le> length (expand out t)" by (cases t) (simp_all add: lz_copy_def)
  then show ?case using Cons [of "expand out t"] by simp
qed simp

definition block_tables :: "nat list \<Rightarrow> nat list \<Rightarrow> huffman \<Rightarrow> huffman \<Rightarrow> bool" where
  "block_tables ll dl lit dh \<longleftrightarrow> tables_for ll lit \<and> tables_for dl dh \<and> lengths_ok ll \<and> lengths_ok dl"

lemma copy_match_decodes:
  assumes t: "block_tables ll dl lit dh" and ok: "token_ok ll dl (ob_bytes ob) (Match lc le dc de)"
    and bs: "bs_ok bs"
    and st: "starts_with bs (extra_bits le (len_extra ! lc) @ code_bits dl dc @ extra_bits de (dist_extra ! dc))"
    and fits: "length (expand (ob_bytes ob) (Match lc le dc de)) \<le> ob_cap ob"
  shows "\<exists>bs'. copy_match dh (257 + lc) bs ob = Again bs' (ob\<lparr>ob_bytes := expand (ob_bytes ob) (Match lc le dc de)\<rparr>) \<and>
    advanced bs (len_extra ! lc + (dl ! dc + dist_extra ! dc)) bs'"
proof -
  have small: "len_extra ! lc \<le> 24" "dist_extra ! dc \<le> 24" "0 < dist_base ! dc"
    using extra_small ok by auto
  obtain bs1 where r1: "bs_read bs (len_extra ! lc) = (le, bs1)" "advanced bs (len_extra ! lc) bs1"
    using read_extra [OF bs small(1) _ starts_with_append(1) [OF st]] ok by auto
  have st1: "starts_with bs1 (code_bits dl dc @ extra_bits de (dist_extra ! dc))"
    by (rule starts_with_append(2) [OF st]) (use r1(2) in simp)
  obtain bs2 where r2: "huff_decode dh bs1 = (Some dc, bs2)" "advanced bs1 (dl ! dc) bs2"
    using decode_code [OF _ _ _ _ advancedD [OF r1(2)] starts_with_append(1) [OF st1]] t ok
    by (auto simp: block_tables_def coded_def)
  have st2: "starts_with bs2 (extra_bits de (dist_extra ! dc))"
    by (rule starts_with_append(2) [OF st1]) (use r2(2) in simp)
  obtain bs3 where r3: "bs_read bs2 (dist_extra ! dc) = (de, bs3)" "advanced bs2 (dist_extra ! dc) bs3"
    using read_extra [OF advancedD [OF r2(2)] small(2) _ st2] ok by auto
  have oc: "out_copy ob (dist_base ! dc + de) (len_base ! lc + le) =
      Inr (ob\<lparr>ob_bytes := lz_copy (ob_bytes ob) (dist_base ! dc + de) (len_base ! lc + le)\<rparr>)"
    by (rule out_copy_lz) (use ok small fits in \<open>auto simp: lz_copy_def\<close>)
  have "advanced bs (len_extra ! lc + (dl ! dc + dist_extra ! dc)) bs3"
    using advanced_trans [OF r1(2) advanced_trans [OF r2(2) r3(2)]] .
  then show ?thesis using r1(1) r2(1) r3(1) oc ok by (simp add: copy_match_def Let_def)
qed

lemma block_step_decodes:
  assumes t: "block_tables ll dl lit dh" and ok: "token_ok ll dl (ob_bytes ob) tok"
    and bs: "bs_ok bs" and st: "starts_with bs (token_bits ll dl tok)"
    and fits: "length (expand (ob_bytes ob) tok) \<le> ob_cap ob"
  shows "\<exists>bs'. block_step lit dh bs ob = Again bs' (ob\<lparr>ob_bytes := expand (ob_bytes ob) tok\<rparr>) \<and>
    advanced bs (length (token_bits ll dl tok)) bs'"
proof (cases tok)
  case (Lit b)
  obtain bs1 where r: "huff_decode lit bs = (Some (unat b), bs1)" "advanced bs (ll ! unat b) bs1"
    using decode_code [of ll lit "unat b" bs] t ok st bs by (auto simp: Lit block_tables_def coded_def)
  then show ?thesis using fits unat_u8_less [of b] by (simp add: Lit block_step_def out_byte_def)
next
  case (Match lc le dc de)
  note st' = st [unfolded Match token_bits.simps]
  obtain bs1 where r: "huff_decode lit bs = (Some (257 + lc), bs1)" "advanced bs (ll ! (257 + lc)) bs1"
    using decode_code [OF _ _ _ _ bs starts_with_append(1) [OF st']] t ok
    by (auto simp: Match block_tables_def coded_def)
  have st1: "starts_with bs1 (extra_bits le (len_extra ! lc) @ code_bits dl dc @ extra_bits de (dist_extra ! dc))"
    by (rule starts_with_append(2) [OF st']) (use r(2) in simp)
  obtain bs' where m: "copy_match dh (257 + lc) bs1 ob = Again bs' (ob\<lparr>ob_bytes := expand (ob_bytes ob) tok\<rparr>)"
    "advanced bs1 (len_extra ! lc + (dl ! dc + dist_extra ! dc)) bs'"
    using copy_match_decodes [OF t _ advancedD [OF r(2)] st1, of ob] ok fits Match by auto
  then show ?thesis
    using r(1) advanced_trans [OF r(2) m(2)] by (auto simp: Match block_step_def)
qed

lemma inflate_block_decodes:
  assumes t: "block_tables ll dl lit dh"
  shows "tokens_ok ll dl (ob_bytes ob) ts \<Longrightarrow> bs_ok bs \<Longrightarrow> starts_with bs (block_bits ll dl ts) \<Longrightarrow>
    length (fold (\<lambda>t out. expand out t) ts (ob_bytes ob)) \<le> ob_cap ob \<Longrightarrow>
    \<exists>bs'. inflate_block lit dh bs ob = Inr (bs', ob\<lparr>ob_bytes := fold (\<lambda>t out. expand out t) ts (ob_bytes ob)\<rparr>) \<and>
      advanced bs (length (block_bits ll dl ts)) bs'"
proof (induction ts arbitrary: ob bs)
  case Nil
  obtain bs1 where r: "huff_decode lit bs = (Some 256, bs1)" "advanced bs (ll ! 256) bs1"
    using decode_code [of ll lit 256 bs] t Nil by (auto simp: block_tables_def coded_def block_bits_def)
  then show ?case by (simp add: inflate_block.simps [of lit dh bs ob] block_step_def block_bits_def)
next
  case (Cons tok ts)
  have st: "starts_with bs (token_bits ll dl tok @ block_bits ll dl ts)"
    using Cons.prems(3) by (simp add: block_bits_def)
  have fits: "length (expand (ob_bytes ob) tok) \<le> ob_cap ob"
    using Cons.prems(4) le_trans [OF expand_fold_length] by simp
  obtain bs1 where s: "block_step lit dh bs ob = Again bs1 (ob\<lparr>ob_bytes := expand (ob_bytes ob) tok\<rparr>)"
    "advanced bs (length (token_bits ll dl tok)) bs1"
    using block_step_decodes [OF t _ Cons.prems(2) starts_with_append(1) [OF st] fits] Cons.prems(1) by auto
  obtain bs' where IH: "inflate_block lit dh bs1 (ob\<lparr>ob_bytes := expand (ob_bytes ob) tok\<rparr>) =
      Inr (bs', ob\<lparr>ob_bytes := fold (\<lambda>t out. expand out t) (tok # ts) (ob_bytes ob)\<rparr>)"
    "advanced bs1 (length (block_bits ll dl ts)) bs'"
    using Cons.IH [of "ob\<lparr>ob_bytes := expand (ob_bytes ob) tok\<rparr>" bs1] Cons.prems advancedD [OF s(2)]
      starts_with_append(2) [OF st s(2)] by auto
  then show ?case
    using s(1) advanced_trans [OF s(2) IH(2)]
    by (simp add: inflate_block.simps [of lit dh bs ob] block_bits_def)
qed

section \<open>Tables built by the code\<close>

lemma huff_build_tables:
  assumes "lengths_ok ls" "huff_build ls (length ls) = Some h"
  shows "tables_for ls h"
  using huff_build_correct [of ls "length ls" ls] assms by auto

lemma first_code_numeral:
  "first_code ls (numeral k) = 2 * (first_code ls (pred_numeral k) + cnt ls (pred_numeral k))"
  by (simp add: numeral_eq_Suc)

lemma upto_15: "{..15 :: nat} = {15, 14, 13, 12, 11, 10, 9, 8, 7, 6, 5, 4, 3, 2, 1, 0}"
  by (simp add: atMost_nat_numeral atMost_Suc)

lemma cnt_fixed:
  "cnt fixed_lengths l = (if l = 7 then 24 else if l = 8 then 152 else if l = 9 then 112 else 0)"
  "cnt fixed_dist_lengths l = (if l = 5 then 30 else 0)"
  by (auto simp: cnt_def fixed_lengths_def fixed_dist_lengths_def)

lemma fixed_lengths_ok: "lengths_ok fixed_lengths" "lengths_ok fixed_dist_lengths"
proof -
  have "first_code fixed_lengths l + cnt fixed_lengths l \<le> 2 ^ l" if "l \<le> 15" for l
    using that [folded atMost_iff, unfolded upto_15] by (elim insertE) (simp_all add: first_code_numeral cnt_fixed)
  then show "lengths_ok fixed_lengths" by (auto simp: lengths_ok_def fixed_lengths_def)
  have "first_code fixed_dist_lengths l + cnt fixed_dist_lengths l \<le> 2 ^ l" if "l \<le> 15" for l
    using that [folded atMost_iff, unfolded upto_15] by (elim insertE) (simp_all add: first_code_numeral cnt_fixed)
  then show "lengths_ok fixed_dist_lengths" by (auto simp: lengths_ok_def fixed_dist_lengths_def)
qed

lemma fixed_lengths_length: "length fixed_lengths = 288" "length fixed_dist_lengths = 30"
  by (simp_all add: fixed_lengths_def fixed_dist_lengths_def)

lemma fixed_tables_built: "huff_build fixed_lengths 288 = Some fixed_litlen" "huff_build fixed_dist_lengths 30 = Some fixed_dist"
  using huff_build_correct [of fixed_lengths 288 fixed_lengths] fixed_lengths_ok fixed_lengths_length
    huff_build_correct [of fixed_dist_lengths 30 fixed_dist_lengths]
  by (auto simp: fixed_litlen_def fixed_dist_def)

lemma fixed_lengths_nth:
  "s < 288 \<Longrightarrow> fixed_lengths ! s = (if s < 144 then 8 else if s < 256 then 9 else if s < 280 then 7 else 8)"
  "s < 30 \<Longrightarrow> fixed_dist_lengths ! s = 5"
  by (auto simp: fixed_lengths_def fixed_dist_lengths_def nth_append)

lemma fixed_code_bits:
  "code_bits fixed_lengths 65 = [False, True, True, True, False, False, False, True]"
  "code_bits fixed_lengths 256 = [False, False, False, False, False, False, False]"
  "code_bits fixed_lengths 257 = [False, False, False, False, False, False, True]"
  "code_bits fixed_dist_lengths 0 = [False, False, False, False, False]"
  by (simp_all add: code_bits_def fixed_lengths_nth huff_code_def rank_def cnt_fixed first_code_numeral upt_rec)
    (simp_all add: fixed_lengths_def fixed_dist_lengths_def bit_0)

text \<open>C19. A block is decoded to what was encoded into it: for the tables built from two lists
  of code lengths that form prefix codes, input bits that start with the canonical codes of
  a list of tokens (literals and matches) and of the end-of-block symbol make
  \<open>inflate_block\<close> write the LZ77 expansion of the tokens and stop right behind them.\<close>

theorem inflate_block_roundtrip:
  assumes "lengths_ok ll" "lengths_ok dl"
    and "huff_build ll (length ll) = Some lit" "huff_build dl (length dl) = Some dh"
    and "tokens_ok ll dl (ob_bytes ob) ts" "bs_ok bs" "starts_with bs (block_bits ll dl ts)"
    and "length (fold (\<lambda>t out. expand out t) ts (ob_bytes ob)) \<le> ob_cap ob"
  shows "\<exists>bs'. inflate_block lit dh bs ob =
      Inr (bs', ob\<lparr>ob_bytes := fold (\<lambda>t out. expand out t) ts (ob_bytes ob)\<rparr>) \<and>
    advanced bs (length (block_bits ll dl ts)) bs'"
  by (rule inflate_block_decodes [OF _ assms(5-8)])
    (simp add: block_tables_def huff_build_tables assms)

theorem inflate_block_roundtrip_witness:
  "\<exists>bs'. inflate_block fixed_litlen fixed_dist (bs_init [0x8E, 0x40, 0, 0]) \<lparr>ob_bytes = [], ob_cap = 4\<rparr> =
      Inr (bs', \<lparr>ob_bytes = [65, 65, 65, 65], ob_cap = 4\<rparr>)"
proof -
  have ok: "tokens_ok fixed_lengths fixed_dist_lengths [] [Lit 65, Match 0 0 0 0]"
    by (simp add: coded_def fixed_lengths_nth fixed_lengths_length dist_base_def)
  have bits: "block_bits fixed_lengths fixed_dist_lengths [Lit 65, Match 0 0 0 0] =
    map (src_bit [0x8E, 0x40, 0, 0]) [0..<27]"
    by (simp add: block_bits_def fixed_code_bits extra_bits_def len_extra_def dist_extra_def src_bit_def upt_rec)
  have out: "fold (\<lambda>t out. expand out t) [Lit 65, Match 0 0 0 0] [] = [65, 65, 65, 65]" by code_simp
  have st: "starts_with (bs_init [0x8E, 0x40, 0, 0]) (block_bits fixed_lengths fixed_dist_lengths [Lit 65, Match 0 0 0 0])"
    unfolding bits by (simp add: starts_with_def stream_def bs_init_def)
  have b: "bs_ok (bs_init [0x8E, 0x40, 0, 0])" by (simp add: bs_ok_def bs_init_def)
  have "\<exists>bs'. inflate_block fixed_litlen fixed_dist (bs_init [0x8E, 0x40, 0, 0]) \<lparr>ob_bytes = [], ob_cap = 4\<rparr> =
      Inr (bs', \<lparr>ob_bytes = [], ob_cap = 4\<rparr>\<lparr>ob_bytes := fold (\<lambda>t out. expand out t) [Lit 65, Match 0 0 0 0]
        (ob_bytes \<lparr>ob_bytes = [], ob_cap = 4\<rparr>)\<rparr>) \<and>
    advanced (bs_init [0x8E, 0x40, 0, 0])
      (length (block_bits fixed_lengths fixed_dist_lengths [Lit 65, Match 0 0 0 0])) bs'"
    by (rule inflate_block_roundtrip [OF fixed_lengths_ok])
      (use fixed_tables_built fixed_lengths_length ok out st b in \<open>simp_all del: fold.simps\<close>)
  then show ?thesis using out by auto
qed

section \<open>Stored blocks\<close>

text \<open>Between two bytes the bit buffer is empty.\<close>

abbreviation at_byte :: "u8 list \<Rightarrow> nat \<Rightarrow> bitstream" where
  "at_byte src p \<equiv> \<lparr>bs_src = src, src_pos = p, bs_bits = 0, nbits = 0\<rparr>"

definition u16_bytes :: "nat \<Rightarrow> u8 list" where
  "u16_bytes n = [of_nat (n mod 256), of_nat (n div 256)]"

definition u32_bytes :: "nat \<Rightarrow> u8 list" where
  "u32_bytes n = u16_bytes (n mod 65536) @ u16_bytes (n div 65536)"

lemma unat_of_nat_u8: "n < 256 \<Longrightarrow> unat (of_nat n :: u8) = n"
  by (simp add: unat_of_nat take_bit_nat_eq_self)

lemma read_byte:
  assumes "p < length src"
  shows "bs_read (at_byte src p) 8 = (unat (src ! p), at_byte src (p + 1))"
proof -
  let ?b = "\<lparr>bs_src = src, src_pos = Suc p, bs_bits = ucast (src ! p), nbits = 8\<rparr>"
  have "bs_fill ?b 8 = ?b" by (simp add: bs_fill.simps [of ?b])
  then have f: "bs_fill (at_byte src p) 8 = ?b"
    using assms by (simp add: bs_fill.simps [of "at_byte src p"] fetch_byte_def)
  have "(ucast (src ! p) :: u32) AND mask 8 = ucast (src ! p)"
    by (rule bit_eqI) (auto simp: bit_and_iff bit_ucast_iff bit_mask_iff dest: bit_imp_le_length)
  then have "(ucast (src ! p) :: u32) AND 255 = ucast (src ! p)" by (simp add: mask_eq_exp_minus_1)
  moreover have "drop_bit 8 (ucast (src ! p) :: u32) = 0"
    by (rule bit_eqI) (auto simp: bit_drop_bit_eq bit_ucast_iff dest: bit_imp_le_length)
  moreover have "unat (ucast (src ! p) :: u32) = unat (src ! p)"
    using unat_u8_less [of "src ! p"] by (simp add: unsigned_ucast_eq take_bit_nat_eq_self)
  ultimately show ?thesis
    unfolding bs_read_def bs_peek_def f by (simp add: bs_drop_def no_wrap)
qed

lemma align_byte [simp]: "bs_align (at_byte src p) = at_byte src p"
  by (simp add: bs_align_def)

lemma read_u16:
  assumes "n < 65536" "drop p src = u16_bytes n @ rest"
  shows "bs_read_u16_le (at_byte src p) = (n, at_byte src (p + 2))"
proof -
  have l: "p + 1 < length src" using arg_cong [OF assms(2), of length] by (simp add: u16_bytes_def)
  have "src ! p = of_nat (n mod 256)" "src ! (p + 1) = of_nat (n div 256)"
    using arg_cong [OF assms(2), of "\<lambda>xs. xs ! 0"] arg_cong [OF assms(2), of "\<lambda>xs. xs ! 1"] l
    by (simp_all add: u16_bytes_def)
  then show ?thesis
    using assms(1) l read_byte [of p src] read_byte [of "p + 1" src]
    by (simp add: bs_read_u16_le_def unat_of_nat_u8)
qed

lemma copy_stored_bytes:
  assumes "drop p src = d @ rest" "length (ob_bytes ob) + length d \<le> ob_cap ob"
  shows "copy_stored (length d) (at_byte src p) ob = Inr (at_byte src (p + length d), ob\<lparr>ob_bytes := ob_bytes ob @ d\<rparr>)"
  using assms
proof (induction d arbitrary: p ob)
  case (Cons b d)
  have l: "p < length src" using arg_cong [OF Cons.prems(1), of length] by simp
  then have b: "src ! p = b" "drop (p + 1) src = d @ rest"
    using Cons.prems(1) by (metis Cons_nth_drop_Suc append_Cons list.inject Suc_eq_plus1)+
  then show ?case
    using Cons.IH [of "p + 1" "ob\<lparr>ob_bytes := ob_bytes ob @ [b]\<rparr>"] Cons.prems(2) read_byte [OF l]
    by (simp add: out_byte_def)
qed simp

text \<open>A gzip file with one stored block.\<close>

definition gzip_stored :: "u8 list \<Rightarrow> u8 list" where
  "gzip_stored d = [0x1F, 0x8B, 8, 0, 0, 0, 0, 0, 0, 0xFF] @ 1 # u16_bytes (length d) @ u16_bytes (65535 - length d) @
     d @ u32_bytes (unat (crc32 d)) @ u32_bytes (length d)"

lemma le32_bytes:
  assumes "n < 2 ^ 32" "drop p inp = u32_bytes n @ rest"
  shows "le32 inp p = n"
proof -
  have "p + 3 < length inp" using arg_cong [OF assms(2), of length] by (simp add: u32_bytes_def u16_bytes_def)
  then have i: "inp ! (p + i) = (u32_bytes n @ rest) ! i" if "i < 4" for i
    using that by (simp flip: assms(2))
  have "n div 65536 div 256 = n div 16777216" by (simp flip: div_mult2_eq)
  also have "\<dots> < 256" by (rule less_mult_imp_div_less) (use assms(1) in simp)
  finally have "n div 65536 div 256 < 256" .
  then have "le32 inp p = n mod 65536 mod 256 + 256 * (n mod 65536 div 256) + 65536 * (n div 65536 mod 256) +
      16777216 * (n div 65536 div 256)"
    using i [of 0] i [of 1] i [of 2] i [of 3]
    by (simp add: le32_def byte_at_def u32_bytes_def u16_bytes_def unat_of_nat_u8 numeral_3_eq_3 numeral_2_eq_2)
  also have "\<dots> = n"
    using mod_mult_div_eq [of "n mod 65536" 256] mod_mult_div_eq [of "n div 65536" 256] mod_mult_div_eq [of n 65536]
    by linarith
  finally show ?thesis .
qed

lemma xor_complement: "n < 65536 \<Longrightarrow> n XOR (65535 - n) = (65535 :: nat)"
proof -
  assume n: "n < 65536"
  have b: "\<not> bit n i" if "16 \<le> i" for i
  proof -
    have "n < 2 ^ i" using n power_increasing [OF that, of "2 :: nat"] by simp
    then show ?thesis by (simp add: bit_iff_odd)
  qed
  have "take_bit 16 (int n) = int n" using n by (simp add: take_bit_int_eq_self)
  then have c: "65535 - int n = take_bit 16 (NOT (int n))" by (simp add: take_bit_not_eq_mask_diff mask_eq_exp_minus_1)
  have "int n XOR take_bit 16 (NOT (int n)) = mask 16"
    by (rule bit_eqI) (use b in \<open>auto simp: bit_xor_iff bit_take_bit_iff bit_not_iff bit_mask_iff bit_of_nat_iff not_le [symmetric]\<close>)
  then have "int (n XOR (65535 - n)) = int 65535"
    using n c by (simp add: of_nat_xor_eq mask_eq_exp_minus_1)
  then show ?thesis by (simp only: of_nat_eq_iff)
qed

lemma gzip_stored_decodes:
  assumes "length d < 65536" "length d \<le> cap"
  shows "inflate_gzip (gzip_stored d) cap = (int (length d), d)"
proof -
  let ?f = "gzip_stored d" and ?n = "length d" and ?ob = "\<lparr>ob_bytes = [], ob_cap = cap\<rparr>"
  define src where "src = drop 10 ?f"
  have src: "src = 1 # u16_bytes ?n @ u16_bytes (65535 - ?n) @ d @ u32_bytes (unat (crc32 d)) @ u32_bytes ?n"
    by (simp add: src_def gzip_stored_def)
  have len: "length ?f = 23 + ?n" by (simp add: gzip_stored_def u16_bytes_def u32_bytes_def)
  have h: "gzip_header ?f = Some 10" using len by (simp add: gzip_header_def) (simp add: gzip_stored_def)
  let ?b1 = "\<lparr>bs_src = src, src_pos = 1, bs_bits = 0, nbits = 7\<rparr>" and ?b2 = "\<lparr>bs_src = src, src_pos = 1, bs_bits = 0, nbits = 5\<rparr>"
  have r1: "bs_read (bs_init src) 1 = (1, ?b1)"
    by (simp add: bs_read_def bs_peek_def bs_init_def bs_fill.simps fetch_byte_def bs_drop_def src no_wrap)
  have r2: "bs_read ?b1 2 = (0, ?b2)"
    by (simp add: bs_read_def bs_peek_def bs_fill.simps bs_drop_def no_wrap)
  have al: "bs_align ?b2 = at_byte src 1" by (simp add: bs_align_def)
  have u1: "bs_read_u16_le (at_byte src 1) = (?n, at_byte src 3)"
    using read_u16 [of ?n 1 src] assms(1) by (simp add: src)
  have u2: "bs_read_u16_le (at_byte src 3) = (65535 - ?n, at_byte src 5)"
    using read_u16 [of "65535 - ?n" 3 src] by (simp add: src u16_bytes_def)
  have c: "copy_stored ?n (at_byte src 5) ?ob = Inr (at_byte src (5 + ?n), \<lparr>ob_bytes = d, ob_cap = cap\<rparr>)"
    using copy_stored_bytes [of 5 src d _ ?ob] assms(2) by (simp add: src u16_bytes_def)
  have "stored_block ?b2 ?ob = Inr (at_byte src (5 + ?n), \<lparr>ob_bytes = d, ob_cap = cap\<rparr>)"
    using al u1 u2 c xor_complement [OF assms(1)] by (simp add: stored_block_def)
  then have g: "gzip_blocks (bs_init src) ?ob = Inr (at_byte src (5 + ?n), \<lparr>ob_bytes = d, ob_cap = cap\<rparr>)"
    using r1 r2 by (simp add: gzip_blocks.simps [of "bs_init src"] gzip_step_def)
  define pre where "pre = [0x1F, 0x8B, 8, 0, 0, 0, 0, 0, 0, 0xFF] @ 1 # u16_bytes ?n @ u16_bytes (65535 - ?n) @ d"
  have f: "?f = pre @ u32_bytes (unat (crc32 d)) @ u32_bytes ?n" by (simp add: gzip_stored_def pre_def)
  have pre: "length pre = 15 + ?n" by (simp add: pre_def u16_bytes_def)
  have "u32_add 10 (u32_sub (5 + ?n) 0) = 15 + ?n" using assms(1) by (simp add: no_wrap)
  moreover have "le32 ?f (15 + ?n) = unat (crc32 d)"
    using unsigned_less [of "crc32 d"] by (intro le32_bytes [where rest = "u32_bytes ?n"]) (simp_all add: f pre)
  moreover have "le32 ?f (15 + ?n + 4) = ?n"
    using assms(1) by (intro le32_bytes [where rest = "[]"]) (simp_all add: f pre u32_bytes_def u16_bytes_def)
  ultimately show ?thesis
    using h g len assms(1) by (simp add: inflate_gzip_def src_def no_wrap to_int_def)
qed
text \<open>Round trip through the container: a gzip file holding data in one stored block
  decompresses to that data whenever the output buffer has room for it.\<close>

theorem inflate_gzip_stored:
  assumes "length d < 65536" "length d \<le> cap"
  shows "inflate_gzip (gzip_stored d) cap = (int (length d), d)"
  using gzip_stored_decodes [OF assms] .

theorem inflate_gzip_stored_witness: "inflate_gzip (gzip_stored [72, 105]) 2 = (2, [72, 105])"
  using inflate_gzip_stored [of "[72, 105]" 2] by simp

section \<open>The output stays within its buffer\<close>

definition within :: "outbuf \<Rightarrow> bool" where
  "within ob \<longleftrightarrow> length (ob_bytes ob) \<le> ob_cap ob"

text \<open>Whether a call succeeds or fails: it leaves the capacity as it is and never writes behind the end.\<close>

definition kept :: "outbuf \<Rightarrow> outbuf \<Rightarrow> bool" where
  "kept ob ob' \<longleftrightarrow> ob_cap ob' = ob_cap ob \<and> (within ob \<longrightarrow> within ob')"

fun written :: "outbuf + bitstream \<times> outbuf \<Rightarrow> outbuf" where
  "written (Inl ob) = ob"
| "written (Inr (bs, ob)) = ob"

fun stepped :: "step_result \<Rightarrow> outbuf" where
  "stepped (Fail ob) = ob"
| "stepped (Finished bs ob) = ob"
| "stepped (Again bs ob) = ob"

lemma buf_kept_refl [simp]: "kept ob ob"
  by (simp add: kept_def)

lemma buf_kept_trans: "kept ob ob1 \<Longrightarrow> kept ob1 ob2 \<Longrightarrow> kept ob ob2"
  by (simp add: kept_def)

lemma kept_out_byte: "kept ob (case out_byte ob b of Inl ob1 \<Rightarrow> ob1 | Inr ob1 \<Rightarrow> ob1)"
  by (simp add: out_byte_def kept_def within_def)

lemma kept_copy_loop: "kept ob (case copy_loop ob dist len of Inl ob1 \<Rightarrow> ob1 | Inr ob1 \<Rightarrow> ob1)"
proof (induction ob dist len rule: copy_loop.induct)
  case (2 ob dist len)
  show ?case
  proof (cases "out_byte ob (ob_bytes ob ! (length (ob_bytes ob) - dist))")
    case (Inl ob1)
    then show ?thesis using kept_out_byte [of ob "ob_bytes ob ! (length (ob_bytes ob) - dist)"] by simp
  next
    case (Inr ob1)
    then have "kept ob ob1" using kept_out_byte [of ob "ob_bytes ob ! (length (ob_bytes ob) - dist)"] by simp
    then show ?thesis using 2 Inr buf_kept_trans by auto
  qed
qed simp

lemma kept_copy_match: "kept ob (stepped (copy_match dh sy bs ob))"
proof -
  have "kept ob (stepped (case out_copy ob dist len of Inl ob1 \<Rightarrow> Fail ob1 | Inr ob1 \<Rightarrow> Again bs3 ob1))" for dist len bs3
    using kept_copy_loop [of ob dist len] by (auto simp: out_copy_def split: sum.splits)
  then show ?thesis by (simp add: copy_match_def Let_def split: prod.split option.split)
qed

lemma kept_block_step: "kept ob (stepped (block_step lit dh bs ob))"
proof -
  have "kept ob (stepped (case out_byte ob b of Inl ob1 \<Rightarrow> Fail ob1 | Inr ob1 \<Rightarrow> Again bs3 ob1))" for b bs3
    using kept_out_byte [of ob b] by (auto split: sum.splits)
  then show ?thesis by (simp add: block_step_def kept_copy_match split: prod.split option.split)
qed

lemma kept_inflate_block: "kept ob (written (inflate_block lit dh bs ob))"
proof (induction lit dh bs ob rule: inflate_block.induct)
  case (1 lit dh bs ob)
  show ?case
  proof (cases "block_step lit dh bs ob")
    case (Again bs1 ob1)
    then have "kept ob1 (written (inflate_block lit dh bs1 ob1))" using 1 by simp
    then show ?thesis using kept_block_step [of ob lit dh bs] buf_kept_trans Again by (auto simp: inflate_block.simps [of lit dh bs ob])
  qed (use kept_block_step [of ob lit dh bs] in \<open>simp_all add: inflate_block.simps [of lit dh bs ob]\<close>)
qed

lemma kept_dynamic: "kept ob (written (inflate_dynamic bs ob))"
  by (simp add: inflate_dynamic_def Let_def kept_inflate_block split: prod.split option.split)

lemma kept_copy_stored: "kept ob (written (copy_stored n bs ob))"
proof (induction n bs ob rule: copy_stored.induct)
  case (2 n bs ob)
  obtain v bs1 where r: "bs_read bs 8 = (v, bs1)" by (cases "bs_read bs 8")
  show ?case
  proof (cases "out_byte ob (of_nat v)")
    case (Inl ob1)
    then show ?thesis using kept_out_byte [of ob "of_nat v"] r by simp
  next
    case (Inr ob1)
    then have "kept ob1 (written (copy_stored n bs1 ob1))" using 2 r by simp
    then show ?thesis using Inr r kept_out_byte [of ob "of_nat v"] buf_kept_trans by auto
  qed
qed simp

lemma kept_stored: "kept ob (written (stored_block bs ob))"
  by (simp add: stored_block_def kept_copy_stored split: prod.split)

lemma kept_gzip_step: "kept ob (stepped (gzip_step bs ob))"
proof -
  have w: "stepped (case r of Inl ob1 \<Rightarrow> Fail ob1 | Inr (bs3, ob1) \<Rightarrow> if f then Finished bs3 ob1 else Again bs3 ob1) = written r" for r f
    by (cases r) (auto split: prod.splits)
  show ?thesis
    using kept_stored [of ob] kept_inflate_block [of ob] kept_dynamic [of ob] by (auto simp: gzip_step_def w split: prod.split)
qed

lemma kept_gzip_blocks: "kept ob (written (gzip_blocks bs ob))"
proof (induction bs ob rule: gzip_blocks.induct)
  case (1 bs ob)
  show ?case
  proof (cases "gzip_step bs ob")
    case (Again bs1 ob1)
    then have "kept ob1 (written (gzip_blocks bs1 ob1))" using 1 by simp
    then show ?thesis using kept_gzip_step [of ob bs] buf_kept_trans Again by (auto simp: gzip_blocks.simps [of bs ob])
  qed (use kept_gzip_step [of ob bs] in \<open>simp_all add: gzip_blocks.simps [of bs ob]\<close>)
qed

text \<open>C20. On every input, whether it is accepted or not, \<open>inflate_gzip\<close> stores no more bytes than the output buffer has
  room for.  It succeeds only if the magic number and the method are right, the blocks behind the header decode to what
  it has stored, and the eight bytes where the reader of the blocks stands, after the rest of its last byte is skipped,
  hold the CRC-32 and the length of exactly these bytes; the result is their number.\<close>

theorem inflate_gzip_sound:
  assumes "inflate_gzip inp cap = (r, out)" "cap < 2 ^ 31"
  shows "length out \<le> cap \<and> (r = -1 \<or> r = int (length out)) \<and>
    (r \<noteq> -1 \<longrightarrow> take 3 inp = [0x1F, 0x8B, 8] \<and>
      (\<exists>pos bs p. gzip_header inp = Some pos \<and> gzip_blocks (bs_init (drop pos inp)) \<lparr>ob_bytes = [], ob_cap = cap\<rparr> = Inr (bs, \<lparr>ob_bytes = out, ob_cap = cap\<rparr>) \<and>
        p = u32_add pos (u32_sub (src_pos (bs_align bs)) (nbits (bs_align bs) div 8)) \<and>
        u32_add p 8 \<le> length inp \<and> le32 inp p = unat (crc32 out) \<and> le32 inp (p + 4) = length out))"
proof (cases "gzip_header inp")
  case None
  then show ?thesis using assms(1) by (simp add: inflate_gzip_def)
next
  case h: (Some pos)
  let ?ob = "\<lparr>ob_bytes = [], ob_cap = cap\<rparr>"
  have k: "length (ob_bytes (written (gzip_blocks (bs_init (drop pos inp)) ?ob))) \<le> cap" "ob_cap (written (gzip_blocks (bs_init (drop pos inp)) ?ob)) = cap"
    using kept_gzip_blocks [of ?ob "bs_init (drop pos inp)"] by (simp_all add: kept_def within_def)
  show ?thesis
  proof (cases "gzip_blocks (bs_init (drop pos inp)) ?ob")
    case (Inl ob)
    then show ?thesis using assms(1) h k by (simp add: inflate_gzip_def)
  next
    case (Inr x)
    then obtain bs ob where g: "gzip_blocks (bs_init (drop pos inp)) ?ob = Inr (bs, ob)" by (cases x) auto
    have ob: "ob = \<lparr>ob_bytes = ob_bytes ob, ob_cap = cap\<rparr>" "length (ob_bytes ob) \<le> cap" using k g by simp_all
    define p where "p = u32_add pos (u32_sub (src_pos (bs_align bs)) (nbits (bs_align bs) div 8))"
    have out: "out = ob_bytes ob" "r = -1 \<or> (r = to_int (length out) \<and> u32_add p 8 \<le> length inp \<and> le32 inp (p + 4) = length out \<and> unat (crc32 out) = le32 inp p)"
      using assms(1) h g by (auto simp: inflate_gzip_def Let_def p_def [symmetric] split: if_splits)
    have "18 \<le> length inp" "inp ! 0 = 0x1F" "inp ! 1 = 0x8B" "inp ! 2 = 8" using h by (auto simp: gzip_header_def split: if_splits)
    then have t: "take 3 inp = [0x1F, 0x8B, 8]" by (simp add: list_eq_iff_nth_eq less_Suc_eq numeral_3_eq_3 numeral_2_eq_2)
    have i: "to_int (length out) = int (length out)" using ob(2) out(1) assms(2) by (simp add: to_int_def)
    have "gzip_blocks (bs_init (drop pos inp)) ?ob = Inr (bs, \<lparr>ob_bytes = out, ob_cap = cap\<rparr>)" using g ob(1) out(1) by simp
    then show ?thesis using t out i ob(2) h p_def by auto
  qed
qed

theorem inflate_gzip_sound_witness:
  "inflate_gzip (gzip_stored [65]) 4 = (1, [65]) \<and>
   (\<exists>p. u32_add p 8 \<le> length (gzip_stored [65]) \<and> le32 (gzip_stored [65]) p = unat (crc32 [65]) \<and>
      le32 (gzip_stored [65]) (p + 4) = 1)"
proof -
  have r: "inflate_gzip (gzip_stored [65]) 4 = (1, [65])" using gzip_stored_decodes [of "[65]" 4] by simp
  from inflate_gzip_sound [OF this] show ?thesis using r by auto
qed

section \<open>The number of blocks\<close>

text \<open>\<open>n\<close> passes of the block loop that did not end it.\<close>

fun gzip_passes :: "nat \<Rightarrow> bitstream \<Rightarrow> outbuf \<Rightarrow> (bitstream \<times> outbuf) option" where
  "gzip_passes 0 bs ob = Some (bs, ob)"
| "gzip_passes (Suc n) bs ob =
     (case gzip_step bs ob of Again bs1 ob1 \<Rightarrow> gzip_passes n bs1 ob1 | _ \<Rightarrow> None)"

lemma gzip_passes_ones: "gzip_passes n bs ob = Some (bs', ob') \<Longrightarrow> n + ones bs' \<le> ones bs"
proof (induction n arbitrary: bs ob)
  case (Suc n)
  then obtain bs1 ob1 where s: "gzip_step bs ob = Again bs1 ob1" "gzip_passes n bs1 ob1 = Some (bs', ob')"
    by (auto split: step_result.splits)
  then show ?case using Suc.IH [OF s(2)] gzip_step_Again [OF s(1)] by simp
qed simp

lemma pop_u8: "pop (b :: u8) \<le> 8"
proof -
  have "{i. bit b i} \<subseteq> {..<8}" by (auto dest: bit_imp_le_length)
  from card_mono [OF _ this] show ?thesis by (simp add: pop_def)
qed

lemma ones_init: "ones (bs_init src) \<le> 8 * length src"
proof -
  have "sum_list (map pop src) \<le> 8 * length src"
    by (induction src) (use pop_u8 in \<open>auto intro: add_mono\<close>)
  then show ?thesis by (simp add: ones_def bs_init_def pop_def)
qed

text \<open>C21. Decompression ends on every input, and soon: the loop over the blocks makes at most
  as many passes as the input has bits, also when it reads past the end of a truncated
  stream.\<close>

theorem gzip_passes_bounded:
  assumes "8 * length src < n"
  shows "gzip_passes n (bs_init src) ob = None"
  using gzip_passes_ones [of n "bs_init src" ob] ones_init [of src] assms
  by (cases "gzip_passes n (bs_init src) ob") auto

theorem gzip_passes_bounded_witness: "gzip_passes 25 (bs_init [0, 0, 0]) \<lparr>ob_bytes = [], ob_cap = 100\<rparr> = None"
  by (rule gzip_passes_bounded) simp

end
