(* ===== verification/Packet.thy ===== *)
theory Packet
  imports Prelude
begin

text \<open>
  Wire formats of the network stack (\<open>include/net_internal.h\<close>, \<open>src/net.c\<close>, \<open>src/arp.c\<close>,
  \<open>src/tcp.c\<close>): the packed header structs as records with their memory images, byte order
  and the ones-complement checksum.  A \<open>_image\<close> function lists the bytes of a struct, an
  \<open>_of\<close> function reads a struct from bytes.  The processor stores little-endian, so a
  field in network order is stored with \<open>htons\<close> or \<open>htonl\<close>.
\<close>

section \<open>Byte order\<close>

definition htons :: "u16 \<Rightarrow> u16" where
  "htons v = push_bit 8 v OR drop_bit 8 v"

definition ntohs :: "u16 \<Rightarrow> u16" where
  "ntohs v = htons v"

definition ntohl :: "u32 \<Rightarrow> u32" where
  "ntohl v = push_bit 24 (v AND 0xFF) OR push_bit 16 (drop_bit 8 v AND 0xFF) OR
     push_bit 8 (drop_bit 16 v AND 0xFF) OR (drop_bit 24 v AND 0xFF)"

definition htonl :: "u32 \<Rightarrow> u32" where
  "htonl v = ntohl v"

definition ip_to_net :: "u32 \<Rightarrow> u32" where
  "ip_to_net ip = push_bit 24 (ip AND 0xFF) OR push_bit 16 (drop_bit 8 ip AND 0xFF) OR
     push_bit 8 (drop_bit 16 ip AND 0xFF) OR (drop_bit 24 ip AND 0xFF)"

definition image16 :: "u16 \<Rightarrow> u8 list" where
  "image16 w = [ucast w, ucast (drop_bit 8 w)]"

definition image32 :: "u32 \<Rightarrow> u8 list" where
  "image32 w = [ucast w, ucast (drop_bit 8 w), ucast (drop_bit 16 w), ucast (drop_bit 24 w)]"

definition join16 :: "u8 \<Rightarrow> u8 \<Rightarrow> u16" where
  "join16 a b = ucast a OR push_bit 8 (ucast b)"

definition join32 :: "u8 \<Rightarrow> u8 \<Rightarrow> u8 \<Rightarrow> u8 \<Rightarrow> u32" where
  "join32 a b c d = ucast a OR push_bit 8 (ucast b) OR push_bit 16 (ucast c) OR push_bit 24 (ucast d)"

lemmas bit_defs = bit_or_iff bit_and_iff bit_push_bit_iff bit_drop_bit_eq bit_ucast_iff bit_mask_iff

lemma byte_mask: "(0xFF :: u32) = mask 8"
  by (simp add: mask_eq_exp_minus_1)

lemma join16_le16 [simp]: "join16 (ucast w) (ucast (drop_bit 8 w)) = w"
proof (rule bit_eqI)
  fix n assume n: "possible_bit TYPE(u16) n"
  then show "bit (join16 (ucast w) (ucast (drop_bit 8 w))) n = bit w n"
    by (cases "n < 8") (auto simp: join16_def bit_defs possible_bit_word)
qed

lemma join32_le32 [simp]:
  "join32 (ucast w) (ucast (drop_bit 8 w)) (ucast (drop_bit 16 w)) (ucast (drop_bit 24 w)) = w"
proof (rule bit_eqI)
  fix n assume n: "possible_bit TYPE(u32) n"
  consider "n < 8" | "8 \<le> n" "n < 16" | "16 \<le> n" "n < 24" | "24 \<le> n" by linarith
  then show "bit (join32 (ucast w) (ucast (drop_bit 8 w)) (ucast (drop_bit 16 w)) (ucast (drop_bit 24 w))) n = bit w n"
    using n by cases (auto simp: join32_def bit_defs possible_bit_word)
qed

lemma ntohs_htons [simp]: "ntohs (htons v) = v"
  by (rule bit_eqI) (auto simp: ntohs_def htons_def bit_defs possible_bit_word dest: bit_imp_le_length)

lemma bit_ntohl:
  "n < 8 \<Longrightarrow> bit (ntohl v) n = bit v (n + 24)"
  "8 \<le> n \<Longrightarrow> n < 16 \<Longrightarrow> bit (ntohl v) n = bit v (n + 8)"
  "16 \<le> n \<Longrightarrow> n < 24 \<Longrightarrow> bit (ntohl v) n = bit v (n - 8)"
  "24 \<le> n \<Longrightarrow> n < 32 \<Longrightarrow> bit (ntohl v) n = bit v (n - 24)"
  unfolding ntohl_def byte_mask by (auto simp: bit_defs add.commute)

lemma ntohl_htonl [simp]: "ntohl (htonl v) = v"
proof (rule bit_eqI)
  fix n assume n: "possible_bit TYPE(u32) n"
  consider "n < 8" | "8 \<le> n" "n < 16" | "16 \<le> n" "n < 24" | "24 \<le> n" "n < 32"
    using n by (auto simp: possible_bit_word) linarith
  then show "bit (ntohl (htonl v)) n = bit v n"
    unfolding htonl_def by cases (simp_all add: bit_ntohl)
qed

lemma htons_eq_iff: "htons v = htons w \<longleftrightarrow> v = w"
  by (metis ntohs_htons)

text \<open>What \<open>htons\<close> puts into memory: the high byte first.\<close>

lemma le16_htons: "image16 (htons v) = [ucast (drop_bit 8 v), ucast v]"
proof -
  have "(ucast (htons v) :: u8) = ucast (drop_bit 8 v)"
    by (rule bit_eqI) (auto simp: htons_def bit_defs possible_bit_word)
  moreover have "(ucast (drop_bit 8 (htons v)) :: u8) = ucast v"
    by (rule bit_eqI) (auto simp: htons_def bit_defs possible_bit_word dest: bit_imp_le_length)
  ultimately show ?thesis by (simp add: image16_def)
qed

section \<open>Checksum\<close>

text \<open>The 32-bit sum of the big-endian 16-bit words, an odd byte padded with zero, and the
  folding of its carries.\<close>

fun sum_words :: "u8 list \<Rightarrow> nat \<Rightarrow> nat" where
  "sum_words (a # b # p) s = sum_words p (u32_add s (unat a * 256 + unat b))"
| "sum_words [a] s = u32_add s (unat a * 256)"
| "sum_words [] s = s"

function fold_carry :: "nat \<Rightarrow> nat" where
  "fold_carry s = (if s div 65536 \<noteq> 0 then fold_carry (u32_add (s mod 65536) (s div 65536)) else s)"
  by pat_completeness auto

termination
proof (relation "measure id")
  fix s :: nat
  assume "s div 65536 \<noteq> 0"
  then have "s mod 65536 + s div 65536 < s" using mod_mult_div_eq [of s 65536] by linarith
  then show "(u32_add (s mod 65536) (s div 65536), s) \<in> measure id"
    using mod_less_eq_dividend [of "s mod 65536 + s div 65536" "2 ^ 32"] by (simp add: u32_add_def)
qed simp

declare fold_carry.simps [simp del]

definition checksum16 :: "u8 list \<Rightarrow> u16" where
  "checksum16 data = NOT (of_nat (fold_carry (sum_words data 0)))"

text \<open>Folding keeps the sum modulo 65535 and ends in the range of 16 bits.\<close>

lemma fold_carry_range:
  "s < 2 ^ 32 \<Longrightarrow> fold_carry s \<le> 65535 \<and> fold_carry s mod 65535 = s mod 65535 \<and> (fold_carry s = 0 \<longleftrightarrow> s = 0)"
proof (induction s rule: fold_carry.induct)
  case (1 s)
  show ?case
  proof (cases "s div 65536 = 0")
    case True
    then have "fold_carry s = s" "s < 65536" by (simp_all add: fold_carry.simps [of s] div_eq_0_iff)
    then show ?thesis by simp
  next
    case False
    let ?t = "s mod 65536 + s div 65536"
    have eq: "s = ?t + 65535 * (s div 65536)" using mod_mult_div_eq [of s 65536] by linarith
    have lt: "?t < 2 ^ 32" "?t \<noteq> 0" using False eq 1(2) by auto
    then have w: "u32_add (s mod 65536) (s div 65536) = ?t" by (simp add: no_wrap)
    have m: "s mod 65535 = ?t mod 65535" by (subst eq) (simp only: mod_mult_self2)
    have "fold_carry s = fold_carry ?t" using False w by (simp add: fold_carry.simps [of s])
    moreover have "fold_carry ?t \<le> 65535 \<and> fold_carry ?t mod 65535 = ?t mod 65535 \<and> (fold_carry ?t = 0 \<longleftrightarrow> ?t = 0)"
      using "1.IH" [OF False] lt w by simp
    ultimately show ?thesis using lt(2) m False by auto
  qed
qed

text \<open>The sum itself, when it cannot wrap.\<close>

fun word_sum :: "u8 list \<Rightarrow> nat" where
  "word_sum (a # b # p) = unat a * 256 + unat b + word_sum p"
| "word_sum [a] = unat a * 256"
| "word_sum [] = 0"

lemma word_sum_le: "word_sum p \<le> 65536 * length p"
proof (induction p rule: word_sum.induct)
  case (1 a b p)
  then show ?case using unat_u8_less [of a] unat_u8_less [of b] by simp
next
  case (2 a)
  then show ?case using unat_u8_less [of a] by simp
qed simp

lemma sum_words_eq: "s + word_sum p < 2 ^ 32 \<Longrightarrow> sum_words p s = s + word_sum p"
  by (induction p s rule: sum_words.induct) (auto simp: no_wrap)

lemma word_sum_append: "even (length p) \<Longrightarrow> word_sum (p @ q) = word_sum p + word_sum q"
  by (induction p rule: word_sum.induct) auto

text \<open>A packet whose checksum field holds the checksum of the rest sums up to zero.\<close>

lemma checksum16_verifies:
  assumes even: "even (length p)" and len: "length p + length q + 2 \<le> 32768"
    and c: "c = checksum16 (p @ 0 # 0 # q)"
  shows "checksum16 (p @ image16 (htons c) @ q) = 0"
proof -
  let ?s = "word_sum p + word_sum q"
  have b: "?s + 65536 < 2 ^ 32" using word_sum_le [of p] word_sum_le [of q] len by simp
  define f where "f = fold_carry ?s"
  have f: "f \<le> 65535" "f mod 65535 = ?s mod 65535" "f = 0 \<longleftrightarrow> ?s = 0"
    using fold_carry_range [of ?s] b by (auto simp: f_def)
  have "sum_words (p @ 0 # 0 # q) 0 = ?s"
    using b by (simp add: sum_words_eq word_sum_append [OF even])
  then have cf: "c = NOT (of_nat f)" by (simp add: c checksum16_def f_def)
  have uc: "unat c = 65535 - f"
  proof -
    have "NOT (of_nat f :: u16) = of_nat (65535 - f)"
      using f(1) by (simp add: not_eq_complement of_nat_diff)
    then show ?thesis unfolding cf by (simp only: unat_of_nat) (simp add: take_bit_nat_eq_self)
  qed
  have "unat (ucast (drop_bit 8 c) :: u8) * 256 + unat (ucast c :: u8) = unat c"
  proof -
    have "unat c < 65536" using uc f(1) by simp
    then have "unat c div 256 < 256" by (simp add: less_mult_imp_div_less)
    then show ?thesis
      by (simp add: unsigned_ucast_eq take_bit_eq_mod unsigned_drop_bit_eq drop_bit_eq_div unat_div)
  qed
  then have "sum_words (p @ image16 (htons c) @ q) 0 = ?s + (65535 - f)"
    using b uc by (simp add: sum_words_eq word_sum_append [OF even] le16_htons)
  moreover have "fold_carry (?s + (65535 - f)) = 65535"
  proof -
    have "(?s + (65535 - f)) mod 65535 = 0"
      using f(1,2) by (metis (no_types, lifting) add_diff_inverse_nat mod_add_left_eq mod_self not_less)
    moreover have "?s + (65535 - f) \<noteq> 0" using f by auto
    moreover have "?s + (65535 - f) < 2 ^ 32" using b by linarith
    ultimately have "fold_carry (?s + (65535 - f)) \<le> 65535" "65535 dvd fold_carry (?s + (65535 - f))"
      "fold_carry (?s + (65535 - f)) \<noteq> 0"
      using fold_carry_range [of "?s + (65535 - f)"] by (auto simp: mod_eq_0_iff_dvd)
    then show ?thesis using dvd_imp_le [of 65535 "fold_carry (?s + (65535 - f))"] by linarith
  qed
  moreover have "NOT (of_nat 65535 :: u16) = 0" by (simp add: not_eq_complement)
  ultimately show ?thesis by (simp add: checksum16_def)
qed

section \<open>Ethernet and IPv4 headers\<close>

record eth_hdr =
  eth_dst :: "u8 list"
  eth_src :: "u8 list"
  ethertype :: u16

record ip_hdr =
  ver_ihl :: u8
  tos :: u8
  total_len :: u16
  ip_id :: u16
  flags_frag :: u16
  ttl :: u8
  protocol :: u8
  ip_checksum :: u16
  src_ip :: u32
  dst_ip :: u32

abbreviation (input) ETHERTYPE_IPV4 :: u16 where "ETHERTYPE_IPV4 \<equiv> 0x0800"
abbreviation (input) IP_PROTO_TCP :: u8 where "IP_PROTO_TCP \<equiv> 6"
abbreviation (input) NET_OUR_IP :: u32 where "NET_OUR_IP \<equiv> 0x0A00020F"
abbreviation (input) NET_GATEWAY :: u32 where "NET_GATEWAY \<equiv> 0x0A000202"
abbreviation (input) NET_DNS :: u32 where "NET_DNS \<equiv> 0x0A000203"

definition eth_image :: "eth_hdr \<Rightarrow> u8 list" where
  "eth_image h = eth_dst h @ eth_src h @ image16 (ethertype h)"

definition ip_image :: "ip_hdr \<Rightarrow> u8 list" where
  "ip_image h = [ver_ihl h, tos h] @ image16 (total_len h) @ image16 (ip_id h) @ image16 (flags_frag h) @
     [ttl h, protocol h] @ image16 (ip_checksum h) @ image32 (src_ip h) @ image32 (dst_ip h)"

definition get16 :: "u8 list \<Rightarrow> nat \<Rightarrow> u16" where
  "get16 b i = join16 (b ! i) (b ! (i + 1))"

definition get32 :: "u8 list \<Rightarrow> nat \<Rightarrow> u32" where
  "get32 b i = join32 (b ! i) (b ! (i + 1)) (b ! (i + 2)) (b ! (i + 3))"

definition eth_of :: "u8 list \<Rightarrow> eth_hdr" where
  "eth_of b = \<lparr>eth_dst = take 6 b, eth_src = take 6 (drop 6 b), ethertype = get16 b 12\<rparr>"

definition ip_of :: "u8 list \<Rightarrow> ip_hdr" where
  "ip_of b = \<lparr>ver_ihl = b ! 0, tos = b ! 1, total_len = get16 b 2, ip_id = get16 b 4, flags_frag = get16 b 6,
     ttl = b ! 8, protocol = b ! 9, ip_checksum = get16 b 10, src_ip = get32 b 12, dst_ip = get32 b 16\<rparr>"

lemma image_length [simp]: "length (image16 w) = 2" "length (image32 v) = 4" "length (ip_image h) = 20"
  by (simp_all add: image16_def image32_def ip_image_def)

lemma eth_image_length [simp]: "length (eth_dst h) = 6 \<Longrightarrow> length (eth_src h) = 6 \<Longrightarrow> length (eth_image h) = 14"
  by (simp add: eth_image_def)

lemma eth_of_image:
  assumes "length (eth_dst h) = 6" "length (eth_src h) = 6"
  shows "eth_of (eth_image h @ rest) = h"
  using assms by (simp add: eth_of_def eth_image_def get16_def nth_append image16_def)

lemma ip_of_image: "ip_of (ip_image h @ rest) = h"
  by (simp add: ip_of_def ip_image_def get16_def get32_def image16_def image32_def)

text \<open>The header every sender fills in: 20 bytes without options, checksum last.\<close>

definition ip_header :: "nat \<Rightarrow> u16 \<Rightarrow> u16 \<Rightarrow> u8 \<Rightarrow> u32 \<Rightarrow> ip_hdr" where
  "ip_header ip_total ident flags proto dst =
     (let h = \<lparr>ver_ihl = 0x45, tos = 0, total_len = htons (of_nat ip_total), ip_id = htons ident, flags_frag = flags,
               ttl = 64, protocol = proto, ip_checksum = 0, src_ip = ip_to_net NET_OUR_IP, dst_ip = ip_to_net dst\<rparr>
      in h\<lparr>ip_checksum := htons (checksum16 (ip_image h))\<rparr>)"

lemma ip_header_fields [simp]:
  "ver_ihl (ip_header t i f p d) = 0x45" "total_len (ip_header t i f p d) = htons (of_nat t)"
  "protocol (ip_header t i f p d) = p" "src_ip (ip_header t i f p d) = ip_to_net NET_OUR_IP"
  "dst_ip (ip_header t i f p d) = ip_to_net d"
  by (simp_all add: ip_header_def Let_def)

lemma ip_header_checksum: "checksum16 (ip_image (ip_header t i f p d)) = 0"
proof -
  define h where "h = \<lparr>ver_ihl = 0x45, tos = 0, total_len = htons (of_nat t), ip_id = htons i, flags_frag = f,
    ttl = 64, protocol = p, ip_checksum = 0, src_ip = ip_to_net NET_OUR_IP, dst_ip = ip_to_net d\<rparr>"
  define a b where "a = [ver_ihl h, tos h] @ image16 (total_len h) @ image16 (ip_id h) @ image16 (flags_frag h) @ [ttl h, protocol h]"
    and "b = image32 (src_ip h) @ image32 (dst_ip h)"
  have z: "ip_image h = a @ 0 # 0 # b"
    by (simp add: ip_image_def a_def b_def) (simp add: h_def image16_def)
  have "ip_image (ip_header t i f p d) = a @ image16 (htons (checksum16 (ip_image h))) @ b"
    by (simp add: ip_header_def Let_def ip_image_def a_def b_def h_def)
  then show ?thesis using checksum16_verifies [of a b "checksum16 (ip_image h)"] z by (simp add: a_def b_def)
qed

end
