(* ===== verification/E1000.thy ===== *)
theory E1000
  imports Packet Vmm
begin

text \<open>
  \<open>src/e1000.c\<close>: the driver of the network card.  Driver state and the memory shared with
  the card (the two descriptor rings with their buffers, the register file) are one
  record; the field \<open>card\<close> is whatever the card and the wire behind it keep.  The card is
  a parameter \<open>hw\<close> of the operations that look at shared memory: a function on the state
  that runs before each of them.  \<open>card_ok\<close> collects what the stack relies on: the card
  leaves the driver's own variables alone and only delivers frames of the wire.  The
  register \<open>ICR\<close> is read for its effect on the card only.  \<open>tick_count\<close> is the timer of
  \<open>src/pit.c\<close>, \<open>stack_junk\<close> the contents of uninitialised stack buffers.
\<close>

section \<open>State\<close>

record rx_desc =
  rxd_addr :: u32
  rxd_length :: nat
  rxd_status :: u8
  rxd_data :: "u8 list"

record tx_desc =
  txd_addr :: u32
  txd_length :: nat
  txd_cmd :: u8
  txd_status :: u8
  txd_data :: "u8 list"

record 'h nic =
  n_vmm :: vmm
  e1000_mmio :: bool
  regs :: "nat \<Rightarrow> u32"
  e1000_mac :: "u8 list"
  dma_next :: u64
  rx_ring :: "rx_desc list"
  tx_ring :: "tx_desc list"
  rx_buf_phys :: "nat list"
  tx_buf_phys :: "nat list"
  rx_buf_virt :: "u64 list"
  tx_buf_virt :: "u64 list"
  rx_cur :: nat
  tx_cur :: nat
  tick_count :: nat
  stack_junk :: "nat \<Rightarrow> u8"
  card :: 'h

abbreviation (input) RXD_STAT_DD :: u8 where "RXD_STAT_DD \<equiv> 1"
abbreviation (input) TXD_STAT_DD :: u8 where "TXD_STAT_DD \<equiv> 1"
abbreviation (input) NUM_RX_DESC :: nat where "NUM_RX_DESC \<equiv> 256"
abbreviation (input) NUM_TX_DESC :: nat where "NUM_TX_DESC \<equiv> 32"
abbreviation (input) RX_BUF_SIZE :: nat where "RX_BUF_SIZE \<equiv> 2048"
abbreviation (input) TX_BUF_SIZE :: nat where "TX_BUF_SIZE \<equiv> 2048"
abbreviation (input) DMA_VIRT_BASE :: u64 where "DMA_VIRT_BASE \<equiv> 0xFFFFFFFF82000000"
abbreviation (input) E1000_MMIO_VIRT_BASE :: u64 where "E1000_MMIO_VIRT_BASE \<equiv> 0xFFFFFFFF81000000"

definition e1000_read :: "'h nic \<Rightarrow> nat \<Rightarrow> u32" where
  "e1000_read nic reg = regs nic reg"

definition e1000_write :: "nat \<Rightarrow> u32 \<Rightarrow> 'h nic \<Rightarrow> 'h nic" where
  "e1000_write reg v nic = nic\<lparr>regs := (regs nic)(reg := v)\<rparr>"

section \<open>Set-up\<close>

fun map_mmio_pages :: "u64 \<Rightarrow> nat list \<Rightarrow> vmm \<Rightarrow> bool \<times> vmm" where
  "map_mmio_pages phys [] vm = (True, vm)"
| "map_mmio_pages phys (i # is') vm =
     (let off = of_nat (u32_mul i 4096);
          (r, vm1) = vmm_map vm (E1000_MMIO_VIRT_BASE + off) (phys + off) (VMM_PRESENT OR VMM_WRITE)
      in if r = 0 then (False, vm1) else map_mmio_pages phys is' vm1)"

definition e1000_map_mmio :: "'h nic \<Rightarrow> u64 \<Rightarrow> bool \<times> 'h nic" where
  "e1000_map_mmio nic phys =
     (let (ok, vm) = map_mmio_pages phys [0..<32] (n_vmm nic)
      in if ok then (True, nic\<lparr>n_vmm := vm, e1000_mmio := True\<rparr>) else (False, nic\<lparr>n_vmm := vm\<rparr>))"

text \<open>The virtual address (0 for failure) and the physical address of a fresh page.\<close>

definition dma_alloc_page :: "'h nic \<Rightarrow> (u64 \<times> nat) \<times> 'h nic" where
  "dma_alloc_page nic =
     (let (phys, pm) = pmm_alloc (v_pmm (n_vmm nic)); nic1 = nic\<lparr>n_vmm := (n_vmm nic)\<lparr>v_pmm := pm\<rparr>\<rparr>
      in if phys = 0 then ((0, 0), nic1)
         else let virt = DMA_VIRT_BASE + dma_next nic;
                  (r, vm) = vmm_map (n_vmm nic1) virt (of_nat phys) (VMM_PRESENT OR VMM_WRITE);
                  nic2 = nic1\<lparr>n_vmm := vm\<rparr>
              in if r = 0 then ((0, 0), nic2)
                 else ((virt, phys), nic2\<lparr>dma_next := dma_next nic + 4096\<rparr>))"

text \<open>The descriptor fields the code sets for a buffer at physical address \<open>p\<close>; the page is
  zeroed.\<close>

definition set_rx :: "nat \<Rightarrow> u64 \<Rightarrow> nat \<Rightarrow> 'h nic \<Rightarrow> 'h nic" where
  "set_rx i v p nic = nic\<lparr>rx_buf_virt := (rx_buf_virt nic)[i := v], rx_buf_phys := (rx_buf_phys nic)[i := p],
     rx_ring := (rx_ring nic)[i := (rx_ring nic ! i)
       \<lparr>rxd_addr := of_nat p, rxd_status := 0, rxd_data := replicate RX_BUF_SIZE 0\<rparr>]\<rparr>"

definition set_tx :: "nat \<Rightarrow> u64 \<Rightarrow> nat \<Rightarrow> 'h nic \<Rightarrow> 'h nic" where
  "set_tx i v p nic = nic\<lparr>tx_buf_virt := (tx_buf_virt nic)[i := v], tx_buf_phys := (tx_buf_phys nic)[i := p],
     tx_ring := (tx_ring nic)[i := (tx_ring nic ! i)
       \<lparr>txd_addr := of_nat p, txd_status := TXD_STAT_DD, txd_cmd := 0, txd_data := replicate TX_BUF_SIZE 0\<rparr>]\<rparr>"

text \<open>The loop that gives two descriptors to every page; \<open>n\<close> counts the pages still to come.\<close>

fun fill_ring :: "(nat \<Rightarrow> u64 \<Rightarrow> nat \<Rightarrow> 'h nic \<Rightarrow> 'h nic) \<Rightarrow> nat \<Rightarrow> nat \<Rightarrow> 'h nic \<Rightarrow> bool \<times> 'h nic" where
  "fill_ring put i 0 nic = (True, nic)"
| "fill_ring put i (Suc n) nic =
     (let ((v, p), nic1) = dma_alloc_page nic
      in if v = 0 then (False, nic1)
         else fill_ring put (i + 2) n (put (i + 1) (v + 2048) (p + 2048) (put i v p nic1)))"

definition e1000_setup_rx :: "'h nic \<Rightarrow> bool \<times> 'h nic" where
  "e1000_setup_rx nic =
     (let ((ring_virt, ring_phys), nic1) = dma_alloc_page nic
      in if ring_virt = 0 then (False, nic1)
         else let (ok, nic2) = fill_ring set_rx 0 128 (nic1\<lparr>rx_ring :=
                    replicate NUM_RX_DESC \<lparr>rxd_addr = 0, rxd_length = 0, rxd_status = 0, rxd_data = []\<rparr>\<rparr>)
              in if \<not> ok then (False, nic2)
                 else (True, e1000_write 0x0100 0x0400801A
                        (e1000_write 0x2818 (of_nat (NUM_RX_DESC - 1)) (e1000_write 0x2810 0
                          (e1000_write 0x2808 (of_nat (NUM_RX_DESC * 16)) (e1000_write 0x2804 0
                            (e1000_write 0x2800 (of_nat ring_phys) nic2)))))\<lparr>rx_cur := 0\<rparr>))"

definition e1000_setup_tx :: "'h nic \<Rightarrow> bool \<times> 'h nic" where
  "e1000_setup_tx nic =
     (let ((ring_virt, ring_phys), nic1) = dma_alloc_page nic
      in if ring_virt = 0 then (False, nic1)
         else let (ok, nic2) = fill_ring set_tx 0 16 (nic1\<lparr>tx_ring :=
                    replicate NUM_TX_DESC \<lparr>txd_addr = 0, txd_length = 0, txd_cmd = 0, txd_status = 0, txd_data = []\<rparr>\<rparr>)
              in if \<not> ok then (False, nic2)
                 else (True, e1000_write 0x0400 0x000400FA (e1000_write 0x0410 0x0060200A
                        (e1000_write 0x3818 0 (e1000_write 0x3810 0
                          (e1000_write 0x3808 (of_nat (NUM_TX_DESC * 16)) (e1000_write 0x3804 0
                            (e1000_write 0x3800 (of_nat ring_phys) nic2))))))\<lparr>tx_cur := 0\<rparr>))"

definition e1000_read_mac_from_registers :: "'h nic \<Rightarrow> 'h nic" where
  "e1000_read_mac_from_registers nic =
     (let ral = e1000_read nic 0x5400; rah = e1000_read nic 0x5404
      in nic\<lparr>e1000_mac := [ucast ral, ucast (drop_bit 8 ral), ucast (drop_bit 16 ral), ucast (drop_bit 24 ral),
           ucast rah, ucast (drop_bit 8 rah)]\<rparr>)"

text \<open>\<open>dev\<close> is what the PCI layer knows of the card: whether its first base address register
  is an I/O one, and the address in it.\<close>

definition e1000_init :: "(bool \<times> u64) option \<Rightarrow> 'h nic \<Rightarrow> bool \<times> 'h nic" where
  "e1000_init dev nic =
     (case dev of
        None \<Rightarrow> (False, nic)
      | Some (is_io, bar0_phys) \<Rightarrow>
          if is_io \<or> bar0_phys = 0 then (False, nic)
          else let (ok, nic1) = e1000_map_mmio nic bar0_phys
               in if \<not> ok then (False, nic1)
                  else let nic2 = e1000_read_mac_from_registers (e1000_write 0x00D8 0xFFFFFFFF nic1);
                           nic3 = e1000_write 0x0000 (e1000_read nic2 0x0000 OR 0x60) nic2;
                           nic4 = fold (\<lambda>i. e1000_write (0x5200 + i * 4) 0) [0..<128] nic3;
                           (ok1, nic5) = e1000_setup_rx (nic4\<lparr>dma_next := 0\<rparr>)
                       in if \<not> ok1 then (False, nic5) else e1000_setup_tx nic5)"

section \<open>Frames\<close>

definition e1000_get_mac :: "'h nic \<Rightarrow> u8 list" where
  "e1000_get_mac nic = e1000_mac nic"

definition e1000_send :: "('h nic \<Rightarrow> 'h nic) \<Rightarrow> u8 list \<Rightarrow> 'h nic \<Rightarrow> int \<times> 'h nic" where
  "e1000_send hw data nic0 =
     (let nic = hw nic0
      in if \<not> e1000_mmio nic \<or> length data = 0 \<or> length data > TX_BUF_SIZE then (0, nic)
         else let i = tx_cur nic; d = tx_ring nic ! i
              in if txd_status d AND TXD_STAT_DD = 0 then (0, nic)
                 else let cur = (i + 1) mod NUM_TX_DESC
                      in (1, e1000_write 0x3818 (of_nat cur)
                           (nic\<lparr>tx_ring := (tx_ring nic)[i := d\<lparr>txd_data := data @ drop (length data) (txd_data d),
                              txd_length := length data, txd_cmd := 0x0B, txd_status := 0\<rparr>], tx_cur := cur\<rparr>)))"

definition e1000_receive_poll :: "('h nic \<Rightarrow> 'h nic) \<Rightarrow> nat \<Rightarrow> 'h nic \<Rightarrow> u8 list \<times> 'h nic" where
  "e1000_receive_poll hw max_len nic0 =
     (let nic = hw nic0
      in if \<not> e1000_mmio nic then ([], nic)
         else let i = rx_cur nic; d = rx_ring nic ! i
              in if rxd_status d AND RXD_STAT_DD = 0 then ([], nic)
                 else let len = (if rxd_length d > max_len then max_len else rxd_length d)
                      in (take len (rxd_data d),
                          (e1000_write 0x2818 (of_nat i)
                            (nic\<lparr>rx_ring := (rx_ring nic)[i := d\<lparr>rxd_status := 0\<rparr>]\<rparr>))\<lparr>rx_cur := (i + 1) mod NUM_RX_DESC\<rparr>))"

section \<open>Time\<close>

text \<open>The timer runs at 100 Hz, so a tick is 10 ms; the millisecond counter is 32 bits wide.
  Sleeping waits for the first tick at or after the target.\<close>

definition pit_millis :: "'h nic \<Rightarrow> nat" where
  "pit_millis nic = u32_mul (tick_count nic) 10"

definition pit_sleep :: "nat \<Rightarrow> 'h nic \<Rightarrow> 'h nic" where
  "pit_sleep ms nic =
     (let now = pit_millis nic; target = u32_add now ms
      in if now < target then nic\<lparr>tick_count := tick_count nic + (target - now + 9) div 10\<rparr> else nic)"

section \<open>Contract with the card\<close>

definition rings_ok :: "'h nic \<Rightarrow> bool" where
  "rings_ok nic \<longleftrightarrow> length (rx_ring nic) = NUM_RX_DESC \<and> length (tx_ring nic) = NUM_TX_DESC \<and>
     rx_cur nic < NUM_RX_DESC \<and> tx_cur nic < NUM_TX_DESC"

text \<open>Every frame the card has handed over and the driver not yet fetched satisfies \<open>P\<close>.\<close>

definition all_frames :: "(u8 list \<Rightarrow> bool) \<Rightarrow> 'h nic \<Rightarrow> bool" where
  "all_frames P nic \<longleftrightarrow> rings_ok nic \<and>
     (\<forall>d \<in> set (rx_ring nic). rxd_status d AND RXD_STAT_DD \<noteq> 0 \<longrightarrow> P (take (rxd_length d) (rxd_data d)))"

definition card_ok :: "(u8 list \<Rightarrow> bool) \<Rightarrow> ('h nic \<Rightarrow> 'h nic) \<Rightarrow> bool" where
  "card_ok P hw \<longleftrightarrow> (\<forall>nic. all_frames P nic \<longrightarrow> all_frames P (hw nic) \<and> e1000_mac (hw nic) = e1000_mac nic)"

lemma all_frames_update:
  assumes "all_frames P nic" "j < NUM_RX_DESC" "i < length (rx_ring nic)"
  shows "all_frames P (nic\<lparr>rx_ring := (rx_ring nic)[i := d\<lparr>rxd_status := 0\<rparr>], regs := r, rx_cur := j\<rparr>)"
  using assms set_update_subset_insert [of "rx_ring nic" i "d\<lparr>rxd_status := 0\<rparr>"]
  by (auto simp: all_frames_def rings_ok_def)

lemma e1000_poll_frames:
  assumes "card_ok P hw" "all_frames P nic" "e1000_receive_poll hw n nic = (b, nic')"
  shows "all_frames P nic' \<and> e1000_mac nic' = e1000_mac nic \<and> (b = [] \<or> (\<exists>f. P f \<and> b = take n f))"
proof -
  have h: "all_frames P (hw nic)" "e1000_mac (hw nic) = e1000_mac nic" using assms(1,2) by (auto simp: card_ok_def)
  let ?i = "rx_cur (hw nic)" let ?d = "rx_ring (hw nic) ! ?i"
  have i: "?i < length (rx_ring (hw nic))" using h by (simp add: all_frames_def rings_ok_def)
  then have d: "?d \<in> set (rx_ring (hw nic))" by (rule nth_mem)
  show ?thesis
  proof (cases "e1000_mmio (hw nic) \<and> rxd_status ?d AND RXD_STAT_DD \<noteq> 0")
    case True
    then have "P (take (rxd_length ?d) (rxd_data ?d))" using h d by (auto simp: all_frames_def)
    moreover have "b = take n (take (rxd_length ?d) (rxd_data ?d))"
      using assms(3) True by (auto simp: e1000_receive_poll_def Let_def min_def)
    moreover have "all_frames P nic'" "e1000_mac nic' = e1000_mac (hw nic)"
      using assms(3) True all_frames_update [OF h(1) _ i, of "(?i + 1) mod NUM_RX_DESC"]
      by (auto simp: e1000_receive_poll_def Let_def e1000_write_def)
    ultimately show ?thesis using h(2) by auto
  next
    case False
    then show ?thesis using assms(3) h by (auto simp: e1000_receive_poll_def Let_def split: if_splits)
  qed
qed

lemma e1000_send_frames:
  assumes "card_ok P hw" "all_frames P nic" "e1000_send hw data nic = (r, nic')"
  shows "all_frames P nic' \<and> e1000_mac nic' = e1000_mac nic"
proof -
  have "all_frames P (hw nic)" "e1000_mac (hw nic) = e1000_mac nic" using assms(1,2) by (auto simp: card_ok_def)
  then show ?thesis
    using assms(3) by (auto simp: e1000_send_def Let_def e1000_write_def all_frames_def rings_ok_def split: if_splits)
qed

lemma pit_sleep_frames [simp]:
  "all_frames P (pit_sleep ms nic) = all_frames P nic" "e1000_mac (pit_sleep ms nic) = e1000_mac nic"
  by (simp_all add: pit_sleep_def Let_def all_frames_def rings_ok_def)

end
