(* ===== verification/Net.thy ===== *)
theory Net
  imports E1000
begin

text \<open>
  \<open>src/arp.c\<close> and \<open>src/net.c\<close>: ARP, ICMP echo, UDP and a DNS client over the driver.
  A frame is built as the concatenation of the images of its headers; the bytes of a
  receive buffer behind the received frame are whatever the stack held.  The messages
  printed by \<open>ping\<close> are left out.
\<close>

section \<open>Receive buffers\<close>

definition rx_buffer :: "'h nic \<Rightarrow> u8 list \<Rightarrow> u8 list" where
  "rx_buffer nic b = b @ map (stack_junk nic) [length b..<1600]"

section \<open>ARP\<close>

record arp_pkt =
  htype :: u16
  ptype :: u16
  hlen :: u8
  plen :: u8
  oper :: u16
  sha :: "u8 list"
  spa :: "u8 list"
  tha :: "u8 list"
  tpa :: "u8 list"

definition arp_image :: "arp_pkt \<Rightarrow> u8 list" where
  "arp_image a = image16 (htype a) @ image16 (ptype a) @ [hlen a, plen a] @ image16 (oper a) @
     sha a @ spa a @ tha a @ tpa a"

definition arp_of :: "u8 list \<Rightarrow> arp_pkt" where
  "arp_of b = \<lparr>htype = get16 b 0, ptype = get16 b 2, hlen = b ! 4, plen = b ! 5, oper = get16 b 6,
     sha = take 6 (drop 8 b), spa = take 4 (drop 14 b), tha = take 6 (drop 18 b), tpa = take 4 (drop 24 b)\<rparr>"

definition ip_to_bytes :: "u32 \<Rightarrow> u8 list" where
  "ip_to_bytes ip = [ucast (drop_bit 24 ip), ucast (drop_bit 16 ip), ucast (drop_bit 8 ip), ucast ip]"

definition bytes_to_ip :: "u8 list \<Rightarrow> u32" where
  "bytes_to_ip b = push_bit 24 (ucast (b ! 0)) OR push_bit 16 (ucast (b ! 1)) OR
     push_bit 8 (ucast (b ! 2)) OR ucast (b ! 3)"

definition arp_frame :: "u8 list \<Rightarrow> u32 \<Rightarrow> u8 list" where
  "arp_frame mac target_ip =
     eth_image \<lparr>eth_dst = replicate 6 0xFF, eth_src = mac, ethertype = htons 0x0806\<rparr> @
     arp_image \<lparr>htype = htons 1, ptype = htons 0x0800, hlen = 6, plen = 4, oper = htons 1, sha = mac,
       spa = ip_to_bytes NET_OUR_IP, tha = replicate 6 0, tpa = ip_to_bytes target_ip\<rparr>"

definition arp_request :: "('h nic \<Rightarrow> 'h nic) \<Rightarrow> u32 \<Rightarrow> 'h nic \<Rightarrow> int \<times> 'h nic" where
  "arp_request hw target_ip nic = e1000_send hw (arp_frame (e1000_get_mac nic) target_ip) nic"

definition arp_poll_reply :: "('h nic \<Rightarrow> 'h nic) \<Rightarrow> 'h nic \<Rightarrow> (u8 list \<times> u32) option \<times> 'h nic" where
  "arp_poll_reply hw nic0 =
     (let (b, nic) = e1000_receive_poll hw 1600 nic0
      in if length b < 42 then (None, nic)
         else if ethertype (eth_of b) \<noteq> htons 0x0806 then (None, nic)
         else let a = arp_of (drop 14 b)
              in if oper a \<noteq> htons 2 then (None, nic) else (Some (sha a, bytes_to_ip (spa a)), nic))"

text \<open>The wait for the reply; \<open>t\<close> polls are left.\<close>

fun await_arp :: "('h nic \<Rightarrow> 'h nic) \<Rightarrow> nat \<Rightarrow> 'h nic \<Rightarrow> u8 list option \<times> 'h nic" where
  "await_arp hw 0 nic = (None, nic)"
| "await_arp hw (Suc t) nic =
     (case arp_poll_reply hw nic of
        (Some (mac, _), nic1) \<Rightarrow> (Some mac, nic1)
      | (None, nic1) \<Rightarrow> await_arp hw t (pit_sleep 10 nic1))"

definition resolve_gateway_mac :: "('h nic \<Rightarrow> 'h nic) \<Rightarrow> 'h nic \<Rightarrow> u8 list option \<times> 'h nic" where
  "resolve_gateway_mac hw nic =
     (let (r, nic1) = arp_request hw NET_GATEWAY nic
      in if r = 0 then (None, nic1) else await_arp hw 200 nic1)"

section \<open>ICMP echo\<close>

record icmp_hdr =
  icmp_type :: u8
  icmp_code :: u8
  icmp_checksum :: u16
  icmp_id :: u16
  icmp_seq :: u16

definition icmp_image :: "icmp_hdr \<Rightarrow> u8 list" where
  "icmp_image h = [icmp_type h, icmp_code h] @ image16 (icmp_checksum h) @ image16 (icmp_id h) @ image16 (icmp_seq h)"

definition icmp_of :: "u8 list \<Rightarrow> icmp_hdr" where
  "icmp_of b = \<lparr>icmp_type = b ! 0, icmp_code = b ! 1, icmp_checksum = get16 b 2, icmp_id = get16 b 4, icmp_seq = get16 b 6\<rparr>"

definition eth_to :: "u8 list \<Rightarrow> u8 list \<Rightarrow> u8 list" where
  "eth_to dst_mac our_mac = eth_image \<lparr>eth_dst = dst_mac, eth_src = our_mac, ethertype = htons ETHERTYPE_IPV4\<rparr>"

definition echo_frame :: "u8 list \<Rightarrow> u8 list \<Rightarrow> u32 \<Rightarrow> u16 \<Rightarrow> u16 \<Rightarrow> u8 list" where
  "echo_frame our_mac dst_mac dip ident seq =
     (let payload = map (\<lambda>i. of_nat (0x61 + i mod 26)) [0..<32];
          icmp = \<lparr>icmp_type = 8, icmp_code = 0, icmp_checksum = 0, icmp_id = htons ident, icmp_seq = htons seq\<rparr>;
          sum16 = checksum16 (icmp_image icmp @ payload)
      in eth_to dst_mac our_mac @ ip_image (ip_header 60 ident 0 1 dip) @
         icmp_image (icmp\<lparr>icmp_checksum := htons sum16\<rparr>) @ payload)"

definition send_echo :: "('h nic \<Rightarrow> 'h nic) \<Rightarrow> u8 list \<Rightarrow> u32 \<Rightarrow> u16 \<Rightarrow> u16 \<Rightarrow> 'h nic \<Rightarrow> int \<times> 'h nic" where
  "send_echo hw dst_mac dip ident seq nic =
     e1000_send hw (echo_frame (e1000_get_mac nic) dst_mac dip ident seq) nic"

definition ip_ihl :: "ip_hdr \<Rightarrow> nat" where
  "ip_ihl h = unat (ver_ihl h AND 0x0F) * 4"

definition is_echo_reply :: "u8 list \<Rightarrow> u16 \<Rightarrow> u16 \<Rightarrow> bool" where
  "is_echo_reply buf ident seq \<longleftrightarrow>
     (let ip = ip_of (drop 14 buf); icmp = icmp_of (drop (14 + ip_ihl ip) buf)
      in ethertype (eth_of buf) = htons ETHERTYPE_IPV4 \<and> drop_bit 4 (ver_ihl ip) = 4 \<and> protocol ip = 1 \<and>
         icmp_type icmp = 0 \<and> ntohs (icmp_id icmp) = ident \<and> ntohs (icmp_seq icmp) = seq)"

definition poll_echo_reply :: "('h nic \<Rightarrow> 'h nic) \<Rightarrow> u16 \<Rightarrow> u16 \<Rightarrow> 'h nic \<Rightarrow> bool \<times> 'h nic" where
  "poll_echo_reply hw ident seq nic0 =
     (let (b, nic) = e1000_receive_poll hw 1600 nic0
      in (length b \<ge> 42 \<and> is_echo_reply (rx_buffer nic b) ident seq, nic))"

text \<open>The wait for one reply ends by the clock, so it need not end if the clock stands still.\<close>

partial_function (option) echo_wait ::
  "('h nic \<Rightarrow> 'h nic) \<Rightarrow> nat \<Rightarrow> nat \<Rightarrow> u16 \<Rightarrow> u16 \<Rightarrow> 'h nic \<Rightarrow> (bool \<times> 'h nic) option" where
  "echo_wait hw t0 timeout_ms ident seq nic =
     (if u32_sub (pit_millis nic) t0 < timeout_ms
      then (let (got, nic1) = poll_echo_reply hw ident seq nic
            in if got then Some (True, nic1)
               else echo_wait hw t0 timeout_ms ident seq (pit_sleep 1 nic1))
      else Some (False, nic))"

fun ping_probes ::
  "('h nic \<Rightarrow> 'h nic) \<Rightarrow> u8 list \<Rightarrow> u32 \<Rightarrow> nat \<Rightarrow> nat list \<Rightarrow> nat \<Rightarrow> 'h nic \<Rightarrow> (nat \<times> 'h nic) option" where
  "ping_probes hw gw_mac dip timeout_ms [] replies nic = Some (replies, nic)"
| "ping_probes hw gw_mac dip timeout_ms (i # is') replies nic =
     (let t0 = pit_millis nic; (r, nic1) = send_echo hw gw_mac dip 0x1234 (of_nat i) nic
      in if r = 0 then ping_probes hw gw_mac dip timeout_ms is' replies nic1
         else case echo_wait hw t0 timeout_ms 0x1234 (of_nat i) nic1 of
                None \<Rightarrow> None
              | Some (got, nic2) \<Rightarrow>
                  ping_probes hw gw_mac dip timeout_ms is' (if got then replies + 1 else replies) (pit_sleep 200 nic2))"

definition ping :: "('h nic \<Rightarrow> 'h nic) \<Rightarrow> u32 \<Rightarrow> nat \<Rightarrow> nat \<Rightarrow> 'h nic \<Rightarrow> (int \<times> 'h nic) option" where
  "ping hw dip count timeout_ms nic =
     (let (r, nic1) = arp_request hw NET_GATEWAY nic
      in if r = 0 then Some (-1, nic1)
         else case await_arp hw 200 nic1 of
                (None, nic2) \<Rightarrow> Some (-1, nic2)
              | (Some gw_mac, nic2) \<Rightarrow>
                  map_option (\<lambda>(replies, nic3). (int replies, nic3))
                    (ping_probes hw gw_mac dip timeout_ms [0..<count] 0 nic2))"

section \<open>UDP\<close>

record udp_hdr =
  udp_src :: u16
  udp_dst :: u16
  udp_length :: u16
  udp_checksum :: u16

definition udp_image :: "udp_hdr \<Rightarrow> u8 list" where
  "udp_image h = image16 (udp_src h) @ image16 (udp_dst h) @ image16 (udp_length h) @ image16 (udp_checksum h)"

definition udp_of :: "u8 list \<Rightarrow> udp_hdr" where
  "udp_of b = \<lparr>udp_src = get16 b 0, udp_dst = get16 b 2, udp_length = get16 b 4, udp_checksum = get16 b 6\<rparr>"

definition udp_frame :: "u8 list \<Rightarrow> u8 list \<Rightarrow> u32 \<Rightarrow> u16 \<Rightarrow> u16 \<Rightarrow> u8 list \<Rightarrow> u8 list" where
  "udp_frame our_mac dst_mac dip sport dport payload =
     (let udp_len = 8 + length payload
      in eth_to dst_mac our_mac @ ip_image (ip_header (20 + udp_len) 0x4321 0 17 dip) @
         udp_image \<lparr>udp_src = htons sport, udp_dst = htons dport, udp_length = htons (of_nat udp_len), udp_checksum = 0\<rparr> @
         payload)"

definition send_udp :: "('h nic \<Rightarrow> 'h nic) \<Rightarrow> u8 list \<Rightarrow> u32 \<Rightarrow> u16 \<Rightarrow> u16 \<Rightarrow> u8 list \<Rightarrow> 'h nic \<Rightarrow> int \<times> 'h nic" where
  "send_udp hw dst_mac dip sport dport payload nic =
     (if length payload > 512 then (0, nic)
      else e1000_send hw (udp_frame (e1000_get_mac nic) dst_mac dip sport dport payload) nic)"

definition udp_body :: "u8 list \<Rightarrow> u16 \<Rightarrow> nat \<Rightarrow> u8 list" where
  "udp_body buf our_port max_len =
     (let ip = ip_of (drop 14 buf); ihl = ip_ihl ip; udp = udp_of (drop (14 + ihl) buf);
          body_len = unat (ntohs (udp_length udp))
      in if ethertype (eth_of buf) \<noteq> htons ETHERTYPE_IPV4 then []
         else if drop_bit 4 (ver_ihl ip) \<noteq> 4 \<or> protocol ip \<noteq> 17 then []
         else if ntohs (udp_dst udp) \<noteq> our_port then []
         else if body_len < 8 then []
         else take (min (body_len - 8) max_len) (drop (14 + ihl + 8) buf))"

definition poll_udp :: "('h nic \<Rightarrow> 'h nic) \<Rightarrow> u16 \<Rightarrow> nat \<Rightarrow> 'h nic \<Rightarrow> u8 list \<times> 'h nic" where
  "poll_udp hw our_port max_len nic0 =
     (let (b, nic) = e1000_receive_poll hw 1600 nic0
      in (if length b < 42 then [] else udp_body (rx_buffer nic b) our_port max_len, nic))"

section \<open>DNS\<close>

record dns_hdr =
  dns_id :: u16
  dns_flags :: u16
  qdcount :: u16
  ancount :: u16
  nscount :: u16
  arcount :: u16

definition dns_image :: "dns_hdr \<Rightarrow> u8 list" where
  "dns_image h = image16 (dns_id h) @ image16 (dns_flags h) @ image16 (qdcount h) @ image16 (ancount h) @
     image16 (nscount h) @ image16 (arcount h)"

definition dns_of :: "u8 list \<Rightarrow> dns_hdr" where
  "dns_of b = \<lparr>dns_id = get16 b 0, dns_flags = get16 b 2, qdcount = get16 b 4, ancount = get16 b 6,
     nscount = get16 b 8, arcount = get16 b 10\<rparr>"

text \<open>\<open>out\<close> holds the bytes written so far; \<open>0x2E\<close> is the dot.\<close>

function encode_labels :: "u8 list \<Rightarrow> u8 list \<Rightarrow> nat \<Rightarrow> u8 list option" where
  "encode_labels p out max_len =
     (if p = [] then Some out
      else let seg = takeWhile (\<lambda>c. c \<noteq> 0x2E) p; rest = dropWhile (\<lambda>c. c \<noteq> 0x2E) p
           in if length seg = 0 \<or> length seg > 63 then None
              else if length out + 1 + length seg \<ge> max_len then None
              else encode_labels (if rest = [] then [] else tl rest) (out @ of_nat (length seg) # seg) max_len)"
  by pat_completeness auto

termination
proof (relation "measure (\<lambda>(p, _, _). length p)")
  fix p out max_len seg rest
  assume "p \<noteq> []" and seg: "seg = takeWhile (\<lambda>c. c \<noteq> (0x2E :: u8)) p" and rest: "rest = dropWhile (\<lambda>c. c \<noteq> 0x2E) p"
    and "\<not> (length seg = 0 \<or> 63 < length seg)"
  moreover have "length p = length seg + length rest" unfolding seg rest by (metis length_append takeWhile_dropWhile_id)
  ultimately have "length rest < length p" by simp
  then show "((if rest = [] then [] else tl rest, out @ of_nat (length seg) # seg, max_len), p, out, max_len)
      \<in> measure (\<lambda>(p, _, _). length p)" by auto
qed simp

declare encode_labels.simps [simp del]

definition dns_encode_name :: "u8 list \<Rightarrow> nat \<Rightarrow> u8 list option" where
  "dns_encode_name host max_len =
     (case encode_labels host [] max_len of
        None \<Rightarrow> None
      | Some out \<Rightarrow> if length out + 1 > max_len then None else Some (out @ [0]))"

function dns_skip_name :: "u8 list \<Rightarrow> nat \<Rightarrow> nat \<Rightarrow> nat" where
  "dns_skip_name buf off len =
     (if off < len
      then let b = buf ! off
           in if b = 0 then off + 1
              else if b AND 0xC0 = 0xC0 then off + 2
              else dns_skip_name buf (off + 1 + unat b) len
      else off)"
  by pat_completeness auto

termination
  by (relation "measure (\<lambda>(_, off, len). len - off)") auto

declare dns_skip_name.simps [simp del]

definition dns_query :: "u8 list \<Rightarrow> u8 list option" where
  "dns_query hostname =
     map_option (\<lambda>name. dns_image \<lparr>dns_id = htons 0xABCD, dns_flags = htons 0x0100, qdcount = htons 1,
         ancount = 0, nscount = 0, arcount = 0\<rparr> @ name @ [0, 1, 0, 1])
       (dns_encode_name hostname (512 - 12 - 4))"

definition be16 :: "u8 list \<Rightarrow> nat \<Rightarrow> nat" where
  "be16 b i = 256 * unat (b ! i) + unat (b ! (i + 1))"

fun dns_answers :: "u8 list \<Rightarrow> nat \<Rightarrow> nat \<Rightarrow> u32 option" where
  "dns_answers resp off 0 = None"
| "dns_answers resp off (Suc a) =
     (let rlen = length resp
      in if off + 10 > rlen then None
         else let off = dns_skip_name resp off rlen
              in if off + 10 > rlen then None
                 else let type = be16 resp off; rdlen = be16 resp (off + 8); rdata = off + 10
                      in if type = 1 \<and> rdlen = 4 \<and> rdata + 4 \<le> rlen then Some (bytes_to_ip (drop rdata resp))
                         else dns_answers resp (rdata + rdlen) a)"

definition dns_parse :: "u8 list \<Rightarrow> u32 option" where
  "dns_parse resp =
     (if length resp < 12 then None
      else let answers = unat (ntohs (ancount (dns_of resp)))
           in if answers = 0 then None
              else dns_answers resp (dns_skip_name resp 12 (length resp) + 4) answers)"

fun await_udp :: "('h nic \<Rightarrow> 'h nic) \<Rightarrow> u16 \<Rightarrow> nat \<Rightarrow> 'h nic \<Rightarrow> u8 list \<times> 'h nic" where
  "await_udp hw sport 0 nic = ([], nic)"
| "await_udp hw sport (Suc t) nic =
     (let (resp, nic1) = poll_udp hw sport 1500 nic
      in if resp \<noteq> [] then (resp, nic1) else await_udp hw sport t (pit_sleep 10 nic1))"

definition dns_resolve :: "('h nic \<Rightarrow> 'h nic) \<Rightarrow> u8 list \<Rightarrow> 'h nic \<Rightarrow> u32 option \<times> 'h nic" where
  "dns_resolve hw hostname nic =
     (case resolve_gateway_mac hw nic of
        (None, nic1) \<Rightarrow> (None, nic1)
      | (Some gw_mac, nic1) \<Rightarrow>
          (case dns_query hostname of
             None \<Rightarrow> (None, nic1)
           | Some query \<Rightarrow>
               let (r, nic2) = send_udp hw gw_mac NET_DNS 0xC000 53 query nic1
               in if r = 0 then (None, nic2)
                  else let (resp, nic3) = await_udp hw 0xC000 200 nic2 in (dns_parse resp, nic3)))"

end
