(* ===== verification/Tcp.thy ===== *)
theory Tcp
  imports Net
begin

text \<open>
  \<open>src/tcp.c\<close>: the TCP client with its single connection slot.  The network state is the
  driver state with the connection and the static receive buffer.  A byte read behind
  the end of the receive buffer, which the code does not exclude, is an unspecified byte.
  The waiting time of \<open>tcp_recv\<close> is counted without the 32-bit wrap, which a timeout
  below \<open>2 ^ 32 - 5\<close> does not reach.  Messages are left out.
\<close>

section \<open>Segments\<close>

record tcp_hdr =
  tcp_src :: u16
  tcp_dst :: u16
  tcp_seq :: u32
  tcp_ack :: u32
  data_off :: u8
  tcp_flags :: u8
  window :: u16
  tcp_sum :: u16
  urgent :: u16

abbreviation (input) TCP_FIN :: u8 where "TCP_FIN \<equiv> 0x01"
abbreviation (input) TCP_SYN :: u8 where "TCP_SYN \<equiv> 0x02"
abbreviation (input) TCP_RST :: u8 where "TCP_RST \<equiv> 0x04"
abbreviation (input) TCP_PSH :: u8 where "TCP_PSH \<equiv> 0x08"
abbreviation (input) TCP_ACK :: u8 where "TCP_ACK \<equiv> 0x10"

record tcp_conn =
  used :: bool
  c_dst_ip :: u32
  dst_port :: u16
  src_port :: u16
  snd_nxt :: u32
  rcv_nxt :: u32
  gw_mac :: "u8 list"
  peer_fin :: bool
  recv_started :: bool
  rx_buf :: "u8 list"
  rx_len :: nat
  rx_pos :: nat

record 'h net =
  t_nic :: "'h nic"
  g_conn :: tcp_conn
  g_rxbuf :: "u8 list"

abbreviation (input) RX_BUF_LEN :: nat where "RX_BUF_LEN \<equiv> 524288"

definition tcp_image :: "tcp_hdr \<Rightarrow> u8 list" where
  "tcp_image h = image16 (tcp_src h) @ image16 (tcp_dst h) @ image32 (tcp_seq h) @ image32 (tcp_ack h) @
     [data_off h, tcp_flags h] @ image16 (window h) @ image16 (tcp_sum h) @ image16 (urgent h)"

definition tcp_of :: "u8 list \<Rightarrow> tcp_hdr" where
  "tcp_of b = \<lparr>tcp_src = get16 b 0, tcp_dst = get16 b 2, tcp_seq = get32 b 4, tcp_ack = get32 b 8,
     data_off = b ! 12, tcp_flags = b ! 13, window = get16 b 14, tcp_sum = get16 b 16, urgent = get16 b 18\<rparr>"

definition tcp_checksum :: "u32 \<Rightarrow> u32 \<Rightarrow> u8 list \<Rightarrow> u16" where
  "tcp_checksum src_net dst_net seg =
     (if length seg > 1500 then 0
      else let buf = image32 src_net @ image32 dst_net @ [0, IP_PROTO_TCP] @ image16 (htons (of_nat (length seg))) @ seg
           in checksum16 (if odd (length buf) then buf @ [0] else buf))"

definition tcp_header :: "tcp_conn \<Rightarrow> u8 \<Rightarrow> tcp_hdr" where
  "tcp_header c flags = \<lparr>tcp_src = htons (src_port c), tcp_dst = htons (dst_port c), tcp_seq = htonl (snd_nxt c),
     tcp_ack = htonl (rcv_nxt c), data_off = 0x50, tcp_flags = flags, window = htons (2 * 1460), tcp_sum = 0, urgent = 0\<rparr>"

definition tcp_frame :: "u8 list \<Rightarrow> tcp_conn \<Rightarrow> u8 \<Rightarrow> u8 list \<Rightarrow> u8 list" where
  "tcp_frame our_mac c flags payload =
     (let ip = ip_header (40 + length payload) 0x5555 (htons 0x4000) IP_PROTO_TCP (c_dst_ip c);
          tcp = tcp_header c flags;
          sum16 = tcp_checksum (src_ip ip) (dst_ip ip) (tcp_image tcp @ payload)
      in eth_to (gw_mac c) our_mac @ ip_image ip @ tcp_image (tcp\<lparr>tcp_sum := htons sum16\<rparr>) @ payload)"

definition tcp_send_segment :: "('h nic \<Rightarrow> 'h nic) \<Rightarrow> u8 \<Rightarrow> u8 list \<Rightarrow> 'h net \<Rightarrow> int \<times> 'h net" where
  "tcp_send_segment hw flags payload st =
     (if length payload > 1460 then (0, st)
      else let (r, nic) = e1000_send hw (tcp_frame (e1000_get_mac (t_nic st)) (g_conn st) flags payload) (t_nic st)
           in (r, st\<lparr>t_nic := nic\<rparr>))"

record segment =
  sg_flags :: u8
  sg_seq :: u32
  sg_ack :: u32
  sg_off :: nat
  sg_plen :: nat

definition tcp_match :: "tcp_conn \<Rightarrow> u8 list \<Rightarrow> segment option" where
  "tcp_match c buf =
     (let ip = ip_of (drop 14 buf); ihl = ip_ihl ip; tcp = tcp_of (drop (14 + ihl) buf)
      in if ethertype (eth_of buf) \<noteq> htons ETHERTYPE_IPV4 then None
         else if drop_bit 4 (ver_ihl ip) \<noteq> 4 \<or> protocol ip \<noteq> IP_PROTO_TCP then None
         else if ntohs (tcp_dst tcp) \<noteq> src_port c then None
         else if ntohs (tcp_src tcp) \<noteq> dst_port c then None
         else let tcp_hlen = unat (drop_bit 4 (data_off tcp)) * 4; ip_total = unat (ntohs (total_len ip))
              in Some \<lparr>sg_flags = tcp_flags tcp, sg_seq = ntohl (tcp_seq tcp), sg_ack = ntohl (tcp_ack tcp),
                       sg_off = 14 + ihl + tcp_hlen, sg_plen = u32_sub (u32_sub ip_total ihl) tcp_hlen\<rparr>)"

definition tcp_poll_segment :: "('h nic \<Rightarrow> 'h nic) \<Rightarrow> 'h net \<Rightarrow> segment option \<times> 'h net" where
  "tcp_poll_segment hw st =
     (let (b, nic) = e1000_receive_poll hw 1600 (t_nic st); buf = b @ drop (length b) (g_rxbuf st);
          st1 = st\<lparr>t_nic := nic, g_rxbuf := buf\<rparr>
      in (if length b < 54 then None else tcp_match (g_conn st) buf, st1))"

text \<open>The result \<open>r >= 0\<close> of a poll that matched, and \<open>n\<close> bytes of the payload.\<close>

definition seg_ready :: "segment \<Rightarrow> bool" where
  "seg_ready sg \<longleftrightarrow> to_int (sg_plen sg) \<ge> 0"

definition seg_bytes :: "'h net \<Rightarrow> segment \<Rightarrow> nat \<Rightarrow> nat \<Rightarrow> u8 list" where
  "seg_bytes st sg i n = map (\<lambda>k. g_rxbuf st ! (sg_off sg + k)) [i..<i + n]"

definition flag :: "segment \<Rightarrow> u8 \<Rightarrow> bool" where
  "flag sg f \<longleftrightarrow> sg_flags sg AND f \<noteq> 0"

section \<open>Connection set-up\<close>

datatype synack = Refused | Established | Timed_out

fun await_synack :: "('h nic \<Rightarrow> 'h nic) \<Rightarrow> nat \<Rightarrow> 'h net \<Rightarrow> synack \<times> 'h net" where
  "await_synack hw 0 st = (Timed_out, st)"
| "await_synack hw (Suc t) st =
     (case tcp_poll_segment hw st of
        (None, st1) \<Rightarrow> await_synack hw t (st1\<lparr>t_nic := pit_sleep 10 (t_nic st1)\<rparr>)
      | (Some sg, st1) \<Rightarrow>
          if seg_ready sg \<and> flag sg TCP_RST then (Refused, st1)
          else if seg_ready sg \<and> flag sg TCP_SYN \<and> flag sg TCP_ACK
          then (Established, st1\<lparr>g_conn := (g_conn st1)\<lparr>rcv_nxt := sg_seq sg + 1\<rparr>\<rparr>)
          else await_synack hw t (st1\<lparr>t_nic := pit_sleep 10 (t_nic st1)\<rparr>))"

definition tcp_connect :: "('h nic \<Rightarrow> 'h nic) \<Rightarrow> u32 \<Rightarrow> u16 \<Rightarrow> 'h net \<Rightarrow> bool \<times> 'h net" where
  "tcp_connect hw ip port st =
     (let now = pit_millis (t_nic st);
          c = \<lparr>used = True, c_dst_ip = ip, dst_port = port, src_port = 0xD000 + of_nat (now mod 4096),
               snd_nxt = 0x1000 + of_nat (now * 7), rcv_nxt = 0, gw_mac = replicate 6 0, peer_fin = False,
               recv_started = False, rx_buf = replicate RX_BUF_LEN 0, rx_len = 0, rx_pos = 0\<rparr>
      in case resolve_gateway_mac hw (t_nic st) of
           (None, nic) \<Rightarrow> (False, st\<lparr>t_nic := nic, g_conn := c\<rparr>)
         | (Some mac, nic) \<Rightarrow>
             let (r, st1) = tcp_send_segment hw TCP_SYN [] (st\<lparr>t_nic := nic, g_conn := c\<lparr>gw_mac := mac\<rparr>\<rparr>)
             in if r = 0 then (False, st1)
                else let st2 = st1\<lparr>g_conn := (g_conn st1)\<lparr>snd_nxt := snd_nxt (g_conn st1) + 1\<rparr>\<rparr>
                     in case await_synack hw 1000 st2 of
                          (Established, st3) \<Rightarrow>
                            let (r2, st4) = tcp_send_segment hw TCP_ACK [] st3 in (r2 \<noteq> 0, st4)
                        | (_, st3) \<Rightarrow> (False, st3))"

section \<open>Sending\<close>

function send_chunks :: "('h nic \<Rightarrow> 'h nic) \<Rightarrow> u8 list \<Rightarrow> 'h net \<Rightarrow> bool \<times> 'h net" where
  "send_chunks hw data st =
     (if data = [] then (True, st)
      else let chunk = (if length data > 1460 then 1460 else length data);
               (r, st1) = tcp_send_segment hw (TCP_PSH OR TCP_ACK) (take chunk data) st
           in if r = 0 then (False, st1)
              else send_chunks hw (drop chunk data)
                     (st1\<lparr>g_conn := (g_conn st1)\<lparr>snd_nxt := snd_nxt (g_conn st1) + of_nat chunk\<rparr>,
                          t_nic := pit_sleep 2 (t_nic st1)\<rparr>))"
  by pat_completeness auto

termination
  by (relation "measure (\<lambda>(_, data, _). length data)") auto

declare send_chunks.simps [simp del]

definition tcp_send :: "('h nic \<Rightarrow> 'h nic) \<Rightarrow> u8 list \<Rightarrow> 'h net \<Rightarrow> int \<times> 'h net" where
  "tcp_send hw data st =
     (if \<not> used (g_conn st) then (-1, st)
      else let (ok, st1) = send_chunks hw data st in (if ok then to_int (length data) else -1, st1))"

section \<open>Receiving\<close>

text \<open>\<open>Some (r, out)\<close> returns from \<open>tcp_recv\<close>, \<open>None\<close> goes on waiting.\<close>

definition send_ack :: "('h nic \<Rightarrow> 'h nic) \<Rightarrow> 'h net \<Rightarrow> 'h net" where
  "send_ack hw st = snd (tcp_send_segment hw TCP_ACK [] st)"

definition deliver :: "('h nic \<Rightarrow> 'h nic) \<Rightarrow> segment \<Rightarrow> nat \<Rightarrow> 'h net \<Rightarrow> (int \<times> u8 list) \<times> 'h net" where
  "deliver hw sg max_len st =
     (let plen = sg_plen sg; n = (if plen > max_len then max_len else plen); c = g_conn st; rem = plen - n;
          c1 = (if n < plen \<and> rem \<le> RX_BUF_LEN
                then c\<lparr>rx_buf := seg_bytes st sg n rem @ drop rem (rx_buf c), rx_len := rem, rx_pos := 0\<rparr> else c);
          c2 = c1\<lparr>rcv_nxt := rcv_nxt c1 + of_nat plen\<rparr>;
          c3 = (if flag sg TCP_FIN then c2\<lparr>rcv_nxt := rcv_nxt c2 + 1, peer_fin := True\<rparr> else c2)
      in ((to_int n, seg_bytes st sg 0 n), send_ack hw (st\<lparr>g_conn := c3\<rparr>)))"

definition recv_step :: "('h nic \<Rightarrow> 'h nic) \<Rightarrow> nat \<Rightarrow> 'h net \<Rightarrow> (int \<times> u8 list) option \<times> 'h net" where
  "recv_step hw max_len st =
     (case tcp_poll_segment hw st of
        (None, st1) \<Rightarrow> (None, st1)
      | (Some sg, st1) \<Rightarrow>
          let c = g_conn st1
          in if \<not> seg_ready sg then (None, st1)
             else if flag sg TCP_RST then (Some (-1, []), st1\<lparr>g_conn := c\<lparr>peer_fin := True\<rparr>\<rparr>)
             else if sg_plen sg > 0 \<and> sg_seq sg = rcv_nxt c
             then (let (r, st2) = deliver hw sg max_len st1 in (Some r, st2))
             else let st2 = (if sg_plen sg > 0 \<and> sg_seq sg \<noteq> rcv_nxt c then send_ack hw st1 else st1)
                  in if flag sg TCP_FIN \<and> sg_plen sg = 0 \<and> sg_seq sg = rcv_nxt c
                     then (let st3 = send_ack hw (st2\<lparr>g_conn := (g_conn st2)\<lparr>rcv_nxt := sg_seq sg + 1\<rparr>\<rparr>)
                           in (Some (-1, []), st3\<lparr>g_conn := (g_conn st3)\<lparr>peer_fin := True\<rparr>\<rparr>))
                     else (None, st2))"

function recv_loop :: "('h nic \<Rightarrow> 'h nic) \<Rightarrow> nat \<Rightarrow> nat \<Rightarrow> nat \<Rightarrow> 'h net \<Rightarrow> (int \<times> u8 list) \<times> 'h net" where
  "recv_loop hw max_len timeout_ms waited st =
     (if waited < timeout_ms
      then (case recv_step hw max_len st of
              (Some r, st1) \<Rightarrow> (r, st1)
            | (None, st1) \<Rightarrow>
                recv_loop hw max_len timeout_ms (waited + 5) (st1\<lparr>t_nic := pit_sleep 5 (t_nic st1)\<rparr>))
      else ((0, []), st))"
  by pat_completeness auto

termination
  by (relation "measure (\<lambda>(_, _, timeout_ms, waited, _). timeout_ms - waited)") auto

declare recv_loop.simps [simp del]

definition drain_spill :: "nat \<Rightarrow> tcp_conn \<Rightarrow> u8 list \<times> tcp_conn" where
  "drain_spill max_len c =
     (let avail = rx_len c - rx_pos c; n = (if avail < max_len then avail else max_len);
          c1 = c\<lparr>rx_pos := rx_pos c + n\<rparr>
      in (map (\<lambda>i. rx_buf c ! (rx_pos c + i)) [0..<n],
          if rx_pos c1 \<ge> rx_len c1 then c1\<lparr>rx_len := 0, rx_pos := 0\<rparr> else c1))"

definition tcp_recv :: "('h nic \<Rightarrow> 'h nic) \<Rightarrow> nat \<Rightarrow> nat \<Rightarrow> 'h net \<Rightarrow> (int \<times> u8 list) \<times> 'h net" where
  "tcp_recv hw max_len timeout_ms st =
     (let c = g_conn st
      in if \<not> used c then ((-1, []), st)
         else if rx_pos c < rx_len c
         then (let (out, c1) = drain_spill max_len c in ((to_int (length out), out), st\<lparr>g_conn := c1\<rparr>))
         else if peer_fin c then ((-1, []), st)
         else let st1 = (if recv_started c then st
                         else st\<lparr>g_conn := c\<lparr>recv_started := True\<rparr>, t_nic := pit_sleep 20 (t_nic st)\<rparr>)
              in recv_loop hw max_len timeout_ms 0 st1)"

definition tcp_alive :: "'h net \<Rightarrow> bool" where
  "tcp_alive st \<longleftrightarrow> used (g_conn st) \<and> \<not> peer_fin (g_conn st)"

section \<open>Closing\<close>

fun drain_fin :: "('h nic \<Rightarrow> 'h nic) \<Rightarrow> nat \<Rightarrow> 'h net \<Rightarrow> 'h net" where
  "drain_fin hw 0 st = st"
| "drain_fin hw (Suc t) st =
     (case tcp_poll_segment hw st of
        (None, st1) \<Rightarrow> drain_fin hw t (st1\<lparr>t_nic := pit_sleep 5 (t_nic st1)\<rparr>)
      | (Some sg, st1) \<Rightarrow>
          if seg_ready sg \<and> flag sg TCP_FIN
          then send_ack hw (st1\<lparr>g_conn := (g_conn st1)\<lparr>rcv_nxt := sg_seq sg + of_nat (sg_plen sg) + 1\<rparr>\<rparr>)
          else drain_fin hw t (st1\<lparr>t_nic := pit_sleep 5 (t_nic st1)\<rparr>))"

definition tcp_close :: "('h nic \<Rightarrow> 'h nic) \<Rightarrow> 'h net \<Rightarrow> 'h net" where
  "tcp_close hw st =
     (if \<not> used (g_conn st) then st
      else let (_, st1) = tcp_send_segment hw (TCP_FIN OR TCP_ACK) [] st;
               st2 = drain_fin hw 50 (st1\<lparr>g_conn := (g_conn st1)\<lparr>snd_nxt := snd_nxt (g_conn st1) + 1\<rparr>\<rparr>)
           in st2\<lparr>g_conn := (g_conn st2)\<lparr>used := False\<rparr>\<rparr>)"

end
