(* ===== verification/Net_Correct.thy ===== *)
theory Net_Correct
  imports Net
begin

text \<open>
  Correctness of the datagram layer: what the UDP sender queues, the UDP receiver reads
  back, with an IP header whose checksum verifies; the DNS client finds the address in a
  response to its query.
\<close>

section \<open>Datagrams\<close>

lemma udp_of_image: "udp_of (udp_image h @ rest) = h"
  by (simp add: udp_of_def udp_image_def get16_def image16_def)

lemma udp_image_length [simp]: "length (udp_image h) = 8"
  by (simp add: udp_image_def)

lemma eth_to_length [simp]: "length d = 6 \<Longrightarrow> length m = 6 \<Longrightarrow> length (eth_to d m) = 14"
  by (simp add: eth_to_def)

lemma eth_of_eth_to: "length d = 6 \<Longrightarrow> length m = 6 \<Longrightarrow> ethertype (eth_of (eth_to d m @ rest)) = htons ETHERTYPE_IPV4"
  by (simp add: eth_to_def eth_of_image)

lemma ip_ihl_header [simp]: "ip_ihl (ip_header t i f p d) = 20" "drop_bit 4 (ver_ihl (ip_header t i f p d)) = 4"
  by (simp_all add: ip_ihl_def)

text \<open>The receiver on a frame built by the sender, whatever follows it in the buffer.\<close>

lemma udp_body_frame:
  assumes "length our_mac = 6" "length dst_mac = 6" "length payload \<le> 512"
  shows "udp_body (udp_frame our_mac dst_mac dip sport dport payload @ junk) dport n = take n payload"
proof -
  define udp where "udp = \<lparr>udp_src = htons sport, udp_dst = htons dport,
    udp_length = htons (of_nat (8 + length payload)), udp_checksum = 0\<rparr>"
  define ip where "ip = ip_header (20 + (8 + length payload)) 0x4321 0 17 dip"
  define buf where "buf = udp_frame our_mac dst_mac dip sport dport payload @ junk"
  have f: "buf = eth_to dst_mac our_mac @ ip_image ip @ udp_image udp @ payload @ junk"
    by (simp add: buf_def udp_frame_def Let_def udp_def ip_def)
  have d: "drop 14 buf = ip_image ip @ udp_image udp @ payload @ junk"
    "drop 34 buf = udp_image udp @ payload @ junk" "drop 42 buf = payload @ junk"
    using assms by (simp_all add: f)
  have l: "unat (of_nat (8 + length payload) :: u16) = 8 + length payload"
    using assms(3) by (simp only: unat_of_nat) (simp add: take_bit_nat_eq_self)
  have e: "ethertype (eth_of buf) = htons ETHERTYPE_IPV4" unfolding f using eth_of_eth_to assms by blast
  have i: "ip_of (drop 14 buf) = ip" unfolding d by (rule ip_of_image)
  have p: "protocol ip = 17" "ip_ihl ip = 20" "drop_bit 4 (ver_ihl ip) = 4" by (simp_all add: ip_def)
  have u: "udp_of (drop (14 + 20) buf) = udp" by (simp add: d udp_of_image)
  show ?thesis
    unfolding buf_def [symmetric] udp_body_def Let_def i e p u using l d(3)
    by (simp add: udp_def min.commute take_map) (simp add: min_def)
qed

lemma udp_frame_checksum:
  assumes "length our_mac = 6" "length dst_mac = 6"
  shows "checksum16 (take 20 (drop 14 (udp_frame our_mac dst_mac dip sport dport payload))) = 0"
  using assms by (simp add: udp_frame_def Let_def ip_header_checksum)

lemma e1000_send_queues:
  assumes "rings_ok (hw nic)" "e1000_send hw data nic = (1, nic')"
  shows "\<exists>d \<in> set (tx_ring nic'). take (txd_length d) (txd_data d) = data \<and> txd_status d = 0"
proof -
  have "tx_cur (hw nic) < length (tx_ring (hw nic))" using assms(1) by (simp add: rings_ok_def)
  then show ?thesis
    using assms(2) by (auto simp: e1000_send_def Let_def e1000_write_def split: if_splits intro!: bexI [OF _ set_update_memI])
qed

text \<open>C24. UDP round trip: a datagram that \<open>send_udp\<close> accepted sits in a transmit
  descriptor as a frame whose IP header passes the checksum, and a host that receives
  this frame gets exactly the payload from \<open>poll_udp\<close> on the destination port, cut to its
  buffer.\<close>

theorem send_udp_poll_udp:
  assumes "rings_ok (hw nic)" "length (e1000_mac nic) = 6" "length gw_mac = 6"
    and "send_udp hw gw_mac dip sport dport payload nic = (1, nic')"
  shows "\<exists>d \<in> set (tx_ring nic'). let f = take (txd_length d) (txd_data d) in
    txd_status d = 0 \<and> checksum16 (take 20 (drop 14 f)) = 0 \<and>
    (\<forall>hw2 (peer :: 'p nic) peer'. e1000_receive_poll hw2 1600 peer = (f, peer') \<longrightarrow>
       poll_udp hw2 dport n peer = (take n payload, peer'))"
proof -
  let ?f = "udp_frame (e1000_mac nic) gw_mac dip sport dport payload"
  have len: "length payload \<le> 512" and s: "e1000_send hw ?f nic = (1, nic')"
    using assms(4) by (auto simp: send_udp_def e1000_get_mac_def split: if_splits)
  obtain d where d: "d \<in> set (tx_ring nic')" "take (txd_length d) (txd_data d) = ?f" "txd_status d = 0"
    using e1000_send_queues [OF assms(1) s] by blast
  have "length ?f = 42 + length payload" using assms(2,3) by (simp add: udp_frame_def Let_def)
  then have "poll_udp hw2 dport n peer = (take n payload, peer')"
    if "e1000_receive_poll hw2 1600 peer = (?f, peer')" for hw2 and peer :: "'p nic" and peer'
    using that udp_body_frame [OF assms(2,3) len] by (simp add: poll_udp_def rx_buffer_def)
  then show ?thesis
    using d udp_frame_checksum [OF assms(2,3)] by (intro bexI [OF _ d(1)]) (simp add: Let_def)
qed

text \<open>A card with empty rings.\<close>

definition sample_nic :: "unit nic" where
  "sample_nic = \<lparr>n_vmm = sample_vmm, e1000_mmio = True, regs = (\<lambda>_. 0), e1000_mac = [2, 0, 0, 0, 0, 1], dma_next = 0,
     rx_ring = replicate 256 \<lparr>rxd_addr = 0, rxd_length = 0, rxd_status = 0, rxd_data = replicate 2048 0\<rparr>,
     tx_ring = replicate 32 \<lparr>txd_addr = 0, txd_length = 0, txd_cmd = 0, txd_status = 1, txd_data = replicate 2048 0\<rparr>,
     rx_buf_phys = [], tx_buf_phys = [], rx_buf_virt = [], tx_buf_virt = [], rx_cur = 0, tx_cur = 0,
     tick_count = 0, stack_junk = (\<lambda>_. 0), card = ()\<rparr>"

lemma sample_nic_ok: "all_frames P sample_nic" "rings_ok sample_nic"
  by (auto simp: all_frames_def rings_ok_def sample_nic_def)

lemma sample_send:
  assumes "0 < length data" "length data \<le> 2048"
  shows "\<exists>nic'. e1000_send (\<lambda>n. n) data sample_nic = (1, nic')"
  using assms by (simp add: e1000_send_def sample_nic_def Let_def)

theorem send_udp_poll_udp_witness:
  "\<exists>nic'. send_udp (\<lambda>n. n) (replicate 6 2) 0x0A000203 0xC000 53 [7, 8] sample_nic = (1, nic') \<and>
     (\<exists>d \<in> set (tx_ring nic'). checksum16 (take 20 (drop 14 (take (txd_length d) (txd_data d)))) = 0)"
proof -
  let ?f = "udp_frame (e1000_mac sample_nic) (replicate 6 2) 0x0A000203 0xC000 53 [7, 8]"
  have "length ?f = 44" by (simp add: udp_frame_def Let_def sample_nic_def)
  then obtain nic' where s: "send_udp (\<lambda>n. n) (replicate 6 2) 0x0A000203 0xC000 53 [7, 8] sample_nic = (1, nic')"
    using sample_send [of ?f] by (auto simp: send_udp_def e1000_get_mac_def)
  have "length (e1000_mac sample_nic) = 6" by (simp add: sample_nic_def)
  from send_udp_poll_udp [OF _ this _ s, of 1] sample_nic_ok(2) obtain d where
    "d \<in> set (tx_ring nic')" "checksum16 (take 20 (drop 14 (take (txd_length d) (txd_data d)))) = 0"
    by (auto simp: Let_def)
  then show ?thesis using s by blast
qed

section \<open>Names\<close>

lemma label_byte:
  assumes "0 < l" "l \<le> 63"
  shows "(of_nat l :: u8) \<noteq> 0" "(of_nat l :: u8) AND 0xC0 \<noteq> 0xC0" "unat (of_nat l :: u8) = l"
proof -
  show u: "unat (of_nat l :: u8) = l" using assms by (simp add: unat_of_nat take_bit_nat_eq_self)
  then show "(of_nat l :: u8) \<noteq> 0" using assms(1) by (metis gr_implies_not0 unat_0)
  have "\<not> bit l 6" using assms(2) by (simp add: bit_iff_odd)
  then have "\<not> bit (of_nat l :: u8) 6" using u by (metis bit_imp_possible_bit bit_unsigned_iff possible_bit_nat)
  moreover have "bit (0xC0 :: u8) 6" by code_simp
  ultimately show "(of_nat l :: u8) AND 0xC0 \<noteq> 0xC0" by (metis bit_and_iff)
qed

lemma skip_encoded:
  "encode_labels p out m = Some out' \<Longrightarrow> \<exists>e. out' = out @ e \<and>
     (\<forall>pre post len. length pre + length e < len \<longrightarrow>
        dns_skip_name (pre @ e @ 0 # post) (length pre) len = length pre + length e + 1)"
proof (induction p out m rule: encode_labels.induct)
  case (1 p out m)
  let ?seg = "takeWhile (\<lambda>c. c \<noteq> 0x2E) p" and ?rest = "dropWhile (\<lambda>c. c \<noteq> 0x2E) p"
  show ?case
  proof (cases "p = []")
    case True
    then show ?thesis
      using "1.prems" by (auto simp: encode_labels.simps [of "[]" out m] dns_skip_name.simps nth_append)
  next
    case False
    let ?e0 = "of_nat (length ?seg) # ?seg"
    have seg: "0 < length ?seg" "length ?seg \<le> 63" "length out + 1 + length ?seg < m"
      and rec: "encode_labels (if ?rest = [] then [] else tl ?rest) (out @ ?e0) m = Some out'"
      using "1.prems" False by (auto simp: encode_labels.simps [of p out m] Let_def split: if_splits)
    obtain e where e: "out' = out @ ?e0 @ e" and
      sk: "\<And>pre post len. length pre + length e < len \<Longrightarrow>
        dns_skip_name (pre @ e @ 0 # post) (length pre) len = length pre + length e + 1"
      using "1.IH" [OF False refl refl _ _ rec] seg by (auto simp: not_le)
    have "dns_skip_name (pre @ (?e0 @ e) @ 0 # post) (length pre) len = length pre + length (?e0 @ e) + 1"
      if "length pre + length (?e0 @ e) < len" for pre post len
    proof -
      have "dns_skip_name (pre @ (?e0 @ e) @ 0 # post) (length pre) len =
          dns_skip_name ((pre @ ?e0) @ e @ 0 # post) (length (pre @ ?e0)) len"
        using that label_byte [OF seg(1,2)]
        by (simp add: dns_skip_name.simps [of _ "length pre"] Let_def nth_append)
      also have "\<dots> = length (pre @ ?e0) + length e + 1" by (rule sk) (use that in simp)
      finally show ?thesis by simp
    qed
    then show ?thesis using e by blast
  qed
qed

lemma skip_name_encoded:
  assumes "dns_encode_name host m = Some name" "length pre + length name \<le> len"
  shows "dns_skip_name (pre @ name @ post) (length pre) len = length pre + length name"
proof -
  obtain out where o: "encode_labels host [] m = Some out" "name = out @ [0]"
    using assms(1) by (auto simp: dns_encode_name_def split: option.splits if_splits)
  then show ?thesis using skip_encoded [OF o(1)] assms(2) by auto
qed

lemma bytes_to_ip_to_bytes: "bytes_to_ip (ip_to_bytes ip @ rest) = ip"
proof -
  have "bytes_to_ip (ip_to_bytes ip @ rest) =
      join32 (ucast ip) (ucast (drop_bit 8 ip)) (ucast (drop_bit 16 ip)) (ucast (drop_bit 24 ip))"
    by (simp add: bytes_to_ip_def ip_to_bytes_def join32_def or.commute or.left_commute or.assoc numeral_3_eq_3 numeral_2_eq_2)
  then show ?thesis by simp
qed

lemma dns_of_image: "dns_of (dns_image h @ rest) = h"
  by (simp add: dns_of_def dns_image_def get16_def image16_def)

text \<open>The usual response: the question repeated, then an A record whose name is a pointer
  back to the question.\<close>

definition dns_response :: "dns_hdr \<Rightarrow> u8 list \<Rightarrow> u8 list \<Rightarrow> u32 \<Rightarrow> u8 list \<Rightarrow> u8 list" where
  "dns_response h name time_to_live ip extra =
     dns_image h @ name @ [0, 1, 0, 1] @ [0xC0, 0x0C, 0, 1, 0, 1] @ time_to_live @ [0, 4] @ ip_to_bytes ip @ extra"

text \<open>C25. Name resolution: whenever the query for a host name can be encoded, the response
  that repeats the question and gives an address record is parsed to exactly that
  address, whatever further records follow.\<close>

theorem dns_parse_response:
  assumes "dns_encode_name host m = Some name" "ntohs (ancount h) \<noteq> 0" "length ttl4 = 4"
  shows "dns_parse (dns_response h name ttl4 ip extra) = Some ip"
proof -
  let ?r = "dns_response h name ttl4 ip extra"
  define tail where "tail = ttl4 @ [0, 4] @ ip_to_bytes ip @ extra"
  have tail: "length tail = 10 + length extra" "tail ! 4 = 0" "tail ! 5 = 4" "drop 6 tail = ip_to_bytes ip @ extra"
    using assms(3) by (simp_all add: tail_def ip_to_bytes_def nth_append)
  have r: "?r = dns_image h @ name @ [0, 1, 0, 1] @ [0xC0, 0x0C, 0, 1, 0, 1] @ tail"
    by (simp add: dns_response_def tail_def)
  have h: "length (dns_image h) = 12" by (simp add: dns_image_def)
  have len: "length ?r = 32 + length name + length extra" using h tail by (simp add: r)
  have skip: "dns_skip_name ?r 12 (length ?r) = 12 + length name"
    using skip_name_encoded [OF assms(1), of "dns_image h" "length ?r"] h len by (simp add: r)
  have count: "unat (ntohs (ancount (dns_of ?r))) \<noteq> 0" using assms(2) by (simp add: r dns_of_image unat_eq_zero)
  then obtain a where a: "unat (ntohs (ancount (dns_of ?r))) = Suc a" by (cases "unat (ntohs (ancount (dns_of ?r)))") auto
  define q where "q = 16 + length name"
  have d: "drop q ?r = [0xC0, 0x0C, 0, 1, 0, 1] @ tail" using h by (simp add: r q_def)
  have n: "?r ! (q + i) = ([0xC0, 0x0C, 0, 1, 0, 1] @ tail) ! i" for i
    using nth_drop [of q ?r i] len unfolding d by (simp add: q_def)
  have s2: "dns_skip_name ?r q (length ?r) = q + 2"
  proof -
    have "q < length ?r" "?r ! q = 0xC0" using n [of 0] len by (simp_all add: q_def)
    then show ?thesis by (simp add: dns_skip_name.simps [of ?r q])
  qed
  have v: "?r ! (q + 2) = 0" "?r ! (q + 3) = 1" "?r ! (q + 10) = 0" "?r ! (q + 11) = 4"
    using n [of 2] n [of 3] n [of 10] n [of 11] tail(2,3) by simp_all
  have t: "be16 ?r (q + 2) = 1" "be16 ?r (q + 2 + 8) = 4"
    unfolding be16_def add.assoc by (simp_all only: v add_numeral_left numeral_plus_one arith_simps) simp_all
  have "drop (q + 12) ?r = drop 12 (drop q ?r)" by (simp add: add.commute)
  also have "\<dots> = ip_to_bytes ip @ extra" unfolding d using tail(4) by simp
  finally have "drop (q + 12) ?r = ip_to_bytes ip @ extra" .
  then have "bytes_to_ip (drop (q + 2 + 10) ?r) = ip" using bytes_to_ip_to_bytes by (simp add: add.commute)
  then have "dns_answers ?r q (Suc a) = Some ip"
    using s2 t len by (simp add: Let_def q_def)
  moreover have "dns_skip_name ?r 12 (length ?r) + 4 = q" using skip by (simp add: q_def)
  ultimately show ?thesis
    using a len unfolding dns_parse_def Let_def by (simp del: dns_answers.simps)
qed

theorem dns_parse_response_witness:
  "dns_parse (dns_response \<lparr>dns_id = 0, dns_flags = 0, qdcount = 0x100, ancount = 0x100, nscount = 0, arcount = 0\<rparr>
     [1, 0x61, 1, 0x62, 0] [0, 0, 0, 60] 0x0A000202 []) = Some 0x0A000202"
proof (rule dns_parse_response)
  show "dns_encode_name [0x61, 0x2E, 0x62] 496 = Some [1, 0x61, 1, 0x62, 0]"
    by (simp add: dns_encode_name_def encode_labels.simps)
  show "ntohs (ancount \<lparr>dns_id = 0, dns_flags = 0, qdcount = 0x100, ancount = 0x100, nscount = 0, arcount = 0\<rparr>) \<noteq> 0"
    by (simp add: ntohs_def htons_def)
qed simp

end
