(* ===== verification/Tcp_Correct.thy ===== *)
theory Tcp_Correct
  imports Tcp Net_Correct
begin

text \<open>
  Correctness of the TCP client.  The driver's contract with its clients is a locale; the
  byte stream handed to the caller of \<open>tcp_recv\<close> is an initial part of what the peer sent,
  whatever the network drops, repeats or reorders, and the acknowledged sequence number
  counts exactly the bytes delivered or kept.
\<close>

section \<open>The contract of a frame driver\<close>

text \<open>A driver polls and sends frames while its environment \<open>env\<close> runs; \<open>frames P\<close> says that
  all frames waiting to be fetched satisfy \<open>P\<close>.\<close>

locale frame_driver =
  fixes poll :: "('s \<Rightarrow> 's) \<Rightarrow> nat \<Rightarrow> 's \<Rightarrow> u8 list \<times> 's"
    and send :: "('s \<Rightarrow> 's) \<Rightarrow> u8 list \<Rightarrow> 's \<Rightarrow> int \<times> 's"
    and frames :: "(u8 list \<Rightarrow> bool) \<Rightarrow> 's \<Rightarrow> bool"
    and env_ok :: "(u8 list \<Rightarrow> bool) \<Rightarrow> ('s \<Rightarrow> 's) \<Rightarrow> bool"
  assumes poll_frames: "env_ok P env \<Longrightarrow> frames P s \<Longrightarrow> poll env n s = (b, s') \<Longrightarrow>
      frames P s' \<and> (b = [] \<or> (\<exists>f. P f \<and> b = take n f))"
    and send_frames: "env_ok P env \<Longrightarrow> frames P s \<Longrightarrow> send env data s = (r, s') \<Longrightarrow> frames P s'"
begin

lemma poll_keeps: "env_ok P env \<Longrightarrow> frames P s \<Longrightarrow> frames P (snd (poll env n s))"
  using poll_frames by (cases "poll env n s") auto

lemma send_keeps: "env_ok P env \<Longrightarrow> frames P s \<Longrightarrow> frames P (snd (send env data s))"
  using send_frames by (cases "send env data s") auto

text \<open>A frame that fits the buffer is fetched whole.\<close>

lemma poll_whole:
  assumes "env_ok P env" "frames P s" "poll env n s = (b, s')" "b \<noteq> []" "\<And>f. P f \<Longrightarrow> length f \<le> n"
  shows "P b"
  using poll_frames [OF assms(1-3)] assms(4,5) by auto

end

interpretation e1000: frame_driver e1000_receive_poll e1000_send all_frames card_ok
proof unfold_locales
  fix P :: "u8 list \<Rightarrow> bool" and env :: "'a nic \<Rightarrow> 'a nic" and s s' :: "'a nic" and n b data r
  assume env: "card_ok P env" "all_frames P s"
  show "all_frames P s' \<and> (b = [] \<or> (\<exists>f. P f \<and> b = take n f))" if "e1000_receive_poll env n s = (b, s')"
    using e1000_poll_frames [OF env that] by blast
  show "all_frames P s'" if "e1000_send env data s = (r, s')"
    using e1000_send_frames [OF env that] by blast
qed

section \<open>Segments on the wire\<close>

lemma tcp_image_length [simp]: "length (tcp_image h) = 20"
  by (simp add: tcp_image_def)

lemma tcp_of_image: "tcp_of (tcp_image h @ rest) = h"
  by (simp add: tcp_of_def tcp_image_def get16_def get32_def image16_def image32_def)

lemma tcp_match_frame:
  assumes "length our_mac = 6" "length (gw_mac p) = 6" "length payload \<le> 1460"
    and "src_port p = dst_port c" "dst_port p = src_port c"
  shows "tcp_match c (tcp_frame our_mac p flags payload @ junk) =
    Some \<lparr>sg_flags = flags, sg_seq = snd_nxt p, sg_ack = rcv_nxt p, sg_off = 54, sg_plen = length payload\<rparr>"
proof -
  define ip where "ip = ip_header (40 + length payload) 0x5555 (htons 0x4000) IP_PROTO_TCP (c_dst_ip p)"
  define tcp where "tcp = (tcp_header p flags)\<lparr>tcp_sum := htons
    (tcp_checksum (src_ip ip) (dst_ip ip) (tcp_image (tcp_header p flags) @ payload))\<rparr>"
  define buf where "buf = tcp_frame our_mac p flags payload @ junk"
  have f: "buf = eth_to (gw_mac p) our_mac @ ip_image ip @ tcp_image tcp @ payload @ junk"
    by (simp add: buf_def tcp_frame_def Let_def tcp_def ip_def)
  have e: "ethertype (eth_of buf) = htons ETHERTYPE_IPV4" unfolding f using eth_of_eth_to assms by blast
  have d: "drop 14 buf = ip_image ip @ tcp_image tcp @ payload @ junk" "drop (14 + 20) buf = tcp_image tcp @ payload @ junk"
    using assms by (simp_all add: f)
  have i: "ip_of (drop 14 buf) = ip" unfolding d by (rule ip_of_image)
  have t: "tcp_of (drop (14 + 20) buf) = tcp" unfolding d by (rule tcp_of_image)
  have p: "protocol ip = IP_PROTO_TCP" "ip_ihl ip = 20" "drop_bit 4 (ver_ihl ip) = 4" "ntohs (total_len ip) = of_nat (40 + length payload)"
    by (simp_all add: ip_def)
  have l: "unat (of_nat (40 + length payload) :: u16) = 40 + length payload"
    using assms(3) by (simp only: unat_of_nat) (simp add: take_bit_nat_eq_self)
  have w: "u32_sub (u32_sub (40 + length payload) 20) 20 = length payload" using assms(3) by (simp add: no_wrap)
  show ?thesis
    unfolding buf_def [symmetric] tcp_match_def Let_def i e p t l using assms(4,5) w
    by (simp add: tcp_def tcp_header_def)
qed

lemma tcp_frame_checksum:
  assumes "length our_mac = 6" "length (gw_mac p) = 6" "length payload \<le> 1460"
  shows "tcp_checksum (ip_to_net NET_OUR_IP) (ip_to_net (c_dst_ip p)) (drop 34 (tcp_frame our_mac p flags payload)) = 0"
proof -
  let ?s = "ip_to_net NET_OUR_IP" and ?d = "ip_to_net (c_dst_ip p)"
  define h where "h = tcp_header p flags"
  define pad :: "u8 list" where "pad = (if odd (length payload) then [0] else [])"
  define a where "a = image32 ?s @ image32 ?d @ [0, IP_PROTO_TCP] @ image16 (htons (of_nat (20 + length payload))) @
    image16 (tcp_src h) @ image16 (tcp_dst h) @ image32 (tcp_seq h) @ image32 (tcp_ack h) @
    [data_off h, tcp_flags h] @ image16 (window h)"
  define b where "b = image16 (urgent h) @ payload @ pad"
  have cs: "tcp_checksum ?s ?d (tcp_image (h\<lparr>tcp_sum := v\<rparr>) @ payload) = checksum16 (a @ image16 v @ b)" for v
    using assms(3) by (simp add: tcp_checksum_def Let_def a_def b_def pad_def tcp_image_def)
  have z: "h\<lparr>tcp_sum := 0\<rparr> = h" by (simp add: h_def tcp_header_def)
  define c where "c = tcp_checksum ?s ?d (tcp_image h @ payload)"
  have c: "c = checksum16 (a @ 0 # 0 # b)" using cs [of 0] z by (simp add: c_def image16_def)
  have "drop 34 (tcp_frame our_mac p flags payload) = tcp_image (h\<lparr>tcp_sum := htons c\<rparr>) @ payload"
    using assms(1,2) by (simp add: tcp_frame_def Let_def h_def c_def)
  then show ?thesis
    using cs [of "htons c"] checksum16_verifies [OF _ _ c] assms(3) by (simp add: a_def b_def pad_def)
qed

text \<open>C23. What one side sends, the other side reads: the frame of a segment passes the
  checksum over pseudo-header and segment, and the connection with the ports exchanged
  reads from it the same flags, sequence and acknowledgement numbers and the payload.\<close>

theorem tcp_segment_roundtrip:
  assumes "length our_mac = 6" "length (gw_mac p) = 6" "length payload \<le> 1460"
    and "src_port p = dst_port c" "dst_port p = src_port c"
  shows "let f = tcp_frame our_mac p flags payload in
    tcp_checksum (ip_to_net NET_OUR_IP) (ip_to_net (c_dst_ip p)) (drop 34 f) = 0 \<and>
    tcp_match c (f @ junk) =
      Some \<lparr>sg_flags = flags, sg_seq = snd_nxt p, sg_ack = rcv_nxt p, sg_off = 54, sg_plen = length payload\<rparr> \<and>
    drop 54 f = payload"
  unfolding Let_def
  using tcp_match_frame [OF assms, of flags junk] tcp_frame_checksum [OF assms(1-3), of flags] assms
  by (simp add: tcp_frame_def Let_def)

section \<open>Honest segments\<close>

text \<open>The peer's stream is \<open>data\<close>, its first byte has sequence number \<open>base\<close>.  A frame of the
  connection that carries data carries a part of the stream at its place; nothing is said
  about the order or the number of the frames.\<close>

definition honest :: "u16 \<Rightarrow> u16 \<Rightarrow> u32 \<Rightarrow> u8 list \<Rightarrow> u8 list \<Rightarrow> bool" where
  "honest sp dp base data f \<longleftrightarrow> length f \<le> 1600 \<and>
     (\<forall>c junk sg. src_port c = sp \<and> dst_port c = dp \<and> tcp_match c (f @ junk) = Some sg \<and> 0 < sg_plen sg \<longrightarrow>
        sg_off sg + sg_plen sg \<le> length f \<and> unat (sg_seq sg - base) + sg_plen sg \<le> length data \<and>
        take (sg_plen sg) (drop (sg_off sg) f) = take (sg_plen sg) (drop (unat (sg_seq sg - base)) data))"

definition spill :: "tcp_conn \<Rightarrow> u8 list" where
  "spill c = take (rx_len c - rx_pos c) (drop (rx_pos c) (rx_buf c))"

text \<open>\<open>got\<close> has been delivered; together with the spilled bytes it is what was acknowledged.\<close>

definition conn_inv :: "u32 \<Rightarrow> u8 list \<Rightarrow> u8 list \<Rightarrow> tcp_conn \<Rightarrow> bool" where
  "conn_inv base data got c \<longleftrightarrow> length (rx_buf c) = RX_BUF_LEN \<and> rx_pos c \<le> rx_len c \<and> rx_len c \<le> RX_BUF_LEN \<and>
     got @ spill c = take (length got + length (spill c)) data \<and>
     (\<not> peer_fin c \<longrightarrow> rcv_nxt c = base + of_nat (length got + length (spill c)))"

definition recv_inv :: "u16 \<Rightarrow> u16 \<Rightarrow> u32 \<Rightarrow> u8 list \<Rightarrow> u8 list \<Rightarrow> 'h net \<Rightarrow> bool" where
  "recv_inv sp dp base data got st \<longleftrightarrow> all_frames (honest sp dp base data) (t_nic st) \<and>
     src_port (g_conn st) = sp \<and> dst_port (g_conn st) = dp \<and> conn_inv base data got (g_conn st)"

lemma spill_length: "conn_inv base data got c \<Longrightarrow> length (spill c) = rx_len c - rx_pos c"
  by (auto simp: conn_inv_def spill_def)

lemma honest_length: "honest sp dp base data f \<Longrightarrow> length f \<le> 1600"
  by (simp add: honest_def)

lemma seg_bytes_eq:
  "sg_off sg + i + n \<le> length (g_rxbuf st) \<Longrightarrow> seg_bytes st sg i n = take n (drop (sg_off sg + i) (g_rxbuf st))"
  by (auto simp: seg_bytes_def intro!: nth_equalityI simp flip: add.assoc)

lemma poll_segment_honest:
  assumes "card_ok (honest sp dp base data) hw" "recv_inv sp dp base data got st"
    and "tcp_poll_segment hw st = (r, st')"
  shows "recv_inv sp dp base data got st' \<and> g_conn st' = g_conn st \<and>
    (\<forall>sg. r = Some sg \<and> 0 < sg_plen sg \<longrightarrow> sg_plen sg \<le> 1600 \<and> unat (sg_seq sg - base) + sg_plen sg \<le> length data \<and>
       (\<forall>i n. i + n \<le> sg_plen sg \<longrightarrow> seg_bytes st' sg i n = take n (drop (unat (sg_seq sg - base) + i) data)))"
proof -
  obtain b nic where p: "e1000_receive_poll hw 1600 (t_nic st) = (b, nic)" by (cases "e1000_receive_poll hw 1600 (t_nic st)")
  define buf where "buf = b @ drop (length b) (g_rxbuf st)"
  have st': "st' = st\<lparr>t_nic := nic, g_rxbuf := buf\<rparr>" and r: "r = (if length b < 54 then None else tcp_match (g_conn st) buf)"
    using assms(3) p by (auto simp: tcp_poll_segment_def buf_def Let_def)
  have fr: "all_frames (honest sp dp base data) (t_nic st)" using assms(2) by (simp add: recv_inv_def)
  have keep: "all_frames (honest sp dp base data) nic" using e1000.poll_frames [OF assms(1) fr p] by blast
  have "sg_plen sg \<le> 1600 \<and> unat (sg_seq sg - base) + sg_plen sg \<le> length data \<and>
      (\<forall>i n. i + n \<le> sg_plen sg \<longrightarrow> seg_bytes st' sg i n = take n (drop (unat (sg_seq sg - base) + i) data))"
    if sg: "r = Some sg" "0 < sg_plen sg" for sg
  proof -
    have m: "tcp_match (g_conn st) buf = Some sg" "b \<noteq> []" using sg(1) r by (auto split: if_splits)
    have "honest sp dp base data b"
      by (rule e1000.poll_whole [OF assms(1) fr p m(2)]) (rule honest_length)
    then have h: "length b \<le> 1600" "sg_off sg + sg_plen sg \<le> length b" "unat (sg_seq sg - base) + sg_plen sg \<le> length data"
      "take (sg_plen sg) (drop (sg_off sg) b) = take (sg_plen sg) (drop (unat (sg_seq sg - base)) data)"
      using m(1) sg(2) assms(2) unfolding honest_def buf_def by (auto simp: recv_inv_def)
    have "seg_bytes st' sg i n = take n (drop (unat (sg_seq sg - base) + i) data)" if "i + n \<le> sg_plen sg" for i n
    proof -
      have "seg_bytes st' sg i n = take n (drop (sg_off sg + i) b)"
        using that h(2) by (subst seg_bytes_eq) (simp_all add: st' buf_def)
      also have "\<dots> = take n (drop i (take (sg_plen sg) (drop (sg_off sg) b)))"
        using that by (simp add: take_drop min_def add.commute)
      also have "\<dots> = take n (drop (unat (sg_seq sg - base) + i) data)"
        unfolding h(4) using that by (simp add: take_drop min_def add.commute)
      finally show ?thesis .
    qed
    then show ?thesis using h by simp
  qed
  then show ?thesis using keep assms(2) by (auto simp: recv_inv_def st')
qed

lemma send_ack_keeps:
  assumes "card_ok (honest sp dp base data) hw" "recv_inv sp dp base data got st"
  shows "recv_inv sp dp base data got (send_ack hw st) \<and> g_conn (send_ack hw st) = g_conn st"
  using assms e1000.send_keeps [OF assms(1), of "t_nic st"]
  by (auto simp: send_ack_def tcp_send_segment_def recv_inv_def split: prod.split) (metis snd_conv)

section \<open>One call of the receiver\<close>

lemma take_append_drop: "i \<le> length xs \<Longrightarrow> take i xs @ take n (drop i xs) = take (i + n) xs"
  by (simp add: take_add)

lemma deliver_inv:
  assumes hw: "card_ok (honest sp dp base data) hw" and inv: "recv_inv sp dp base data got st"
    and fin: "\<not> peer_fin (g_conn st)" and empty: "rx_pos (g_conn st) = rx_len (g_conn st)"
    and len: "length data < 2 ^ 32"
    and sg: "0 < sg_plen sg" "sg_seq sg = rcv_nxt (g_conn st)" "sg_plen sg \<le> 1600"
      "unat (sg_seq sg - base) + sg_plen sg \<le> length data"
      "\<And>i n. i + n \<le> sg_plen sg \<Longrightarrow> seg_bytes st sg i n = take n (drop (unat (sg_seq sg - base) + i) data)"
    and d: "deliver hw sg m st = ((r, out), st')"
  shows "recv_inv sp dp base data (got @ out) st' \<and> r = int (length out) \<and> length out \<le> m"
proof -
  let ?c = "g_conn st" and ?n = "if sg_plen sg > m then m else sg_plen sg"
  have sp0: "spill ?c = []" using empty by (simp add: spill_def)
  have ci: "conn_inv base data got ?c" using inv by (simp add: recv_inv_def)
  then have g: "got = take (length got) data" "rcv_nxt ?c = base + of_nat (length got)"
    using fin sp0 by (simp_all add: conn_inv_def)
  have gl: "length got \<le> length data" using g(1) by (metis length_take min.cobounded1)
  then have "length got < 2 ^ 32" using len by simp
  then have u: "unat (sg_seq sg - base) = length got"
    using g(2) sg(2) by (simp add: unat_of_nat take_bit_nat_eq_self)
  have out: "out = take ?n (drop (length got) data)" "length out = ?n" "r = int ?n"
  proof -
    have o: "out = seg_bytes st sg 0 ?n" "r = to_int ?n" using d by (auto simp: deliver_def Let_def)
    show "out = take ?n (drop (length got) data)" using sg(5) [of 0 ?n] u o(1) by simp
    then show "length out = ?n" using sg(4) u by auto
    show "r = int ?n" using o(2) sg(3) by (simp add: to_int_def)
  qed
  have dl: "got @ out = take (length got + ?n) data" using g(1) out(1) gl take_append_drop [of "length got" data ?n] by simp
  define c1 where "c1 = (if ?n < sg_plen sg \<and> sg_plen sg - ?n \<le> RX_BUF_LEN
    then ?c\<lparr>rx_buf := seg_bytes st sg ?n (sg_plen sg - ?n) @ drop (sg_plen sg - ?n) (rx_buf ?c),
      rx_len := sg_plen sg - ?n, rx_pos := 0\<rparr> else ?c)"
  have rest: "spill c1 = take (sg_plen sg - ?n) (drop (length got + ?n) data) \<and> length (spill c1) = sg_plen sg - ?n"
    using sg(3,4) sg(5) [of ?n "sg_plen sg - ?n"] u sp0 by (auto simp: c1_def spill_def)
  have whole: "(got @ out) @ spill c1 = take (length got + sg_plen sg) data"
    using dl rest take_append_drop [of "length got + ?n" data "sg_plen sg - ?n"] sg(4) u by (simp split: if_splits)
  define c3 where "c3 = (let c2 = c1\<lparr>rcv_nxt := rcv_nxt c1 + of_nat (sg_plen sg)\<rparr>
    in if flag sg TCP_FIN then c2\<lparr>rcv_nxt := rcv_nxt c2 + 1, peer_fin := True\<rparr> else c2)"
  have sp3: "spill c3 = spill c1" by (simp add: c3_def Let_def spill_def)
  have n: "length (got @ out) + length (spill c1) = length got + sg_plen sg"
  proof -
    have "length (spill c1) = sg_plen sg - ?n" using rest by blast
    then show ?thesis using out(2) by simp
  qed
  have r1: "rcv_nxt c1 = base + of_nat (length got)" using g(2) by (simp add: c1_def)
  have len1: "length (rx_buf c1) = RX_BUF_LEN \<and> rx_pos c1 \<le> rx_len c1 \<and> rx_len c1 \<le> RX_BUF_LEN"
    using ci sg(3) by (auto simp: c1_def conn_inv_def seg_bytes_def)
  have rn: "rcv_nxt c3 = base + of_nat (length got + sg_plen sg)" if "\<not> peer_fin c3"
    using that r1 by (auto simp: c3_def Let_def split: if_splits)
  have "conn_inv base data (got @ out) c3"
    unfolding conn_inv_def sp3 n using whole len1 rn by (simp add: c3_def Let_def)
  moreover have "src_port c3 = sp \<and> dst_port c3 = dp"
    using inv by (simp add: recv_inv_def c3_def c1_def Let_def)
  ultimately have "recv_inv sp dp base data (got @ out) (st\<lparr>g_conn := c3\<rparr>)"
    using inv by (simp add: recv_inv_def)
  moreover have "st' = send_ack hw (st\<lparr>g_conn := c3\<rparr>)"
    using d unfolding deliver_def c3_def c1_def by (simp add: Let_def)
  ultimately show ?thesis using send_ack_keeps [OF hw] out by simp
qed

text \<open>A state in which the receiver waits for the network.\<close>

definition waiting :: "'h net \<Rightarrow> bool" where
  "waiting st \<longleftrightarrow> \<not> peer_fin (g_conn st) \<and> rx_pos (g_conn st) = rx_len (g_conn st)"

definition answer_ok :: "nat \<Rightarrow> int \<Rightarrow> u8 list \<Rightarrow> bool" where
  "answer_ok m r out \<longleftrightarrow> (r = -1 \<and> out = [] \<or> r = int (length out)) \<and> length out \<le> m"

lemma recv_inv_fin: "recv_inv sp dp base data got st \<Longrightarrow> recv_inv sp dp base data got (st\<lparr>g_conn := (g_conn st)\<lparr>peer_fin := True\<rparr>\<rparr>)"
  by (simp add: recv_inv_def conn_inv_def spill_def)

lemma recv_step_inv:
  assumes hw: "card_ok (honest sp dp base data) hw" and inv: "recv_inv sp dp base data got st"
    and w: "waiting st" and len: "length data < 2 ^ 32" and s: "recv_step hw m st = (res, st')"
  shows "case res of
      None \<Rightarrow> recv_inv sp dp base data got st' \<and> waiting st'
    | Some (r, out) \<Rightarrow> recv_inv sp dp base data (got @ out) st' \<and> answer_ok m r out"
proof -
  obtain p st1 where p: "tcp_poll_segment hw st = (p, st1)" by (cases "tcp_poll_segment hw st")
  note h = poll_segment_honest [OF hw inv p]
  have i1: "recv_inv sp dp base data got st1" and c1: "g_conn st1 = g_conn st" using h by auto
  have w1: "waiting st1" using w c1 by (simp add: waiting_def)
  have ack: "recv_inv sp dp base data got (send_ack hw st1)" "waiting (send_ack hw st1)"
    using send_ack_keeps [OF hw i1] w1 by (auto simp: waiting_def)
  show ?thesis
  proof (cases p)
    case None
    then show ?thesis using s p i1 w1 by (auto simp: recv_step_def)
  next
    case (Some sg)
    note step = s [unfolded recv_step_def p Some, simplified, unfolded Let_def]
    consider "\<not> seg_ready sg" | "seg_ready sg" "flag sg TCP_RST"
      | "seg_ready sg" "\<not> flag sg TCP_RST" "sg_plen sg > 0" "sg_seq sg = rcv_nxt (g_conn st1)"
      | "seg_ready sg" "\<not> flag sg TCP_RST" "\<not> (sg_plen sg > 0 \<and> sg_seq sg = rcv_nxt (g_conn st1))"
      by metis
    then show ?thesis
    proof cases
      case 1
      then show ?thesis using step i1 w1 by auto
    next
      case 2
      then show ?thesis using step recv_inv_fin [OF i1] by (auto simp: answer_ok_def)
    next
      case 3
      obtain r out st2 where d: "deliver hw sg m st1 = ((r, out), st2)" by (metis surj_pair)
      have b: "sg_plen sg \<le> 1600" "unat (sg_seq sg - base) + sg_plen sg \<le> length data"
        "\<And>i n. i + n \<le> sg_plen sg \<Longrightarrow> seg_bytes st1 sg i n = take n (drop (unat (sg_seq sg - base) + i) data)"
        using h Some 3 by auto
      have "recv_inv sp dp base data (got @ out) st2 \<and> r = int (length out) \<and> length out \<le> m"
        by (rule deliver_inv [OF hw i1 _ _ len _ _ b d]) (use 3 w1 in \<open>auto simp: waiting_def\<close>)
      then show ?thesis using step 3 d by (auto simp: answer_ok_def)
    next
      case 4
      let ?st2 = "if sg_plen sg > 0 \<and> sg_seq sg \<noteq> rcv_nxt (g_conn st1) then send_ack hw st1 else st1"
      have i2: "recv_inv sp dp base data got ?st2" "waiting ?st2" using ack i1 w1 by auto
      show ?thesis
      proof (cases "flag sg TCP_FIN \<and> sg_plen sg = 0 \<and> sg_seq sg = rcv_nxt (g_conn st1)")
        case True
        let ?st3 = "st1\<lparr>g_conn := (g_conn st1)\<lparr>rcv_nxt := sg_seq sg + 1\<rparr>\<rparr>"
        have f: "recv_inv sp dp base data got (?st3\<lparr>g_conn := (g_conn ?st3)\<lparr>peer_fin := True\<rparr>\<rparr>)"
          using i1 by (simp add: recv_inv_def conn_inv_def spill_def)
        have "g_conn (send_ack hw ?st3) = g_conn ?st3" "all_frames (honest sp dp base data) (t_nic (send_ack hw ?st3))"
          using e1000.send_keeps [OF hw, of "t_nic st1"] i1
          by (auto simp: send_ack_def tcp_send_segment_def recv_inv_def split: prod.split) (metis snd_conv)
        then have "recv_inv sp dp base data got
            ((send_ack hw ?st3)\<lparr>g_conn := (g_conn (send_ack hw ?st3))\<lparr>peer_fin := True\<rparr>\<rparr>)"
          using f by (simp add: recv_inv_def)
        then show ?thesis using step 4 True by (auto simp: answer_ok_def)
      next
        case False
        have "res = None" "st' = ?st2" using step 4 False by (auto split: if_splits)
        then show ?thesis using i2 by simp
      qed
    qed
  qed
qed

lemma sleep_keeps:
  "recv_inv sp dp base data got (st\<lparr>t_nic := pit_sleep ms (t_nic st)\<rparr>) = recv_inv sp dp base data got st"
  "waiting (st\<lparr>t_nic := pit_sleep ms (t_nic st)\<rparr>) = waiting st"
  by (simp_all add: recv_inv_def waiting_def)

lemma recv_loop_inv:
  assumes hw: "card_ok (honest sp dp base data) hw" and len: "length data < 2 ^ 32"
    and "recv_inv sp dp base data got st" "waiting st" "recv_loop hw m timeout waited st = ((r, out), st')"
  shows "recv_inv sp dp base data (got @ out) st' \<and> answer_ok m r out"
  using assms
proof (induction hw m timeout waited st rule: recv_loop.induct)
  case (1 hw m timeout waited st)
  show ?case
  proof (cases "waited < timeout")
    case True
    obtain res st1 where s: "recv_step hw m st = (res, st1)" by (cases "recv_step hw m st")
    note h = recv_step_inv [OF "1.prems"(1,3,4,2) s]
    show ?thesis
    proof (cases res)
      case None
      have "recv_loop hw m timeout (waited + 5) (st1\<lparr>t_nic := pit_sleep 5 (t_nic st1)\<rparr>) = ((r, out), st')"
        using "1.prems"(5) True s None by (simp add: recv_loop.simps [of hw m timeout waited st])
      then show ?thesis
        using "1.IH" [OF True s [symmetric] None "1.prems"(1,2)] h None by (simp add: sleep_keeps)
    next
      case (Some a)
      then have "a = (r, out)" "st1 = st'"
        using "1.prems"(5) True s by (auto simp: recv_loop.simps [of hw m timeout waited st])
      then show ?thesis using h Some by simp
    qed
  next
    case False
    then show ?thesis using "1.prems" by (auto simp: recv_loop.simps [of hw m timeout waited st] answer_ok_def)
  qed
qed

lemma drain_inv:
  assumes "conn_inv base data got c" "rx_pos c < rx_len c" "drain_spill m c = (out, c')"
  shows "conn_inv base data (got @ out) c' \<and> length out \<le> m \<and> length out \<le> RX_BUF_LEN \<and>
    src_port c' = src_port c \<and> dst_port c' = dst_port c"
proof -
  define n where "n = (if rx_len c - rx_pos c < m then rx_len c - rx_pos c else m)"
  have l: "length (rx_buf c) = RX_BUF_LEN" "rx_len c \<le> RX_BUF_LEN" "n \<le> rx_len c - rx_pos c"
    using assms(1) by (auto simp: conn_inv_def n_def)
  have "out = map (\<lambda>i. rx_buf c ! (rx_pos c + i)) [0..<n]"
    using assms(3) by (auto simp: drain_spill_def Let_def n_def)
  then have out: "out = take n (drop (rx_pos c) (rx_buf c))" "length out = n"
    using l by (auto intro!: nth_equalityI)
  have c': "c' = (if rx_pos c + n \<ge> rx_len c then c\<lparr>rx_len := 0, rx_pos := 0\<rparr> else c\<lparr>rx_pos := rx_pos c + n\<rparr>)"
    using assms(3) by (auto simp: drain_spill_def Let_def n_def)
  have sp: "spill c = out @ spill c'"
  proof (cases "rx_pos c + n \<ge> rx_len c")
    case True
    then have "n = rx_len c - rx_pos c" using l by simp
    then show ?thesis using out c' True by (simp add: spill_def)
  next
    case False
    then have "take (rx_len c - rx_pos c) xs = take n xs @ take (rx_len c - (rx_pos c + n)) (drop n xs)" for xs :: "u8 list"
      using l(3) by (metis add.commute diff_diff_left le_add_diff_inverse take_add)
    then show ?thesis using out c' False by (simp add: spill_def add.commute)
  qed
  have "n \<le> m" by (simp add: n_def)
  then show ?thesis
    using assms(1) l out(2) sp c' by (auto simp: conn_inv_def add.assoc)
qed

lemma tcp_recv_inv:
  assumes hw: "card_ok (honest sp dp base data) hw" and len: "length data < 2 ^ 32"
    and inv: "recv_inv sp dp base data got st" and r: "tcp_recv hw m timeout st = ((r, out), st')"
  shows "recv_inv sp dp base data (got @ out) st' \<and> answer_ok m r out"
proof -
  let ?c = "g_conn st"
  have ci: "conn_inv base data got ?c" using inv by (simp add: recv_inv_def)
  consider "\<not> used ?c" | "used ?c" "rx_pos ?c < rx_len ?c" | "used ?c" "\<not> rx_pos ?c < rx_len ?c" "peer_fin ?c"
    | "used ?c" "\<not> rx_pos ?c < rx_len ?c" "\<not> peer_fin ?c" by blast
  then show ?thesis
  proof cases
    case 2
    obtain o' c' where d: "drain_spill m ?c = (o', c')" by (cases "drain_spill m ?c")
    then have "out = o'" "st' = st\<lparr>g_conn := c'\<rparr>" "r = to_int (length o')"
      using r 2 by (auto simp: tcp_recv_def)
    then show ?thesis
      using drain_inv [OF ci 2(2) d] inv by (auto simp: recv_inv_def answer_ok_def to_int_def)
  next
    case 4
    let ?st1 = "if recv_started ?c then st else st\<lparr>g_conn := ?c\<lparr>recv_started := True\<rparr>, t_nic := pit_sleep 20 (t_nic st)\<rparr>"
    have "recv_loop hw m timeout 0 ?st1 = ((r, out), st')" using r 4 by (simp add: tcp_recv_def Let_def)
    moreover have "recv_inv sp dp base data got ?st1" "waiting ?st1"
      using inv ci 4 by (auto simp: recv_inv_def conn_inv_def spill_def waiting_def)
    ultimately show ?thesis by (intro recv_loop_inv [OF hw len])
  qed (use r inv in \<open>auto simp: tcp_recv_def answer_ok_def\<close>)
qed

section \<open>Streams\<close>

text \<open>A series of calls, each with its buffer size and timeout.\<close>

fun recv_calls :: "('h nic \<Rightarrow> 'h nic) \<Rightarrow> (nat \<times> nat) list \<Rightarrow> 'h net \<Rightarrow> u8 list \<times> 'h net" where
  "recv_calls hw [] st = ([], st)"
| "recv_calls hw ((m, timeout) # calls) st =
     (let ((r, out), st1) = tcp_recv hw m timeout st; (outs, st2) = recv_calls hw calls st1 in (out @ outs, st2))"

lemma recv_calls_inv:
  assumes "card_ok (honest sp dp base data) hw" "length data < 2 ^ 32"
  shows "recv_inv sp dp base data got st \<Longrightarrow> recv_calls hw calls st = (out, st') \<Longrightarrow>
    recv_inv sp dp base data (got @ out) st'"
proof (induction calls arbitrary: got st out)
  case (Cons a calls)
  obtain m timeout where a: "a = (m, timeout)" by (cases a)
  obtain r o1 st1 where t: "tcp_recv hw m timeout st = ((r, o1), st1)" by (metis surj_pair)
  obtain o2 where o2: "recv_calls hw calls st1 = (o2, st')" "out = o1 @ o2"
    using Cons.prems(2) t a by (auto split: prod.splits)
  have "recv_inv sp dp base data (got @ o1) st1" using tcp_recv_inv [OF assms Cons.prems(1) t] by simp
  from Cons.IH [OF this o2(1)] show ?case using o2(2) by simp
qed simp

text \<open>C22. The receiver neither loses nor invents data: over any series of calls of
  \<open>tcp_recv\<close> with any buffer sizes and timeouts, and whatever segments of the peer's stream
  the network repeats, drops or reorders, the bytes handed out are an initial part of the
  stream; as long as the peer has not closed, the acknowledgement number is the one of
  the first byte that was neither handed out nor kept for the next call.\<close>

theorem tcp_recv_stream:
  assumes "card_ok (honest (src_port (g_conn st)) (dst_port (g_conn st)) base data) hw"
    and "all_frames (honest (src_port (g_conn st)) (dst_port (g_conn st)) base data) (t_nic st)"
    and "length data < 2 ^ 32" "rcv_nxt (g_conn st) = base"
    and "rx_len (g_conn st) = 0" "rx_pos (g_conn st) = 0" "length (rx_buf (g_conn st)) = RX_BUF_LEN"
    and "recv_calls hw calls st = (out, st')"
  shows "out = take (length out) data \<and>
    (\<not> peer_fin (g_conn st') \<longrightarrow>
       rcv_nxt (g_conn st') = base + of_nat (length out) + of_nat (rx_len (g_conn st') - rx_pos (g_conn st')))"
proof -
  let ?sp = "src_port (g_conn st)" and ?dp = "dst_port (g_conn st)"
  have "recv_inv ?sp ?dp base data [] st"
    using assms(2,4-7) by (simp add: recv_inv_def conn_inv_def spill_def)
  from recv_calls_inv [OF assms(1,3) this assms(8)] have inv: "conn_inv base data out (g_conn st')"
    by (simp add: recv_inv_def)
  then have "out @ spill (g_conn st') = take (length out + length (spill (g_conn st'))) data" by (simp add: conn_inv_def)
  then have "take (length out) (out @ spill (g_conn st')) = take (length out) data"
    by (metis le_add1 min.absorb1 take_take)
  then show ?thesis using inv spill_length [OF inv] by (simp add: conn_inv_def)
qed

section \<open>A sample connection\<close>

definition sample_conn :: tcp_conn where
  "sample_conn = \<lparr>used = True, c_dst_ip = 0x0A000202, dst_port = 80, src_port = 0xD000, snd_nxt = 1, rcv_nxt = 100,
     gw_mac = replicate 6 2, peer_fin = False, recv_started = True, rx_buf = replicate RX_BUF_LEN 0, rx_len = 0, rx_pos = 0\<rparr>"

text \<open>The other end, and the segment it sends.\<close>

definition sample_peer :: tcp_conn where
  "sample_peer = sample_conn\<lparr>dst_port := 0xD000, src_port := 80, snd_nxt := 100, rcv_nxt := 1\<rparr>"

definition sample_frame :: "u8 list" where
  "sample_frame = tcp_frame (replicate 6 2) sample_peer 0x18 [10, 20]"

definition sample_net :: "unit net" where
  "sample_net = \<lparr>t_nic = sample_nic\<lparr>rx_ring := (rx_ring sample_nic)[0 := \<lparr>rxd_addr = 0, rxd_length = 56, rxd_status = 1,
     rxd_data = sample_frame @ replicate 1992 0\<rparr>]\<rparr>, g_conn = sample_conn, g_rxbuf = replicate 1600 0\<rparr>"

lemma sample_frame_length: "length sample_frame = 56"
  by (simp add: sample_frame_def tcp_frame_def Let_def sample_peer_def sample_conn_def)

lemma sample_frame_match:
  "src_port c = 0xD000 \<Longrightarrow> dst_port c = 80 \<Longrightarrow> tcp_match c (sample_frame @ junk) =
    Some \<lparr>sg_flags = 0x18, sg_seq = 100, sg_ack = 1, sg_off = 54, sg_plen = 2\<rparr>"
  using tcp_match_frame [where our_mac = "replicate 6 2" and p = sample_peer and payload = "[10, 20]" and c = c and flags = "0x18" and junk = junk]
  by (simp add: sample_frame_def sample_peer_def sample_conn_def)

lemma sample_frame_payload: "drop 54 sample_frame = [10, 20]"
  by (simp add: sample_frame_def tcp_frame_def Let_def sample_peer_def sample_conn_def)

lemma sample_frame_honest: "honest 0xD000 80 100 [10, 20] sample_frame"
  using sample_frame_match sample_frame_length sample_frame_payload by (auto simp: honest_def)

lemma sample_net_frames: "all_frames (honest 0xD000 80 100 [10, 20]) (t_nic sample_net)"
  using sample_frame_honest sample_frame_length
  by (auto simp: all_frames_def rings_ok_def sample_net_def sample_nic_def dest!: set_update_subset_insert [THEN subsetD])

lemma sample_recv: "\<exists>st'. recv_calls (\<lambda>n. n) [(1, 10)] sample_net = ([10], st')"
proof -
  let ?sg = "\<lparr>sg_flags = 0x18, sg_seq = 100, sg_ack = 1, sg_off = 54, sg_plen = 2\<rparr>"
  have c: "g_conn sample_net = sample_conn" by (simp add: sample_net_def)
  obtain nic where p: "e1000_receive_poll (\<lambda>n. n) 1600 (t_nic sample_net) = (sample_frame, nic)"
    by (simp add: e1000_receive_poll_def sample_net_def sample_nic_def Let_def sample_frame_length)
  define st1 where "st1 = sample_net\<lparr>t_nic := nic, g_rxbuf := sample_frame @ drop 56 (g_rxbuf sample_net)\<rparr>"
  have m: "tcp_poll_segment (\<lambda>n. n) sample_net = (Some ?sg, st1)"
    using p sample_frame_match [of sample_conn] c
    by (simp add: tcp_poll_segment_def Let_def sample_frame_length st1_def) (simp add: sample_conn_def)
  have "sample_frame ! 54 = 10"
    using arg_cong [OF sample_frame_payload, of "\<lambda>xs. xs ! 0"] sample_frame_length by simp
  then have b: "seg_bytes st1 ?sg 0 1 = [10]"
    by (simp add: seg_bytes_def st1_def nth_append sample_frame_length)
  obtain st2 where d: "deliver (\<lambda>n. n) ?sg 1 st1 = ((1, [10]), st2)"
    using b by (simp add: deliver_def Let_def to_int_def)
  have "recv_step (\<lambda>n. n) 1 sample_net = (Some (1, [10]), st2)"
    using m d c by (simp add: recv_step_def seg_ready_def to_int_def flag_def st1_def) (simp add: sample_conn_def)
  then have "recv_loop (\<lambda>n. n) 1 10 0 sample_net = ((1, [10]), st2)" by (simp add: recv_loop.simps)
  then have "tcp_recv (\<lambda>n. n) 1 10 sample_net = ((1, [10]), st2)"
    by (simp add: tcp_recv_def c) (simp add: sample_conn_def)
  then show ?thesis by simp
qed

theorem tcp_segment_roundtrip_witness:
  "tcp_match sample_conn (tcp_frame (replicate 6 2) sample_peer 0x18 [10, 20] @ [0]) =
    Some \<lparr>sg_flags = 0x18, sg_seq = 100, sg_ack = 1, sg_off = 54, sg_plen = 2\<rparr>"
proof -
  have "length (gw_mac sample_peer) = 6" "src_port sample_peer = dst_port sample_conn" "dst_port sample_peer = src_port sample_conn"
    "snd_nxt sample_peer = 100" "rcv_nxt sample_peer = 1"
    by (simp_all add: sample_peer_def sample_conn_def)
  then show ?thesis
    using tcp_segment_roundtrip [where our_mac = "replicate 6 2" and p = sample_peer and payload = "[10, 20]" and c = sample_conn
        and flags = "0x18" and junk = "[0]"] by (simp add: Let_def)
qed

theorem tcp_recv_stream_witness:
  "\<exists>st'. recv_calls (\<lambda>n. n) [(1, 10)] sample_net = ([10], st') \<and>
     (\<not> peer_fin (g_conn st') \<longrightarrow>
        rcv_nxt (g_conn st') = 100 + of_nat 1 + of_nat (rx_len (g_conn st') - rx_pos (g_conn st')))"
proof -
  obtain st' where r: "recv_calls (\<lambda>n. n) [(1, 10)] sample_net = ([10], st')" using sample_recv by blast
  have c: "src_port (g_conn sample_net) = 0xD000" "dst_port (g_conn sample_net) = 80" "rcv_nxt (g_conn sample_net) = 100"
    "rx_len (g_conn sample_net) = 0" "rx_pos (g_conn sample_net) = 0" "length (rx_buf (g_conn sample_net)) = RX_BUF_LEN"
    by (simp_all add: sample_net_def sample_conn_def)
  have "card_ok P (\<lambda>n. n)" for P by (simp add: card_ok_def)
  then show ?thesis
    using tcp_recv_stream [of sample_net 100 "[10, 20]" "\<lambda>n. n" "[(1, 10)]" "[10]" st'] sample_net_frames c r by auto
qed

end
