(* ===== verification/Task.thy ===== *)
theory Task
  imports Kernel_Heap "HOL-Library.Monad_Syntax"
begin

text \<open>
  \<open>src/task.c\<close>: tasks and the round-robin scheduler.  Task structures live at heap
  addresses in the store \<open>tasks\<close>; a read or write where no structure is faults (\<open>None\<close>).
  The ready ring and the zombie list are linked through \<open>t_next\<close>, and the loops over them
  follow these links, so they are partial functions.  The registers the scheduler
  switches (\<open>CR3\<close>, the FS base, the kernel stack of the TSS) are fields; \<open>task_switch\<close>
  itself, which exchanges the processor's stack, is the change of \<open>current\<close>.  A tick, a yield,
  a pass of a wait and an exit after its files are closed run with interrupts disabled.  The
  creation of a task does not: \<open>task_spawn\<close>, \<open>task_spawn_user\<close> and \<open>task_clone_user\<close> allocate and
  fill the structure with interrupts enabled and disable them for \<open>ready_insert\<close> only; here each is
  one definition, so that what another task does to the heap in the middle of an allocation is not
  covered.  The file tables and the exit hook belong to other parts: what they do to the heap is
  the parameter \<open>hook\<close>.
\<close>

section \<open>State\<close>

datatype task_state = TASK_READY | TASK_RUNNING | TASK_BLOCKED | TASK_DEAD

record task =
  rsp :: nat
  stack_base :: nat
  stack_size :: nat
  kstack_top :: nat
  user_rip :: nat
  user_rsp :: nat
  resume_frame :: nat
  pd_phys :: u64
  t_id :: nat
  t_state :: task_state
  is_user :: bool
  t_name :: string
  t_parent :: nat
  exit_code :: int
  has_exited :: bool
  wait_any :: bool
  reaped_by_parent :: bool
  on_exit :: bool
  user_data :: nat
  fs_base :: u64
  t_next :: nat

record sched =
  s_heap :: kheap
  tasks :: "nat \<Rightarrow> task option"
  s_stack :: "nat \<Rightarrow> nat"
  current :: nat
  ready :: nat
  next_id :: nat
  preempt_enabled :: bool
  zombie :: nat
  fsbase :: u64
  tss_rsp0 :: nat

text \<open>What a hook does to the heap, given the structure of the task it is called for.\<close>

type_synonym hook = "task \<Rightarrow> kheap \<Rightarrow> kheap"

abbreviation (input) STACK_SIZE :: nat where "STACK_SIZE \<equiv> 32768"
abbreviation (input) TASK_SIZE :: nat where "TASK_SIZE \<equiv> 456"
abbreviation (input) FORK_FRAME_BYTES :: nat where "FORK_FRAME_BYTES \<equiv> 176"

definition modify :: "nat \<Rightarrow> (task \<Rightarrow> task) \<Rightarrow> sched \<Rightarrow> sched option" where
  "modify a f st = (case tasks st a of None \<Rightarrow> None | Some t \<Rightarrow> Some (st\<lparr>tasks := (tasks st)(a \<mapsto> f t)\<rparr>))"

text \<open>\<open>memset\<close> of a new structure.\<close>

definition blank_task :: task where
  "blank_task = \<lparr>rsp = 0, stack_base = 0, stack_size = 0, kstack_top = 0, user_rip = 0, user_rsp = 0, resume_frame = 0,
     pd_phys = 0, t_id = 0, t_state = TASK_READY, is_user = False, t_name = [], t_parent = 0, exit_code = 0,
     has_exited = False, wait_any = False, reaped_by_parent = False, on_exit = False, user_data = 0, fs_base = 0, t_next = 0\<rparr>"

section \<open>Ring and stacks\<close>

definition switch_pd :: "nat \<Rightarrow> sched \<Rightarrow> sched option" where
  "switch_pd a st =
     (case tasks st a of
        None \<Rightarrow> None
      | Some t \<Rightarrow>
          let target = (if pd_phys t \<noteq> 0 then pd_phys t else of_nat (g_kernel_pml4 (k_vmm (s_heap st))))
          in Some (st\<lparr>s_heap := (s_heap st)\<lparr>k_vmm := vmm_switch (k_vmm (s_heap st)) target\<rparr>\<rparr>))"

definition task_init_stack :: "nat \<Rightarrow> nat \<Rightarrow> nat \<Rightarrow> sched \<Rightarrow> nat \<times> sched" where
  "task_init_stack stack_top fn trampoline st =
     (stack_top - 64,
      st\<lparr>s_stack := (s_stack st)(stack_top - 8 := fn, stack_top - 16 := trampoline, stack_top - 24 := 0,
           stack_top - 32 := 0, stack_top - 40 := 0, stack_top - 48 := 0, stack_top - 56 := 0, stack_top - 64 := 0)\<rparr>)"

definition ready_insert :: "nat \<Rightarrow> sched \<Rightarrow> sched option" where
  "ready_insert t st =
     (if ready st = 0 then modify t (\<lambda>k. k\<lparr>t_next := t\<rparr>) (st\<lparr>ready := t\<rparr>)
      else do {
        r \<leftarrow> tasks st (ready st);
        st1 \<leftarrow> modify t (\<lambda>k. k\<lparr>t_next := t_next r\<rparr>) st;
        modify (ready st) (\<lambda>k. k\<lparr>t_next := t\<rparr>) st1
      })"

text \<open>The predecessor of \<open>t\<close> in the ring, searched from \<open>p\<close>; \<open>Some 0\<close> when \<open>t\<close> is not there.\<close>

partial_function (option) ring_pred :: "(nat \<Rightarrow> task option) \<Rightarrow> nat \<Rightarrow> nat \<Rightarrow> nat \<Rightarrow> nat option" where
  "ring_pred ts start t p =
     (case ts p of
        None \<Rightarrow> None
      | Some k \<Rightarrow>
          if t_next k = t then Some p
          else if t_next k = start then Some 0
          else ring_pred ts start t (t_next k))"

definition ready_remove :: "nat \<Rightarrow> sched \<Rightarrow> sched option" where
  "ready_remove t st =
     (if ready st = 0 \<or> t = 0 then Some st
      else do {
        p \<leftarrow> ring_pred (tasks st) (ready st) t (ready st);
        if p = 0 then Some st
        else if p = t then modify t (\<lambda>k. k\<lparr>t_next := 0\<rparr>) (st\<lparr>ready := 0\<rparr>)
        else do {
          k \<leftarrow> tasks st t;
          st1 \<leftarrow> modify p (\<lambda>q. q\<lparr>t_next := t_next k\<rparr>) st;
          modify t (\<lambda>q. q\<lparr>t_next := 0\<rparr>) (if ready st = t then st1\<lparr>ready := t_next k\<rparr> else st1)
        }
      })"

definition name_copy :: "string \<Rightarrow> nat \<Rightarrow> string" where
  "name_copy src max_len = take (max_len - 1) src"

section \<open>Creation\<close>

definition tasking_init :: "sched \<Rightarrow> sched option" where
  "tasking_init st =
     (case kmalloc (s_heap st) TASK_SIZE of
        None \<Rightarrow> None
      | Some (t, h) \<Rightarrow>
          if t = 0 then Some (st\<lparr>s_heap := h\<rparr>)
          else do {
            st1 \<leftarrow> ready_insert t (st\<lparr>s_heap := h, next_id := next_id st + 1,
                     tasks := (tasks st)(t \<mapsto> blank_task\<lparr>t_id := next_id st, t_state := TASK_RUNNING,
                                                      t_name := name_copy ''kmain'' 16\<rparr>)\<rparr>);
            Some (st1\<lparr>current := t\<rparr>)
          })"

text \<open>The two allocations of a new task: its structure and its stack.\<close>

definition alloc_task :: "sched \<Rightarrow> ((nat \<times> nat) \<times> sched) option" where
  "alloc_task st =
     (case kmalloc (s_heap st) TASK_SIZE of
        None \<Rightarrow> None
      | Some (t, h) \<Rightarrow>
          if t = 0 then Some ((0, 0), st\<lparr>s_heap := h\<rparr>)
          else case kmalloc h STACK_SIZE of
                 None \<Rightarrow> None
               | Some (base, h1) \<Rightarrow>
                   if base = 0 then map_option (\<lambda>h2. ((0, 0), st\<lparr>s_heap := h2\<rparr>)) (kfree h1 t)
                   else Some ((t, base), st\<lparr>s_heap := h1\<rparr>))"

definition new_task :: "nat \<Rightarrow> sched \<Rightarrow> task" where
  "new_task base st = blank_task\<lparr>stack_base := base, stack_size := STACK_SIZE, kstack_top := base + STACK_SIZE,
     t_id := next_id st, t_state := TASK_READY\<rparr>"

text \<open>The result is the id of the new task, \<open>-1\<close> without memory.  \<open>fn\<close> and \<open>trampoline\<close> are code
  addresses.\<close>

definition task_spawn :: "nat \<Rightarrow> nat \<Rightarrow> string option \<Rightarrow> sched \<Rightarrow> (int \<times> sched) option" where
  "task_spawn trampoline fn name st = do {
     ((t, base), st1) \<leftarrow> alloc_task st;
     if t = 0 then Some (-1, st1)
     else let (sp, st2) = task_init_stack (base + STACK_SIZE) fn trampoline st1;
              k = (new_task base st2)\<lparr>rsp := sp, t_name := name_copy (case name of None \<Rightarrow> ''task'' | Some n \<Rightarrow> n) 16\<rparr>
          in do {
            st3 \<leftarrow> ready_insert t (st2\<lparr>tasks := (tasks st2)(t \<mapsto> k), next_id := next_id st2 + 1\<rparr>);
            Some (int (t_id k), st3)
          }
   }"

definition task_spawn_user :: "nat \<Rightarrow> nat \<Rightarrow> nat \<Rightarrow> nat \<Rightarrow> u64 \<Rightarrow> string option \<Rightarrow> sched \<Rightarrow> (int \<times> sched) option" where
  "task_spawn_user trampoline shim uip usp pd name st = do {
     ((t, base), st1) \<leftarrow> alloc_task st;
     if t = 0 then Some (-1, st1)
     else let (sp, st2) = task_init_stack (base + STACK_SIZE) shim trampoline st1;
              k = (new_task base st2)\<lparr>rsp := sp, user_rip := uip, user_rsp := usp, pd_phys := pd, is_user := True,
                    t_name := name_copy (case name of None \<Rightarrow> ''user'' | Some n \<Rightarrow> n) 16\<rparr>
          in do {
            st3 \<leftarrow> ready_insert t (st2\<lparr>tasks := (tasks st2)(t \<mapsto> k), next_id := next_id st2 + 1\<rparr>);
            Some (int (t_id k), st3)
          }
   }"

text \<open>The register frame of the parent, a list of quadwords, goes to the top of the new stack.\<close>

definition copy_frame :: "nat \<Rightarrow> nat list \<Rightarrow> sched \<Rightarrow> sched" where
  "copy_frame sp frame st =
     st\<lparr>s_stack := fold (\<lambda>i m. m(sp + 8 * i := frame ! i)) [0..<FORK_FRAME_BYTES div 8] (s_stack st)\<rparr>"

definition task_clone_user :: "hook \<Rightarrow> nat \<Rightarrow> nat \<Rightarrow> nat list \<Rightarrow> u64 \<Rightarrow> string option \<Rightarrow> sched \<Rightarrow> (int \<times> sched) option" where
  "task_clone_user fdt_clone trampoline shim frame pd name st = do {
     ((t, base), st1) \<leftarrow> alloc_task st;
     if t = 0 then Some (-1, st1)
     else let sp = base + STACK_SIZE - FORK_FRAME_BYTES;
              (sp1, st2) = task_init_stack sp shim trampoline (copy_frame sp frame st1);
              k = (new_task base st2)\<lparr>rsp := sp1, pd_phys := pd, is_user := True, fs_base := fsbase st2, resume_frame := sp,
                    t_name := name_copy (case name of None \<Rightarrow> ''child'' | Some n \<Rightarrow> n) 16\<rparr>
          in do {
            st3 \<leftarrow> ready_insert t (st2\<lparr>tasks := (tasks st2)(t \<mapsto> k), next_id := next_id st2 + 1,
                     s_heap := fdt_clone k (s_heap st2)\<rparr>);
            Some (int (t_id k), st3)
          }
   }"

section \<open>Scheduling\<close>

definition runnable :: "task \<Rightarrow> bool" where
  "runnable k \<longleftrightarrow> t_state k = TASK_READY \<or> t_state k = TASK_RUNNING"

partial_function (option) pick_from :: "(nat \<Rightarrow> task option) \<Rightarrow> nat \<Rightarrow> nat \<Rightarrow> nat option" where
  "pick_from ts start p =
     (if p = start then Some start
      else case ts p of
             None \<Rightarrow> None
           | Some k \<Rightarrow> if runnable k then Some p else pick_from ts start (t_next k))"

definition pick_next :: "sched \<Rightarrow> nat \<Rightarrow> nat option" where
  "pick_next st start = do { k \<leftarrow> tasks st start; pick_from (tasks st) start (t_next k) }"

text \<open>The switch from \<open>prev\<close> to \<open>nxt\<close> as \<open>yield\<close> and \<open>scheduler_tick\<close> do it.\<close>

definition switch_to :: "nat \<Rightarrow> nat \<Rightarrow> sched \<Rightarrow> sched option" where
  "switch_to prev nxt st = do {
     st1 \<leftarrow> modify prev (\<lambda>k. if t_state k = TASK_RUNNING then k\<lparr>t_state := TASK_READY\<rparr> else k) st;
     st2 \<leftarrow> modify nxt (\<lambda>k. k\<lparr>t_state := TASK_RUNNING\<rparr>) st1;
     n \<leftarrow> tasks st2 nxt;
     let st3 = st2\<lparr>current := nxt, tss_rsp0 := (if is_user n then kstack_top n else tss_rsp0 st2)\<rparr>;
     st4 \<leftarrow> switch_pd nxt st3;
     st5 \<leftarrow> modify prev (\<lambda>k. k\<lparr>fs_base := fsbase st4\<rparr>) st4;
     Some (st5\<lparr>fsbase := fs_base n\<rparr>)
   }"

definition scheduler_tick :: "sched \<Rightarrow> sched option" where
  "scheduler_tick st =
     (if \<not> preempt_enabled st \<or> current st = 0 \<or> ready st = 0 then Some st
      else do {
        nxt \<leftarrow> pick_next st (current st);
        if nxt = current st then Some st else switch_to (current st) nxt st
      })"

definition free_task :: "hook \<Rightarrow> nat \<Rightarrow> sched \<Rightarrow> sched option" where
  "free_task hook z st = do {
     k \<leftarrow> tasks st z;
     let h = (if on_exit k then hook k (s_heap st) else s_heap st);
     h1 \<leftarrow> (if stack_base k \<noteq> 0 then kfree h (stack_base k) else Some h);
     h2 \<leftarrow> kfree h1 z;
     Some (st\<lparr>s_heap := h2, tasks := (tasks st)(z := None)\<rparr>)
   }"

partial_function (option) reap_from :: "hook \<Rightarrow> nat \<Rightarrow> nat \<Rightarrow> sched \<Rightarrow> sched option" where
  "reap_from hook prev z st =
     (if z = 0 then Some st
      else case tasks st z of
             None \<Rightarrow> None
           | Some k \<Rightarrow>
               if reaped_by_parent k
               then (case (if prev \<noteq> 0 then modify prev (\<lambda>q. q\<lparr>t_next := t_next k\<rparr>) st
                           else Some (st\<lparr>zombie := t_next k\<rparr>)) of
                       None \<Rightarrow> None
                     | Some st1 \<Rightarrow>
                         (case free_task hook z st1 of
                            None \<Rightarrow> None
                          | Some st2 \<Rightarrow> reap_from hook prev (t_next k) st2))
               else reap_from hook z (t_next k) st)"

definition reap_zombies :: "hook \<Rightarrow> sched \<Rightarrow> sched option" where
  "reap_zombies hook st = reap_from hook 0 (zombie st) st"

definition yield :: "hook \<Rightarrow> sched \<Rightarrow> sched option" where
  "yield hook st = do {
     st1 \<leftarrow> reap_zombies hook st;
     if current st1 = 0 \<or> ready st1 = 0 then Some st1
     else do {
       nxt \<leftarrow> pick_next st1 (current st1);
       if nxt = current st1 then Some st1 else switch_to (current st1) nxt st1
     }
   }"

definition tasking_enable_preemption :: "sched \<Rightarrow> sched" where
  "tasking_enable_preemption st = st\<lparr>preempt_enabled := True\<rparr>"

section \<open>Exit and wait\<close>

text \<open>The search for a task to run after an exit; \<open>Some 0\<close> when none is runnable.\<close>

partial_function (option) first_runnable :: "(nat \<Rightarrow> task option) \<Rightarrow> nat \<Rightarrow> nat \<Rightarrow> nat option" where
  "first_runnable ts start p =
     (case ts p of
        None \<Rightarrow> None
      | Some k \<Rightarrow>
          if t_state k = TASK_DEAD \<or> t_state k = TASK_BLOCKED
          then (if t_next k = start then Some 0 else first_runnable ts start (t_next k))
          else Some p)"

definition wake_parent :: "nat \<Rightarrow> sched \<Rightarrow> sched option" where
  "wake_parent p st =
     (if p = 0 then Some st
      else modify p (\<lambda>k. if t_state k = TASK_BLOCKED \<and> wait_any k then k\<lparr>t_state := TASK_READY\<rparr> else k) st)"

text \<open>\<open>task_exit_code\<close> up to the point where the task is a zombie, and its choice of the next task.
  The result says whether the processor halts because nothing is left to run.\<close>

definition exit_detach :: "nat \<Rightarrow> int \<Rightarrow> sched \<Rightarrow> sched option" where
  "exit_detach cur code st = do {
     st1 \<leftarrow> modify cur (\<lambda>k. k\<lparr>exit_code := code, has_exited := True, t_state := TASK_DEAD\<rparr>) st;
     st2 \<leftarrow> ready_remove cur st1;
     k \<leftarrow> tasks st2 cur;
     st3 \<leftarrow> wake_parent (t_parent k) st2;
     st4 \<leftarrow> modify cur (\<lambda>q. q\<lparr>reaped_by_parent := (if t_parent k = 0 then True else reaped_by_parent q),
                           t_next := zombie st3\<rparr>) st3;
     Some (st4\<lparr>zombie := cur\<rparr>)
   }"

definition exit_dispatch :: "sched \<Rightarrow> (bool \<times> sched) option" where
  "exit_dispatch st =
     (if ready st = 0 then Some (True, st)
      else do {
        nxt \<leftarrow> first_runnable (tasks st) (ready st) (ready st);
        if nxt = 0 then Some (True, st)
        else do {
          st1 \<leftarrow> modify nxt (\<lambda>k. k\<lparr>t_state := TASK_RUNNING\<rparr>) st;
          n \<leftarrow> tasks st1 nxt;
          st2 \<leftarrow> switch_pd nxt (st1\<lparr>current := nxt, tss_rsp0 := (if is_user n then kstack_top n else tss_rsp0 st1)\<rparr>);
          Some (False, st2\<lparr>fsbase := fs_base n\<rparr>)
        }
      })"

definition task_exit_code :: "hook \<Rightarrow> int \<Rightarrow> sched \<Rightarrow> (bool \<times> sched) option" where
  "task_exit_code fdt_release code st = do {
     k \<leftarrow> tasks st (current st);
     let st0 = (if is_user k then st\<lparr>s_heap := fdt_release k (s_heap st)\<rparr> else st);
     st1 \<leftarrow> exit_detach (current st0) code st0;
     exit_dispatch st1
   }"

definition task_exit :: "hook \<Rightarrow> sched \<Rightarrow> (bool \<times> sched) option" where
  "task_exit fdt_release st = task_exit_code fdt_release 0 st"

definition task_exit_trampoline :: "hook \<Rightarrow> sched \<Rightarrow> (bool \<times> sched) option" where
  "task_exit_trampoline fdt_release st = task_exit_code fdt_release (-11) st"

definition wait_match :: "task \<Rightarrow> int \<Rightarrow> bool" where
  "wait_match k pid \<longleftrightarrow> pid \<le> 0 \<or> int (t_id k) = pid"

partial_function (option) any_in_ring :: "sched \<Rightarrow> int \<Rightarrow> nat \<Rightarrow> bool option" where
  "any_in_ring st pid p =
     (case tasks st p of
        None \<Rightarrow> None
      | Some k \<Rightarrow>
          if t_parent k = current st \<and> p \<noteq> current st \<and> wait_match k pid \<and> t_state k \<noteq> TASK_DEAD then Some True
          else if t_next k = ready st then Some False
          else any_in_ring st pid (t_next k))"

partial_function (option) any_zombie :: "sched \<Rightarrow> int \<Rightarrow> nat \<Rightarrow> bool option" where
  "any_zombie st pid z =
     (if z = 0 then Some False
      else case tasks st z of
             None \<Rightarrow> None
           | Some k \<Rightarrow>
               if t_parent k = current st \<and> \<not> reaped_by_parent k \<and> wait_match k pid then Some True
               else any_zombie st pid (t_next k))"

definition has_any_child :: "int \<Rightarrow> sched \<Rightarrow> bool option" where
  "has_any_child pid st = do {
     r \<leftarrow> (if ready st = 0 then Some False else any_in_ring st pid (ready st));
     if r then Some True else any_zombie st pid (zombie st)
   }"

partial_function (option) dead_from :: "sched \<Rightarrow> int \<Rightarrow> nat \<Rightarrow> nat option" where
  "dead_from st pid z =
     (if z = 0 then Some 0
      else case tasks st z of
             None \<Rightarrow> None
           | Some k \<Rightarrow>
               if t_parent k = current st \<and> has_exited k \<and> \<not> reaped_by_parent k \<and> wait_match k pid then Some z
               else dead_from st pid (t_next k))"

definition find_dead_child :: "int \<Rightarrow> sched \<Rightarrow> nat option" where
  "find_dead_child pid st = dead_from st pid (zombie st)"

text \<open>One pass of the loop of \<open>task_wait_child_ex\<close> up to the call of \<open>yield\<close>, and what it does
  when the task runs again.\<close>

datatype wait_result = Reaped nat int | No_child | None_yet | Sleeps

definition wait_pass :: "int \<Rightarrow> bool \<Rightarrow> sched \<Rightarrow> (wait_result \<times> sched) option" where
  "wait_pass pid nohang st = do {
     z \<leftarrow> find_dead_child pid st;
     if z \<noteq> 0 then do {
       k \<leftarrow> tasks st z;
       st1 \<leftarrow> modify z (\<lambda>q. q\<lparr>reaped_by_parent := True\<rparr>) st;
       Some (Reaped (t_id k) (exit_code k), st1)
     }
     else do {
       c \<leftarrow> has_any_child pid st;
       if \<not> c then Some (No_child, st)
       else if nohang then Some (None_yet, st)
       else do {
         st1 \<leftarrow> modify (current st) (\<lambda>q. q\<lparr>wait_any := True, t_state := TASK_BLOCKED\<rparr>) st;
         Some (Sleeps, st1)
       }
     }
   }"

definition wait_resume :: "sched \<Rightarrow> sched option" where
  "wait_resume st = modify (current st) (\<lambda>q. q\<lparr>wait_any := False\<rparr>) st"

section \<open>Queries\<close>

partial_function (option) ring_list :: "(nat \<Rightarrow> task option) \<Rightarrow> nat \<Rightarrow> nat \<Rightarrow> (nat \<times> task) list option" where
  "ring_list ts start p =
     (case ts p of
        None \<Rightarrow> None
      | Some k \<Rightarrow>
          if t_next k = start then Some [(p, k)]
          else do { l \<leftarrow> ring_list ts start (t_next k); Some ((p, k) # l) })"

definition ring_tasks :: "sched \<Rightarrow> (nat \<times> task) list option" where
  "ring_tasks st = (if ready st = 0 then Some [] else ring_list (tasks st) (ready st) (ready st))"

definition task_find_by_id :: "int \<Rightarrow> sched \<Rightarrow> nat option" where
  "task_find_by_id i st =
     map_option (\<lambda>l. case List.find (\<lambda>(_, k). int (t_id k) = i) l of None \<Rightarrow> 0 | Some (p, _) \<Rightarrow> p) (ring_tasks st)"

text \<open>The loader ties a new user task to its resources \<open>r\<close> and to the task that created it.\<close>

definition task_adopt :: "int \<Rightarrow> nat \<Rightarrow> sched \<Rightarrow> sched option" where
  "task_adopt i r st = do {
     t \<leftarrow> task_find_by_id i st;
     if t = 0 then Some st
     else modify t (\<lambda>k. k\<lparr>user_data := r, on_exit := True, t_parent := current st\<rparr>) st
   }"

definition task_enumerate :: "nat \<Rightarrow> sched \<Rightarrow> nat list option" where
  "task_enumerate max_ids st =
     map_option (\<lambda>l. take max_ids (map (\<lambda>(_, k). t_id k) (filter (\<lambda>(_, k). t_state k \<noteq> TASK_DEAD) l))) (ring_tasks st)"

definition task_count_states :: "sched \<Rightarrow> (nat \<times> nat \<times> nat \<times> nat) option" where
  "task_count_states st =
     map_option (\<lambda>l. (length l, length (filter (\<lambda>(_, k). t_state k = TASK_RUNNING) l),
        length (filter (\<lambda>(_, k). t_state k = TASK_READY) l), length (filter (\<lambda>(_, k). t_state k = TASK_BLOCKED) l)))
       (ring_tasks st)"

end
