(* ===== verification/Task_Lists.thy ===== *)
theory Task_Lists
  imports Task
begin

text \<open>
  The linked structures of the scheduler: list segments through \<open>t_next\<close>, the ring seen
  from any of its members, and what the loops of \<open>src/task.c\<close> compute on them.
\<close>

section \<open>Segments\<close>

fun lseg :: "(nat \<Rightarrow> task option) \<Rightarrow> nat \<Rightarrow> nat list \<Rightarrow> nat \<Rightarrow> bool" where
  "lseg T p [] q \<longleftrightarrow> p = q"
| "lseg T p (x # xs) q \<longleftrightarrow> p = x \<and> p \<noteq> 0 \<and> (\<exists>k. T x = Some k \<and> lseg T (t_next k) xs q)"

lemma lseg_append: "lseg T p (xs @ ys) q \<longleftrightarrow> (\<exists>r. lseg T p xs r \<and> lseg T r ys q)"
  by (induction xs arbitrary: p) auto

lemma lseg_cong:
  "(\<And>x. x \<in> set xs \<Longrightarrow> map_option t_next (T' x) = map_option t_next (T x)) \<Longrightarrow> lseg T' p xs q = lseg T p xs q"
proof (induction xs arbitrary: p)
  case (Cons x xs)
  have "map_option t_next (T' x) = map_option t_next (T x)" using Cons.prems by simp
  then show ?case using Cons by (cases "T x"; cases "T' x") auto
qed simp

lemma lseg_other [simp]: "a \<notin> set xs \<Longrightarrow> lseg (T(a := v)) p xs q = lseg T p xs q"
  by (rule lseg_cong) auto

lemma lseg_same_next: "T a = Some k \<Longrightarrow> t_next k' = t_next k \<Longrightarrow> lseg (T(a \<mapsto> k')) p xs q = lseg T p xs q"
  by (rule lseg_cong) auto

lemma lseg_dom: "lseg T p xs q \<Longrightarrow> set xs \<subseteq> dom T \<and> 0 \<notin> set xs"
  by (induction xs arbitrary: p) auto

lemma lseg_last: "lseg T p (xs @ [x]) q \<longleftrightarrow> lseg T p xs x \<and> x \<noteq> 0 \<and> (\<exists>k. T x = Some k \<and> t_next k = q)"
  by (auto simp: lseg_append)

lemma lseg_split: "lseg T p (xs @ x # ys) q \<longleftrightarrow> lseg T p xs x \<and> lseg T x (x # ys) q"
  by (auto simp: lseg_append)

lemma lseg_unique: "lseg T p xs 0 \<Longrightarrow> lseg T p ys 0 \<Longrightarrow> xs = ys"
proof (induction xs arbitrary: p ys)
  case Nil
  then show ?case by (cases ys) auto
next
  case (Cons x xs)
  then show ?case by (cases ys) auto
qed

text \<open>A ring can be entered anywhere.\<close>

lemma ring_rotate: "lseg T a (a # xs @ b # ys) a \<Longrightarrow> lseg T b (b # ys @ a # xs) b"
proof -
  assume r: "lseg T a (a # xs @ b # ys) a"
  have "lseg T a ((a # xs) @ b # ys) a" using r by simp
  then have s: "lseg T a (a # xs) b" "lseg T b (b # ys) a" by (simp_all only: lseg_split)
  have "lseg T b ((b # ys) @ a # xs) b" using s by (simp only: lseg_split)
  then show ?thesis by simp
qed

lemma ring_at:
  assumes "lseg T p rs p" "a \<in> set rs"
  shows "\<exists>xs ys. rs = xs @ a # ys \<and> lseg T a (a # ys @ xs) a"
proof -
  obtain xs ys where rs: "rs = xs @ a # ys" using assms(2) by (meson split_list)
  show ?thesis
  proof (cases xs)
    case Nil
    then show ?thesis using assms(1) rs by (intro exI [of _ xs] exI [of _ ys]) auto
  next
    case (Cons b bs)
    then have "lseg T b (b # bs @ a # ys) b" using assms(1) rs by auto
    from ring_rotate [OF this] show ?thesis using rs Cons by (intro exI [of _ xs] exI [of _ ys]) auto
  qed
qed

section \<open>The loops\<close>

definition run_at :: "(nat \<Rightarrow> task option) \<Rightarrow> nat \<Rightarrow> bool" where
  "run_at T p \<longleftrightarrow> (case T p of None \<Rightarrow> False | Some k \<Rightarrow> runnable k)"

lemma pick_from_eq:
  "lseg T p ys start \<Longrightarrow> start \<notin> set ys \<Longrightarrow>
     pick_from T start p = Some (case List.find (run_at T) ys of None \<Rightarrow> start | Some q \<Rightarrow> q)"
proof (induction ys arbitrary: p)
  case Nil
  then show ?case by (simp add: pick_from.simps)
next
  case (Cons y ys)
  then obtain k where k: "T y = Some k" "lseg T (t_next k) ys start" "p = y" "y \<noteq> start" by auto
  then have "run_at T y = runnable k" by (simp add: run_at_def)
  then show ?case
    using Cons.IH [OF k(2)] Cons.prems k by (subst pick_from.simps) simp
qed

lemma pick_next_eq:
  assumes "lseg (tasks st) a (a # ys) a" "a \<notin> set ys"
  shows "pick_next st a = Some (case List.find (run_at (tasks st)) ys of None \<Rightarrow> a | Some q \<Rightarrow> q)"
proof -
  obtain k where "tasks st a = Some k" "lseg (tasks st) (t_next k) ys a" using assms(1) by auto
  then show ?thesis using pick_from_eq assms(2) by (simp add: pick_next_def)
qed

lemma find_None: "List.find P xs = None \<Longrightarrow> x \<in> set xs \<Longrightarrow> \<not> P x"
  by (induction xs) (auto split: if_splits)

text \<open>The search for the predecessor stops at the element before \<open>t\<close>.\<close>

lemma ring_pred_walk:
  "lseg T q (ws @ [p]) t \<Longrightarrow> t \<notin> set (tl (ws @ [p])) \<Longrightarrow> start \<notin> set (tl (ws @ [p])) \<Longrightarrow>
     ring_pred T start t q = Some p"
proof (induction ws arbitrary: q)
  case Nil
  then show ?case by (subst ring_pred.simps) auto
next
  case (Cons w ws)
  obtain k where k: "T w = Some k" "q = w" "lseg T (t_next k) (ws @ [p]) t" using Cons.prems(1) by auto
  have nx: "t_next k = hd (ws @ [p])" using k(3) by (cases ws) auto
  then have "t_next k \<in> set (ws @ [p])" by (metis hd_in_set snoc_eq_iff_butlast)
  then have "t_next k \<noteq> t" "t_next k \<noteq> start" using Cons.prems(2,3) by auto
  moreover have "set (tl (ws @ [p])) \<subseteq> set (ws @ [p])" by (cases ws) auto
  then have "ring_pred T start t (t_next k) = Some p"
    using Cons.IH [OF k(3)] Cons.prems(2,3) by auto
  ultimately show ?case using k(1,2) by (subst ring_pred.simps) simp
qed

text \<open>States that differ in links only.\<close>

definition unlinked :: "task option \<Rightarrow> task option" where
  "unlinked k = map_option (\<lambda>t. t\<lparr>t_next := 0\<rparr>) k"

definition relinked :: "sched \<Rightarrow> sched \<Rightarrow> bool" where
  "relinked st st' \<longleftrightarrow> (\<exists>T r. st' = st\<lparr>tasks := T, ready := r\<rparr> \<and> (\<forall>a. unlinked (T a) = unlinked (tasks st a)))"

lemma unlinked_simps [simp]:
  "unlinked None = None" "unlinked (Some k) = Some (k\<lparr>t_next := 0\<rparr>)"
  "unlinked (Some (k\<lparr>t_next := n\<rparr>)) = unlinked (Some k)"
  by (simp_all add: unlinked_def)

lemma unlinked_eq_None: "unlinked x = None \<longleftrightarrow> x = None"
  by (simp add: unlinked_def)

lemma unlinked_SomeE:
  assumes "unlinked x = unlinked (Some k)"
  obtains n where "x = Some (k\<lparr>t_next := n\<rparr>)"
proof (cases x)
  case (Some k')
  then have "k'\<lparr>t_next := 0\<rparr> = k\<lparr>t_next := 0\<rparr>" using assms by simp
  then have "k' = k\<lparr>t_next := t_next k'\<rparr>" by (cases k; cases k') simp
  then show thesis using that Some by blast
qed (use assms in simp)

lemma relinked_trans: "relinked st st1 \<Longrightarrow> relinked st1 st2 \<Longrightarrow> relinked st st2"
proof -
  assume "relinked st st1" "relinked st1 st2"
  then obtain T r T' r' where "st1 = st\<lparr>tasks := T, ready := r\<rparr>" "\<forall>a. unlinked (T a) = unlinked (tasks st a)"
    "st2 = st1\<lparr>tasks := T', ready := r'\<rparr>" "\<forall>a. unlinked (T' a) = unlinked (tasks st1 a)"
    unfolding relinked_def by blast
  then show ?thesis by (auto simp: relinked_def intro!: exI [of _ T'] exI [of _ r'])
qed

lemma relinked_modify: "tasks st a = Some k \<Longrightarrow> relinked st (st\<lparr>tasks := (tasks st)(a \<mapsto> k\<lparr>t_next := n\<rparr>)\<rparr>)"
  unfolding relinked_def by (rule exI [of _ "(tasks st)(a \<mapsto> k\<lparr>t_next := n\<rparr>)"], rule exI [of _ "ready st"]) simp

lemma relinked_ready: "relinked st (st\<lparr>ready := r\<rparr>)"
  unfolding relinked_def by (rule exI [of _ "tasks st"], rule exI [of _ r]) simp

section \<open>Insertion and removal\<close>

lemma ready_insert_ring:
  assumes ring: "lseg (tasks st) (ready st) rs (ready st)" "rs \<noteq> []" "distinct rs"
    and t: "t \<notin> set rs" "t \<noteq> 0" "tasks st t = Some k"
  shows "\<exists>st' rs'. ready_insert t st = Some st' \<and> relinked st st' \<and> set rs' = insert t (set rs) \<and> distinct rs' \<and>
    lseg (tasks st') (ready st') rs' (ready st') \<and> (\<forall>a. a \<notin> insert t (set rs) \<longrightarrow> tasks st' a = tasks st a)"
proof -
  obtain r xs where rs: "rs = r # xs" using ring(2) by (cases rs) auto
  then obtain kr where r: "ready st = r" "r \<noteq> 0" "tasks st r = Some kr" "lseg (tasks st) (t_next kr) xs r"
    using ring(1) by auto
  let ?st1 = "st\<lparr>tasks := (tasks st)(t \<mapsto> k\<lparr>t_next := t_next kr\<rparr>)\<rparr>"
  let ?T = "(tasks st)(t \<mapsto> k\<lparr>t_next := t_next kr\<rparr>, r \<mapsto> kr\<lparr>t_next := t\<rparr>)"
  have ne: "t \<noteq> r" "r \<notin> set xs" "t \<notin> set xs" using t(1) rs ring(3) by auto
  have i: "ready_insert t st = Some (st\<lparr>tasks := ?T\<rparr>)"
    using r t(3) ne by (simp add: ready_insert_def modify_def)
  have "relinked ?st1 (?st1\<lparr>tasks := (tasks ?st1)(r \<mapsto> kr\<lparr>t_next := t\<rparr>)\<rparr>)"
    by (rule relinked_modify) (use r ne in simp)
  then have rel: "relinked st (st\<lparr>tasks := ?T\<rparr>)" using relinked_trans [OF relinked_modify [of st t k "t_next kr", OF t(3)]] by simp
  have "lseg ?T r (r # t # xs) r" using r ne t(2) by simp
  then show ?thesis
    using i rel r(1) ne rs ring(3) t(1)
    by (intro exI [of _ "st\<lparr>tasks := ?T\<rparr>"] exI [of _ "r # t # xs"]) auto
qed

lemma ready_remove_ring:
  assumes ring: "lseg (tasks st) (ready st) rs (ready st)" "distinct rs" and t: "t \<in> set rs"
  shows "\<exists>st' rs'. ready_remove t st = Some st' \<and> relinked st st' \<and> set rs' = set rs - {t} \<and> distinct rs' \<and>
    (if rs' = [] then ready st' = 0 else lseg (tasks st') (ready st') rs' (ready st')) \<and>
    (\<forall>a. a \<notin> set rs \<longrightarrow> tasks st' a = tasks st a)"
proof -
  have nz: "0 \<notin> set rs" using lseg_dom ring(1) by blast
  then have t0: "t \<noteq> 0" using t by metis
  obtain k where k: "tasks st t = Some k" using lseg_dom [OF ring(1)] t by auto
  have r0: "ready st \<noteq> 0" using ring(1) t by (cases rs) auto
  consider "rs = [t]" | ms p where "rs = t # ms @ [p]" | us p vs where "rs = us @ p # t # vs"
  proof -
    obtain xs ys where xy: "rs = xs @ t # ys" using t by (meson split_list)
    show thesis
    proof (cases xs rule: rev_cases)
      case Nil
      then show ?thesis using that(1,2) xy by (cases ys rule: rev_cases) auto
    next
      case (snoc us p)
      then show ?thesis using that(3) xy by simp
    qed
  qed
  then show ?thesis
  proof cases
    case 1
    then have "ready st = t" "t_next k = t" using ring(1) k by auto
    then have "ring_pred (tasks st) (ready st) t (ready st) = Some t" using k by (subst ring_pred.simps) simp
    then have "ready_remove t st = Some (st\<lparr>ready := 0, tasks := (tasks st)(t \<mapsto> k\<lparr>t_next := 0\<rparr>)\<rparr>)"
      using r0 t0 k by (simp add: ready_remove_def modify_def)
    moreover have "relinked st (st\<lparr>ready := 0, tasks := (tasks st)(t \<mapsto> k\<lparr>t_next := 0\<rparr>)\<rparr>)"
      using relinked_trans [OF relinked_ready [of st 0] relinked_modify [of "st\<lparr>ready := 0\<rparr>" t k 0]] k by simp
    ultimately show ?thesis using 1 by (intro exI exI [of _ "[]"]) auto
  next
    case (2 ms p)
    have rt: "ready st = t" using ring(1) 2 by simp
    have p: "p \<noteq> t" "p \<noteq> 0" "p \<notin> set ms" "t \<notin> set ms" using ring(2) nz 2 by auto
    obtain kp where kp: "tasks st p = Some kp" "t_next kp = t" and seg: "lseg (tasks st) (t_next k) ms p"
      using ring(1) k rt unfolding 2 by (auto simp: lseg_last)
    have "lseg (tasks st) t ((t # ms) @ [p]) t" using ring(1) rt 2 by simp
    from ring_pred_walk [OF this] have pr: "ring_pred (tasks st) (ready st) t (ready st) = Some p"
      using ring(2) 2 rt by simp
    let ?T = "(tasks st)(p \<mapsto> kp\<lparr>t_next := t_next k\<rparr>, t \<mapsto> k\<lparr>t_next := 0\<rparr>)"
    have rm: "ready_remove t st = Some (st\<lparr>tasks := ?T, ready := t_next k\<rparr>)"
      using r0 t0 p pr k kp rt by (simp add: ready_remove_def modify_def)
    let ?st1 = "st\<lparr>tasks := (tasks st)(p \<mapsto> kp\<lparr>t_next := t_next k\<rparr>)\<rparr>"
    have a: "relinked st ?st1" by (rule relinked_modify [OF kp(1)])
    have b: "relinked ?st1 (?st1\<lparr>tasks := ?T\<rparr>)" using relinked_modify [of ?st1 t k 0] k p by simp
    have c: "relinked (?st1\<lparr>tasks := ?T\<rparr>) (?st1\<lparr>tasks := ?T, ready := t_next k\<rparr>)"
      using relinked_ready [of "?st1\<lparr>tasks := ?T\<rparr>" "t_next k"] by simp
    have rel: "relinked st (st\<lparr>tasks := ?T, ready := t_next k\<rparr>)"
      using relinked_trans [OF relinked_trans [OF a b] c] by simp
    have "lseg ?T (t_next k) (ms @ [p]) (t_next k)" using seg p by (simp add: lseg_last)
    then show ?thesis
      using rm rel 2 ring(2) by (intro exI [of _ "st\<lparr>tasks := ?T, ready := t_next k\<rparr>"] exI [of _ "ms @ [p]"]) auto
  next
    case (3 us p vs)
    have s: "lseg (tasks st) (ready st) us p" "lseg (tasks st) p (p # t # vs) (ready st)"
      using ring(1) unfolding 3 by (simp_all only: lseg_split)
    then obtain kp where kp: "tasks st p = Some kp" "t_next kp = t" and seg: "lseg (tasks st) (t_next k) vs (ready st)"
      using k by auto
    have p: "p \<noteq> t" "p \<noteq> 0" "p \<notin> set us" "p \<notin> set vs" "t \<notin> set us" "t \<notin> set vs" using ring(2) nz 3 by auto
    have rt: "ready st \<noteq> t" using s(1) p by (cases us) auto
    have "lseg (tasks st) (ready st) (us @ [p]) t" using s kp p by (simp add: lseg_last)
    moreover have "ready st = hd (us @ [p])" using s(1) by (cases us) auto
    then have "ready st \<notin> set (tl (us @ [p]))" using ring(2) 3 by (cases us) auto
    moreover have "t \<notin> set (tl (us @ [p]))" using p by (cases us) auto
    ultimately have pr: "ring_pred (tasks st) (ready st) t (ready st) = Some p" by (intro ring_pred_walk)
    let ?T = "(tasks st)(p \<mapsto> kp\<lparr>t_next := t_next k\<rparr>, t \<mapsto> k\<lparr>t_next := 0\<rparr>)"
    have rm: "ready_remove t st = Some (st\<lparr>tasks := ?T\<rparr>)"
      using r0 t0 p pr k kp rt by (simp add: ready_remove_def modify_def)
    let ?st1 = "st\<lparr>tasks := (tasks st)(p \<mapsto> kp\<lparr>t_next := t_next k\<rparr>)\<rparr>"
    have a: "relinked st ?st1" by (rule relinked_modify [OF kp(1)])
    have b: "relinked ?st1 (?st1\<lparr>tasks := ?T\<rparr>)" using relinked_modify [of ?st1 t k 0] k p by simp
    have rel: "relinked st (st\<lparr>tasks := ?T\<rparr>)" using relinked_trans [OF a b] by simp
    have "lseg ?T (ready st) (us @ p # vs) (ready st)" using s(1) seg p by (simp add: lseg_split)
    then show ?thesis
      using rm rel 3 ring(2) by (intro exI [of _ "st\<lparr>tasks := ?T\<rparr>"] exI [of _ "us @ p # vs"]) auto
  qed
qed

end
