(* ===== verification/Task_Correct.thy ===== *)
theory Task_Correct
  imports Task_Lists
begin

text \<open>
  The invariant of the scheduler and that every operation keeps it, along every sequence
  of operations; round-robin fairness of the timer tick; exit and wait.
\<close>

section \<open>Invariant\<close>

text \<open>The ring \<open>rs\<close> and the zombie list \<open>zs\<close> hold every task exactly once.\<close>

definition links :: "sched \<Rightarrow> nat list \<Rightarrow> nat list \<Rightarrow> bool" where
  "links st rs zs \<longleftrightarrow> lseg (tasks st) (ready st) rs (ready st) \<and> lseg (tasks st) (zombie st) zs 0 \<and>
     distinct (rs @ zs) \<and> dom (tasks st) = set rs \<union> set zs"

definition alive_at :: "sched \<Rightarrow> nat \<Rightarrow> bool" where
  "alive_at st a \<longleftrightarrow> (case tasks st a of
     None \<Rightarrow> False | Some k \<Rightarrow> t_state k \<noteq> TASK_DEAD \<and> (t_state k = TASK_RUNNING \<longrightarrow> a = current st))"

definition dead_at :: "sched \<Rightarrow> nat \<Rightarrow> bool" where
  "dead_at st z \<longleftrightarrow> (case tasks st z of None \<Rightarrow> False | Some k \<Rightarrow> t_state k = TASK_DEAD \<and> has_exited k)"

definition states_ok :: "sched \<Rightarrow> nat list \<Rightarrow> nat list \<Rightarrow> bool" where
  "states_ok st rs zs \<longleftrightarrow> current st \<in> set rs \<and> (\<forall>a \<in> set rs. alive_at st a) \<and> (\<forall>z \<in> set zs. dead_at st z)"

text \<open>The structures, the stacks and the data of the tasks are allocated, and no two of them coincide.\<close>

definition held :: "kheap \<Rightarrow> nat \<Rightarrow> bool" where
  "held h p \<longleftrightarrow> (\<exists>m > 0. (p, m) \<in> heap_areas h)"

definition task_mem :: "sched \<Rightarrow> nat \<Rightarrow> (nat \<times> nat) option" where
  "task_mem st a = map_option (\<lambda>k. (stack_base k, user_data k)) (tasks st a)"

definition own :: "(nat \<Rightarrow> (nat \<times> nat) option) \<Rightarrow> nat \<Rightarrow> nat set" where
  "own M a = (case M a of None \<Rightarrow> {} | Some (b, u) \<Rightarrow> {a, b, u} - {0})"

definition blocks :: "(nat \<Rightarrow> (nat \<times> nat) option) \<Rightarrow> nat set" where
  "blocks M = (\<Union>a. own M a)"

definition three_apart :: "nat \<Rightarrow> nat \<Rightarrow> nat \<Rightarrow> bool" where
  "three_apart a b u \<longleftrightarrow> a \<noteq> 0 \<and> a \<noteq> b \<and> a \<noteq> u \<and> (b = u \<longrightarrow> b = 0)"

definition apart_mem :: "(nat \<Rightarrow> (nat \<times> nat) option) \<Rightarrow> bool" where
  "apart_mem M \<longleftrightarrow> (\<forall>a b u. M a = Some (b, u) \<longrightarrow> three_apart a b u) \<and>
     (\<forall>a a'. a \<noteq> a' \<longrightarrow> own M a \<inter> own M a' = {})"

definition mem_ok :: "sched \<Rightarrow> bool" where
  "mem_ok st \<longleftrightarrow> heap_inv (s_heap st) \<and> (\<forall>p \<in> blocks (task_mem st). held (s_heap st) p) \<and> apart_mem (task_mem st)"

definition sched_inv :: "sched \<Rightarrow> bool" where
  "sched_inv st \<longleftrightarrow> (\<exists>rs zs. links st rs zs \<and> states_ok st rs zs) \<and> mem_ok st"

definition calm :: "sched \<Rightarrow> nat list \<Rightarrow> nat list \<Rightarrow> bool" where
  "calm st rs zs \<longleftrightarrow> links st rs zs \<and> states_ok st rs zs \<and> mem_ok st"

lemma calmD: "calm st rs zs \<Longrightarrow> links st rs zs" "calm st rs zs \<Longrightarrow> states_ok st rs zs" "calm st rs zs \<Longrightarrow> mem_ok st"
  by (simp_all add: calm_def)

lemma sched_inv_calm: "sched_inv st \<longleftrightarrow> (\<exists>rs zs. calm st rs zs)"
  by (auto simp: sched_inv_def calm_def)

text \<open>What is left alone: the tasks that have exited and wait to be collected.\<close>

definition kept :: "sched \<Rightarrow> sched \<Rightarrow> bool" where
  "kept st st' \<longleftrightarrow> (\<forall>z k. tasks st z = Some k \<longrightarrow> t_state k = TASK_DEAD \<longrightarrow> \<not> reaped_by_parent k \<longrightarrow>
     (\<exists>n. tasks st' z = Some (k\<lparr>t_next := n\<rparr>)))"

lemma kept_refl [simp]: "kept st st"
proof -
  have "k = k\<lparr>t_next := t_next k\<rparr>" for k by simp
  then show ?thesis unfolding kept_def by metis
qed

lemma kept_trans: 
  assumes "kept st st1" "kept st1 st2"
  shows "kept st st2"
  unfolding kept_def
proof (intro allI impI)
  fix z k assume k: "tasks st z = Some k" "t_state k = TASK_DEAD" "\<not> reaped_by_parent k"
  then obtain n where "tasks st1 z = Some (k\<lparr>t_next := n\<rparr>)" using assms(1) unfolding kept_def by blast
  then obtain m where "tasks st2 z = Some (k\<lparr>t_next := n\<rparr>\<lparr>t_next := m\<rparr>)"
    using assms(2) k(2,3) unfolding kept_def by fastforce
  then show "\<exists>n. tasks st2 z = Some (k\<lparr>t_next := n\<rparr>)" by auto
qed

lemma keptI:
  assumes "\<And>z k. tasks st z = Some k \<Longrightarrow> t_state k = TASK_DEAD \<Longrightarrow> \<not> reaped_by_parent k \<Longrightarrow>
    unlinked (tasks st' z) = unlinked (Some k)"
  shows "kept st st'"
  unfolding kept_def using assms unlinked_SomeE by metis

text \<open>
  What the exit hook and the file tables may do: \<open>S\<close> are the blocks of the tasks.  The exit
  hook may return the task's own data; the rest of \<open>S\<close> stays allocated.
\<close>

definition hook_ok :: "nat set \<Rightarrow> hook \<Rightarrow> bool" where
  "hook_ok S hook \<longleftrightarrow>
     (\<forall>k h. heap_inv h \<longrightarrow> heap_inv (hook k h) \<and> (\<forall>p \<in> S. held h p \<longrightarrow> p \<noteq> user_data k \<longrightarrow> held (hook k h) p))"

definition fdt_ok :: "nat set \<Rightarrow> hook \<Rightarrow> bool" where
  "fdt_ok S f \<longleftrightarrow> (\<forall>k h. heap_inv h \<longrightarrow> heap_inv (f k h) \<and> (\<forall>p \<in> S. held h p \<longrightarrow> held (f k h) p))"

lemma hook_ok_mono: "hook_ok S hook \<Longrightarrow> S' \<subseteq> S \<Longrightarrow> hook_ok S' hook"
  by (auto simp: hook_ok_def)

lemma mem_ok_cong:
  assumes "mem_ok st" "heap_inv (s_heap st')" "\<And>p. held (s_heap st) p \<Longrightarrow> held (s_heap st') p"
    and "\<And>a. task_mem st' a = task_mem st a"
  shows "mem_ok st'"
proof -
  have "task_mem st' = task_mem st" using assms(4) by (rule ext)
  then show ?thesis using assms(1-3) by (simp add: mem_ok_def)
qed

lemma links_cong:
  assumes "links st rs zs" "ready st' = ready st" "zombie st' = zombie st"
    and "\<And>a. map_option t_next (tasks st' a) = map_option t_next (tasks st a)"
  shows "links st' rs zs"
proof -
  have "tasks st' a = None \<longleftrightarrow> tasks st a = None" for a using assms(4) [of a] by (metis option.map_disc_iff)
  then have "dom (tasks st') = dom (tasks st)" by (simp add: dom_def)
  moreover have "lseg (tasks st') p xs q = lseg (tasks st) p xs q" for p xs q by (rule lseg_cong) (rule assms(4))
  ultimately show ?thesis using assms(1-3) by (simp add: links_def)
qed

lemma heap_vmm [simp]:
  "heap_inv (h\<lparr>k_vmm := v\<rparr>) = heap_inv h" "heap_areas (h\<lparr>k_vmm := v\<rparr>) = heap_areas h" "held (h\<lparr>k_vmm := v\<rparr>) p = held h p"
  by (simp_all add: heap_inv_def heap_areas_def held_def)

lemma links_nonzero: "links st rs zs \<Longrightarrow> a \<in> set rs \<union> set zs \<Longrightarrow> a \<noteq> 0"
  using lseg_dom by (auto simp: links_def)

lemma ready_nonzero: "links st rs zs \<Longrightarrow> rs \<noteq> [] \<Longrightarrow> ready st \<noteq> 0"
  by (cases rs) (auto simp: links_def)

section \<open>Switching\<close>

lemma switch_to_effect:
  assumes "tasks st prev = Some kp" "tasks st nxt = Some kn" "prev \<noteq> nxt"
  shows "\<exists>st' v. switch_to prev nxt st = Some st' \<and>
    tasks st' = (tasks st)(prev \<mapsto> kp\<lparr>t_state := (if t_state kp = TASK_RUNNING then TASK_READY else t_state kp), fs_base := fsbase st\<rparr>,
                           nxt \<mapsto> kn\<lparr>t_state := TASK_RUNNING\<rparr>) \<and>
    current st' = nxt \<and> ready st' = ready st \<and> zombie st' = zombie st \<and> preempt_enabled st' = preempt_enabled st \<and>
    fsbase st' = fs_base kn \<and> s_heap st' = (s_heap st)\<lparr>k_vmm := v\<rparr> \<and>
    cr3 v = (if pd_phys kn \<noteq> 0 then pd_phys kn else of_nat (g_kernel_pml4 (k_vmm (s_heap st))))"
  using assms by (simp add: switch_to_def modify_def switch_pd_def vmm_switch_def Let_def fun_upd_twist [OF assms(3)])
      (intro conjI impI exI, rule refl, simp, rule refl, simp)

lemma switch_to_inv:
  assumes l: "links st rs zs" and s: "states_ok st rs zs" and m: "mem_ok st" and n: "nxt \<in> set rs" "nxt \<noteq> current st"
  shows "\<exists>st'. switch_to (current st) nxt st = Some st' \<and> links st' rs zs \<and> states_ok st' rs zs \<and> mem_ok st' \<and>
    current st' = nxt \<and> preempt_enabled st' = preempt_enabled st \<and>
    (\<forall>a. map_option t_next (tasks st' a) = map_option t_next (tasks st a)) \<and>
    (\<forall>a. run_at (tasks st) a \<longrightarrow> run_at (tasks st') a) \<and> kept st st'"
proof -
  have c: "current st \<in> set rs" using s by (simp add: states_ok_def)
  obtain kp kn where k: "tasks st (current st) = Some kp" "tasks st nxt = Some kn"
    using l c n(1) by (force simp: links_def)
  obtain st' v where st': "switch_to (current st) nxt st = Some st'"
    "tasks st' = (tasks st)(current st \<mapsto> kp\<lparr>t_state := (if t_state kp = TASK_RUNNING then TASK_READY else t_state kp),
       fs_base := fsbase st\<rparr>, nxt \<mapsto> kn\<lparr>t_state := TASK_RUNNING\<rparr>)"
    "current st' = nxt" "ready st' = ready st" "zombie st' = zombie st" "s_heap st' = (s_heap st)\<lparr>k_vmm := v\<rparr>"
    "preempt_enabled st' = preempt_enabled st"
    using switch_to_effect [OF k n(2) [symmetric]] by blast
  have nx: "map_option t_next (tasks st' a) = map_option t_next (tasks st a)" for a using k by (auto simp: st'(2))
  have "links st' rs zs" by (rule links_cong [OF l st'(4,5) nx])
  moreover have "states_ok st' rs zs"
  proof -
    have dz: "set rs \<inter> set zs = {}" using l by (auto simp: links_def)
    have "alive_at st' a" if "a \<in> set rs" for a
    proof -
      have "alive_at st a" "alive_at st (current st)" using s that c by (auto simp: states_ok_def)
      then show ?thesis using k n(2) by (auto simp: alive_at_def st'(2,3) split: option.splits)
    qed
    moreover have "dead_at st' z" if "z \<in> set zs" for z
      using s that dz c n(1) by (auto simp: states_ok_def dead_at_def st'(2))
    ultimately show ?thesis using n(1) by (simp add: states_ok_def st'(3))
  qed
  moreover have "mem_ok st'"
  proof (rule mem_ok_cong [OF m])
    show "heap_inv (s_heap st')" using m by (simp add: mem_ok_def st'(6))
    show "held (s_heap st') p" if "held (s_heap st) p" for p using that by (simp add: st'(6))
    show "task_mem st' a = task_mem st a" for a using k by (simp add: task_mem_def st'(2))
  qed
  moreover have "run_at (tasks st') a" if "run_at (tasks st) a" for a
    using that k by (auto simp: run_at_def st'(2) runnable_def split: option.splits)
  moreover have "kept st st'"
  proof (rule keptI)
    fix z k' assume z: "tasks st z = Some k'" "t_state k' = TASK_DEAD"
    have "alive_at st (current st)" "alive_at st nxt" using s c n(1) by (auto simp: states_ok_def)
    then have "z \<noteq> current st" "z \<noteq> nxt" using z by (auto simp: alive_at_def)
    then show "unlinked (tasks st' z) = unlinked (Some k')" using z(1) by (simp add: st'(2))
  qed
  ultimately show ?thesis using st'(1,3,7) nx by blast
qed

text \<open>The ring as seen from the running task.\<close>

lemma ring_current:
  assumes "links st rs zs" "states_ok st rs zs"
  shows "\<exists>ys. lseg (tasks st) (current st) (current st # ys) (current st) \<and> set rs = insert (current st) (set ys) \<and>
    current st \<notin> set ys \<and> distinct ys \<and> length rs = Suc (length ys)"
proof -
  have "lseg (tasks st) (ready st) rs (ready st)" "current st \<in> set rs" "distinct rs"
    using assms by (auto simp: links_def states_ok_def)
  then obtain xs ys where "rs = xs @ current st # ys" "lseg (tasks st) (current st) (current st # ys @ xs) (current st)"
    using ring_at by blast
  then show ?thesis using \<open>distinct rs\<close> by (intro exI [of _ "ys @ xs"]) auto
qed

definition resched :: "sched \<Rightarrow> sched option" where
  "resched st = do {
     nxt \<leftarrow> pick_next st (current st);
     if nxt = current st then Some st else switch_to (current st) nxt st
   }"

lemma resched_inv:
  assumes c: "calm st rs zs"
  shows "\<exists>st'. resched st = Some st' \<and> calm st' rs zs \<and> kept st st'"
proof -
  note l = calmD(1) [OF c] and s = calmD(2) [OF c] and m = calmD(3) [OF c]
  obtain ys where r: "lseg (tasks st) (current st) (current st # ys) (current st)" "set rs = insert (current st) (set ys)"
    "current st \<notin> set ys" using ring_current [OF l s] by blast
  note p = pick_next_eq [OF r(1,3)]
  show ?thesis
  proof (cases "List.find (run_at (tasks st)) ys")
    case None
    then have "resched st = Some st" using p by (simp add: resched_def)
    then show ?thesis using c by simp
  next
    case (Some q)
    from find_SomeD [OF this] have "q \<in> set ys" by simp
    then have q': "q \<in> set rs" "q \<noteq> current st" using r(2,3) by blast+
    then have "resched st = switch_to (current st) q st" using p Some by (simp add: resched_def)
    then show ?thesis using switch_to_inv [OF l s m q'] unfolding calm_def by metis
  qed
qed

lemma tick_resched:
  "scheduler_tick st = (if \<not> preempt_enabled st \<or> current st = 0 \<or> ready st = 0 then Some st else resched st)"
  by (simp add: scheduler_tick_def resched_def)

lemma scheduler_tick_inv:
  assumes "calm st rs zs"
  shows "\<exists>st'. scheduler_tick st = Some st' \<and> calm st' rs zs \<and> kept st st'"
  using resched_inv [OF assms] assms by (auto simp: tick_resched)

section \<open>Fairness\<close>

fun ticks :: "nat \<Rightarrow> sched \<Rightarrow> sched option" where
  "ticks 0 st = Some st"
| "ticks (Suc n) st = do { st1 \<leftarrow> scheduler_tick st; ticks n st1 }"

text \<open>A runnable task that is \<open>i\<close> places behind the running one moves up with every tick.\<close>

lemma ticks_reach:
  assumes "links st rs zs" "states_ok st rs zs" "mem_ok st" "preempt_enabled st"
    and "lseg (tasks st) (current st) (current st # ys) (current st)" "distinct (current st # ys)"
    and "i < length ys" "run_at (tasks st) (ys ! i)" "set ys \<subseteq> set rs"
  shows "\<exists>n st'. n \<le> Suc i \<and> ticks n st = Some st' \<and> current st' = ys ! i"
  using assms
proof (induction i arbitrary: st ys rule: less_induct)
  case (less i)
  let ?c = "current st" and ?R = "run_at (tasks st)"
  have "?c \<in> set rs" using less.prems(2) by (simp add: states_ok_def)
  then have "rs \<noteq> []" "?c \<in> set rs \<union> set zs" by auto
  then have c0: "?c \<noteq> 0" "ready st \<noteq> 0"
    using links_nonzero [OF less.prems(1)] ready_nonzero [OF less.prems(1)] by blast+
  have "ys ! i \<in> set ys" using less.prems(7) by simp
  then have "List.find ?R ys \<noteq> None" using find_None [of ?R ys "ys ! i"] less.prems(8) by auto
  then obtain q where q: "List.find ?R ys = Some q" by auto
  obtain us vs where ys: "ys = us @ q # vs" "\<forall>u \<in> set us. \<not> ?R u" using find_split [OF q] by auto
  have nq: "q \<noteq> ?c" "q \<in> set rs" using less.prems(6,9) ys by auto
  have pk: "pick_next st ?c = Some q" using pick_next_eq [OF less.prems(5)] less.prems(6) q by simp
  obtain st1 where s1: "switch_to ?c q st = Some st1" "links st1 rs zs" "states_ok st1 rs zs" "mem_ok st1" "current st1 = q"
    "preempt_enabled st1 = preempt_enabled st"
    "\<forall>a. map_option t_next (tasks st1 a) = map_option t_next (tasks st a)" "\<forall>a. ?R a \<longrightarrow> run_at (tasks st1) a"
    using switch_to_inv [OF less.prems(1-3) nq(2,1)] by blast
  have tick: "scheduler_tick st = Some st1"
    using less.prems(4) c0 pk s1(1) nq(1) by (simp add: tick_resched resched_def)
  have iu: "length us \<le> i" using ys less.prems(7,8) by (metis not_le nth_append nth_mem)
  show ?case
  proof (cases "i = length us")
    case True
    then have "ys ! i = q" using ys by simp
    then show ?thesis using tick s1(5) by (intro exI [of _ 1] exI [of _ st1]) simp
  next
    case False
    define j where "j = i - Suc (length us)"
    define ys' where "ys' = vs @ ?c # us"
    have j: "j < i" "i = Suc (length us) + j" "Suc (length us) + Suc j \<le> Suc i" using iu False by (auto simp: j_def)
    have jv: "j < length vs" using less.prems(7) j(2) ys by simp
    have nth: "ys' ! j = ys ! i" using jv j(2) by (simp add: ys'_def ys nth_append)
    have "lseg (tasks st) q (q # vs @ ?c # us) q" using ring_rotate [of "tasks st" ?c us q vs] less.prems(5) ys by simp
    moreover have "lseg (tasks st1) q (q # vs @ ?c # us) q = lseg (tasks st) q (q # vs @ ?c # us) q"
      by (rule lseg_cong) (use s1(7) in blast)
    ultimately have ring1: "lseg (tasks st1) (current st1) (current st1 # ys') (current st1)" by (simp add: s1(5) ys'_def)
    have "\<exists>n st'. n \<le> Suc j \<and> ticks n st1 = Some st' \<and> current st' = ys' ! j"
    proof (rule less.IH [OF j(1) s1(2-4) _ ring1])
      show "preempt_enabled st1" using less.prems(4) s1(6) by simp
      show "distinct (current st1 # ys')" using less.prems(6) ys s1(5) by (auto simp: ys'_def)
      show "j < length ys'" using jv by (simp add: ys'_def)
      show "run_at (tasks st1) (ys' ! j)" using less.prems(8) s1(8) nth by simp
      show "set ys' \<subseteq> set rs" using less.prems(9,2) ys by (auto simp: ys'_def states_ok_def)
    qed
    then obtain n st' where n: "n \<le> Suc j" "ticks n st1 = Some st'" "current st' = ys ! i" using nth by auto
    then show ?thesis using tick j by (intro exI [of _ "Suc n"] exI [of _ st']) auto
  qed
qed

end
