(* ===== verification/Task_Reap.thy ===== *)
theory Task_Reap
  imports Task_Correct
begin

text \<open>
  The scheduler and the kernel heap: creating tasks and freeing the dead ones keeps the
  invariant, no memory in use is freed and no structure or stack is shared.
\<close>

section \<open>Blocks of memory\<close>

lemma held_kfree:
  assumes "heap_inv h" "held h p"
  obtains h' where "kfree h p = Some h'" "heap_inv h'" "\<And>q. held h q \<Longrightarrow> q \<noteq> p \<Longrightarrow> held h' q"
proof -
  obtain m where m: "0 < m" "(p, m) \<in> heap_areas h" using assms(2) by (auto simp: held_def)
  from kheap.free_area [OF assms(1) m(2)] show thesis using that by (force simp: held_def)
qed

lemma kmalloc_held:
  assumes "heap_inv h" "fits_u32 n"
  obtains p h' where "kmalloc h n = Some (p, h')" "heap_inv h'" "\<And>q. held h q \<Longrightarrow> held h' q"
    "p \<noteq> 0 \<Longrightarrow> held h' p \<and> \<not> held h p"
proof -
  obtain p h' where k: "kmalloc h n = Some (p, h')" "heap_inv h'" using kheap.malloc_returns [OF assms] by blast
  show thesis
  proof (cases "p = 0")
    case True
    have "heap_areas h' = heap_areas h" by (rule kheap.malloc_null [OF assms]) (use k(1) True in simp)
    then show thesis using that [OF k] True by (simp add: held_def)
  next
    case False
    obtain m where m: "n \<le> m" "heap_areas h' = insert (p, m) (heap_areas h)" "\<forall>b \<in> heap_areas h. apart (p, m) b"
      using kheap.malloc_area [OF assms k(1) False] by blast
    have "0 < m" using m(1) assms(2) by (simp add: fits_u32_def)
    then have "\<not> held h p" using m(3) by (force simp: held_def apart_def)
    then show thesis using that [OF k] m(2) \<open>0 < m\<close> by (auto simp: held_def)
  qed
qed

lemma apart_memD:
  assumes "apart_mem M"
  shows "M a = Some (b, u) \<Longrightarrow> three_apart a b u" "a \<noteq> a' \<Longrightarrow> own M a \<inter> own M a' = {}"
  using assms unfolding apart_mem_def by blast+

lemma own_upd [simp]:
  "own (M(t := None)) a = (if a = t then {} else own M a)"
  "own (M(t \<mapsto> (b, u))) a = (if a = t then {t, b, u} - {0} else own M a)"
  by (simp_all add: own_def)

lemma blocks_remove:
  assumes "apart_mem M" "p \<in> blocks (M(z := None))"
  shows "p \<in> blocks M" "p \<notin> own M z"
proof -
  obtain a where "a \<noteq> z" "p \<in> own M a" using assms(2) by (auto simp: blocks_def split: if_splits)
  then show "p \<in> blocks M" "p \<notin> own M z" using apart_memD(2) [OF assms(1), of a z] by (auto simp: blocks_def)
qed

lemma apart_mem_remove: "apart_mem M \<Longrightarrow> apart_mem (M(z := None))"
  by (auto simp: apart_mem_def)

text \<open>A task that gets a structure, a stack or data of its own.\<close>

lemma apart_mem_put:
  assumes "apart_mem M" "three_apart t b u" "({t, b, u} - {0}) \<inter> blocks (M(t := None)) = {}"
  shows "apart_mem (M(t \<mapsto> (b, u)))" "blocks (M(t \<mapsto> (b, u))) = ({t, b, u} - {0}) \<union> blocks (M(t := None))"
proof -
  have "own M a \<inter> ({t, b, u} - {0}) = {}" if "a \<noteq> t" for a using assms(3) that by (fastforce simp: blocks_def)
  then show "apart_mem (M(t \<mapsto> (b, u)))"
    using assms(1,2) unfolding apart_mem_def by (simp add: Int_commute)
  show "blocks (M(t \<mapsto> (b, u))) = ({t, b, u} - {0}) \<union> blocks (M(t := None))"
    by (auto simp: blocks_def split: if_splits)
qed

section \<open>Freeing the dead\<close>

lemma free_task_mem:
  assumes m: "mem_ok st" and z: "tasks st z = Some k" and hk: "hook_ok (blocks (task_mem st)) hook"
  shows "\<exists>h'. free_task hook z st = Some (st\<lparr>s_heap := h', tasks := (tasks st)(z := None)\<rparr>) \<and>
    mem_ok (st\<lparr>s_heap := h', tasks := (tasks st)(z := None)\<rparr>)"
proof -
  let ?M = "task_mem st" and ?b = "stack_base k" and ?u = "user_data k"
  have Mz: "?M z = Some (?b, ?u)" using z by (simp add: task_mem_def)
  have inv: "heap_inv (s_heap st)" and hd: "\<And>p. p \<in> blocks ?M \<Longrightarrow> held (s_heap st) p" and ap: "apart_mem ?M"
    using m by (auto simp: mem_ok_def)
  have t: "z \<noteq> 0" "z \<noteq> ?b" "z \<noteq> ?u" "?b \<noteq> 0 \<Longrightarrow> ?b \<noteq> ?u" using apart_memD(1) [OF ap Mz] by (auto simp: three_apart_def)
  have oz: "own ?M z = {z, ?b, ?u} - {0}" using Mz by (simp add: own_def)
  then have bz: "z \<in> blocks ?M" "?b \<noteq> 0 \<Longrightarrow> ?b \<in> blocks ?M" using t(1) by (auto simp: blocks_def)
  define h where "h = (if on_exit k then hook k (s_heap st) else s_heap st)"
  have h: "heap_inv h" "\<And>p. p \<in> blocks ?M \<Longrightarrow> p \<noteq> ?u \<Longrightarrow> held h p"
    using hk inv hd by (auto simp: h_def hook_ok_def)
  obtain h1 where h1: "(if ?b \<noteq> 0 then kfree h ?b else Some h) = Some h1" "heap_inv h1"
    "\<And>q. held h q \<Longrightarrow> (?b \<noteq> 0 \<Longrightarrow> q \<noteq> ?b) \<Longrightarrow> held h1 q"
  proof (cases "?b = 0")
    case False
    have "held h ?b" using h(2) bz(2) t(4) False by auto
    from held_kfree [OF h(1) this] show thesis using that False by (metis (full_types))
  qed (use that h in simp)
  have "held h1 z" using h1(3) h(2) bz(1) t by metis
  from held_kfree [OF h1(2) this] obtain h2 where h2: "kfree h1 z = Some h2" "heap_inv h2"
    "\<And>q. held h1 q \<Longrightarrow> q \<noteq> z \<Longrightarrow> held h2 q" by metis
  have f: "free_task hook z st = Some (st\<lparr>s_heap := h2, tasks := (tasks st)(z := None)\<rparr>)"
    unfolding free_task_def Let_def h_def [symmetric] using z(1) h1(1) h2(1)
    by (cases "?b = 0") (simp_all add: h_def [symmetric])
  have M': "task_mem (st\<lparr>s_heap := h2, tasks := (tasks st)(z := None)\<rparr>) = ?M(z := None)"
    by (rule ext) (simp add: task_mem_def)
  have "held h2 p" if p: "p \<in> blocks (?M(z := None))" for p
  proof -
    have "p \<in> blocks ?M" "p \<notin> {z, ?b, ?u} - {0}" using blocks_remove [OF ap p] oz by auto
    moreover have "p \<noteq> 0" using \<open>p \<in> blocks ?M\<close> by (auto simp: blocks_def own_def split: option.splits)
    ultimately show ?thesis using h2(3) h1(3) h(2) by auto
  qed
  then have "mem_ok (st\<lparr>s_heap := h2, tasks := (tasks st)(z := None)\<rparr>)"
    using h2(2) apart_mem_remove [OF ap] by (simp add: mem_ok_def M')
  then show ?thesis using f by blast
qed

text \<open>The loop over the zombies: \<open>ds\<close> has been passed and stays, \<open>ws\<close> is still to come.\<close>

text \<open>Taking \<open>w\<close> out of the zombie list and freeing it.\<close>

definition unlink_zombie :: "nat \<Rightarrow> nat \<Rightarrow> sched \<Rightarrow> sched option" where
  "unlink_zombie prev n st = (if prev \<noteq> 0 then modify prev (\<lambda>q. q\<lparr>t_next := n\<rparr>) st else Some (st\<lparr>zombie := n\<rparr>))"

lemma dom_unlinked:
  assumes "\<And>a. unlinked (T' a) = unlinked (T a)"
  shows "dom T' = dom T"
proof (rule set_eqI)
  fix a
  have "T' a = None \<longleftrightarrow> T a = None" using assms [of a] unlinked_eq_None by metis
  then show "a \<in> dom T' \<longleftrightarrow> a \<in> dom T" by (simp add: domIff)
qed

lemma task_mem_unlinked:
  assumes "unlinked (tasks st' a) = unlinked (tasks st a)"
  shows "task_mem st' a = task_mem st a"
proof (cases "tasks st a")
  case None
  then show ?thesis using assms by (simp add: task_mem_def unlinked_eq_None)
next
  case (Some k)
  then have "unlinked (tasks st' a) = unlinked (Some k)" using assms by simp
  then obtain n where "tasks st' a = Some (k\<lparr>t_next := n\<rparr>)" by (rule unlinked_SomeE)
  then show ?thesis using Some by (simp add: task_mem_def)
qed

lemma states_ok_frees:
  assumes "states_ok st rs zs" "set zs' \<subseteq> set zs" "current st' = current st"
    and "\<And>a. a \<in> set rs \<union> set zs' \<Longrightarrow> unlinked (tasks st' a) = unlinked (tasks st a)"
  shows "states_ok st' rs zs'"
proof -
  have "alive_at st' a = alive_at st a \<and> dead_at st' a = dead_at st a" if "a \<in> set rs \<union> set zs'" for a
  proof (cases "tasks st a")
    case None
    then show ?thesis using assms(4) [OF that] by (simp add: alive_at_def dead_at_def unlinked_eq_None)
  next
    case (Some k)
    then have "unlinked (tasks st' a) = unlinked (Some k)" using assms(4) [OF that] by simp
    then obtain n where "tasks st' a = Some (k\<lparr>t_next := n\<rparr>)" by (rule unlinked_SomeE)
    then show ?thesis using Some assms(3) by (simp add: alive_at_def dead_at_def)
  qed
  then show ?thesis using assms(1-3) by (auto simp: states_ok_def)
qed

lemma unlink_free:
  assumes c: "calm st rs (ds @ w # ws)" and k: "tasks st w = Some k" and hk: "hook_ok (blocks (task_mem st)) hook"
    and prev: "prev = (if ds = [] then 0 else last ds)"
  shows "\<exists>st1 st2. unlink_zombie prev (t_next k) st = Some st1 \<and> free_task hook w st1 = Some st2 \<and> calm st2 rs (ds @ ws) \<and>
    current st2 = current st \<and> (\<forall>a \<in> set rs. tasks st2 a = tasks st a) \<and> lseg (tasks st2) (t_next k) ws 0 \<and>
    blocks (task_mem st2) \<subseteq> blocks (task_mem st) \<and> (\<forall>a. a \<noteq> w \<longrightarrow> unlinked (tasks st2 a) = unlinked (tasks st a))"
proof -
  have l: "links st rs (ds @ w # ws)" using calmD c by blast
  have dis: "distinct (rs @ ds @ w # ws)" and dm: "dom (tasks st) = set rs \<union> set (ds @ w # ws)"
    and ring: "lseg (tasks st) (ready st) rs (ready st)" and zl: "lseg (tasks st) (zombie st) (ds @ w # ws) 0"
    using l by (auto simp: links_def)
  have z: "lseg (tasks st) (zombie st) ds w" "lseg (tasks st) (t_next k) ws 0" and w0: "w \<noteq> 0"
    using zl k by (auto simp: lseg_split)
  obtain st1 where u: "unlink_zombie prev (t_next k) st = Some st1" "ready st1 = ready st" "current st1 = current st"
    "s_heap st1 = s_heap st" "\<And>a. unlinked (tasks st1 a) = unlinked (tasks st a)" "tasks st1 w = Some k"
    "\<And>a. a \<notin> set ds \<Longrightarrow> tasks st1 a = tasks st a"
    "lseg ((tasks st1)(w := None)) (zombie st1) (ds @ ws) 0"
  proof (cases ds rule: rev_cases)
    case Nil
    have "unlink_zombie prev (t_next k) st = Some (st\<lparr>zombie := t_next k\<rparr>)" using prev Nil by (simp add: unlink_zombie_def)
    then show thesis by (rule that) (use k z dis Nil in auto)
  next
    case (snoc ds' d)
    obtain kd where d: "tasks st d = Some kd" "t_next kd = w" "d \<noteq> 0" "lseg (tasks st) (zombie st) ds' d"
      using z(1) snoc by (auto simp: lseg_last)
    have n: "d \<noteq> w" "d \<notin> set ds'" "d \<notin> set ws" "w \<notin> set ds'" "w \<notin> set ws" using dis snoc by auto
    have "unlink_zombie prev (t_next k) st = Some (st\<lparr>tasks := (tasks st)(d \<mapsto> kd\<lparr>t_next := t_next k\<rparr>)\<rparr>)"
      using prev snoc d by (simp add: unlink_zombie_def modify_def)
    then show thesis
      by (rule that) (use k z(2) d n snoc in \<open>auto simp: lseg_split\<close>)
  qed
  have mem: "task_mem st1 = task_mem st" by (rule ext, rule task_mem_unlinked) (rule u(5))
  have "mem_ok st1" using calmD(3) [OF c] by (simp add: mem_ok_def u(4) mem)
  from free_task_mem [OF this u(6)] hk mem obtain h' where
    f: "free_task hook w st1 = Some (st1\<lparr>s_heap := h', tasks := (tasks st1)(w := None)\<rparr>)"
    "mem_ok (st1\<lparr>s_heap := h', tasks := (tasks st1)(w := None)\<rparr>)" by metis
  let ?st2 = "st1\<lparr>s_heap := h', tasks := (tasks st1)(w := None)\<rparr>"
  have same: "tasks ?st2 a = tasks st a" if "a \<in> set rs \<union> set ws" for a
    using that u(7) [of a] dis by auto
  have rest: "lseg (tasks ?st2) (t_next k) ws 0 = lseg (tasks st) (t_next k) ws 0"
    by (rule lseg_cong) (use same in auto)
  have "lseg ((tasks st1)(w := None)) (ready st) rs (ready st) = lseg (tasks st) (ready st) rs (ready st)"
    by (rule lseg_cong) (use same in auto)
  moreover have "dom (tasks st1) = dom (tasks st)" by (rule dom_unlinked) (rule u(5))
  ultimately have "links ?st2 rs (ds @ ws)" using ring u(2,8) dis dm by (auto simp: links_def)
  moreover have "states_ok ?st2 rs (ds @ ws)"
    by (rule states_ok_frees [OF calmD(2) [OF c]]) (use u dis in auto)
  ultimately have "calm ?st2 rs (ds @ ws)" using f(2) by (simp add: calm_def)
  moreover have "blocks (task_mem ?st2) \<subseteq> blocks (task_mem st)"
  proof -
    have "task_mem ?st2 = (task_mem st)(w := None)" unfolding mem [symmetric] by (rule ext) (simp add: task_mem_def)
    then show ?thesis by (auto simp: blocks_def split: if_splits)
  qed
  ultimately show ?thesis using u(1,3,5) f(1) same rest z(2) by (intro exI [of _ st1] exI [of _ ?st2]) simp
qed

lemma reap_from_inv:
  "hook_ok (blocks (task_mem st)) hook \<Longrightarrow> calm st rs (ds @ ws) \<Longrightarrow> lseg (tasks st) z ws 0 \<Longrightarrow> prev = (if ds = [] then 0 else last ds) \<Longrightarrow>
    \<exists>st' zs'. reap_from hook prev z st = Some st' \<and> calm st' rs zs' \<and> current st' = current st \<and>
      (\<forall>a \<in> set rs. tasks st' a = tasks st a) \<and> kept st st' \<and> set zs' \<subseteq> set (ds @ ws) \<and>
      (\<forall>a \<in> set ws. \<forall>k. tasks st a = Some k \<longrightarrow> reaped_by_parent k \<longrightarrow> a \<notin> set zs')"
proof (induction ws arbitrary: st ds z prev)
  case Nil
  then show ?case by (subst reap_from.simps) auto
next
  case (Cons w ws)
  obtain k where k: "tasks st w = Some k" "z = w" "w \<noteq> 0" "lseg (tasks st) (t_next k) ws 0" using Cons.prems(3) by auto
  show ?case
  proof (cases "reaped_by_parent k")
    case True
    obtain st1 st2 where s: "unlink_zombie prev (t_next k) st = Some st1" "free_task hook w st1 = Some st2"
      "calm st2 rs (ds @ ws)" "current st2 = current st" "\<forall>a \<in> set rs. tasks st2 a = tasks st a" "lseg (tasks st2) (t_next k) ws 0"
      "blocks (task_mem st2) \<subseteq> blocks (task_mem st)" "\<forall>a. a \<noteq> w \<longrightarrow> unlinked (tasks st2 a) = unlinked (tasks st a)"
      using unlink_free [OF Cons.prems(2) k(1) Cons.prems(1) Cons.prems(4)] by blast
    from Cons.IH [OF hook_ok_mono [OF Cons.prems(1) s(7)] s(3,6) Cons.prems(4)] obtain st' zs' where
      r: "reap_from hook prev (t_next k) st2 = Some st'" "calm st' rs zs'" "current st' = current st2"
      "\<forall>a \<in> set rs. tasks st' a = tasks st2 a" "kept st2 st'" "set zs' \<subseteq> set (ds @ ws)"
      "\<forall>a \<in> set ws. \<forall>k. tasks st2 a = Some k \<longrightarrow> reaped_by_parent k \<longrightarrow> a \<notin> set zs'" by blast
    have "kept st st2"
    proof (rule keptI)
      fix z' k' assume "tasks st z' = Some k'" "\<not> reaped_by_parent k'"
      moreover from this have "z' \<noteq> w" using k(1) True by auto
      ultimately show "unlinked (tasks st2 z') = unlinked (Some k')" using s(8) by simp
    qed
    then have kp: "kept st st'" using r(5) kept_trans by blast
    have rf: "reap_from hook prev z st = Some st'"
      using k True s(1,2) r(1) by (subst reap_from.simps) (cases "prev = 0"; simp add: unlink_zombie_def)
    have w: "w \<notin> set ds" "w \<notin> set ws" using calmD(1) [OF Cons.prems(2)] by (auto simp: links_def)
    have "a \<notin> set zs'" if a: "a \<in> set (w # ws)" "tasks st a = Some k'" "reaped_by_parent k'" for a k'
    proof (cases "a = w")
      case True
      then show ?thesis using w r(6) by auto
    next
      case False
      then have "unlinked (tasks st2 a) = unlinked (Some k')" using s(8) a(2) by simp
      then obtain n where "tasks st2 a = Some (k'\<lparr>t_next := n\<rparr>)" by (rule unlinked_SomeE)
      then show ?thesis using r(7) a(1,3) False by auto
    qed
    then show ?thesis using rf r(2-4,6) s(4,5) kp by (intro exI [of _ st'] exI [of _ zs']) auto
  next
    case False
    have "calm st rs ((ds @ [w]) @ ws)" using Cons.prems(2) by simp
    from Cons.IH [OF Cons.prems(1) this k(4), of w] obtain st' zs' where
      r: "reap_from hook w (t_next k) st = Some st'" "calm st' rs zs'" "current st' = current st"
      "\<forall>a \<in> set rs. tasks st' a = tasks st a" "kept st st'" "set zs' \<subseteq> set ((ds @ [w]) @ ws)"
      "\<forall>a \<in> set ws. \<forall>k. tasks st a = Some k \<longrightarrow> reaped_by_parent k \<longrightarrow> a \<notin> set zs'" by auto
    have "reap_from hook prev z st = Some st'" using k False r(1) by (subst reap_from.simps) simp
    then show ?thesis using r(2-7) k(1) False by (intro exI [of _ st'] exI [of _ zs']) auto
  qed
qed

lemma yield_inv:
  assumes c: "calm st rs zs" and h: "hook_ok (blocks (task_mem st)) hook"
  shows "\<exists>st' zs'. yield hook st = Some st' \<and> calm st' rs zs' \<and> kept st st'"
proof -
  have "lseg (tasks st) (zombie st) zs 0" using calmD(1) [OF c] by (simp add: links_def)
  from reap_from_inv [of st hook rs "[]" zs, OF h _ this] c obtain st1 zs1 where
    r: "reap_zombies hook st = Some st1" "calm st1 rs zs1" "kept st st1" by (auto simp: reap_zombies_def)
  obtain st2 where "resched st1 = Some st2" "calm st2 rs zs1" "kept st1 st2" using resched_inv [OF r(2)] by blast
  moreover have "yield hook st = (if current st1 = 0 \<or> ready st1 = 0 then Some st1 else resched st1)"
    by (simp add: yield_def r(1) resched_def)
  ultimately show ?thesis using r(2,3) kept_trans by (cases "current st1 = 0 \<or> ready st1 = 0") auto
qed

section \<open>New tasks\<close>

lemma alloc_task_ok:
  assumes "heap_inv (s_heap st)"
  obtains t b h where "alloc_task st = Some ((t, b), st\<lparr>s_heap := h\<rparr>)" "heap_inv h"
    "\<And>q. held (s_heap st) q \<Longrightarrow> held h q"
    "t \<noteq> 0 \<Longrightarrow> held h t \<and> held h b \<and> three_apart t b 0 \<and> \<not> held (s_heap st) t \<and> \<not> held (s_heap st) b"
    "t = 0 \<Longrightarrow> b = 0"
proof -
  obtain t h1 where t: "kmalloc (s_heap st) TASK_SIZE = Some (t, h1)" "heap_inv h1"
    "\<And>q. held (s_heap st) q \<Longrightarrow> held h1 q" "t \<noteq> 0 \<Longrightarrow> held h1 t \<and> \<not> held (s_heap st) t"
    using kmalloc_held [OF assms, of TASK_SIZE] by (auto simp: fits_u32_def)
  show thesis
  proof (cases "t = 0")
    case True
    then show thesis using that [of 0 0 h1] t by (simp add: alloc_task_def)
  next
    case False
    obtain b h2 where b: "kmalloc h1 STACK_SIZE = Some (b, h2)" "heap_inv h2"
      "\<And>q. held h1 q \<Longrightarrow> held h2 q" "b \<noteq> 0 \<Longrightarrow> held h2 b \<and> \<not> held h1 b"
      using kmalloc_held [OF t(2), of STACK_SIZE] by (auto simp: fits_u32_def)
    show thesis
    proof (cases "b = 0")
      case True
      have "held h2 t" using b(3) t(4) False by blast
      from held_kfree [OF b(2) this] obtain h3 where
        h3: "kfree h2 t = Some h3" "heap_inv h3" "\<And>q. held h2 q \<Longrightarrow> q \<noteq> t \<Longrightarrow> held h3 q" by metis
      show thesis
      proof (rule that [of 0 0 h3])
        show "alloc_task st = Some ((0, 0), st\<lparr>s_heap := h3\<rparr>)" using t(1) b(1) h3(1) True False by (simp add: alloc_task_def)
        show "held h3 q" if "held (s_heap st) q" for q using that t(3,4) b(3) h3(3) False by metis
      qed (use h3 in auto)
    next
      case False': False
      have "three_apart t b 0" using False False' t(4) b(4) by (auto simp: three_apart_def)
      moreover have "alloc_task st = Some ((t, b), st\<lparr>s_heap := h2\<rparr>)" using t(1) b(1) False False' by (simp add: alloc_task_def)
      ultimately show thesis using that [of t b h2] t(3,4) b(2-4) False False' by metis
    qed
  qed
qed

text \<open>Any structure put at a fresh address and into the ring keeps the invariant.\<close>

lemma calm_insert:
  assumes c: "calm st rs zs" and hv: "heap_inv h" "\<And>q. q \<in> blocks (task_mem st) \<Longrightarrow> held h q"
    and new: "held h t" "held h (stack_base k)" "three_apart t (stack_base k) 0" "user_data k = 0" "t_state k = TASK_READY"
    and fresh: "\<not> held (s_heap st) t" "\<not> held (s_heap st) (stack_base k)"
    and st1: "st1 = st\<lparr>s_heap := h, tasks := (tasks st)(t \<mapsto> k), s_stack := m, next_id := i\<rparr>"
  shows "\<exists>st' rs'. ready_insert t st1 = Some st' \<and> calm st' rs' zs \<and> set rs' = insert t (set rs) \<and>
    current st' = current st \<and> (\<exists>n. tasks st' t = Some (k\<lparr>t_next := n\<rparr>)) \<and> kept st st'"
proof -
  have l: "lseg (tasks st) (ready st) rs (ready st)" "lseg (tasks st) (zombie st) zs 0" "distinct rs" "distinct zs"
    "set rs \<inter> set zs = {}" "dom (tasks st) = set rs \<union> set zs" using calmD(1) [OF c] by (auto simp: links_def)
  have s: "current st \<in> set rs" "\<forall>a \<in> set rs. alive_at st a" "\<forall>z \<in> set zs. dead_at st z"
    using calmD(2) [OF c] by (auto simp: states_ok_def)
  have m: "\<forall>p \<in> blocks (task_mem st). held (s_heap st) p" "apart_mem (task_mem st)" using calmD(3) [OF c] by (auto simp: mem_ok_def)
  have t0: "t \<noteq> 0" using new(3) by (simp add: three_apart_def)
  have tn: "t \<notin> dom (tasks st)"
  proof
    assume "t \<in> dom (tasks st)"
    then have "t \<in> blocks (task_mem st)" using t0 by (auto simp: blocks_def own_def task_mem_def split: option.splits intro!: exI [of _ t])
    then show False using m(1) fresh(1) by blast
  qed
  then have tr: "t \<notin> set rs" "t \<notin> set zs" using l(6) by auto
  have ring: "lseg (tasks st1) (ready st1) rs (ready st1)" using l(1) tr by (simp add: st1)
  have "rs \<noteq> []" "tasks st1 t = Some k" using s(1) by (auto simp: st1)
  from ready_insert_ring [OF ring this(1) l(3) tr(1) t0 this(2)] obtain st' rs' where
    i: "ready_insert t st1 = Some st'" "relinked st1 st'" "set rs' = insert t (set rs)" "distinct rs'"
    "lseg (tasks st') (ready st') rs' (ready st')" "\<forall>a. a \<notin> insert t (set rs) \<longrightarrow> tasks st' a = tasks st1 a" by blast
  have rl: "current st' = current st" "zombie st' = zombie st" "s_heap st' = h"
    "\<And>a. unlinked (tasks st' a) = unlinked (tasks st1 a)" using i(2) by (auto simp: relinked_def st1)
  have "unlinked (tasks st' t) = unlinked (Some k)" using rl(4) [of t] by (simp add: st1)
  then obtain n where n: "tasks st' t = Some (k\<lparr>t_next := n\<rparr>)" by (rule unlinked_SomeE)
  have "dom (tasks st') = dom (tasks st1)" by (rule dom_unlinked) (rule rl(4))
  moreover have "lseg (tasks st') (zombie st) zs 0 = lseg (tasks st) (zombie st) zs 0"
    by (rule lseg_cong) (use i(6) tr l(5) in \<open>auto simp: st1\<close>)
  ultimately have "links st' rs' zs" using i(3-5) rl(2) l tr by (auto simp: links_def st1)
  moreover have "states_ok st' rs' zs"
  proof -
    have "states_ok st' rs zs"
      by (rule states_ok_frees [OF calmD(2) [OF c]]) (use rl tr in \<open>auto simp: st1\<close>)
    then show ?thesis using i(3) n new(5) by (auto simp: states_ok_def alive_at_def)
  qed
  moreover have "mem_ok st'"
  proof -
    have M': "task_mem st' = (task_mem st)(t \<mapsto> (stack_base k, 0))"
    proof
      fix a
      have "task_mem st' a = task_mem st1 a" by (rule task_mem_unlinked) (rule rl(4))
      then show "task_mem st' a = ((task_mem st)(t \<mapsto> (stack_base k, 0))) a" using new(4) by (simp add: st1 task_mem_def)
    qed
    have Mt: "(task_mem st)(t := None) = task_mem st" using tn by (auto simp: task_mem_def fun_eq_iff)
    have "({t, stack_base k, 0} - {0}) \<inter> blocks (task_mem st) = {}" using m(1) fresh by blast
    then have "apart_mem (task_mem st')" "blocks (task_mem st') = ({t, stack_base k, 0} - {0}) \<union> blocks (task_mem st)"
      using apart_mem_put [OF m(2) new(3)] unfolding M' Mt by auto
    then show ?thesis using hv new(1,2) by (auto simp: mem_ok_def rl(3))
  qed
  moreover have "kept st st'"
  proof (rule keptI)
    fix z k' assume "tasks st z = Some k'"
    moreover from this have "z \<noteq> t" using tn by auto
    ultimately show "unlinked (tasks st' z) = unlinked (Some k')" using rl(4) [of z] by (simp add: st1)
  qed
  ultimately show ?thesis using i(1,3) rl(1) n by (auto simp: calm_def)
qed

text \<open>The three ways to create a task.\<close>

lemma calm_heap:
  assumes "calm st rs zs" "heap_inv h" "\<And>q. q \<in> blocks (task_mem st) \<Longrightarrow> held h q"
  shows "calm (st\<lparr>s_heap := h\<rparr>) rs zs"
proof -
  have "task_mem (st\<lparr>s_heap := h\<rparr>) = task_mem st" by (rule ext) (simp add: task_mem_def)
  moreover have "alive_at (st\<lparr>s_heap := h\<rparr>) a = alive_at st a" "dead_at (st\<lparr>s_heap := h\<rparr>) a = dead_at st a" for a
    by (simp_all add: alive_at_def dead_at_def split: option.split)
  ultimately show ?thesis using assms by (simp add: calm_def links_def states_ok_def mem_ok_def)
qed

definition spawned :: "sched \<Rightarrow> nat list \<Rightarrow> (int \<times> sched) option \<Rightarrow> bool" where
  "spawned st zs x \<longleftrightarrow> (\<exists>r st' rs'. x = Some (r, st') \<and> calm st' rs' zs \<and> kept st st' \<and> current st' = current st \<and>
     (r \<noteq> -1 \<longrightarrow> (\<exists>t k. tasks st t = None \<and> tasks st' t = Some k \<and> int (t_id k) = r \<and> t_state k = TASK_READY \<and> t \<in> set rs')))"

lemma blocks_held: "calm st rs zs \<Longrightarrow> q \<in> blocks (task_mem st) \<Longrightarrow> held (s_heap st) q"
  by (simp add: calm_def mem_ok_def)

lemma spawned_none:
  assumes c: "calm st rs zs" and h: "heap_inv h" "\<And>q. held (s_heap st) q \<Longrightarrow> held h q"
  shows "spawned st zs (Some (-1, st\<lparr>s_heap := h\<rparr>))"
proof -
  have "calm (st\<lparr>s_heap := h\<rparr>) rs zs" by (rule calm_heap [OF c h(1)]) (use h(2) blocks_held [OF c] in blast)
  moreover have "kept st (st\<lparr>s_heap := h\<rparr>)" by (rule keptI) simp
  ultimately show ?thesis unfolding spawned_def by auto
qed

lemma spawned_insert:
  assumes c: "calm st rs zs" and hv: "heap_inv h" "\<And>q. q \<in> blocks (task_mem st) \<Longrightarrow> held h q"
    and new: "held h t" "held h (stack_base k)" "three_apart t (stack_base k) 0" "user_data k = 0" "t_state k = TASK_READY"
    and fresh: "\<not> held (s_heap st) t" "\<not> held (s_heap st) (stack_base k)"
    and st1: "st1 = st\<lparr>s_heap := h, tasks := (tasks st)(t \<mapsto> k), s_stack := m, next_id := i\<rparr>"
  shows "spawned st zs (do { st3 \<leftarrow> ready_insert t st1; Some (int (t_id k), st3) })"
proof -
  obtain st' rs' n where i: "ready_insert t st1 = Some st'" "calm st' rs' zs" "set rs' = insert t (set rs)"
    "current st' = current st" "tasks st' t = Some (k\<lparr>t_next := n\<rparr>)" "kept st st'"
    using calm_insert [OF assms] by blast
  have "tasks st t = None"
  proof (rule ccontr)
    assume "tasks st t \<noteq> None"
    then have "t \<in> own (task_mem st) t" using new(3) by (auto simp: own_def task_mem_def three_apart_def)
    then have "t \<in> blocks (task_mem st)" by (auto simp: blocks_def)
    then show False using blocks_held [OF c] fresh(1) by blast
  qed
  then have "tasks st t = None \<and> tasks st' t = Some (k\<lparr>t_next := n\<rparr>) \<and> int (t_id (k\<lparr>t_next := n\<rparr>)) = int (t_id k) \<and>
      t_state (k\<lparr>t_next := n\<rparr>) = TASK_READY \<and> t \<in> set rs'" using i(3,5) new(5) by simp
  moreover have "do { st3 \<leftarrow> ready_insert t st1; Some (int (t_id k), st3) } = Some (int (t_id k), st')" using i(1) by simp
  ultimately show ?thesis using i(2,4,6) unfolding spawned_def by blast
qed

lemma spawned_alloc:
  assumes c: "calm st rs zs"
    and none: "\<And>h. alloc_task st = Some ((0, 0), st\<lparr>s_heap := h\<rparr>) \<Longrightarrow> x = Some (-1, st\<lparr>s_heap := h\<rparr>)"
    and new: "\<And>t b h. alloc_task st = Some ((t, b), st\<lparr>s_heap := h\<rparr>) \<Longrightarrow> t \<noteq> 0 \<Longrightarrow> heap_inv h \<Longrightarrow>
      \<exists>h' k m i. x = (do { st3 \<leftarrow> ready_insert t (st\<lparr>s_heap := h', tasks := (tasks st)(t \<mapsto> k), s_stack := m, next_id := i\<rparr>);
                       Some (int (t_id k), st3) }) \<and>
        heap_inv h' \<and> (\<forall>q. held h q \<longrightarrow> held h' q) \<and> stack_base k = b \<and> user_data k = 0 \<and> t_state k = TASK_READY"
  shows "spawned st zs x"
proof -
  have "heap_inv (s_heap st)" using c by (simp add: calm_def mem_ok_def)
  then show ?thesis
  proof (rule alloc_task_ok)
    fix t b h
    assume a: "alloc_task st = Some ((t, b), st\<lparr>s_heap := h\<rparr>)" "heap_inv h" "\<And>q. held (s_heap st) q \<Longrightarrow> held h q"
      "t \<noteq> 0 \<Longrightarrow> held h t \<and> held h b \<and> three_apart t b 0 \<and> \<not> held (s_heap st) t \<and> \<not> held (s_heap st) b"
      "t = 0 \<Longrightarrow> b = 0"
    show ?thesis
    proof (cases "t = 0")
      case True
      then show ?thesis using spawned_none [OF c a(2,3)] none a(1,5) by simp
    next
      case False
      obtain h' k m i where x: "x = (do { st3 \<leftarrow> ready_insert t (st\<lparr>s_heap := h', tasks := (tasks st)(t \<mapsto> k), s_stack := m, next_id := i\<rparr>);
          Some (int (t_id k), st3) })" "heap_inv h'" "\<And>q. held h q \<Longrightarrow> held h' q" "stack_base k = b" "user_data k = 0" "t_state k = TASK_READY"
        using new [OF a(1) False a(2)] by blast
      show ?thesis unfolding x(1)
        by (rule spawned_insert [OF c x(2)]) (use a(3,4) x False blocks_held [OF c] in auto)
    qed
  qed
qed

lemma task_spawn_ok:
  assumes c: "calm st rs zs"
  shows "spawned st zs (task_spawn trampoline fn name st)"
proof (rule spawned_alloc [OF c])
  fix t b h assume a: "alloc_task st = Some ((t, b), st\<lparr>s_heap := h\<rparr>)" "t \<noteq> 0" "heap_inv h"
  let ?k = "(new_task b st)\<lparr>rsp := b + STACK_SIZE - 64, t_name := name_copy (case name of None \<Rightarrow> ''task'' | Some n \<Rightarrow> n) 16\<rparr>"
  let ?m = "s_stack (snd (task_init_stack (b + STACK_SIZE) fn trampoline st))"
  show "\<exists>h' k m i. task_spawn trampoline fn name st =
      (do { st3 \<leftarrow> ready_insert t (st\<lparr>s_heap := h', tasks := (tasks st)(t \<mapsto> k), s_stack := m, next_id := i\<rparr>);
            Some (int (t_id k), st3) }) \<and>
      heap_inv h' \<and> (\<forall>q. held h q \<longrightarrow> held h' q) \<and> stack_base k = b \<and> user_data k = 0 \<and> t_state k = TASK_READY"
    using a 
    by (intro exI [of _ "h"] exI [of _ ?k] exI [of _ ?m] exI [of _ "next_id st + 1"])
      (cases st, simp add: task_spawn_def task_init_stack_def new_task_def blank_task_def copy_frame_def fdt_ok_def)
qed (simp add: task_spawn_def)

lemma task_spawn_user_ok:
  assumes c: "calm st rs zs"
  shows "spawned st zs (task_spawn_user trampoline shim uip usp pd name st)"
proof (rule spawned_alloc [OF c])
  fix t b h assume a: "alloc_task st = Some ((t, b), st\<lparr>s_heap := h\<rparr>)" "t \<noteq> 0" "heap_inv h"
  let ?k = "(new_task b st)\<lparr>rsp := b + STACK_SIZE - 64, user_rip := uip, user_rsp := usp, pd_phys := pd, is_user := True,
      t_name := name_copy (case name of None \<Rightarrow> ''user'' | Some n \<Rightarrow> n) 16\<rparr>"
  let ?m = "s_stack (snd (task_init_stack (b + STACK_SIZE) shim trampoline st))"
  show "\<exists>h' k m i. task_spawn_user trampoline shim uip usp pd name st =
      (do { st3 \<leftarrow> ready_insert t (st\<lparr>s_heap := h', tasks := (tasks st)(t \<mapsto> k), s_stack := m, next_id := i\<rparr>);
            Some (int (t_id k), st3) }) \<and>
      heap_inv h' \<and> (\<forall>q. held h q \<longrightarrow> held h' q) \<and> stack_base k = b \<and> user_data k = 0 \<and> t_state k = TASK_READY"
    using a 
    by (intro exI [of _ "h"] exI [of _ ?k] exI [of _ ?m] exI [of _ "next_id st + 1"])
      (cases st, simp add: task_spawn_user_def task_init_stack_def new_task_def blank_task_def copy_frame_def fdt_ok_def)
qed (simp add: task_spawn_user_def)

lemma task_clone_user_ok:
  assumes c: "calm st rs zs" and f: "fdt_ok UNIV f"
  shows "spawned st zs (task_clone_user f trampoline shim frame pd name st)"
proof (rule spawned_alloc [OF c])
  fix t b h assume a: "alloc_task st = Some ((t, b), st\<lparr>s_heap := h\<rparr>)" "t \<noteq> 0" "heap_inv h"
  let ?k = "(new_task b st)\<lparr>rsp := b + STACK_SIZE - FORK_FRAME_BYTES - 64, pd_phys := pd, is_user := True, fs_base := fsbase st,
      resume_frame := b + STACK_SIZE - FORK_FRAME_BYTES, t_name := name_copy (case name of None \<Rightarrow> ''child'' | Some n \<Rightarrow> n) 16\<rparr>"
  let ?m = "s_stack (snd (task_init_stack (b + STACK_SIZE - FORK_FRAME_BYTES) shim trampoline (copy_frame (b + STACK_SIZE - FORK_FRAME_BYTES) frame st)))"
  show "\<exists>h' k m i. task_clone_user f trampoline shim frame pd name st =
      (do { st3 \<leftarrow> ready_insert t (st\<lparr>s_heap := h', tasks := (tasks st)(t \<mapsto> k), s_stack := m, next_id := i\<rparr>);
            Some (int (t_id k), st3) }) \<and>
      heap_inv h' \<and> (\<forall>q. held h q \<longrightarrow> held h' q) \<and> stack_base k = b \<and> user_data k = 0 \<and> t_state k = TASK_READY"
    using a f
    by (intro exI [of _ "f ?k h"] exI [of _ ?k] exI [of _ ?m] exI [of _ "next_id st + 1"])
      (cases st, simp add: task_clone_user_def Let_def task_init_stack_def new_task_def blank_task_def copy_frame_def fdt_ok_def)
qed (simp add: task_clone_user_def)

end
