(* ===== verification/Task_Exit.thy ===== *)
theory Task_Exit
  imports Task_Reap
begin

text \<open>
  Exit and wait: a task that exits leaves the ring for the zombie list, its parent is woken,
  and the parent's wait finds it; every step keeps the scheduler's invariant.
\<close>

section \<open>Waking the parent\<close>

definition woken :: "(nat \<Rightarrow> task option) \<Rightarrow> (nat \<Rightarrow> task option) \<Rightarrow> bool" where
  "woken T T' \<longleftrightarrow>
     (\<forall>a. T' a = T a \<or> (\<exists>k. T a = Some k \<and> t_state k = TASK_BLOCKED \<and> T' a = Some (k\<lparr>t_state := TASK_READY\<rparr>)))"

lemma wake_parent_woken:
  assumes "p = 0 \<or> p \<in> dom (tasks st)"
  obtains T' where "wake_parent p st = Some (st\<lparr>tasks := T'\<rparr>)" "woken (tasks st) T'"
proof (cases "p = 0")
  case True
  then show thesis using that [of "tasks st"] by (simp add: wake_parent_def woken_def)
next
  case False
  then obtain k where k: "tasks st p = Some k" using assms by auto
  let ?k' = "if t_state k = TASK_BLOCKED \<and> wait_any k then k\<lparr>t_state := TASK_READY\<rparr> else k"
  have "wake_parent p st = Some (st\<lparr>tasks := (tasks st)(p \<mapsto> ?k')\<rparr>)" using False k by (simp add: wake_parent_def modify_def)
  moreover have "woken (tasks st) ((tasks st)(p \<mapsto> ?k'))" using k by (simp add: woken_def)
  ultimately show thesis by (rule that)
qed

lemma wokenD:
  assumes "woken T T'"
  shows "map_option t_next (T' a) = map_option t_next (T a)" "T' a = None \<longleftrightarrow> T a = None"
    "map_option (\<lambda>k. (stack_base k, user_data k)) (T' a) = map_option (\<lambda>k. (stack_base k, user_data k)) (T a)"
    "T a = Some k \<Longrightarrow> t_state k = TASK_DEAD \<Longrightarrow> T' a = Some k"
  using assms [unfolded woken_def, rule_format, of a] by auto

section \<open>Leaving the ring\<close>

definition asleep :: "task option \<Rightarrow> bool" where
  "asleep x \<longleftrightarrow> (case x of None \<Rightarrow> False | Some k \<Rightarrow> t_state k \<noteq> TASK_DEAD \<and> t_state k \<noteq> TASK_RUNNING)"

definition ring_ok :: "sched \<Rightarrow> nat list \<Rightarrow> bool" where
  "ring_ok st rs \<longleftrightarrow> distinct rs \<and> (if rs = [] then ready st = 0 else lseg (tasks st) (ready st) rs (ready st))"

definition exited :: "int \<Rightarrow> nat \<Rightarrow> task \<Rightarrow> task" where
  "exited code n k = k\<lparr>exit_code := code, has_exited := True, t_state := TASK_DEAD,
     reaped_by_parent := (if t_parent k = 0 then True else reaped_by_parent k), t_next := n\<rparr>"

lemma exited_simps [simp]:
  "t_next (exited c n k) = n" "t_state (exited c n k) = TASK_DEAD" "has_exited (exited c n k)"
  "stack_base (exited c n k) = stack_base k" "user_data (exited c n k) = user_data k" "t_id (exited c n k) = t_id k"
  "exit_code (exited c n k) = c" "t_parent (exited c n k) = t_parent k"
  "reaped_by_parent (exited c n k) = (t_parent k = 0 \<or> reaped_by_parent k)"
  by (simp_all add: exited_def)

lemma exit_detach_eq:
  assumes "tasks st cur = Some k" "ready_remove cur (st\<lparr>tasks := (tasks st)(cur \<mapsto> k\<lparr>exit_code := code, has_exited := True, t_state := TASK_DEAD\<rparr>)\<rparr>) = Some st2"
    and "tasks st2 cur = Some (k\<lparr>exit_code := code, has_exited := True, t_state := TASK_DEAD, t_next := n\<rparr>)"
    and "wake_parent (t_parent k) st2 = Some (st2\<lparr>tasks := T3\<rparr>)"
    and "T3 cur = tasks st2 cur" "zombie st2 = zombie st"
  shows "exit_detach cur code st = Some (st2\<lparr>tasks := T3(cur \<mapsto> exited code (zombie st) k), zombie := cur\<rparr>)"
  using assms by (simp add: exit_detach_def modify_def exited_def)

lemma exit_detach_effect:
  assumes c: "calm st rs zs" and k: "tasks st (current st) = Some k" and p: "t_parent k = 0 \<or> t_parent k \<in> dom (tasks st)"
  obtains st' rs' where "exit_detach (current st) code st = Some st'" "ring_ok st' rs'" "set rs' = set rs - {current st}"
    "lseg (tasks st') (zombie st') (current st # zs) 0" "\<And>a. a \<in> set rs' \<Longrightarrow> asleep (tasks st' a)"
    "\<And>z. z \<in> set zs \<Longrightarrow> tasks st' z = tasks st z"
    "tasks st' (current st) = Some (exited code (zombie st) k)"
    "dom (tasks st') = dom (tasks st)" "task_mem st' = task_mem st" "s_heap st' = s_heap st" "current st' = current st"
    "preempt_enabled st' = preempt_enabled st"
proof -
  let ?c = "current st"
  have l: "lseg (tasks st) (ready st) rs (ready st)" "lseg (tasks st) (zombie st) zs 0" "distinct rs" "distinct zs"
    "set rs \<inter> set zs = {}" "dom (tasks st) = set rs \<union> set zs" using calmD(1) [OF c] by (auto simp: links_def)
  have s: "?c \<in> set rs" "\<forall>a \<in> set rs. alive_at st a" "\<forall>z \<in> set zs. dead_at st z"
    using calmD(2) [OF c] by (auto simp: states_ok_def)
  have c0: "?c \<noteq> 0" using lseg_dom [OF l(1)] s(1) by metis
  let ?kd = "k\<lparr>exit_code := code, has_exited := True, t_state := TASK_DEAD\<rparr>"
  define st1 where "st1 = st\<lparr>tasks := (tasks st)(?c \<mapsto> ?kd)\<rparr>"
  have "lseg (tasks st1) (ready st1) rs (ready st1)" using l(1) lseg_same_next [of "tasks st" ?c k ?kd] k by (simp add: st1_def)
  from ready_remove_ring [OF this l(3) s(1)] obtain st2 rs' where
    r: "ready_remove ?c st1 = Some st2" "relinked st1 st2" "set rs' = set rs - {?c}" "distinct rs'"
    "if rs' = [] then ready st2 = 0 else lseg (tasks st2) (ready st2) rs' (ready st2)"
    "\<forall>a. a \<notin> set rs \<longrightarrow> tasks st2 a = tasks st1 a" by blast
  have rl: "current st2 = ?c" "zombie st2 = zombie st" "s_heap st2 = s_heap st" "preempt_enabled st2 = preempt_enabled st"
    "\<And>a. unlinked (tasks st2 a) = unlinked (tasks st1 a)" using r(2) by (auto simp: relinked_def st1_def)
  have "unlinked (tasks st2 ?c) = unlinked (Some ?kd)" using rl(5) [of ?c] by (simp add: st1_def)
  then obtain n where n: "tasks st2 ?c = Some (?kd\<lparr>t_next := n\<rparr>)" by (rule unlinked_SomeE)
  have d2: "dom (tasks st2) = dom (tasks st)" using dom_unlinked [of "tasks st2" "tasks st1", OF rl(5)] k by (auto simp: st1_def)
  obtain T3 where w: "wake_parent (t_parent k) st2 = Some (st2\<lparr>tasks := T3\<rparr>)" "woken (tasks st2) T3"
    using wake_parent_woken [of "t_parent k" st2] p d2 by metis
  have T3c: "T3 ?c = tasks st2 ?c" using wokenD(4) [OF w(2) n] n by simp
  let ?st' = "st2\<lparr>tasks := T3(?c \<mapsto> exited code (zombie st) k), zombie := ?c\<rparr>"
  have ed: "exit_detach ?c code st = Some ?st'"
    by (rule exit_detach_eq [OF k r(1) [unfolded st1_def] n w(1) T3c rl(2)])
  have nx: "map_option t_next (T3 a) = map_option t_next (tasks st2 a)" for a by (rule wokenD(1) [OF w(2)])
  have nc: "?c \<notin> set rs'" "?c \<notin> set zs" using r(3) s(1) l(5) by auto
  have ring: "ring_ok ?st' rs'"
    using r(4,5) nc lseg_cong [of rs' T3 "tasks st2", OF nx] by (simp add: ring_ok_def)
  have z2: "T3 z = tasks st z" if z: "z \<in> set zs" for z
  proof -
    obtain kz where kz: "tasks st z = Some kz" "t_state kz = TASK_DEAD" using s(3) z by (auto simp: dead_at_def split: option.splits)
    have "tasks st2 z = Some kz" using r(6) z l(5) nc kz by (auto simp: st1_def)
    then show ?thesis using wokenD(4) [OF w(2)] kz by metis
  qed
  have zl: "lseg (tasks ?st') (zombie ?st') (?c # zs) 0"
    using l(2) nc c0 lseg_cong [of zs T3 "tasks st" "zombie st" 0] z2 by simp
  have as: "asleep (tasks ?st' a)" if a: "a \<in> set rs'" for a
  proof -
    have ne: "a \<noteq> ?c" "a \<in> set rs" using a r(3) by auto
    then obtain ka where ka: "tasks st a = Some ka" "t_state ka \<noteq> TASK_DEAD" "t_state ka \<noteq> TASK_RUNNING"
      using s(2) by (auto simp: alive_at_def split: option.splits)
    have "unlinked (tasks st2 a) = unlinked (Some ka)" using rl(5) [of a] ka ne by (simp add: st1_def)
    then obtain m where "tasks st2 a = Some (ka\<lparr>t_next := m\<rparr>)" by (rule unlinked_SomeE)
    then show ?thesis using w(2) [unfolded woken_def, rule_format, of a] ka ne by (auto simp: asleep_def)
  qed
  have mem: "task_mem ?st' = task_mem st"
  proof
    fix a
    have "task_mem st2 a = task_mem st1 a" by (rule task_mem_unlinked) (rule rl(5))
    then show "task_mem ?st' a = task_mem st a"
      using wokenD(3) [OF w(2), of a] k by (cases "a = ?c") (simp_all add: task_mem_def st1_def)
  qed
  have dm: "dom (tasks ?st') = dom (tasks st)"
  proof -
    have "dom T3 = dom (tasks st2)" using wokenD(2) [OF w(2)] by (simp add: dom_def)
    then show ?thesis using d2 k by auto
  qed
  show thesis
    by (rule that [OF ed ring r(3) zl as]) (use nc z2 mem dm rl in auto)
qed

section \<open>The next task\<close>

lemma not_runnable: "\<not> runnable k \<longleftrightarrow> t_state k = TASK_DEAD \<or> t_state k = TASK_BLOCKED"
  by (cases "t_state k") (auto simp: runnable_def)

lemma first_runnable_eq:
  "lseg T p xs start \<Longrightarrow> xs \<noteq> [] \<Longrightarrow> start \<notin> set (tl xs) \<Longrightarrow>
   first_runnable T start p = Some (case List.find (run_at T) xs of None \<Rightarrow> 0 | Some q \<Rightarrow> q)"
proof (induction xs arbitrary: p)
  case (Cons x xs)
  obtain k where k: "T x = Some k" "p = x" "lseg T (t_next k) xs start" using Cons.prems(1) by auto
  show ?case
  proof (cases "runnable k")
    case True
    then show ?thesis using k not_runnable [of k] by (subst first_runnable.simps) (auto simp: run_at_def)
  next
    case False
    then have b: "t_state k = TASK_DEAD \<or> t_state k = TASK_BLOCKED" using not_runnable by blast
    show ?thesis
    proof (cases xs)
      case Nil
      then show ?thesis using k b False by (subst first_runnable.simps) (auto simp: run_at_def)
    next
      case (Cons y ys)
      then have "t_next k = y" "y \<noteq> start" using k(3) Cons.prems(3) by auto
      moreover have "first_runnable T start (t_next k) = Some (case List.find (run_at T) xs of None \<Rightarrow> 0 | Some q \<Rightarrow> q)"
        by (rule Cons.IH [OF k(3)]) (use Cons Cons.prems(3) in auto)
      ultimately show ?thesis using k b False by (subst first_runnable.simps) (auto simp: run_at_def)
    qed
  qed
qed simp

lemma exit_dispatch_inv:
  assumes r: "ring_ok st rs" and z: "lseg (tasks st) (zombie st) zs 0" "distinct zs" "set rs \<inter> set zs = {}"
    and d: "dom (tasks st) = set rs \<union> set zs" and as: "\<And>a. a \<in> set rs \<Longrightarrow> asleep (tasks st a)"
    and dd: "\<And>a. a \<in> set zs \<Longrightarrow> dead_at st a" and m: "mem_ok st"
  shows "\<exists>b st'. exit_dispatch st = Some (b, st') \<and> (if b then st' = st \<and> (\<forall>a \<in> set rs. \<not> run_at (tasks st) a) else calm st' rs zs \<and>
    run_at (tasks st) (current st') \<and> (\<forall>a \<in> set zs. tasks st' a = tasks st a) \<and> dom (tasks st') = dom (tasks st))"
proof (cases "List.find (run_at (tasks st)) rs")
  case None
  have "exit_dispatch st = Some (True, st)"
  proof (cases "rs = []")
    case False
    then have ring: "lseg (tasks st) (ready st) rs (ready st)" "distinct rs" using r by (auto simp: ring_ok_def)
    then have "ready st = hd rs" using False by (cases rs) auto
    then have "ready st \<notin> set (tl rs)" using ring(2) False by (cases rs) auto
    from first_runnable_eq [OF ring(1) False this] None show ?thesis by (simp add: exit_dispatch_def)
  qed (use r in \<open>simp add: ring_ok_def exit_dispatch_def\<close>)
  then show ?thesis using find_None [OF None] by auto
next
  case (Some q)
  from find_SomeD [OF this] have q: "q \<in> set rs" "run_at (tasks st) q" by auto
  then have ne: "rs \<noteq> []" by auto
  have ring: "lseg (tasks st) (ready st) rs (ready st)" "distinct rs" using r ne by (auto simp: ring_ok_def)
  then have r0: "ready st = hd rs" "ready st \<noteq> 0" using ne by (cases rs; simp)+
  then have "ready st \<notin> set (tl rs)" using ring(2) ne by (cases rs) auto
  from first_runnable_eq [OF ring(1) ne this] Some have f: "first_runnable (tasks st) (ready st) (ready st) = Some q" by simp
  obtain k where k: "tasks st q = Some k" using q(2) by (auto simp: run_at_def split: option.splits)
  have q0: "q \<noteq> 0" using lseg_dom [OF ring(1)] q(1) by metis
  obtain v b where e: "exit_dispatch st = Some (False, st\<lparr>tasks := (tasks st)(q \<mapsto> k\<lparr>t_state := TASK_RUNNING\<rparr>), current := q,
      tss_rsp0 := b, s_heap := (s_heap st)\<lparr>k_vmm := v\<rparr>, fsbase := fs_base k\<rparr>)"
    using r0 f q0 k by (auto simp: exit_dispatch_def modify_def switch_pd_def Let_def)
  let ?st' = "st\<lparr>tasks := (tasks st)(q \<mapsto> k\<lparr>t_state := TASK_RUNNING\<rparr>), current := q,
      tss_rsp0 := b, s_heap := (s_heap st)\<lparr>k_vmm := v\<rparr>, fsbase := fs_base k\<rparr>"
  have qz: "q \<notin> set zs" using q(1) z(3) by auto
  have "lseg (tasks ?st') (ready st) rs (ready st)"
    using ring(1) lseg_same_next [of "tasks st" q k "k\<lparr>t_state := TASK_RUNNING\<rparr>"] k by simp
  then have "links ?st' rs zs" using z qz ring(2) d q(1) by (auto simp: links_def)
  moreover have "states_ok ?st' rs zs"
  proof -
    have "alive_at ?st' a" if "a \<in> set rs" for a using as [OF that] by (auto simp: alive_at_def asleep_def split: option.splits)
    moreover have "dead_at ?st' a" if "a \<in> set zs" for a using dd [OF that] that qz by (auto simp: dead_at_def)
    ultimately show ?thesis using q(1) by (simp add: states_ok_def)
  qed
  moreover have "mem_ok ?st'"
    by (rule mem_ok_cong [OF m]) (use m k in \<open>auto simp: mem_ok_def task_mem_def\<close>)
  ultimately have "calm ?st' rs zs" by (simp add: calm_def)
  then show ?thesis using e q(2) qz k by (intro exI [of _ False] exI [of _ ?st']) auto
qed

lemma task_exit_inv:
  assumes c: "calm st rs zs" and k: "tasks st (current st) = Some k"
    and p: "t_parent k = 0 \<or> t_parent k \<in> dom (tasks st)" and f: "fdt_ok (blocks (task_mem st)) f"
  shows "\<exists>b st'. task_exit_code f code st = Some (b, st') \<and>
    (\<not> b \<longrightarrow> (\<exists>rs'. calm st' rs' (current st # zs) \<and> set rs' = set rs - {current st} \<and> kept st st' \<and>
       tasks st' (current st) = Some (exited code (zombie st) k) \<and> dom (tasks st') = dom (tasks st)))"
proof -
  define st0 where "st0 = (if is_user k then st\<lparr>s_heap := f k (s_heap st)\<rparr> else st)"
  have hv: "heap_inv (s_heap st)" using c by (simp add: calm_def mem_ok_def)
  have c0: "calm st0 rs zs"
    using c calm_heap [OF c, of "f k (s_heap st)"] f hv blocks_held [OF c] by (auto simp: st0_def fdt_ok_def)
  have s0: "current st0 = current st" "tasks st0 = tasks st" "zombie st0 = zombie st" by (simp_all add: st0_def)
  obtain st1 rs' where d: "exit_detach (current st0) code st0 = Some st1" "ring_ok st1 rs'" "set rs' = set rs - {current st0}"
    "lseg (tasks st1) (zombie st1) (current st0 # zs) 0" "\<And>a. a \<in> set rs' \<Longrightarrow> asleep (tasks st1 a)"
    "\<And>z. z \<in> set zs \<Longrightarrow> tasks st1 z = tasks st0 z" "tasks st1 (current st0) = Some (exited code (zombie st0) k)"
    "dom (tasks st1) = dom (tasks st0)" "task_mem st1 = task_mem st0" "s_heap st1 = s_heap st0"
    using exit_detach_effect [OF c0, of k code] k p s0 by metis
  let ?c = "current st"
  have cr: "?c \<in> set rs" "set rs \<inter> set zs = {}" "distinct zs" "dom (tasks st) = set rs \<union> set zs" "\<forall>z \<in> set zs. dead_at st z"
    "\<forall>z \<in> set rs. alive_at st z"
    using calmD(1,2) [OF c] by (auto simp: links_def states_ok_def)
  have m1: "mem_ok st1" using calmD(3) [OF c0] d(9,10) by (simp add: mem_ok_def)
  have dd: "dead_at st1 a" if "a \<in> set (?c # zs)" for a
    using that cr(5) d(6) [of a] d(7) s0 by (auto simp: dead_at_def)
  have sets: "lseg (tasks st1) (zombie st1) (?c # zs) 0" "distinct (?c # zs)" "set rs' \<inter> set (?c # zs) = {}"
    "dom (tasks st1) = set rs' \<union> set (?c # zs)"
    using d(3,4,8) s0 cr(1-4) by auto
  obtain b st' where e: "exit_dispatch st1 = Some (b, st')"
    "if b then st' = st1 \<and> (\<forall>a \<in> set rs'. \<not> run_at (tasks st1) a) else calm st' rs' (?c # zs) \<and>
       run_at (tasks st1) (current st') \<and> (\<forall>a \<in> set (?c # zs). tasks st' a = tasks st1 a) \<and> dom (tasks st') = dom (tasks st1)"
    using exit_dispatch_inv [OF d(2) sets d(5) dd m1] by blast
  have x: "task_exit_code f code st = Some (b, st')" using k d(1) e(1) by (simp add: task_exit_code_def st0_def)
  have "kept st st'" if nb: "\<not> b"
  proof (rule keptI)
    fix z k' assume z: "tasks st z = Some k'" "t_state k' = TASK_DEAD"
    then have "z \<in> set zs" using cr(4,6) by (force simp: alive_at_def)
    then show "unlinked (tasks st' z) = unlinked (Some k')" using e(2) nb d(6) [of z] z s0 by simp
  qed
  then show ?thesis using x e(2) d(3,7,8) s0 by (cases b) auto
qed

section \<open>Waiting\<close>

definition waits_for :: "sched \<Rightarrow> int \<Rightarrow> nat \<Rightarrow> bool" where
  "waits_for st pid z \<longleftrightarrow> (case tasks st z of None \<Rightarrow> False | Some k \<Rightarrow>
     t_parent k = current st \<and> has_exited k \<and> \<not> reaped_by_parent k \<and> wait_match k pid)"

lemma dead_from_eq:
  "lseg (tasks st) z zs 0 \<Longrightarrow> dead_from st pid z = Some (case List.find (waits_for st pid) zs of None \<Rightarrow> 0 | Some q \<Rightarrow> q)"
proof (induction zs arbitrary: z)
  case Nil
  then show ?case by (subst dead_from.simps) simp
next
  case (Cons y ys)
  then obtain k where k: "tasks st y = Some k" "lseg (tasks st) (t_next k) ys 0" "z = y" "y \<noteq> 0" by auto
  have "waits_for st pid y \<longleftrightarrow> t_parent k = current st \<and> has_exited k \<and> \<not> reaped_by_parent k \<and> wait_match k pid"
    using k(1) by (simp add: waits_for_def)
  then show ?case using Cons.IH [OF k(2)] k by (subst dead_from.simps) simp
qed

lemma any_zombie_eq:
  "lseg (tasks st) z zs 0 \<Longrightarrow> any_zombie st pid z = Some (\<exists>y \<in> set zs. \<exists>k. tasks st y = Some k \<and>
     t_parent k = current st \<and> \<not> reaped_by_parent k \<and> wait_match k pid)"
proof (induction zs arbitrary: z)
  case Nil
  then show ?case by (subst any_zombie.simps) simp
next
  case (Cons y ys)
  then obtain k where k: "tasks st y = Some k" "lseg (tasks st) (t_next k) ys 0" "z = y" "y \<noteq> 0" by auto
  then show ?case using Cons.IH [OF k(2)] k by (subst any_zombie.simps) auto
qed

definition live_child :: "sched \<Rightarrow> int \<Rightarrow> nat \<Rightarrow> bool" where
  "live_child st pid a \<longleftrightarrow> (case tasks st a of None \<Rightarrow> False | Some k \<Rightarrow>
     t_parent k = current st \<and> a \<noteq> current st \<and> wait_match k pid \<and> t_state k \<noteq> TASK_DEAD)"

lemma any_in_ring_eq:
  "lseg (tasks st) p xs (ready st) \<Longrightarrow> xs \<noteq> [] \<Longrightarrow> ready st \<notin> set (tl xs) \<Longrightarrow>
   any_in_ring st pid p = Some (\<exists>a \<in> set xs. live_child st pid a)"
proof (induction xs arbitrary: p)
  case (Cons x xs)
  obtain k where k: "tasks st x = Some k" "p = x" "lseg (tasks st) (t_next k) xs (ready st)" using Cons.prems(1) by auto
  have lc: "live_child st pid x \<longleftrightarrow> t_parent k = current st \<and> x \<noteq> current st \<and> wait_match k pid \<and> t_state k \<noteq> TASK_DEAD"
    using k(1) by (simp add: live_child_def)
  show ?case
  proof (cases xs)
    case Nil
    then show ?thesis using k lc by (subst any_in_ring.simps) auto
  next
    case (Cons y ys)
    then have "t_next k = y" "y \<noteq> ready st" using k(3) Cons.prems(3) by auto
    moreover have "any_in_ring st pid (t_next k) = Some (\<exists>a \<in> set xs. live_child st pid a)"
      by (rule Cons.IH [OF k(3)]) (use Cons Cons.prems(3) in auto)
    ultimately show ?thesis using k lc by (subst any_in_ring.simps) auto
  qed
qed simp

lemma ready_not_tl:
  assumes "lseg (tasks st) (ready st) rs (ready st)" "distinct rs" "rs \<noteq> []"
  shows "ready st \<notin> set (tl rs)"
  using assms by (cases rs) auto

lemma has_any_child_eq:
  assumes "calm st rs zs"
  shows "has_any_child pid st = Some ((\<exists>a \<in> set rs. live_child st pid a) \<or> (\<exists>z \<in> set zs. waits_for st pid z))"
proof -
  have l: "lseg (tasks st) (ready st) rs (ready st)" "distinct rs" "lseg (tasks st) (zombie st) zs 0" "rs \<noteq> []" "\<forall>z \<in> set zs. dead_at st z"
    using calmD(1,2) [OF assms] by (auto simp: links_def states_ok_def)
  have "ready st \<noteq> 0" by (rule ready_nonzero [OF calmD(1) [OF assms] l(4)])
  moreover have "any_in_ring st pid (ready st) = Some (\<exists>a \<in> set rs. live_child st pid a)"
    by (rule any_in_ring_eq [OF l(1,4) ready_not_tl [OF l(1,2,4)]])
  moreover have "any_zombie st pid (zombie st) = Some (\<exists>z \<in> set zs. waits_for st pid z)"
    using any_zombie_eq [OF l(3), of pid] l(5) by (force simp: waits_for_def dead_at_def split: option.splits)
  ultimately show ?thesis by (auto simp: has_any_child_def)
qed

end
