(* ===== verification/Task_Run.thy ===== *)
theory Task_Run
  imports Task_Exit
begin

text \<open>
  Runs of the scheduler: sequences of ticks, yields, creations, exits and waits.  No step of a
  run touches memory that is not allocated, and every runnable task gets the processor.
\<close>

section \<open>Single tasks\<close>

lemma calm_modify_mem:
  assumes c: "calm st rs zs" and k: "tasks st a = Some k" and m: "mem_ok (st\<lparr>tasks := (tasks st)(a \<mapsto> k')\<rparr>)"
    and k': "t_next k' = t_next k"
      "a \<in> set rs \<Longrightarrow> t_state k' \<noteq> TASK_DEAD \<and> (t_state k' = TASK_RUNNING \<longrightarrow> a = current st)"
      "a \<in> set zs \<Longrightarrow> t_state k' = TASK_DEAD \<and> has_exited k'"
  shows "calm (st\<lparr>tasks := (tasks st)(a \<mapsto> k')\<rparr>) rs zs"
proof -
  let ?st = "st\<lparr>tasks := (tasks st)(a \<mapsto> k')\<rparr>"
  have "links ?st rs zs" by (rule links_cong [OF calmD(1) [OF c]]) (use k k' in auto)
  moreover have "alive_at ?st x" if "x \<in> set rs" for x
  proof (cases "x = a")
    case False
    have "alive_at st x" using calmD(2) [OF c] that by (simp add: states_ok_def)
    then show ?thesis using False by (auto simp: alive_at_def split: option.splits)
  qed (use k'(2) that in \<open>simp add: alive_at_def\<close>)
  moreover have "dead_at ?st x" if "x \<in> set zs" for x
    using calmD(2) [OF c] that k'(3) by (cases "x = a") (auto simp: states_ok_def dead_at_def)
  ultimately show ?thesis using calmD(2) [OF c] m by (simp add: calm_def states_ok_def)
qed

lemma calm_modify:
  assumes c: "calm st rs zs" and k: "tasks st a = Some k"
    and k': "t_next k' = t_next k" "stack_base k' = stack_base k" "user_data k' = user_data k"
      "a \<in> set rs \<Longrightarrow> t_state k' \<noteq> TASK_DEAD \<and> (t_state k' = TASK_RUNNING \<longrightarrow> a = current st)"
      "a \<in> set zs \<Longrightarrow> t_state k' = TASK_DEAD \<and> has_exited k'"
  shows "calm (st\<lparr>tasks := (tasks st)(a \<mapsto> k')\<rparr>) rs zs"
proof (rule calm_modify_mem [OF c k _ k'(1,4,5)])
  show "mem_ok (st\<lparr>tasks := (tasks st)(a \<mapsto> k')\<rparr>)"
    by (rule mem_ok_cong [OF calmD(3) [OF c]]) (use calmD(3) [OF c] k k'(2,3) in \<open>auto simp: mem_ok_def task_mem_def\<close>)
qed auto

lemma kept_modify:
  assumes "tasks st a = Some k" "t_state k = TASK_DEAD \<Longrightarrow> reaped_by_parent k"
  shows "kept st (st\<lparr>tasks := (tasks st)(a \<mapsto> k')\<rparr>)"
  by (rule keptI) (use assms in auto)

lemma calm_current:
  assumes "calm st rs zs"
  obtains k where "tasks st (current st) = Some k" "current st \<in> set rs" "current st \<notin> set zs" "t_state k \<noteq> TASK_DEAD"
proof -
  have "current st \<in> set rs" "alive_at st (current st)" "current st \<notin> set zs"
    using calmD(1,2) [OF assms] by (auto simp: states_ok_def links_def)
  then show thesis using that by (auto simp: alive_at_def split: option.splits)
qed

section \<open>Waiting\<close>

lemma wait_pass_found:
  assumes c: "calm st rs zs" and f: "List.find (waits_for st pid) zs = Some z"
  obtains k where "tasks st z = Some k" "waits_for st pid z" "z \<in> set zs"
    "wait_pass pid nohang st = Some (Reaped (t_id k) (exit_code k), st\<lparr>tasks := (tasks st)(z \<mapsto> k\<lparr>reaped_by_parent := True\<rparr>)\<rparr>)"
proof -
  have z: "z \<in> set zs" "waits_for st pid z" using find_SomeD [OF f] by auto
  then obtain k where k: "tasks st z = Some k" by (auto simp: waits_for_def split: option.splits)
  have "z \<noteq> 0" using links_nonzero [OF calmD(1) [OF c]] z(1) by blast
  moreover have "find_dead_child pid st = Some z"
    using dead_from_eq [of st "zombie st" zs pid] calmD(1) [OF c] f by (simp add: find_dead_child_def links_def)
  ultimately show thesis using that [OF k z(2,1)] k by (simp add: wait_pass_def modify_def)
qed

lemma wait_pass_none:
  assumes c: "calm st rs zs" and f: "List.find (waits_for st pid) zs = None"
  shows "wait_pass pid nohang st =
    (if \<not> (\<exists>a \<in> set rs. live_child st pid a) then Some (No_child, st)
     else if nohang then Some (None_yet, st)
     else map_option (\<lambda>s. (Sleeps, s)) (modify (current st) (\<lambda>q. q\<lparr>wait_any := True, t_state := TASK_BLOCKED\<rparr>) st))"
proof -
  have "find_dead_child pid st = Some 0"
    using dead_from_eq [of st "zombie st" zs pid] calmD(1) [OF c] f by (simp add: find_dead_child_def links_def)
  moreover have "\<not> (\<exists>z \<in> set zs. waits_for st pid z)" using find_None [OF f] by blast
  ultimately show ?thesis using has_any_child_eq [OF c, of pid]
    by (auto simp: wait_pass_def modify_def split: option.split)
qed

lemma wait_pass_inv:
  assumes c: "calm st rs zs"
  shows "\<exists>r st'. wait_pass pid nohang st = Some (r, st') \<and> calm st' rs zs \<and>
    (kept st st' \<or> (\<exists>z k. r = Reaped (t_id k) (exit_code k) \<and> tasks st z = Some k \<and> t_parent k = current st \<and>
       st' = st\<lparr>tasks := (tasks st)(z \<mapsto> k\<lparr>reaped_by_parent := True\<rparr>)\<rparr>))"
proof (cases "List.find (waits_for st pid) zs")
  case None
  obtain k where k: "tasks st (current st) = Some k" "current st \<notin> set zs" "t_state k \<noteq> TASK_DEAD" by (rule calm_current [OF c])
  let ?st' = "st\<lparr>tasks := (tasks st)(current st \<mapsto> k\<lparr>wait_any := True, t_state := TASK_BLOCKED\<rparr>)\<rparr>"
  have "calm ?st' rs zs" by (rule calm_modify [OF c k(1)]) (use k in auto)
  moreover have "kept st ?st'" by (rule kept_modify [OF k(1)]) (use k in simp)
  ultimately show ?thesis using wait_pass_none [OF c None, of nohang] c k(1) by (simp add: modify_def)
next
  case (Some z)
  obtain k where k: "tasks st z = Some k" "waits_for st pid z" "z \<in> set zs"
    "wait_pass pid nohang st = Some (Reaped (t_id k) (exit_code k), st\<lparr>tasks := (tasks st)(z \<mapsto> k\<lparr>reaped_by_parent := True\<rparr>)\<rparr>)"
    by (rule wait_pass_found [OF c Some])
  have "dead_at st z" "z \<notin> set rs" using calmD(1,2) [OF c] k(3) by (auto simp: states_ok_def links_def)
  then have "calm (st\<lparr>tasks := (tasks st)(z \<mapsto> k\<lparr>reaped_by_parent := True\<rparr>)\<rparr>) rs zs"
    by (intro calm_modify [OF c k(1)]) (use k in \<open>auto simp: dead_at_def\<close>)
  moreover have "t_parent k = current st" using k(1,2) by (simp add: waits_for_def)
  ultimately show ?thesis using k(1,4) by blast
qed

lemma wait_resume_inv:
  assumes c: "calm st rs zs"
  shows "\<exists>st'. wait_resume st = Some st' \<and> calm st' rs zs \<and> kept st st'"
proof -
  obtain k where k: "tasks st (current st) = Some k" "current st \<notin> set zs" "t_state k \<noteq> TASK_DEAD" by (rule calm_current [OF c])
  have "calm (st\<lparr>tasks := (tasks st)(current st \<mapsto> k\<lparr>wait_any := False\<rparr>)\<rparr>) rs zs" by (rule calm_modify [OF c k(1)]) (use k in auto)
  moreover have "kept st (st\<lparr>tasks := (tasks st)(current st \<mapsto> k\<lparr>wait_any := False\<rparr>)\<rparr>)" by (rule kept_modify [OF k(1)]) (use k in simp)
  ultimately show ?thesis using k(1) by (simp add: wait_resume_def modify_def)
qed

section \<open>Looking through the ring\<close>

lemma ring_list_eq:
  "lseg T p xs start \<Longrightarrow> xs \<noteq> [] \<Longrightarrow> start \<notin> set (tl xs) \<Longrightarrow>
   ring_list T start p = Some (map (\<lambda>a. (a, the (T a))) xs)"
proof (induction xs arbitrary: p)
  case (Cons x xs)
  obtain k where k: "T x = Some k" "p = x" "lseg T (t_next k) xs start" using Cons.prems(1) by auto
  show ?case
  proof (cases xs)
    case Nil
    then show ?thesis using k by (subst ring_list.simps) simp
  next
    case (Cons y ys)
    then have "t_next k = y" "y \<noteq> start" using k(3) Cons.prems(3) by auto
    moreover have "ring_list T start (t_next k) = Some (map (\<lambda>a. (a, the (T a))) xs)"
      by (rule Cons.IH [OF k(3)]) (use Cons Cons.prems(3) in auto)
    ultimately show ?thesis using k by (subst ring_list.simps) simp
  qed
qed simp

lemma ring_tasks_eq:
  assumes "calm st rs zs"
  shows "ring_tasks st = Some (map (\<lambda>a. (a, the (tasks st a))) rs)"
proof -
  have l: "lseg (tasks st) (ready st) rs (ready st)" "distinct rs" "rs \<noteq> []"
    using calmD(1,2) [OF assms] by (auto simp: links_def states_ok_def)
  show ?thesis using ring_list_eq [OF l(1,3) ready_not_tl [OF l]] ready_nonzero [OF calmD(1) [OF assms] l(3)]
    by (simp add: ring_tasks_def)
qed

lemma task_find_by_id_found:
  assumes "calm st rs zs"
  shows "\<exists>t. task_find_by_id i st = Some t \<and> (t = 0 \<or> t \<in> set rs \<and> (\<exists>k. tasks st t = Some k \<and> int (t_id k) = i))"
proof (cases "List.find (\<lambda>(_, k). int (t_id k) = i) (map (\<lambda>a. (a, the (tasks st a))) rs)")
  case None
  then show ?thesis using ring_tasks_eq [OF assms] by (simp add: task_find_by_id_def)
next
  case (Some x)
  from find_SomeD [OF this] obtain a where "x = (a, the (tasks st a))" "a \<in> set rs" "int (t_id (the (tasks st a))) = i" by auto
  moreover from this have "a \<in> dom (tasks st)" using calmD(1) [OF assms] by (auto simp: links_def)
  ultimately show ?thesis using ring_tasks_eq [OF assms] Some by (auto simp: task_find_by_id_def)
qed

lemma task_adopt_inv:
  assumes c: "calm st rs zs" and r: "held (s_heap st) r" "r \<notin> blocks (task_mem st)" "r \<noteq> 0"
    and new: "\<And>t k. t \<in> set rs \<Longrightarrow> tasks st t = Some k \<Longrightarrow> int (t_id k) = i \<Longrightarrow> user_data k = 0"
  shows "\<exists>st'. task_adopt i r st = Some st' \<and> calm st' rs zs \<and> kept st st'"
proof -
  obtain t where t: "task_find_by_id i st = Some t" "t = 0 \<or> t \<in> set rs \<and> (\<exists>k. tasks st t = Some k \<and> int (t_id k) = i)"
    using task_find_by_id_found [OF c] by blast
  show ?thesis
  proof (cases "t = 0")
    case True
    then show ?thesis using t(1) c by (simp add: task_adopt_def)
  next
    case False
    then obtain k where k: "t \<in> set rs" "tasks st t = Some k" "int (t_id k) = i" using t(2) by auto
    let ?k = "k\<lparr>user_data := r, on_exit := True, t_parent := current st\<rparr>"
    let ?st' = "st\<lparr>tasks := (tasks st)(t \<mapsto> ?k)\<rparr>"
    have al: "alive_at st t" "t \<notin> set zs" using calmD(1,2) [OF c] k(1) by (auto simp: states_ok_def links_def)
    have u: "user_data k = 0" by (rule new [OF k])
    have m: "apart_mem (task_mem st)" "\<forall>p \<in> blocks (task_mem st). held (s_heap st) p" "heap_inv (s_heap st)"
      using calmD(3) [OF c] by (auto simp: mem_ok_def)
    have Mt: "task_mem st t = Some (stack_base k, 0)" using k(2) u by (simp add: task_mem_def)
    have M': "task_mem ?st' = (task_mem st)(t \<mapsto> (stack_base k, r))" by (rule ext) (simp add: task_mem_def)
    have o: "own (task_mem st) t = {t, stack_base k} - {0}" using Mt by (auto simp: own_def)
    then have "t \<in> blocks (task_mem st)" "stack_base k \<noteq> 0 \<Longrightarrow> stack_base k \<in> blocks (task_mem st)"
      using False by (auto simp: blocks_def)
    then have tri: "three_apart t (stack_base k) r" using apart_memD(1) [OF m(1) Mt] r(2,3) by (auto simp: three_apart_def)
    have dis: "({t, stack_base k, r} - {0}) \<inter> blocks ((task_mem st)(t := None)) = {}"
      using blocks_remove [OF m(1), of _ t] r(2) o by blast
    have "mem_ok ?st'"
      using apart_mem_put [OF m(1) tri dis] m(2,3) r(1) blocks_remove(1) [OF m(1), of _ t] o
        \<open>t \<in> blocks (task_mem st)\<close> \<open>stack_base k \<noteq> 0 \<Longrightarrow> stack_base k \<in> blocks (task_mem st)\<close>
      unfolding mem_ok_def M' by auto
    then have "calm ?st' rs zs"
      by (rule calm_modify_mem [OF c k(2)]) (use al k in \<open>auto simp: alive_at_def\<close>)
    moreover have "kept st ?st'" by (rule kept_modify [OF k(2)]) (use al k in \<open>simp add: alive_at_def\<close>)
    ultimately show ?thesis using t(1) False k(2) by (simp add: task_adopt_def modify_def)
  qed
qed

section \<open>Runs\<close>

lemma exit_detach_orphan:
  assumes r: "lseg (tasks st) (ready st) rs (ready st)" "distinct rs" "c \<in> set rs"
    and k: "tasks st c = Some k" "t_parent k \<noteq> 0" "tasks st (t_parent k) = None"
  shows "exit_detach c code st = None"
proof -
  let ?kd = "k\<lparr>exit_code := code, has_exited := True, t_state := TASK_DEAD\<rparr>"
  define st1 where "st1 = st\<lparr>tasks := (tasks st)(c \<mapsto> ?kd)\<rparr>"
  have "lseg (tasks st1) (ready st1) rs (ready st1)" using r(1) lseg_same_next [of "tasks st" c k ?kd] k(1) by (simp add: st1_def)
  from ready_remove_ring [OF this r(2,3)] obtain st2 where s2: "ready_remove c st1 = Some st2" "relinked st1 st2" by blast
  have u: "unlinked (tasks st2 a) = unlinked (tasks st1 a)" for a using s2(2) by (auto simp: relinked_def)
  have "unlinked (tasks st2 c) = unlinked (Some ?kd)" using u [of c] by (simp add: st1_def)
  then obtain n where n: "tasks st2 c = Some (?kd\<lparr>t_next := n\<rparr>)" by (rule unlinked_SomeE)
  have "t_parent k \<noteq> c" using k by auto
  then have "tasks st2 (t_parent k) = None" using u [of "t_parent k"] k(3) by (simp add: st1_def unlinked_eq_None)
  then have "wake_parent (t_parent k) st2 = None" using k(2) by (simp add: wake_parent_def modify_def)
  then show ?thesis using k(1) s2(1) n by (simp add: exit_detach_def modify_def st1_def)
qed

text \<open>So an exit that returns is the exit of a task whose parent, if it has one, exists.\<close>

lemma exit_parent:
  assumes "calm st rs zs" "tasks st (current st) = Some k" "task_exit_code f code st = Some r"
  shows "t_parent k = 0 \<or> t_parent k \<in> dom (tasks st)"
proof (rule ccontr)
  assume n: "\<not> ?thesis"
  have l: "lseg (tasks st) (ready st) rs (ready st)" "distinct rs" "current st \<in> set rs"
    using calmD(1,2) [OF assms(1)] by (auto simp: links_def states_ok_def)
  have "exit_detach (current st) code s = None" if "tasks s = tasks st" "ready s = ready st" for s
    by (rule exit_detach_orphan [OF _ l(2,3), where k = k]) (use that l(1) n assms(2) in auto)
  then show False using assms(2,3) by (auto simp: task_exit_code_def Let_def split: if_splits)
qed

text \<open>
  What can happen to the scheduler, operation by operation.  The hooks are any functions that leave
  the memory of the tasks alone, and what the loader attaches to a task is a block of its own.
  A run goes on after an exit when another task runs: it ends with an exit that halts the processor
  because nothing is left to run, and with an exit that reads the freed structure of its parent,
  which has no result.  The creation of a task is one step.
\<close>

inductive task_step :: "sched \<Rightarrow> sched \<Rightarrow> bool" where
  step_tick: "scheduler_tick st = Some st' \<Longrightarrow> task_step st st'"
| step_yield: "hook_ok (blocks (task_mem st)) hook \<Longrightarrow> yield hook st = Some st' \<Longrightarrow> task_step st st'"
| step_enable: "task_step st (tasking_enable_preemption st)"
| step_spawn: "task_spawn trampoline fn name st = Some (i, st') \<Longrightarrow> task_step st st'"
| step_spawn_user: "task_spawn_user trampoline fn uip usp pd name st = Some (i, st') \<Longrightarrow> task_step st st'"
| step_clone: "fdt_ok UNIV f \<Longrightarrow> task_clone_user f trampoline fn frame pd name st = Some (i, st') \<Longrightarrow> task_step st st'"
| step_adopt: "held (s_heap st) r \<Longrightarrow> r \<notin> blocks (task_mem st) \<Longrightarrow> r \<noteq> 0 \<Longrightarrow>
     (\<And>t k. tasks st t = Some k \<Longrightarrow> int (t_id k) = i \<Longrightarrow> user_data k = 0) \<Longrightarrow>
     task_adopt i r st = Some st' \<Longrightarrow> task_step st st'"
| step_exit: "fdt_ok (blocks (task_mem st)) f \<Longrightarrow> task_exit_code f code st = Some (False, st') \<Longrightarrow> task_step st st'"
| step_wait: "wait_pass pid nohang st = Some (r, st') \<Longrightarrow> task_step st st'"
| step_resume: "wait_resume st = Some st' \<Longrightarrow> task_step st st'"

lemma spawnedD:
  "spawned st zs x \<Longrightarrow> x = Some (i, st') \<Longrightarrow> \<exists>rs'. calm st' rs' zs \<and> kept st st'"
  by (auto simp: spawned_def)

lemma task_step_calm:
  assumes "task_step st st'" "calm st rs zs"
  shows "(\<exists>rs' zs'. calm st' rs' zs') \<and>
    (kept st st' \<or> (\<exists>pid nohang z k. wait_pass pid nohang st = Some (Reaped (t_id k) (exit_code k), st') \<and>
       tasks st z = Some k \<and> t_parent k = current st \<and> st' = st\<lparr>tasks := (tasks st)(z \<mapsto> k\<lparr>reaped_by_parent := True\<rparr>)\<rparr>))"
  using assms
proof (cases rule: task_step.cases)
  case step_tick
  then show ?thesis using scheduler_tick_inv [OF assms(2)] by auto
next
  case (step_yield hook)
  then show ?thesis using yield_inv [OF assms(2)] by fastforce
next
  case step_enable
  have "calm (st\<lparr>preempt_enabled := True\<rparr>) rs zs"
  proof -
    have "task_mem (st\<lparr>preempt_enabled := True\<rparr>) = task_mem st" by (rule ext) (simp add: task_mem_def)
    moreover have "alive_at (st\<lparr>preempt_enabled := True\<rparr>) a = alive_at st a" "dead_at (st\<lparr>preempt_enabled := True\<rparr>) a = dead_at st a" for a
      by (simp_all add: alive_at_def dead_at_def split: option.split)
    ultimately show ?thesis using assms(2) by (simp add: calm_def links_def states_ok_def mem_ok_def)
  qed
  moreover have "kept st (st\<lparr>preempt_enabled := True\<rparr>)" by (rule keptI) simp
  ultimately show ?thesis using step_enable by (auto simp: tasking_enable_preemption_def)
next
  case step_spawn
  then show ?thesis using spawnedD [OF task_spawn_ok [OF assms(2)]] by blast
next
  case step_spawn_user
  then show ?thesis using spawnedD [OF task_spawn_user_ok [OF assms(2)]] by blast
next
  case step_clone
  then show ?thesis using spawnedD [OF task_clone_user_ok [OF assms(2)]] by blast
next
  case (step_adopt r i)
  then show ?thesis using task_adopt_inv [OF assms(2) step_adopt(1-3)] by fastforce
next
  case (step_exit f code)
  obtain k where k: "tasks st (current st) = Some k" by (rule calm_current [OF assms(2)])
  show ?thesis using task_exit_inv [OF assms(2) k exit_parent [OF assms(2) k step_exit(2)] step_exit(1), of code] step_exit(2) by auto
next
  case (step_wait pid nohang r)
  then show ?thesis using wait_pass_inv [OF assms(2), of pid nohang] by auto
next
  case step_resume
  then show ?thesis using wait_resume_inv [OF assms(2)] by auto
qed

lemma steps_calm: "task_step\<^sup>*\<^sup>* st st' \<Longrightarrow> \<exists>rs zs. calm st rs zs \<Longrightarrow> \<exists>rs zs. calm st' rs zs"
  by (induction rule: rtranclp_induct) (use task_step_calm in blast)+

section \<open>Sample scheduler\<close>

text \<open>
  Three structures in one page of heap: the running task and a ready one in the ring, the
  first the child of the second, and a collected zombie, the former parent of the second.
\<close>

definition sched_heap :: kheap where
  "sched_heap = \<lparr>k_vmm = sample_vmm,
     k_store = [1048576 \<mapsto> \<lparr>b_size = 456, b_used = True, b_next = 1049048\<rparr>,
                1049048 \<mapsto> \<lparr>b_size = 456, b_used = True, b_next = 1049520\<rparr>,
                1049520 \<mapsto> \<lparr>b_size = 456, b_used = True, b_next = 1049992\<rparr>,
                1049992 \<mapsto> \<lparr>b_size = 2664, b_used = False, b_next = 0\<rparr>],
     heap_head = 1048576, heap_start = 1048576, heap_end = 1052672, heap_limit = 1114112\<rparr>"

definition running_task :: task where
  "running_task = blank_task\<lparr>t_id := 2, t_state := TASK_RUNNING, t_parent := 1049064, t_next := 1049064\<rparr>"

definition ready_task :: task where
  "ready_task = blank_task\<lparr>t_id := 1, t_parent := 1049536, t_next := 1048592\<rparr>"

definition gone_task :: task where
  "gone_task = blank_task\<lparr>t_state := TASK_DEAD, has_exited := True, reaped_by_parent := True\<rparr>"

definition sample_sched :: sched where
  "sample_sched = \<lparr>s_heap = sched_heap, tasks = [1048592 \<mapsto> running_task, 1049064 \<mapsto> ready_task, 1049536 \<mapsto> gone_task],
     s_stack = (\<lambda>_. 0), current = 1048592, ready = 1048592, next_id = 3, preempt_enabled = True, zombie = 1049536,
     fsbase = 0, tss_rsp0 = 0\<rparr>"

lemma sched_heap_ok:
  "heap_ok sched_heap [(1048576, 456, True), (1049048, 456, True), (1049520, 456, True), (1049992, 2664, False)]"
  by (simp add: heap_ok_def sched_heap_def)

lemma sample_calm: "calm sample_sched [1048592, 1049064] [1049536]"
proof -
  have ar: "heap_areas sched_heap = {(1048592, 456), (1049064, 456), (1049536, 456)}"
    using heap_areas_eq [OF sched_heap_ok] by (auto simp: live_def)
  have M: "task_mem sample_sched = [1048592 \<mapsto> (0, 0), 1049064 \<mapsto> (0, 0), 1049536 \<mapsto> (0, 0)]"
    by (rule ext) (simp add: task_mem_def sample_sched_def running_task_def ready_task_def gone_task_def blank_task_def)
  have bl: "blocks (task_mem sample_sched) = {1048592, 1049064, 1049536}"
    unfolding M by (auto simp: blocks_def own_def split: if_splits)
  have "links sample_sched [1048592, 1049064] [1049536]"
    by (auto simp: links_def sample_sched_def running_task_def ready_task_def gone_task_def blank_task_def)
  moreover have "states_ok sample_sched [1048592, 1049064] [1049536]"
    by (simp add: states_ok_def alive_at_def dead_at_def sample_sched_def running_task_def ready_task_def gone_task_def blank_task_def)
  moreover have "mem_ok sample_sched"
    unfolding mem_ok_def bl
  proof (intro conjI)
    show "heap_inv (s_heap sample_sched)" using sched_heap_ok by (auto simp: heap_inv_def sample_sched_def)
    show "\<forall>p \<in> {1048592, 1049064, 1049536}. held (s_heap sample_sched) p" by (auto simp: held_def sample_sched_def ar)
    show "apart_mem (task_mem sample_sched)" unfolding M by (auto simp: apart_mem_def three_apart_def own_def split: if_splits)
  qed
  ultimately show ?thesis by (simp add: calm_def)
qed

section \<open>Properties\<close>

text \<open>A booted system: the heap is well formed and there is no task yet.\<close>

definition boots :: "sched \<Rightarrow> bool" where
  "boots st \<longleftrightarrow> heap_inv (s_heap st) \<and> tasks st = Map.empty \<and> ready st = 0 \<and> zombie st = 0 \<and> current st = 0"

lemma tasking_init_calm:
  assumes b: "boots st" and i: "tasking_init st = Some st0" "current st0 \<noteq> 0"
  shows "calm st0 [current st0] []"
proof -
  have h: "heap_inv (s_heap st)" "tasks st = Map.empty" "ready st = 0" "zombie st = 0" "current st = 0"
    using b by (auto simp: boots_def)
  have "fits_u32 TASK_SIZE" by (simp add: fits_u32_def)
  from kmalloc_held [OF h(1) this] obtain t h' where
    k: "kmalloc (s_heap st) TASK_SIZE = Some (t, h')" "heap_inv h'" "t \<noteq> 0 \<Longrightarrow> held h' t" by metis
  have t: "t \<noteq> 0" using i k(1) h(5) by (auto simp: tasking_init_def split: if_splits)
  let ?k = "blank_task\<lparr>t_id := next_id st, t_state := TASK_RUNNING, t_name := name_copy ''kmain'' 16, t_next := t\<rparr>"
  have st0: "tasks st0 = [t \<mapsto> ?k]" "current st0 = t" "ready st0 = t" "zombie st0 = 0" "s_heap st0 = h'"
    using i(1) k(1) t h by (auto simp: tasking_init_def ready_insert_def modify_def)
  have M: "task_mem st0 = [t \<mapsto> (0, 0)]" by (rule ext) (simp add: task_mem_def st0(1) blank_task_def)
  have "blocks [t \<mapsto> (0, 0)] = {t}" using t by (auto simp: blocks_def own_def split: if_splits)
  moreover have "apart_mem [t \<mapsto> (0, 0)]" using t by (auto simp: apart_mem_def three_apart_def own_def split: if_splits)
  ultimately have "mem_ok st0" using k(2,3) t by (simp add: mem_ok_def M st0(5))
  moreover have "links st0 [t] []" using t by (simp add: links_def st0)
  moreover have "states_ok st0 [t] []" by (simp add: states_ok_def alive_at_def st0(1,2))
  ultimately show ?thesis by (simp add: calm_def st0(2))
qed

text \<open>C26. Along every run of whole operations that starts when the first task is set up, however ticks,
  yields, creations of kernel and user tasks, forks, exits that another task follows, and waits
  succeed each other: the ready ring and the zombie list hold every task exactly once, the running
  task is in the ring, zombies are dead, every structure and stack is allocated and none is shared.
  From each state of such a run a tick, a yield, a creation, a fork and a wait touch allocated
  structures only, and an exit does exactly when the structure of the exiting task's parent, if it
  has one, has not been freed.  The hooks of other parts leave the memory of the tasks alone.  The creations are taken as one step each, although the code
  allocates before it disables interrupts.\<close>

theorem scheduler_runs_safe:
  assumes "boots st" "tasking_init st = Some st0" "current st0 \<noteq> 0" "task_step\<^sup>*\<^sup>* st0 s"
  shows "sched_inv s \<and> scheduler_tick s \<noteq> None \<and> (hook_ok (blocks (task_mem s)) hook \<longrightarrow> yield hook s \<noteq> None) \<and>
    task_spawn trampoline fn name s \<noteq> None \<and> task_spawn_user trampoline fn uip usp pd name s \<noteq> None \<and>
    (fdt_ok UNIV g \<longrightarrow> task_clone_user g trampoline fn frame pd name s \<noteq> None) \<and>
    wait_pass pid nohang s \<noteq> None \<and> wait_resume s \<noteq> None \<and>
    (\<exists>k. tasks s (current s) = Some k \<and>
       (fdt_ok (blocks (task_mem s)) f \<longrightarrow> (task_exit_code f code s \<noteq> None \<longleftrightarrow> t_parent k = 0 \<or> t_parent k \<in> dom (tasks s))))"
proof -
  obtain rs zs where c: "calm s rs zs" using steps_calm [OF assms(4)] tasking_init_calm [OF assms(1-3)] by blast
  obtain k where k: "tasks s (current s) = Some k" by (rule calm_current [OF c])
  have sp: "x \<noteq> None" if "spawned s zs x" for x using that by (auto simp: spawned_def)
  have "sched_inv s" using c sched_inv_calm by blast
  moreover have "scheduler_tick s \<noteq> None" using scheduler_tick_inv [OF c] by auto
  moreover have "yield hook s \<noteq> None" if "hook_ok (blocks (task_mem s)) hook" using yield_inv [OF c that] by auto
  moreover note sp [OF task_spawn_ok [OF c]] sp [OF task_spawn_user_ok [OF c]] sp [OF task_clone_user_ok [OF c]]
  moreover have "wait_pass pid nohang s \<noteq> None" using wait_pass_inv [OF c, of pid nohang] by auto
  moreover have "wait_resume s \<noteq> None" using wait_resume_inv [OF c] by auto
  moreover have "task_exit_code f code s \<noteq> None \<longleftrightarrow> t_parent k = 0 \<or> t_parent k \<in> dom (tasks s)" if "fdt_ok (blocks (task_mem s)) f"
    using task_exit_inv [OF c k _ that, of code] exit_parent [OF c k, of f code] by blast
  ultimately show ?thesis using k by blast
qed

definition boot_sched :: sched where
  "boot_sched = \<lparr>s_heap = sample_heap, tasks = Map.empty, s_stack = (\<lambda>_. 0), current = 0, ready = 0, next_id = 0,
     preempt_enabled = False, zombie = 0, fsbase = 0, tss_rsp0 = 0\<rparr>"

lemma boot_sched_init: "\<exists>st0. tasking_init boot_sched = Some st0 \<and> current st0 = 1048800"
proof -
  have "\<exists>h1. kmalloc sample_heap 456 = Some (1048800, h1)"
    using find_fit_correct [OF sample_heap_ok, of 456] by (auto simp: kmalloc_def ALIGN8_def u32_add_def sample_heap_def)
  then show ?thesis by (auto simp: tasking_init_def boot_sched_def ready_insert_def modify_def)
qed

theorem scheduler_runs_safe_witness:
  "\<exists>st0 i s1 s2. tasking_init boot_sched = Some st0 \<and> task_spawn 4096 8192 None st0 = Some (i, s1) \<and> scheduler_tick s1 = Some s2 \<and>
    sched_inv s2 \<and> yield (\<lambda>_ h. h) s2 \<noteq> None"
proof -
  obtain st0 where i: "tasking_init boot_sched = Some st0" "current st0 \<noteq> 0" using boot_sched_init by auto
  have "boots boot_sched" using sample_heap_inv by (simp add: boots_def boot_sched_def)
  note safe = scheduler_runs_safe [OF this i, where hook = "\<lambda>_ h. h" and trampoline = 4096 and fn = 8192 and name = None
      and uip = 0 and usp = 0 and pd = 0 and g = "\<lambda>_ h. h" and frame = "[]" and pid = 0 and nohang = True and f = "\<lambda>_ h. h" and code = 0]
  obtain x s1 where s1: "task_spawn 4096 8192 None st0 = Some (x, s1)" using safe [OF rtranclp.rtrancl_refl] by fast
  then have r1: "task_step\<^sup>*\<^sup>* st0 s1" using step_spawn by blast
  obtain s2 where s2: "scheduler_tick s1 = Some s2" using safe [OF r1] by blast
  then have "task_step\<^sup>*\<^sup>* st0 s2" using r1 step_tick by (meson rtranclp.rtrancl_into_rtrancl)
  from safe [OF this] show ?thesis using i(1) s1 s2 by (simp add: hook_ok_def)
qed



text \<open>C28. No exit status is lost.  When a task with a parent exits and another one runs, then
  at every later moment of every run its structure is still there with the exit code, waiting to
  be collected, unless its parent has collected exactly this identifier and code before; and a
  wait of the parent that asks for it then returns at once with a collected child.\<close>

theorem exit_status_not_lost:
  assumes inv: "sched_inv st" and k: "tasks st (current st) = Some k" "\<not> reaped_by_parent k"
    and p: "t_parent k \<noteq> 0" "t_parent k \<in> dom (tasks st)" and f: "fdt_ok (blocks (task_mem st)) f"
    and x: "task_exit_code f code st = Some (False, st1)" and run: "task_step\<^sup>*\<^sup>* st1 st2"
  shows "(\<exists>n. tasks st2 (current st) = Some (exited code n k) \<and>
      (current st2 = t_parent k \<longrightarrow> wait_match k pid \<longrightarrow>
        (\<exists>i c st3. wait_pass pid nohang st2 = Some (Reaped i c, st3)))) \<or>
    (\<exists>s s' pid' nohang'. task_step\<^sup>*\<^sup>* st1 s \<and> current s = t_parent k \<and>
       wait_pass pid' nohang' s = Some (Reaped (t_id k) code, s') \<and> task_step\<^sup>*\<^sup>* s' st2)"
    (is "?waiting st2 \<or> ?collected st2")
proof -
  let ?c = "current st"
  obtain rs zs where c: "calm st rs zs" using inv sched_inv_calm by blast
  have p': "t_parent k = 0 \<or> t_parent k \<in> dom (tasks st)" using p(2) by blast
  obtain rs1 where c1: "calm st1 rs1 (?c # zs)" "tasks st1 ?c = Some (exited code (zombie st) k)"
    using task_exit_inv [OF c k(1) p' f, of code] x by auto
  have ex: "\<not> reaped_by_parent (exited code n k)" for n using k(2) p(1) by simp
  from run have "(\<exists>rs zs. calm st2 rs zs) \<and> ((\<exists>n. tasks st2 ?c = Some (exited code n k)) \<or> ?collected st2)"
  proof (induction rule: rtranclp_induct)
    case base
    then show ?case using c1 by blast
  next
    case (step s s')
    obtain rs' zs' where cs: "calm s rs' zs'" using step.IH by blast
    note t = task_step_calm [OF step.hyps(2) cs]
    show ?case
    proof (cases "?collected s")
      case True
      then have "?collected s'" using step.hyps(2) by (meson rtranclp.rtrancl_into_rtrancl)
      then show ?thesis using t by blast
    next
      case False
      then obtain n where n: "tasks s ?c = Some (exited code n k)" using step.IH by blast
      have ee: "exited code n k\<lparr>t_next := m\<rparr> = exited code m k" for m by (simp add: exited_def)
      from t consider "kept s s'" | pid' nohang' z kz where "wait_pass pid' nohang' s = Some (Reaped (t_id kz) (exit_code kz), s')"
        "tasks s z = Some kz" "t_parent kz = current s" "s' = s\<lparr>tasks := (tasks s)(z \<mapsto> kz\<lparr>reaped_by_parent := True\<rparr>)\<rparr>" by blast
      then have "(\<exists>n. tasks s' ?c = Some (exited code n k)) \<or> ?collected s'"
      proof cases
        case 1
        then have "\<exists>m. tasks s' ?c = Some (exited code n k\<lparr>t_next := m\<rparr>)" using n ex unfolding kept_def by simp
        then show ?thesis using ee by auto
      next
        case (2 pid' nohang' z kz)
        show ?thesis
        proof (cases "z = ?c")
          case True
          then have "kz = exited code n k" using 2(2) n by simp
          then show ?thesis using 2(1,3) step.hyps(1) by (intro disjI2 exI [of _ s] exI [of _ s'] exI [of _ pid'] exI [of _ nohang']) simp
        next
          case False
          then show ?thesis using n 2(4) by auto
        qed
      qed
      then show ?thesis using t by blast
    qed
  qed
  moreover have "\<exists>i c st3. wait_pass pid nohang st2 = Some (Reaped i c, st3)"
    if c2: "calm st2 rs2 zs2" and n: "tasks st2 ?c = Some (exited code n k)" and w: "current st2 = t_parent k" "wait_match k pid" for n rs2 zs2
  proof -
    have "\<not> alive_at st2 ?c" using n by (simp add: alive_at_def)
    then have "?c \<in> set zs2" using calmD(1,2) [OF c2] n by (auto simp: links_def states_ok_def)
    moreover have "waits_for st2 pid ?c" using n w ex by (simp add: waits_for_def wait_match_def)
    ultimately obtain z where "List.find (waits_for st2 pid) zs2 = Some z" using find_None [of "waits_for st2 pid" zs2 ?c] by fastforce
    from wait_pass_found [OF c2 this] show ?thesis by metis
  qed
  ultimately show ?thesis by blast
qed

lemma sample_exit: "\<exists>st1. task_exit_code (\<lambda>_ h. h) 7 sample_sched = Some (False, st1)"
  by (simp add: task_exit_code_def exit_detach_def modify_def sample_sched_def running_task_def ready_task_def gone_task_def
      blank_task_def ready_remove_def ring_pred.simps wake_parent_def exit_dispatch_def first_runnable.simps switch_pd_def Let_def)

theorem exit_status_not_lost_witness:
  "\<exists>st1. task_exit_code (\<lambda>_ h. h) 7 sample_sched = Some (False, st1) \<and>
    ((\<exists>n. tasks st1 1048592 = Some (exited 7 n running_task)) \<or>
     (\<exists>s s' pid' nohang'. task_step\<^sup>*\<^sup>* st1 s \<and> wait_pass pid' nohang' s = Some (Reaped 2 7, s')))"
proof -
  obtain st1 where x: "task_exit_code (\<lambda>_ h. h) 7 sample_sched = Some (False, st1)" using sample_exit by blast
  have cur: "current sample_sched = 1048592" "tasks sample_sched 1048592 = Some running_task"
    "t_parent running_task = 1049064" "\<not> reaped_by_parent running_task" "t_id running_task = 2"
    "1049064 \<in> dom (tasks sample_sched)"
    by (simp_all add: sample_sched_def running_task_def blank_task_def)
  have "sched_inv sample_sched" using sample_calm sched_inv_calm by blast
  from exit_status_not_lost [OF this _ cur(4) _ _ _ x rtranclp.rtrancl_refl, of 2 True] cur show ?thesis
    using x by (auto simp: fdt_ok_def)
qed

text \<open>C29. A child outlives its parent's structure: once a collected parent has been freed, the
  exit of its child reads the freed structure to see whether the parent waits.\<close>

theorem exit_reads_freed_parent:
  assumes inv: "sched_inv st" and z: "tasks st z = Some kz" "t_state kz = TASK_DEAD" "reaped_by_parent kz"
    and c: "tasks st c = Some kc" "t_state kc = TASK_READY" "t_parent kc = z"
    and h: "hook_ok (blocks (task_mem st)) hook" and f: "fdt_ok (blocks (task_mem st)) f"
  shows "\<exists>st'. reap_zombies hook st = Some st' \<and> tasks st' c = Some kc \<and> tasks st' z = None \<and>
    task_exit_code f code (st'\<lparr>current := c\<rparr>) = None"
proof -
  obtain rs zs where cs: "calm st rs zs" using inv sched_inv_calm by blast
  have l: "lseg (tasks st) (zombie st) zs 0" "dom (tasks st) = set rs \<union> set zs" "set rs \<inter> set zs = {}"
    "\<forall>a \<in> set rs. alive_at st a" "\<forall>a \<in> set zs. dead_at st a"
    using calmD(1,2) [OF cs] by (auto simp: links_def states_ok_def)
  have zz: "z \<in> set zs" "z \<notin> set rs" using l z by (force simp: alive_at_def)+
  have cr: "c \<in> set rs" using l(2,5) c by (force simp: dead_at_def)
  from reap_from_inv [of st hook rs "[]" zs, OF h _ l(1)] cs obtain st' zs' where
    r: "reap_zombies hook st = Some st'" "calm st' rs zs'" "\<forall>a \<in> set rs. tasks st' a = tasks st a" "z \<notin> set zs'"
    using zz z by (auto simp: reap_zombies_def)
  have zn: "tasks st' z = None" using calmD(1) [OF r(2)] r(4) zz(2) by (auto simp: links_def)
  have ct: "tasks st' c = Some kc" using r(3) cr c(1) by simp
  have "z \<noteq> 0" using links_nonzero [OF calmD(1) [OF cs]] zz(1) by blast
  then have "exit_detach c code st'' = None" if "tasks st'' = tasks st'" "ready st'' = ready st'" for st''
    using exit_detach_orphan [of st'' rs c kc code] that calmD(1) [OF r(2)] cr ct c(3) zn by (auto simp: links_def)
  then have "task_exit_code f code (st'\<lparr>current := c\<rparr>) = None" using ct by (simp add: task_exit_code_def Let_def)
  then show ?thesis using r(1) ct zn by blast
qed

theorem exit_reads_freed_parent_witness:
  "\<exists>st'. reap_zombies (\<lambda>_ h. h) sample_sched = Some st' \<and> tasks st' 1049064 = Some ready_task \<and> tasks st' 1049536 = None \<and>
    task_exit_code (\<lambda>_ h. h) 0 (st'\<lparr>current := 1049064\<rparr>) = None"
proof (rule exit_reads_freed_parent)
  show "sched_inv sample_sched" using sample_calm sched_inv_calm by blast
  show "tasks sample_sched 1049536 = Some gone_task" "t_state gone_task = TASK_DEAD" "reaped_by_parent gone_task"
    "tasks sample_sched 1049064 = Some ready_task" "t_state ready_task = TASK_READY" "t_parent ready_task = 1049536"
    by (simp_all add: sample_sched_def ready_task_def gone_task_def blank_task_def)
qed (simp_all add: hook_ok_def fdt_ok_def)

end
