(* ===== verification/Ata.thy ===== *)
theory Ata
  imports Prelude
begin

text \<open>
  \<open>src/ata.c\<close>: reading and writing sectors of the disk.  A drive is its sectors of 512 bytes and
  the set of sectors it can transfer; the port I/O of one sector is one access.  Sectors are
  written one after the other, each before the next starts, and the drive's cache is flushed
  before \<open>ata_write\<close> returns.  The log of the sectors written is not part of the program: it
  says what is on the disk when the power fails in between.
\<close>

record drive =
  d_present :: bool
  d_lba48 :: bool
  d_total :: nat
  d_sec :: "nat \<Rightarrow> u8 list"
  d_good :: "nat \<Rightarrow> bool"
  d_log :: "(nat \<times> u8 list) list"

abbreviation (input) ATA_LBA28_LIMIT :: nat where "ATA_LBA28_LIMIT \<equiv> 2 ^ 28"

definition ata_pick_mode :: "drive \<Rightarrow> nat \<Rightarrow> nat \<Rightarrow> int" where
  "ata_pick_mode d lba count =
     (let e = u64_add lba count
      in if d_total d \<noteq> 0 \<and> e > d_total d then -1
         else if e > ATA_LBA28_LIMIT then (if d_lba48 d then 1 else -1)
         else 0)"

fun read_sectors :: "nat \<Rightarrow> nat \<Rightarrow> drive \<Rightarrow> u8 list option" where
  "read_sectors lba 0 d = Some []"
| "read_sectors lba (Suc n) d =
     (if \<not> d_good d lba then None else map_option (\<lambda>bs. d_sec d lba @ bs) (read_sectors (lba + 1) n d))"

text \<open>\<open>None\<close> stands for the result \<open>-1\<close>.\<close>

definition ata_read :: "nat \<Rightarrow> nat \<Rightarrow> drive \<Rightarrow> u8 list option" where
  "ata_read lba count d =
     (if \<not> d_present d then None
      else if count = 0 then Some []
      else if ata_pick_mode d lba count < 0 then None
      else read_sectors lba count d)"

definition put_sector :: "nat \<Rightarrow> u8 list \<Rightarrow> drive \<Rightarrow> drive" where
  "put_sector i bs d = d\<lparr>d_sec := (d_sec d)(i := bs), d_log := d_log d @ [(i, bs)]\<rparr>"

fun write_sectors :: "nat \<Rightarrow> nat \<Rightarrow> u8 list \<Rightarrow> drive \<Rightarrow> bool \<times> drive" where
  "write_sectors lba 0 buf d = (True, d)"
| "write_sectors lba (Suc n) buf d =
     (if \<not> d_good d lba then (False, d)
      else write_sectors (lba + 1) n (drop 512 buf) (put_sector lba (take 512 buf) d))"

text \<open>The first component says whether the result is \<open>0\<close>.\<close>

definition ata_write :: "nat \<Rightarrow> nat \<Rightarrow> u8 list \<Rightarrow> drive \<Rightarrow> bool \<times> drive" where
  "ata_write lba count buf d =
     (if \<not> d_present d then (False, d)
      else if count = 0 then (True, d)
      else if ata_pick_mode d lba count < 0 then (False, d)
      else write_sectors lba count buf d)"

section \<open>What a drive holds\<close>

definition sectors :: "drive \<Rightarrow> nat \<Rightarrow> nat \<Rightarrow> u8 list" where
  "sectors d lba n = concat (map (d_sec d) [lba..<lba + n])"

text \<open>A range of sectors the drive can transfer.\<close>

definition reaches :: "drive \<Rightarrow> nat \<Rightarrow> nat \<Rightarrow> bool" where
  "reaches d lba n \<longleftrightarrow> d_present d \<and> lba + n < 2 ^ 64 \<and> (d_total d \<noteq> 0 \<longrightarrow> lba + n \<le> d_total d) \<and>
     (lba + n \<le> ATA_LBA28_LIMIT \<or> d_lba48 d) \<and> (\<forall>i \<in> {lba..<lba + n}. d_good d i)"

lemma read_sectors_eq: "(\<forall>i \<in> {lba..<lba + n}. d_good d i) \<Longrightarrow> read_sectors lba n d = Some (sectors d lba n)"
proof (induction n arbitrary: lba)
  case (Suc n)
  then have "read_sectors (lba + 1) n d = Some (sectors d (lba + 1) n)" by simp
  moreover have "[lba..<lba + Suc n] = lba # [lba + 1..<lba + 1 + n]" by (simp add: upt_conv_Cons)
  ultimately show ?case using Suc.prems by (simp add: sectors_def del: upt_Suc)
qed (simp add: sectors_def)

lemma pick_mode_reaches: "reaches d lba n \<Longrightarrow> 0 \<le> ata_pick_mode d lba n"
  by (auto simp: reaches_def ata_pick_mode_def Let_def u64_add_def)

lemma ata_read_eq: "reaches d lba n \<Longrightarrow> ata_read lba n d = Some (sectors d lba n)"
  using pick_mode_reaches [of d lba n] read_sectors_eq [of lba n d]
  by (auto simp: ata_read_def reaches_def sectors_def)

text \<open>The sectors of a buffer, in the order they are written.\<close>

fun cut_sectors :: "nat \<Rightarrow> nat \<Rightarrow> u8 list \<Rightarrow> (nat \<times> u8 list) list" where
  "cut_sectors lba 0 buf = []"
| "cut_sectors lba (Suc n) buf = (lba, take 512 buf) # cut_sectors (lba + 1) n (drop 512 buf)"

definition put_all :: "(nat \<times> u8 list) list \<Rightarrow> drive \<Rightarrow> drive" where
  "put_all ws d = fold (\<lambda>(i, bs). put_sector i bs) ws d"

lemma put_all_simps [simp]:
  "put_all [] d = d" "put_all (w # ws) d = put_all ws (put_sector (fst w) (snd w) d)"
  "put_all (us @ ws) d = put_all ws (put_all us d)"
  by (simp_all add: put_all_def split: prod.split)

lemma put_sector_simps [simp]:
  "d_present (put_sector i bs d) = d_present d" "d_lba48 (put_sector i bs d) = d_lba48 d"
  "d_total (put_sector i bs d) = d_total d" "d_good (put_sector i bs d) = d_good d"
  "d_sec (put_sector i bs d) = (d_sec d)(i := bs)" "d_log (put_sector i bs d) = d_log d @ [(i, bs)]"
  by (simp_all add: put_sector_def)

lemma put_all_fields [simp]:
  "d_present (put_all ws d) = d_present d" "d_lba48 (put_all ws d) = d_lba48 d"
  "d_total (put_all ws d) = d_total d" "d_good (put_all ws d) = d_good d" "d_log (put_all ws d) = d_log d @ ws"
  by (induction ws arbitrary: d) auto

lemma reaches_put [simp]: "reaches (put_all ws d) lba n = reaches d lba n"
  by (simp add: reaches_def)

lemma write_sectors_eq:
  "(\<forall>i \<in> {lba..<lba + n}. d_good d i) \<Longrightarrow> write_sectors lba n buf d = (True, put_all (cut_sectors lba n buf) d)"
  by (induction n arbitrary: lba buf d) auto

lemma ata_write_eq:
  assumes "reaches d lba n"
  shows "ata_write lba n buf d = (True, put_all (cut_sectors lba n buf) d)"
  using pick_mode_reaches [OF assms] write_sectors_eq [of lba n d buf] assms
  by (auto simp: ata_write_def reaches_def)

lemma d_sec_put_all_other: "i \<notin> fst ` set ws \<Longrightarrow> d_sec (put_all ws d) i = d_sec d i"
  by (induction ws arbitrary: d) auto

lemma fst_cut: "fst ` set (cut_sectors lba n buf) = {lba..<lba + n}"
proof (induction n arbitrary: lba buf)
  case (Suc n)
  have "{lba..<lba + Suc n} = insert lba {lba + 1..<lba + 1 + n}" by auto
  then show ?case using Suc [of "lba + 1" "drop 512 buf"] by simp
qed simp

lemma sectors_put_all_cut:
  "length buf = 512 * n \<Longrightarrow> sectors (put_all (cut_sectors lba n buf) d) lba n = buf"
proof (induction n arbitrary: lba buf d)
  case (Suc n)
  let ?d = "put_sector lba (take 512 buf) d"
  have "[lba..<lba + Suc n] = lba # [lba + 1..<lba + 1 + n]" by (simp add: upt_conv_Cons)
  moreover have "d_sec (put_all (cut_sectors (lba + 1) n (drop 512 buf)) ?d) lba = take 512 buf"
    using d_sec_put_all_other [of lba "cut_sectors (lba + 1) n (drop 512 buf)" ?d] by (simp add: fst_cut)
  moreover have "sectors (put_all (cut_sectors (lba + 1) n (drop 512 buf)) ?d) (lba + 1) n = drop 512 buf"
    using Suc by simp
  ultimately show ?case by (simp add: sectors_def del: upt_Suc)
qed (simp add: sectors_def)

lemma sectors_put_all_other:
  assumes "{lba..<lba + n} \<inter> fst ` set ws = {}"
  shows "sectors (put_all ws d) lba n = sectors d lba n"
proof -
  have "map (d_sec (put_all ws d)) [lba..<lba + n] = map (d_sec d) [lba..<lba + n]"
    by (intro map_cong refl d_sec_put_all_other) (use assms in \<open>auto simp: disjoint_iff\<close>)
  then show ?thesis unfolding sectors_def by (rule arg_cong)
qed

lemma reaches_part: "reaches d a n \<Longrightarrow> a \<le> b \<Longrightarrow> b + m \<le> a + n \<Longrightarrow> reaches d b m"
  by (auto simp: reaches_def)

lemma cut_lengths: "length buf = 512 * n \<Longrightarrow> (i, bs) \<in> set (cut_sectors a n buf) \<Longrightarrow> length bs = 512"
proof (induction n arbitrary: a buf)
  case (Suc n)
  then show ?case using Suc.IH [of "drop 512 buf" "a + 1"] by auto
qed simp

lemma cut_all_lengths: "length buf = n * 512 \<Longrightarrow> \<forall>(i, bs) \<in> set (cut_sectors a n buf). length bs = 512"
  using cut_lengths [of buf n] by (auto simp: mult.commute)

lemma put_all_lengths:
  "(\<forall>i. length (d_sec d i) = 512) \<Longrightarrow> (\<forall>(i, bs) \<in> set ws. length bs = 512) \<Longrightarrow> length (d_sec (put_all ws d) i) = 512"
  by (induction ws arbitrary: d) auto

lemma length_sectors: "(\<forall>i. length (d_sec d i) = 512) \<Longrightarrow> length (sectors d lba n) = n * 512"
  by (simp add: sectors_def length_concat comp_def sum_list_triv)

lemma sectors_append: "sectors d a (k + l) = sectors d a k @ sectors d (a + k) l"
proof -
  have "[a..<a + (k + l)] = [a..<a + k] @ [a + k..<a + k + l]" using upt_add_eq_append [of a "a + k" l] by (simp add: add.assoc)
  then show ?thesis by (simp add: sectors_def)
qed

end
