(* ===== verification/Bytes.thy ===== *)
theory Bytes
  imports Prelude
begin

text \<open>
  Little-endian numbers inside byte buffers, the way the file systems overlay packed structures on
  the sectors they read.
\<close>

section \<open>Little-endian fields\<close>

fun le_val :: "u8 list \<Rightarrow> nat" where
  "le_val [] = 0"
| "le_val (b # bs) = unat b + 256 * le_val bs"

fun le_image :: "nat \<Rightarrow> nat \<Rightarrow> u8 list" where
  "le_image 0 n = []"
| "le_image (Suc w) n = of_nat n # le_image w (n div 256)"

definition field :: "u8 list \<Rightarrow> nat \<Rightarrow> nat \<Rightarrow> nat" where
  "field bs off w = le_val (take w (drop off bs))"

definition set_bytes :: "u8 list \<Rightarrow> nat \<Rightarrow> u8 list \<Rightarrow> u8 list" where
  "set_bytes bs off new = take off bs @ new @ drop (off + length new) bs"

definition zeros :: "nat \<Rightarrow> u8 list" where
  "zeros n = replicate n 0"

section \<open>Reading back\<close>

lemma length_le_image [simp]: "length (le_image w n) = w"
  by (induction w arbitrary: n) auto

lemma le_val_image: "le_val (le_image w n) = n mod 256 ^ w"
proof (induction w arbitrary: n)
  case (Suc w)
  have "unat (of_nat n :: u8) = n mod 256" by (simp add: unat_of_nat)
  then show ?case using Suc [of "n div 256"] by (simp add: mod_mult2_eq)
qed simp

lemma length_zeros [simp]: "length (zeros n) = n"
  by (simp add: zeros_def)

lemma le_val_zeros [simp]: "le_val (zeros n) = 0"
  by (induction n) (simp_all add: zeros_def)

lemma field_zeros [simp]: "field (zeros n) off w = 0"
proof -
  have "take w (drop off (zeros n)) = zeros (min w (n - off))" by (simp add: zeros_def min.commute)
  then show ?thesis by (simp add: field_def)
qed

lemma field_append: "off + w \<le> length bs \<Longrightarrow> field (bs @ cs) off w = field bs off w"
  by (simp add: field_def)

lemma length_set_bytes [simp]: "off + length new \<le> length bs \<Longrightarrow> length (set_bytes bs off new) = length bs"
  by (simp add: set_bytes_def)

lemma field_set_before:
  assumes "i + w \<le> off" "off \<le> length bs"
  shows "field (set_bytes bs off new) i w = field bs i w"
proof -
  have "take w (drop i (take off bs)) = take w (drop i bs)" using assms by (simp add: drop_take min_def)
  then show ?thesis using assms by (simp add: field_def set_bytes_def)
qed

lemma field_set_after:
  assumes "off + length new \<le> i" "off + length new \<le> length bs"
  shows "field (set_bytes bs off new) i w = field bs i w"
proof -
  have "drop i (set_bytes bs off new) = drop i bs" using assms by (simp add: set_bytes_def)
  then show ?thesis by (simp add: field_def)
qed

lemma field_set_in:
  assumes "off \<le> length bs" "k + w \<le> length new"
  shows "field (set_bytes bs off new) (off + k) w = field new k w"
  using assms by (simp add: field_def set_bytes_def)

lemma field_image: "n < 256 ^ w \<Longrightarrow> field (le_image w n @ bs) 0 w = n"
  by (simp add: field_def le_val_image)

lemma field_skip: "length a \<le> off \<Longrightarrow> field (a @ bs) off w = field bs (off - length a) w"
  by (simp add: field_def)

end
