(* ===== verification/Cfs_Disk.thy ===== *)
theory Cfs_Disk
  imports Ata Bytes
begin

text \<open>
  \<open>src/cfs.c\<close>, the lower half: blocks, transactions and the write-ahead journal.  The state is
  the mounted volume (\<open>cfs_fs_t\<close>), its disk and the static variables of the transaction in one
  record, together with what the code asks the kernel for: the caller's identity and the time.
  An operation of type \<open>'a io\<close> returns \<open>None\<close> where the code returns \<open>-1\<close>.  Scratch
  buffers are filled before each use and are not part of the state.  Block numbers and counts
  are \<open>nat\<close>; the sector address is computed modulo \<open>2 ^ 64\<close> as the code does.
\<close>

section \<open>State\<close>

record cfs =
  c_drive :: drive
  c_base :: nat
  mounted :: bool
  spb :: nat
  inode_size :: nat
  total_blocks :: nat
  total_inodes :: nat
  free_blocks :: nat
  free_inodes :: nat
  block_bitmap_start :: nat
  inode_bitmap_start :: nat
  inode_table_start :: nat
  data_start :: nat
  root_ino :: nat
  journal_start :: nat
  journal_blocks :: nat
  c_flags :: u32
  csum_ok :: bool
  txn :: "(nat \<times> u8 list) list"
  txn_active :: bool
  txn_free_blocks :: nat
  txn_free_inodes :: nat
  jseq :: nat
  c_uid :: u32
  c_gid :: u32
  c_now :: nat

abbreviation (input) BS :: nat where "BS \<equiv> 4096"
abbreviation (input) CFS_SPB :: nat where "CFS_SPB \<equiv> 8"
abbreviation (input) CFS_MAX_TXN :: nat where "CFS_MAX_TXN \<equiv> 32"
abbreviation (input) CFS_JMAGIC :: nat where "CFS_JMAGIC \<equiv> 0x4A534643"
abbreviation (input) CFS_JNONE :: nat where "CFS_JNONE \<equiv> 0"
abbreviation (input) CFS_JCOMMITTED :: nat where "CFS_JCOMMITTED \<equiv> 1"

type_synonym 'a io = "cfs \<Rightarrow> 'a option \<times> cfs"

definition ret :: "'a \<Rightarrow> 'a io" where
  "ret x st = (Some x, st)"

definition fail :: "'a io" where
  "fail st = (None, st)"

definition seq_io :: "'a io \<Rightarrow> ('a \<Rightarrow> 'b io) \<Rightarrow> 'b io" where
  "seq_io m f st = (case m st of (None, st1) \<Rightarrow> (None, st1) | (Some x, st1) \<Rightarrow> f x st1)"

definition gets :: "(cfs \<Rightarrow> 'a) \<Rightarrow> 'a io" where
  "gets f st = (Some (f st), st)"

definition puts :: "(cfs \<Rightarrow> cfs) \<Rightarrow> unit io" where
  "puts f st = (Some (), f st)"

section \<open>Checksum\<close>

definition crc_step :: "u32 \<Rightarrow> u32" where
  "crc_step c = drop_bit 1 c XOR (0xEDB88320 AND - (c AND 1))"

definition crc32_up :: "u32 \<Rightarrow> u8 list \<Rightarrow> u32" where
  "crc32_up crc data = NOT (fold (\<lambda>b c. (crc_step ^^ 8) (c XOR ucast b)) data (NOT crc))"

section \<open>Blocks\<close>

definition block_sector :: "cfs \<Rightarrow> nat \<Rightarrow> nat" where
  "block_sector st block = u64_add (c_base st) ((block * spb st) mod 2 ^ 64)"

definition raw_read_block :: "nat \<Rightarrow> u8 list io" where
  "raw_read_block block st = (ata_read (block_sector st block) (spb st) (c_drive st), st)"

definition raw_write_block :: "nat \<Rightarrow> u8 list \<Rightarrow> unit io" where
  "raw_write_block block buf st =
     (let (ok, d) = ata_write (block_sector st block) (spb st) buf (c_drive st)
      in (if ok then Some () else None, st\<lparr>c_drive := d\<rparr>))"

section \<open>Transactions\<close>

definition txn_find :: "nat \<Rightarrow> cfs \<Rightarrow> u8 list option" where
  "txn_find block st = map_of (txn st) block"

definition bd_read_block :: "nat \<Rightarrow> u8 list io" where
  "bd_read_block block st =
     (case (if txn_active st then txn_find block st else None) of
        Some data \<Rightarrow> (Some data, st)
      | None \<Rightarrow> raw_read_block block st)"

fun txn_put :: "nat \<Rightarrow> u8 list \<Rightarrow> (nat \<times> u8 list) list \<Rightarrow> (nat \<times> u8 list) list" where
  "txn_put b buf [] = [(b, buf)]"
| "txn_put b buf ((h, d) # t) = (if h = b then (h, buf) # t else (h, d) # txn_put b buf t)"

definition bd_write_block :: "nat \<Rightarrow> u8 list \<Rightarrow> unit io" where
  "bd_write_block block buf st =
     (if \<not> txn_active st then raw_write_block block buf st
      else if txn_find block st = None \<and> length (txn st) \<ge> CFS_MAX_TXN then (None, st)
      else (Some (), st\<lparr>txn := txn_put block buf (txn st)\<rparr>))"

definition txn_begin :: "cfs \<Rightarrow> cfs" where
  "txn_begin st = st\<lparr>txn_active := True, txn := [], txn_free_blocks := free_blocks st, txn_free_inodes := free_inodes st\<rparr>"

definition txn_abort :: "cfs \<Rightarrow> cfs" where
  "txn_abort st = st\<lparr>txn_active := False, txn := [], free_blocks := txn_free_blocks st, free_inodes := txn_free_inodes st\<rparr>"

text \<open>A loop of writes that stops at the first error.\<close>

fun write_blocks :: "(nat \<times> u8 list) list \<Rightarrow> unit io" where
  "write_blocks [] st = (Some (), st)"
| "write_blocks ((b, buf) # t) st = seq_io (raw_write_block b buf) (\<lambda>_. write_blocks t) st"

definition jhdr_image :: "nat \<Rightarrow> nat \<Rightarrow> nat \<Rightarrow> u32 \<Rightarrow> u8 list" where
  "jhdr_image state sq n csum =
     le_image 4 CFS_JMAGIC @ le_image 4 state @ le_image 8 sq @ le_image 4 n @ le_image 4 (unat csum) @ zeros (BS - 24)"

definition desc_image :: "nat list \<Rightarrow> u8 list" where
  "desc_image homes = concat (map (le_image 8) homes) @ zeros (BS - 8 * length homes)"

definition journal_csum :: "u8 list \<Rightarrow> u8 list list \<Rightarrow> u32" where
  "journal_csum desc datas = fold (\<lambda>d c. crc32_up c d) datas (crc32_up 0 desc)"

text \<open>\<open>homes\<close> holds 512 numbers; \<open>CFS_MAX_TXN\<close> keeps the index below.\<close>

definition txn_commit :: "unit io" where
  "txn_commit st =
     (if \<not> txn_active st then (Some (), st)
      else if txn st = [] then (Some (), st\<lparr>txn_active := False\<rparr>)
      else let n = length (txn st); j = journal_start st; datas = map snd (txn st); desc = desc_image (map fst (txn st));
               csum = journal_csum desc datas
           in if j = 0 \<or> n + 2 > journal_blocks st
              then (case write_blocks (txn st) st of
                      (None, st1) \<Rightarrow> (None, st1\<lparr>txn_active := False\<rparr>)
                    | (Some _, st1) \<Rightarrow> (Some (), st1\<lparr>txn_active := False, txn := []\<rparr>))
              else seq_io (raw_write_block (j + 1) desc) (\<lambda>_.
                   seq_io (write_blocks (zip [j + 2..<j + 2 + n] datas)) (\<lambda>_.
                   seq_io (raw_write_block j (jhdr_image CFS_JCOMMITTED (jseq st) n csum)) (\<lambda>_.
                   seq_io (write_blocks (txn st)) (\<lambda>_.
                   seq_io (raw_write_block j (jhdr_image CFS_JNONE (jseq st) 0 0)) (\<lambda>_.
                   puts (\<lambda>s. s\<lparr>jseq := u64_add (jseq s) 1, txn_active := False, txn := []\<rparr>)))))) st)"

section \<open>Recovery\<close>

text \<open>Reading \<open>n\<close> journal blocks from \<open>b\<close> on; \<open>None\<close> when one of them cannot be read.\<close>

fun read_blocks :: "nat \<Rightarrow> nat \<Rightarrow> cfs \<Rightarrow> u8 list list option" where
  "read_blocks b 0 st = Some []"
| "read_blocks b (Suc n) st =
     (case fst (raw_read_block b st) of
        None \<Rightarrow> None
      | Some d \<Rightarrow> map_option (\<lambda>ds. d # ds) (read_blocks (b + 1) n st))"

text \<open>The redo loop: a block that cannot be read ends the recovery, a failing write is ignored.
  The flag says whether the loop came to its end.\<close>

fun redo :: "nat \<Rightarrow> nat list \<Rightarrow> cfs \<Rightarrow> bool \<times> cfs" where
  "redo b [] st = (True, st)"
| "redo b (h # hs) st =
     (case fst (raw_read_block b st) of
        None \<Rightarrow> (False, st)
      | Some d \<Rightarrow> redo (b + 1) hs (snd (raw_write_block h d st)))"

text \<open>Without value when the descriptor is read behind its 512 entries.\<close>

definition journal_recover :: "cfs \<Rightarrow> cfs option" where
  "journal_recover st =
     (let j = journal_start st
      in if j = 0 then Some st
         else case fst (raw_read_block j st) of
                None \<Rightarrow> Some st
              | Some h \<Rightarrow>
                  let n = field h 16 4
                  in if field h 0 4 \<noteq> CFS_JMAGIC \<or> field h 4 4 \<noteq> CFS_JCOMMITTED then Some st
                     else if n = 0 \<or> u32_add n 2 > journal_blocks st then Some st
                     else case fst (raw_read_block (j + 1) st) of
                            None \<Rightarrow> Some st
                          | Some desc \<Rightarrow>
                              (case read_blocks (j + 2) n st of
                                 None \<Rightarrow> Some st
                               | Some ds \<Rightarrow>
                                   if unat (journal_csum desc ds) \<noteq> field h 20 4 then Some st
                                   else if n > BS div 8 then None
                                   else case redo (j + 2) (map (\<lambda>i. field desc (8 * i) 8) [0..<n]) st of
                                          (False, st1) \<Rightarrow> Some st1
                                        | (True, st1) \<Rightarrow>
                                            let st2 = (if field h 8 8 \<ge> jseq st1 then st1\<lparr>jseq := u64_add (field h 8 8) 1\<rparr> else st1)
                                            in Some (snd (raw_write_block j (jhdr_image CFS_JNONE 0 0 0) st2))))"

end
