(* ===== verification/Cfs_Journal.thy ===== *)
theory Cfs_Journal
  imports Cfs_Disk
begin

text \<open>
  The journal keeps transactions whole: whenever the power fails while \<open>txn_commit\<close> or the
  recovery itself writes to the disk, the next recovery finds either all blocks of the
  transaction in place or none of them.  Power may fail between any two sectors.
\<close>

section \<open>Fields\<close>

lemma length_jhdr [simp]: "length (jhdr_image s q n c) = BS"
  by (simp add: jhdr_image_def)

lemma jhdr_fields:
  "field (jhdr_image s q n c) 0 4 = CFS_JMAGIC" "field (jhdr_image s q n c) 4 4 = s mod 2 ^ 32"
  "field (jhdr_image s q n c) 8 8 = q mod 2 ^ 64" "field (jhdr_image s q n c) 16 4 = n mod 2 ^ 32"
  "field (jhdr_image s q n c) 20 4 = unat c"
proof -
  have "unat c < 2 ^ 32" using unsigned_less [of c] by simp
  then show "field (jhdr_image s q n c) 0 4 = CFS_JMAGIC" "field (jhdr_image s q n c) 4 4 = s mod 2 ^ 32"
    "field (jhdr_image s q n c) 8 8 = q mod 2 ^ 64" "field (jhdr_image s q n c) 16 4 = n mod 2 ^ 32"
    "field (jhdr_image s q n c) 20 4 = unat c"
    by (simp_all add: field_def jhdr_image_def le_val_image del: le_image.simps le_val.simps)
qed

lemma length_desc [simp]: "length hs \<le> 512 \<Longrightarrow> length (desc_image hs) = BS"
  by (simp add: desc_image_def length_concat comp_def sum_list_triv)

lemma field_concat: "i < length hs \<Longrightarrow> (\<forall>h \<in> set hs. h < 2 ^ 64) \<Longrightarrow>
  field (concat (map (le_image 8) hs) @ zs) (8 * i) 8 = hs ! i"
proof (induction hs arbitrary: i)
  case (Cons h hs)
  show ?case
  proof (cases i)
    case 0
    then show ?thesis using Cons.prems by (simp add: field_def le_val_image del: le_image.simps le_val.simps)
  next
    case (Suc j)
    then have "field (concat (map (le_image 8) hs) @ zs) (8 * j) 8 = hs ! j" using Cons by simp
    then show ?thesis using Suc by (simp add: field_def del: le_image.simps le_val.simps)
  qed
qed simp

lemma desc_fields:
  assumes "\<forall>h \<in> set hs. h < 2 ^ 64"
  shows "map (\<lambda>i. field (desc_image hs) (8 * i) 8) [0..<length hs] = hs"
  by (rule nth_equalityI) (use assms field_concat in \<open>auto simp: desc_image_def\<close>)

section \<open>Blocks\<close>

definition blk :: "cfs \<Rightarrow> drive \<Rightarrow> nat \<Rightarrow> u8 list" where
  "blk st d b = sectors d (c_base st + 8 * b) 8"

text \<open>The whole volume lies on good sectors of the drive.\<close>

definition vol_ok :: "cfs \<Rightarrow> drive \<Rightarrow> bool" where
  "vol_ok st d \<longleftrightarrow> spb st = CFS_SPB \<and> reaches d (c_base st) (8 * total_blocks st) \<and> (\<forall>i. length (d_sec d i) = 512)"

lemma reaches_block:
  assumes "reaches d a (8 * n)" "b < n"
  shows "reaches d (a + 8 * b) 8"
  by (rule reaches_part [OF assms(1)]) (use assms(2) in simp_all)

lemma block_sector_eq:
  assumes "vol_ok st d" "b < total_blocks st"
  shows "block_sector st b = c_base st + 8 * b" "reaches d (c_base st + 8 * b) 8"
proof -
  show r: "reaches d (c_base st + 8 * b) 8" using assms reaches_block [of d "c_base st" "total_blocks st" b] by (simp add: vol_ok_def)
  then have "c_base st + 8 * b < 2 ^ 64" by (simp add: reaches_def)
  then show "block_sector st b = c_base st + 8 * b" using assms(1) by (simp add: block_sector_def u64_add_def vol_ok_def mult.commute)
qed

lemma raw_read_eq:
  assumes "vol_ok st (c_drive st)" "b < total_blocks st"
  shows "raw_read_block b st = (Some (blk st (c_drive st) b), st)"
  using block_sector_eq [OF assms] assms(1) by (simp add: raw_read_block_def ata_read_eq blk_def vol_ok_def)

definition wr :: "cfs \<Rightarrow> (nat \<times> u8 list) list \<Rightarrow> (nat \<times> u8 list) list" where
  "wr st l = concat (map (\<lambda>(b, buf). cut_sectors (c_base st + 8 * b) 8 buf) l)"

lemma wr_simps [simp]:
  "wr st [] = []" "wr st ((b, buf) # l) = cut_sectors (c_base st + 8 * b) 8 buf @ wr st l" "wr st (l @ m) = wr st l @ wr st m"
  "wr (st\<lparr>c_drive := d\<rparr>) l = wr st l"
  by (simp_all add: wr_def)

lemma raw_write_eq:
  assumes "vol_ok st (c_drive st)" "b < total_blocks st"
  shows "raw_write_block b buf st = (Some (), st\<lparr>c_drive := put_all (wr st [(b, buf)]) (c_drive st)\<rparr>)"
  using block_sector_eq [OF assms] assms(1) by (simp add: raw_write_block_def ata_write_eq vol_ok_def)

lemma wr_lengths: "\<forall>(b, buf) \<in> set l. length buf = BS \<Longrightarrow> (i, bs) \<in> set (wr st l) \<Longrightarrow> length bs = 512"
  using cut_lengths [of _ 8 i bs] by (fastforce simp: wr_def)

lemma vol_ok_put:
  "vol_ok st d \<Longrightarrow> \<forall>(i, bs) \<in> set ws. length bs = 512 \<Longrightarrow> vol_ok st (put_all ws d)"
proof (induction ws arbitrary: d)
  case (Cons w ws)
  have "vol_ok st (put_sector (fst w) (snd w) d)" using Cons.prems by (auto simp: vol_ok_def reaches_def)
  then show ?case using Cons by simp
qed simp

lemma vol_ok_state [simp]: "vol_ok (st\<lparr>c_drive := d'\<rparr>) d = vol_ok st d"
  by (simp add: vol_ok_def)

lemma write_blocks_eq:
  "vol_ok st (c_drive st) \<Longrightarrow> \<forall>(b, buf) \<in> set l. b < total_blocks st \<and> length buf = BS \<Longrightarrow>
   write_blocks l st = (Some (), st\<lparr>c_drive := put_all (wr st l) (c_drive st)\<rparr>)"
proof (induction l arbitrary: st)
  case (Cons x l)
  obtain b buf where x: "x = (b, buf)" by (cases x)
  then have b: "b < total_blocks st" "length buf = BS" using Cons.prems(2) by auto
  let ?st = "st\<lparr>c_drive := put_all (wr st [(b, buf)]) (c_drive st)\<rparr>"
  have "\<forall>(i, bs) \<in> set (wr st [(b, buf)]). length bs = 512" using wr_lengths [of "[(b, buf)]" _ _ st] b(2) by fastforce
  then have "vol_ok ?st (c_drive ?st)" using vol_ok_put [OF Cons.prems(1)] by simp
  then have "write_blocks l ?st = (Some (), ?st\<lparr>c_drive := put_all (wr ?st l) (c_drive ?st)\<rparr>)"
    by (rule Cons.IH) (use Cons.prems(2) in simp)
  then show ?case using x raw_write_eq [OF Cons.prems(1) b(1)] by (simp add: seq_io_def)
qed simp

text \<open>The disk after a series of block writes.\<close>

lemma fst_wr: "fst ` set (wr st l) = (\<Union>b \<in> fst ` set l. {c_base st + 8 * b..<c_base st + 8 * b + 8})"
proof (induction l)
  case (Cons x l)
  then show ?case by (cases x) (simp add: image_Un fst_cut)
qed simp

lemma blk_other:
  assumes "\<forall>i \<in> fst ` set ws. i < c_base st + 8 * b \<or> c_base st + 8 * b + 8 \<le> i"
  shows "blk st (put_all ws d) b = blk st d b"
  unfolding blk_def by (rule sectors_put_all_other) (use assms in \<open>force simp: disjoint_iff\<close>)

lemma sector_apart: "b \<noteq> b' \<Longrightarrow> i \<in> {a + 8 * b'..<a + 8 * b' + 8} \<Longrightarrow> i < a + 8 * b \<or> a + 8 * b + 8 \<le> (i::nat)"
  by auto

lemma blk_wr_other: "b \<notin> fst ` set l \<Longrightarrow> blk st (put_all (wr st l) d) b = blk st d b"
proof (rule blk_other)
  assume b: "b \<notin> fst ` set l"
  show "\<forall>i \<in> fst ` set (wr st l). i < c_base st + 8 * b \<or> c_base st + 8 * b + 8 \<le> i"
  proof
    fix i assume "i \<in> fst ` set (wr st l)"
    then obtain b' where "b' \<in> fst ` set l" "i \<in> {c_base st + 8 * b'..<c_base st + 8 * b' + 8}" unfolding fst_wr by blast
    then show "i < c_base st + 8 * b \<or> c_base st + 8 * b + 8 \<le> i" using sector_apart [of b b' i] b by metis
  qed
qed

lemma blk_wr:
  "distinct (map fst l) \<Longrightarrow> \<forall>(b, buf) \<in> set l. length buf = BS \<Longrightarrow>
   blk st (put_all (wr st l) d) b = (case map_of l b of None \<Rightarrow> blk st d b | Some buf \<Rightarrow> buf)"
proof (induction l arbitrary: d)
  case (Cons x l)
  obtain b' buf where x: "x = (b', buf)" by (cases x)
  let ?d = "put_all (cut_sectors (c_base st + 8 * b') 8 buf) d"
  have IH: "blk st (put_all (wr st l) ?d) b = (case map_of l b of None \<Rightarrow> blk st ?d b | Some buf \<Rightarrow> buf)"
    by (rule Cons.IH) (use Cons.prems in auto)
  show ?case
  proof (cases "b = b'")
    case True
    have "blk st ?d b' = buf" using Cons.prems(2) x by (simp add: blk_def sectors_put_all_cut)
    moreover have "map_of l b' = None" using Cons.prems(1) x by (simp add: map_of_eq_None_iff)
    ultimately show ?thesis using IH True x by simp
  next
    case False
    have "blk st ?d b = blk st d b" using blk_wr_other [of b "[(b', buf)]" st d] False by simp
    then show ?thesis using IH False x by (cases "map_of l b") auto
  qed
qed simp

section \<open>Power failures\<close>

text \<open>The disk when the power fails after \<open>k\<close> of the sectors written between two states.\<close>

definition crash :: "nat \<Rightarrow> drive \<Rightarrow> drive \<Rightarrow> drive" where
  "crash k d d' = put_all (take k (drop (length (d_log d)) (d_log d'))) d"

lemma crash_put [simp]: "crash k d (put_all ws d) = put_all (take k ws) d"
  by (simp add: crash_def)

lemma put_all_inv:
  assumes "\<And>i bs d. (i, bs) \<in> set ws \<Longrightarrow> P d \<Longrightarrow> P (put_sector i bs d)" "P d"
  shows "P (put_all ws d)"
  using assms
proof (induction ws arbitrary: d)
  case (Cons w ws)
  have "P (put_sector (fst w) (snd w) d)" by (rule Cons.prems(1)) (use Cons.prems(2) in auto)
  then have "P (put_all ws (put_sector (fst w) (snd w) d))" by (rule Cons.IH [rotated]) (rule Cons.prems(1), auto)
  then show ?case by simp
qed simp

lemma put_all_take_inv:
  assumes "\<And>i bs d. (i, bs) \<in> set ws \<Longrightarrow> P d \<Longrightarrow> P (put_sector i bs d)" "P d"
  shows "P (put_all (take k ws) d)"
proof (rule put_all_inv [where P = P, OF _ assms(2)])
  show "P (put_sector i bs d')" if "(i, bs) \<in> set (take k ws)" "P d'" for i bs d'
    using assms(1) in_set_takeD [OF that(1)] that(2) by blast
qed

lemma take_split: "take k (us @ w # vs) = (if k \<le> length us then take k us else us @ w # take (k - length us - 1) vs)"
  by (cases "k - length us") (auto simp: take_Cons')

section \<open>Phases of a commit\<close>

definition outside :: "cfs \<Rightarrow> nat \<Rightarrow> bool" where
  "outside st b \<longleftrightarrow> b < total_blocks st \<and> (b < journal_start st \<or> journal_start st + journal_blocks st \<le> b)"

text \<open>A transaction that fits into the journal of the volume.\<close>

definition commit_ok :: "cfs \<Rightarrow> bool" where
  "commit_ok st \<longleftrightarrow> vol_ok st (c_drive st) \<and> txn_active st \<and> txn st \<noteq> [] \<and> length (txn st) \<le> CFS_MAX_TXN \<and>
     distinct (map fst (txn st)) \<and> (\<forall>(b, buf) \<in> set (txn st). outside st b \<and> length buf = BS) \<and>
     0 < journal_start st \<and> journal_start st + journal_blocks st \<le> total_blocks st \<and> length (txn st) + 2 \<le> journal_blocks st"

definition hsec :: "cfs \<Rightarrow> nat" where
  "hsec st = c_base st + 8 * journal_start st"

definition committed :: "u8 list \<Rightarrow> bool" where
  "committed h \<longleftrightarrow> field h 0 4 = CFS_JMAGIC \<and> field h 4 4 = CFS_JCOMMITTED"

definition txn_desc :: "cfs \<Rightarrow> u8 list" where
  "txn_desc st = desc_image (map fst (txn st))"

definition commit_hdr :: "cfs \<Rightarrow> u8 list" where
  "commit_hdr st = jhdr_image CFS_JCOMMITTED (jseq st) (length (txn st)) (journal_csum (txn_desc st) (map snd (txn st)))"

text \<open>The volume once the transaction is in place.\<close>

definition after :: "cfs \<Rightarrow> nat \<Rightarrow> u8 list" where
  "after st b = (case map_of (txn st) b of None \<Rightarrow> blk st (c_drive st) b | Some buf \<Rightarrow> buf)"

definition not_yet :: "cfs \<Rightarrow> drive \<Rightarrow> bool" where
  "not_yet st d \<longleftrightarrow> vol_ok st d \<and> \<not> committed (d_sec d (hsec st)) \<and> (\<forall>b. outside st b \<longrightarrow> blk st d b = blk st (c_drive st) b)"

definition logged :: "cfs \<Rightarrow> drive \<Rightarrow> bool" where
  "logged st d \<longleftrightarrow> vol_ok st d \<and> blk st d (journal_start st + 1) = txn_desc st \<and>
     (\<forall>i < length (txn st). blk st d (journal_start st + 2 + i) = snd (txn st ! i)) \<and>
     (\<forall>b. outside st b \<longrightarrow> b \<notin> fst ` set (txn st) \<longrightarrow> blk st d b = blk st (c_drive st) b)"

definition full :: "cfs \<Rightarrow> drive \<Rightarrow> bool" where
  "full st d \<longleftrightarrow> logged st d \<and> d_sec d (hsec st) = take 512 (commit_hdr st)"

definition in_place :: "cfs \<Rightarrow> drive \<Rightarrow> bool" where
  "in_place st d \<longleftrightarrow> vol_ok st d \<and> \<not> committed (d_sec d (hsec st)) \<and> (\<forall>b. outside st b \<longrightarrow> blk st d b = after st b)"

definition phase :: "cfs \<Rightarrow> drive \<Rightarrow> bool" where
  "phase st d \<longleftrightarrow> not_yet st d \<or> full st d \<or> in_place st d"

lemma commit_okD:
  assumes "commit_ok st"
  shows "vol_ok st (c_drive st)" "txn_active st" "txn st \<noteq> []" "length (txn st) \<le> 32" "distinct (map fst (txn st))"
    "(b, buf) \<in> set (txn st) \<Longrightarrow> outside st b" "(b, buf) \<in> set (txn st) \<Longrightarrow> length buf = BS"
    "0 < journal_start st" "journal_start st + journal_blocks st \<le> total_blocks st" "length (txn st) + 2 \<le> journal_blocks st"
  using assms unfolding commit_ok_def by (blast | fastforce)+

text \<open>One sector of a block other than \<open>b\<close>.\<close>

lemma blk_put_sector:
  assumes "i \<in> {c_base st + 8 * b'..<c_base st + 8 * b' + 8}" "b \<noteq> b'"
  shows "blk st (put_sector i bs d) b = blk st d b"
  using blk_other [of "[(i, bs)]" st b d] sector_apart [OF assms(2,1)] by simp

lemma vol_ok_put_sector: "vol_ok st d \<Longrightarrow> length bs = 512 \<Longrightarrow> vol_ok st (put_sector i bs d)"
  using vol_ok_put [of st d "[(i, bs)]"] by simp

lemma wr_block: "(i, bs) \<in> set (wr st l) \<Longrightarrow> \<exists>b \<in> fst ` set l. i \<in> {c_base st + 8 * b..<c_base st + 8 * b + 8}"
proof -
  assume "(i, bs) \<in> set (wr st l)"
  then have "i \<in> fst ` set (wr st l)" by force
  then show ?thesis unfolding fst_wr by blast
qed

lemma cut_8: "cut_sectors a 8 buf = (a, take 512 buf) # cut_sectors (a + 1) 7 (drop 512 buf)"
  using cut_sectors.simps(2) [of a 7 buf] by simp

lemma hsec_block: "hsec st \<in> {c_base st + 8 * b..<c_base st + 8 * b + 8} \<Longrightarrow> b = journal_start st"
  by (auto simp: hsec_def)

lemma not_yet_put:
  assumes "not_yet st d" "length bs = 512" "i \<in> {c_base st + 8 * b..<c_base st + 8 * b + 8}"
    and "journal_start st < b" "b < journal_start st + journal_blocks st"
  shows "not_yet st (put_sector i bs d)"
proof -
  have "i \<noteq> hsec st" using assms(3,4) by (auto simp: hsec_def)
  moreover have "blk st (put_sector i bs d) c = blk st d c" if "outside st c" for c
    by (rule blk_put_sector [OF assms(3)]) (use that assms(4,5) in \<open>auto simp: outside_def\<close>)
  ultimately show ?thesis using assms(1,2) vol_ok_put_sector by (simp add: not_yet_def)
qed

lemma logged_put:
  assumes "logged st d" "length bs = 512" "i \<in> {c_base st + 8 * b..<c_base st + 8 * b + 8}"
    and "commit_ok st" "b = journal_start st \<or> b \<in> fst ` set (txn st)"
  shows "logged st (put_sector i bs d)"
proof -
  have out: "b = journal_start st \<or> outside st b" using assms(5) commit_okD(6) [OF assms(4)] by auto
  have len: "length (txn st) + 2 \<le> journal_blocks st" by (rule commit_okD(10) [OF assms(4)])
  have "blk st (put_sector i bs d) c = blk st d c" if "journal_start st < c" "c < journal_start st + length (txn st) + 2" for c
    by (rule blk_put_sector [OF assms(3)]) (use that out len in \<open>auto simp: outside_def\<close>)
  moreover have "blk st (put_sector i bs d) c = blk st d c" if "outside st c" "c \<notin> fst ` set (txn st)" for c
    by (rule blk_put_sector [OF assms(3)]) (use that assms(5) len in \<open>auto simp: outside_def\<close>)
  ultimately show ?thesis using assms(1,2) vol_ok_put_sector by (simp add: logged_def)
qed

lemma in_place_put:
  assumes "in_place st d" "length bs = 512" "i \<in> {c_base st + 8 * journal_start st..<c_base st + 8 * journal_start st + 8}"
    and "i \<noteq> hsec st" "commit_ok st"
  shows "in_place st (put_sector i bs d)"
proof -
  have "blk st (put_sector i bs d) c = blk st d c" if "outside st c" for c
    by (rule blk_put_sector [OF assms(3)]) (use that commit_okD(10) [OF assms(5)] in \<open>auto simp: outside_def\<close>)
  then show ?thesis using assms(1,2,4) vol_ok_put_sector by (simp add: in_place_def)
qed

text \<open>The header block: its first sector decides, the others do not matter.\<close>

lemma wr_header: "length buf = BS \<Longrightarrow> \<exists>rest. wr st [(journal_start st, buf)] = (hsec st, take 512 buf) # rest \<and>
    (\<forall>(i, bs) \<in> set rest. length bs = 512 \<and> i \<noteq> hsec st \<and>
       i \<in> {c_base st + 8 * journal_start st..<c_base st + 8 * journal_start st + 8})"
proof -
  assume len: "length buf = BS"
  let ?a = "c_base st + 8 * journal_start st"
  have "length bs = 512 \<and> i \<noteq> hsec st \<and> i \<in> {?a..<?a + 8}" if "(i, bs) \<in> set (cut_sectors (?a + 1) 7 (drop 512 buf))" for i bs
  proof -
    have "i \<in> fst ` set (cut_sectors (?a + 1) 7 (drop 512 buf))" using that by force
    then have "i \<in> {?a + 1..<?a + 1 + 7}" unfolding fst_cut .
    moreover have "length bs = 512" using cut_lengths [of "drop 512 buf" 7 i bs] that len by simp
    ultimately show ?thesis by (auto simp: hsec_def)
  qed
  then show ?thesis by (intro exI [of _ "cut_sectors (?a + 1) 7 (drop 512 buf)"]) (auto simp: cut_8 hsec_def)
qed

lemma committed_take: "length h = BS \<Longrightarrow> committed (take 512 h) = committed h"
proof -
  assume "length h = BS"
  then have "field h off w = field (take 512 h) off w" if "off + w \<le> 512" for off w
    using field_append [of off w "take 512 h" "drop 512 h"] that by simp
  then show ?thesis by (simp add: committed_def)
qed

lemma committed_jhdr: "committed (jhdr_image s q n c) \<longleftrightarrow> s mod 2 ^ 32 = CFS_JCOMMITTED"
  by (simp add: committed_def jhdr_fields)

text \<open>From the commit record on: the home blocks are written and the journal is released.\<close>

definition finish_writes :: "cfs \<Rightarrow> nat \<Rightarrow> (nat \<times> u8 list) list" where
  "finish_writes st q = wr st (txn st) @ wr st [(journal_start st, jhdr_image CFS_JNONE q 0 0)]"

lemma full_put:
  assumes c: "commit_ok st" and f: "full st d" and w: "(i, bs) \<in> set (wr st (txn st))"
  shows "full st (put_sector i bs d)"
proof -
  obtain b where b: "b \<in> fst ` set (txn st)" "i \<in> {c_base st + 8 * b..<c_base st + 8 * b + 8}" using wr_block [OF w] by blast
  have "outside st b" using b(1) commit_okD(6) [OF c] by auto
  then have "b \<noteq> journal_start st" using commit_okD(10) [OF c] by (auto simp: outside_def)
  then have "i \<noteq> hsec st" using hsec_block [of st b] b(2) by metis
  moreover have "length bs = 512" by (rule wr_lengths [OF _ w]) (use commit_okD(7) [OF c] in auto)
  ultimately show ?thesis using f logged_put [OF _ _ b(2) c] b(1) by (simp add: full_def)
qed

lemma finish_in_place:
  assumes c: "commit_ok st" and f: "full st d"
  shows "in_place st (put_sector (hsec st) (take 512 (jhdr_image CFS_JNONE q 0 0)) (put_all (wr st (txn st)) d))"
proof -
  let ?h = "take 512 (jhdr_image CFS_JNONE q 0 0)" and ?d = "put_all (wr st (txn st)) d"
  have f': "full st ?d" by (rule put_all_inv [where P = "full st"]) (use full_put [OF c] f in blast)+
  have lh: "length ?h = 512" by simp
  have hs: "hsec st \<in> {c_base st + 8 * journal_start st..<c_base st + 8 * journal_start st + 8}" by (simp add: hsec_def)
  have "blk st (put_sector (hsec st) ?h ?d) b = after st b" if "outside st b" for b
  proof -
    have "blk st (put_sector (hsec st) ?h ?d) b = blk st ?d b"
      by (rule blk_put_sector [OF hs]) (use that commit_okD(10) [OF c] in \<open>auto simp: outside_def\<close>)
    moreover have "blk st ?d b = (case map_of (txn st) b of None \<Rightarrow> blk st d b | Some buf \<Rightarrow> buf)"
      by (rule blk_wr) (use commit_okD(5,7) [OF c] in auto)
    moreover have "map_of (txn st) b = None \<Longrightarrow> blk st d b = blk st (c_drive st) b"
      using f that by (simp add: full_def logged_def map_of_eq_None_iff)
    ultimately show ?thesis by (auto simp: after_def split: option.split)
  qed
  moreover have "vol_ok st (put_sector (hsec st) ?h ?d)" using f' lh vol_ok_put_sector by (simp add: full_def logged_def)
  moreover have "\<not> committed ?h" using committed_take [of "jhdr_image CFS_JNONE q 0 0"] by (simp add: committed_jhdr)
  ultimately show ?thesis by (simp add: in_place_def)
qed

lemma finish_prefix:
  assumes c: "commit_ok st" and f: "full st d"
  shows "phase st (put_all (take k (finish_writes st q)) d)" "in_place st (put_all (finish_writes st q) d)"
proof -
  let ?h = "take 512 (jhdr_image CFS_JNONE q 0 0)"
  obtain rest where r: "wr st [(journal_start st, jhdr_image CFS_JNONE q 0 0)] = (hsec st, ?h) # rest"
    "\<forall>(i, bs) \<in> set rest. length bs = 512 \<and> i \<noteq> hsec st \<and> i \<in> {c_base st + 8 * journal_start st..<c_base st + 8 * journal_start st + 8}"
    using wr_header [of "jhdr_image CFS_JNONE q 0 0" st] by auto
  have ip: "in_place st (put_sector (hsec st) ?h (put_all (wr st (txn st)) d))" by (rule finish_in_place [OF c f])
  have keep: "in_place st (put_sector i bs d')" if "(i, bs) \<in> set rest" "in_place st d'" for i bs d'
    by (rule in_place_put [OF that(2)]) (use r(2) that(1) c in auto)
  have fw: "finish_writes st q = wr st (txn st) @ (hsec st, ?h) # rest" unfolding finish_writes_def r(1) ..
  show "in_place st (put_all (finish_writes st q) d)"
    unfolding fw using put_all_inv [where P = "in_place st" and ws = rest, OF keep ip] by simp
  show "phase st (put_all (take k (finish_writes st q)) d)"
  proof (cases "k \<le> length (wr st (txn st))")
    case True
    have "full st (put_all (take k (wr st (txn st))) d)"
      by (rule put_all_take_inv [where P = "full st"]) (use full_put [OF c] f in blast)+
    then show ?thesis using True unfolding fw take_split by (simp add: phase_def)
  next
    case False
    then show ?thesis unfolding fw take_split
      using put_all_take_inv [where P = "in_place st" and ws = rest, OF keep ip] by (simp add: phase_def)
  qed
qed

section \<open>The whole commit\<close>

definition log_blocks :: "cfs \<Rightarrow> (nat \<times> u8 list) list" where
  "log_blocks st = (journal_start st + 1, txn_desc st) #
     zip [journal_start st + 2..<journal_start st + 2 + length (txn st)] (map snd (txn st))"

definition commit_writes :: "cfs \<Rightarrow> (nat \<times> u8 list) list" where
  "commit_writes st = wr st (log_blocks st) @ wr st [(journal_start st, commit_hdr st)] @ finish_writes st (jseq st)"

lemma log_blocks_facts:
  assumes c: "commit_ok st"
  shows "distinct (map fst (log_blocks st))"
    and "(b, buf) \<in> set (log_blocks st) \<Longrightarrow> journal_start st < b \<and> b < journal_start st + journal_blocks st \<and> length buf = BS"
    and "map_of (log_blocks st) (journal_start st + 1) = Some (txn_desc st)"
    and "i < length (txn st) \<Longrightarrow> map_of (log_blocks st) (journal_start st + 2 + i) = Some (snd (txn st ! i))"
proof -
  let ?j = "journal_start st" and ?n = "length (txn st)"
  have "[?j + 1..<?j + 2 + ?n] = (?j + 1) # [?j + 2..<?j + 2 + ?n]" by (subst upt_conv_Cons) auto
  then have fsts: "map fst (log_blocks st) = [?j + 1..<?j + 2 + ?n]" by (simp add: log_blocks_def del: upt_Suc)
  then show d: "distinct (map fst (log_blocks st))" by simp
  show "map_of (log_blocks st) (?j + 1) = Some (txn_desc st)" by (simp add: log_blocks_def)
  show "map_of (log_blocks st) (?j + 2 + i) = Some (snd (txn st ! i))" if "i < ?n"
  proof (rule map_of_is_SomeI [OF d])
    show "(?j + 2 + i, snd (txn st ! i)) \<in> set (log_blocks st)"
      using that by (auto simp: log_blocks_def set_zip simp del: upt_Suc intro!: exI [of _ i])
  qed
  assume m: "(b, buf) \<in> set (log_blocks st)"
  then have "b \<in> set (map fst (log_blocks st))" by force
  then have "?j < b" "b < ?j + 2 + ?n" unfolding fsts by auto
  moreover have "length buf = BS"
  proof (cases "buf = txn_desc st")
    case True
    then show ?thesis using commit_okD(4) [OF c] by (simp add: txn_desc_def)
  next
    case False
    then have "buf \<in> snd ` set (txn st)" using m by (auto simp: log_blocks_def dest!: set_zip_rightD)
    then show ?thesis using commit_okD(7) [OF c] by auto
  qed
  ultimately show "?j < b \<and> b < ?j + journal_blocks st \<and> length buf = BS" using commit_okD(10) [OF c] by simp
qed

lemma log_phase:
  assumes c: "commit_ok st" and i: "\<not> committed (d_sec (c_drive st) (hsec st))"
  shows "not_yet st (put_all (take k (wr st (log_blocks st))) (c_drive st))" "logged st (put_all (wr st (log_blocks st)) (c_drive st))"
proof -
  have ny: "not_yet st (c_drive st)" using commit_okD(1) [OF c] i by (simp add: not_yet_def)
  have step: "not_yet st (put_sector i bs d)" if w: "(i, bs) \<in> set (wr st (log_blocks st))" and d: "not_yet st d" for i bs d
  proof -
    obtain b buf where b: "(b, buf) \<in> set (log_blocks st)" "i \<in> {c_base st + 8 * b..<c_base st + 8 * b + 8}"
      using wr_block [OF w] by auto
    have "length bs = 512" by (rule wr_lengths [OF _ w]) (use log_blocks_facts(2) [OF c] in auto)
    then show ?thesis using not_yet_put [OF d _ b(2)] log_blocks_facts(2) [OF c b(1)] by blast
  qed
  show "not_yet st (put_all (take k (wr st (log_blocks st))) (c_drive st))"
    by (rule put_all_take_inv [where P = "not_yet st", OF step ny])
  have all: "not_yet st (put_all (wr st (log_blocks st)) (c_drive st))" by (rule put_all_inv [where P = "not_yet st", OF step ny])
  have "blk st (put_all (wr st (log_blocks st)) (c_drive st)) b =
      (case map_of (log_blocks st) b of None \<Rightarrow> blk st (c_drive st) b | Some buf \<Rightarrow> buf)" for b
    by (rule blk_wr) (use log_blocks_facts(1,2) [OF c] in auto)
  then show "logged st (put_all (wr st (log_blocks st)) (c_drive st))"
    using all log_blocks_facts(3,4) [OF c] by (simp add: logged_def not_yet_def)
qed

lemma commit_prefix:
  assumes c: "commit_ok st" and i: "\<not> committed (d_sec (c_drive st) (hsec st))"
  shows "phase st (put_all (take k (commit_writes st)) (c_drive st))" "in_place st (put_all (commit_writes st) (c_drive st))"
proof -
  obtain rest where r: "wr st [(journal_start st, commit_hdr st)] = (hsec st, take 512 (commit_hdr st)) # rest"
    "\<forall>(i, bs) \<in> set rest. length bs = 512 \<and> i \<noteq> hsec st \<and> i \<in> {c_base st + 8 * journal_start st..<c_base st + 8 * journal_start st + 8}"
    using wr_header [of "commit_hdr st" st] by (auto simp: commit_hdr_def)
  let ?A = "wr st (log_blocks st)" and ?d1 = "put_all (wr st (log_blocks st)) (c_drive st)"
  have hs: "hsec st \<in> {c_base st + 8 * journal_start st..<c_base st + 8 * journal_start st + 8}" by (simp add: hsec_def)
  have f1: "full st (put_sector (hsec st) (take 512 (commit_hdr st)) ?d1)"
    using logged_put [OF log_phase(2) [OF c i] _ hs c, of "take 512 (commit_hdr st)"] by (simp add: full_def commit_hdr_def)
  have keep: "full st (put_sector i bs d)" if "(i, bs) \<in> set rest" "full st d" for i bs d
    using logged_put [of st d bs i "journal_start st"] that r(2) c by (auto simp: full_def)
  have f2: "full st (put_all rest (put_sector (hsec st) (take 512 (commit_hdr st)) ?d1))"
    by (rule put_all_inv [where P = "full st", OF keep f1])
  have cw: "commit_writes st = ?A @ (hsec st, take 512 (commit_hdr st)) # (rest @ finish_writes st (jseq st))"
    unfolding commit_writes_def r(1) by simp
  show "in_place st (put_all (commit_writes st) (c_drive st))" unfolding cw using finish_prefix(2) [OF c f2] by simp
  show "phase st (put_all (take k (commit_writes st)) (c_drive st))"
  proof (cases "k \<le> length ?A")
    case True
    then show ?thesis using log_phase(1) [OF c i, of k] unfolding cw take_split by (simp add: phase_def)
  next
    case False
    define m where "m = k - length ?A - 1"
    have "phase st (put_all (take m (rest @ finish_writes st (jseq st))) (put_sector (hsec st) (take 512 (commit_hdr st)) ?d1))"
    proof (cases "m \<le> length rest")
      case True
      then show ?thesis using put_all_take_inv [where P = "full st" and ws = rest, OF keep f1, of m] by (simp add: phase_def)
    next
      case False
      then show ?thesis using finish_prefix(1) [OF c f2, of "m - length rest"] by simp
    qed
    then show ?thesis using False unfolding cw take_split m_def [symmetric] by simp
  qed
qed

lemma txn_commit_eq:
  assumes c: "commit_ok st"
  shows "txn_commit st = (Some (), st\<lparr>c_drive := put_all (commit_writes st) (c_drive st), jseq := u64_add (jseq st) 1,
    txn_active := False, txn := []\<rparr>)"
proof -
  let ?j = "journal_start st"
  have total: "?j < total_blocks st" "?j + 1 < total_blocks st" using commit_okD(9,10) [OF c] by auto
  have dl: "length (desc_image (map fst (txn st))) = BS" using commit_okD(4) [OF c] by simp
  have ok: "vol_ok st (put_all (wr st l) (c_drive st))" if "\<forall>(b, buf) \<in> set l. length buf = BS" for l
    by (rule vol_ok_put [OF commit_okD(1) [OF c]]) (use wr_lengths [OF that] in blast)
  have w1: "raw_write_block b buf (st\<lparr>c_drive := put_all (wr st l) (c_drive st)\<rparr>) =
      (Some (), st\<lparr>c_drive := put_all (wr st (l @ [(b, buf)])) (c_drive st)\<rparr>)"
    if "b < total_blocks st" "\<forall>(b, buf) \<in> set l. length buf = BS" for b buf l
    using raw_write_eq [of "st\<lparr>c_drive := put_all (wr st l) (c_drive st)\<rparr>" b buf] that ok by simp
  have w2: "write_blocks m (st\<lparr>c_drive := put_all (wr st l) (c_drive st)\<rparr>) =
      (Some (), st\<lparr>c_drive := put_all (wr st (l @ m)) (c_drive st)\<rparr>)"
    if "\<forall>(b, buf) \<in> set m. b < total_blocks st \<and> length buf = BS" "\<forall>(b, buf) \<in> set l. length buf = BS" for l m
    using write_blocks_eq [of "st\<lparr>c_drive := put_all (wr st l) (c_drive st)\<rparr>" m] that ok by simp
  let ?B = "[(?j, commit_hdr st)]" and ?E = "[(?j, jhdr_image CFS_JNONE (jseq st) 0 0)]"
  let ?ds = "zip [?j + 2..<?j + 2 + length (txn st)] (map snd (txn st))"
  have lb: "log_blocks st = [(?j + 1, txn_desc st)] @ ?ds" by (simp add: log_blocks_def)
  have lens: "\<forall>(b, buf) \<in> set (log_blocks st). length buf = BS" "\<forall>(b, buf) \<in> set (log_blocks st @ ?B). length buf = BS"
    "\<forall>(b, buf) \<in> set (log_blocks st @ ?B @ txn st). length buf = BS"
    using log_blocks_facts(2) [OF c] commit_okD(7) [OF c] by (auto simp: commit_hdr_def)
  have s1: "raw_write_block (?j + 1) (txn_desc st) st = (Some (), st\<lparr>c_drive := put_all (wr st [(?j + 1, txn_desc st)]) (c_drive st)\<rparr>)"
    using w1 [of "?j + 1" "[]" "txn_desc st"] total by simp
  have "\<forall>(b, buf) \<in> set ?ds. b < total_blocks st \<and> length buf = BS"
  proof (clarify)
    fix b buf assume "(b, buf) \<in> set ?ds"
    then have "(b, buf) \<in> set (log_blocks st)" unfolding lb by simp
    from log_blocks_facts(2) [OF c this] show "b < total_blocks st \<and> length buf = BS" using commit_okD(9) [OF c] by simp
  qed
  then have s2: "write_blocks ?ds (st\<lparr>c_drive := put_all (wr st [(?j + 1, txn_desc st)]) (c_drive st)\<rparr>) =
      (Some (), st\<lparr>c_drive := put_all (wr st (log_blocks st)) (c_drive st)\<rparr>)"
    using w2 [of ?ds "[(?j + 1, txn_desc st)]"] dl unfolding lb by (simp add: txn_desc_def)
  have s3: "raw_write_block ?j (commit_hdr st) (st\<lparr>c_drive := put_all (wr st (log_blocks st)) (c_drive st)\<rparr>) =
      (Some (), st\<lparr>c_drive := put_all (wr st (log_blocks st @ ?B)) (c_drive st)\<rparr>)"
    by (rule w1 [OF total(1) lens(1)])
  have "\<forall>(b, buf) \<in> set (txn st). b < total_blocks st \<and> length buf = BS"
    using commit_okD(6,7) [OF c] by (auto simp: outside_def)
  then have s4: "write_blocks (txn st) (st\<lparr>c_drive := put_all (wr st (log_blocks st @ ?B)) (c_drive st)\<rparr>) =
      (Some (), st\<lparr>c_drive := put_all (wr st (log_blocks st @ ?B @ txn st)) (c_drive st)\<rparr>)"
    using w2 [OF _ lens(2)] by simp
  have s5: "raw_write_block ?j (jhdr_image CFS_JNONE (jseq st) 0 0) (st\<lparr>c_drive := put_all (wr st (log_blocks st @ ?B @ txn st)) (c_drive st)\<rparr>) =
      (Some (), st\<lparr>c_drive := put_all (commit_writes st) (c_drive st)\<rparr>)"
    using w1 [OF total(1) lens(3)] by (simp add: commit_writes_def finish_writes_def)
  have hdr: "jhdr_image CFS_JCOMMITTED (jseq st) (length (txn st)) (journal_csum (txn_desc st) (map snd (txn st))) = commit_hdr st"
    by (simp add: commit_hdr_def)
  have "\<not> (?j = 0 \<or> length (txn st) + 2 > journal_blocks st)" using commit_okD(8,10) [OF c] by simp
  then show ?thesis
    unfolding txn_commit_def Let_def txn_desc_def [symmetric] hdr
    using commit_okD(2,3) [OF c] s1 s2 s3 s4 s5 by (simp add: seq_io_def puts_def del: wr_simps upt_Suc)
qed

section \<open>Recovery\<close>

text \<open>The machine comes up again with the same volume on the disk \<open>d\<close>.\<close>

definition rebooted :: "cfs \<Rightarrow> drive \<Rightarrow> cfs \<Rightarrow> bool" where
  "rebooted st d rb \<longleftrightarrow> c_drive rb = d \<and> c_base rb = c_base st \<and> spb rb = spb st \<and> total_blocks rb = total_blocks st \<and>
     journal_start rb = journal_start st \<and> journal_blocks rb = journal_blocks st"

lemma rebootedD:
  assumes "rebooted st d rb"
  shows "c_drive rb = d" "blk rb d' b = blk st d' b" "vol_ok rb d' = vol_ok st d'" "wr rb l = wr st l"
    "total_blocks rb = total_blocks st" "journal_start rb = journal_start st" "journal_blocks rb = journal_blocks st"
  using assms by (simp_all add: rebooted_def blk_def vol_ok_def wr_def)

lemma header_field:
  assumes "vol_ok st d" "off + w \<le> 512"
  shows "field (blk st d (journal_start st)) off w = field (d_sec d (hsec st)) off w"
proof -
  have "[hsec st..<hsec st + 8] = hsec st # [hsec st + 1..<hsec st + 8]" by (simp add: upt_conv_Cons)
  then have "blk st d (journal_start st) = d_sec d (hsec st) @ concat (map (d_sec d) [hsec st + 1..<hsec st + 8])"
    by (simp add: blk_def sectors_def hsec_def)
  moreover have "length (d_sec d (hsec st)) = 512" using assms(1) by (simp add: vol_ok_def)
  ultimately show ?thesis using field_append assms(2) by metis
qed

lemma recover_idle:
  assumes "vol_ok st d" "\<not> committed (d_sec d (hsec st))" "rebooted st d rb" "0 < journal_start st" "journal_start st < total_blocks st"
  shows "journal_recover rb = Some rb"
proof -
  note r = rebootedD [OF assms(3)]
  have "raw_read_block (journal_start st) rb = (Some (blk st d (journal_start st)), rb)"
    using raw_read_eq [of rb "journal_start st"] assms r by simp
  then show ?thesis
    using assms(2,4) header_field [OF assms(1), of 0 4] header_field [OF assms(1), of 4 4] r(6)
    by (auto simp: journal_recover_def Let_def committed_def)
qed

lemma read_blocks_eq:
  "vol_ok st (c_drive st) \<Longrightarrow> \<forall>i < n. b + i < total_blocks st \<and> blk st (c_drive st) (b + i) = ds ! i \<Longrightarrow> length ds = n \<Longrightarrow>
   read_blocks b n st = Some ds"
proof (induction n arbitrary: b ds)
  case (Suc n)
  then obtain d ds' where ds: "ds = d # ds'" by (cases ds) auto
  have b: "b < total_blocks st" "blk st (c_drive st) b = d" using Suc.prems(2) ds by fastforce+
  have "\<forall>i < n. b + 1 + i < total_blocks st \<and> blk st (c_drive st) (b + 1 + i) = ds' ! i"
  proof (intro allI impI)
    fix i assume "i < n"
    then show "b + 1 + i < total_blocks st \<and> blk st (c_drive st) (b + 1 + i) = ds' ! i"
      using Suc.prems(2) [rule_format, of "Suc i"] ds by simp
  qed
  then have "read_blocks (b + 1) n st = Some ds'" by (rule Suc.IH [OF Suc.prems(1)]) (use Suc.prems(3) ds in simp)
  then show ?case using raw_read_eq [OF Suc.prems(1) b(1)] b(2) ds by simp
qed simp

lemma redo_eq:
  "vol_ok st (c_drive st) \<Longrightarrow> length ds = length hs \<Longrightarrow> \<forall>d \<in> set ds. length d = BS \<Longrightarrow>
   \<forall>h \<in> set hs. h < total_blocks st \<and> \<not> (b \<le> h \<and> h < b + length hs) \<Longrightarrow>
   \<forall>i < length hs. b + i < total_blocks st \<and> blk st (c_drive st) (b + i) = ds ! i \<Longrightarrow>
   redo b hs st = (True, st\<lparr>c_drive := put_all (wr st (zip hs ds)) (c_drive st)\<rparr>)"
proof (induction hs arbitrary: b ds st)
  case (Cons h hs)
  then obtain d ds' where ds: "ds = d # ds'" by (cases ds) auto
  have b: "b < total_blocks st" "blk st (c_drive st) b = d" using Cons.prems(5) ds by fastforce+
  have h: "h < total_blocks st" "length d = BS" using Cons.prems(3,4) ds by auto
  let ?st = "st\<lparr>c_drive := put_all (wr st [(h, d)]) (c_drive st)\<rparr>"
  have v: "vol_ok ?st (c_drive ?st)"
    using vol_ok_put [OF Cons.prems(1), of "wr st [(h, d)]"] wr_lengths [of "[(h, d)]" _ _ st] h(2) by fastforce
  have keep: "blk ?st (c_drive ?st) c = blk st (c_drive st) c" if "c \<noteq> h" for c
    using blk_wr_other [of c "[(h, d)]" st] that by (simp add: blk_def)
  have nx: "b + 1 + i < total_blocks ?st \<and> blk ?st (c_drive ?st) (b + 1 + i) = ds' ! i" if "i < length hs" for i
  proof -
    have "b + 1 + i < total_blocks st" "blk st (c_drive st) (b + 1 + i) = ds' ! i"
      using Cons.prems(5) [rule_format, of "Suc i"] that ds by auto
    moreover have "b + 1 + i \<noteq> h" using Cons.prems(4) that by auto
    ultimately show ?thesis using keep by simp
  qed
  have "redo (b + 1) hs ?st = (True, ?st\<lparr>c_drive := put_all (wr ?st (zip hs ds')) (c_drive ?st)\<rparr>)"
    by (rule Cons.IH [OF v]) (use Cons.prems(2-4) ds nx in auto)
  then show ?case using raw_read_eq [OF Cons.prems(1) b(1)] raw_write_eq [OF Cons.prems(1) h(1)] b(2) ds by simp
qed simp

lemma recover_full:
  assumes c: "commit_ok st" and f: "full st d" and rb: "rebooted st d rb"
  shows "\<exists>sr. journal_recover rb = Some sr \<and> c_drive sr = put_all (finish_writes st 0) d"
proof -
  let ?j = "journal_start st" and ?n = "length (txn st)" and ?ds = "map snd (txn st)" and ?hs = "map fst (txn st)"
  note r = rebootedD [OF rb]
  have v: "vol_ok st d" "vol_ok rb (c_drive rb)" using f r by (simp_all add: full_def logged_def)
  have n: "0 < ?n" "?n \<le> 32" "?n + 2 \<le> journal_blocks st" "?j + journal_blocks st \<le> total_blocks st" "0 < ?j"
    using commit_okD(3,4,8-10) [OF c] by auto
  define h where "h = blk st d ?j"
  have hf: "field h off w = field (commit_hdr st) off w" if "off + w \<le> 512" for off w
    using header_field [OF v(1) that] f that field_append [of off w "take 512 (commit_hdr st)" "drop 512 (commit_hdr st)"]
    by (simp add: h_def full_def commit_hdr_def)
  have fs: "field h 0 4 = CFS_JMAGIC" "field h 4 4 = CFS_JCOMMITTED" "field h 16 4 = ?n"
    "field h 20 4 = unat (journal_csum (txn_desc st) ?ds)"
    using n(2) by (simp_all add: hf) (simp_all add: commit_hdr_def jhdr_fields)
  have r1: "raw_read_block ?j rb = (Some h, rb)" "raw_read_block (?j + 1) rb = (Some (txn_desc st), rb)"
    using raw_read_eq [OF v(2), of ?j] raw_read_eq [OF v(2), of "?j + 1"] n f r by (simp_all add: h_def full_def logged_def)
  have bl: "\<forall>i < ?n. ?j + 2 + i < total_blocks rb \<and> blk rb (c_drive rb) (?j + 2 + i) = ?ds ! i"
    using f n r by (simp add: full_def logged_def)
  then have r2: "read_blocks (?j + 2) ?n rb = Some ?ds" by (intro read_blocks_eq [OF v(2)]) auto
  have tb: "8 * total_blocks st < 2 ^ 64" using v(1) by (simp add: vol_ok_def reaches_def)
  have out: "\<forall>b \<in> set ?hs. outside st b" using commit_okD(6) [OF c] by auto
  then have "\<forall>b \<in> set ?hs. b < 2 ^ 64" using tb by (auto simp: outside_def)
  then have hs: "map (\<lambda>i. field (txn_desc st) (8 * i) 8) [0..<?n] = ?hs" using desc_fields [of ?hs] by (simp add: txn_desc_def)
  have "redo (?j + 2) ?hs rb = (True, rb\<lparr>c_drive := put_all (wr rb (zip ?hs ?ds)) (c_drive rb)\<rparr>)"
    by (rule redo_eq [OF v(2)]) (use bl out n r commit_okD(7) [OF c] in \<open>auto simp: outside_def\<close>)
  then have r3: "redo (?j + 2) ?hs rb = (True, rb\<lparr>c_drive := put_all (wr st (txn st)) d\<rparr>)"
    using r by (simp add: zip_map_fst_snd)
  define rb1 where "rb1 = (let s1 = rb\<lparr>c_drive := put_all (wr st (txn st)) d\<rparr>
    in if field h 8 8 \<ge> jseq s1 then s1\<lparr>jseq := u64_add (field h 8 8) 1\<rparr> else s1)"
  have j: "journal_recover rb = Some (snd (raw_write_block ?j (jhdr_image CFS_JNONE 0 0 0) rb1))"
  proof -
    have "\<not> (?n = 0 \<or> u32_add ?n 2 > journal_blocks st)" using n by (simp add: u32_add_def)
    then show ?thesis unfolding journal_recover_def Let_def r(6,7)
      using n r1 r2 fs r3 hs by (simp add: rb1_def Let_def del: upt_Suc)
  qed
  have d1: "c_drive rb1 = put_all (wr st (txn st)) d" by (simp add: rb1_def Let_def)
  have "vol_ok st (put_all (wr st (txn st)) d)"
    by (rule vol_ok_put [OF v(1)]) (use wr_lengths [of "txn st" _ _ st] commit_okD(7) [OF c] in blast)
  moreover have "rebooted st (c_drive rb1) rb1" using rb by (simp add: rebooted_def rb1_def Let_def)
  ultimately have "raw_write_block ?j (jhdr_image CFS_JNONE 0 0 0) rb1 =
      (Some (), rb1\<lparr>c_drive := put_all (wr st [(?j, jhdr_image CFS_JNONE 0 0 0)]) (c_drive rb1)\<rparr>)"
    using raw_write_eq [of rb1 ?j] rebootedD [of st "c_drive rb1" rb1] n d1 by (simp del: wr_simps)
  then show ?thesis using j d1 by (simp add: finish_writes_def)
qed

section \<open>Properties\<close>

text \<open>Any number of recoveries that were themselves cut short by a power failure.\<close>

inductive power_cycles :: "cfs \<Rightarrow> drive \<Rightarrow> drive \<Rightarrow> bool" for st :: cfs where
  pc_start: "power_cycles st d d"
| pc_again: "power_cycles st d d1 \<Longrightarrow> rebooted st d1 rb \<Longrightarrow> journal_recover rb = Some sr \<Longrightarrow>
    power_cycles st d (crash k d1 (c_drive sr))"

lemma recover_phase:
  assumes c: "commit_ok st" and p: "phase st d" and rb: "rebooted st d rb"
  shows "\<exists>sr. journal_recover rb = Some sr \<and> phase st (crash k d (c_drive sr)) \<and> (not_yet st (c_drive sr) \<or> in_place st (c_drive sr))"
proof (cases "full st d")
  case True
  obtain sr where sr: "journal_recover rb = Some sr" "c_drive sr = put_all (finish_writes st 0) d"
    using recover_full [OF c True rb] by blast
  then show ?thesis using finish_prefix [OF c True] by simp
next
  case False
  then have s: "not_yet st d \<or> in_place st d" using p by (auto simp: phase_def)
  then have "journal_recover rb = Some rb"
    using commit_okD(8-10) [OF c] by (intro recover_idle [OF _ _ rb]) (auto simp: not_yet_def in_place_def)
  moreover have "crash k d (c_drive rb) = d" using rebootedD(1) [OF rb] by (simp add: crash_def)
  ultimately show ?thesis using s p rebootedD(1) [OF rb] by simp
qed

lemma power_cycles_phase: "power_cycles st d d' \<Longrightarrow> commit_ok st \<Longrightarrow> phase st d \<Longrightarrow> phase st d'"
proof (induction rule: power_cycles.induct)
  case (pc_again d d1 rb sr k)
  then show ?case using recover_phase [of st d1 rb k] by auto
qed

text \<open>C30. Transactions are atomic.  A transaction that fits into the journal is committed, and then
  every block outside the journal holds its new contents.  If the power fails after any number of
  the sectors that the commit writes, and after any number of sectors in each of any number of
  later attempts to recover, then the next recovery returns, and the blocks outside the journal
  are all as before the transaction or all as after it.\<close>

theorem commit_survives_power_failure:
  assumes "commit_ok st" "\<not> committed (d_sec (c_drive st) (hsec st))"
    and "power_cycles st (crash k (c_drive st) (c_drive (snd (txn_commit st)))) d" "rebooted st d rb"
  shows "fst (txn_commit st) = Some () \<and> (\<forall>b. outside st b \<longrightarrow> blk st (c_drive (snd (txn_commit st))) b = after st b) \<and>
    (\<exists>sr. journal_recover rb = Some sr \<and>
      ((\<forall>b. outside st b \<longrightarrow> blk st (c_drive sr) b = blk st (c_drive st) b) \<or>
       (\<forall>b. outside st b \<longrightarrow> blk st (c_drive sr) b = after st b)))"
proof -
  note e = txn_commit_eq [OF assms(1)] and cp = commit_prefix [OF assms(1,2)]
  have "crash k (c_drive st) (c_drive (snd (txn_commit st))) = put_all (take k (commit_writes st)) (c_drive st)" by (simp add: e)
  then have "phase st d" using power_cycles_phase [OF assms(3,1)] cp(1) by simp
  from recover_phase [OF assms(1) this assms(4), of 0] show ?thesis using cp(2) by (auto simp: e not_yet_def in_place_def)
qed

definition sample_drive :: drive where
  "sample_drive = \<lparr>d_present = True, d_lba48 = True, d_total = 512, d_sec = (\<lambda>_. zeros 512), d_good = (\<lambda>_. True), d_log = []\<rparr>"

definition sample_volume :: cfs where
  "sample_volume = \<lparr>c_drive = sample_drive, c_base = 0, mounted = True, spb = 8, inode_size = 256, total_blocks = 64, total_inodes = 64,
     free_blocks = 53, free_inodes = 62, block_bitmap_start = 4, inode_bitmap_start = 5, inode_table_start = 6, data_start = 10,
     root_ino = 1, journal_start = 1, journal_blocks = 3, c_flags = 1, csum_ok = True, txn = [], txn_active = False,
     txn_free_blocks = 0, txn_free_inodes = 0, jseq = 1, c_uid = 0, c_gid = 0, c_now = 0\<rparr>"

lemma sample_vol_ok: "vol_ok sample_volume sample_drive"
  by (simp add: vol_ok_def sample_volume_def sample_drive_def reaches_def)

theorem commit_survives_power_failure_witness:
  "\<exists>st sr. txn st = [(20, replicate 4096 7)] \<and> journal_recover (st\<lparr>c_drive := crash 20 (c_drive st) (c_drive (snd (txn_commit st)))\<rparr>) = Some sr \<and>
    (blk st (c_drive sr) 20 = blk st (c_drive st) 20 \<or> blk st (c_drive sr) 20 = replicate 4096 7)"
proof -
  let ?st = "sample_volume\<lparr>txn := [(20, replicate 4096 7)], txn_active := True\<rparr>"
  let ?d = "crash 20 (c_drive ?st) (c_drive (snd (txn_commit ?st)))"
  have v: "vol_ok ?st (c_drive ?st)" using sample_vol_ok by (simp add: vol_ok_def sample_volume_def)
  have c: "commit_ok ?st" unfolding commit_ok_def using v by (simp add: sample_volume_def outside_def)
  have h: "\<not> committed (d_sec (c_drive ?st) (hsec ?st))" by (simp add: committed_def sample_volume_def sample_drive_def)
  have o: "outside ?st 20" by (simp add: outside_def sample_volume_def)
  have rb: "rebooted ?st ?d (?st\<lparr>c_drive := ?d\<rparr>)" by (simp add: rebooted_def)
  from commit_survives_power_failure [OF c h pc_start rb] o obtain sr where
    "journal_recover (?st\<lparr>c_drive := ?d\<rparr>) = Some sr"
    "blk ?st (c_drive sr) 20 = blk ?st (c_drive ?st) 20 \<or> blk ?st (c_drive sr) 20 = after ?st 20" by blast
  then show ?thesis by (intro exI [of _ ?st] exI [of _ sr]) (auto simp: after_def)
qed

end
