(* ===== verification/Cfs_Meta.thy ===== *)
theory Cfs_Meta
  imports Cfs_Journal
begin

text \<open>
  \<open>src/cfs.c\<close>: bitmaps, inodes and extents.  An inode is a record with the area of its extents
  kept as the 144 bytes it is on disk, because small files and symbolic links store their data
  there.  The inode size is the one \<open>cfs_format\<close> writes, so that an inode never crosses a block.
\<close>

section \<open>Permissions\<close>

definition may_access :: "u16 \<Rightarrow> u32 \<Rightarrow> u32 \<Rightarrow> u16 \<Rightarrow> cfs \<Rightarrow> bool" where
  "may_access mode iuid igid want st \<longleftrightarrow> c_uid st = 0 \<or>
     (let perm = (if c_uid st = iuid then drop_bit 6 mode AND 7
                  else if c_gid st = igid then drop_bit 3 mode AND 7
                  else mode AND 7)
      in perm AND want = want)"

abbreviation (input) CFS_R :: u16 where "CFS_R \<equiv> 4"
abbreviation (input) CFS_W :: u16 where "CFS_W \<equiv> 2"
abbreviation (input) CFS_WX :: u16 where "CFS_WX \<equiv> 3"

section \<open>Bitmaps\<close>

definition bit_at :: "u8 list \<Rightarrow> nat \<Rightarrow> bool" where
  "bit_at buf t = bit (buf ! (t div 8)) (t mod 8)"

definition put_bit :: "u8 list \<Rightarrow> nat \<Rightarrow> bool \<Rightarrow> u8 list" where
  "put_bit buf t v =
     (let m = push_bit (t mod 8) (1 :: u8); old = buf ! (t div 8)
      in buf[t div 8 := (if v then old OR m else old AND NOT m)])"

definition set_bitmap :: "nat \<Rightarrow> nat \<Rightarrow> bool \<Rightarrow> unit io" where
  "set_bitmap region idx v =
     (let b = region + idx div (BS * 8); t = idx mod (BS * 8)
      in seq_io (bd_read_block b) (\<lambda>buf. bd_write_block b (put_bit buf t v)))"

text \<open>
  The position where the two loops over one bitmap block stop: full bytes are skipped; otherwise
  either the number is behind the end, or it is not reserved and its bit is clear.
\<close>

definition scan_block :: "u8 list \<Rightarrow> nat \<Rightarrow> nat \<Rightarrow> nat \<Rightarrow> nat option" where
  "scan_block buf base limit first =
     List.find (\<lambda>t. buf ! (t div 8) \<noteq> 0xFF \<and> (limit \<le> base + t \<or> first \<le> base + t \<and> \<not> bit_at buf t)) [0..<BS * 8]"

text \<open>The loop over the bitmap blocks; \<open>None\<close> when nothing is free or a block cannot be read or
  written.\<close>

fun scan_bitmap :: "nat \<Rightarrow> nat \<Rightarrow> nat \<Rightarrow> nat \<Rightarrow> nat \<Rightarrow> nat io" where
  "scan_bitmap region limit first bb 0 st = (None, st)"
| "scan_bitmap region limit first bb (Suc n) st =
     seq_io (bd_read_block (region + bb)) (\<lambda>buf.
       case scan_block buf (bb * (BS * 8)) limit first of
         None \<Rightarrow> scan_bitmap region limit first (bb + 1) n
       | Some t \<Rightarrow>
           if limit \<le> bb * (BS * 8) + t then fail
           else seq_io (bd_write_block (region + bb) (put_bit buf t True)) (\<lambda>_. ret (bb * (BS * 8) + t))) st"

definition bitmap_blocks :: "nat \<Rightarrow> nat" where
  "bitmap_blocks nbits = (nbits + BS * 8 - 1) div (BS * 8)"

definition alloc_block :: "cfs \<Rightarrow> nat \<times> cfs" where
  "alloc_block st =
     (case scan_bitmap (block_bitmap_start st) (total_blocks st) (data_start st) 0 (bitmap_blocks (total_blocks st)) st of
        (None, st1) \<Rightarrow> (0, st1)
      | (Some b, st1) \<Rightarrow> (b, st1\<lparr>free_blocks := u64_sub (free_blocks st1) 1\<rparr>))"

definition free_block :: "nat \<Rightarrow> cfs \<Rightarrow> cfs" where
  "free_block b st =
     (if b < data_start st \<or> total_blocks st \<le> b then st
      else case set_bitmap (block_bitmap_start st) b False st of
             (None, st1) \<Rightarrow> st1
           | (Some _, st1) \<Rightarrow> st1\<lparr>free_blocks := u64_add (free_blocks st1) 1\<rparr>)"

definition alloc_inode :: "cfs \<Rightarrow> nat \<times> cfs" where
  "alloc_inode st =
     (case scan_bitmap (inode_bitmap_start st) (total_inodes st) 2 0 (bitmap_blocks (total_inodes st)) st of
        (None, st1) \<Rightarrow> (0, st1)
      | (Some n, st1) \<Rightarrow> (n, st1\<lparr>free_inodes := u64_sub (free_inodes st1) 1\<rparr>))"

definition free_inode :: "nat \<Rightarrow> cfs \<Rightarrow> cfs" where
  "free_inode n st =
     (if n < 2 \<or> total_inodes st \<le> n then st
      else case set_bitmap (inode_bitmap_start st) n False st of
             (None, st1) \<Rightarrow> st1
           | (Some _, st1) \<Rightarrow> st1\<lparr>free_inodes := u64_add (free_inodes st1) 1\<rparr>)"

section \<open>Inodes\<close>

record dinode =
  i_mode :: u16
  i_links :: u16
  i_uid :: u32
  i_gid :: u32
  i_size :: nat
  i_atime :: nat
  i_mtime :: nat
  i_ctime :: nat
  i_crtime :: nat
  i_flags :: u32
  nextents :: nat
  xattr_block :: nat
  extent_index :: nat
  extent :: "u8 list"
  i_csum :: u32

abbreviation (input) DINODE_SIZE :: nat where "DINODE_SIZE \<equiv> 224"
abbreviation (input) CFS_INLINE_EXTENTS :: nat where "CFS_INLINE_EXTENTS \<equiv> 12"
abbreviation (input) CFS_INLINE_MAX :: nat where "CFS_INLINE_MAX \<equiv> 144"

definition dinode_image :: "dinode \<Rightarrow> u8 list" where
  "dinode_image d =
     le_image 2 (unat (i_mode d)) @ le_image 2 (unat (i_links d)) @ le_image 4 (unat (i_uid d)) @ le_image 4 (unat (i_gid d)) @
     le_image 8 (i_size d) @ le_image 8 (i_atime d) @ le_image 8 (i_mtime d) @ le_image 8 (i_ctime d) @ le_image 8 (i_crtime d) @
     le_image 4 (unat (i_flags d)) @ le_image 4 (nextents d) @ le_image 8 (xattr_block d) @ le_image 8 (extent_index d) @
     extent d @ le_image 4 (unat (i_csum d))"

definition dinode_of :: "u8 list \<Rightarrow> dinode" where
  "dinode_of bs =
     \<lparr>i_mode = of_nat (field bs 0 2), i_links = of_nat (field bs 2 2), i_uid = of_nat (field bs 4 4), i_gid = of_nat (field bs 8 4),
      i_size = field bs 12 8, i_atime = field bs 20 8, i_mtime = field bs 28 8, i_ctime = field bs 36 8, i_crtime = field bs 44 8,
      i_flags = of_nat (field bs 52 4), nextents = field bs 56 4, xattr_block = field bs 60 8, extent_index = field bs 68 8,
      extent = take 144 (drop 76 bs), i_csum = of_nat (field bs 220 4)\<rparr>"

text \<open>\<open>memset\<close> of a new inode.\<close>

definition blank_dinode :: dinode where
  "blank_dinode = \<lparr>i_mode = 0, i_links = 0, i_uid = 0, i_gid = 0, i_size = 0, i_atime = 0, i_mtime = 0, i_ctime = 0, i_crtime = 0,
     i_flags = 0, nextents = 0, xattr_block = 0, extent_index = 0, extent = zeros 144, i_csum = 0\<rparr>"

definition inode_csum :: "dinode \<Rightarrow> u32" where
  "inode_csum d = crc32_up 0 (dinode_image (d\<lparr>i_csum := 0\<rparr>))"

definition super_csum :: "u8 list \<Rightarrow> u32" where
  "super_csum sb = crc32_up (crc32_up 0 (take 140 sb)) (drop 144 sb)"

definition CFS_ISDIR :: "u16 \<Rightarrow> bool" where
  "CFS_ISDIR m \<longleftrightarrow> m AND 0xF000 = 0x4000"

definition CFS_ISLNK :: "u16 \<Rightarrow> bool" where
  "CFS_ISLNK m \<longleftrightarrow> m AND 0xF000 = 0xA000"

definition inode_block :: "cfs \<Rightarrow> nat \<Rightarrow> nat" where
  "inode_block st ino = inode_table_start st + ino * inode_size st div BS"

definition inode_off :: "cfs \<Rightarrow> nat \<Rightarrow> nat" where
  "inode_off st ino = ino * inode_size st mod BS"

definition read_dinode :: "nat \<Rightarrow> dinode io" where
  "read_dinode ino st =
     (if ino = 0 \<or> total_inodes st \<le> ino then (None, st)
      else seq_io (bd_read_block (inode_block st ino))
             (\<lambda>buf. ret (dinode_of (take DINODE_SIZE (drop (inode_off st ino) buf)))) st)"

definition write_dinode :: "nat \<Rightarrow> dinode \<Rightarrow> unit io" where
  "write_dinode ino d st =
     (if ino = 0 \<or> total_inodes st \<le> ino then (None, st)
      else seq_io (bd_read_block (inode_block st ino))
             (\<lambda>buf. bd_write_block (inode_block st ino)
                (set_bytes buf (inode_off st ino)
                   (dinode_image (d\<lparr>i_csum := (if c_flags st AND 1 \<noteq> 0 then inode_csum d else 0)\<rparr>)))) st)"

text \<open>The superblock fields that change: free counts, state and checksum.\<close>

definition sync_super :: "cfs \<Rightarrow> cfs" where
  "sync_super st =
     (case bd_read_block 0 st of
        (None, st1) \<Rightarrow> st1
      | (Some sb, st1) \<Rightarrow>
          let sb1 = set_bytes (set_bytes (set_bytes sb 32 (le_image 8 (free_blocks st1))) 40 (le_image 8 (free_inodes st1))) 128 (le_image 4 1);
              sb2 = (if c_flags st1 AND 1 \<noteq> 0 then set_bytes sb1 140 (le_image 4 (unat (super_csum sb1))) else sb1)
          in snd (bd_write_block 0 sb2 st1))"

section \<open>Extents\<close>

definition ext_start :: "dinode \<Rightarrow> nat \<Rightarrow> nat" where
  "ext_start d e = field (extent d) (12 * e) 8"

definition ext_count :: "dinode \<Rightarrow> nat \<Rightarrow> nat" where
  "ext_count d e = field (extent d) (12 * e + 8) 4"

definition set_ext :: "nat \<Rightarrow> nat \<Rightarrow> nat \<Rightarrow> dinode \<Rightarrow> dinode" where
  "set_ext e start count d = d\<lparr>extent := set_bytes (extent d) (12 * e) (le_image 8 start @ le_image 4 count)\<rparr>"

text \<open>The loop of \<open>map_fileblock\<close> from extent \<open>e\<close> on; \<open>n\<close> extents are left.\<close>

fun map_extents :: "dinode \<Rightarrow> nat \<Rightarrow> nat \<Rightarrow> nat \<Rightarrow> nat \<Rightarrow> nat" where
  "map_extents d e 0 logical fb = 0"
| "map_extents d e (Suc n) logical fb =
     (if fb < logical + ext_count d e
      then (if ext_start d e = 0 then 0 else ext_start d e + (fb - logical))
      else map_extents d (e + 1) n (logical + ext_count d e) fb)"

definition map_fileblock :: "dinode \<Rightarrow> nat \<Rightarrow> nat" where
  "map_fileblock d fb = map_extents d 0 (nextents d) 0 fb"

definition inode_push_extent :: "nat \<Rightarrow> nat \<Rightarrow> dinode \<Rightarrow> dinode option" where
  "inode_push_extent start count d =
     (let l = nextents d - 1
      in if nextents d > 0 \<and> ext_start d l \<noteq> 0 \<and> ext_start d l + ext_count d l = start
         then Some (set_ext l (ext_start d l) (u32_add (ext_count d l) count) d)
         else if nextents d \<ge> CFS_INLINE_EXTENTS then None
         else Some ((set_ext (nextents d) start count d)\<lparr>nextents := nextents d + 1\<rparr>))"

text \<open>Block numbers have 64 bits, and the sum wraps.\<close>

definition extent_blocks :: "dinode \<Rightarrow> nat list" where
  "extent_blocks d = concat (map (\<lambda>e. if ext_start d e = 0 then [] else map (\<lambda>k. (ext_start d e + k) mod 2 ^ 64) [0..<ext_count d e]) [0..<nextents d])"

definition inode_free_data :: "dinode \<Rightarrow> cfs \<Rightarrow> dinode \<times> cfs" where
  "inode_free_data d st = (d\<lparr>nextents := 0, i_size := 0\<rparr>, fold free_block (extent_blocks d) st)"

end
