(* ===== verification/Cfs_Dir.thy ===== *)
theory Cfs_Dir
  imports Cfs_Meta CString
begin

text \<open>
  \<open>src/cfs.c\<close>: directory blocks and path resolution.  A directory block is a sequence of records
  that follow each other by their lengths; the loops over a block visit the offsets
  \<open>dir_offs\<close>.  Names are byte strings; paths are strings as the VFS passes them.  In a block
  whose name lengths exceed their records the code would touch memory behind its buffer; such
  blocks are outside the model (a name is cut at the end of the block).
\<close>

section \<open>Directory blocks\<close>

abbreviation (input) CFS_DIRENT_HDR :: nat where "CFS_DIRENT_HDR \<equiv> 12"
abbreviation (input) CFS_NAME_MAX :: nat where "CFS_NAME_MAX \<equiv> 255"

definition align8 :: "nat \<Rightarrow> nat" where
  "align8 x = (x + 7) div 8 * 8"

definition dent_inode :: "u8 list \<Rightarrow> nat \<Rightarrow> nat" where
  "dent_inode buf off = field buf off 8"

definition dent_rec_len :: "u8 list \<Rightarrow> nat \<Rightarrow> nat" where
  "dent_rec_len buf off = field buf (off + 8) 2"

definition dent_name_len :: "u8 list \<Rightarrow> nat \<Rightarrow> nat" where
  "dent_name_len buf off = field buf (off + 10) 1"

definition dent_name :: "u8 list \<Rightarrow> nat \<Rightarrow> u8 list" where
  "dent_name buf off = take (dent_name_len buf off) (drop (off + CFS_DIRENT_HDR) buf)"

definition dent_image :: "nat \<Rightarrow> nat \<Rightarrow> u8 list \<Rightarrow> nat \<Rightarrow> u8 list" where
  "dent_image inode rec_len name ty = le_image 8 inode @ le_image 2 rec_len @ le_image 1 (length name) @ le_image 1 ty @ name"

function dir_offs :: "u8 list \<Rightarrow> nat \<Rightarrow> nat list" where
  "dir_offs buf off =
     (if off + CFS_DIRENT_HDR \<le> BS \<and> CFS_DIRENT_HDR \<le> dent_rec_len buf off \<and> off + dent_rec_len buf off \<le> BS
      then off # dir_offs buf (off + dent_rec_len buf off)
      else [])"
  by pat_completeness auto
termination by (relation "measure (\<lambda>(buf, off). BS - off)") auto

declare dir_offs.simps [simp del]

definition name_eq :: "u8 list \<Rightarrow> nat \<Rightarrow> u8 list \<Rightarrow> bool" where
  "name_eq buf off name \<longleftrightarrow> dent_inode buf off \<noteq> 0 \<and> dent_name_len buf off = length name \<and> dent_name buf off = name"

definition find_name :: "u8 list \<Rightarrow> u8 list \<Rightarrow> nat option" where
  "find_name buf name = List.find (\<lambda>off. name_eq buf off name) (dir_offs buf 0)"

text \<open>The blocks of a directory in file order; holes are passed over.\<close>

definition dir_blocks :: "dinode \<Rightarrow> nat list" where
  "dir_blocks d = filter (\<lambda>pb. pb \<noteq> 0) (map (map_fileblock d) [0..<i_size d div BS])"

fun lookup_in :: "nat list \<Rightarrow> u8 list \<Rightarrow> cfs \<Rightarrow> nat \<times> cfs" where
  "lookup_in [] name st = (0, st)"
| "lookup_in (pb # pbs) name st =
     (case bd_read_block pb st of
        (None, st1) \<Rightarrow> (0, st1)
      | (Some buf, st1) \<Rightarrow>
          (case find_name buf name of
             Some off \<Rightarrow> (dent_inode buf off, st1)
           | None \<Rightarrow> lookup_in pbs name st1))"

definition dir_lookup :: "dinode \<Rightarrow> u8 list \<Rightarrow> cfs \<Rightarrow> nat \<times> cfs" where
  "dir_lookup d name st = lookup_in (dir_blocks d) name st"

definition dir_init_block :: "nat \<Rightarrow> nat \<Rightarrow> u8 list" where
  "dir_init_block self parent =
     set_bytes (set_bytes (zeros BS) 0 (dent_image self 16 [0x2E] 2)) 16 (dent_image parent (BS - 16) [0x2E, 0x2E] 2)"

section \<open>Adding and removing entries\<close>

text \<open>The space a record really uses.\<close>

definition dent_used :: "u8 list \<Rightarrow> nat \<Rightarrow> nat" where
  "dent_used buf off = (if dent_inode buf off \<noteq> 0 then align8 (CFS_DIRENT_HDR + dent_name_len buf off) else 0)"

definition slot_fits :: "u8 list \<Rightarrow> nat \<Rightarrow> nat \<Rightarrow> bool" where
  "slot_fits buf need off \<longleftrightarrow>
     (if dent_inode buf off = 0 then need \<le> dent_rec_len buf off
      else need \<le> u32_sub (dent_rec_len buf off) (dent_used buf off))"

text \<open>A free record is taken over with its length; a used one gives up the space behind it.\<close>

definition fill_dent :: "u8 list \<Rightarrow> nat \<Rightarrow> u8 list \<Rightarrow> nat \<Rightarrow> nat \<Rightarrow> u8 list" where
  "fill_dent buf off name child ty =
     (if dent_inode buf off = 0 then set_bytes buf off (dent_image child (dent_rec_len buf off) name ty)
      else let used = dent_used buf off
           in set_bytes (set_bytes buf (off + 8) (le_image 2 used)) (off + used)
                (dent_image child (u32_sub (dent_rec_len buf off) used) name ty))"

text \<open>The first block with room for the name: \<open>Some True\<close> when the entry was written.\<close>

fun add_in :: "nat list \<Rightarrow> u8 list \<Rightarrow> nat \<Rightarrow> nat \<Rightarrow> bool io" where
  "add_in [] name child ty st = (Some False, st)"
| "add_in (pb # pbs) name child ty st =
     seq_io (bd_read_block pb) (\<lambda>buf.
       case List.find (slot_fits buf (align8 (CFS_DIRENT_HDR + length name))) (dir_offs buf 0) of
         Some off \<Rightarrow> seq_io (bd_write_block pb (fill_dent buf off name child ty)) (\<lambda>_. ret True)
       | None \<Rightarrow> add_in pbs name child ty) st"

text \<open>A new block with just this entry; the result is the directory's inode.\<close>

definition add_block :: "dinode \<Rightarrow> u8 list \<Rightarrow> nat \<Rightarrow> nat \<Rightarrow> dinode io" where
  "add_block d name child ty st =
     (let (b, st1) = alloc_block st
      in if b = 0 then (None, st1)
         else seq_io (raw_write_block b (set_bytes (zeros BS) 0 (dent_image child BS name ty))) (\<lambda>_ st2.
                case inode_push_extent b 1 d of
                  None \<Rightarrow> (None, free_block b st2)
                | Some d1 \<Rightarrow> (Some (d1\<lparr>i_size := i_size d1 + BS\<rparr>), st2)) st1)"

definition dir_add :: "dinode \<Rightarrow> u8 list \<Rightarrow> nat \<Rightarrow> nat \<Rightarrow> dinode io" where
  "dir_add d name child ty =
     seq_io (add_in (dir_blocks d) name child ty) (\<lambda>found. if found then ret d else add_block d name child ty)"

text \<open>The record of \<open>name\<close> is merged into the one before it, or freed when it is the first.\<close>

fun unlink_at :: "u8 list \<Rightarrow> nat option \<Rightarrow> nat list \<Rightarrow> u8 list \<Rightarrow> u8 list option" where
  "unlink_at buf prev [] name = None"
| "unlink_at buf prev (off # offs) name =
     (if name_eq buf off name
      then Some (case prev of
                   Some p \<Rightarrow> set_bytes buf (p + 8) (le_image 2 (dent_rec_len buf p + dent_rec_len buf off))
                 | None \<Rightarrow> set_bytes buf off (le_image 8 0))
      else unlink_at buf (Some off) offs name)"

fun remove_in :: "nat list \<Rightarrow> u8 list \<Rightarrow> unit io" where
  "remove_in [] name st = (None, st)"
| "remove_in (pb # pbs) name st =
     seq_io (bd_read_block pb) (\<lambda>buf.
       case unlink_at buf None (dir_offs buf 0) name of
         Some buf1 \<Rightarrow> bd_write_block pb buf1
       | None \<Rightarrow> remove_in pbs name) st"

definition dir_remove :: "dinode \<Rightarrow> u8 list \<Rightarrow> unit io" where
  "dir_remove d name = remove_in (dir_blocks d) name"

definition dots_only :: "u8 list \<Rightarrow> bool" where
  "dots_only buf \<longleftrightarrow> list_all (\<lambda>off. dent_inode buf off = 0 \<or> dent_name buf off = [0x2E] \<or> dent_name buf off = [0x2E, 0x2E]) (dir_offs buf 0)"

fun empty_in :: "nat list \<Rightarrow> cfs \<Rightarrow> bool \<times> cfs" where
  "empty_in [] st = (True, st)"
| "empty_in (pb # pbs) st =
     (case bd_read_block pb st of
        (None, st1) \<Rightarrow> (False, st1)
      | (Some buf, st1) \<Rightarrow> if dots_only buf then empty_in pbs st1 else (False, st1))"

definition dir_is_empty :: "dinode \<Rightarrow> cfs \<Rightarrow> bool \<times> cfs" where
  "dir_is_empty d st = empty_in (dir_blocks d) st"

section \<open>Paths\<close>

text \<open>The components of a path, and the walk along them; 0 when a component is missing.\<close>

fun components :: "string \<Rightarrow> string \<Rightarrow> string list" where
  "components acc [] = (if acc = [] then [] else [rev acc])"
| "components acc (c # cs) =
     (if c = CHR ''/'' then (if acc = [] then [] else [rev acc]) @ components [] cs else components (c # acc) cs)"

fun walk :: "string list \<Rightarrow> nat \<Rightarrow> cfs \<Rightarrow> nat \<times> cfs" where
  "walk [] ino st = (ino, st)"
| "walk (n # ns) ino st =
     (if length n > CFS_NAME_MAX then (0, st)
      else case read_dinode ino st of
             (None, st1) \<Rightarrow> (0, st1)
           | (Some d, st1) \<Rightarrow>
               if \<not> CFS_ISDIR (i_mode d) then (0, st1)
               else let (i, st2) = dir_lookup d (bytes_of n) st1
                    in if i = 0 then (0, st2) else walk ns i st2)"

definition resolve_ino :: "string \<Rightarrow> cfs \<Rightarrow> nat \<times> cfs" where
  "resolve_ino path st = walk (components [] path) (root_ino st) st"

text \<open>The path up to the last slash and the name behind it.\<close>

definition split_leaf :: "string \<Rightarrow> string option \<times> string" where
  "split_leaf path =
     (if CHR ''/'' \<in> set path
      then (Some (rev (tl (dropWhile (\<lambda>c. c \<noteq> CHR ''/'') (rev path)))), rev (takeWhile (\<lambda>c. c \<noteq> CHR ''/'') (rev path)))
      else (None, path))"

definition resolve_parent :: "string \<Rightarrow> (nat \<times> u8 list) io" where
  "resolve_parent path st =
     (let (dir, name) = split_leaf path
      in if length name = 0 \<or> length name > CFS_NAME_MAX then (None, st)
         else if (case dir of None \<Rightarrow> False | Some p \<Rightarrow> length p \<ge> 256) then (None, st)
         else let (pino, st1) = resolve_ino (case dir of None \<Rightarrow> ''/'' | Some p \<Rightarrow> if p = [] then ''/'' else p) st
              in if pino = 0 then (None, st1)
                 else seq_io (read_dinode pino)
                        (\<lambda>d. if CFS_ISDIR (i_mode d) then ret (pino, bytes_of name) else fail) st1)"

end
