(* ===== verification/Cfs.thy ===== *)
theory Cfs
  imports Cfs_Dir Vfs
begin

text \<open>
  \<open>src/cfs.c\<close>: formatting, mounting and the operations on files.  Each public operation that
  changes the volume runs as one transaction; the operations are put into the table through
  which the VFS calls a filesystem.
\<close>

section \<open>Mounting and formatting\<close>

fun for_io :: "('x \<Rightarrow> unit io) \<Rightarrow> 'x list \<Rightarrow> unit io" where
  "for_io f [] st = (Some (), st)"
| "for_io f (x # xs) st = seq_io (f x) (\<lambda>_. for_io f xs) st"

text \<open>The result is without value where the recovery is (see \<open>journal_recover\<close>).\<close>

definition cfs_mount_bd :: "cfs \<Rightarrow> (int \<times> cfs) option" where
  "cfs_mount_bd st0 =
     (let st = st0\<lparr>txn_active := False, txn := [], spb := CFS_SPB, mounted := False\<rparr>
      in case ata_read (c_base st) CFS_SPB (c_drive st) of
           None \<Rightarrow> Some (-1, st)
         | Some sb \<Rightarrow>
             if field sb 0 4 \<noteq> 0x31534643 \<or> field sb 4 4 \<noteq> 1 \<or> field sb 8 4 \<noteq> BS then Some (-1, st)
             else let fl = of_nat (field sb 132 4) :: u32;
                      st1 = st\<lparr>inode_size := field sb 12 4, total_blocks := field sb 16 8, total_inodes := field sb 24 8,
                              free_blocks := field sb 32 8, free_inodes := field sb 40 8, block_bitmap_start := field sb 48 8,
                              inode_bitmap_start := field sb 64 8, inode_table_start := field sb 80 8, data_start := field sb 96 8,
                              root_ino := field sb 104 8, journal_start := field sb 112 8, journal_blocks := field sb 120 8,
                              c_flags := fl, mounted := True,
                              csum_ok := (fl AND 1 = 0 \<or> field sb 140 4 = unat (super_csum sb))\<rparr>
                  in (case journal_recover st1 of
                        None \<Rightarrow> None
                      | Some st2 \<Rightarrow>
                          (case raw_read_block 0 st2 of
                             (None, st3) \<Rightarrow> Some (0, st3)
                           | (Some sb1, st3) \<Rightarrow> Some (0, st3\<lparr>free_blocks := field sb1 32 8, free_inodes := field sb1 40 8\<rparr>))))"

record geometry =
  g_inodes :: nat
  g_bbm_blocks :: nat
  g_ibm_blocks :: nat
  g_it_blocks :: nat
  g_bbm_start :: nat
  g_ibm_start :: nat
  g_it_start :: nat
  g_data_start :: nat

definition geometry_of :: "nat \<Rightarrow> nat \<Rightarrow> geometry" where
  "geometry_of nblocks jblocks =
     (let inodes = max (nblocks div 8) 64; bbm = ((nblocks + 7) div 8 + BS - 1) div BS; ibm = ((inodes + 7) div 8 + BS - 1) div BS;
          it = (inodes * 256 + BS - 1) div BS
      in \<lparr>g_inodes = inodes, g_bbm_blocks = bbm, g_ibm_blocks = ibm, g_it_blocks = it, g_bbm_start = 1 + jblocks,
          g_ibm_start = 1 + jblocks + bbm, g_it_start = 1 + jblocks + bbm + ibm, g_data_start = 1 + jblocks + bbm + ibm + it\<rparr>)"

definition super_image :: "nat \<Rightarrow> nat \<Rightarrow> geometry \<Rightarrow> nat \<Rightarrow> string option \<Rightarrow> u8 list" where
  "super_image nblocks jblocks g now label =
     (let lab = (case label of None \<Rightarrow> [] | Some l \<Rightarrow> take 31 (bytes_of l));
          sb = le_image 4 0x31534643 @ le_image 4 1 @ le_image 4 BS @ le_image 4 256 @ le_image 8 nblocks @ le_image 8 (g_inodes g) @
               le_image 8 (nblocks - (g_data_start g + 1)) @ le_image 8 (g_inodes g - 2) @ le_image 8 (g_bbm_start g) @
               le_image 8 (g_bbm_blocks g) @ le_image 8 (g_ibm_start g) @ le_image 8 (g_ibm_blocks g) @ le_image 8 (g_it_start g) @
               le_image 8 (g_it_blocks g) @ le_image 8 (g_data_start g) @ le_image 8 1 @ le_image 8 (if jblocks \<noteq> 0 then 1 else 0) @
               le_image 8 jblocks @ le_image 4 1 @ le_image 4 1 @ le_image 4 (now div 1000000000) @ le_image 4 0 @ zeros 16 @
               lab @ zeros (BS - 160 - length lab)
      in set_bytes sb 140 (le_image 4 (unat (super_csum sb))))"

definition root_dinode :: "nat \<Rightarrow> nat \<Rightarrow> dinode" where
  "root_dinode now block =
     (set_ext 0 block 1 blank_dinode)\<lparr>i_mode := 0x41ED, i_links := 2, i_atime := now, i_mtime := now, i_ctime := now, i_crtime := now,
        i_size := BS, nextents := 1\<rparr>"

text \<open>The state holds the transaction variables and the drive; the volume's fields are set here.\<close>

definition cfs_format :: "nat \<Rightarrow> nat \<Rightarrow> string option \<Rightarrow> unit io" where
  "cfs_format nblocks jblocks label st0 =
     (let g = geometry_of nblocks jblocks; ds = g_data_start g
      in if nblocks < 64 \<or> ds + 1 > nblocks then (None, st0)
         else let st = st0\<lparr>spb := CFS_SPB, inode_size := 256, total_blocks := nblocks, total_inodes := g_inodes g, free_blocks := 0,
                         free_inodes := 0, block_bitmap_start := g_bbm_start g, inode_bitmap_start := g_ibm_start g,
                         inode_table_start := g_it_start g, data_start := ds, root_ino := 1,
                         journal_start := (if jblocks \<noteq> 0 then 1 else 0), journal_blocks := jblocks, c_flags := 1, mounted := False\<rparr>
              in seq_io (for_io (\<lambda>b. bd_write_block b (zeros BS)) [0..<ds]) (\<lambda>_.
                 seq_io (for_io (\<lambda>b. set_bitmap (g_bbm_start g) b True) [0..<ds + 1]) (\<lambda>_.
                 seq_io (for_io (\<lambda>b. set_bitmap (g_bbm_start g) b True) [nblocks..<g_bbm_blocks g * BS * 8]) (\<lambda>_.
                 seq_io (for_io (\<lambda>n. set_bitmap (g_ibm_start g) n True) [0, 1]) (\<lambda>_.
                 seq_io (for_io (\<lambda>n. set_bitmap (g_ibm_start g) n True) [g_inodes g..<g_ibm_blocks g * BS * 8]) (\<lambda>_.
                 seq_io (write_dinode 1 (root_dinode (c_now st) ds)) (\<lambda>_.
                 seq_io (bd_write_block ds (dir_init_block 1 1)) (\<lambda>_.
                 bd_write_block 0 (super_image nblocks jblocks g (c_now st) label)))))))) st)"

section \<open>Reading\<close>

text \<open>The inode of a path, for the operations that only look.\<close>

definition path_inode :: "string \<Rightarrow> (nat \<times> dinode) io" where
  "path_inode path st =
     (let (ino, st1) = resolve_ino path st
      in if ino = 0 then (None, st1) else seq_io (read_dinode ino) (\<lambda>d. ret (ino, d)) st1)"

definition cfs_is_dir :: "string \<Rightarrow> cfs \<Rightarrow> bool \<times> cfs" where
  "cfs_is_dir path st =
     (case path_inode path st of (None, st1) \<Rightarrow> (False, st1) | (Some (_, d), st1) \<Rightarrow> (CFS_ISDIR (i_mode d), st1))"

record cfs_stat_t =
  s_mode :: u16
  s_uid :: u32
  s_gid :: u32
  s_size :: nat
  s_flags :: u32

definition cfs_stat :: "string \<Rightarrow> cfs_stat_t io" where
  "cfs_stat path = seq_io (path_inode path) (\<lambda>(_, d). ret \<lparr>s_mode = i_mode d, s_uid = i_uid d, s_gid = i_gid d, s_size = i_size d, s_flags = i_flags d\<rparr>)"

text \<open>The entries of one directory block; \<open>n\<close> places are left in the caller's array.\<close>

definition list_entry :: "u8 list \<Rightarrow> nat \<Rightarrow> cfs \<Rightarrow> vfs_dirent \<times> cfs" where
  "list_entry buf off st =
     (let name = map (\<lambda>b. char_of (unat b)) (take 255 (dent_name buf off))
      in case read_dinode (dent_inode buf off) st of
           (None, st1) \<Rightarrow> (\<lparr>de_name = name, de_size = 0, de_first_cluster = 0, de_attr = 0\<rparr>, st1)
         | (Some d, st1) \<Rightarrow>
             (\<lparr>de_name = name, de_size = i_size d mod 2 ^ 32, de_first_cluster = 0, de_attr = (if CFS_ISDIR (i_mode d) then 16 else 0)\<rparr>, st1))"

fun list_block :: "u8 list \<Rightarrow> nat list \<Rightarrow> nat \<Rightarrow> cfs \<Rightarrow> vfs_dirent list \<times> cfs" where
  "list_block buf [] n st = ([], st)"
| "list_block buf (off # offs) n st =
     (if n = 0 then ([], st)
      else if dent_inode buf off = 0 \<or> dent_name buf off = [0x2E] \<or> dent_name buf off = [0x2E, 0x2E] then list_block buf offs n st
      else let (e, st1) = list_entry buf off st; (es, st2) = list_block buf offs (n - 1) st1 in (e # es, st2))"

fun list_blocks :: "nat list \<Rightarrow> nat \<Rightarrow> vfs_dirent list io" where
  "list_blocks [] n st = (Some [], st)"
| "list_blocks (pb # pbs) n st =
     (if n = 0 then (Some [], st)
      else seq_io (bd_read_block pb) (\<lambda>buf st1.
        let (es, st2) = list_block buf (dir_offs buf 0) n st1
        in seq_io (list_blocks pbs (n - length es)) (\<lambda>rest. ret (es @ rest)) st2) st)"

definition cfs_list :: "string \<Rightarrow> nat \<Rightarrow> vfs_dirent list io" where
  "cfs_list path n = seq_io (path_inode path) (\<lambda>(_, d) st.
     if \<not> CFS_ISDIR (i_mode d) \<or> \<not> may_access (i_mode d) (i_uid d) (i_gid d) CFS_R st then (None, st)
     else list_blocks (dir_blocks d) n st)"

text \<open>The bytes from \<open>pos\<close> on, \<open>n\<close> of them, block by block; holes read as zeros.\<close>

function read_data :: "dinode \<Rightarrow> nat \<Rightarrow> nat \<Rightarrow> u8 list io" where
  "read_data d pos n st =
     (if n = 0 then (Some [], st)
      else let within = pos mod BS; chunk = min (BS - within) n; pb = map_fileblock d (pos div BS)
           in if pb = 0 then seq_io (read_data d (pos + chunk) (n - chunk)) (\<lambda>rest. ret (zeros chunk @ rest)) st
              else case raw_read_block pb st of
                     (None, st1) \<Rightarrow> (None, st1)
                   | (Some buf, st1) \<Rightarrow>
                       seq_io (read_data d (pos + chunk) (n - chunk)) (\<lambda>rest. ret (take chunk (drop within buf) @ rest)) st1)"
  by pat_completeness auto
termination by (relation "measure (\<lambda>(d, pos, n, st). n)") auto

definition read_link :: "dinode \<Rightarrow> nat \<Rightarrow> nat \<Rightarrow> u8 list io" where
  "read_link d offset len st =
     (case (if nextents d = 0 then (Some (extent d), st) else raw_read_block (ext_start d 0) st) of
        (None, st1) \<Rightarrow> (None, st1)
      | (Some tgt, st1) \<Rightarrow> (Some (take len (drop offset (VFS_SYMLINK_MAGIC @ take (i_size d mod 2 ^ 32) tgt))), st1))"

text \<open>
  The contents of a regular file: inline in the inode or in its blocks.  An inline inode or a
  short link whose size exceeds the extent area, which no operation writes, would be read past
  the structure; the model cuts there.
\<close>

definition read_inode :: "dinode \<Rightarrow> nat \<Rightarrow> nat \<Rightarrow> u8 list io" where
  "read_inode d offset len st =
     (if offset \<ge> i_size d then (Some [], st)
      else if i_flags d AND 1 \<noteq> 0 then (Some (take (min len (u32_sub (i_size d mod 2 ^ 32) offset)) (drop offset (extent d))), st)
      else read_data d offset (min len (i_size d - offset)) st)"

definition cfs_read_at :: "string \<Rightarrow> nat \<Rightarrow> nat \<Rightarrow> u8 list io" where
  "cfs_read_at path offset len = seq_io (path_inode path) (\<lambda>(_, d) st.
     if CFS_ISLNK (i_mode d) then read_link d offset len st
     else if CFS_ISDIR (i_mode d) then (None, st)
     else if \<not> may_access (i_mode d) (i_uid d) (i_gid d) CFS_R st then (None, st)
     else read_inode d offset len st)"

definition cfs_read_file :: "string \<Rightarrow> nat \<Rightarrow> u8 list io" where
  "cfs_read_file path n = cfs_read_at path 0 n"

section \<open>Writing\<close>

text \<open>Storing the contents: \<open>None\<close> leaves what was allocated so far to the transaction's abort.\<close>

fun store_blocks :: "u8 list \<Rightarrow> nat \<Rightarrow> dinode \<Rightarrow> dinode io" where
  "store_blocks data 0 d st = (Some d, st)"
| "store_blocks data (Suc n) d st =
     (let (b, st1) = alloc_block st
      in if b = 0 then (None, st1)
         else seq_io (raw_write_block b (take BS data @ zeros (BS - length data))) (\<lambda>_.
                case inode_push_extent b 1 d of
                  None \<Rightarrow> fail
                | Some d1 \<Rightarrow> store_blocks (drop BS data) n d1) st1)"

text \<open>Sizes and times of an inode that has been written.\<close>

definition stamp :: "nat \<Rightarrow> nat \<Rightarrow> dinode \<Rightarrow> dinode" where
  "stamp sz now d = d\<lparr>i_size := sz, i_mtime := now, i_ctime := now, i_atime := (if i_atime d = 0 then now else i_atime d)\<rparr>"

definition store_link :: "u8 list \<Rightarrow> dinode \<Rightarrow> dinode io" where
  "store_link target d st =
     (if length target \<le> CFS_INLINE_MAX
      then (Some (d\<lparr>extent := target @ zeros (CFS_INLINE_MAX - length target), nextents := 0\<rparr>), st)
      else let (b, st1) = alloc_block st
           in if b = 0 then (None, st1)
              else seq_io (raw_write_block b (target @ zeros (BS - length target)))
                     (\<lambda>_. ret ((set_ext 0 b 1 d)\<lparr>nextents := 1\<rparr>)) st1)"

definition store_file :: "u8 list \<Rightarrow> dinode \<Rightarrow> dinode io" where
  "store_file data d =
     (if length data \<le> CFS_INLINE_MAX
      then ret (d\<lparr>extent := data @ zeros (CFS_INLINE_MAX - length data), i_flags := i_flags d OR 1, nextents := 0\<rparr>)
      else store_blocks data (u32_add (length data) (BS - 1) div BS) (d\<lparr>i_flags := i_flags d AND NOT 1\<rparr>))"

text \<open>The inode that the data goes to: the existing one, emptied, or a new one with its entry.\<close>

definition open_inode :: "nat \<Rightarrow> dinode \<Rightarrow> u8 list \<Rightarrow> u16 \<Rightarrow> nat \<Rightarrow> (nat \<times> dinode) io" where
  "open_inode parent pdin leaf mode ftype st =
     (let (ino, st1) = dir_lookup pdin leaf st
      in if ino \<noteq> 0
         then seq_io (read_dinode ino) (\<lambda>d st2.
                if CFS_ISDIR (i_mode d) \<or> \<not> may_access (i_mode d) (i_uid d) (i_gid d) CFS_W st2 then (None, st2)
                else let (d1, st3) = inode_free_data d st2 in (Some (ino, d1\<lparr>i_mode := mode\<rparr>), st3)) st1
         else if \<not> may_access (i_mode pdin) (i_uid pdin) (i_gid pdin) CFS_WX st1 then (None, st1)
         else let (n, st2) = alloc_inode st1
              in if n = 0 then (None, st2)
                 else (case dir_add pdin leaf n ftype st2 of
                         (None, st3) \<Rightarrow> (None, free_inode n st3)
                       | (Some pdin1, st3) \<Rightarrow>
                           seq_io (write_dinode parent pdin1) (\<lambda>_.
                             ret (n, blank_dinode\<lparr>i_mode := mode, i_uid := c_uid st3, i_gid := c_gid st3, i_links := 1,
                                                i_crtime := c_now st3\<rparr>)) st3))"

text \<open>The result \<open>(int) size\<close> is negative for \<open>2 ^ 31\<close> bytes and more, and the caller then aborts.\<close>

definition do_write_file :: "string \<Rightarrow> u8 list \<Rightarrow> int io" where
  "do_write_file path data =
     seq_io (resolve_parent path) (\<lambda>(parent, leaf).
     seq_io (read_dinode parent) (\<lambda>pdin.
       let is_link = (take 10 data = VFS_SYMLINK_MAGIC); target = drop 10 data
       in if is_link \<and> length target > BS - 1 then fail
          else seq_io (open_inode parent pdin leaf (if is_link then 0xA1FF else 0x81A4) (if is_link then 7 else 1)) (\<lambda>(ino, d).
               seq_io (if is_link then store_link target d else store_file data d) (\<lambda>d1 st.
               seq_io (write_dinode ino (stamp (if is_link then length target else length data) (c_now st) d1)) (\<lambda>_.
               seq_io (puts sync_super) (\<lambda>_.
               ret (to_int (length data)))) st))))"

definition do_mkdir :: "string \<Rightarrow> int io" where
  "do_mkdir path =
     seq_io (resolve_parent path) (\<lambda>(parent, leaf).
     seq_io (read_dinode parent) (\<lambda>pdin st.
       if \<not> may_access (i_mode pdin) (i_uid pdin) (i_gid pdin) CFS_WX st then (None, st)
       else let (i, st1) = dir_lookup pdin leaf st
            in if i \<noteq> 0 then (None, st1)
               else let (ino, st2) = alloc_inode st1
                    in if ino = 0 then (None, st2)
                       else let (b, st3) = alloc_block st2
                            in if b = 0 then (None, free_inode ino st3)
                               else seq_io (raw_write_block b (dir_init_block ino parent)) (\<lambda>_.
                                    seq_io (write_dinode ino ((root_dinode (c_now st3) b)\<lparr>i_uid := c_uid st3, i_gid := c_gid st3\<rparr>)) (\<lambda>_ st4.
                                    (case dir_add pdin leaf ino 2 st4 of
                                       (None, st5) \<Rightarrow> (None, free_inode ino (free_block b st5))
                                     | (Some pd, st5) \<Rightarrow>
                                         seq_io (write_dinode parent (pd\<lparr>i_links := i_links pd + 1, i_mtime := c_now st5, i_ctime := c_now st5\<rparr>))
                                           (\<lambda>_. seq_io (puts sync_super) (\<lambda>_. ret 0)) st5))) st3))"

text \<open>What \<open>rmdir\<close> and \<open>unlink\<close> have in common: parent, its inode, name, number and inode.\<close>

definition find_victim :: "string \<Rightarrow> (nat \<times> dinode \<times> u8 list \<times> nat \<times> dinode) io" where
  "find_victim path =
     seq_io (resolve_parent path) (\<lambda>(parent, leaf).
     seq_io (read_dinode parent) (\<lambda>pdin st.
       if \<not> may_access (i_mode pdin) (i_uid pdin) (i_gid pdin) CFS_WX st then (None, st)
       else let (ino, st1) = dir_lookup pdin leaf st
            in if ino = 0 then (None, st1)
               else seq_io (read_dinode ino) (\<lambda>d. ret (parent, pdin, leaf, ino, d)) st1))"

definition do_rmdir :: "string \<Rightarrow> int io" where
  "do_rmdir path =
     seq_io (find_victim path) (\<lambda>(parent, pdin, leaf, ino, d) st.
       if \<not> CFS_ISDIR (i_mode d) then (None, st)
       else let (e, st1) = dir_is_empty d st
            in if \<not> e then (None, st1)
               else seq_io (dir_remove pdin leaf) (\<lambda>_ st2.
                    seq_io (write_dinode parent (pdin\<lparr>i_links := (if i_links pdin > 0 then i_links pdin - 1 else 0),
                                                     i_mtime := c_now st2, i_ctime := c_now st2\<rparr>)) (\<lambda>_ st3.
                      (Some 0, sync_super (free_inode ino (snd (inode_free_data d st3))))) st2) st1)"

definition do_unlink :: "string \<Rightarrow> int io" where
  "do_unlink path =
     seq_io (find_victim path) (\<lambda>(parent, pdin, leaf, ino, d) st.
       if CFS_ISDIR (i_mode d) then (None, st)
       else seq_io (dir_remove pdin leaf) (\<lambda>_ st1.
            seq_io (write_dinode parent (pdin\<lparr>i_mtime := c_now st1, i_ctime := c_now st1\<rparr>)) (\<lambda>_ st2.
              let l = (if i_links d > 0 then i_links d - 1 else 0)
              in (Some 0, sync_super (if l = 0 then free_inode ino (snd (inode_free_data d st2))
                                      else snd (write_dinode ino (d\<lparr>i_links := l\<rparr>) st2)))) st1) st)"

definition do_link :: "string \<Rightarrow> string \<Rightarrow> int io" where
  "do_link oldpath newpath =
     seq_io (path_inode oldpath) (\<lambda>(oino, od).
       if CFS_ISDIR (i_mode od) then fail
       else seq_io (resolve_parent newpath) (\<lambda>(parent, leaf).
            seq_io (read_dinode parent) (\<lambda>pd st.
              if \<not> may_access (i_mode pd) (i_uid pd) (i_gid pd) CFS_WX st then (None, st)
              else let (i, st1) = dir_lookup pd leaf st
                   in if i \<noteq> 0 then (None, st1)
                      else seq_io (dir_add pd leaf oino (if CFS_ISLNK (i_mode od) then 7 else 1)) (\<lambda>pd1.
                           seq_io (write_dinode parent pd1) (\<lambda>_ st2.
                           seq_io (write_dinode oino (od\<lparr>i_links := i_links od + 1, i_ctime := c_now st2\<rparr>)) (\<lambda>_. ret 0) st2)) st1)))"

definition do_chmod :: "string \<Rightarrow> u16 \<Rightarrow> int io" where
  "do_chmod path perm = seq_io (path_inode path) (\<lambda>(ino, d) st.
     if c_uid st \<noteq> 0 \<and> c_uid st \<noteq> i_uid d then (None, st)
     else seq_io (write_dinode ino (d\<lparr>i_mode := (i_mode d AND 0xF000) OR (perm AND 0xFFF), i_ctime := c_now st\<rparr>)) (\<lambda>_. ret 0) st)"

definition do_chown :: "string \<Rightarrow> u32 \<Rightarrow> u32 \<Rightarrow> int io" where
  "do_chown path uid gid st =
     (if c_uid st \<noteq> 0 then (None, st)
      else seq_io (path_inode path) (\<lambda>(ino, d).
             seq_io (write_dinode ino (d\<lparr>i_uid := (if uid \<noteq> - 1 then uid else i_uid d),
                                        i_gid := (if gid \<noteq> - 1 then gid else i_gid d), i_ctime := c_now st\<rparr>)) (\<lambda>_. ret 0)) st)"

section \<open>Transactions around the operations\<close>

definition in_txn :: "int io \<Rightarrow> cfs \<Rightarrow> int \<times> cfs" where
  "in_txn m st =
     (case m (txn_begin st) of
        (None, st1) \<Rightarrow> (-1, txn_abort st1)
      | (Some rc, st1) \<Rightarrow>
          if rc < 0 then (-1, txn_abort st1)
          else (case txn_commit st1 of (None, st2) \<Rightarrow> (-1, st2) | (Some _, st2) \<Rightarrow> (rc, st2)))"

definition cfs_write_file :: "string \<Rightarrow> u8 list \<Rightarrow> cfs \<Rightarrow> int \<times> cfs" where
  "cfs_write_file path data = in_txn (do_write_file path data)"

definition cfs_mkdir :: "string \<Rightarrow> cfs \<Rightarrow> int \<times> cfs" where
  "cfs_mkdir path = in_txn (do_mkdir path)"

definition cfs_rmdir :: "string \<Rightarrow> cfs \<Rightarrow> int \<times> cfs" where
  "cfs_rmdir path = in_txn (do_rmdir path)"

definition cfs_unlink :: "string \<Rightarrow> cfs \<Rightarrow> int \<times> cfs" where
  "cfs_unlink path = in_txn (do_unlink path)"

definition cfs_link :: "string \<Rightarrow> string \<Rightarrow> cfs \<Rightarrow> int \<times> cfs" where
  "cfs_link oldpath newpath = in_txn (do_link oldpath newpath)"

definition cfs_chmod :: "string \<Rightarrow> u16 \<Rightarrow> cfs \<Rightarrow> int \<times> cfs" where
  "cfs_chmod path perm = in_txn (do_chmod path perm)"

definition cfs_chown :: "string \<Rightarrow> u32 \<Rightarrow> u32 \<Rightarrow> cfs \<Rightarrow> int \<times> cfs" where
  "cfs_chown path uid gid = in_txn (do_chown path uid gid)"

section \<open>The table for the VFS\<close>

definition vop_read_at :: "string \<Rightarrow> nat \<Rightarrow> nat \<Rightarrow> cfs \<Rightarrow> (int \<times> u8 list) \<times> cfs" where
  "vop_read_at path offset len st =
     (case cfs_read_at path offset len st of
        (None, st1) \<Rightarrow> ((-1, []), st1)
      | (Some bs, st1) \<Rightarrow> ((to_int (length bs), bs), st1))"

definition vop_list :: "string \<Rightarrow> int \<Rightarrow> cfs \<Rightarrow> (int \<times> vfs_dirent list) \<times> cfs" where
  "vop_list path n st =
     (case cfs_list path (nat n) st of
        (None, st1) \<Rightarrow> ((-1, []), st1)
      | (Some es, st1) \<Rightarrow> ((int (length es), es), st1))"

definition vop_cp :: "string \<Rightarrow> string \<Rightarrow> cfs \<Rightarrow> int \<times> cfs" where
  "vop_cp s d st =
     (case cfs_read_file s 65536 st of
        (None, st1) \<Rightarrow> (-1, st1)
      | (Some bs, st1) \<Rightarrow> (let (r, st2) = cfs_write_file d bs st1 in (if r < 0 then -1 else 0, st2)))"

definition vop_mv :: "string \<Rightarrow> string \<Rightarrow> cfs \<Rightarrow> int \<times> cfs" where
  "vop_mv s d st = (let (r, st1) = vop_cp s d st in if r < 0 then (-1, st1) else cfs_unlink s st1)"

definition cfs_ops :: "cfs vfs_ops" where
  "cfs_ops = \<lparr>op_list = Some (\<lambda>p n w. Some (vop_list p n w)),
     op_is_dir = Some (\<lambda>p w. let (b, w1) = cfs_is_dir p w in Some (if b then 1 else 0, w1)),
     op_read_file = Some (\<lambda>p n w. Some (vop_read_at p 0 n w)), op_read_file_at = Some (\<lambda>p off n w. Some (vop_read_at p off n w)),
     op_write_file = Some (\<lambda>p d w. Some (cfs_write_file p d w)), op_delete_file = Some (\<lambda>p w. Some (cfs_unlink p w)),
     op_mkdir = Some (\<lambda>p w. Some (cfs_mkdir p w)), op_rmdir = Some (\<lambda>p w. Some (cfs_rmdir p w)),
     op_cp = Some (\<lambda>s d w. Some (vop_cp s d w)), op_mv = Some (\<lambda>s d w. Some (vop_mv s d w)),
     op_link = Some (\<lambda>p q w. Some (cfs_link p q w)), op_chmod = Some (\<lambda>p m w. Some (cfs_chmod p (of_nat m) w)),
     op_chown = Some (\<lambda>p u g w. Some (cfs_chown p (of_nat u) (of_nat g) w))\<rparr>"

end
