(* ===== verification/Cfs_Alloc.thy ===== *)
theory Cfs_Alloc
  imports Cfs
begin

text \<open>
  What the metadata operations see: the blocks of the running transaction over those of the
  disk.  The bitmap allocator hands out the lowest free number and marks exactly it.
\<close>

section \<open>Block stores\<close>

text \<open>
  A store of blocks: reading returns the current contents, a write that succeeds replaces
  one block.  Both the raw disk and the transaction are such stores.
\<close>

locale block_store =
  fixes rd :: "nat \<Rightarrow> u8 list io" and wr_blk :: "nat \<Rightarrow> u8 list \<Rightarrow> unit io"
    and view :: "cfs \<Rightarrow> nat \<Rightarrow> u8 list" and ok :: "cfs \<Rightarrow> bool"
  assumes read_law: "ok st \<Longrightarrow> b < total_blocks st \<Longrightarrow> rd b st = (Some (view st b), st)"
    and write_law: "ok st \<Longrightarrow> b < total_blocks st \<Longrightarrow> length buf = BS \<Longrightarrow> wr_blk b buf st = (Some (), st') \<Longrightarrow>
      ok st' \<and> view st' = (view st)(b := buf) \<and> total_blocks st' = total_blocks st"
    and fail_law: "wr_blk b buf st = (None, st') \<Longrightarrow> ok st \<Longrightarrow> b < total_blocks st \<Longrightarrow> st' = st"
begin

lemma read_after_write:
  assumes "ok st" "b < total_blocks st" "c < total_blocks st" "length buf = BS" "wr_blk b buf st = (Some (), st')"
  shows "rd c st' = (Some (if c = b then buf else view st c), st')"
  using write_law [OF assms(1,2,4,5)] read_law [of st' c] assms(3) by simp

text \<open>Reading a block, changing it and writing it back.\<close>

lemma modify_block:
  assumes "ok st" "b < total_blocks st" "\<And>buf. length buf = BS \<Longrightarrow> length (f buf) = BS" "length (view st b) = BS"
    and "seq_io (rd b) (\<lambda>buf. wr_blk b (f buf)) st = (r, st')"
  shows "(r = Some () \<and> ok st' \<and> view st' = (view st)(b := f (view st b)) \<and> total_blocks st' = total_blocks st) \<or> (r = None \<and> st' = st)"
proof (cases r)
  case None
  then show ?thesis using assms fail_law [of b "f (view st b)" st st'] read_law [OF assms(1,2)] by (simp add: seq_io_def)
next
  case (Some u)
  then show ?thesis using assms write_law [OF assms(1,2), of "f (view st b)" st'] read_law [OF assms(1,2)] by (simp add: seq_io_def)
qed

end

text \<open>The view of the transaction.\<close>

definition mview :: "cfs \<Rightarrow> nat \<Rightarrow> u8 list" where
  "mview st b = (case (if txn_active st then map_of (txn st) b else None) of Some d \<Rightarrow> d | None \<Rightarrow> blk st (c_drive st) b)"

definition meta_ok :: "cfs \<Rightarrow> bool" where
  "meta_ok st \<longleftrightarrow> vol_ok st (c_drive st) \<and> txn_active st \<and> (\<forall>(b, buf) \<in> set (txn st). length buf = BS)"

lemma map_of_txn_put: "map_of (txn_put b buf l) c = (if c = b then Some buf else map_of l c)"
  by (induction l) auto

lemma set_txn_put: "set (txn_put b buf l) \<subseteq> insert (b, buf) (set l)"
  by (induction l) (auto split: if_splits)

lemma blk_state [simp]: "blk (st\<lparr>c_drive := d\<rparr>) d' b = blk st d' b" "blk (st\<lparr>txn := t\<rparr>) d' b = blk st d' b"
  "blk (st\<lparr>free_blocks := n\<rparr>) d' b = blk st d' b" "blk (st\<lparr>free_inodes := n\<rparr>) d' b = blk st d' b"
  by (simp_all add: blk_def)

lemma vol_ok_upd [simp]: "vol_ok (st\<lparr>txn := t\<rparr>) d = vol_ok st d" "vol_ok (st\<lparr>free_blocks := n\<rparr>) d = vol_ok st d"
  "vol_ok (st\<lparr>free_inodes := n\<rparr>) d = vol_ok st d"
  by (simp_all add: vol_ok_def)

lemma length_blk: "vol_ok st d \<Longrightarrow> length (blk st d b) = BS"
  by (simp add: blk_def sectors_def vol_ok_def length_concat comp_def sum_list_triv)

lemma length_mview: "meta_ok st \<Longrightarrow> length (mview st b) = BS"
  using length_blk map_of_SomeD by (fastforce simp: meta_ok_def mview_def split: option.split)

lemma bd_write_effect:
  assumes "meta_ok st" "length buf = BS" "bd_write_block b buf st = (Some (), st')"
  shows "st' = st\<lparr>txn := txn_put b buf (txn st)\<rparr>" "meta_ok st'" "mview st' = (mview st)(b := buf)"
proof -
  show st': "st' = st\<lparr>txn := txn_put b buf (txn st)\<rparr>"
    using assms(1,3) by (auto simp: meta_ok_def bd_write_block_def split: if_splits)
  show "meta_ok st'" using assms(1,2) set_txn_put [of b buf "txn st"] by (auto simp: meta_ok_def st')
  show "mview st' = (mview st)(b := buf)"
    using assms(1) by (auto simp: fun_eq_iff mview_def st' meta_ok_def map_of_txn_put split: option.split)
qed

interpretation meta: block_store bd_read_block bd_write_block mview meta_ok
proof
  fix st b assume "meta_ok st" "b < total_blocks st"
  then show "bd_read_block b st = (Some (mview st b), st)"
    using raw_read_eq [of st b] by (auto simp: meta_ok_def bd_read_block_def mview_def txn_find_def split: option.split)
next
  fix st b and buf :: "u8 list" and st' assume "meta_ok st" "b < total_blocks st" "length buf = BS" "bd_write_block b buf st = (Some (), st')"
  then show "meta_ok st' \<and> mview st' = (mview st)(b := buf) \<and> total_blocks st' = total_blocks st"
    using bd_write_effect [of st buf b st'] by simp
next
  fix b buf st st' assume "bd_write_block b buf st = (None, st')" "meta_ok st"
  then show "st' = st" by (auto simp: bd_write_block_def meta_ok_def split: if_splits)
qed

text \<open>The raw disk is another such store.\<close>

interpretation disk: block_store raw_read_block raw_write_block "\<lambda>st. blk st (c_drive st)" "\<lambda>st. vol_ok st (c_drive st)"
proof
  fix st b assume "vol_ok st (c_drive st)" "b < total_blocks st"
  then show "raw_read_block b st = (Some (blk st (c_drive st) b), st)" by (rule raw_read_eq)
next
  fix st b and buf :: "u8 list" and st'
  assume a: "vol_ok st (c_drive st)" "b < total_blocks st" "length buf = BS" "raw_write_block b buf st = (Some (), st')"
  then have st': "st' = st\<lparr>c_drive := put_all (wr st [(b, buf)]) (c_drive st)\<rparr>" using raw_write_eq [OF a(1,2), of buf] by simp
  have "vol_ok st (put_all (wr st [(b, buf)]) (c_drive st))"
    by (rule vol_ok_put [OF a(1)]) (use wr_lengths [of "[(b, buf)]" _ _ st] a(3) in fastforce)
  moreover have "blk st (put_all (wr st [(b, buf)]) (c_drive st)) c = ((blk st (c_drive st))(b := buf)) c" for c
    using blk_wr [of "[(b, buf)]" st "c_drive st" c] a(3) by simp
  ultimately show "vol_ok st' (c_drive st') \<and> blk st' (c_drive st') = (blk st (c_drive st))(b := buf) \<and> total_blocks st' = total_blocks st"
    by (simp add: st' fun_eq_iff del: wr_simps)
next
  fix b buf st st' assume "raw_write_block b buf st = (None, st')" "vol_ok st (c_drive st)" "b < total_blocks st"
  then show "st' = st" using raw_write_eq [of st b buf] by simp
qed

section \<open>Bits\<close>

lemma length_put_bit [simp]: "length (put_bit buf t v) = length buf"
  by (simp add: put_bit_def Let_def)

lemma div_mod_8: "(u :: nat) div 8 = t div 8 \<Longrightarrow> u mod 8 = t mod 8 \<Longrightarrow> u = t"
  by (metis div_mult_mod_eq)

lemma bit_at_put_bit:
  assumes "length buf = BS" "t < BS * 8" "u < BS * 8"
  shows "bit_at (put_bit buf t v) u = (if u = t then v else bit_at buf u)"
proof (cases "u div 8 = t div 8")
  case True
  have l: "t div 8 < length buf" "u mod 8 < 8" using assms by auto
  have "bit (x OR push_bit (t mod 8) 1) (u mod 8) = (bit x (u mod 8) \<or> u mod 8 = t mod 8)" for x :: u8
    using bit_set_mask [of "u mod 8" x "t mod 8"] l(2) by simp
  moreover have "bit (x AND NOT (push_bit (t mod 8) 1)) (u mod 8) = (bit x (u mod 8) \<and> u mod 8 \<noteq> t mod 8)" for x :: u8
    using bit_clear_mask [of x "t mod 8" "u mod 8"] by simp
  ultimately show ?thesis using True l(1) div_mod_8 [OF True] by (auto simp: bit_at_def put_bit_def Let_def)
next
  case False
  then show ?thesis by (auto simp: bit_at_def put_bit_def Let_def)
qed

lemma full_byte: "buf ! (t div 8) = 0xFF \<Longrightarrow> bit_at buf t"
proof -
  have "bit (0xFF :: u8) n" if "n < 8" for n
  proof -
    have "(0xFF :: u8) = mask 8" by (simp add: mask_eq_exp_minus_1)
    then show ?thesis using that by (simp only: bit_mask_iff) simp
  qed
  then show "buf ! (t div 8) = 0xFF \<Longrightarrow> bit_at buf t" by (simp add: bit_at_def)
qed

text \<open>Bit \<open>n\<close> of the bitmap that starts at block \<open>region\<close>.\<close>

definition used :: "cfs \<Rightarrow> nat \<Rightarrow> nat \<Rightarrow> bool" where
  "used st region n = bit_at (mview st (region + n div (BS * 8))) (n mod (BS * 8))"

text \<open>The bitmap of \<open>limit\<close> numbers lies on the volume.\<close>

definition map_ok :: "cfs \<Rightarrow> nat \<Rightarrow> nat \<Rightarrow> bool" where
  "map_ok st region limit \<longleftrightarrow> meta_ok st \<and> region + bitmap_blocks limit \<le> total_blocks st"

lemma scan_block_None:
  assumes "scan_block buf base limit first = None" "t < BS * 8" "first \<le> base + t"
  shows "base + t < limit \<and> bit_at buf t \<or> buf ! (t div 8) = 0xFF"
proof -
  have "t \<in> set [0..<BS * 8]" using assms(2) by simp
  then have "\<not> (buf ! (t div 8) \<noteq> 0xFF \<and> (limit \<le> base + t \<or> first \<le> base + t \<and> \<not> bit_at buf t))"
    using assms(1) unfolding scan_block_def find_None_iff by blast
  then show ?thesis using assms(3) by auto
qed

lemma scan_block_Some:
  assumes "scan_block buf base limit first = Some t"
  shows "t < BS * 8" "limit \<le> base + t \<or> first \<le> base + t \<and> \<not> bit_at buf t"
    "u < t \<Longrightarrow> first \<le> base + u \<Longrightarrow> base + u < limit \<Longrightarrow> bit_at buf u"
proof -
  from assms obtain i where i: "i < length [0..<BS * 8]" "t = [0..<BS * 8] ! i"
    "buf ! (t div 8) \<noteq> 0xFF \<and> (limit \<le> base + t \<or> first \<le> base + t \<and> \<not> bit_at buf t)"
    "\<forall>j < i. \<not> (buf ! ([0..<BS * 8] ! j div 8) \<noteq> 0xFF \<and> (limit \<le> base + [0..<BS * 8] ! j \<or> first \<le> base + [0..<BS * 8] ! j \<and> \<not> bit_at buf ([0..<BS * 8] ! j)))"
    unfolding scan_block_def find_Some_iff by blast
  have t: "t = i" "i < BS * 8" using i(1,2) by auto
  then show "t < BS * 8" "limit \<le> base + t \<or> first \<le> base + t \<and> \<not> bit_at buf t" using i(3) by auto
  assume u: "u < t" "first \<le> base + u" "base + u < limit"
  then have "[0..<BS * 8] ! u = u" using t by simp
  then have "\<not> (buf ! (u div 8) \<noteq> 0xFF \<and> (limit \<le> base + u \<or> first \<le> base + u \<and> \<not> bit_at buf u))" using i(4) u(1) t(1) by metis
  then show "bit_at buf u" using u(2,3) full_byte by auto
qed

lemma counts [simp]:
  "mview (st\<lparr>free_blocks := n\<rparr>) = mview st" "mview (st\<lparr>free_inodes := n\<rparr>) = mview st"
  "used (st\<lparr>free_blocks := n\<rparr>) = used st" "used (st\<lparr>free_inodes := n\<rparr>) = used st"
  "map_ok (st\<lparr>free_blocks := n\<rparr>) = map_ok st" "map_ok (st\<lparr>free_inodes := n\<rparr>) = map_ok st"
  by (auto simp: fun_eq_iff mview_def used_def map_ok_def meta_ok_def split: option.split)

text \<open>What taking number \<open>b\<close> does to the transaction.\<close>

definition taken :: "cfs \<Rightarrow> nat \<Rightarrow> nat \<Rightarrow> cfs" where
  "taken st region b = st\<lparr>txn := txn_put (region + b div (BS * 8))
     (put_bit (mview st (region + b div (BS * 8))) (b mod (BS * 8)) True) (txn st)\<rparr>"

definition all_used :: "cfs \<Rightarrow> nat \<Rightarrow> nat \<Rightarrow> nat \<Rightarrow> bool" where
  "all_used st region first limit \<longleftrightarrow> (\<forall>c. first \<le> c \<longrightarrow> c < limit \<longrightarrow> used st region c)"

lemma used_block: "t < BS * 8 \<Longrightarrow> used st region (bb * (BS * 8) + t) = bit_at (mview st (region + bb)) t"
  by (simp add: used_def)

lemma number_split: "bb * (BS * 8) \<le> c \<Longrightarrow> c < Suc bb * (BS * 8) \<Longrightarrow> \<exists>t < BS * 8. c = bb * (BS * 8) + t"
  by (rule exI [of _ "c - bb * (BS * 8)"]) auto

lemma scan_bitmap_correct:
  assumes "map_ok st region limit" "bb + n = bitmap_blocks limit" "all_used st region first (min limit (bb * (BS * 8)))"
    and "scan_bitmap region limit first bb n st = (r, st')"
  shows "case r of
      Some b \<Rightarrow> first \<le> b \<and> b < limit \<and> \<not> used st region b \<and> all_used st region first b \<and> st' = taken st region b
    | None \<Rightarrow> st' = st \<and> (all_used st region first limit \<or> CFS_MAX_TXN \<le> length (txn st))"
  using assms(2-4)
proof (induction n arbitrary: bb)
  case 0
  have "limit \<le> bitmap_blocks limit * (BS * 8)" by (simp add: bitmap_blocks_def)
  then show ?case using 0 by (auto simp: min_def)
next
  case (Suc n)
  let ?base = "bb * (BS * 8)"
  define buf where "buf = mview st (region + bb)"
  have m: "meta_ok st" "region + bb < total_blocks st" using assms(1) Suc.prems(1) by (auto simp: map_ok_def)
  have rd: "bd_read_block (region + bb) st = (Some buf, st)" using meta.read_law [OF m] by (simp add: buf_def)
  have bits: "used st region (?base + t) = bit_at buf t" if "t < BS * 8" for t using used_block [OF that] by (simp add: buf_def)
  have low: "used st region c" if "first \<le> c" "c < limit" "c < ?base" for c using Suc.prems(2) that by (simp add: all_used_def)
  show ?case
  proof (cases "scan_block buf ?base limit first")
    case None
    have "all_used st region first (min limit ((bb + 1) * (BS * 8)))" unfolding all_used_def
    proof (intro allI impI)
      fix c assume c: "first \<le> c" "c < min limit ((bb + 1) * (BS * 8))"
      show "used st region c"
      proof (cases "c < ?base")
        case False
        then obtain t where t: "t < BS * 8" "c = ?base + t" using number_split [of bb c] c(2) by auto
        then show ?thesis using scan_block_None [OF None t(1)] c(1) bits [OF t(1)] full_byte by auto
      qed (use low c in auto)
    qed
    moreover have "scan_bitmap region limit first (bb + 1) n st = (r, st')"
      using Suc.prems(3) rd None by (simp add: seq_io_def)
    ultimately show ?thesis using Suc.IH [of "bb + 1"] Suc.prems(1) by simp
  next
    case (Some t)
    note S = scan_block_Some [OF Some]
    have before: "used st region c" if c: "first \<le> c" "c < limit" "c < ?base + t" for c
    proof (cases "c < ?base")
      case False
      then obtain u where u: "u < t" "c = ?base + u" using c(3) by (metis add_less_cancel_left le_Suc_ex not_le)
      then show ?thesis using S(3) [OF u(1)] c bits [of u] S(1) by simp
    qed (use low c in auto)
    show ?thesis
    proof (cases "limit \<le> ?base + t")
      case True
      then have "r = None" "st' = st" using Suc.prems(3) rd Some by (auto simp: seq_io_def fail_def)
      moreover have "all_used st region first limit" using before True by (simp add: all_used_def)
      ultimately show ?thesis by simp
    next
      case False
      have b: "(?base + t) div (BS * 8) = bb" "(?base + t) mod (BS * 8) = t" using S(1) by simp_all
      have sc: "seq_io (bd_write_block (region + bb) (put_bit buf t True)) (\<lambda>_. ret (?base + t)) st = (r, st')"
        using Suc.prems(3) rd Some False by (simp add: seq_io_def)
      show ?thesis
      proof (cases "bd_write_block (region + bb) (put_bit buf t True) st")
        case (Pair q st1)
        show ?thesis
        proof (cases q)
          case None
          then have "r = None" "st' = st1" "st1 = st" using sc Pair meta.fail_law [OF _ m] by (auto simp: seq_io_def)
          moreover have "CFS_MAX_TXN \<le> length (txn st)"
            using Pair None m(1) by (auto simp: bd_write_block_def meta_ok_def split: if_splits)
          ultimately show ?thesis by simp
        next
          case (Some u)
          have "length (put_bit buf t True) = BS" using length_mview [OF m(1)] by (simp add: buf_def)
          from bd_write_effect(1) [OF m(1) this] have "st1 = taken st region (?base + t)"
            using Pair Some unfolding taken_def b by (simp add: buf_def)
          moreover have "r = Some (?base + t)" "st' = st1" using sc Pair Some by (auto simp: seq_io_def ret_def)
          moreover have "\<not> used st region (?base + t)" "first \<le> ?base + t" using S(2) False bits [OF S(1)] by auto
          ultimately show ?thesis using False before by (auto simp: all_used_def)
        qed
      qed
    qed
  qed
qed

lemma taken_effect:
  assumes "map_ok st region limit" "b < limit"
  shows "map_ok (taken st region b) region limit" "used (taken st region b) region c = (used st region c \<or> c = b)"
    "n \<noteq> region + b div (BS * 8) \<Longrightarrow> mview (taken st region b) n = mview st n"
    "c_drive (taken st region b) = c_drive st"
proof -
  have m: "meta_ok st" using assms(1) by (simp add: map_ok_def)
  let ?n = "region + b div (BS * 8)" and ?buf = "put_bit (mview st (region + b div (BS * 8))) (b mod (BS * 8)) True"
  have mv: "mview (taken st region b) = (mview st)(?n := ?buf)"
    using m by (auto simp: fun_eq_iff mview_def taken_def meta_ok_def map_of_txn_put split: option.split)
  have len: "length (mview st ?n) = BS" by (rule length_mview [OF m])
  have "meta_ok (taken st region b)" using m set_txn_put [of ?n ?buf "txn st"] len by (auto simp: meta_ok_def taken_def)
  then show "map_ok (taken st region b) region limit" using assms(1) by (simp add: map_ok_def taken_def)
  show "n \<noteq> ?n \<Longrightarrow> mview (taken st region b) n = mview st n" by (simp add: mv)
  show "c_drive (taken st region b) = c_drive st" by (simp add: taken_def)
  have bt: "bit_at ?buf (c mod (BS * 8)) = (if c mod (BS * 8) = b mod (BS * 8) then True else bit_at (mview st ?n) (c mod (BS * 8)))"
    by (rule bit_at_put_bit [OF len]) auto
  show "used (taken st region b) region c = (used st region c \<or> c = b)"
  proof (cases "c div (BS * 8) = b div (BS * 8)")
    case True
    then have "c mod (BS * 8) = b mod (BS * 8) \<longleftrightarrow> c = b" by (metis div_mult_mod_eq)
    then show ?thesis using True bt by (auto simp: used_def mv)
  qed (auto simp: used_def mv)
qed

section \<open>Allocation\<close>

lemma alloc_block_effect:
  assumes "map_ok st (block_bitmap_start st) (total_blocks st)" "0 < data_start st" "alloc_block st = (b, st')"
  shows "if b = 0
    then st' = st \<and> (all_used st (block_bitmap_start st) (data_start st) (total_blocks st) \<or> CFS_MAX_TXN \<le> length (txn st))
    else data_start st \<le> b \<and> b < total_blocks st \<and> \<not> used st (block_bitmap_start st) b \<and>
      all_used st (block_bitmap_start st) (data_start st) b \<and>
      (\<forall>c. used st' (block_bitmap_start st) c = (used st (block_bitmap_start st) c \<or> c = b)) \<and>
      map_ok st' (block_bitmap_start st) (total_blocks st) \<and> free_blocks st' = u64_sub (free_blocks st) 1 \<and> c_drive st' = c_drive st"
proof -
  let ?r = "block_bitmap_start st" and ?n = "total_blocks st"
  obtain r st1 where sc: "scan_bitmap ?r ?n (data_start st) 0 (bitmap_blocks ?n) st = (r, st1)" by force
  have "all_used st ?r (data_start st) (min ?n (0 * (BS * 8)))" by (simp add: all_used_def)
  note R = scan_bitmap_correct [OF assms(1) _ this sc]
  show ?thesis
  proof (cases r)
    case None
    then show ?thesis using R assms(3) sc by (simp add: alloc_block_def)
  next
    case (Some b')
    then have b: "data_start st \<le> b'" "b' < ?n" "\<not> used st ?r b'" "all_used st ?r (data_start st) b'" "st1 = taken st ?r b'"
      using R by auto
    have s: "b = b'" "st' = st1\<lparr>free_blocks := u64_sub (free_blocks st1) 1\<rparr>" using assms(3) sc Some by (simp_all add: alloc_block_def)
    have "map_ok st1 ?r ?n" "\<forall>c. used st1 ?r c = (used st ?r c \<or> c = b')" "c_drive st1 = c_drive st"
      using taken_effect [OF assms(1) b(2)] b(5) by auto
    moreover have "free_blocks st1 = free_blocks st" by (simp add: b(5) taken_def)
    ultimately show ?thesis using b assms(2) unfolding s by simp
  qed
qed

section \<open>Properties\<close>

text \<open>C31. Inside a transaction, \<open>alloc_block\<close> returns the lowest free data block and marks exactly it
  as used, or returns 0 and changes nothing, and then every data block is in use or the
  transaction is full; so no block is handed out twice before it is freed.\<close>

theorem alloc_block_correct:
  assumes "map_ok st (block_bitmap_start st) (total_blocks st)" "0 < data_start st" "alloc_block st = (b, st')"
  shows "if b = 0
    then st' = st \<and> (all_used st (block_bitmap_start st) (data_start st) (total_blocks st) \<or> CFS_MAX_TXN \<le> length (txn st))
    else data_start st \<le> b \<and> b < total_blocks st \<and> \<not> used st (block_bitmap_start st) b \<and>
      all_used st (block_bitmap_start st) (data_start st) b \<and>
      (\<forall>c. used st' (block_bitmap_start st) c = (used st (block_bitmap_start st) c \<or> c = b)) \<and>
      map_ok st' (block_bitmap_start st) (total_blocks st) \<and> free_blocks st' = u64_sub (free_blocks st) 1 \<and> c_drive st' = c_drive st"
  by (rule alloc_block_effect [OF assms])

lemma blk_sample: "blk st sample_drive b = zeros 4096"
proof -
  have "set (blk st sample_drive b) \<subseteq> {0}" by (auto simp: blk_def sectors_def sample_drive_def zeros_def)
  moreover have "length (blk st sample_drive b) = 4096"
    by (simp add: blk_def sectors_def sample_drive_def length_concat comp_def sum_list_triv)
  ultimately show ?thesis unfolding zeros_def by (intro replicate_eqI) auto
qed

definition sample_txn :: cfs where
  "sample_txn = sample_volume\<lparr>txn_active := True\<rparr>"

lemma sample_map_ok: "map_ok sample_txn 4 64"
  using sample_vol_ok by (simp add: map_ok_def meta_ok_def sample_txn_def vol_ok_def sample_volume_def bitmap_blocks_def)

lemma sample_unused: "\<not> used sample_txn region c"
proof -
  have "mview sample_txn b = zeros 4096" for b by (simp add: mview_def sample_txn_def sample_volume_def blk_sample)
  moreover have "c mod 32768 div 8 < 4096" by (simp add: less_mult_imp_div_less)
  ultimately show ?thesis by (simp add: used_def bit_at_def zeros_def)
qed

theorem alloc_block_correct_witness: "fst (alloc_block sample_txn) = 10"
proof -
  obtain b st' where a: "alloc_block sample_txn = (b, st')" by force
  have f: "block_bitmap_start sample_txn = 4" "total_blocks sample_txn = 64" "data_start sample_txn = 10" "txn sample_txn = []"
    by (simp_all add: sample_txn_def sample_volume_def)
  note A = alloc_block_correct [of sample_txn b st', unfolded f, OF sample_map_ok _ a]
  have "b \<noteq> 0"
  proof
    assume "b = 0"
    then have "used sample_txn 4 10" using A by (simp add: all_used_def)
    then show False using sample_unused by blast
  qed
  then have "10 \<le> b" "\<forall>c. 10 \<le> c \<longrightarrow> c < b \<longrightarrow> used sample_txn 4 c" using A by (auto simp: all_used_def)
  then have "b = 10" using sample_unused by (metis le_neq_implies_less le_refl)
  then show ?thesis using a by simp
qed

end
