(* ===== verification/Cfs_File.thy ===== *)
theory Cfs_File
  imports Cfs_Alloc
begin

text \<open>
  File contents: what is stored in the blocks of an inode, or inside the inode itself, is what a
  later read returns; extents are merged on the way.
\<close>

section \<open>Extents\<close>

lemma ext_set_ext:
  assumes "e < 12" "e' < 12" "length (extent d) = 144" "s < 2 ^ 64" "c < 2 ^ 32"
  shows "ext_start (set_ext e s c d) e' = (if e' = e then s else ext_start d e')"
    "ext_count (set_ext e s c d) e' = (if e' = e then c else ext_count d e')"
proof -
  let ?new = "le_image 8 s @ le_image 4 c"
  have l: "length ?new = 12" by simp
  have "field (set_bytes (extent d) (12 * e) ?new) (12 * e' + k) w = (if e' = e then field ?new k w else field (extent d) (12 * e' + k) w)"
    if "k + w \<le> 12" for k w
  proof (cases e e' rule: linorder_cases)
    case less
    then show ?thesis using field_set_after [of "12 * e" ?new "12 * e' + k" "extent d" w] assms(1,3) l by simp
  next
    case equal
    then show ?thesis using field_set_in [of "12 * e" "extent d" k w ?new] assms(1,3) l that by simp
  next
    case greater
    then show ?thesis using field_set_before [of "12 * e' + k" w "12 * e" "extent d" ?new] assms(1,3) that by simp
  qed
  note F = this [of 0 8] this [of 8 4]
  have "field ?new 0 8 = s" "field ?new 8 4 = c"
    using assms(4,5) by (simp_all add: field_def le_val_image del: le_image.simps le_val.simps)
  then show "ext_start (set_ext e s c d) e' = (if e' = e then s else ext_start d e')"
    "ext_count (set_ext e s c d) e' = (if e' = e then c else ext_count d e')"
    using F by (simp_all add: ext_start_def ext_count_def set_ext_def del: le_image.simps)
qed

text \<open>The blocks an extent covers, and an inode whose extents cover \<open>bs\<close>.\<close>

definition run_of :: "dinode \<Rightarrow> nat \<Rightarrow> nat list" where
  "run_of d e = [ext_start d e..<ext_start d e + ext_count d e]"

lemma length_run: "length (run_of d e) = ext_count d e"
  by (simp add: run_of_def)

definition covers :: "dinode \<Rightarrow> nat list \<Rightarrow> bool" where
  "covers d bs \<longleftrightarrow> length (extent d) = 144 \<and> nextents d \<le> 12 \<and> (\<forall>e < nextents d. ext_start d e \<noteq> 0) \<and>
     concat (map (run_of d) [0..<nextents d]) = bs"

lemma map_extents_eq:
  "\<forall>e' \<in> {e..<e + n}. ext_start d e' \<noteq> 0 \<Longrightarrow> logical \<le> fb \<Longrightarrow> fb - logical < length (concat (map (run_of d) [e..<e + n])) \<Longrightarrow>
   map_extents d e n logical fb = concat (map (run_of d) [e..<e + n]) ! (fb - logical)"
proof (induction n arbitrary: e logical)
  case (Suc n)
  have l: "[e..<e + Suc n] = e # [e + 1..<e + 1 + n]" by (simp add: upt_conv_Cons)
  show ?case
  proof (cases "fb < logical + ext_count d e")
    case True
    then have "fb - logical < ext_count d e" "ext_start d e \<noteq> 0" using Suc.prems(1,2) by auto
    then show ?thesis unfolding l using True by (simp add: run_of_def nth_append)
  next
    case False
    then have "map_extents d (e + 1) n (logical + ext_count d e) fb =
        concat (map (run_of d) [e + 1..<e + 1 + n]) ! (fb - (logical + ext_count d e))"
      by (intro Suc.IH) (use Suc.prems l in \<open>auto simp: run_of_def simp del: upt_Suc\<close>)
    moreover have "\<not> fb - logical < ext_count d e" using False by arith
    ultimately show ?thesis unfolding l using False by (simp add: nth_append length_run del: upt_Suc)
  qed
qed simp

lemma map_fileblock_eq: "covers d bs \<Longrightarrow> i < length bs \<Longrightarrow> map_fileblock d i = bs ! i"
  using map_extents_eq [of 0 "nextents d" d 0 i] by (auto simp: covers_def map_fileblock_def)

lemma runs_cong: "(\<And>e. e < n \<Longrightarrow> ext_start d' e = ext_start d e \<and> ext_count d' e = ext_count d e) \<Longrightarrow>
  concat (map (run_of d') [0..<n]) = concat (map (run_of d) [0..<n])"
  by (intro arg_cong [where f = concat] map_cong) (auto simp: run_of_def)

lemma inode_push_extent_covers:
  assumes c: "covers d bs" and p: "inode_push_extent b 1 d = Some d1" and b: "b \<noteq> 0" "b < 2 ^ 64" "length bs < 2 ^ 32 - 1"
  shows "covers d1 (bs @ [b])" "d1 = d\<lparr>extent := extent d1, nextents := nextents d1\<rparr>"
proof -
  let ?n = "nextents d"
  have d: "length (extent d) = 144" "?n \<le> 12" "\<forall>e < ?n. ext_start d e \<noteq> 0" "concat (map (run_of d) [0..<?n]) = bs"
    using c by (auto simp: covers_def)
  show "d1 = d\<lparr>extent := extent d1, nextents := nextents d1\<rparr>"
    using p by (auto simp: inode_push_extent_def Let_def set_ext_def split: if_splits)
  show "covers d1 (bs @ [b])"
  proof (cases "?n > 0 \<and> ext_start d (?n - 1) \<noteq> 0 \<and> ext_start d (?n - 1) + ext_count d (?n - 1) = b")
    case True
    define l where "l = ?n - 1"
    have at: "ext_start d l + ext_count d l = b" using True by (simp add: l_def)
    have n: "?n = Suc l" "l < 12" using True d(2) by (auto simp: l_def)
    have bs: "bs = concat (map (run_of d) [0..<l]) @ run_of d l" using d(4) n(1) by simp
    then have cnt: "ext_count d l < 2 ^ 32 - 1" using b(3) by (simp add: run_of_def)
    have "d1 = set_ext l (ext_start d l) (u32_add (ext_count d l) 1) d"
      using p True unfolding inode_push_extent_def Let_def l_def by (simp only: if_True simp_thms option.inject)
    then have d1: "d1 = set_ext l (ext_start d l) (ext_count d l + 1) d" using cnt by (simp add: u32_add_def)
    have s64: "ext_start d l < 2 ^ 64" using True b(2) by (simp add: l_def)
    have E: "ext_start d1 e = ext_start d e" "ext_count d1 e = (if e = l then ext_count d l + 1 else ext_count d e)" if "e < 12" for e
      using ext_set_ext [OF n(2) that d(1) s64, of "ext_count d l + 1"] cnt by (simp_all add: d1)
    have "concat (map (run_of d1) [0..<l]) = concat (map (run_of d) [0..<l])" by (rule runs_cong) (use E n in auto)
    moreover have "run_of d1 l = run_of d l @ [b]" using E [OF n(2)] at by (simp add: run_of_def)
    ultimately have "concat (map (run_of d1) [0..<Suc l]) = bs @ [b]" using bs by simp
    moreover have "length (extent d1) = 144" "nextents d1 = ?n" using d(1) n(2) by (simp_all add: d1 set_ext_def)
    ultimately show ?thesis using d(2,3) n E by (simp add: covers_def)
  next
    case False
    then have n: "?n < 12" "d1 = (set_ext ?n b 1 d)\<lparr>nextents := ?n + 1\<rparr>"
      using p by (auto simp: inode_push_extent_def Let_def split: if_splits)
    have E: "ext_start d1 e = (if e = ?n then b else ext_start d e)" "ext_count d1 e = (if e = ?n then 1 else ext_count d e)" if "e < 12" for e
      using ext_set_ext [OF n(1) that d(1) b(2), of 1] by (simp_all add: n(2) ext_start_def ext_count_def)
    have "concat (map (run_of d1) [0..<?n]) = bs" unfolding d(4) [symmetric] by (rule runs_cong) (use E n(1) in auto)
    moreover have "run_of d1 ?n = [b]" using E [OF n(1)] by (simp add: run_of_def)
    ultimately have "concat (map (run_of d1) [0..<Suc ?n]) = bs @ [b]" by simp
    moreover have "length (extent d1) = 144" "nextents d1 = Suc ?n" using d(1) n by (simp_all add: set_ext_def)
    ultimately show ?thesis using d(3) n(1) E b(1) by (auto simp: covers_def less_Suc_eq)
  qed
qed

section \<open>Storing\<close>

text \<open>A volume in a transaction, whose bitmap lies below the data blocks; the blocks in use.\<close>

definition file_ok :: "cfs \<Rightarrow> bool" where
  "file_ok st \<longleftrightarrow> map_ok st (block_bitmap_start st) (total_blocks st) \<and> 0 < data_start st \<and>
     block_bitmap_start st + bitmap_blocks (total_blocks st) \<le> data_start st \<and> total_blocks st \<le> 2 ^ 64"

definition uses :: "cfs \<Rightarrow> nat list \<Rightarrow> bool" where
  "uses st bs \<longleftrightarrow> (\<forall>b \<in> set bs. 0 < b \<and> b < total_blocks st \<and> used st (block_bitmap_start st) b)"

abbreviation data_of :: "cfs \<Rightarrow> nat \<Rightarrow> u8 list" where
  "data_of st \<equiv> blk st (c_drive st)"

lemma length_txn_put: "length (txn_put b buf l) \<le> Suc (length l)"
  by (induction l) auto

lemma alloc_block_taken:
  assumes "file_ok st" "alloc_block st = (b, st1)" "b \<noteq> 0"
  shows "st1 = (taken st (block_bitmap_start st) b)\<lparr>free_blocks := free_blocks st1\<rparr>"
proof -
  let ?r = "block_bitmap_start st" and ?n = "total_blocks st"
  obtain r st2 where sc: "scan_bitmap ?r ?n (data_start st) 0 (bitmap_blocks ?n) st = (r, st2)" by force
  have "map_ok st ?r ?n" "all_used st ?r (data_start st) (min ?n (0 * (BS * 8)))" using assms(1) by (simp_all add: all_used_def file_ok_def)
  from scan_bitmap_correct [OF this(1) _ this(2) sc] have "r = Some b \<and> st2 = taken st ?r b"
    using assms(2,3) sc by (cases r) (auto simp: alloc_block_def)
  then show ?thesis using assms(2) sc by (auto simp: alloc_block_def)
qed

lemma alloc_block_frame:
  assumes "file_ok st" "alloc_block st = (b, st1)" "b \<noteq> 0"
  shows "st1 = st\<lparr>txn := txn st1, free_blocks := free_blocks st1\<rparr>" "length (txn st1) \<le> Suc (length (txn st))"
  by (subst (1 2) alloc_block_taken [OF assms], simp add: taken_def)
    (subst alloc_block_taken [OF assms], simp add: taken_def length_txn_put)

definition same_volume :: "cfs \<Rightarrow> cfs \<Rightarrow> bool" where
  "same_volume st st1 \<longleftrightarrow> st1 = st\<lparr>txn := txn st1, free_blocks := free_blocks st1, c_drive := c_drive st1\<rparr>"

lemma same_volume_trans: "same_volume st st1 \<Longrightarrow> same_volume st1 st2 \<Longrightarrow> same_volume st st2"
  by (cases st; cases st1; cases st2) (simp add: same_volume_def)

lemma store_step:
  assumes ok: "file_ok st" and al: "alloc_block st = (b, st1)" "b \<noteq> 0"
    and wr: "raw_write_block b buf st1 = (Some (), st2)" "length buf = BS"
  shows "file_ok st2" "total_blocks st2 = total_blocks st" "b < total_blocks st" "\<not> used st (block_bitmap_start st) b"
    "uses st bs \<Longrightarrow> uses st2 (bs @ [b])" "data_of st2 = (data_of st)(b := buf)" "same_volume st st2"
proof -
  let ?r = "block_bitmap_start st" and ?n = "total_blocks st"
  have m: "map_ok st ?r ?n" "0 < data_start st" "?r + bitmap_blocks ?n \<le> data_start st" using ok by (auto simp: file_ok_def)
  from alloc_block_effect [OF m(1,2) al(1)] have A: "data_start st \<le> b" "b < ?n" "\<not> used st ?r b"
    "\<forall>c. used st1 ?r c = (used st ?r c \<or> c = b)" "map_ok st1 ?r ?n" "c_drive st1 = c_drive st" using al(2) by auto
  have g: "block_bitmap_start st1 = ?r" "total_blocks st1 = ?n" "data_start st1 = data_start st"
    by (subst alloc_block_frame(1) [OF ok al], simp)+
  have v: "vol_ok st1 (c_drive st1)" using A(5) by (simp add: map_ok_def meta_ok_def)
  have b1: "b < total_blocks st1" using A(2) g(2) by simp
  have st2: "st2 = st1\<lparr>c_drive := put_all (wr st1 [(b, buf)]) (c_drive st1)\<rparr>" using raw_write_eq [OF v b1, of buf] wr by simp
  show "same_volume st st2" using alloc_block_frame(1) [OF ok al] by (cases st; cases st1) (simp add: st2 same_volume_def del: wr_simps)
  note D = disk.write_law [OF v b1 wr(2,1)]
  have g2: "block_bitmap_start st2 = ?r" "total_blocks st2 = ?n" "data_start st2 = data_start st" "txn st2 = txn st1" "txn_active st2 = txn_active st1"
    using g by (simp_all add: st2 del: wr_simps)
  have "data_of st1 = data_of st"
    by (subst (2) alloc_block_frame(1) [OF ok al], subst alloc_block_frame(1) [OF ok al]) (simp add: fun_eq_iff blk_def)
  then show dt: "data_of st2 = (data_of st)(b := buf)" using D by simp
  have mv: "mview st2 c = mview st1 c" if "c \<noteq> b" for c
    using D that g2(4,5) by (simp add: mview_def split: option.split)
  have us: "used st2 ?r c = used st1 ?r c" if "c < ?n" for c
  proof -
    have "c div (BS * 8) < bitmap_blocks ?n" using that by (simp add: bitmap_blocks_def less_eq_div_iff_mult_less_eq div_less_iff_less_mult)
    then have "?r + c div (BS * 8) \<noteq> b" using m(3) A(1) by linarith
    then show ?thesis using mv by (simp add: used_def)
  qed
  have "map_ok st2 ?r ?n" using A(5) D g2 unfolding map_ok_def meta_ok_def by simp
  then show "file_ok st2" using ok by (simp add: file_ok_def g2(1-3))
  show "total_blocks st2 = ?n" "b < ?n" "\<not> used st ?r b" using g2 A by auto
  show "uses st bs \<Longrightarrow> uses st2 (bs @ [b])" using us A(2,4) al(2) by (auto simp: uses_def g2(1,2))
qed

lemma store_blocks_effect:
  assumes "store_blocks data n d st = (Some d1, st1)" "file_ok st" "covers d bs" "uses st bs" "length bs + n < 2 ^ 32"
  shows "\<exists>new. covers d1 (bs @ new) \<and> length new = n \<and> uses st1 (bs @ new) \<and> file_ok st1 \<and> d1 = d\<lparr>extent := extent d1, nextents := nextents d1\<rparr> \<and>
    same_volume st st1 \<and>
    (\<forall>b \<in> set bs. data_of st1 b = data_of st b) \<and>
    concat (map (data_of st1) new) = take (n * BS) data @ zeros (n * BS - length data)"
  using assms
proof (induction n arbitrary: data d st bs)
  case 0
  then show ?case by (auto simp: zeros_def same_volume_def)
next
  case (Suc n)
  let ?buf = "take BS data @ zeros (BS - length data)"
  obtain b sa where al: "alloc_block st = (b, sa)" by force
  have b0: "b \<noteq> 0" using Suc.prems(1) al by (auto split: if_splits)
  obtain r sb where wr: "raw_write_block b ?buf sa = (r, sb)" by force
  obtain d2 where d2: "r = Some ()" "inode_push_extent b 1 d = Some d2" "store_blocks (drop BS data) n d2 sb = (Some d1, st1)"
    using Suc.prems(1) al b0 wr by (auto simp: seq_io_def fail_def split: option.splits)
  have len: "length ?buf = BS" by (simp add: zeros_def)
  note S = store_step [OF Suc.prems(2) al b0 wr [unfolded d2(1)] len]
  have b64: "b < 2 ^ 64" using S(3) Suc.prems(2) by (auto simp: file_ok_def)
  have "length bs < 2 ^ 32 - 1" using Suc.prems(5) by simp
  note C = inode_push_extent_covers [OF Suc.prems(3) d2(2) b0 b64 this]
  have fresh: "b \<notin> set bs" using S(4) Suc.prems(4) by (auto simp: uses_def)
  obtain new where N: "covers d1 ((bs @ [b]) @ new)" "length new = n" "uses st1 ((bs @ [b]) @ new)" "file_ok st1"
    "d1 = d2\<lparr>extent := extent d1, nextents := nextents d1\<rparr>" "\<forall>c \<in> set (bs @ [b]). data_of st1 c = data_of sb c"
    "concat (map (data_of st1) new) = take (n * BS) (drop BS data) @ zeros (n * BS - length (drop BS data))"
    "same_volume sb st1" using Suc.IH [OF d2(3) S(1) C(1) S(5) [OF Suc.prems(4)]] Suc.prems(5) by auto
  have "data_of st1 b = ?buf" using N(6) S(6) by simp
  moreover have "?buf @ take (n * BS) (drop BS data) @ zeros (n * BS - length (drop BS data)) =
      take (Suc n * BS) data @ zeros (Suc n * BS - length data)"
  proof (cases "BS \<le> length data")
    case True
    then show ?thesis by (simp add: zeros_def take_add)
  next
    case False
    then show ?thesis by (simp add: zeros_def replicate_add [symmetric])
  qed
  ultimately have "concat (map (data_of st1) (b # new)) = take (Suc n * BS) data @ zeros (Suc n * BS - length data)"
    using N(7) by simp
  moreover have "\<forall>c \<in> set bs. data_of st1 c = data_of st c" using N(6) S(6) fresh by auto
  moreover have "d1 = d\<lparr>extent := extent d1, nextents := nextents d1\<rparr>" using N(5) C(2) by (cases d; cases d1; cases d2) simp
  moreover have "same_volume st st1" by (rule same_volume_trans [OF S(7) N(8)])
  ultimately show ?case using N by (intro exI [of _ "b # new"]) simp
qed

section \<open>Reading\<close>

lemma take_drop_blocks:
  assumes "\<forall>b \<in> set bs. length (f b) = n" "0 < n" "pos div n < length bs" "k \<le> n - pos mod n"
  shows "take k (drop pos (concat (map f bs))) = take k (drop (pos mod n) (f (bs ! (pos div n))))"
  using assms
proof (induction bs arbitrary: pos)
  case (Cons b bs)
  show ?case
  proof (cases "pos < n")
    case True
    then have "k \<le> length (drop pos (f b))" using Cons.prems by simp
    then show ?thesis using True Cons.prems(1) by simp
  next
    case False
    then have q: "pos div n = Suc ((pos - n) div n)" "pos mod n = (pos - n) mod n"
      using Cons.prems(2) by (auto simp: le_div_geq le_mod_geq)
    have "take k (drop (pos - n) (concat (map f bs))) = take k (drop ((pos - n) mod n) (f (bs ! ((pos - n) div n))))"
      by (rule Cons.IH) (use Cons.prems q in auto)
    then show ?thesis using False Cons.prems(1) q by simp
  qed
qed simp

lemma take_drop_split: "k \<le> n \<Longrightarrow> take n (drop pos xs) = take k (drop pos xs) @ take (n - k) (drop (pos + k) xs)"
  by (metis add.commute drop_drop le_add_diff_inverse take_add)

lemma read_data_eq:
  assumes "covers d bs" "vol_ok st (c_drive st)" "\<forall>b \<in> set bs. 0 < b \<and> b < total_blocks st" "pos + n \<le> length bs * BS"
  shows "read_data d pos n st = (Some (take n (drop pos (concat (map (data_of st) bs)))), st)"
  using assms(4)
proof (induction n arbitrary: pos rule: less_induct)
  case (less n)
  show ?case
  proof (cases "n = 0")
    case False
    let ?k = "min (BS - pos mod BS) n" and ?all = "concat (map (data_of st) bs)"
    have k: "0 < ?k" "?k \<le> n" "?k \<le> BS - pos mod BS" using False by auto
    have i: "pos div BS < length bs" using less.prems False by (simp add: div_less_iff_less_mult)
    have pb: "map_fileblock d (pos div BS) = bs ! (pos div BS)" by (rule map_fileblock_eq [OF assms(1) i])
    have b: "0 < bs ! (pos div BS)" "bs ! (pos div BS) < total_blocks st" using assms(3) i nth_mem by blast+
    have IH: "read_data d (pos + ?k) (n - ?k) st = (Some (take (n - ?k) (drop (pos + ?k) ?all)), st)"
      by (rule less.IH) (use k False less.prems in auto)
    have "take ?k (drop pos ?all) = take ?k (drop (pos mod BS) (data_of st (bs ! (pos div BS))))"
      by (rule take_drop_blocks) (use length_blk [OF assms(2)] i k in auto)
    then show ?thesis
      using False IH raw_read_eq [OF assms(2) b(2)] b(1) take_drop_split [OF k(2), of pos ?all]
      by (subst read_data.simps) (simp add: Let_def pb seq_io_def ret_def del: read_data.simps)
  qed simp
qed

section \<open>Inodes on disk\<close>

definition fits :: "dinode \<Rightarrow> bool" where
  "fits d \<longleftrightarrow> i_size d < 2 ^ 64 \<and> i_atime d < 2 ^ 64 \<and> i_mtime d < 2 ^ 64 \<and> i_ctime d < 2 ^ 64 \<and> i_crtime d < 2 ^ 64 \<and>
     nextents d < 2 ^ 32 \<and> xattr_block d < 2 ^ 64 \<and> extent_index d < 2 ^ 64 \<and> length (extent d) = 144"

lemma unat_fits: "unat (x :: u16) < 2 ^ 16" "unat (y :: u32) < 2 ^ 32"
  using unsigned_less [of x] unsigned_less [of y] by simp_all

lemma dinode_of_image: "fits d \<Longrightarrow> dinode_of (dinode_image d) = d"
  using unat_fits(1) [of "i_mode d"] unat_fits(1) [of "i_links d"] unat_fits(2) [of "i_uid d"] unat_fits(2) [of "i_gid d"]
    unat_fits(2) [of "i_flags d"] unat_fits(2) [of "i_csum d"]
  by (cases d) (simp add: dinode_of_def dinode_image_def fits_def field_image field_skip field_def le_val_image del: le_image.simps le_val.simps)

lemma length_dinode_image: "length (extent d) = 144 \<Longrightarrow> length (dinode_image d) = 224"
  by (simp add: dinode_image_def del: le_image.simps)

definition table_ok :: "cfs \<Rightarrow> nat \<Rightarrow> bool" where
  "table_ok st ino \<longleftrightarrow> 0 < ino \<and> ino < total_inodes st \<and> inode_block st ino < data_start st \<and> data_start st \<le> total_blocks st \<and>
     inode_off st ino + DINODE_SIZE \<le> BS"

lemma write_read_dinode:
  assumes "meta_ok st" "table_ok st ino" "fits d" "write_dinode ino d st = (Some (), st')"
  shows "\<exists>c. read_dinode ino st' = (Some (d\<lparr>i_csum := c\<rparr>), st')" "c_drive st' = c_drive st" "total_blocks st' = total_blocks st" "meta_ok st'"
proof -
  let ?b = "inode_block st ino" and ?o = "inode_off st ino"
  define c where "c = (if c_flags st AND 1 \<noteq> 0 then inode_csum d else 0)"
  let ?new = "set_bytes (mview st ?b) ?o (dinode_image (d\<lparr>i_csum := c\<rparr>))"
  have b: "?b < total_blocks st" "?o + 224 \<le> 4096" using assms(2) by (auto simp: table_ok_def)
  have lm: "length (mview st ?b) = 4096" by (rule length_mview [OF assms(1)])
  have li: "length (dinode_image (d\<lparr>i_csum := c\<rparr>)) = 224" using assms(3) by (intro length_dinode_image) (simp add: fits_def)
  then have ln: "length ?new = 4096" using lm b(2) by simp
  have "bd_write_block ?b ?new st = (Some (), st')"
    using assms(2,4) meta.read_law [OF assms(1) b(1)] by (simp add: write_dinode_def seq_io_def table_ok_def c_def)
  note W = bd_write_effect [OF assms(1) ln this]
  show "c_drive st' = c_drive st" "total_blocks st' = total_blocks st" "meta_ok st'" using W(1,2) by simp_all
  have g: "inode_block st' ino = ?b" "inode_off st' ino = ?o" "total_inodes st' = total_inodes st" "total_blocks st' = total_blocks st"
    by (simp_all add: W(1) inode_block_def inode_off_def)
  have "take 224 (drop ?o ?new) = dinode_image (d\<lparr>i_csum := c\<rparr>)" using b(2) lm li by (simp add: set_bytes_def)
  moreover have "dinode_of (dinode_image (d\<lparr>i_csum := c\<rparr>)) = d\<lparr>i_csum := c\<rparr>" using assms(3) by (intro dinode_of_image) (simp add: fits_def)
  ultimately have "read_dinode ino st' = (Some (d\<lparr>i_csum := c\<rparr>), st')"
    using assms(2) meta.read_law [OF W(2), of ?b] b(1) W(3) by (simp add: read_dinode_def g seq_io_def ret_def table_ok_def)
  then show "\<exists>c. read_dinode ino st' = (Some (d\<lparr>i_csum := c\<rparr>), st')" by blast
qed

section \<open>The round trip\<close>

lemma flag_bit [simp]: "(f OR 1) AND 1 \<noteq> (0 :: u32)" "(f AND - 2) AND 1 = (0 :: u32)"
proof -
  have "(f OR 1) AND 1 = (1 :: u32)" by (rule bit_eqI) (auto simp: bit_simps)
  then show "(f OR 1) AND 1 \<noteq> (0 :: u32)" by simp
  have "(f AND NOT 1) AND 1 = (0 :: u32)" by (rule bit_eqI) (auto simp: bit_simps)
  then show "(f AND - 2) AND 1 = (0 :: u32)" by simp
qed

lemma read_inode_csum [simp]: "read_inode (d\<lparr>i_csum := c\<rparr>) off n st = read_inode d off n st"
proof -
  have "map_extents (d\<lparr>i_csum := c\<rparr>) e k l fb = map_extents d e k l fb" for e k l fb
    by (induction k arbitrary: e l) (simp_all add: ext_start_def ext_count_def)
  then have "map_fileblock (d\<lparr>i_csum := c\<rparr>) = map_fileblock d" by (simp add: map_fileblock_def fun_eq_iff)
  then have "read_data (d\<lparr>i_csum := c\<rparr>) pos k st = read_data d pos k st" for pos k st
  proof (induction d pos k st rule: read_data.induct)
    case (1 d pos k st)
    then show ?case
      by (subst (1 2) read_data.simps) (auto simp: Let_def seq_io_def split: option.splits prod.splits simp del: read_data.simps)
  qed
  then show ?thesis by (simp add: read_inode_def)
qed

lemma take_clip: "take (min n (length xs - off)) (drop off (xs @ ys)) = take n (drop off xs)"
  by (cases "n \<le> length xs - off") (simp_all add: min_def)

lemma stored_contents:
  assumes ok: "file_ok st" and d: "nextents d = 0" "length (extent d) = 144" and data: "length data + 4095 < 2 ^ 32"
    and st: "store_file data d st = (Some d1, st1)"
  shows "file_ok st1" "same_volume st st1" "length (extent d1) = 144" "nextents d1 < 2 ^ 32"
    "d1 = d\<lparr>extent := extent d1, nextents := nextents d1, i_flags := i_flags d1\<rparr>"
    "c_drive s2 = c_drive st1 \<Longrightarrow> vol_ok s2 (c_drive s2) \<Longrightarrow> total_blocks s2 = total_blocks st1 \<Longrightarrow> c_base s2 = c_base st1 \<Longrightarrow> spb s2 = spb st1 \<Longrightarrow>
     read_inode (stamp (length data) now d1) off n s2 = (Some (take n (drop off data)), s2)"
proof -
  consider (inline) "length data \<le> 144" | (blocks) "144 < length data" by linarith
  then have "file_ok st1 \<and> same_volume st st1 \<and> length (extent d1) = 144 \<and> nextents d1 < 2 ^ 32 \<and>
      d1 = d\<lparr>extent := extent d1, nextents := nextents d1, i_flags := i_flags d1\<rparr> \<and>
    (c_drive s2 = c_drive st1 \<longrightarrow> vol_ok s2 (c_drive s2) \<longrightarrow> total_blocks s2 = total_blocks st1 \<longrightarrow> c_base s2 = c_base st1 \<longrightarrow> spb s2 = spb st1 \<longrightarrow>
     read_inode (stamp (length data) now d1) off n s2 = (Some (take n (drop off data)), s2))"
  proof cases
    case inline
    then have "d1 = d\<lparr>extent := data @ zeros (144 - length data), i_flags := i_flags d OR 1, nextents := 0\<rparr>" "st1 = st"
      using st by (auto simp: store_file_def ret_def)
    then show ?thesis using inline ok by (auto simp: same_volume_def read_inode_def stamp_def zeros_def take_clip u32_sub_small simp del: take_append drop_append)
  next
    case blocks
    let ?n = "(length data + 4095) div BS" and ?d = "d\<lparr>i_flags := i_flags d AND NOT 1\<rparr>"
    have s: "store_blocks data ?n ?d st = (Some d1, st1)" using st blocks data by (simp add: store_file_def u32_add_def)
    have "covers ?d []" using d by (simp add: covers_def)
    moreover have "length ([] :: nat list) + ?n < 2 ^ 32" using data by (simp add: div_less_iff_less_mult)
    moreover have "uses st []" by (simp add: uses_def)
    ultimately obtain new where N: "covers d1 new" "length new = ?n" "uses st1 new" "file_ok st1"
      "d1 = ?d\<lparr>extent := extent d1, nextents := nextents d1\<rparr>" "same_volume st st1"
      "concat (map (data_of st1) new) = take (?n * BS) data @ zeros (?n * BS - length data)" using store_blocks_effect [OF s ok] by fastforce
    have big: "length data \<le> ?n * BS" by simp
    have fl: "i_flags d1 AND 1 = 0" by (subst N(5)) simp
    have "read_inode (stamp (length data) now d1) off n s2 = (Some (take n (drop off data)), s2)"
      if same: "c_drive s2 = c_drive st1" "vol_ok s2 (c_drive s2)" "total_blocks s2 = total_blocks st1" "c_base s2 = c_base st1" "spb s2 = spb st1"
    proof (cases "length data \<le> off")
      case False
      let ?k = "min n (length data - off)" and ?s = "stamp (length data) now d1"
      have "run_of ?s = run_of d1" "ext_start ?s = ext_start d1" by (simp_all add: fun_eq_iff run_of_def stamp_def ext_start_def ext_count_def)
      then have "covers ?s new" using N(1) by (simp add: covers_def) (simp add: stamp_def)
      moreover have "\<forall>b \<in> set new. 0 < b \<and> b < total_blocks s2" using N(3) same(3) by (simp add: uses_def)
      moreover have "off + ?k \<le> length new * BS" using False big N(2) by simp
      ultimately have "read_data ?s off ?k s2 = (Some (take ?k (drop off (concat (map (data_of s2) new)))), s2)"
        by (rule read_data_eq [OF _ same(2)])
      moreover have "data_of s2 = data_of st1" using same by (simp add: fun_eq_iff blk_def block_sector_def)
      moreover have "i_size ?s = length data" "i_flags ?s = i_flags d1" by (simp_all add: stamp_def)
      ultimately show ?thesis using False big fl N(7) by (simp add: read_inode_def take_clip del: read_data.simps take_append drop_append)
    qed (simp add: read_inode_def stamp_def)
    moreover have "length (extent d1) = 144" "nextents d1 < 2 ^ 32" using N(1) by (auto simp: covers_def)
    moreover have "d1 = d\<lparr>extent := extent d1, nextents := nextents d1, i_flags := i_flags d1\<rparr>" using N(5) by (cases d; cases d1) simp
    ultimately show ?thesis using N(4,6) by blast
  qed
  then show "file_ok st1" "same_volume st st1" "length (extent d1) = 144" "nextents d1 < 2 ^ 32"
    "d1 = d\<lparr>extent := extent d1, nextents := nextents d1, i_flags := i_flags d1\<rparr>"
    "c_drive s2 = c_drive st1 \<Longrightarrow> vol_ok s2 (c_drive s2) \<Longrightarrow> total_blocks s2 = total_blocks st1 \<Longrightarrow> c_base s2 = c_base st1 \<Longrightarrow> spb s2 = spb st1 \<Longrightarrow>
     read_inode (stamp (length data) now d1) off n s2 = (Some (take n (drop off data)), s2)" by blast+
qed

text \<open>C32. Writing a file of any contents shorter than 4 GB and reading it back, at any offset and for any
  length, returns exactly the bytes that were written, whether the contents are kept inside the
  inode or in newly allocated blocks; the inode itself is read back from the inode table, where
  \<open>write_dinode\<close> put it.\<close>

theorem file_round_trip:
  assumes "file_ok st" "table_ok st ino" "fits d" "nextents d = 0" "length data + 4095 < 2 ^ 32" "now < 2 ^ 64"
    and "store_file data d st = (Some d1, st1)" "write_dinode ino (stamp (length data) now d1) st1 = (Some (), st2)"
  shows "\<exists>d2. read_dinode ino st2 = (Some d2, st2) \<and> (\<forall>off n. read_inode d2 off n st2 = (Some (take n (drop off data)), st2))"
proof -
  have e: "length (extent d) = 144" using assms(3) by (simp add: fits_def)
  note C = stored_contents [OF assms(1,4) e assms(5,7)]
  have v: "st1 = st\<lparr>txn := txn st1, free_blocks := free_blocks st1, c_drive := c_drive st1\<rparr>" using C(2) by (simp add: same_volume_def)
  have t: "table_ok st1 ino" using assms(2) by (subst v) (simp add: table_ok_def inode_block_def inode_off_def)
  have m: "meta_ok st1" using C(1) by (simp add: file_ok_def map_ok_def)
  have f: "fits (stamp (length data) now d1)"
    using assms(3,5,6) C(3,4) by (subst (asm) C(5), subst C(5)) (simp add: fits_def stamp_def)
  note W = write_read_dinode [OF m t f assms(8)]
  have "c_base st2 = c_base st1" "spb st2 = spb st1"
    using assms(8) by (auto simp: write_dinode_def seq_io_def bd_read_block_def bd_write_block_def raw_read_block_def raw_write_block_def split: if_splits option.splits prod.splits)
  moreover have "vol_ok st2 (c_drive st2)" using W(4) by (simp add: meta_ok_def)
  ultimately have "read_inode (stamp (length data) now d1) off n st2 = (Some (take n (drop off data)), st2)" for off n
    using C(6) [OF W(2) _ W(3)] by blast
  then show ?thesis using W(1) by fastforce
qed

text \<open>A file of 200 bytes goes to the first data block of the sample volume.\<close>

lemma sample_file_ok: "file_ok sample_txn"
proof -
  have "block_bitmap_start sample_txn = 4" "total_blocks sample_txn = 64" "data_start sample_txn = 10"
    by (simp_all add: sample_txn_def sample_volume_def)
  then show ?thesis using sample_map_ok by (simp add: file_ok_def bitmap_blocks_def)
qed

lemma sample_alloc: "\<exists>b st1. alloc_block sample_txn = (b, st1) \<and> b \<noteq> 0"
proof -
  obtain b st1 where a: "alloc_block sample_txn = (b, st1)" by force
  have f: "block_bitmap_start sample_txn = 4" "total_blocks sample_txn = 64" "data_start sample_txn = 10" "txn sample_txn = []"
    by (simp_all add: sample_txn_def sample_volume_def)
  have "b \<noteq> 0"
  proof
    assume "b = 0"
    then have "used sample_txn 4 10"
      using alloc_block_effect [of sample_txn b st1, unfolded f, OF sample_map_ok _ a] by (simp add: all_used_def)
    then show False using sample_unused by blast
  qed
  then show ?thesis using a by blast
qed

lemma sample_store: "\<exists>d1 st1. store_file (replicate 200 7) blank_dinode sample_txn = (Some d1, st1) \<and> length (txn st1) \<le> 1"
proof -
  obtain b st1 where a: "alloc_block sample_txn = (b, st1)" "b \<noteq> 0" using sample_alloc by blast
  have s: "map_ok sample_txn (block_bitmap_start sample_txn) (total_blocks sample_txn)" "0 < data_start sample_txn"
    using sample_file_ok by (auto simp: file_ok_def)
  from alloc_block_effect [OF s a(1)] a(2) have "vol_ok st1 (c_drive st1)" "b < total_blocks sample_txn"
    by (auto simp: map_ok_def meta_ok_def)
  moreover have "total_blocks st1 = total_blocks sample_txn" by (subst alloc_block_frame(1) [OF sample_file_ok a], simp)
  ultimately have w: "raw_write_block b buf st1 = (Some (), st1\<lparr>c_drive := put_all (wr st1 [(b, buf)]) (c_drive st1)\<rparr>)" for buf
    by (intro raw_write_eq) simp_all
  have "length (txn st1) \<le> 1" using alloc_block_frame(2) [OF sample_file_ok a] by (simp add: sample_txn_def sample_volume_def)
  then show ?thesis
    by (simp add: store_file_def u32_add_def a seq_io_def w inode_push_extent_def Let_def blank_dinode_def del: wr_simps)
qed

theorem file_round_trip_witness:
  "\<exists>st d2. read_dinode 2 st = (Some d2, st) \<and> read_inode d2 190 50 st = (Some (replicate 10 7), st)"
proof -
  obtain d1 st1 where s: "store_file (replicate 200 7) blank_dinode sample_txn = (Some d1, st1)" "length (txn st1) \<le> 1" using sample_store by blast
  have t: "table_ok sample_txn 2" by (simp add: table_ok_def sample_txn_def sample_volume_def inode_block_def inode_off_def)
  have f: "fits blank_dinode" "nextents blank_dinode = 0" by (simp_all add: fits_def blank_dinode_def zeros_def)
  note C = stored_contents [OF sample_file_ok f(2) _ _ s(1)]
  have "file_ok st1" using C(1) f(1) by (simp add: fits_def)
  then have m: "meta_ok st1" by (simp add: file_ok_def map_ok_def)
  have "same_volume sample_txn st1" using C(2) f(1) by (simp add: fits_def)
  then have v: "st1 = sample_txn\<lparr>txn := txn st1, free_blocks := free_blocks st1, c_drive := c_drive st1\<rparr>" by (simp add: same_volume_def)
  have g: "total_inodes st1 = 64" "inode_block st1 2 = 6" "total_blocks st1 = 64"
    by (subst v, simp add: sample_txn_def sample_volume_def inode_block_def)+
  have "\<exists>st2. write_dinode 2 (stamp 200 0 d1) st1 = (Some (), st2)"
    using m s(2) meta.read_law [OF m, of 6] by (simp add: write_dinode_def g seq_io_def bd_write_block_def meta_ok_def)
  then obtain st2 where w: "write_dinode 2 (stamp (length (replicate 200 (7 :: u8))) 0 d1) st1 = (Some (), st2)" by auto
  obtain d2 where "read_dinode 2 st2 = (Some d2, st2)" "\<And>off n. read_inode d2 off n st2 = (Some (take n (drop off (replicate 200 7))), st2)"
    using file_round_trip [OF sample_file_ok t f _ _ s(1) w] by auto
  then show ?thesis by (intro exI [of _ st2] exI [of _ d2]) simp
qed

end
