(* ===== verification/Cfs_Names.thy ===== *)
theory Cfs_Names
  imports Cfs_File
begin

text \<open>
  A directory block of CFS as the list of its records, each with its bytes: adding and removing
  an entry change one or two records and exactly one entry.
\<close>

section \<open>Records\<close>

definition rec_ok :: "u8 list \<Rightarrow> bool" where
  "rec_ok r \<longleftrightarrow> CFS_DIRENT_HDR \<le> length r \<and> dent_rec_len r 0 = length r \<and>
     (dent_inode r 0 \<noteq> 0 \<longrightarrow> align8 (CFS_DIRENT_HDR + dent_name_len r 0) \<le> length r)"

definition block_ok :: "u8 list list \<Rightarrow> bool" where
  "block_ok rs \<longleftrightarrow> list_all rec_ok rs \<and> length (concat rs) = BS"

text \<open>The offsets of records that start at \<open>off\<close>.\<close>

fun starts :: "nat \<Rightarrow> u8 list list \<Rightarrow> nat list" where
  "starts off [] = []"
| "starts off (r # rs) = off # starts (off + length r) rs"

lemma align8_le: "x \<le> align8 x"
  by (simp add: align8_def)

lemma field_middle: "k + w \<le> length r \<Longrightarrow> field (a @ r @ b) (length a + k) w = field r k w"
  by (simp add: field_def)

lemma dent_middle:
  assumes "rec_ok r"
  shows "dent_inode (a @ r @ b) (length a) = dent_inode r 0" "dent_rec_len (a @ r @ b) (length a) = length r"
    "dent_name_len (a @ r @ b) (length a) = dent_name_len r 0"
    "dent_inode r 0 \<noteq> 0 \<Longrightarrow> dent_name (a @ r @ b) (length a) = dent_name r 0"
proof -
  have l: "12 \<le> length r" using assms by (simp add: rec_ok_def)
  show i: "dent_inode (a @ r @ b) (length a) = dent_inode r 0" "dent_name_len (a @ r @ b) (length a) = dent_name_len r 0"
    using field_middle [of 0 8 r a b] field_middle [of 10 1 r a b] l by (simp_all add: dent_inode_def dent_name_len_def)
  show "dent_rec_len (a @ r @ b) (length a) = length r"
    using field_middle [of 8 2 r a b] l assms by (simp add: rec_ok_def dent_rec_len_def)
  assume "dent_inode r 0 \<noteq> 0"
  then have "12 + dent_name_len r 0 \<le> length r" using assms align8_le [of "12 + dent_name_len r 0"] by (simp add: rec_ok_def)
  then show "dent_name (a @ r @ b) (length a) = dent_name r 0" by (simp add: dent_name_def i(2))
qed

lemma dir_offs_starts:
  assumes "list_all rec_ok rs" "length a + length (concat rs) = BS"
  shows "dir_offs (a @ concat rs) (length a) = starts (length a) rs"
  using assms
proof (induction rs arbitrary: a)
  case Nil
  then show ?case by (subst dir_offs.simps) simp
next
  case (Cons r rs)
  have r: "rec_ok r" "12 \<le> length r" using Cons.prems(1) by (auto simp: rec_ok_def)
  have "dir_offs ((a @ r) @ concat rs) (length (a @ r)) = starts (length (a @ r)) rs"
    by (rule Cons.IH) (use Cons.prems in auto)
  then show ?case using dent_middle(2) [OF r(1), of a "concat rs"] r(2) Cons.prems(2) by (subst dir_offs.simps) simp
qed

lemma find_starts:
  assumes "list_all rec_ok rs" "\<And>a r b. rec_ok r \<Longrightarrow> P (a @ r @ b) (length a) = Q r"
  shows "case List.find (P (a @ concat rs)) (starts (length a) rs) of
      None \<Rightarrow> list_all (\<lambda>r. \<not> Q r) rs
    | Some off \<Rightarrow> \<exists>us r vs. rs = us @ r # vs \<and> off = length a + length (concat us) \<and> Q r \<and> list_all (\<lambda>r. \<not> Q r) us"
  using assms(1)
proof (induction rs arbitrary: a)
  case (Cons r rs)
  have r: "P (a @ r @ concat rs) (length a) = Q r" using assms(2) Cons.prems by simp
  show ?case
  proof (cases "Q r")
    case True
    then show ?thesis using r by (simp, intro exI [of _ "[]"] exI [of _ r] exI [of _ rs]) simp
  next
    case False
    have IH: "case List.find (P ((a @ r) @ concat rs)) (starts (length (a @ r)) rs) of
        None \<Rightarrow> list_all (\<lambda>r. \<not> Q r) rs
      | Some off \<Rightarrow> \<exists>us r' vs. rs = us @ r' # vs \<and> off = length (a @ r) + length (concat us) \<and> Q r' \<and> list_all (\<lambda>r. \<not> Q r) us"
      by (rule Cons.IH) (use Cons.prems in simp)
    show ?thesis
    proof (cases "List.find (P ((a @ r) @ concat rs)) (starts (length (a @ r)) rs)")
      case None
      then show ?thesis using False r IH by simp
    next
      case (Some off)
      then obtain us r' vs where "rs = us @ r' # vs" "off = length (a @ r) + length (concat us)" "Q r'" "list_all (\<lambda>r. \<not> Q r) us"
        using IH by auto
      then have "r # rs = (r # us) @ r' # vs \<and> off = length a + length (concat (r # us)) \<and> Q r' \<and> list_all (\<lambda>r. \<not> Q r) (r # us)"
        using False by simp
      then have "\<exists>us' r' vs'. r # rs = us' @ r' # vs' \<and> off = length a + length (concat us') \<and> Q r' \<and> list_all (\<lambda>r. \<not> Q r) us'"
        by blast
      then show ?thesis using False r Some by simp
    qed
  qed
qed simp

lemma find_offset:
  assumes "list_all rec_ok rs" "List.find P (starts 0 rs) = Some off"
  shows "\<exists>us r vs. rs = us @ r # vs \<and> off = length (concat us) \<and> P off"
proof -
  have m: "\<exists>us r vs. rs = us @ r # vs \<and> off = base + length (concat us)" if "off \<in> set (starts base rs)" for base
    using that
  proof (induction rs arbitrary: base)
    case (Cons r rs)
    show ?case
    proof (cases "off = base")
      case False
      then obtain us r' vs where "r # rs = (r # us) @ r' # vs" "off = base + length (concat (r # us))" using Cons by fastforce
      then show ?thesis by blast
    qed (intro exI [of _ "[]"] exI [of _ r] exI [of _ rs], simp)
  qed simp
  have "off \<in> set (starts 0 rs)" "P off" using assms(2) by (auto simp: find_Some_iff)
  then show ?thesis using m [of 0] by auto
qed

section \<open>Entries\<close>

definition entries :: "u8 list list \<Rightarrow> (u8 list \<times> nat) list" where
  "entries rs = map (\<lambda>r. (dent_name r 0, dent_inode r 0)) (filter (\<lambda>r. dent_inode r 0 \<noteq> 0) rs)"

lemma entries_simps [simp]:
  "entries [] = []" "entries (r # rs) = (if dent_inode r 0 \<noteq> 0 then (dent_name r 0, dent_inode r 0) # entries rs else entries rs)"
  "entries (us @ vs) = entries us @ entries vs"
  by (simp_all add: entries_def)

lemma name_eq_middle:
  assumes "rec_ok r"
  shows "name_eq (a @ r @ b) (length a) name = (dent_inode r 0 \<noteq> 0 \<and> dent_name r 0 = name)"
proof (cases "dent_inode r 0 = 0")
  case False
  then have "12 + dent_name_len r 0 \<le> length r" using assms align8_le [of "12 + dent_name_len r 0"] by (simp add: rec_ok_def)
  then have "length (dent_name r 0) = dent_name_len r 0" by (simp add: dent_name_def)
  then show ?thesis using dent_middle [OF assms, of a b] False by (auto simp: name_eq_def)
qed (simp add: name_eq_def dent_middle [OF assms])

lemma find_name_entries:
  assumes "block_ok rs"
  shows "case find_name (concat rs) name of
      None \<Rightarrow> map_of (entries rs) name = None
    | Some off \<Rightarrow> map_of (entries rs) name = Some (dent_inode (concat rs) off)"
proof -
  let ?Q = "\<lambda>r. dent_inode r 0 \<noteq> 0 \<and> dent_name r 0 = name"
  have ok: "list_all rec_ok rs" "length (concat rs) = BS" using assms by (auto simp: block_ok_def)
  have F: "case List.find (\<lambda>off. name_eq ([] @ concat rs) off name) (starts (length ([] :: u8 list)) rs) of
      None \<Rightarrow> list_all (\<lambda>r. \<not> ?Q r) rs
    | Some off \<Rightarrow> \<exists>us r vs. rs = us @ r # vs \<and> off = length ([] :: u8 list) + length (concat us) \<and> ?Q r \<and> list_all (\<lambda>r. \<not> ?Q r) us"
    by (rule find_starts [OF ok(1), where P = "\<lambda>buf off. name_eq buf off name"]) (rule name_eq_middle)
  have n: "map_of (entries us) name = None" if "list_all (\<lambda>r. \<not> ?Q r) us" for us
    using that by (induction us) auto
  have o: "dir_offs (concat rs) 0 = starts 0 rs" using dir_offs_starts [of rs "[]"] ok by simp
  show ?thesis
  proof (cases "find_name (concat rs) name")
    case None
    then show ?thesis using F o n [of rs] by (simp add: find_name_def)
  next
    case (Some off)
    then obtain us r vs where s: "rs = us @ r # vs" "off = length (concat us)" "?Q r" "list_all (\<lambda>r. \<not> ?Q r) us"
      using F o by (auto simp: find_name_def)
    have "dent_inode (concat rs) off = dent_inode r 0"
      using dent_middle(1) [of r "concat us" "concat vs"] ok(1) by (simp add: s(1,2))
    then show ?thesis using Some n [OF s(4)] s(3) by (simp add: s(1) map_add_def)
  qed
qed

section \<open>Adding an entry to a block\<close>

lemma set_bytes_middle:
  "k + length new \<le> length r \<Longrightarrow> set_bytes (a @ r @ b) (length a + k) new = a @ set_bytes r k new @ b"
  by (simp add: set_bytes_def)

lemma length_dent_image: "length (dent_image i l n ty) = CFS_DIRENT_HDR + length n"
  by (simp add: dent_image_def del: le_image.simps)

lemma dent_image_fields:
  assumes "i < 2 ^ 64" "l < 2 ^ 16" "length n < 256"
  shows "dent_inode (dent_image i l n ty @ b) 0 = i" "dent_rec_len (dent_image i l n ty @ b) 0 = l"
    "dent_name_len (dent_image i l n ty @ b) 0 = length n" "dent_name (dent_image i l n ty @ b) 0 = n"
proof -
  show *: "dent_inode (dent_image i l n ty @ b) 0 = i" "dent_rec_len (dent_image i l n ty @ b) 0 = l"
    "dent_name_len (dent_image i l n ty @ b) 0 = length n"
    using assms by (simp_all add: dent_inode_def dent_rec_len_def dent_name_len_def dent_image_def field_image field_skip
        del: le_image.simps le_val.simps)
  show "dent_name (dent_image i l n ty @ b) 0 = n" unfolding dent_name_def *(3) by (simp add: dent_image_def del: le_image.simps)
qed

lemma new_rec:
  fixes ty :: nat
  assumes "i < 2 ^ 64" "i \<noteq> 0" "length n < 256" "align8 (CFS_DIRENT_HDR + length n) \<le> length b" "length b < 2 ^ 16"
  defines "r \<equiv> set_bytes b 0 (dent_image i (length b) n ty)"
  shows "rec_ok r" "dent_inode r 0 = i" "dent_name r 0 = n" "length r = length b"
proof -
  have le: "12 + length n \<le> length b" using align8_le [of "12 + length n"] assms(4) by linarith
  have r: "r = dent_image i (length b) n ty @ drop (12 + length n) b" by (simp add: r_def set_bytes_def length_dent_image)
  show l: "length r = length b" using le by (simp add: r length_dent_image)
  note F = dent_image_fields [OF assms(1,5,3), where b = "drop (12 + length n) b" and ty = ty]
  show "dent_inode r 0 = i" "dent_name r 0 = n" using F by (simp_all add: r)
  show "rec_ok r" using F le l assms(4) by (simp add: rec_ok_def) (simp add: r)
qed

lemma trimmed_rec:
  assumes "rec_ok r" "dent_inode r 0 \<noteq> 0" "u = align8 (CFS_DIRENT_HDR + dent_name_len r 0)" "u < 2 ^ 16"
  defines "r1 \<equiv> set_bytes (take u r) 8 (le_image 2 u)"
  shows "rec_ok r1" "dent_inode r1 0 = dent_inode r 0" "dent_name r1 0 = dent_name r 0" "length r1 = u"
proof -
  have u: "12 + dent_name_len r 0 \<le> u" "u \<le> length r" using align8_le [of "12 + dent_name_len r 0"] assms(1-3) by (auto simp: rec_ok_def)
  show l: "length r1 = u" using u by (simp add: r1_def del: le_image.simps)
  have f: "field r1 0 8 = field r 0 8" "field r1 10 1 = field r 10 1"
    using u field_set_before [of 0 8 8 "take u r" "le_image 2 u"] field_set_after [of 8 "le_image 2 u" 10 "take u r" 1]
    by (simp_all add: r1_def field_def drop_take min_def del: le_image.simps)
  have "field r1 8 2 = u" using u assms(4) field_set_in [of 8 "take u r" 0 2 "le_image 2 u"]
    by (simp add: r1_def field_def le_val_image del: le_image.simps le_val.simps)
  moreover have "drop 12 r1 = drop 12 (take u r)" using u by (simp add: r1_def set_bytes_def del: le_image.simps)
  ultimately show "rec_ok r1" "dent_inode r1 0 = dent_inode r 0" "dent_name r1 0 = dent_name r 0"
    using f u l assms(3) by (simp_all add: rec_ok_def dent_inode_def dent_rec_len_def dent_name_len_def dent_name_def drop_take min_def)
qed

lemma slot_fits_middle:
  assumes "rec_ok r" "length r < 2 ^ 16"
  shows "slot_fits (a @ r @ b) need (length a) =
    (if dent_inode r 0 = 0 then need \<le> length r else need \<le> length r - align8 (CFS_DIRENT_HDR + dent_name_len r 0))"
proof -
  have "u32_sub (length r) (align8 (12 + dent_name_len r 0)) = length r - align8 (12 + dent_name_len r 0)" if "dent_inode r 0 \<noteq> 0"
    using assms that by (intro u32_sub_small) (auto simp: rec_ok_def)
  then show ?thesis using dent_middle(1-3) [OF assms(1), of a b] by (simp add: slot_fits_def dent_used_def)
qed

text \<open>What \<open>fill_dent\<close> does to the records.\<close>

lemma fill_dent_records:
  assumes ok: "block_ok (us @ r # vs)" and c: "child < 2 ^ 64" "child \<noteq> 0" "length name < 256"
    and fit: "slot_fits (concat (us @ r # vs)) (align8 (CFS_DIRENT_HDR + length name)) (length (concat us))"
  shows "\<exists>rs. fill_dent (concat (us @ r # vs)) (length (concat us)) name child ty = concat rs \<and> block_ok rs \<and>
    entries rs = entries (us @ (if dent_inode r 0 = 0 then [] else [r])) @ (name, child) # entries vs"
proof -
  let ?a = "concat us" and ?b = "concat vs" and ?need = "align8 (12 + length name)"
  have r: "rec_ok r" "length r \<le> 4096" using ok by (auto simp: block_ok_def)
  have l: "length r < 2 ^ 16" using r(2) by simp
  note D = dent_middle(1-3) [OF r(1), of ?a ?b]
  show ?thesis
  proof (cases "dent_inode r 0 = 0")
    case True
    have n: "?need \<le> length r" using fit slot_fits_middle [OF r(1) l, of ?a ?b] True by simp
    then have le: "12 + length name \<le> length r" using align8_le [of "12 + length name"] by linarith
    note N = new_rec [OF c n l, of ty]
    have "fill_dent (?a @ r @ ?b) (length ?a) name child ty = ?a @ set_bytes r 0 (dent_image child (length r) name ty) @ ?b"
      using set_bytes_middle [of 0 "dent_image child (length r) name ty" r ?a ?b] D True le by (simp add: fill_dent_def length_dent_image)
    then show ?thesis using N ok True c(2)
      by (intro exI [of _ "us @ set_bytes r 0 (dent_image child (length r) name ty) # vs"]) (simp add: block_ok_def)
  next
    case False
    define u where "u = align8 (12 + dent_name_len r 0)"
    have n: "?need \<le> length r - u" using fit slot_fits_middle [OF r(1) l, of ?a ?b] False by (simp add: u_def)
    have ul: "u \<le> length r" using r(1) False by (simp add: rec_ok_def u_def)
    have u8: "12 \<le> u" using align8_le [of "12 + dent_name_len r 0"] by (simp add: u_def)
    have le: "12 + length name \<le> length r - u" using n align8_le [of "12 + length name"] by linarith
    have sub: "u32_sub (length r) u = length r - u" using ul l by (intro u32_sub_small) auto
    let ?r1 = "set_bytes (take u r) 8 (le_image 2 u)" and ?img = "dent_image child (length r - u) name ty"
    let ?r2 = "set_bytes (drop u r) 0 ?img"
    have u16: "u < 2 ^ 16" using ul l by linarith
    note T = trimmed_rec [OF r(1) False u_def u16]
    have d16: "length r - u < 2 ^ 16" using l by linarith
    note N = new_rec [OF c, of "drop u r" ty, unfolded length_drop, OF n d16]
    have "fill_dent (?a @ r @ ?b) (length ?a) name child ty = set_bytes (set_bytes (?a @ r @ ?b) (length ?a + 8) (le_image 2 u)) (length ?a + u) ?img"
      using D False sub by (simp add: fill_dent_def dent_used_def u_def Let_def del: le_image.simps)
    also have "\<dots> = ?a @ set_bytes (set_bytes r 8 (le_image 2 u)) u ?img @ ?b"
      using ul u8 le by (simp add: set_bytes_middle length_dent_image del: le_image.simps)
    also have "set_bytes (set_bytes r 8 (le_image 2 u)) u ?img = ?r1 @ ?r2"
      using ul u8 le by (simp add: set_bytes_def length_dent_image drop_take min_def ac_simps del: le_image.simps)
    finally have "fill_dent (?a @ r @ ?b) (length ?a) name child ty = concat (us @ ?r1 # ?r2 # vs)" by simp
    moreover have "block_ok (us @ ?r1 # ?r2 # vs)" using T N ok l ul by (simp add: block_ok_def del: le_image.simps)
    ultimately show ?thesis using T N False c(2) l by (intro exI [of _ "us @ ?r1 # ?r2 # vs"]) (simp del: le_image.simps)
  qed
qed

section \<open>Removing an entry from a block\<close>

lemma freed_rec:
  assumes "rec_ok r"
  defines "r0 \<equiv> set_bytes r 0 (le_image 8 0)"
  shows "rec_ok r0" "dent_inode r0 0 = 0" "length r0 = length r"
proof -
  have l: "12 \<le> length r" using assms(1) by (simp add: rec_ok_def)
  then show n: "length r0 = length r" by (simp add: r0_def del: le_image.simps)
  show i: "dent_inode r0 0 = 0"
    using field_set_in [of 0 r 0 8 "le_image 8 0"] l by (simp add: r0_def dent_inode_def field_def le_val_image del: le_image.simps le_val.simps)
  have "dent_rec_len r0 0 = dent_rec_len r 0"
    using field_set_after [of 0 "le_image 8 0" 8 r 2] l by (simp add: r0_def dent_rec_len_def del: le_image.simps)
  then show "rec_ok r0" using assms(1) n i by (simp add: rec_ok_def)
qed

lemma merged_rec:
  assumes "rec_ok p" "length p + length r < 2 ^ 16"
  defines "q \<equiv> set_bytes p 8 (le_image 2 (length p + length r)) @ r"
  shows "rec_ok q" "dent_inode q 0 = dent_inode p 0" "dent_inode p 0 \<noteq> 0 \<Longrightarrow> dent_name q 0 = dent_name p 0" "length q = length p + length r"
proof -
  let ?p = "set_bytes p 8 (le_image 2 (length p + length r))"
  have l: "12 \<le> length p" "length ?p = length p" using assms(1) by (auto simp: rec_ok_def)
  show n: "length q = length p + length r" using l by (simp add: q_def del: le_image.simps)
  have f: "field q k w = field ?p k w" if "k + w \<le> length p" for k w using field_middle [of k w ?p "[]" r] that l(2) by (simp add: q_def)
  have i: "dent_inode q 0 = dent_inode p 0" "dent_name_len q 0 = dent_name_len p 0"
    using f [of 0 8] f [of 10 1] l(1) field_set_before [of 0 8 8 p] field_set_after [of 8 "le_image 2 (length p + length r)" 10 p 1]
    by (simp_all add: dent_inode_def dent_name_len_def del: le_image.simps)
  then show "dent_inode q 0 = dent_inode p 0" by simp
  have rl: "dent_rec_len q 0 = length q"
    using f [of 8 2] l(1) field_set_in [of 8 p 0 2 "le_image 2 (length p + length r)"] assms(2)
    by (simp add: dent_rec_len_def n field_def le_val_image del: le_image.simps le_val.simps)
  then show "rec_ok q" using assms(1) i n by (auto simp: rec_ok_def)
  assume "dent_inode p 0 \<noteq> 0"
  then have le: "12 + dent_name_len p 0 \<le> length p" using assms(1) align8_le [of "12 + dent_name_len p 0"] by (simp add: rec_ok_def)
  have "drop 12 ?p = drop 12 p" using l(1) by (simp add: set_bytes_def del: le_image.simps)
  then have "take (dent_name_len p 0) (drop 12 q) = take (dent_name_len p 0) (drop 12 p)"
    using l le by (simp add: q_def del: le_image.simps)
  then show "dent_name q 0 = dent_name p 0" by (simp add: dent_name_def i(2))
qed

text \<open>The first record of the name, with what is before and behind it.\<close>

lemma unlink_at_starts:
  assumes "list_all rec_ok (ws @ rs)" "buf = concat (ws @ rs)"
    "prev = (if ws = [] then None else Some (length (concat (butlast ws))))"
  shows "case unlink_at buf prev (starts (length (concat ws)) rs) name of
      None \<Rightarrow> map_of (entries rs) name = None
    | Some buf1 \<Rightarrow> \<exists>us r vs. ws @ rs = us @ r # vs \<and> length ws \<le> length us \<and> dent_inode r 0 \<noteq> 0 \<and> dent_name r 0 = name \<and>
        buf1 = (if us = [] then set_bytes buf 0 (le_image 8 0)
                else set_bytes buf (length (concat (butlast us)) + 8) (le_image 2 (length (last us) + length r)))"
  using assms
proof (induction rs arbitrary: ws prev)
  case (Cons r rs)
  have r: "rec_ok r" using Cons.prems(1) by simp
  have b: "buf = concat ws @ r @ concat rs" using Cons.prems(2) by simp
  have eq: "name_eq buf (length (concat ws)) name = (dent_inode r 0 \<noteq> 0 \<and> dent_name r 0 = name)"
    unfolding b by (rule name_eq_middle [OF r])
  show ?case
  proof (cases "dent_inode r 0 \<noteq> 0 \<and> dent_name r 0 = name")
    case True
    have len: "dent_rec_len buf (length (concat ws)) = length r" unfolding b by (rule dent_middle(2) [OF r])
    show ?thesis
    proof (cases "ws = []")
      case True
      then show ?thesis using eq \<open>dent_inode r 0 \<noteq> 0 \<and> dent_name r 0 = name\<close> Cons.prems(3)
        by (simp del: le_image.simps, intro exI [of _ "[]"] exI [of _ r] exI [of _ rs]) simp
    next
      case False
      let ?p = "last ws"
      have w: "ws = butlast ws @ [?p]" "rec_ok ?p" using False Cons.prems(1) by (auto simp: list_all_iff)
      have "buf = concat (butlast ws) @ ?p @ r @ concat rs" by (simp add: b) (metis w(1) concat.simps(1) concat.simps(2) concat_append append_Nil2)
      then have "dent_rec_len buf (length (concat (butlast ws))) = length ?p" using dent_middle(2) [OF w(2)] by metis
      then show ?thesis using eq \<open>dent_inode r 0 \<noteq> 0 \<and> dent_name r 0 = name\<close> Cons.prems(3) False len
        by (simp del: le_image.simps, intro exI [of _ ws] exI [of _ r] exI [of _ rs]) auto
    qed
  next
    case False
    let ?u = "unlink_at buf (Some (length (concat ws))) (starts (length (concat (ws @ [r]))) rs) name"
    have IH: "case ?u of
      None \<Rightarrow> map_of (entries rs) name = None
    | Some buf1 \<Rightarrow> \<exists>us r' vs. (ws @ [r]) @ rs = us @ r' # vs \<and> length (ws @ [r]) \<le> length us \<and> dent_inode r' 0 \<noteq> 0 \<and> dent_name r' 0 = name \<and>
        buf1 = (if us = [] then set_bytes buf 0 (le_image 8 0)
                else set_bytes buf (length (concat (butlast us)) + 8) (le_image 2 (length (last us) + length r')))"
      by (rule Cons.IH) (use Cons.prems in simp_all)
    have "\<not> name_eq buf (length (concat ws)) name" using False eq by blast
    then have u: "unlink_at buf prev (starts (length (concat ws)) (r # rs)) name = ?u" by simp
    show ?thesis
    proof (cases ?u)
      case None
      then show ?thesis using IH False unfolding u by auto
    next
      case (Some buf1)
      then obtain us r' vs where "ws @ r # rs = us @ r' # vs" "length ws \<le> length us" "dent_inode r' 0 \<noteq> 0" "dent_name r' 0 = name"
        "buf1 = (if us = [] then set_bytes buf 0 (le_image 8 0)
                else set_bytes buf (length (concat (butlast us)) + 8) (le_image 2 (length (last us) + length r')))"
        using IH by (auto simp del: le_image.simps)
      then show ?thesis unfolding u Some option.case by blast
    qed
  qed
qed simp

lemma filter_absent: "name \<notin> fst ` set es \<Longrightarrow> filter (\<lambda>e. fst e \<noteq> name) es = es"
  by (auto simp: filter_id_conv)

lemma unlink_records:
  assumes ok: "block_ok rs" and d: "distinct (map fst (entries rs))"
  shows "case unlink_at (concat rs) None (dir_offs (concat rs) 0) name of
      None \<Rightarrow> map_of (entries rs) name = None
    | Some buf1 \<Rightarrow> \<exists>rs1. buf1 = concat rs1 \<and> block_ok rs1 \<and> map_of (entries rs) name \<noteq> None \<and>
        entries rs1 = filter (\<lambda>e. fst e \<noteq> name) (entries rs)"
proof -
  have o: "dir_offs (concat rs) 0 = starts 0 rs" "list_all rec_ok rs" "length (concat rs) = BS"
    using dir_offs_starts [of rs "[]"] ok by (auto simp: block_ok_def)
  have "None = (if ([] :: u8 list list) = [] then None else Some (length (concat (butlast ([] :: u8 list list)))))" by simp
  note U = unlink_at_starts [of "[]" rs "concat rs" None name, unfolded append_Nil concat.simps list.size, OF o(2) refl this]
  show ?thesis
  proof (cases "unlink_at (concat rs) None (starts 0 rs) name")
    case None
    then show ?thesis using U o(1) by simp
  next
    case (Some buf1)
    then obtain us r vs where s: "rs = us @ r # vs" "dent_inode r 0 \<noteq> 0" "dent_name r 0 = name"
      "buf1 = (if us = [] then set_bytes (concat rs) 0 (le_image 8 0)
                else set_bytes (concat rs) (length (concat (butlast us)) + 8) (le_image 2 (length (last us) + length r)))"
      using U by (auto simp del: le_image.simps)
    have out: "name \<notin> fst ` set (entries us)" "name \<notin> fst ` set (entries vs)" using d s(2,3) by (auto simp: s(1))
    have e: "filter (\<lambda>e. fst e \<noteq> name) (entries rs) = entries us @ entries vs"
      using s(2,3) out by (simp add: s(1) filter_absent)
    have m: "map_of (entries rs) name \<noteq> None" using s(1-3) by (simp add: map_add_def split: option.split)
    have r: "rec_ok r" using o(2) by (simp add: s(1))
    have "\<exists>rs1. buf1 = concat rs1 \<and> block_ok rs1 \<and> entries rs1 = entries us @ entries vs"
    proof (cases "us = []")
      case True
      have "12 \<le> length r" using r by (simp add: rec_ok_def)
      then have "buf1 = concat (set_bytes r 0 (le_image 8 0) # vs)"
        using s(4) True set_bytes_middle [of 0 "le_image 8 0" r "[]" "concat vs"] by (simp add: s(1) del: le_image.simps)
      then show ?thesis using freed_rec [OF r] ok True
        by (intro exI [of _ "set_bytes r 0 (le_image 8 0) # vs"]) (simp add: s(1) block_ok_def del: le_image.simps)
    next
      case False
      obtain ws p where us: "us = ws @ [p]" using False by (metis rev_exhaust)
      let ?q = "set_bytes p 8 (le_image 2 (length p + length r)) @ r"
      have p: "rec_ok p" "length p + length r < 2 ^ 16" using o(2,3) by (auto simp: s(1) us)
      note M = merged_rec [OF p]
      have "12 \<le> length p" using p(1) by (simp add: rec_ok_def)
      then have "buf1 = concat (ws @ ?q # vs)"
        using s(4) set_bytes_middle [of 8 "le_image 2 (length p + length r)" p "concat ws" "r @ concat vs"]
        by (simp add: s(1) us del: le_image.simps)
      moreover have "block_ok (ws @ ?q # vs)" using M ok by (simp add: s(1) us block_ok_def del: le_image.simps)
      moreover have "entries (ws @ ?q # vs) = entries us @ entries vs" using M by (simp add: us del: le_image.simps)
      ultimately show ?thesis by blast
    qed
    then show ?thesis using Some e m o(1) by auto
  qed
qed

end
