(* ===== verification/Cfs_Directory.thy ===== *)
theory Cfs_Directory
  imports Cfs_Names
begin

text \<open>
  Directories of CFS are finite maps from names to inodes: lookup, adding and removing an entry
  implement the operations of such a map, along every sequence of changes.
\<close>

section \<open>Directories\<close>

text \<open>
  The blocks \<open>bs\<close> of a directory hold the records \<open>rss\<close> in the running transaction; no name occurs
  twice.  A block that the transaction has changed is metadata or in use.
\<close>

definition dir_rep :: "cfs \<Rightarrow> dinode \<Rightarrow> nat list \<Rightarrow> u8 list list list \<Rightarrow> bool" where
  "dir_rep st d bs rss \<longleftrightarrow> file_ok st \<and> covers d bs \<and> i_size d = BS * length bs \<and> total_blocks st < 2 ^ 32 - 1 \<and> distinct bs \<and>
     uses st bs \<and> (\<forall>b \<in> set bs. data_start st \<le> b) \<and>
     list_all2 (\<lambda>b rs. mview st b = concat rs \<and> block_ok rs) bs rss \<and> distinct (map fst (entries (concat rss))) \<and>
     (\<forall>b \<in> fst ` set (txn st). b < data_start st \<or> b < total_blocks st \<and> used st (block_bitmap_start st) b)"

definition names :: "u8 list list list \<Rightarrow> u8 list \<Rightarrow> nat option" where
  "names rss = map_of (entries (concat rss))"

lemma dir_blocks_eq:
  assumes "dir_rep st d bs rss"
  shows "dir_blocks d = bs"
proof -
  have c: "covers d bs" "i_size d div BS = length bs" "\<forall>b \<in> set bs. 0 < b" using assms by (auto simp: dir_rep_def uses_def)
  have "map (map_fileblock d) [0..<length bs] = map (\<lambda>i. bs ! i) [0..<length bs]"
    using map_fileblock_eq [OF c(1)] by (intro map_cong) auto
  then show ?thesis using c(2,3) by (simp add: dir_blocks_def map_nth)
qed

lemma lookup_in_eq:
  assumes "meta_ok st" "\<forall>b \<in> set bs. b < total_blocks st" "list_all2 (\<lambda>b rs. mview st b = concat rs \<and> block_ok rs) bs rss"
  shows "lookup_in bs n st = ((case names rss n of None \<Rightarrow> 0 | Some i \<Rightarrow> i), st)"
  using assms(3,2)
proof (induction rule: list_all2_induct)
  case (Cons b bs rs rss)
  have r: "bd_read_block b st = (Some (concat rs), st)" using meta.read_law [OF assms(1), of b] Cons by simp
  have "block_ok rs" using Cons by simp
  note F = find_name_entries [OF this, of n]
  show ?case
  proof (cases "find_name (concat rs) n")
    case None
    then show ?thesis using F r Cons by (simp add: names_def map_add_def split: option.split)
  next
    case (Some off)
    then show ?thesis using F r by (simp add: names_def map_add_def)
  qed
qed (simp add: names_def)

lemma dir_lookup_eq:
  assumes "dir_rep st d bs rss"
  shows "dir_lookup d n st = ((case names rss n of None \<Rightarrow> 0 | Some i \<Rightarrow> i), st)"
proof -
  have "meta_ok st" "\<forall>b \<in> set bs. b < total_blocks st" "list_all2 (\<lambda>b rs. mview st b = concat rs \<and> block_ok rs) bs rss"
    using assms by (auto simp: dir_rep_def file_ok_def map_ok_def uses_def)
  from lookup_in_eq [OF this] show ?thesis by (simp add: dir_lookup_def dir_blocks_eq [OF assms])
qed

section \<open>Changing a block\<close>

lemma used_outside:
  assumes "block_bitmap_start st + bitmap_blocks (total_blocks st) \<le> data_start st" "c < total_blocks st"
    and "\<And>x. x < data_start st \<Longrightarrow> mview st1 x = mview st x"
  shows "used st1 (block_bitmap_start st) c = used st (block_bitmap_start st) c"
proof -
  have "c div (BS * 8) < bitmap_blocks (total_blocks st)"
    using assms(2) by (simp add: bitmap_blocks_def less_eq_div_iff_mult_less_eq div_less_iff_less_mult)
  then show ?thesis using assms(1,3) by (simp add: used_def)
qed

lemma fst_txn_put: "fst ` set (txn_put b buf l) = insert b (fst ` set l)"
proof (induction l)
  case (Cons e l)
  then show ?case by (cases e) (simp add: insert_commute)
qed simp

lemma dir_rep_write:
  assumes R: "dir_rep st d (xs @ b # ys) (us @ rs # vs)" "length us = length xs"
    and w: "bd_write_block b (concat rs1) st = (Some (), st1)" "block_ok rs1" "distinct (map fst (entries (concat (us @ rs1 # vs))))"
  shows "dir_rep st1 d (xs @ b # ys) (us @ rs1 # vs)"
proof -
  have f: "file_ok st" "meta_ok st" "data_start st \<le> b" "b < total_blocks st" "used st (block_bitmap_start st) b"
    "block_bitmap_start st + bitmap_blocks (total_blocks st) \<le> data_start st"
    using R(1) by (auto simp: dir_rep_def file_ok_def map_ok_def uses_def)
  have "length (concat rs1) = BS" using w(2) by (simp add: block_ok_def)
  note W = bd_write_effect [OF f(2) this w(1)]
  have g: "block_bitmap_start st1 = block_bitmap_start st" "total_blocks st1 = total_blocks st" "data_start st1 = data_start st"
    "fst ` set (txn st1) = insert b (fst ` set (txn st))" by (simp_all add: W(1) fst_txn_put)
  have us: "used st1 (block_bitmap_start st) c = used st (block_bitmap_start st) c" if "c < total_blocks st" for c
    by (rule used_outside [OF f(6) that]) (use f(3) W(3) in auto)
  have "file_ok st1" using f(1) W(2) by (simp add: file_ok_def g map_ok_def)
  moreover have "uses st1 (xs @ b # ys)" using R(1) us by (auto simp: dir_rep_def uses_def g)
  moreover have "list_all2 (\<lambda>b rs. mview st1 b = concat rs \<and> block_ok rs) (xs @ b # ys) (us @ rs1 # vs)"
  proof -
    have l: "list_all2 (\<lambda>b rs. mview st b = concat rs \<and> block_ok rs) xs us" "list_all2 (\<lambda>b rs. mview st b = concat rs \<and> block_ok rs) ys vs"
      using R by (auto simp: dir_rep_def list_all2_append)
    have "b \<notin> set xs" "b \<notin> set ys" using R(1) by (auto simp: dir_rep_def)
    then have "list_all2 (\<lambda>b rs. mview st1 b = concat rs \<and> block_ok rs) xs us" "list_all2 (\<lambda>b rs. mview st1 b = concat rs \<and> block_ok rs) ys vs"
      using l by (auto simp: W(3) list_all2_conv_all_nth)
    then show ?thesis using R(2) w(2) by (simp add: list_all2_append W(3))
  qed
  ultimately show ?thesis using R(1) w(3) f(4,5) us unfolding dir_rep_def g by auto
qed

section \<open>Adding an entry\<close>

text \<open>One block got the entry; what the blocks around it hold is the same.\<close>

definition added :: "nat list \<Rightarrow> u8 list list list \<Rightarrow> u8 list \<Rightarrow> nat \<Rightarrow> cfs \<Rightarrow> cfs \<Rightarrow> bool" where
  "added bs rss name child st st1 \<longleftrightarrow> (\<exists>xs b ys us rs vs rs1 es1 es2. bs = xs @ b # ys \<and> rss = us @ rs # vs \<and> length us = length xs \<and>
     block_ok rs1 \<and> entries rs = es1 @ es2 \<and> entries rs1 = es1 @ (name, child) # es2 \<and> bd_write_block b (concat rs1) st = (Some (), st1))"

lemma added_Cons:
  assumes "added bs rss name child st st1"
  shows "added (b # bs) (rs # rss) name child st st1"
proof -
  from assms obtain xs b' ys us rs' vs rs1 es1 es2 where a: "bs = xs @ b' # ys" "rss = us @ rs' # vs" "length us = length xs"
    "block_ok rs1" "entries rs' = es1 @ es2" "entries rs1 = es1 @ (name, child) # es2" "bd_write_block b' (concat rs1) st = (Some (), st1)"
    unfolding added_def by blast
  show ?thesis unfolding added_def
    by (rule exI [of _ "b # xs"], rule exI [of _ b'], rule exI [of _ ys], rule exI [of _ "rs # us"]) (use a in auto)
qed

lemma added_head:
  assumes "block_ok rs1" "entries rs = es1 @ es2" "entries rs1 = es1 @ (name, child) # es2" "bd_write_block b (concat rs1) st = (Some (), st1)"
  shows "added (b # bs) (rs # rss) name child st st1"
  unfolding added_def by (rule exI [of _ "[]"], rule exI [of _ b], rule exI [of _ bs], rule exI [of _ "[]"]) (use assms in auto)

lemma add_in_effect:
  assumes m: "meta_ok st" and c: "child < 2 ^ 64" "child \<noteq> 0" "length name < 256"
    and l: "list_all2 (\<lambda>b rs. mview st b = concat rs \<and> block_ok rs) bs rss" "\<forall>b \<in> set bs. b < total_blocks st"
    and a: "add_in bs name child ty st = (Some found, st1)"
  shows "if found then added bs rss name child st st1 else st1 = st"
  using l a
proof (induction rule: list_all2_induct)
  case (Cons b bs rs rss)
  let ?need = "align8 (12 + length name)"
  have r: "bd_read_block b st = (Some (concat rs), st)" using meta.read_law [OF m, of b] Cons by simp
  have ok: "block_ok rs" "list_all rec_ok rs" "length (concat rs) = BS" using Cons by (auto simp: block_ok_def)
  have o: "dir_offs (concat rs) 0 = starts 0 rs" using dir_offs_starts [of rs "[]"] ok by simp
  show ?case
  proof (cases "List.find (slot_fits (concat rs) ?need) (starts 0 rs)")
    case None
    then have "add_in bs name child ty st = (Some found, st1)" using Cons.prems(2) r o by (simp add: seq_io_def)
    then show ?thesis using Cons.IH Cons.prems(1) added_Cons by simp
  next
    case (Some off)
    obtain us r' vs where s: "rs = us @ r' # vs" "off = length (concat us)" "slot_fits (concat rs) ?need off"
      using find_offset [OF ok(2) Some] by blast
    obtain rs1 where f: "fill_dent (concat rs) off name child ty = concat rs1" "block_ok rs1"
      "entries rs1 = entries (us @ (if dent_inode r' 0 = 0 then [] else [r'])) @ (name, child) # entries vs"
      using fill_dent_records [OF ok(1) [unfolded s(1)] c s(3) [unfolded s(1,2)], of ty] unfolding s(1,2) by blast
    have w: "found" "bd_write_block b (concat rs1) st = (Some (), st1)"
      using Cons.prems(2) r Some f(1) o by (auto simp: seq_io_def ret_def split: option.splits prod.splits)
    have "entries rs = entries (us @ (if dent_inode r' 0 = 0 then [] else [r'])) @ entries vs" by (simp add: s(1))
    from added_head [OF f(2) this f(3) w(2)] show ?thesis using w(1) by simp
  qed
qed simp

lemma map_of_insert: "name \<notin> fst ` set (xs @ ys) \<Longrightarrow> map_of (xs @ (name, c) # ys) = (map_of (xs @ ys))(name \<mapsto> c)"
  by (induction xs) (auto simp: fun_eq_iff)

lemma names_None: "names rss name = None \<longleftrightarrow> name \<notin> fst ` set (entries (concat rss))"
  by (simp add: names_def map_of_eq_None_iff)

lemma dir_rep_added:
  assumes R: "dir_rep st d bs rss" and a: "added bs rss name child st st1" and n: "names rss name = None"
  shows "\<exists>rss1. dir_rep st1 d bs rss1 \<and> names rss1 = (names rss)(name \<mapsto> child)"
proof -
  from a obtain xs b ys us rs vs rs1 es1 es2 where s: "bs = xs @ b # ys" "rss = us @ rs # vs" "length us = length xs"
    "block_ok rs1" "entries rs = es1 @ es2" "entries rs1 = es1 @ (name, child) # es2" "bd_write_block b (concat rs1) st = (Some (), st1)"
    unfolding added_def by blast
  let ?xs = "entries (concat us) @ es1" and ?ys = "es2 @ entries (concat vs)"
  have old: "entries (concat rss) = ?xs @ ?ys" and new: "entries (concat (us @ rs1 # vs)) = ?xs @ (name, child) # ?ys"
    by (simp_all add: s(2,5,6))
  have out: "name \<notin> fst ` set (?xs @ ?ys)" using n unfolding names_None old .
  have "distinct (map fst (?xs @ ?ys))" using R old by (simp add: dir_rep_def)
  then have "distinct (map fst (entries (concat (us @ rs1 # vs))))" unfolding new using out by auto
  from dir_rep_write [OF R [unfolded s(1,2)] s(3,7,4) this] have "dir_rep st1 d bs (us @ rs1 # vs)" by (simp add: s(1))
  moreover have "names (us @ rs1 # vs) = (names rss)(name \<mapsto> child)"
    unfolding names_def old new by (rule map_of_insert [OF out])
  ultimately show ?thesis by blast
qed

text \<open>A new block with one entry.\<close>

lemma taken_mview:
  assumes "file_ok st" "b < total_blocks st" "data_start st \<le> x"
  shows "mview (taken st (block_bitmap_start st) b) x = mview st x"
proof (rule taken_effect(3))
  show "map_ok st (block_bitmap_start st) (total_blocks st)" using assms(1) by (simp add: file_ok_def)
  have "b div (BS * 8) < bitmap_blocks (total_blocks st)"
    using assms(2) by (simp add: bitmap_blocks_def less_eq_div_iff_mult_less_eq div_less_iff_less_mult)
  then show "x \<noteq> block_bitmap_start st + b div (BS * 8)" using assms(1,3) by (auto simp: file_ok_def)
qed (rule assms(2))

lemma same_volume_fields:
  "same_volume st st2 \<Longrightarrow> total_blocks st2 = total_blocks st \<and> data_start st2 = data_start st \<and> block_bitmap_start st2 = block_bitmap_start st"
  by (cases st; cases st2) (simp add: same_volume_def)

lemma store_used:
  assumes "file_ok st" "alloc_block st = (b, st1)" "b \<noteq> 0" "raw_write_block b buf st1 = (Some (), st2)" "length buf = BS"
    and "x < total_blocks st" "used st (block_bitmap_start st) x" "0 < x"
  shows "used st2 (block_bitmap_start st) x"
  using store_step(5) [OF assms(1-5), of "[x]"] same_volume_fields [OF store_step(7) [OF assms(1-5)]] assms(6-8) by (simp add: uses_def)

lemma store_step_mview:
  assumes ok: "file_ok st" and al: "alloc_block st = (b, st1)" "b \<noteq> 0" and wr: "raw_write_block b buf st1 = (Some (), st2)" "length buf = BS"
    and free: "\<forall>x \<in> fst ` set (txn st). x < data_start st \<or> x < total_blocks st \<and> used st (block_bitmap_start st) x"
  shows "data_start st \<le> x \<Longrightarrow> mview st2 x = (if x = b then buf else mview st x)" "data_start st \<le> b"
    "\<forall>x \<in> fst ` set (txn st2). x < data_start st \<or> x < total_blocks st \<and> used st (block_bitmap_start st) x"
    "txn_active st2"
proof -
  note S = store_step [OF ok al wr]
  have m: "map_ok st (block_bitmap_start st) (total_blocks st)" "0 < data_start st" using ok by (auto simp: file_ok_def)
  from alloc_block_effect [OF m al(1)] show lo: "data_start st \<le> b" using al(2) by auto
  have b: "b < total_blocks st" by (rule S(3))
  have st1: "st1 = (taken st (block_bitmap_start st) b)\<lparr>free_blocks := free_blocks st1\<rparr>" by (rule alloc_block_taken [OF ok al])
  have t: "txn st2 = txn st1" "txn_active st2 = txn_active st1"
    using wr(1) by (auto simp: raw_write_block_def split: prod.splits if_splits)
  have m1: "mview st1 x = mview st x" if "data_start st \<le> x" for x
    by (subst st1) (simp add: taken_mview [OF ok b that])
  let ?n = "block_bitmap_start st + b div (BS * 8)"
  have "b div (BS * 8) < bitmap_blocks (total_blocks st)"
    using b by (simp add: bitmap_blocks_def less_eq_div_iff_mult_less_eq div_less_iff_less_mult)
  then have n: "?n < data_start st" using ok by (auto simp: file_ok_def)
  have k: "fst ` set (txn st1) = insert ?n (fst ` set (txn st))" by (subst st1) (simp add: taken_def fst_txn_put)
  show "\<forall>x \<in> fst ` set (txn st2). x < data_start st \<or> x < total_blocks st \<and> used st (block_bitmap_start st) x"
    using free n by (simp add: t k)
  have act: "txn_active st1" using m(1) by (subst st1) (simp add: taken_def map_ok_def meta_ok_def)
  then show "txn_active st2" by (simp add: t)
  have "b \<notin> fst ` set (txn st1)" using free S(4) lo n by (auto simp: k)
  then have "map_of (txn st1) b = None" by (simp add: map_of_eq_None_iff)
  moreover have "data_of st1 = data_of st"
    by (subst (2) alloc_block_frame(1) [OF ok al], subst alloc_block_frame(1) [OF ok al]) (simp add: fun_eq_iff blk_def)
  ultimately have "mview st2 x = (if x = b then buf else mview st1 x)" for x
    using S(6) by (simp add: mview_def t act split: option.split)
  then show "data_start st \<le> x \<Longrightarrow> mview st2 x = (if x = b then buf else mview st x)" using m1 by simp
qed

lemma dir_rep_length: "dir_rep st d bs rss \<Longrightarrow> length bs < 2 ^ 32 - 1"
proof -
  assume R: "dir_rep st d bs rss"
  then have "set bs \<subseteq> {..<total_blocks st}" "distinct bs" "total_blocks st < 2 ^ 32 - 1" by (auto simp: dir_rep_def uses_def)
  then show ?thesis using card_mono [of "{..<total_blocks st}" "set bs"] by (simp add: distinct_card)
qed

lemma dir_rep_add_block:
  assumes R: "dir_rep st d bs rss" and c: "child < 2 ^ 64" "child \<noteq> 0" "length name < 256" and n: "names rss name = None"
    and a: "add_block d name child ty st = (Some d1, st2)"
  shows "\<exists>bs1 rss1. dir_rep st2 d1 bs1 rss1 \<and> names rss1 = (names rss)(name \<mapsto> child)"
proof -
  let ?buf = "set_bytes (zeros BS) 0 (dent_image child BS name ty)"
  have R': "file_ok st" "covers d bs" "i_size d = BS * length bs" "total_blocks st < 2 ^ 32 - 1" "distinct bs" "uses st bs"
    "\<forall>b \<in> set bs. data_start st \<le> b" "list_all2 (\<lambda>b rs. mview st b = concat rs \<and> block_ok rs) bs rss"
    "distinct (map fst (entries (concat rss)))"
    "\<forall>b \<in> fst ` set (txn st). b < data_start st \<or> b < total_blocks st \<and> used st (block_bitmap_start st) b"
    using R by (auto simp: dir_rep_def)
  obtain b st1 where al: "alloc_block st = (b, st1)" by force
  have b0: "b \<noteq> 0" using a al by (auto simp: add_block_def split: if_splits)
  obtain d2 where w: "raw_write_block b ?buf st1 = (Some (), st2)" "inode_push_extent b 1 d = Some d2" "d1 = d2\<lparr>i_size := i_size d2 + BS\<rparr>"
    using a al b0 by (auto simp: add_block_def seq_io_def split: option.splits prod.splits)
  have "align8 (12 + length name) \<le> length (zeros BS)" using c(3) by (simp add: align8_def) 
  note N = new_rec [OF c this, of ty, unfolded length_zeros]
  have buf: "block_ok [?buf]" "entries [?buf] = [(name, child)]" "length ?buf = BS" using N c(2) by (simp_all add: block_ok_def)
  note S = store_step [OF R'(1) al b0 w(1) buf(3)] and M = store_step_mview [OF R'(1) al b0 w(1) buf(3) R'(10)]
  have b64: "b < 2 ^ 64" using S(3) R'(1) by (auto simp: file_ok_def)
  note C = inode_push_extent_covers [OF R'(2) w(2) b0 b64 dir_rep_length [OF R]]
  have "covers d1 (bs @ [b])" using C(1) by (simp add: w(3) covers_def ext_start_def run_of_def ext_count_def cong: map_cong)
  moreover have "i_size d1 = BS * length (bs @ [b])" by (simp add: w(3), subst C(2), simp add: R'(3))
  moreover have fresh: "b \<notin> set bs" using S(4) R'(6) by (auto simp: uses_def)
  moreover have "list_all2 (\<lambda>b rs. mview st2 b = concat rs \<and> block_ok rs) (bs @ [b]) (rss @ [[?buf]])"
  proof (rule list_all2_appendI)
    show "list_all2 (\<lambda>b rs. mview st2 b = concat rs \<and> block_ok rs) bs rss"
      using R'(7,8) M(1) fresh by (auto simp: list_all2_conv_all_nth)
  qed (use M(1,2) buf(1) in auto)
  moreover have "distinct (map fst (entries (concat (rss @ [[?buf]]))))" using R'(9) n buf(2) by (simp add: names_None)
  moreover have g: "total_blocks st2 = total_blocks st" "data_start st2 = data_start st" "block_bitmap_start st2 = block_bitmap_start st"
    using same_volume_fields [OF S(7)] by simp_all
  moreover have "\<forall>x \<in> fst ` set (txn st2). x < data_start st \<or> x < total_blocks st \<and> used st2 (block_bitmap_start st) x"
    using M(3) store_used [OF R'(1) al b0 w(1) buf(3)] R'(1) by (metis file_ok_def gr_zeroI not_less_zero)
  ultimately have "dir_rep st2 d1 (bs @ [b]) (rss @ [[?buf]])"
    using S(1) S(5) [OF R'(6)] R'(4,5,7) M(2) unfolding dir_rep_def g by simp
  moreover have "names (rss @ [[?buf]]) = (names rss)(name \<mapsto> child)"
    using map_of_insert [of name "entries (concat rss)" "[]" child] n buf(2) by (simp add: names_def map_of_eq_None_iff)
  ultimately show ?thesis by blast
qed

lemma dir_rep_meta:
  assumes "dir_rep st d bs rss"
  shows "meta_ok st" "\<forall>b \<in> set bs. b < total_blocks st" "list_all2 (\<lambda>b rs. mview st b = concat rs \<and> block_ok rs) bs rss"
  using assms by (auto simp: dir_rep_def file_ok_def map_ok_def uses_def)

lemma dir_add_rep:
  assumes R: "dir_rep st d bs rss" and c: "child < 2 ^ 64" "child \<noteq> 0" "length name < 256" and n: "names rss name = None"
    and a: "dir_add d name child ty st = (Some d1, st1)"
  shows "\<exists>bs1 rss1. dir_rep st1 d1 bs1 rss1 \<and> names rss1 = (names rss)(name \<mapsto> child)"
proof -
  obtain r st2 where ai: "add_in bs name child ty st = (r, st2)" by force
  obtain found where f: "r = Some found" using a ai by (cases r) (auto simp: dir_add_def dir_blocks_eq [OF R] seq_io_def)
  note E = add_in_effect [OF dir_rep_meta(1) [OF R] c dir_rep_meta(3,2) [OF R] ai [unfolded f]]
  show ?thesis
  proof (cases found)
    case True
    then have "d1 = d" "st1 = st2" using a ai f by (auto simp: dir_add_def dir_blocks_eq [OF R] seq_io_def ret_def)
    then show ?thesis using dir_rep_added [OF R _ n] E True by fastforce
  next
    case False
    then have "add_block d name child ty st = (Some d1, st1)"
      using a ai f E by (simp add: dir_add_def dir_blocks_eq [OF R] seq_io_def)
    then show ?thesis by (rule dir_rep_add_block [OF R c n])
  qed
qed

section \<open>Removing an entry\<close>

lemma map_of_filter: "map_of (filter (\<lambda>e. fst e \<noteq> name) es) = (map_of es)(name := None)"
  by (induction es) (auto simp: fun_eq_iff)

definition removed :: "nat list \<Rightarrow> u8 list list list \<Rightarrow> u8 list \<Rightarrow> cfs \<Rightarrow> cfs \<Rightarrow> bool" where
  "removed bs rss name st st1 \<longleftrightarrow> (\<exists>xs b ys us rs vs rs1. bs = xs @ b # ys \<and> rss = us @ rs # vs \<and> length us = length xs \<and>
     block_ok rs1 \<and> map_of (entries rs) name \<noteq> None \<and> entries rs1 = filter (\<lambda>e. fst e \<noteq> name) (entries rs) \<and>
     bd_write_block b (concat rs1) st = (Some (), st1))"

lemma removed_Cons:
  assumes "removed bs rss name st st1"
  shows "removed (b # bs) (rs # rss) name st st1"
proof -
  from assms obtain xs b' ys us rs' vs rs1 where a: "bs = xs @ b' # ys" "rss = us @ rs' # vs" "length us = length xs"
    "block_ok rs1" "map_of (entries rs') name \<noteq> None" "entries rs1 = filter (\<lambda>e. fst e \<noteq> name) (entries rs')"
    "bd_write_block b' (concat rs1) st = (Some (), st1)"
    unfolding removed_def by blast
  show ?thesis unfolding removed_def
    by (rule exI [of _ "b # xs"], rule exI [of _ b'], rule exI [of _ ys], rule exI [of _ "rs # us"]) (use a in auto)
qed

lemma remove_in_effect:
  assumes m: "meta_ok st"
    and l: "list_all2 (\<lambda>b rs. mview st b = concat rs \<and> block_ok rs) bs rss" "\<forall>b \<in> set bs. b < total_blocks st"
      "distinct (map fst (entries (concat rss)))" "remove_in bs name st = (r, st1)"
  shows "case r of None \<Rightarrow> st1 = st \<and> (names rss name = None \<or> CFS_MAX_TXN \<le> length (txn st)) | Some _ \<Rightarrow> removed bs rss name st st1"
  using l
proof (induction rule: list_all2_induct)
  case Nil
  then show ?case by (simp add: names_def)
next
  case (Cons b bs rs rss)
  have b: "b < total_blocks st" using Cons.prems by simp
  have rd: "bd_read_block b st = (Some (concat rs), st)" using meta.read_law [OF m b] Cons.hyps by simp
  have ok: "block_ok rs" "distinct (map fst (entries rs))" using Cons by auto
  note U = unlink_records [OF ok, of name]
  show ?case
  proof (cases "unlink_at (concat rs) None (dir_offs (concat rs) 0) name")
    case None
    then have "remove_in bs name st = (r, st1)" "map_of (entries rs) name = None" using Cons.prems(3) rd U by (simp_all add: seq_io_def)
    moreover have "names (rs # rss) name = names rss name" using calculation(2) by (simp add: names_def map_add_def split: option.split)
    ultimately show ?thesis using Cons.IH Cons.prems(1,2) removed_Cons by (cases r) auto
  next
    case (Some buf1)
    then obtain rs1 where f: "buf1 = concat rs1" "block_ok rs1" "map_of (entries rs) name \<noteq> None"
      "entries rs1 = filter (\<lambda>e. fst e \<noteq> name) (entries rs)" using U by auto
    have w: "bd_write_block b (concat rs1) st = (r, st1)" using Cons.prems(3) rd Some f(1) by (simp add: seq_io_def)
    show ?thesis
    proof (cases r)
      case None
      then have "st1 = st" "CFS_MAX_TXN \<le> length (txn st)"
        using w m by (auto simp: bd_write_block_def meta_ok_def split: if_splits)
      then show ?thesis using None by simp
    next
      case (Some u)
      have "removed (b # bs) (rs # rss) name st st1" unfolding removed_def
        by (rule exI [of _ "[]"], rule exI [of _ b], rule exI [of _ bs], rule exI [of _ "[]"]) (use f w Some in auto)
      then show ?thesis using Some by simp
    qed
  qed
qed

lemma dir_rep_removed:
  assumes R: "dir_rep st d bs rss" and a: "removed bs rss name st st1"
  shows "\<exists>rss1. dir_rep st1 d bs rss1 \<and> names rss1 = (names rss)(name := None)" "names rss name \<noteq> None"
proof -
  from a obtain xs b ys us rs vs rs1 where s: "bs = xs @ b # ys" "rss = us @ rs # vs" "length us = length xs"
    "block_ok rs1" "map_of (entries rs) name \<noteq> None" "entries rs1 = filter (\<lambda>e. fst e \<noteq> name) (entries rs)"
    "bd_write_block b (concat rs1) st = (Some (), st1)" unfolding removed_def by blast
  have D: "distinct (map fst (entries (concat rss)))" using R by (simp add: dir_rep_def)
  have i: "name \<in> fst ` set (entries rs)" using s(5) by (simp add: map_of_eq_None_iff)
  have "name \<notin> fst ` set (entries (concat us))" "name \<notin> fst ` set (entries (concat vs))" using D i by (auto simp: s(2))
  then have new: "entries (concat (us @ rs1 # vs)) = filter (\<lambda>e. fst e \<noteq> name) (entries (concat rss))"
    by (simp add: s(2,6) filter_absent)
  have "distinct (map fst (entries (concat (us @ rs1 # vs))))" unfolding new using D by (rule distinct_map_filter)
  from dir_rep_write [OF R [unfolded s(1,2)] s(3,7,4) this] have "dir_rep st1 d bs (us @ rs1 # vs)" by (simp add: s(1))
  moreover have "names (us @ rs1 # vs) = (names rss)(name := None)" unfolding names_def new by (rule map_of_filter)
  ultimately show "\<exists>rss1. dir_rep st1 d bs rss1 \<and> names rss1 = (names rss)(name := None)" by blast
  show "names rss name \<noteq> None" using i unfolding names_None by (auto simp: s(2))
qed

lemma dir_remove_rep:
  assumes R: "dir_rep st d bs rss" and r: "dir_remove d name st = (r, st1)"
  shows "case r of None \<Rightarrow> st1 = st \<and> (names rss name = None \<or> CFS_MAX_TXN \<le> length (txn st))
    | Some _ \<Rightarrow> names rss name \<noteq> None \<and> (\<exists>rss1. dir_rep st1 d bs rss1 \<and> names rss1 = (names rss)(name := None))"
proof -
  have "remove_in bs name st = (r, st1)" using r by (simp add: dir_remove_def dir_blocks_eq [OF R])
  moreover have "distinct (map fst (entries (concat rss)))" using R by (simp add: dir_rep_def)
  ultimately show ?thesis using remove_in_effect [OF dir_rep_meta(1,3,2) [OF R]] dir_rep_removed [OF R] by (fastforce split: option.splits)
qed

section \<open>Sequences of changes\<close>

text \<open>Steps that are carried out one after the other until one of them fails.\<close>

fun steps_of :: "('c \<Rightarrow> 's \<Rightarrow> 's option) \<Rightarrow> 'c list \<Rightarrow> 's \<Rightarrow> 's option" where
  "steps_of step [] s = Some s"
| "steps_of step (c # cs) s = (case step c s of None \<Rightarrow> None | Some s1 \<Rightarrow> steps_of step cs s1)"

fun all_legal :: "('c \<Rightarrow> 'm \<Rightarrow> bool) \<Rightarrow> ('c \<Rightarrow> 'm \<Rightarrow> 'm) \<Rightarrow> 'c list \<Rightarrow> 'm \<Rightarrow> bool" where
  "all_legal legal spec [] m = True"
| "all_legal legal spec (c # cs) m = (legal c m \<and> all_legal legal spec cs (spec c m))"

text \<open>A store of names: what it looks up is the map it represents, and a step changes that map
  as its specification says.\<close>

locale name_store =
  fixes rep :: "'s \<Rightarrow> ('n \<Rightarrow> nat option) \<Rightarrow> bool" and look :: "'s \<Rightarrow> 'n \<Rightarrow> nat"
    and step :: "'c \<Rightarrow> 's \<Rightarrow> 's option" and spec :: "'c \<Rightarrow> ('n \<Rightarrow> nat option) \<Rightarrow> 'n \<Rightarrow> nat option"
    and legal :: "'c \<Rightarrow> ('n \<Rightarrow> nat option) \<Rightarrow> bool"
  assumes look_law: "rep s m \<Longrightarrow> look s n = (case m n of None \<Rightarrow> 0 | Some i \<Rightarrow> i)"
    and step_law: "rep s m \<Longrightarrow> legal c m \<Longrightarrow> step c s = Some s' \<Longrightarrow> rep s' (spec c m)"
begin

lemma steps_rep: "rep s m \<Longrightarrow> all_legal legal spec cs m \<Longrightarrow> steps_of step cs s = Some s' \<Longrightarrow> rep s' (fold spec cs m)"
  by (induction cs arbitrary: s m) (auto split: option.splits dest: step_law)

lemma steps_look:
  "rep s m \<Longrightarrow> all_legal legal spec cs m \<Longrightarrow> steps_of step cs s = Some s' \<Longrightarrow>
   look s' n = (case fold spec cs m n of None \<Rightarrow> 0 | Some i \<Rightarrow> i)"
  using steps_rep look_law by blast

end

datatype dir_change = Enter "u8 list" nat nat | Leave "u8 list"

fun dir_step :: "dir_change \<Rightarrow> dinode \<times> cfs \<Rightarrow> (dinode \<times> cfs) option" where
  "dir_step (Enter name child ty) (d, st) = (case dir_add d name child ty st of (None, _) \<Rightarrow> None | (Some d1, st1) \<Rightarrow> Some (d1, st1))"
| "dir_step (Leave name) (d, st) = (case dir_remove d name st of (None, _) \<Rightarrow> None | (Some _, st1) \<Rightarrow> Some (d, st1))"

fun map_step :: "dir_change \<Rightarrow> (u8 list \<Rightarrow> nat option) \<Rightarrow> u8 list \<Rightarrow> nat option" where
  "map_step (Enter name child ty) m = m(name \<mapsto> child)"
| "map_step (Leave name) m = m(name := None)"

fun may_step :: "dir_change \<Rightarrow> (u8 list \<Rightarrow> nat option) \<Rightarrow> bool" where
  "may_step (Enter name child ty) m \<longleftrightarrow> m name = None \<and> child < 2 ^ 64 \<and> child \<noteq> 0 \<and> length name < 256"
| "may_step (Leave name) m \<longleftrightarrow> True"

definition dir_map :: "dinode \<times> cfs \<Rightarrow> (u8 list \<Rightarrow> nat option) \<Rightarrow> bool" where
  "dir_map s m \<longleftrightarrow> (\<exists>bs rss. dir_rep (snd s) (fst s) bs rss \<and> m = names rss)"

interpretation dirs: name_store dir_map "\<lambda>s n. fst (dir_lookup (fst s) n (snd s))" dir_step map_step may_step
proof
  fix s m n assume "dir_map s m"
  then show "fst (dir_lookup (fst s) n (snd s)) = (case m n of None \<Rightarrow> 0 | Some i \<Rightarrow> i)"
    using dir_lookup_eq by (fastforce simp: dir_map_def)
next
  fix s m c s' assume a: "dir_map s m" "may_step c m" "dir_step c s = Some s'"
  obtain d st where s: "s = (d, st)" by force
  obtain bs rss where R: "dir_rep st d bs rss" "m = names rss" using a(1) by (auto simp: dir_map_def s)
  show "dir_map s' (map_step c m)"
  proof (cases c)
    case (Enter name child ty)
    then obtain d1 st1 where "dir_add d name child ty st = (Some d1, st1)" "s' = (d1, st1)"
      using a(3) by (auto simp: s split: prod.splits option.splits)
    then show ?thesis using dir_add_rep [OF R(1)] a(2) R(2) Enter by (fastforce simp: dir_map_def)
  next
    case (Leave name)
    then obtain u st1 where "dir_remove d name st = (Some u, st1)" "s' = (d, st1)"
      using a(3) by (auto simp: s split: prod.splits option.splits)
    then show ?thesis using dir_remove_rep [OF R(1)] R(2) Leave by (fastforce simp: dir_map_def)
  qed
qed

section \<open>Properties\<close>

text \<open>C33. Along every sequence of entries added and removed inside a transaction, in blocks that are
  split, merged and allocated on the way, looking up any name in the directory returns the inode
  that the finite map of names says, or 0 where the map has none.\<close>

theorem directory_is_map:
  assumes "dir_rep st d bs rss" "all_legal may_step map_step cs (names rss)" "steps_of dir_step cs (d, st) = Some (d1, st1)"
  shows "fst (dir_lookup d1 n st1) = (case fold map_step cs (names rss) n of None \<Rightarrow> 0 | Some i \<Rightarrow> i)"
proof -
  have "dir_map (d, st) (names rss)" using assms(1) by (auto simp: dir_map_def)
  from dirs.steps_look [OF this assms(2,3), of n] show ?thesis by simp
qed

theorem directory_is_map_witness:
  "\<exists>d1 st1. steps_of dir_step [Enter [0x61] 5 1] (blank_dinode, sample_txn) = Some (d1, st1) \<and>
     fst (dir_lookup d1 [0x61] st1) = 5 \<and> fst (dir_lookup d1 [0x62] st1) = 0"
proof -
  obtain b sa where a: "alloc_block sample_txn = (b, sa)" "b \<noteq> 0" using sample_alloc by blast
  have s: "map_ok sample_txn (block_bitmap_start sample_txn) (total_blocks sample_txn)" "0 < data_start sample_txn"
    using sample_file_ok by (auto simp: file_ok_def)
  from alloc_block_effect [OF s a(1)] a(2) have "vol_ok sa (c_drive sa)" "b < total_blocks sample_txn" by (auto simp: map_ok_def meta_ok_def)
  moreover have "total_blocks sa = total_blocks sample_txn" by (subst alloc_block_frame(1) [OF sample_file_ok a], simp)
  ultimately have w: "raw_write_block b buf sa = (Some (), sa\<lparr>c_drive := put_all (wr sa [(b, buf)]) (c_drive sa)\<rparr>)" for buf
    by (intro raw_write_eq) simp_all
  obtain d1 st1 where r: "steps_of dir_step [Enter [0x61] 5 1] (blank_dinode, sample_txn) = Some (d1, st1)"
    by (simp add: dir_add_def dir_blocks_def blank_dinode_def add_block_def a seq_io_def ret_def w inode_push_extent_def Let_def del: wr_simps)
  have "dir_rep sample_txn blank_dinode [] []"
    using sample_file_ok by (simp add: dir_rep_def covers_def blank_dinode_def uses_def sample_txn_def sample_volume_def zeros_def)
  from directory_is_map [OF this _ r] show ?thesis using r by (simp add: names_def)
qed

end
