(* ===== verification/Cfs_Fsck.thy ===== *)
theory Cfs_Fsck
  imports Cfs
begin

text \<open>
  \<open>src/cfs.c\<close>: the consistency check.  It walks the directory tree from the root, marks the
  inodes it reaches and the blocks they cover, counts the references, and compares bitmaps, link
  counts, checksums and free counts with what is on disk, correcting them on request.  The static
  work areas are the fields of a record; the stack's top is the head of a list.

  The counters of the result are \<open>int\<close>s that are only counted up and added.  The model keeps how often
  each has been counted up, and the result has these numbers as 32-bit signed values, so a counter
  that overflows does so in the model.  The flag \<open>fk_fault\<close> is set when the code reads or writes
  outside an array (more extents than an inode has room for, a name behind the block); the check then
  has no result.
\<close>

section \<open>Work areas\<close>

record 'n fsck_result =
  sb_bad :: 'n
  block_badref :: 'n
  block_leaks :: 'n
  block_dup :: 'n
  inode_badref :: 'n
  inode_leaks :: 'n
  linkcount_bad :: 'n
  freecount_bad :: 'n
  sb_csum_bad :: 'n
  inode_csum_bad :: 'n
  total :: 'n

type_synonym fsck_counts = "nat fsck_result"

record fsck =
  fk_bbm :: "nat \<Rightarrow> bool"
  fk_ibm :: "nat \<Rightarrow> bool"
  fk_refs :: "nat \<Rightarrow> nat"
  fk_stack :: "nat list"
  fk_out :: fsck_counts
  fk_fault :: bool

abbreviation (input) CFS_FSCK_MAX_BLOCKS :: nat where "CFS_FSCK_MAX_BLOCKS \<equiv> 65536"
abbreviation (input) CFS_FSCK_MAX_INODES :: nat where "CFS_FSCK_MAX_INODES \<equiv> 16384"
abbreviation (input) CFS_FSCK_MAX_STACK :: nat where "CFS_FSCK_MAX_STACK \<equiv> 2048"

definition no_problems :: fsck_counts where
  "no_problems = \<lparr>sb_bad = 0, block_badref = 0, block_leaks = 0, block_dup = 0, inode_badref = 0, inode_leaks = 0,
     linkcount_bad = 0, freecount_bad = 0, sb_csum_bad = 0, inode_csum_bad = 0, total = 0\<rparr>"

definition problems :: "fsck_counts \<Rightarrow> nat" where
  "problems r = sb_bad r + block_badref r + block_leaks r + block_dup r + inode_badref r + inode_leaks r +
     linkcount_bad r + freecount_bad r + sb_csum_bad r + inode_csum_bad r"

text \<open>A counter as the \<open>int\<close> it is.\<close>

definition as_int :: "nat \<Rightarrow> int" where
  "as_int n = sint (word_of_nat n :: 32 word)"

definition report :: "fsck_counts \<Rightarrow> int fsck_result" where
  "report r = \<lparr>sb_bad = as_int (sb_bad r), block_badref = as_int (block_badref r), block_leaks = as_int (block_leaks r), block_dup = as_int (block_dup r),
     inode_badref = as_int (inode_badref r), inode_leaks = as_int (inode_leaks r), linkcount_bad = as_int (linkcount_bad r),
     freecount_bad = as_int (freecount_bad r), sb_csum_bad = as_int (sb_csum_bad r), inode_csum_bad = as_int (inode_csum_bad r), total = as_int (total r)\<rparr>"

section \<open>The walk\<close>

definition mark_block :: "cfs \<Rightarrow> nat \<Rightarrow> fsck \<Rightarrow> fsck" where
  "mark_block st b k =
     (if b < data_start st \<or> total_blocks st \<le> b then k\<lparr>fk_out := (fk_out k)\<lparr>block_badref := block_badref (fk_out k) + 1\<rparr>\<rparr>
      else if fk_bbm k b then k\<lparr>fk_out := (fk_out k)\<lparr>block_dup := block_dup (fk_out k) + 1\<rparr>\<rparr>
      else k\<lparr>fk_bbm := (fk_bbm k)(b := True)\<rparr>)"

definition fsck_mark_blocks :: "cfs \<Rightarrow> dinode \<Rightarrow> fsck \<Rightarrow> fsck" where
  "fsck_mark_blocks st d k =
     fold (mark_block st) (extent_blocks d) (if nextents d > CFS_INLINE_EXTENTS then k\<lparr>fk_fault := True\<rparr> else k)"

definition is_dots :: "u8 list \<Rightarrow> nat \<Rightarrow> bool" where
  "is_dots buf off \<longleftrightarrow> dent_name buf off = [0x2E] \<or> dent_name buf off = [0x2E, 0x2E]"

definition count_ref :: "nat \<Rightarrow> fsck \<Rightarrow> fsck" where
  "count_ref c k = (if c < CFS_FSCK_MAX_INODES then k\<lparr>fk_refs := (fk_refs k)(c := (fk_refs k c + 1) mod 2 ^ 16)\<rparr> else k)"

text \<open>The code looks at the characters of names of one or two bytes.\<close>

definition look_at_name :: "u8 list \<Rightarrow> nat \<Rightarrow> fsck \<Rightarrow> fsck" where
  "look_at_name buf off k =
     (if dent_name_len buf off \<in> {1, 2} \<and> BS < off + CFS_DIRENT_HDR + dent_name_len buf off then k\<lparr>fk_fault := True\<rparr> else k)"

text \<open>An inode that is seen for the first time.\<close>

definition reach_inode :: "cfs \<Rightarrow> nat \<Rightarrow> fsck \<Rightarrow> fsck" where
  "reach_inode st c k =
     (let k1 = k\<lparr>fk_ibm := (fk_ibm k)(c := True)\<rparr>
      in case fst (read_dinode c st) of
           None \<Rightarrow> k1
         | Some d \<Rightarrow>
             if CFS_ISDIR (i_mode d)
             then (if length (fk_stack k1) < CFS_FSCK_MAX_STACK then k1\<lparr>fk_stack := c # fk_stack k1\<rparr>
                   else k1\<lparr>fk_out := (fk_out k1)\<lparr>sb_bad := sb_bad (fk_out k1) + 1\<rparr>\<rparr>)
             else fsck_mark_blocks st d k1)"

definition visit_entry :: "cfs \<Rightarrow> u8 list \<Rightarrow> nat \<Rightarrow> fsck \<Rightarrow> fsck" where
  "visit_entry st buf off k =
     (let c = dent_inode buf off; k1 = look_at_name buf off (count_ref c k)
      in if c = 0 then k
         else if is_dots buf off then k1
         else if total_inodes st \<le> c then k1\<lparr>fk_out := (fk_out k1)\<lparr>inode_badref := inode_badref (fk_out k1) + 1\<rparr>\<rparr>
         else if fk_ibm k1 c then k1
         else reach_inode st c k1)"

text \<open>The blocks of a directory that can be read, in order.\<close>

definition readable_blocks :: "cfs \<Rightarrow> dinode \<Rightarrow> u8 list list" where
  "readable_blocks st d = List.map_filter (\<lambda>pb. fst (raw_read_block pb st)) (dir_blocks d)"

definition visit_dir :: "cfs \<Rightarrow> dinode \<Rightarrow> fsck \<Rightarrow> fsck" where
  "visit_dir st d k = fold (\<lambda>buf. fold (visit_entry st buf) (dir_offs buf 0)) (readable_blocks st d) k"

definition pop_dir :: "cfs \<Rightarrow> fsck \<Rightarrow> fsck" where
  "pop_dir st k =
     (let k1 = k\<lparr>fk_stack := tl (fk_stack k)\<rparr>
      in case fst (read_dinode (hd (fk_stack k)) st) of
           None \<Rightarrow> k1
         | Some d \<Rightarrow> visit_dir st d (fsck_mark_blocks st d k1))"

text \<open>The walk ends: an inode is marked before it goes to the stack, so it goes there once.\<close>

definition walk_left :: "cfs \<Rightarrow> fsck \<Rightarrow> nat" where
  "walk_left st k = 2 * card {c. c < total_inodes st \<and> \<not> fk_ibm k c} + length (fk_stack k)"

lemma mark_block_keeps [simp]: "fk_ibm (mark_block st b k) = fk_ibm k" "fk_stack (mark_block st b k) = fk_stack k"
  "fk_refs (mark_block st b k) = fk_refs k" "sb_bad (fk_out (mark_block st b k)) = sb_bad (fk_out k)"
  by (simp_all add: mark_block_def)

lemma look_at_name_keeps [simp]: "fk_ibm (look_at_name buf off k) = fk_ibm k" "fk_stack (look_at_name buf off k) = fk_stack k"
  "fk_bbm (look_at_name buf off k) = fk_bbm k" "fk_out (look_at_name buf off k) = fk_out k"
  by (simp_all add: look_at_name_def)

lemma mark_blocks_keep [simp]: "fk_ibm (fsck_mark_blocks st d k) = fk_ibm k" "fk_stack (fsck_mark_blocks st d k) = fk_stack k"
  "fk_refs (fsck_mark_blocks st d k) = fk_refs k" "sb_bad (fk_out (fsck_mark_blocks st d k)) = sb_bad (fk_out k)"
proof -
  have "fk_ibm (fold (mark_block st) bs k) = fk_ibm k \<and> fk_stack (fold (mark_block st) bs k) = fk_stack k \<and>
    fk_refs (fold (mark_block st) bs k) = fk_refs k \<and> sb_bad (fk_out (fold (mark_block st) bs k)) = sb_bad (fk_out k)" for bs k
    by (induction bs arbitrary: k) simp_all
  then show "fk_ibm (fsck_mark_blocks st d k) = fk_ibm k" "fk_stack (fsck_mark_blocks st d k) = fk_stack k"
    "fk_refs (fsck_mark_blocks st d k) = fk_refs k" "sb_bad (fk_out (fsck_mark_blocks st d k)) = sb_bad (fk_out k)"
    by (simp_all add: fsck_mark_blocks_def)
qed

lemma count_ref_keeps [simp]: "fk_ibm (count_ref c k) = fk_ibm k" "fk_stack (count_ref c k) = fk_stack k"
  "fk_bbm (count_ref c k) = fk_bbm k" "fk_out (count_ref c k) = fk_out k"
  by (simp_all add: count_ref_def)

lemma reach_inode_marks: "fk_ibm (reach_inode st c k) = (fk_ibm k)(c := True)"
  by (simp add: reach_inode_def Let_def split: option.split)

lemma reach_inode_stack: "fk_stack (reach_inode st c k) = fk_stack k \<or> fk_stack (reach_inode st c k) = c # fk_stack k"
  by (simp add: reach_inode_def Let_def split: option.split)

lemma visit_entry_left: "walk_left st (visit_entry st buf off k) \<le> walk_left st k"
proof -
  let ?c = "dent_inode buf off" and ?k = "look_at_name buf off (count_ref (dent_inode buf off) k)"
  have "walk_left st (reach_inode st ?c ?k) \<le> walk_left st k" if c: "?c < total_inodes st" "\<not> fk_ibm k ?c"
  proof -
    let ?A = "{c. c < total_inodes st \<and> \<not> fk_ibm k c}"
    have e: "{c. c < total_inodes st \<and> \<not> fk_ibm (reach_inode st ?c ?k) c} = ?A - {?c}" by (auto simp: reach_inode_marks)
    have "finite ?A" "?c \<in> ?A" using c by simp_all
    then have "card ?A = Suc (card (?A - {?c}))" by (rule card_Suc_Diff1 [symmetric])
    moreover have "length (fk_stack (reach_inode st ?c ?k)) \<le> Suc (length (fk_stack k))"
      using reach_inode_stack [of st ?c ?k] by (elim disjE) simp_all
    ultimately show ?thesis unfolding walk_left_def e by linarith
  qed
  then show ?thesis by (simp add: visit_entry_def Let_def) (auto simp: walk_left_def)
qed

lemma fold_left: "(\<And>x k. walk_left st (f x k) \<le> walk_left st k) \<Longrightarrow> walk_left st (fold f xs k) \<le> walk_left st k"
  by (induction xs arbitrary: k) (auto intro: order_trans)

lemma pop_dir_left:
  assumes "fk_stack k \<noteq> []"
  shows "walk_left st (pop_dir st k) < walk_left st k"
proof -
  have v: "walk_left st (visit_dir st d k') \<le> walk_left st k'" for d k'
    unfolding visit_dir_def by (intro fold_left visit_entry_left)
  have p: "walk_left st (k\<lparr>fk_stack := tl (fk_stack k)\<rparr>) < walk_left st k" using assms by (simp add: walk_left_def)
  have m: "walk_left st (fsck_mark_blocks st d k') = walk_left st k'" for d k' by (simp add: walk_left_def)
  have "walk_left st (visit_dir st d (fsck_mark_blocks st d (k\<lparr>fk_stack := tl (fk_stack k)\<rparr>))) < walk_left st k" for d
    using v [of d "fsck_mark_blocks st d (k\<lparr>fk_stack := tl (fk_stack k)\<rparr>)"] p m by simp
  then show ?thesis using p by (simp add: pop_dir_def Let_def split: option.split)
qed

function fsck_walk :: "cfs \<Rightarrow> fsck \<Rightarrow> fsck" where
  "fsck_walk st k = (if fk_stack k = [] then k else fsck_walk st (pop_dir st k))"
  by pat_completeness auto
termination by (relation "measure (\<lambda>(st, k). walk_left st k)") (auto intro: pop_dir_left)

declare fsck_walk.simps [simp del]

text \<open>The metadata region is in use and the root is reached at the start; the code sets their bits without
  comparing them with the size of its arrays.\<close>

definition fsck_start :: "cfs \<Rightarrow> fsck" where
  "fsck_start st = \<lparr>fk_bbm = (\<lambda>b. b < data_start st), fk_ibm = (\<lambda>n. n = root_ino st), fk_refs = (\<lambda>_. 0),
     fk_stack = [root_ino st], fk_out = no_problems,
     fk_fault = (CFS_FSCK_MAX_BLOCKS < data_start st \<or> CFS_FSCK_MAX_INODES \<le> root_ino st)\<rparr>"

section \<open>Comparing and repairing\<close>

text \<open>One bitmap block from number \<open>base\<close> on: \<open>want\<close> says which bits should be set and \<open>counts\<close> which
  differences are reported.  The result has the block, the missing and the superfluous bits.\<close>

definition compare_bit :: "bool \<Rightarrow> (nat \<Rightarrow> bool) \<Rightarrow> (nat \<Rightarrow> bool) \<Rightarrow> nat \<Rightarrow> nat \<Rightarrow> u8 list \<times> nat \<times> nat \<Rightarrow> u8 list \<times> nat \<times> nat" where
  "compare_bit repair want counts base i = (\<lambda>(buf, missing, leaks).
     let b = base + i; disk = bit_at buf i
     in ((if repair \<and> want b \<noteq> disk then put_bit buf i (want b) else buf),
         (if counts b \<and> want b \<and> \<not> disk then missing + 1 else missing),
         (if counts b \<and> \<not> want b \<and> disk then leaks + 1 else leaks)))"

definition compare_block :: "bool \<Rightarrow> (nat \<Rightarrow> bool) \<Rightarrow> (nat \<Rightarrow> bool) \<Rightarrow> nat \<Rightarrow> u8 list \<Rightarrow> u8 list \<times> nat \<times> nat" where
  "compare_block repair want counts base buf = fold (compare_bit repair want counts base) [0..<BS * 8] (buf, 0, 0)"

fun compare_bitmap :: "bool \<Rightarrow> (nat \<Rightarrow> bool) \<Rightarrow> (nat \<Rightarrow> bool) \<Rightarrow> nat \<Rightarrow> nat \<Rightarrow> nat \<Rightarrow> cfs \<Rightarrow> (nat \<times> nat) \<times> cfs" where
  "compare_bitmap repair want counts region bb 0 st = ((0, 0), st)"
| "compare_bitmap repair want counts region bb (Suc n) st =
     (case raw_read_block (region + bb) st of
        (None, st1) \<Rightarrow> ((0, 0), st1)
      | (Some buf, st1) \<Rightarrow>
          (let (buf1, missing, leaks) = compare_block repair want counts (bb * (BS * 8)) buf;
               st2 = (if repair \<and> buf1 \<noteq> buf then snd (raw_write_block (region + bb) buf1 st1) else st1);
               ((m, l), st3) = compare_bitmap repair want counts region (bb + 1) n st2
           in ((missing + m, leaks + l), st3)))"

text \<open>The link count and the checksum of one inode.  A corrected link count is compared with the
  checksum as it was, as the code does.\<close>

definition check_inode :: "bool \<Rightarrow> fsck \<Rightarrow> nat \<Rightarrow> fsck_counts \<times> cfs \<Rightarrow> fsck_counts \<times> cfs" where
  "check_inode repair k n = (\<lambda>(r, st).
     if \<not> fk_ibm k n then (r, st)
     else (case read_dinode n st of
             (None, st1) \<Rightarrow> (r, st1)
           | (Some d, st1) \<Rightarrow>
               let bad = unat (i_links d) \<noteq> fk_refs k n;
                   d1 = (if bad \<and> repair then d\<lparr>i_links := of_nat (fk_refs k n)\<rparr> else d);
                   csum = (c_flags st1 AND 1 \<noteq> 0 \<and> i_csum d1 \<noteq> inode_csum d1);
                   r1 = (if bad then r\<lparr>linkcount_bad := linkcount_bad r + 1\<rparr> else r);
                   r2 = (if csum then r1\<lparr>inode_csum_bad := inode_csum_bad r1 + 1\<rparr> else r1)
               in (r2, if repair \<and> (bad \<or> csum) then snd (write_dinode n d1 st1) else st1)))"

definition check_super :: "bool \<Rightarrow> nat \<Rightarrow> nat \<Rightarrow> fsck_counts \<times> cfs \<Rightarrow> fsck_counts \<times> cfs" where
  "check_super repair want_fb want_fi = (\<lambda>(r, st).
     case raw_read_block 0 st of
       (None, st1) \<Rightarrow> (r, st1)
     | (Some sb, st1) \<Rightarrow>
         let bad = (field sb 32 8 \<noteq> want_fb \<or> field sb 40 8 \<noteq> want_fi);
             r1 = (if bad then r\<lparr>freecount_bad := freecount_bad r + 1\<rparr> else r);
             sb1 = (if bad \<and> repair then set_bytes (set_bytes (set_bytes sb 32 (le_image 8 want_fb)) 40 (le_image 8 want_fi)) 128 (le_image 4 1) else sb);
             csum = (c_flags st1 AND 1 \<noteq> 0 \<and> field sb1 140 4 \<noteq> unat (super_csum sb1));
             r2 = (if csum then r1\<lparr>sb_csum_bad := sb_csum_bad r1 + 1\<rparr> else r1);
             sb2 = (if c_flags st1 AND 1 \<noteq> 0 then set_bytes sb1 140 (le_image 4 (unat (super_csum sb1))) else sb1)
         in (r2, if repair \<and> (bad \<or> csum) then (snd (raw_write_block 0 sb2 st1))\<lparr>free_blocks := want_fb, free_inodes := want_fi\<rparr> else st1))"

definition cfs_fsck :: "bool \<Rightarrow> cfs \<Rightarrow> ((int \<times> int fsck_result) \<times> cfs) option" where
  "cfs_fsck repair st =
     (if total_blocks st > CFS_FSCK_MAX_BLOCKS \<or> total_inodes st > CFS_FSCK_MAX_INODES
      then Some ((-1, report (no_problems\<lparr>sb_bad := 1, total := 1\<rparr>)), st)
      else let k = fsck_walk st (fsck_start st);
               ((bm, bl), st1) = compare_bitmap repair (\<lambda>b. total_blocks st \<le> b \<or> fk_bbm k b) (\<lambda>b. b < total_blocks st)
                                   (block_bitmap_start st) 0 (bitmap_blocks (total_blocks st)) st;
               ((im, il), st2) = compare_bitmap repair (\<lambda>n. n = 0 \<or> total_inodes st \<le> n \<or> fk_ibm k n) (\<lambda>n. 0 < n \<and> n < total_inodes st)
                                   (inode_bitmap_start st) 0 (bitmap_blocks (total_inodes st)) st1;
               o1 = (fk_out k)\<lparr>block_badref := block_badref (fk_out k) + bm, block_leaks := bl,
                               inode_badref := inode_badref (fk_out k) + im, inode_leaks := il\<rparr>;
               (o2, st3) = fold (check_inode repair k) [1..<total_inodes st] (o1, st2);
               used_blocks = length (filter (\<lambda>b. b < data_start st \<or> fk_bbm k b) [0..<total_blocks st]);
               used_inodes = length (filter (\<lambda>n. n = 0 \<or> fk_ibm k n) [0..<total_inodes st]);
               (o3, st4) = check_super repair (total_blocks st - used_blocks) (total_inodes st - used_inodes) (o2, st3)
           in if fk_fault k then None else Some ((as_int (problems o3), report (o3\<lparr>total := problems o3\<rparr>)), st4))"

end
