(* ===== verification/Cfs_Check.thy ===== *)
theory Cfs_Check
  imports Cfs_Fsck Cfs_File
begin

text \<open>
  What the consistency check of CFS computes: its walk marks exactly the inodes that can be
  reached from the root and the blocks they cover.
\<close>

section \<open>Reachability\<close>

definition inode_at :: "cfs \<Rightarrow> nat \<Rightarrow> dinode option" where
  "inode_at st p = fst (read_dinode p st)"

definition listed :: "cfs \<Rightarrow> dinode \<Rightarrow> nat set" where
  "listed st d = {dent_inode buf off | buf off. buf \<in> set (readable_blocks st d) \<and> off \<in> set (dir_offs buf 0) \<and>
     dent_inode buf off \<noteq> 0 \<and> \<not> is_dots buf off \<and> dent_inode buf off < total_inodes st}"

definition child :: "cfs \<Rightarrow> nat \<Rightarrow> nat \<Rightarrow> bool" where
  "child st p c \<longleftrightarrow> (\<exists>d. inode_at st p = Some d \<and> (CFS_ISDIR (i_mode d) \<or> p = root_ino st) \<and> c \<in> listed st d)"

definition covered :: "cfs \<Rightarrow> nat \<Rightarrow> nat set" where
  "covered st p = {b. \<exists>d. inode_at st p = Some d \<and> b \<in> set (extent_blocks d) \<and> data_start st \<le> b \<and> b < total_blocks st}"

text \<open>The state of the walk: \<open>X\<close> holds the directory that is being read.\<close>

definition walk_inv :: "cfs \<Rightarrow> nat set \<Rightarrow> fsck \<Rightarrow> bool" where
  "walk_inv st X k \<longleftrightarrow>
     (\<forall>p. fk_ibm k p \<longrightarrow> (child st)\<^sup>*\<^sup>* (root_ino st) p) \<and> fk_ibm k (root_ino st) \<and>
     distinct (fk_stack k) \<and> (\<forall>p \<in> set (fk_stack k). fk_ibm k p) \<and>
     (\<forall>p \<in> set (fk_stack k). \<forall>d. inode_at st p = Some d \<longrightarrow> CFS_ISDIR (i_mode d) \<or> p = root_ino st) \<and>
     (sb_bad (fk_out k) = 0 \<longrightarrow>
       (\<forall>p c. fk_ibm k p \<longrightarrow> p \<notin> set (fk_stack k) \<longrightarrow> p \<notin> X \<longrightarrow> child st p c \<longrightarrow> fk_ibm k c) \<and>
       (\<forall>b. fk_bbm k b \<longleftrightarrow> b < data_start st \<or> (\<exists>p. fk_ibm k p \<and> p \<notin> set (fk_stack k) \<and> b \<in> covered st p)))"

lemma mark_blocks_bbm:
  "fk_bbm (fsck_mark_blocks st d k) b \<longleftrightarrow> fk_bbm k b \<or> (b \<in> set (extent_blocks d) \<and> data_start st \<le> b \<and> b < total_blocks st)"
proof -
  have "fk_bbm (fold (mark_block st) bs k) b \<longleftrightarrow> fk_bbm k b \<or> (b \<in> set bs \<and> data_start st \<le> b \<and> b < total_blocks st)" for bs k
    by (induction bs arbitrary: k) (auto simp: mark_block_def)
  then show ?thesis by (simp add: fsck_mark_blocks_def)
qed

lemma walk_inv_cong:
  assumes "walk_inv st X k" "fk_ibm k' = fk_ibm k" "fk_stack k' = fk_stack k" "fk_bbm k' = fk_bbm k" "sb_bad (fk_out k') = sb_bad (fk_out k)"
  shows "walk_inv st X k'"
  using assms by (simp add: walk_inv_def)

lemma walk_invD:
  assumes "walk_inv st X k"
  shows "fk_ibm k p \<Longrightarrow> (child st)\<^sup>*\<^sup>* (root_ino st) p" "fk_ibm k (root_ino st)" "distinct (fk_stack k)"
    "p \<in> set (fk_stack k) \<Longrightarrow> fk_ibm k p"
    "p \<in> set (fk_stack k) \<Longrightarrow> inode_at st p = Some d \<Longrightarrow> CFS_ISDIR (i_mode d) \<or> p = root_ino st"
    "sb_bad (fk_out k) = 0 \<Longrightarrow> fk_ibm k p \<Longrightarrow> p \<notin> set (fk_stack k) \<Longrightarrow> p \<notin> X \<Longrightarrow> child st p c \<Longrightarrow> fk_ibm k c"
    "sb_bad (fk_out k) = 0 \<Longrightarrow> fk_bbm k b \<longleftrightarrow> b < data_start st \<or> (\<exists>p. fk_ibm k p \<and> p \<notin> set (fk_stack k) \<and> b \<in> covered st p)"
  using assms unfolding walk_inv_def by blast+

lemma walk_inv_new:
  assumes I: "walk_inv st X k" and c: "(child st)\<^sup>*\<^sup>* (root_ino st) c" "\<not> fk_ibm k c"
    and m: "fk_ibm k' = (fk_ibm k)(c := True)"
    and s: "fk_stack k' = fk_stack k \<or> fk_stack k' = c # fk_stack k \<and> (\<forall>d. inode_at st c = Some d \<longrightarrow> CFS_ISDIR (i_mode d))"
    and b: "sb_bad (fk_out k') = 0 \<Longrightarrow> sb_bad (fk_out k) = 0"
    and leaf: "\<And>x. sb_bad (fk_out k') = 0 \<Longrightarrow> c \<notin> set (fk_stack k') \<Longrightarrow> \<not> child st c x"
    and bb: "\<And>b. sb_bad (fk_out k') = 0 \<Longrightarrow> fk_bbm k' b \<longleftrightarrow> fk_bbm k b \<or> (c \<notin> set (fk_stack k') \<and> b \<in> covered st c)"
  shows "walk_inv st X k'"
  unfolding walk_inv_def
proof (intro conjI allI impI ballI)
  have ns: "c \<notin> set (fk_stack k)" using walk_invD(4) [OF I] c(2) by blast
  have sub: "p \<in> set (fk_stack k') \<longleftrightarrow> p \<in> set (fk_stack k)" if "p \<noteq> c" for p using s that by auto
  show "(child st)\<^sup>*\<^sup>* (root_ino st) p" if "fk_ibm k' p" for p
    using that m c(1) walk_invD(1) [OF I, of p] by (auto split: if_splits)
  show "fk_ibm k' (root_ino st)" using walk_invD(2) [OF I] m by simp
  show "distinct (fk_stack k')" using s ns walk_invD(3) [OF I] by auto
  show "fk_ibm k' p" if "p \<in> set (fk_stack k')" for p using that s m walk_invD(4) [OF I, of p] by auto
  show "CFS_ISDIR (i_mode d) \<or> p = root_ino st" if "p \<in> set (fk_stack k')" "inode_at st p = Some d" for p d
    using that s walk_invD(5) [OF I, of p d] by auto
  assume z: "sb_bad (fk_out k') = 0"
  show "fk_ibm k' x" if "fk_ibm k' p" "p \<notin> set (fk_stack k')" "p \<notin> X" "child st p x" for p x
  proof (cases "p = c")
    case True
    then show ?thesis using leaf [OF z] that by blast
  next
    case False
    then show ?thesis using walk_invD(6) [OF I b [OF z], of p x] that sub m by auto
  qed
  fix a
  have "(\<exists>p. fk_ibm k' p \<and> p \<notin> set (fk_stack k') \<and> a \<in> covered st p) \<longleftrightarrow>
      (\<exists>p. fk_ibm k p \<and> p \<notin> set (fk_stack k) \<and> a \<in> covered st p) \<or> (c \<notin> set (fk_stack k') \<and> a \<in> covered st c)"
    using m sub c(2) by (metis fun_upd_apply)
  then show "fk_bbm k' a = (a < data_start st \<or> (\<exists>p. fk_ibm k' p \<and> p \<notin> set (fk_stack k') \<and> a \<in> covered st p))"
    using bb [OF z, of a] walk_invD(7) [OF I b [OF z], of a] by blast
qed

lemma reach_inode_inv:
  assumes I: "walk_inv st X k" and c: "(child st)\<^sup>*\<^sup>* (root_ino st) c" "\<not> fk_ibm k c"
  shows "walk_inv st X (reach_inode st c k)"
proof (rule walk_inv_new [OF I c reach_inode_marks])
  have nr: "c \<noteq> root_ino st" "c \<notin> set (fk_stack k)" using walk_invD(2,4) [OF I] c(2) by blast+
  show "fk_stack (reach_inode st c k) = fk_stack k \<or>
      fk_stack (reach_inode st c k) = c # fk_stack k \<and> (\<forall>d. inode_at st c = Some d \<longrightarrow> CFS_ISDIR (i_mode d))"
    by (auto simp: reach_inode_def inode_at_def Let_def split: option.split)
  show "sb_bad (fk_out (reach_inode st c k)) = 0 \<Longrightarrow> sb_bad (fk_out k) = 0"
    by (auto simp: reach_inode_def Let_def split: option.splits if_splits)
  show "\<not> child st c x" if "sb_bad (fk_out (reach_inode st c k)) = 0" "c \<notin> set (fk_stack (reach_inode st c k))" for x
    using that nr(1) by (auto simp: reach_inode_def child_def inode_at_def Let_def split: option.splits if_splits)
  show "fk_bbm (reach_inode st c k) b \<longleftrightarrow> fk_bbm k b \<or> (c \<notin> set (fk_stack (reach_inode st c k)) \<and> b \<in> covered st c)"
    if "sb_bad (fk_out (reach_inode st c k)) = 0" for b
    using that nr(2) by (auto simp: reach_inode_def covered_def inode_at_def Let_def mark_blocks_bbm split: option.splits if_splits)
qed

lemma visit_entry_inv:
  assumes I: "walk_inv st X k" and c: "dent_inode buf off \<noteq> 0 \<Longrightarrow> \<not> is_dots buf off \<Longrightarrow> dent_inode buf off < total_inodes st \<Longrightarrow>
      (child st)\<^sup>*\<^sup>* (root_ino st) (dent_inode buf off)"
  shows "walk_inv st X (visit_entry st buf off k)" "fk_ibm k p \<Longrightarrow> fk_ibm (visit_entry st buf off k) p"
    "dent_inode buf off \<noteq> 0 \<Longrightarrow> \<not> is_dots buf off \<Longrightarrow> dent_inode buf off < total_inodes st \<Longrightarrow> fk_ibm (visit_entry st buf off k) (dent_inode buf off)"
proof -
  let ?k = "look_at_name buf off (count_ref (dent_inode buf off) k)"
  have k1: "walk_inv st X ?k" by (rule walk_inv_cong [OF I]) simp_all
  have "walk_inv st X (?k\<lparr>fk_out := fk_out ?k\<lparr>inode_badref := inode_badref (fk_out ?k) + 1\<rparr>\<rparr>)"
    by (rule walk_inv_cong [OF k1]) simp_all
  then show "walk_inv st X (visit_entry st buf off k)"
    using I k1 reach_inode_inv [OF k1] c by (simp add: visit_entry_def Let_def)
  show "fk_ibm k p \<Longrightarrow> fk_ibm (visit_entry st buf off k) p" by (simp add: visit_entry_def Let_def reach_inode_marks)
  show "dent_inode buf off \<noteq> 0 \<Longrightarrow> \<not> is_dots buf off \<Longrightarrow> dent_inode buf off < total_inodes st \<Longrightarrow> fk_ibm (visit_entry st buf off k) (dent_inode buf off)"
    by (simp add: visit_entry_def Let_def reach_inode_marks)
qed

text \<open>The entries of a directory, and the inodes they name.\<close>

definition slots :: "cfs \<Rightarrow> dinode \<Rightarrow> (u8 list \<times> nat) list" where
  "slots st d = concat (map (\<lambda>buf. map (Pair buf) (dir_offs buf 0)) (readable_blocks st d))"

definition names_inode :: "cfs \<Rightarrow> u8 list \<times> nat \<Rightarrow> bool" where
  "names_inode st = (\<lambda>(buf, off). dent_inode buf off \<noteq> 0 \<and> \<not> is_dots buf off \<and> dent_inode buf off < total_inodes st)"

lemma listed_slots: "listed st d = (\<lambda>(buf, off). dent_inode buf off) ` {x \<in> set (slots st d). names_inode st x}"
proof -
  have "set (slots st d) = {(buf, off). buf \<in> set (readable_blocks st d) \<and> off \<in> set (dir_offs buf 0)}" by (auto simp: slots_def)
  then have "x \<in> listed st d \<longleftrightarrow> (\<exists>buf off. (buf, off) \<in> set (slots st d) \<and> names_inode st (buf, off) \<and> x = dent_inode buf off)" for x
    unfolding listed_def names_inode_def by blast
  then show ?thesis by (auto simp: image_iff)
qed

lemma visit_dir_slots: "visit_dir st d k = fold (\<lambda>(buf, off). visit_entry st buf off) (slots st d) k"
proof -
  have "fold (\<lambda>(buf, off). visit_entry st buf off) (map (Pair buf) offs) k = fold (visit_entry st buf) offs k" for buf offs k
    by (induction offs arbitrary: k) simp_all
  then have "fold (\<lambda>buf. fold (visit_entry st buf) (dir_offs buf 0)) bufs k =
      fold (\<lambda>(buf, off). visit_entry st buf off) (concat (map (\<lambda>buf. map (Pair buf) (dir_offs buf 0)) bufs)) k" for bufs k
    by (induction bufs arbitrary: k) simp_all
  then show ?thesis by (simp add: visit_dir_def slots_def)
qed

lemma visit_slots_inv:
  assumes "walk_inv st X k" "\<forall>x \<in> set xs. names_inode st x \<longrightarrow> (child st)\<^sup>*\<^sup>* (root_ino st) ((\<lambda>(buf, off). dent_inode buf off) x)"
  shows "walk_inv st X (fold (\<lambda>(buf, off). visit_entry st buf off) xs k) \<and>
    (\<forall>p. fk_ibm k p \<longrightarrow> fk_ibm (fold (\<lambda>(buf, off). visit_entry st buf off) xs k) p) \<and>
    (\<forall>x \<in> set xs. names_inode st x \<longrightarrow> fk_ibm (fold (\<lambda>(buf, off). visit_entry st buf off) xs k) ((\<lambda>(buf, off). dent_inode buf off) x))"
  using assms
proof (induction xs arbitrary: k)
  case (Cons x xs)
  obtain buf off where x: "x = (buf, off)" by force
  let ?k = "visit_entry st buf off k"
  have V: "walk_inv st X ?k" "\<forall>p. fk_ibm k p \<longrightarrow> fk_ibm ?k p" "names_inode st x \<longrightarrow> fk_ibm ?k (dent_inode buf off)"
    using visit_entry_inv [OF Cons.prems(1), of buf off] Cons.prems(2) by (auto simp: x names_inode_def)
  have "walk_inv st X (fold (\<lambda>(buf, off). visit_entry st buf off) xs ?k) \<and>
    (\<forall>p. fk_ibm ?k p \<longrightarrow> fk_ibm (fold (\<lambda>(buf, off). visit_entry st buf off) xs ?k) p) \<and>
    (\<forall>x \<in> set xs. names_inode st x \<longrightarrow> fk_ibm (fold (\<lambda>(buf, off). visit_entry st buf off) xs ?k) ((\<lambda>(buf, off). dent_inode buf off) x))"
    by (rule Cons.IH [OF V(1)]) (use Cons.prems(2) in simp)
  then show ?case using V by (simp add: x)
qed simp

lemma walk_inv_pop:
  assumes I: "walk_inv st {} k" and s: "fk_stack k = p # ps"
    and m: "fk_ibm m = fk_ibm k" "fk_stack m = ps" "sb_bad (fk_out m) = sb_bad (fk_out k)"
    and bb: "\<And>b. fk_bbm m b \<longleftrightarrow> fk_bbm k b \<or> b \<in> covered st p"
  shows "walk_inv st {p} m"
  unfolding walk_inv_def
proof (intro conjI allI impI ballI)
  have p: "fk_ibm k p" "p \<notin> set ps" "distinct ps" using walk_invD(3,4) [OF I] s by auto
  show "(child st)\<^sup>*\<^sup>* (root_ino st) q" if "fk_ibm m q" for q using that walk_invD(1) [OF I] m by simp
  show "fk_ibm m (root_ino st)" "distinct (fk_stack m)" using walk_invD(2) [OF I] p(3) m by simp_all
  show "fk_ibm m q" if "q \<in> set (fk_stack m)" for q using that walk_invD(4) [OF I, of q] s m by simp
  show "CFS_ISDIR (i_mode e) \<or> q = root_ino st" if "q \<in> set (fk_stack m)" "inode_at st q = Some e" for q e
    using that walk_invD(5) [OF I, of q e] s m by simp
  assume z: "sb_bad (fk_out m) = 0"
  show "fk_ibm m c" if "fk_ibm m q" "q \<notin> set (fk_stack m)" "q \<notin> {p}" "child st q c" for q c
    using walk_invD(6) [OF I, of q c] that z s m by simp
  fix b
  have "(\<exists>q. fk_ibm k q \<and> q \<notin> set ps \<and> b \<in> covered st q) \<longleftrightarrow>
      (\<exists>q. fk_ibm k q \<and> q \<notin> set (fk_stack k) \<and> b \<in> covered st q) \<or> b \<in> covered st p"
    using p(1,2) s by (metis list.set_intros(1) list.set_intros(2) set_ConsD)
  then show "fk_bbm m b \<longleftrightarrow> b < data_start st \<or> (\<exists>q. fk_ibm m q \<and> q \<notin> set (fk_stack m) \<and> b \<in> covered st q)"
    using walk_invD(7) [OF I, of b] z bb [of b] m by auto
qed

lemma pop_dir_inv:
  assumes I: "walk_inv st {} k" and s: "fk_stack k = p # ps"
  shows "walk_inv st {} (pop_dir st k)"
proof -
  let ?k = "k\<lparr>fk_stack := ps\<rparr>"
  have p: "fk_ibm k p" using walk_invD(4) [OF I] s by auto
  have fin: "walk_inv st {} m" if "walk_inv st {p} m" "\<And>c. child st p c \<Longrightarrow> fk_ibm m c" for m
  proof -
    have "fk_ibm m c" if "sb_bad (fk_out m) = 0" "fk_ibm m q" "q \<notin> set (fk_stack m)" "child st q c" for q c
      using walk_invD(6) [OF \<open>walk_inv st {p} m\<close>, of q c] that \<open>\<And>c. child st p c \<Longrightarrow> fk_ibm m c\<close> by (cases "q = p") auto
    then show ?thesis using \<open>walk_inv st {p} m\<close> unfolding walk_inv_def by auto
  qed
  show ?thesis
  proof (cases "inode_at st p")
    case None
    have "walk_inv st {p} ?k" by (rule walk_inv_pop [OF I s]) (use None in \<open>simp_all add: covered_def\<close>)
    then have "walk_inv st {} ?k" by (rule fin) (use None in \<open>simp add: child_def\<close>)
    then show ?thesis using None s by (simp add: pop_dir_def inode_at_def)
  next
    case (Some d)
    let ?m = "fsck_mark_blocks st d ?k"
    have m: "walk_inv st {p} ?m" by (rule walk_inv_pop [OF I s]) (use Some in \<open>simp_all add: covered_def mark_blocks_bbm\<close>)
    have dir: "CFS_ISDIR (i_mode d) \<or> p = root_ino st" using walk_invD(5) [OF I _ Some] s by simp
    then have ch: "child st p c \<longleftrightarrow> c \<in> listed st d" for c using Some by (auto simp: child_def)
    have "(child st)\<^sup>*\<^sup>* (root_ino st) c" if "c \<in> listed st d" for c
      using walk_invD(1) [OF I p] ch that by (meson rtranclp.rtrancl_into_rtrancl)
    then have "\<forall>x \<in> set (slots st d). names_inode st x \<longrightarrow> (child st)\<^sup>*\<^sup>* (root_ino st) ((\<lambda>(buf, off). dent_inode buf off) x)"
      by (auto simp: listed_slots)
    note V = visit_slots_inv [OF m this, folded visit_dir_slots]
    have "fk_ibm (visit_dir st d ?m) c" if "child st p c" for c using that V unfolding ch listed_slots by auto
    then have "walk_inv st {} (visit_dir st d ?m)" using V fin by blast
    then show ?thesis using Some s by (simp add: pop_dir_def inode_at_def)
  qed
qed

lemma fsck_walk_inv: "walk_inv st {} k \<Longrightarrow> walk_inv st {} (fsck_walk st k) \<and> fk_stack (fsck_walk st k) = []"
proof (induction st k rule: fsck_walk.induct)
  case (1 st k)
  show ?case
  proof (cases "fk_stack k")
    case Nil
    then show ?thesis using "1.prems" by (simp add: fsck_walk.simps)
  next
    case (Cons p ps)
    then show ?thesis using "1.IH" pop_dir_inv [OF "1.prems" Cons] by (simp add: fsck_walk.simps [of st k])
  qed
qed

lemma fsck_start_inv: "walk_inv st {} (fsck_start st)"
  by (auto simp: walk_inv_def fsck_start_def no_problems_def)

section \<open>A clean report\<close>

definition agree :: "(nat \<Rightarrow> bool) \<Rightarrow> (nat \<Rightarrow> bool) \<Rightarrow> nat \<Rightarrow> u8 list \<Rightarrow> nat \<Rightarrow> bool" where
  "agree want counts base buf i \<longleftrightarrow> (counts (base + i) \<longrightarrow> bit_at buf i = want (base + i))"

lemma compare_bits:
  "\<exists>m' l'. fold (compare_bit False want counts base) xs (buf, m, l) = (buf, m', l') \<and> m \<le> m' \<and> l \<le> l' \<and>
     (m' = m \<and> l' = l \<longleftrightarrow> (\<forall>i \<in> set xs. agree want counts base buf i))"
proof (induction xs arbitrary: m l)
  case (Cons x xs)
  define m1 where "m1 = (if counts (base + x) \<and> want (base + x) \<and> \<not> bit_at buf x then m + 1 else m)"
  define l1 where "l1 = (if counts (base + x) \<and> \<not> want (base + x) \<and> bit_at buf x then l + 1 else l)"
  obtain m' l' where IH: "fold (compare_bit False want counts base) xs (buf, m1, l1) = (buf, m', l')" "m1 \<le> m'" "l1 \<le> l'"
    "m' = m1 \<and> l' = l1 \<longleftrightarrow> (\<forall>i \<in> set xs. agree want counts base buf i)" using Cons.IH by blast
  have a: "m \<le> m1" "l \<le> l1" "m1 = m \<and> l1 = l \<longleftrightarrow> agree want counts base buf x" by (auto simp: m1_def l1_def agree_def)
  have "fold (compare_bit False want counts base) (x # xs) (buf, m, l) = (buf, m', l')"
    using IH(1) by (simp add: compare_bit_def Let_def m1_def l1_def)
  moreover have e: "m' = m \<and> l' = l \<longleftrightarrow> (m' = m1 \<and> l' = l1) \<and> (m1 = m \<and> l1 = l)" using IH(2,3) a(1,2) by linarith
  have "m' = m \<and> l' = l \<longleftrightarrow> (\<forall>i \<in> set (x # xs). agree want counts base buf i)" unfolding e IH(4) a(3) by auto
  moreover have "m \<le> m'" "l \<le> l'" using IH(2,3) a(1,2) by linarith+
  ultimately show ?case by (intro exI [of _ m'] exI [of _ l'] conjI)
qed simp

lemma compare_block_clean:
  "\<exists>m l. compare_block False want counts base buf = (buf, m, l) \<and> (m = 0 \<and> l = 0 \<longleftrightarrow> (\<forall>i < BS * 8. agree want counts base buf i))"
  using compare_bits [of want counts base "[0..<BS * 8]" buf 0 0] by (auto simp: compare_block_def)

lemma range_Suc: "(\<forall>j. b \<le> j \<longrightarrow> j < b + Suc n \<longrightarrow> A j) \<longleftrightarrow> A b \<and> (\<forall>j. b + 1 \<le> j \<longrightarrow> j < b + 1 + n \<longrightarrow> A j)" for b :: nat
proof -
  have "A j" if "A b" "\<forall>j. b + 1 \<le> j \<longrightarrow> j < b + 1 + n \<longrightarrow> A j" "b \<le> j" "j < b + Suc n" for j
    using that by (cases "j = b") simp_all
  then show ?thesis by (intro iffI conjI allI impI) simp_all
qed

lemma compare_bitmap_clean:
  assumes "vol_ok st (c_drive st)" "region + bb + n \<le> total_blocks st"
  shows "\<exists>m l. compare_bitmap False want counts region bb n st = ((m, l), st) \<and>
    (m = 0 \<and> l = 0 \<longleftrightarrow> (\<forall>j. bb \<le> j \<longrightarrow> j < bb + n \<longrightarrow> (\<forall>i < BS * 8. agree want counts (j * (BS * 8)) (data_of st (region + j)) i)))"
  using assms(2)
proof (induction n arbitrary: bb)
  case (Suc n)
  let ?A = "\<lambda>j. \<forall>i < BS * 8. agree want counts (j * (BS * 8)) (data_of st (region + j)) i"
  have r: "raw_read_block (region + bb) st = (Some (data_of st (region + bb)), st)" using raw_read_eq [OF assms(1)] Suc.prems by simp
  obtain m1 l1 where c: "compare_block False want counts (bb * (BS * 8)) (data_of st (region + bb)) = (data_of st (region + bb), m1, l1)"
    "m1 = 0 \<and> l1 = 0 \<longleftrightarrow> ?A bb" using compare_block_clean by blast
  obtain m l where IH: "compare_bitmap False want counts region (bb + 1) n st = ((m, l), st)"
    "m = 0 \<and> l = 0 \<longleftrightarrow> (\<forall>j. bb + 1 \<le> j \<longrightarrow> j < bb + 1 + n \<longrightarrow> ?A j)" using Suc.IH [of "bb + 1"] Suc.prems by auto
  have "compare_bitmap False want counts region bb (Suc n) st = ((m1 + m, l1 + l), st)" using r c(1) IH(1) by simp
  moreover have "m1 + m = 0 \<and> l1 + l = 0 \<longleftrightarrow> (m1 = 0 \<and> l1 = 0) \<and> (m = 0 \<and> l = 0)" by auto
  ultimately show ?case unfolding range_Suc [of bb n ?A] using c(2) IH(2) by blast
qed simp

lemma compare_bitmap_zero:
  assumes "vol_ok st (c_drive st)" "region + bb + n \<le> total_blocks st"
    and "\<And>j i. bb \<le> j \<Longrightarrow> j < bb + n \<Longrightarrow> i < BS * 8 \<Longrightarrow> agree want counts (j * (BS * 8)) (data_of st (region + j)) i"
  shows "compare_bitmap False want counts region bb n st = ((0, 0), st)"
proof -
  obtain m l where "compare_bitmap False want counts region bb n st = ((m, l), st)"
    "m = 0 \<and> l = 0 \<longleftrightarrow> (\<forall>j. bb \<le> j \<longrightarrow> j < bb + n \<longrightarrow> (\<forall>i < BS * 8. agree want counts (j * (BS * 8)) (data_of st (region + j)) i))"
    using compare_bitmap_clean [OF assms(1,2)] by blast
  then show ?thesis using assms(3) by simp
qed

lemma bitmap_agrees:
  assumes "\<forall>j. 0 \<le> j \<longrightarrow> j < 0 + bitmap_blocks n \<longrightarrow> (\<forall>i < BS * 8. agree want counts (j * (BS * 8)) (data_of st (region + j)) i)"
    and "b < n" "counts b" "\<not> txn_active st"
  shows "used st region b = want b"
proof -
  have "b div (BS * 8) < bitmap_blocks n" using assms(2) by (simp add: bitmap_blocks_def less_eq_div_iff_mult_less_eq div_less_iff_less_mult)
  moreover have "b mod (BS * 8) < BS * 8" by simp
  ultimately have a: "agree want counts (b div (BS * 8) * (BS * 8)) (data_of st (region + b div (BS * 8))) (b mod (BS * 8))"
    using assms(1) [rule_format, of "b div (BS * 8)" "b mod (BS * 8)"] by simp
  have "bit_at (data_of st (region + b div (BS * 8))) (b mod (BS * 8)) = want b"
    using a assms(3) unfolding agree_def div_mult_mod_eq by blast
  moreover have "mview st x = data_of st x" for x using assms(4) by (simp add: mview_def)
  ultimately show ?thesis unfolding used_def by (simp only:)
qed

text \<open>The checks of inodes and superblock add to other counters only.\<close>

definition same_maps :: "fsck_counts \<Rightarrow> fsck_counts \<Rightarrow> bool" where
  "same_maps r r' \<longleftrightarrow> sb_bad r' = sb_bad r \<and> block_badref r' = block_badref r \<and> block_leaks r' = block_leaks r \<and>
     inode_badref r' = inode_badref r \<and> inode_leaks r' = inode_leaks r"

lemma check_inodes_maps: "same_maps r (fst (fold (check_inode repair k) ns (r, st)))"
proof (induction ns arbitrary: r st)
  case (Cons n ns)
  obtain r1 st1 where c: "check_inode repair k n (r, st) = (r1, st1)" by force
  then have "same_maps r r1" by (auto simp: check_inode_def same_maps_def Let_def split: prod.splits option.splits if_splits)
  then show ?case using Cons [of r1 st1] by (simp add: c same_maps_def)
qed (simp add: same_maps_def)

lemma check_super_maps: "same_maps r (fst (check_super repair fb fi (r, st)))"
  by (auto simp: check_super_def same_maps_def Let_def split: prod.splits option.splits if_splits)

section \<open>How many problems can be counted\<close>

text \<open>What an inode can contribute: its blocks and, for a directory, its entries.\<close>

definition load :: "cfs \<Rightarrow> nat \<Rightarrow> nat" where
  "load st p = (case inode_at st p of None \<Rightarrow> 0 | Some d \<Rightarrow> length (extent_blocks d) + length (slots st d))"

definition volume_load :: "cfs \<Rightarrow> nat" where
  "volume_load st = (\<Sum>p < total_inodes st. load st p)"

definition load_left :: "cfs \<Rightarrow> fsck \<Rightarrow> nat" where
  "load_left st k = (\<Sum>p | p < total_inodes st \<and> \<not> fk_ibm k p. load st p) + (\<Sum>p \<leftarrow> fk_stack k. load st p)"

lemma load_left_cong: "fk_ibm k' = fk_ibm k \<Longrightarrow> fk_stack k' = fk_stack k \<Longrightarrow> load_left st k' = load_left st k"
  by (simp add: load_left_def)

lemma mark_blocks_problems: "problems (fk_out (fsck_mark_blocks st d k)) \<le> problems (fk_out k) + length (extent_blocks d)"
proof -
  have "problems (fk_out (fold (mark_block st) bs k)) \<le> problems (fk_out k) + length bs" for bs k
  proof (induction bs arbitrary: k)
    case (Cons b bs)
    have "problems (fk_out (mark_block st b k)) \<le> problems (fk_out k) + 1" by (simp add: mark_block_def problems_def)
    then show ?case using Cons [of "mark_block st b k"] by simp
  qed simp
  from this [of "extent_blocks d" "if nextents d > CFS_INLINE_EXTENTS then k\<lparr>fk_fault := True\<rparr> else k"] show ?thesis
    by (simp add: fsck_mark_blocks_def split: if_splits)
qed

lemma reach_inode_load:
  assumes "c < total_inodes st" "\<not> fk_ibm k c"
  shows "problems (fk_out (reach_inode st c k)) + load_left st (reach_inode st c k) \<le> problems (fk_out k) + load_left st k + 1"
proof -
  let ?A = "{p. p < total_inodes st \<and> \<not> fk_ibm k p}" and ?k = "k\<lparr>fk_ibm := (fk_ibm k)(c := True)\<rparr>"
  have e: "{p. p < total_inodes st \<and> \<not> fk_ibm (reach_inode st c k) p} = ?A - {c}" by (auto simp: reach_inode_marks)
  have "sum (load st) ?A = load st c + sum (load st) (?A - {c})" using assms by (intro sum.remove) simp_all
  then have L: "load_left st k = load st c + (sum (load st) (?A - {c}) + (\<Sum>p \<leftarrow> fk_stack k. load st p))" by (simp add: load_left_def)
  show ?thesis
  proof (cases "inode_at st c")
    case None
    then show ?thesis unfolding load_left_def e using L by (simp add: reach_inode_def inode_at_def load_left_def)
  next
    case (Some d)
    then have l: "length (extent_blocks d) \<le> load st c" by (simp add: load_def)
    show ?thesis unfolding load_left_def e
      using L l Some mark_blocks_problems [of st d ?k] by (simp add: reach_inode_def inode_at_def load_left_def Let_def) (simp add: problems_def)
  qed
qed

lemma visit_entry_load: "problems (fk_out (visit_entry st buf off k)) + load_left st (visit_entry st buf off k) \<le> problems (fk_out k) + load_left st k + 1"
proof -
  let ?k = "look_at_name buf off (count_ref (dent_inode buf off) k)"
  have k: "load_left st ?k = load_left st k" "load_left st (?k\<lparr>fk_out := r\<rparr>) = load_left st k" for r by (simp_all add: load_left_def)
  have "problems (fk_out (reach_inode st (dent_inode buf off) ?k)) + load_left st (reach_inode st (dent_inode buf off) ?k) \<le> problems (fk_out k) + load_left st k + 1"
    if "dent_inode buf off < total_inodes st" "\<not> fk_ibm k (dent_inode buf off)" using reach_inode_load [of "dent_inode buf off" st ?k] that k by simp
  then show ?thesis by (simp add: visit_entry_def Let_def k) (simp add: problems_def)
qed

lemma visit_slots_load:
  "problems (fk_out (fold (\<lambda>(buf, off). visit_entry st buf off) xs k)) + load_left st (fold (\<lambda>(buf, off). visit_entry st buf off) xs k) \<le>
     problems (fk_out k) + load_left st k + length xs"
proof (induction xs arbitrary: k)
  case (Cons x xs)
  obtain buf off where x: "x = (buf, off)" by force
  show ?case using Cons [of "visit_entry st buf off k"] visit_entry_load [of st buf off k] by (simp add: x)
qed simp

lemma pop_dir_load:
  assumes "fk_stack k = p # ps"
  shows "problems (fk_out (pop_dir st k)) + load_left st (pop_dir st k) \<le> problems (fk_out k) + load_left st k"
proof -
  let ?k = "k\<lparr>fk_stack := ps\<rparr>"
  have L: "load_left st k = load_left st ?k + load st p" using assms by (simp add: load_left_def)
  show ?thesis
  proof (cases "inode_at st p")
    case None
    then show ?thesis using L assms by (simp add: pop_dir_def inode_at_def)
  next
    case (Some d)
    let ?m = "fsck_mark_blocks st d ?k"
    have "load_left st ?m = load_left st ?k" by (rule load_left_cong) simp_all
    moreover have "problems (fk_out ?m) \<le> problems (fk_out k) + length (extent_blocks d)" using mark_blocks_problems [of st d ?k] by simp
    moreover have "load st p = length (extent_blocks d) + length (slots st d)" using Some by (simp add: load_def)
    ultimately show ?thesis using visit_slots_load [of st "slots st d" ?m] L Some assms by (simp add: pop_dir_def inode_at_def visit_dir_slots)
  qed
qed

lemma fsck_walk_load: "problems (fk_out (fsck_walk st k)) \<le> problems (fk_out k) + load_left st k"
proof (induction st k rule: fsck_walk.induct)
  case (1 st k)
  show ?case
  proof (cases "fk_stack k")
    case (Cons p ps)
    then show ?thesis using 1 pop_dir_load [OF Cons, of st] by (simp add: fsck_walk.simps [of st k])
  qed (simp add: fsck_walk.simps)
qed

lemma start_load: "load_left st (fsck_start st) = volume_load st"
proof (cases "root_ino st < total_inodes st")
  case True
  have "{p. p < total_inodes st \<and> p \<noteq> root_ino st} = {..<total_inodes st} - {root_ino st}" by auto
  then show ?thesis using sum.remove [of "{..<total_inodes st}" "root_ino st" "load st"] True by (simp add: load_left_def fsck_start_def volume_load_def)
next
  case False
  then have "load st (root_ino st) = 0" by (simp add: load_def inode_at_def read_dinode_def)
  moreover have "{p. p < total_inodes st \<and> p \<noteq> root_ino st} = {..<total_inodes st}" using False by auto
  ultimately show ?thesis by (simp add: load_left_def fsck_start_def volume_load_def)
qed

text \<open>The comparisons: at most one problem for each bit and two for each inode.\<close>

lemma compare_block_count: "compare_block repair want counts base buf = (buf1, m, l) \<Longrightarrow> m + l \<le> BS * 8"
proof -
  have "fst (snd (fold (compare_bit repair want counts base) xs (b, m, l))) + snd (snd (fold (compare_bit repair want counts base) xs (b, m, l))) \<le> m + l + length xs" for xs b m l
  proof (induction xs arbitrary: b m l)
    case (Cons x xs)
    obtain b1 m1 l1 where c: "compare_bit repair want counts base x (b, m, l) = (b1, m1, l1)" by (metis prod_cases3)
    then have "m1 + l1 \<le> m + l + 1" by (auto simp: compare_bit_def Let_def split: if_splits)
    then show ?case using Cons [of b1 m1 l1] c by simp
  qed simp
  from this [of "[0..<BS * 8]" buf 0 0] show "compare_block repair want counts base buf = (buf1, m, l) \<Longrightarrow> m + l \<le> BS * 8" by (simp add: compare_block_def)
qed

lemma compare_bitmap_count: "compare_bitmap repair want counts region bb n st = ((m, l), st1) \<Longrightarrow> m + l \<le> n * (BS * 8)"
proof (induction n arbitrary: bb st m l st1)
  case (Suc n)
  show ?case
  proof (cases "raw_read_block (region + bb) st")
    case (Pair r st2)
    show ?thesis
    proof (cases r)
      case None
      then show ?thesis using Suc.prems Pair by simp
    next
      case (Some buf)
      obtain buf1 m1 l1 where c: "compare_block repair want counts (bb * (BS * 8)) buf = (buf1, m1, l1)" by (metis prod_cases3)
      define st3 where "st3 = (if repair \<and> buf1 \<noteq> buf then snd (raw_write_block (region + bb) buf1 st2) else st2)"
      obtain m2 l2 st4 where r: "compare_bitmap repair want counts region (bb + 1) n st3 = ((m2, l2), st4)" by (metis prod.collapse)
      have "m = m1 + m2 \<and> l = l1 + l2" using Suc.prems Pair Some c r unfolding st3_def by (simp del: not_Some_eq)
      then show ?thesis using compare_block_count [OF c] Suc.IH [OF r] by simp
    qed
  qed
qed simp

lemma check_inodes_count: "problems (fst (fold (check_inode repair k) ns (r, st))) \<le> problems r + 2 * length ns"
proof (induction ns arbitrary: r st)
  case (Cons n ns)
  obtain r1 st1 where c: "check_inode repair k n (r, st) = (r1, st1)" by force
  then have "problems r1 \<le> problems r + 2" by (auto simp: check_inode_def problems_def Let_def split: prod.splits option.splits if_splits)
  then show ?case using Cons [of r1 st1] by (simp add: c)
qed simp

lemma check_super_count: "problems (fst (check_super repair fb fi (r, st))) \<le> problems r + 2"
  by (auto simp: check_super_def problems_def Let_def split: prod.splits option.splits if_splits)

lemma bitmap_blocks_le: "n \<le> m * (BS * 8) \<Longrightarrow> bitmap_blocks n \<le> m"
  by (simp add: bitmap_blocks_def less_Suc_eq_le [symmetric] div_less_iff_less_mult)

lemma as_int_zero: "n < 2 ^ 32 \<Longrightarrow> as_int n = 0 \<Longrightarrow> n = 0"
  using word_of_nat_eq_0_iff [of n, where 'a = 32] dvd_imp_le [of "2 ^ 32" n] by (auto simp: as_int_def signed_eq_0_iff)

lemma fsck_clean_maps:
  assumes v: "vol_ok st (c_drive st)" "block_bitmap_start st + bitmap_blocks (total_blocks st) \<le> total_blocks st"
      "inode_bitmap_start st + bitmap_blocks (total_inodes st) \<le> total_blocks st"
    and c: "cfs_fsck False st = Some ((0, r), st1)" "volume_load st < 2 ^ 31"
  defines "k \<equiv> fsck_walk st (fsck_start st)"
  shows "sb_bad (fk_out k) = 0"
    "\<forall>j. 0 \<le> j \<longrightarrow> j < 0 + bitmap_blocks (total_blocks st) \<longrightarrow>
      (\<forall>i < BS * 8. agree (\<lambda>b. total_blocks st \<le> b \<or> fk_bbm k b) (\<lambda>b. b < total_blocks st) (j * (BS * 8)) (data_of st (block_bitmap_start st + j)) i)"
    "\<forall>j. 0 \<le> j \<longrightarrow> j < 0 + bitmap_blocks (total_inodes st) \<longrightarrow>
      (\<forall>i < BS * 8. agree (\<lambda>n. n = 0 \<or> total_inodes st \<le> n \<or> fk_ibm k n) (\<lambda>n. 0 < n \<and> n < total_inodes st) (j * (BS * 8)) (data_of st (inode_bitmap_start st + j)) i)"
proof -
  let ?wb = "\<lambda>b. total_blocks st \<le> b \<or> fk_bbm k b" and ?wi = "\<lambda>n. n = 0 \<or> total_inodes st \<le> n \<or> fk_ibm k n"
  let ?cb = "\<lambda>b. b < total_blocks st" and ?ci = "\<lambda>n. 0 < n \<and> n < total_inodes st"
  from compare_bitmap_clean [OF v(1), of "block_bitmap_start st" 0 "bitmap_blocks (total_blocks st)" ?wb ?cb] v(2)
  obtain bm bl where B: "compare_bitmap False ?wb ?cb (block_bitmap_start st) 0 (bitmap_blocks (total_blocks st)) st = ((bm, bl), st)"
    "bm = 0 \<and> bl = 0 \<Longrightarrow> \<forall>j. 0 \<le> j \<longrightarrow> j < 0 + bitmap_blocks (total_blocks st) \<longrightarrow> (\<forall>i < BS * 8. agree ?wb ?cb (j * (BS * 8)) (data_of st (block_bitmap_start st + j)) i)"
    by auto
  from compare_bitmap_clean [OF v(1), of "inode_bitmap_start st" 0 "bitmap_blocks (total_inodes st)" ?wi ?ci] v(3)
  obtain im il where I: "compare_bitmap False ?wi ?ci (inode_bitmap_start st) 0 (bitmap_blocks (total_inodes st)) st = ((im, il), st)"
    "im = 0 \<and> il = 0 \<Longrightarrow> \<forall>j. 0 \<le> j \<longrightarrow> j < 0 + bitmap_blocks (total_inodes st) \<longrightarrow> (\<forall>i < BS * 8. agree ?wi ?ci (j * (BS * 8)) (data_of st (inode_bitmap_start st + j)) i)"
    by auto
  define o1 where "o1 = (fk_out k)\<lparr>block_badref := block_badref (fk_out k) + bm, block_leaks := bl,
                               inode_badref := inode_badref (fk_out k) + im, inode_leaks := il\<rparr>"
  obtain o2 st3 where o2: "fold (check_inode False k) [1..<total_inodes st] (o1, st) = (o2, st3)" by force
  define fb where "fb = total_blocks st - length (filter (\<lambda>b. b < data_start st \<or> fk_bbm k b) [0..<total_blocks st])"
  define fi where "fi = total_inodes st - length (filter (\<lambda>n. n = 0 \<or> fk_ibm k n) [0..<total_inodes st])"
  obtain o3 st4 where o3: "check_super False fb fi (o2, st3) = (o3, st4)" by force
  have small: "\<not> (total_blocks st > CFS_FSCK_MAX_BLOCKS \<or> total_inodes st > CFS_FSCK_MAX_INODES)"
    using c(1) unfolding cfs_fsck_def by (simp split: if_splits)
  have "cfs_fsck False st = (if fk_fault k then None else Some ((as_int (problems o3), report (o3\<lparr>total := problems o3\<rparr>)), st4))"
    unfolding cfs_fsck_def if_not_P [OF small] Let_def k_def [symmetric] B(1) I(1) prod.case o1_def [symmetric] o2 fb_def [symmetric] fi_def [symmetric] o3 ..
  then have p0: "as_int (problems o3) = 0" using c(1) by (simp split: if_splits)
  have "bitmap_blocks (total_blocks st) \<le> 2" "bitmap_blocks (total_inodes st) \<le> 1" using bitmap_blocks_le [of "total_blocks st" 2] bitmap_blocks_le [of "total_inodes st" 1] small by simp_all
  then have "bm + bl \<le> 65536" "im + il \<le> 32768" using compare_bitmap_count [OF B(1)] compare_bitmap_count [OF I(1)] by linarith+
  moreover have "problems (fk_out k) \<le> volume_load st" using fsck_walk_load [of st "fsck_start st"] start_load [of st] by (simp add: k_def fsck_start_def problems_def no_problems_def)
  moreover have "problems o1 \<le> problems (fk_out k) + (bm + bl) + (im + il)" by (simp add: o1_def problems_def)
  moreover have "problems o2 \<le> problems o1 + 2 * 16384" using check_inodes_count [of False k "[1..<total_inodes st]" o1 st] o2 small by simp linarith
  moreover have "problems o3 \<le> problems o2 + 2" using check_super_count [of False fb fi o2 st3] o3 by simp
  ultimately have "problems o3 < 2 ^ 32" using c(2) by simp
  then have "problems o3 = 0" using as_int_zero p0 by blast
  moreover have "same_maps o1 o3" using check_inodes_maps [of o1 False k "[1..<total_inodes st]" st] check_super_maps [of o2 False fb fi st3] o2 o3
    by (simp add: same_maps_def)
  ultimately have z: "sb_bad (fk_out k) = 0" "bm = 0 \<and> bl = 0" "im = 0 \<and> il = 0" by (auto simp: problems_def same_maps_def o1_def)
  show "sb_bad (fk_out k) = 0" by (rule z(1))
  show "\<forall>j. 0 \<le> j \<longrightarrow> j < 0 + bitmap_blocks (total_blocks st) \<longrightarrow> (\<forall>i < BS * 8. agree ?wb ?cb (j * (BS * 8)) (data_of st (block_bitmap_start st + j)) i)"
    by (rule B(2) [OF z(2)])
  show "\<forall>j. 0 \<le> j \<longrightarrow> j < 0 + bitmap_blocks (total_inodes st) \<longrightarrow> (\<forall>i < BS * 8. agree ?wi ?ci (j * (BS * 8)) (data_of st (inode_bitmap_start st + j)) i)"
    by (rule I(2) [OF z(3)])
qed

lemma walk_reaches:
  assumes "sb_bad (fk_out (fsck_walk st (fsck_start st))) = 0"
  shows "fk_ibm (fsck_walk st (fsck_start st)) p \<longleftrightarrow> (child st)\<^sup>*\<^sup>* (root_ino st) p"
    "fk_bbm (fsck_walk st (fsck_start st)) b \<longleftrightarrow> b < data_start st \<or> (\<exists>p. (child st)\<^sup>*\<^sup>* (root_ino st) p \<and> b \<in> covered st p)"
proof -
  let ?k = "fsck_walk st (fsck_start st)"
  have I: "walk_inv st {} ?k" "fk_stack ?k = []" using fsck_walk_inv [OF fsck_start_inv] by auto
  have "fk_ibm ?k q" if "(child st)\<^sup>*\<^sup>* (root_ino st) q" for q
    using that
  proof (induction rule: rtranclp_induct)
    case base
    show ?case by (rule walk_invD(2) [OF I(1)])
  next
    case (step q c)
    then show ?case using walk_invD(6) [OF I(1) assms, of q c] I(2) by simp
  qed
  then show r: "fk_ibm ?k p \<longleftrightarrow> (child st)\<^sup>*\<^sup>* (root_ino st) p" for p using walk_invD(1) [OF I(1)] by blast
  show "fk_bbm ?k b \<longleftrightarrow> b < data_start st \<or> (\<exists>p. (child st)\<^sup>*\<^sup>* (root_ino st) p \<and> b \<in> covered st p)"
    using walk_invD(7) [OF I(1) assms, of b] I(2) by (simp add: r)
qed

section \<open>Properties\<close>

text \<open>C34. When the consistency check ends without a fault and reports no problem, the bitmaps on disk are exact: a block is
  marked as used if and only if it is metadata or belongs to an inode that can be reached from the root
  directory, and an inode if and only if it can be reached; so no reachable file can lose a block
  to a later allocation, and nothing is leaked.  The counters of the check are \<open>int\<close>s: the blocks that the inodes
  cover and the directory entries must be fewer than \<open>2\<^sup>3\<^sup>1\<close> together, or else a count may wrap to 0.\<close>

theorem fsck_clean_sound:
  assumes "vol_ok st (c_drive st)" "block_bitmap_start st + bitmap_blocks (total_blocks st) \<le> total_blocks st"
    "inode_bitmap_start st + bitmap_blocks (total_inodes st) \<le> total_blocks st" "\<not> txn_active st"
    and "cfs_fsck False st = Some ((0, r), st1)" "volume_load st < 2 ^ 31"
  shows "(\<forall>b < total_blocks st. used st (block_bitmap_start st) b \<longleftrightarrow>
      b < data_start st \<or> (\<exists>p. (child st)\<^sup>*\<^sup>* (root_ino st) p \<and> b \<in> covered st p)) \<and>
    (\<forall>n. 0 < n \<and> n < total_inodes st \<longrightarrow> (used st (inode_bitmap_start st) n \<longleftrightarrow> (child st)\<^sup>*\<^sup>* (root_ino st) n))"
proof -
  note M = fsck_clean_maps [OF assms(1-3,5,6)] and R = walk_reaches [OF fsck_clean_maps(1) [OF assms(1-3,5,6)]]
  have "used st (block_bitmap_start st) b \<longleftrightarrow> b < data_start st \<or> (\<exists>p. (child st)\<^sup>*\<^sup>* (root_ino st) p \<and> b \<in> covered st p)"
    if "b < total_blocks st" for b using bitmap_agrees [OF M(2), of b] assms(4) R(2) that by auto
  moreover have "used st (inode_bitmap_start st) n \<longleftrightarrow> (child st)\<^sup>*\<^sup>* (root_ino st) n" if "0 < n" "n < total_inodes st" for n
    using bitmap_agrees [OF M(3), of n] assms(4) R(1) that by auto
  ultimately show ?thesis by blast
qed

text \<open>A volume of six blocks: superblock, the two bitmaps, the inode table, the root directory and the one block of
  the file it names.\<close>

definition tiny_root :: dinode where
  "tiny_root = blank_dinode\<lparr>i_mode := 0x41ED, i_links := 2, i_size := 4096, nextents := 1, extent := le_image 8 4 @ le_image 4 1 @ zeros 132\<rparr>"

definition tiny_file :: dinode where
  "tiny_file = blank_dinode\<lparr>i_mode := 0x81A4, i_links := 1, i_size := 5, nextents := 1, extent := le_image 8 5 @ le_image 4 1 @ zeros 132\<rparr>"

definition tiny_dir :: "u8 list" where
  "tiny_dir = dent_image 1 16 [0x2E] 2 @ zeros 3 @ dent_image 1 16 [0x2E, 0x2E] 2 @ zeros 2 @ dent_image 2 4064 [0x66] 1 @ zeros 4051"

definition tiny_block :: "nat \<Rightarrow> u8 list" where
  "tiny_block b = (if b = 1 then 0x3F # zeros 4095 else if b = 2 then 0x07 # zeros 4095
     else if b = 3 then zeros 256 @ dinode_image tiny_root @ zeros 32 @ dinode_image tiny_file @ zeros 3360
     else if b = 4 then tiny_dir else zeros 4096)"

definition tiny_volume :: cfs where
  "tiny_volume = sample_volume\<lparr>total_blocks := 6, total_inodes := 3, data_start := 4, block_bitmap_start := 1, inode_bitmap_start := 2,
     inode_table_start := 3, c_flags := 0, c_drive := sample_drive\<lparr>d_sec := (\<lambda>i. take 512 (drop (512 * (i mod 8)) (tiny_block (i div 8))))\<rparr>\<rparr>"

lemma tiny_fields: "total_blocks tiny_volume = 6" "total_inodes tiny_volume = 3" "data_start tiny_volume = 4" "block_bitmap_start tiny_volume = 1"
  "inode_bitmap_start tiny_volume = 2" "c_flags tiny_volume = 0" "root_ino tiny_volume = 1" "txn_active tiny_volume = False" "inode_table_start tiny_volume = 3"
  "c_base tiny_volume = 0" "spb tiny_volume = 8" "inode_size tiny_volume = 256"
  by (simp_all add: tiny_volume_def sample_volume_def)

lemma tiny_images: "length (dinode_image tiny_root) = 224" "length (dinode_image tiny_file) = 224" "dinode_of (dinode_image tiny_root) = tiny_root"
  "dinode_of (dinode_image tiny_file) = tiny_file"
  by (simp_all add: length_dinode_image dinode_of_image fits_def tiny_root_def tiny_file_def blank_dinode_def)

lemma length_tiny_block: "length (tiny_block b) = 4096"
  by (simp add: tiny_block_def tiny_images tiny_dir_def dent_image_def del: le_image.simps)

lemma concat_parts: "concat (map (\<lambda>j. take n (drop (n * j) xs)) [0..<m]) = take (n * m) xs"
  by (induction m) (simp_all add: take_add [symmetric] add.commute)

lemma tiny_data: "data_of tiny_volume b = tiny_block b"
proof -
  have u: "[8 * b..<8 * b + 8] = map (\<lambda>j. 8 * b + j) [0..<8]" using map_add_upt [of "8 * b" 8] by (simp add: add.commute del: upt_Suc)
  have "d_sec (c_drive tiny_volume) (8 * b + j) = take 512 (drop (512 * j) (tiny_block b))" if "j < 8" for j using that by (simp add: tiny_volume_def)
  then have "map (d_sec (c_drive tiny_volume)) [8 * b..<8 * b + 8] = map (\<lambda>j. take 512 (drop (512 * j) (tiny_block b))) [0..<8]"
    unfolding u by (simp del: upt_Suc)
  then show ?thesis using concat_parts [of 512 "tiny_block b" 8] length_tiny_block [of b] by (simp add: blk_def sectors_def tiny_fields del: upt_Suc)
qed

lemma tiny_ok: "vol_ok tiny_volume (c_drive tiny_volume)"
proof -
  have "512 * (i mod 8) + 512 \<le> 4096" for i :: nat by (simp add: Suc_leI)
  then have "length (d_sec (c_drive tiny_volume) i) = 512" for i using length_tiny_block by (simp add: tiny_volume_def)
  then show ?thesis by (simp add: vol_ok_def tiny_fields) (simp add: tiny_volume_def sample_volume_def sample_drive_def reaches_def)
qed

lemma tiny_reads: "read_dinode 1 tiny_volume = (Some tiny_root, tiny_volume)" "read_dinode 2 tiny_volume = (Some tiny_file, tiny_volume)"
proof -
  have "raw_read_block 3 tiny_volume = (Some (tiny_block 3), tiny_volume)" using raw_read_eq [OF tiny_ok, of 3] by (simp add: tiny_fields tiny_data)
  then have b: "bd_read_block 3 tiny_volume = (Some (tiny_block 3), tiny_volume)" by (simp add: bd_read_block_def tiny_fields)
  have "take 224 (drop 256 (tiny_block 3)) = dinode_image tiny_root" "take 224 (drop 512 (tiny_block 3)) = dinode_image tiny_file"
    by (simp_all add: tiny_block_def tiny_images)
  then show "read_dinode 1 tiny_volume = (Some tiny_root, tiny_volume)" "read_dinode 2 tiny_volume = (Some tiny_file, tiny_volume)"
    using b by (simp_all add: read_dinode_def seq_io_def ret_def inode_block_def inode_off_def tiny_fields tiny_images)
qed

lemma tiny_entries: "dent_inode tiny_dir 0 = 1" "dent_rec_len tiny_dir 0 = 16" "is_dots tiny_dir 0" "dent_name_len tiny_dir 0 = 1"
  "dent_inode tiny_dir 16 = 1" "dent_rec_len tiny_dir 16 = 16" "is_dots tiny_dir 16" "dent_name_len tiny_dir 16 = 2"
  "dent_inode tiny_dir 32 = 2" "dent_rec_len tiny_dir 32 = 4064" "\<not> is_dots tiny_dir 32" "dent_name_len tiny_dir 32 = 1"
  by (simp_all add: tiny_dir_def dent_inode_def dent_rec_len_def dent_name_def dent_name_len_def is_dots_def dent_image_def field_def le_val_image del: le_image.simps)

lemma tiny_offs: "dir_offs tiny_dir 0 = [0, 16, 32]"
  by (subst dir_offs.simps, simp add: tiny_entries, subst dir_offs.simps, simp add: tiny_entries, subst dir_offs.simps, simp add: tiny_entries)
    (subst dir_offs.simps, simp)

lemma tiny_extents: "extent_blocks tiny_root = [4]" "extent_blocks tiny_file = [5]" "nextents tiny_root = 1" "nextents tiny_file = 1" "dir_blocks tiny_root = [4]"
  by (simp_all add: extent_blocks_def tiny_root_def tiny_file_def ext_start_def ext_count_def field_def le_val_image dir_blocks_def map_fileblock_def del: le_image.simps)

lemma tiny_readable: "readable_blocks tiny_volume tiny_root = [tiny_dir]"
proof -
  have "raw_read_block 4 tiny_volume = (Some tiny_dir, tiny_volume)" using raw_read_eq [OF tiny_ok, of 4] by (simp add: tiny_fields tiny_data tiny_block_def)
  then show ?thesis by (simp add: readable_blocks_def tiny_extents map_filter_simps)
qed

lemma tiny_walk: "fsck_walk tiny_volume (fsck_start tiny_volume) =
  \<lparr>fk_bbm = (\<lambda>b. b < 6), fk_ibm = (\<lambda>n. n = 1 \<or> n = 2), fk_refs = (\<lambda>_. 0)(1 := 2, 2 := 1), fk_stack = [], fk_out = no_problems, fk_fault = False\<rparr>"
proof -
  have d: "\<not> CFS_ISDIR (i_mode tiny_file)" by (simp add: tiny_file_def CFS_ISDIR_def)
  have "pop_dir tiny_volume (fsck_start tiny_volume) =
    \<lparr>fk_bbm = (\<lambda>b. b < 4)(4 := True, 5 := True), fk_ibm = (\<lambda>n. n = 1)(2 := True), fk_refs = (\<lambda>_. 0)(1 := 2, 2 := 1), fk_stack = [], fk_out = no_problems, fk_fault = False\<rparr>"
    using d by (simp add: pop_dir_def fsck_start_def tiny_fields tiny_reads [unfolded One_nat_def] fsck_mark_blocks_def tiny_extents mark_block_def visit_dir_def tiny_readable tiny_offs
        visit_entry_def tiny_entries look_at_name_def count_ref_def reach_inode_def) (simp add: numeral_2_eq_2)
  moreover have "(\<lambda>b. b < 4)(4 := True, 5 := True) = (\<lambda>b :: nat. b < 6)" "(\<lambda>n. n = 1)(2 := True) = (\<lambda>n :: nat. n = 1 \<or> n = 2)" by (auto simp: fun_eq_iff)
  ultimately have "pop_dir tiny_volume (fsck_start tiny_volume) =
    \<lparr>fk_bbm = (\<lambda>b. b < 6), fk_ibm = (\<lambda>n. n = 1 \<or> n = 2), fk_refs = (\<lambda>_. 0)(1 := 2, 2 := 1), fk_stack = [], fk_out = no_problems, fk_fault = False\<rparr>" by simp
  then show ?thesis by (subst fsck_walk.simps, subst fsck_walk.simps) (simp add: fsck_start_def)
qed

lemma tiny_bits: "i < 6 \<Longrightarrow> bit_at (tiny_block 1) i" "i < 3 \<Longrightarrow> bit_at (tiny_block 2) i"
proof -
  have "i < 6 \<Longrightarrow> i \<in> {0, 1, 2, 3, 4, 5}" by auto
  then show "i < 6 \<Longrightarrow> bit_at (tiny_block 1) i" by (auto simp: bit_at_def tiny_block_def)
  have "i < 3 \<Longrightarrow> i \<in> {0, 1, 2}" by auto
  then show "i < 3 \<Longrightarrow> bit_at (tiny_block 2) i" by (auto simp: bit_at_def tiny_block_def)
qed

lemma tiny_clean: "\<exists>r. cfs_fsck False tiny_volume = Some ((0, r), tiny_volume)"
proof -
  define k where "k = fsck_walk tiny_volume (fsck_start tiny_volume)"
  have k: "fk_bbm k = (\<lambda>b. b < 6)" "fk_ibm k = (\<lambda>n. n = 1 \<or> n = 2)" "fk_refs k = (\<lambda>_. 0)(1 := 2, 2 := 1)" "fk_out k = no_problems" "\<not> fk_fault k"
    by (simp_all add: k_def tiny_walk)
  have bm: "bitmap_blocks (total_blocks tiny_volume) = 1" "bitmap_blocks (total_inodes tiny_volume) = 1" by (simp_all add: tiny_fields bitmap_blocks_def)
  note bits = tiny_bits [unfolded One_nat_def]
  have B: "compare_bitmap False (\<lambda>b. total_blocks tiny_volume \<le> b \<or> fk_bbm k b) (\<lambda>b. b < total_blocks tiny_volume)
      (block_bitmap_start tiny_volume) 0 (bitmap_blocks (total_blocks tiny_volume)) tiny_volume = ((0, 0), tiny_volume)"
    by (rule compare_bitmap_zero [OF tiny_ok]) (use bits(1) in \<open>auto simp: agree_def k tiny_fields bitmap_blocks_def tiny_data\<close>)
  have I: "compare_bitmap False (\<lambda>n. n = 0 \<or> total_inodes tiny_volume \<le> n \<or> fk_ibm k n) (\<lambda>n. 0 < n \<and> n < total_inodes tiny_volume)
      (inode_bitmap_start tiny_volume) 0 (bitmap_blocks (total_inodes tiny_volume)) tiny_volume = ((0, 0), tiny_volume)"
    by (rule compare_bitmap_zero [OF tiny_ok]) (use bits(2) in \<open>auto simp: agree_def k tiny_fields bitmap_blocks_def tiny_data\<close>)
  have r: "raw_read_block 0 tiny_volume = (Some (zeros 4096), tiny_volume)"
    using raw_read_eq [OF tiny_ok, of 0] by (simp add: tiny_fields tiny_data tiny_block_def)
  have small: "\<not> (total_blocks tiny_volume > CFS_FSCK_MAX_BLOCKS \<or> total_inodes tiny_volume > CFS_FSCK_MAX_INODES)" by (simp add: tiny_fields)
  have u: "[1..<3] = [1, 2 :: nat]" "[0..<6] = [0, 1, 2, 3, 4, 5 :: nat]" "[0..<3] = [0, 1, 2 :: nat]" by (simp_all add: upt_rec)
  have chk: "fold (check_inode False k) [1..<total_inodes tiny_volume] (no_problems, tiny_volume) = (no_problems, tiny_volume)"
    unfolding tiny_fields u by (simp add: check_inode_def k tiny_reads [unfolded One_nat_def] tiny_fields) (simp add: tiny_root_def tiny_file_def)
  have o1: "(fk_out k)\<lparr>block_badref := block_badref (fk_out k) + 0, block_leaks := 0, inode_badref := inode_badref (fk_out k) + 0, inode_leaks := 0\<rparr> = no_problems"
    by (simp add: k no_problems_def)
  have "length (filter (\<lambda>b. b < data_start tiny_volume \<or> fk_bbm k b) [0..<total_blocks tiny_volume]) = 6"
    "length (filter (\<lambda>n. n = 0 \<or> fk_ibm k n) [0..<total_inodes tiny_volume]) = 3" unfolding tiny_fields u by (simp_all add: k)
  then have "cfs_fsck False tiny_volume = (let (o3, st4) = check_super False 0 0 (no_problems, tiny_volume)
      in if fk_fault k then None else Some ((as_int (problems o3), report (o3\<lparr>total := problems o3\<rparr>)), st4))"
    unfolding cfs_fsck_def if_not_P [OF small] Let_def k_def [symmetric] B I prod.case o1 chk by (simp add: tiny_fields)
  then show ?thesis using k(5) by (simp add: check_super_def r tiny_fields problems_def no_problems_def as_int_def)
qed

lemma tiny_load: "volume_load tiny_volume < 2 ^ 31"
proof -
  have "{..<3} = {0, 1, 2 :: nat}" by auto
  moreover have "readable_blocks tiny_volume tiny_file = []" by (simp add: readable_blocks_def dir_blocks_def tiny_file_def map_filter_simps)
  ultimately show ?thesis
    by (simp add: volume_load_def load_def inode_at_def tiny_fields tiny_reads [unfolded One_nat_def] tiny_extents slots_def tiny_readable tiny_offs)
      (simp add: read_dinode_def)
qed

text \<open>The root directory and its file are reached, and the blocks of both are marked on the disk.\<close>

theorem fsck_clean_sound_witness:
  "used tiny_volume 1 4 \<and> used tiny_volume 1 5 \<and> used tiny_volume 2 2 \<and> (child tiny_volume)\<^sup>*\<^sup>* 1 2 \<and> 5 \<in> covered tiny_volume 2"
proof -
  obtain r where r: "cfs_fsck False tiny_volume = Some ((0, r), tiny_volume)" using tiny_clean by blast
  have "2 \<in> listed tiny_volume tiny_root" using tiny_entries by (auto simp: listed_def tiny_readable tiny_offs tiny_fields)
  then have "child tiny_volume 1 2" using tiny_reads(1) by (simp add: child_def inode_at_def tiny_fields)
  then have c: "(child tiny_volume)\<^sup>*\<^sup>* 1 2" by blast
  have "4 \<in> covered tiny_volume 1" "5 \<in> covered tiny_volume 2" using tiny_reads by (simp_all add: covered_def inode_at_def tiny_extents tiny_fields)
  then show ?thesis using fsck_clean_sound [OF tiny_ok _ _ _ r tiny_load] c by (auto simp: tiny_fields bitmap_blocks_def)
qed

end
