(* ===== verification/Platform.thy ===== *)
theory Platform
  imports Ata Bytes CString
begin

text \<open>
  What the file systems ask of the machine: the partitions of the disk (the routine
  \<open>gpt_partitions\<close>, which \<open>src/cfs.c\<close> and \<open>src/ext2.c\<close> both have) and the reading of the real-time
  clock, which is an argument of the definitions that use it.
\<close>

section \<open>Partitions\<close>

text \<open>The loop over \<open>left\<close> entries from number \<open>i\<close> on; \<open>sec\<close> is the sector read last and \<open>room\<close> what
  is free in the result.\<close>

fun gpt_scan :: "drive \<Rightarrow> nat \<Rightarrow> nat \<Rightarrow> nat \<Rightarrow> nat \<Rightarrow> nat \<Rightarrow> u8 list \<Rightarrow> nat list" where
  "gpt_scan d lba esize room i 0 sec = []"
| "gpt_scan d lba esize room i (Suc left) sec =
     (if room = 0 then []
      else let per = 512 div esize
           in case (if i mod per = 0 then ata_read (u32_add lba (i div per)) 1 d else Some sec) of
                None \<Rightarrow> []
              | Some sec1 \<Rightarrow>
                  let e = drop (i mod per * esize) sec1; start = field e 32 4
                  in if list_all (\<lambda>b. b = 0) (take 16 e) \<or> start = 0 then gpt_scan d lba esize room (i + 1) left sec1
                     else start # gpt_scan d lba esize (room - 1) (i + 1) left sec1)"

definition gpt_partitions :: "drive \<Rightarrow> nat \<Rightarrow> nat list" where
  "gpt_partitions d room =
     (case ata_read 1 1 d of
        None \<Rightarrow> []
      | Some hdr \<Rightarrow>
          let lba = field hdr 72 4; n = field hdr 80 4; esize = field hdr 84 4
          in if take 8 hdr \<noteq> bytes_of ''EFI PART'' \<or> esize < 128 \<or> esize > 512 \<or> 512 mod esize \<noteq> 0 then []
             else gpt_scan d lba esize room 0 (min n 256) [])"

section \<open>The clock\<close>

record rtc_time =
  rtc_year :: nat
  rtc_month :: nat
  rtc_day :: nat
  rtc_hour :: nat
  rtc_minute :: nat
  rtc_second :: nat

end
