(* ===== verification/Cfs_Boot.thy ===== *)
theory Cfs_Boot
  imports Cfs Platform
begin

text \<open>
  \<open>src/cfs.c\<close>, the binding to the kernel: mounting and the clock.
\<close>

section \<open>Mounting\<close>

text \<open>The first candidate that holds a volume; without value where \<open>cfs_mount_bd\<close> is.\<close>

fun try_mounts :: "nat list \<Rightarrow> cfs \<Rightarrow> (int \<times> cfs) option" where
  "try_mounts [] st = Some (-1, st)"
| "try_mounts (b # bs) st =
     (case cfs_mount_bd (st\<lparr>c_base := b\<rparr>) of
        None \<Rightarrow> None
      | Some (r, st1) \<Rightarrow> if r = 0 then Some (0, st1) else try_mounts bs st1)"

definition cfs_mount :: "bool \<times> cfs \<Rightarrow> (int \<times> bool \<times> cfs) option" where
  "cfs_mount = (\<lambda>(ok, st).
     if ok then Some (0, ok, st)
     else let cands = gpt_partitions (c_drive st) 16
          in map_option (\<lambda>(r, st1). (r, r = 0, st1)) (try_mounts (if cands = [] then [0] else cands) st))"

definition cfs_mounted :: "bool \<times> cfs \<Rightarrow> bool" where
  "cfs_mounted = fst"

section \<open>The clock\<close>

text \<open>C divides towards zero, so the division of a negative year is written out; the day of the year
  and of the era are 32-bit and wrap.\<close>

definition cfs_days_from_civil :: "int \<Rightarrow> nat \<Rightarrow> nat \<Rightarrow> int" where
  "cfs_days_from_civil y0 m d =
     (let y = (if m \<le> 2 then y0 - 1 else y0);
          era = (if y \<ge> 0 then y div 400 else - ((399 - y) div 400));
          yoe = y - era * 400;
          doy = ((153 * (int m + (if m > 2 then -3 else 9)) + 2) mod 2 ^ 32 div 5 + int d - 1) mod 2 ^ 32;
          doe = (yoe * 365 + yoe div 4 - yoe div 100 + doy) mod 2 ^ 32
      in era * 146097 + doe - 719468)"

definition cfs_now_ns :: "rtc_time \<Rightarrow> nat" where
  "cfs_now_ns t =
     (let secs = cfs_days_from_civil (int (rtc_year t)) (rtc_month t) (rtc_day t) * 86400 + int (rtc_hour t) * 3600 +
                 int (rtc_minute t) * 60 + int (rtc_second t)
      in nat (if secs < 0 then 0 else secs) * 1000000000 mod 2 ^ 64)"

section \<open>The calendar\<close>

definition leap :: "int \<Rightarrow> bool" where
  "leap y \<longleftrightarrow> 4 dvd y \<and> (\<not> 100 dvd y \<or> 400 dvd y)"

definition month_days :: "int \<Rightarrow> nat \<Rightarrow> nat" where
  "month_days y m = (if m = 2 then (if leap y then 29 else 28) else if m \<in> {4, 6, 9, 11} then 30 else 31)"

definition valid_date :: "int \<times> nat \<times> nat \<Rightarrow> bool" where
  "valid_date = (\<lambda>(y, m, d). 1 \<le> y \<and> 1 \<le> m \<and> m \<le> 12 \<and> 1 \<le> d \<and> d \<le> month_days y m)"

definition next_day :: "int \<times> nat \<times> nat \<Rightarrow> int \<times> nat \<times> nat" where
  "next_day = (\<lambda>(y, m, d). if d < month_days y m then (y, m, d + 1) else if m < 12 then (y, m + 1, 1) else (y + 1, 1, 1))"

definition day_number :: "int \<times> nat \<times> nat \<Rightarrow> int" where
  "day_number = (\<lambda>(y, m, d). cfs_days_from_civil y m d)"

text \<open>The days before the year that starts in March, and before a month of it.\<close>

definition march_days :: "int \<Rightarrow> int" where
  "march_days y = 365 * y + y div 4 - y div 100 + y div 400"

definition month_start :: "nat \<Rightarrow> int" where
  "month_start m = (153 * (int m + (if m > 2 then -3 else 9)) + 2) div 5"

lemma era_div:
  fixes e r :: int
  shows "(400 * e + r) div 4 = 100 * e + r div 4" "(400 * e + r) div 100 = 4 * e + r div 100"
  using div_mult_self1 [of 4 r "100 * e"] div_mult_self1 [of 100 r "4 * e"] by (simp_all add: ac_simps)

lemma era_days:
  fixes y :: int
  shows "y div 400 * 146097 + (y mod 400 * 365 + y mod 400 div 4 - y mod 400 div 100) = march_days y"
proof -
  define e r where "e = y div 400" and "r = y mod 400"
  have y: "y = 400 * e + r" by (simp add: e_def r_def)
  have "march_days y = 365 * (400 * e + r) + (100 * e + r div 4) - (4 * e + r div 100) + e"
    unfolding march_days_def e_def [symmetric] y era_div using e_def y by simp
  then show ?thesis unfolding e_def [symmetric] r_def [symmetric] by simp
qed

lemma month_start_range: "1 \<le> m \<Longrightarrow> m \<le> 12 \<Longrightarrow> 0 \<le> month_start m \<and> month_start m \<le> 337"
  unfolding month_start_def by (auto split: if_splits)

text \<open>With a month and day of the calendar nothing wraps.\<close>

lemma days_eq:
  assumes "1 \<le> y" "1 \<le> m" "m \<le> 12" "1 \<le> d" "d \<le> 31"
  shows "cfs_days_from_civil y m d = march_days (if m \<le> 2 then y - 1 else y) + month_start m + int d - 719469"
proof -
  define q where "q = (if m \<le> 2 then y - 1 else y)"
  define r where "r = q mod 400"
  define s where "s = month_start m"
  have q0: "0 \<le> q" using assms(1) by (simp add: q_def)
  have r: "0 \<le> r" "r < 400" by (simp_all add: r_def)
  have s: "0 \<le> s" "s \<le> 337" using month_start_range [OF assms(2,3)] by (simp_all add: s_def)
  have k: "(153 * (int m + (if m > 2 then -3 else 9)) + 2) mod 2 ^ 32 = 153 * (int m + (if m > 2 then -3 else 9)) + 2"
    using assms(2,3) by (intro mod_pos_pos_trivial) auto
  have doy: "((153 * (int m + (if m > 2 then -3 else 9)) + 2) mod 2 ^ 32 div 5 + int d - 1) mod 2 ^ 32 = s + int d - 1"
    unfolding k month_start_def [symmetric] s_def [symmetric] using s assms(4,5) by (intro mod_pos_pos_trivial) auto
  have yd: "0 \<le> r div 4" "r div 4 \<le> r" "0 \<le> r div 100" "r div 100 \<le> r" using r by (simp_all add: div_le_dividend)
  have doe: "(r * 365 + r div 4 - r div 100 + (s + int d - 1)) mod 2 ^ 32 = r * 365 + r div 4 - r div 100 + (s + int d - 1)"
    using r s assms(4,5) yd by (intro mod_pos_pos_trivial) simp_all
  have "cfs_days_from_civil y m d = q div 400 * 146097 + (r * 365 + r div 4 - r div 100 + (s + int d - 1)) - 719468"
    unfolding cfs_days_from_civil_def Let_def q_def [symmetric] if_P [OF q0] minus_div_mult_eq_mod r_def [symmetric] doy doe ..
  also have "\<dots> = march_days q + s + int d - 719469" using era_days [of q] unfolding r_def [symmetric] by simp
  finally show ?thesis unfolding q_def s_def .
qed

lemma div_pred: "0 < n \<Longrightarrow> y div n = (y - 1) div n + (if n dvd y then 1 else 0)" for y n :: int
proof -
  assume n: "0 < n"
  define q r where "q = (y - 1) div n" and "r = (y - 1) mod n"
  have r: "0 \<le> r" "r < n" using n by (simp_all add: r_def)
  have "y - 1 = n * q + r" by (simp add: q_def r_def)
  then have y: "y = n * q + (r + 1)" by simp
  show ?thesis
  proof (cases "r + 1 = n")
    case True
    then have e: "y = n * (q + 1)" using y by (simp add: algebra_simps)
    then have "n dvd y" "y div n = q + 1" using n by simp_all
    then show ?thesis unfolding q_def by simp
  next
    case False
    then have "r + 1 < n" using r by simp
    then have "y div n = q" "y mod n = r + 1" using y r by (simp_all add: int_div_pos_eq int_mod_pos_eq)
    then show ?thesis using r by (simp add: q_def [symmetric] dvd_eq_mod_eq_0)
  qed
qed

lemma leap_count: "h \<longrightarrow> f \<Longrightarrow> g \<longrightarrow> h \<Longrightarrow>
    (if f then 1 else 0) - (if h then 1 else 0) + (if g then 1 else 0) = (if f \<and> (\<not> h \<or> g) then 1 else (0::int))"
  by (cases f; cases h; cases g; simp)

lemma leap_step: "march_days y = march_days (y - 1) + (if leap y then 366 else 365)"
proof -
  define i j k :: int where "i = (if 4 dvd y then 1 else 0)" and "j = (if 100 dvd y then 1 else 0)" and "k = (if 400 dvd y then 1 else 0)"
  have s: "y div 4 = (y - 1) div 4 + i" "y div 100 = (y - 1) div 100 + j" "y div 400 = (y - 1) div 400 + k"
    unfolding i_def j_def k_def by (rule div_pred; simp)+
  have "100 dvd y \<longrightarrow> 4 dvd y" by (intro impI, rule dvd_trans [of 4 100]) simp_all
  moreover have "400 dvd y \<longrightarrow> 100 dvd y" by (intro impI, rule dvd_trans [of 100 400]) simp_all
  ultimately have "i - j + k = (if leap y then 1 else 0)" unfolding i_def j_def k_def leap_def by (rule leap_count)
  moreover have "march_days y = march_days (y - 1) + 365 + (i - j + k)" unfolding march_days_def s by simp
  ultimately show ?thesis by simp
qed

lemma months: "1 \<le> m \<Longrightarrow> m \<le> 12 \<Longrightarrow> m \<in> {1, 2, 3, 4, 5, 6, 7, 8, 9, 10, 11, 12}" for m :: nat
  by (auto simp: numeral_eq_Suc le_Suc_eq)

lemma month_days_range: "28 \<le> month_days y m" "month_days y m \<le> 31"
  by (simp_all add: month_days_def)

lemma month_end:
  assumes "1 \<le> y" "1 \<le> m" "m < 12"
  shows "cfs_days_from_civil y (m + 1) 1 = cfs_days_from_civil y m (month_days y m) + 1"
proof -
  have m: "m \<in> {1, 2, 3, 4, 5, 6, 7, 8, 9, 10, 11}" using months [of m] assms(2,3) by auto
  have "march_days (if m + 1 \<le> 2 then y - 1 else y) + month_start (m + 1) =
      march_days (if m \<le> 2 then y - 1 else y) + month_start m + int (month_days y m)"
    using m leap_step [of y] by (elim insertE emptyE) (simp_all add: month_start_def month_days_def)
  then show ?thesis using assms month_days_range [of y m] by (subst (1 2) days_eq) simp_all
qed

lemma year_end: "1 \<le> y \<Longrightarrow> cfs_days_from_civil (y + 1) 1 1 = cfs_days_from_civil y 12 31 + 1"
  by (subst (1 2) days_eq) (simp_all add: month_start_def)

text \<open>C35. The conversion of dates agrees with the Gregorian calendar: 1 January 1970 is day 0, and the
  number of the day after any date is one more than the date's, over month ends, leap days and
  century years.\<close>

theorem civil_days_count:
  assumes "valid_date t"
  shows "day_number (1970, 1, 1) = 0 \<and> day_number (next_day t) = day_number t + 1 \<and> valid_date (next_day t)"
proof -
  obtain y m d where t: "t = (y, m, d)" by (cases t) auto
  have v: "1 \<le> y" "1 \<le> m" "m \<le> 12" "1 \<le> d" "d \<le> month_days y m" using assms by (auto simp: t valid_date_def)
  have d31: "d \<le> 31" using v(5) month_days_range(2) [of y m] by linarith
  have z: "day_number (1970, 1, 1) = 0" by (simp add: day_number_def days_eq march_days_def month_start_def)
  have "valid_date (next_day t)" using v month_days_range(1) [of y "m + 1"] month_days_range(1) [of "y + 1" 1]
    by (simp add: t next_day_def valid_date_def del: One_nat_def)
  moreover have "day_number (next_day t) = day_number t + 1"
  proof (cases "d < month_days y m")
    case True
    then have "d + 1 \<le> 31" using month_days_range(2) [of y m] by linarith
    then show ?thesis using True v d31 by (simp add: t next_day_def day_number_def days_eq)
  next
    case False
    then have d: "d = month_days y m" using v(5) by simp
    have "m = 12 \<Longrightarrow> d = 31" by (simp add: d month_days_def)
    then show ?thesis using v month_end [OF v(1,2)] year_end [OF v(1)] False
      by (cases "m < 12") (simp_all add: t next_day_def day_number_def d)
  qed
  ultimately show ?thesis using z by blast
qed

theorem civil_days_count_witness: "day_number (2000, 3, 1) = day_number (2000, 2, 29) + 1"
proof -
  have "valid_date (2000, 2, 29)" "next_day (2000, 2, 29) = (2000, 3, 1)" by (simp_all add: valid_date_def next_day_def month_days_def leap_def)
  then show ?thesis using civil_days_count [of "(2000, 2, 29)"] by simp
qed

end
