(* ===== verification/Tar.thy ===== *)
theory Tar
  imports Vfs Inflate
begin

text \<open>
  \<open>src/tar.c\<close>: reading an archive from the VFS, decompressing it and extracting its entries.
  The image is a list of bytes; a step of the loop over its blocks ends the loop, goes on, or
  faults when it reads behind the image or an operation of the VFS faults.  Positions and sizes
  are 32 bits wide and wrap.  What the program prints is left out.
\<close>

section \<open>Headers\<close>

abbreviation (input) TAR_BLOCK :: nat where "TAR_BLOCK \<equiv> 512"
abbreviation (input) TAR_MAX_SIZE :: nat where "TAR_MAX_SIZE \<equiv> 4 * 1024 * 1024"

record tar_header =
  th_name :: "u8 list"
  th_size :: "u8 list"
  th_checksum :: "u8 list"
  th_typeflag :: u8
  th_linkname :: "u8 list"
  th_magic :: "u8 list"
  th_prefix :: "u8 list"

definition header_of :: "u8 list \<Rightarrow> tar_header" where
  "header_of blk =
     \<lparr>th_name = take 100 blk, th_size = take 12 (drop 124 blk), th_checksum = take 8 (drop 148 blk), th_typeflag = blk ! 156,
      th_linkname = take 100 (drop 157 blk), th_magic = take 6 (drop 257 blk), th_prefix = take 155 (drop 345 blk)\<rparr>"

fun octal_from :: "nat \<Rightarrow> u8 list \<Rightarrow> nat" where
  "octal_from v [] = v"
| "octal_from v (c # cs) =
     (if 48 \<le> unat c \<and> unat c \<le> 55 then octal_from ((v * 8 + (unat c - 48)) mod 2 ^ 32) cs else v)"

definition octal_to_uint :: "u8 list \<Rightarrow> nat" where
  "octal_to_uint s = octal_from 0 s"

definition block_is_zero :: "u8 list \<Rightarrow> bool" where
  "block_is_zero blk \<longleftrightarrow> list_all (\<lambda>b. b = 0) blk"

text \<open>The eight bytes of the checksum count as spaces.\<close>

definition header_sum :: "u8 list \<Rightarrow> nat" where
  "header_sum blk = sum_list (map unat (take 148 blk)) + 8 * 32 + sum_list (map unat (drop 156 blk))"

definition checksum_ok :: "u8 list \<Rightarrow> bool" where
  "checksum_ok blk \<longleftrightarrow> header_sum blk = octal_to_uint (th_checksum (header_of blk))"

text \<open>The string in a field.\<close>

definition text_of :: "u8 list \<Rightarrow> string" where
  "text_of bs = map char_at (takeWhile (\<lambda>b. b \<noteq> 0) bs)"

definition build_name :: "tar_header \<Rightarrow> nat \<Rightarrow> string" where
  "build_name h outsz =
     (if text_of (take 5 (th_magic h)) = ''ustar'' \<and> text_of (th_prefix h) \<noteq> []
      then let p = take (outsz - 1) (text_of (th_prefix h)); q = (if length p < outsz - 1 then p @ ''/'' else p)
           in q @ take (outsz - 1 - length q) (text_of (th_name h))
      else text_of (take 99 (th_name h)))"

section \<open>Paths\<close>

function strip_slashes :: "string \<Rightarrow> string" where
  "strip_slashes p = (if length p > 1 \<and> last p = CHR ''/'' then strip_slashes (butlast p) else p)"
  by pat_completeness auto
termination by (relation "measure length") auto

declare strip_slashes.simps [simp del]

definition join_path :: "string \<Rightarrow> string \<Rightarrow> nat \<Rightarrow> string" where
  "join_path dir entry outsz =
     (let d = strip_slashes (take (outsz - 1) dir); d1 = (if length d < outsz - 1 then d @ ''/'' else d)
      in strip_slashes (d1 @ take (outsz - 1 - length d1) (dropWhile (\<lambda>c. c = CHR ''/'') entry)))"

text \<open>The loop of \<open>mkdir_p\<close>: the prefix in \<open>buf\<close>, cut to the 255 characters it holds.\<close>

function mkdir_from :: "string \<Rightarrow> string \<Rightarrow> 'w vfs \<Rightarrow> 'w vfs option" where
  "mkdir_from buf p s =
     (if p = [] then Some s
      else let buf1 = take 255 (buf @ takeWhile (\<lambda>c. c \<noteq> CHR ''/'') p); rest = dropWhile (\<lambda>c. c \<noteq> CHR ''/'') p
           in case (if length buf1 > 1 then map_option snd (vfs_mkdir s buf1) else Some s) of
                None \<Rightarrow> None
              | Some s1 \<Rightarrow> if rest = [] then Some s1 else mkdir_from (take 255 (buf1 @ ''/'')) (tl rest) s1)"
  by pat_completeness auto
termination
proof (relation "measure (\<lambda>(buf, p, s). length p)")
  fix buf p :: string and s :: "'w vfs" and buf1 rest s1
  assume "p \<noteq> []" "rest = dropWhile (\<lambda>c. c \<noteq> CHR ''/'') p" "rest \<noteq> []"
  then have "length (tl rest) < length rest" "length rest \<le> length p" by (simp_all add: length_dropWhile_le)
  then have "length (tl rest) < length p" by simp
  then show "((take 255 (buf1 @ ''/''), tl rest, s1), buf, p, s) \<in> measure (\<lambda>(buf, p, s). length p)" by simp
qed simp

declare mkdir_from.simps [simp del]

definition mkdir_p :: "string \<Rightarrow> 'w vfs \<Rightarrow> 'w vfs option" where
  "mkdir_p path s = (if path \<noteq> [] \<and> hd path = CHR ''/'' then mkdir_from ''/'' (tl path) s else mkdir_from [] path s)"

function back_to_slash :: "string \<Rightarrow> string" where
  "back_to_slash p = (if length p > 1 \<and> last p \<noteq> CHR ''/'' then back_to_slash (butlast p) else p)"
  by pat_completeness auto
termination by (relation "measure length") auto

declare back_to_slash.simps [simp del]

section \<open>Entries\<close>

record 'w tar =
  t_pos :: nat
  t_entries :: nat
  t_zero_blocks :: nat
  t_longname :: "string option"
  t_longlink :: "string option"
  t_vfs :: "'w vfs"

datatype 't tar_step = Halt 't | More 't | Fault

definition image_part :: "u8 list \<Rightarrow> nat \<Rightarrow> nat \<Rightarrow> u8 list option" where
  "image_part data pos n = (if pos + n \<le> length data then Some (take n (drop pos data)) else None)"

text \<open>Creating the parent directory and writing the file; a failed write is only reported.\<close>

definition extract_file :: "string \<Rightarrow> u8 list \<Rightarrow> 'w vfs \<Rightarrow> 'w vfs option" where
  "extract_file fullpath bytes s =
     (let q = back_to_slash fullpath
      in case (if length q > 1 then mkdir_p (butlast q) s else Some s) of
           None \<Rightarrow> None
         | Some s1 \<Rightarrow> map_option snd (vfs_write_file s1 fullpath bytes))"

text \<open>What an entry does, once its header is read: \<open>name\<close> and \<open>linkname\<close> are settled and \<open>t\<close> is
  behind the header.\<close>

definition tar_entry :: "u8 list \<Rightarrow> string \<Rightarrow> bool \<Rightarrow> u8 \<Rightarrow> string \<Rightarrow> string \<Rightarrow> nat \<Rightarrow> 'w tar \<Rightarrow> 'w tar tar_step" where
  "tar_entry data dst extract typeflag name linkname file_size t =
     (let skip = (\<lambda>t. t\<lparr>t_pos := u32_add (t_pos t) (u32_mul (u32_add file_size (TAR_BLOCK - 1) div TAR_BLOCK) TAR_BLOCK)\<rparr>);
          longtext = map_option text_of (image_part data (t_pos t) (min file_size 511));
          c = char_at typeflag
      in if c = CHR ''L''
         then (case longtext of None \<Rightarrow> Fault | Some x \<Rightarrow> More (skip (t\<lparr>t_longname := Some x\<rparr>)))
         else if c = CHR ''K''
         then (case longtext of None \<Rightarrow> Fault | Some x \<Rightarrow> More (skip (t\<lparr>t_longlink := Some x\<rparr>)))
         else if c = CHR ''g'' \<or> c = CHR ''x'' then More (skip t)
         else let fullpath = join_path dst name 256
              in if c = CHR ''5''
                 then (case (if extract then mkdir_p fullpath (t_vfs t) else Some (t_vfs t)) of
                         None \<Rightarrow> Fault
                       | Some s \<Rightarrow> More (t\<lparr>t_entries := t_entries t + 1, t_vfs := s\<rparr>))
                 else if c = CHR ''0'' \<or> c = CHR ''1'' \<or> c = CHR ''2''
                 then let bytes = (if (c = CHR ''1'' \<or> c = CHR ''2'') \<and> file_size = 0 \<and> linkname \<noteq> [] then Some (map byte_of linkname)
                                   else image_part data (t_pos t) file_size)
                      in (case (if extract then (case bytes of None \<Rightarrow> None | Some bs \<Rightarrow> extract_file fullpath bs (t_vfs t)) else Some (t_vfs t)) of
                            None \<Rightarrow> Fault
                          | Some s \<Rightarrow> More (skip (t\<lparr>t_entries := t_entries t + 1, t_vfs := s\<rparr>)))
                 else More (skip t))"

definition tar_step :: "u8 list \<Rightarrow> string \<Rightarrow> bool \<Rightarrow> 'w tar \<Rightarrow> 'w tar tar_step" where
  "tar_step data dst extract t =
     (if u32_add (t_pos t) TAR_BLOCK > length data then Halt t
      else case image_part data (t_pos t) TAR_BLOCK of
             None \<Rightarrow> Fault
           | Some blk \<Rightarrow>
               if block_is_zero blk
               then (let t1 = t\<lparr>t_zero_blocks := t_zero_blocks t + 1\<rparr>
                     in if t_zero_blocks t1 \<ge> 2 then Halt t1 else More (t1\<lparr>t_pos := u32_add (t_pos t) TAR_BLOCK\<rparr>))
               else if \<not> checksum_ok blk then Halt (t\<lparr>t_zero_blocks := 0\<rparr>)
               else let h = header_of blk;
                        name = (case t_longname t of Some x \<Rightarrow> take 511 x | None \<Rightarrow> build_name h 512);
                        linkname = (case t_longlink t of Some x \<Rightarrow> take 255 x | None \<Rightarrow> text_of (take 99 (th_linkname h)));
                        typeflag = (if th_typeflag h = 0 then 48 else th_typeflag h)
                    in tar_entry data dst extract typeflag name linkname (octal_to_uint (th_size h))
                         (t\<lparr>t_pos := u32_add (t_pos t) TAR_BLOCK, t_zero_blocks := 0, t_longname := None, t_longlink := None\<rparr>))"

text \<open>\<open>None\<close> when the loop does not end, \<open>Some None\<close> on a fault.\<close>

partial_function (option) tar_loop :: "u8 list \<Rightarrow> string \<Rightarrow> bool \<Rightarrow> 'w tar \<Rightarrow> 'w tar option option" where
  "tar_loop data dst extract t =
     (case tar_step data dst extract t of
        Halt t1 \<Rightarrow> Some (Some t1)
      | Fault \<Rightarrow> Some None
      | More t1 \<Rightarrow> tar_loop data dst extract t1)"

definition tar_process :: "u8 list \<Rightarrow> string \<Rightarrow> bool \<Rightarrow> 'w vfs \<Rightarrow> (int \<times> 'w vfs) option option" where
  "tar_process data dst extract s =
     map_option (map_option (\<lambda>t. (int (t_entries t), t_vfs t)))
       (tar_loop data dst extract \<lparr>t_pos = 0, t_entries = 0, t_zero_blocks = 0, t_longname = None, t_longlink = None, t_vfs = s\<rparr>)"

section \<open>Archives\<close>

definition upper :: "char \<Rightarrow> char" where
  "upper c = (if 97 \<le> (of_char c :: nat) \<and> (of_char c :: nat) \<le> 122 then char_of (of_char c - 32 :: nat) else c)"

definition ends_with_ci :: "string \<Rightarrow> string \<Rightarrow> bool" where
  "ends_with_ci name suffix \<longleftrightarrow>
     length suffix \<le> length name \<and> map upper (drop (length name - length suffix) name) = map upper suffix"

text \<open>The directory and the last name of a path; the directory is copied into 256 bytes of which
  only 254 characters are, so a longer one is a fault.\<close>

definition split_source :: "string \<Rightarrow> (string \<times> string) option" where
  "split_source path =
     (let k = (case List.find (\<lambda>i. path ! i = CHR ''/'') (rev [0..<length path]) of None \<Rightarrow> 0 | Some i \<Rightarrow> i);
          base = (if path \<noteq> [] \<and> path ! k = CHR ''/'' then drop (k + 1) path else drop k path)
      in if k > 254 then None else Some (if k > 0 then take k path else ''/'', base))"

text \<open>The size of the source from its directory, or the maximum when it is not found.\<close>

definition source_size :: "string \<Rightarrow> 'a kmem_scheme vfs \<Rightarrow> (nat \<times> 'a kmem_scheme vfs) option" where
  "source_size path s =
     (case split_source path of
        None \<Rightarrow> None
      | Some (parent, base) \<Rightarrow>
          (case kmalloc (km_heap (world s)) (64 * 268) of
             None \<Rightarrow> None
           | Some (ents, h) \<Rightarrow>
               let s1 = s\<lparr>world := (world s)\<lparr>km_heap := h\<rparr>\<rparr>
               in if ents = 0 then Some (TAR_MAX_SIZE, s1)
                  else (case vfs_list s1 parent 64 of
                          None \<Rightarrow> None
                        | Some ((ne, es), s2) \<Rightarrow>
                            let n = (case List.find (\<lambda>e. map upper (de_name e) = map upper base \<and> de_size e > 0) (take (nat ne) es) of
                                       None \<Rightarrow> TAR_MAX_SIZE
                                     | Some e \<Rightarrow> de_size e)
                            in map_option (\<lambda>h2. (min n TAR_MAX_SIZE, s2\<lparr>world := (world s2)\<lparr>km_heap := h2\<rparr>\<rparr>))
                                 (kfree (km_heap (world s2)) ents))))"

text \<open>Allocating and releasing a buffer around the rest of the work; the result of the allocation
  is 0 when there is no memory.\<close>

definition get_buffer :: "nat \<Rightarrow> 'a kmem_scheme vfs \<Rightarrow> (nat \<times> 'a kmem_scheme vfs) option" where
  "get_buffer n s = map_option (\<lambda>(p, h). (p, s\<lparr>world := (world s)\<lparr>km_heap := h\<rparr>\<rparr>)) (kmalloc (km_heap (world s)) n)"

definition put_buffer :: "nat \<Rightarrow> 'a kmem_scheme vfs \<Rightarrow> 'a kmem_scheme vfs option" where
  "put_buffer p s = map_option (\<lambda>h. s\<lparr>world := (world s)\<lparr>km_heap := h\<rparr>\<rparr>) (kfree (km_heap (world s)) p)"

definition with_result :: "int \<Rightarrow> 'a kmem_scheme vfs option \<Rightarrow> (int \<times> 'a kmem_scheme vfs) option option" where
  "with_result r s = Some (map_option (\<lambda>s1. (r, s1)) s)"

definition finish_with :: "nat \<Rightarrow> (int \<times> 'a kmem_scheme vfs) option option \<Rightarrow> (int \<times> 'a kmem_scheme vfs) option option" where
  "finish_with p res =
     (case res of
        None \<Rightarrow> None
      | Some None \<Rightarrow> Some None
      | Some (Some (r, s)) \<Rightarrow> with_result r (put_buffer p s))"

definition tar_image ::
  "string \<Rightarrow> string \<Rightarrow> bool \<Rightarrow> u8 list \<Rightarrow> nat \<Rightarrow> 'a kmem_scheme vfs \<Rightarrow> (int \<times> 'a kmem_scheme vfs) option option" where
  "tar_image path dst extract img buf s =
     (if (length img \<ge> 2 \<and> img ! 0 = 0x1F \<and> img ! 1 = 0x8B) \<or> ends_with_ci path ''.tar.gz'' \<or> ends_with_ci path ''.tgz''
      then let raw_size = inflate_gzip_size img
           in if raw_size = 0 \<or> raw_size > TAR_MAX_SIZE then with_result (-1) (put_buffer buf s)
              else (case get_buffer raw_size s of
                      None \<Rightarrow> Some None
                    | Some (raw, s1) \<Rightarrow>
                        if raw = 0 then with_result (-1) (put_buffer buf s1)
                        else let (decomp, bytes) = inflate_gzip img raw_size
                             in (case put_buffer buf s1 of
                                   None \<Rightarrow> Some None
                                 | Some s2 \<Rightarrow>
                                     if decomp < 0 then with_result (-1) (put_buffer raw s2)
                                     else finish_with raw (tar_process bytes dst extract s2)))
      else finish_with buf (tar_process img dst extract s))"

definition tar_load_and_process ::
  "string \<Rightarrow> string \<Rightarrow> bool \<Rightarrow> 'a kmem_scheme vfs \<Rightarrow> (int \<times> 'a kmem_scheme vfs) option option" where
  "tar_load_and_process path dst extract s =
     (case source_size path s of
        None \<Rightarrow> Some None
      | Some (n, s1) \<Rightarrow>
          (case get_buffer n s1 of
             None \<Rightarrow> Some None
           | Some (buf, s2) \<Rightarrow>
               if buf = 0 then Some (Some (-1, s2))
               else (case vfs_read_file s2 path n of
                       None \<Rightarrow> Some None
                     | Some ((r, bytes), s3) \<Rightarrow>
                         if r \<le> 0 then with_result (-1) (put_buffer buf s3)
                         else tar_image path dst extract (take (nat r) bytes) buf s3)))"

definition tar_extract :: "string \<Rightarrow> string \<Rightarrow> 'a kmem_scheme vfs \<Rightarrow> (int \<times> 'a kmem_scheme vfs) option option" where
  "tar_extract path dst s = tar_load_and_process path dst True s"

definition tar_list :: "string \<Rightarrow> 'a kmem_scheme vfs \<Rightarrow> (int \<times> 'a kmem_scheme vfs) option option" where
  "tar_list path s = tar_load_and_process path ''/'' False s"

end
