(* ===== verification/Tar_Correct.thy ===== *)
theory Tar_Correct
  imports Tar Ramfs_Vfs
begin

text \<open>
  Correctness of \<open>src/tar.c\<close>: the image that a ustar archiver writes for a list of files and
  directories is extracted entry by entry, and an image exists on which the loop never ends.
\<close>

section \<open>Writing headers\<close>

fun octal_image :: "nat \<Rightarrow> nat \<Rightarrow> u8 list" where
  "octal_image 0 n = []"
| "octal_image (Suc w) n = octal_image w (n div 8) @ [of_nat (48 + n mod 8)]"

lemma length_octal [simp]: "length (octal_image w n) = w"
  by (induction w arbitrary: n) simp_all

lemma octal_from_append:
  "octal_from v (a @ b) = (if list_all (\<lambda>c. 48 \<le> unat c \<and> unat c \<le> 55) a then octal_from (octal_from v a) b else octal_from v a)"
  by (induction a arbitrary: v) auto

lemma octal_digit: "unat (of_nat (48 + n mod 8) :: u8) = 48 + n mod 8"
proof -
  have "n mod 8 < 8" by simp
  then have "48 + n mod 8 < 256" by linarith
  then show ?thesis by (simp add: unat_of_nat del: of_nat_add)
qed

lemma octal_digits: "list_all (\<lambda>c. 48 \<le> unat c \<and> unat c \<le> 55) (octal_image w n)"
proof (induction w arbitrary: n)
  case (Suc w)
  have "n mod 8 < 8" by simp
  then have "48 + n mod 8 \<le> 55" by linarith
  then show ?case using Suc by (simp add: octal_digit del: of_nat_add)
qed simp

lemma octal_from_image: "n < 8 ^ w \<Longrightarrow> n < 2 ^ 32 \<Longrightarrow> octal_from 0 (octal_image w n) = n"
proof (induction w arbitrary: n)
  case (Suc w)
  have "n div 8 < 8 ^ w" using Suc.prems(1) by (simp add: div_less_iff_less_mult mult.commute)
  then have IH: "octal_from 0 (octal_image w (n div 8)) = n div 8" using Suc by simp
  have "n mod 8 < 8" by simp
  then have d: "48 + n mod 8 \<le> 55" by linarith
  have "n div 8 * 8 + n mod 8 = n" by simp
  then show ?case using IH octal_digits [of w "n div 8"] d Suc.prems(2)
    by (simp add: octal_from_append octal_digit del: of_nat_add)
qed simp

lemma octal_to_uint_image:
  assumes "n < 8 ^ w" "n < 2 ^ 32" "unat c < 48"
  shows "octal_to_uint (octal_image w n @ c # rest) = n"
  using assms octal_digits [of w n] by (simp add: octal_to_uint_def octal_from_append octal_from_image)

section \<open>Archives\<close>

datatype tar_kind = Regular "u8 list" | Directory

text \<open>Where the name of an entry goes: into the name field, split at the slash with the given index between
  the prefix field and the name field, or into a record of its own ahead of the entry, as GNU tar does it.\<close>

datatype name_form = In_Name | In_Prefix nat | Gnu_Long

text \<open>An entry, with the fields of its header that the extractor does not look at: mode, owner and
  group, the time, and the version, owner names and device numbers.\<close>

record tar_item =
  ti_name :: string
  ti_form :: name_form
  ti_kind :: tar_kind
  ti_mode :: "u8 list"
  ti_mtime :: "u8 list"
  ti_owner :: "u8 list"

definition padded :: "nat \<Rightarrow> u8 list \<Rightarrow> u8 list" where
  "padded n bs = bs @ replicate (n - length bs) 0"

definition header_with :: "u8 list \<Rightarrow> string \<Rightarrow> string \<Rightarrow> u8 \<Rightarrow> nat \<Rightarrow> tar_item \<Rightarrow> u8 list" where
  "header_with chk pre name ty sz e =
     padded 100 (map byte_of name) @ ti_mode e @ octal_image 11 sz @ [0] @ ti_mtime e @ chk @ [ty] @ replicate 100 0 @
     map byte_of ''ustar'' @ [0] @ ti_owner e @ padded 155 (map byte_of pre) @ replicate 12 0"

definition header_image :: "string \<Rightarrow> string \<Rightarrow> u8 \<Rightarrow> nat \<Rightarrow> tar_item \<Rightarrow> u8 list" where
  "header_image pre name ty sz e = header_with (octal_image 6 (header_sum (header_with (replicate 8 32) pre name ty sz e)) @ [0, 32]) pre name ty sz e"

definition blocks_of :: "u8 list \<Rightarrow> u8 list" where
  "blocks_of bs = padded ((length bs + 511) div 512 * 512) bs"

definition item_body :: "tar_item \<Rightarrow> u8 list" where
  "item_body e = (case ti_kind e of Regular bs \<Rightarrow> blocks_of bs | Directory \<Rightarrow> [])"

definition item_prefix :: "tar_item \<Rightarrow> string" where
  "item_prefix e = (case ti_form e of In_Prefix k \<Rightarrow> take k (ti_name e) | _ \<Rightarrow> [])"

definition item_short :: "tar_item \<Rightarrow> string" where
  "item_short e = (case ti_form e of In_Name \<Rightarrow> ti_name e | In_Prefix k \<Rightarrow> drop (k + 1) (ti_name e) | Gnu_Long \<Rightarrow> take 100 (ti_name e))"

definition item_header :: "tar_item \<Rightarrow> u8 list" where
  "item_header e = (case ti_kind e of
     Regular bs \<Rightarrow> header_image (item_prefix e) (item_short e) 48 (length bs) e
   | Directory \<Rightarrow> header_image (item_prefix e) (item_short e) 53 0 e)"

definition long_name :: "tar_item \<Rightarrow> u8 list" where
  "long_name e = (if ti_form e = Gnu_Long
     then header_image [] ''././@LongLink'' 76 (length (ti_name e) + 1) e @ blocks_of (map byte_of (ti_name e) @ [0]) else [])"

definition item_image :: "tar_item \<Rightarrow> u8 list" where
  "item_image e = long_name e @ item_header e @ item_body e"

definition archive :: "tar_item list \<Rightarrow> u8 list" where
  "archive es = concat (map item_image es) @ replicate 1024 0"

text \<open>A name of 100 characters fills the name field without a terminator, which the format allows and the extractor
  reads wrongly; it is left out here.\<close>

definition name_ok :: "tar_item \<Rightarrow> bool" where
  "name_ok e \<longleftrightarrow> (case ti_form e of
     In_Name \<Rightarrow> length (ti_name e) \<le> 99
   | In_Prefix k \<Rightarrow> 0 < k \<and> k \<le> 155 \<and> k < length (ti_name e) \<and> ti_name e ! k = CHR ''/'' \<and> length (ti_name e) \<le> k + 101
   | Gnu_Long \<Rightarrow> length (ti_name e) \<le> 510)"

definition item_ok :: "tar_item \<Rightarrow> bool" where
  "item_ok e \<longleftrightarrow> name_ok e \<and> nul_free (ti_name e) \<and> length (ti_mode e) = 24 \<and> length (ti_mtime e) = 12 \<and> length (ti_owner e) = 82"

text \<open>What extracting means: one entry after the other.\<close>

definition extract_item :: "string \<Rightarrow> tar_item \<Rightarrow> 'w vfs \<Rightarrow> 'w vfs option" where
  "extract_item dst e s = (case ti_kind e of
     Regular bs \<Rightarrow> extract_file (join_path dst (ti_name e) 256) bs s
   | Directory \<Rightarrow> mkdir_p (join_path dst (ti_name e) 256) s)"

fun extract_all :: "string \<Rightarrow> tar_item list \<Rightarrow> 'w vfs \<Rightarrow> 'w vfs option" where
  "extract_all dst [] s = Some s"
| "extract_all dst (e # es) s = (case extract_item dst e s of None \<Rightarrow> None | Some s1 \<Rightarrow> extract_all dst es s1)"

section \<open>Reading headers\<close>

lemma length_padded [simp]: "length bs \<le> n \<Longrightarrow> length (padded n bs) = n"
  by (simp add: padded_def)

lemma text_of_padded: "nul_free s \<Longrightarrow> text_of (map byte_of s @ replicate n 0) = s"
proof -
  assume "nul_free s"
  then have "\<forall>b \<in> set (map byte_of s). b \<noteq> 0" using cstr_nul_free by metis
  then have "takeWhile (\<lambda>b. b \<noteq> 0) (map byte_of s @ replicate n 0) = map byte_of s"
    by (simp add: takeWhile_append)
  then show ?thesis by (simp add: text_of_def comp_def)
qed

lemma header_length:
  assumes "length pre \<le> 155" "length name \<le> 100" "length chk = 8" "item_ok e"
  shows "length (header_with chk pre name ty sz e) = 512"
  using assms by (simp add: header_with_def item_ok_def)

lemma header_fields:
  fixes ty :: u8 and sz :: nat
  assumes "length pre \<le> 155" "length name \<le> 100" "length chk = 8" "item_ok e"
  defines "h \<equiv> header_of (header_with chk pre name ty sz e)"
  shows "th_name h = padded 100 (map byte_of name)" "th_size h = octal_image 11 sz @ [0]" "th_checksum h = chk" "th_typeflag h = ty"
    "th_magic h = map byte_of ''ustar'' @ [0]" "th_prefix h = padded 155 (map byte_of pre)"
  using assms(1-4) by (simp_all add: h_def header_of_def header_with_def item_ok_def nth_append)

lemma header_sum_chk:
  assumes "length name \<le> 100" "length chk = 8" "item_ok e"
  shows "header_sum (header_with chk pre name ty sz e) = header_sum (header_with (replicate 8 32) pre name ty sz e)"
proof -
  let ?a = "padded 100 (map byte_of name) @ ti_mode e @ octal_image 11 sz @ [0] @ ti_mtime e"
  let ?b = "[ty] @ replicate 100 0 @ map byte_of ''ustar'' @ [0] @ ti_owner e @ padded 155 (map byte_of pre) @ replicate 12 0"
  have l: "length ?a = 148" using assms by (simp add: item_ok_def)
  have g: "header_sum (a @ c @ b) = sum_list (map unat a) + 8 * 32 + sum_list (map unat b)" if "length a = 148" "length c = 8" for a b c :: "u8 list"
    using that by (simp add: header_sum_def)
  have h: "header_with c pre name ty sz e = ?a @ c @ ?b" for c by (simp add: header_with_def)
  show ?thesis unfolding h using g [OF l, of chk ?b] g [OF l, of "replicate 8 32" ?b] assms(2) by (simp only: length_replicate)
qed

lemma sum_bytes: "sum_list (map unat (bs :: u8 list)) \<le> 255 * length bs"
proof (induction bs)
  case (Cons b bs)
  then show ?case using unat_u8_less [of b] by simp
qed simp

lemma header_image_facts:
  assumes "length pre \<le> 155" "length name \<le> 100" "item_ok e" "sz < 2 ^ 32" "ty \<noteq> 0"
  defines "blk \<equiv> header_image pre name ty sz e"
  shows "length blk = 512" "\<not> block_is_zero blk" "checksum_ok blk"
    "th_typeflag (header_of blk) = ty" "octal_to_uint (th_size (header_of blk)) = sz"
    "th_name (header_of blk) = padded 100 (map byte_of name)" "th_magic (header_of blk) = map byte_of ''ustar'' @ [0]" "th_prefix (header_of blk) = padded 155 (map byte_of pre)"
proof -
  let ?h = "header_with (replicate 8 32) pre name ty sz e"
  let ?n = "header_sum ?h" and ?chk = "octal_image 6 (header_sum ?h) @ [0, 32]"
  have n: "length ?chk = 8" by simp
  have b: "blk = header_with ?chk pre name ty sz e" by (simp add: blk_def header_image_def)
  show len: "length blk = 512" unfolding b by (rule header_length [OF assms(1,2) n assms(3)])
  note F = header_fields [OF assms(1,2) n assms(3), of ty sz, folded b]
  show "th_typeflag (header_of blk) = ty" "th_name (header_of blk) = padded 100 (map byte_of name)" "th_magic (header_of blk) = map byte_of ''ustar'' @ [0]"
    "th_prefix (header_of blk) = padded 155 (map byte_of pre)" using F(1,4,5,6) by simp_all
  have "blk ! 156 = ty" using F(4) by (simp add: header_of_def)
  then show "\<not> block_is_zero blk" using len assms(5) by (auto simp: block_is_zero_def list_all_length intro!: exI [of _ 156])
  show "octal_to_uint (th_size (header_of blk)) = sz"
    unfolding F(2) by (rule octal_to_uint_image) (use assms(4) in simp_all)
  have "header_sum ?h \<le> 255 * 148 + 8 * 32 + 255 * 356"
    using sum_bytes [of "take 148 ?h"] sum_bytes [of "drop 156 ?h"] header_length [OF assms(1,2) _ assms(3), of "replicate 8 32" ty sz] by (simp add: header_sum_def)
  then have "?n < 8 ^ 6" by simp
  then have "octal_to_uint ?chk = ?n" using octal_to_uint_image [of ?n 6 0 "[32]"] by simp
  then show "checksum_ok blk" using header_sum_chk [OF assms(2) n assms(3), of pre ty sz] F(3) by (simp add: checksum_ok_def b [symmetric])
qed

text \<open>What the two fields are read as.\<close>

lemma text_of_take: "nul_free s \<Longrightarrow> length s \<le> m \<Longrightarrow> m \<le> n \<Longrightarrow> text_of (take m (padded n (map byte_of s))) = s"
  using text_of_padded [of s "m - length s"] by (simp add: padded_def min_absorb1)

lemma build_name_eq:
  assumes "length pre \<le> 155" "length name \<le> 100" "item_ok e" "sz < 2 ^ 32" "ty \<noteq> 0" "nul_free pre" "nul_free name" "pre = [] \<longrightarrow> length name \<le> 99"
  shows "build_name (header_of (header_image pre name ty sz e)) 512 = (if pre = [] then name else pre @ ''/'' @ name)"
proof -
  note H = header_image_facts(6-8) [OF assms(1-5)]
  have m: "text_of (take 5 (map byte_of ''ustar'' @ [0])) = ''ustar''" using text_of_padded [of "''ustar''" 0] by (simp add: char_of_def)
  have p: "text_of (padded 155 (map byte_of pre)) = pre" using text_of_take [OF assms(6,1), of 155] assms(1) by simp
  have n: "text_of (padded 100 (map byte_of name)) = name" using text_of_take [OF assms(7,2), of 100] assms(2) by simp
  have "text_of (take 99 (padded 100 (map byte_of name))) = name" if "pre = []" using text_of_take [OF assms(7), of 99 100] assms(8) that by simp
  then show ?thesis unfolding build_name_def H m p n using assms(1,2) by (simp add: Let_def)
qed

text \<open>A name of 100 characters loses its last one.\<close>

lemma build_name_cuts:
  assumes "length name = 100" "item_ok e" "sz < 2 ^ 32" "ty \<noteq> 0" "nul_free name"
  shows "build_name (header_of (header_image [] name ty sz e)) 512 = take 99 name"
proof -
  have p: "text_of (padded 155 (map byte_of [])) = []" by (simp add: padded_def text_of_def)
  have "nul_free (take 99 name)" using assms(5) by (meson in_set_takeD)
  then have "text_of (take 99 (padded 100 (map byte_of name))) = take 99 name"
    using text_of_padded [of "take 99 name" 0] assms(1) by (simp add: padded_def take_map)
  then show ?thesis using header_image_facts(6,8) [of "[]" name e sz ty] assms(1-4) p by (simp add: build_name_def)
qed

section \<open>Steps\<close>

lemma part_at: "image_part (a @ b @ c) (length a) (length b) = Some b"
  by (simp add: image_part_def)

lemma tar_step_header:
  assumes h: "length pre \<le> 155" "length name \<le> 100" "item_ok e" "sz < 2 ^ 32" "ty \<noteq> 0"
    and p: "t_pos t = length a" "data = a @ header_image pre name ty sz e @ rest" "length data + 512 < 2 ^ 32"
  shows "tar_step data dst x t = tar_entry data dst x ty
      (case t_longname t of Some n \<Rightarrow> take 511 n | None \<Rightarrow> build_name (header_of (header_image pre name ty sz e)) 512)
      (case t_longlink t of Some n \<Rightarrow> take 255 n | None \<Rightarrow> text_of (take 99 (th_linkname (header_of (header_image pre name ty sz e)))))
      sz (t\<lparr>t_pos := length a + 512, t_zero_blocks := 0, t_longname := None, t_longlink := None\<rparr>)"
proof -
  note H = header_image_facts [OF h]
  have s: "image_part data (t_pos t) 512 = Some (header_image pre name ty sz e)"
    using part_at [of a "header_image pre name ty sz e" rest] H(1) by (simp add: p(1,2))
  have "u32_add (length a) 512 = length a + 512" using p(2,3) H(1) by (intro u32_add_small) simp
  then show ?thesis using H h(5) s p by (simp add: tar_step_def Let_def split: option.split)
qed

lemma length_blocks [simp]: "length (blocks_of bs) = (length bs + 511) div 512 * 512"
  by (simp add: blocks_of_def)

lemma part_blocks: "image_part (a @ blocks_of bs @ c) (length a) (length bs) = Some bs"
  using part_at [of a bs "replicate ((length bs + 511) div 512 * 512 - length bs) 0 @ c"] by (simp add: blocks_of_def padded_def)

lemma skip_pos:
  assumes "p + length (blocks_of bs) + 512 < 2 ^ 32"
  shows "u32_add p (u32_mul (u32_add (length bs) 511 div 512) 512) = p + length (blocks_of bs)"
proof -
  have "length bs \<le> length (blocks_of bs)" by simp
  then have "u32_add (length bs) 511 = length bs + 511" using assms by (intro u32_add_small) linarith
  moreover have "u32_mul ((length bs + 511) div 512) 512 = (length bs + 511) div 512 * 512" using assms by (intro u32_mul_small) simp
  moreover have "u32_add p ((length bs + 511) div 512 * 512) = p + (length bs + 511) div 512 * 512" using assms by (intro u32_add_small) simp
  ultimately show ?thesis by simp
qed

lemma char_types: "char_at 76 = CHR ''L''" "char_at 48 = CHR ''0''" "char_at 53 = CHR ''5''" "char_at 120 = CHR ''x''"
  using char_at_byte_of [of "CHR ''L''"] char_at_byte_of [of "CHR ''0''"] char_at_byte_of [of "CHR ''5''"] char_at_byte_of [of "CHR ''x''"]
  by (simp_all add: byte_of_def)

lemma tar_step_file:
  assumes h: "length pre \<le> 155" "length name \<le> 100" "item_ok e" and p: "t_pos t = length a" "t_longlink t = l"
    and d: "data = a @ header_image pre name 48 (length bs) e @ blocks_of bs @ rest" "length data + 512 < 2 ^ 32"
    and x: "extract_file (join_path dst (case t_longname t of Some n \<Rightarrow> take 511 n | None \<Rightarrow> build_name (header_of (header_image pre name 48 (length bs) e)) 512) 256) bs (t_vfs t) = Some s1"
  shows "tar_step data dst True t = More (t\<lparr>t_pos := length a + 512 + length (blocks_of bs), t_zero_blocks := 0, t_longname := None,
    t_longlink := None, t_entries := t_entries t + 1, t_vfs := s1\<rparr>)"
proof -
  have sz: "length bs < 2 ^ 32" using d by simp
  have hl: "length (header_image pre name 48 (length bs) e) = 512" using header_image_facts(1) [OF h sz, of 48] by simp
  have part: "image_part data (length a + 512) (length bs) = Some bs"
    using part_blocks [of "a @ header_image pre name 48 (length bs) e" bs rest] hl by (simp add: d(1))
  have skip: "u32_add (length a + 512) (u32_mul (u32_add (length bs) 511 div 512) 512) = length a + 512 + length (blocks_of bs)"
    by (rule skip_pos) (use d hl in simp)
  show ?thesis
    by (subst tar_step_header [OF h sz _ p(1) d(1,2)], simp)
      (simp add: tar_entry_def Let_def char_types part skip x del: length_blocks)
qed

lemma tar_step_dir:
  assumes h: "length pre \<le> 155" "length name \<le> 100" "item_ok e" and p: "t_pos t = length a"
    and d: "data = a @ header_image pre name 53 0 e @ rest" "length data + 512 < 2 ^ 32"
    and x: "mkdir_p (join_path dst (case t_longname t of Some n \<Rightarrow> take 511 n | None \<Rightarrow> build_name (header_of (header_image pre name 53 0 e)) 512) 256) (t_vfs t) = Some s1"
  shows "tar_step data dst True t = More (t\<lparr>t_pos := length a + 512, t_zero_blocks := 0, t_longname := None,
    t_longlink := None, t_entries := t_entries t + 1, t_vfs := s1\<rparr>)"
  by (subst tar_step_header [OF h _ _ p d], simp, simp) (simp add: tar_entry_def Let_def char_types x)

lemma tar_step_long:
  assumes h: "length (ti_name e) \<le> 510" "nul_free (ti_name e)" "item_ok e" and p: "t_pos t = length a"
    and d: "data = a @ header_image [] ''././@LongLink'' 76 (length (ti_name e) + 1) e @ blocks_of (map byte_of (ti_name e) @ [0]) @ rest" "length data + 512 < 2 ^ 32"
  shows "tar_step data dst x t = More (t\<lparr>t_pos := length a + 512 + length (blocks_of (map byte_of (ti_name e) @ [0])), t_zero_blocks := 0,
    t_longname := Some (ti_name e), t_longlink := None\<rparr>)"
proof -
  let ?bs = "map byte_of (ti_name e) @ [0]" and ?h = "header_image [] ''././@LongLink'' 76 (length (ti_name e) + 1) e"
  have n: "length [] \<le> 155" "length (ti_name e) + 1 < 2 ^ 32" "length ''././@LongLink'' \<le> 100" using h(1) by simp_all
  have hl: "length ?h = 512" using header_image_facts(1) [OF n(1,3) h(3) n(2), of 76] by simp
  have part: "image_part data (length a + 512) (min (length (ti_name e) + 1) 511) = Some ?bs"
    using part_blocks [of "a @ ?h" ?bs rest] hl h(1) by (simp add: d(1) min_def)
  have skip: "u32_add (length a + 512) (u32_mul (u32_add (length (ti_name e) + 1) 511 div 512) 512) = length a + 512 + length (blocks_of ?bs)"
    using skip_pos [of "length a + 512" ?bs] d hl by simp
  have tx: "text_of ?bs = ti_name e" using text_of_padded [OF h(2), of 1] by simp
  show ?thesis
    by (subst tar_step_header [OF n(1,3) h(3) n(2) _ p d(1,2)], simp)
      (use part skip in \<open>cases t, simp add: tar_entry_def Let_def char_types tx\<close>)
qed

lemma tar_loop_More: "tar_step data dst x t = More t1 \<Longrightarrow> tar_loop data dst x t = tar_loop data dst x t1"
  by (subst tar_loop.simps) simp

lemma item_fields:
  assumes "item_ok e"
  shows "length (item_prefix e) \<le> 155" "length (item_short e) \<le> 100" "nul_free (item_prefix e)" "nul_free (item_short e)"
    "ti_form e \<noteq> Gnu_Long \<Longrightarrow> (item_prefix e = [] \<longrightarrow> length (item_short e) \<le> 99) \<and> (if item_prefix e = [] then item_short e else item_prefix e @ ''/'' @ item_short e) = ti_name e"
proof -
  have f: "nul_free (ti_name e)" "name_ok e" using assms by (simp_all add: item_ok_def)
  show "length (item_prefix e) \<le> 155" "length (item_short e) \<le> 100" using f(2) by (auto simp: item_prefix_def item_short_def name_ok_def split: name_form.splits)
  show "nul_free (item_prefix e)" "nul_free (item_short e)" using f(1) by (auto simp: item_prefix_def item_short_def split: name_form.split dest: in_set_takeD in_set_dropD)
  show "(item_prefix e = [] \<longrightarrow> length (item_short e) \<le> 99) \<and> (if item_prefix e = [] then item_short e else item_prefix e @ ''/'' @ item_short e) = ti_name e"
    if "ti_form e \<noteq> Gnu_Long"
  proof (cases "ti_form e")
    case (In_Prefix k)
    then have "0 < k" "k < length (ti_name e)" "ti_name e ! k = CHR ''/''" using f(2) by (auto simp: name_ok_def)
    then show ?thesis using In_Prefix id_take_nth_drop [of k "ti_name e"] by (auto simp: item_prefix_def item_short_def)
  qed (use f(2) that in \<open>simp_all add: item_prefix_def item_short_def name_ok_def\<close>)
qed

text \<open>One entry, with its long name if it has one.\<close>

lemma tar_loop_item:
  assumes e: "item_ok e" and p: "t_pos t = length a" "t_longname t = None" "t_longlink t = None"
    and d: "data = a @ item_image e @ rest" "length data + 512 < 2 ^ 32" and x: "extract_item dst e (t_vfs t) = Some s1"
  shows "tar_loop data dst True t = tar_loop data dst True (t\<lparr>t_pos := length (a @ item_image e), t_zero_blocks := 0,
    t_entries := t_entries t + 1, t_vfs := s1\<rparr>)"
proof -
  note n = item_fields [OF e]
  have long: "length (ti_name e) \<le> 510" if "ti_form e = Gnu_Long" using e that by (simp add: item_ok_def name_ok_def)
  define t1 where "t1 = t\<lparr>t_pos := length (a @ long_name e), t_zero_blocks := (if long_name e = [] then t_zero_blocks t else 0),
    t_longname := (if ti_form e = Gnu_Long then Some (ti_name e) else None)\<rparr>"
  have "tar_loop data dst True t = tar_loop data dst True t1"
  proof (cases "ti_form e = Gnu_Long")
    case False
    then show ?thesis using p by (cases t) (simp add: t1_def long_name_def)
  next
    case True
    let ?h = "header_image [] ''././@LongLink'' 76 (length (ti_name e) + 1) e" and ?b = "blocks_of (map byte_of (ti_name e) @ [0])"
    have l: "long_name e = ?h @ ?b" using True by (simp add: long_name_def)
    have "length ?h = 512" using header_image_facts(1) [OF _ _ e, of "[]" "''././@LongLink''" "length (ti_name e) + 1" 76] long [OF True] by simp
    moreover have "data = a @ ?h @ ?b @ item_header e @ item_body e @ rest" using d(1) by (simp add: item_image_def l)
    note tar_step_long [OF long [OF True] _ e p(1) this d(2), of dst True]
    ultimately show ?thesis using True p l e by (subst tar_loop_More) (auto simp: t1_def item_ok_def)
  qed
  moreover have nm: "(case t_longname t1 of Some n \<Rightarrow> take 511 n | None \<Rightarrow> build_name (header_of (header_image (item_prefix e) (item_short e) ty sz e)) 512) = ti_name e"
    if "sz < 2 ^ 32" "ty \<noteq> 0" for sz ty
    using long build_name_eq [OF n(1,2) e that n(3,4)] n(5) by (cases "ti_form e = Gnu_Long") (simp_all add: t1_def)
  have t1: "t_pos t1 = length (a @ long_name e)" "t_vfs t1 = t_vfs t" "t_longlink t1 = None" "t_entries t1 = t_entries t" using p by (simp_all add: t1_def)
  have "tar_loop data dst True t1 = tar_loop data dst True (t\<lparr>t_pos := length (a @ item_image e), t_zero_blocks := 0,
    t_entries := t_entries t + 1, t_vfs := s1\<rparr>)"
  proof (cases "ti_kind e")
    case (Regular bs)
    let ?h = "header_image (item_prefix e) (item_short e) 48 (length bs) e"
    have D: "data = (a @ long_name e) @ ?h @ blocks_of bs @ rest" using d(1) Regular by (simp add: item_image_def item_header_def item_body_def)
    have sz: "length bs < 2 ^ 32" using D d(2) by simp
    have "extract_file (join_path dst (case t_longname t1 of Some n \<Rightarrow> take 511 n | None \<Rightarrow> build_name (header_of ?h) 512) 256) bs (t_vfs t1) = Some s1"
      using x Regular nm [OF sz, of 48] by (simp add: extract_item_def t1(2))
    note S = tar_step_file [OF n(1,2) e t1(1,3) D d(2) this]
    have "length ?h = 512" using header_image_facts(1) [OF n(1,2) e sz, of 48] by simp
    then have "length (a @ item_image e) = length (a @ long_name e) + 512 + length (blocks_of bs)"
      using Regular by (simp add: item_image_def item_header_def item_body_def)
    then show ?thesis using p by (subst tar_loop_More [OF S]) (cases t, simp add: t1_def ac_simps)
  next
    case Directory
    let ?h = "header_image (item_prefix e) (item_short e) 53 0 e"
    have D: "data = (a @ long_name e) @ ?h @ rest" using d(1) Directory by (simp add: item_image_def item_header_def item_body_def)
    have "mkdir_p (join_path dst (case t_longname t1 of Some n \<Rightarrow> take 511 n | None \<Rightarrow> build_name (header_of ?h) 512) 256) (t_vfs t1) = Some s1"
      using x Directory nm [of 0 53] by (simp add: extract_item_def t1(2))
    note S = tar_step_dir [OF n(1,2) e t1(1) D d(2) this]
    have "length ?h = 512" using header_image_facts(1) [OF n(1,2) e, of 0 53] by simp
    then have "length (a @ item_image e) = length (a @ long_name e) + 512"
      using Directory by (simp add: item_image_def item_header_def item_body_def)
    then show ?thesis using p by (subst tar_loop_More [OF S]) (cases t, simp add: t1_def ac_simps)
  qed
  ultimately show ?thesis by simp
qed

lemma tar_loop_end:
  assumes "t_pos t = length a" "t_zero_blocks t = 0" "data = a @ replicate 1024 0" "length data + 512 < 2 ^ 32"
  shows "\<exists>t1. tar_loop data dst x t = Some (Some t1) \<and> t_entries t1 = t_entries t \<and> t_vfs t1 = t_vfs t"
proof -
  let ?z = "replicate 512 (0 :: u8)" and ?t = "t\<lparr>t_zero_blocks := Suc 0, t_pos := length a + 512\<rparr>"
  have r: "replicate 1024 (0 :: u8) = ?z @ ?z" by (simp add: replicate_add [symmetric])
  have z: "block_is_zero ?z" by (simp add: block_is_zero_def list_all_iff)
  have p: "image_part data (length a) 512 = Some ?z" "image_part data (length a + 512) 512 = Some ?z"
    using part_at [of a ?z ?z] part_at [of "a @ ?z" ?z "[]"] by (simp_all add: assms(3) r)
  have u: "u32_add (length a) 512 = length a + 512" "u32_add (length a + 512) 512 = length a + 1024"
    using assms(3,4) by (simp_all add: u32_add_small)
  have l: "length data = length a + 1024" using assms(3) by simp
  have "tar_step data dst x t = More ?t" using p(1) u(1) z assms(1,2) l by (simp add: tar_step_def Let_def)
  moreover have "tar_step data dst x ?t = Halt (?t\<lparr>t_zero_blocks := 2\<rparr>)" using p(2) u(2) z l by (simp add: tar_step_def Let_def numeral_2_eq_2)
  then have "tar_loop data dst x ?t = Some (Some (?t\<lparr>t_zero_blocks := 2\<rparr>))" by (subst tar_loop.simps) simp
  ultimately have "tar_loop data dst x t = Some (Some (?t\<lparr>t_zero_blocks := 2\<rparr>))" using tar_loop_More [of data dst x t ?t] by simp
  then show ?thesis by simp
qed

lemma tar_loop_items:
  assumes "list_all item_ok es" "extract_all dst es (t_vfs t) = Some s1" "t_pos t = length a" "t_longname t = None" "t_longlink t = None"
    "t_zero_blocks t = 0" "data = a @ concat (map item_image es) @ replicate 1024 0" "length data + 512 < 2 ^ 32"
  shows "\<exists>t1. tar_loop data dst True t = Some (Some t1) \<and> t_entries t1 = t_entries t + length es \<and> t_vfs t1 = s1"
  using assms
proof (induction es arbitrary: t a)
  case Nil
  then show ?case using tar_loop_end [of t a data dst True] by auto
next
  case (Cons e es)
  obtain s0 where s0: "extract_item dst e (t_vfs t) = Some s0" "extract_all dst es s0 = Some s1"
    using Cons.prems(2) by (auto split: option.splits)
  let ?t = "t\<lparr>t_pos := length (a @ item_image e), t_zero_blocks := 0, t_entries := t_entries t + 1, t_vfs := s0\<rparr>"
  have d: "data = a @ item_image e @ concat (map item_image es) @ replicate 1024 0" using Cons.prems(7) by simp
  have "item_ok e" using Cons.prems(1) by simp
  note step = tar_loop_item [OF this Cons.prems(3-5) d Cons.prems(8) s0(1)]
  have "\<exists>t1. tar_loop data dst True ?t = Some (Some t1) \<and> t_entries t1 = t_entries ?t + length es \<and> t_vfs t1 = s1"
    by (rule Cons.IH [of _ "a @ item_image e"]) (use Cons.prems s0 d in simp_all)
  then show ?case using step by simp
qed

section \<open>Properties\<close>

text \<open>C36. An archive of files and directories whose names are in the name field (of up to 99 characters), split between
  the prefix field and the name field, or in GNU records ahead of the entries (of up to 510 characters) is extracted
  entry by entry in order: \<open>tar_process\<close> returns the number of entries and leaves the file system as creating the
  directories and writing the contents one after the other does.\<close>

theorem tar_extracts_archive:
  assumes "list_all item_ok es" "length (archive es) + 512 < 2 ^ 32" "extract_all dst es s = Some s1"
  shows "tar_process (archive es) dst True s = Some (Some (int (length es), s1))"
proof -
  let ?t = "\<lparr>t_pos = 0, t_entries = 0, t_zero_blocks = 0, t_longname = None, t_longlink = None, t_vfs = s\<rparr>"
  have "\<exists>t1. tar_loop (archive es) dst True ?t = Some (Some t1) \<and> t_entries t1 = t_entries ?t + length es \<and> t_vfs t1 = s1"
    by (rule tar_loop_items [of es dst ?t s1 "[]"]) (use assms in \<open>simp_all add: archive_def\<close>)
  then show ?thesis by (auto simp: tar_process_def)
qed

section \<open>An archive without an end\<close>

text \<open>The size 37777777000 (octal) of the first header brings the position back to 0.\<close>

definition endless_item :: tar_item where
  "endless_item = \<lparr>ti_name = [], ti_form = In_Name, ti_kind = Directory, ti_mode = replicate 24 0, ti_mtime = replicate 12 0, ti_owner = replicate 82 0\<rparr>"

definition endless :: "u8 list" where
  "endless = header_image [] ''x'' 120 (2 ^ 32 - 512) endless_item"

lemma endless_step:
  assumes "t_pos t = 0" "t_longname t = None" "t_longlink t = None" "t_zero_blocks t = 0"
  shows "tar_step endless dst x t = More t"
proof -
  have n: "length [] \<le> 155" "length ''x'' \<le> 100" "item_ok endless_item" "2 ^ 32 - 512 < (2 :: nat) ^ 32" "(120 :: u8) \<noteq> 0"
    by (simp_all add: item_ok_def name_ok_def endless_item_def)
  have d: "endless = [] @ header_image [] ''x'' 120 (2 ^ 32 - 512) endless_item @ []" by (simp add: endless_def)
  have "length endless = 512" unfolding endless_def by (rule header_image_facts(1) [OF n])
  then have "length endless + 512 < 2 ^ 32" by simp
  note S = tar_step_header [OF n _ d this, of t dst x]
  have "u32_add 512 (u32_mul (u32_add (2 ^ 32 - 512) 511 div 512) 512) = 0" by (simp add: u32_add_def u32_mul_def)
  then show ?thesis using S assms by (cases t) (simp add: tar_entry_def Let_def char_types)
qed

lemma tar_loop_stuck:
  assumes "\<And>t. P t \<Longrightarrow> tar_step data dst x t = More t" "P t0"
  shows "tar_loop data dst x t0 = None"
proof (rule ccontr)
  assume "tar_loop data dst x t0 \<noteq> None"
  then obtain y where y: "tar_loop data dst x t0 = Some y" by blast
  have "P t0 \<longrightarrow> tar_step data dst x t0 = More t0 \<longrightarrow> False"
    by (rule tar_loop.raw_induct [OF _ y]) auto
  then show False using assms by blast
qed

text \<open>C37. The positions of the extractor wrap at 32 bits: on an image of one block, a pax header with a
  valid checksum whose size field is 37777777000 octal, the loop comes back to the same block for
  ever, whatever the destination and the file system.\<close>

theorem tar_endless_archive:
  "length endless = 512 \<and> checksum_ok endless \<and> tar_process endless dst x s = None"
proof -
  let ?P = "\<lambda>t. t_pos t = 0 \<and> t_longname t = None \<and> t_longlink t = None \<and> t_zero_blocks t = 0"
  have n: "length [] \<le> 155" "length ''x'' \<le> 100" "item_ok endless_item" "2 ^ 32 - 512 < (2 :: nat) ^ 32" "(120 :: u8) \<noteq> 0"
    by (simp_all add: item_ok_def name_ok_def endless_item_def)
  have "tar_loop endless dst x \<lparr>t_pos = 0, t_entries = 0, t_zero_blocks = 0, t_longname = None, t_longlink = None, t_vfs = s\<rparr> = None"
    by (rule tar_loop_stuck [of ?P]) (auto intro: endless_step)
  then show ?thesis using header_image_facts(1,3) [OF n] by (simp add: tar_process_def endless_def)
qed

section \<open>A concrete archive\<close>

definition sample_item :: tar_item where
  "sample_item = \<lparr>ti_name = ''x'', ti_form = In_Name, ti_kind = Regular [7], ti_mode = replicate 24 0, ti_mtime = replicate 12 0, ti_owner = replicate 82 0\<rparr>"

lemma sample_route_dir: "resolve_route sample_tmp ''/tmp'' = Some (1, ''/'')"
  by (simp add: resolve_route_def vfs_resolve_def resolve_from_def resolve_buf_def sample_tmp_def Let_def
      route_def better_def under_def sub_path_def upt_conv_Cons nth_Cons)

lemma sample_extract:
  assumes "vfs_write_file sample_tmp ''/tmp/x'' [7] = Some (1, s1)"
  shows "extract_all ''/tmp'' [sample_item] sample_tmp = Some s1"
proof -
  have j: "join_path ''/tmp'' ''x'' 256 = ''/tmp/x''" by (simp add: join_path_def strip_slashes.simps)
  have b: "back_to_slash ''/tmp/x'' = ''/tmp/''" by (simp add: back_to_slash.simps)
  have "vfs_mkdir sample_tmp ''/tmp'' = Some (-1, sample_tmp)"
    using sample_ops_at(1) by (simp add: vfs_mkdir_def dispatch_def sample_route_dir ramfs_vfs_ops_def ramfs_mkdir_def)
  then have "mkdir_p ''/tmp'' sample_tmp = Some sample_tmp" by (simp add: mkdir_p_def mkdir_from.simps)
  then show ?thesis using assms by (simp add: extract_item_def sample_item_def j extract_file_def b)
qed

theorem tar_extracts_archive_witness:
  "\<exists>s1. tar_process (archive [sample_item]) ''/tmp'' True sample_tmp = Some (Some (1, s1)) \<and>
     vfs_write_file sample_tmp ''/tmp/x'' [7] = Some (1, s1)"
proof -
  obtain s1 where w: "vfs_write_file sample_tmp ''/tmp/x'' [7] = Some (1, s1)" using sample_vfs_write by blast
  have o: "list_all item_ok [sample_item]" by (simp add: item_ok_def name_ok_def sample_item_def char_of_def)
  then have "length (item_image sample_item) = 1024"
    using header_image_facts(1) [of "[]" "''x''" sample_item 1 48] by (simp add: item_image_def long_name_def item_header_def item_body_def item_prefix_def item_short_def sample_item_def)
  then have "length (archive [sample_item]) + 512 < 2 ^ 32" by (simp add: archive_def)
  from tar_extracts_archive [OF o this sample_extract [OF w]] show ?thesis using w by auto
qed

end
