(* ===== verification/Heap_Buffers.thy ===== *)
theory Heap_Buffers
  imports Kernel_Heap
begin

text \<open>
  Temporary buffers from the kernel heap: an allocation that is released again leaves the list of
  blocks as it was, so a routine that works in a buffer can be repeated for ever.
\<close>

lemma alloc_list_split:
  "alloc_list sz bs = Some (p, bs') \<Longrightarrow> \<exists>pre x n post. bs = pre @ (x, n, False) # post \<and> p = x + HEADER_SIZE \<and> sz \<le> n \<and>
     bs' = pre @ (if n \<ge> sz + HEADER_SIZE + 8 then [(x, sz, True), (x + HEADER_SIZE + sz, n - sz - HEADER_SIZE, False)] else [(x, n, True)]) @ post"
proof (induction sz bs arbitrary: p bs' rule: alloc_list.induct)
  case (2 sz a n u bs)
  show ?case
  proof (cases "u \<or> n < sz")
    case True
    then obtain bs1 where rec: "alloc_list sz bs = Some (p, bs1)" "bs' = (a, n, u) # bs1" using "2.prems" by auto
    from "2.IH" [OF True rec(1)] obtain pre x m post where r: "bs = pre @ (x, m, False) # post" "p = x + HEADER_SIZE" "sz \<le> m"
      "bs1 = pre @ (if m \<ge> sz + HEADER_SIZE + 8 then [(x, sz, True), (x + HEADER_SIZE + sz, m - sz - HEADER_SIZE, False)] else [(x, m, True)]) @ post" by blast
    show ?thesis by (rule exI [of _ "(a, n, u) # pre"], rule exI [of _ x], rule exI [of _ m], rule exI [of _ post]) (simp add: r rec(2))
  next
    case False
    show ?thesis by (rule exI [of _ "[]"], rule exI [of _ a], rule exI [of _ n], rule exI [of _ bs]) (use False "2.prems" in \<open>auto split: if_splits\<close>)
  qed
qed simp

lemma no_adj_appendD: "no_adj (pre @ (x, n, False) # post) \<Longrightarrow> no_adj pre \<and> (pre = [] \<or> snd (snd (last pre))) \<and> no_adj ((x, n, False) # post)"
proof (induction pre)
  case (Cons b pre)
  then show ?case by (cases b; cases pre) auto
qed simp

lemma alloc_release:
  assumes "alloc_list sz bs = Some (p, bs')" "tiles s bs e" "no_adj bs"
  shows "\<exists>x m. p = x + HEADER_SIZE \<and> (x, m, True) \<in> set bs' \<and> release_list x bs' = bs"
proof -
  obtain pre x n post where bs: "bs = pre @ (x, n, False) # post" and p: "p = x + HEADER_SIZE" and n: "sz \<le> n"
    and bs': "bs' = pre @ (if n \<ge> sz + HEADER_SIZE + 8 then [(x, sz, True), (x + HEADER_SIZE + sz, n - sz - HEADER_SIZE, False)] else [(x, n, True)]) @ post"
    using alloc_list_split [OF assms(1)] by blast
  obtain mid where t: "tiles s pre mid" "x = mid" "tiles (x + HEADER_SIZE + n) post e" using assms(2) by (auto simp: bs tiles_append)
  let ?f = "map (\<lambda>(a, n, u). (a, n, u \<and> a \<noteq> x))"
  have "b \<noteq> x" if "(b, k, u) \<in> set pre" for b k u using tiles_mem [OF t(1) that] t(2) by simp
  moreover have "b \<noteq> x" if "(b, k, u) \<in> set post" for b k u using tiles_mem [OF t(3) that] by simp
  ultimately have f: "?f pre = pre" "?f post = post" by (intro map_idI; fastforce)+
  note na = no_adj_appendD [OF assms(3) [unfolded bs]]
  have "release_list x bs' = pre @ coalesce ((x, n, False) # post)"
    unfolding release_list_def bs' map_append f using coalesce_prefix [of pre] na n by simp
  also have "\<dots> = bs" using na coalesce_no_adj by (simp add: bs)
  finally have "release_list x bs' = bs" .
  moreover have "\<exists>m. (x, m, True) \<in> set bs'" by (auto simp: bs')
  ultimately show ?thesis using p by blast
qed

lemma buffer_round:
  assumes "heap_ok h bs" "fits_u32 n" "alloc_list (ALIGN8 n) bs = Some (p, bs')"
  shows "\<exists>h1. kmalloc h n = Some (p, h1) \<and> p \<noteq> 0 \<and> heap_ok h1 bs' \<and> (\<forall>h2. heap_ok h2 bs' \<longrightarrow> (\<exists>h3. kfree h2 p = Some h3 \<and> heap_ok h3 bs))"
proof -
  have s: "ALIGN8 n + 24 < 2 ^ 32" "8 dvd ALIGN8 n" "0 < n" using assms(2) ALIGN8_small [of n] by (simp_all add: fits_u32_def)
  obtain h1 where f: "find_fit h (ALIGN8 n) = Some (p, h1)" "heap_ok h1 bs'" "p \<noteq> 0"
    using find_fit_correct [OF assms(1) s(1,2)] assms(3) by auto
  have "heap_head h \<noteq> 0" using assms(1) by (cases bs) (auto simp: heap_ok_def)
  then have "kmalloc h n = Some (p, h1)" using f s(3) by (simp add: kmalloc_def)
  moreover obtain x m where x: "p = x + HEADER_SIZE" "(x, m, True) \<in> set bs'" "release_list x bs' = bs"
    using alloc_release [OF assms(3), of "heap_start h" "heap_end h"] assms(1) unfolding heap_ok_def by blast
  have "\<exists>h3. kfree h2 p = Some h3 \<and> heap_ok h3 bs" if "heap_ok h2 bs'" for h2
    using kfree_correct [OF that x(2)] x(1,3) by auto
  ultimately show ?thesis using f by blast
qed

text \<open>Room for a buffer of \<open>n\<close> bytes and, beside it, for one of \<open>m\<close> bytes.\<close>

definition buffer_room :: "nat \<Rightarrow> nat \<Rightarrow> kheap \<Rightarrow> bool" where
  "buffer_room n m h \<longleftrightarrow> fits_u32 n \<and> fits_u32 m \<and>
     (\<exists>bs p bs1. heap_ok h bs \<and> alloc_list (ALIGN8 n) bs = Some (p, bs1) \<and> alloc_list (ALIGN8 m) bs1 \<noteq> None)"

text \<open>Both buffers can be taken, one inside the other, and after their release there is room again.\<close>

lemma buffer_room_nested:
  assumes "buffer_room n m h"
  shows "\<exists>p h1 q h2 h3 h4. kmalloc h n = Some (p, h1) \<and> p \<noteq> 0 \<and> kmalloc h1 m = Some (q, h2) \<and> q \<noteq> 0 \<and>
    kfree h2 q = Some h3 \<and> kfree h3 p = Some h4 \<and> buffer_room n m h4"
proof -
  obtain bs p bs1 q bs2 where f: "fits_u32 n" "fits_u32 m" "heap_ok h bs" "alloc_list (ALIGN8 n) bs = Some (p, bs1)" "alloc_list (ALIGN8 m) bs1 = Some (q, bs2)"
    using assms by (auto simp: buffer_room_def)
  obtain h1 where 1: "kmalloc h n = Some (p, h1)" "p \<noteq> 0" "heap_ok h1 bs1" "\<And>h2. heap_ok h2 bs1 \<Longrightarrow> \<exists>h3. kfree h2 p = Some h3 \<and> heap_ok h3 bs"
    using buffer_round [OF f(3,1,4)] by blast
  obtain h2 where 2: "kmalloc h1 m = Some (q, h2)" "q \<noteq> 0" "heap_ok h2 bs2" "\<And>h. heap_ok h bs2 \<Longrightarrow> \<exists>h3. kfree h q = Some h3 \<and> heap_ok h3 bs1"
    using buffer_round [OF 1(3) f(2,5)] by blast
  obtain h3 where 3: "kfree h2 q = Some h3" "heap_ok h3 bs1" using 2(3,4) by blast
  obtain h4 where 4: "kfree h3 p = Some h4" "heap_ok h4 bs" using 1(4) 3(2) by blast
  have "buffer_room n m h4" using f(1,2,4,5) 4(2) by (auto simp: buffer_room_def)
  then show ?thesis using 1(1,2) 2(1,2) 3(1) 4(1) by blast
qed

lemma buffer_room_once:
  assumes "buffer_room n m h"
  shows "\<exists>p h1 h4. kmalloc h n = Some (p, h1) \<and> p \<noteq> 0 \<and> kfree h1 p = Some h4 \<and> buffer_room n m h4"
proof -
  obtain bs p bs1 where f: "fits_u32 n" "fits_u32 m" "heap_ok h bs" "alloc_list (ALIGN8 n) bs = Some (p, bs1)" "alloc_list (ALIGN8 m) bs1 \<noteq> None"
    using assms by (auto simp: buffer_room_def)
  obtain h1 where 1: "kmalloc h n = Some (p, h1)" "p \<noteq> 0" "heap_ok h1 bs1" "\<And>h2. heap_ok h2 bs1 \<Longrightarrow> \<exists>h3. kfree h2 p = Some h3 \<and> heap_ok h3 bs"
    using buffer_round [OF f(3,1,4)] by blast
  obtain h4 where 4: "kfree h1 p = Some h4" "heap_ok h4 bs" using 1(3,4) by blast
  have "buffer_room n m h4" using f(1,2,4,5) 4(2) by (auto simp: buffer_room_def)
  then show ?thesis using 1(1,2) 4(1) by blast
qed

end
