(* ===== verification/Fs_Ops.thy ===== *)
theory Fs_Ops
  imports Vfs Heap_Buffers
begin

text \<open>
  Composition of file-system operations: one after the other, and with a buffer from the kernel
  heap that is released at the end.
\<close>

definition fbind :: "('a, 'w) fsop \<Rightarrow> ('a \<Rightarrow> ('b, 'w) fsop) \<Rightarrow> ('b, 'w) fsop" where
  "fbind m f st = (case m st of None \<Rightarrow> None | Some (x, st1) \<Rightarrow> f x st1)"

lemma fbind_mono [partial_function_mono]:
  assumes "\<And>s. mono_option (\<lambda>f. m f s)" "\<And>x s. mono_option (\<lambda>f. k f x s)"
  shows "mono_option (\<lambda>f. fbind (m f) (k f) st)"
proof -
  have "fbind (m f) (k f) st = Option.bind (m f st) (\<lambda>p. k f (fst p) (snd p))" for f
    by (simp add: fbind_def split: option.split)
  moreover have "mono_option (\<lambda>f. Option.bind (m f st) (\<lambda>p. k f (fst p) (snd p)))"
    by (rule bind_mono [OF assms(1)]) (rule assms(2))
  ultimately show ?thesis by simp
qed

text \<open>A buffer of \<open>n\<close> bytes for the duration of \<open>body\<close>; \<open>e\<close> is returned when there is no memory.\<close>

definition with_buffer :: "nat \<Rightarrow> 'a \<Rightarrow> ('a, 'w kmem_scheme) fsop \<Rightarrow> ('a, 'w kmem_scheme) fsop" where
  "with_buffer n e body st =
     (case kmalloc (km_heap st) n of
        None \<Rightarrow> None
      | Some (p, h) \<Rightarrow>
          if p = 0 then Some (e, st\<lparr>km_heap := h\<rparr>)
          else (case body (st\<lparr>km_heap := h\<rparr>) of
                  None \<Rightarrow> None
                | Some (r, st1) \<Rightarrow> map_option (\<lambda>h1. (r, st1\<lparr>km_heap := h1\<rparr>)) (kfree (km_heap st1) p)))"

text \<open>With room for the buffer, the heap is ready for the next one afterwards.\<close>

lemma with_buffer_room:
  fixes st :: "'w kmem_scheme" and body :: "('a, 'w kmem_scheme) fsop"
  assumes "buffer_room n m (km_heap st)"
  shows "\<exists>h1 h2. buffer_room n m h2 \<and> (\<forall>e r st1. body (st\<lparr>km_heap := h1\<rparr>) = Some (r, st1) \<longrightarrow> km_heap st1 = h1 \<longrightarrow>
    with_buffer n e body st = Some (r, st1\<lparr>km_heap := h2\<rparr>))"
proof -
  obtain p h1 h4 where h: "kmalloc (km_heap st) n = Some (p, h1)" "p \<noteq> 0" "kfree h1 p = Some h4" "buffer_room n m h4"
    using buffer_room_once [OF assms] by blast
  show ?thesis by (rule exI [of _ h1], rule exI [of _ h4]) (use h in \<open>simp add: with_buffer_def\<close>)
qed

end
