(* ===== verification/Fat32.thy ===== *)
theory Fat32
  imports Fs_Ops Ata Bytes
begin

text \<open>
  \<open>src/fat32.c\<close>: the FAT32 driver.  The state is the driver's static variables, the disk and the
  kernel heap, from which the code takes its buffers; the contents of a buffer are values.  The
  cached table is a list of 32-bit words, a directory entry is its 32 bytes.  A result \<open>None\<close> is a
  memory fault or a loop that does not end (the chain of a damaged volume may be a cycle);
  inside, an option or \<open>-1\<close> is the code's error value.
\<close>

section \<open>State\<close>

record bpb =
  bytes_per_sector :: nat
  sectors_per_cluster :: nat
  reserved_sectors :: nat
  num_fats :: nat
  total_sectors_16 :: nat
  total_sectors_32 :: nat
  bpb_sectors_per_fat :: nat
  bpb_root_cluster :: nat
  fs_type :: "u8 list"

record fat32 = kmem +
  f_drive :: drive
  f_mounted :: bool
  f_bpb :: bpb
  f_fat :: "u32 list"
  fat_start :: nat
  data_lba :: nat
  root_cluster :: nat
  bytes_per_cluster :: nat
  sectors_per_fat :: nat
  total_clusters_count :: nat
  part_lba :: nat
  cwd_cluster :: nat

abbreviation (input) ATTR_VOLUME_ID :: u8 where "ATTR_VOLUME_ID \<equiv> 0x08"
abbreviation (input) ATTR_DIRECTORY :: u8 where "ATTR_DIRECTORY \<equiv> 0x10"
abbreviation (input) ATTR_ARCHIVE :: u8 where "ATTR_ARCHIVE \<equiv> 0x20"
abbreviation (input) ATTR_LFN :: u8 where "ATTR_LFN \<equiv> 0x0F"
abbreviation (input) FAT32_NAME_MAX :: nat where "FAT32_NAME_MAX \<equiv> 255"
abbreviation (input) FAT32_EOC :: nat where "FAT32_EOC \<equiv> 0x0FFFFFF8"
abbreviation (input) FAT32_MASK :: u32 where "FAT32_MASK \<equiv> 0x0FFFFFFF"
abbreviation (input) LFN_MAX_SEGS :: nat where "LFN_MAX_SEGS \<equiv> 20"
abbreviation (input) NO_CLUSTER :: nat where "NO_CLUSTER \<equiv> 0xFFFFFFFF"

type_synonym 'a fop = "('a, fat32) fsop"

section \<open>Disk and table\<close>

definition fat_read :: "nat \<Rightarrow> nat \<Rightarrow> fat32 \<Rightarrow> u8 list option" where
  "fat_read lba count st = ata_read (u32_add (part_lba st) lba) count (f_drive st)"

definition fat_write :: "nat \<Rightarrow> nat \<Rightarrow> u8 list \<Rightarrow> fat32 \<Rightarrow> bool \<times> fat32" where
  "fat_write lba count buf st =
     (let (ok, d) = ata_write (u32_add (part_lba st) lba) count buf (f_drive st) in (ok, st\<lparr>f_drive := d\<rparr>))"

definition cluster_to_lba :: "fat32 \<Rightarrow> nat \<Rightarrow> nat" where
  "cluster_to_lba st c = u32_add (data_lba st) (u32_mul (u32_sub c 2) (sectors_per_cluster (f_bpb st)))"

definition fat32_get_entry :: "nat \<Rightarrow> fat32 \<Rightarrow> nat" where
  "fat32_get_entry c st = (if length (f_fat st) \<le> c then FAT32_EOC else unat (f_fat st ! c AND FAT32_MASK))"

definition fat32_set_entry :: "nat \<Rightarrow> nat \<Rightarrow> fat32 \<Rightarrow> fat32" where
  "fat32_set_entry c v st =
     (if length (f_fat st) \<le> c then st
      else st\<lparr>f_fat := (f_fat st)[c := (f_fat st ! c AND 0xF0000000) OR (of_nat v AND FAT32_MASK)]\<rparr>)"

definition is_end_of_chain :: "nat \<Rightarrow> bool" where
  "is_end_of_chain e \<longleftrightarrow> FAT32_EOC \<le> e mod 2 ^ 28"

definition fat_image :: "u32 list \<Rightarrow> u8 list" where
  "fat_image t = concat (map (\<lambda>w. le_image 4 (unat w)) t)"

fun flush_from :: "nat \<Rightarrow> nat \<Rightarrow> fat32 \<Rightarrow> bool \<times> fat32" where
  "flush_from i 0 st = (True, st)"
| "flush_from i (Suc n) st =
     (let (ok, st1) = fat_write (u32_add (fat_start st) (u32_mul i (sectors_per_fat st))) (sectors_per_fat st) (fat_image (f_fat st)) st
      in if ok then flush_from (i + 1) n st1 else (False, st1))"

definition fat32_flush_fat :: "fat32 \<Rightarrow> bool \<times> fat32" where
  "fat32_flush_fat st = flush_from 0 (num_fats (f_bpb st)) st"

definition fat32_alloc_cluster :: "fat32 \<Rightarrow> nat \<times> fat32" where
  "fat32_alloc_cluster st =
     (case List.find (\<lambda>c. f_fat st ! c AND FAT32_MASK = 0) [2..<length (f_fat st)] of
        None \<Rightarrow> (0, st)
      | Some c \<Rightarrow> (c, fat32_set_entry c FAT32_EOC st))"

fun free_from :: "nat \<Rightarrow> nat \<Rightarrow> fat32 \<Rightarrow> nat \<times> fat32" where
  "free_from 0 c st = (c, st)"
| "free_from (Suc safety) c st =
     (if 2 \<le> c \<and> \<not> is_end_of_chain c then free_from safety (fat32_get_entry c st) (fat32_set_entry c 0 st) else (c, st))"

definition fat32_free_chain :: "nat \<Rightarrow> fat32 \<Rightarrow> fat32" where
  "fat32_free_chain start st =
     (let (c, st1) = free_from (u32_add (total_clusters_count st) 2) start st
      in if 2 \<le> c \<and> is_end_of_chain c then fat32_set_entry c 0 st1 else st1)"

definition fat32_extend_chain :: "nat \<Rightarrow> fat32 \<Rightarrow> nat \<times> fat32" where
  "fat32_extend_chain lst st =
     (let (c, st1) = fat32_alloc_cluster st
      in if c = 0 then (0, st1) else (c, fat32_set_entry c FAT32_EOC (fat32_set_entry lst c st1)))"

section \<open>Names\<close>

definition up_case :: "char \<Rightarrow> char" where
  "up_case c = (if 97 \<le> (of_char c :: nat) \<and> (of_char c :: nat) \<le> 122 then char_of (of_char c - 32 :: nat) else c)"

definition low_case :: "char \<Rightarrow> char" where
  "low_case c = (if 65 \<le> (of_char c :: nat) \<and> (of_char c :: nat) \<le> 90 then char_of (of_char c + 32 :: nat) else c)"

definition format_83 :: "u8 list \<Rightarrow> string" where
  "format_83 raw =
     (let word = (\<lambda>bs. map (low_case \<circ> char_at) (takeWhile (\<lambda>b. b \<noteq> 0x20) bs))
      in takeWhile (\<lambda>c. c \<noteq> char_of (0 :: nat))
           (word (take 8 raw) @ (if raw ! 8 \<noteq> 0x20 then CHR ''.'' # word (take 3 (drop 8 raw)) else [])))"

text \<open>The part before the last dot and, where there is a dot, the part behind it.\<close>

definition split_dot :: "string \<Rightarrow> string \<times> string option" where
  "split_dot name =
     (if CHR ''.'' \<in> set name
      then (let ext = rev (takeWhile (\<lambda>c. c \<noteq> CHR ''.'') (rev name))
            in (take (length name - length ext - 1) name, Some ext))
      else (name, None))"

definition spaced :: "nat \<Rightarrow> string \<Rightarrow> string" where
  "spaced n s = take n s @ replicate (n - length s) CHR '' ''"

definition short_ext :: "string option \<Rightarrow> string" where
  "short_ext e = spaced 3 (map up_case (case e of None \<Rightarrow> '''' | Some x \<Rightarrow> x))"

definition build_83 :: "string \<Rightarrow> u8 list" where
  "build_83 name =
     map byte_of (if name = ''.'' \<or> name = ''..'' then spaced 11 name
                  else let (stem, ext) = split_dot name in spaced 8 (map up_case stem) @ short_ext ext)"

definition needs_lfn :: "string \<Rightarrow> bool" where
  "needs_lfn name = (case split_dot name of (stem, ext) \<Rightarrow> length stem > 8 \<or> (case ext of None \<Rightarrow> False | Some e \<Rightarrow> length e > 3))"

definition build_83_tail :: "string \<Rightarrow> nat \<Rightarrow> u8 list" where
  "build_83_tail name n =
     (let (stem, ext) = split_dot name; tail = CHR ''~'' # decimal n
      in map byte_of (spaced 8 (map up_case (take (8 - length tail) stem) @ tail) @ short_ext ext))"

section \<open>Long names\<close>

definition lfn_checksum :: "u8 list \<Rightarrow> u8" where
  "lfn_checksum raw = fold (\<lambda>b s. push_bit 7 (s AND 1) + drop_bit 1 s + b) raw 0"

definition lfn_entry_count :: "nat \<Rightarrow> nat" where
  "lfn_entry_count len = (len + 12) div 13"

definition lfn_char :: "string \<Rightarrow> nat \<Rightarrow> nat" where
  "lfn_char name i = (if i < length name then of_char (name ! i) else if i = length name then 0 else 0xFFFF)"

definition lfn_image :: "string \<Rightarrow> u8 \<Rightarrow> nat \<Rightarrow> bool \<Rightarrow> u8 list" where
  "lfn_image name checksum seg final =
     (let ch = (\<lambda>a b. concat (map (\<lambda>i. le_image 2 (lfn_char name (seg * 13 + i))) [a..<b]))
      in [of_nat (seg + 1) OR (if final then 0x40 else 0)] @ ch 0 5 @ [ATTR_LFN, 0, checksum] @ ch 5 11 @ [0, 0] @ ch 11 13)"

definition lfn_write_entries :: "u8 list \<Rightarrow> nat \<Rightarrow> nat \<Rightarrow> string \<Rightarrow> u8 \<Rightarrow> nat \<Rightarrow> u8 list" where
  "lfn_write_entries buf start n name checksum epc =
     fold (\<lambda>j b. if start + j < epc then set_bytes b (32 * (start + j)) (lfn_image name checksum (n - 1 - j) (j = 0)) else b) [0..<n] buf"

definition lfn_chars :: "u8 list \<Rightarrow> nat list" where
  "lfn_chars e = map (\<lambda>off. field e off 2) [1, 3, 5, 7, 9, 14, 16, 18, 20, 22, 24, 28, 30]"

text \<open>What is read back is a C string, so it ends at a zero byte.\<close>

definition lfn_reconstruct :: "u8 list list \<Rightarrow> nat \<Rightarrow> string" where
  "lfn_reconstruct segs outmax =
     (let cs = takeWhile (\<lambda>c. c \<noteq> 0) (concat (map lfn_chars (rev segs)));
          bs = take (outmax - 1) (map (\<lambda>c. of_nat c AND 0x7F) (filter (\<lambda>c. c \<noteq> 0xFFFF) cs)) :: u8 list
      in map char_at (takeWhile (\<lambda>b. b \<noteq> 0) bs))"

section \<open>Directory entries\<close>

definition fe_attr :: "u8 list \<Rightarrow> u8" where
  "fe_attr e = e ! 11"

definition fe_size :: "u8 list \<Rightarrow> nat" where
  "fe_size e = field e 28 4"

definition entry_cluster :: "u8 list \<Rightarrow> nat" where
  "entry_cluster e = field e 20 2 * 65536 + field e 26 2"

definition fe_is_dir :: "u8 list \<Rightarrow> bool" where
  "fe_is_dir e \<longleftrightarrow> fe_attr e AND ATTR_DIRECTORY \<noteq> 0"

text \<open>An entry as the code fills it in: name, attributes, first cluster, size, and zero elsewhere.\<close>

definition dirent_image :: "u8 list \<Rightarrow> u8 \<Rightarrow> nat \<Rightarrow> nat \<Rightarrow> u8 list" where
  "dirent_image raw attr cluster sz =
     take 11 raw @ [attr] @ zeros 8 @ le_image 2 (cluster div 65536) @ zeros 4 @ le_image 2 cluster @ le_image 4 sz"

definition entries_of :: "nat \<Rightarrow> u8 list \<Rightarrow> u8 list list" where
  "entries_of epc buf = map (\<lambda>i. take 32 (drop (32 * i) buf)) [0..<epc]"

definition real_cluster :: "fat32 \<Rightarrow> nat \<Rightarrow> nat" where
  "real_cluster st c = (if c = 0 then root_cluster st else c)"

definition dir_entries_per_cluster :: "fat32 \<Rightarrow> nat" where
  "dir_entries_per_cluster st = bytes_per_cluster st div 32"

definition dir_read_chunk :: "nat \<Rightarrow> fat32 \<Rightarrow> u8 list option" where
  "dir_read_chunk c st = fat_read (cluster_to_lba st (real_cluster st c)) (sectors_per_cluster (f_bpb st)) st"

definition dir_write_chunk :: "nat \<Rightarrow> u8 list \<Rightarrow> fat32 \<Rightarrow> bool \<times> fat32" where
  "dir_write_chunk c buf st = fat_write (cluster_to_lba st (real_cluster st c)) (sectors_per_cluster (f_bpb st)) buf st"

section \<open>Walking a directory\<close>

text \<open>The loop over the clusters of a directory that all walks share.  \<open>body\<close> sees one cluster; with
  \<open>Some r\<close> it leaves the loop.  An unreadable cluster leaves it with \<open>-1\<close>; \<open>None\<close> in the result means
  that the end of the chain was reached, at the cluster returned.\<close>

partial_function (option) each_chunk ::
  "(nat \<Rightarrow> u8 list \<Rightarrow> 'a \<Rightarrow> fat32 \<Rightarrow> (int option \<times> 'a) \<times> fat32) \<Rightarrow> nat \<Rightarrow> 'a \<Rightarrow> fat32 \<Rightarrow> ((int option \<times> nat \<times> 'a) \<times> fat32) option" where
  "each_chunk body chunk a st =
     (case dir_read_chunk chunk st of
        None \<Rightarrow> Some ((Some (-1), chunk, a), st)
      | Some buf \<Rightarrow>
          (case body chunk buf a st of
             ((Some r, a1), st1) \<Rightarrow> Some ((Some r, chunk, a1), st1)
           | ((None, a1), st1) \<Rightarrow>
               let next_c = fat32_get_entry (real_cluster st1 chunk) st1
               in if is_end_of_chain next_c then Some ((None, chunk, a1), st1) else each_chunk body next_c a1 st1))"

text \<open>\<open>dir_each\<close>: a callback that leaves with \<open>1\<close> has the cluster written back.\<close>

fun each_entry :: "(u8 list \<Rightarrow> nat \<Rightarrow> nat \<Rightarrow> 'c \<Rightarrow> int \<times> 'c) \<Rightarrow> nat \<Rightarrow> nat \<Rightarrow> u8 list list \<Rightarrow> 'c \<Rightarrow> int option \<times> 'c" where
  "each_entry cb chunk i [] ctx = (None, ctx)"
| "each_entry cb chunk i (e # es) ctx =
     (if e ! 0 = 0 then (Some 0, ctx)
      else let (r, ctx1) = cb e chunk i ctx in if r \<noteq> 0 then (Some r, ctx1) else each_entry cb chunk (i + 1) es ctx1)"

definition dir_each :: "nat \<Rightarrow> (u8 list \<Rightarrow> nat \<Rightarrow> nat \<Rightarrow> 'c \<Rightarrow> int \<times> 'c) \<Rightarrow> 'c \<Rightarrow> (int \<times> 'c) fop" where
  "dir_each dir cb ctx =
     (\<lambda>st. with_buffer (bytes_per_cluster st) (-1, ctx)
       (fbind (each_chunk (\<lambda>chunk buf c st1. let r = each_entry cb chunk 0 (entries_of (dir_entries_per_cluster st1) buf) c
                                              in (r, if fst r = Some 1 then snd (dir_write_chunk chunk buf st1) else st1)) dir ctx)
         (\<lambda>(r, _, c) st1. Some (((case r of None \<Rightarrow> 0 | Some x \<Rightarrow> x), c), st1))) st)"

text \<open>\<open>dir_each_lfn\<close>: the long-name entries in front of an entry are collected in \<open>segs\<close>.\<close>

fun each_entry_lfn ::
  "(u8 list \<Rightarrow> nat \<Rightarrow> nat \<Rightarrow> string \<Rightarrow> 'c \<Rightarrow> int \<times> 'c) \<Rightarrow> nat \<Rightarrow> nat \<Rightarrow> u8 list list \<Rightarrow> u8 list list \<times> 'c \<Rightarrow> int option \<times> u8 list list \<times> 'c" where
  "each_entry_lfn cb chunk i [] (segs, ctx) = (None, segs, ctx)"
| "each_entry_lfn cb chunk i (e # es) (segs, ctx) =
     (if e ! 0 = 0 then (Some 0, segs, ctx)
      else if e ! 0 = 0xE5 then each_entry_lfn cb chunk (i + 1) es ([], ctx)
      else if fe_attr e = ATTR_LFN then each_entry_lfn cb chunk (i + 1) es ((if length segs < LFN_MAX_SEGS then segs @ [e] else segs), ctx)
      else let (r, ctx1) = cb e chunk i (if segs = [] then [] else lfn_reconstruct segs 256) ctx
           in if r \<noteq> 0 then (Some r, [], ctx1) else each_entry_lfn cb chunk (i + 1) es ([], ctx1))"

definition dir_each_lfn :: "nat \<Rightarrow> (u8 list \<Rightarrow> nat \<Rightarrow> nat \<Rightarrow> string \<Rightarrow> 'c \<Rightarrow> int \<times> 'c) \<Rightarrow> 'c \<Rightarrow> (int \<times> 'c) fop" where
  "dir_each_lfn dir cb ctx =
     (\<lambda>st. with_buffer (bytes_per_cluster st) (-1, ctx)
       (with_buffer (LFN_MAX_SEGS * 32) (-1, ctx)
         (fbind (each_chunk (\<lambda>chunk buf c st1. (each_entry_lfn cb chunk 0 (entries_of (dir_entries_per_cluster st1) buf) c, st1)) dir ([], ctx))
           (\<lambda>(r, _, _, c) st1. Some (((case r of None \<Rightarrow> 0 | Some x \<Rightarrow> x), c), st1)))) st)"

section \<open>Finding, adding and removing entries\<close>

definition name_matches :: "u8 list \<Rightarrow> string \<Rightarrow> u8 list \<Rightarrow> string \<Rightarrow> bool" where
  "name_matches raw name e lfn \<longleftrightarrow>
     take 11 e = raw \<or> (name \<noteq> [] \<and> lfn \<noteq> [] \<and> map low_case lfn = map low_case name)"

definition find_cb :: "u8 list \<Rightarrow> string \<Rightarrow> u8 list \<Rightarrow> nat \<Rightarrow> nat \<Rightarrow> string \<Rightarrow> (u8 list \<times> nat \<times> nat) option \<Rightarrow> int \<times> (u8 list \<times> nat \<times> nat) option" where
  "find_cb raw name e chunk i lfn ctx =
     (if e ! 0 = 0xE5 \<or> fe_attr e = ATTR_LFN then (0, ctx)
      else if name_matches raw name e lfn then (-1, Some (e, chunk, i))
      else (0, ctx))"

definition dir_find_lfn :: "nat \<Rightarrow> u8 list \<Rightarrow> string \<Rightarrow> (u8 list \<times> nat \<times> nat) option fop" where
  "dir_find_lfn dir raw name = fbind (dir_each_lfn dir (find_cb raw (take 255 name)) None) (\<lambda>(_, found) st. Some (found, st))"

definition dir_find :: "nat \<Rightarrow> u8 list \<Rightarrow> (u8 list \<times> nat \<times> nat) option fop" where
  "dir_find dir raw = fbind (dir_each_lfn dir (find_cb raw []) None) (\<lambda>(_, found) st. Some (found, st))"

definition slot_free :: "u8 list \<Rightarrow> bool" where
  "slot_free e \<longleftrightarrow> e ! 0 = 0xE5 \<or> e ! 0 = 0"

text \<open>A fresh cluster of zeros behind the last one of the directory.\<close>

definition add_chunk :: "nat \<Rightarrow> fat32 \<Rightarrow> (nat \<times> nat) option \<times> fat32" where
  "add_chunk lst st =
     (let (c, st1) = fat32_extend_chain lst st
      in if c = 0 then (None, st1)
         else let (ok, st2) = fat_write (cluster_to_lba st1 c) (sectors_per_cluster (f_bpb st1)) (zeros (bytes_per_cluster st1)) st1
              in (if ok then Some (c, 0) else None, st2))"

definition dir_alloc_slot :: "nat \<Rightarrow> (nat \<times> nat) option fop" where
  "dir_alloc_slot dir =
     (\<lambda>st. with_buffer (bytes_per_cluster st) None
       (fbind (each_chunk (\<lambda>chunk buf a st1.
                 let es = entries_of (dir_entries_per_cluster st1) buf
                 in (case List.find (\<lambda>i. slot_free (es ! i)) [0..<length es] of
                       None \<Rightarrow> ((None, a), st1)
                     | Some i \<Rightarrow> ((Some 0, Some (chunk, i)), st1))) dir None)
         (\<lambda>(r, chunk, a) st1. Some (case r of None \<Rightarrow> add_chunk (real_cluster st1 chunk) st1 | Some _ \<Rightarrow> (a, st1)))) st)"

fun find_run :: "nat \<Rightarrow> nat \<Rightarrow> nat \<Rightarrow> nat \<Rightarrow> u8 list list \<Rightarrow> nat option" where
  "find_run count i run start [] = None"
| "find_run count i run start (e # es) =
     (if slot_free e
      then let start1 = (if run = 0 then i else start)
           in if run + 1 \<ge> count then Some start1 else find_run count (i + 1) (run + 1) start1 es
      else find_run count (i + 1) 0 start es)"

text \<open>End marks become deleted entries.\<close>

definition unmark_end :: "nat \<Rightarrow> u8 list \<Rightarrow> u8 list" where
  "unmark_end epc buf = fold (\<lambda>i b. if b ! (32 * i) = 0 then b[32 * i := 0xE5] else b) [0..<epc] buf"

definition dir_alloc_slots :: "nat \<Rightarrow> nat \<Rightarrow> (nat \<times> nat) option fop" where
  "dir_alloc_slots dir count =
     (\<lambda>st. with_buffer (bytes_per_cluster st) None
       (fbind (each_chunk (\<lambda>chunk buf a st1.
                 (case find_run count 0 0 0 (entries_of (dir_entries_per_cluster st1) buf) of
                    Some i \<Rightarrow> ((Some 0, Some (chunk, i)), st1)
                  | None \<Rightarrow>
                      let buf1 = unmark_end (dir_entries_per_cluster st1) buf
                      in if buf1 = buf then ((None, a), st1)
                         else let (ok, st2) = dir_write_chunk chunk buf1 st1 in ((if ok then None else Some (-1), a), st2))) dir None)
         (\<lambda>(r, chunk, a) st1. Some (case r of None \<Rightarrow> add_chunk (real_cluster st1 chunk) st1 | Some _ \<Rightarrow> (a, st1)))) st)"

text \<open>Reading a cluster, changing it and writing it back.\<close>

definition change_chunk :: "nat \<Rightarrow> (u8 list \<Rightarrow> u8 list) \<Rightarrow> bool fop" where
  "change_chunk chunk f =
     (\<lambda>st. with_buffer (bytes_per_cluster st) False
       (\<lambda>st1. case dir_read_chunk chunk st1 of None \<Rightarrow> Some (False, st1) | Some buf \<Rightarrow> Some (dir_write_chunk chunk (f buf) st1)) st)"

definition dir_put_entry :: "nat \<Rightarrow> nat \<Rightarrow> u8 list \<Rightarrow> bool fop" where
  "dir_put_entry chunk i e = change_chunk chunk (\<lambda>buf. set_bytes buf (32 * i) e)"

fun wipe_lfn :: "nat \<Rightarrow> u8 list \<Rightarrow> u8 list" where
  "wipe_lfn 0 buf = buf"
| "wipe_lfn (Suc j) buf =
     (if buf ! (32 * j) = 0xE5 \<or> buf ! (32 * j) = 0 \<or> buf ! (32 * j + 11) \<noteq> ATTR_LFN then buf
      else wipe_lfn j (buf[32 * j := 0xE5]))"

definition dir_delete_slot :: "nat \<Rightarrow> nat \<Rightarrow> bool fop" where
  "dir_delete_slot chunk i = change_chunk chunk (\<lambda>buf. wipe_lfn i (buf[32 * i := 0xE5]))"

end
