(* ===== verification/Fat32_Files.thy ===== *)
theory Fat32_Files
  imports Fat32
begin

text \<open>
  \<open>src/fat32.c\<close>, the upper half: mounting, paths, listing, and the operations on files and directories.
\<close>

section \<open>Mounting\<close>

text \<open>The entries of one sector of the partition table: \<open>Inr\<close> the first sector of the partition found,
  \<open>Inl\<close> the number of entries seen.  Reading behind the sector has no value.\<close>

fun scan_gpt :: "nat \<Rightarrow> u8 list \<Rightarrow> nat \<Rightarrow> nat \<Rightarrow> nat \<Rightarrow> nat \<Rightarrow> (nat + nat) option" where
  "scan_gpt esize buf n i 0 checked = Some (Inl checked)"
| "scan_gpt esize buf n i (Suc left) checked =
     (if n \<le> checked then Some (Inl checked)
      else let e = drop (i * esize) buf
           in if length e < 16 then None
              else if list_all (\<lambda>b. b = 0) (take 16 e) \<or> take 4 e = [0x28, 0x73, 0x2A, 0xC1]
              then scan_gpt esize buf n (i + 1) left (checked + 1)
              else if length e < 36 then None
              else if field e 32 4 > 0 then Some (Inr (field e 32 4))
              else scan_gpt esize buf n (i + 1) left (checked + 1))"

partial_function (option) gpt_sectors :: "drive \<Rightarrow> nat \<Rightarrow> nat \<Rightarrow> nat \<Rightarrow> nat \<Rightarrow> nat option" where
  "gpt_sectors d esize n lba checked =
     (if n \<le> checked then Some 0
      else (case ata_read lba 1 d of
              None \<Rightarrow> Some 0
            | Some buf \<Rightarrow>
                (case scan_gpt esize buf n 0 (512 div esize) checked of
                   None \<Rightarrow> None
                 | Some (Inr start) \<Rightarrow> Some start
                 | Some (Inl seen) \<Rightarrow> gpt_sectors d esize n (u32_add lba 1) seen)))"

definition gpt_find_data_partition :: "drive \<Rightarrow> nat option" where
  "gpt_find_data_partition d =
     (case ata_read 1 1 d of
        None \<Rightarrow> Some 0
      | Some buf \<Rightarrow>
          if take 8 buf \<noteq> map byte_of ''EFI PART'' \<or> field buf 84 4 = 0 then Some 0
          else gpt_sectors d (field buf 84 4) (field buf 80 4) (field buf 72 4) 0)"

definition bpb_of :: "u8 list \<Rightarrow> bpb" where
  "bpb_of s =
     \<lparr>bytes_per_sector = field s 11 2, sectors_per_cluster = field s 13 1, reserved_sectors = field s 14 2,
      num_fats = field s 16 1, total_sectors_16 = field s 19 2, total_sectors_32 = field s 32 4,
      bpb_sectors_per_fat = field s 36 4, bpb_root_cluster = field s 44 4, fs_type = take 8 (drop 82 s)\<rparr>"

definition bpb_good :: "bpb \<Rightarrow> bool" where
  "bpb_good b \<longleftrightarrow> bytes_per_sector b = 512 \<and> sectors_per_cluster b \<noteq> 0 \<and> num_fats b \<noteq> 0 \<and>
     bpb_sectors_per_fat b \<noteq> 0 \<and> take 5 (fs_type b) = map byte_of ''FAT32''"

fun try_boot_sectors :: "nat list \<Rightarrow> fat32 \<Rightarrow> bool \<times> fat32" where
  "try_boot_sectors [] st = (False, st)"
| "try_boot_sectors (c # cs) st =
     (let st1 = st\<lparr>part_lba := c\<rparr>
      in case ata_read c 1 (f_drive st1) of
           None \<Rightarrow> try_boot_sectors cs st1
         | Some s \<Rightarrow>
             let st2 = st1\<lparr>f_bpb := bpb_of s\<rparr> in if bpb_good (bpb_of s) then (True, st2) else try_boot_sectors cs st2)"

definition set_geometry :: "fat32 \<Rightarrow> fat32" where
  "set_geometry st =
     (let b = f_bpb st; spf = bpb_sectors_per_fat b;
          data = u32_add (reserved_sectors b) (u32_mul (num_fats b) spf);
          sectors_all = (if total_sectors_16 b \<noteq> 0 then total_sectors_16 b else total_sectors_32 b)
      in st\<lparr>sectors_per_fat := spf, fat_start := reserved_sectors b, data_lba := data,
            root_cluster := bpb_root_cluster b, bytes_per_cluster := sectors_per_cluster b * 512,
            total_clusters_count := u32_sub sectors_all data div sectors_per_cluster b\<rparr>)"

text \<open>A table whose size in bytes wraps around is read behind the memory allocated for it.\<close>

definition fat32_mount :: "int fop" where
  "fat32_mount st =
     (if f_mounted st then Some (0, st)
      else case gpt_find_data_partition (f_drive st) of
             None \<Rightarrow> None
           | Some c \<Rightarrow>
               (let (found, st1) = try_boot_sectors (if c \<noteq> 0 then [c, 0] else [0]) st
                in if \<not> found then Some (-1, st1)
                   else let st2 = set_geometry st1; spf = sectors_per_fat st2
                        in case kmalloc (km_heap st2) (u32_mul spf 512) of
                             None \<Rightarrow> None
                           | Some (p, h) \<Rightarrow>
                               if p = 0 then Some (-1, st2\<lparr>km_heap := h, f_fat := []\<rparr>)
                               else if u32_mul spf 512 < spf * 512 then None
                               else (case fat_read (fat_start st2) spf st2 of
                                       None \<Rightarrow> map_option (\<lambda>h1. (-1, st2\<lparr>km_heap := h1, f_fat := []\<rparr>)) (kfree h p)
                                     | Some bs \<Rightarrow>
                                         Some (0, st2\<lparr>km_heap := h, f_fat := map (\<lambda>i. of_nat (field bs (4 * i) 4)) [0..<spf * 128],
                                                      cwd_cluster := 0, f_mounted := True\<rparr>))))"

section \<open>Paths\<close>

definition resolve_component :: "nat \<Rightarrow> string \<Rightarrow> nat fop" where
  "resolve_component dir cmp =
     (if cmp = [] \<or> cmp = ''.'' then (\<lambda>st. Some (dir, st))
      else if cmp = ''..'' then
        fbind (dir_find dir (build_83 ''..''))
          (\<lambda>r st. case r of
             None \<Rightarrow> Some (0, st)
           | Some (e, _) \<Rightarrow> let c = entry_cluster e in Some (if c = root_cluster st \<or> c = 0 then 0 else c, st))
      else
        fbind (dir_find_lfn dir (build_83 cmp) cmp)
          (\<lambda>r st. case r of
             None \<Rightarrow> Some (NO_CLUSTER, st)
           | Some (e, _) \<Rightarrow>
               if \<not> fe_is_dir e then Some (NO_CLUSTER, st)
               else let c = entry_cluster e in Some (if c = root_cluster st then 0 else c, st)))"

fun split_path :: "string \<Rightarrow> string \<Rightarrow> string list" where
  "split_path acc [] = (if acc = [] then [] else [take FAT32_NAME_MAX acc])"
| "split_path acc (c # p) =
     (if c = CHR ''/'' then (if acc = [] then split_path [] p else take FAT32_NAME_MAX acc # split_path [] p)
      else split_path (acc @ [c]) p)"

fun resolve_comps :: "string list \<Rightarrow> nat \<Rightarrow> nat option fop" where
  "resolve_comps [] cur st = Some (Some cur, st)"
| "resolve_comps (cmp # cs) cur st =
     (case resolve_component cur cmp st of
        None \<Rightarrow> None
      | Some (c, st1) \<Rightarrow> if c = NO_CLUSTER then Some (None, st1) else resolve_comps cs c st1)"

definition fat32_resolve_dir :: "string \<Rightarrow> nat option fop" where
  "fat32_resolve_dir path st =
     resolve_comps (split_path [] path) (if path \<noteq> [] \<and> hd path = CHR ''/'' then 0 else cwd_cluster st) st"

definition fat32_resolve_parent :: "string \<Rightarrow> (nat \<times> string) option fop" where
  "fat32_resolve_parent path st =
     (if CHR ''/'' \<notin> set path then Some (Some (cwd_cluster st, take FAT32_NAME_MAX path), st)
      else let base = rev (takeWhile (\<lambda>c. c \<noteq> CHR ''/'') (rev path));
               slash = length path - length base - 1;
               plen = (if slash > 0 then slash else 1)
           in if plen \<ge> 256 then Some (None, st)
              else fbind (fat32_resolve_dir (take plen path))
                     (\<lambda>r st1. Some (map_option (\<lambda>c. (c, take FAT32_NAME_MAX base)) r, st1)) st)"

definition fat32_cwd :: "fat32 \<Rightarrow> nat" where
  "fat32_cwd st = cwd_cluster st"

definition fat32_chdir :: "string \<Rightarrow> int fop" where
  "fat32_chdir path =
     fbind (fat32_resolve_dir path) (\<lambda>r st. case r of None \<Rightarrow> Some (-1, st) | Some c \<Rightarrow> Some (0, st\<lparr>cwd_cluster := c\<rparr>))"

text \<open>The name of the directory \<open>cur\<close> among the entries of one cluster of its parent.\<close>

fun name_of_dir :: "nat \<Rightarrow> nat \<Rightarrow> u8 list list \<Rightarrow> int option \<times> string option" where
  "name_of_dir root cur [] = (None, None)"
| "name_of_dir root cur (e # es) =
     (if e ! 0 = 0 then (Some 0, None)
      else if e ! 0 = 0xE5 \<or> fe_attr e = ATTR_LFN \<or> \<not> fe_is_dir e \<or> e ! 0 = 0x2E then name_of_dir root cur es
      else if entry_cluster e = cur \<or> (entry_cluster e = 0 \<and> cur = root) then (Some 0, Some (format_83 e))
      else name_of_dir root cur es)"

definition find_name_in :: "nat \<Rightarrow> nat \<Rightarrow> string option fop" where
  "find_name_in parent cur =
     (\<lambda>st. with_buffer (bytes_per_cluster st) None
       (fbind (each_chunk (\<lambda>chunk buf a st1. (name_of_dir (root_cluster st1) cur (entries_of (dir_entries_per_cluster st1) buf), st1)) parent None)
         (\<lambda>(r, _, a) st1. Some (a, st1))) st)"

text \<open>Going up from \<open>cur\<close>; the names are returned from the root on.\<close>

fun getcwd_up :: "nat \<Rightarrow> nat \<Rightarrow> string list \<Rightarrow> string list option fop" where
  "getcwd_up depth cur names st =
     (if cur = 0 \<or> cur = root_cluster st then Some (Some names, st)
      else case depth of
             0 \<Rightarrow> Some (None, st)
           | Suc n \<Rightarrow>
               (case dir_find cur (build_83 ''..'') st of
                  None \<Rightarrow> None
                | Some (None, st1) \<Rightarrow> Some (None, st1)
                | Some (Some (e, _), st1) \<Rightarrow>
                    let parent = (if entry_cluster e = root_cluster st1 then 0 else entry_cluster e)
                    in (case find_name_in parent cur st1 of
                          None \<Rightarrow> None
                        | Some (None, st2) \<Rightarrow> Some (None, st2)
                        | Some (Some name, st2) \<Rightarrow> getcwd_up n parent (take 63 name # names) st2)))"

definition fat32_getcwd :: "nat \<Rightarrow> (int \<times> string) fop" where
  "fat32_getcwd mx st =
     (if cwd_cluster st = 0 then Some (if mx < 2 then (-1, []) else (1, ''/''), st)
      else fbind (getcwd_up 32 (cwd_cluster st) [])
             (\<lambda>r st1. case r of
                None \<Rightarrow> Some ((-1, []), st1)
              | Some names \<Rightarrow>
                  let s = CHR ''/'' # concat (map (\<lambda>i. (if i > 0 then ''/'' else []) @ names ! i) [0..<length names])
                  in Some (if names \<noteq> [] \<and> length s \<ge> mx then (-1, []) else (int (length s), s), st1)) st)"

section \<open>Listing\<close>

definition list_cb :: "int \<Rightarrow> nat \<Rightarrow> u8 list \<Rightarrow> nat \<Rightarrow> nat \<Rightarrow> string \<Rightarrow> vfs_dirent list \<Rightarrow> int \<times> vfs_dirent list" where
  "list_cb mx root e chunk i lfn out =
     (if e ! 0 = 0xE5 \<or> fe_attr e = ATTR_LFN \<or> fe_attr e AND ATTR_VOLUME_ID \<noteq> 0 then (0, out)
      else if int (length out) \<ge> mx then (-1, out)
      else (0, out @ [\<lparr>de_name = (if lfn \<noteq> [] then lfn else format_83 e), de_size = fe_size e,
                       de_first_cluster = (if entry_cluster e = root then 0 else entry_cluster e), de_attr = unat (fe_attr e)\<rparr>]))"

definition fat32_list_dir :: "nat \<Rightarrow> int \<Rightarrow> (int \<times> vfs_dirent list) fop" where
  "fat32_list_dir dir mx st =
     fbind (dir_each_lfn dir (list_cb mx (root_cluster st)) []) (\<lambda>(_, out) st1. Some ((int (length out), out), st1)) st"

definition fat32_list_root :: "int \<Rightarrow> (int \<times> vfs_dirent list) fop" where
  "fat32_list_root mx st = fat32_list_dir (cwd_cluster st) mx st"

section \<open>Reading\<close>

partial_function (option) read_chain :: "fat32 \<Rightarrow> nat \<Rightarrow> nat \<Rightarrow> u8 list option" where
  "read_chain st c remaining =
     (if 0 < remaining \<and> 2 \<le> c \<and> \<not> is_end_of_chain c
      then (case fat_read (cluster_to_lba st c) (sectors_per_cluster (f_bpb st)) st of
              None \<Rightarrow> Some []
            | Some buf \<Rightarrow>
                Option.bind (read_chain st (fat32_get_entry c st) (remaining - min remaining (bytes_per_cluster st)))
                  (\<lambda>bs. Some (take (min remaining (bytes_per_cluster st)) buf @ bs)))
      else Some [])"

text \<open>The entry a path names, in its parent directory.\<close>

definition find_path :: "string \<Rightarrow> ((nat \<times> string) \<times> (u8 list \<times> nat \<times> nat) option) option fop" where
  "find_path path =
     fbind (fat32_resolve_parent path)
       (\<lambda>r st. case r of
          None \<Rightarrow> Some (None, st)
        | Some (parent, base) \<Rightarrow>
            fbind (dir_find_lfn parent (build_83 base) base) (\<lambda>f st1. Some (Some ((parent, base), f), st1)) st)"

definition fat32_read_file :: "string \<Rightarrow> nat \<Rightarrow> (int \<times> u8 list) fop" where
  "fat32_read_file path mx =
     fbind (find_path path)
       (\<lambda>r st. case r of
          Some (_, Some (e, _)) \<Rightarrow>
            if fe_is_dir e then Some ((-1, []), st)
            else with_buffer (bytes_per_cluster st) (-1, [])
                   (\<lambda>st1. map_option (\<lambda>bs. ((to_int (length bs), bs), st1)) (read_chain st1 (entry_cluster e) (min (fe_size e) mx))) st
        | _ \<Rightarrow> Some ((-1, []), st))"

text \<open>\<open>None\<close> where the code copies from behind its buffer.\<close>

partial_function (option) read_chain_at :: "fat32 \<Rightarrow> nat \<Rightarrow> nat \<Rightarrow> nat \<Rightarrow> nat \<Rightarrow> nat \<Rightarrow> u8 list option" where
  "read_chain_at st off len c pos written =
     (if written < len \<and> 2 \<le> c \<and> \<not> is_end_of_chain c
      then let cend = u32_add pos (bytes_per_cluster st)
           in if cend \<le> off then read_chain_at st off len (fat32_get_entry c st) cend written
              else (case fat_read (cluster_to_lba st c) (sectors_per_cluster (f_bpb st)) st of
                      None \<Rightarrow> Some []
                    | Some buf \<Rightarrow>
                        let from = (if off > pos then off - pos else 0);
                            till = (if u32_add pos (bytes_per_cluster st) > u32_add off len then u32_sub (u32_add off len) pos else bytes_per_cluster st);
                            n = u32_sub till from
                        in if from + n > length buf then None
                           else Option.bind (read_chain_at st off len (fat32_get_entry c st) cend (u32_add written n))
                                  (\<lambda>bs. Some (take n (drop from buf) @ bs)))
      else Some [])"

definition fat32_read_file_at :: "string \<Rightarrow> nat \<Rightarrow> nat \<Rightarrow> (int \<times> u8 list) fop" where
  "fat32_read_file_at path off len =
     (if len = 0 then (\<lambda>st. Some ((0, []), st))
      else fbind (find_path path)
        (\<lambda>r st. case r of
           Some (_, Some (e, _)) \<Rightarrow>
             if fe_is_dir e then Some ((-1, []), st)
             else if off \<ge> fe_size e then Some ((0, []), st)
             else let len1 = (if u32_add off len > fe_size e then fe_size e - off else len)
                  in with_buffer (bytes_per_cluster st) (-1, [])
                       (\<lambda>st1. map_option (\<lambda>bs. ((to_int (length bs), bs), st1)) (read_chain_at st1 off len1 (entry_cluster e) 0 0)) st
         | _ \<Rightarrow> Some ((-1, []), st)))"

section \<open>Writing\<close>

text \<open>The numeric tails \<open>t\<close>, \<open>t + 1\<close>, \<dots> up to 999 until a free one.\<close>

fun probe_alias :: "nat \<Rightarrow> string \<Rightarrow> nat \<Rightarrow> nat \<Rightarrow> u8 list option fop" where
  "probe_alias parent name t 0 st = Some (None, st)"
| "probe_alias parent name t (Suc left) st =
     (case dir_find parent (build_83_tail name t) st of
        None \<Rightarrow> None
      | Some (None, st1) \<Rightarrow> Some (Some (build_83_tail name t), st1)
      | Some (Some _, st1) \<Rightarrow> probe_alias parent name (t + 1) left st1)"

definition put_named :: "string \<Rightarrow> u8 list \<Rightarrow> nat \<Rightarrow> nat \<Rightarrow> bool fop" where
  "put_named name ne chunk i =
     (\<lambda>st. with_buffer (bytes_per_cluster st) False
       (\<lambda>st1. case dir_read_chunk chunk st1 of
          None \<Rightarrow> Some (False, st1)
        | Some buf \<Rightarrow>
            let epc = dir_entries_per_cluster st1; n = lfn_entry_count (length name);
                buf1 = lfn_write_entries buf i n name (lfn_checksum (take 11 ne)) epc
            in if i + n \<ge> epc then Some (False, st1)
               else Some (dir_write_chunk chunk (set_bytes buf1 (32 * (i + n)) ne) st1)) st)"

definition dir_insert_named :: "nat \<Rightarrow> string \<Rightarrow> u8 list \<Rightarrow> bool fop" where
  "dir_insert_named parent name ne =
     (if \<not> needs_lfn name then
        fbind (dir_alloc_slot parent)
          (\<lambda>r st. case r of None \<Rightarrow> Some (False, st) | Some (chunk, i) \<Rightarrow> dir_put_entry chunk i (set_bytes ne 0 (build_83 name)) st)
      else
        fbind (probe_alias parent name 1 999)
          (\<lambda>r st. case r of
             None \<Rightarrow> Some (False, st)
           | Some raw \<Rightarrow>
               fbind (dir_alloc_slots parent (lfn_entry_count (length name) + 1))
                 (\<lambda>s st1. case s of None \<Rightarrow> Some (False, st1) | Some (chunk, i) \<Rightarrow> put_named name (set_bytes ne 0 raw) chunk i st1) st))"

partial_function (option) write_chain :: "u8 list \<Rightarrow> nat \<Rightarrow> nat \<Rightarrow> fat32 \<Rightarrow> (nat option \<times> fat32) option" where
  "write_chain data start lst st =
     (if data = [] then Some (Some start, st)
      else let (c, st1) = fat32_alloc_cluster st
           in if c = 0 then Some (None, st1)
              else let st2 = fat32_set_entry c FAT32_EOC (if start = 0 then st1 else fat32_set_entry lst c st1);
                       n = min (length data) (bytes_per_cluster st2);
                       (ok, st3) = fat_write (cluster_to_lba st2 c) (sectors_per_cluster (f_bpb st2))
                                     (take n data @ zeros (bytes_per_cluster st2 - n)) st2
                   in if \<not> ok then Some (None, st3)
                      else write_chain (drop n data) (if start = 0 then c else start) c st3)"

definition flush_result :: "int \<Rightarrow> int fop" where
  "flush_result r st = (let (ok, st1) = fat32_flush_fat st in Some (if ok then r else -1, st1))"

definition store_entry :: "nat \<Rightarrow> string \<Rightarrow> (u8 list \<times> nat \<times> nat) option \<Rightarrow> nat \<Rightarrow> nat \<Rightarrow> bool fop" where
  "store_entry parent base existing first sz =
     (let ne = dirent_image (build_83 base) ATTR_ARCHIVE first sz
      in case existing of
           Some (e, chunk, i) \<Rightarrow> dir_put_entry chunk i (set_bytes ne 0 (take 11 e))
         | None \<Rightarrow> dir_insert_named parent base ne)"

definition fat32_write_file :: "string \<Rightarrow> u8 list \<Rightarrow> int fop" where
  "fat32_write_file path data =
     fbind (find_path path)
       (\<lambda>r st. case r of
          None \<Rightarrow> Some (-1, st)
        | Some ((parent, base), existing) \<Rightarrow>
            if (case existing of None \<Rightarrow> False | Some (e, _) \<Rightarrow> fe_is_dir e) then Some (-1, st)
            else let st1 = (case existing of None \<Rightarrow> st | Some (e, _) \<Rightarrow> if entry_cluster e \<ge> 2 then fat32_free_chain (entry_cluster e) st else st)
                 in fbind (with_buffer (bytes_per_cluster st1) None (write_chain data 0 0))
                      (\<lambda>f st2. case f of
                         None \<Rightarrow> Some (-1, st2)
                       | Some first \<Rightarrow>
                           fbind (store_entry parent base existing first (length data))
                             (\<lambda>ok st3. if \<not> ok then Some (-1, st3) else flush_result (to_int (length data)) st3) st2) st1)"

definition fat32_delete_file :: "string \<Rightarrow> int fop" where
  "fat32_delete_file path =
     fbind (find_path path)
       (\<lambda>r st. case r of
          Some (_, Some (e, chunk, i)) \<Rightarrow>
            if fe_is_dir e then Some (-1, st)
            else fbind (dir_delete_slot chunk i) (\<lambda>_. flush_result 0)
                   (if entry_cluster e \<ge> 2 then fat32_free_chain (entry_cluster e) st else st)
        | _ \<Rightarrow> Some (-1, st))"

section \<open>Directories\<close>

definition new_dir_image :: "nat \<Rightarrow> nat \<Rightarrow> nat \<Rightarrow> u8 list" where
  "new_dir_image bpc c pp =
     (let es = dirent_image (build_83 ''.'') ATTR_DIRECTORY c 0 @ dirent_image (build_83 ''..'') ATTR_DIRECTORY pp 0
      in es @ zeros (bpc - length es))"

definition fat32_mkdir :: "string \<Rightarrow> int fop" where
  "fat32_mkdir path =
     fbind (find_path path)
       (\<lambda>r st. case r of
          Some ((parent, base), None) \<Rightarrow>
            (let (c, st1) = fat32_alloc_cluster st
             in if c = 0 then Some (-1, st1)
                else fbind (with_buffer (bytes_per_cluster st1) None
                             (\<lambda>st2. let (ok, st3) = fat_write (cluster_to_lba st2 c) (sectors_per_cluster (f_bpb st2))
                                                      (new_dir_image (bytes_per_cluster st2) c (real_cluster st2 parent)) st2
                                    in Some (Some ok, st3)))
                       (\<lambda>w st2. case w of
                          None \<Rightarrow> Some (-1, st2)
                        | Some ok \<Rightarrow>
                            if \<not> ok then Some (-1, fat32_set_entry c 0 st2)
                            else fbind (dir_insert_named parent base (dirent_image (zeros 11) ATTR_DIRECTORY c 0))
                                   (\<lambda>placed st3. if \<not> placed then Some (-1, fat32_set_entry c 0 st3) else flush_result 0 st3) st2) st1)
        | _ \<Rightarrow> Some (-1, st))"

definition rmdir_count_cb :: "u8 list \<Rightarrow> nat \<Rightarrow> nat \<Rightarrow> nat \<Rightarrow> int \<times> nat" where
  "rmdir_count_cb e chunk i n = (if e ! 0 = 0xE5 \<or> e ! 0 = 0 \<or> fe_attr e = ATTR_LFN \<or> e ! 0 = 0x2E then (0, n) else (-1, n + 1))"

definition fat32_rmdir :: "string \<Rightarrow> int fop" where
  "fat32_rmdir path =
     fbind (fat32_resolve_parent path)
       (\<lambda>r st. case r of
          None \<Rightarrow> Some (-1, st)
        | Some (parent, base) \<Rightarrow>
            if base = ''.'' \<or> base = ''..'' then Some (-1, st)
            else fbind (dir_find parent (build_83 base))
                   (\<lambda>f st1. case f of
                      None \<Rightarrow> Some (-1, st1)
                    | Some (e, chunk, i) \<Rightarrow>
                        if \<not> fe_is_dir e then Some (-1, st1)
                        else fbind (dir_each (entry_cluster e) rmdir_count_cb 0)
                               (\<lambda>(_, n) st2. if n > 0 then Some (-1, st2)
                                 else fbind (dir_delete_slot chunk i) (\<lambda>_. flush_result 0) (fat32_free_chain (entry_cluster e) st2)) st1) st)"

section \<open>Copying and moving\<close>

text \<open>The destination, with the source's name appended where it is a directory; \<open>None\<close> if it is too long.\<close>

definition dest_path :: "string \<Rightarrow> string \<Rightarrow> string option fop" where
  "dest_path dst base =
     fbind (fat32_resolve_dir dst)
       (\<lambda>r st. Some (case r of
          Some _ \<Rightarrow> if length dst + 1 + length base \<ge> 256 then None else Some (dst @ ''/'' @ base)
        | None \<Rightarrow> if length dst \<ge> 256 then None else Some dst, st))"

text \<open>The source of a copy or a move is searched by its short name only.\<close>

definition find_source :: "string \<Rightarrow> (string \<times> u8 list \<times> nat \<times> nat) option fop" where
  "find_source src =
     fbind (fat32_resolve_parent src)
       (\<lambda>r st. case r of
          None \<Rightarrow> Some (None, st)
        | Some (parent, base) \<Rightarrow>
            fbind (dir_find parent (build_83 base))
              (\<lambda>f st1. Some (case f of None \<Rightarrow> None | Some (e, ci) \<Rightarrow> if fe_is_dir e then None else Some (base, e, ci), st1)) st)"

definition fat32_cp :: "string \<Rightarrow> string \<Rightarrow> int fop" where
  "fat32_cp src dst =
     fbind (find_source src)
       (\<lambda>r st. case r of
          None \<Rightarrow> Some (-1, st)
        | Some (base, e, _) \<Rightarrow>
            with_buffer (if fe_size e = 0 then 1 else fe_size e) (-1)
              (fbind (fat32_read_file src (fe_size e))
                (\<lambda>(n, bs) st1. if n < 0 then Some (-1, st1)
                  else fbind (dest_path dst base)
                         (\<lambda>d st2. case d of
                            None \<Rightarrow> Some (-1, st2)
                          | Some p \<Rightarrow> fbind (fat32_write_file p bs) (\<lambda>w st3. Some (if w < 0 then -1 else 0, st3)) st2) st1)) st)"

text \<open>The code repeats the test for a directory behind the move, where it cannot hold any more.\<close>

definition fat32_mv :: "string \<Rightarrow> string \<Rightarrow> int fop" where
  "fat32_mv src dst =
     fbind (find_source src)
       (\<lambda>r st. case r of
          None \<Rightarrow> Some (-1, st)
        | Some (base, e, chunk, i) \<Rightarrow>
            fbind (dest_path dst base)
              (\<lambda>d st1. case d of
                 None \<Rightarrow> Some (-1, st1)
               | Some p \<Rightarrow>
                   fbind (fat32_resolve_parent p)
                     (\<lambda>q st2. case q of
                        None \<Rightarrow> Some (-1, st2)
                      | Some (d_parent, d_base) \<Rightarrow>
                          fbind (dir_alloc_slot d_parent)
                            (\<lambda>s st3. case s of
                               None \<Rightarrow> Some (-1, st3)
                             | Some (c, j) \<Rightarrow>
                                 fbind (dir_put_entry c j (set_bytes e 0 (build_83 d_base)))
                                   (\<lambda>ok st4. if \<not> ok then Some (-1, st4)
                                     else fbind (dir_delete_slot chunk i)
                                            (\<lambda>ok2 st5. if \<not> ok2 then Some (-1, st5) else flush_result 0 st5) st4) st3) st2) st1) st)"

section \<open>The table for the VFS and the statistics\<close>

definition fat32_vfs_list :: "string \<Rightarrow> int \<Rightarrow> (int \<times> vfs_dirent list) fop" where
  "fat32_vfs_list path mx =
     fbind (fat32_resolve_dir path) (\<lambda>r st. case r of None \<Rightarrow> Some ((-1, []), st) | Some c \<Rightarrow> fat32_list_dir c mx st)"

definition fat32_vfs_is_dir :: "string \<Rightarrow> int fop" where
  "fat32_vfs_is_dir path = fbind (fat32_resolve_dir path) (\<lambda>r st. Some (if r = None then 0 else 1, st))"

definition fat32_free_clusters :: "fat32 \<Rightarrow> nat" where
  "fat32_free_clusters st =
     (if \<not> f_mounted st then 0 else length (filter (\<lambda>c. f_fat st ! c AND FAT32_MASK = 0) [2..<length (f_fat st)]))"

definition fat32_total_clusters :: "fat32 \<Rightarrow> nat" where
  "fat32_total_clusters st = total_clusters_count st"

definition fat32_cluster_size :: "fat32 \<Rightarrow> nat" where
  "fat32_cluster_size st = bytes_per_cluster st"

definition fat32_ops :: "fat32 vfs_ops" where
  "fat32_ops = \<lparr>op_list = Some fat32_vfs_list, op_is_dir = Some fat32_vfs_is_dir,
     op_read_file = Some fat32_read_file, op_read_file_at = Some fat32_read_file_at,
     op_write_file = Some fat32_write_file, op_delete_file = Some fat32_delete_file,
     op_mkdir = Some fat32_mkdir, op_rmdir = Some fat32_rmdir, op_cp = Some fat32_cp, op_mv = Some fat32_mv,
     op_link = None, op_chmod = None, op_chown = None\<rparr>"

end
