(* ===== verification/Fat32_Names.thy ===== *)
theory Fat32_Names
  imports Fat32_Files
begin

text \<open>
  Long names in a FAT32 directory: the entries that are written for a name are read back as that name.
\<close>

lemma slot_set_bytes:
  assumes "length e = 32" "32 * i + 32 \<le> length buf"
  shows "take 32 (drop (32 * j) (set_bytes buf (32 * i) e)) = (if j = i then e else take 32 (drop (32 * j) buf))"
proof -
  consider "j = i" | "32 * j + 32 \<le> 32 * i" | "32 * i + 32 \<le> 32 * j" by linarith
  then show ?thesis
  proof cases
    case 1
    then show ?thesis using assms by (simp add: set_bytes_def)
  next
    case 2
    then have "take 32 (drop (32 * j) (take (32 * i) buf)) = take 32 (drop (32 * j) buf)" by (simp add: drop_take min_def)
    then show ?thesis using 2 assms by (simp add: set_bytes_def)
  next
    case 3
    then show ?thesis using assms by (simp add: set_bytes_def)
  qed
qed

section \<open>One entry\<close>

lemma upt_5_11_13: "[0..<5] = [0, 1, 2, 3, 4]" "[5..<11] = [5, 6, 7, 8, 9, 10]" "[11..<13] = [11, 12]" "[0..<13] = [0, 1, 2, 3, 4, 5, 6, 7, 8, 9, 10, 11, 12]"
  by (simp_all add: upt_conv_Cons)

lemma le_image_2: "le_image 2 x = [of_nat x, of_nat (x div 256)]"
  by (simp add: numeral_2_eq_2)

lemma length_lfn_image [simp]: "length (lfn_image name ck seg f) = 32"
  by (simp add: lfn_image_def Let_def upt_5_11_13 le_image_2)

lemma lfn_char_less: "lfn_char name i < 65536"
  using of_char_less_256 by (simp add: lfn_char_def less_trans [OF of_char_less_256])

lemma two_bytes: "x < 65536 \<Longrightarrow> le_val [of_nat x, of_nat (x div 256)] = x"
  by (simp add: unat_of_nat)

lemma lfn_chars_image: "lfn_chars (lfn_image name ck seg f) = map (\<lambda>i. lfn_char name (seg * 13 + i)) [0..<13]"
proof -
  define g where "g i = lfn_char name (seg * 13 + i)" for i
  have g: "le_val [of_nat (g i), of_nat (g i div 256)] = g i" for i using two_bytes lfn_char_less by (simp add: g_def)
  show ?thesis unfolding lfn_chars_def lfn_image_def Let_def g_def [symmetric] upt_5_11_13 le_image_2
    by (simp add: field_def g del: le_val.simps)
qed

lemma lfn_image_kind: "seg < 20 \<Longrightarrow> fe_attr (lfn_image name ck seg f) = ATTR_LFN \<and> lfn_image name ck seg f ! 0 \<noteq> 0 \<and> lfn_image name ck seg f ! 0 \<noteq> 0xE5"
proof -
  assume "seg < 20"
  then have "seg \<in> set [0..<20]" by simp
  moreover have "[0..<20] = [0, 1, 2, 3, 4, 5, 6, 7, 8, 9, 10, 11, 12, 13, 14, 15, 16, 17, 18, 19]" by (simp add: upt_conv_Cons)
  ultimately have "(of_nat (seg + 1) OR (if f then 0x40 else 0) :: u8) \<noteq> 0 \<and> (of_nat (seg + 1) OR (if f then 0x40 else 0) :: u8) \<noteq> 0xE5"
    by (cases f) (simp_all, (elim disjE; simp)+)
  then show ?thesis by (simp add: lfn_image_def Let_def upt_5_11_13 le_image_2 fe_attr_def)
qed

section \<open>All entries of a name\<close>

definition put_lfn :: "nat \<Rightarrow> nat \<Rightarrow> string \<Rightarrow> u8 \<Rightarrow> nat \<Rightarrow> nat \<Rightarrow> u8 list \<Rightarrow> u8 list" where
  "put_lfn start n name ck epc j b = (if start + j < epc then set_bytes b (32 * (start + j)) (lfn_image name ck (n - 1 - j) (j = 0)) else b)"

lemma put_lfn_fold:
  assumes "length buf = 32 * epc" "start + k \<le> epc"
  shows "length (fold (put_lfn start n name ck epc) [0..<k] buf) = 32 * epc \<and>
    (\<forall>j < k. take 32 (drop (32 * (start + j)) (fold (put_lfn start n name ck epc) [0..<k] buf)) = lfn_image name ck (n - 1 - j) (j = 0))"
  using assms(2)
proof (induction k)
  case (Suc k)
  let ?b = "fold (put_lfn start n name ck epc) [0..<k] buf"
  have ih: "length ?b = 32 * epc" "\<And>j. j < k \<Longrightarrow> take 32 (drop (32 * (start + j)) ?b) = lfn_image name ck (n - 1 - j) (j = 0)" using Suc by simp_all
  have f: "fold (put_lfn start n name ck epc) [0..<Suc k] buf = set_bytes ?b (32 * (start + k)) (lfn_image name ck (n - 1 - k) (k = 0))"
    using Suc.prems by (simp add: put_lfn_def)
  have fit: "32 * (start + k) + 32 \<le> length ?b" using ih(1) Suc.prems by simp
  show ?case unfolding f
  proof (intro conjI allI impI)
    show "length (set_bytes ?b (32 * (start + k)) (lfn_image name ck (n - 1 - k) (k = 0))) = 32 * epc" using fit ih(1) by simp
    fix j assume "j < Suc k"
    then show "take 32 (drop (32 * (start + j)) (set_bytes ?b (32 * (start + k)) (lfn_image name ck (n - 1 - k) (k = 0)))) = lfn_image name ck (n - 1 - j) (j = 0)"
      unfolding slot_set_bytes [OF length_lfn_image fit] using ih(2) [of j] by (cases "j = k") simp_all
  qed
qed (simp add: assms(1))

lemma concat_blocks: "concat (map (\<lambda>s. map (\<lambda>i. f (s * 13 + i)) [0..<13]) [0..<n]) = map f [0..<n * 13]"
proof (induction n)
  case (Suc n)
  have "map (\<lambda>i. f (n * 13 + i)) [0..<13] = map f [n * 13..<n * 13 + 13]" by (rule nth_equalityI) simp_all
  moreover have "[0..<Suc n * 13] = [0..<n * 13] @ [n * 13..<n * 13 + 13]" using upt_add_eq_append [of 0 "n * 13" 13] by (simp add: add.commute)
  ultimately show ?case using Suc by simp
qed simp

lemma takeWhile_name:
  assumes "\<forall>c \<in> set name. (of_char c :: nat) \<noteq> 0" "length name \<le> m"
  shows "takeWhile (\<lambda>c. c \<noteq> 0) (map (lfn_char name) [0..<m]) = map of_char name"
proof -
  have a: "map (lfn_char name) [0..<length name] = map of_char name" by (rule nth_equalityI) (simp_all add: lfn_char_def)
  show ?thesis
  proof (cases "m = length name")
    case True
    then show ?thesis using a assms(1) by (simp add: takeWhile_eq_all_conv)
  next
    case False
    then have "[0..<m] = [0..<length name] @ length name # [Suc (length name)..<m]" 
      using assms(2) upt_add_eq_append [of 0 "length name" "m - length name"] by (simp add: upt_conv_Cons)
    then have "map (lfn_char name) [0..<m] = map of_char name @ 0 # map (lfn_char name) [Suc (length name)..<m]" using a by (simp add: lfn_char_def)
    then show ?thesis using assms(1) by (simp add: takeWhile_append)
  qed
qed

text \<open>C39. The long-name entries that are written for a name of up to 255 ASCII characters are all recognised as
  such by a walk of the directory, and put together they give the name again.\<close>

theorem lfn_round_trip:
  assumes "name \<noteq> []" "length name \<le> 255" "\<forall>c \<in> set name. (of_char c :: nat) \<noteq> 0 \<and> (of_char c :: nat) < 128"
    and "start + lfn_entry_count (length name) \<le> epc" "length buf = 32 * epc"
  shows "let n = lfn_entry_count (length name);
             segs = take n (drop start (entries_of epc (lfn_write_entries buf start n name ck epc)))
         in list_all (\<lambda>e. fe_attr e = ATTR_LFN \<and> e ! 0 \<noteq> 0 \<and> e ! 0 \<noteq> 0xE5) segs \<and> length segs \<le> LFN_MAX_SEGS \<and> lfn_reconstruct segs 256 = name"
proof -
  define n where "n = lfn_entry_count (length name)"
  define segs where "segs = take n (drop start (entries_of epc (lfn_write_entries buf start n name ck epc)))"
  have n: "n \<le> 20" "length name \<le> n * 13" using assms(2) by (simp_all add: n_def lfn_entry_count_def)
  have w: "lfn_write_entries buf start n name ck epc = fold (put_lfn start n name ck epc) [0..<n] buf"
    unfolding lfn_write_entries_def put_lfn_def ..
  have im: "take 32 (drop (32 * (start + j)) (lfn_write_entries buf start n name ck epc)) = lfn_image name ck (n - 1 - j) (j = 0)" if "j < n" for j
    unfolding w using put_lfn_fold [OF assms(5), of start n n name ck] assms(4) that unfolding n_def [symmetric] by blast
  have se: "segs = map (\<lambda>j. lfn_image name ck (n - 1 - j) (j = 0)) [0..<n]"
    by (rule nth_equalityI) (use assms(4) im in \<open>simp_all add: segs_def entries_of_def n_def [symmetric]\<close>)
  have "map lfn_chars (rev segs) = map (\<lambda>s. map (\<lambda>i. lfn_char name (s * 13 + i)) [0..<13]) [0..<n]"
    by (rule nth_equalityI) (simp_all add: se rev_nth lfn_chars_image)
  then have cs: "concat (map lfn_chars (rev segs)) = map (lfn_char name) [0..<n * 13]" by (simp only: concat_blocks)
  have nz: "\<forall>c \<in> set name. (of_char c :: nat) \<noteq> 0" using assms(3) by blast
  have flt: "filter (\<lambda>c. c \<noteq> 0xFFFF) (map of_char name) = map (of_char :: char \<Rightarrow> nat) name" using assms(3) by (auto simp: filter_id_conv)
  have bs: "map (\<lambda>c. of_nat c AND 0x7F) (map of_char name) = map byte_of name"
  proof (simp, intro ballI)
    fix c assume "c \<in> set name"
    then have "(of_char c :: nat) < 128" using assms(3) by blast
    then have "of_char c AND mask 7 = (of_char c :: nat)" by (simp add: take_bit_eq_mask [symmetric] take_bit_nat_eq_self)
    then have "of_nat (of_char c) AND (of_nat 127 :: u8) = of_nat (of_char c)"
      using of_nat_and_eq [of "of_char c" 127, where ?'a = u8] by (simp add: mask_eq_exp_minus_1)
    then show "of_nat (of_char c) AND 0x7F = byte_of c" by (simp add: byte_of_def)
  qed
  have "lfn_reconstruct segs 256 = map char_at (takeWhile (\<lambda>b. b \<noteq> 0) (take 255 (map byte_of name)))"
    unfolding lfn_reconstruct_def cs takeWhile_name [OF nz n(2)] flt Let_def bs by simp
  also have "\<dots> = name"
  proof -
    have tw: "takeWhile (\<lambda>b. b \<noteq> 0) (map byte_of name) = map byte_of name"
      using nz by (auto simp: takeWhile_eq_all_conv byte_of_zero_iff)
    have "take 255 (map byte_of name) = map byte_of name" using assms(2) by simp
    then show ?thesis unfolding tw by (simp add: tw comp_def)
  qed
  finally have "lfn_reconstruct segs 256 = name" .
  moreover have "list_all (\<lambda>e. fe_attr e = ATTR_LFN \<and> e ! 0 \<noteq> 0 \<and> e ! 0 \<noteq> 0xE5) segs"
    using n(1) lfn_image_kind by (simp add: se list_all_iff)
  ultimately show ?thesis using n(1) by (simp add: n_def [symmetric] segs_def [symmetric] Let_def)
qed

theorem lfn_round_trip_witness:
  "let segs = take 2 (drop 1 (entries_of 16 (lfn_write_entries (zeros 512) 1 2 ''longfilename.txt'' 7 16)))
   in lfn_reconstruct segs 256 = ''longfilename.txt''"
proof -
  have "start + lfn_entry_count (length ''longfilename.txt'') \<le> (16::nat)" if "start = (1::nat)" for start using that by (simp add: lfn_entry_count_def)
  then show ?thesis using lfn_round_trip [of "''longfilename.txt''" 1 16 "zeros 512" 7] by (simp add: lfn_entry_count_def Let_def)
qed

end
