(* ===== verification/Fat32_Chain.thy ===== *)
theory Fat32_Chain
  imports Fat32_Names Heap_Buffers
begin

text \<open>
  The table and the clusters of a FAT32 volume: chains, what an allocation, a release and a write
  change, and what they leave alone.
\<close>

section \<open>Geometry\<close>

abbreviation spc :: "fat32 \<Rightarrow> nat" where "spc st \<equiv> sectors_per_cluster (f_bpb st)"

definition cluster_sector :: "fat32 \<Rightarrow> nat \<Rightarrow> nat" where
  "cluster_sector st c = part_lba st + (data_lba st + (c - 2) * spc st)"

definition cluster_data :: "fat32 \<Rightarrow> nat \<Rightarrow> u8 list" where
  "cluster_data st c = sectors (f_drive st) (cluster_sector st c) (spc st)"

text \<open>The clusters that the volume has room for and the table an entry.\<close>

definition usable :: "fat32 \<Rightarrow> nat \<Rightarrow> bool" where
  "usable st c \<longleftrightarrow> 2 \<le> c \<and> c < total_clusters_count st + 2 \<and> c < length (f_fat st)"

text \<open>A mounted volume that fits on its disk.  Entries of the table behind the last cluster are
  not marked as free.\<close>

definition layout_ok :: "fat32 \<Rightarrow> bool" where
  "layout_ok st \<longleftrightarrow> 0 < spc st \<and> bytes_per_cluster st = spc st * 512 \<and> length (f_fat st) < FAT32_EOC \<and>
     length (f_fat st) = sectors_per_fat st * 128 \<and> data_lba st = fat_start st + num_fats (f_bpb st) * sectors_per_fat st \<and>
     part_lba st + (data_lba st + total_clusters_count st * spc st) < 2 ^ 32 \<and> total_clusters_count st + 2 < 2 ^ 32"

definition volume_end :: "fat32 \<Rightarrow> nat" where
  "volume_end st = data_lba st + total_clusters_count st * spc st"

definition geom_ok :: "fat32 \<Rightarrow> bool" where
  "geom_ok st \<longleftrightarrow> layout_ok st \<and>
     reaches (f_drive st) (part_lba st) (volume_end st) \<and>
     (\<forall>c. total_clusters_count st + 2 \<le> c \<and> c < length (f_fat st) \<longrightarrow> fat32_get_entry c st \<noteq> 0) \<and>
     (\<forall>i. length (d_sec (f_drive st) i) = 512)"

text \<open>Two states that differ in the table, the disk and the heap only.\<close>

definition fixed :: "fat32 \<Rightarrow> fat32 \<Rightarrow> bool" where
  "fixed st st1 \<longleftrightarrow> st1 = st\<lparr>km_heap := km_heap st1, f_fat := f_fat st1, f_drive := f_drive st1\<rparr> \<and> length (f_fat st1) = length (f_fat st)"

lemma fixed_refl [simp]: "fixed st st"
  by (simp add: fixed_def)

lemma fixed_trans: "fixed a b \<Longrightarrow> fixed b c \<Longrightarrow> fixed a c"
  by (cases a; cases b; cases c) (simp add: fixed_def)

lemma fixed_fields:
  assumes "fixed st st1"
  shows "f_bpb st1 = f_bpb st" "part_lba st1 = part_lba st" "data_lba st1 = data_lba st" "bytes_per_cluster st1 = bytes_per_cluster st"
    "total_clusters_count st1 = total_clusters_count st" "root_cluster st1 = root_cluster st" "cwd_cluster st1 = cwd_cluster st"
    "sectors_per_fat st1 = sectors_per_fat st" "fat_start st1 = fat_start st" "length (f_fat st1) = length (f_fat st)"
  using assms by (cases st; cases st1; simp add: fixed_def)+

lemma fixed_derived:
  assumes "fixed st st1"
  shows "usable st1 = usable st" "real_cluster st1 = real_cluster st" "cluster_sector st1 = cluster_sector st" "cluster_to_lba st1 = cluster_to_lba st"
    "dir_entries_per_cluster st1 = dir_entries_per_cluster st" "layout_ok st1 = layout_ok st" "volume_end st1 = volume_end st"
  using fixed_fields [OF assms]
  by (simp_all add: fun_eq_iff usable_def real_cluster_def cluster_sector_def cluster_to_lba_def dir_entries_per_cluster_def layout_ok_def volume_end_def)

section \<open>The heap is apart\<close>

lemma heap_apart [simp]:
  "cluster_data (st\<lparr>km_heap := h\<rparr>) = cluster_data st" "usable (st\<lparr>km_heap := h\<rparr>) = usable st"
  "real_cluster (st\<lparr>km_heap := h\<rparr>) = real_cluster st" "fat32_get_entry c (st\<lparr>km_heap := h\<rparr>) = fat32_get_entry c st"
  "cluster_to_lba (st\<lparr>km_heap := h\<rparr>) = cluster_to_lba st" "dir_entries_per_cluster (st\<lparr>km_heap := h\<rparr>) = dir_entries_per_cluster st"
  "geom_ok (st\<lparr>km_heap := h\<rparr>) = geom_ok st" "cluster_sector (st\<lparr>km_heap := h\<rparr>) = cluster_sector st"
  "fat_read l n (st\<lparr>km_heap := h\<rparr>) = fat_read l n st" "dir_read_chunk k (st\<lparr>km_heap := h\<rparr>) = dir_read_chunk k st"
  by (simp_all add: fun_eq_iff cluster_data_def usable_def real_cluster_def fat32_get_entry_def cluster_to_lba_def dir_entries_per_cluster_def
      geom_ok_def layout_ok_def volume_end_def cluster_sector_def fat_read_def dir_read_chunk_def)

lemma fixed_heap: "fixed st (st\<lparr>km_heap := h\<rparr>)"
  by (cases st) (simp add: fixed_def)

section \<open>Entries of the table\<close>

lemma masked_entry: "unat (((x :: u32) AND 0xF0000000 OR of_nat v AND FAT32_MASK) AND FAT32_MASK) = v mod 2 ^ 28"
proof -
  have "(x AND 0xF0000000 OR of_nat v AND FAT32_MASK) AND FAT32_MASK = of_nat v AND FAT32_MASK"
    by (simp add: bit.conj_disj_distrib2 and.assoc)
  also have "\<dots> = take_bit 28 (of_nat v)" by (simp add: take_bit_eq_mask mask_eq_exp_minus_1)
  finally show ?thesis by (simp only: unsigned_take_bit_eq) (simp add: unsigned_of_nat take_bit_eq_mod mod_mod_cancel)
qed

lemma get_set_entry:
  "v < 2 ^ 28 \<Longrightarrow> c < length (f_fat st) \<Longrightarrow> fat32_get_entry d (fat32_set_entry c v st) = (if d = c then v else fat32_get_entry d st)"
  by (simp add: fat32_get_entry_def fat32_set_entry_def masked_entry)

lemma set_entry_fixed: "fixed st (fat32_set_entry c v st)" "f_drive (fat32_set_entry c v st) = f_drive st" "km_heap (fat32_set_entry c v st) = km_heap st"
  by (cases st, simp add: fixed_def fat32_set_entry_def)+

lemma cluster_data_fat: "fixed st st1 \<Longrightarrow> f_drive st1 = f_drive st \<Longrightarrow> cluster_data st1 = cluster_data st"
  by (simp add: fun_eq_iff cluster_data_def fixed_derived fixed_fields)

lemma geom_ok_table:
  assumes "geom_ok st" "fixed st st1" "f_drive st1 = f_drive st"
    "\<And>c. total_clusters_count st + 2 \<le> c \<Longrightarrow> c < length (f_fat st) \<Longrightarrow> fat32_get_entry c st1 \<noteq> 0"
  shows "geom_ok st1"
  using assms(1,4) unfolding geom_ok_def fixed_fields [OF assms(2)] fixed_derived [OF assms(2)] assms(3) by simp

lemma geom_okD:
  assumes "geom_ok st"
  shows "0 < spc st" "bytes_per_cluster st = spc st * 512" "length (f_fat st) < FAT32_EOC" "part_lba st + volume_end st < 2 ^ 32"
    "total_clusters_count st + 2 < 2 ^ 32" "reaches (f_drive st) (part_lba st) (volume_end st)" "\<And>i. length (d_sec (f_drive st) i) = 512"
  using assms unfolding geom_ok_def layout_ok_def volume_end_def by blast+

lemma usable_bounds: "geom_ok st \<Longrightarrow> usable st c \<Longrightarrow> c < FAT32_EOC"
  using geom_okD(3) [of st] by (simp add: usable_def)

lemma geom_ok_set:
  assumes "geom_ok st" "usable st c" "v < 2 ^ 28"
  shows "geom_ok (fat32_set_entry c v st)"
proof (rule geom_ok_table [OF assms(1) set_entry_fixed(1,2)])
  fix d assume "total_clusters_count st + 2 \<le> d" "d < length (f_fat st)"
  then show "fat32_get_entry d (fat32_set_entry c v st) \<noteq> 0"
    using assms by (auto simp: get_set_entry usable_def geom_ok_def)
qed

lemma alloc_cluster_cases:
  assumes "geom_ok st" "fat32_alloc_cluster st = (c, st1)"
  shows "c = 0 \<and> st1 = st \<or> usable st c \<and> fat32_get_entry c st = 0 \<and> st1 = fat32_set_entry c FAT32_EOC st"
proof (cases "List.find (\<lambda>c. f_fat st ! c AND FAT32_MASK = 0) [2..<length (f_fat st)]")
  case None
  then show ?thesis using assms(2) by (simp add: fat32_alloc_cluster_def)
next
  case (Some d)
  then have d: "2 \<le> d" "d < length (f_fat st)" "f_fat st ! d AND FAT32_MASK = 0" using find_SomeD by fastforce+
  then have z: "fat32_get_entry d st = 0" by (simp add: fat32_get_entry_def)
  then have "d < total_clusters_count st + 2" using assms(1) d(2) by (meson geom_ok_def not_less)
  then show ?thesis using Some assms(2) d z by (auto simp: fat32_alloc_cluster_def usable_def)
qed

section \<open>Clusters on the disk\<close>

lemma lba_eq:
  assumes "geom_ok st" "usable st c"
  shows "cluster_to_lba st c = data_lba st + (c - 2) * spc st" "u32_add (part_lba st) (cluster_to_lba st c) = cluster_sector st c"
    "cluster_sector st c + spc st \<le> part_lba st + volume_end st"
    "part_lba st + data_lba st \<le> cluster_sector st c"
proof -
  let ?b = "part_lba st + volume_end st"
  have b: "?b < 2 ^ 32" "total_clusters_count st + 2 < 2 ^ 32" using geom_okD [OF assms(1)] by simp_all
  have c: "2 \<le> c" "c - 2 + 1 \<le> total_clusters_count st" using assms(2) by (auto simp: usable_def)
  have s: "u32_sub c 2 = c - 2" using c b(2) by (simp add: u32_sub_def mod_if)
  have m: "(c - 2 + 1) * spc st \<le> total_clusters_count st * spc st" by (rule mult_le_mono1 [OF c(2)])
  then have le: "(c - 2) * spc st + spc st \<le> total_clusters_count st * spc st" by simp
  then have "u32_mul (c - 2) (spc st) = (c - 2) * spc st" "data_lba st + (c - 2) * spc st < 2 ^ 32"
    using b(1) by (simp_all add: u32_mul_def volume_end_def)
  then show e: "cluster_to_lba st c = data_lba st + (c - 2) * spc st" by (simp add: cluster_to_lba_def s u32_add_def)
  show "cluster_sector st c + spc st \<le> ?b" using le by (simp add: cluster_sector_def volume_end_def)
  then show "u32_add (part_lba st) (cluster_to_lba st c) = cluster_sector st c" using b(1) by (simp add: e u32_add_def cluster_sector_def)
  show "part_lba st + data_lba st \<le> cluster_sector st c" by (simp add: cluster_sector_def)
qed

lemma reaches_cluster: "geom_ok st \<Longrightarrow> usable st c \<Longrightarrow> reaches (f_drive st) (cluster_sector st c) (spc st)"
  using lba_eq(3,4) [of st c] reaches_part [OF geom_okD(6), of st "cluster_sector st c" "spc st"] by simp

lemma read_cluster: "geom_ok st \<Longrightarrow> usable st c \<Longrightarrow> fat_read (cluster_to_lba st c) (spc st) st = Some (cluster_data st c)"
  by (simp add: fat_read_def lba_eq(2) ata_read_eq reaches_cluster cluster_data_def)

definition put_cluster :: "nat \<Rightarrow> u8 list \<Rightarrow> fat32 \<Rightarrow> fat32" where
  "put_cluster c buf st = st\<lparr>f_drive := put_all (cut_sectors (cluster_sector st c) (spc st) buf) (f_drive st)\<rparr>"

lemma write_cluster:
  "geom_ok st \<Longrightarrow> usable st c \<Longrightarrow> fat_write (cluster_to_lba st c) (spc st) buf st = (True, put_cluster c buf st)"
  by (simp add: fat_write_def lba_eq(2) ata_write_eq reaches_cluster put_cluster_def)

lemma put_cluster_fixed: "fixed st (put_cluster c buf st)" "f_fat (put_cluster c buf st) = f_fat st" "km_heap (put_cluster c buf st) = km_heap st"
  by (cases st, simp add: fixed_def put_cluster_def)+

lemma get_put_cluster [simp]: "fat32_get_entry d (put_cluster c buf st) = fat32_get_entry d st"
  by (simp add: fat32_get_entry_def put_cluster_fixed(2))

lemma length_cluster_data: "geom_ok st \<Longrightarrow> length (cluster_data st c) = bytes_per_cluster st"
  by (simp add: cluster_data_def geom_okD length_sectors)

lemma put_cluster_ok:
  assumes "geom_ok st" "length buf = bytes_per_cluster st"
  shows "geom_ok (put_cluster c buf st)"
proof -
  have "length buf = spc st * 512" using assms geom_okD(2) by simp
  then have "\<forall>i. length (d_sec (f_drive (put_cluster c buf st)) i) = 512"
    using put_all_lengths [OF _ cut_all_lengths] geom_okD(7) [OF assms(1)] by (simp add: put_cluster_def)
  moreover have "reaches (f_drive (put_cluster c buf st)) a n = reaches (f_drive st) a n" for a n by (simp add: put_cluster_def)
  ultimately show ?thesis using assms(1)
    unfolding geom_ok_def fixed_fields [OF put_cluster_fixed(1)] fixed_derived [OF put_cluster_fixed(1)] get_put_cluster by simp
qed

lemma clusters_apart:
  assumes "geom_ok st" "2 \<le> c" "2 \<le> d" "c \<noteq> d"
  shows "{cluster_sector st c..<cluster_sector st c + spc st} \<inter> {cluster_sector st d..<cluster_sector st d + spc st} = {}"
proof -
  have le: "(a - 2) * spc st + spc st \<le> (b - 2) * spc st" if "2 \<le> a" "a < b" for a b
  proof -
    have "(a - 2 + 1) * spc st \<le> (b - 2) * spc st" by (rule mult_le_mono1) (use that in simp)
    then show ?thesis by simp
  qed
  show ?thesis using assms(2-4) le [of c d] le [of d c] by (cases c d rule: linorder_cases) (auto simp: cluster_sector_def)
qed

lemma put_cluster_data:
  assumes "geom_ok st" "usable st c" "length buf = bytes_per_cluster st"
  shows "cluster_data (put_cluster c buf st) c = buf" "2 \<le> d \<Longrightarrow> d \<noteq> c \<Longrightarrow> cluster_data (put_cluster c buf st) d = cluster_data st d"
proof -
  have e: "cluster_data (put_cluster c buf st) d = sectors (put_all (cut_sectors (cluster_sector st c) (spc st) buf) (f_drive st)) (cluster_sector st d) (spc st)" for d
    by (simp add: cluster_data_def put_cluster_def cluster_sector_def)
  show "cluster_data (put_cluster c buf st) c = buf" unfolding e using sectors_put_all_cut assms(3) geom_okD(2) [OF assms(1)] by simp
  show "cluster_data (put_cluster c buf st) d = cluster_data st d" if "2 \<le> d" "d \<noteq> c"
    unfolding e using clusters_apart [OF assms(1), of d c] that assms(2)
    by (simp add: cluster_data_def sectors_put_all_other fst_cut usable_def)
qed

section \<open>Chains\<close>

text \<open>A file or directory: each cluster links to the next and the last one is marked as the end.  The
  first may be 0, the code's name of the root directory.\<close>

fun linked :: "fat32 \<Rightarrow> nat list \<Rightarrow> bool" where
  "linked st [] \<longleftrightarrow> False"
| "linked st [c] \<longleftrightarrow> usable st (real_cluster st c) \<and> is_end_of_chain (fat32_get_entry (real_cluster st c) st)"
| "linked st (c # d # cs) \<longleftrightarrow> usable st (real_cluster st c) \<and> 2 \<le> d \<and> fat32_get_entry (real_cluster st c) st = d \<and> linked st (d # cs)"

lemma not_end: "c < FAT32_EOC \<Longrightarrow> \<not> is_end_of_chain c"
  by (simp add: is_end_of_chain_def)

lemma end_EOC [simp]: "is_end_of_chain FAT32_EOC"
  by (simp add: is_end_of_chain_def)

lemma real_ge2: "2 \<le> c \<Longrightarrow> real_cluster st c = c"
  by (simp add: real_cluster_def)

lemma linked_usable: "linked st cs \<Longrightarrow> c \<in> set cs \<Longrightarrow> usable st (real_cluster st c)"
  by (induction st cs rule: linked.induct) auto

lemma linked_tl_ge2: "linked st cs \<Longrightarrow> d \<in> set (tl cs) \<Longrightarrow> 2 \<le> d"
  by (induction st cs rule: linked.induct) auto

lemma linked_nonzero: "linked st cs \<Longrightarrow> c \<in> set cs \<Longrightarrow> fat32_get_entry (real_cluster st c) st \<noteq> 0"
  by (induction st cs rule: linked.induct) (auto simp: is_end_of_chain_def)

lemma linked_cong:
  assumes "linked st cs" "fixed st st1" "\<And>c. c \<in> set cs \<Longrightarrow> fat32_get_entry (real_cluster st c) st1 = fat32_get_entry (real_cluster st c) st"
  shows "linked st1 cs"
  using assms(1,3) by (induction cs rule: induct_list012) (simp_all add: fixed_derived(1,2) [OF assms(2)])

lemma linked_snoc:
  assumes "linked st cs" "usable st c" "fixed st st1"
    "fat32_get_entry (real_cluster st (last cs)) st1 = c" "fat32_get_entry c st1 = FAT32_EOC"
    "\<And>d. d \<in> set (butlast cs) \<Longrightarrow> fat32_get_entry (real_cluster st d) st1 = fat32_get_entry (real_cluster st d) st"
  shows "linked st1 (cs @ [c])"
proof -
  have c: "2 \<le> c" using assms(2) by (simp add: usable_def)
  have "usable st1 (real_cluster st1 c)" "fat32_get_entry (real_cluster st1 c) st1 = FAT32_EOC"
    using assms(2,5) fixed_derived(1) [OF assms(3)] real_ge2 [OF c] by simp_all
  then show ?thesis using assms(1,4,6) c
    by (induction cs rule: induct_list012) (simp_all add: fixed_derived(1,2) [OF assms(3)] split: if_splits)
qed

definition file_data :: "fat32 \<Rightarrow> nat list \<Rightarrow> u8 list" where
  "file_data st cs = concat (map (cluster_data st) cs)"

section \<open>Releasing a chain\<close>

lemma free_from_chain:
  assumes "geom_ok st" "linked st cs" "distinct cs" "length cs \<le> n" "2 \<le> hd cs"
  shows "\<exists>e st1. free_from n (hd cs) st = (e, st1) \<and> is_end_of_chain e \<and> length (f_fat st) \<le> e \<and> fixed st st1 \<and> geom_ok st1 \<and> f_drive st1 = f_drive st \<and>
    km_heap st1 = km_heap st \<and> (\<forall>d. fat32_get_entry d st1 = (if d \<in> set cs then 0 else fat32_get_entry d st))"
  using assms
proof (induction cs arbitrary: n st)
  case (Cons c cs)
  have c: "2 \<le> c" using Cons.prems(5) by simp
  then have c: "2 \<le> c" "usable st c" "c < FAT32_EOC"
    using linked_usable [OF Cons.prems(2), of c] usable_bounds [OF Cons.prems(1), of c] by (simp_all add: real_ge2)
  then have len: "c < length (f_fat st)" by (simp add: usable_def)
  obtain m where n: "n = Suc m" using Cons.prems(4) by (cases n) auto
  define s1 where "s1 = fat32_set_entry c 0 st"
  have g: "fat32_get_entry d s1 = (if d = c then 0 else fat32_get_entry d st)" for d using len by (simp add: s1_def get_set_entry)
  have ok: "geom_ok s1" "fixed st s1" "f_drive s1 = f_drive st" "km_heap s1 = km_heap st"
    using geom_ok_set [OF Cons.prems(1) c(2)] set_entry_fixed by (simp_all add: s1_def)
  have step: "free_from n (hd (c # cs)) st = free_from m (fat32_get_entry c st) s1" using c not_end by (simp add: n s1_def)
  show ?case
  proof (cases cs)
    case Nil
    then have e: "is_end_of_chain (fat32_get_entry c st)" using Cons.prems(2) c(1) by (simp add: real_ge2)
    then have "FAT32_EOC \<le> fat32_get_entry c st" unfolding is_end_of_chain_def using mod_less_eq_dividend order_trans by blast
    then have "length (f_fat st) \<le> fat32_get_entry c st" using geom_okD(3) [OF Cons.prems(1)] by simp
    moreover have "free_from n (hd (c # cs)) st = (fat32_get_entry c st, s1)" unfolding step using e by (cases m) simp_all
    moreover have "\<forall>d. fat32_get_entry d s1 = (if d \<in> set (c # cs) then 0 else fat32_get_entry d st)" by (simp add: Nil g)
    ultimately show ?thesis using e ok by blast
  next
    case (Cons d ds)
    have l: "linked s1 cs"
    proof (rule linked_cong [OF _ ok(2)])
      show "linked st cs" using Cons Cons.prems(2) by simp
      fix x assume "x \<in> set cs"
      then show "fat32_get_entry (real_cluster st x) s1 = fat32_get_entry (real_cluster st x) st"
        using linked_tl_ge2 [OF Cons.prems(2), of x] Cons.prems(3) by (auto simp: g real_ge2)
    qed
    have h: "fat32_get_entry c st = hd cs" "2 \<le> hd cs" using Cons Cons.prems(2) c(1) by (simp_all add: real_ge2)
    obtain e st1 where r: "free_from m (hd cs) s1 = (e, st1)" "is_end_of_chain e" "length (f_fat s1) \<le> e" "fixed s1 st1" "geom_ok st1"
      "f_drive st1 = f_drive s1" "km_heap st1 = km_heap s1" "\<And>d. fat32_get_entry d st1 = (if d \<in> set cs then 0 else fat32_get_entry d s1)"
    proof -
      have "distinct cs" "length cs \<le> m" using Cons.prems(3,4) n by simp_all
      from Cons.IH [OF ok(1) l this h(2)] show thesis using that by blast
    qed
    have fx: "fixed st st1" by (rule fixed_trans [OF ok(2) r(4)])
    have "\<forall>d. fat32_get_entry d st1 = (if d \<in> set (c # cs) then 0 else fat32_get_entry d st)" by (simp add: r(8) g)
    moreover have "free_from n (hd (c # cs)) st = (e, st1)" unfolding step h(1) by (rule r(1))
    moreover have "length (f_fat st) \<le> e" "f_drive st1 = f_drive st" "km_heap st1 = km_heap st"
      using r(3,6,7) ok(3,4) fixed_fields(10) [OF ok(2)] by simp_all
    ultimately show ?thesis using r(2,5) fx by blast
  qed
qed simp

lemma linked_length:
  assumes "linked st cs" "distinct cs" "2 \<le> hd cs"
  shows "length cs \<le> total_clusters_count st"
proof -
  have "2 \<le> c \<and> c < total_clusters_count st + 2" if "c \<in> set cs" for c
  proof -
    have "2 \<le> c" using linked_tl_ge2 [OF assms(1), of c] assms(3) that by (cases cs) auto
    then show ?thesis using linked_usable [OF assms(1) that] by (simp add: usable_def real_ge2)
  qed
  then have "set cs \<subseteq> {2..<total_clusters_count st + 2}" by auto
  then have "card (set cs) \<le> card {2..<total_clusters_count st + 2}" by (intro card_mono) auto
  then show ?thesis using distinct_card [OF assms(2)] by simp
qed

lemma free_chain_correct:
  assumes "geom_ok st" "linked st cs" "distinct cs" "2 \<le> hd cs"
  shows "fixed st (fat32_free_chain (hd cs) st)" "geom_ok (fat32_free_chain (hd cs) st)" "f_drive (fat32_free_chain (hd cs) st) = f_drive st"
    "km_heap (fat32_free_chain (hd cs) st) = km_heap st"
    "fat32_get_entry d (fat32_free_chain (hd cs) st) = (if d \<in> set cs then 0 else fat32_get_entry d st)"
proof -
  have n: "u32_add (total_clusters_count st) 2 = total_clusters_count st + 2" using geom_okD(5) [OF assms(1)] by (simp add: u32_add_def)
  obtain e st1 where r: "free_from (total_clusters_count st + 2) (hd cs) st = (e, st1)" "length (f_fat st) \<le> e" "fixed st st1" "geom_ok st1"
    "f_drive st1 = f_drive st" "km_heap st1 = km_heap st" "\<And>d. fat32_get_entry d st1 = (if d \<in> set cs then 0 else fat32_get_entry d st)"
    using free_from_chain [OF assms(1-3) _ assms(4), of "total_clusters_count st + 2"] linked_length [OF assms(2-4)] by auto
  have "fat32_free_chain (hd cs) st = st1" using r(1,2) fixed_fields(10) [OF r(3)] by (simp add: fat32_free_chain_def n fat32_set_entry_def)
  then show "fixed st (fat32_free_chain (hd cs) st)" "geom_ok (fat32_free_chain (hd cs) st)" "f_drive (fat32_free_chain (hd cs) st) = f_drive st"
    "km_heap (fat32_free_chain (hd cs) st) = km_heap st"
    "fat32_get_entry d (fat32_free_chain (hd cs) st) = (if d \<in> set cs then 0 else fat32_get_entry d st)" using r by simp_all
qed

section \<open>Writing a chain\<close>

text \<open>The pieces of a file, the last one padded with zeros.\<close>

function pieces :: "nat \<Rightarrow> u8 list \<Rightarrow> u8 list list" where
  "pieces n data = (if data = [] \<or> n = 0 then [] else (take n data @ zeros (n - length data)) # pieces n (drop n data))"
  by pat_completeness auto
termination by (relation "measure (\<lambda>(n, data). length data)") auto

declare pieces.simps [simp del]

text \<open>What a successful \<open>write_chain\<close> has done: the clusters \<open>fs\<close> were free and now form a chain that holds
  the data; an earlier last cluster is linked to it; everything else is as before.\<close>

definition wrote :: "u8 list \<Rightarrow> nat \<Rightarrow> nat \<Rightarrow> nat list \<Rightarrow> fat32 \<Rightarrow> fat32 \<Rightarrow> bool" where
  "wrote data start lst fs st st1 \<longleftrightarrow> fixed st st1 \<and> geom_ok st1 \<and> km_heap st1 = km_heap st \<and> distinct fs \<and>
     (\<forall>c \<in> set fs. usable st c \<and> fat32_get_entry c st = 0) \<and> (fs \<noteq> [] \<longrightarrow> linked st1 fs) \<and>
     map (cluster_data st1) fs = pieces (bytes_per_cluster st) data \<and>
     (\<forall>c. c \<notin> set fs \<and> (start = 0 \<or> c \<noteq> lst) \<longrightarrow> fat32_get_entry c st1 = fat32_get_entry c st) \<and>
     (start \<noteq> 0 \<and> lst \<notin> set fs \<longrightarrow> fat32_get_entry lst st1 = (if fs = [] then fat32_get_entry lst st else hd fs)) \<and>
     (\<forall>c. 2 \<le> c \<and> c \<notin> set fs \<longrightarrow> cluster_data st1 c = cluster_data st c)"

lemma wroteD:
  assumes "wrote data start lst fs st st1"
  shows "fixed st st1" "geom_ok st1" "km_heap st1 = km_heap st" "distinct fs" "\<And>c. c \<in> set fs \<Longrightarrow> usable st c"
    "\<And>c. c \<in> set fs \<Longrightarrow> fat32_get_entry c st = 0" "fs \<noteq> [] \<Longrightarrow> linked st1 fs" "map (cluster_data st1) fs = pieces (bytes_per_cluster st) data"
    "\<And>c. c \<notin> set fs \<Longrightarrow> start = 0 \<or> c \<noteq> lst \<Longrightarrow> fat32_get_entry c st1 = fat32_get_entry c st"
    "start \<noteq> 0 \<Longrightarrow> lst \<notin> set fs \<Longrightarrow> fat32_get_entry lst st1 = (if fs = [] then fat32_get_entry lst st else hd fs)"
    "\<And>c. 2 \<le> c \<Longrightarrow> c \<notin> set fs \<Longrightarrow> cluster_data st1 c = cluster_data st c"
  using assms unfolding wrote_def by blast+

lemma wrote_Nil: "geom_ok st \<Longrightarrow> wrote [] start lst [] st st"
  by (simp add: wrote_def pieces.simps)

text \<open>One cluster of a chain that is being written.\<close>

definition append_cluster :: "nat \<Rightarrow> nat \<Rightarrow> nat \<Rightarrow> u8 list \<Rightarrow> fat32 \<Rightarrow> fat32" where
  "append_cluster start lst c buf st =
     put_cluster c buf (fat32_set_entry c FAT32_EOC (if start = 0 then fat32_set_entry c FAT32_EOC st else fat32_set_entry lst c (fat32_set_entry c FAT32_EOC st)))"

lemma append_cluster_effect:
  assumes "geom_ok st" "usable st c" "start \<noteq> 0 \<longrightarrow> usable st lst \<and> lst \<noteq> c" "length buf = bytes_per_cluster st"
  shows "fixed st (append_cluster start lst c buf st)" "geom_ok (append_cluster start lst c buf st)" "km_heap (append_cluster start lst c buf st) = km_heap st"
    "fat32_get_entry d (append_cluster start lst c buf st) = (if d = c then FAT32_EOC else if start \<noteq> 0 \<and> d = lst then c else fat32_get_entry d st)"
    "cluster_data (append_cluster start lst c buf st) c = buf" "2 \<le> d \<Longrightarrow> d \<noteq> c \<Longrightarrow> cluster_data (append_cluster start lst c buf st) d = cluster_data st d"
proof -
  define s1 where "s1 = fat32_set_entry c FAT32_EOC st"
  define s2 where "s2 = (if start = 0 then s1 else fat32_set_entry lst c s1)"
  define s3 where "s3 = fat32_set_entry c FAT32_EOC s2"
  have a: "append_cluster start lst c buf st = put_cluster c buf s3" by (simp add: append_cluster_def s1_def s2_def s3_def)
  have 1: "fixed st s1" "geom_ok s1" "f_drive s1 = f_drive st" "km_heap s1 = km_heap st"
    using geom_ok_set [OF assms(1,2), of FAT32_EOC] by (simp_all add: s1_def set_entry_fixed)
  have c28: "c < 2 ^ 28" using usable_bounds [OF assms(1,2)] by simp
  have l1: "start \<noteq> 0 \<Longrightarrow> usable s1 lst" using assms(3) fixed_derived(1) [OF 1(1)] by simp
  have 2: "fixed s1 s2" "geom_ok s2" "f_drive s2 = f_drive st" "km_heap s2 = km_heap st"
    using geom_ok_set [OF 1(2) l1 c28] 1 by (simp_all add: s2_def set_entry_fixed)
  have f2: "fixed st s2" using fixed_trans [OF 1(1) 2(1)] .
  have u2: "usable s2 c" using assms(2) fixed_derived(1) [OF f2] by simp
  have 3: "fixed s2 s3" "geom_ok s3" "f_drive s3 = f_drive st" "km_heap s3 = km_heap st"
    using geom_ok_set [OF 2(2) u2, of FAT32_EOC] 2 by (simp_all add: s3_def set_entry_fixed)
  have f3: "fixed st s3" using fixed_trans [OF f2 3(1)] .
  have u3: "usable s3 c" "length buf = bytes_per_cluster s3" using assms(2,4) fixed_derived(1) [OF f3] fixed_fields(4) [OF f3] by simp_all
  have len: "c < length (f_fat st)" "start \<noteq> 0 \<Longrightarrow> lst < length (f_fat st)" using assms(2,3) by (simp_all add: usable_def)
  show "fixed st (append_cluster start lst c buf st)" unfolding a using fixed_trans [OF f3 put_cluster_fixed(1)] .
  show "geom_ok (append_cluster start lst c buf st)" unfolding a by (rule put_cluster_ok [OF 3(2) u3(2)])
  show "km_heap (append_cluster start lst c buf st) = km_heap st" unfolding a by (simp add: put_cluster_fixed 3)
  have g1: "fat32_get_entry d s1 = (if d = c then FAT32_EOC else fat32_get_entry d st)" using len by (simp add: s1_def get_set_entry)
  have g2: "fat32_get_entry d s2 = (if start \<noteq> 0 \<and> d = lst then c else fat32_get_entry d s1)"
    using len(2) c28 fixed_fields(10) [OF 1(1)] by (simp add: s2_def get_set_entry)
  have g3: "fat32_get_entry d s3 = (if d = c then FAT32_EOC else fat32_get_entry d s2)"
    using len(1) fixed_fields(10) [OF f2] by (simp add: s3_def get_set_entry)
  show "fat32_get_entry d (append_cluster start lst c buf st) = (if d = c then FAT32_EOC else if start \<noteq> 0 \<and> d = lst then c else fat32_get_entry d st)"
    unfolding a get_put_cluster g3 g2 g1 by simp
  show "cluster_data (append_cluster start lst c buf st) c = buf" unfolding a by (rule put_cluster_data(1) [OF 3(2) u3])
  show "cluster_data (append_cluster start lst c buf st) d = cluster_data st d" if "2 \<le> d" "d \<noteq> c"
    unfolding a using put_cluster_data(2) [OF 3(2) u3 that] cluster_data_fat [OF f3 3(3)] by simp
qed

lemma wrote_Cons:
  assumes "geom_ok st" "usable st c" "fat32_get_entry c st = 0" "start \<noteq> 0 \<longrightarrow> usable st lst \<and> fat32_get_entry lst st \<noteq> 0" "data \<noteq> []"
    and buf: "buf = take (bytes_per_cluster st) data @ zeros (bytes_per_cluster st - length data)"
    and w: "wrote (drop (bytes_per_cluster st) data) start1 c fs (append_cluster start lst c buf st) st1" and s1: "start1 \<noteq> 0"
  shows "wrote data start lst (c # fs) st st1"
proof -
  let ?n = "bytes_per_cluster st" and ?a = "append_cluster start lst c buf st"
  note W = wroteD [OF w]
  have n0: "0 < ?n" using geom_okD(1,2) [OF assms(1)] by simp
  have lb: "length buf = ?n" by (simp add: buf)
  have lc: "start \<noteq> 0 \<longrightarrow> usable st lst \<and> lst \<noteq> c" using assms(3,4) by auto
  note A = append_cluster_effect [OF assms(1,2) lc lb]
  have c2: "2 \<le> c" using assms(2) by (simp add: usable_def)
  have cfs: "c \<notin> set fs" using W(6) [of c] A(4) [of c] by auto
  have free: "usable st x \<and> fat32_get_entry x st = 0" if "x \<in> set fs" for x
  proof -
    have u: "usable st x" using W(5) [OF that] fixed_derived(1) [OF A(1)] by simp
    have z: "(if x = c then FAT32_EOC else if start \<noteq> 0 \<and> x = lst then c else fat32_get_entry x st) = 0" using W(6) [OF that] A(4) [of x] by simp
    show ?thesis using u z c2 by (simp split: if_splits)
  qed
  have link: "linked st1 (c # fs)"
  proof (cases fs)
    case Nil
    then have "fat32_get_entry c st1 = FAT32_EOC" using W(10) [OF s1 cfs] A(4) [of c] by simp
    then show ?thesis using Nil assms(2) c2 fixed_derived(1) [OF fixed_trans [OF A(1) W(1)]] by (simp add: real_ge2)
  next
    case (Cons d ds)
    then have "fat32_get_entry c st1 = d" using W(10) [OF s1 cfs] by simp
    moreover have "2 \<le> d" using free [of d] Cons by (simp add: usable_def)
    moreover have "linked st1 (d # ds)" using W(7) Cons by simp
    ultimately show ?thesis using Cons assms(2) c2 fixed_derived(1) [OF fixed_trans [OF A(1) W(1)]] by (simp add: real_ge2)
  qed
  show ?thesis unfolding wrote_def
  proof (intro conjI allI impI ballI)
    show "fixed st st1" using fixed_trans [OF A(1) W(1)] .
    show "geom_ok st1" by (rule W(2))
    show "km_heap st1 = km_heap st" using W(3) A(3) by simp
    show "distinct (c # fs)" using W(4) cfs by simp
    show "usable st x" if "x \<in> set (c # fs)" for x using that free assms(2) by auto
    show "fat32_get_entry x st = 0" if "x \<in> set (c # fs)" for x using that free assms(3) by auto
    show "linked st1 (c # fs)" by (rule link)
    show "map (cluster_data st1) (c # fs) = pieces ?n data"
      using W(8) W(11) [of c] A(5) cfs c2 n0 assms(5) fixed_fields(4) [OF A(1)] by (subst pieces.simps) (simp add: buf [symmetric])
    show "fat32_get_entry x st1 = fat32_get_entry x st" if "x \<notin> set (c # fs) \<and> (start = 0 \<or> x \<noteq> lst)" for x
      using that W(9) [of x] A(4) [of x] by auto
    show "fat32_get_entry lst st1 = (if c # fs = [] then fat32_get_entry lst st else hd (c # fs))" if "start \<noteq> 0 \<and> lst \<notin> set (c # fs)"
      using that W(9) [of lst] A(4) [of lst] by auto
    show "cluster_data st1 x = cluster_data st x" if "2 \<le> x \<and> x \<notin> set (c # fs)" for x
      using that W(11) [of x] A(6) [of x] by auto
  qed
qed

text \<open>One round of the loop, when a cluster is free.\<close>

lemma write_chain_step:
  assumes "geom_ok st" "usable st c" "fat32_get_entry c st = 0" "fat32_alloc_cluster st = (c, fat32_set_entry c FAT32_EOC st)"
    "start \<noteq> 0 \<longrightarrow> usable st lst \<and> fat32_get_entry lst st \<noteq> 0" "data \<noteq> []"
    and buf: "buf = take (bytes_per_cluster st) data @ zeros (bytes_per_cluster st - length data)"
  shows "write_chain data start lst st =
    write_chain (drop (bytes_per_cluster st) data) (if start = 0 then c else start) c (append_cluster start lst c buf st)"
proof -
  let ?n = "bytes_per_cluster st" and ?s = "fat32_set_entry c FAT32_EOC st"
  define s2 where "s2 = fat32_set_entry c FAT32_EOC (if start = 0 then ?s else fat32_set_entry lst c ?s)"
  have c: "c \<noteq> 0" "c < 2 ^ 28" using assms(2) usable_bounds [OF assms(1,2)] by (simp_all add: usable_def)
  have p: "append_cluster start lst c buf st = put_cluster c buf s2" by (simp add: append_cluster_def s2_def)
  have 1: "geom_ok ?s" "fixed st ?s" using geom_ok_set [OF assms(1,2)] by (simp_all add: set_entry_fixed)
  have 2: "geom_ok (if start = 0 then ?s else fat32_set_entry lst c ?s)" "fixed st (if start = 0 then ?s else fat32_set_entry lst c ?s)"
    using 1 c(2) geom_ok_set [OF 1(1), of lst c] assms(5) fixed_derived(1) [OF 1(2)] fixed_trans [OF 1(2) set_entry_fixed(1)] by simp_all
  have s2: "geom_ok s2" "fixed st s2" unfolding s2_def
    using geom_ok_set [OF 2(1)] assms(2) fixed_derived(1) [OF 2(2)] fixed_trans [OF 2(2) set_entry_fixed(1)] by simp_all
  have m: "take (min (length data) ?n) data = take ?n data" "drop (min (length data) ?n) data = drop ?n data" "?n - min (length data) ?n = ?n - length data"
    by (simp_all add: min_def)
  have w: "fat_write (cluster_to_lba s2 c) (spc s2) buf s2 = (True, put_cluster c buf s2)"
    using write_cluster [OF s2(1)] assms(2) fixed_derived(1) [OF s2(2)] by simp
  show ?thesis unfolding p
    by (subst write_chain.simps)
      (use assms(6) c(1) w in \<open>simp add: assms(4) s2_def [symmetric] fixed_fields(4) [OF s2(2)] m buf [symmetric] Let_def\<close>)
qed

lemma write_chain_correct:
  assumes "geom_ok st" "start \<noteq> 0 \<longrightarrow> usable st lst \<and> fat32_get_entry lst st \<noteq> 0" "write_chain data start lst st = Some (Some first, st1)"
  shows "\<exists>fs. wrote data start lst fs st st1 \<and> first = (if start \<noteq> 0 \<or> fs = [] then start else hd fs)"
  using assms
proof (induction data arbitrary: start lst st rule: length_induct)
  case (1 data)
  let ?n = "bytes_per_cluster st"
  show ?case
  proof (cases "data = []")
    case True
    then have "first = start" "st1 = st" using "1.prems"(3) by (simp_all add: write_chain.simps [of "[]"])
    then show ?thesis using True wrote_Nil [OF "1.prems"(1)] by (intro exI [of _ "[]"]) simp
  next
    case False
    obtain c s where a: "fat32_alloc_cluster st = (c, s)" by (cases "fat32_alloc_cluster st")
    have "c \<noteq> 0" using "1.prems"(3) False a by (auto simp: write_chain.simps [of data] split: if_splits)
    then have c: "usable st c" "fat32_get_entry c st = 0" "s = fat32_set_entry c FAT32_EOC st" using alloc_cluster_cases [OF "1.prems"(1) a] by auto
    have n0: "0 < ?n" using geom_okD(1,2) [OF "1.prems"(1)] by simp
    define buf where "buf = take ?n data @ zeros (?n - length data)"
    define s3 where "s3 = append_cluster start lst c buf st"
    have lc: "start \<noteq> 0 \<longrightarrow> usable st lst \<and> lst \<noteq> c" using "1.prems"(2) c(2) by auto
    have lb: "length buf = ?n" by (simp add: buf_def)
    note A = append_cluster_effect [OF "1.prems"(1) c(1) lc lb, folded s3_def]
    have rec: "write_chain (drop ?n data) (if start = 0 then c else start) c s3 = Some (Some first, st1)"
      using write_chain_step [OF "1.prems"(1) c(1,2) a [unfolded c(3)] "1.prems"(2) False buf_def] "1.prems"(3) by (simp add: s3_def)
    have u3: "(if start = 0 then c else start) \<noteq> 0 \<longrightarrow> usable s3 c \<and> fat32_get_entry c s3 \<noteq> 0"
      using A(4) [of c] c(1) fixed_derived(1) [OF A(1)] by simp
    have shorter: "length (drop ?n data) < length data" using False n0 by simp
    note ih = "1.IH" [THEN spec, THEN mp, OF shorter, rule_format, OF A(2) _ rec]
    obtain fs where fs: "wrote (drop ?n data) (if start = 0 then c else start) c fs s3 st1" "first = (if start = 0 then c else start)"
      using ih u3 \<open>c \<noteq> 0\<close> by (auto split: if_splits)
    have "wrote data start lst (c # fs) st st1"
      by (rule wrote_Cons [OF "1.prems"(1) c(1,2) "1.prems"(2) False buf_def fs(1) [unfolded s3_def]]) (use \<open>c \<noteq> 0\<close> in simp)
    then show ?thesis using fs(2) by (intro exI [of _ "c # fs"]) simp
  qed
qed

text \<open>With enough free clusters the loop ends with success.\<close>

definition vacant :: "fat32 \<Rightarrow> nat set" where
  "vacant st = {c. usable st c \<and> fat32_get_entry c st = 0}"

lemma finite_free [simp]: "finite (vacant st)"
  by (rule finite_subset [of _ "{..<length (f_fat st)}"]) (auto simp: vacant_def usable_def)

lemma alloc_finds:
  assumes "geom_ok st" "vacant st \<noteq> {}"
  shows "\<exists>c \<in> vacant st. fat32_alloc_cluster st = (c, fat32_set_entry c FAT32_EOC st)"
proof -
  obtain d where d: "usable st d" "fat32_get_entry d st = 0" using assms(2) by (auto simp: vacant_def)
  then have "d \<in> set [2..<length (f_fat st)]" "f_fat st ! d AND FAT32_MASK = 0" by (simp_all add: usable_def fat32_get_entry_def unat_eq_zero)
  then have "List.find (\<lambda>c. f_fat st ! c AND FAT32_MASK = 0) [2..<length (f_fat st)] \<noteq> None" unfolding find_None_iff by blast
  then obtain c where "fst (fat32_alloc_cluster st) = c" "2 \<le> c" using find_SomeD by (fastforce simp: fat32_alloc_cluster_def)
  then show ?thesis using alloc_cluster_cases [OF assms(1), of c "snd (fat32_alloc_cluster st)"] by (auto simp: vacant_def prod_eq_iff)
qed

lemma vacant_append:
  assumes "geom_ok st" "c \<in> vacant st" "start \<noteq> 0 \<longrightarrow> usable st lst \<and> lst \<notin> vacant st" "length buf = bytes_per_cluster st"
  shows "vacant (append_cluster start lst c buf st) = vacant st - {c}"
proof -
  have c: "usable st c" "2 \<le> c" using assms(2) by (auto simp: vacant_def usable_def)
  have lc: "start \<noteq> 0 \<longrightarrow> usable st lst \<and> lst \<noteq> c" using assms(2,3) by auto
  note A = append_cluster_effect [OF assms(1) c(1) lc assms(4)]
  show ?thesis using fixed_derived(1) [OF A(1)] A(4) c(2) assms(3) by (auto simp: vacant_def)
qed

lemma write_chain_succeeds:
  assumes "geom_ok st" "start \<noteq> 0 \<longrightarrow> usable st lst \<and> fat32_get_entry lst st \<noteq> 0" "length (pieces (bytes_per_cluster st) data) \<le> card (vacant st)"
  shows "\<exists>first st1. write_chain data start lst st = Some (Some first, st1) \<and> card (vacant st1) + length (pieces (bytes_per_cluster st) data) = card (vacant st)"
  using assms
proof (induction data arbitrary: start lst st rule: length_induct)
  case (1 data)
  let ?n = "bytes_per_cluster st"
  have n0: "0 < ?n" using geom_okD(1,2) [OF "1.prems"(1)] by simp
  show ?case
  proof (cases "data = []")
    case True
    then show ?thesis by (simp add: write_chain.simps [of "[]"] pieces.simps)
  next
    case False
    then have pc: "length (pieces ?n data) = Suc (length (pieces ?n (drop ?n data)))" using n0 by (simp add: pieces.simps [of ?n data])
    then have "vacant st \<noteq> {}" using "1.prems"(3) by auto
    then obtain c where c: "c \<in> vacant st" "fat32_alloc_cluster st = (c, fat32_set_entry c FAT32_EOC st)" using alloc_finds [OF "1.prems"(1)] by blast
    then have u: "usable st c" "fat32_get_entry c st = 0" by (simp_all add: vacant_def)
    define buf where "buf = take ?n data @ zeros (?n - length data)"
    define s3 where "s3 = append_cluster start lst c buf st"
    have lc: "start \<noteq> 0 \<longrightarrow> usable st lst \<and> lst \<noteq> c" using "1.prems"(2) u(2) by auto
    have lb: "length buf = ?n" by (simp add: buf_def)
    note A = append_cluster_effect [OF "1.prems"(1) u(1) lc lb, folded s3_def]
    have "start \<noteq> 0 \<longrightarrow> usable st lst \<and> lst \<notin> vacant st" using "1.prems"(2) by (simp add: vacant_def)
    then have fs: "vacant s3 = vacant st - {c}" unfolding s3_def using vacant_append [OF "1.prems"(1) c(1) _ lb] by blast
    then have card: "card (vacant st) = Suc (card (vacant s3))" using card_Suc_Diff1 [OF finite_free c(1)] by simp
    have rec: "write_chain data start lst st = write_chain (drop ?n data) (if start = 0 then c else start) c s3"
      using write_chain_step [OF "1.prems"(1) u c(2) "1.prems"(2) False buf_def] by (simp add: s3_def)
    have u3: "(if start = 0 then c else start) \<noteq> 0 \<longrightarrow> usable s3 c \<and> fat32_get_entry c s3 \<noteq> 0" using A(4) [of c] u(1) fixed_derived(1) [OF A(1)] by simp
    have shorter: "length (drop ?n data) < length data" using False n0 by simp
    have le: "length (pieces (bytes_per_cluster s3) (drop ?n data)) \<le> card (vacant s3)" using "1.prems"(3) pc card fixed_fields(4) [OF A(1)] by simp
    note ih = "1.IH" [THEN spec, THEN mp, OF shorter, rule_format, OF A(2) _ le, of "if start = 0 then c else start" c]
    show ?thesis using ih u3 rec pc card fixed_fields(4) [OF A(1)] by auto
  qed
qed

section \<open>Reading a chain\<close>

lemma read_chain_correct:
  assumes "geom_ok st" "linked st cs" "2 \<le> hd cs" "n \<le> length cs * bytes_per_cluster st"
  shows "read_chain st (hd cs) n = Some (take n (file_data st cs))"
  using assms
proof (induction cs arbitrary: n rule: induct_list012)
  case (2 c)
  have u: "usable st c" "c < FAT32_EOC" "length (cluster_data st c) = bytes_per_cluster st"
    using linked_usable [OF "2.prems"(2), of c] "2.prems"(3) usable_bounds [OF "2.prems"(1)] length_cluster_data [OF "2.prems"(1)] by (simp_all add: real_ge2)
  have e: "read_chain st x 0 = Some []" for x by (subst read_chain.simps) simp
  show ?case
    by (subst read_chain.simps)
      (use u "2.prems" e not_end in \<open>simp add: read_cluster file_data_def min_def\<close>)
next
  case (3 c d cs)
  have u: "usable st c" "c < FAT32_EOC" "length (cluster_data st c) = bytes_per_cluster st"
    using linked_usable [OF "3.prems"(2), of c] "3.prems"(3) usable_bounds [OF "3.prems"(1)] length_cluster_data [OF "3.prems"(1)] by (simp_all add: real_ge2)
  have l: "linked st (d # cs)" "2 \<le> d" "fat32_get_entry c st = d" using "3.prems"(2,3) by (simp_all add: real_ge2)
  let ?b = "bytes_per_cluster st"
  have "n - min n ?b \<le> length (d # cs) * ?b" using "3.prems"(4) by (simp add: min_def) linarith
  then have ih: "read_chain st d (n - min n ?b) = Some (take (n - min n ?b) (file_data st (d # cs)))"
    using "3.IH"(2) [OF "3.prems"(1) l(1)] l(2) by simp
  show ?case
    by (subst read_chain.simps) (use u "3.prems"(1,3) l(3) ih not_end in \<open>simp add: read_cluster file_data_def min_def\<close>)
qed simp

lemma concat_pieces: "0 < n \<Longrightarrow> take (length data) (concat (pieces n data)) = data"
proof (induction n data rule: pieces.induct)
  case (1 n data)
  show ?case
  proof (cases "data = []")
    case False
    then show ?thesis using 1 by (cases "length data \<le> n") (simp_all add: pieces.simps [of n data] min_def zeros_def)
  qed simp
qed

lemma length_pieces: "0 < n \<Longrightarrow> length data \<le> length (pieces n data) * n"
proof (induction n data rule: pieces.induct)
  case (1 n data)
  show ?case
  proof (cases "data = []")
    case False
    then have "length (drop n data) \<le> length (pieces n (drop n data)) * n" using 1 by simp
    then show ?thesis using False "1.prems" by (simp add: pieces.simps [of n data])
  qed simp
qed

end
