(* ===== verification/Fat32_Dir.thy ===== *)
theory Fat32_Dir
  imports Fat32_Chain
begin

text \<open>
  Directories of a FAT32 volume as lists of slots: the walks of the driver are walks over these
  lists, and its changes are changes of one slot.
\<close>

section \<open>Slots\<close>

definition slot_entry :: "fat32 \<Rightarrow> nat \<times> nat \<Rightarrow> u8 list" where
  "slot_entry st p = take 32 (drop (32 * snd p) (cluster_data st (real_cluster st (fst p))))"

definition positions :: "nat \<Rightarrow> nat list \<Rightarrow> (nat \<times> nat) list" where
  "positions epc cs = concat (map (\<lambda>c. map (Pair c) [0..<epc]) cs)"

abbreviation slots_of :: "fat32 \<Rightarrow> nat list \<Rightarrow> (nat \<times> nat) list" where
  "slots_of st cs \<equiv> positions (dir_entries_per_cluster st) cs"

lemma positions_simps [simp]: "positions epc [] = []" "positions epc (c # cs) = map (Pair c) [0..<epc] @ positions epc cs"
  "positions epc (cs @ ds) = positions epc cs @ positions epc ds"
  by (simp_all add: positions_def)

lemma set_positions: "set (positions epc cs) = {(c, i). c \<in> set cs \<and> i < epc}"
  by (auto simp: positions_def)

lemma distinct_positions: "distinct cs \<Longrightarrow> distinct (positions epc cs)"
  by (induction cs) (auto simp: distinct_map inj_on_def set_positions)

lemma slot_entry_heap [simp]: "slot_entry (st\<lparr>km_heap := h\<rparr>) = slot_entry st"
  by (simp add: fun_eq_iff slot_entry_def)

lemma linked_heap [simp]: "linked (st\<lparr>km_heap := h\<rparr>) cs = linked st cs"
  by (induction cs rule: induct_list012) simp_all

lemma entries_nth: "i < epc \<Longrightarrow> entries_of epc (cluster_data st (real_cluster st c)) ! i = slot_entry st (c, i)"
  by (simp add: entries_of_def slot_entry_def)

lemma length_entries [simp]: "length (entries_of epc buf) = epc"
  by (simp add: entries_of_def)

section \<open>The walk with long names\<close>

fun scan :: "(u8 list \<Rightarrow> nat \<Rightarrow> nat \<Rightarrow> string \<Rightarrow> 'c \<Rightarrow> int \<times> 'c) \<Rightarrow> (nat \<times> nat \<Rightarrow> u8 list) \<Rightarrow> (nat \<times> nat) list \<Rightarrow>
    u8 list list \<times> 'c \<Rightarrow> int option \<times> u8 list list \<times> 'c" where
  "scan cb ent [] a = (None, a)"
| "scan cb ent (p # ps) (segs, ctx) =
     (if ent p ! 0 = 0 then (Some 0, segs, ctx)
      else if ent p ! 0 = 0xE5 then scan cb ent ps ([], ctx)
      else if fe_attr (ent p) = ATTR_LFN then scan cb ent ps ((if length segs < LFN_MAX_SEGS then segs @ [ent p] else segs), ctx)
      else let (r, ctx1) = cb (ent p) (fst p) (snd p) (if segs = [] then [] else lfn_reconstruct segs 256) ctx
           in if r \<noteq> 0 then (Some r, [], ctx1) else scan cb ent ps ([], ctx1))"

lemma each_entry_scan:
  "(\<And>j. j < length es \<Longrightarrow> es ! j = ent (ch, k + j)) \<Longrightarrow> each_entry_lfn cb ch k es a = scan cb ent (map (Pair ch) [k..<k + length es]) a"
proof (induction es arbitrary: k a)
  case (Cons e es)
  obtain segs ctx where a: "a = (segs, ctx)" by (cases a)
  have e: "e = ent (ch, k)" using Cons.prems [of 0] by simp
  have "es ! j = ent (ch, k + 1 + j)" if "j < length es" for j using Cons.prems [of "Suc j"] that by simp
  then have ih: "each_entry_lfn cb ch (k + 1) es b = scan cb ent (map (Pair ch) [k + 1..<k + 1 + length es]) b" for b by (rule Cons.IH)
  have u: "[k..<k + length (e # es)] = k # [k + 1..<k + 1 + length es]" by (simp add: upt_conv_Cons del: upt_Suc)
  show ?case unfolding u by (simp add: a e ih [unfolded Suc_eq_plus1 [symmetric]] Let_def split: prod.split del: upt_Suc)
next
  case Nil
  then show ?case by (cases a) simp
qed

lemma scan_append: "scan cb ent (ps @ qs) a = (case scan cb ent ps a of (None, b) \<Rightarrow> scan cb ent qs b | (Some r, b) \<Rightarrow> (Some r, b))"
  by (induction cb ent ps a rule: scan.induct) (simp_all add: Let_def split: prod.split)

lemma scan_cong: "(\<And>p. p \<in> set ps \<Longrightarrow> ent p = ent1 p) \<Longrightarrow> scan cb ent ps a = scan cb ent1 ps a"
  by (induction cb ent ps a rule: scan.induct) (simp_all add: Let_def split: prod.split)

lemma read_chunk: "geom_ok st \<Longrightarrow> usable st (real_cluster st c) \<Longrightarrow> dir_read_chunk c st = Some (cluster_data st (real_cluster st c))"
  by (simp add: dir_read_chunk_def read_cluster)

lemma each_chunk_scan:
  fixes cb :: "u8 list \<Rightarrow> nat \<Rightarrow> nat \<Rightarrow> string \<Rightarrow> 'c \<Rightarrow> int \<times> 'c"
  assumes "geom_ok st" "linked st cs"
  defines "f \<equiv> (\<lambda>chunk buf c st1. (each_entry_lfn cb chunk 0 (entries_of (dir_entries_per_cluster st1) buf) c, st1))"
  shows "\<exists>k. each_chunk f (hd cs) a st = Some ((fst (scan cb (slot_entry st) (slots_of st cs) a), k, snd (scan cb (slot_entry st) (slots_of st cs) a)), st)"
  using assms(2)
proof (induction cs arbitrary: a rule: induct_list012)
  case (2 c)
  have e: "each_entry_lfn cb c 0 (entries_of (dir_entries_per_cluster st) (cluster_data st (real_cluster st c))) a =
      scan cb (slot_entry st) (map (Pair c) [0..<dir_entries_per_cluster st]) a"
    by (subst each_entry_scan [where ent = "slot_entry st"]) (simp_all add: entries_nth)
  show ?case using 2 read_chunk [OF assms(1), of c] e
    by (subst each_chunk.simps) (auto simp: f_def Let_def split: prod.split option.split)
next
  case (3 c d cs)
  have e: "each_entry_lfn cb c 0 (entries_of (dir_entries_per_cluster st) (cluster_data st (real_cluster st c))) a =
      scan cb (slot_entry st) (map (Pair c) [0..<dir_entries_per_cluster st]) a"
    by (subst each_entry_scan [where ent = "slot_entry st"]) (simp_all add: entries_nth)
  have l: "linked st (d # cs)" "usable st (real_cluster st c)" "fat32_get_entry (real_cluster st c) st = d" "2 \<le> d" using "3.prems" by simp_all
  have "\<not> is_end_of_chain d" using linked_usable [OF l(1), of d] l(4) usable_bounds [OF assms(1)] not_end by (simp add: real_ge2)
  then show ?case using l "3.IH"(2) [OF l(1)] read_chunk [OF assms(1) l(2)] e
    by (subst each_chunk.simps) (cases "scan cb (slot_entry st) (map (Pair c) [0..<dir_entries_per_cluster st]) a",
        auto simp: f_def Let_def scan_append split: option.split)
qed simp

section \<open>Buffers\<close>

definition bufs :: "fat32 \<Rightarrow> bool" where
  "bufs st \<longleftrightarrow> buffer_room (bytes_per_cluster st) 640 (km_heap st)"

lemma with_buffer_once:
  assumes "bufs st"
  shows "\<exists>h1 h2. \<forall>e r st1. body (st\<lparr>km_heap := h1\<rparr>) = Some (r, st1) \<longrightarrow> km_heap st1 = h1 \<longrightarrow> bytes_per_cluster st1 = bytes_per_cluster st \<longrightarrow>
    with_buffer (bytes_per_cluster st) e body st = Some (r, st1\<lparr>km_heap := h2\<rparr>) \<and> bufs (st1\<lparr>km_heap := h2\<rparr>)"
proof -
  obtain h1 h4 where h: "buffer_room (bytes_per_cluster st) 640 h4" "\<And>e r st1. body (st\<lparr>km_heap := h1\<rparr>) = Some (r, st1) \<Longrightarrow> km_heap st1 = h1 \<Longrightarrow>
    with_buffer (bytes_per_cluster st) e body st = Some (r, st1\<lparr>km_heap := h4\<rparr>)" using with_buffer_room [OF assms [unfolded bufs_def], of body] by blast
  show ?thesis by (rule exI [of _ h1], rule exI [of _ h4]) (use h in \<open>simp add: bufs_def\<close>)
qed

lemma with_buffer_twice:
  assumes "bufs st"
  shows "\<exists>h2 h4. bufs (st\<lparr>km_heap := h4\<rparr>) \<and> (\<forall>r. body (st\<lparr>km_heap := h2\<rparr>) = Some (r, st\<lparr>km_heap := h2\<rparr>) \<longrightarrow>
    with_buffer (bytes_per_cluster st) e1 (with_buffer 640 e2 body) st = Some (r, st\<lparr>km_heap := h4\<rparr>))"
proof -
  obtain p h1 q h2 h3 h4 where h: "kmalloc (km_heap st) (bytes_per_cluster st) = Some (p, h1)" "p \<noteq> 0" "kmalloc h1 640 = Some (q, h2)" "q \<noteq> 0"
    "kfree h2 q = Some h3" "kfree h3 p = Some h4" "buffer_room (bytes_per_cluster st) 640 h4"
    using buffer_room_nested assms unfolding bufs_def by blast
  show ?thesis by (rule exI [of _ h2], rule exI [of _ h4]) (use h in \<open>simp add: with_buffer_def bufs_def\<close>)
qed

section \<open>Finding\<close>

definition lookup_entry :: "fat32 \<Rightarrow> nat list \<Rightarrow> string \<Rightarrow> (u8 list \<times> nat \<times> nat) option" where
  "lookup_entry st cs name = snd (snd (scan (find_cb (build_83 name) name) (slot_entry st) (slots_of st cs) ([], None)))"

lemma dir_find_correct:
  assumes "geom_ok st" "bufs st" "linked st cs" "length name \<le> 255"
  shows "\<exists>h. dir_find_lfn (hd cs) (build_83 name) name st = Some (lookup_entry st cs name, st\<lparr>km_heap := h\<rparr>) \<and> bufs (st\<lparr>km_heap := h\<rparr>)"
proof -
  let ?cb = "find_cb (build_83 name) name" and ?n = "dir_entries_per_cluster st"
  let ?f = "\<lambda>chunk buf c st1. (each_entry_lfn ?cb chunk 0 (entries_of (dir_entries_per_cluster st1) buf) c, st1)"
  let ?r = "scan ?cb (slot_entry st) (slots_of st cs) ([], None)"
  let ?body = "fbind (each_chunk ?f (hd cs) ([], None)) (\<lambda>(r, _, _, c) st1. Some (((case r of None \<Rightarrow> 0 | Some x \<Rightarrow> x), c), st1))"
  have b: "?body (st\<lparr>km_heap := h\<rparr>) = Some (((case fst ?r of None \<Rightarrow> 0 | Some x \<Rightarrow> x), snd (snd ?r)), st\<lparr>km_heap := h\<rparr>)" for h
    using each_chunk_scan [of "st\<lparr>km_heap := h\<rparr>" cs ?cb "([], None)"] assms(1,3) by (auto simp: fbind_def split: prod.split)
  obtain h2 h4 where h: "bufs (st\<lparr>km_heap := h4\<rparr>)"
    "\<And>r. ?body (st\<lparr>km_heap := h2\<rparr>) = Some (r, st\<lparr>km_heap := h2\<rparr>) \<Longrightarrow>
      with_buffer (bytes_per_cluster st) (-1, None) (with_buffer 640 (-1, None) ?body) st = Some (r, st\<lparr>km_heap := h4\<rparr>)"
    using with_buffer_twice [OF assms(2), of ?body] by blast
  have "dir_each_lfn (hd cs) ?cb None st = Some (((case fst ?r of None \<Rightarrow> 0 | Some x \<Rightarrow> x), snd (snd ?r)), st\<lparr>km_heap := h4\<rparr>)"
    unfolding dir_each_lfn_def using h(2) [OF b] by simp
  then have "dir_find_lfn (hd cs) (build_83 name) name st = Some (lookup_entry st cs name, st\<lparr>km_heap := h4\<rparr>)"
    using assms(4) by (simp add: dir_find_lfn_def fbind_def lookup_entry_def)
  then show ?thesis using h(1) by blast
qed

section \<open>Changing one cluster\<close>

text \<open>What an operation on one cluster of a directory does to the volume.\<close>

lemma change_chunk_correct:
  assumes "geom_ok st" "bufs st" "usable st (real_cluster st k)" "length (f (cluster_data st (real_cluster st k))) = bytes_per_cluster st"
  shows "\<exists>st1. change_chunk k f st = Some (True, st1) \<and> fixed st st1 \<and> geom_ok st1 \<and> bufs st1 \<and> f_fat st1 = f_fat st \<and>
    cluster_data st1 (real_cluster st k) = f (cluster_data st (real_cluster st k)) \<and>
    (\<forall>c. 2 \<le> c \<and> c \<noteq> real_cluster st k \<longrightarrow> cluster_data st1 c = cluster_data st c)"
proof -
  let ?c = "real_cluster st k"
  let ?body = "\<lambda>st1. case dir_read_chunk k st1 of None \<Rightarrow> Some (False, st1) | Some buf \<Rightarrow> Some (dir_write_chunk k (f buf) st1)"
  obtain h1 h2 where h: "\<And>r st1. ?body (st\<lparr>km_heap := h1\<rparr>) = Some (r, st1) \<Longrightarrow> km_heap st1 = h1 \<Longrightarrow> bytes_per_cluster st1 = bytes_per_cluster st \<Longrightarrow>
    with_buffer (bytes_per_cluster st) False ?body st = Some (r, st1\<lparr>km_heap := h2\<rparr>) \<and> bufs (st1\<lparr>km_heap := h2\<rparr>)"
    using with_buffer_once [OF assms(2), of ?body] by blast
  define s where "s = st\<lparr>km_heap := h1\<rparr>"
  have s: "geom_ok s" "fixed st s" "real_cluster s = real_cluster st" "usable s ?c" "cluster_data s = cluster_data st"
    using assms(1,3) fixed_heap by (simp_all add: s_def)
  define s1 where "s1 = put_cluster ?c (f (cluster_data st ?c)) s"
  have w: "?body s = Some (True, s1)"
    using read_chunk [OF s(1), of k] write_cluster [OF s(1,4)] s by (simp add: dir_write_chunk_def s1_def)
  have f1: "fixed s s1" "f_fat s1 = f_fat st" "km_heap s1 = h1" by (simp_all add: s1_def put_cluster_fixed) (simp_all add: s_def)
  have l: "length (f (cluster_data st ?c)) = bytes_per_cluster s" using assms(4) fixed_fields(4) [OF s(2)] by simp
  have f2: "fixed st s1" using fixed_trans [OF s(2) f1(1)] .
  have f3: "fixed st (s1\<lparr>km_heap := h2\<rparr>)" using fixed_trans [OF f2 fixed_heap] .
  have "with_buffer (bytes_per_cluster st) False ?body st = Some (True, s1\<lparr>km_heap := h2\<rparr>)" "bufs (s1\<lparr>km_heap := h2\<rparr>)"
    using h [OF w [unfolded s_def] f1(3) fixed_fields(4) [OF f2]] by simp_all
  moreover have "geom_ok s1" unfolding s1_def by (rule put_cluster_ok [OF s(1) l])
  ultimately show ?thesis using f1(2) f3 put_cluster_data [OF s(1,4) l] s(5)
    by (intro exI [of _ "s1\<lparr>km_heap := h2\<rparr>"]) (simp add: change_chunk_def s1_def [symmetric])
qed

section \<open>Taking a free slot\<close>

definition alloc_body :: "nat \<Rightarrow> u8 list \<Rightarrow> (nat \<times> nat) option \<Rightarrow> fat32 \<Rightarrow> (int option \<times> (nat \<times> nat) option) \<times> fat32" where
  "alloc_body chunk buf a st1 =
     (let es = entries_of (dir_entries_per_cluster st1) buf
      in (case List.find (\<lambda>i. slot_free (es ! i)) [0..<length es] of
            None \<Rightarrow> ((None, a), st1)
          | Some i \<Rightarrow> ((Some 0, Some (chunk, i)), st1)))"

lemma find_append: "List.find P (xs @ ys) = (case List.find P xs of None \<Rightarrow> List.find P ys | Some x \<Rightarrow> Some x)"
  by (induction xs) simp_all

lemma find_map: "List.find P (map f xs) = map_option f (List.find (P \<circ> f) xs)"
  by (induction xs) simp_all

lemma find_cong: "(\<And>x. x \<in> set xs \<Longrightarrow> P x = Q x) \<Longrightarrow> List.find P xs = List.find Q xs"
  by (induction xs) simp_all

lemma alloc_body_eq:
  "alloc_body c (cluster_data st (real_cluster st c)) a st =
     (case List.find (\<lambda>p. slot_free (slot_entry st p)) (map (Pair c) [0..<dir_entries_per_cluster st]) of
        None \<Rightarrow> ((None, a), st) | Some p \<Rightarrow> ((Some 0, Some p), st))"
proof -
  have "List.find (\<lambda>i. slot_free (entries_of (dir_entries_per_cluster st) (cluster_data st (real_cluster st c)) ! i)) [0..<dir_entries_per_cluster st] =
      List.find ((\<lambda>p. slot_free (slot_entry st p)) \<circ> Pair c) [0..<dir_entries_per_cluster st]"
    by (rule find_cong) (simp add: entries_nth)
  then show ?thesis
    by (cases "List.find ((\<lambda>p. slot_free (slot_entry st p)) \<circ> Pair c) [0..<dir_entries_per_cluster st]") (simp_all add: alloc_body_def find_map Let_def)
qed

lemma each_chunk_alloc:
  assumes "geom_ok st" "linked st cs"
  shows "each_chunk alloc_body (hd cs) None st =
    (case List.find (\<lambda>p. slot_free (slot_entry st p)) (slots_of st cs) of
       Some p \<Rightarrow> Some ((Some 0, fst p, Some p), st) | None \<Rightarrow> Some ((None, last cs, None), st))"
  using assms(2)
proof (induction cs rule: induct_list012)
  case (2 c)
  then show ?case using read_chunk [OF assms(1), of c] alloc_body_eq [of c st None]
    by (subst each_chunk.simps) (auto simp: find_map split: option.split)
next
  case (3 c d cs)
  have l: "linked st (d # cs)" "usable st (real_cluster st c)" "fat32_get_entry (real_cluster st c) st = d" "2 \<le> d" using "3.prems" by simp_all
  have "\<not> is_end_of_chain d" using linked_usable [OF l(1), of d] l(4) usable_bounds [OF assms(1)] not_end by (simp add: real_ge2)
  then show ?case using l "3.IH"(2) [OF l(1)] read_chunk [OF assms(1) l(2)] alloc_body_eq [of c st None]
    by (subst each_chunk.simps) (auto simp: find_map find_append split: option.split)
qed simp

lemma add_chunk_eq:
  assumes "geom_ok st" "usable st lst" "vacant st \<noteq> {}"
  shows "\<exists>c \<in> vacant st. add_chunk lst st = (Some (c, 0), append_cluster 1 lst c (zeros (bytes_per_cluster st)) st)"
proof -
  obtain c where v: "c \<in> vacant st" "fat32_alloc_cluster st = (c, fat32_set_entry c FAT32_EOC st)" using alloc_finds [OF assms(1,3)] by blast
  then have u: "usable st c" by (simp add: vacant_def)
  let ?s = "fat32_set_entry c FAT32_EOC st"
  define s2 where "s2 = fat32_set_entry c FAT32_EOC (fat32_set_entry lst c ?s)"
  have c: "c \<noteq> 0" "c < 2 ^ 28" using u usable_bounds [OF assms(1) u] by (simp_all add: usable_def)
  have 1: "geom_ok ?s" "fixed st ?s" using geom_ok_set [OF assms(1) u] by (simp_all add: set_entry_fixed)
  have l: "usable ?s lst" using assms(2) fixed_derived(1) [OF 1(2)] by simp
  have g: "geom_ok (fat32_set_entry lst c ?s)" "fixed st (fat32_set_entry lst c ?s)"
    using geom_ok_set [OF 1(1) l c(2)] fixed_trans [OF 1(2) set_entry_fixed(1)] .
  have s2: "geom_ok s2" "fixed st s2"
    using geom_ok_set [OF g(1)] u fixed_derived(1) [OF g(2)] fixed_trans [OF g(2) set_entry_fixed(1)] by (simp_all add: s2_def)
  have u2: "usable s2 c" using u fixed_derived(1) [OF s2(2)] by simp
  have "add_chunk lst st = (Some (c, 0), put_cluster c (zeros (bytes_per_cluster s2)) s2)"
    using v(2) c(1) write_cluster [OF s2(1) u2] by (simp add: add_chunk_def fat32_extend_chain_def s2_def [symmetric])
  moreover have "put_cluster c (zeros (bytes_per_cluster s2)) s2 = append_cluster 1 lst c (zeros (bytes_per_cluster st)) st"
    by (simp add: append_cluster_def fixed_fields(4) [OF s2(2)]) (simp add: s2_def)
  ultimately show ?thesis using v(1) by auto
qed

text \<open>A slot that was given out: the first free one, or the first of a fresh cluster.\<close>

definition slot_given :: "fat32 \<Rightarrow> nat list \<Rightarrow> nat \<times> nat \<Rightarrow> fat32 \<Rightarrow> bool" where
  "slot_given st cs p st1 \<longleftrightarrow>
     (case List.find (\<lambda>p. slot_free (slot_entry st p)) (slots_of st cs) of
        Some q \<Rightarrow> p = q \<and> (\<forall>c. fat32_get_entry c st1 = fat32_get_entry c st) \<and> (\<forall>c. 2 \<le> c \<longrightarrow> cluster_data st1 c = cluster_data st c)
      | None \<Rightarrow> snd p = 0 \<and> usable st (fst p) \<and> fat32_get_entry (fst p) st = 0 \<and>
          (\<forall>d. fat32_get_entry d st1 = (if d = fst p then FAT32_EOC else if d = real_cluster st (last cs) then fst p else fat32_get_entry d st)) \<and>
          (\<forall>d. 2 \<le> d \<and> d \<noteq> fst p \<longrightarrow> cluster_data st1 d = cluster_data st d))"

lemma alloc_slot_correct:
  assumes "geom_ok st" "bufs st" "linked st cs" "vacant st \<noteq> {}"
  shows "\<exists>p st1. dir_alloc_slot (hd cs) st = Some (Some p, st1) \<and> fixed st st1 \<and> geom_ok st1 \<and> bufs st1 \<and> slot_given st cs p st1"
proof -
  let ?body = "fbind (each_chunk alloc_body (hd cs) None)
    (\<lambda>(r, chunk, a) st1. Some (case r of None \<Rightarrow> add_chunk (real_cluster st1 chunk) st1 | Some _ \<Rightarrow> (a, st1)))"
  have d: "dir_alloc_slot (hd cs) st = with_buffer (bytes_per_cluster st) None ?body st"
    unfolding dir_alloc_slot_def alloc_body_def by simp
  obtain h1 h2 where h: "\<And>r st1. ?body (st\<lparr>km_heap := h1\<rparr>) = Some (r, st1) \<Longrightarrow> km_heap st1 = h1 \<Longrightarrow> bytes_per_cluster st1 = bytes_per_cluster st \<Longrightarrow>
    with_buffer (bytes_per_cluster st) None ?body st = Some (r, st1\<lparr>km_heap := h2\<rparr>) \<and> bufs (st1\<lparr>km_heap := h2\<rparr>)"
    using with_buffer_once [OF assms(2), of ?body] by blast
  define s where "s = st\<lparr>km_heap := h1\<rparr>"
  have s: "geom_ok s" "fixed st s" "linked s cs" "km_heap s = h1" "cluster_data s = cluster_data st" "\<And>c. fat32_get_entry c s = fat32_get_entry c st"
    using assms(1,3) fixed_heap by (simp_all add: s_def)
  note e = each_chunk_alloc [OF s(1,3)]
  have h': "with_buffer (bytes_per_cluster st) None ?body st = Some (r, st1\<lparr>km_heap := h2\<rparr>) \<and> bufs (st1\<lparr>km_heap := h2\<rparr>)"
    if "?body s = Some (r, st1)" "km_heap st1 = h1" "fixed st st1" for r st1
    using h [of r st1] that fixed_fields(4) [OF that(3)] by (simp add: s_def)
  show ?thesis
  proof (cases "List.find (\<lambda>p. slot_free (slot_entry st p)) (slots_of st cs)")
    case (Some q)
    then have "?body s = Some (Some q, s)" using e by (simp add: fbind_def s_def)
    from h' [OF this s(4,2)] have r: "dir_alloc_slot (hd cs) st = Some (Some q, st\<lparr>km_heap := h2\<rparr>)" "bufs (st\<lparr>km_heap := h2\<rparr>)" using d by (simp_all add: s_def)
    have "slot_given st cs q (st\<lparr>km_heap := h2\<rparr>)" "geom_ok (st\<lparr>km_heap := h2\<rparr>)" using Some assms(1) by (simp_all add: slot_given_def)
    then show ?thesis using r fixed_heap by blast
  next
    case None
    let ?l = "real_cluster s (last cs)"
    have b: "?body s = Some (add_chunk ?l s)" using e None by (simp add: fbind_def s_def)
    have "cs \<noteq> []" using assms(3) by auto
    then have u: "usable s ?l" using linked_usable [OF s(3)] last_in_set by blast
    have "vacant s = vacant st" by (simp add: s_def vacant_def)
    then obtain c where c: "add_chunk ?l s = (Some (c, 0), append_cluster 1 ?l c (zeros (bytes_per_cluster s)) s)" "usable s c" "fat32_get_entry c s = 0"
      using add_chunk_eq [OF s(1) u] assms(4) by (auto simp: vacant_def)
    let ?a = "append_cluster 1 ?l c (zeros (bytes_per_cluster s)) s" and ?p = "(c, 0::nat)"
    have "?l \<noteq> c" using linked_nonzero [OF s(3), of "last cs"] \<open>cs \<noteq> []\<close> c(3) by auto
    then have lc: "1 \<noteq> (0::nat) \<longrightarrow> usable s ?l \<and> ?l \<noteq> c" using u by simp
    note A = append_cluster_effect [OF s(1) c(2) lc, of "zeros (bytes_per_cluster s)", simplified]
    have r: "dir_alloc_slot (hd cs) st = Some (Some ?p, ?a\<lparr>km_heap := h2\<rparr>)" "bufs (?a\<lparr>km_heap := h2\<rparr>)"
      using h' [OF _ _ fixed_trans [OF s(2) A(1)], of "Some ?p"] b c(1) A(3) s(4) d by simp_all
    have fx: "fixed st (?a\<lparr>km_heap := h2\<rparr>)" using fixed_trans [OF fixed_trans [OF s(2) A(1)] fixed_heap] by simp
    have "slot_given st cs ?p (?a\<lparr>km_heap := h2\<rparr>)"
      using A(4,6) c(2,3) None s(5,6) fixed_derived(1,2) [OF s(2)] by (simp add: slot_given_def)
    then show ?thesis using r fx A(2) by (intro exI [of _ ?p] exI [of _ "?a\<lparr>km_heap := h2\<rparr>"]) simp
  qed
qed

end
