(* ===== verification/Fat32_Correct.thy ===== *)
theory Fat32_Correct
  imports Fat32_Dir
begin

text \<open>
  What is written to a file of a FAT32 directory is what a later read returns, and other files keep
  their clusters and contents.
\<close>

section \<open>Entries\<close>

lemma length_spaced [simp]: "length (spaced n s) = n"
  by (simp add: spaced_def)

lemma length_build_83 [simp]: "length (build_83 name) = 11"
  by (simp add: build_83_def short_ext_def split: prod.split)

lemma length_dirent [simp]: "length raw = 11 \<Longrightarrow> length (dirent_image raw a c s) = 32"
  by (simp add: dirent_image_def)

lemma dirent_fields:
  assumes "length raw = 11" "c < 2 ^ 32" "s < 2 ^ 32"
  shows "take 11 (dirent_image raw a c s) = raw" "fe_attr (dirent_image raw a c s) = a" "entry_cluster (dirent_image raw a c s) = c"
    "fe_size (dirent_image raw a c s) = s" "dirent_image raw a c s ! 0 = raw ! 0"
proof -
  show "take 11 (dirent_image raw a c s) = raw" "fe_attr (dirent_image raw a c s) = a" "dirent_image raw a c s ! 0 = raw ! 0"
    using assms(1) by (simp_all add: dirent_image_def fe_attr_def nth_append)
  have hi: "field (dirent_image raw a c s) 20 2 = c div 65536"
    using assms(1,2) by (simp add: dirent_image_def field_def le_val_image del: le_image.simps)
  have "c mod 65536 < 256 ^ 2" by simp
  then have lo: "field (dirent_image raw a c s) 26 2 = c mod 65536"
    using assms(1) by (simp add: dirent_image_def field_def le_val_image zeros_def del: le_image.simps)
  show "entry_cluster (dirent_image raw a c s) = c" unfolding entry_cluster_def hi lo by simp
  show "fe_size (dirent_image raw a c s) = s"
    using assms(1,3) by (simp add: fe_size_def dirent_image_def field_def le_val_image zeros_def del: le_image.simps)
qed

lemma dirent_rename: "length raw = 11 \<Longrightarrow> length raw1 = 11 \<Longrightarrow> set_bytes (dirent_image raw a c s) 0 raw1 = dirent_image raw1 a c s"
  by (simp add: dirent_image_def set_bytes_def)

section \<open>The search\<close>

lemma scan_find_none:
  assumes "\<forall>p \<in> set ps. \<not> slot_free (ent p)" "snd (snd (scan (find_cb raw name) ent (ps @ qs) (segs, None))) = None"
  shows "\<exists>segs1. scan (find_cb raw name) ent ps (segs, None) = (None, segs1, None)"
  using assms by (induction ps arbitrary: segs) (auto simp: slot_free_def find_cb_def Let_def split: if_splits)

lemma scan_find_hit:
  assumes "ent p ! 0 \<noteq> 0" "ent p ! 0 \<noteq> 0xE5" "fe_attr (ent p) \<noteq> ATTR_LFN" "name_matches raw name (ent p) (if segs = [] then [] else lfn_reconstruct segs 256)"
  shows "scan (find_cb raw name) ent (p # qs) (segs, None) = (Some (-1), [], Some (ent p, p))"
  using assms by (simp add: find_cb_def)

lemma scan_find_exit: "fst (scan (find_cb raw name) ent ps (segs, None)) = None \<Longrightarrow> snd (snd (scan (find_cb raw name) ent ps (segs, None))) = None"
  by (induction ps arbitrary: segs) (auto simp: find_cb_def Let_def split: if_splits)

lemma scan_find_split:
  assumes "snd (snd (scan (find_cb raw name) ent xs (segs, None))) = Some (e, p)"
  shows "\<exists>ps qs segs1. xs = ps @ p # qs \<and> scan (find_cb raw name) ent ps (segs, None) = (None, segs1, None) \<and> ent p = e \<and> e ! 0 \<noteq> 0 \<and> e ! 0 \<noteq> 0xE5 \<and>
    fe_attr e \<noteq> ATTR_LFN \<and> name_matches raw name e (if segs1 = [] then [] else lfn_reconstruct segs1 256)"
  using assms
proof (induction xs arbitrary: segs)
  case (Cons x xs)
  have rec: ?case if "snd (snd (scan (find_cb raw name) ent xs (s1, None))) = Some (e, p)"
    "\<And>ps. scan (find_cb raw name) ent (x # ps) (segs, None) = scan (find_cb raw name) ent ps (s1, None)" for s1
  proof -
    from Cons.IH [OF that(1)] obtain ps qs s2 where "xs = ps @ p # qs" "scan (find_cb raw name) ent ps (s1, None) = (None, s2, None)" "ent p = e" "e ! 0 \<noteq> 0"
      "e ! 0 \<noteq> 0xE5" "fe_attr e \<noteq> ATTR_LFN" "name_matches raw name e (if s2 = [] then [] else lfn_reconstruct s2 256)" by blast
    then show ?thesis using that(2) [of ps] by (intro exI [of _ "x # ps"] exI [of _ qs] exI [of _ s2]) simp
  qed
  consider "ent x ! 0 = 0" | "ent x ! 0 = 0xE5" | "fe_attr (ent x) = ATTR_LFN" "ent x ! 0 \<noteq> 0" "ent x ! 0 \<noteq> 0xE5"
    | "fe_attr (ent x) \<noteq> ATTR_LFN" "ent x ! 0 \<noteq> 0" "ent x ! 0 \<noteq> 0xE5" by blast
  then show ?case
  proof cases
    case 1
    then show ?thesis using Cons.prems by simp
  next
    case 2
    then show ?thesis using Cons.prems by (intro rec [of "[]"]) simp_all
  next
    case 3
    then show ?thesis using Cons.prems by (intro rec [of "if length segs < LFN_MAX_SEGS then segs @ [ent x] else segs"]) simp_all
  next
    case 4
    show ?thesis
    proof (cases "name_matches raw name (ent x) (if segs = [] then [] else lfn_reconstruct segs 256)")
      case True
      then have "scan (find_cb raw name) ent (x # xs) (segs, None) = (Some (-1), [], Some (ent x, x))" using scan_find_hit 4 by blast
      then have "(ent x, x) = (e, p)" using Cons.prems by (simp only: snd_conv option.inject)
      then have "ent x = e" "x = p" by auto
      then show ?thesis using 4 True by (intro exI [of _ "[]"] exI [of _ xs] exI [of _ segs]) simp
    next
      case False
      then have "find_cb raw name (ent x) (fst x) (snd x) (if segs = [] then [] else lfn_reconstruct segs 256) None = (0, None)" by (simp add: find_cb_def)
      then show ?thesis using Cons.prems 4 by (intro rec [of "[]"]) simp_all
    qed
  qed
qed simp

section \<open>Storing an entry\<close>

text \<open>A directory: a chain whose clusters are distinct.\<close>

definition dir_ok :: "fat32 \<Rightarrow> nat list \<Rightarrow> bool" where
  "dir_ok st cs \<longleftrightarrow> linked st cs \<and> distinct (map (real_cluster st) cs)"

text \<open>The entries of the directory other than the one the name finds.\<close>

definition entries_kept :: "fat32 \<Rightarrow> nat list \<Rightarrow> string \<Rightarrow> fat32 \<Rightarrow> bool" where
  "entries_kept st cs name st1 \<longleftrightarrow> (\<forall>q \<in> set (slots_of st cs). \<not> slot_free (slot_entry st q) \<and> (\<forall>e. lookup_entry st cs name \<noteq> Some (e, q)) \<longrightarrow>
     slot_entry st1 q = slot_entry st q)"

text \<open>The entry \<open>ne\<close> is what the name finds afterwards, in the same directory, which may have grown; every
  other entry and the clusters in use outside the directory are untouched.\<close>

definition stored :: "fat32 \<Rightarrow> nat list \<Rightarrow> string \<Rightarrow> u8 list \<Rightarrow> fat32 \<Rightarrow> bool" where
  "stored st cs name ne st1 \<longleftrightarrow> fixed st st1 \<and> geom_ok st1 \<and> bufs st1 \<and>
     (\<exists>es p. dir_ok st1 (cs @ es) \<and> lookup_entry st1 (cs @ es) name = Some (ne, p)) \<and> entries_kept st cs name st1 \<and>
     (\<forall>g. 2 \<le> g \<and> g \<notin> real_cluster st ` set cs \<and> fat32_get_entry g st \<noteq> 0 \<longrightarrow>
        fat32_get_entry g st1 = fat32_get_entry g st \<and> cluster_data st1 g = cluster_data st g)"

lemma epc_fits: "geom_ok st \<Longrightarrow> i < dir_entries_per_cluster st \<Longrightarrow> 32 * i + 32 \<le> bytes_per_cluster st"
  by (simp add: dir_entries_per_cluster_def)

lemma dir_ok_cong:
  assumes "dir_ok st cs" "fixed st st1" "\<And>c. c \<in> set cs \<Longrightarrow> fat32_get_entry (real_cluster st c) st1 = fat32_get_entry (real_cluster st c) st"
  shows "dir_ok st1 cs"
  using assms(1) linked_cong [OF _ assms(2,3)] by (simp add: dir_ok_def fixed_derived(2) [OF assms(2)])

lemma put_entry_slots:
  assumes "geom_ok st" "bufs st" "dir_ok st cs" "(k, i) \<in> set (slots_of st cs)" "length e = 32"
  shows "\<exists>st1. dir_put_entry k i e st = Some (True, st1) \<and> fixed st st1 \<and> geom_ok st1 \<and> bufs st1 \<and> (\<forall>c. fat32_get_entry c st1 = fat32_get_entry c st) \<and>
    (\<forall>p \<in> set (slots_of st cs). slot_entry st1 p = (if p = (k, i) then e else slot_entry st p)) \<and>
    (\<forall>c. 2 \<le> c \<and> c \<notin> real_cluster st ` set cs \<longrightarrow> cluster_data st1 c = cluster_data st c)"
proof -
  have k: "k \<in> set cs" "i < dir_entries_per_cluster st" using assms(4) by (simp_all add: set_positions)
  have l: "linked st cs" "distinct (map (real_cluster st) cs)" using assms(3) by (simp_all add: dir_ok_def)
  have u: "usable st (real_cluster st k)" using linked_usable [OF l(1) k(1)] .
  let ?buf = "cluster_data st (real_cluster st k)"
  have lb: "length ?buf = bytes_per_cluster st" using length_cluster_data [OF assms(1)] .
  have fit: "32 * i + 32 \<le> length ?buf" using epc_fits [OF assms(1) k(2)] lb by simp
  then have ls: "length (set_bytes ?buf (32 * i) e) = bytes_per_cluster st" using assms(5) lb by simp
  obtain st1 where r: "dir_put_entry k i e st = Some (True, st1)" "fixed st st1" "geom_ok st1" "bufs st1" "f_fat st1 = f_fat st"
    "cluster_data st1 (real_cluster st k) = set_bytes ?buf (32 * i) e" "\<And>c. 2 \<le> c \<Longrightarrow> c \<noteq> real_cluster st k \<Longrightarrow> cluster_data st1 c = cluster_data st c"
    using change_chunk_correct [OF assms(1,2) u, of "\<lambda>buf. set_bytes buf (32 * i) e"] ls unfolding dir_put_entry_def by blast
  have "slot_entry st1 p = (if p = (k, i) then e else slot_entry st p)" if "p \<in> set (slots_of st cs)" for p
  proof -
    obtain c j where "p = (c, j)" by (cases p)
    then have p: "p = (c, j)" "c \<in> set cs" using \<open>p \<in> set (slots_of st cs)\<close> by (simp_all add: set_positions)
    show ?thesis
    proof (cases "c = k")
      case True
      then show ?thesis using slot_set_bytes [OF assms(5) fit, of j] r(6) by (simp add: p slot_entry_def fixed_derived(2) [OF r(2)])
    next
      case False
      then have "real_cluster st c \<noteq> real_cluster st k" using l(2) p(2) k(1) by (auto simp: distinct_map inj_on_def)
      moreover have "2 \<le> real_cluster st c" using linked_usable [OF l(1) p(2)] by (simp add: usable_def)
      ultimately show ?thesis using False r(7) by (simp add: p slot_entry_def fixed_derived(2) [OF r(2)])
    qed
  qed
  moreover have "fat32_get_entry c st1 = fat32_get_entry c st" for c using r(5) by (simp add: fat32_get_entry_def)
  moreover have "cluster_data st1 c = cluster_data st c" if "2 \<le> c" "c \<notin> real_cluster st ` set cs" for c using r(7) that k(1) by auto
  ultimately show ?thesis using r(1-4) by blast
qed

lemma store_existing:
  assumes "geom_ok st" "bufs st" "dir_ok st cs" "lookup_entry st cs name = Some (e, k, i)" "length ne = 32" "take 11 ne = take 11 e" "fe_attr ne \<noteq> ATTR_LFN"
  shows "\<exists>st1. dir_put_entry k i ne st = Some (True, st1) \<and> stored st cs name ne st1"
proof -
  let ?cb = "find_cb (build_83 name) name"
  obtain ps qs segs where s: "slots_of st cs = ps @ (k, i) # qs" "scan ?cb (slot_entry st) ps ([], None) = (None, segs, None)"
    "e ! 0 \<noteq> 0" "e ! 0 \<noteq> 0xE5" "name_matches (build_83 name) name e (if segs = [] then [] else lfn_reconstruct segs 256)"
    using scan_find_split [OF assms(4) [unfolded lookup_entry_def]] by blast
  obtain st1 where r: "dir_put_entry k i ne st = Some (True, st1)" "fixed st st1" "geom_ok st1" "bufs st1" "\<And>c. fat32_get_entry c st1 = fat32_get_entry c st"
    "\<And>p. p \<in> set (slots_of st cs) \<Longrightarrow> slot_entry st1 p = (if p = (k, i) then ne else slot_entry st p)"
    "\<And>c. 2 \<le> c \<Longrightarrow> c \<notin> real_cluster st ` set cs \<Longrightarrow> cluster_data st1 c = cluster_data st c"
  proof -
    have "(k, i) \<in> set (slots_of st cs)" by (simp add: s(1))
    from put_entry_slots [OF assms(1-3) this assms(5)] show thesis using that by blast
  qed
  have "distinct cs" using assms(3) distinct_map by (auto simp: dir_ok_def)
  then have "distinct (slots_of st cs)" by (rule distinct_positions)
  then have nin: "(k, i) \<notin> set ps" using s(1) by simp
  have pre: "scan ?cb (slot_entry st1) ps ([], None) = (None, segs, None)"
    proof -
    have "slot_entry st1 q = slot_entry st q" if "q \<in> set ps" for q using r(6) [of q] nin that by (auto simp: s(1))
    then show ?thesis using s(2) scan_cong [of ps "slot_entry st1" "slot_entry st" ?cb "([], None)"] by simp
  qed
  have ne: "slot_entry st1 (k, i) = ne" using r(6) [of "(k, i)"] s(1) by simp
  have "take 1 (take 11 ne) = take 1 (take 11 e)" using assms(6) by simp
  then have n0: "ne ! 0 = e ! 0" using assms(5,6) by (metis nth_take zero_less_numeral)
  have "name_matches (build_83 name) name ne (if segs = [] then [] else lfn_reconstruct segs 256)" using s(5) assms(6) by (simp add: name_matches_def)
  then have "scan ?cb (slot_entry st1) ((k, i) # qs) (segs, None) = (Some (-1), [], Some (ne, k, i))"
    using scan_find_hit [of "slot_entry st1" "(k, i)"] s(3,4) n0 ne assms(7) by simp
  then have "lookup_entry st1 cs name = Some (ne, k, i)" by (simp add: lookup_entry_def fixed_derived(5) [OF r(2)] s(1) scan_append pre del: scan.simps)
  moreover have "dir_ok st1 cs" by (rule dir_ok_cong [OF assms(3) r(2)]) (simp add: r(5))
  moreover have "entries_kept st cs name st1" using r(6) assms(4) by (auto simp: entries_kept_def)
  ultimately have "stored st cs name ne st1" unfolding stored_def using r(2-5,7) by (intro conjI exI [of _ "[]"]) auto
  then show ?thesis using r(1) by blast
qed

text \<open>The slot that was given out: in front of it the directory is full and looks as before.\<close>

lemma given_slot_view:
  assumes "geom_ok st" "dir_ok st cs" "fixed st s" "geom_ok s" "slot_given st cs p s"
  shows "\<exists>ds ps qs. (\<exists>es. ds = cs @ es) \<and> dir_ok s ds \<and> slots_of s ds = ps @ p # qs \<and> (\<forall>q \<in> set (slots_of st cs). slot_entry s q = slot_entry st q) \<and>
    (p \<in> set (slots_of st cs) \<longrightarrow> slot_free (slot_entry st p)) \<and> (\<forall>q \<in> set ps. \<not> slot_free (slot_entry st q) \<and> slot_entry s q = slot_entry st q) \<and>
    (\<exists>rest. slots_of st cs = ps @ rest) \<and> set ds \<subseteq> insert (fst p) (set cs) \<and> (fst p \<in> set cs \<or> fat32_get_entry (fst p) st = 0 \<and> 2 \<le> fst p) \<and>
    (\<forall>g. 2 \<le> g \<and> g \<notin> real_cluster st ` set cs \<and> fat32_get_entry g st \<noteq> 0 \<longrightarrow> fat32_get_entry g s = fat32_get_entry g st \<and> cluster_data s g = cluster_data st g)"
proof -
  have l: "linked st cs" "distinct (map (real_cluster st) cs)" using assms(2) by (simp_all add: dir_ok_def)
  have ne: "cs \<noteq> []" using l(1) by auto
  note epc = fixed_derived(5) [OF assms(3)] and rc = fixed_derived(2) [OF assms(3)]
  have ent: "slot_entry s q = slot_entry st q" if "q \<in> set (slots_of st cs)" "\<And>c. c \<in> set cs \<Longrightarrow> cluster_data s (real_cluster st c) = cluster_data st (real_cluster st c)" for q
    proof -
    obtain c i where q: "q = (c, i)" by (cases q)
    then have "c \<in> set cs" using that(1) by (simp add: set_positions)
    then show ?thesis using that(2) by (simp add: q slot_entry_def rc)
  qed
  have ge2: "2 \<le> real_cluster st c" if "c \<in> set cs" for c using linked_usable [OF l(1) that] by (simp add: usable_def)
  show ?thesis
  proof (cases "List.find (\<lambda>p. slot_free (slot_entry st p)) (slots_of st cs)")
    case (Some q)
    then have g: "p = q" "\<And>c. fat32_get_entry c s = fat32_get_entry c st" "\<And>c. 2 \<le> c \<Longrightarrow> cluster_data s c = cluster_data st c"
      using assms(5) by (simp_all add: slot_given_def)
    obtain ps qs where sp: "slots_of st cs = ps @ p # qs" "\<forall>y \<in> set ps. \<not> slot_free (slot_entry st y)" using find_split [OF Some] g(1) by blast
    have "p \<in> set (slots_of st cs)" by (simp add: sp(1))
    then have pc: "fst p \<in> set cs" unfolding set_positions by auto
    have "dir_ok s cs" by (rule dir_ok_cong [OF assms(2,3)]) (simp add: g(2))
    moreover have "\<forall>q \<in> set ps. \<not> slot_free (slot_entry st q) \<and> slot_entry s q = slot_entry st q" using ent sp g(3) ge2 by simp
    moreover have "slots_of s cs = ps @ p # qs" using sp(1) epc by simp
    moreover have "\<forall>g. 2 \<le> g \<and> g \<notin> real_cluster st ` set cs \<and> fat32_get_entry g st \<noteq> 0 \<longrightarrow> fat32_get_entry g s = fat32_get_entry g st \<and> cluster_data s g = cluster_data st g"
      using g(2,3) by simp
    moreover have "\<forall>q \<in> set (slots_of st cs). slot_entry s q = slot_entry st q" using ent g(3) ge2 by simp
    moreover have "slot_free (slot_entry st p)" using Some g(1) unfolding find_Some_iff by blast
    moreover have "\<exists>es. cs = cs @ es" by simp
    ultimately show ?thesis using sp(1) pc by blast
  next
    case None
    obtain c where c: "p = (c, 0)" "usable st c" "fat32_get_entry c st = 0" "\<And>d. 2 \<le> d \<Longrightarrow> d \<noteq> c \<Longrightarrow> cluster_data s d = cluster_data st d"
      "\<And>d. fat32_get_entry d s = (if d = c then FAT32_EOC else if d = real_cluster st (last cs) then c else fat32_get_entry d st)"
      using assms(5) None by (cases p) (simp add: slot_given_def)
    have c2: "2 \<le> c" using c(2) by (simp add: usable_def)
    have nin: "c \<noteq> real_cluster st d" if "d \<in> set cs" for d using linked_nonzero [OF l(1) that] c(3) by auto
    have last: "fat32_get_entry (real_cluster st (last cs)) s = c" using nin [of "last cs"] ne c(5) by auto
    have other: "fat32_get_entry (real_cluster st d) s = fat32_get_entry (real_cluster st d) st" if "d \<in> set (butlast cs)" for d
    proof -
      have "cs = butlast cs @ [last cs]" using ne by simp
      then have "real_cluster st d \<noteq> real_cluster st (last cs)" using l(2) that by (metis (no_types, lifting) distinct_append disjoint_iff image_eqI list.set_intros(1) map_append list.simps(9) set_map)
      then show ?thesis using c(5) nin [of d] in_set_butlastD [OF that] by auto
    qed
    have "linked s (cs @ [c])" by (rule linked_snoc [OF l(1) c(2) assms(3) last _ other]) (simp_all add: c(5))
    then have ok: "dir_ok s (cs @ [c])" using l(2) nin c2 by (auto simp: dir_ok_def rc real_ge2)
    have "0 < dir_entries_per_cluster st" using geom_okD(1,2) [OF assms(1)] by (simp add: dir_entries_per_cluster_def)
    then have "slots_of s (cs @ [c]) = slots_of st cs @ p # map (Pair c) [1..<dir_entries_per_cluster st]" by (simp add: epc c(1) upt_conv_Cons)
    moreover have "\<not> slot_free (slot_entry st q) \<and> slot_entry s q = slot_entry st q" if "q \<in> set (slots_of st cs)" for q
    proof
      show "\<not> slot_free (slot_entry st q)" using None that unfolding find_None_iff by blast
      show "slot_entry s q = slot_entry st q" by (rule ent [OF that]) (metis c(4) ge2 nin)
    qed
    moreover have "\<forall>g. 2 \<le> g \<and> g \<notin> real_cluster st ` set cs \<and> fat32_get_entry g st \<noteq> 0 \<longrightarrow> fat32_get_entry g s = fat32_get_entry g st \<and> cluster_data s g = cluster_data st g"
      using c(3,4,5) ne by (auto simp: image_iff)
    moreover have "p \<notin> set (slots_of st cs)" using nin [of c] c2 by (auto simp: c(1) set_positions real_ge2)
    moreover have "\<exists>es. cs @ [c] = cs @ es" "set (cs @ [c]) \<subseteq> insert (fst p) (set cs)" "fat32_get_entry (fst p) st = 0 \<and> 2 \<le> fst p" "slots_of st cs = slots_of st cs @ []"
      using ne c(1,3) c2 by auto
    ultimately show ?thesis using ok by blast
  qed
qed

lemma store_new:
  assumes "geom_ok st" "bufs st" "dir_ok st cs" "lookup_entry st cs name = None" "length ne = 32" "take 11 ne = build_83 name" "fe_attr ne \<noteq> ATTR_LFN"
    "build_83 name ! 0 \<noteq> 0" "build_83 name ! 0 \<noteq> 0xE5" "\<not> needs_lfn name" "vacant st \<noteq> {}"
  shows "\<exists>st1. dir_insert_named (hd cs) name ne st = Some (True, st1) \<and> stored st cs name ne st1"
proof -
  let ?cb = "find_cb (build_83 name) name"
  have rn: "set_bytes ne 0 (build_83 name) = ne" using assms(6) append_take_drop_id [of 11 ne] by (simp add: set_bytes_def)
  have l: "linked st cs" using assms(3) by (simp add: dir_ok_def)
  obtain k i s where a: "dir_alloc_slot (hd cs) st = Some (Some (k, i), s)" and S: "fixed st s" "geom_ok s" "bufs s" "slot_given st cs (k, i) s"
    using alloc_slot_correct [OF assms(1,2) l assms(11)] by auto
  obtain ds es ps qs rest where v: "ds = cs @ es" "dir_ok s ds" "slots_of s ds = ps @ (k, i) # qs"
    "\<And>q. q \<in> set ps \<Longrightarrow> \<not> slot_free (slot_entry st q) \<and> slot_entry s q = slot_entry st q" "slots_of st cs = ps @ rest"
    "set ds \<subseteq> insert k (set cs)" "k \<in> set cs \<or> fat32_get_entry k st = 0 \<and> 2 \<le> k"
    "\<And>g. 2 \<le> g \<Longrightarrow> g \<notin> real_cluster st ` set cs \<Longrightarrow> fat32_get_entry g st \<noteq> 0 \<Longrightarrow> fat32_get_entry g s = fat32_get_entry g st \<and> cluster_data s g = cluster_data st g"
    "\<And>q. q \<in> set (slots_of st cs) \<Longrightarrow> slot_entry s q = slot_entry st q" "(k, i) \<in> set (slots_of st cs) \<Longrightarrow> slot_free (slot_entry st (k, i))"
    using given_slot_view [OF assms(1,3) S(1,2,4), unfolded fst_conv] by blast
  have "(k, i) \<in> set (slots_of s ds)" by (simp add: v(3))
  then obtain st2 where r: "dir_put_entry k i ne s = Some (True, st2)" "fixed s st2" "geom_ok st2" "bufs st2" "\<And>c. fat32_get_entry c st2 = fat32_get_entry c s"
    "\<And>p. p \<in> set (slots_of s ds) \<Longrightarrow> slot_entry st2 p = (if p = (k, i) then ne else slot_entry s p)"
    "\<And>c. 2 \<le> c \<Longrightarrow> c \<notin> real_cluster s ` set ds \<Longrightarrow> cluster_data st2 c = cluster_data s c"
    using put_entry_slots [OF S(2,3) v(2) _ assms(5)] by blast
  have ins: "dir_insert_named (hd cs) name ne st = Some (True, st2)" using assms(10) a r(1) rn by (simp add: dir_insert_named_def fbind_def)
  have "distinct ds" using v(2) distinct_map by (auto simp: dir_ok_def)
  then have nin: "(k, i) \<notin> set ps" using distinct_positions [of ds "dir_entries_per_cluster s"] v(3) by simp
  obtain segs where "scan ?cb (slot_entry st) ps ([], None) = (None, segs, None)"
    using scan_find_none [of ps "slot_entry st" "build_83 name" name rest "[]"] v(4,5) assms(4) by (auto simp: lookup_entry_def)
  moreover have "slot_entry st2 q = slot_entry st q" if "q \<in> set ps" for q using r(6) [of q] v(3,4) that nin by auto
  ultimately have pre: "scan ?cb (slot_entry st2) ps ([], None) = (None, segs, None)" using scan_cong [of ps "slot_entry st2" "slot_entry st" ?cb "([], None)"] by simp
  have ne: "slot_entry st2 (k, i) = ne" using r(6) [of "(k, i)"] v(3) by simp
  have n0: "ne ! 0 = build_83 name ! 0" using assms(5,6) by (metis nth_take zero_less_numeral)
  have "name_matches (build_83 name) name ne (if segs = [] then [] else lfn_reconstruct segs 256)" using assms(6) by (simp add: name_matches_def)
  then have "scan ?cb (slot_entry st2) ((k, i) # qs) (segs, None) = (Some (-1), [], Some (ne, k, i))"
    using scan_find_hit [of "slot_entry st2" "(k, i)"] assms(7-9) n0 ne by simp
  then have look: "lookup_entry st2 ds name = Some (ne, k, i)"
    by (simp add: lookup_entry_def fixed_derived(5) [OF r(2)] v(3) scan_append pre del: scan.simps)
  have ok: "dir_ok st2 ds" by (rule dir_ok_cong [OF v(2) r(2)]) (simp add: r(5))
  have "fat32_get_entry g st2 = fat32_get_entry g st \<and> cluster_data st2 g = cluster_data st g"
    if g: "2 \<le> g" "g \<notin> real_cluster st ` set cs" "fat32_get_entry g st \<noteq> 0" for g
  proof -
    have "g \<notin> real_cluster s ` set ds" using g v(6,7) fixed_derived(2) [OF S(1)] by (auto simp: image_iff real_ge2)
    then show ?thesis using r(5) [of g] r(7) [of g] v(8) [OF g] g(1) by simp
  qed
  moreover have "entries_kept st cs name st2"
    unfolding entries_kept_def
  proof (intro ballI impI)
    fix q assume q: "q \<in> set (slots_of st cs)" "\<not> slot_free (slot_entry st q) \<and> (\<forall>e. lookup_entry st cs name \<noteq> Some (e, q))"
    then have "q \<in> set (slots_of s ds)" "q \<noteq> (k, i)" using v(1,10) fixed_derived(5) [OF S(1)] by auto
    then show "slot_entry st2 q = slot_entry st q" using r(6) v(9) [OF q(1)] by simp
  qed
  ultimately have "stored st cs name ne st2" unfolding stored_def using fixed_trans [OF S(1) r(2)] r(3,4) ok look unfolding v(1) by blast
  then show ?thesis using ins by blast
qed

section \<open>Writing the table back\<close>

lemma length_fat_image: "length (fat_image t) = length t * 4"
  by (simp add: fat_image_def length_concat comp_def sum_list_triv del: le_image.simps)

lemma flush_from_correct:
  assumes "geom_ok st" "i + n = num_fats (f_bpb st)"
  shows "\<exists>st1. flush_from i n st = (True, st1) \<and> fixed st st1 \<and> geom_ok st1 \<and> f_fat st1 = f_fat st \<and> km_heap st1 = km_heap st \<and>
    (\<forall>c. cluster_data st1 c = cluster_data st c)"
  using assms
proof (induction n arbitrary: i st)
  case (Suc n)
  let ?spf = "sectors_per_fat st" and ?lba = "part_lba st + (fat_start st + i * sectors_per_fat st)"
  have lay: "data_lba st = fat_start st + num_fats (f_bpb st) * ?spf" "length (f_fat st) = ?spf * 128"
    using Suc.prems(1) unfolding geom_ok_def layout_ok_def by blast+
  have "(i + 1) * ?spf \<le> num_fats (f_bpb st) * ?spf" by (rule mult_le_mono1) (use Suc.prems(2) in simp)
  then have le: "fat_start st + i * ?spf + ?spf \<le> data_lba st" using lay(1) by simp
  have e: "part_lba st + volume_end st < 2 ^ 32" "data_lba st \<le> volume_end st" using geom_okD(4) [OF Suc.prems(1)] by (simp_all add: volume_end_def)
  have a: "u32_add (part_lba st) (u32_add (fat_start st) (u32_mul i ?spf)) = ?lba" using le e by (simp add: u32_add_def u32_mul_def)
  have re: "reaches (f_drive st) ?lba ?spf" by (rule reaches_part [OF geom_okD(6) [OF Suc.prems(1)]]) (use le e in simp_all)
  let ?ws = "cut_sectors ?lba ?spf (fat_image (f_fat st))"
  define s where "s = st\<lparr>f_drive := put_all ?ws (f_drive st)\<rparr>"
  have w: "fat_write (u32_add (fat_start st) (u32_mul i ?spf)) ?spf (fat_image (f_fat st)) st = (True, s)"
    by (simp add: fat_write_def a ata_write_eq [OF re] s_def)
  have fx: "fixed st s" "f_fat s = f_fat st" "km_heap s = km_heap st" by (cases st, simp add: s_def fixed_def)+
  have lens: "\<forall>i. length (d_sec (f_drive s) i) = 512"
    using put_all_lengths [OF _ cut_all_lengths, of "f_drive st" "fat_image (f_fat st)" ?spf ?lba] geom_okD(7) [OF Suc.prems(1)] lay(2)
    by (simp add: s_def length_fat_image)
  have gs: "geom_ok s" unfolding geom_ok_def fixed_derived [OF fx(1)] fixed_fields [OF fx(1)]
    using Suc.prems(1) lens fx(2) by (simp add: geom_ok_def s_def fat32_get_entry_def)
  have cd: "cluster_data s c = cluster_data st c" for c
  proof -
    have "?lba + ?spf \<le> cluster_sector st c" using le by (simp add: cluster_sector_def)
    then have "sectors (f_drive s) (cluster_sector st c) (spc st) = sectors (f_drive st) (cluster_sector st c) (spc st)"
      unfolding s_def by (simp add: sectors_put_all_other fst_cut)
    then show ?thesis by (simp add: cluster_data_def fixed_derived(3) [OF fx(1)] fixed_fields(1) [OF fx(1)])
  qed
  have "(i + 1) + n = num_fats (f_bpb s)" using Suc.prems(2) fixed_fields(1) [OF fx(1)] by simp
  then obtain st1 where r: "flush_from (i + 1) n s = (True, st1)" "fixed s st1" "geom_ok st1" "f_fat st1 = f_fat s" "km_heap st1 = km_heap s"
    "\<And>c. cluster_data st1 c = cluster_data s c" using Suc.IH [OF gs] by blast
  then show ?case using w fx cd fixed_trans [OF fx(1) r(2)] by simp
qed simp

lemma flush_correct:
  assumes "geom_ok st" "bufs st"
  shows "\<exists>st1. flush_result r st = Some (r, st1) \<and> fixed st st1 \<and> geom_ok st1 \<and> bufs st1 \<and> (\<forall>c. fat32_get_entry c st1 = fat32_get_entry c st) \<and>
    (\<forall>c. cluster_data st1 c = cluster_data st c)"
proof -
  obtain st1 where f: "flush_from 0 (num_fats (f_bpb st)) st = (True, st1)" "fixed st st1" "geom_ok st1" "f_fat st1 = f_fat st" "km_heap st1 = km_heap st"
    "\<And>c. cluster_data st1 c = cluster_data st c" using flush_from_correct [OF assms(1), of 0] by auto
  then show ?thesis using assms(2) fixed_fields(4) [OF f(2)] by (simp add: flush_result_def fat32_flush_fat_def bufs_def fat32_get_entry_def)
qed

section \<open>Reading back\<close>

lemma find_path_plain:
  assumes "geom_ok st" "bufs st" "linked st cs" "hd cs = cwd_cluster st" "CHR ''/'' \<notin> set name" "length name \<le> 255"
  shows "\<exists>h. find_path name st = Some (Some ((hd cs, name), lookup_entry st cs name), st\<lparr>km_heap := h\<rparr>) \<and> bufs (st\<lparr>km_heap := h\<rparr>)"
  using dir_find_correct [OF assms(1-3,6)] assms(4-6) by (auto simp: find_path_def fbind_def fat32_resolve_parent_def)

text \<open>The clusters an entry leads to.\<close>

definition file_chain :: "fat32 \<Rightarrow> u8 list \<Rightarrow> nat list \<Rightarrow> bool" where
  "file_chain st e fs \<longleftrightarrow> (if 2 \<le> entry_cluster e then linked st fs \<and> distinct fs \<and> hd fs = entry_cluster e else fs = [])"

lemma fat32_read_correct:
  assumes "geom_ok st" "bufs st" "linked st cs" "hd cs = cwd_cluster st" "CHR ''/'' \<notin> set name" "length name \<le> 255"
    "lookup_entry st cs name = Some (e, p)" "\<not> fe_is_dir e" "file_chain st e fs" "fe_size e \<le> length fs * bytes_per_cluster st" "fe_size e < 2 ^ 31"
  shows "\<exists>st1. fat32_read_file name mx st = Some ((int (min (fe_size e) mx), take (min (fe_size e) mx) (file_data st fs)), st1)"
proof -
  obtain h where h: "find_path name st = Some (Some ((hd cs, name), Some (e, p)), st\<lparr>km_heap := h\<rparr>)" "bufs (st\<lparr>km_heap := h\<rparr>)"
    using find_path_plain [OF assms(1-6)] assms(7) by auto
  let ?s = "st\<lparr>km_heap := h\<rparr>" and ?n = "min (fe_size e) mx"
  let ?body = "\<lambda>st1. map_option (\<lambda>bs. ((to_int (length bs), bs), st1)) (read_chain st1 (entry_cluster e) ?n)"
  have rd: "read_chain s (entry_cluster e) ?n = Some (take ?n (file_data st fs))" if "s = st\<lparr>km_heap := h1\<rparr>" for s h1
  proof (cases "2 \<le> entry_cluster e")
    case True
    then have f: "linked st fs" "hd fs = entry_cluster e" using assms(9) by (simp_all add: file_chain_def)
    have "read_chain s (hd fs) ?n = Some (take ?n (file_data s fs))"
      by (rule read_chain_correct) (use that f True assms(1,10) in simp_all)
    then show ?thesis using f(2) by (simp add: that file_data_def)
  next
    case False
    then have "fs = []" using assms(9) by (simp add: file_chain_def)
    then have "?n = 0" using assms(10) by simp
    then show ?thesis by (subst read_chain.simps) simp
  qed
  have len: "length (file_data st fs) = length fs * bytes_per_cluster st"
    by (simp add: file_data_def length_concat comp_def length_cluster_data [OF assms(1)] sum_list_triv)
  have lt: "length (take ?n (file_data st fs)) = ?n" using len assms(10) by simp
  obtain h1 h2 where b: "\<And>r st1. ?body (?s\<lparr>km_heap := h1\<rparr>) = Some (r, st1) \<Longrightarrow> km_heap st1 = h1 \<Longrightarrow> bytes_per_cluster st1 = bytes_per_cluster ?s \<Longrightarrow>
    with_buffer (bytes_per_cluster ?s) (-1, []) ?body ?s = Some (r, st1\<lparr>km_heap := h2\<rparr>)"
    using with_buffer_once [OF h(2), of ?body] by blast
  have "?body (?s\<lparr>km_heap := h1\<rparr>) = Some ((int ?n, take ?n (file_data st fs)), ?s\<lparr>km_heap := h1\<rparr>)"
  proof -
    have "?n < 2 ^ 31" using assms(11) by simp
    then have "to_int (length (take ?n (file_data st fs))) = int ?n" unfolding lt to_int_def by simp
    then show ?thesis using rd [of "?s\<lparr>km_heap := h1\<rparr>" h1] by simp
  qed
  from b [OF this] show ?thesis using h(1) assms(8) by (simp add: fat32_read_file_def fbind_def)
qed

section \<open>Writing a file\<close>

lemma lookup_cong:
  assumes "fixed st st1" "\<And>c. c \<in> set cs \<Longrightarrow> cluster_data st1 (real_cluster st c) = cluster_data st (real_cluster st c)"
  shows "lookup_entry st1 cs name = lookup_entry st cs name"
proof -
  have "slot_entry st1 q = slot_entry st q" if "q \<in> set (slots_of st cs)" for q
  proof -
    obtain c i where q: "q = (c, i)" by (cases q)
    then have "c \<in> set cs" using that by (simp add: set_positions)
    then show ?thesis using assms(2) by (simp add: q slot_entry_def fixed_derived(2) [OF assms(1)])
  qed
  then show ?thesis unfolding lookup_entry_def fixed_derived(5) [OF assms(1)]
    using scan_cong [of "slots_of st cs" "slot_entry st1" "slot_entry st" "find_cb (build_83 name) name" "([], None)"] by simp
qed

lemma lookup_length:
  assumes "geom_ok st" "lookup_entry st cs name = Some (e, p)"
  shows "length e = 32"
proof -
  obtain ps qs where p: "slots_of st cs = ps @ p # qs" "slot_entry st p = e" using scan_find_split [OF assms(2) [unfolded lookup_entry_def]] by blast
  have "p \<in> set (slots_of st cs)" by (simp add: p(1))
  then have "snd p < dir_entries_per_cluster st" unfolding set_positions by auto
  then show ?thesis using epc_fits [OF assms(1), of "snd p"] length_cluster_data [OF assms(1)] p(2) by (auto simp: slot_entry_def)
qed

text \<open>The clusters of an existing file are released first.\<close>

definition released :: "fat32 \<Rightarrow> (u8 list \<times> nat \<times> nat) option \<Rightarrow> fat32" where
  "released st old = (case old of None \<Rightarrow> st | Some (e, _) \<Rightarrow> if entry_cluster e \<ge> 2 then fat32_free_chain (entry_cluster e) st else st)"

lemma released_correct:
  assumes "geom_ok st" "case old of None \<Rightarrow> fs = [] | Some (e, _) \<Rightarrow> file_chain st e fs"
  shows "fixed st (released st old)" "geom_ok (released st old)" "cluster_data (released st old) = cluster_data st" "km_heap (released st old) = km_heap st"
    "fat32_get_entry d (released st old) = (if d \<in> set fs then 0 else fat32_get_entry d st)"
proof -
  have "fixed st (released st old) \<and> geom_ok (released st old) \<and> cluster_data (released st old) = cluster_data st \<and> km_heap (released st old) = km_heap st \<and>
    fat32_get_entry d (released st old) = (if d \<in> set fs then 0 else fat32_get_entry d st)"
  proof (cases "\<exists>e p. old = Some (e, p) \<and> 2 \<le> entry_cluster e")
    case True
    then obtain e p where e: "old = Some (e, p)" "2 \<le> entry_cluster e" by blast
    then have f: "linked st fs" "distinct fs" "hd fs = entry_cluster e" using assms(2) by (simp_all add: file_chain_def)
    note F = free_chain_correct [OF assms(1) f(1,2), unfolded f(3), OF e(2)]
    then show ?thesis using e cluster_data_fat [OF F(1,3)] by (simp add: released_def)
  next
    case False
    then have "released st old = st" "fs = []" using assms(2) by (auto simp: released_def file_chain_def split: option.splits)
    then show ?thesis using assms(1) by simp
  qed
  then show "fixed st (released st old)" "geom_ok (released st old)" "cluster_data (released st old) = cluster_data st" "km_heap (released st old) = km_heap st"
    "fat32_get_entry d (released st old) = (if d \<in> set fs then 0 else fat32_get_entry d st)" by blast+
qed

text \<open>What may be done with a name: a new name has to fit into a short entry, and an existing file has a
  chain of its own.\<close>

definition writable :: "fat32 \<Rightarrow> nat list \<Rightarrow> string \<Rightarrow> nat list \<Rightarrow> bool" where
  "writable st cs name fs \<longleftrightarrow> set fs \<inter> real_cluster st ` set cs = {} \<and>
     (case lookup_entry st cs name of
        None \<Rightarrow> fs = [] \<and> \<not> needs_lfn name \<and> build_83 name ! 0 \<noteq> 0 \<and> build_83 name ! 0 \<noteq> 0xE5
      | Some (e, _) \<Rightarrow> file_chain st e fs \<and> \<not> fe_is_dir e)"

definition clusters_for :: "fat32 \<Rightarrow> u8 list \<Rightarrow> nat" where
  "clusters_for st data = length (pieces (bytes_per_cluster st) data)"

lemma old_usable: "case old of None \<Rightarrow> fs = [] | Some (e, _) \<Rightarrow> file_chain st e fs \<Longrightarrow> c \<in> set fs \<Longrightarrow> usable st c"
proof -
  assume a: "case old of None \<Rightarrow> fs = [] | Some (e, _) \<Rightarrow> file_chain st e fs" and c: "c \<in> set fs"
  then obtain e p where e: "old = Some (e, p)" by (cases old) auto
  then have f: "linked st fs" "2 \<le> hd fs" using a c by (auto simp: file_chain_def split: if_splits)
  have "2 \<le> c" using linked_tl_ge2 [OF f(1), of c] f(2) c by (cases fs) auto
  then show "usable st c" using linked_usable [OF f(1) c] by (simp add: real_ge2)
qed

lemma write_file_steps:
  assumes "find_path name st = Some (Some ((parent, base), old), s0)" "\<not> (case old of None \<Rightarrow> False | Some (e, _) \<Rightarrow> fe_is_dir e)"
    "with_buffer (bytes_per_cluster (released s0 old)) None (write_chain data 0 0) (released s0 old) = Some (Some first, s2)"
    "store_entry parent base old first (length data) s2 = Some (True, s3)" "flush_result (to_int (length data)) s3 = Some (r, st1)"
  shows "fat32_write_file name data st = Some (r, st1)"
  using assms unfolding fat32_write_file_def fbind_def released_def Let_def by simp

definition chain_written :: "u8 list \<Rightarrow> nat list \<Rightarrow> nat \<Rightarrow> fat32 \<Rightarrow> fat32 \<Rightarrow> bool" where
  "chain_written data ws first s1 s2 \<longleftrightarrow> fixed s1 s2 \<and> geom_ok s2 \<and> bufs s2 \<and> vacant s2 \<noteq> {} \<and> distinct ws \<and>
    (\<forall>c \<in> set ws. usable s1 c \<and> fat32_get_entry c s1 = 0) \<and> (ws \<noteq> [] \<longrightarrow> linked s2 ws) \<and>
    map (cluster_data s2) ws = pieces (bytes_per_cluster s1) data \<and> first = (if ws = [] then 0 else hd ws) \<and>
    (\<forall>c. c \<notin> set ws \<longrightarrow> fat32_get_entry c s2 = fat32_get_entry c s1 \<and> (2 \<le> c \<longrightarrow> cluster_data s2 c = cluster_data s1 c))"

lemma chain_writtenD:
  assumes "chain_written data ws first s1 s2"
  shows "fixed s1 s2" "geom_ok s2" "bufs s2" "\<And>c. c \<in> set ws \<Longrightarrow> usable s1 c \<and> fat32_get_entry c s1 = 0" "ws \<noteq> [] \<Longrightarrow> linked s2 ws"
    "map (cluster_data s2) ws = pieces (bytes_per_cluster s1) data" "first = (if ws = [] then 0 else hd ws)" "distinct ws"
    "\<And>c. c \<notin> set ws \<Longrightarrow> fat32_get_entry c s2 = fat32_get_entry c s1 \<and> (2 \<le> c \<longrightarrow> cluster_data s2 c = cluster_data s1 c)" "vacant s2 \<noteq> {}"
  using assms unfolding chain_written_def by blast+

lemma written_chain:
  assumes "geom_ok s1" "bufs s1" "length (pieces (bytes_per_cluster s1) data) < card (vacant s1)"
  shows "\<exists>first s2 ws. with_buffer (bytes_per_cluster s1) None (write_chain data 0 0) s1 = Some (Some first, s2) \<and> chain_written data ws first s1 s2"
proof -
  obtain h1 h2 where b: "\<And>r st1. write_chain data 0 0 (s1\<lparr>km_heap := h1\<rparr>) = Some (r, st1) \<Longrightarrow> km_heap st1 = h1 \<Longrightarrow> bytes_per_cluster st1 = bytes_per_cluster s1 \<Longrightarrow>
    with_buffer (bytes_per_cluster s1) None (write_chain data 0 0) s1 = Some (r, st1\<lparr>km_heap := h2\<rparr>) \<and> bufs (st1\<lparr>km_heap := h2\<rparr>)"
    using with_buffer_once [OF assms(2), of "write_chain data 0 0"] by blast
  let ?s = "s1\<lparr>km_heap := h1\<rparr>"
  have g: "geom_ok ?s" "vacant ?s = vacant s1" using assms(1) by (simp_all add: vacant_def)
  obtain first sx where x: "write_chain data 0 0 ?s = Some (Some first, sx)" "card (vacant sx) + length (pieces (bytes_per_cluster s1) data) = card (vacant s1)"
    using write_chain_succeeds [OF g(1), of 0 0 data] assms(3) g(2) by auto
  obtain ws where w: "wrote data 0 0 ws ?s sx" "first = (if ws = [] then 0 else hd ws)" using write_chain_correct [OF g(1) _ x(1)] by auto
  note W = wroteD [OF w(1)]
  have fx: "fixed s1 sx" using fixed_trans [OF fixed_heap W(1)] .
  have r: "with_buffer (bytes_per_cluster s1) None (write_chain data 0 0) s1 = Some (Some first, sx\<lparr>km_heap := h2\<rparr>)" "bufs (sx\<lparr>km_heap := h2\<rparr>)"
    using b [OF x(1)] W(3) fixed_fields(4) [OF fx] by simp_all
  have "vacant sx \<noteq> {}" using x(2) assms(3) by auto
  then have v: "vacant (sx\<lparr>km_heap := h2\<rparr>) \<noteq> {}" by (simp add: vacant_def)
  have "fixed s1 (sx\<lparr>km_heap := h2\<rparr>)" using fixed_trans [OF fx fixed_heap] .
  then have "chain_written data ws first s1 (sx\<lparr>km_heap := h2\<rparr>)" unfolding chain_written_def using W w(2) r(2) v by simp
  then show ?thesis using r(1) by blast
qed

lemma stored_entry:
  assumes "geom_ok s2" "bufs s2" "dir_ok s2 cs" "lookup_entry s2 cs name = old" "first < 2 ^ 32" "length data < 2 ^ 31"
    "old = None \<Longrightarrow> \<not> needs_lfn name \<and> build_83 name ! 0 \<noteq> 0 \<and> build_83 name ! 0 \<noteq> 0xE5" "vacant s2 \<noteq> {}"
  shows "\<exists>ne s3. store_entry (hd cs) name old first (length data) s2 = Some (True, s3) \<and> stored s2 cs name ne s3 \<and> entry_cluster ne = first \<and>
    fe_size ne = length data \<and> \<not> fe_is_dir ne"
proof -
  have sz: "length data < 2 ^ 32" using assms(6) by simp
  have attr: "fe_is_dir (dirent_image raw ATTR_ARCHIVE first (length data)) = False" if "length raw = 11" for raw
    using dirent_fields(2) [OF that assms(5) sz] by (simp add: fe_is_dir_def)
  show ?thesis
  proof (cases old)
    case None
    let ?ne = "dirent_image (build_83 name) ATTR_ARCHIVE first (length data)"
    note D = dirent_fields [OF length_build_83 [of name] assms(5) sz, of ATTR_ARCHIVE]
    have "\<exists>s3. dir_insert_named (hd cs) name ?ne s2 = Some (True, s3) \<and> stored s2 cs name ?ne s3"
      by (rule store_new [OF assms(1-3)]) (use None assms(4,7,8) D in simp_all)
    then show ?thesis using D attr [OF length_build_83] by (auto simp: None store_entry_def)
  next
    case (Some q)
    then obtain e k i where q: "old = Some (e, k, i)" by (cases q) auto
    have l: "length (take 11 e) = 11" using lookup_length [OF assms(1)] assms(4) q by auto
    let ?ne = "dirent_image (take 11 e) ATTR_ARCHIVE first (length data)"
    note D = dirent_fields [OF l assms(5) sz, of ATTR_ARCHIVE]
    have "\<exists>s3. dir_put_entry k i ?ne s2 = Some (True, s3) \<and> stored s2 cs name ?ne s3"
      by (rule store_existing [OF assms(1-3)]) (use assms(4) q D l in simp_all)
    then show ?thesis using D attr [OF l] dirent_rename [OF length_build_83 l] by (auto simp: q store_entry_def)
  qed
qed

text \<open>Clusters in use outside \<open>ds\<close> keep their table entry and their contents.\<close>

definition kept :: "nat set \<Rightarrow> fat32 \<Rightarrow> fat32 \<Rightarrow> bool" where
  "kept ds st st1 \<longleftrightarrow> (\<forall>c. 2 \<le> c \<and> c \<notin> ds \<and> fat32_get_entry c st \<noteq> 0 \<longrightarrow>
     fat32_get_entry c st1 = fat32_get_entry c st \<and> cluster_data st1 c = cluster_data st c)"

lemma keptD:
  assumes "kept ds st st1" "2 \<le> c" "c \<notin> ds" "fat32_get_entry c st \<noteq> 0"
  shows "fat32_get_entry c st1 = fat32_get_entry c st" "cluster_data st1 c = cluster_data st c"
  using assms by (simp_all add: kept_def)

lemma kept_both: "kept ds st st1 \<Longrightarrow> kept es st1 st2 \<Longrightarrow> kept (ds \<union> es) st st2"
  by (simp add: kept_def)

lemma kept_chain:
  assumes "kept ds st st1" "fixed st st1" "linked st gs" "set gs \<inter> ds = {}" "\<forall>g \<in> set gs. 2 \<le> g"
  shows "linked st1 gs" "map (cluster_data st1) gs = map (cluster_data st) gs"
proof -
  have k: "fat32_get_entry g st1 = fat32_get_entry g st \<and> cluster_data st1 g = cluster_data st g" if "g \<in> set gs" for g
    using keptD [OF assms(1), of g] linked_nonzero [OF assms(3) that] assms(4,5) that by (auto simp: real_ge2)
  then show "map (cluster_data st1) gs = map (cluster_data st) gs" by simp
  show "linked st1 gs" by (rule linked_cong [OF assms(3,2)]) (use assms(5) k in \<open>auto simp: real_ge2\<close>)
qed

lemma writableD:
  assumes "writable st cs name fs"
  shows "set fs \<inter> real_cluster st ` set cs = {}" "case lookup_entry st cs name of None \<Rightarrow> fs = [] | Some (e, _) \<Rightarrow> file_chain st e fs"
    "\<not> (case lookup_entry st cs name of None \<Rightarrow> False | Some (e, _) \<Rightarrow> fe_is_dir e)"
    "lookup_entry st cs name = None \<Longrightarrow> \<not> needs_lfn name \<and> build_83 name ! 0 \<noteq> 0 \<and> build_83 name ! 0 \<noteq> 0xE5"
  using assms by (auto simp: writable_def split: option.splits)

lemma dir_clusters:
  assumes "dir_ok st cs" "writable st cs name fs" "c \<in> set cs"
  shows "2 \<le> real_cluster st c" "real_cluster st c \<notin> set fs" "fat32_get_entry (real_cluster st c) st \<noteq> 0"
proof -
  have l: "linked st cs" using assms(1) by (simp add: dir_ok_def)
  show "2 \<le> real_cluster st c" "real_cluster st c \<notin> set fs" "fat32_get_entry (real_cluster st c) st \<noteq> 0"
    using linked_usable [OF l assms(3)] linked_nonzero [OF l assms(3)] writableD(1) [OF assms(2)] assms(3) by (auto simp: usable_def)
qed

lemma slots_kept:
  assumes "dir_ok st cs" "writable st cs name fs" "fixed st s2" "kept (set fs) st s2" "q \<in> set (slots_of st cs)"
  shows "slot_entry s2 q = slot_entry st q"
proof -
  obtain c i where q: "q = (c, i)" by (cases q)
  then have "c \<in> set cs" using assms(5) by (simp add: set_positions)
  then show ?thesis using keptD(2) [OF assms(4) dir_clusters [OF assms(1,2)]] by (simp add: q slot_entry_def fixed_derived(2) [OF assms(3)])
qed

lemma dir_kept:
  assumes "dir_ok st cs" "writable st cs name fs" "fixed st s2" "kept (set fs) st s2"
  shows "dir_ok s2 cs" "lookup_entry s2 cs name = lookup_entry st cs name"
proof -
  note k = keptD [OF assms(4) dir_clusters [OF assms(1,2)]]
  show "dir_ok s2 cs" by (rule dir_ok_cong [OF assms(1,3)]) (use k in blast)
  show "lookup_entry s2 cs name = lookup_entry st cs name" by (rule lookup_cong [OF assms(3)]) (use k in blast)
qed

text \<open>A write up to the point where the data is on the disk and the entry is not.\<close>

definition data_placed :: "fat32 \<Rightarrow> nat list \<Rightarrow> string \<Rightarrow> u8 list \<Rightarrow> nat list \<Rightarrow> nat list \<Rightarrow> nat \<Rightarrow> fat32 \<Rightarrow> fat32 \<Rightarrow> bool" where
  "data_placed st cs name data fs ws first s1 s2 \<longleftrightarrow> chain_written data ws first s1 s2 \<and> geom_ok s1 \<and> fixed st s1 \<and> kept (set fs) st s2 \<and>
     set ws \<inter> real_cluster st ` set cs = {}"

lemma place_data:
  assumes "geom_ok st" "bufs st" "dir_ok st cs" "hd cs = cwd_cluster st" "CHR ''/'' \<notin> set name" "length name \<le> 255"
    "writable st cs name fs" "clusters_for st data < card (vacant st \<union> set fs)"
  shows "\<exists>h first s2 ws. find_path name st = Some (Some ((hd cs, name), lookup_entry st cs name), st\<lparr>km_heap := h\<rparr>) \<and>
    with_buffer (bytes_per_cluster (released (st\<lparr>km_heap := h\<rparr>) (lookup_entry st cs name))) None (write_chain data 0 0)
      (released (st\<lparr>km_heap := h\<rparr>) (lookup_entry st cs name)) = Some (Some first, s2) \<and>
    data_placed st cs name data fs ws first (released (st\<lparr>km_heap := h\<rparr>) (lookup_entry st cs name)) s2"
proof -
  let ?L = "lookup_entry st cs name"
  have l: "linked st cs" using assms(3) by (simp add: dir_ok_def)
  note V = writableD [OF assms(7)]
  obtain h where h: "find_path name st = Some (Some ((hd cs, name), ?L), st\<lparr>km_heap := h\<rparr>)" "bufs (st\<lparr>km_heap := h\<rparr>)"
    using find_path_plain [OF assms(1,2) l assms(4-6)] by blast
  define s1 where "s1 = released (st\<lparr>km_heap := h\<rparr>) ?L"
  have old1: "case ?L of None \<Rightarrow> fs = [] | Some (e, _) \<Rightarrow> file_chain (st\<lparr>km_heap := h\<rparr>) e fs"
    using V(2) by (auto simp: file_chain_def split: option.split)
  have g0: "geom_ok (st\<lparr>km_heap := h\<rparr>)" using assms(1) by simp
  note A = released_correct [OF g0 old1, folded s1_def, simplified]
  have f1: "fixed st s1" using fixed_trans [OF fixed_heap A(1)] .
  have b1: "bufs s1" using h(2) A(4) fixed_fields(4) [OF f1] by (simp add: bufs_def)
  have "vacant st \<union> set fs \<subseteq> vacant s1"
    using A(5) fixed_derived(1) [OF f1] old_usable [OF V(2)] by (auto simp: vacant_def)
  then have "card (vacant st \<union> set fs) \<le> card (vacant s1)" by (intro card_mono) simp_all
  then have "length (pieces (bytes_per_cluster s1) data) < card (vacant s1)" using assms(8) fixed_fields(4) [OF f1] by (simp add: clusters_for_def)
  then obtain first s2 ws where wb: "with_buffer (bytes_per_cluster s1) None (write_chain data 0 0) s1 = Some (Some first, s2)"
    and cw: "chain_written data ws first s1 s2" using written_chain [OF A(2) b1] by blast
  note W = chain_writtenD [OF cw]
  have k: "kept (set fs) st s2"
    unfolding kept_def
  proof (intro allI impI)
    fix c assume "2 \<le> c \<and> c \<notin> set fs \<and> fat32_get_entry c st \<noteq> 0"
    then show "fat32_get_entry c s2 = fat32_get_entry c st \<and> cluster_data s2 c = cluster_data st c" using W(4,9) [of c] A(5) [of c] A(3) by (auto simp: fun_eq_iff)
  qed
  have "c \<notin> real_cluster st ` set cs" if "c \<in> set ws" for c
    using W(4) [OF that] A(5) [of c] dir_clusters(2,3) [OF assms(3,7)] by (fastforce split: if_splits)
  then have "data_placed st cs name data fs ws first s1 s2" unfolding data_placed_def using cw A(2) f1 k by blast
  then show ?thesis using h(1) wb unfolding s1_def by blast
qed

lemma data_placedD:
  assumes "data_placed st cs name data fs ws first s1 s2"
  shows "chain_written data ws first s1 s2" "geom_ok s1" "fixed st s1" "kept (set fs) st s2" "set ws \<inter> real_cluster st ` set cs = {}" "fixed st s2" "first < 2 ^ 32"
    "\<forall>c \<in> set ws. 2 \<le> c"
proof -
  show p: "chain_written data ws first s1 s2" "geom_ok s1" "fixed st s1" "kept (set fs) st s2" "set ws \<inter> real_cluster st ` set cs = {}"
    using assms unfolding data_placed_def by blast+
  note W = chain_writtenD [OF p(1)]
  show "fixed st s2" using fixed_trans [OF p(3) W(1)] .
  show "\<forall>c \<in> set ws. 2 \<le> c" using W(4) by (simp add: usable_def)
  show "first < 2 ^ 32"
  proof (cases "ws = []")
    case False
    then have "usable s1 (hd ws)" using W(4) by simp
    then show ?thesis using usable_bounds [OF p(2)] False W(7) by fastforce
  qed (simp add: W(7))
qed

text \<open>The file as it is in the end.\<close>

definition saved :: "fat32 \<Rightarrow> nat list \<Rightarrow> string \<Rightarrow> u8 list \<Rightarrow> nat list \<Rightarrow> fat32 \<Rightarrow> bool" where
  "saved st cs name data fs st1 \<longleftrightarrow> fixed st st1 \<and> geom_ok st1 \<and> bufs st1 \<and> kept (set fs \<union> real_cluster st ` set cs) st st1 \<and>
     entries_kept st cs name st1 \<and>
     (\<exists>es p ne ws. linked st1 (cs @ es) \<and> lookup_entry st1 (cs @ es) name = Some (ne, p) \<and> file_chain st1 ne ws \<and> \<not> fe_is_dir ne \<and>
        fe_size ne = length data \<and> file_data st1 ws = concat (pieces (bytes_per_cluster st1) data) \<and> length ws = length (pieces (bytes_per_cluster st1) data))"

lemma placed_file:
  assumes "data_placed st cs name data fs ws first s1 s2" "fixed s2 st1" "kept (real_cluster st ` set cs) s2 st1" "entry_cluster ne = first"
  shows "file_chain st1 ne ws" "file_data st1 ws = concat (pieces (bytes_per_cluster st1) data)" "length ws = length (pieces (bytes_per_cluster st1) data)"
proof -
  note p = data_placedD [OF assms(1)]
  note W = chain_writtenD [OF p(1)]
  have n: "bytes_per_cluster st1 = bytes_per_cluster s1" using fixed_fields(4) [OF W(1)] fixed_fields(4) [OF assms(2)] by simp
  have k: "linked st1 ws" "map (cluster_data st1) ws = map (cluster_data s2) ws" if "ws \<noteq> []"
    using kept_chain [OF assms(3,2) W(5) [OF that] p(5,8)] by simp_all
  then have m: "map (cluster_data st1) ws = pieces (bytes_per_cluster st1) data" using W(6) n by (cases "ws = []") simp_all
  then show "file_data st1 ws = concat (pieces (bytes_per_cluster st1) data)" by (simp add: file_data_def)
  show "length ws = length (pieces (bytes_per_cluster st1) data)" using m by (metis length_map)
  show "file_chain st1 ne ws"
  proof (cases "ws = []")
    case False
    then have "2 \<le> hd ws" using p(8) by simp
    then show ?thesis using False k(1) assms(4) W(7,8) by (simp add: file_chain_def)
  qed (use assms(4) W(7) in \<open>simp add: file_chain_def\<close>)
qed

lemma fat32_write_correct:
  assumes "geom_ok st" "bufs st" "dir_ok st cs" "hd cs = cwd_cluster st" "CHR ''/'' \<notin> set name" "length name \<le> 255"
    "writable st cs name fs" "clusters_for st data < card (vacant st \<union> set fs)" "length data < 2 ^ 31"
  shows "\<exists>st1. fat32_write_file name data st = Some (int (length data), st1) \<and> saved st cs name data fs st1"
proof -
  let ?L = "lookup_entry st cs name" and ?R = "real_cluster st ` set cs"
  note V = writableD [OF assms(7)]
  obtain h first s2 ws where f: "find_path name st = Some (Some ((hd cs, name), ?L), st\<lparr>km_heap := h\<rparr>)"
    and wb: "with_buffer (bytes_per_cluster (released (st\<lparr>km_heap := h\<rparr>) ?L)) None (write_chain data 0 0) (released (st\<lparr>km_heap := h\<rparr>) ?L) = Some (Some first, s2)"
    and pl: "data_placed st cs name data fs ws first (released (st\<lparr>km_heap := h\<rparr>) ?L) s2" using place_data [OF assms(1-8)] by blast
  note p = data_placedD [OF pl]
  note W = chain_writtenD [OF p(1)] and D = dir_kept [OF assms(3,7) p(6,4)]
  obtain ne s3 where E: "stored s2 cs name ne s3" "entry_cluster ne = first" "fe_size ne = length data" "\<not> fe_is_dir ne"
    and se: "store_entry (hd cs) name ?L first (length data) s2 = Some (True, s3)"
    using stored_entry [OF W(2,3) D p(7) assms(9) V(4) W(10)] by blast
  obtain es q where T: "fixed s2 s3" "geom_ok s3" "bufs s3" "entries_kept s2 cs name s3" "dir_ok s3 (cs @ es)" "lookup_entry s3 (cs @ es) name = Some (ne, q)"
    "kept (real_cluster s2 ` set cs) s2 s3"
    using E(1) unfolding stored_def kept_def by blast
  obtain st1 where fl: "flush_result (to_int (length data)) s3 = Some (to_int (length data), st1)"
    and F: "fixed s3 st1" "geom_ok st1" "bufs st1" "\<And>c. fat32_get_entry c st1 = fat32_get_entry c s3" "\<And>c. cluster_data st1 c = cluster_data s3 c"
    using flush_correct [OF T(2,3), of "to_int (length data)"] by blast
  have wf: "fat32_write_file name data st = Some (int (length data), st1)"
    using write_file_steps [OF f V(3) wb se fl] assms(9) by (simp add: to_int_def)
  have fx: "fixed s2 st1" "fixed st st1" using fixed_trans [OF T(1) F(1)] fixed_trans [OF p(6) fixed_trans [OF T(1) F(1)]] .
  have k: "kept ?R s2 st1" using T(7) F(4,5) fixed_derived(2) [OF p(6)] by (simp add: kept_def)
  have ds: "linked st1 (cs @ es)" by (rule linked_cong [OF _ F(1)]) (use T(5) F(4) in \<open>simp_all add: dir_ok_def\<close>)
  have "slot_entry st1 x = slot_entry s3 x" for x using F(5) fixed_derived(2) [OF F(1)] by (simp add: slot_entry_def)
  then have ek: "entries_kept st cs name st1" using T(4) slots_kept [OF assms(3,7) p(6,4)] D(2) fixed_derived(5) [OF p(6)] by (simp add: entries_kept_def)
  have "lookup_entry st1 (cs @ es) name = Some (ne, q)" using lookup_cong [OF F(1), of "cs @ es" name] F(5) T(6) by simp
  then have "saved st cs name data fs st1"
    unfolding saved_def using fx(2) F(2,3) kept_both [OF p(4) k] ek ds placed_file [OF pl fx(1) k E(2)] E(3,4) by blast
  then show ?thesis using wf by blast
qed

text \<open>C38. On a mounted volume whose table and geometry are sound and whose heap has room for the driver's
  buffers, let a name without slashes be written in the working directory, where it is either the name
  of a file with a chain of its own or a new name that fits into a short entry; there are clusters for
  the data and one more, and the data is shorter than 2 GB. Then the write succeeds, and a read of that
  name returns what was written, or as much of it as is asked for: the table's chain, the clusters on
  disk and the directory entry agree, whether the file is new, replaces a shorter or longer one or
  needs the directory to grow. In the directory, whose chain is the old one or a longer one, every
  entry in use other than the one the name found is as before, and every chain that has no cluster in
  common with the replaced file or with the directory keeps its links and its contents.\<close>

theorem fat32_write_read:
  assumes "geom_ok st" "bufs st" "dir_ok st cs" "hd cs = cwd_cluster st" "CHR ''/'' \<notin> set name" "length name \<le> 255" "length data < 2 ^ 31"
    "writable st cs name fs" "clusters_for st data < card (vacant st \<union> set fs)"
  shows "\<exists>st1. fat32_write_file name data st = Some (int (length data), st1) \<and> (\<exists>st2. fat32_read_file name mx st1 = Some ((int (length (take mx data)), take mx data), st2)) \<and>
    (\<exists>es. linked st1 (cs @ es)) \<and> entries_kept st cs name st1 \<and>
    (\<forall>gs. linked st gs \<and> set gs \<inter> (set fs \<union> real_cluster st ` set cs) = {} \<and> (\<forall>g \<in> set gs. 2 \<le> g) \<longrightarrow>
       linked st1 gs \<and> file_data st1 gs = file_data st gs)"
proof -
  obtain st1 where w: "fat32_write_file name data st = Some (int (length data), st1)" and s: "saved st cs name data fs st1"
    using fat32_write_correct [OF assms(1-6,8,9,7)] by blast
  obtain es p ne ws where S: "fixed st st1" "geom_ok st1" "bufs st1" "kept (set fs \<union> real_cluster st ` set cs) st st1" "entries_kept st cs name st1" "linked st1 (cs @ es)"
    "lookup_entry st1 (cs @ es) name = Some (ne, p)" "file_chain st1 ne ws" "\<not> fe_is_dir ne" "fe_size ne = length data"
    "file_data st1 ws = concat (pieces (bytes_per_cluster st1) data)" "length ws = length (pieces (bytes_per_cluster st1) data)"
    using s unfolding saved_def by blast
  have n0: "0 < bytes_per_cluster st1" using geom_okD(1,2) [OF S(2)] by simp
  have fit: "fe_size ne \<le> length ws * bytes_per_cluster st1" using length_pieces [OF n0, of data] S(10,12) by simp
  have "cs \<noteq> []" using assms(3) by (auto simp: dir_ok_def)
  then have "hd (cs @ es) = cwd_cluster st1" using assms(4) fixed_fields(7) [OF S(1)] by simp
  moreover have "fe_size ne < 2 ^ 31" using S(10) assms(7) by simp
  ultimately obtain st2 where "fat32_read_file name mx st1 = Some ((int (min (fe_size ne) mx), take (min (fe_size ne) mx) (file_data st1 ws)), st2)"
    using fat32_read_correct [OF S(2,3,6) _ assms(5,6) S(7,9,8) fit] by blast
  moreover have "take (min (length data) mx) (file_data st1 ws) = take mx data"
  proof -
    have "take (min (length data) mx) (file_data st1 ws) = take mx (take (length data) (file_data st1 ws))" by (simp add: min.commute)
    then show ?thesis using concat_pieces [OF n0, of data] by (simp add: S(11))
  qed
  ultimately have "\<exists>st2. fat32_read_file name mx st1 = Some ((int (length (take mx data)), take mx data), st2)" using S(10) by (auto simp: min.commute)
  moreover have "linked st1 gs \<and> file_data st1 gs = file_data st gs"
    if "linked st gs" "set gs \<inter> (set fs \<union> real_cluster st ` set cs) = {}" "\<forall>g \<in> set gs. 2 \<le> g" for gs
    using kept_chain [OF S(4,1) that] by (simp only: file_data_def)
  ultimately show ?thesis using w S(5,6) by blast
qed

section \<open>A small volume\<close>

text \<open>Three clusters of one sector; the first is the empty root directory.\<close>

definition small_fat :: "u32 list" where
  "small_fat = replicate 3 0x0FFFFFF8 @ [0, 0] @ replicate 123 0x0FFFFFF8"

definition small_volume :: fat32 where
  "small_volume = \<lparr>km_heap = sample_heap, km_bytes = (\<lambda>_. 0),
     f_drive = \<lparr>d_present = True, d_lba48 = False, d_total = 0, d_sec = (\<lambda>_. zeros 512), d_good = (\<lambda>_. True), d_log = []\<rparr>,
     f_mounted = True,
     f_bpb = \<lparr>bytes_per_sector = 512, sectors_per_cluster = 1, reserved_sectors = 1, num_fats = 1, total_sectors_16 = 5, total_sectors_32 = 0,
       bpb_sectors_per_fat = 1, bpb_root_cluster = 2, fs_type = []\<rparr>,
     f_fat = small_fat, fat_start = 1, data_lba = 2, root_cluster = 2, bytes_per_cluster = 512, sectors_per_fat = 1,
     total_clusters_count = 3, part_lba = 0, cwd_cluster = 0\<rparr>"

lemma small_entry: "fat32_get_entry c small_volume = (if c = 3 \<or> c = 4 then 0 else FAT32_EOC)"
proof -
  have "length small_fat = 128" by (simp add: small_fat_def)
  moreover have "small_fat ! c = (if c = 3 \<or> c = 4 then 0 else 0x0FFFFFF8)" if "c < 128"
    using that by (auto simp: small_fat_def nth_append nth_Cons')
  ultimately show ?thesis by (cases "c < 128") (simp_all add: fat32_get_entry_def small_volume_def)
qed

lemma small_geom: "geom_ok small_volume"
  unfolding geom_ok_def small_entry
  by (simp add: layout_ok_def volume_end_def reaches_def small_volume_def small_fat_def)

lemma small_usable: "usable small_volume c \<longleftrightarrow> c = 2 \<or> c = 3 \<or> c = 4"
  by (auto simp: usable_def small_volume_def small_fat_def)

lemma small_bufs: "bufs small_volume"
  unfolding bufs_def buffer_room_def using sample_heap_ok
  by (auto simp: small_volume_def fits_u32_def ALIGN8_def u32_add_def intro!: exI [of _ sample_blocks])

lemma small_dir: "dir_ok small_volume [0]"
  by (simp add: dir_ok_def small_usable real_cluster_def small_entry) (simp add: small_volume_def)

lemma small_lookup: "lookup_entry small_volume [0] ''a'' = None"
proof -
  have "dir_entries_per_cluster small_volume = 16" by (simp add: dir_entries_per_cluster_def small_volume_def)
  moreover have "[0..<16] = 0 # [1..<16]" by (simp add: upt_conv_Cons)
  moreover have "slot_entry small_volume (0, 0) ! 0 = 0"
    by (simp add: slot_entry_def cluster_data_def sectors_def small_volume_def zeros_def)
  ultimately show ?thesis by (simp add: lookup_entry_def)
qed

theorem fat32_write_read_witness:
  "\<exists>st1 st2. fat32_write_file ''a'' [7] small_volume = Some (1, st1) \<and> fat32_read_file ''a'' 10 st1 = Some ((1, [7]), st2)"
proof -
  have w: "writable small_volume [0] ''a'' []"
    by (simp add: writable_def small_lookup needs_lfn_def split_dot_def build_83_def spaced_def up_case_def byte_of_def)
  have "vacant small_volume = {3, 4}" by (auto simp: vacant_def small_usable small_entry)
  moreover have "clusters_for small_volume [7] = 1" by (simp add: clusters_for_def pieces.simps) (simp add: small_volume_def)
  ultimately have "clusters_for small_volume [7] < card (vacant small_volume \<union> set [])" by simp
  then show ?thesis
    using fat32_write_read [OF small_geom small_bufs small_dir _ _ _ _ w, of "[7]" 10] by (auto simp: small_volume_def)
qed

section \<open>Names that share a short form\<close>

lemma scan_find_other:
  assumes "scan (find_cb raw name) ent ps (segs, None) = (None, segs1, None)"
  shows "snd (snd (scan (find_cb raw name2) ent ps (segs, None))) \<noteq> None \<or> scan (find_cb raw name2) ent ps (segs, None) = (None, segs1, None)"
  using assms
proof (induction ps arbitrary: segs)
  case (Cons p ps)
  note IH = Cons.IH [of "[]"] Cons.IH [of "if length segs < LFN_MAX_SEGS then segs @ [ent p] else segs"]
  show ?case
  proof (cases "ent p ! 0 = 0xE5 \<or> fe_attr (ent p) = ATTR_LFN")
    case True
    then show ?thesis using Cons.prems IH by (auto simp del: not_None_eq)
  next
    case False
    then show ?thesis using Cons.prems IH by (simp add: find_cb_def split: if_splits)
  qed
qed simp

lemma lookup_same_short:
  assumes "lookup_entry st cs name = Some (e, p)" "take 11 e = build_83 name" "build_83 name2 = build_83 name"
  shows "lookup_entry st cs name2 \<noteq> None"
proof -
  let ?raw = "build_83 name"
  obtain ps qs segs where s: "slots_of st cs = ps @ p # qs" "scan (find_cb ?raw name) (slot_entry st) ps ([], None) = (None, segs, None)"
    "slot_entry st p = e" "e ! 0 \<noteq> 0" "e ! 0 \<noteq> 0xE5" "fe_attr e \<noteq> ATTR_LFN"
    using scan_find_split [OF assms(1) [unfolded lookup_entry_def]] by blast
  consider "snd (snd (scan (find_cb ?raw name2) (slot_entry st) ps ([], None))) \<noteq> None"
    | "scan (find_cb ?raw name2) (slot_entry st) ps ([], None) = (None, segs, None)" using scan_find_other [OF s(2)] by blast
  then show ?thesis
  proof cases
    case 1
    obtain r a where r: "scan (find_cb ?raw name2) (slot_entry st) ps ([], None) = (r, a)" by (cases "scan (find_cb ?raw name2) (slot_entry st) ps ([], None)")
    then obtain x where "r = Some x" using 1 scan_find_exit [of ?raw name2 "slot_entry st" ps "[]"] by (cases r) auto
    then show ?thesis using 1 r by (auto simp: lookup_entry_def assms(3) s(1) scan_append simp del: scan.simps)
  next
    case 2
    have "name_matches ?raw name2 e x" for x using assms(2) by (simp add: name_matches_def)
    then have "scan (find_cb ?raw name2) (slot_entry st) (p # qs) (segs, None) = (Some (-1), [], Some (e, p))" using scan_find_hit [of "slot_entry st" p] s(3-6) by simp
    then show ?thesis using 2 by (simp add: lookup_entry_def assms(3) s(1) scan_append del: scan.simps)
  qed
qed

text \<open>C40. A long name is taken for the file whose short name is its truncated form: in a directory that holds
  \<open>longfile.txt\<close>, the search for \<open>longfilename.txt\<close> succeeds although no such file was ever made, so
  writing the latter replaces the contents of the former.\<close>

theorem long_name_taken:
  assumes "geom_ok st" "bufs st" "linked st cs" "dir_find_lfn (hd cs) (build_83 ''longfile.txt'') ''longfile.txt'' st = Some (Some (e, p), st1)"
    "take 11 e = build_83 ''longfile.txt''"
  shows "needs_lfn ''longfilename.txt'' \<and> (\<exists>q st2. dir_find_lfn (hd cs) (build_83 ''longfilename.txt'') ''longfilename.txt'' st = Some (Some q, st2))"
proof -
  have raw: "build_83 ''longfilename.txt'' = build_83 ''longfile.txt''"
    by (simp add: build_83_def split_dot_def spaced_def short_ext_def Let_def)
  have "lookup_entry st cs ''longfile.txt'' = Some (e, p)" using dir_find_correct [OF assms(1-3), of "''longfile.txt''"] assms(4) by auto
  then have "lookup_entry st cs ''longfilename.txt'' \<noteq> None" using lookup_same_short assms(5) raw by blast
  moreover have "needs_lfn ''longfilename.txt''" by (simp add: needs_lfn_def split_dot_def Let_def)
  ultimately show ?thesis using dir_find_correct [OF assms(1-3), of "''longfilename.txt''"] by auto
qed

text \<open>The same volume with one file in its root directory.\<close>

definition named_volume :: fat32 where
  "named_volume = small_volume\<lparr>f_drive := f_drive small_volume\<lparr>d_sec := (\<lambda>_. dirent_image (build_83 ''longfile.txt'') 0x20 0 0 @ zeros 480)\<rparr>\<rparr>"

lemma named_entry: "fat32_get_entry c named_volume = (if c = 3 \<or> c = 4 then 0 else FAT32_EOC)"
proof -
  have "fat32_get_entry c named_volume = fat32_get_entry c small_volume" by (simp add: fat32_get_entry_def named_volume_def)
  then show ?thesis by (simp only: small_entry)
qed

lemma named_geom: "geom_ok named_volume"
  unfolding geom_ok_def named_entry
  by (simp add: layout_ok_def volume_end_def reaches_def named_volume_def small_volume_def small_fat_def)

lemma named_bufs: "bufs named_volume"
  using small_bufs by (simp add: bufs_def named_volume_def)

lemma named_linked: "linked named_volume [0]"
proof -
  have "usable named_volume 2" by (simp add: usable_def named_volume_def small_volume_def small_fat_def)
  moreover have "real_cluster named_volume 0 = 2" by (simp add: real_cluster_def named_volume_def small_volume_def)
  ultimately show ?thesis by (simp add: named_entry)
qed

lemma named_lookup: "lookup_entry named_volume [0] ''longfile.txt'' = Some (dirent_image (build_83 ''longfile.txt'') 0x20 0 0, (0, 0))"
proof -
  let ?raw = "build_83 ''longfile.txt''"
  let ?e = "dirent_image ?raw 0x20 0 0"
  have raw: "length ?raw = 11" "?raw ! 0 = 0x4C" by (simp_all add: build_83_def split_dot_def spaced_def up_case_def byte_of_def short_ext_def Let_def)
  note e = dirent_fields [OF raw(1), of 0 0 "0x20"]
  have "dir_entries_per_cluster named_volume = 16" by (simp add: dir_entries_per_cluster_def named_volume_def small_volume_def)
  then have ps: "slots_of named_volume [0] = (0, 0) # map (Pair 0) [1..<16]" by (simp add: upt_conv_Cons)
  have s: "slot_entry named_volume (0, 0) = ?e"
    using raw(1) by (simp add: slot_entry_def cluster_data_def sectors_def named_volume_def small_volume_def)
  have "name_matches ?raw ''longfile.txt'' ?e x" for x using e(1) by (simp add: name_matches_def)
  then show ?thesis unfolding lookup_entry_def ps using scan_find_hit [of "slot_entry named_volume" "(0, 0)"] e raw(2) by (simp add: s del: scan.simps)
qed

theorem long_name_taken_witness:
  "\<exists>q st. dir_find_lfn 0 (build_83 ''longfilename.txt'') ''longfilename.txt'' named_volume = Some (Some q, st)"
proof -
  let ?e = "dirent_image (build_83 ''longfile.txt'') 0x20 0 0"
  obtain h where "dir_find_lfn (hd [0]) (build_83 ''longfile.txt'') ''longfile.txt'' named_volume = Some (Some (?e, (0, 0)), named_volume\<lparr>km_heap := h\<rparr>)"
    using dir_find_correct [OF named_geom named_bufs named_linked, of "''longfile.txt''"] named_lookup by auto
  then show ?thesis using long_name_taken [OF named_geom named_bufs named_linked, of ?e] by (auto simp: dirent_fields)
qed

end
