(* ===== verification/Ext2.thy ===== *)
theory Ext2
  imports Fs_Ops Platform
begin

text \<open>
  \<open>src/ext2.c\<close>, the lower half: the write-through block cache, bitmaps, inodes and the mapping of file
  blocks.  The state is the driver's static variables, the disk and the kernel heap.  The superblock
  and the group descriptors are the raw bytes the code overlays its structures on.  \<open>bread\<close> returns
  the contents of the cached block; where the code changes a block in place it always writes it back
  at once with \<open>bwrite\<close>, which here gets the changed contents.  A result \<open>None\<close> is an access outside
  an array; the code's error values are options, \<open>False\<close> or \<open>-1\<close> inside.
\<close>

section \<open>State\<close>

record cache_ent =
  ce_blk :: nat
  ce_stamp :: nat
  ce_valid :: bool
  ce_data :: "u8 list"

record ext2 = kmem +
  e_drive :: drive
  e_clock :: rtc_time
  e_mounted :: bool
  e_writable :: bool
  part_lba :: nat
  sb_raw :: "u8 list"
  sb_dirty :: bool
  block_size :: nat
  spb :: nat
  ppb :: nat
  inode_size :: nat
  group_count :: nat
  gdt_start :: nat
  gdt_blocks :: nat
  has_filetype :: bool
  first_ino :: nat
  gdt_raw :: "u8 list"
  gdt_dirty_lo :: int
  gdt_dirty_hi :: int
  e_cache :: "cache_ent list"
  cache_clock :: nat

type_synonym 'a eop = "('a, ext2) fsop"

abbreviation (input) EXT2_ROOT_INO :: nat where "EXT2_ROOT_INO \<equiv> 2"
abbreviation (input) EXT2_NDIR :: nat where "EXT2_NDIR \<equiv> 12"
abbreviation (input) CACHE_N :: nat where "CACHE_N \<equiv> 64"

text \<open>Fields of the superblock and of group descriptor \<open>g\<close>, by offset and width.\<close>

abbreviation (input) sb_inodes_count :: "ext2 \<Rightarrow> nat" where "sb_inodes_count st \<equiv> field (sb_raw st) 0 4"
abbreviation (input) sb_blocks_count :: "ext2 \<Rightarrow> nat" where "sb_blocks_count st \<equiv> field (sb_raw st) 4 4"
abbreviation (input) sb_free_blocks :: "ext2 \<Rightarrow> nat" where "sb_free_blocks st \<equiv> field (sb_raw st) 12 4"
abbreviation (input) sb_free_inodes :: "ext2 \<Rightarrow> nat" where "sb_free_inodes st \<equiv> field (sb_raw st) 16 4"
abbreviation (input) sb_first_data_block :: "ext2 \<Rightarrow> nat" where "sb_first_data_block st \<equiv> field (sb_raw st) 20 4"
abbreviation (input) sb_blocks_per_group :: "ext2 \<Rightarrow> nat" where "sb_blocks_per_group st \<equiv> field (sb_raw st) 32 4"
abbreviation (input) sb_inodes_per_group :: "ext2 \<Rightarrow> nat" where "sb_inodes_per_group st \<equiv> field (sb_raw st) 40 4"

definition gd :: "ext2 \<Rightarrow> nat \<Rightarrow> nat \<Rightarrow> nat \<Rightarrow> nat" where
  "gd st g off w = field (gdt_raw st) (32 * g + off) w"

abbreviation (input) gd_block_bitmap :: "ext2 \<Rightarrow> nat \<Rightarrow> nat" where "gd_block_bitmap st g \<equiv> gd st g 0 4"
abbreviation (input) gd_inode_bitmap :: "ext2 \<Rightarrow> nat \<Rightarrow> nat" where "gd_inode_bitmap st g \<equiv> gd st g 4 4"
abbreviation (input) gd_inode_table :: "ext2 \<Rightarrow> nat \<Rightarrow> nat" where "gd_inode_table st g \<equiv> gd st g 8 4"
abbreviation (input) gd_free_blocks :: "ext2 \<Rightarrow> nat \<Rightarrow> nat" where "gd_free_blocks st g \<equiv> gd st g 12 2"
abbreviation (input) gd_free_inodes :: "ext2 \<Rightarrow> nat \<Rightarrow> nat" where "gd_free_inodes st g \<equiv> gd st g 14 2"
abbreviation (input) gd_used_dirs :: "ext2 \<Rightarrow> nat \<Rightarrow> nat" where "gd_used_dirs st g \<equiv> gd st g 16 2"

definition set_sb :: "nat \<Rightarrow> nat \<Rightarrow> ext2 \<Rightarrow> ext2" where
  "set_sb off v st = st\<lparr>sb_raw := set_bytes (sb_raw st) off (le_image 4 v), sb_dirty := True\<rparr>"

definition set_gd :: "nat \<Rightarrow> nat \<Rightarrow> nat \<Rightarrow> ext2 \<Rightarrow> ext2" where
  "set_gd g off v st = st\<lparr>gdt_raw := set_bytes (gdt_raw st) (32 * g + off) (le_image 2 v)\<rparr>"

section \<open>Blocks and the cache\<close>

definition dev_read :: "nat \<Rightarrow> nat \<Rightarrow> ext2 \<Rightarrow> u8 list option" where
  "dev_read blk count st = ata_read (u32_add (part_lba st) (u32_mul blk (spb st))) (u32_mul count (spb st)) (e_drive st)"

definition dev_write :: "nat \<Rightarrow> nat \<Rightarrow> u8 list \<Rightarrow> bool eop" where
  "dev_write blk count buf st =
     (let (ok, d) = ata_write (u32_add (part_lba st) (u32_mul blk (spb st))) (u32_mul count (spb st)) buf (e_drive st)
      in Some (ok, st\<lparr>e_drive := d\<rparr>))"

definition cache_find :: "cache_ent list \<Rightarrow> nat \<Rightarrow> nat option" where
  "cache_find c blk = List.find (\<lambda>i. ce_valid (c ! i) \<and> ce_blk (c ! i) = blk) [0..<length c]"

definition cache_victim :: "cache_ent list \<Rightarrow> nat" where
  "cache_victim c =
     (case List.find (\<lambda>i. \<not> ce_valid (c ! i)) [0..<length c] of
        Some i \<Rightarrow> i
      | None \<Rightarrow> fold (\<lambda>i v. if ce_stamp (c ! i) < ce_stamp (c ! v) then i else v) [0..<length c] 0)"

definition upd_ent :: "nat \<Rightarrow> (cache_ent \<Rightarrow> cache_ent) \<Rightarrow> ext2 \<Rightarrow> ext2" where
  "upd_ent i f st = st\<lparr>e_cache := (e_cache st)[i := f (e_cache st ! i)]\<rparr>"

text \<open>\<open>e->stamp = ++cache_clock\<close>\<close>

definition touch :: "nat \<Rightarrow> ext2 \<Rightarrow> ext2" where
  "touch i st = (let t = u32_add (cache_clock st) 1 in (upd_ent i (\<lambda>e. e\<lparr>ce_stamp := t\<rparr>) st)\<lparr>cache_clock := t\<rparr>)"

definition bread :: "nat \<Rightarrow> u8 list option eop" where
  "bread blk st =
     (case cache_find (e_cache st) blk of
        Some i \<Rightarrow> Some (Some (ce_data (e_cache st ! i)), touch i st)
      | None \<Rightarrow>
          let i = cache_victim (e_cache st)
          in case dev_read blk 1 st of
               None \<Rightarrow> Some (None, upd_ent i (\<lambda>e. e\<lparr>ce_valid := False\<rparr>) st)
             | Some buf \<Rightarrow> Some (Some buf, touch i (upd_ent i (\<lambda>e. e\<lparr>ce_blk := blk, ce_valid := True, ce_data := buf\<rparr>) st)))"

definition bwrite :: "nat \<Rightarrow> u8 list \<Rightarrow> bool eop" where
  "bwrite blk buf st =
     (let i = (case cache_find (e_cache st) blk of Some i \<Rightarrow> i | None \<Rightarrow> cache_victim (e_cache st));
          st1 = touch i (upd_ent i (\<lambda>e. e\<lparr>ce_blk := blk, ce_valid := True, ce_data := buf\<rparr>) st)
      in case dev_write blk 1 buf st1 of
           None \<Rightarrow> None
         | Some (ok, st2) \<Rightarrow> Some (ok, if ok then st2 else upd_ent i (\<lambda>e. e\<lparr>ce_valid := False\<rparr>) st2))"

definition binval :: "nat \<Rightarrow> ext2 \<Rightarrow> ext2" where
  "binval blk st = (case cache_find (e_cache st) blk of None \<Rightarrow> st | Some i \<Rightarrow> upd_ent i (\<lambda>e. e\<lparr>ce_valid := False\<rparr>) st)"

text \<open>A block that is built in the entry the cache would evict next, and written to \<open>blk\<close>.\<close>

definition write_built :: "nat \<Rightarrow> u8 list \<Rightarrow> bool eop" where
  "write_built blk buf st = bwrite blk buf (upd_ent (cache_victim (e_cache st)) (\<lambda>e. e\<lparr>ce_valid := False, ce_data := buf\<rparr>) st)"

section \<open>The clock\<close>

text \<open>The year is an \<open>int\<close> and is divided towards zero; days of the year and of the era are unsigned.\<close>

definition now :: "ext2 \<Rightarrow> nat" where
  "now st =
     (let t = e_clock st; m = int (rtc_month t); y = int (rtc_year t) - (if rtc_month t \<le> 2 then 1 else 0);
          era = (if y \<ge> 0 then y div 400 else - ((- y) div 400));
          yoe = (y - era * 400) mod 2 ^ 32;
          doy = ((153 * (m + (if m > 2 then -3 else 9)) + 2) mod 2 ^ 32 div 5 + int (rtc_day t) - 1) mod 2 ^ 32;
          doe = (yoe * 365 + yoe div 4 - yoe div 100 + doy) mod 2 ^ 32;
          days = era * 146097 + doe - 719468
      in nat ((days * 86400 + int (rtc_hour t) * 3600 + int (rtc_minute t) * 60 + int (rtc_second t)) mod 2 ^ 32))"

section \<open>Superblock and group descriptors\<close>

definition gdt_mark_dirty :: "nat \<Rightarrow> ext2 \<Rightarrow> ext2" where
  "gdt_mark_dirty g st =
     (let b = int (32 * g div block_size st)
      in st\<lparr>gdt_dirty_lo := (if gdt_dirty_lo st < 0 \<or> b < gdt_dirty_lo st then b else gdt_dirty_lo st),
            gdt_dirty_hi := (if gdt_dirty_hi st < 0 \<or> b > gdt_dirty_hi st then b else gdt_dirty_hi st)\<rparr>)"

fun sync_gdt :: "nat list \<Rightarrow> bool \<Rightarrow> bool eop" where
  "sync_gdt [] rc st = Some (rc, st)"
| "sync_gdt (b # bs) rc st =
     (let blk = u32_add (gdt_start st) b
      in fbind (dev_write blk 1 (take (block_size st) (drop (b * block_size st) (gdt_raw st))))
           (\<lambda>ok. sync_gdt bs (rc \<and> ok)) (binval blk st))"

definition sync_meta :: "bool eop" where
  "sync_meta st =
     fbind (if gdt_dirty_lo st \<ge> 0
            then fbind (sync_gdt [nat (gdt_dirty_lo st)..<nat (gdt_dirty_hi st + 1)] True)
                   (\<lambda>rc st1. Some (rc, st1\<lparr>gdt_dirty_lo := -1, gdt_dirty_hi := -1\<rparr>))
            else (\<lambda>st1. Some (True, st1)))
       (\<lambda>rc st1.
          if \<not> sb_dirty st1 then Some (rc, st1)
          else let st2 = binval (if block_size st1 = 1024 then 1 else 0) (set_sb 48 (now st1) st1);
                   (ok, d) = ata_write (u32_add (part_lba st2) 2) 2 (sb_raw st2) (e_drive st2)
               in Some (rc \<and> ok, st2\<lparr>e_drive := d, sb_dirty := False\<rparr>)) st"

definition group_of_ino :: "ext2 \<Rightarrow> nat \<Rightarrow> nat" where
  "group_of_ino st ino = u32_sub ino 1 div sb_inodes_per_group st"

definition blocks_in_group :: "ext2 \<Rightarrow> nat \<Rightarrow> nat" where
  "blocks_in_group st g =
     (if g = u32_sub (group_count st) 1
      then u32_sub (u32_sub (sb_blocks_count st) (sb_first_data_block st)) (u32_mul g (sb_blocks_per_group st))
      else sb_blocks_per_group st)"

section \<open>Bitmaps\<close>

function claim_scan :: "u8 list \<Rightarrow> nat \<Rightarrow> nat \<Rightarrow> nat option option" where
  "claim_scan bm nbits k =
     (if nbits \<le> k * 8 then Some None
      else if length bm \<le> k then None
      else if bm ! k = 0xFF then claim_scan bm nbits (k + 1)
      else case List.find (\<lambda>b. k * 8 + b < nbits \<and> \<not> bit (bm ! k) b) [0..<8] of
             Some b \<Rightarrow> Some (Some (k * 8 + b))
           | None \<Rightarrow> claim_scan bm nbits (k + 1))"
  by pat_completeness auto
termination by (relation "measure (\<lambda>(bm, n, k). n - k * 8)") auto

declare claim_scan.simps [simp del]

definition bitmap_claim :: "nat \<Rightarrow> nat \<Rightarrow> nat option eop" where
  "bitmap_claim blk nbits =
     fbind (bread blk)
       (\<lambda>r st. case r of
          None \<Rightarrow> Some (None, st)
        | Some bm \<Rightarrow>
            (case claim_scan bm nbits 0 of
               None \<Rightarrow> None
             | Some None \<Rightarrow> Some (None, st)
             | Some (Some i) \<Rightarrow> fbind (bwrite blk (bit_set bm i)) (\<lambda>ok st1. Some (if ok then Some i else None, st1)) st))"

text \<open>\<open>Some True\<close>: the bit was set; \<open>Some False\<close>: it was clear already; \<open>None\<close>: an error.\<close>

definition bitmap_release :: "nat \<Rightarrow> nat \<Rightarrow> bool option eop" where
  "bitmap_release blk i =
     fbind (bread blk)
       (\<lambda>r st. case r of
          None \<Rightarrow> Some (None, st)
        | Some bm \<Rightarrow>
            if length bm \<le> i div 8 then None
            else if \<not> bit_test bm i then Some (Some False, st)
            else fbind (bwrite blk (bit_clear bm i)) (\<lambda>ok st1. Some (if ok then Some True else None, st1)) st)"

text \<open>The loop over the groups, from \<open>goal\<close> on.\<close>

fun e2_alloc_in :: "nat list \<Rightarrow> nat \<Rightarrow> nat eop" where
  "e2_alloc_in [] goal st = Some (0, st)"
| "e2_alloc_in (k # ks) goal st =
     (let g = u32_add goal k mod group_count st
      in if gd_free_blocks st g = 0 then e2_alloc_in ks goal st
         else fbind (bitmap_claim (gd_block_bitmap st g) (blocks_in_group st g))
                (\<lambda>r st1. case r of
                   None \<Rightarrow> e2_alloc_in ks goal st1
                 | Some i \<Rightarrow>
                     let st2 = gdt_mark_dirty g (set_sb 12 (u32_sub (sb_free_blocks st1) 1)
                                 (set_gd g 12 (gd_free_blocks st1 g - 1) st1));
                         blk = u32_add (u32_add (sb_first_data_block st2) (u32_mul g (sb_blocks_per_group st2))) i
                     in Some (blk, binval blk st2)) st)"

definition e2_alloc_block :: "nat \<Rightarrow> nat eop" where
  "e2_alloc_block goal st = (if sb_free_blocks st = 0 then Some (0, st) else e2_alloc_in [0..<group_count st] goal st)"

definition e2_free_block :: "nat \<Rightarrow> unit eop" where
  "e2_free_block blk st =
     (if blk < sb_first_data_block st \<or> sb_blocks_count st \<le> blk then Some ((), st)
      else let rel = blk - sb_first_data_block st; g = rel div sb_blocks_per_group st
           in if length (gdt_raw st) < 32 * g + 32 then None
              else fbind (bitmap_release (gd_block_bitmap st g) (rel mod sb_blocks_per_group st))
                     (\<lambda>r st1. Some ((),
                        if r = Some True
                        then gdt_mark_dirty g (set_sb 12 (u32_add (sb_free_blocks st1) 1) (set_gd g 12 (gd_free_blocks st1 g + 1) st1))
                        else st1)) (binval blk st))"

fun alloc_inode_in :: "nat list \<Rightarrow> nat \<Rightarrow> bool \<Rightarrow> nat eop" where
  "alloc_inode_in [] goal dir st = Some (0, st)"
| "alloc_inode_in (k # ks) goal dir st =
     (let g = u32_add goal k mod group_count st
      in if gd_free_inodes st g = 0 then alloc_inode_in ks goal dir st
         else fbind (bitmap_claim (gd_inode_bitmap st g) (sb_inodes_per_group st))
                (\<lambda>r st1. case r of
                   None \<Rightarrow> alloc_inode_in ks goal dir st1
                 | Some i \<Rightarrow>
                     let ino = u32_add (u32_add (u32_mul g (sb_inodes_per_group st1)) i) 1
                     in if ino < first_ino st1 \<or> sb_inodes_count st1 < ino then alloc_inode_in ks goal dir st1
                        else let st2 = set_gd g 14 (gd_free_inodes st1 g - 1) st1;
                                 st3 = (if dir then set_gd g 16 (gd_used_dirs st2 g + 1) st2 else st2)
                             in Some (ino, gdt_mark_dirty g (set_sb 16 (u32_sub (sb_free_inodes st3) 1) st3))) st)"

definition e2_alloc_inode :: "nat \<Rightarrow> bool \<Rightarrow> nat eop" where
  "e2_alloc_inode goal dir st = (if sb_free_inodes st = 0 then Some (0, st) else alloc_inode_in [0..<group_count st] goal dir st)"

definition free_inode_bit :: "nat \<Rightarrow> bool \<Rightarrow> unit eop" where
  "free_inode_bit ino dir st =
     (let g = group_of_ino st ino
      in if length (gdt_raw st) < 32 * g + 32 then None
         else fbind (bitmap_release (gd_inode_bitmap st g) (u32_sub ino 1 mod sb_inodes_per_group st))
                (\<lambda>r st1. Some ((),
                   if r = Some True
                   then let st2 = set_gd g 14 (gd_free_inodes st1 g + 1) st1;
                            st3 = (if dir \<and> gd_used_dirs st2 g \<noteq> 0 then set_gd g 16 (gd_used_dirs st2 g - 1) st2 else st2)
                        in gdt_mark_dirty g (set_sb 16 (u32_add (sb_free_inodes st3) 1) st3)
                   else st1)) st)"

end
