(* ===== verification/Ext2_Inode.thy ===== *)
theory Ext2_Inode
  imports Ext2
begin

text \<open>
  \<open>src/ext2.c\<close>: inodes, the tree of block pointers and the contents of files.  An inode is passed by
  value and returned where the code changes it through a pointer.
\<close>

section \<open>Inodes\<close>

record e2_inode =
  i_mode :: nat
  i_uid :: nat
  i_size :: nat
  i_atime :: nat
  i_ctime :: nat
  i_mtime :: nat
  i_dtime :: nat
  i_gid :: nat
  i_links :: nat
  i_blocks :: nat
  i_flags :: nat
  i_osd1 :: nat
  i_block :: "nat list"
  i_generation :: nat
  i_file_acl :: nat
  i_size_high :: nat
  i_faddr :: nat
  i_osd2 :: "u8 list"

definition inode_of :: "u8 list \<Rightarrow> e2_inode" where
  "inode_of p = \<lparr>i_mode = field p 0 2, i_uid = field p 2 2, i_size = field p 4 4, i_atime = field p 8 4, i_ctime = field p 12 4,
     i_mtime = field p 16 4, i_dtime = field p 20 4, i_gid = field p 24 2, i_links = field p 26 2, i_blocks = field p 28 4,
     i_flags = field p 32 4, i_osd1 = field p 36 4, i_block = map (\<lambda>k. field p (40 + 4 * k) 4) [0..<15],
     i_generation = field p 100 4, i_file_acl = field p 104 4, i_size_high = field p 108 4, i_faddr = field p 112 4,
     i_osd2 = take 12 (drop 116 p)\<rparr>"

definition inode_image :: "e2_inode \<Rightarrow> u8 list" where
  "inode_image i = le_image 2 (i_mode i) @ le_image 2 (i_uid i) @ le_image 4 (i_size i) @ le_image 4 (i_atime i) @ le_image 4 (i_ctime i) @
     le_image 4 (i_mtime i) @ le_image 4 (i_dtime i) @ le_image 2 (i_gid i) @ le_image 2 (i_links i) @ le_image 4 (i_blocks i) @
     le_image 4 (i_flags i) @ le_image 4 (i_osd1 i) @ concat (map (le_image 4) (i_block i)) @ le_image 4 (i_generation i) @
     le_image 4 (i_file_acl i) @ le_image 4 (i_size_high i) @ le_image 4 (i_faddr i) @ i_osd2 i"

text \<open>\<open>memset(in, 0, sizeof(*in))\<close>\<close>

definition blank_inode :: e2_inode where
  "blank_inode = \<lparr>i_mode = 0, i_uid = 0, i_size = 0, i_atime = 0, i_ctime = 0, i_mtime = 0, i_dtime = 0, i_gid = 0, i_links = 0, i_blocks = 0,
     i_flags = 0, i_osd1 = 0, i_block = replicate 15 0, i_generation = 0, i_file_acl = 0, i_size_high = 0, i_faddr = 0, i_osd2 = zeros 12\<rparr>"

definition IS_DIR :: "nat \<Rightarrow> bool" where
  "IS_DIR m \<longleftrightarrow> m AND 0xF000 = 0x4000"

definition IS_LNK :: "nat \<Rightarrow> bool" where
  "IS_LNK m \<longleftrightarrow> m AND 0xF000 = 0xA000"

definition mode_to_ft :: "nat \<Rightarrow> nat" where
  "mode_to_ft m = (if IS_DIR m then 2 else if IS_LNK m then 7 else if m AND 0xF000 = 0x8000 then 1 else 0)"

text \<open>Block and offset of an inode; the outer option is an access behind the group descriptors.\<close>

definition inode_loc :: "nat \<Rightarrow> ext2 \<Rightarrow> (nat \<times> nat) option option" where
  "inode_loc ino st =
     (if ino = 0 \<or> sb_inodes_count st < ino then Some None
      else let g = group_of_ino st ino; b = u32_mul (u32_sub ino 1 mod sb_inodes_per_group st) (inode_size st)
           in if length (gdt_raw st) < 32 * g + 32 then None
              else Some (Some (u32_add (gd_inode_table st g) (b div block_size st), b mod block_size st)))"

definition e2_read_inode :: "nat \<Rightarrow> e2_inode option eop" where
  "e2_read_inode ino st =
     (case inode_loc ino st of
        None \<Rightarrow> None
      | Some None \<Rightarrow> Some (None, st)
      | Some (Some (blk, off)) \<Rightarrow>
          fbind (bread blk) (\<lambda>p st1. Some (map_option (\<lambda>b. inode_of (take 128 (drop off b))) p, st1)) st)"

definition fresh_record :: "nat \<Rightarrow> nat \<Rightarrow> u8 list \<Rightarrow> u8 list" where
  "fresh_record isz off p =
     (let p1 = set_bytes p off (zeros isz) in if isz \<ge> 160 then set_bytes p1 (off + 128) (le_image 2 32) else p1)"

definition write_inode_ex :: "nat \<Rightarrow> e2_inode \<Rightarrow> bool \<Rightarrow> bool eop" where
  "write_inode_ex ino i fresh st =
     (case inode_loc ino st of
        None \<Rightarrow> None
      | Some None \<Rightarrow> Some (False, st)
      | Some (Some (blk, off)) \<Rightarrow>
          fbind (bread blk)
            (\<lambda>p st1. case p of
               None \<Rightarrow> Some (False, st1)
             | Some b \<Rightarrow> bwrite blk (set_bytes (if fresh then fresh_record (inode_size st1) off b else b) off (inode_image i)) st1) st)"

definition e2_write_inode :: "nat \<Rightarrow> e2_inode \<Rightarrow> bool eop" where
  "e2_write_inode ino i = write_inode_ex ino i False"

definition is_fast_symlink :: "ext2 \<Rightarrow> e2_inode \<Rightarrow> bool" where
  "is_fast_symlink st i \<longleftrightarrow> IS_LNK (i_mode i) \<and> u32_sub (i_blocks i) (if i_file_acl i \<noteq> 0 then spb st else 0) = 0"

section \<open>From file blocks to disk blocks\<close>

definition span :: "ext2 \<Rightarrow> nat \<Rightarrow> nat" where
  "span st d = ppb st ^ d"

definition set_ptr :: "nat \<Rightarrow> nat \<Rightarrow> e2_inode \<Rightarrow> e2_inode" where
  "set_ptr k b i = i\<lparr>i_block := (i_block i)[k := b]\<rparr>"

definition inode_new_block :: "nat \<Rightarrow> bool \<Rightarrow> e2_inode \<Rightarrow> (nat \<times> e2_inode) eop" where
  "inode_new_block goal zero i =
     fbind (e2_alloc_block goal)
       (\<lambda>b st. if b = 0 then Some ((0, i), st)
               else let i1 = i\<lparr>i_blocks := u32_add (i_blocks i) (spb st)\<rparr>
                    in if \<not> zero then Some ((b, i1), st)
                       else fbind (write_built b (zeros (block_size st))) (\<lambda>ok st1. Some ((if ok then b else 0, i1), st1)) st)"

text \<open>How many levels of indirection lead to a file block, and its number below them.\<close>

definition bmap_level :: "ext2 \<Rightarrow> nat \<Rightarrow> (nat \<times> nat) option" where
  "bmap_level st lblk =
     (let rel = lblk - EXT2_NDIR
      in if rel < span st 1 then Some (1, rel)
         else let rel1 = rel - span st 1
              in if rel1 < span st 2 then Some (2, rel1)
                 else let rel2 = rel1 - span st 2 in if rel2 \<ge> span st 3 then None else Some (3, rel2))"

fun bmap_walk :: "nat \<Rightarrow> nat \<Rightarrow> nat \<Rightarrow> bool \<Rightarrow> nat \<Rightarrow> e2_inode \<Rightarrow> (nat \<times> e2_inode) eop" where
  "bmap_walk 0 rel goal alloc blk i st = Some ((blk, i), st)"
| "bmap_walk (Suc l) rel goal alloc blk i st =
     (let idx = rel div span st l mod ppb st
      in fbind (bread blk)
           (\<lambda>p st1. case p of
              None \<Rightarrow> Some ((0, i), st1)
            | Some tab \<Rightarrow>
                let nxt = field tab (idx * 4) 4
                in if nxt \<noteq> 0 then bmap_walk l rel goal alloc nxt i st1
                   else if \<not> alloc then Some ((0, i), st1)
                   else fbind (inode_new_block goal (l > 0) i)
                          (\<lambda>(b, i1) st2.
                             if b = 0 then Some ((0, i1), st2)
                             else fbind (bread blk)
                                    (\<lambda>q st3. case q of
                                       None \<Rightarrow> Some ((0, i1), st3)
                                     | Some tab1 \<Rightarrow>
                                         fbind (bwrite blk (set_bytes tab1 (idx * 4) (le_image 4 b)))
                                           (\<lambda>ok st4. if ok then bmap_walk l rel goal alloc b i1 st4 else Some ((0, i1), st4)) st3)
                                    st2) st1) st)"

definition bmap :: "nat \<Rightarrow> nat \<Rightarrow> bool \<Rightarrow> e2_inode \<Rightarrow> (nat \<times> e2_inode) eop" where
  "bmap goal lblk alloc i st =
     (if lblk < EXT2_NDIR
      then (if i_block i ! lblk = 0 \<and> alloc
            then fbind (inode_new_block goal False i) (\<lambda>(b, i1) st1. Some ((b, set_ptr lblk b i1), st1)) st
            else Some ((i_block i ! lblk, i), st))
      else case bmap_level st lblk of
             None \<Rightarrow> Some ((0, i), st)
           | Some (depth, rel) \<Rightarrow>
               (let root = 11 + depth
                in if i_block i ! root \<noteq> 0 then bmap_walk depth rel goal alloc (i_block i ! root) i st
                   else if \<not> alloc then Some ((0, i), st)
                   else fbind (inode_new_block goal True i)
                          (\<lambda>(b, i1) st1. if b = 0 then Some ((0, i1), st1) else bmap_walk depth rel goal alloc b (set_ptr root b i1) st1) st))"

section \<open>Truncation\<close>

definition drop_block :: "nat \<Rightarrow> e2_inode \<Rightarrow> e2_inode eop" where
  "drop_block blk i = fbind (e2_free_block blk) (\<lambda>_ st. Some (i\<lparr>i_blocks := u32_sub (i_blocks i) (spb st)\<rparr>, st))"

text \<open>The loop over the pointers of a block: \<open>sub\<close> truncates below one of them.\<close>

fun trunc_ptrs :: "(nat \<Rightarrow> nat \<Rightarrow> e2_inode \<Rightarrow> e2_inode eop) \<Rightarrow> nat list \<Rightarrow> nat \<Rightarrow> nat \<Rightarrow> nat \<Rightarrow> nat list \<Rightarrow> bool \<Rightarrow> e2_inode \<Rightarrow>
    (nat list \<times> bool \<times> e2_inode) eop" where
  "trunc_ptrs sub [] cs base cutoff tab changed i st = Some ((tab, changed, i), st)"
| "trunc_ptrs sub (k # ks) cs base cutoff tab changed i st =
     (let cb = base + k * cs
      in if tab ! k = 0 \<or> cb + cs \<le> cutoff then trunc_ptrs sub ks cs base cutoff tab changed i st
         else fbind (sub (tab ! k) cb i)
                (\<lambda>i1. if cb \<ge> cutoff then trunc_ptrs sub ks cs base cutoff (tab[k := 0]) True i1
                      else trunc_ptrs sub ks cs base cutoff tab changed i1) st)"

definition pointers :: "nat \<Rightarrow> u8 list \<Rightarrow> nat list" where
  "pointers n p = map (\<lambda>k. field p (4 * k) 4) [0..<n]"

definition pointer_image :: "nat list \<Rightarrow> u8 list" where
  "pointer_image tab = concat (map (le_image 4) tab)"

fun trunc_tree :: "nat \<Rightarrow> nat \<Rightarrow> nat \<Rightarrow> nat \<Rightarrow> e2_inode \<Rightarrow> e2_inode eop" where
  "trunc_tree 0 blk base cutoff i st =
     (if blk = 0 \<or> base + span st 0 \<le> cutoff then Some (i, st)
      else if base \<ge> cutoff then drop_block blk i st else Some (i, st))"
| "trunc_tree (Suc l) blk base cutoff i st =
     (if blk = 0 \<or> base + span st (Suc l) \<le> cutoff then Some (i, st)
      else fbind (with_buffer (block_size st) None
             (\<lambda>st1. fbind (bread blk)
                (\<lambda>p st2. case p of
                   None \<Rightarrow> Some (None, st2)
                 | Some b \<Rightarrow>
                     fbind (trunc_ptrs (\<lambda>c cb. trunc_tree l c cb cutoff) [0..<ppb st2] (span st2 l) base cutoff (pointers (ppb st2) b) False i)
                       (\<lambda>(tab, changed, i1) st3.
                          if base < cutoff \<and> changed then fbind (bwrite blk (pointer_image tab)) (\<lambda>_ st4. Some (Some i1, st4)) st3
                          else Some (Some i1, st3)) st2) st1))
             (\<lambda>r st1. case r of
                None \<Rightarrow> Some (i, st1)
              | Some i1 \<Rightarrow> if base \<ge> cutoff then drop_block blk i1 st1 else Some (i1, st1)) st)"

fun trunc_direct :: "nat list \<Rightarrow> nat \<Rightarrow> e2_inode \<Rightarrow> e2_inode eop" where
  "trunc_direct [] cutoff i st = Some (i, st)"
| "trunc_direct (k # ks) cutoff i st =
     (if k \<ge> cutoff \<and> i_block i ! k \<noteq> 0
      then fbind (drop_block (i_block i ! k) i) (\<lambda>i1. trunc_direct ks cutoff (set_ptr k 0 i1)) st
      else trunc_direct ks cutoff i st)"

fun trunc_roots :: "nat list \<Rightarrow> nat \<Rightarrow> nat \<Rightarrow> e2_inode \<Rightarrow> e2_inode eop" where
  "trunc_roots [] base cutoff i st = Some (i, st)"
| "trunc_roots (d # ds) base cutoff i st =
     fbind (trunc_tree d (i_block i ! (11 + d)) base cutoff i)
       (\<lambda>i1 st1. trunc_roots ds (base + span st1 d) cutoff (if base \<ge> cutoff then set_ptr (11 + d) 0 i1 else i1) st1) st"

definition truncate_blocks :: "nat \<Rightarrow> e2_inode \<Rightarrow> e2_inode eop" where
  "truncate_blocks new_size i st =
     (if is_fast_symlink st i then Some (i, st)
      else let cutoff = (new_size + block_size st - 1) div block_size st
           in fbind (trunc_direct [0..<EXT2_NDIR] cutoff i) (trunc_roots [1, 2, 3] EXT2_NDIR cutoff) st)"

section \<open>Contents of files\<close>

text \<open>How many further blocks after \<open>lb\<close> follow \<open>pb\<close> on the disk and are wanted whole.\<close>

fun grow_run :: "nat \<Rightarrow> nat \<Rightarrow> nat \<Rightarrow> nat \<Rightarrow> nat \<Rightarrow> nat \<Rightarrow> e2_inode \<Rightarrow> nat eop" where
  "grow_run 0 run done len lb pb i st = Some (run, st)"
| "grow_run (Suc n) run done len lb pb i st =
     (if u32_add done (u32_mul (run + 1) (block_size st)) \<le> len
      then fbind (bmap 0 (u32_add lb run) False i)
             (\<lambda>(b, _) st1. if b = u32_add pb run then grow_run n (run + 1) done len lb pb i st1 else Some (run, st1)) st
      else Some (run, st))"

partial_function (option) read_loop :: "nat \<Rightarrow> nat \<Rightarrow> nat \<Rightarrow> e2_inode \<Rightarrow> u8 list option eop" where
  "read_loop off len done i st =
     (if len \<le> done then Some (Some [], st)
      else let pos = u32_add off done; lb = pos div block_size st; boff = pos mod block_size st;
               chunk = min (block_size st - boff) (len - done)
           in fbind (bmap 0 lb False i)
                (\<lambda>(pb, _) st1.
                   fbind (if pb = 0 then (\<lambda>st2. Some (Some (zeros chunk), st2))
                          else if boff = 0 \<and> chunk = block_size st1
                          then fbind (grow_run 127 1 done len lb pb i) (\<lambda>run st2. Some (dev_read pb run st2, st2))
                          else fbind (bread pb) (\<lambda>p st2. Some (map_option (\<lambda>b. take chunk (drop boff b)) p, st2)))
                     (\<lambda>r st2. case r of
                        None \<Rightarrow> Some (None, st2)
                      | Some bs \<Rightarrow> fbind (read_loop off len (u32_add done (length bs)) i) (\<lambda>q st3. Some (map_option (\<lambda>cs. bs @ cs) q, st3)) st2)
                     st1) st)"

definition read_range :: "nat \<Rightarrow> nat \<Rightarrow> e2_inode \<Rightarrow> (int \<times> u8 list) eop" where
  "read_range off len i st =
     (if off \<ge> i_size i then Some ((0, []), st)
      else let n = min len (i_size i - off)
           in fbind (read_loop off n 0 i) (\<lambda>r st1. Some (case r of None \<Rightarrow> (-1, []) | Some bs \<Rightarrow> (to_int n, bs), st1)) st)"

text \<open>The run of whole blocks that is collected and not yet written, and the number of blocks known to be
  on the disk.\<close>

record run_state =
  r_start :: nat
  r_len :: nat
  r_lb :: nat
  r_committed :: nat

definition flush_run :: "u8 list \<Rightarrow> run_state \<Rightarrow> bool eop" where
  "flush_run data r st =
     dev_write (r_start r) (r_len r) (take (r_len r * block_size st) (drop (r_lb r * block_size st) data))
       (fold (\<lambda>k. binval (u32_add (r_start r) k)) [0..<r_len r] st)"

fun store_loop :: "nat list \<Rightarrow> nat \<Rightarrow> u8 list \<Rightarrow> run_state \<Rightarrow> e2_inode \<Rightarrow> (bool \<times> run_state \<times> e2_inode) eop" where
  "store_loop [] goal data r i st = Some ((True, r, i), st)"
| "store_loop (lb # lbs) goal data r i st =
     fbind (bmap goal lb True i)
       (\<lambda>(pb, i1) st1.
          if pb = 0 then Some ((False, r, i1), st1)
          else let full = u32_mul (lb + 1) (block_size st1) \<le> length data
               in if full \<and> r_len r \<noteq> 0 \<and> pb = u32_add (r_start r) (r_len r) \<and> r_len r < 128
                  then store_loop lbs goal data (r\<lparr>r_len := r_len r + 1\<rparr>) i1 st1
                  else fbind (if r_len r \<noteq> 0 then flush_run data r else (\<lambda>st2. Some (True, st2)))
                         (\<lambda>ok st2.
                            if \<not> ok then Some ((False, r, i1), st2)
                            else let r1 = (if r_len r \<noteq> 0 then r\<lparr>r_committed := r_lb r + r_len r, r_len := 0\<rparr> else r)
                                 in if full then store_loop lbs goal data (r1\<lparr>r_start := pb, r_len := 1, r_lb := lb\<rparr>) i1 st2
                                    else fbind (write_built pb (drop (lb * block_size st2) data @ zeros (lb * block_size st2 + block_size st2 - length data)))
                                           (\<lambda>ok1 st3. if ok1 then store_loop lbs goal data (r1\<lparr>r_committed := lb + 1\<rparr>) i1 st3
                                                      else Some ((False, r1, i1), st3)) st2) st1) st"

definition write_content :: "nat \<Rightarrow> e2_inode \<Rightarrow> u8 list \<Rightarrow> (bool \<times> e2_inode) eop" where
  "write_content ino i data st =
     (let sz = length data; goal = group_of_ino st ino
      in fbind (truncate_blocks sz i)
           (\<lambda>i1 st1.
              fbind (store_loop [0..<u32_sub (u32_add sz (block_size st1)) 1 div block_size st1] goal data
                       \<lparr>r_start = 0, r_len = 0, r_lb = 0, r_committed = 0\<rparr> i1)
                (\<lambda>(ok, r, i2) st2.
                   fbind (if ok \<and> r_len r \<noteq> 0 then flush_run data r else (\<lambda>st3. Some (ok, st3)))
                     (\<lambda>ok1 st3.
                        fbind (if ok1 then (\<lambda>st4. Some (i2\<lparr>i_size := sz\<rparr>, st4))
                               else let kept = min (u32_mul (r_committed r) (block_size st3)) sz
                                    in fbind (truncate_blocks kept i2) (\<lambda>i3 st4. Some (i3\<lparr>i_size := kept\<rparr>, st4)))
                          (\<lambda>i3 st4. let i4 = i3\<lparr>i_mtime := now st4, i_ctime := now st4\<rparr>
                                    in fbind (e2_write_inode ino i4) (\<lambda>_ st5. Some ((ok1, i4), st5)) st4) st3) st2) st1) st)"

text \<open>The target of a symbolic link; the outer option is a target that does not fit the room for it in the
  inode although it is stored there.\<close>

definition read_symlink :: "e2_inode \<Rightarrow> nat \<Rightarrow> u8 list option eop" where
  "read_symlink i cap st =
     (let n = i_size i
      in if n \<ge> cap then Some (None, st)
         else if is_fast_symlink st i
         then (if n > 60 then None else Some (Some (take n (concat (map (le_image 4) (i_block i)))), st))
         else fbind (bmap 0 0 False i)
                (\<lambda>(pb, _) st1.
                   if pb = 0 then Some (None, st1)
                   else fbind (bread pb)
                          (\<lambda>p st2. case p of
                             None \<Rightarrow> Some (None, st2)
                           | Some b \<Rightarrow> if n > length b then None else Some (Some (take n b), st2)) st1) st)"

end
