(* ===== verification/Ext2_Files.thy ===== *)
theory Ext2_Files
  imports Ext2_Inode
begin

text \<open>
  \<open>src/ext2.c\<close>, the upper half: directories, path resolution, the operations for the VFS and mounting.
  A directory block is a sequence of records that follow each other by their lengths.  A name that
  runs over the end of its block makes the code read behind it; there the result is \<open>None\<close>.
\<close>

section \<open>Directory blocks\<close>

definition dirent_size :: "nat \<Rightarrow> nat" where
  "dirent_size n = (8 + n + 3) div 4 * 4"

definition de_ino :: "u8 list \<Rightarrow> nat \<Rightarrow> nat" where
  "de_ino p off = field p off 4"

definition de_rec :: "u8 list \<Rightarrow> nat \<Rightarrow> nat" where
  "de_rec p off = field p (off + 4) 2"

definition dirent_name_len :: "bool \<Rightarrow> u8 list \<Rightarrow> nat \<Rightarrow> nat" where
  "dirent_name_len ft p off = (if ft then field p (off + 6) 1 else field p (off + 6) 2)"

definition dirent_set :: "bool \<Rightarrow> nat \<Rightarrow> nat \<Rightarrow> nat \<Rightarrow> u8 list \<Rightarrow> nat \<Rightarrow> u8 list \<Rightarrow> u8 list" where
  "dirent_set ft off ino rec name ty p =
     set_bytes p off (le_image 4 ino @ le_image 2 rec @ (if ft then le_image 1 (length name) @ le_image 1 ty else le_image 2 (length name)) @ name)"

function rec_offs :: "nat \<Rightarrow> u8 list \<Rightarrow> nat \<Rightarrow> nat list" where
  "rec_offs bs p off =
     (if off + 8 \<le> bs \<and> 8 \<le> de_rec p off \<and> off + de_rec p off \<le> bs then off # rec_offs bs p (off + de_rec p off) else [])"
  by pat_completeness auto
termination by (relation "measure (\<lambda>(bs, p, off). bs - off)") auto

declare rec_offs.simps [simp del]

text \<open>The first record with a name, and the record before it.\<close>

fun find_dirent :: "bool \<Rightarrow> u8 list \<Rightarrow> u8 list \<Rightarrow> nat option \<Rightarrow> nat list \<Rightarrow> (nat option \<times> nat) option option" where
  "find_dirent ft name p prev [] = Some None"
| "find_dirent ft name p prev (off # offs) =
     (if de_ino p off \<noteq> 0 \<and> dirent_name_len ft p off = length name
      then (case memcmp (drop (off + 8) p) name (length name) of
              None \<Rightarrow> None
            | Some d \<Rightarrow> if d = 0 then Some (Some (prev, off)) else find_dirent ft name p (Some off) offs)
      else find_dirent ft name p (Some off) offs)"

definition dir_nblocks :: "e2_inode \<Rightarrow> ext2 \<Rightarrow> nat" where
  "dir_nblocks d st = i_size d div block_size st"

text \<open>The loop over the blocks of a directory: \<open>body\<close> gets the block number and its contents and says
  whether to stop with a result; \<open>e\<close> is the result when a block cannot be read and \<open>z\<close> at the end.\<close>

fun each_block :: "e2_inode \<Rightarrow> (nat \<Rightarrow> u8 list \<Rightarrow> 'r option eop) \<Rightarrow> 'r \<Rightarrow> 'r eop \<Rightarrow> nat list \<Rightarrow> 'r eop" where
  "each_block d body e z [] st = z st"
| "each_block d body e z (lb # lbs) st =
     fbind (bmap 0 lb False d)
       (\<lambda>(pb, _) st1.
          if pb = 0 then each_block d body e z lbs st1
          else fbind (bread pb)
                 (\<lambda>p st2. case p of
                    None \<Rightarrow> Some (e, st2)
                  | Some b \<Rightarrow> fbind (body pb b) (\<lambda>r st3. case r of Some x \<Rightarrow> Some (x, st3) | None \<Rightarrow> each_block d body e z lbs st3) st2) st1) st"

definition e2_dir_lookup :: "e2_inode \<Rightarrow> u8 list \<Rightarrow> nat option eop" where
  "e2_dir_lookup d name st =
     each_block d
       (\<lambda>pb p st1. map_option (\<lambda>r. (map_option (\<lambda>(_, off). Some (de_ino p off)) r, st1))
                     (find_dirent (has_filetype st1) name p None (rec_offs (block_size st1) p 0)))
       None (\<lambda>st1. Some (None, st1)) [0..<dir_nblocks d st] st"

definition dir_touch :: "nat \<Rightarrow> e2_inode \<Rightarrow> e2_inode eop" where
  "dir_touch ino d st =
     (let d1 = d\<lparr>i_mtime := now st, i_ctime := now st, i_flags := unat ((of_nat (i_flags d) :: u32) AND NOT 0x1000)\<rparr>
      in fbind (e2_write_inode ino d1) (\<lambda>_ st1. Some (d1, st1)) st)"

definition de_used :: "bool \<Rightarrow> u8 list \<Rightarrow> nat \<Rightarrow> nat" where
  "de_used ft p off = (if de_ino p off \<noteq> 0 then dirent_size (dirent_name_len ft p off) else 0)"

definition place_dirent :: "bool \<Rightarrow> nat \<Rightarrow> u8 list \<Rightarrow> nat \<Rightarrow> u8 list \<Rightarrow> nat \<Rightarrow> u8 list" where
  "place_dirent ft ino name ty p off =
     (let used = de_used ft p off; rec = de_rec p off
      in if used \<noteq> 0 then dirent_set ft (off + used) ino (rec - used) name ty (set_bytes p (off + 4) (le_image 2 used))
         else dirent_set ft off ino rec name ty p)"

definition e2_dir_add :: "nat \<Rightarrow> e2_inode \<Rightarrow> u8 list \<Rightarrow> nat \<Rightarrow> nat \<Rightarrow> (bool \<times> e2_inode) eop" where
  "e2_dir_add dino d name ino ty st =
     (if name = [] \<or> length name > 255 then Some ((False, d), st)
      else let need = dirent_size (length name); n = dir_nblocks d st
           in each_block d
                (\<lambda>pb p st1.
                   case List.find (\<lambda>off. de_used (has_filetype st1) p off + need \<le> de_rec p off) (rec_offs (block_size st1) p 0) of
                     None \<Rightarrow> Some (None, st1)
                   | Some off \<Rightarrow>
                       fbind (bwrite pb (place_dirent (has_filetype st1) ino name ty p off))
                         (\<lambda>ok st2. if \<not> ok then Some (Some (False, d), st2)
                                   else fbind (dir_touch dino d) (\<lambda>d1 st3. Some (Some (True, d1), st3)) st2) st1)
                (False, d)
                (\<lambda>st1. fbind (bmap (group_of_ino st1 dino) n True d)
                   (\<lambda>(pb, d1) st2.
                      if pb = 0 then Some ((False, d1), st2)
                      else fbind (write_built pb (dirent_set (has_filetype st2) 0 ino (block_size st2) name ty (zeros (block_size st2))))
                             (\<lambda>ok st3. if \<not> ok then Some ((False, d1), st3)
                                       else fbind (dir_touch dino (d1\<lparr>i_size := u32_add (i_size d1) (block_size st3)\<rparr>)) (\<lambda>d2 st4. Some ((True, d2), st4)) st3) st2) st1)
                [0..<n] st)"

definition cut_dirent :: "u8 list \<Rightarrow> nat option \<Rightarrow> nat \<Rightarrow> u8 list" where
  "cut_dirent p prev off =
     (case prev of Some q \<Rightarrow> set_bytes p (q + 4) (le_image 2 (de_rec p q + de_rec p off)) | None \<Rightarrow> set_bytes p off (le_image 4 0))"

definition e2_dir_remove :: "nat \<Rightarrow> e2_inode \<Rightarrow> u8 list \<Rightarrow> (bool \<times> e2_inode) eop" where
  "e2_dir_remove dino d name st =
     each_block d
       (\<lambda>pb p st1.
          case find_dirent (has_filetype st1) name p None (rec_offs (block_size st1) p 0) of
            None \<Rightarrow> None
          | Some None \<Rightarrow> Some (None, st1)
          | Some (Some (prev, off)) \<Rightarrow>
              fbind (bwrite pb (cut_dirent p prev off))
                (\<lambda>ok st2. if \<not> ok then Some (Some (False, d), st2)
                          else fbind (dir_touch dino d) (\<lambda>d1 st3. Some (Some (True, d1), st3)) st2) st1)
       (False, d) (\<lambda>st1. Some ((False, d), st1)) [0..<dir_nblocks d st] st"

text \<open>Whether a record is \<open>.\<close> or \<open>..\<close>; reading its name may go behind the block.\<close>

definition e2_is_dots :: "bool \<Rightarrow> u8 list \<Rightarrow> nat \<Rightarrow> bool option" where
  "e2_is_dots ft p off =
     (let n = dirent_name_len ft p off; dot = byte_of (CHR ''.'')
      in if n = 1 \<or> n = 2
         then (if length p \<le> off + 8 then None
               else if p ! (off + 8) \<noteq> dot then Some False
               else if n = 1 then Some True
               else if length p \<le> off + 9 then None else Some (p ! (off + 9) = dot))
         else Some False)"

fun only_dots :: "bool \<Rightarrow> u8 list \<Rightarrow> nat list \<Rightarrow> bool option" where
  "only_dots ft p [] = Some True"
| "only_dots ft p (off # offs) =
     (if de_ino p off = 0 then only_dots ft p offs
      else case e2_is_dots ft p off of None \<Rightarrow> None | Some d \<Rightarrow> if d then only_dots ft p offs else Some False)"

definition e2_dir_is_empty :: "e2_inode \<Rightarrow> bool eop" where
  "e2_dir_is_empty d st =
     each_block d
       (\<lambda>pb p st1. map_option (\<lambda>b. (if b then None else Some False, st1)) (only_dots (has_filetype st1) p (rec_offs (block_size st1) p 0)))
       False (\<lambda>st1. Some (True, st1)) [0..<dir_nblocks d st] st"

definition dir_set_dotdot :: "nat \<Rightarrow> nat \<Rightarrow> bool eop" where
  "dir_set_dotdot ino parent =
     fbind (e2_read_inode ino)
       (\<lambda>r st. case r of
          None \<Rightarrow> Some (False, st)
        | Some d \<Rightarrow>
            fbind (bmap 0 0 False d)
              (\<lambda>(pb, _) st1.
                 if pb = 0 then Some (False, st1)
                 else fbind (bread pb)
                        (\<lambda>q st2. case q of
                           None \<Rightarrow> Some (False, st2)
                         | Some p \<Rightarrow>
                             let rec = de_rec p 0
                             in if rec < 12 \<or> rec + 12 > block_size st2 then Some (False, st2)
                                else if dirent_name_len (has_filetype st2) p rec \<noteq> 2 \<or> take 2 (drop (rec + 8) p) \<noteq> map byte_of ''..'' then Some (False, st2)
                                else bwrite pb (set_bytes p rec (le_image 4 parent)) st2) st1) st)"

section \<open>Paths\<close>

abbreviation (input) MAX_SYMLINKS :: nat where "MAX_SYMLINKS \<equiv> 8"

partial_function (option) namei_loop :: "bool \<Rightarrow> string \<Rightarrow> nat \<Rightarrow> nat \<Rightarrow> nat eop" where
  "namei_loop follow p cur links st =
     (let p1 = dropWhile (\<lambda>c. c = slash) p; name = takeWhile (\<lambda>c. c \<noteq> slash) p1; rest = dropWhile (\<lambda>c. c = slash) (dropWhile (\<lambda>c. c \<noteq> slash) p1)
      in if p1 = [] then Some (cur, st)
         else if length name > 255 then Some (0, st)
         else if name = ''.'' then namei_loop follow rest cur links st
         else fbind (e2_read_inode cur)
                (\<lambda>r st1. case r of
                   None \<Rightarrow> Some (0, st1)
                 | Some d \<Rightarrow>
                     if \<not> IS_DIR (i_mode d) then Some (0, st1)
                     else fbind (e2_dir_lookup d (map byte_of name))
                            (\<lambda>q st2. case q of
                               None \<Rightarrow> Some (0, st2)
                             | Some child \<Rightarrow>
                                 fbind (e2_read_inode child)
                                   (\<lambda>s st3. case s of
                                      None \<Rightarrow> Some (0, st3)
                                    | Some c \<Rightarrow>
                                        if \<not> (IS_LNK (i_mode c) \<and> (rest \<noteq> [] \<or> follow)) then namei_loop follow rest child links st3
                                        else if links + 1 > MAX_SYMLINKS then Some (0, st3)
                                        else fbind (read_symlink c 256)
                                               (\<lambda>t st4. case t of
                                                  None \<Rightarrow> Some (0, st4)
                                                | Some bs \<Rightarrow>
                                                    let tgt = map char_at (takeWhile (\<lambda>b. b \<noteq> 0) bs)
                                                    in if length tgt + 1 + length rest > 511 then Some (0, st4)
                                                       else namei_loop follow (tgt @ slash # rest) (if tgt \<noteq> [] \<and> hd tgt = slash then EXT2_ROOT_INO else cur) (links + 1) st4)
                                               st3) st2) st1) st)"

definition namei :: "string \<Rightarrow> bool \<Rightarrow> nat eop" where
  "namei path follow st = (if length path > 511 then Some (0, st) else namei_loop follow path EXT2_ROOT_INO 0 st)"

definition e2_strip_slashes :: "string \<Rightarrow> string" where
  "e2_strip_slashes path = (let s = rev (dropWhile (\<lambda>c. c = slash) (rev path)) in if s = [] then take 1 path else s)"

definition e2_split_parent :: "string \<Rightarrow> (nat \<times> string) option eop" where
  "e2_split_parent path st =
     (let s = e2_strip_slashes path; base = rev (takeWhile (\<lambda>c. c \<noteq> slash) (rev s)); sl = length s - length base - 1
      in if base = [] \<or> length base > 255 \<or> base = ''.'' \<or> base = ''..'' then Some (None, st)
         else if slash \<in> set s \<and> sl \<ge> 512 then Some (None, st)
         else fbind (namei (if slash \<in> set s \<and> sl > 0 then take sl s else [slash]) True)
                (\<lambda>pino st1.
                   if pino = 0 then Some (None, st1)
                   else fbind (e2_read_inode pino)
                          (\<lambda>r st2. Some (case r of None \<Rightarrow> None | Some d \<Rightarrow> if IS_DIR (i_mode d) then Some (pino, base) else None, st2)) st1) st)"

section \<open>Life of an inode\<close>

definition drop_acl :: "e2_inode \<Rightarrow> e2_inode eop" where
  "drop_acl i st =
     (if i_file_acl i = 0 then Some (i, st)
      else fbind (bread (i_file_acl i))
             (\<lambda>p st1.
                fbind (case p of
                         Some b \<Rightarrow> if field b 0 4 = 0xEA020000 \<and> field b 4 4 > 1
                                   then fbind (bwrite (i_file_acl i) (set_bytes b 4 (le_image 4 (field b 4 4 - 1)))) (\<lambda>_ st2. Some ((), st2))
                                   else e2_free_block (i_file_acl i)
                       | None \<Rightarrow> e2_free_block (i_file_acl i))
                  (\<lambda>_ st2. Some (i\<lparr>i_blocks := u32_sub (i_blocks i) (spb st2), i_file_acl := 0\<rparr>, st2)) st1) st)"

definition release_inode :: "nat \<Rightarrow> e2_inode \<Rightarrow> unit eop" where
  "release_inode ino i =
     fbind (truncate_blocks 0 i)
       (\<lambda>i1. fbind (drop_acl i1)
          (\<lambda>i2 st. let i3 = (if is_fast_symlink st i2 then i2\<lparr>i_block := replicate 15 0\<rparr> else i2);
                       i4 = i3\<lparr>i_links := 0, i_size := 0, i_dtime := now st\<rparr>
                   in fbind (e2_write_inode ino i4) (\<lambda>_. free_inode_bit ino (IS_DIR (i_mode i))) st))"

definition e2_do_unlink :: "nat \<Rightarrow> e2_inode \<Rightarrow> u8 list \<Rightarrow> bool \<Rightarrow> (bool \<times> e2_inode) eop" where
  "e2_do_unlink pino pin base want_dir =
     fbind (e2_dir_lookup pin base)
       (\<lambda>q st. case q of
          None \<Rightarrow> Some ((False, pin), st)
        | Some ino \<Rightarrow>
            fbind (e2_read_inode ino)
              (\<lambda>r st1. case r of
                 None \<Rightarrow> Some ((False, pin), st1)
               | Some i \<Rightarrow>
                   if IS_DIR (i_mode i) \<noteq> want_dir then Some ((False, pin), st1)
                   else fbind (if want_dir then e2_dir_is_empty i else (\<lambda>s. Some (True, s)))
                          (\<lambda>em st2.
                             if \<not> em then Some ((False, pin), st2)
                             else fbind (e2_dir_remove pino pin base)
                                    (\<lambda>(ok, pin1) st3.
                                       if \<not> ok then Some ((False, pin1), st3)
                                       else let pin2 = (if want_dir \<and> i_links pin1 > 2 then pin1\<lparr>i_links := i_links pin1 - 1\<rparr> else pin1);
                                                i1 = i\<lparr>i_links := (if want_dir then 0 else if i_links i \<noteq> 0 then i_links i - 1 else 0)\<rparr>
                                            in fbind (if want_dir then e2_write_inode pino pin2 else (\<lambda>s. Some (True, s)))
                                                 (\<lambda>_. fbind (if i_links i1 = 0 then release_inode ino i1
                                                              else (\<lambda>s. fbind (e2_write_inode ino (i1\<lparr>i_ctime := now s\<rparr>)) (\<lambda>_ s1. Some ((), s1)) s))
                                                        (\<lambda>_ s. Some ((True, pin2), s))) st3) st2) st1) st)"

text \<open>The inode number (0: failure), the parent and the new inode.\<close>

definition create_node :: "nat \<Rightarrow> e2_inode \<Rightarrow> u8 list \<Rightarrow> nat \<Rightarrow> (nat \<times> e2_inode \<times> e2_inode) eop" where
  "create_node pino pin base mode st =
     fbind (e2_alloc_inode (group_of_ino st pino) (IS_DIR mode))
       (\<lambda>ino st1.
          if ino = 0 then Some ((0, pin, blank_inode), st1)
          else let i = blank_inode\<lparr>i_mode := mode, i_links := (if IS_DIR mode then 2 else 1), i_atime := now st1, i_ctime := now st1, i_mtime := now st1\<rparr>
               in fbind (write_inode_ex ino i True)
                    (\<lambda>ok. fbind (if ok then e2_dir_add pino pin base ino (mode_to_ft mode) else (\<lambda>s. Some ((False, pin), s)))
                       (\<lambda>(ok1, pin1) st2.
                          if ok1 then Some ((ino, pin1, i), st2)
                          else fbind (free_inode_bit ino (IS_DIR mode)) (\<lambda>_ st3. Some ((0, pin1, i), st3)) st2)) st1) st"

section \<open>Operations\<close>

abbreviation (input) VFS_SYMLINK_MAGIC_LEN :: nat where "VFS_SYMLINK_MAGIC_LEN \<equiv> 10"

text \<open>First pass of a listing: names and inode numbers, at most \<open>n\<close> of them.\<close>

fun list_recs :: "bool \<Rightarrow> u8 list \<Rightarrow> nat \<Rightarrow> nat list \<Rightarrow> (string \<times> nat) list option" where
  "list_recs ft p n [] = Some []"
| "list_recs ft p n (off # offs) =
     (if n = 0 then Some []
      else case e2_is_dots ft p off of
             None \<Rightarrow> None
           | Some dot \<Rightarrow>
               let nl = dirent_name_len ft p off
               in if de_ino p off \<noteq> 0 \<and> nl > 0 \<and> \<not> dot
                  then (if nl > 255 \<or> length p < off + 8 + nl then None
                        else map_option (Cons (map char_at (takeWhile (\<lambda>b. b \<noteq> 0) (take nl (drop (off + 8) p))), de_ino p off)) (list_recs ft p (n - 1) offs))
                  else list_recs ft p n offs)"

fun list_dir_blocks :: "e2_inode \<Rightarrow> nat \<Rightarrow> nat list \<Rightarrow> (string \<times> nat) list option eop" where
  "list_dir_blocks d n [] st = Some (Some [], st)"
| "list_dir_blocks d n (lb # lbs) st =
     (if n = 0 then Some (Some [], st)
      else fbind (bmap 0 lb False d)
             (\<lambda>(pb, _) st1.
                if pb = 0 then list_dir_blocks d n lbs st1
                else fbind (bread pb)
                       (\<lambda>q st2. case q of
                          None \<Rightarrow> Some (None, st2)
                        | Some p \<Rightarrow>
                            (case list_recs (has_filetype st2) p n (rec_offs (block_size st2) p 0) of
                               None \<Rightarrow> None
                             | Some es \<Rightarrow> fbind (list_dir_blocks d (n - length es) lbs) (\<lambda>r st3. Some (map_option (\<lambda>fs. es @ fs) r, st3)) st2)) st1) st)"

definition dirent_for :: "string \<Rightarrow> nat \<Rightarrow> e2_inode option \<Rightarrow> vfs_dirent" where
  "dirent_for name ino r =
     (let e = \<lparr>de_name = name, de_size = 0, de_first_cluster = ino, de_attr = 0\<rparr>
      in case r of
           None \<Rightarrow> e
         | Some i \<Rightarrow> if IS_DIR (i_mode i) then e\<lparr>de_attr := 0x10\<rparr>
                     else if IS_LNK (i_mode i) then e\<lparr>de_size := u32_add VFS_SYMLINK_MAGIC_LEN (i_size i)\<rparr>
                     else e\<lparr>de_size := i_size i\<rparr>)"

fun stat_entries :: "(string \<times> nat) list \<Rightarrow> vfs_dirent list eop" where
  "stat_entries [] st = Some ([], st)"
| "stat_entries ((name, ino) # es) st =
     fbind (e2_read_inode ino) (\<lambda>r. fbind (stat_entries es) (\<lambda>ds st1. Some (dirent_for name ino r # ds, st1))) st"

definition fill_dirents :: "nat \<Rightarrow> int \<Rightarrow> (int \<times> vfs_dirent list) eop" where
  "fill_dirents dino max_n =
     fbind (e2_read_inode dino)
       (\<lambda>r st. case r of
          None \<Rightarrow> Some ((-1, []), st)
        | Some d \<Rightarrow>
            if \<not> IS_DIR (i_mode d) then Some ((-1, []), st)
            else fbind (list_dir_blocks d (nat max_n) [0..<dir_nblocks d st])
                   (\<lambda>q st1. case q of
                      None \<Rightarrow> Some ((-1, []), st1)
                    | Some es \<Rightarrow> fbind (stat_entries es) (\<lambda>ds st2. Some ((int (length ds), ds), st2)) st1) st)"

definition ext2_list :: "string \<Rightarrow> int \<Rightarrow> (int \<times> vfs_dirent list) eop" where
  "ext2_list path max_n st =
     (if \<not> e_mounted st then Some ((-1, []), st)
      else fbind (namei path True) (\<lambda>ino st1. if ino = 0 then Some ((-1, []), st1) else fill_dirents ino max_n st1) st)"

definition ext2_is_dir :: "string \<Rightarrow> int eop" where
  "ext2_is_dir path st =
     (if \<not> e_mounted st then Some (0, st)
      else fbind (namei path True)
             (\<lambda>ino st1. if ino = 0 then Some (0, st1)
                else fbind (e2_read_inode ino)
                       (\<lambda>r st2. Some (case r of None \<Rightarrow> 0 | Some i \<Rightarrow> if IS_DIR (i_mode i) then 1 else 0, st2)) st1) st)"

definition read_link_as_file :: "e2_inode \<Rightarrow> nat \<Rightarrow> nat \<Rightarrow> (int \<times> u8 list) eop" where
  "read_link_as_file i off len st =
     (let cap = VFS_SYMLINK_MAGIC_LEN + block_size st + 1
      in with_buffer cap (-1, [])
           (fbind (read_symlink i (cap - VFS_SYMLINK_MAGIC_LEN))
              (\<lambda>t st1. Some (case t of
                 None \<Rightarrow> (-1, [])
               | Some bs \<Rightarrow> let out = take len (drop off (VFS_SYMLINK_MAGIC @ bs)) in (int (length out), out), st1))) st)"

definition ext2_read_file_at :: "string \<Rightarrow> nat \<Rightarrow> nat \<Rightarrow> (int \<times> u8 list) eop" where
  "ext2_read_file_at path offset len st =
     (if \<not> e_mounted st then Some ((-1, []), st)
      else fbind (namei path False)
             (\<lambda>ino st1.
                if ino = 0 then Some ((-1, []), st1)
                else fbind (e2_read_inode ino)
                       (\<lambda>r st2. case r of
                          None \<Rightarrow> Some ((-1, []), st2)
                        | Some i \<Rightarrow>
                            if IS_DIR (i_mode i) then Some ((-1, []), st2)
                            else if IS_LNK (i_mode i) then read_link_as_file i offset len st2
                            else read_range offset len i st2) st1) st)"

definition ext2_read_file :: "string \<Rightarrow> nat \<Rightarrow> (int \<times> u8 list) eop" where
  "ext2_read_file path len = ext2_read_file_at path 0 len"

text \<open>\<open>sync_meta\<close> at the end of an operation that has come to \<open>rc\<close>, and on a failure before its end.\<close>

definition synced :: "int \<Rightarrow> int eop" where
  "synced rc = fbind sync_meta (\<lambda>ok st. Some (if ok then rc else -1, st))"

text \<open>The parent directory and its inode; \<open>None\<close> inside is \<open>-1\<close>.\<close>

definition open_parent :: "string \<Rightarrow> (nat \<times> e2_inode \<times> u8 list) option eop" where
  "open_parent path =
     fbind (e2_split_parent path)
       (\<lambda>r st. case r of
          None \<Rightarrow> Some (None, st)
        | Some (pino, base) \<Rightarrow>
            fbind (e2_read_inode pino) (\<lambda>q st1. Some (map_option (\<lambda>pin. (pino, pin, map byte_of base)) q, st1)) st)"

definition store_symlink :: "nat \<Rightarrow> e2_inode \<Rightarrow> u8 list \<Rightarrow> bool eop" where
  "store_symlink ino i tgt st =
     (let tl = length tgt
      in fbind (if tl < 60
                then (\<lambda>s. Some ((True, i\<lparr>i_block := pointers 15 (tgt @ zeros (60 - tl))\<rparr>), s))
                else fbind (bmap (group_of_ino st ino) 0 True i)
                       (\<lambda>(pb, i1) s. if pb = 0 then Some ((False, i1), s)
                          else fbind (write_built pb (tgt @ zeros (block_size s - tl))) (\<lambda>ok s1. Some ((ok, i1), s1)) s))
           (\<lambda>(ok, i1). fbind (e2_write_inode ino (i1\<lparr>i_size := (if ok then tl else 0)\<rparr>)) (\<lambda>_ s. Some (ok, s))) st)"

text \<open>What is done with an existing entry: its inode, or 0 where a new one has to be made.\<close>

definition claim_name :: "nat \<Rightarrow> e2_inode \<Rightarrow> u8 list \<Rightarrow> bool \<Rightarrow> (bool \<times> bool \<times> nat \<times> e2_inode \<times> e2_inode) eop" where
  "claim_name pino pin base is_link =
     fbind (e2_dir_lookup pin base)
       (\<lambda>q st. case q of
          None \<Rightarrow> Some ((True, False, 0, pin, blank_inode), st)
        | Some ino \<Rightarrow>
            fbind (e2_read_inode ino)
              (\<lambda>r st1. case r of
                 None \<Rightarrow> Some ((False, False, 0, pin, blank_inode), st1)
               | Some i \<Rightarrow>
                   if IS_DIR (i_mode i) then Some ((False, False, 0, pin, i), st1)
                   else if is_link \<or> IS_LNK (i_mode i)
                   then fbind (e2_do_unlink pino pin base False) (\<lambda>(ok, pin1) st2. Some ((ok, \<not> ok, 0, pin1, i), st2)) st1
                   else Some ((True, False, ino, pin, i), st1)) st)"

definition ext2_write_file :: "string \<Rightarrow> u8 list \<Rightarrow> int eop" where
  "ext2_write_file path data st =
     (if \<not> e_mounted st \<or> \<not> e_writable st then Some (-1, st)
      else let is_link = (take VFS_SYMLINK_MAGIC_LEN data = VFS_SYMLINK_MAGIC); tgt = drop VFS_SYMLINK_MAGIC_LEN data
           in fbind (open_parent path)
                (\<lambda>r st1. case r of
                   None \<Rightarrow> Some (-1, st1)
                 | Some (pino, pin, base) \<Rightarrow>
                     fbind (claim_name pino pin base is_link)
                       (\<lambda>(ok, dirty, ino, pin1, i) st2.
                          if \<not> ok then (if dirty then fbind sync_meta (\<lambda>_ st3. Some (-1, st3)) st2 else Some (-1, st2))
                          else if is_link
                          then (if tgt = [] \<or> length tgt \<ge> block_size st2 then fbind sync_meta (\<lambda>_ st3. Some (-1, st3)) st2
                                else fbind (create_node pino pin1 base 0xA1FF)
                                       (\<lambda>(n, _, i1).
                                          if n = 0 then fbind sync_meta (\<lambda>_ st3. Some (-1, st3))
                                          else fbind (store_symlink n i1 tgt) (\<lambda>ok1. synced (if ok1 then to_int (length data) else -1))) st2)
                          else fbind (if ino \<noteq> 0 then (\<lambda>s. Some ((ino, pin1, i), s)) else create_node pino pin1 base 0x81A4)
                                 (\<lambda>(n, _, i1).
                                    if n = 0 then fbind sync_meta (\<lambda>_ st3. Some (-1, st3))
                                    else fbind (write_content n i1 data) (\<lambda>(ok1, _). synced (if ok1 then to_int (length data) else -1))) st2) st1) st)"

definition unlink_path :: "bool \<Rightarrow> string \<Rightarrow> int eop" where
  "unlink_path want_dir path st =
     (if \<not> e_mounted st \<or> \<not> e_writable st then Some (-1, st)
      else fbind (open_parent path)
             (\<lambda>r st1. case r of
                None \<Rightarrow> Some (-1, st1)
              | Some (pino, pin, base) \<Rightarrow> fbind (e2_do_unlink pino pin base want_dir) (\<lambda>(ok, _). synced (if ok then 0 else -1)) st1) st)"

definition ext2_delete_file :: "string \<Rightarrow> int eop" where
  "ext2_delete_file path = unlink_path False path"

definition ext2_rmdir :: "string \<Rightarrow> int eop" where
  "ext2_rmdir path = unlink_path True path"

definition e2_dir_image :: "ext2 \<Rightarrow> nat \<Rightarrow> nat \<Rightarrow> u8 list" where
  "e2_dir_image st ino pino =
     dirent_set (has_filetype st) 12 pino (block_size st - 12) (map byte_of ''..'') 2
       (dirent_set (has_filetype st) 0 ino 12 (map byte_of ''.'') 2 (zeros (block_size st)))"

definition ext2_mkdir :: "string \<Rightarrow> int eop" where
  "ext2_mkdir path st =
     (if \<not> e_mounted st \<or> \<not> e_writable st then Some (-1, st)
      else fbind (open_parent path)
             (\<lambda>r st1. case r of
                None \<Rightarrow> Some (-1, st1)
              | Some (pino, pin, base) \<Rightarrow>
                  fbind (e2_dir_lookup pin base)
                    (\<lambda>q st2.
                       if q \<noteq> None then Some (-1, st2)
                       else fbind (e2_alloc_inode (group_of_ino st2 pino) True)
                              (\<lambda>ino st3.
                                 if ino = 0 then Some (-1, st3)
                                 else let i = blank_inode\<lparr>i_mode := 0x41ED, i_links := 2, i_atime := now st3, i_ctime := now st3, i_mtime := now st3\<rparr>
                                      in fbind (bmap (group_of_ino st3 ino) 0 True i)
                                           (\<lambda>(pb, i1) st4.
                                              if pb = 0 then fbind (free_inode_bit ino True) (\<lambda>_. fbind sync_meta (\<lambda>_ st5. Some (-1, st5))) st4
                                              else let i2 = i1\<lparr>i_size := block_size st4\<rparr>
                                                   in fbind (write_built pb (e2_dir_image st4 ino pino))
                                                        (\<lambda>ok. fbind (if ok then write_inode_ex ino i2 True else (\<lambda>s. Some (False, s)))
                                                          (\<lambda>ok1. fbind (if ok1 then e2_dir_add pino pin base ino 2 else (\<lambda>s. Some ((False, pin), s)))
                                                            (\<lambda>(ok2, pin1).
                                                               fbind (if ok2
                                                                      then fbind (e2_write_inode pino (pin1\<lparr>i_links := (i_links pin1 + 1) mod 65536\<rparr>)) (\<lambda>_ s. Some ((), s))
                                                                      else fbind (truncate_blocks 0 i2) (\<lambda>_. free_inode_bit ino True))
                                                                 (\<lambda>_. synced (if ok2 then 0 else -1))))) st4) st3) st2) st1) st)"

text \<open>The last component of the source path that the code appends.\<close>

fun src_base :: "string \<Rightarrow> string \<Rightarrow> string" where
  "src_base b [] = b"
| "src_base b (c # s) = src_base (if c = slash \<and> s \<noteq> [] then s else b) s"

definition target_path :: "string \<Rightarrow> string \<Rightarrow> nat \<Rightarrow> string option eop" where
  "target_path src dst outsz st =
     (if length dst \<ge> outsz then Some (None, st)
      else fbind (namei dst True)
             (\<lambda>dino st1.
                if dino = 0 then Some (Some dst, st1)
                else fbind (e2_read_inode dino)
                       (\<lambda>r st2. Some (case r of
                          None \<Rightarrow> Some dst
                        | Some d \<Rightarrow>
                            if \<not> IS_DIR (i_mode d) then Some dst
                            else let b = takeWhile (\<lambda>c. c \<noteq> slash) (src_base src src)
                                 in if length dst + 1 + length b + 1 > outsz then None
                                    else Some (dst @ (if dst = [] \<or> last dst \<noteq> slash then [slash] else []) @ b), st2)) st1) st)"

definition ext2_cp :: "string \<Rightarrow> string \<Rightarrow> int eop" where
  "ext2_cp src dst st =
     (if \<not> e_mounted st \<or> \<not> e_writable st then Some (-1, st)
      else fbind (namei src False)
             (\<lambda>sino st1.
                if sino = 0 then Some (-1, st1)
                else fbind (e2_read_inode sino)
                       (\<lambda>r st2. case r of
                          None \<Rightarrow> Some (-1, st2)
                        | Some i \<Rightarrow>
                            if IS_DIR (i_mode i) then Some (-1, st2)
                            else fbind (target_path src dst 512)
                                   (\<lambda>t st3. case t of
                                      None \<Rightarrow> Some (-1, st3)
                                    | Some dpath \<Rightarrow>
                                        let sz = (if IS_LNK (i_mode i) then u32_add VFS_SYMLINK_MAGIC_LEN (i_size i) else i_size i)
                                        in with_buffer (if sz = 0 then 1 else sz) (-1)
                                             (fbind (ext2_read_file_at src 0 sz)
                                                (\<lambda>(n, bs). if n < 0 then (\<lambda>s. Some (-1, s))
                                                           else fbind (ext2_write_file dpath bs) (\<lambda>rc s. Some (if rc < 0 then -1 else 0, s)))) st3) st2) st1) st)"

text \<open>Whether \<open>sino\<close> lies on the way from \<open>cur\<close> up to the root; \<open>None\<close> inside is an error.\<close>

fun walk_up :: "nat \<Rightarrow> nat \<Rightarrow> nat \<Rightarrow> bool option eop" where
  "walk_up 0 sino cur st = Some (Some False, st)"
| "walk_up (Suc n) sino cur st =
     (if cur = sino then Some (Some True, st)
      else if cur = EXT2_ROOT_INO then Some (Some False, st)
      else fbind (e2_read_inode cur)
             (\<lambda>r st1. case r of
                None \<Rightarrow> Some (None, st1)
              | Some w \<Rightarrow> fbind (e2_dir_lookup w (map byte_of ''..'')) (\<lambda>q st2. case q of None \<Rightarrow> Some (None, st2) | Some up \<Rightarrow> walk_up n sino up st2) st1) st)"

text \<open>The part of a move that changes the volume: \<open>sp\<close> and \<open>dp\<close> are the two parents, one structure
  when they are the same directory.\<close>

definition move_entry :: "nat \<Rightarrow> e2_inode \<Rightarrow> u8 list \<Rightarrow> nat \<Rightarrow> e2_inode \<Rightarrow> u8 list \<Rightarrow> nat \<Rightarrow> e2_inode \<Rightarrow> int eop" where
  "move_entry spino sp sbase dpino dp dbase sino sin =
     (let same = (dpino = spino); dirp = IS_DIR (i_mode sin)
      in fbind (e2_dir_add dpino dp dbase sino (mode_to_ft (i_mode sin)))
           (\<lambda>(ok, dp1).
              if \<not> ok then fbind sync_meta (\<lambda>_ st. Some (-1, st))
              else fbind (e2_dir_remove spino (if same then dp1 else sp) sbase)
                     (\<lambda>(ok1, sp1).
                        fbind (if dirp \<and> \<not> same
                               then fbind (dir_set_dotdot sino dpino)
                                      (\<lambda>ok2. fbind (e2_write_inode dpino (dp1\<lparr>i_links := (i_links dp1 + 1) mod 65536\<rparr>))
                                         (\<lambda>_. fbind (e2_write_inode spino (if i_links sp1 > 2 then sp1\<lparr>i_links := i_links sp1 - 1\<rparr> else sp1))
                                            (\<lambda>_ st. Some (ok2, st))))
                               else (\<lambda>st. Some (True, st)))
                          (\<lambda>ok2. fbind (e2_read_inode sino)
                             (\<lambda>r. fbind (case r of None \<Rightarrow> (\<lambda>st. Some (True, st)) | Some i \<Rightarrow> (\<lambda>st. e2_write_inode sino (i\<lparr>i_ctime := now st\<rparr>) st))
                                (\<lambda>_. synced (if ok1 \<and> ok2 then 0 else -1)))))))"

definition ext2_mv :: "string \<Rightarrow> string \<Rightarrow> int eop" where
  "ext2_mv src dst st =
     (if \<not> e_mounted st \<or> \<not> e_writable st then Some (-1, st)
      else fbind (open_parent src)
             (\<lambda>r st1. case r of
                None \<Rightarrow> Some (-1, st1)
              | Some (spino, spin, sbase) \<Rightarrow>
                  fbind (e2_dir_lookup spin sbase)
                    (\<lambda>q st2. case q of
                       None \<Rightarrow> Some (-1, st2)
                     | Some sino \<Rightarrow>
                         fbind (e2_read_inode sino)
                           (\<lambda>s st3. case s of
                              None \<Rightarrow> Some (-1, st3)
                            | Some sin \<Rightarrow>
                                fbind (target_path src dst 512)
                                  (\<lambda>t st4. case t of
                                     None \<Rightarrow> Some (-1, st4)
                                   | Some dpath \<Rightarrow>
                                       fbind (e2_split_parent dpath)
                                         (\<lambda>u st5. case u of
                                            None \<Rightarrow> Some (-1, st5)
                                          | Some (dpino, dname) \<Rightarrow>
                                              let dbase = map byte_of dname; dirp = IS_DIR (i_mode sin)
                                              in fbind (if dpino = spino then (\<lambda>st6. Some (Some spin, st6)) else e2_read_inode dpino)
                                                   (\<lambda>v st6. case v of
                                                      None \<Rightarrow> Some (-1, st6)
                                                    | Some dp \<Rightarrow>
                                                        if dpino = spino \<and> sbase = dbase then Some (0, st6)
                                                        else fbind (if dirp then walk_up 4096 sino dpino else (\<lambda>st7. Some (Some False, st7)))
                                                               (\<lambda>w st7.
                                                                  if w \<noteq> Some False then Some (-1, st7)
                                                                  else fbind (e2_dir_lookup dp dbase)
                                                                         (\<lambda>x st8. case x of
                                                                            None \<Rightarrow> move_entry spino spin sbase dpino dp dbase sino sin st8
                                                                          | Some tino \<Rightarrow>
                                                                              if tino = sino then Some (0, st8)
                                                                              else fbind (e2_read_inode tino)
                                                                                     (\<lambda>y st9. case y of
                                                                                        None \<Rightarrow> Some (-1, st9)
                                                                                      | Some tin \<Rightarrow>
                                                                                          if IS_DIR (i_mode tin) \<noteq> dirp then Some (-1, st9)
                                                                                          else fbind (e2_do_unlink dpino dp dbase dirp)
                                                                                                 (\<lambda>(ok, dp1). if ok then move_entry spino (if dpino = spino then dp1 else spin) sbase dpino dp1 dbase sino sin
                                                                                                               else fbind sync_meta (\<lambda>_ st10. Some (-1, st10))) st9) st8) st7) st6) st5) st4) st3) st2) st1) st)"

definition ext2_ops :: "ext2 vfs_ops" where
  "ext2_ops = \<lparr>op_list = Some ext2_list, op_is_dir = Some ext2_is_dir, op_read_file = Some ext2_read_file,
     op_read_file_at = Some ext2_read_file_at, op_write_file = Some ext2_write_file, op_delete_file = Some ext2_delete_file,
     op_mkdir = Some ext2_mkdir, op_rmdir = Some ext2_rmdir, op_cp = Some ext2_cp, op_mv = Some ext2_mv,
     op_link = None, op_chmod = None, op_chown = None\<rparr>"

section \<open>Mounting\<close>

definition probe_at :: "nat \<Rightarrow> ext2 \<Rightarrow> bool \<times> ext2" where
  "probe_at lba st =
     (case ata_read (u32_add lba 2) 2 (e_drive st) of
        None \<Rightarrow> (False, st)
      | Some b \<Rightarrow> (field b 56 2 = 0xEF53, st\<lparr>sb_raw := b\<rparr>))"

fun probe_all :: "nat list \<Rightarrow> ext2 \<Rightarrow> bool \<times> ext2" where
  "probe_all [] st = (False, st)"
| "probe_all (c # cs) st = (let (ok, st1) = probe_at c st in if ok then (True, st1\<lparr>part_lba := c\<rparr>) else probe_all cs st1)"

text \<open>Geometry and features, from the superblock; \<open>False\<close> where the volume is refused.\<close>

definition read_features :: "ext2 \<Rightarrow> bool \<times> ext2" where
  "read_features st =
     (let sb = sb_raw st; lg = field sb 24 4
      in if lg > 2 then (False, st)
         else if field sb 32 4 = 0 \<or> field sb 40 4 = 0 \<or> field sb 4 4 \<le> field sb 20 4 then (False, st)
         else let bs = 1024 * 2 ^ lg; old = (field sb 76 4 = 0); isz = (if old then 128 else field sb 88 2);
                  st1 = st\<lparr>block_size := bs, spb := bs div 512, ppb := bs div 4, inode_size := isz,
                           first_ino := (if old then 11 else field sb 84 4)\<rparr>;
                  incompat = (if old then 0 else of_nat (field sb 96 4)) :: u32; ro = (if old then 0 else of_nat (field sb 100 4)) :: u32;
                  state = of_nat (field sb 58 2) :: u16
              in if \<not> old \<and> (isz < 128 \<or> isz > bs \<or> isz AND (isz - 1) \<noteq> 0) then (False, st1)
                 else if incompat AND 4 \<noteq> 0 \<or> incompat AND NOT 0x202 \<noteq> 0 then (False, st1)
                 else (True, st1\<lparr>has_filetype := (incompat AND 2 \<noteq> 0),
                         e_writable := (ro AND NOT 0x63 = 0 \<and> state AND 1 \<noteq> 0 \<and> state AND 2 = 0)\<rparr>))"

definition layout_groups :: "ext2 \<Rightarrow> ext2" where
  "layout_groups st =
     (let n = u32_sub (u32_add (u32_sub (sb_blocks_count st) (sb_first_data_block st)) (sb_blocks_per_group st)) 1 div sb_blocks_per_group st
      in st\<lparr>group_count := n, gdt_start := u32_add (sb_first_data_block st) 1,
            gdt_blocks := u32_sub (u32_add (u32_mul n 32) (block_size st)) 1 div block_size st\<rparr>)"

definition clear_cache :: "ext2 \<Rightarrow> ext2" where
  "clear_cache st = st\<lparr>e_cache := map (\<lambda>e. e\<lparr>ce_valid := False, ce_stamp := 0\<rparr>) (e_cache st)\<rparr>"

definition free_two :: "nat \<Rightarrow> nat \<Rightarrow> unit eop" where
  "free_two p q st =
     (case (if p = 0 then Some (km_heap st) else kfree (km_heap st) p) of
        None \<Rightarrow> None
      | Some h \<Rightarrow> map_option (\<lambda>h1. ((), st\<lparr>km_heap := h1\<rparr>)) (if q = 0 then Some h else kfree h q))"

definition ext2_mount :: "int eop" where
  "ext2_mount st =
     (if e_mounted st then Some (0, st)
      else let cands = gpt_partitions (e_drive st) 16; (found, st1) = probe_all (if cands = [] then [0] else cands) st
           in if \<not> found then Some (-1, st1)
              else let (ok, st2) = read_features st1
                   in if \<not> ok then Some (-1, st2)
                      else let st3 = layout_groups st2
                           in case kmalloc (km_heap st3) (u32_mul (gdt_blocks st3) (block_size st3)) of
                                None \<Rightarrow> None
                              | Some (p, h) \<Rightarrow>
                                  (case kmalloc h (CACHE_N * block_size st3) of
                                     None \<Rightarrow> None
                                   | Some (q, h1) \<Rightarrow>
                                       let st4 = st3\<lparr>km_heap := h1\<rparr>
                                       in if p = 0 \<or> q = 0 then fbind (free_two p q) (\<lambda>_ st5. Some (-1, st5)) st4
                                          else let st5 = clear_cache st4
                                               in case dev_read (gdt_start st5) (gdt_blocks st5) st5 of
                                                    None \<Rightarrow> fbind (free_two p q) (\<lambda>_ st6. Some (-1, st6)) st5
                                                  | Some b \<Rightarrow>
                                                      fbind (e2_read_inode EXT2_ROOT_INO)
                                                        (\<lambda>r st6. if (case r of None \<Rightarrow> False | Some i \<Rightarrow> IS_DIR (i_mode i)) then Some (0, st6)
                                                                 else Some (-1, st6\<lparr>e_mounted := False\<rparr>))
                                                        (st5\<lparr>gdt_raw := b, e_mounted := True\<rparr>)))"

definition ext2_writable :: "ext2 \<Rightarrow> bool" where
  "ext2_writable st \<longleftrightarrow> e_mounted st \<and> e_writable st"

end
