(* ===== verification/Ext2_Cache.thy ===== *)
theory Ext2_Cache
  imports Ext2
begin

text \<open>
  The block cache of \<open>src/ext2.c\<close> is transparent: as long as every valid entry holds what is on the
  disk, reading and writing through it is reading and writing the disk.
\<close>

section \<open>The blocks of a volume\<close>

definition lba_of :: "ext2 \<Rightarrow> nat \<Rightarrow> nat" where
  "lba_of st b = part_lba st + b * spb st"

definition blkv :: "ext2 \<Rightarrow> nat \<Rightarrow> u8 list" where
  "blkv st b = sectors (e_drive st) (lba_of st b) (spb st)"

text \<open>The volume lies on the disk: \<open>n\<close> blocks that can all be transferred.\<close>

definition on_disk :: "nat \<Rightarrow> ext2 \<Rightarrow> bool" where
  "on_disk n st \<longleftrightarrow> block_size st = 512 * spb st \<and> 0 < spb st \<and> spb st < 2 ^ 16 \<and> lba_of st n < 2 ^ 32 \<and>
     reaches (e_drive st) (part_lba st) (n * spb st) \<and> (\<forall>i. length (d_sec (e_drive st) i) = 512)"

definition coherent :: "nat \<Rightarrow> ext2 \<Rightarrow> bool" where
  "coherent n st \<longleftrightarrow> e_cache st \<noteq> [] \<and>
     (\<forall>i < length (e_cache st). ce_valid (e_cache st ! i) \<longrightarrow> ce_blk (e_cache st ! i) < n \<and> ce_data (e_cache st ! i) = blkv st (ce_blk (e_cache st ! i))) \<and>
     (\<forall>i < length (e_cache st). \<forall>j < length (e_cache st). i \<noteq> j \<longrightarrow> ce_valid (e_cache st ! i) \<longrightarrow> ce_valid (e_cache st ! j) \<longrightarrow>
        ce_blk (e_cache st ! i) \<noteq> ce_blk (e_cache st ! j))"

definition cached :: "nat \<Rightarrow> ext2 \<Rightarrow> bool" where
  "cached n st \<longleftrightarrow> on_disk n st \<and> coherent n st"

text \<open>A state with other contents of the cache.\<close>

abbreviation (input) recache :: "ext2 \<Rightarrow> cache_ent list \<Rightarrow> nat \<Rightarrow> ext2" where
  "recache st c k \<equiv> st\<lparr>e_cache := c, cache_clock := k\<rparr>"

lemma recache_view [simp]: "blkv (st\<lparr>e_cache := c\<rparr>) = blkv st" "blkv (st\<lparr>cache_clock := k\<rparr>) = blkv st"
  "lba_of (st\<lparr>e_cache := c\<rparr>) = lba_of st" "lba_of (st\<lparr>cache_clock := k\<rparr>) = lba_of st"
  "on_disk n (st\<lparr>e_cache := c\<rparr>) = on_disk n st" "on_disk n (st\<lparr>cache_clock := k\<rparr>) = on_disk n st"
  by (simp_all add: blkv_def lba_of_def on_disk_def fun_eq_iff)

lemma on_disk_D:
  assumes "on_disk n st"
  shows "block_size st = 512 * spb st" "0 < spb st" "spb st < 2 ^ 16" "lba_of st n < 2 ^ 32" "reaches (e_drive st) (part_lba st) (n * spb st)"
    "\<And>i. length (d_sec (e_drive st) i) = 512"
  using assms unfolding on_disk_def by blast+

lemma length_blkv: "on_disk n st \<Longrightarrow> length (blkv st b) = block_size st"
  using on_disk_D(1,6) [of n st] by (simp add: blkv_def length_sectors)

lemma run_inside:
  assumes "on_disk n st" "b + m \<le> n"
  shows "u32_add (part_lba st) (u32_mul b (spb st)) = lba_of st b" "reaches (e_drive st) (lba_of st b) (m * spb st)"
    "lba_of st b + m * spb st \<le> lba_of st n"
proof -
  note v = on_disk_D [OF assms(1)]
  have le: "b * spb st + m * spb st \<le> n * spb st" using assms(2) by (metis add_mult_distrib mult_le_mono1)
  then show "lba_of st b + m * spb st \<le> lba_of st n" by (simp add: lba_of_def)
  have "b * spb st < 2 ^ 32" "part_lba st + b * spb st < 2 ^ 32" using le v(4) by (simp_all add: lba_of_def)
  then show "u32_add (part_lba st) (u32_mul b (spb st)) = lba_of st b" by (simp add: u32_add_def u32_mul_def lba_of_def)
  show "reaches (e_drive st) (lba_of st b) (m * spb st)"
    by (rule reaches_part [OF v(5)]) (use le in \<open>simp_all add: lba_of_def\<close>)
qed

lemma dev_read_run:
  assumes "on_disk n st" "b + m \<le> n" "m < 2 ^ 16"
  shows "dev_read b m st = Some (sectors (e_drive st) (lba_of st b) (m * spb st))"
proof -
  have "m * spb st < 2 ^ 32" using mult_strict_mono' [OF assms(3) on_disk_D(3) [OF assms(1)]] by simp
  then show ?thesis using run_inside [OF assms(1,2)] ata_read_eq by (simp add: dev_read_def u32_mul_def)
qed

lemma dev_read_block: "on_disk n st \<Longrightarrow> b < n \<Longrightarrow> dev_read b 1 st = Some (blkv st b)"
  using dev_read_run [of n st b 1] by (simp add: blkv_def)

text \<open>A run of blocks is the blocks one after the other.\<close>

lemma run_blocks: "sectors (e_drive st) (lba_of st b) (m * spb st) = concat (map (blkv st) [b..<b + m])"
proof (induction m)
  case (Suc m)
  have "lba_of st b + m * spb st = lba_of st (b + m)" by (simp add: lba_of_def add_mult_distrib)
  then show ?case using Suc sectors_append [of "e_drive st" "lba_of st b" "m * spb st" "spb st"] by (simp add: blkv_def add.commute)
qed (simp add: sectors_def)

section \<open>Writing blocks\<close>

definition put_run :: "nat \<Rightarrow> nat \<Rightarrow> u8 list \<Rightarrow> ext2 \<Rightarrow> ext2" where
  "put_run b m buf st = st\<lparr>e_drive := put_all (cut_sectors (lba_of st b) (m * spb st) buf) (e_drive st)\<rparr>"

lemma dev_write_run:
  assumes "on_disk n st" "b + m \<le> n" "m < 2 ^ 16"
  shows "dev_write b m buf st = Some (True, put_run b m buf st)"
proof -
  have "m * spb st < 2 ^ 32" using mult_strict_mono' [OF assms(3) on_disk_D(3) [OF assms(1)]] by simp
  then show ?thesis using run_inside [OF assms(1,2)] ata_write_eq by (simp add: dev_write_def put_run_def u32_mul_def)
qed

lemma put_run_on_disk:
  assumes "on_disk n st" "length buf = m * block_size st"
  shows "on_disk n (put_run b m buf st)"
proof -
  have l: "length buf = (m * spb st) * 512" using assms on_disk_D(1) by simp
  have "length (d_sec (put_all (cut_sectors (lba_of st b) (m * spb st) buf) (e_drive st)) i) = 512" for i
    using put_all_lengths [OF _ cut_all_lengths [OF l]] on_disk_D(6) [OF assms(1)] by blast
  then show ?thesis using on_disk_D [OF assms(1)] by (simp add: on_disk_def put_run_def lba_of_def)
qed

lemma blkv_put_run:
  assumes "on_disk n st" "length buf = m * block_size st"
  shows "blkv (put_run b m buf st) c = (if b \<le> c \<and> c < b + m then take (block_size st) (drop ((c - b) * block_size st) buf) else blkv st c)"
proof (cases "b \<le> c \<and> c < b + m")
  case True
  let ?d = "put_all (cut_sectors (lba_of st b) (m * spb st) buf) (e_drive st)"
  have s: "sectors ?d (lba_of st b) (m * spb st) = buf"
    by (rule sectors_put_all_cut) (use assms on_disk_D(1) in simp)
  have v: "on_disk n (put_run b m buf st)" "block_size (put_run b m buf st) = block_size st" using put_run_on_disk [OF assms] by (simp_all add: put_run_def)
  define w where "w = blkv (put_run b m buf st)"
  have w: "length (w x) = block_size st" for x using length_blkv [OF v(1)] v(2) by (simp add: w_def)
  have "concat (map w [b..<b + m]) = buf"
    unfolding w_def run_blocks [symmetric] using s by (simp add: put_run_def lba_of_def)
  moreover have "[b..<b + m] = [b..<c] @ c # [Suc c..<b + m]" using True upt_add_eq_append [of b c "b + m - c"] by (simp add: upt_conv_Cons)
  ultimately have e: "buf = concat (map w [b..<c]) @ w c @ concat (map w [Suc c..<b + m])" by simp
  have "length (concat (map w [b..<c])) = (c - b) * block_size st" by (simp add: length_concat comp_def w sum_list_triv)
  then have "take (block_size st) (drop ((c - b) * block_size st) buf) = w c" unfolding e by (simp add: w)
  then show ?thesis using True by (simp add: w_def)
next
  case False
  have "{lba_of st c..<lba_of st c + spb st} \<inter> fst ` set (cut_sectors (lba_of st b) (m * spb st) buf) = {}"
  proof -
    have "c < b \<Longrightarrow> c * spb st + spb st \<le> b * spb st" by (metis Suc_leI mult_Suc mult_le_mono1 add.commute)
    moreover have "b + m \<le> c \<Longrightarrow> b * spb st + m * spb st \<le> c * spb st" by (metis add_mult_distrib mult_le_mono1)
    ultimately show ?thesis using False by (auto simp: fst_cut lba_of_def)
  qed
  then have "blkv (put_run b m buf st) c = blkv st c"
    using sectors_put_all_other by (simp add: blkv_def put_run_def lba_of_def)
  then show ?thesis using False by auto
qed

lemma put_run_fields [simp]:
  "e_cache (put_run b m buf st) = e_cache st" "block_size (put_run b m buf st) = block_size st" "spb (put_run b m buf st) = spb st"
  "sb_raw (put_run b m buf st) = sb_raw st" "gdt_raw (put_run b m buf st) = gdt_raw st" "km_heap (put_run b m buf st) = km_heap st"
  by (simp_all add: put_run_def)

lemma put_run_recache: "put_run b m buf (st\<lparr>e_cache := c, cache_clock := k\<rparr>) = (put_run b m buf st)\<lparr>e_cache := c, cache_clock := k\<rparr>"
  by (simp add: put_run_def)

abbreviation put_blk :: "nat \<Rightarrow> u8 list \<Rightarrow> ext2 \<Rightarrow> ext2" where
  "put_blk b buf st \<equiv> put_run b (Suc 0) buf st"

lemma blkv_put_blk: "on_disk n st \<Longrightarrow> length buf = block_size st \<Longrightarrow> blkv (put_blk b buf st) = (blkv st)(b := buf)"
  using blkv_put_run [of n st buf "Suc 0" b] by (auto simp: fun_eq_iff)

section \<open>Entries of the cache\<close>

lemma cache_find_SomeD: "cache_find c b = Some i \<Longrightarrow> i < length c \<and> ce_valid (c ! i) \<and> ce_blk (c ! i) = b"
  using find_SomeD [of _ "[0..<length c]" i] by (fastforce simp: cache_find_def)

lemma cache_find_NoneD: "cache_find c b = None \<Longrightarrow> i < length c \<Longrightarrow> ce_valid (c ! i) \<Longrightarrow> ce_blk (c ! i) \<noteq> b"
  by (auto simp: cache_find_def find_None_iff)

lemma cache_victim_less: "c \<noteq> [] \<Longrightarrow> cache_victim c < length c"
proof -
  assume "c \<noteq> []"
  then have "fold (\<lambda>i v. if ce_stamp (c ! i) < ce_stamp (c ! v) then i else v) [0..<length c] 0 < length c"
    by (intro fold_invariant_set [where P = "\<lambda>v. v < length c"]) auto
  then show ?thesis by (auto simp: cache_victim_def split: option.split dest: find_SomeD)
qed

definition entry_for :: "cache_ent list \<Rightarrow> nat \<Rightarrow> nat" where
  "entry_for c b = (case cache_find c b of Some i \<Rightarrow> i | None \<Rightarrow> cache_victim c)"

lemma entry_for_less: "c \<noteq> [] \<Longrightarrow> entry_for c b < length c"
  by (auto simp: entry_for_def cache_victim_less dest: cache_find_SomeD split: option.split)

lemma coherentD:
  assumes "coherent n st" "i < length (e_cache st)" "ce_valid (e_cache st ! i)"
  shows "ce_blk (e_cache st ! i) < n" "ce_data (e_cache st ! i) = blkv st (ce_blk (e_cache st ! i))"
    "j < length (e_cache st) \<Longrightarrow> i \<noteq> j \<Longrightarrow> ce_valid (e_cache st ! j) \<Longrightarrow> ce_blk (e_cache st ! i) \<noteq> ce_blk (e_cache st ! j)"
  using assms unfolding coherent_def by blast+

text \<open>No other entry holds the block of the entry that is chosen for it.\<close>

lemma entry_for_unique:
  assumes "coherent n st" "j < length (e_cache st)" "j \<noteq> entry_for (e_cache st) b" "ce_valid (e_cache st ! j)"
  shows "ce_blk (e_cache st ! j) \<noteq> b"
proof (cases "cache_find (e_cache st) b")
  case None
  then show ?thesis using cache_find_NoneD assms(2,4) by blast
next
  case (Some i)
  note i = cache_find_SomeD [OF Some]
  then show ?thesis using coherentD(3) [OF assms(1), of i j] assms(2-4) Some by (simp add: entry_for_def)
qed

text \<open>Filling the entry for \<open>b\<close> when \<open>b\<close> is the only block whose contents differ.\<close>

lemma coherent_fill:
  assumes "coherent n st" "b < n" "\<And>c. c \<noteq> b \<Longrightarrow> blkv st1 c = blkv st c" "ce_blk e = b" "ce_data e = blkv st1 b"
    "e_cache st1 = (e_cache st)[entry_for (e_cache st) b := e]"
  shows "coherent n st1"
proof -
  let ?i = "entry_for (e_cache st) b"
  have ne: "e_cache st \<noteq> []" using assms(1) by (simp add: coherent_def)
  have i: "?i < length (e_cache st)" using entry_for_less [OF ne] .
  have "ce_blk (e_cache st1 ! j) < n \<and> ce_data (e_cache st1 ! j) = blkv st1 (ce_blk (e_cache st1 ! j))"
    if "j < length (e_cache st)" "ce_valid (e_cache st1 ! j)" for j
    using that assms(2-5) i coherentD(1,2) [OF assms(1), of j] entry_for_unique [OF assms(1), of j b] by (cases "j = ?i") (auto simp: assms(6))
  moreover have "ce_blk (e_cache st1 ! j) \<noteq> ce_blk (e_cache st1 ! k)"
    if "j < length (e_cache st)" "k < length (e_cache st)" "j \<noteq> k" "ce_valid (e_cache st1 ! j)" "ce_valid (e_cache st1 ! k)" for j k
    using that i assms(4) coherentD(3) [OF assms(1), of j k] entry_for_unique [OF assms(1), of j b] entry_for_unique [OF assms(1), of k b]
    by (cases "j = ?i"; cases "k = ?i") (auto simp: assms(6))
  ultimately show ?thesis unfolding coherent_def using ne by (simp add: assms(6))
qed

lemma coherent_sub:
  assumes "coherent n st" "blkv st1 = blkv st" "length (e_cache st1) = length (e_cache st)"
    "\<And>j. j < length (e_cache st) \<Longrightarrow> ce_valid (e_cache st1 ! j) \<Longrightarrow> ce_valid (e_cache st ! j) \<and>
       ce_blk (e_cache st1 ! j) = ce_blk (e_cache st ! j) \<and> ce_data (e_cache st1 ! j) = ce_data (e_cache st ! j)"
  shows "coherent n st1"
proof -
  have "e_cache st1 \<noteq> []" using assms(1,3) by (auto simp: coherent_def)
  then show ?thesis unfolding coherent_def assms(2,3) using assms(4) coherentD [OF assms(1)] by metis
qed

lemma coherent_invalid:
  assumes "coherent n st" "\<not> ce_valid e" "blkv st1 = blkv st" "e_cache st1 = (e_cache st)[i := e]"
  shows "coherent n st1"
proof (rule coherent_sub [OF assms(1,3)])
  fix j assume "j < length (e_cache st)" "ce_valid (e_cache st1 ! j)"
  then show "ce_valid (e_cache st ! j) \<and> ce_blk (e_cache st1 ! j) = ce_blk (e_cache st ! j) \<and> ce_data (e_cache st1 ! j) = ce_data (e_cache st ! j)"
    using assms(2) by (cases "j = i") (simp_all add: assms(4))
qed (simp add: assms(4))

lemma coherent_stamp: "coherent n st \<Longrightarrow> coherent n (touch i st)"
proof (rule coherent_sub)
  fix j assume "j < length (e_cache st)" "ce_valid (e_cache (touch i st) ! j)"
  then show "ce_valid (e_cache st ! j) \<and> ce_blk (e_cache (touch i st) ! j) = ce_blk (e_cache st ! j) \<and> ce_data (e_cache (touch i st) ! j) = ce_data (e_cache st ! j)"
    by (cases "j = i") (simp_all add: touch_def upd_ent_def Let_def)
qed (simp_all add: touch_def upd_ent_def Let_def)

section \<open>The operations\<close>

lemma bread_law:
  assumes "cached n st" "b < n"
  shows "\<exists>c k. bread b st = Some (Some (blkv st b), recache st c k) \<and> cached n (recache st c k)"
proof (cases "cache_find (e_cache st) b")
  case (Some i)
  note i = cache_find_SomeD [OF Some]
  have "ce_data (e_cache st ! i) = blkv st b" using coherentD(2) [of n st i] i assms(1) by (simp add: cached_def)
  moreover have "coherent n (touch i st)" using coherent_stamp assms(1) by (simp add: cached_def)
  ultimately show ?thesis using Some assms(1) by (auto simp: bread_def touch_def upd_ent_def Let_def cached_def)
next
  case None
  let ?i = "cache_victim (e_cache st)" and ?e = "(e_cache st ! cache_victim (e_cache st))\<lparr>ce_blk := b, ce_valid := True, ce_data := blkv st b\<rparr>"
  have ef: "entry_for (e_cache st) b = ?i" using None by (simp add: entry_for_def)
  have "coherent n (upd_ent ?i (\<lambda>e. e\<lparr>ce_blk := b, ce_valid := True, ce_data := blkv st b\<rparr>) st)"
    by (rule coherent_fill [of n st b _ ?e]) (use assms ef in \<open>simp_all add: cached_def upd_ent_def\<close>)
  from coherent_stamp [OF this, of ?i]
  have c: "coherent n (touch ?i (upd_ent ?i (\<lambda>e. e\<lparr>ce_blk := b, ce_valid := True, ce_data := blkv st b\<rparr>) st))" (is "coherent n ?st") .
  obtain d k where "?st = recache st d k" by (simp add: touch_def upd_ent_def Let_def)
  then show ?thesis using None assms dev_read_block [of n st b] c by (auto simp: bread_def Let_def cached_def)
qed

lemma bwrite_law:
  assumes "cached n st" "b < n" "length buf = block_size st"
  shows "\<exists>c k. bwrite b buf st = Some (True, recache (put_blk b buf st) c k) \<and> cached n (recache (put_blk b buf st) c k)"
proof -
  let ?i = "entry_for (e_cache st) b"
  define st1 where "st1 = touch ?i (upd_ent ?i (\<lambda>e. e\<lparr>ce_blk := b, ce_valid := True, ce_data := buf\<rparr>) st)"
  obtain c k where r: "st1 = recache st c k" by (auto simp: st1_def touch_def upd_ent_def Let_def)
  have v: "on_disk n st" "on_disk n st1" "coherent n st" using assms(1) r by (simp_all add: cached_def)
  have w: "bwrite b buf st = Some (True, put_blk b buf st1)"
    using dev_write_run [OF v(2), of b "Suc 0"] assms(2) by (simp add: bwrite_def Let_def st1_def entry_for_def [symmetric])
  have v1: "on_disk n (put_blk b buf st1)" using put_run_on_disk [OF v(2), of buf "Suc 0"] assms(3) r by simp
  have ne: "e_cache st \<noteq> []" using v(3) by (simp add: coherent_def)
  have i: "?i < length (e_cache st)" using entry_for_less [OF ne] .
  have dat: "ce_data (e_cache st1 ! ?i) = buf" using i by (simp add: st1_def touch_def upd_ent_def Let_def)
  have view: "blkv (put_blk b buf st1) = (blkv st)(b := buf)" using blkv_put_blk [OF v(2), of buf b] assms(3) r by simp
  have "coherent n (put_blk b buf st1)"
  proof (rule coherent_fill [OF v(3) assms(2), where e = "e_cache st1 ! ?i"])
    show "blkv (put_blk b buf st1) c = blkv st c" if "c \<noteq> b" for c using that by (simp add: view)
    show "ce_blk (e_cache st1 ! ?i) = b" using i by (simp add: st1_def touch_def upd_ent_def Let_def)
    show "ce_data (e_cache st1 ! ?i) = blkv (put_blk b buf st1) b" by (simp add: view dat)
    show "e_cache (put_blk b buf st1) = (e_cache st)[?i := e_cache st1 ! ?i]" using i by (simp add: st1_def touch_def upd_ent_def Let_def)
  qed
  then show ?thesis using w v1 by (auto simp: r put_run_recache cached_def)
qed

lemma binval_law: "cached n st \<Longrightarrow> \<exists>c. binval b st = st\<lparr>e_cache := c\<rparr> \<and> cached n (binval b st)"
proof -
  assume a: "cached n st"
  have "coherent n (upd_ent i (\<lambda>e. e\<lparr>ce_valid := False\<rparr>) st)" for i
    by (rule coherent_invalid [of n st]) (use a in \<open>simp_all add: cached_def upd_ent_def\<close>)
  then show ?thesis using a by (cases "cache_find (e_cache st) b") (auto simp: binval_def cached_def upd_ent_def intro: exI [of _ "e_cache st"])
qed

lemma write_built_law:
  assumes "cached n st" "b < n" "length buf = block_size st"
  shows "\<exists>c k. write_built b buf st = Some (True, recache (put_blk b buf st) c k) \<and> cached n (recache (put_blk b buf st) c k)"
proof -
  define st1 where "st1 = upd_ent (cache_victim (e_cache st)) (\<lambda>e. e\<lparr>ce_valid := False, ce_data := buf\<rparr>) st"
  obtain c0 where r: "st1 = st\<lparr>e_cache := c0\<rparr>" by (simp add: st1_def upd_ent_def)
  have "coherent n st1" unfolding st1_def
    by (rule coherent_invalid [of n st]) (use assms(1) in \<open>simp_all add: cached_def upd_ent_def\<close>)
  then have c1: "cached n st1" using assms(1) r by (simp add: cached_def)
  obtain c k where w: "bwrite b buf st1 = Some (True, recache (put_blk b buf st1) c k)" "cached n (recache (put_blk b buf st1) c k)"
    using bwrite_law [OF c1 assms(2), of buf] assms(3) r by auto
  have "recache (put_blk b buf st1) c k = recache (put_blk b buf st) c k" by (simp add: r put_run_def lba_of_def)
  then show ?thesis using w by (auto simp: write_built_def st1_def)
qed

section \<open>Transparency\<close>

datatype cache_op = Read_Block nat | Write_Block nat "u8 list" | Invalidate nat

text \<open>A series of accesses through \<open>rd\<close>, \<open>wr\<close> and \<open>ivl\<close>, with the blocks it reads; \<open>None\<close> is a failure.\<close>

fun run_ops :: "(nat \<Rightarrow> (u8 list option, 's) fsop) \<Rightarrow> (nat \<Rightarrow> u8 list \<Rightarrow> (bool, 's) fsop) \<Rightarrow> (nat \<Rightarrow> 's \<Rightarrow> 's) \<Rightarrow> cache_op list \<Rightarrow> 's \<Rightarrow> (u8 list list \<times> 's) option" where
  "run_ops rd wr ivl [] st = Some ([], st)"
| "run_ops rd wr ivl (Read_Block b # ops) st =
     (case rd b st of Some (Some buf, st1) \<Rightarrow> map_option (apfst (Cons buf)) (run_ops rd wr ivl ops st1) | _ \<Rightarrow> None)"
| "run_ops rd wr ivl (Write_Block b buf # ops) st =
     (case wr b buf st of Some (True, st1) \<Rightarrow> run_ops rd wr ivl ops st1 | _ \<Rightarrow> None)"
| "run_ops rd wr ivl (Invalidate b # ops) st = run_ops rd wr ivl ops (ivl b st)"

text \<open>The same on the contents of the blocks.\<close>

fun disk_ops :: "cache_op list \<Rightarrow> (nat \<Rightarrow> u8 list) \<Rightarrow> u8 list list \<times> (nat \<Rightarrow> u8 list)" where
  "disk_ops [] f = ([], f)"
| "disk_ops (Read_Block b # ops) f = apfst (Cons (f b)) (disk_ops ops f)"
| "disk_ops (Write_Block b buf # ops) f = disk_ops ops (f(b := buf))"
| "disk_ops (Invalidate b # ops) f = disk_ops ops f"

fun op_inside :: "nat \<Rightarrow> nat \<Rightarrow> cache_op \<Rightarrow> bool" where
  "op_inside n bs (Read_Block b) = (b < n)"
| "op_inside n bs (Write_Block b buf) = (b < n \<and> length buf = bs)"
| "op_inside n bs (Invalidate b) = True"

text \<open>The contract of a write-through cache over \<open>n\<close> blocks.\<close>

locale write_through =
  fixes rd :: "nat \<Rightarrow> (u8 list option, 's) fsop" and wr_blk :: "nat \<Rightarrow> u8 list \<Rightarrow> (bool, 's) fsop" and inval :: "nat \<Rightarrow> 's \<Rightarrow> 's"
    and view :: "'s \<Rightarrow> nat \<Rightarrow> u8 list" and bsize :: "'s \<Rightarrow> nat" and ok :: "'s \<Rightarrow> bool" and n :: nat
  assumes read_law: "ok st \<Longrightarrow> b < n \<Longrightarrow> \<exists>st1. rd b st = Some (Some (view st b), st1) \<and> ok st1 \<and> view st1 = view st \<and> bsize st1 = bsize st"
    and write_law: "ok st \<Longrightarrow> b < n \<Longrightarrow> length buf = bsize st \<Longrightarrow>
      \<exists>st1. wr_blk b buf st = Some (True, st1) \<and> ok st1 \<and> view st1 = (view st)(b := buf) \<and> bsize st1 = bsize st"
    and inval_law: "ok st \<Longrightarrow> ok (inval b st) \<and> view (inval b st) = view st \<and> bsize (inval b st) = bsize st"
begin

lemma transparent:
  assumes "ok st" "list_all (op_inside n (bsize st)) ops"
  shows "\<exists>st1. run_ops rd wr_blk inval ops st = Some (fst (disk_ops ops (view st)), st1) \<and> view st1 = snd (disk_ops ops (view st)) \<and> ok st1"
  using assms
proof (induction ops arbitrary: st)
  case (Cons op ops)
  show ?case
  proof (cases op)
    case (Read_Block b)
    then obtain st1 where 1: "rd b st = Some (Some (view st b), st1)" "ok st1" "view st1 = view st" "bsize st1 = bsize st"
      using read_law [OF Cons.prems(1), of b] Cons.prems(2) by auto
    then show ?thesis using Cons.IH [of st1] Cons.prems(2) Read_Block by auto
  next
    case (Write_Block b buf)
    then obtain st1 where 1: "wr_blk b buf st = Some (True, st1)" "ok st1" "view st1 = (view st)(b := buf)" "bsize st1 = bsize st"
      using write_law [OF Cons.prems(1), of b buf] Cons.prems(2) by auto
    have "\<exists>st2. run_ops rd wr_blk inval ops st1 = Some (fst (disk_ops ops (view st1)), st2) \<and> view st2 = snd (disk_ops ops (view st1)) \<and> ok st2"
      by (rule Cons.IH) (use 1 Cons.prems(2) in simp_all)
    then show ?thesis unfolding 1(3) using 1(1) Write_Block by simp
  next
    case (Invalidate b)
    then show ?thesis using Cons.IH [of "inval b st"] inval_law [OF Cons.prems(1), of b] Cons.prems(2) by auto
  qed
qed simp

end

interpretation e2: write_through bread bwrite binval blkv block_size "cached n" n for n
proof unfold_locales
  fix st b buf
  assume st: "cached n st"
  show "\<exists>st1. bread b st = Some (Some (blkv st b), st1) \<and> cached n st1 \<and> blkv st1 = blkv st \<and> block_size st1 = block_size st" if "b < n"
    using bread_law [OF st that] by auto
  show "\<exists>st1. bwrite b buf st = Some (True, st1) \<and> cached n st1 \<and> blkv st1 = (blkv st)(b := buf) \<and> block_size st1 = block_size st"
    if "b < n" "length buf = block_size st"
    using bwrite_law [OF st that] blkv_put_blk [of n st buf b] that(2) st by (auto simp: cached_def)
  show "cached n (binval b st) \<and> blkv (binval b st) = blkv st \<and> block_size (binval b st) = block_size st"
    using binval_law [OF st, of b] by auto
qed

text \<open>C12. The block cache is transparent: whatever blocks are read, written and invalidated and in whatever
  order, entries being evicted on the way, every read returns what was last written to the block or
  was on the disk, and in the end the disk holds all that was written.\<close>

theorem cache_transparent:
  assumes "cached n st" "list_all (op_inside n (block_size st)) ops"
  shows "\<exists>st1. run_ops bread bwrite binval ops st = Some (fst (disk_ops ops (blkv st)), st1) \<and> blkv st1 = snd (disk_ops ops (blkv st)) \<and> cached n st1"
  using e2.transparent [OF assms] .

section \<open>A small volume\<close>

definition blank_drive :: drive where
  "blank_drive = \<lparr>d_present = True, d_lba48 = False, d_total = 0, d_sec = (\<lambda>_. zeros 512), d_good = (\<lambda>_. True), d_log = []\<rparr>"

text \<open>A cache of two entries over blocks of one sector, so that a third block evicts one.\<close>

definition tiny_ext2 :: ext2 where
  "tiny_ext2 = \<lparr>km_heap = sample_heap, km_bytes = (\<lambda>_. 0), e_drive = blank_drive,
     e_clock = \<lparr>rtc_year = 2024, rtc_month = 5, rtc_day = 1, rtc_hour = 0, rtc_minute = 0, rtc_second = 0\<rparr>,
     e_mounted = True, e_writable = True, part_lba = 0, sb_raw = zeros 1024, sb_dirty = False, block_size = 512, spb = 1, ppb = 128,
     inode_size = 128, group_count = 1, gdt_start = 2, gdt_blocks = 1, has_filetype = True, first_ino = 11, gdt_raw = zeros 512,
     gdt_dirty_lo = -1, gdt_dirty_hi = -1, e_cache = replicate 2 \<lparr>ce_blk = 0, ce_stamp = 0, ce_valid = False, ce_data = []\<rparr>, cache_clock = 0\<rparr>"

lemma tiny_ext2_cached: "cached 10 tiny_ext2"
  by (simp add: cached_def on_disk_def coherent_def tiny_ext2_def lba_of_def reaches_def blank_drive_def nth_Cons' split: if_splits)

theorem cache_transparent_witness:
  "\<exists>st1. run_ops bread bwrite binval [Write_Block 3 (replicate 512 7), Read_Block 4, Read_Block 5, Read_Block 3] tiny_ext2 =
     Some ([zeros 512, zeros 512, replicate 512 7], st1)"
proof -
  have b: "blkv tiny_ext2 x = zeros 512" for x by (simp add: blkv_def sectors_def tiny_ext2_def blank_drive_def)
  have "list_all (op_inside 10 (block_size tiny_ext2)) [Write_Block 3 (replicate 512 7), Read_Block 4, Read_Block 5, Read_Block 3]"
    by (simp add: tiny_ext2_def)
  from cache_transparent [OF tiny_ext2_cached this] show ?thesis by (auto simp: b)
qed

end
