(* ===== verification/Ext2_Alloc.thy ===== *)
theory Ext2_Alloc
  imports Ext2_Cache Frame_Alloc
begin

text \<open>
  Allocation of blocks in \<open>src/ext2.c\<close>: the bitmaps of the groups and the counters of free blocks in the
  group descriptors and in the superblock agree, and the allocator meets the contract of a frame
  allocator.
\<close>

section \<open>Searching a bitmap\<close>

lemma claim_scan_correct:
  "nbits \<le> 8 * length bm \<Longrightarrow> (\<And>j. j < 8 * k \<Longrightarrow> j < nbits \<Longrightarrow> bit_test bm j) \<Longrightarrow>
     claim_scan bm nbits k = Some (List.find (\<lambda>i. \<not> bit_test bm i) [0..<nbits])"
proof (induction bm nbits k rule: claim_scan.induct)
  case (1 bm nbits k)
  have step: "claim_scan bm nbits (k + 1) = Some (List.find (\<lambda>i. \<not> bit_test bm i) [0..<nbits])"
    if more: "\<not> nbits \<le> k * 8" and part: "\<forall>b < 8. k * 8 + b < nbits \<longrightarrow> bit (bm ! k) b" and k: "k < length bm"
  proof -
    have full: "bit_test bm j" if "j < 8 * (k + 1)" "j < nbits" for j
    proof (cases "j < 8 * k")
      case False
      then obtain b where b: "j = k * 8 + b" using le_Suc_ex [of "8 * k" j] by (auto simp: mult.commute)
      have "b < 8" using that(1) b by simp
      then show ?thesis using part that(2) b by (simp add: bit_test_iff)
    qed (use 1(4) that in simp)
    show ?thesis
    proof (cases "bm ! k = 0xFF")
      case True
      then show ?thesis using 1(1) more k 1(3) full by simp
    next
      case False
      have "List.find (\<lambda>b. k * 8 + b < nbits \<and> \<not> bit (bm ! k) b) [0..<8] = None" using part by (simp add: find_None_iff)
      then show ?thesis using 1(2) more k False 1(3) full by simp
    qed
  qed
  show ?case
  proof (cases "nbits \<le> k * 8")
    case True
    then have "List.find (\<lambda>i. \<not> bit_test bm i) [0..<nbits] = None" using 1(4) by (auto simp: find_None_iff)
    then show ?thesis using True by (simp add: claim_scan.simps)
  next
    case False
    then have k: "k < length bm" using 1(3) by simp
    show ?thesis
    proof (cases "\<forall>b < 8. k * 8 + b < nbits \<longrightarrow> bit (bm ! k) b")
      case True
      then have n: "List.find (\<lambda>b. k * 8 + b < nbits \<and> \<not> bit (bm ! k) b) [0..<8] = None" by (simp add: find_None_iff)
      show ?thesis using step [OF False True k] False k n by (subst claim_scan.simps) simp
    next
      case none: False
      then obtain b where b: "List.find (\<lambda>b. k * 8 + b < nbits \<and> \<not> bit (bm ! k) b) [0..<8] = Some b"
        by (cases "List.find (\<lambda>b. k * 8 + b < nbits \<and> \<not> bit (bm ! k) b) [0..<8]") (auto simp: find_None_iff)
      then have p: "b < 8" "k * 8 + b < nbits" "\<not> bit (bm ! k) b" "\<And>c. c < b \<Longrightarrow> bit (bm ! k) c"
        by (auto simp: find_Some_iff)
      have ff: "bm ! k \<noteq> 0xFF" using p(1,3) bit_0xFF by metis
      have lower: "bit_test bm j" if "j < k * 8 + b" for j
      proof (cases "j < 8 * k")
        case True
        then show ?thesis using 1(4) p(2) that by simp
      next
        case False
        then obtain c where c: "j = k * 8 + c" using le_Suc_ex [of "8 * k" j] by (auto simp: mult.commute)
        then show ?thesis using p(4) [of c] p(1) that by (simp add: bit_test_iff)
      qed
      have "\<not> bit_test bm (k * 8 + b)" using p(1,3) by (simp add: bit_test_iff)
      then have "List.find (\<lambda>i. \<not> bit_test bm i) [0..<nbits] = Some (k * 8 + b)"
        using p(2) lower by (simp add: find_Some_iff) (auto intro: exI [of _ "k * 8 + b"])
      then show ?thesis using False k ff b by (subst claim_scan.simps) simp
    qed
  qed
qed

section \<open>The volume\<close>

definition free_bits :: "ext2 \<Rightarrow> nat \<Rightarrow> nat set" where
  "free_bits st g = {i. i < blocks_in_group st g \<and> \<not> bit_test (blkv st (gd_block_bitmap st g)) i}"

definition blk_no :: "ext2 \<Rightarrow> nat \<Rightarrow> nat \<Rightarrow> nat" where
  "blk_no st g i = sb_first_data_block st + g * sb_blocks_per_group st + i"

definition free_blocks :: "ext2 \<Rightarrow> nat set" where
  "free_blocks st = {blk_no st g i | g i. g < group_count st \<and> i \<in> free_bits st g}"

definition bitmaps :: "ext2 \<Rightarrow> nat set" where
  "bitmaps st = gd_block_bitmap st ` {..<group_count st}"

text \<open>The groups cover the blocks from the first data block to the end.\<close>

definition groups_ok :: "nat \<Rightarrow> ext2 \<Rightarrow> bool" where
  "groups_ok n st \<longleftrightarrow> n = sb_blocks_count st \<and> 0 < group_count st \<and> 0 < sb_blocks_per_group st \<and> sb_blocks_per_group st \<le> 8 * block_size st \<and>
     sb_blocks_per_group st < 2 ^ 16 \<and>
     blk_no st (group_count st - 1) 0 < n \<and> n \<le> blk_no st (group_count st) 0 \<and> blk_no st (group_count st) 0 < 2 ^ 32 \<and> 2 * group_count st < 2 ^ 32 \<and>
     length (sb_raw st) = 1024 \<and> 32 * group_count st \<le> length (gdt_raw st) \<and> inj_on (gd_block_bitmap st) {..<group_count st} \<and>
     bitmaps st \<subseteq> {..<n}"

definition counts_ok :: "ext2 \<Rightarrow> bool" where
  "counts_ok st \<longleftrightarrow> (\<forall>g < group_count st. gd_free_blocks st g = card (free_bits st g)) \<and> sb_free_blocks st = card (free_blocks st)"

text \<open>The static part: what allocation never changes.\<close>

definition geom :: "ext2 \<Rightarrow> _" where
  "geom st = ((block_size st, spb st, ppb st, inode_size st, group_count st), (part_lba st, has_filetype st, first_ino st, length (sb_raw st), length (gdt_raw st)),
     (gdt_start st, e_clock st, e_mounted st, e_writable st),
     (sb_inodes_count st, sb_blocks_count st, sb_first_data_block st, sb_blocks_per_group st, sb_inodes_per_group st),
     (\<lambda>g. gd_block_bitmap st g), (\<lambda>g. gd_inode_bitmap st g), (\<lambda>g. gd_inode_table st g))"

definition same_layout :: "ext2 \<Rightarrow> ext2 \<Rightarrow> bool" where
  "same_layout st st1 \<longleftrightarrow> geom st1 = geom st"

lemma same_layout_refl [simp]: "same_layout st st"
  by (simp add: same_layout_def)

lemma same_layout_trans: "same_layout st st1 \<Longrightarrow> same_layout st1 st2 \<Longrightarrow> same_layout st st2"
  by (simp add: same_layout_def)

lemma same_layoutD:
  assumes "same_layout st st1"
  shows "block_size st1 = block_size st" "spb st1 = spb st" "ppb st1 = ppb st" "inode_size st1 = inode_size st" "group_count st1 = group_count st"
    "part_lba st1 = part_lba st" "has_filetype st1 = has_filetype st" "first_ino st1 = first_ino st" "length (sb_raw st1) = length (sb_raw st)"
    "length (gdt_raw st1) = length (gdt_raw st)" "gdt_start st1 = gdt_start st" "e_clock st1 = e_clock st" "e_mounted st1 = e_mounted st" "e_writable st1 = e_writable st"
    "sb_inodes_count st1 = sb_inodes_count st" "sb_blocks_count st1 = sb_blocks_count st" "sb_first_data_block st1 = sb_first_data_block st"
    "sb_blocks_per_group st1 = sb_blocks_per_group st" "sb_inodes_per_group st1 = sb_inodes_per_group st"
    "gd_block_bitmap st1 g = gd_block_bitmap st g" "gd_inode_bitmap st1 g = gd_inode_bitmap st g" "gd_inode_table st1 g = gd_inode_table st g"
  using assms by (simp_all add: same_layout_def geom_def fun_eq_iff)

lemma same_layout_derived:
  assumes "same_layout st st1"
  shows "blk_no st1 = blk_no st" "blocks_in_group st1 = blocks_in_group st" "bitmaps st1 = bitmaps st" "groups_ok n st1 = groups_ok n st" "group_of_ino st1 = group_of_ino st"
proof -
  note f = same_layoutD [OF assms]
  show b: "blk_no st1 = blk_no st" by (simp add: fun_eq_iff blk_no_def f)
  show "blocks_in_group st1 = blocks_in_group st" by (simp add: fun_eq_iff blocks_in_group_def f)
  show "group_of_ino st1 = group_of_ino st" by (simp add: fun_eq_iff group_of_ino_def f)
  have "gd_block_bitmap st1 = gd_block_bitmap st" using f(20) by (simp add: fun_eq_iff)
  then show "bitmaps st1 = bitmaps st" "groups_ok n st1 = groups_ok n st" by (simp_all add: bitmaps_def groups_ok_def f b)
qed

definition volume :: "nat \<Rightarrow> ext2 \<Rightarrow> bool" where
  "volume n st \<longleftrightarrow> cached n st \<and> groups_ok n st \<and> counts_ok st \<and> free_blocks st \<inter> insert 0 (bitmaps st) = {}"

lemma groups_okD:
  assumes "groups_ok n st"
  shows "n = sb_blocks_count st" "0 < group_count st" "0 < sb_blocks_per_group st" "sb_blocks_per_group st \<le> 8 * block_size st" "sb_blocks_per_group st < 2 ^ 16"
    "blk_no st (group_count st - 1) 0 < n" "n \<le> blk_no st (group_count st) 0" "blk_no st (group_count st) 0 < 2 ^ 32" "2 * group_count st < 2 ^ 32"
    "length (sb_raw st) = 1024" "32 * group_count st \<le> length (gdt_raw st)" "inj_on (gd_block_bitmap st) {..<group_count st}" "bitmaps st \<subseteq> {..<n}"
  using assms unfolding groups_ok_def by blast+

lemma blocks_in_group_eq:
  assumes "groups_ok n st" "g < group_count st"
  shows "blocks_in_group st g = (if g = group_count st - 1 then n - blk_no st g 0 else sb_blocks_per_group st)"
    "blocks_in_group st g \<le> sb_blocks_per_group st" "i < blocks_in_group st g \<Longrightarrow> blk_no st g i < n"
proof -
  note G = groups_okD [OF assms(1)]
  have p: "blk_no st (group_count st) 0 = blk_no st (group_count st - 1) 0 + sb_blocks_per_group st"
    using G(2) by (cases "group_count st") (simp_all add: blk_no_def)
  have l: "blk_no st g i + (group_count st - 1 - g) * sb_blocks_per_group st = blk_no st (group_count st - 1) i" for i
  proof -
    have "g * sb_blocks_per_group st + (group_count st - 1 - g) * sb_blocks_per_group st = (group_count st - 1) * sb_blocks_per_group st"
      using assms(2) by (simp flip: add_mult_distrib)
    then show ?thesis by (simp add: blk_no_def)
  qed
  have g1: "u32_sub (group_count st) 1 = group_count st - 1" using G(2,9) by (simp add: no_wrap)
  have f: "sb_first_data_block st + g * sb_blocks_per_group st < n" using l [of 0] G(6) by (simp add: blk_no_def)
  then have s: "u32_sub (u32_sub (sb_blocks_count st) (sb_first_data_block st)) (u32_mul g (sb_blocks_per_group st)) = n - blk_no st g 0"
    using G(1,7,8) by (simp add: no_wrap blk_no_def)
  show e: "blocks_in_group st g = (if g = group_count st - 1 then n - blk_no st g 0 else sb_blocks_per_group st)"
    unfolding blocks_in_group_def g1 s by simp
  show le: "blocks_in_group st g \<le> sb_blocks_per_group st" unfolding e using p G(7) by auto
  show "blk_no st g i < n" if i: "i < blocks_in_group st g"
  proof (cases "g = group_count st - 1")
    case True
    then show ?thesis using i f unfolding e by (simp add: blk_no_def)
  next
    case False
    then obtain d where d: "group_count st - 1 - g = Suc d" using assms(2) by (cases "group_count st - 1 - g") auto
    have "blk_no st g 0 + sb_blocks_per_group st \<le> blk_no st (group_count st - 1) 0" using l [of 0] unfolding d by simp
    then show ?thesis using i False G(6) unfolding e by (simp add: blk_no_def)
  qed
qed

lemma blk_no_inj:
  assumes "groups_ok n st" "g < group_count st" "i < blocks_in_group st g" "h < group_count st" "j < blocks_in_group st h"
  shows "blk_no st g i = blk_no st h j \<longleftrightarrow> g = h \<and> i = j"
proof
  let ?p = "sb_blocks_per_group st"
  assume "blk_no st g i = blk_no st h j"
  then have e: "g * ?p + i = h * ?p + j" by (simp add: blk_no_def)
  have "i < ?p" "j < ?p" using blocks_in_group_eq(2) [OF assms(1)] assms by (meson order_less_le_trans)+
  then have "(g * ?p + i) div ?p = g" "(h * ?p + j) div ?p = h" by simp_all
  then have "g = h" using e by simp
  then show "g = h \<and> i = j" using e by simp
qed simp

lemma finite_free_bits [simp]: "finite (free_bits st g)"
  by (simp add: free_bits_def)

lemma free_blocks_sub: "groups_ok n st \<Longrightarrow> free_blocks st \<subseteq> {..<n}"
  using blocks_in_group_eq(3) by (auto simp: free_blocks_def free_bits_def)

lemma finite_free_blocks: "groups_ok n st \<Longrightarrow> finite (free_blocks st)"
  using free_blocks_sub finite_subset by blast

lemma free_block_iff:
  assumes "groups_ok n st" "g < group_count st" "i < blocks_in_group st g"
  shows "blk_no st g i \<in> free_blocks st \<longleftrightarrow> i \<in> free_bits st g"
  using assms blk_no_inj [OF assms] by (auto simp: free_blocks_def free_bits_def)

section \<open>Claiming and releasing a bit\<close>

lemma bitmap_claim_law:
  assumes "cached n st" "b < n" "nbits \<le> 8 * block_size st" "List.find (\<lambda>i. \<not> bit_test (blkv st b) i) [0..<nbits] = Some i"
  shows "\<exists>c k. bitmap_claim b nbits st = Some (Some i, recache (put_blk b (bit_set (blkv st b) i) st) c k) \<and>
    cached n (recache (put_blk b (bit_set (blkv st b) i) st) c k)"
proof -
  have v: "on_disk n st" using assms(1) by (simp add: cached_def)
  obtain c k where r: "bread b st = Some (Some (blkv st b), recache st c k)" "cached n (recache st c k)" using bread_law [OF assms(1,2)] by blast
  obtain c1 k1 where w: "bwrite b (bit_set (blkv st b) i) (recache st c k) = Some (True, recache (put_blk b (bit_set (blkv st b) i) (recache st c k)) c1 k1)"
    "cached n (recache (put_blk b (bit_set (blkv st b) i) (recache st c k)) c1 k1)"
    using bwrite_law [OF r(2) assms(2), of "bit_set (blkv st b) i"] length_blkv [OF v] by auto
  have "claim_scan (blkv st b) nbits 0 = Some (Some i)" using claim_scan_correct [of nbits "blkv st b" 0] assms(3,4) length_blkv [OF v] by simp
  then show ?thesis using r w by (auto simp: bitmap_claim_def fbind_def put_run_recache)
qed

lemma bitmap_release_law:
  assumes "cached n st" "b < n" "i < 8 * block_size st" "bit_test (blkv st b) i"
  shows "\<exists>c k. bitmap_release b i st = Some (Some True, recache (put_blk b (bit_clear (blkv st b) i) st) c k) \<and>
    cached n (recache (put_blk b (bit_clear (blkv st b) i) st) c k)"
proof -
  have v: "on_disk n st" using assms(1) by (simp add: cached_def)
  obtain c k where r: "bread b st = Some (Some (blkv st b), recache st c k)" "cached n (recache st c k)" using bread_law [OF assms(1,2)] by blast
  obtain c1 k1 where w: "bwrite b (bit_clear (blkv st b) i) (recache st c k) = Some (True, recache (put_blk b (bit_clear (blkv st b) i) (recache st c k)) c1 k1)"
    "cached n (recache (put_blk b (bit_clear (blkv st b) i) (recache st c k)) c1 k1)"
    using bwrite_law [OF r(2) assms(2), of "bit_clear (blkv st b) i"] length_blkv [OF v] by auto
  have "i div 8 < length (blkv st b)" using assms(3) length_blkv [OF v] by (simp add: less_mult_imp_div_less mult.commute)
  then show ?thesis using r w assms(4) by (auto simp: bitmap_release_def fbind_def put_run_recache)
qed

section \<open>The counters\<close>

lemma meta_view [simp]:
  "blkv (set_sb off v st) = blkv st" "blkv (set_gd g off v st) = blkv st" "blkv (gdt_mark_dirty g st) = blkv st"
  "cached n (set_sb off v st) = cached n st" "cached n (set_gd g off v st) = cached n st" "cached n (gdt_mark_dirty g st) = cached n st"
  by (simp_all add: set_sb_def set_gd_def gdt_mark_dirty_def Let_def blkv_def lba_of_def cached_def on_disk_def coherent_def fun_eq_iff)

lemma meta_fields [simp]:
  "sb_raw (gdt_mark_dirty g st) = sb_raw st" "gdt_raw (gdt_mark_dirty g st) = gdt_raw st" "gdt_raw (set_sb off v st) = gdt_raw st" "sb_raw (set_gd g off v st) = sb_raw st"
  "group_count (gdt_mark_dirty g st) = group_count st" "group_count (set_sb off v st) = group_count st" "group_count (set_gd g off v st) = group_count st"
  by (simp_all add: set_sb_def set_gd_def gdt_mark_dirty_def Let_def)

lemma sb_set:
  assumes "length (sb_raw st) = 1024" "off + 4 \<le> 1024"
  shows "field (sb_raw (set_sb off v st)) off 4 = v mod 2 ^ 32" "i + w \<le> off \<or> off + 4 \<le> i \<Longrightarrow> field (sb_raw (set_sb off v st)) i w = field (sb_raw st) i w"
    "length (sb_raw (set_sb off v st)) = 1024"
  using assms field_set_in [of off "sb_raw st" 0 4 "le_image 4 v"] field_set_before [of i w off "sb_raw st" "le_image 4 v"] field_set_after [of off "le_image 4 v" i "sb_raw st" w]
  by (auto simp: set_sb_def field_def le_val_image)

lemma gd_set:
  assumes "32 * g + off + 2 \<le> length (gdt_raw st)"
  shows "gd (set_gd g off v st) g off 2 = v mod 65536"
    "32 * h + i + w \<le> 32 * g + off \<or> 32 * g + off + 2 \<le> 32 * h + i \<Longrightarrow> gd (set_gd g off v st) h i w = gd st h i w"
    "length (gdt_raw (set_gd g off v st)) = length (gdt_raw st)"
  using assms field_set_in [of "32 * g + off" "gdt_raw st" 0 2 "le_image 2 v"] field_set_before [of "32 * h + i" w "32 * g + off" "gdt_raw st" "le_image 2 v"]
    field_set_after [of "32 * g + off" "le_image 2 v" "32 * h + i" "gdt_raw st" w]
  by (auto simp: set_gd_def gd_def field_def le_val_image)

text \<open>The counters of group \<open>g\<close> and of the volume get new values.\<close>

definition recount :: "nat \<Rightarrow> nat \<Rightarrow> nat \<Rightarrow> ext2 \<Rightarrow> ext2" where
  "recount g v w st = gdt_mark_dirty g (set_sb 12 v (set_gd g 12 w st))"

lemma recount_layout:
  assumes "length (sb_raw st) = 1024" "32 * g + 32 \<le> length (gdt_raw st)"
  shows "same_layout st (recount g v w st)" "gd_free_blocks (recount g v w st) g = w mod 65536" "h \<noteq> g \<Longrightarrow> gd_free_blocks (recount g v w st) h = gd_free_blocks st h"
    "sb_free_blocks (recount g v w st) = v mod 2 ^ 32" "cached n (recount g v w st) = cached n st" "blkv (recount g v w st) = blkv st"
proof -
  let ?st = "recount g v w st"
  have l: "length (sb_raw (set_gd g 12 w st)) = 1024" using assms(1) by simp
  have g: "32 * g + 12 + 2 \<le> length (gdt_raw st)" using assms(2) by simp
  have G: "gd ?st = gd (set_gd g 12 w st)" by (simp add: recount_def gd_def fun_eq_iff)
  have S: "sb_raw ?st = sb_raw (set_sb 12 v (set_gd g 12 w st))" by (simp add: recount_def)
  have "gd ?st h 0 4 = gd st h 0 4" "gd ?st h 4 4 = gd st h 4 4" "gd ?st h 8 4 = gd st h 8 4" for h
  proof -
    consider "h < g" | "h = g" | "g < h" by linarith
    then show "gd ?st h 0 4 = gd st h 0 4" "gd ?st h 4 4 = gd st h 4 4" "gd ?st h 8 4 = gd st h 8 4"
      unfolding G using gd_set(2) [OF g, of h] by (cases; simp)+
  qed
  moreover have "field (sb_raw ?st) i 4 = field (sb_raw st) i 4" if "i + 4 \<le> 12 \<or> 16 \<le> i" for i
    unfolding S using sb_set(2) [OF l, of 12 i 4 v] that by simp
  ultimately show "same_layout st ?st" using sb_set(3) [OF l, of 12 v] gd_set(3) [OF g, of w] assms(1)
    unfolding same_layout_def geom_def S by (simp add: fun_eq_iff) (simp add: recount_def set_sb_def set_gd_def gdt_mark_dirty_def Let_def)
  show "gd_free_blocks ?st g = w mod 65536" "h \<noteq> g \<Longrightarrow> gd_free_blocks ?st h = gd_free_blocks st h"
    unfolding G using gd_set(1) [OF g, of w] gd_set(2) [OF g, of h 12 2 w] by (auto simp: linorder_neq_iff)
  show "sb_free_blocks ?st = v mod 2 ^ 32" unfolding S using sb_set(1) [OF l, of 12 v] by simp
  show "cached n ?st = cached n st" "blkv ?st = blkv st" by (simp_all add: recount_def)
qed

lemma same_layout_io [simp]: "same_layout st (put_run b m buf st)" "same_layout st (st\<lparr>e_cache := c\<rparr>)" "same_layout st (st\<lparr>cache_clock := k\<rparr>)" "same_layout st (recache st c k)"
  "same_layout st (recache (put_run b m buf st) c k)"
  by (simp_all add: same_layout_def geom_def put_run_def gd_def fun_eq_iff)

section \<open>Allocation\<close>

lemma volumeD:
  assumes "volume n st"
  shows "cached n st" "groups_ok n st" "counts_ok st" "free_blocks st \<inter> bitmaps st = {}" "0 \<notin> free_blocks st" "on_disk n st"
  using assms by (auto simp: volume_def cached_def)

lemma countsD:
  assumes "volume n st"
  shows "g < group_count st \<Longrightarrow> gd_free_blocks st g = card (free_bits st g)" "sb_free_blocks st = card (free_blocks st)"
  using volumeD(3) [OF assms] by (auto simp: counts_ok_def)

lemma card_free_bits: "groups_ok n st \<Longrightarrow> g < group_count st \<Longrightarrow> card (free_bits st g) < 65536"
proof -
  assume a: "groups_ok n st" "g < group_count st"
  have "card (free_bits st g) \<le> card {..<blocks_in_group st g}" by (rule card_mono) (auto simp: free_bits_def)
  then show ?thesis using blocks_in_group_eq(2) [OF a] groups_okD(5) [OF a(1)] by simp
qed

lemma le_val_less: "le_val bs < 256 ^ length bs"
proof (induction bs)
  case (Cons b bs)
  have "unat b + 256 * le_val bs < 256 + 256 * le_val bs" using unat_u8_less [of b] by simp
  also have "\<dots> \<le> 256 * 256 ^ length bs" using Cons by simp
  finally show ?case by simp
qed simp

lemma field_less: "field bs off w < 256 ^ w"
proof -
  have "field bs off w < 256 ^ min w (length bs - off)" using le_val_less [of "take w (drop off bs)"] by (simp add: field_def min.commute)
  also have "\<dots> \<le> 256 ^ w" by (rule power_increasing) simp_all
  finally show ?thesis .
qed

lemma card_free_blocks: "volume n st \<Longrightarrow> card (free_blocks st) < 2 ^ 32"
  using countsD(2) field_less [of "sb_raw st" 12 4] by simp

text \<open>What a change of the bitmap of one group and of the counters does to the set of free blocks.\<close>

lemma free_bits_other:
  assumes "groups_ok n st" "same_layout st st1" "g < group_count st" "h < group_count st" "h \<noteq> g" "blkv st1 = (blkv st)(gd_block_bitmap st g := bm)"
  shows "free_bits st1 h = free_bits st h"
proof -
  have "gd_block_bitmap st h \<noteq> gd_block_bitmap st g" using groups_okD(12) [OF assms(1)] assms(3-5) by (auto simp: inj_on_def)
  then show ?thesis using assms(6) same_layoutD(20) [OF assms(2)] same_layout_derived(2) [OF assms(2)] by (simp add: free_bits_def)
qed

lemma bit_in_bitmap:
  assumes "volume n st" "g < group_count st" "i < blocks_in_group st g"
  shows "gd_block_bitmap st g < n" "i < 8 * length (blkv st (gd_block_bitmap st g))"
  using groups_okD(4,13) [OF volumeD(2) [OF assms(1)]] blocks_in_group_eq(2) [OF volumeD(2) [OF assms(1)] assms(2)] length_blkv [OF volumeD(6) [OF assms(1)]] assms(2,3)
  by (auto simp: bitmaps_def)

lemma free_bits_taken:
  assumes "volume n st" "same_layout st st1" "g < group_count st" "i < blocks_in_group st g"
    "blkv st1 = (blkv st)(gd_block_bitmap st g := bit_set (blkv st (gd_block_bitmap st g)) i)"
  shows "free_bits st1 g = free_bits st g - {i}"
  using assms(4,5) same_layoutD(20) [OF assms(2)] same_layout_derived(2) [OF assms(2)] bit_test_set [OF bit_in_bitmap(2) [OF assms(1,3,4)]]
  by (auto simp: free_bits_def)

lemma free_bits_given:
  assumes "volume n st" "same_layout st st1" "g < group_count st" "i < blocks_in_group st g"
    "blkv st1 = (blkv st)(gd_block_bitmap st g := bit_clear (blkv st (gd_block_bitmap st g)) i)"
  shows "free_bits st1 g = insert i (free_bits st g)"
  using assms(4,5) same_layoutD(20) [OF assms(2)] same_layout_derived(2) [OF assms(2)] bit_test_clear [OF bit_in_bitmap(2) [OF assms(1,3,4)]]
  by (auto simp: free_bits_def)

lemma free_blocks_change:
  assumes "groups_ok n st" "same_layout st st1" "g < group_count st" "i < blocks_in_group st g" "\<And>h. h < group_count st \<Longrightarrow> h \<noteq> g \<Longrightarrow> free_bits st1 h = free_bits st h"
  shows "free_bits st1 g = free_bits st g - {i} \<Longrightarrow> free_blocks st1 = free_blocks st - {blk_no st g i}"
    "free_bits st1 g = insert i (free_bits st g) \<Longrightarrow> free_blocks st1 = insert (blk_no st g i) (free_blocks st)"
proof -
  note f = same_layoutD(5) [OF assms(2)] same_layout_derived(1) [OF assms(2)]
  have bits: "j < blocks_in_group st h" if "j \<in> free_bits st h" for h j using that by (simp add: free_bits_def)
  have x: "x \<in> free_blocks st1 \<longleftrightarrow> (\<exists>h < group_count st. \<exists>j \<in> free_bits st1 h. x = blk_no st h j)" "x \<in> free_blocks st \<longleftrightarrow> (\<exists>h < group_count st. \<exists>j \<in> free_bits st h. x = blk_no st h j)" for x
    by (auto simp: free_blocks_def f)
  show "free_blocks st1 = free_blocks st - {blk_no st g i}" if m: "free_bits st1 g = free_bits st g - {i}"
  proof (intro set_eqI)
    fix y show "y \<in> free_blocks st1 \<longleftrightarrow> y \<in> free_blocks st - {blk_no st g i}"
      unfolding Diff_iff x using m assms(5) blk_no_inj [OF assms(1)] bits assms(3,4) by (metis DiffD1 DiffD2 DiffI singletonD singletonI)
  qed
  show "free_blocks st1 = insert (blk_no st g i) (free_blocks st)" if m: "free_bits st1 g = insert i (free_bits st g)"
  proof (intro set_eqI)
    fix y show "y \<in> free_blocks st1 \<longleftrightarrow> y \<in> insert (blk_no st g i) (free_blocks st)"
      unfolding insert_iff x using m assms(3,5) by (metis insertE insertI1 insertI2)
  qed
qed

text \<open>Blocks other than the bitmaps may change.\<close>

lemma volume_cong:
  assumes "volume n st" "same_layout st st1" "cached n st1" "sb_free_blocks st1 = sb_free_blocks st" "\<And>g. gd_free_blocks st1 g = gd_free_blocks st g"
    "\<And>b. b \<in> bitmaps st \<Longrightarrow> blkv st1 b = blkv st b"
  shows "volume n st1" "free_blocks st1 = free_blocks st"
proof -
  note V = volumeD [OF assms(1)] and f = same_layoutD(5,20) [OF assms(2)] and d = same_layout_derived [OF assms(2)]
  have b: "free_bits st1 g = free_bits st g" if "g < group_count st" for g
    using assms(6) [of "gd_block_bitmap st g"] that by (simp add: free_bits_def d f bitmaps_def)
  then show e: "free_blocks st1 = free_blocks st" by (auto simp: free_blocks_def d f)
  have "counts_ok st1" using V(3) b e assms(4,5) f(1) by (simp add: counts_ok_def)
  moreover have "groups_ok n st1" using V(2) d(4) by simp
  ultimately show "volume n st1" using assms(1,3) e d(3) by (simp add: volume_def)
qed

definition took :: "nat \<Rightarrow> ext2 \<Rightarrow> nat \<Rightarrow> ext2 \<Rightarrow> bool" where
  "took n st b st1 \<longleftrightarrow> b \<in> free_blocks st \<and> volume n st1 \<and> same_layout st st1 \<and> free_blocks st1 = free_blocks st - {b} \<and> (\<forall>x. x \<notin> bitmaps st \<longrightarrow> blkv st1 x = blkv st x)"

text \<open>After the bitmap of group \<open>g\<close> has become \<open>bm\<close>, the counters are set to the new numbers.\<close>

lemma recount_volume:
  assumes "volume n st" "g < group_count st" "i < blocks_in_group st g" "same_layout st st1" "cached n st1" "blkv st1 = (blkv st)(gd_block_bitmap st g := bm)"
    and cnt: "\<And>h. gd_free_blocks st1 h = gd_free_blocks st h"
    and bits: "\<And>st2. same_layout st st2 \<Longrightarrow> blkv st2 = blkv st1 \<Longrightarrow> free_bits st2 g = S \<and> free_blocks st2 = B"
    and new: "v mod 2 ^ 32 = card B" "w mod 65536 = card S" "B \<inter> insert 0 (bitmaps st) = {}"
  shows "volume n (recount g v w st1)" "same_layout st (recount g v w st1)" "blkv (recount g v w st1) = blkv st1" "free_blocks (recount g v w st1) = B"
proof -
  note V = volumeD [OF assms(1)] and G = groups_okD [OF volumeD(2) [OF assms(1)]]
  have l1: "length (sb_raw st1) = 1024" "32 * g + 32 \<le> length (gdt_raw st1)" using G(10,11) assms(2) same_layoutD(9,10) [OF assms(4)] by simp_all
  define st2 where "st2 = recount g v w st1"
  note R = recount_layout [OF l1, where v = v and w = w, folded st2_def]
  have f2: "same_layout st st2" using same_layout_trans [OF assms(4) R(1)] .
  have S: "free_bits st2 g = S" "free_blocks st2 = B" using bits [OF f2 R(6)] by simp_all
  have "gd_free_blocks st2 h = card (free_bits st2 h)" if "h < group_count st" for h
  proof (cases "h = g")
    case True
    then show ?thesis using R(2) new(2) by (simp add: S)
  next
    case False
    then have "free_bits st2 h = free_bits st h" using free_bits_other [OF V(2) f2 assms(2) that False] R(6) assms(6) by simp
    then show ?thesis using R(3) [OF False] cnt [of h] countsD(1) [OF assms(1) that] by simp
  qed
  then have "counts_ok st2" using R(4) new(1) same_layoutD(5) [OF f2] by (simp add: counts_ok_def S)
  then have "volume n st2" using V(2) same_layout_derived(3,4) [OF f2] R(5) [of n] assms(5) new(3) by (simp add: volume_def S)
  then show "volume n (recount g v w st1)" "same_layout st (recount g v w st1)" "blkv (recount g v w st1) = blkv st1" "free_blocks (recount g v w st1) = B"
    using f2 R(6) S(2) by (simp_all add: st2_def)
qed

lemma take_bit_group:
  assumes "volume n st" "g < group_count st" "free_bits st g \<noteq> {}"
  shows "\<exists>i st1. bitmap_claim (gd_block_bitmap st g) (blocks_in_group st g) st = Some (Some i, st1) \<and> i \<in> free_bits st g \<and>
    took n st (blk_no st g i) (binval (blk_no st g i) (recount g (u32_sub (sb_free_blocks st1) 1) (gd_free_blocks st1 g - 1) st1)) \<and> same_layout st st1"
proof -
  let ?b = "gd_block_bitmap st g"
  note V = volumeD [OF assms(1)]
  obtain j where "j < blocks_in_group st g" "\<not> bit_test (blkv st ?b) j" using assms(3) by (auto simp: free_bits_def)
  then obtain i where i: "List.find (\<lambda>i. \<not> bit_test (blkv st ?b) i) [0..<blocks_in_group st g] = Some i"
    by (cases "List.find (\<lambda>i. \<not> bit_test (blkv st ?b) i) [0..<blocks_in_group st g]") (auto simp: find_None_iff)
  have ib: "i \<in> free_bits st g" "i < blocks_in_group st g" using find_SomeD [OF i] by (auto simp: free_bits_def)
  have bb: "?b < n" "?b \<in> bitmaps st" using bit_in_bitmap(1) [OF assms(1,2) ib(2)] assms(2) by (auto simp: bitmaps_def)
  have nb: "blocks_in_group st g \<le> 8 * block_size st" using blocks_in_group_eq(2) [OF V(2) assms(2)] groups_okD(4) [OF V(2)] by simp
  let ?x = "blk_no st g i"
  obtain c k where cl: "bitmap_claim ?b (blocks_in_group st g) st = Some (Some i, recache (put_blk ?b (bit_set (blkv st ?b) i) st) c k)"
    "cached n (recache (put_blk ?b (bit_set (blkv st ?b) i) st) c k)" using bitmap_claim_law [OF V(1) bb(1) nb i] by blast
  define st1 where "st1 = recache (put_blk ?b (bit_set (blkv st ?b) i) st) c k"
  have f1: "same_layout st st1" "cached n st1" using cl(2) by (simp_all add: st1_def)
  have w1: "blkv st1 = (blkv st)(?b := bit_set (blkv st ?b) i)" using blkv_put_blk [OF V(6)] length_blkv [OF V(6)] by (simp add: st1_def)
  have cnt: "sb_free_blocks st1 = card (free_blocks st)" "gd_free_blocks st1 h = gd_free_blocks st h" for h
    using countsD(2) [OF assms(1)] by (simp_all add: st1_def gd_def)
  have mem: "?x \<in> free_blocks st" using free_block_iff [OF V(2) assms(2) ib(2)] ib(1) by simp
  then have pos: "0 < card (free_blocks st)" using finite_free_blocks [OF V(2)] by (simp add: card_gt_0_iff) blast
  have bits: "free_bits st2 g = free_bits st g - {i} \<and> free_blocks st2 = free_blocks st - {?x}" if "same_layout st st2" "blkv st2 = blkv st1" for st2
    using free_bits_taken [OF assms(1) that(1) assms(2) ib(2)] free_blocks_change(1) [OF V(2) that(1) assms(2) ib(2)] free_bits_other [OF V(2) that(1) assms(2)]
    unfolding that(2) w1 by blast
  define st2 where "st2 = recount g (u32_sub (sb_free_blocks st1) 1) (gd_free_blocks st1 g - 1) st1"
  have v: "u32_sub (sb_free_blocks st1) 1 mod 2 ^ 32 = card (free_blocks st - {?x})" using pos cnt(1) card_free_blocks [OF assms(1)] mem by (simp add: no_wrap)
  have w: "(gd_free_blocks st1 g - 1) mod 65536 = card (free_bits st g - {i})"
    using cnt(2) countsD(1) [OF assms(1,2)] card_free_bits [OF V(2) assms(2)] ib(1) by simp
  have dis: "(free_blocks st - {?x}) \<inter> insert 0 (bitmaps st) = {}" using V(4,5) by auto
  note R = recount_volume [OF assms(1,2) ib(2) f1 w1 cnt(2) bits v w dis, folded st2_def]
  obtain c1 where bi: "binval ?x st2 = st2\<lparr>e_cache := c1\<rparr>" "cached n (st2\<lparr>e_cache := c1\<rparr>)" using binval_law [OF volumeD(1) [OF R(1)]] by metis
  have "volume n (st2\<lparr>e_cache := c1\<rparr>)" "free_blocks (st2\<lparr>e_cache := c1\<rparr>) = free_blocks st2"
    using volume_cong [OF R(1) same_layout_io(2) bi(2)] by (simp_all add: gd_def)
  then have "took n st ?x (binval ?x st2)"
    unfolding took_def bi(1) using mem R(4) same_layout_trans [OF R(2) same_layout_io(2)] R(3) w1 bb(2) by auto
  then show ?thesis using cl(1) ib(1) f1(1) unfolding st2_def st1_def by blast
qed

lemma alloc_in_law:
  assumes "volume n st" "goal < group_count st" "\<forall>k \<in> set ks. k < group_count st"
  shows "((\<forall>k \<in> set ks. free_bits st ((goal + k) mod group_count st) = {}) \<and> e2_alloc_in ks goal st = Some (0, st)) \<or>
    (\<exists>b st1. e2_alloc_in ks goal st = Some (b, st1) \<and> took n st b st1)"
  using assms(3)
proof (induction ks)
  case (Cons k ks)
  let ?g = "(goal + k) mod group_count st"
  note V = volumeD [OF assms(1)] and G = groups_okD [OF volumeD(2) [OF assms(1)]]
  have g: "?g < group_count st" using assms(2) by simp
  have a: "u32_add goal k = goal + k" using assms(2) Cons.prems G(9) by (simp add: no_wrap)
  show ?case
  proof (cases "free_bits st ?g = {}")
    case True
    then have "gd_free_blocks st ?g = 0" using countsD(1) [OF assms(1) g] by simp
    then show ?thesis using Cons True a by simp
  next
    case False
    then have "gd_free_blocks st ?g \<noteq> 0" using countsD(1) [OF assms(1) g] by simp
    moreover obtain i st1 where t: "bitmap_claim (gd_block_bitmap st ?g) (blocks_in_group st ?g) st = Some (Some i, st1)" "i \<in> free_bits st ?g"
      "took n st (blk_no st ?g i) (binval (blk_no st ?g i) (recount ?g (u32_sub (sb_free_blocks st1) 1) (gd_free_blocks st1 ?g - 1) st1))" "same_layout st st1"
      using take_bit_group [OF assms(1) g False] by blast
    have "blk_no st ?g i < 2 ^ 32" using blocks_in_group_eq(3) [OF V(2) g] t(2) G(7,8) by (fastforce simp: free_bits_def)
    then have "u32_add (u32_add (sb_first_data_block st) (u32_mul ?g (sb_blocks_per_group st))) i = blk_no st ?g i" by (simp add: no_wrap blk_no_def)
    moreover have "field (sb_raw (recount ?g v w st1)) 20 4 = sb_first_data_block st" "field (sb_raw (recount ?g v w st1)) 32 4 = sb_blocks_per_group st" for v w
      using recount_layout(1) [of st1 ?g v w] G(10,11) g same_layoutD(9,10,17,18) [OF t(4)] same_layoutD(17,18) [of st1 "recount ?g v w st1"] by simp_all
    ultimately show ?thesis using t(1,3) a by (auto simp: fbind_def Let_def recount_def)
  qed
qed simp

lemma alloc_block_law:
  assumes "volume n st" "goal < group_count st"
  shows "free_blocks st = {} \<and> e2_alloc_block goal st = Some (0, st) \<or> (\<exists>b st1. e2_alloc_block goal st = Some (b, st1) \<and> took n st b st1)"
proof (cases "free_blocks st = {}")
  case True
  then show ?thesis using countsD(2) [OF assms(1)] by (simp add: e2_alloc_block_def)
next
  case False
  note V = volumeD [OF assms(1)]
  obtain g i where g: "g < group_count st" "i \<in> free_bits st g" using False by (auto simp: free_blocks_def)
  let ?k = "(g + group_count st - goal) mod group_count st"
  have "(goal + ?k) mod group_count st = g" using assms(2) g(1) by (simp add: mod_add_right_eq)
  moreover have "?k \<in> set [0..<group_count st]" using g(1) by simp
  ultimately have "\<not> (\<forall>k \<in> set [0..<group_count st]. free_bits st ((goal + k) mod group_count st) = {})" using g(2) by (metis empty_iff)
  moreover have "sb_free_blocks st \<noteq> 0" using countsD(2) [OF assms(1)] False finite_free_blocks [OF V(2)] by simp
  ultimately show ?thesis using alloc_in_law [OF assms, of "[0..<group_count st]"] by (auto simp: e2_alloc_block_def)
qed

section \<open>Release\<close>

definition gave :: "nat \<Rightarrow> ext2 \<Rightarrow> nat \<Rightarrow> ext2 \<Rightarrow> bool" where
  "gave n st b st1 \<longleftrightarrow> volume n st1 \<and> same_layout st st1 \<and> free_blocks st1 = insert b (free_blocks st) \<and> (\<forall>x. x \<notin> bitmaps st \<longrightarrow> blkv st1 x = blkv st x)"

lemma block_place:
  assumes "groups_ok n st" "sb_first_data_block st \<le> b" "b < n"
  shows "(b - sb_first_data_block st) div sb_blocks_per_group st < group_count st"
    "(b - sb_first_data_block st) mod sb_blocks_per_group st < blocks_in_group st ((b - sb_first_data_block st) div sb_blocks_per_group st)"
    "blk_no st ((b - sb_first_data_block st) div sb_blocks_per_group st) ((b - sb_first_data_block st) mod sb_blocks_per_group st) = b"
proof -
  note G = groups_okD [OF assms(1)]
  let ?p = "sb_blocks_per_group st" and ?r = "b - sb_first_data_block st"
  have "?r < group_count st * ?p" using assms(2,3) G(7) by (simp add: blk_no_def)
  then show g: "?r div ?p < group_count st" by (simp add: less_mult_imp_div_less)
  show n: "blk_no st (?r div ?p) (?r mod ?p) = b" using assms(2) by (simp add: blk_no_def add.assoc)
  have "blk_no st q m = blk_no st q 0 + m" for q m by (simp add: blk_no_def)
  then have "blk_no st (?r div ?p) 0 + ?r mod ?p < n" using n assms(3) by metis
  moreover have "?r mod ?p < ?p" using G(3) by simp
  ultimately show "?r mod ?p < blocks_in_group st (?r div ?p)" unfolding blocks_in_group_eq(1) [OF assms(1) g] by (cases "?r div ?p = group_count st - 1") (simp_all add: less_diff_conv add.commute)
qed

lemma free_block_law:
  assumes "volume n st" "sb_first_data_block st \<le> b" "b < n" "b \<notin> free_blocks st" "b \<noteq> 0" "b \<notin> bitmaps st"
  shows "\<exists>st1. e2_free_block b st = Some ((), st1) \<and> gave n st b st1"
proof -
  note V = volumeD [OF assms(1)] and G = groups_okD [OF volumeD(2) [OF assms(1)]]
  define g i where "g = (b - sb_first_data_block st) div sb_blocks_per_group st" and "i = (b - sb_first_data_block st) mod sb_blocks_per_group st"
  have p: "g < group_count st" "i < blocks_in_group st g" "blk_no st g i = b" using block_place [OF V(2) assms(2,3)] by (simp_all add: g_def i_def)
  let ?b = "gd_block_bitmap st g"
  obtain c0 where bi: "binval b st = st\<lparr>e_cache := c0\<rparr>" "cached n (st\<lparr>e_cache := c0\<rparr>)" using binval_law [OF V(1)] by metis
  define s0 where "s0 = st\<lparr>e_cache := c0\<rparr>"
  have s0: "cached n s0" "blkv s0 = blkv st" "gd s0 = gd st" "on_disk n s0" "block_size s0 = block_size st" using bi(2) by (simp_all add: s0_def gd_def fun_eq_iff cached_def)
  have notfree: "i \<notin> free_bits st g" using free_block_iff [OF V(2) p(1,2)] p(3) assms(4) by simp
  then have t: "bit_test (blkv s0 ?b) i" using p(2) s0(2) by (simp add: free_bits_def)
  have bb: "?b < n" "i < 8 * block_size s0" "?b \<in> bitmaps st"
    using bit_in_bitmap [OF assms(1) p(1,2)] length_blkv [OF V(6)] p(1) s0(5) by (auto simp: bitmaps_def)
  obtain c k where cl: "bitmap_release ?b i s0 = Some (Some True, recache (put_blk ?b (bit_clear (blkv s0 ?b) i) s0) c k)"
    "cached n (recache (put_blk ?b (bit_clear (blkv s0 ?b) i) s0) c k)" using bitmap_release_law [OF s0(1) bb(1,2) t] by blast
  define st1 where "st1 = recache (put_blk ?b (bit_clear (blkv s0 ?b) i) s0) c k"
  have "same_layout s0 st1" by (simp add: st1_def)
  then have f1: "same_layout st st1" "cached n st1" using cl(2) same_layout_trans [of st s0 st1] by (simp_all add: st1_def s0_def)
  have w1: "blkv st1 = (blkv st)(?b := bit_clear (blkv st ?b) i)" using blkv_put_blk [OF s0(4)] length_blkv [OF s0(4)] s0(2) by (simp add: st1_def)
  have cnt: "sb_free_blocks st1 = card (free_blocks st)" "gd_free_blocks st1 h = gd_free_blocks st h" for h
    using countsD(2) [OF assms(1)] by (simp_all add: st1_def s0_def gd_def)
  have bits: "free_bits st2 g = insert i (free_bits st g) \<and> free_blocks st2 = insert b (free_blocks st)" if "same_layout st st2" "blkv st2 = blkv st1" for st2
    using free_bits_given [OF assms(1) that(1) p(1,2)] free_blocks_change(2) [OF V(2) that(1) p(1,2)] free_bits_other [OF V(2) that(1) p(1)]
    unfolding that(2) w1 p(3) by blast
  have "card (insert b (free_blocks st)) \<le> n"
    using card_mono [of "{..<n}" "insert b (free_blocks st)"] free_blocks_sub [OF V(2)] assms(3) by simp
  moreover have "n < 2 ^ 32" using G(7,8) by simp
  ultimately have v: "u32_add (sb_free_blocks st1) 1 mod 2 ^ 32 = card (insert b (free_blocks st))"
    using cnt(1) assms(4) finite_free_blocks [OF V(2)] by (simp add: no_wrap)
  have "card (insert i (free_bits st g)) \<le> blocks_in_group st g"
    using card_mono [of "{..<blocks_in_group st g}" "insert i (free_bits st g)"] p(2) by (auto simp: free_bits_def)
  then have w: "(gd_free_blocks st1 g + 1) mod 65536 = card (insert i (free_bits st g))"
    using cnt(2) countsD(1) [OF assms(1) p(1)] blocks_in_group_eq(2) [OF V(2) p(1)] G(5) notfree by simp
  have dis: "insert b (free_blocks st) \<inter> insert 0 (bitmaps st) = {}" using V(4,5) assms(5,6) by auto
  define st2 where "st2 = recount g (u32_add (sb_free_blocks st1) 1) (gd_free_blocks st1 g + 1) st1"
  note R = recount_volume [OF assms(1) p(1,2) f1 w1 cnt(2) bits v w dis, folded st2_def]
  have "gave n st b st2" unfolding gave_def using R w1 bb(3) by auto
  moreover have "e2_free_block b st = Some ((), st2)"
    using assms(2,3) G(1,11) p(1) cl(1) bi(1)
    by (simp add: e2_free_block_def Let_def fbind_def g_def [symmetric] i_def [symmetric] s0_def [symmetric] s0(3) st1_def [symmetric] st2_def recount_def)
  ultimately show ?thesis by blast
qed

section \<open>The contract\<close>

text \<open>Blocks that a client may hold: neither free nor a bitmap.\<close>

definition held_blocks :: "ext2 \<Rightarrow> nat set" where
  "held_blocks st = {sb_first_data_block st..<sb_blocks_count st} - free_blocks st - insert 0 (bitmaps st)"

text \<open>Allocation for a goal in the first group, and release, as total functions.\<close>

definition block_taken :: "ext2 \<Rightarrow> nat \<times> ext2" where
  "block_taken st = the (e2_alloc_block 0 st)"

definition block_given :: "ext2 \<Rightarrow> nat \<Rightarrow> ext2" where
  "block_given st b = snd (the (e2_free_block b st))"

lemma block_taken_law:
  assumes "volume n st"
  shows "free_blocks st = {} \<and> block_taken st = (0, st) \<or> (\<exists>b st1. block_taken st = (b, st1) \<and> took n st b st1)"
  using alloc_block_law [OF assms, of 0] groups_okD(2) [OF volumeD(2) [OF assms]] by (auto simp: block_taken_def)

lemma block_given_law: "volume n st \<Longrightarrow> b \<in> held_blocks st \<Longrightarrow> gave n st b (block_given st b)"
  using free_block_law [of n st b] groups_okD(1) [OF volumeD(2), of n st] by (auto simp: block_given_def held_blocks_def)

lemma free_in_volume: "groups_ok n st \<Longrightarrow> free_blocks st \<subseteq> {sb_first_data_block st..<sb_blocks_count st}"
  using blocks_in_group_eq(3) groups_okD(1) by (fastforce simp: free_blocks_def free_bits_def blk_no_def)

lemma held_change:
  assumes "same_layout st st1"
  shows "free_blocks st1 = free_blocks st - {b} \<Longrightarrow> volume n st \<Longrightarrow> b \<in> free_blocks st \<Longrightarrow> held_blocks st1 = insert b (held_blocks st)"
    "free_blocks st1 = insert b (free_blocks st) \<Longrightarrow> held_blocks st1 = held_blocks st - {b}"
  using same_layoutD(16,17) [OF assms] same_layout_derived(3) [OF assms] volumeD(4,5) [of n st] free_in_volume [OF volumeD(2), of n st] by (auto simp: held_blocks_def)

interpretation e2blocks: frame_allocator block_taken block_given free_blocks held_blocks "volume n" for n
proof (unfold_locales, goal_cases)
  case (1 s)
  then show ?case using finite_free_blocks [OF volumeD(2)] by blast
next
  case (2 s)
  then show ?case by (auto simp: held_blocks_def)
next
  case (3 s)
  then show ?case by (rule volumeD(5))
next
  case (4 s)
  then show ?case using block_taken_law [OF 4] volumeD(5) [OF 4] by (auto simp: took_def)
next
  case (5 s)
  then show ?case using block_taken_law [OF 5(1)] volumeD(5) [OF 5(1)] by (auto simp: took_def)
next
  case (6 s)
  then show ?case using block_taken_law [OF 6(1)] by (auto simp: took_def)
next
  case (7 s)
  then show ?case using block_taken_law [OF 7(1)] by (auto simp: took_def)
next
  case (8 s)
  then show ?case using block_taken_law [OF 8(1)] held_change(1) [of s] by (auto simp: took_def)
next
  case (9 s)
  then show ?case using block_taken_law [OF 9] by (auto simp: took_def)
next
  case (10 s p)
  then show ?case using block_given_law by (auto simp: gave_def)
next
  case (11 s p)
  then show ?case using block_given_law [OF 11] held_change(2) [of s "block_given s p" p] by (auto simp: gave_def)
next
  case (12 s p)
  then show ?case using block_given_law by (auto simp: gave_def)
qed

section \<open>A small volume\<close>

text \<open>One group of 23 blocks of 1024 bytes with first data block 1; block 3 is the bitmap, the blocks up to 10 are
  in use.\<close>

definition small_bitmap :: "u8 list" where
  "small_bitmap = [0xFF, 0x03] @ zeros 1022"

definition small_drive :: drive where
  "small_drive = blank_drive\<lparr>d_sec := (\<lambda>i. zeros 512)(6 := [0xFF, 0x03] @ zeros 510)\<rparr>"

definition small_ext2 :: ext2 where
  "small_ext2 = tiny_ext2\<lparr>e_drive := small_drive, block_size := 1024, spb := 2, ppb := 256,
     sb_raw := le_image 4 32 @ le_image 4 24 @ zeros 4 @ le_image 4 13 @ zeros 4 @ le_image 4 1 @ zeros 8 @ le_image 4 8192 @ zeros 4 @ le_image 4 32 @ zeros 980,
     gdt_raw := le_image 4 3 @ le_image 4 4 @ le_image 4 5 @ le_image 2 13 @ zeros 1010\<rparr>"

lemma small_fields:
  "sb_blocks_count small_ext2 = 24" "sb_free_blocks small_ext2 = 13" "sb_first_data_block small_ext2 = 1" "sb_blocks_per_group small_ext2 = 8192"
  "sb_inodes_count small_ext2 = 32" "sb_inodes_per_group small_ext2 = 32"
  "gd_block_bitmap small_ext2 0 = 3" "gd_free_blocks small_ext2 0 = 13" "gd_inode_table small_ext2 0 = 5" "length (sb_raw small_ext2) = 1024" "length (gdt_raw small_ext2) = 1024"
  by (simp_all add: small_ext2_def gd_def field_def le_val_image)

lemma small_view: "blkv small_ext2 3 = small_bitmap" "group_count small_ext2 = 1" "block_size small_ext2 = 1024" "ppb small_ext2 = 256"
  by (simp_all add: blkv_def sectors_def lba_of_def small_ext2_def tiny_ext2_def small_drive_def small_bitmap_def blank_drive_def zeros_def replicate_add [symmetric])

lemma small_cached: "cached 24 small_ext2"
  by (simp add: cached_def on_disk_def coherent_def small_ext2_def tiny_ext2_def small_drive_def lba_of_def reaches_def blank_drive_def nth_Cons' split: if_splits)

lemma small_free_bits: "free_bits small_ext2 0 = {10..<23}"
proof -
  have b: "blocks_in_group small_ext2 0 = 23" by (simp add: blocks_in_group_def small_fields small_view u32_sub_def u32_mul_def)
  have "bit_test small_bitmap i \<longleftrightarrow> i < 10" if "i < 23" for i
  proof -
    have "i \<in> set [0..<23]" using that by simp
    then show ?thesis by (simp add: upt_rec small_bitmap_def) (elim disjE; simp add: bit_test_def nth_append zeros_def)
  qed
  then show ?thesis by (auto simp: free_bits_def b small_fields small_view)
qed

lemma small_free: "free_blocks small_ext2 = {11..<24}"
proof -
  have "free_blocks small_ext2 = {Suc i | i. i \<in> {10..<23}}" unfolding free_blocks_def small_view by (simp add: small_free_bits blk_no_def small_fields)
  then have "free_blocks small_ext2 = Suc ` {10..<23}" by blast
  then show ?thesis by (simp add: image_Suc_atLeastLessThan)
qed

lemma small_volume_ok: "volume 24 small_ext2"
proof -
  have "bitmaps small_ext2 = {3}" by (auto simp: bitmaps_def small_view small_fields)
  then show ?thesis using small_cached by (simp add: volume_def groups_ok_def counts_ok_def small_fields small_view small_free_bits small_free blk_no_def inj_on_def)
qed

section \<open>The property\<close>

text \<open>C16. On a volume whose bitmaps and counters agree, \<open>alloc_block\<close> fails exactly when no block is free, and then
  changes nothing.  Otherwise it hands out a block that was free and, with it, changes a bitmap and the counters only:
  the free blocks are those of before without the new one, the counters of the groups and of the superblock are again
  the numbers of free blocks, the layout is as it was, and so are the contents of every block that is not a bitmap.
  Freeing the block brings the same set of free blocks back, with the counters right again.\<close>

theorem e2_alloc_block_correct:
  assumes "volume n st" "goal < group_count st"
  shows "if free_blocks st = {} then e2_alloc_block goal st = Some (0, st)
    else \<exists>b st1 st2. e2_alloc_block goal st = Some (b, st1) \<and> b \<in> free_blocks st \<and> free_blocks st1 = free_blocks st - {b} \<and>
      counts_ok st1 \<and> same_layout st st1 \<and> (\<forall>x. x \<notin> bitmaps st \<longrightarrow> blkv st1 x = blkv st x) \<and>
      e2_free_block b st1 = Some ((), st2) \<and> free_blocks st2 = free_blocks st \<and> counts_ok st2"
proof (cases "free_blocks st = {}")
  case True
  then show ?thesis using alloc_block_law [OF assms] by (auto simp: took_def)
next
  case False
  then obtain b st1 where a: "e2_alloc_block goal st = Some (b, st1)" "took n st b st1" using alloc_block_law [OF assms] by auto
  have t: "b \<in> free_blocks st" "volume n st1" "same_layout st st1" "free_blocks st1 = free_blocks st - {b}" using a(2) unfolding took_def by blast+
  have "b \<in> held_blocks st1" using held_change(1) [OF t(3,4) assms(1) t(1)] by simp
  then have h: "sb_first_data_block st1 \<le> b" "b < n" "b \<notin> free_blocks st1" "b \<noteq> 0" "b \<notin> bitmaps st1"
    using groups_okD(1) [OF volumeD(2) [OF t(2)]] by (auto simp: held_blocks_def)
  obtain st2 where f: "e2_free_block b st1 = Some ((), st2)" "gave n st1 b st2" using free_block_law [OF t(2) h] by blast
  have "free_blocks st2 = free_blocks st" "counts_ok st2" using f(2) t(1,4) volumeD(3) [of n st2] unfolding gave_def by auto
  then show ?thesis using False a(1) f(1) t volumeD(3) [OF t(2)] a(2) unfolding took_def by auto
qed

theorem e2_alloc_block_correct_witness:
  "\<exists>b st1 st2. e2_alloc_block 0 small_ext2 = Some (b, st1) \<and> b \<in> {11..<24} \<and> sb_free_blocks st1 = 12 \<and>
     e2_free_block b st1 = Some ((), st2) \<and> sb_free_blocks st2 = 13"
proof -
  have "{11..<24::nat} \<noteq> {}" by simp
  then obtain b st1 st2 where a: "e2_alloc_block 0 small_ext2 = Some (b, st1)" "b \<in> {11..<24}" "free_blocks st1 = {11..<24} - {b}" "counts_ok st1"
      "e2_free_block b st1 = Some ((), st2)" "free_blocks st2 = {11..<24}" "counts_ok st2"
    using e2_alloc_block_correct [OF small_volume_ok, of 0] unfolding small_free by (auto simp: small_view)
  have "sb_free_blocks st1 = 12" "sb_free_blocks st2 = 13" using a unfolding counts_ok_def by auto
  then show ?thesis using a by blast
qed

end
