(* ===== verification/Ext2_Tree.thy ===== *)
theory Ext2_Tree
  imports Ext2_Inode Ext2_Alloc
begin

text \<open>
  The trees of block pointers of \<open>src/ext2.c\<close>: which blocks a tree consists of, what it maps, and how
  \<open>bmap\<close> makes it grow.
\<close>

section \<open>Trees of pointers\<close>

definition ptr :: "ext2 \<Rightarrow> nat \<Rightarrow> nat \<Rightarrow> nat" where
  "ptr st b k = field (blkv st b) (k * 4) 4"

text \<open>The block found below \<open>b\<close> for the file block with number \<open>rel\<close> in this tree.\<close>

fun descend :: "ext2 \<Rightarrow> nat \<Rightarrow> nat \<Rightarrow> nat \<Rightarrow> nat" where
  "descend st 0 b rel = b"
| "descend st (Suc l) b rel = (if b = 0 then 0 else descend st l (ptr st b (rel div ppb st ^ l mod ppb st)) rel)"

fun nodes :: "ext2 \<Rightarrow> nat \<Rightarrow> nat \<Rightarrow> nat set" where
  "nodes st 0 b = (if b = 0 then {} else {b})"
| "nodes st (Suc l) b = (if b = 0 then {} else insert b (\<Union>k \<in> {..<ppb st}. nodes st l (ptr st b k)))"

text \<open>The blocks that hold pointers.\<close>

fun inner :: "ext2 \<Rightarrow> nat \<Rightarrow> nat \<Rightarrow> nat set" where
  "inner st 0 b = {}"
| "inner st (Suc l) b = (if b = 0 then {} else insert b (\<Union>k \<in> {..<ppb st}. inner st l (ptr st b k)))"

text \<open>No block occurs twice.\<close>

fun ptree_ok :: "ext2 \<Rightarrow> nat \<Rightarrow> nat \<Rightarrow> bool" where
  "ptree_ok st 0 b = True"
| "ptree_ok st (Suc l) b \<longleftrightarrow> b = 0 \<or> (\<forall>k < ppb st. ptree_ok st l (ptr st b k) \<and> b \<notin> nodes st l (ptr st b k) \<and>
     (\<forall>j < ppb st. j \<noteq> k \<longrightarrow> nodes st l (ptr st b j) \<inter> nodes st l (ptr st b k) = {}))"

lemma inner_nodes: "inner st l b \<subseteq> nodes st l b"
  by (induction l arbitrary: b) auto

lemma nodes_zero [simp]: "nodes st l 0 = {}" "inner st l 0 = {}" "ptree_ok st l 0" "descend st l 0 rel = 0"
  by (cases l; simp)+

lemma nodes_root: "b \<noteq> 0 \<Longrightarrow> b \<in> nodes st l b"
  by (cases l) auto

lemma ptree_okD:
  assumes "ptree_ok st (Suc l) b" "b \<noteq> 0" "k < ppb st"
  shows "ptree_ok st l (ptr st b k)" "b \<notin> nodes st l (ptr st b k)" "j < ppb st \<Longrightarrow> j \<noteq> k \<Longrightarrow> nodes st l (ptr st b j) \<inter> nodes st l (ptr st b k) = {}"
  using assms by auto

lemma nodes_child: "b \<noteq> 0 \<Longrightarrow> k < ppb st \<Longrightarrow> nodes st l (ptr st b k) \<subseteq> nodes st (Suc l) b" "b \<noteq> 0 \<Longrightarrow> k < ppb st \<Longrightarrow> inner st l (ptr st b k) \<subseteq> inner st (Suc l) b"
  by auto

lemma descend_Suc: "b \<noteq> 0 \<Longrightarrow> descend st (Suc l) b rel = descend st l (ptr st b (rel div ppb st ^ l mod ppb st)) rel"
  by simp

lemma descend_nodes: "0 < ppb st \<Longrightarrow> descend st l b rel \<noteq> 0 \<Longrightarrow> descend st l b rel \<in> nodes st l b"
proof (induction l arbitrary: b)
  case (Suc l)
  have b: "b \<noteq> 0" using Suc.prems(2) by (auto split: if_splits)
  have "rel div ppb st ^ l mod ppb st < ppb st" using Suc.prems(1) by simp
  moreover have "descend st l (ptr st b (rel div ppb st ^ l mod ppb st)) rel \<in> nodes st l (ptr st b (rel div ppb st ^ l mod ppb st))"
    using Suc.IH [OF Suc.prems(1)] Suc.prems(2) unfolding descend_Suc [OF b] by blast
  ultimately show ?case unfolding descend_Suc [OF b] using nodes_child(1) [OF b] by blast
qed (simp split: if_splits)

lemma descend_leaf: "0 < ppb st \<Longrightarrow> ptree_ok st l b \<Longrightarrow> descend st l b rel \<noteq> 0 \<Longrightarrow> descend st l b rel \<notin> inner st l b"
proof (induction l arbitrary: b)
  case (Suc l)
  define i where "i = rel div ppb st ^ l mod ppb st"
  define w where "w = descend st l (ptr st b i) rel"
  have b: "b \<noteq> 0" using Suc.prems(3) by (auto split: if_splits)
  have e: "descend st (Suc l) b rel = w" using descend_Suc [OF b] by (simp add: w_def i_def)
  have i: "i < ppb st" using Suc.prems(1) by (simp add: i_def)
  have w0: "w \<noteq> 0" using Suc.prems(3) e by simp
  have in_i: "w \<in> nodes st l (ptr st b i)" using descend_nodes [OF Suc.prems(1)] w0 by (simp add: w_def)
  note T = ptree_okD [OF Suc.prems(2) b]
  have "w \<notin> inner st l (ptr st b k)" if "k < ppb st" for k
  proof (cases "k = i")
    case True
    then show ?thesis using Suc.IH [OF Suc.prems(1) T(1) [OF i]] w0 by (simp add: w_def)
  next
    case False
    then show ?thesis using T(3) [OF that i] in_i inner_nodes [of st l "ptr st b k"] by blast
  qed
  moreover have "w \<noteq> b" using T(2) [OF i] in_i by auto
  ultimately show ?case unfolding e by (auto split: if_splits)
qed simp

text \<open>A tree depends on the contents of its inner blocks only.\<close>

lemma tree_same:
  assumes "ppb st1 = ppb st"
  shows "(\<And>x. x \<in> inner st l b \<Longrightarrow> blkv st1 x = blkv st x) \<Longrightarrow> nodes st1 l b = nodes st l b \<and> inner st1 l b = inner st l b \<and>
    (\<forall>rel. 0 < ppb st \<longrightarrow> descend st1 l b rel = descend st l b rel) \<and> ptree_ok st1 l b = ptree_ok st l b"
proof (induction l arbitrary: b)
  case (Suc l)
  show ?case
  proof (cases "b = 0")
    case False
    have p: "ptr st1 b = ptr st b" using Suc.prems [of b] False by (simp add: ptr_def fun_eq_iff)
    have c: "nodes st1 l (ptr st b k) = nodes st l (ptr st b k) \<and> inner st1 l (ptr st b k) = inner st l (ptr st b k) \<and>
      (\<forall>rel. 0 < ppb st \<longrightarrow> descend st1 l (ptr st b k) rel = descend st l (ptr st b k) rel) \<and> ptree_ok st1 l (ptr st b k) = ptree_ok st l (ptr st b k)" if "k < ppb st" for k
      by (rule Suc.IH) (use Suc.prems False that in auto)
    show ?thesis using c by (simp add: p assms)
  qed simp
qed simp

lemma tree_cong:
  assumes "ppb st1 = ppb st" "\<And>x. x \<in> inner st l b \<Longrightarrow> blkv st1 x = blkv st x"
  shows "nodes st1 l b = nodes st l b" "inner st1 l b = inner st l b" "0 < ppb st \<Longrightarrow> descend st1 l b rel = descend st l b rel" "ptree_ok st1 l b = ptree_ok st l b"
  using tree_same [OF assms] by blast+

lemma tree_view:
  assumes "ppb st1 = ppb st" "blkv st1 = blkv st"
  shows "nodes st1 l b = nodes st l b" "inner st1 l b = inner st l b" "descend st1 l b rel = descend st l b rel" "ptree_ok st1 l b = ptree_ok st l b"
proof -
  show "nodes st1 l b = nodes st l b" "inner st1 l b = inner st l b" "ptree_ok st1 l b = ptree_ok st l b" using tree_cong [OF assms(1)] assms(2) by simp_all
  have "ptr st1 = ptr st" by (simp add: ptr_def fun_eq_iff assms(2))
  then show "descend st1 l b rel = descend st l b rel" by (induction l arbitrary: b) (simp_all add: assms(1))
qed

section \<open>Looking up\<close>

lemma bmap_walk_lookup:
  assumes "cached n st" "b \<noteq> 0" "nodes st l b \<subseteq> {..<n}" "0 < ppb st" "alloc \<longrightarrow> descend st l b rel \<noteq> 0"
  shows "\<exists>c k. bmap_walk l rel goal alloc b i st = Some ((descend st l b rel, i), recache st c k) \<and> cached n (recache st c k)"
  using assms
proof (induction l arbitrary: b st)
  case 0
  show ?case by (rule exI [of _ "e_cache st"], rule exI [of _ "cache_clock st"]) (use 0 in simp)
next
  case (Suc l)
  let ?i = "rel div ppb st ^ l mod ppb st"
  have b: "b < n" using Suc.prems(2,3) by auto
  obtain c k where r: "bread b st = Some (Some (blkv st b), recache st c k)" "cached n (recache st c k)" using bread_law [OF Suc.prems(1) b] by blast
  have i: "?i < ppb st" using Suc.prems(4) by simp
  have p: "field (blkv st b) (?i * 4) 4 = ptr st b ?i" by (simp add: ptr_def)
  show ?case
  proof (cases "ptr st b ?i = 0")
    case True
    have "bmap_walk (Suc l) rel goal alloc b i st = Some ((descend st (Suc l) b rel, i), recache st c k)"
      using r(1) True Suc.prems(2,5) by (simp add: fbind_def span_def Let_def p)
    then show ?thesis using r(2) by blast
  next
    case False
    have v: "nodes (recache st c k) l x = nodes st l x" "descend (recache st c k) l x rel = descend st l x rel" for x using tree_view [of "recache st c k" st] by simp_all
    have "nodes st l (ptr st b ?i) \<subseteq> {..<n}" using Suc.prems(2,3) nodes_child(1) [OF _ i, of b l] by blast
    then obtain c1 k1 where s: "bmap_walk l rel goal alloc (ptr st b ?i) i (recache st c k) = Some ((descend st l (ptr st b ?i) rel, i), recache (recache st c k) c1 k1)"
      "cached n (recache (recache st c k) c1 k1)" using Suc.IH [OF r(2) False] Suc.prems(2,4,5) unfolding v by auto
    have "bmap_walk (Suc l) rel goal alloc b i st = Some ((descend st (Suc l) b rel, i), recache st c1 k1)"
      using r(1) False Suc.prems(2) s(1) by (simp add: fbind_def span_def Let_def p)
    then show ?thesis using s(2) by auto
  qed
qed

section \<open>Growing\<close>

text \<open>The blocks \<open>ns\<close> have been added to the tree below \<open>b\<close>, which now maps \<open>rel\<close> to \<open>pb\<close>.\<close>

definition grown :: "nat \<Rightarrow> nat \<Rightarrow> nat \<Rightarrow> nat \<Rightarrow> nat \<Rightarrow> nat set \<Rightarrow> ext2 \<Rightarrow> ext2 \<Rightarrow> bool" where
  "grown n l rel b pb ns st st1 \<longleftrightarrow> volume n st1 \<and> same_layout st st1 \<and> ptree_ok st1 l b \<and> nodes st1 l b = nodes st l b \<union> ns \<and>
     inner st1 l b \<subseteq> inner st l b \<union> ns \<and> ns \<subseteq> free_blocks st \<and> free_blocks st1 = free_blocks st - ns \<and> descend st1 l b rel = pb \<and>
     (\<forall>r. r mod ppb st ^ l \<noteq> rel mod ppb st ^ l \<longrightarrow> descend st1 l b r = descend st l b r) \<and>
     (\<forall>x. x \<notin> bitmaps st \<and> x \<notin> inner st l b \<and> x \<notin> ns \<longrightarrow> blkv st1 x = blkv st x)"

lemma grownD:
  assumes "grown n l rel b pb ns st st1"
  shows "volume n st1" "same_layout st st1" "ptree_ok st1 l b" "nodes st1 l b = nodes st l b \<union> ns" "inner st1 l b \<subseteq> inner st l b \<union> ns" "ns \<subseteq> free_blocks st"
    "free_blocks st1 = free_blocks st - ns" "descend st1 l b rel = pb" "\<And>r. r mod ppb st ^ l \<noteq> rel mod ppb st ^ l \<Longrightarrow> descend st1 l b r = descend st l b r"
    "\<And>x. x \<notin> bitmaps st \<Longrightarrow> x \<notin> inner st l b \<Longrightarrow> x \<notin> ns \<Longrightarrow> blkv st1 x = blkv st x"
  using assms unfolding grown_def by blast+

text \<open>Growth below one child is growth of the whole.\<close>

lemma grown_child:
  assumes g: "grown n l rel (ptr st b k) pb ns st st1" and k: "k = rel div ppb st ^ l mod ppb st"
    and st: "volume n st" "ptree_ok st (Suc l) b" "b \<noteq> 0" "nodes st (Suc l) b \<subseteq> held_blocks st" "0 < ppb st"
  shows "grown n (Suc l) rel b pb ns st st1"
proof -
  note G = grownD [OF g] and T = ptree_okD [OF st(2,3)]
  have p: "ppb st1 = ppb st" using same_layoutD(3) [OF G(2)] .
  have kp: "k < ppb st" using st(5) by (simp add: k)
  have held: "x \<notin> bitmaps st" "x \<notin> ns" if "x \<in> nodes st (Suc l) b" for x
    using that st(4) G(6) by (auto simp: held_blocks_def)
  have bn: "b \<in> nodes st (Suc l) b" using nodes_root [OF st(3)] .
  have "b \<notin> inner st l (ptr st b k)" using T(2) [OF kp] inner_nodes by blast
  then have bb: "blkv st1 b = blkv st b" using G(10) [of b] held [OF bn] by blast
  then have P: "ptr st1 b = ptr st b" by (simp add: ptr_def fun_eq_iff)
  have oth: "nodes st1 l (ptr st b j) = nodes st l (ptr st b j)" "inner st1 l (ptr st b j) = inner st l (ptr st b j)"
    "descend st1 l (ptr st b j) r = descend st l (ptr st b j) r" "ptree_ok st1 l (ptr st b j) = ptree_ok st l (ptr st b j)" if j: "j < ppb st" "j \<noteq> k" for j r
  proof -
    have "blkv st1 x = blkv st x" if "x \<in> inner st l (ptr st b j)" for x
    proof -
      have x: "x \<in> nodes st l (ptr st b j)" using that inner_nodes by blast
      then have "x \<notin> inner st l (ptr st b k)" using T(3) [OF kp j] inner_nodes [of st l "ptr st b k"] by blast
      moreover have "x \<in> nodes st (Suc l) b" using x nodes_child(1) [OF st(3) j(1)] by blast
      ultimately show ?thesis using G(10) [of x] held by blast
    qed
    from tree_cong [OF p this] show "nodes st1 l (ptr st b j) = nodes st l (ptr st b j)" "inner st1 l (ptr st b j) = inner st l (ptr st b j)"
      "descend st1 l (ptr st b j) r = descend st l (ptr st b j) r" "ptree_ok st1 l (ptr st b j) = ptree_ok st l (ptr st b j)" using st(5) by simp_all
  qed
  have nd: "nodes st1 l (ptr st b j) = nodes st l (ptr st b j) \<union> (if j = k then ns else {})" if "j < ppb st" for j
    using G(4) oth(1) [OF that] by auto
  have "nodes st1 (Suc l) b = nodes st (Suc l) b \<union> ns" using nd kp st(3) by (auto simp: P p split: if_splits)
  moreover have "inner st1 (Suc l) b \<subseteq> inner st (Suc l) b \<union> ns"
  proof -
    have "inner st1 l (ptr st b j) \<subseteq> inner st l (ptr st b j) \<union> ns" if "j < ppb st" for j using G(5) oth(2) [OF that] by (cases "j = k") auto
    then show ?thesis using st(3) by (auto simp: P p)
  qed
  moreover have "ptree_ok st1 (Suc l) b"
  proof -
    have "ptree_ok st1 l (ptr st b j)" if "j < ppb st" for j using G(3) oth(4) [OF that] T(1) [OF that] by (cases "j = k") simp_all
    moreover have "b \<notin> nodes st1 l (ptr st b j)" if "j < ppb st" for j using nd [OF that] T(2) [OF that] held(2) [OF bn] by auto
    moreover have "nodes st1 l (ptr st b i) \<inter> nodes st1 l (ptr st b j) = {}" if "i < ppb st" "j < ppb st" "i \<noteq> j" for i j
    proof -
      have "nodes st l (ptr st b i) \<inter> ns = {}" "nodes st l (ptr st b j) \<inter> ns = {}" using held(2) nodes_child(1) [OF st(3)] that(1,2) by blast+
      then show ?thesis using nd [OF that(1)] nd [OF that(2)] T(3) [OF that(2,1)] that(3) by auto
    qed
    ultimately show ?thesis by (simp add: P p)
  qed
  moreover have "descend st1 (Suc l) b rel = pb" using G(8) st(3) by (simp add: P p k)
  moreover have "descend st1 (Suc l) b r = descend st (Suc l) b r" if r: "r mod ppb st ^ Suc l \<noteq> rel mod ppb st ^ Suc l" for r
  proof (cases "r div ppb st ^ l mod ppb st = k")
    case True
    have e: "x mod (ppb st ^ l * ppb st) = ppb st ^ l * (x div ppb st ^ l mod ppb st) + x mod ppb st ^ l" for x by (rule mod_mult2_eq)
    have "r mod ppb st ^ l \<noteq> rel mod ppb st ^ l" using r e [of r] e [of rel] True k by (simp add: mult.commute)
    then show ?thesis using G(9) True st(3) by (simp add: P p)
  next
    case False
    then show ?thesis using oth(3) [of "r div ppb st ^ l mod ppb st" r] st(3,5) by (simp add: P p)
  qed
  moreover have "blkv st1 x = blkv st x" if "x \<notin> bitmaps st" "x \<notin> inner st (Suc l) b" "x \<notin> ns" for x
    using G(10) [of x] that nodes_child(2) [OF st(3) kp] by blast
  ultimately show ?thesis unfolding grown_def using G(1,2,6,7) by blast
qed

section \<open>A new block\<close>

text \<open>Like \<open>took\<close>, but the block itself may have been filled.\<close>

definition got :: "nat \<Rightarrow> ext2 \<Rightarrow> nat \<Rightarrow> ext2 \<Rightarrow> bool" where
  "got n st b st1 \<longleftrightarrow> b \<in> free_blocks st \<and> volume n st1 \<and> same_layout st st1 \<and> free_blocks st1 = free_blocks st - {b} \<and>
     (\<forall>x. x \<notin> bitmaps st \<and> x \<noteq> b \<longrightarrow> blkv st1 x = blkv st x)"

lemma volume_put:
  assumes "volume n st" "b < n" "b \<notin> bitmaps st" "length buf = block_size st" "cached n (recache (put_blk b buf st) c k)"
  shows "volume n (recache (put_blk b buf st) c k)" "free_blocks (recache (put_blk b buf st) c k) = free_blocks st" "blkv (put_blk b buf st) = (blkv st)(b := buf)"
proof -
  show v: "blkv (put_blk b buf st) = (blkv st)(b := buf)" using blkv_put_blk [OF volumeD(6) [OF assms(1)] assms(4)] .
  have bm: "blkv (recache (put_blk b buf st) c k) x = blkv st x" if "x \<in> bitmaps st" for x using v assms(3) that by auto
  show "volume n (recache (put_blk b buf st) c k)" by (rule volume_cong(1) [OF assms(1) same_layout_io(5) assms(5)]) (use bm in \<open>simp_all add: gd_def\<close>)
  show "free_blocks (recache (put_blk b buf st) c k) = free_blocks st" by (rule volume_cong(2) [OF assms(1) same_layout_io(5) assms(5)]) (use bm in \<open>simp_all add: gd_def\<close>)
qed

lemma volume_recache: "volume n st \<Longrightarrow> cached n (recache st c k) \<Longrightarrow> volume n (recache st c k) \<and> free_blocks (recache st c k) = free_blocks st"
  using volume_cong [of n st "recache st c k"] by (simp add: gd_def)

lemma inode_new_block_law:
  assumes "volume n st" "goal < group_count st" "free_blocks st \<noteq> {}"
  shows "\<exists>b m st1. inode_new_block goal zero i st = Some ((b, i\<lparr>i_blocks := m\<rparr>), st1) \<and> b \<noteq> 0 \<and> got n st b st1 \<and> (zero \<longrightarrow> blkv st1 b = zeros (block_size st))"
proof -
  obtain b s1 where a: "e2_alloc_block goal st = Some (b, s1)" "took n st b s1" using alloc_block_law [OF assms(1,2)] assms(3) by auto
  have t: "b \<in> free_blocks st" "volume n s1" "same_layout st s1" "free_blocks s1 = free_blocks st - {b}" "\<And>x. x \<notin> bitmaps st \<Longrightarrow> blkv s1 x = blkv st x"
    using a(2) by (auto simp: took_def)
  have b: "b \<noteq> 0" "b < n" "b \<notin> bitmaps s1" using t(1) volumeD(4,5) [OF assms(1)] free_blocks_sub [OF volumeD(2) [OF assms(1)]] same_layout_derived(3) [OF t(3)] by auto
  let ?z = "zeros (block_size s1)"
  obtain c k where w: "write_built b ?z s1 = Some (True, recache (put_blk b ?z s1) c k)" "cached n (recache (put_blk b ?z s1) c k)"
    using write_built_law [OF volumeD(1) [OF t(2)] b(2), of ?z] by auto
  note P = volume_put [OF t(2) b(2,3) length_zeros w(2)]
  have "got n st b s1" using t by (simp add: got_def)
  moreover have "got n st b (recache (put_blk b ?z s1) c k)"
    unfolding got_def P(2) using t P(1,3) same_layout_trans [OF t(3) same_layout_io(5)] by simp
  moreover have "blkv (recache (put_blk b ?z s1) c k) b = zeros (block_size st)" using P(3) same_layoutD(1) [OF t(3)] by simp
  ultimately show ?thesis using a(1) w(1) b(1) by (cases zero) (auto simp: inode_new_block_def fbind_def Let_def)
qed

definition blank_tree :: "ext2 \<Rightarrow> nat \<Rightarrow> nat \<Rightarrow> bool" where
  "blank_tree st l b \<longleftrightarrow> b \<noteq> 0 \<and> (l > 0 \<longrightarrow> blkv st b = zeros (block_size st))"

lemma blank_tree_facts:
  assumes "blank_tree st l b"
  shows "nodes st l b = {b}" "inner st l b \<subseteq> {b}" "ptree_ok st l b" "descend st l b r = (if l = 0 then b else 0)"
proof -
  have p: "ptr st b k = 0" if "l > 0" for k using assms that by (simp add: blank_tree_def ptr_def field_zeros)
  show "nodes st l b = {b}" "inner st l b \<subseteq> {b}" "ptree_ok st l b" "descend st l b r = (if l = 0 then b else 0)"
    using assms p by (cases l; auto simp: blank_tree_def)+
qed

text \<open>A new block is hung under pointer \<open>k\<close> of block \<open>b\<close>, which was empty.\<close>

definition hung :: "nat \<Rightarrow> nat \<Rightarrow> nat \<Rightarrow> nat \<Rightarrow> ext2 \<Rightarrow> ext2 \<Rightarrow> bool" where
  "hung n b k nb st st1 \<longleftrightarrow> volume n st1 \<and> same_layout st st1 \<and> nb \<in> free_blocks st \<and> free_blocks st1 = free_blocks st - {nb} \<and>
     (\<forall>x. x \<notin> bitmaps st \<and> x \<noteq> nb \<and> x \<noteq> b \<longrightarrow> blkv st1 x = blkv st x) \<and> (\<forall>j < ppb st. ptr st1 b j = (if j = k then nb else ptr st b j))"

lemma hung_tree:
  assumes h: "hung n b k nb st st1" and bl: "blank_tree st1 l nb"
    and st: "ptree_ok st (Suc l) b" "b \<noteq> 0" "nodes st (Suc l) b \<subseteq> held_blocks st" "k < ppb st" "ptr st b k = 0" "0 < ppb st"
  shows "ptree_ok st1 (Suc l) b" "nodes st1 (Suc l) b = insert nb (nodes st (Suc l) b)" "inner st1 (Suc l) b \<subseteq> insert nb (inner st (Suc l) b)"
    "r div ppb st ^ l mod ppb st \<noteq> k \<or> l > 0 \<Longrightarrow> descend st1 (Suc l) b r = descend st (Suc l) b r"
proof -
  have H: "same_layout st st1" "nb \<in> free_blocks st" "\<And>x. x \<notin> bitmaps st \<Longrightarrow> x \<noteq> nb \<Longrightarrow> x \<noteq> b \<Longrightarrow> blkv st1 x = blkv st x"
    "\<And>j. j < ppb st \<Longrightarrow> ptr st1 b j = (if j = k then nb else ptr st b j)" using h unfolding hung_def by blast+
  note T = ptree_okD [OF st(1,2)] and B = blank_tree_facts [OF bl]
  have p: "ppb st1 = ppb st" using same_layoutD(3) [OF H(1)] .
  have held: "x \<notin> bitmaps st" "x \<noteq> nb" if "x \<in> nodes st (Suc l) b" for x using that st(3) H(2) by (auto simp: held_blocks_def)
  have bn: "b \<in> nodes st (Suc l) b" using nodes_root [OF st(2)] .
  have "blkv st1 x = blkv st x" if "j < ppb st" "x \<in> inner st l (ptr st b j)" for j x
  proof -
    have x: "x \<in> nodes st l (ptr st b j)" using that inner_nodes by blast
    then have "x \<noteq> b" using T(2) [OF that(1)] by blast
    moreover have "x \<in> nodes st (Suc l) b" using x nodes_child(1) [OF st(2) that(1)] by blast
    ultimately show ?thesis using H(3) held by blast
  qed
  note C = tree_cong [OF p this]
  have sub: "nodes st1 l (ptr st1 b j) = (if j = k then {nb} else nodes st l (ptr st b j))" "inner st1 l (ptr st1 b j) \<subseteq> insert nb (inner st l (ptr st b j))"
    "ptree_ok st1 l (ptr st1 b j)" if "j < ppb st" for j
    using H(4) [OF that] C [OF that] B T(1) [OF that] by (auto split: if_splits)
  show "nodes st1 (Suc l) b = insert nb (nodes st (Suc l) b)" using sub(1) st(2,4,5) by (auto simp: p split: if_splits)
  show "inner st1 (Suc l) b \<subseteq> insert nb (inner st (Suc l) b)" using sub(2) st(2) by (auto simp: p)
  have nn: "nb \<notin> nodes st l (ptr st b j)" if "j < ppb st" for j using held(2) nodes_child(1) [OF st(2) that] by blast
  have "b \<notin> nodes st1 l (ptr st1 b j)" if "j < ppb st" for j using sub(1) [OF that] T(2) [OF that] held(2) [OF bn] by auto
  moreover have "nodes st1 l (ptr st1 b i) \<inter> nodes st1 l (ptr st1 b j) = {}" if "i < ppb st" "j < ppb st" "i \<noteq> j" for i j
    using sub(1) [OF that(1)] sub(1) [OF that(2)] T(3) [OF that(2,1,3)] nn [OF that(1)] nn [OF that(2)] that(3) by auto
  ultimately show "ptree_ok st1 (Suc l) b" using sub(3) by (simp add: p)
  show "descend st1 (Suc l) b r = descend st (Suc l) b r" if "r div ppb st ^ l mod ppb st \<noteq> k \<or> l > 0"
  proof -
    have j: "r div ppb st ^ l mod ppb st < ppb st" using st(6) by simp
    show ?thesis using that H(4) [OF j] C(3) [OF j] B(4) [of r] st(2,5,6) by (auto simp: p)
  qed
qed

definition paged :: "ext2 \<Rightarrow> bool" where
  "paged st \<longleftrightarrow> 0 < ppb st \<and> 4 * ppb st \<le> block_size st"

lemma heldD: "volume n st \<Longrightarrow> b \<in> held_blocks st \<Longrightarrow> b < n \<and> b \<noteq> 0 \<and> b \<notin> bitmaps st \<and> b \<notin> free_blocks st"
  using groups_okD(1) [OF volumeD(2)] by (auto simp: held_blocks_def)

lemma freeD: "volume n st \<Longrightarrow> b \<in> free_blocks st \<Longrightarrow> b < n \<and> b \<noteq> 0 \<and> b \<notin> bitmaps st \<and> b < 2 ^ 32"
proof -
  assume a: "volume n st" "b \<in> free_blocks st"
  then have "b < n" using free_blocks_sub [OF volumeD(2)] by blast
  moreover have "n < 2 ^ 32" using groups_okD(7,8) [OF volumeD(2) [OF a(1)]] by simp
  ultimately show ?thesis using a(2) volumeD(4,5) [OF a(1)] by auto
qed

lemma hang:
  assumes "volume n st" "got n st nb st2" "b \<in> held_blocks st" "k < ppb st" "paged st"
  shows "\<exists>tab st3 st4. bread b st2 = Some (Some tab, st3) \<and> bwrite b (set_bytes tab (k * 4) (le_image 4 nb)) st3 = Some (True, st4) \<and>
    hung n b k nb st st4 \<and> blkv st4 nb = blkv st2 nb"
proof -
  have G: "nb \<in> free_blocks st" "volume n st2" "same_layout st st2" "free_blocks st2 = free_blocks st - {nb}" "\<And>x. x \<notin> bitmaps st \<Longrightarrow> x \<noteq> nb \<Longrightarrow> blkv st2 x = blkv st x"
    using assms(2) unfolding got_def by blast+
  note b = heldD [OF assms(1,3)] and nb = freeD [OF assms(1) G(1)]
  have bm: "b \<notin> bitmaps st2" using b same_layout_derived(3) [OF G(3)] by simp
  have ne: "b \<noteq> nb" using b G(1) by auto
  have bs: "block_size st2 = block_size st" using same_layoutD(1) [OF G(3)] .
  obtain c j where r: "bread b st2 = Some (Some (blkv st2 b), recache st2 c j)" "cached n (recache st2 c j)" using bread_law [OF volumeD(1) [OF G(2)]] b by blast
  define s3 where "s3 = recache st2 c j"
  define buf where "buf = set_bytes (blkv st2 b) (k * 4) (le_image 4 nb)"
  have lb: "length (blkv st2 b) = block_size st" using length_blkv [OF volumeD(6) [OF G(2)]] bs by simp
  have k4: "k * 4 + 4 \<le> block_size st" using assms(4,5) by (simp add: paged_def)
  have len: "length buf = block_size s3" using lb k4 bs by (simp add: buf_def s3_def)
  have f3: "same_layout st2 s3" by (simp add: s3_def)
  have v3: "volume n s3" "free_blocks s3 = free_blocks st2" "blkv s3 = blkv st2" "bitmaps s3 = bitmaps st"
    using volume_recache [OF G(2) r(2)] same_layout_derived(3) [OF f3] same_layout_derived(3) [OF G(3)] by (simp_all add: s3_def)
  obtain c1 j1 where w: "bwrite b buf s3 = Some (True, recache (put_blk b buf s3) c1 j1)" "cached n (recache (put_blk b buf s3) c1 j1)"
    using bwrite_law [OF volumeD(1) [OF v3(1)] _ len] b by blast
  have bn: "b < n" "b \<notin> bitmaps s3" using b v3(4) by auto
  note P = volume_put [OF v3(1) bn len w(2)]
  define st4 where "st4 = recache (put_blk b buf s3) c1 j1"
  have v4: "blkv st4 = (blkv st2)(b := buf)" using P(3) v3(3) by (simp add: st4_def)
  have "ptr st4 b i = (if i = k then nb else ptr st b i)" if "i < ppb st" for i
  proof (cases "i = k")
    case True
    have "field buf (k * 4) 4 = nb" using field_set_in [of "k * 4" "blkv st2 b" 0 4 "le_image 4 nb"] lb k4 nb by (simp add: buf_def field_def le_val_image)
    then show ?thesis using True by (simp add: ptr_def v4)
  next
    case False
    have "field buf (i * 4) 4 = field (blkv st2 b) (i * 4) 4"
      using field_set_before [of "i * 4" 4 "k * 4" "blkv st2 b" "le_image 4 nb"] field_set_after [of "k * 4" "le_image 4 nb" "i * 4" "blkv st2 b" 4] False lb k4
      by (cases "i < k") (simp_all add: buf_def)
    then show ?thesis using False G(5) [of b] b ne by (simp add: ptr_def v4)
  qed
  moreover have "same_layout s3 st4" by (simp add: st4_def)
  then have "same_layout st st4" using same_layout_trans G(3) f3 by blast
  ultimately have "hung n b k nb st st4" unfolding hung_def using P(1,2) G v3(2) v4 by (auto simp: st4_def)
  moreover have "blkv st4 nb = blkv st2 nb" using ne by (simp add: v4)
  ultimately show ?thesis using r(1) w(1) unfolding st4_def s3_def buf_def by blast
qed

lemma grown_view:
  assumes "same_layout st s1" "blkv s1 = blkv st" "free_blocks s1 = free_blocks st" "grown n l rel b pb ns s1 st1"
  shows "grown n l rel b pb ns st st1"
proof -
  have p: "ppb s1 = ppb st" using same_layoutD(3) [OF assms(1)] .
  show ?thesis using assms(3,4) same_layout_trans [OF assms(1)] same_layout_derived(3) [OF assms(1)] unfolding grown_def tree_view [OF p assms(2)] p assms(2) by blast
qed

lemma grown_hung:
  assumes h: "hung n b k nb st st1" and bl: "blank_tree st1 l nb" and k: "k = rel div ppb st ^ l mod ppb st"
    and st: "volume n st" "ptree_ok st (Suc l) b" "b \<noteq> 0" "nodes st (Suc l) b \<subseteq> held_blocks st" "ptr st b k = 0" "0 < ppb st"
    and g: "grown n l rel nb pb ns st1 st2"
  shows "grown n (Suc l) rel b pb (insert nb ns) st st2"
proof -
  have H: "volume n st1" "same_layout st st1" "nb \<in> free_blocks st" "free_blocks st1 = free_blocks st - {nb}"
    "\<And>x. x \<notin> bitmaps st \<Longrightarrow> x \<noteq> nb \<Longrightarrow> x \<noteq> b \<Longrightarrow> blkv st1 x = blkv st x"
    "\<And>j. j < ppb st \<Longrightarrow> ptr st1 b j = (if j = k then nb else ptr st b j)" using h unfolding hung_def by blast+
  have kp: "k < ppb st" using st(6) by (simp add: k)
  note T = hung_tree [OF h bl st(2-4) kp st(5,6)]
  have p: "ppb st1 = ppb st" using same_layoutD(3) [OF H(2)] .
  have c: "ptr st1 b k = nb" using H(6) [OF kp] by simp
  have held: "nodes st1 (Suc l) b \<subseteq> held_blocks st1" unfolding T(2) held_change(1) [OF H(2,4) st(1) H(3)] using st(4) by blast
  note G = grownD [OF grown_child [OF g [folded c] k [folded p] H(1) T(1) st(3) held st(6) [folded p]]]
  have "descend st2 (Suc l) b r = descend st (Suc l) b r" if r: "r mod ppb st ^ Suc l \<noteq> rel mod ppb st ^ Suc l" for r
  proof -
    have "r div ppb st ^ l mod ppb st \<noteq> k \<or> l > 0" using r k by (cases l) simp_all
    then show ?thesis using G(9) [of r] T(4) [of r] r p by simp
  qed
  moreover have "blkv st2 x = blkv st x" if "x \<notin> bitmaps st" "x \<notin> inner st (Suc l) b" "x \<notin> insert nb ns" for x
  proof -
    have "x \<noteq> b" using that(2) st(3) by auto
    moreover have "x \<notin> inner st1 (Suc l) b" using T(3) that(2,3) by blast
    ultimately show ?thesis using G(10) [of x] H(5) [of x] that same_layout_derived(3) [OF H(2)] by auto
  qed
  moreover have "nodes st2 (Suc l) b = nodes st (Suc l) b \<union> insert nb ns" using G(4) T(2) by blast
  moreover have "inner st2 (Suc l) b \<subseteq> inner st (Suc l) b \<union> insert nb ns" using G(5) T(3) by blast
  moreover have "insert nb ns \<subseteq> free_blocks st" "free_blocks st2 = free_blocks st - insert nb ns" using G(6,7) H(3,4) by blast+
  ultimately show ?thesis unfolding grown_def using G(1,3,8) same_layout_trans [OF H(2) G(2)] by blast
qed

lemma bmap_walk_grow:
  assumes "volume n st" "b \<noteq> 0" "ptree_ok st l b" "nodes st l b \<subseteq> held_blocks st" "l \<le> card (free_blocks st)" "goal < group_count st" "paged st"
  shows "\<exists>pb m ns st1. bmap_walk l rel goal True b i st = Some ((pb, i\<lparr>i_blocks := m\<rparr>), st1) \<and> pb \<noteq> 0 \<and> grown n l rel b pb ns st st1 \<and> card ns \<le> l"
  using assms
proof (induction l arbitrary: b st i)
  case 0
  have "grown n 0 rel b b {} st st" using 0 by (simp add: grown_def)
  then show ?case using 0(2) by (intro exI [of _ b] exI [of _ "i_blocks i"] exI [of _ "{}"] exI [of _ st]) simp
next
  case (Suc l)
  define k where "k = rel div ppb st ^ l mod ppb st"
  have pp: "0 < ppb st" using Suc.prems(7) by (simp add: paged_def)
  have kp: "k < ppb st" using pp by (simp add: k_def)
  have bh: "b \<in> held_blocks st" using Suc.prems(2,4) nodes_root by blast
  note b = heldD [OF Suc.prems(1) bh]
  obtain c j where r: "bread b st = Some (Some (blkv st b), recache st c j)" "cached n (recache st c j)" using bread_law [OF volumeD(1) [OF Suc.prems(1)]] b by blast
  define s1 where "s1 = recache st c j"
  have s1: "volume n s1" "free_blocks s1 = free_blocks st" "blkv s1 = blkv st" "same_layout st s1" "ppb s1 = ppb st" "group_count s1 = group_count st" "paged s1"
    using volume_recache [OF Suc.prems(1) r(2)] Suc.prems(7) by (simp_all add: s1_def paged_def)
  have hb: "held_blocks s1 = held_blocks st" using s1(2) same_layoutD(16,17) [OF s1(4)] same_layout_derived(3) [OF s1(4)] by (simp add: held_blocks_def)
  note view = tree_view [OF s1(5,3)]
  have pt: "field (blkv st b) (rel div span st l mod ppb st * 4) 4 = ptr st b k" by (simp add: ptr_def k_def span_def)
  show ?case
  proof (cases "ptr st b k = 0")
    case False
    have sub: "nodes st l (ptr st b k) \<subseteq> held_blocks st" using nodes_child(1) [OF Suc.prems(2) kp, of l] Suc.prems(4) by blast
    have "\<exists>pb m ns st1. bmap_walk l rel goal True (ptr st b k) i s1 = Some ((pb, i\<lparr>i_blocks := m\<rparr>), st1) \<and> pb \<noteq> 0 \<and> grown n l rel (ptr st b k) pb ns s1 st1 \<and> card ns \<le> l"
      by (rule Suc.IH) (use s1 False hb view sub Suc.prems(5,6) ptree_okD(1) [OF Suc.prems(3,2) kp] in simp_all)
    then obtain pb m ns st1 where g: "bmap_walk l rel goal True (ptr st b k) i s1 = Some ((pb, i\<lparr>i_blocks := m\<rparr>), st1)" "pb \<noteq> 0" "grown n l rel (ptr st b k) pb ns s1 st1" "card ns \<le> l"
      by blast
    have "grown n (Suc l) rel b pb ns st st1"
      using grown_child [OF grown_view [OF s1(4,3,2) g(3)] k_def Suc.prems(1,3,2,4) pp] .
    moreover have "bmap_walk (Suc l) rel goal True b i st = Some ((pb, i\<lparr>i_blocks := m\<rparr>), st1)"
      using r(1) False g(1) by (simp add: fbind_def Let_def pt s1_def)
    ultimately show ?thesis using g(2,4) le_SucI by blast
  next
    case True
    have "free_blocks s1 \<noteq> {}" using Suc.prems(5) s1(2) by auto
    then obtain nb m st2 where a: "inode_new_block goal (l > 0) i s1 = Some ((nb, i\<lparr>i_blocks := m\<rparr>), st2)" "nb \<noteq> 0" "got n s1 nb st2" "l > 0 \<longrightarrow> blkv st2 nb = zeros (block_size s1)"
      using inode_new_block_law [OF s1(1), of goal "l > 0" i] Suc.prems(6) s1(6) by auto
    obtain tab st3 st4 where h: "bread b st2 = Some (Some tab, st3)" "bwrite b (set_bytes tab (k * 4) (le_image 4 nb)) st3 = Some (True, st4)" "hung n b k nb s1 st4" "blkv st4 nb = blkv st2 nb"
      using hang [OF s1(1) a(3) _ _ s1(7), of b k] bh hb kp s1(5) by auto
    have H: "volume n st4" "same_layout s1 st4" "nb \<in> free_blocks s1" "free_blocks st4 = free_blocks s1 - {nb}" using h(3) unfolding hung_def by blast+
    have bl: "blank_tree st4 l nb" using a(2,4) h(4) same_layoutD(1) [OF H(2)] by (simp add: blank_tree_def)
    note B = blank_tree_facts [OF bl]
    have fin: "finite (free_blocks s1)" using finite_free_blocks [OF volumeD(2) [OF s1(1)]] .
    have cd: "l \<le> card (free_blocks st4)" using Suc.prems(5) H(3,4) fin s1(2) by simp
    have hl: "{nb} \<subseteq> held_blocks st4" using held_change(1) [OF H(2,4) s1(1) H(3)] by simp
    have gc: "goal < group_count st4" "paged st4" using Suc.prems(6) s1(6,7) same_layoutD(1,3,5) [OF H(2)] by (simp_all add: paged_def)
    obtain pb m1 ns st5 where g: "bmap_walk l rel goal True nb (i\<lparr>i_blocks := m\<rparr>) st4 = Some ((pb, i\<lparr>i_blocks := m\<rparr>\<lparr>i_blocks := m1\<rparr>), st5)" "pb \<noteq> 0"
      "grown n l rel nb pb ns st4 st5" "card ns \<le> l"
      using Suc.IH [OF H(1) a(2) B(3) _ cd gc, of "i\<lparr>i_blocks := m\<rparr>"] B(1) hl by auto
    have q: "ptree_ok s1 (Suc l) b" "nodes s1 (Suc l) b \<subseteq> held_blocks s1" using Suc.prems(3,4) unfolding view hb by blast+
    have z: "ptr s1 b k = 0" "k = rel div ppb s1 ^ l mod ppb s1" "0 < ppb s1" using True pp s1(3,5) by (simp_all add: ptr_def k_def)
    have "grown n (Suc l) rel b pb (insert nb ns) s1 st5" using grown_hung [OF h(3) bl z(2) s1(1) q(1) Suc.prems(2) q(2) z(1,3) g(3)] .
    then have "grown n (Suc l) rel b pb (insert nb ns) st st5" by (rule grown_view [OF s1(4,3,2)])
    moreover have "bmap_walk (Suc l) rel goal True b i st = Some ((pb, i\<lparr>i_blocks := m1\<rparr>), st5)"
      using r(1) True a(1,2) h(1,2) g(1) by (simp add: fbind_def Let_def pt s1_def [symmetric]) (simp add: k_def span_def)
    moreover have "card (insert nb ns) \<le> Suc l" using card_insert_le_m1 [of "Suc l" ns nb] g(4) by simp
    ultimately show ?thesis using g(2) by blast
  qed
qed

end
