(* ===== verification/Ext2_Map.thy ===== *)
theory Ext2_Map
  imports Ext2_Tree
begin

text \<open>
  \<open>bmap\<close> of \<open>src/ext2.c\<close>: the fifteen pointers of an inode as one map from file blocks to disk blocks.
\<close>

section \<open>The map of a file\<close>

definition lev :: "nat \<Rightarrow> nat" where
  "lev k = (if k < 12 then 0 else k - 11)"

definition fmap :: "ext2 \<Rightarrow> e2_inode \<Rightarrow> nat \<Rightarrow> nat" where
  "fmap st i x = (if x < EXT2_NDIR then i_block i ! x else case bmap_level st x of None \<Rightarrow> 0 | Some (d, rel) \<Rightarrow> descend st d (i_block i ! (11 + d)) rel)"

definition file_nodes :: "ext2 \<Rightarrow> e2_inode \<Rightarrow> nat set" where
  "file_nodes st i = (\<Union>k \<in> {..<15}. nodes st (lev k) (i_block i ! k))"

definition file_inner :: "ext2 \<Rightarrow> e2_inode \<Rightarrow> nat set" where
  "file_inner st i = (\<Union>k \<in> {..<15}. inner st (lev k) (i_block i ! k))"

definition ptrs_ok :: "ext2 \<Rightarrow> e2_inode \<Rightarrow> bool" where
  "ptrs_ok st i \<longleftrightarrow> length (i_block i) = 15 \<and> (\<forall>k < 15. ptree_ok st (lev k) (i_block i ! k)) \<and>
     (\<forall>k < 15. \<forall>j < 15. j \<noteq> k \<longrightarrow> nodes st (lev j) (i_block i ! j) \<inter> nodes st (lev k) (i_block i ! k) = {}) \<and> file_nodes st i \<subseteq> held_blocks st"

lemma ptrs_okD:
  assumes "ptrs_ok st i"
  shows "length (i_block i) = 15" "k < 15 \<Longrightarrow> ptree_ok st (lev k) (i_block i ! k)"
    "k < 15 \<Longrightarrow> j < 15 \<Longrightarrow> j \<noteq> k \<Longrightarrow> nodes st (lev j) (i_block i ! j) \<inter> nodes st (lev k) (i_block i ! k) = {}"
    "file_nodes st i \<subseteq> held_blocks st" "k < 15 \<Longrightarrow> nodes st (lev k) (i_block i ! k) \<subseteq> held_blocks st"
  using assms unfolding ptrs_ok_def file_nodes_def by blast+

lemma bmap_levelD:
  assumes "bmap_level st x = Some (d, rel)" "12 \<le> x"
  shows "1 \<le> d" "d \<le> 3" "rel < ppb st ^ d" "x = 12 + rel + (if d = 1 then 0 else if d = 2 then ppb st else ppb st + ppb st ^ 2)"
  using assms by (auto simp: bmap_level_def span_def Let_def split: if_splits)

lemma bmap_level_inj: "bmap_level st x = Some p \<Longrightarrow> bmap_level st y = Some p \<Longrightarrow> 12 \<le> x \<Longrightarrow> 12 \<le> y \<Longrightarrow> x = y"
  using bmap_levelD(4) [of st x] bmap_levelD(4) [of st y] by (cases p) auto

lemma level_cong: "ppb st1 = ppb st \<Longrightarrow> bmap_level st1 = bmap_level st"
proof -
  assume "ppb st1 = ppb st"
  then have "span st1 = span st" by (simp add: fun_eq_iff span_def)
  then show ?thesis by (intro ext) (simp only: bmap_level_def)
qed

lemma lev_root: "1 \<le> d \<Longrightarrow> d \<le> 3 \<Longrightarrow> lev (11 + d) = d \<and> 11 + d < 15"
  by (simp add: lev_def)

lemma fmap_direct: "x < 12 \<Longrightarrow> fmap st i x = descend st (lev x) (i_block i ! x) 0"
  by (simp add: fmap_def lev_def)

lemma fmap_cong:
  assumes "ppb st1 = ppb st" "\<And>k rel. k < 15 \<Longrightarrow> descend st1 (lev k) (i_block i1 ! k) rel = descend st (lev k) (i_block i ! k) rel"
  shows "fmap st1 i1 x = fmap st i x"
proof (cases "x < 12")
  case True
  then show ?thesis using assms(2) [of x 0] by (simp add: fmap_direct)
next
  case False
  note l = level_cong [OF assms(1)]
  show ?thesis
  proof (cases "bmap_level st x")
    case (Some p)
    then obtain d rel where p: "bmap_level st x = Some (d, rel)" by (cases p) auto
    have d: "1 \<le> d" "d \<le> 3" using bmap_levelD [OF p] False by auto
    then show ?thesis using assms(2) [of "11 + d" rel] lev_root [OF d] False by (simp add: fmap_def l p)
  qed (use False l in \<open>simp add: fmap_def\<close>)
qed

text \<open>A file depends on its inner blocks only.\<close>

lemma file_cong:
  assumes "ppb st1 = ppb st" "0 < ppb st" "\<And>x. x \<in> file_inner st i \<Longrightarrow> blkv st1 x = blkv st x"
  shows "fmap st1 i x = fmap st i x" "file_nodes st1 i = file_nodes st i" "file_inner st1 i = file_inner st i" "held_blocks st1 = held_blocks st \<Longrightarrow> ptrs_ok st1 i = ptrs_ok st i"
proof -
  have c: "blkv st1 y = blkv st y" if "k < 15" "y \<in> inner st (lev k) (i_block i ! k)" for k y using assms(3) that by (auto simp: file_inner_def)
  note T = tree_cong [OF assms(1) c]
  show "fmap st1 i x = fmap st i x" by (rule fmap_cong [OF assms(1)]) (use T(3) assms(2) in simp)
  show n: "file_nodes st1 i = file_nodes st i" "file_inner st1 i = file_inner st i" using T(1,2) by (simp_all add: file_nodes_def file_inner_def)
  show "ptrs_ok st1 i = ptrs_ok st i" if "held_blocks st1 = held_blocks st" unfolding ptrs_ok_def n that using T(1,4) by auto
qed

lemma fmap_nodes:
  assumes "0 < ppb st" "fmap st i x \<noteq> 0"
  shows "\<exists>k < 15. fmap st i x \<in> nodes st (lev k) (i_block i ! k) \<and> (ptree_ok st (lev k) (i_block i ! k) \<longrightarrow> fmap st i x \<notin> inner st (lev k) (i_block i ! k))"
proof (cases "x < 12")
  case True
  then have w: "descend st (lev x) (i_block i ! x) 0 \<noteq> 0" using assms(2) by (simp add: fmap_direct)
  show ?thesis using descend_nodes [OF assms(1) w] descend_leaf [OF assms(1) _ w] True by (intro exI [of _ x]) (simp add: fmap_direct)
next
  case False
  then obtain d rel where p: "bmap_level st x = Some (d, rel)" using assms(2) by (auto simp: fmap_def split: option.splits)
  have d: "1 \<le> d" "d \<le> 3" using bmap_levelD [OF p] False by auto
  have e: "fmap st i x = descend st d (i_block i ! (11 + d)) rel" using False p by (simp add: fmap_def)
  have w: "descend st d (i_block i ! (11 + d)) rel \<noteq> 0" using assms(2) e by simp
  show ?thesis using descend_nodes [OF assms(1) w] descend_leaf [OF assms(1) _ w] lev_root [OF d] e by (intro exI [of _ "11 + d"]) simp
qed

lemma fmap_file:
  assumes "ptrs_ok st i" "0 < ppb st" "fmap st i x \<noteq> 0"
  shows "fmap st i x \<in> file_nodes st i" "fmap st i x \<notin> file_inner st i"
proof -
  obtain k where k: "k < 15" "fmap st i x \<in> nodes st (lev k) (i_block i ! k)" "fmap st i x \<notin> inner st (lev k) (i_block i ! k)"
    using fmap_nodes [OF assms(2,3)] ptrs_okD(2) [OF assms(1)] by blast
  show "fmap st i x \<in> file_nodes st i" using k by (auto simp: file_nodes_def)
  have "fmap st i x \<notin> inner st (lev j) (i_block i ! j)" if "j < 15" for j
  proof (cases "j = k")
    case False
    then show ?thesis using ptrs_okD(3) [OF assms(1) k(1) that] k(2) inner_nodes by blast
  qed (simp add: k(3))
  then show "fmap st i x \<notin> file_inner st i" by (auto simp: file_inner_def)
qed

section \<open>Looking up\<close>

lemma bmap_lookup:
  assumes "volume n st" "ptrs_ok st i" "0 < ppb st" "alloc \<longrightarrow> fmap st i x \<noteq> 0"
  shows "\<exists>c k. bmap goal x alloc i st = Some ((fmap st i x, i), recache st c k) \<and> cached n (recache st c k)"
proof -
  note C = volumeD(1) [OF assms(1)]
  have triv: "\<exists>c k. Some ((r, i), st) = Some ((r, i), recache st c k) \<and> cached n (recache st c k)" for r :: nat
    by (rule exI [of _ "e_cache st"], rule exI [of _ "cache_clock st"]) (use C in simp)
  show ?thesis
  proof (cases "x < 12 \<or> bmap_level st x = None")
    case True
    then have "bmap goal x alloc i st = Some ((fmap st i x, i), st)" using assms(4) by (auto simp: bmap_def fmap_def)
    then show ?thesis using triv by simp
  next
    case False
    then obtain d rel where p: "12 \<le> x" "bmap_level st x = Some (d, rel)" by auto
    have d: "1 \<le> d" "d \<le> 3" using bmap_levelD [OF p(2,1)] by auto
    have f: "fmap st i x = descend st d (i_block i ! (11 + d)) rel" using p by (simp add: fmap_def)
    show ?thesis
    proof (cases "i_block i ! (11 + d) = 0")
      case True
      then show ?thesis using p triv [of 0] f assms(4) by (simp add: bmap_def)
    next
      case nz: False
      have "nodes st d (i_block i ! (11 + d)) \<subseteq> {..<n}"
        using ptrs_okD(5) [OF assms(2), of "11 + d"] lev_root [OF d] heldD [OF assms(1)] by auto
      then show ?thesis using bmap_walk_lookup [OF C nz _ assms(3), of d alloc rel goal i] p nz f assms(4) by (simp add: bmap_def)
    qed
  qed
qed

section \<open>Growing\<close>

text \<open>Blocks \<open>ns\<close> have been added to the file, which maps \<open>x\<close> to \<open>pb\<close> and everything else as before.\<close>

definition extended :: "nat \<Rightarrow> nat \<Rightarrow> nat \<Rightarrow> nat set \<Rightarrow> e2_inode \<Rightarrow> e2_inode \<Rightarrow> ext2 \<Rightarrow> ext2 \<Rightarrow> bool" where
  "extended n x pb ns i i1 st st1 \<longleftrightarrow> volume n st1 \<and> same_layout st st1 \<and> ptrs_ok st1 i1 \<and> file_nodes st1 i1 = file_nodes st i \<union> ns \<and>
     file_inner st1 i1 \<subseteq> file_inner st i \<union> ns \<and> ns \<subseteq> free_blocks st \<and> free_blocks st1 = free_blocks st - ns \<and> fmap st1 i1 x = pb \<and>
     (\<forall>y. y \<noteq> x \<longrightarrow> fmap st1 i1 y = fmap st i y) \<and> (\<forall>b. b \<notin> bitmaps st \<and> b \<notin> file_inner st i \<and> b \<notin> ns \<longrightarrow> blkv st1 b = blkv st b) \<and>
     (\<exists>m bs. i1 = i\<lparr>i_blocks := m, i_block := bs\<rparr>)"

lemma extendedD:
  assumes "extended n x pb ns i i1 st st1"
  shows "volume n st1" "same_layout st st1" "ptrs_ok st1 i1" "file_nodes st1 i1 = file_nodes st i \<union> ns" "file_inner st1 i1 \<subseteq> file_inner st i \<union> ns"
    "ns \<subseteq> free_blocks st" "free_blocks st1 = free_blocks st - ns" "fmap st1 i1 x = pb" "\<And>y. y \<noteq> x \<Longrightarrow> fmap st1 i1 y = fmap st i y"
    "\<And>b. b \<notin> bitmaps st \<Longrightarrow> b \<notin> file_inner st i \<Longrightarrow> b \<notin> ns \<Longrightarrow> blkv st1 b = blkv st b" "\<exists>m bs. i1 = i\<lparr>i_blocks := m, i_block := bs\<rparr>"
  using assms unfolding extended_def by blast+

text \<open>The held blocks after some have been taken.\<close>

lemma held_minus:
  assumes "volume n st" "same_layout st st1" "free_blocks st1 = free_blocks st - ns" "ns \<subseteq> free_blocks st"
  shows "held_blocks st1 = held_blocks st \<union> ns"
  using same_layoutD(16,17) [OF assms(2)] same_layout_derived(3) [OF assms(2)] assms(3,4) volumeD(4,5) [OF assms(1)] free_in_volume [OF volumeD(2) [OF assms(1)]]
  by (auto simp: held_blocks_def)

text \<open>Root \<open>k\<close> of a file is replaced by a tree with the blocks \<open>ns\<close> more; nothing else that belongs to the file
  changes.\<close>

lemma replace_root:
  assumes st: "volume n st" "ptrs_ok st i" "0 < ppb st" and k: "k < 15"
    and st1: "same_layout st st1" "free_blocks st1 = free_blocks st - ns" "ns \<subseteq> free_blocks st"
    and fr: "\<And>b. b \<notin> bitmaps st \<Longrightarrow> b \<notin> inner st (lev k) (i_block i ! k) \<Longrightarrow> b \<notin> ns \<Longrightarrow> blkv st1 b = blkv st b"
    and t: "ptree_ok st1 (lev k) r" "nodes st1 (lev k) r = nodes st (lev k) (i_block i ! k) \<union> ns" "inner st1 (lev k) r \<subseteq> inner st (lev k) (i_block i ! k) \<union> ns"
    and i1: "i_block i1 = (i_block i)[k := r]"
  shows "ptrs_ok st1 i1" "file_nodes st1 i1 = file_nodes st i \<union> ns" "file_inner st1 i1 \<subseteq> file_inner st i \<union> ns"
    "\<And>j rel. j < 15 \<Longrightarrow> j \<noteq> k \<Longrightarrow> descend st1 (lev j) (i_block i1 ! j) rel = descend st (lev j) (i_block i ! j) rel"
proof -
  note F = ptrs_okD [OF st(2)]
  have p: "ppb st1 = ppb st" using same_layoutD(3) [OF st1(1)] .
  have own: "i_block i1 ! k = r" using k F(1) by (simp add: i1)
  have nh: "b \<notin> bitmaps st" "b \<notin> ns" if "b \<in> held_blocks st" for b using heldD [OF st(1) that] st1(3) by auto
  have "blkv st1 b = blkv st b" if "j < 15" "j \<noteq> k" "b \<in> inner st (lev j) (i_block i ! j)" for j b
  proof -
    have b: "b \<in> nodes st (lev j) (i_block i ! j)" using that(3) inner_nodes by blast
    then have "b \<notin> inner st (lev k) (i_block i ! k)" using F(3) [OF k that(1,2)] inner_nodes by blast
    moreover have "b \<in> held_blocks st" using b F(5) [OF that(1)] by blast
    ultimately show ?thesis using fr nh by blast
  qed
  note T = tree_cong [OF p this]
  have o: "i_block i1 ! j = i_block i ! j" if "j \<noteq> k" for j using that by (simp add: i1)
  have nd: "nodes st1 (lev j) (i_block i1 ! j) = nodes st (lev j) (i_block i ! j) \<union> (if j = k then ns else {})" if "j < 15" for j
    using T(1) [OF that] t(2) own o by (cases "j = k") auto
  show "descend st1 (lev j) (i_block i1 ! j) rel = descend st (lev j) (i_block i ! j) rel" if "j < 15" "j \<noteq> k" for j rel
    using T(3) [OF that] o [OF that(2)] st(3) by simp
  show fn: "file_nodes st1 i1 = file_nodes st i \<union> ns" using nd k by (auto simp: file_nodes_def split: if_splits)
  have "inner st1 (lev j) (i_block i1 ! j) \<subseteq> inner st (lev j) (i_block i ! j) \<union> ns" if "j < 15" for j
    using T(2) [OF that] t(3) own o by (cases "j = k") auto
  then show "file_inner st1 i1 \<subseteq> file_inner st i \<union> ns" unfolding file_inner_def by fastforce
  have "ptree_ok st1 (lev j) (i_block i1 ! j)" if "j < 15" for j using T(4) [OF that] t(1) own o F(2) [OF that] by (cases "j = k") auto
  moreover have "nodes st1 (lev j) (i_block i1 ! j) \<inter> nodes st1 (lev m) (i_block i1 ! m) = {}" if "j < 15" "m < 15" "j \<noteq> m" for j m
  proof -
    have "nodes st (lev j) (i_block i ! j) \<inter> ns = {}" "nodes st (lev m) (i_block i ! m) \<inter> ns = {}" using nh F(5) that by blast+
    then show ?thesis using nd [OF that(1)] nd [OF that(2)] F(3) [OF that(2,1,3)] that(3) by auto
  qed
  moreover have "file_nodes st1 i1 \<subseteq> held_blocks st1" unfolding fn held_minus [OF st(1) st1] using F(4) by blast
  ultimately show "ptrs_ok st1 i1" unfolding ptrs_ok_def using F(1) by (simp add: i1)
qed

text \<open>A root that is there grows.\<close>

lemma extended_grown:
  assumes "volume n st" "ptrs_ok st i" "0 < ppb st" "12 \<le> x" "bmap_level st x = Some (d, rel)" "grown n d rel (i_block i ! (11 + d)) pb ns st st1"
  shows "extended n x pb ns i (i\<lparr>i_blocks := m\<rparr>) st st1"
proof -
  note G = grownD [OF assms(6)] and d = bmap_levelD [OF assms(5,4)]
  have k: "lev (11 + d) = d" "11 + d < 15" using lev_root [OF d(1,2)] by auto
  let ?i = "i\<lparr>i_blocks := m\<rparr>"
  have R: "ptrs_ok st1 ?i" "file_nodes st1 ?i = file_nodes st i \<union> ns" "file_inner st1 ?i \<subseteq> file_inner st i \<union> ns"
    "\<And>j r. j < 15 \<Longrightarrow> j \<noteq> 11 + d \<Longrightarrow> descend st1 (lev j) (i_block i ! j) r = descend st (lev j) (i_block i ! j) r"
    using replace_root [OF assms(1-3) k(2) G(2,7,6), of "i_block i ! (11 + d)" ?i] G(3,4,5,10) unfolding k(1) by simp_all
  have p: "ppb st1 = ppb st" using same_layoutD(3) [OF G(2)] .
  note l = level_cong [OF p]
  have "fmap st1 ?i x = pb" using G(8) assms(4,5) by (simp add: fmap_def l)
  moreover have "fmap st1 ?i y = fmap st i y" if "y \<noteq> x" for y
  proof (cases "y < 12 \<or> bmap_level st y = None")
    case False
    then obtain e r where e: "12 \<le> y" "bmap_level st y = Some (e, r)" by auto
    note E = bmap_levelD [OF e(2,1)]
    have "descend st1 e (i_block i ! (11 + e)) r = descend st e (i_block i ! (11 + e)) r"
    proof (cases "e = d")
      case True
      then have "r \<noteq> rel" using bmap_level_inj [OF e(2) _ e(1) assms(4)] assms(5) that by auto
      then show ?thesis using G(9) [of r] True E(3) d(3) by simp
    next
      case ne: False
      then show ?thesis using R(4) [of "11 + e" r] lev_root [OF E(1,2)] by simp
    qed
    then show ?thesis using e by (simp add: fmap_def l)
  qed (auto simp: fmap_def l)
  moreover have "blkv st1 b = blkv st b" if "b \<notin> bitmaps st" "b \<notin> file_inner st i" "b \<notin> ns" for b
    using G(10) [of b] that k unfolding file_inner_def by fastforce
  moreover have "?i = i\<lparr>i_blocks := m, i_block := i_block i\<rparr>" by simp
  ultimately show ?thesis unfolding extended_def using G(1,2,6,7) R(1-3) by blast
qed

text \<open>A root that is missing is made.\<close>

lemma got_root:
  assumes "volume n st" "ptrs_ok st i" "0 < ppb st" "k < 15" "i_block i ! k = 0" "got n st b st1" "blank_tree st1 (lev k) b"
    and i1_def: "i1 = set_ptr k b (i\<lparr>i_blocks := m\<rparr>)"
  shows "ptrs_ok st1 i1" "file_nodes st1 i1 = insert b (file_nodes st i)" "file_inner st1 i1 \<subseteq> insert b (file_inner st i)"
    "y \<noteq> k \<or> 12 \<le> k \<Longrightarrow> fmap st1 i1 y = fmap st i y" "k < 12 \<Longrightarrow> fmap st1 i1 k = b" "i_block i1 ! k = b"
proof -
  have G: "b \<in> free_blocks st" "volume n st1" "same_layout st st1" "free_blocks st1 = free_blocks st - {b}" "\<And>x. x \<notin> bitmaps st \<Longrightarrow> x \<noteq> b \<Longrightarrow> blkv st1 x = blkv st x"
    using assms(6) unfolding got_def by blast+
  note B = blank_tree_facts [OF assms(7)]
  have ib: "i_block i1 = (i_block i)[k := b]" by (simp add: i1_def set_ptr_def)
  have R: "ptrs_ok st1 i1" "file_nodes st1 i1 = file_nodes st i \<union> {b}" "file_inner st1 i1 \<subseteq> file_inner st i \<union> {b}"
    "\<And>j r. j < 15 \<Longrightarrow> j \<noteq> k \<Longrightarrow> descend st1 (lev j) (i_block i1 ! j) r = descend st (lev j) (i_block i ! j) r"
    using replace_root [OF assms(1-4) G(3,4) _ _ B(3), of i1] G(1,5) B(1,2) ib by (simp_all add: assms(5))
  show "ptrs_ok st1 i1" "file_nodes st1 i1 = insert b (file_nodes st i)" "file_inner st1 i1 \<subseteq> insert b (file_inner st i)" using R by auto
  show own: "i_block i1 ! k = b" using ptrs_okD(1) [OF assms(2)] assms(4) by (simp add: ib)
  then show "k < 12 \<Longrightarrow> fmap st1 i1 k = b" by (simp add: fmap_def)
  have p: "ppb st1 = ppb st" using same_layoutD(3) [OF G(3)] .
  show "fmap st1 i1 y = fmap st i y" if "y \<noteq> k \<or> 12 \<le> k"
  proof (cases "12 \<le> k")
    case True
    have "descend st1 (lev j) (i_block i1 ! j) r = descend st (lev j) (i_block i ! j) r" if "j < 15" for j r
      using R(4) [OF that] B(4) [of r] own assms(5) True by (cases "j = k") (simp_all add: lev_def)
    then show ?thesis by (rule fmap_cong [OF p])
  next
    case False
    note l = level_cong [OF p]
    show ?thesis
    proof (cases "y < 12 \<or> bmap_level st y = None")
      case True
      then show ?thesis using that False by (auto simp: fmap_def l ib)
    next
      case n: False
      then obtain e r where e: "12 \<le> y" "bmap_level st y = Some (e, r)" by auto
      note E = bmap_levelD [OF e(2,1)]
      have "11 + e \<noteq> k" using E(1) False by simp
      then show ?thesis using R(4) [of "11 + e" r] lev_root [OF E(1,2)] e by (simp add: fmap_def l)
    qed
  qed
qed

lemma bmap_grow:
  assumes "volume n st" "ptrs_ok st i" "paged st" "goal < group_count st" "4 \<le> card (free_blocks st)" "x < 12 \<or> bmap_level st x \<noteq> None"
  shows "\<exists>pb ns i1 st1. bmap goal x True i st = Some ((pb, i1), st1) \<and> pb \<noteq> 0 \<and> extended n x pb ns i i1 st st1 \<and> card ns \<le> 4"
proof -
  have pp: "0 < ppb st" using assms(3) by (simp add: paged_def)
  have free: "free_blocks st \<noteq> {}" using assms(5) by auto
  have same: "\<exists>m bs. i = i\<lparr>i_blocks := m, i_block := bs\<rparr>" by (rule exI [of _ "i_blocks i"], rule exI [of _ "i_block i"]) simp
  show ?thesis
  proof (cases "x < 12")
    case True
    show ?thesis
    proof (cases "i_block i ! x = 0")
      case False
      have "extended n x (i_block i ! x) {} i i st st" unfolding extended_def using assms(1,2) True same by (auto simp: fmap_def)
      then show ?thesis using True False by (intro exI [of _ "i_block i ! x"] exI [of _ "{}"] exI [of _ i] exI [of _ st]) (simp add: bmap_def)
    next
      case z: True
      obtain b m st1 where a: "inode_new_block goal False i st = Some ((b, i\<lparr>i_blocks := m\<rparr>), st1)" "b \<noteq> 0" "got n st b st1"
        using inode_new_block_law [OF assms(1,4) free, of False i] by auto
      have G: "b \<in> free_blocks st" "volume n st1" "same_layout st st1" "free_blocks st1 = free_blocks st - {b}" "\<And>x. x \<notin> bitmaps st \<Longrightarrow> x \<noteq> b \<Longrightarrow> blkv st1 x = blkv st x"
        using a(3) unfolding got_def by blast+
      have x: "x < 15" "blank_tree st1 (lev x) b" using True a(2) by (simp_all add: blank_tree_def lev_def)
      note R = got_root [OF assms(1,2) pp x(1) z a(3) x(2) refl, where m = m]
      have "set_ptr x b (i\<lparr>i_blocks := m\<rparr>) = i\<lparr>i_blocks := m, i_block := (i_block i)[x := b]\<rparr>" by (simp add: set_ptr_def)
      then have "extended n x b {b} i (set_ptr x b (i\<lparr>i_blocks := m\<rparr>)) st st1" unfolding extended_def using R G True by auto
      then show ?thesis using True z a(1,2) by (intro exI [of _ b] exI [of _ "{b}"] exI [of _ "set_ptr x b (i\<lparr>i_blocks := m\<rparr>)"] exI [of _ st1]) (simp add: bmap_def fbind_def)
    qed
  next
    case False
    then obtain d rel where p: "12 \<le> x" "bmap_level st x = Some (d, rel)" using assms(6) by auto
    note D = bmap_levelD [OF p(2,1)]
    have k: "lev (11 + d) = d" "11 + d < 15" using lev_root [OF D(1,2)] by auto
    show ?thesis
    proof (cases "i_block i ! (11 + d) = 0")
      case nz: False
      obtain pb m ns st1 where g: "bmap_walk d rel goal True (i_block i ! (11 + d)) i st = Some ((pb, i\<lparr>i_blocks := m\<rparr>), st1)" "pb \<noteq> 0"
        "grown n d rel (i_block i ! (11 + d)) pb ns st st1" "card ns \<le> d"
        using bmap_walk_grow [OF assms(1) nz _ _ _ assms(4,3), of d rel i] ptrs_okD(2,5) [OF assms(2) k(2)] k(1) assms(5) D(2) by auto
      have "extended n x pb ns i (i\<lparr>i_blocks := m\<rparr>) st st1" using extended_grown [OF assms(1,2) pp p g(3)] .
      moreover have "bmap goal x True i st = Some ((pb, i\<lparr>i_blocks := m\<rparr>), st1)" using False p nz g(1) by (simp add: bmap_def)
      moreover have "card ns \<le> 4" using g(4) D(2) by simp
      ultimately show ?thesis using g(2) by blast
    next
      case z: True
      obtain b m st1 where a: "inode_new_block goal True i st = Some ((b, i\<lparr>i_blocks := m\<rparr>), st1)" "b \<noteq> 0" "got n st b st1" "blkv st1 b = zeros (block_size st)"
        using inode_new_block_law [OF assms(1,4) free, of True i] by auto
      have G: "b \<in> free_blocks st" "volume n st1" "same_layout st st1" "free_blocks st1 = free_blocks st - {b}" "\<And>x. x \<notin> bitmaps st \<Longrightarrow> x \<noteq> b \<Longrightarrow> blkv st1 x = blkv st x"
        using a(3) unfolding got_def by blast+
      define i1 where "i1 = set_ptr (11 + d) b (i\<lparr>i_blocks := m\<rparr>)"
      have bl: "blank_tree st1 (lev (11 + d)) b" using a(2,4) same_layoutD(1) [OF G(3)] by (simp add: blank_tree_def)
      note R = got_root [OF assms(1,2) pp k(2) z a(3) bl i1_def]
      have st1: "paged st1" "goal < group_count st1" "0 < ppb st1" "bmap_level st1 x = Some (d, rel)"
        using assms(3,4) pp p(2) same_layoutD(1,3,5) [OF G(3)] level_cong [OF same_layoutD(3) [OF G(3)]] by (simp_all add: paged_def)
      have fin: "finite (free_blocks st)" using finite_free_blocks [OF volumeD(2) [OF assms(1)]] .
      have "d \<le> card (free_blocks st1)" using assms(5) D(2) G(1,4) fin by simp
      then obtain pb m1 ns st2 where g: "bmap_walk d rel goal True b i1 st1 = Some ((pb, i1\<lparr>i_blocks := m1\<rparr>), st2)" "pb \<noteq> 0" "grown n d rel b pb ns st1 st2" "card ns \<le> d"
        using bmap_walk_grow [OF G(2) a(2) _ _ _ st1(2,1), of d rel i1] ptrs_okD(2,5) [OF R(1) k(2)] R(6) k(1) by auto
      have E: "extended n x pb ns i1 (i1\<lparr>i_blocks := m1\<rparr>) st1 st2" using extended_grown [OF G(2) R(1) st1(3) p(1) st1(4)] g(3) R(6) by simp
      note E = extendedD [OF this]
      have "extended n x pb (insert b ns) i (i1\<lparr>i_blocks := m1\<rparr>) st st2"
      proof -
        have "fmap st2 (i1\<lparr>i_blocks := m1\<rparr>) y = fmap st i y" if "y \<noteq> x" for y using E(9) [OF that] R(4) [of y] D(1) by simp
        moreover have "blkv st2 y = blkv st y" if "y \<notin> bitmaps st" "y \<notin> file_inner st i" "y \<notin> insert b ns" for y
        proof -
          have "y \<notin> file_inner st1 i1" using R(3) that by blast
          then show ?thesis using E(10) [of y] G(5) [of y] that same_layout_derived(3) [OF G(3)] by auto
        qed
        moreover have "i1\<lparr>i_blocks := m1\<rparr> = i\<lparr>i_blocks := m1, i_block := (i_block i)[11 + d := b]\<rparr>" by (simp add: i1_def set_ptr_def)
        moreover have "file_nodes st2 (i1\<lparr>i_blocks := m1\<rparr>) = file_nodes st i \<union> insert b ns" "file_inner st2 (i1\<lparr>i_blocks := m1\<rparr>) \<subseteq> file_inner st i \<union> insert b ns"
          using E(4,5) R(2,3) by blast+
        moreover have "insert b ns \<subseteq> free_blocks st" "free_blocks st2 = free_blocks st - insert b ns" using E(6,7) G(1,4) by blast+
        ultimately show ?thesis unfolding extended_def using E(1,3,8) same_layout_trans [OF G(3) E(2)] by blast
      qed
      moreover have "bmap goal x True i st = Some ((pb, i1\<lparr>i_blocks := m1\<rparr>), st2)" using False p z a(1,2) g(1) by (simp add: bmap_def fbind_def i1_def)
      moreover have "card (insert b ns) \<le> 4" using card_insert_le_m1 [of 4 ns b] g(4) D(2) by simp
      ultimately show ?thesis using g(2) by blast
    qed
  qed
qed

section \<open>The property\<close>

text \<open>C18. \<open>bmap\<close> with \<open>alloc\<close>, for a file whose tree of pointers is well formed and a file block within the three
  levels of indirection, on a volume with four free blocks: it succeeds with a block other than 0, which is the one the
  file had there if it had one.  Afterwards, \<open>bmap\<close> without \<open>alloc\<close> finds that block and finds for every other file block
  what it found before; the tree is again well formed and has taken at most four blocks out of the free ones; every block
  that is neither a bitmap nor a pointer block of the file nor new keeps its contents; the counters are right.\<close>

theorem bmap_correct:
  assumes "volume n st" "ptrs_ok st i" "paged st" "goal < group_count st" "4 \<le> card (free_blocks st)" "x < 12 \<or> bmap_level st x \<noteq> None"
  shows "\<exists>b i1 st1. bmap goal x True i st = Some ((b, i1), st1) \<and> b \<noteq> 0 \<and> (fmap st i x \<noteq> 0 \<longrightarrow> b = fmap st i x) \<and>
    (\<forall>y. map_option fst (bmap goal y False i1 st1) = Some (if y = x then b else fmap st i y, i1)) \<and>
    (\<forall>y. map_option fst (bmap goal y False i st) = Some (fmap st i y, i)) \<and>
    ptrs_ok st1 i1 \<and> volume n st1 \<and> file_nodes st i \<subseteq> file_nodes st1 i1 \<and> card (free_blocks st) \<le> card (free_blocks st1) + 4 \<and>
    free_blocks st1 = free_blocks st - file_nodes st1 i1 \<and>
    (\<forall>y. y \<notin> bitmaps st \<and> y \<notin> file_inner st i \<and> y \<notin> free_blocks st \<longrightarrow> blkv st1 y = blkv st y)"
proof -
  have pp: "0 < ppb st" using assms(3) by (simp add: paged_def)
  obtain b ns i1 st1 where g: "bmap goal x True i st = Some ((b, i1), st1)" "b \<noteq> 0" "extended n x b ns i i1 st st1" "card ns \<le> 4"
    using bmap_grow [OF assms] by blast
  note E = extendedD [OF g(3)]
  have pp1: "0 < ppb st1" using pp same_layoutD(3) [OF E(2)] by simp
  have "b = fmap st i x" if "fmap st i x \<noteq> 0" using bmap_lookup [OF assms(1,2) pp, of True x goal] g(1) that by auto
  moreover have "map_option fst (bmap goal y False i1 st1) = Some (if y = x then b else fmap st i y, i1)" for y
    using bmap_lookup [OF E(1,3) pp1, of False y goal] E(8,9) by auto
  moreover have "map_option fst (bmap goal y False i st) = Some (fmap st i y, i)" for y
    using bmap_lookup [OF assms(1,2) pp, of False y goal] by auto
  moreover have "card (free_blocks st) \<le> card (free_blocks st1) + 4"
    using diff_card_le_card_Diff [of ns "free_blocks st"] E(6,7) g(4) finite_subset [OF E(6) finite_free_blocks [OF volumeD(2) [OF assms(1)]]] by simp
  moreover have "free_blocks st1 = free_blocks st - file_nodes st1 i1" using E(4,7) ptrs_okD(4) [OF assms(2)] heldD [OF assms(1)] by blast
  ultimately show ?thesis using g(1,2) E(1,3,4,6,10) by blast
qed

lemma blank_ptrs_ok: "ptrs_ok st blank_inode"
  by (auto simp: ptrs_ok_def file_nodes_def blank_inode_def lev_def)

lemma blank_fmap: "fmap st blank_inode y = 0"
proof (cases "y < 12 \<or> bmap_level st y = None")
  case False
  then obtain d rel where d: "12 \<le> y" "bmap_level st y = Some (d, rel)" by auto
  have "11 + d < 15" using bmap_levelD(2) [OF d(2,1)] by simp
  then show ?thesis using d by (simp add: fmap_def blank_inode_def)
qed (auto simp: fmap_def blank_inode_def)

text \<open>File block 300 lies below two pointer blocks.\<close>

theorem bmap_correct_witness:
  "\<exists>b i1 st1. bmap 0 300 True blank_inode small_ext2 = Some ((b, i1), st1) \<and> b \<noteq> 0 \<and> map_option fst (bmap 0 300 False i1 st1) = Some (b, i1) \<and>
     map_option fst (bmap 0 299 False i1 st1) = Some (0, i1) \<and> 9 \<le> card (free_blocks st1)"
proof -
  have p: "paged small_ext2" "0 < group_count small_ext2" "4 \<le> card (free_blocks small_ext2)" by (simp_all add: paged_def small_view small_free)
  have "bmap_level small_ext2 300 = Some (2, 32)" by (simp add: bmap_level_def span_def small_view Let_def)
  then have l: "300 < (12::nat) \<or> bmap_level small_ext2 300 \<noteq> None" by simp
  obtain b i1 st1 where a: "bmap 0 300 True blank_inode small_ext2 = Some ((b, i1), st1)" "b \<noteq> 0"
      "\<And>y. map_option fst (bmap 0 y False i1 st1) = Some (if y = 300 then b else fmap small_ext2 blank_inode y, i1)"
      "card (free_blocks small_ext2) \<le> card (free_blocks st1) + 4"
    using bmap_correct [OF small_volume_ok blank_ptrs_ok p l] by blast
  have "9 \<le> card (free_blocks st1)" using a(4) by (simp add: small_free)
  then show ?thesis using a(1,2) a(3) [of 300] a(3) [of 299] blank_fmap by auto
qed

end
