(* ===== verification/Spec2Isabelle.thy ===== *)
theory Spec2Isabelle
  imports Ramfs_Vfs Uaccess Cred Inflate_Correct Tcp_Correct Task_Run Cfs_Directory Cfs_Check Cfs_Boot Tar_Correct Fat32_Correct Ext2_Files Ext2_Map
begin

text \<open>
  Computer OS is a small 64-bit operating system in C.  Its kernel has a page allocator, page
  tables, a heap, tasks with a preemptive scheduler, a virtual file system with several file
  systems below it, a disk driver, a network stack and a gzip decompressor.  This development
  models the parts that carry the kernel's own logic and proves what each promises to the parts
  above it.  Paths below are relative to the repository's \<open>src\<close> directory.

  \<^bold>\<open>How the parts fit together.\<close>  The boot loader's memory map (\<open>memmap.c\<close>) feeds the page allocator
  (\<open>pmm.c\<close>); page tables (\<open>vmm.c\<close>) take their frames from it, and the kernel heap (\<open>kheap.c\<close>)
  maps pages to grow.  The RAM file system (\<open>ramfs.c\<close>) and the scheduler (\<open>task.c\<close>) keep their
  data in the heap.  The VFS (\<open>vfs.c\<close>) routes a path to a mounted file system through a table of
  functions; \<open>ramfs.c\<close>, \<open>cfs.c\<close>, \<open>fat32.c\<close> and \<open>ext2.c\<close> provide such tables.  CFS runs every operation as a journaled
  transaction over the sectors of the disk (\<open>ata.c\<close>), ext2 goes through a cache of blocks.  System calls reach user memory through
  \<open>uaccess.c\<close>, which relies on the page-fault handler in \<open>vmm.c\<close> and the dispatcher in \<open>isr.c\<close>.
  The TCP client (\<open>tcp.c\<close>) and the datagram layer (\<open>net.c\<close>, \<open>arp.c\<close>) share the rings of the
  network card's driver (\<open>e1000.c\<close>).

  \<^bold>\<open>Theories and what they model.\<close>
  \<^item> \<open>Prelude\<close>: integer types, arithmetic with wrap-around, \<open>'a option\<close> for routines that can run into
    undefined behaviour, generic lemmas.  \<open>CString\<close>: \<open>string.c\<close>.  \<open>Cred\<close>: \<open>cred.c\<close>.
  \<^item> \<open>Memmap\<close>, \<open>Pmm\<close>: boot memory map and page allocator (bitmap, counters, cursor).  The contract of
    a frame allocator is the locale of \<open>Frame_Alloc\<close>; \<open>pmm_alloc\<close> and \<open>pmm_free\<close> interpret it.
  \<^item> \<open>Vmm\<close>: page tables in physical memory, mapping, translation, address spaces.
    \<open>Uaccess\<close>: copies from and to user memory, page faults, \<open>isr_handler\<close>.
  \<^item> \<open>Kheap\<close> is the heap as written (a list of blocks linked in memory), \<open>Kheap_Lists\<close> the same on
    lists, \<open>Kheap_Correct\<close> relates them; \<open>Kernel_Heap\<close> interprets the allocator contract of
    \<open>Heap_Alloc\<close>, on which the RAM file system and the scheduler rest.
  \<^item> \<open>Vfs\<close>, \<open>Vfs_Paths\<close>, \<open>Vfs_Routing\<close>: path normalization, mounts, dispatch.  \<open>File_Store\<close> is the
    contract of a file system that stores whole files; \<open>Ramfs\<close>, \<open>Ramfs_Correct\<close> and \<open>Ramfs_Vfs\<close>
    show that \<open>ramfs.c\<close> meets it.
  \<^item> \<open>Bitstream\<close>, \<open>Huffman\<close>, \<open>Inflate\<close>, \<open>Inflate_Correct\<close>: \<open>inflate.c\<close>.
  \<^item> \<open>E1000\<close>, \<open>Packet\<close>, \<open>Net\<close>, \<open>Tcp\<close> with \<open>Net_Correct\<close> and \<open>Tcp_Correct\<close>: the network; the card's
    contract is a locale there.
  \<^item> \<open>Task\<close>: tasks at heap addresses, the ready ring and the zombie list through their \<open>next\<close> pointers.
    \<open>Task_Lists\<close>, \<open>Task_Correct\<close>, \<open>Task_Reap\<close>, \<open>Task_Exit\<close> carry the invariant through every operation,
    \<open>Task_Run\<close> has the runs of the whole scheduler.
  \<^item> \<open>Ata\<close>, \<open>Cfs_Disk\<close>, \<open>Cfs_Meta\<close>, \<open>Cfs_Dir\<close>, \<open>Cfs\<close>: disk sectors and \<open>cfs.c\<close> from the block layer to the
    table for the VFS.  An operation is a function of the state whose result \<open>None\<close> is the
    code's \<open>-1\<close>, with the changes made so far kept in the state.  \<open>Cfs_Journal\<close> is about power
    failures, \<open>Cfs_Alloc\<close> about the bitmaps (with the locale of block stores, interpreted by the raw
    disk and by the transaction), \<open>Cfs_File\<close> about file contents, \<open>Cfs_Names\<close> and \<open>Cfs_Directory\<close>
    about directories as maps (a locale of name stores, interpreted by them).  \<open>Cfs_Fsck\<close> is the
    consistency check and \<open>Cfs_Check\<close> what its clean report means; \<open>Cfs_Boot\<close> has partitions, mounting
    and the clock.
  \<^item> \<open>Bytes\<close>: little-endian fields of disk structures.  \<open>Fat32\<close> is the lower half of \<open>fat32.c\<close> (table, chains,
    short and long names, walks of a directory), \<open>Fat32_Files\<close> the upper half (paths and the operations).
    \<open>Heap_Buffers\<close> lifts the allocator contract to routines that take a buffer and give it back; \<open>Fat32_Names\<close>,
    \<open>Fat32_Chain\<close>, \<open>Fat32_Dir\<close> and \<open>Fat32_Correct\<close> are about long names, chains, directory walks and files.
  \<^item> \<open>Ext2\<close>, \<open>Ext2_Inode\<close>, \<open>Ext2_Files\<close>: \<open>ext2.c\<close> from the block cache and the bitmaps over inodes, the tree of
    block pointers and directories to paths, the operations and mounting.  \<open>Ext2_Cache\<close> has the contract of a
    write-through cache as a locale, interpreted by the cache of the driver; on it rest \<open>Ext2_Alloc\<close> (bitmaps and
    counters, another instance of the frame allocator's contract), \<open>Ext2_Tree\<close> and \<open>Ext2_Map\<close> (the pointer tree
    and its growth).
  \<^item> \<open>Platform\<close> has the partition table and the clock, which the disk file systems share; \<open>Fs_Ops\<close> composes
    their operations and gives them buffers of the heap.
  \<^item> \<open>Tar\<close>, \<open>Tar_Correct\<close>: the archive extractor \<open>tar.c\<close> over the VFS, the heap and the decompressor.

  \<^bold>\<open>What is shown.\<close>  Memory: no frame and no heap area is given out twice, mapping a page changes
  the translation of that page only, releasing restores what was there, and the heap's lists
  refine first fit with coalescing.  User memory: a copy returns for every pointer and moves
  exactly the user's bytes or fails.  Files: resolved paths are normal forms, the longest mount
  prefix wins, and what is written is read back, through the VFS down to the heap and in CFS
  down to the sectors of the disk.  A CFS commit that is cut off by any number of power
  failures, recovery included, takes effect wholly or not at all, and directories are finite
  maps through all their splitting and merging of records.  A clean report of the consistency
  check, when nothing on the volume makes its 32-bit counters wrap, means that the bitmaps on disk are
  exact.  In FAT32, with enough vacant clusters a write in the working directory succeeds, a read
  returns the data, the other entries of the directory stay as they are and so do all chains that have
  no cluster in common with the replaced file.  In ext2 the cache answers like the disk, the allocator keeps
  bitmaps and counters in agreement, and mapping a file block changes that block of the file only.
  An archive is extracted entry by entry.  Decompression: compressed
  blocks decode to what the encoder had, the output stays within its capacity on every input
  and the loops end.  Network: datagrams and segments survive the wire format, and the TCP receiver
  delivers an initial part of the peer's stream whatever the network loses, repeats or
  reorders.  Scheduler: along all runs of whole operations no task is lost or duplicated,
  and no operation touches freed memory but the exit of a task whose parent has been freed; a ready
  task runs within one round of ticks, and an exit status reaches the parent.
  Several theorems state where the code does less than it means to: an allocation close to 4 GB wraps
  around, an exit reads its freed parent, an archive exists on which the extractor never returns, and
  a long FAT32 name is taken for the file of its truncated form.

  \<^bold>\<open>Bounds and fuel.\<close>  Loops over data are structural or have a measure.  Walks along pointers
  in the heap and the rings, which end only on well-formed memory, carry fuel or are partial
  functions; the theorems state that they return on states that satisfy the invariant.  The
  loop over gzip blocks is bounded by the number of input bits.  Waiting for the network is a
  list of arrivals that the network provides.  Sizes keep their widths where the code could
  wrap; block numbers and times of CFS are natural numbers below the bounds in the theorems.

  \<^bold>\<open>Interleaving.\<close>  The steps of a run of the scheduler are whole operations.  Ticks, yields, passes of a
  wait and exits run with interrupts disabled in the code; the creation of a task allocates with
  interrupts enabled and is one step nevertheless, so preemption in the middle of an allocation is
  not covered.  A run ends with an exit that halts the processor.

  \<^bold>\<open>Parameters.\<close>  The network card, the PCI lookup, the file systems behind the VFS and the
  contents of the disk are arguments of the definitions.  The clock of CFS is a field of its state.

  \<^bold>\<open>Not modelled.\<close>  Output to the console, framebuffer and serial port (\<open>printf.c\<close>, \<open>console.c\<close>,
  \<open>fbcon.c\<close>, \<open>vga.c\<close>, \<open>gfx.c\<close>), descriptor tables and port access of the device drivers, the assembly
  entry points, the shell and the editor are input and output.  The system-call layer (\<open>linux_syscall.c\<close>), the ELF loader, \<open>procfs.c\<close> and \<open>devfs.c\<close> and the
  user-space library are outside the development.
\<close>

section \<open>Files through the VFS and the ramfs\<close>

text \<open>C4. Through the VFS: data written to a path below the mount point of the ramfs is
  what a later read of any path that routes to the same file returns, cut to the size of
  the reader's buffer; a read that routes to another file returns what was there before.\<close>

theorem vfs_ramfs_write_read:
  assumes "resolve_route s p = Some (i, sub)" "resolve_route s q = Some (i, sub')"
    and "ops_at s i = ramfs_vfs_ops" "ramfs_path sub" "ramfs_path sub'" "ramfs_inv (world s)"
    and "length d \<le> RAMFS_MAX_SIZE" "vfs_write_file s p d = Some (r, s')" "0 \<le> r"
  shows "\<exists>s''. vfs_read_file s' q n = Some (
    if sub' = sub then (int (length (take n d)), take n d)
    else (case contents (world s) (bare sub') of None \<Rightarrow> (-1, []) | Some e \<Rightarrow> (int (length (take n e)), take n e)), s'')"
proof -
  have "ramfs.routed s p i sub" "ramfs.routed s q i sub'" using assms(1-5) by (simp_all add: ramfs.routed_def)
  from ramfs.write_read [OF this assms(6-9)] show ?thesis by (simp only: stored_at_def)
qed

theorem vfs_ramfs_write_read_witness:
  "\<exists>s' s''. vfs_write_file sample_tmp ''/tmp/x'' [7] = Some (1, s') \<and>
     vfs_read_file s' ''/tmp/x'' 10 = Some ((1, [7]), s'')"
proof -
  obtain s' where s': "vfs_write_file sample_tmp ''/tmp/x'' [7] = Some (1, s')" using sample_vfs_write by blast
  have "ramfs_inv (world sample_tmp)" using sample_ram_inv by (simp add: sample_tmp_def)
  from vfs_ramfs_write_read [OF sample_route(1) sample_route(1) sample_ops_at(1) _ _ this _ s', of 10]
  show ?thesis using s' by (simp add: ramfs_path_def)
qed

end
